(* ===== verification/Mycel_Prelude.thy ===== *)
theory Mycel_Prelude
  imports Main "HOL-Library.Word" "HOL-Library.Char_ord" "HOL-Library.List_Lexorder"
    "HOL-Library.AList"
begin

text \<open>
  Shared ground of the development: the names of the machine types, the Go library functions that
  several packages of the repository use (fixed-width big-endian integers, \<open>crc32\<close>, decimal and
  hexadecimal formatting, \<open>sort.Search\<close>, \<open>strings.TrimSpace\<close>), cancellation of a
  \<open>context.Context\<close>, times, and the lemmas on digits, words, lists and association lists that the
  component theories use.

  Go strings are byte sequences, so they are \<^typ>\<open>string\<close> (a list of 8-bit characters); their
  \<open><\<close> is the lexicographic order of \<open>List_Lexorder\<close> over \<open>Char_ord\<close>.
  A \<open>uuid.UUID\<close> is sixteen bytes; it is a 128-bit word, whose order is \<open>bytes.Compare\<close>.
\<close>

unbundle bit_operations_syntax

named_theorems codec_simps \<open>decoders applied to what the matching encoder wrote\<close>
named_theorems wal_defs \<open>definitions of the write-ahead log model\<close>

type_synonym byte = "8 word"
type_synonym bytes = "byte list"
type_synonym u16 = "16 word"
type_synonym u32 = "32 word"
type_synonym u64 = "64 word"
type_synonym uuid = "128 word"

text \<open>\<open>ctx.Err()\<close>: \<^const>\<open>None\<close> while the context is live.\<close>

datatype ctx_error = Canceled | DeadlineExceeded

type_synonym ctx = "ctx_error option"

text \<open>
  \<open>time.Time\<close>: the zero time, or the instant whose \<open>UnixNano\<close> is the given 64-bit value
  (read as two's complement). Every time the repository handles is one of the two: an instant
  outside that range has no defined \<open>UnixNano\<close>. The zero time (year 1) precedes every other.
\<close>

datatype gotime = ZeroTime | AtNano u64

fun time_after :: "gotime \<Rightarrow> gotime \<Rightarrow> bool" where
  "time_after ZeroTime u = False"
| "time_after (AtNano a) ZeroTime = True"
| "time_after (AtNano a) (AtNano b) = (sint b < sint a)"

lemma time_after_trans: "time_after a b \<Longrightarrow> time_after b c \<Longrightarrow> time_after a c"
  by (cases a; cases b; cases c) auto

lemma time_not_after_trans: "\<not> time_after a b \<Longrightarrow> \<not> time_after b c \<Longrightarrow> \<not> time_after a c"
  by (cases a; cases b; cases c) auto

section \<open>Fixed-width digits\<close>

text \<open>The \<open>n\<close> least significant base-\<open>b\<close> digits of \<open>x\<close>, most significant first.\<close>

fun digits_fix :: "nat \<Rightarrow> nat \<Rightarrow> nat \<Rightarrow> nat list" where
  "digits_fix b 0 x = []"
| "digits_fix b (Suc n) x = digits_fix b n (x div b) @ [x mod b]"

definition undigits :: "nat \<Rightarrow> nat list \<Rightarrow> nat" where
  "undigits b ds = foldl (\<lambda>a d. a * b + d) 0 ds"

lemma length_digits_fix [simp]: "length (digits_fix b n x) = n"
  by (induction b n x rule: digits_fix.induct) auto

lemma digits_fix_small:
  "digits_fix b 2 x = [x div b mod b, x mod b]"
  "digits_fix b 3 x = [x div b div b mod b, x div b mod b, x mod b]"
  "digits_fix b 4 x = [x div b div b div b mod b, x div b div b mod b, x div b mod b, x mod b]"
  by (simp_all add: eval_nat_numeral)

lemma undigits_Nil [simp]: "undigits b [] = 0"
  by (simp add: undigits_def)

lemma undigits_snoc [simp]: "undigits b (ds @ [d]) = undigits b ds * b + d"
  by (simp add: undigits_def)

lemma undigits_digits_fix: "x < b ^ n \<Longrightarrow> undigits b (digits_fix b n x) = x"
proof (induction n arbitrary: x)
  case 0
  then show ?case by simp
next
  case (Suc n)
  from Suc.prems have "x div b < b ^ n"
    by (metis less_mult_imp_div_less mult.commute power_Suc)
  with Suc.IH have "undigits b (digits_fix b n (x div b)) = x div b" by blast
  then show ?case by simp
qed

lemma digits_fix_less_base: "0 < b \<Longrightarrow> d \<in> set (digits_fix b n x) \<Longrightarrow> d < b"
  by (induction n arbitrary: x) auto

lemma digits_fix_inj: "x < b ^ n \<Longrightarrow> y < b ^ n \<Longrightarrow> digits_fix b n x = digits_fix b n y \<Longrightarrow> x = y"
  by (metis undigits_digits_fix)

text \<open>Lists of one length compare position by position.\<close>

lemma append_less_append_same_length:
  fixes xs ys us vs :: "'a::linorder list"
  assumes "length xs = length ys"
  shows "xs @ us < ys @ vs \<longleftrightarrow> xs < ys \<or> (xs = ys \<and> us < vs)"
  using assms by (induction xs ys rule: list_induct2) auto

lemma digits_fix_less_iff:
  assumes "0 < b" "x < b ^ n" "y < b ^ n"
  shows "digits_fix b n x < digits_fix b n y \<longleftrightarrow> x < y"
  using assms(2,3)
proof (induction n arbitrary: x y)
  case 0
  then show ?case by simp
next
  case (Suc n)
  from Suc.prems have q: "x div b < b ^ n" "y div b < b ^ n"
    by (metis less_mult_imp_div_less mult.commute power_Suc)+
  have eq: "digits_fix b n (x div b) = digits_fix b n (y div b) \<longleftrightarrow> x div b = y div b"
    using digits_fix_inj [OF q] by auto
  have "x < y \<longleftrightarrow> x div b < y div b \<or> (x div b = y div b \<and> x mod b < y mod b)"
  proof -
    have x: "x = x div b * b + x mod b" and y: "y = y div b * b + y mod b" by simp_all
    have "x div b < y div b \<Longrightarrow> x < y"
      by (meson div_le_mono leD leI)
    moreover have "x < y \<Longrightarrow> x div b \<le> y div b" by (simp add: div_le_mono)
    ultimately show ?thesis
      by (metis add_less_cancel_left le_neq_implies_less x y)
  qed
  with Suc.IH [OF q] eq show ?case
    by (simp add: append_less_append_same_length)
qed

lemma map_less_iff:
  fixes f :: "'a::linorder \<Rightarrow> 'b::linorder"
  assumes "length xs = length ys"
    and "\<And>x y. x \<in> set xs \<Longrightarrow> y \<in> set ys \<Longrightarrow> f x < f y \<longleftrightarrow> x < y"
    and "\<And>x y. x \<in> set xs \<Longrightarrow> y \<in> set ys \<Longrightarrow> f x = f y \<longleftrightarrow> x = y"
  shows "map f xs < map f ys \<longleftrightarrow> xs < ys"
  using assms by (induction xs ys rule: list_induct2) auto

section \<open>Big-endian integers (\<open>encoding/binary\<close>)\<close>

definition be_enc :: "nat \<Rightarrow> nat \<Rightarrow> bytes" where
  "be_enc n x = map of_nat (digits_fix 256 n x)"

definition be_dec :: "bytes \<Rightarrow> nat" where
  "be_dec bs = undigits 256 (map unat bs)"

lemma length_be_enc [simp]: "length (be_enc n x) = n"
  by (simp add: be_enc_def)

lemma be_dec_enc [simp]: "x < 256 ^ n \<Longrightarrow> be_dec (be_enc n x) = x"
proof -
  assume x: "x < 256 ^ n"
  have "map (unat \<circ> (of_nat :: nat \<Rightarrow> byte)) (digits_fix 256 n x) = digits_fix 256 n x"
    by (rule map_idI) (auto dest!: digits_fix_less_base [of 256, simplified] simp: unat_of_nat)
  then show ?thesis
    using x by (simp add: be_dec_def be_enc_def undigits_digits_fix)
qed

lemma unat_of_nat_small:
  "n < 2 ^ 8 \<Longrightarrow> unat (of_nat n :: byte) = n" "n < 2 ^ 16 \<Longrightarrow> unat (of_nat n :: u16) = n"
  "n < 2 ^ 32 \<Longrightarrow> unat (of_nat n :: u32) = n" "n < 2 ^ 64 \<Longrightarrow> unat (of_nat n :: u64) = n"
  by (simp_all add: unat_of_nat)

definition put_u16 :: "u16 \<Rightarrow> bytes" where "put_u16 w = be_enc 2 (unat w)"
definition put_u32 :: "u32 \<Rightarrow> bytes" where "put_u32 w = be_enc 4 (unat w)"
definition put_u64 :: "u64 \<Rightarrow> bytes" where "put_u64 w = be_enc 8 (unat w)"
definition put_uuid :: "uuid \<Rightarrow> bytes" where "put_uuid w = be_enc 16 (unat w)"

definition get_u16 :: "bytes \<Rightarrow> u16" where "get_u16 bs = of_nat (be_dec bs)"
definition get_u32 :: "bytes \<Rightarrow> u32" where "get_u32 bs = of_nat (be_dec bs)"
definition get_u64 :: "bytes \<Rightarrow> u64" where "get_u64 bs = of_nat (be_dec bs)"
definition get_uuid :: "bytes \<Rightarrow> uuid" where "get_uuid bs = of_nat (be_dec bs)"

lemma length_put [simp]:
  "length (put_u16 a) = 2" "length (put_u32 b) = 4" "length (put_u64 c) = 8"
  "length (put_uuid d) = 16"
  by (simp_all add: put_u16_def put_u32_def put_u64_def put_uuid_def)

lemma unat_lt_256_pow:
  "unat (a :: u16) < 256 ^ 2" "unat (b :: u32) < 256 ^ 4" "unat (c :: u64) < 256 ^ 8"
  "unat (d :: uuid) < 256 ^ 16"
  using unsigned_less [of a, where ?'a = nat] unsigned_less [of b, where ?'a = nat]
    unsigned_less [of c, where ?'a = nat] unsigned_less [of d, where ?'a = nat] by simp_all

lemma word_unat_inverse [simp]: "of_nat (unat w) = (w :: 'a::len word)"
  by simp

lemma get_put [simp, codec_simps]:
  "get_u16 (put_u16 a) = a" "get_u32 (put_u32 b) = b" "get_u64 (put_u64 c) = c"
  "get_uuid (put_uuid d) = d"
  by (simp_all only: get_u16_def put_u16_def get_u32_def put_u32_def get_u64_def put_u64_def
      get_uuid_def put_uuid_def be_dec_enc unat_lt_256_pow word_unat_inverse)

text \<open>Go strings and byte slices: \<open>[]byte(s)\<close> and \<open>string(b)\<close>; \<open>b[i:j]\<close>.\<close>

definition bytes_of :: "string \<Rightarrow> bytes" where "bytes_of s = map (\<lambda>c. of_nat (of_char c)) s"
definition string_of :: "bytes \<Rightarrow> string" where "string_of bs = map (\<lambda>b. char_of (unat b)) bs"

lemma length_bytes_of [simp]: "length (bytes_of s) = length s"
  by (simp add: bytes_of_def)

lemma length_string_of [simp]: "length (string_of s) = length s"
  by (simp add: string_of_def)

lemma unat_of_char_byte [simp]: "unat (of_nat (of_char c) :: byte) = of_char c"
  by (simp add: unat_of_nat)

lemma string_of_bytes_of [simp, codec_simps]: "string_of (bytes_of s) = s"
  by (simp add: string_of_def bytes_of_def comp_def)

lemma bytes_of_string_of [simp]: "bytes_of (string_of bs) = bs"
proof -
  have "(of_nat (of_char (char_of (unat b) :: char)) :: byte) = b" for b :: byte
    using unsigned_less [of b, where ?'a = nat] by simp
  then show ?thesis by (simp add: string_of_def bytes_of_def comp_def)
qed

lemma bytes_of_eq_Nil [simp]: "bytes_of s = [] \<longleftrightarrow> s = []"
  by (simp add: bytes_of_def)

definition bslice :: "nat \<Rightarrow> nat \<Rightarrow> 'a list \<Rightarrow> 'a list" where
  "bslice i j xs = take (j - i) (drop i xs)"

lemma bslice_append:
  "length xs = i \<Longrightarrow> length ys = j - i \<Longrightarrow> bslice i j (xs @ ys @ zs) = ys"
  by (simp add: bslice_def)

lemma bslice_prefix: "length xs = j \<Longrightarrow> bslice 0 j (xs @ zs) = xs"
  by (simp add: bslice_def)

section \<open>Checksums (\<open>hash/crc32\<close>)\<close>

text \<open>
  The reflected CRC-32 that \<open>hash/crc32\<close> computes: one table-free step per bit, the register
  inverted at both ends. \<open>crc32.Castagnoli\<close> and \<open>crc32.IEEE\<close> are the reversed polynomials.
\<close>

fun crc_bits :: "u32 \<Rightarrow> nat \<Rightarrow> u32 \<Rightarrow> u32" where
  "crc_bits poly 0 c = c"
| "crc_bits poly (Suc n) c =
     crc_bits poly n (if c AND 1 = 1 then drop_bit 1 c XOR poly else drop_bit 1 c)"

definition crc_update :: "u32 \<Rightarrow> u32 \<Rightarrow> byte \<Rightarrow> u32" where
  "crc_update poly c b = crc_bits poly 8 (c XOR ucast b)"

definition crc32 :: "u32 \<Rightarrow> bytes \<Rightarrow> u32" where
  "crc32 poly bs = NOT (foldl (crc_update poly) (NOT 0) bs)"

definition castagnoli :: u32 where "castagnoli = 0x82f63b78"
definition ieee :: u32 where "ieee = 0xedb88320"

section \<open>Decimal strings (\<open>fmt\<close>, \<open>strconv\<close>)\<close>

definition digit_char :: "nat \<Rightarrow> char" where
  "digit_char d = char_of (48 + d)"

fun dec_string :: "nat \<Rightarrow> string" where
  "dec_string n =
     (if n < 10 then [digit_char n] else dec_string (n div 10) @ [digit_char (n mod 10)])"

declare dec_string.simps [simp del]

text \<open>\<open>%0wd\<close>: at least \<open>w\<close> digits.\<close>

definition pad_dec :: "nat \<Rightarrow> nat \<Rightarrow> string" where
  "pad_dec w n = (let s = dec_string n in replicate (w - length s) (CHR ''0'') @ s)"

definition is_digit :: "char \<Rightarrow> bool" where
  "is_digit c \<longleftrightarrow> 48 \<le> (of_char c :: nat) \<and> (of_char c :: nat) \<le> 57"

definition digit_val :: "char \<Rightarrow> nat" where
  "digit_val c = of_char c - 48"

text \<open>\<open>strconv.ParseUint(s, 10, 64)\<close>.\<close>

definition parse_uint64 :: "string \<Rightarrow> u64 option" where
  "parse_uint64 s =
     (if s = [] \<or> \<not> list_all is_digit s then None
      else let v = undigits 10 (map digit_val s)
           in if v < 2 ^ 64 then Some (of_nat v) else None)"

lemma digit_char_val [simp]: "d < 10 \<Longrightarrow> digit_val (digit_char d) = d"
  by (simp add: digit_val_def digit_char_def)

lemma is_digit_digit_char [simp]: "d < 10 \<Longrightarrow> is_digit (digit_char d)"
  by (simp add: is_digit_def digit_char_def)

lemma dec_string_nonempty [simp]: "dec_string n \<noteq> []"
  by (subst dec_string.simps) simp

lemma dec_string_digits: "list_all is_digit (dec_string n)"
proof (induction n rule: dec_string.induct)
  case (1 n)
  then show ?case by (subst dec_string.simps) auto
qed

lemma undigits_dec_string: "undigits 10 (map digit_val (dec_string n)) = n"
proof (induction n rule: dec_string.induct)
  case (1 n)
  show ?case
  proof (cases "n < 10")
    case True
    then show ?thesis
      using undigits_snoc [of 10 "[]" n] by (subst dec_string.simps) simp
  next
    case False
    with 1 show ?thesis by (subst dec_string.simps) simp
  qed
qed

lemma undigits_replicate_0: "undigits b (replicate k 0 @ ds) = undigits b ds"
  by (induction k) (auto simp: undigits_def)

lemma parse_uint64_pad_dec [simp]: "parse_uint64 (pad_dec w (unat x)) = Some x"
proof -
  have zero: "digit_val (CHR ''0'') = 0" "is_digit (CHR ''0'')"
    by (simp_all add: digit_val_def is_digit_def)
  have "unat x < 2 ^ 64"
    using unsigned_less [of x, where ?'a = nat] by simp
  then show ?thesis
    using dec_string_digits [of "unat x"]
    by (auto simp: parse_uint64_def pad_dec_def Let_def zero undigits_replicate_0
        undigits_dec_string list_all_iff)
qed

section \<open>Trimming and case (\<open>strings\<close>)\<close>

text \<open>
  \<open>strings.TrimSpace\<close> on UTF-8 text: the encodings of the Unicode white space characters are removed
  at both ends.
\<close>

definition space_runes :: "string list" where
  "space_runes = map (map char_of)
     ([[9::nat], [10], [11], [12], [13], [32], [0xC2, 0x85], [0xC2, 0xA0], [0xE1, 0x9A, 0x80]]
      @ map (\<lambda>k. [0xE2, 0x80, 0x80 + k]) [0..<11]
      @ [[0xE2, 0x80, 0xA8], [0xE2, 0x80, 0xA9], [0xE2, 0x80, 0xAF], [0xE2, 0x81, 0x9F],
         [0xE3, 0x80, 0x80]])"

definition starts_with :: "'a list \<Rightarrow> 'a list \<Rightarrow> bool" where
  "starts_with p s \<longleftrightarrow> take (length p) s = p"

fun trim_start :: "string list \<Rightarrow> nat \<Rightarrow> string \<Rightarrow> string" where
  "trim_start rs 0 s = s"
| "trim_start rs (Suc n) s =
     (case find (\<lambda>r. starts_with r s) rs of
        None \<Rightarrow> s
      | Some r \<Rightarrow> trim_start rs n (drop (length r) s))"

definition TrimSpace :: "string \<Rightarrow> string" where
  "TrimSpace s =
     (let l = trim_start space_runes (length s) s
      in rev (trim_start (map rev space_runes) (length l) (rev l)))"

text \<open>
  \<open>strings.ToLower\<close>, with the two characters outside ASCII whose lower case is in ASCII. The other
  characters outside ASCII are left as they are; the repository compares the result with ASCII
  keywords only where this definition is used.
\<close>

definition lower_char :: "char \<Rightarrow> char" where
  "lower_char c =
     (let n = of_char c :: nat in if 65 \<le> n \<and> n \<le> 90 then char_of (n + 32) else c)"

fun ToLower :: "string \<Rightarrow> string" where
  "ToLower [] = []"
| "ToLower (c # s) =
     (if starts_with (map char_of [0xC4::nat, 0xB0]) (c # s) then CHR ''i'' # ToLower (tl s)
      else if starts_with (map char_of [0xE2::nat, 0x84, 0xAA]) (c # s)
      then CHR ''k'' # ToLower (tl (tl s))
      else lower_char c # ToLower s)"

lemma trim_start_none: "find (\<lambda>r. starts_with r s) rs = None \<Longrightarrow> trim_start rs n s = s"
  by (cases n) auto

text \<open>Text that starts and ends with a printable ASCII character has nothing to trim.\<close>

definition plain_char :: "char \<Rightarrow> bool" where
  "plain_char c \<longleftrightarrow> 32 < (of_char c :: nat) \<and> (of_char c :: nat) < 128"

lemma space_runes_not_plain:
  "\<forall>r \<in> set space_runes. r \<noteq> [] \<and> \<not> plain_char (hd r) \<and> \<not> plain_char (last r)"
proof -
  have "[0..<11] = [0, 1, 2, 3, 4, 5, 6, 7, 8, 9, 10 :: nat]" by code_simp
  then show ?thesis by (simp add: space_runes_def plain_char_def)
qed

lemma find_plain:
  assumes "\<forall>r \<in> set rs. r \<noteq> [] \<and> \<not> plain_char (hd r)" "s \<noteq> []" "plain_char (hd s)"
  shows "find (\<lambda>r. starts_with r s) rs = None"
proof -
  have "\<not> starts_with r s" if "r \<in> set rs" for r
    using assms that by (cases r; cases s) (auto simp: starts_with_def)
  then show ?thesis by (simp add: find_None_iff)
qed

lemma TrimSpace_plain:
  assumes "s \<noteq> []" "plain_char (hd s)" "plain_char (last s)"
  shows "TrimSpace s = s"
proof -
  have "trim_start space_runes n s = s" for n
    using space_runes_not_plain assms by (intro trim_start_none find_plain) auto
  moreover have "trim_start (map rev space_runes) n (rev s) = rev s" for n
    using space_runes_not_plain assms by (intro trim_start_none find_plain) (auto simp: hd_rev)
  ultimately show ?thesis by (simp add: TrimSpace_def Let_def)
qed

definition lower_plain :: "char \<Rightarrow> bool" where
  "lower_plain c \<longleftrightarrow> (of_char c :: nat) < 128 \<and> \<not> (65 \<le> (of_char c :: nat) \<and> (of_char c :: nat) \<le> 90)"

lemma ToLower_plain: "list_all lower_plain s \<Longrightarrow> ToLower s = s"
proof (induction s)
  case (Cons c s)
  have "(of_char c :: nat) < 128" using Cons(2) by (simp add: lower_plain_def)
  then have "c \<noteq> char_of (0xC4::nat)" "c \<noteq> char_of (0xE2::nat)" by auto
  with Cons show ?case by (auto simp: starts_with_def lower_char_def lower_plain_def)
qed simp

section \<open>File tables\<close>

text \<open>A directory is the association list of its regular files; appending to a file and removing it.\<close>

type_synonym file_table = "(string \<times> bytes) list"

definition file_content :: "file_table \<Rightarrow> string \<Rightarrow> bytes" where
  "file_content d n = (case map_of d n of None \<Rightarrow> [] | Some c \<Rightarrow> c)"

definition file_append :: "string \<Rightarrow> bytes \<Rightarrow> file_table \<Rightarrow> file_table" where
  "file_append n bs d = AList.update n (file_content d n @ bs) d"

definition file_truncate :: "string \<Rightarrow> nat \<Rightarrow> file_table \<Rightarrow> file_table" where
  "file_truncate n k d = AList.update n (take k (file_content d n)) d"

definition file_create :: "string \<Rightarrow> file_table \<Rightarrow> file_table" where
  "file_create n d = (if map_of d n = None then d @ [(n, [])] else d)"

lemma AList_update_snoc:
  "n \<notin> fst ` set d \<Longrightarrow> AList.update n c (d @ [(n, c')]) = d @ [(n, c)]"
  by (induction d) auto

lemma file_content_snoc: "n \<notin> fst ` set d \<Longrightarrow> file_content (d @ [(n, c)]) n = c"
  by (simp add: file_content_def map_add_def map_of_eq_None_iff [THEN iffD2])

end
