(* ===== verification/Filestore.thy ===== *)
theory Filestore
  imports Mycel_Prelude
begin

text \<open>
  Atomic replacement of a file (\<open>internal/filestore/write.go\<close>). The file under a path is
  \<^const>\<open>None\<close> when it does not exist; \<open>'d\<close> is what it holds. Each system call of
  \<open>WriteFileAtomic\<close> may be the first one to fail; the temporary file is removed on return, so the
  only lasting effect is the rename.
\<close>

datatype io_step =
    MkdirAll | CreateTemp | TmpWrite | TmpChmod | TmpSync | TmpClose | Rename
  | OpenDir | DirSync | DirClose

primrec before_rename :: "io_step \<Rightarrow> bool" where
  "before_rename MkdirAll = True"
| "before_rename CreateTemp = True"
| "before_rename TmpWrite = True"
| "before_rename TmpChmod = True"
| "before_rename TmpSync = True"
| "before_rename TmpClose = True"
| "before_rename Rename = True"
| "before_rename OpenDir = False"
| "before_rename DirSync = False"
| "before_rename DirClose = False"

definition WriteFileAtomic ::
  "io_step option \<Rightarrow> 'd \<Rightarrow> 'd option \<Rightarrow> io_step option \<times> 'd option" where
  "WriteFileAtomic fails data target =
     (case fails of
        None \<Rightarrow> (None, Some data)
      | Some s \<Rightarrow> (Some s, if before_rename s then target else Some data))"

lemma WriteFileAtomic_ok: "WriteFileAtomic fails d t = (None, t') \<Longrightarrow> t' = Some d"
  by (auto simp: WriteFileAtomic_def split: option.splits)

lemma WriteFileAtomic_all_or_nothing: "WriteFileAtomic fails d t = (e, t') \<Longrightarrow> t' = t \<or> t' = Some d"
  by (auto simp: WriteFileAtomic_def split: option.splits if_splits)

end
