(* ===== verification/Wal_Codec.thy ===== *)
theory Wal_Codec
  imports Filestore
begin

text \<open>
  The frame format of the write-ahead log (\<open>internal/wal/codec.go\<close>, with the types of
  \<open>record.go\<close>, \<open>lsn.go\<close> and \<open>errors.go\<close>). A frame is magic, version and length (10 bytes), the
  record body and a CRC-32C of everything before it. \<open>decodeFrame\<close> reads one frame from a reader,
  here the list of the bytes that are left, and says whether the input ended between two frames
  (\<open>FrameEOF\<close>), inside one (\<open>FrameTorn\<close>) or is corrupt.
\<close>

type_synonym lsn = u64

definition lsn_next :: "lsn \<Rightarrow> lsn" where
  "lsn_next l = l + 1"

record wal_record =
  r_LSN :: lsn
  r_Type :: string
  r_SchemaVersion :: u16
  r_Timestamp :: gotime
  r_Encoding :: byte
  r_Payload :: bytes

record pending_record =
  p_Type :: string
  p_SchemaVersion :: u16
  p_Timestamp :: gotime
  p_Encoding :: byte
  p_Payload :: bytes

datatype wal_error =
    ErrCorrupt string
  | ErrInvalidRecord string
  | ErrIteratorClosed
  | ErrUnexpectedEOF
  | ErrShortWrite
  | ErrCtx ctx_error
  | ErrEncryption
  | ErrApply string
  | ErrIO io_step
  | ErrJSON

section \<open>Layout constants\<close>

definition frameMagic :: u32 where "frameMagic = 0x4d57414c"
definition frameVersion :: u16 where "frameVersion = 1"
definition frameHeaderLen :: nat where "frameHeaderLen = 10"
definition frameCRCLen :: nat where "frameCRCLen = 4"
definition maxRecordTypeLen :: nat where "maxRecordTypeLen = 0xffff"
definition maxFrameLen :: nat where "maxFrameLen = 128 * 1024 * 1024"
definition frameBodyTypeOffset :: nat where "frameBodyTypeOffset = 21"
definition frameBodyPayloadLenLen :: nat where "frameBodyPayloadLenLen = 4"
definition frameBodyFixedLen :: nat where "frameBodyFixedLen = 25"
definition PayloadEncodingJSON :: byte where "PayloadEncodingJSON = 1"

lemmas frame_consts = frameHeaderLen_def frameCRCLen_def maxRecordTypeLen_def maxFrameLen_def
  frameBodyTypeOffset_def frameBodyPayloadLenLen_def frameBodyFixedLen_def

section \<open>Encoding\<close>

text \<open>\<open>Timestamp.UTC().UnixNano()\<close>; for the zero time the value the Go runtime computes.\<close>

fun unix_nano :: "gotime \<Rightarrow> u64" where
  "unix_nano ZeroTime = - 6795364578871345152"
| "unix_nano (AtNano n) = n"

text \<open>The defaults \<open>encodeFrame\<close> fills in: encoding, then the timestamp from the clock \<open>now\<close>.\<close>

definition frame_defaults :: "gotime \<Rightarrow> wal_record \<Rightarrow> wal_record" where
  "frame_defaults now rec = rec\<lparr>
     r_Encoding := (if r_Encoding rec = 0 then PayloadEncodingJSON else r_Encoding rec),
     r_Timestamp := (if r_Timestamp rec = ZeroTime then now else r_Timestamp rec)\<rparr>"

definition frame_body :: "wal_record \<Rightarrow> bytes" where
  "frame_body rec =
     put_u64 (r_LSN rec) @ put_u64 (unix_nano (r_Timestamp rec)) @ put_u16 (r_SchemaVersion rec)
     @ [r_Encoding rec] @ put_u16 (of_nat (length (r_Type rec))) @ bytes_of (r_Type rec)
     @ put_u32 (of_nat (length (r_Payload rec))) @ r_Payload rec"

definition frame_header :: "nat \<Rightarrow> bytes" where
  "frame_header bodyLen =
     put_u32 frameMagic @ put_u16 frameVersion @ put_u32 (of_nat (bodyLen + frameCRCLen))"

definition encodeFrame :: "gotime \<Rightarrow> wal_record \<Rightarrow> wal_error + bytes" where
  "encodeFrame now rec0 =
     (if r_LSN rec0 = 0 \<or> r_Type rec0 = [] \<or> r_SchemaVersion rec0 = 0 \<or> r_Payload rec0 = []
      then Inl (ErrInvalidRecord '''')
      else if length (bytes_of (r_Type rec0)) > maxRecordTypeLen
      then Inl (ErrInvalidRecord ''record type too long'')
      else
        (let rec = frame_defaults now rec0;
             bodyLen = frameBodyFixedLen + length (bytes_of (r_Type rec)) + length (r_Payload rec)
         in if bodyLen + frameCRCLen > maxFrameLen
            then Inl (ErrInvalidRecord ''frame too large'')
            else
              (let buf = frame_header bodyLen @ frame_body rec
               in Inr (buf @ put_u32 (crc32 castagnoli buf)))))"

section \<open>Decoding\<close>

datatype frame_result =
    FrameRec wal_record nat
  | FrameEOF
  | FrameTorn nat
  | FrameErr wal_error nat

definition decode_body :: "bytes \<Rightarrow> wal_error + wal_record" where
  "decode_body b =
     (if length b < frameBodyFixedLen then Inl (ErrCorrupt ''short body'')
      else
        (let typeLen = unat (get_u16 (bslice 19 21 b)); pos = frameBodyTypeOffset in
         if length b < pos + typeLen + frameBodyPayloadLenLen then Inl (ErrCorrupt ''short type'')
         else
           (let pos2 = pos + typeLen;
                payloadLen = unat (get_u32 (bslice pos2 (pos2 + frameBodyPayloadLenLen) b));
                pos3 = pos2 + frameBodyPayloadLenLen
            in if length b \<noteq> pos3 + payloadLen
               then Inl (ErrCorrupt ''payload length mismatch'')
               else Inr \<lparr>r_LSN = get_u64 (bslice 0 8 b),
                         r_Type = string_of (bslice pos pos2 b),
                         r_SchemaVersion = get_u16 (bslice 16 18 b),
                         r_Timestamp = AtNano (get_u64 (bslice 8 16 b)),
                         r_Encoding = b ! 18,
                         r_Payload = drop pos3 b\<rparr>)))"

text \<open>The result of one call together with the reader's remaining bytes.\<close>

definition decodeFrame :: "bytes \<Rightarrow> frame_result \<times> bytes" where
  "decodeFrame r =
     (let header = take frameHeaderLen r; n = length header; r1 = drop frameHeaderLen r in
      if n = 0 then (FrameEOF, r1)
      else if n < frameHeaderLen then (FrameTorn n, r1)
      else if get_u32 (bslice 0 4 header) \<noteq> frameMagic \<or> get_u16 (bslice 4 6 header) \<noteq> frameVersion
      then (FrameErr (ErrCorrupt ''bad frame header'') n, r1)
      else
        (let frameLen = unat (get_u32 (bslice 6 10 header)) in
         if frameLen < frameCRCLen \<or> frameLen > maxFrameLen
         then (FrameErr (ErrCorrupt ''invalid frame length'') n, r1)
         else
           (let bodyCRC = take frameLen r1; n2 = length bodyCRC; r2 = drop frameLen r1 in
            if n2 < frameLen then (FrameTorn (n + n2), r2)
            else
              (let b = take (frameLen - frameCRCLen) bodyCRC;
                   got = get_u32 (drop (frameLen - frameCRCLen) bodyCRC);
                   want = crc32 castagnoli (header @ b)
               in if got \<noteq> want then (FrameErr (ErrCorrupt ''checksum mismatch'') (n + n2), r2)
                  else
                    (case decode_body b of
                       Inl e \<Rightarrow> (FrameErr e (n + n2), r2)
                     | Inr rec \<Rightarrow> (FrameRec rec (n + n2), r2))))))"

section \<open>Shape of a frame\<close>

text \<open>A record as it comes back from the log: every default filled in.\<close>

definition stored_record :: "wal_record \<Rightarrow> bool" where
  "stored_record rec \<longleftrightarrow>
     r_LSN rec \<noteq> 0 \<and> r_Type rec \<noteq> [] \<and> r_SchemaVersion rec \<noteq> 0 \<and> r_Payload rec \<noteq> [] \<and>
     r_Encoding rec \<noteq> 0 \<and> r_Timestamp rec \<noteq> ZeroTime \<and>
     length (r_Type rec) \<le> maxRecordTypeLen \<and>
     frameBodyFixedLen + length (r_Type rec) + length (r_Payload rec) + frameCRCLen \<le> maxFrameLen"

definition frame_of :: "wal_record \<Rightarrow> bytes" where
  "frame_of rec =
     (let buf = frame_header (length (frame_body rec)) @ frame_body rec
      in buf @ put_u32 (crc32 castagnoli buf))"

lemma length_frame_body:
  "length (frame_body rec) = frameBodyFixedLen + length (r_Type rec) + length (r_Payload rec)"
  by (simp add: frame_body_def frame_consts)

lemma length_frame_header [simp]: "length (frame_header n) = 10"
  by (simp add: frame_header_def)

lemma length_frame_of: "length (frame_of rec) = 14 + length (frame_body rec)"
  by (simp add: frame_of_def Let_def)

lemma frame_of_nonempty: "frame_of rec \<noteq> []"
  using length_frame_of [of rec] by auto

lemma encodeFrame_frame_of:
  assumes "encodeFrame now rec = Inr bs"
  shows "bs = frame_of (frame_defaults now rec)"
  using assms
  by (simp add: encodeFrame_def frame_of_def Let_def length_frame_body frame_defaults_def
      split: if_splits)

lemma encodeFrame_stored:
  assumes "encodeFrame now rec = Inr bs" "now \<noteq> ZeroTime"
  shows "stored_record (frame_defaults now rec)"
  using assms
  by (auto simp: encodeFrame_def stored_record_def Let_def frame_defaults_def
      PayloadEncodingJSON_def split: if_splits)

lemma encodeFrame_of_stored:
  "stored_record rec \<Longrightarrow> encodeFrame now rec = Inr (frame_of rec)"
  by (auto simp: encodeFrame_def stored_record_def frame_of_def Let_def length_frame_body
      frame_defaults_def)

lemma decode_body_frame_body:
  assumes "stored_record rec"
  shows "decode_body (frame_body rec) = Inr rec"
proof -
  let ?t = "bytes_of (r_Type rec)" and ?p = "r_Payload rec"
  have lt: "length (r_Type rec) < 2 ^ 16" and lp: "length ?p < 2 ^ 32"
    using assms by (auto simp: stored_record_def frame_consts)
  obtain nano where nano: "r_Timestamp rec = AtNano nano"
    using assms by (cases "r_Timestamp rec") (auto simp: stored_record_def)
  let ?a = "put_u64 (r_LSN rec)" and ?b = "put_u64 nano" and ?c = "put_u16 (r_SchemaVersion rec)"
  let ?d = "[r_Encoding rec]" and ?e = "put_u16 (of_nat (length (r_Type rec)))"
  let ?f = "put_u32 (of_nat (length ?p))"
  have body: "frame_body rec = ?a @ ?b @ ?c @ ?d @ ?e @ ?t @ ?f @ ?p"
    by (simp add: frame_body_def nano)
  have tl: "unat (of_nat (length (r_Type rec)) :: u16) = length (r_Type rec)"
    using lt by (simp add: unat_of_nat)
  have pl: "unat (of_nat (length ?p) :: u32) = length ?p"
    using lp by (simp add: unat_of_nat)
  show ?thesis
    using nano
    by (simp add: decode_body_def body bslice_def frame_consts tl pl nth_append numeral_eq_Suc)
qed

lemma decodeFrame_frame_of:
  assumes "stored_record rec"
  shows "decodeFrame (frame_of rec @ rest) = (FrameRec rec (length (frame_of rec)), rest)"
proof -
  let ?b = "frame_body rec" and ?h = "frame_header (length (frame_body rec))"
  let ?crc = "put_u32 (crc32 castagnoli (?h @ ?b))"
  have len: "length ?b + 4 \<le> maxFrameLen"
    using assms by (simp add: stored_record_def length_frame_body frame_consts)
  have fl: "unat (of_nat (length ?b + 4) :: u32) = length ?b + 4"
    using len by (intro unat_of_nat_small) (simp add: frame_consts)
  have slices: "get_u32 (bslice 0 4 ?h) = frameMagic" "get_u16 (bslice 4 6 ?h) = frameVersion"
    "unat (get_u32 (bslice 6 10 ?h)) = length ?b + 4"
    using fl by (simp_all add: frame_header_def bslice_def frame_consts del: of_nat_add)
  have split: "frame_of rec @ rest = ?h @ (?b @ ?crc) @ rest"
    by (simp add: frame_of_def Let_def)
  have t: "take frameHeaderLen (frame_of rec @ rest) = ?h"
    "drop frameHeaderLen (frame_of rec @ rest) = (?b @ ?crc) @ rest"
    unfolding split by (simp_all add: frame_consts)
  have body: "take (length ?b + 4) ((?b @ ?crc) @ rest) = ?b @ ?crc"
    "drop (length ?b + 4) ((?b @ ?crc) @ rest) = rest"
    by simp_all
  show ?thesis
    using len
    unfolding decodeFrame_def Let_def t slices body length_frame_header
    by (simp add: frame_consts decode_body_frame_body [OF assms] length_frame_of)
qed

lemma decodeFrame_Nil [simp]: "decodeFrame [] = (FrameEOF, [])"
  by (simp add: decodeFrame_def frame_consts)

lemma decodeFrame_torn:
  assumes "stored_record rec" "0 < k" "k < length (frame_of rec)"
  shows "decodeFrame (take k (frame_of rec)) = (FrameTorn k, [])"
proof (cases "k < 10")
  case True
  with assms show ?thesis
    by (simp add: decodeFrame_def Let_def frame_consts length_frame_of frame_of_nonempty)
next
  case False
  let ?b = "frame_body rec" and ?h = "frame_header (length (frame_body rec))"
  let ?tail = "?b @ put_u32 (crc32 castagnoli (?h @ ?b))"
  have len: "length ?b + 4 \<le> maxFrameLen"
    using assms by (simp add: stored_record_def length_frame_body frame_consts)
  have fl: "unat (of_nat (length ?b + 4) :: u32) = length ?b + 4"
    using len by (intro unat_of_nat_small) (simp add: frame_consts)
  have slices: "get_u32 (bslice 0 4 ?h) = frameMagic" "get_u16 (bslice 4 6 ?h) = frameVersion"
    "unat (get_u32 (bslice 6 10 ?h)) = length ?b + 4"
    using fl by (simp_all add: frame_header_def bslice_def frame_consts del: of_nat_add)
  have k: "take k (frame_of rec) = ?h @ take (k - 10) ?tail"
    using False by (simp add: frame_of_def Let_def)
  have short: "k - 10 < length ?b + 4"
    using assms(3) False by (simp add: length_frame_of)
  have t: "take frameHeaderLen (take k (frame_of rec)) = ?h"
    "drop frameHeaderLen (take k (frame_of rec)) = take (k - 10) ?tail"
    unfolding k by (simp_all add: frame_consts)
  have lt: "length (take (k - 10) ?tail) = k - 10"
    using short by simp
  have tk: "take (length ?b + 4) (take (k - 10) ?tail) = take (k - 10) ?tail"
    "drop (length ?b + 4) (take (k - 10) ?tail) = []"
    using short lt by (simp_all only: take_all drop_all less_imp_le)
  show ?thesis
    using len short False
    unfolding decodeFrame_def Let_def t slices tk lt
    by (simp add: frame_consts)
qed

end
