(* ===== verification/Wal_Manager.thy ===== *)
theory Wal_Manager
  imports Wal_Codec
begin

text \<open>
  The write-ahead log manager (\<open>internal/wal/manager.go\<close>, \<open>reader.go\<close> and the retention part of
  \<open>checkpoint.go\<close>). The log directory is a table of files; a segment file is named after the first
  LSN it holds and contains frames of \<^theory_text>\<open>Wal_Codec\<close>. Opening scans every frame, truncates a torn
  tail of the final segment and checks that the LSNs are contiguous. The mutex serialises the
  operations, so each is one function of the manager state. The operating system's open, create and
  remove calls succeed; a write may fail after any number of bytes (\<open>write_outcome\<close>).

  The encryption service is a parameter: an optional record of the two functions the log calls.
\<close>

record cipher_service =
  svc_Enabled :: bool
  svc_EncryptRecord :: "bytes \<Rightarrow> bytes \<Rightarrow> bytes option"
  svc_DecryptRecord :: "bytes \<Rightarrow> bytes \<Rightarrow> bytes option"

record manager =
  m_dir :: file_table
  m_segmentBytes :: int
  m_file :: "string option"
  m_segmentStart :: lsn
  m_segmentSize :: int
  m_last :: lsn
  m_encryption :: "cipher_service option"

datatype write_outcome = WroteAll | WroteFails nat

section \<open>Segments\<close>

definition segmentName :: "lsn \<Rightarrow> string" where
  "segmentName start = pad_dec 16 (unat start) @ ''.wal''"

definition has_wal_suffix :: "string \<Rightarrow> bool" where
  "has_wal_suffix n \<longleftrightarrow> 4 \<le> length n \<and> drop (length n - 4) n = ''.wal''"

fun parseSegments :: "file_table \<Rightarrow> wal_error + (lsn \<times> string) list" where
  "parseSegments [] = Inr []"
| "parseSegments ((n, c) # es) =
     (if \<not> has_wal_suffix n then parseSegments es
      else (case parse_uint64 (take (length n - 4) n) of
              None \<Rightarrow> Inl (ErrCorrupt ''bad segment name'')
            | Some u \<Rightarrow> (case parseSegments es of
                          Inl e \<Rightarrow> Inl e
                        | Inr out \<Rightarrow> Inr ((u, n) # out))))"

definition listSegments :: "file_table \<Rightarrow> wal_error + (lsn \<times> string) list" where
  "listSegments d = (case parseSegments d of Inl e \<Rightarrow> Inl e | Inr out \<Rightarrow> Inr (sort_key fst out))"

definition walRecordAAD :: "wal_record \<Rightarrow> bytes" where
  "walRecordAAD rec = bytes_of (''wal:v1:lsn='' @ dec_string (unat (r_LSN rec)) @ '':type='' @ r_Type rec
     @ '':schema='' @ dec_string (unat (r_SchemaVersion rec))
     @ '':encoding='' @ dec_string (unat (r_Encoding rec)))"

definition decryptRecord :: "cipher_service option \<Rightarrow> wal_record \<Rightarrow> wal_error + wal_record" where
  "decryptRecord enc rec =
     (case enc of
        None \<Rightarrow> Inr rec
      | Some svc \<Rightarrow> (case svc_DecryptRecord svc (r_Payload rec) (walRecordAAD rec) of
                       None \<Rightarrow> Inl ErrEncryption
                     | Some p \<Rightarrow> Inr (rec\<lparr>r_Payload := p\<rparr>)))"

section \<open>Opening a log\<close>

lemma decodeFrame_shrinks:
  assumes "decodeFrame r = (FrameRec rec n, r')"
  shows "length r' < length r"
proof -
  have "r' = drop k (drop frameHeaderLen r) \<and> \<not> length (take frameHeaderLen r) = 0"
    if "k = unat (get_u32 (bslice 6 10 (take frameHeaderLen r)))" for k
    using assms unfolding decodeFrame_def Let_def that
    by (simp split: if_splits sum.splits)
  then show ?thesis by (auto simp: frame_consts)
qed

text \<open>
  The scan of one segment: the last LSN reached, and the offset the file is truncated to when its
  tail is torn.
\<close>

function scanFrames ::
  "cipher_service option \<Rightarrow> bool \<Rightarrow> bytes \<Rightarrow> nat \<Rightarrow> lsn \<Rightarrow> wal_error + (lsn \<times> nat option)" where
  "scanFrames enc final r off lst =
     (case decodeFrame r of
        (FrameErr e n, r') \<Rightarrow> Inl e
      | (FrameEOF, r') \<Rightarrow> Inr (lst, None)
      | (FrameTorn n, r') \<Rightarrow>
          if \<not> final then Inl (ErrCorrupt ''torn frame before final segment'')
          else Inr (lst, Some off)
      | (FrameRec rec n, r') \<Rightarrow>
          (case decryptRecord enc rec of
             Inl e \<Rightarrow> Inl e
           | Inr _ \<Rightarrow>
               if r_LSN rec \<noteq> lsn_next lst then Inl (ErrCorrupt ''non-contiguous lsn'')
               else scanFrames enc final r' (off + n) (r_LSN rec)))"
  by pat_completeness auto
termination
  by (relation "measure (\<lambda>(enc, final, r, off, lst). length r)")
    (auto dest!: sym [of _ "decodeFrame _"] dest: decodeFrame_shrinks)

declare scanFrames.simps [simp del]

fun scanSegments ::
  "cipher_service option \<Rightarrow> (lsn \<times> string) list \<Rightarrow> file_table \<Rightarrow> lsn \<Rightarrow> wal_error + (lsn \<times> file_table)"
where
  "scanSegments enc [] d lst = Inr (lst, d)"
| "scanSegments enc ((start, n) # segs) d lst =
     (case scanFrames enc (segs = []) (file_content d n) 0 lst of
        Inl e \<Rightarrow> Inl e
      | Inr (lst', None) \<Rightarrow> scanSegments enc segs d lst'
      | Inr (lst', Some off) \<Rightarrow> scanSegments enc segs (file_truncate n off d) lst')"

definition rotateLocked :: "lsn \<Rightarrow> manager \<Rightarrow> manager" where
  "rotateLocked start m =
     m\<lparr>m_dir := file_create (segmentName start) (m_dir m), m_file := Some (segmentName start),
       m_segmentStart := start, m_segmentSize := 0\<rparr>"

definition scanAndOpen :: "manager \<Rightarrow> wal_error + manager" where
  "scanAndOpen m =
     (case listSegments (m_dir m) of
        Inl e \<Rightarrow> Inl e
      | Inr segments \<Rightarrow>
          if segments = [] then Inr (rotateLocked 1 m)
          else
            (case scanSegments (m_encryption m) segments (m_dir m) 0 of
               Inl e \<Rightarrow> Inl e
             | Inr (lst, d) \<Rightarrow>
                 (let lastSeg = List.last segments in
                  Inr (m\<lparr>m_dir := d, m_last := lst, m_file := Some (snd lastSeg),
                         m_segmentStart := fst lastSeg,
                         m_segmentSize := int (length (file_content d (snd lastSeg)))\<rparr>))))"

definition Open ::
  "ctx \<Rightarrow> string \<Rightarrow> int \<Rightarrow> cipher_service option \<Rightarrow> file_table \<Rightarrow> wal_error + manager" where
  "Open ctx dirname segBytes enc d =
     (case ctx of
        Some e \<Rightarrow> Inl (ErrCtx e)
      | None \<Rightarrow>
          if dirname = [] then Inl (ErrInvalidRecord ''dir is required'')
          else scanAndOpen
            \<lparr>m_dir = d, m_segmentBytes = (if segBytes \<le> 0 then 64 * 1024 * 1024 else segBytes),
             m_file = None, m_segmentStart = 0, m_segmentSize = 0, m_last = 0, m_encryption = enc\<rparr>)"

section \<open>Appending\<close>

definition pending_to_record :: "gotime \<Rightarrow> lsn \<Rightarrow> pending_record \<Rightarrow> wal_record" where
  "pending_to_record now lsn p =
     \<lparr>r_LSN = lsn, r_Type = p_Type p, r_SchemaVersion = p_SchemaVersion p,
      r_Timestamp = (if p_Timestamp p = ZeroTime then now else p_Timestamp p),
      r_Encoding = (if p_Encoding p = 0 then PayloadEncodingJSON else p_Encoding p),
      r_Payload = p_Payload p\<rparr>"

definition encryptPending :: "cipher_service option \<Rightarrow> wal_record \<Rightarrow> wal_error + wal_record" where
  "encryptPending enc rec =
     (case enc of
        None \<Rightarrow> Inr rec
      | Some svc \<Rightarrow>
          if \<not> svc_Enabled svc then Inr rec
          else (case svc_EncryptRecord svc (r_Payload rec) (walRecordAAD rec) of
                  None \<Rightarrow> Inl ErrEncryption
                | Some p \<Rightarrow> Inr (rec\<lparr>r_Payload := p\<rparr>)))"

definition rotateIfNeeded :: "lsn \<Rightarrow> nat \<Rightarrow> manager \<Rightarrow> manager" where
  "rotateIfNeeded lsn n m =
     (if m_file m = None \<or> (m_segmentSize m > 0 \<and> m_segmentSize m + int n > m_segmentBytes m)
      then rotateLocked lsn m else m)"

definition Append ::
  "ctx \<Rightarrow> gotime \<Rightarrow> write_outcome \<Rightarrow> pending_record \<Rightarrow> manager \<Rightarrow> (wal_error + lsn) \<times> manager" where
  "Append ctx now w pending m =
     (case ctx of
        Some e \<Rightarrow> (Inl (ErrCtx e), m)
      | None \<Rightarrow>
          (let lsn = lsn_next (m_last m) in
           case encryptPending (m_encryption m) (pending_to_record now lsn pending) of
             Inl e \<Rightarrow> (Inl e, m)
           | Inr rec \<Rightarrow>
               (case encodeFrame now rec of
                  Inl e \<Rightarrow> (Inl e, m)
                | Inr frame \<Rightarrow>
                    (let m1 = rotateIfNeeded lsn (length frame) m;
                         name = the (m_file m1)
                     in case w of
                          WroteFails k \<Rightarrow>
                            (Inl ErrShortWrite,
                             m1\<lparr>m_dir := file_append name (take k frame) (m_dir m1)\<rparr>)
                        | WroteAll \<Rightarrow>
                            (Inr lsn,
                             m1\<lparr>m_dir := file_append name frame (m_dir m1),
                                m_segmentSize := m_segmentSize m1 + int (length frame),
                                m_last := lsn\<rparr>)))))"

definition Sync :: "ctx \<Rightarrow> lsn \<Rightarrow> manager \<Rightarrow> wal_error option" where
  "Sync ctx lsn m =
     (case ctx of
        Some e \<Rightarrow> Some (ErrCtx e)
      | None \<Rightarrow> if lsn > m_last m then Some (ErrInvalidRecord ''lsn not committed'') else None)"

definition Close :: "manager \<Rightarrow> manager" where
  "Close m = m\<lparr>m_file := None\<rparr>"

section \<open>Positions and retention\<close>

definition oldestRetainedLSN :: "manager \<Rightarrow> wal_error + lsn" where
  "oldestRetainedLSN m =
     (case listSegments (m_dir m) of
        Inl e \<Rightarrow> Inl e
      | Inr [] \<Rightarrow> Inr 0
      | Inr (s # _) \<Rightarrow> Inr (fst s))"

record retained_range =
  FirstRetainedLSN :: lsn
  LastCommittedLSN :: lsn

definition RetainedRange :: "ctx \<Rightarrow> manager \<Rightarrow> wal_error + retained_range" where
  "RetainedRange ctx m =
     (case ctx of
        Some e \<Rightarrow> Inl (ErrCtx e)
      | None \<Rightarrow> (case oldestRetainedLSN m of
                   Inl e \<Rightarrow> Inl e
                 | Inr first \<Rightarrow> Inr \<lparr>FirstRetainedLSN = first, LastCommittedLSN = m_last m\<rparr>))"

fun retainLoop :: "lsn \<Rightarrow> (lsn \<times> string) list \<Rightarrow> file_table \<Rightarrow> file_table" where
  "retainLoop from (s # s' # segs) d =
     retainLoop from (s' # segs) (if fst s' \<le> from then AList.delete (snd s) d else d)"
| "retainLoop from _ d = d"

definition RetainFrom :: "ctx \<Rightarrow> lsn \<Rightarrow> manager \<Rightarrow> (wal_error option) \<times> manager" where
  "RetainFrom ctx from m =
     (case ctx of
        Some e \<Rightarrow> (Some (ErrCtx e), m)
      | None \<Rightarrow>
          if from = 0 then (None, m)
          else (case listSegments (m_dir m) of
                  Inl e \<Rightarrow> (Some e, m)
                | Inr segs \<Rightarrow> (None, m\<lparr>m_dir := retainLoop from segs (m_dir m)\<rparr>)))"

section \<open>Reading\<close>

text \<open>An open file of an iterator is its name and the offset read so far.\<close>

record iterator =
  it_segments :: "(lsn \<times> string) list"
  it_min :: lsn
  it_idx :: nat
  it_file :: "(string \<times> nat) option"
  it_closed :: bool
  it_encryption :: "cipher_service option"

definition newIterator :: "(lsn \<times> string) list \<Rightarrow> lsn \<Rightarrow> cipher_service option \<Rightarrow> iterator" where
  "newIterator segs lo enc =
     \<lparr>it_segments = segs, it_min = lo, it_idx = 0, it_file = None, it_closed = False,
      it_encryption = enc\<rparr>"

fun readIndex :: "lsn \<Rightarrow> nat \<Rightarrow> (lsn \<times> string) list \<Rightarrow> nat \<Rightarrow> nat" where
  "readIndex lsn i [] idx = idx"
| "readIndex lsn i (s # segs) idx = readIndex lsn (Suc i) segs (if fst s \<le> lsn then i else idx)"

definition ReadFrom :: "ctx \<Rightarrow> lsn \<Rightarrow> manager \<Rightarrow> wal_error + iterator" where
  "ReadFrom ctx lsn m =
     (case ctx of
        Some e \<Rightarrow> Inl (ErrCtx e)
      | None \<Rightarrow>
          (case listSegments (m_dir m) of
             Inl e \<Rightarrow> Inl e
           | Inr segments \<Rightarrow>
               if segments = [] then Inr (newIterator [] lsn (m_encryption m))
               else Inr (newIterator (drop (readIndex lsn 0 segments 0) segments) lsn
                           (m_encryption m))))"

text \<open>What is left to read: it decreases in every turn of the loop in \<open>Next\<close>.\<close>

definition it_left :: "file_table \<Rightarrow> iterator \<Rightarrow> nat" where
  "it_left d it =
     (case it_file it of
        None \<Rightarrow> (if it_idx it < length (it_segments it)
                 then Suc (length (file_content d (snd (it_segments it ! it_idx it)))) else 0)
      | Some (n, off) \<Rightarrow> length (drop off (file_content d n)))"

lemma decodeFrame_left:
  assumes "decodeFrame (drop off c) = (FrameRec rec k, r')"
  shows "length c - (off + (length c - off - length r')) < length c - off"
proof -
  from decodeFrame_shrinks [OF assms] have "length r' < length c - off" by simp
  then show ?thesis by simp
qed

function nextLoop :: "file_table \<Rightarrow> iterator \<Rightarrow> (wal_error + wal_record option) \<times> iterator" where
  "nextLoop d it =
     (case it_file it of
        None \<Rightarrow>
          if it_idx it \<ge> length (it_segments it) then (Inr None, it)
          else nextLoop d (it\<lparr>it_file := Some (snd (it_segments it ! it_idx it), 0)\<rparr>)
      | Some (n, off) \<Rightarrow>
          (let r = drop off (file_content d n) in
           case decodeFrame r of
             (FrameErr e k, r') \<Rightarrow>
               (Inl e, it\<lparr>it_file := Some (n, off + (length r - length r'))\<rparr>)
           | (FrameRec rec k, r') \<Rightarrow>
               (let it' = it\<lparr>it_file := Some (n, off + (length r - length r'))\<rparr> in
                case decryptRecord (it_encryption it) rec of
                  Inl e \<Rightarrow> (Inl e, it')
                | Inr rec' \<Rightarrow> if r_LSN rec' < it_min it then nextLoop d it' else (Inr (Some rec'), it'))
           | (FrameEOF, r') \<Rightarrow>
               if it_idx it < length (it_segments it)
               then nextLoop d (it\<lparr>it_file := None, it_idx := Suc (it_idx it)\<rparr>)
               else (Inr None, it\<lparr>it_file := None, it_idx := Suc (it_idx it)\<rparr>)
           | (FrameTorn k, r') \<Rightarrow>
               (Inl ErrUnexpectedEOF, it\<lparr>it_file := Some (n, off + (length r - length r'))\<rparr>)))"
  by pat_completeness auto

termination
  by (relation "measures [\<lambda>(d, it). length (it_segments it) - it_idx it, \<lambda>(d, it). it_left d it]")
    (auto simp: it_left_def dest!: sym [of _ "decodeFrame _"] dest: decodeFrame_left)

declare nextLoop.simps [simp del]

definition Next ::
  "ctx \<Rightarrow> file_table \<Rightarrow> iterator \<Rightarrow> (wal_error + wal_record option) \<times> iterator" where
  "Next ctx d it =
     (if it_closed it then (Inl ErrIteratorClosed, it)
      else (case ctx of Some e \<Rightarrow> (Inl (ErrCtx e), it) | None \<Rightarrow> nextLoop d it))"

definition it_Close :: "iterator \<Rightarrow> iterator" where
  "it_Close it = it\<lparr>it_closed := True, it_file := None\<rparr>"

section \<open>Status and following\<close>

record wal_Status =
  ws_LastCommittedLSN :: lsn
  ws_OldestRetainedLSN :: lsn
  ws_CurrentSegmentStart :: lsn
  ws_CurrentSegmentBytes :: int

definition manager_Status :: "manager \<Rightarrow> wal_error + wal_Status" where
  "manager_Status m =
     (case oldestRetainedLSN m of
        Inl e \<Rightarrow> Inl e
      | Inr oldest \<Rightarrow>
          Inr \<lparr>ws_LastCommittedLSN = m_last m, ws_OldestRetainedLSN = oldest,
               ws_CurrentSegmentStart = m_segmentStart m, ws_CurrentSegmentBytes = m_segmentSize m\<rparr>)"

text \<open>
  Waiting operations run over the states a waiter sees, each with the state of its context then;
  the result is \<^const>\<open>None\<close> while it still waits.
\<close>

fun WaitUntilCommitted :: "lsn \<Rightarrow> (ctx \<times> manager) list \<Rightarrow> wal_error option option" where
  "WaitUntilCommitted target seen =
     (if target = 0 then Some None
      else (case seen of
              [] \<Rightarrow> None
            | (c, m) # seen' \<Rightarrow>
                if m_last m \<ge> target then Some None
                else (case c of Some e \<Rightarrow> Some (Some (ErrCtx e)) | None \<Rightarrow> WaitUntilCommitted target seen')))"

fun ReadNextBlocking :: "lsn \<Rightarrow> (ctx \<times> manager) list \<Rightarrow> (wal_error + wal_record option) option" where
  "ReadNextBlocking l [] = None"
| "ReadNextBlocking l ((c, m) # seen) =
     (case c of
        Some e \<Rightarrow> Some (Inl (ErrCtx e))
      | None \<Rightarrow>
          if m_last m \<ge> l
          then (case ReadFrom None l m of
                  Inl e \<Rightarrow> Some (Inl e)
                | Inr it \<Rightarrow> Some (fst (Next None (m_dir m) it)))
          else ReadNextBlocking l seen)"

text \<open>What the log relies on: a payload it encrypts, or stores as it is, decrypts to itself.\<close>

definition cipher_ok :: "cipher_service option \<Rightarrow> bytes \<Rightarrow> bool" where
  "cipher_ok enc p \<longleftrightarrow>
     (case enc of
        None \<Rightarrow> True
      | Some svc \<Rightarrow>
          \<forall>aad c. (if svc_Enabled svc then svc_EncryptRecord svc p aad = Some c else c = p) \<longrightarrow>
                  svc_DecryptRecord svc c aad = Some p)"

lemma cipher_ok_decrypt:
  assumes "cipher_ok enc (r_Payload r)" "encryptPending enc r = Inr rec"
  shows "decryptRecord enc rec = Inr r"
  using assms
  by (auto simp: cipher_ok_def encryptPending_def decryptRecord_def walRecordAAD_def
      split: option.splits if_splits)

end
