(* ===== verification/Wal_Log.thy ===== *)
theory Wal_Log
  imports Wal_Manager
begin

text \<open>
  What the log directory means: a list of segments, each a start LSN and the records in it, in
  contiguous LSN order. The lemmas relate the operations of \<^theory_text>\<open>Wal_Manager\<close> to that list: opening
  finds the last LSN and cuts a torn tail, appending adds one record at the end, an iterator
  delivers the records from an LSN on, retention drops whole segments from the front.
\<close>

type_synonym seg_list = "(lsn \<times> wal_record list) list"

definition frames :: "wal_record list \<Rightarrow> bytes" where
  "frames rs = concat (map frame_of rs)"

fun contiguous :: "lsn \<Rightarrow> wal_record list \<Rightarrow> bool" where
  "contiguous l [] = True"
| "contiguous l (r # rs) = (r_LSN r = lsn_next l \<and> contiguous (r_LSN r) rs)"

fun last_lsn :: "lsn \<Rightarrow> wal_record list \<Rightarrow> lsn" where
  "last_lsn l [] = l"
| "last_lsn l (r # rs) = last_lsn (r_LSN r) rs"

definition all_records :: "seg_list \<Rightarrow> wal_record list" where
  "all_records segs = concat (map snd segs)"

fun segs_ok :: "lsn \<Rightarrow> seg_list \<Rightarrow> bool" where
  "segs_ok l [] = True"
| "segs_ok l ((s, rs) # segs) =
     (s = lsn_next l \<and> s \<noteq> 0 \<and> list_all stored_record rs \<and> contiguous l rs \<and>
      (segs \<noteq> [] \<longrightarrow> rs \<noteq> []) \<and> segs_ok (last_lsn l rs) segs)"

definition seg_names :: "seg_list \<Rightarrow> (lsn \<times> string) list" where
  "seg_names segs = map (\<lambda>(s, rs). (s, segmentName s)) segs"

definition seg_files :: "seg_list \<Rightarrow> file_table" where
  "seg_files segs = map (\<lambda>(s, rs). (segmentName s, frames rs)) segs"

definition readable :: "cipher_service option \<Rightarrow> wal_record list \<Rightarrow> bool" where
  "readable enc rs \<longleftrightarrow> list_all (\<lambda>r. \<exists>r'. decryptRecord enc r = Inr r') rs"

definition plain :: "cipher_service option \<Rightarrow> wal_record \<Rightarrow> wal_record" where
  "plain enc r = (case decryptRecord enc r of Inl _ \<Rightarrow> r | Inr r' \<Rightarrow> r')"

text \<open>An open manager whose directory holds \<open>segs\<close>, the records after LSN \<open>l\<close>.\<close>

definition wal_inv :: "lsn \<Rightarrow> manager \<Rightarrow> seg_list \<Rightarrow> bool" where
  "wal_inv l m segs \<longleftrightarrow>
     segs \<noteq> [] \<and> segs_ok l segs \<and> m_dir m = seg_files segs \<and>
     m_last m = last_lsn l (all_records segs) \<and>
     m_file m = Some (segmentName (fst (last segs))) \<and> m_segmentStart m = fst (last segs) \<and>
     m_segmentSize m = int (length (frames (snd (last segs))))"

section \<open>Records and LSNs\<close>

lemma frames_simps [simp]:
  "frames [] = []" "frames (r # rs) = frame_of r @ frames rs" "frames (rs @ rs') = frames rs @ frames rs'"
  by (simp_all add: frames_def)

lemma all_records_simps [simp]:
  "all_records [] = []" "all_records ((s, rs) # segs) = rs @ all_records segs"
  "all_records (segs @ segs') = all_records segs @ all_records segs'"
  by (simp_all add: all_records_def)

lemma seg_names_simps [simp]:
  "seg_names [] = []" "seg_names ((s, rs) # segs) = (s, segmentName s) # seg_names segs"
  "seg_names (segs @ segs') = seg_names segs @ seg_names segs'" "seg_names segs = [] \<longleftrightarrow> segs = []"
  by (simp_all add: seg_names_def)

lemma seg_files_simps [simp]:
  "seg_files [] = []" "seg_files ((s, rs) # segs) = (segmentName s, frames rs) # seg_files segs"
  "seg_files (segs @ segs') = seg_files segs @ seg_files segs'"
  by (simp_all add: seg_files_def)

lemma readable_simps [simp]:
  "readable enc []" "readable enc (r # rs) \<longleftrightarrow> (\<exists>r'. decryptRecord enc r = Inr r') \<and> readable enc rs"
  "readable enc (rs @ rs') \<longleftrightarrow> readable enc rs \<and> readable enc rs'"
  by (simp_all add: readable_def)

lemma last_lsn_append [simp]: "last_lsn l (rs @ rs') = last_lsn (last_lsn l rs) rs'"
  by (induction rs arbitrary: l) auto

lemma contiguous_append [simp]:
  "contiguous l (rs @ rs') \<longleftrightarrow> contiguous l rs \<and> contiguous (last_lsn l rs) rs'"
  by (induction rs arbitrary: l) auto

lemma decryptRecord_LSN: "decryptRecord enc r = Inr r' \<Longrightarrow> r_LSN r' = r_LSN r"
  by (auto simp: decryptRecord_def split: option.splits)

lemma stored_LSN: "stored_record r \<Longrightarrow> r_LSN r \<noteq> 0"
  by (simp add: stored_record_def)

lemma unat_lsn_next: "lsn_next l \<noteq> 0 \<Longrightarrow> unat (lsn_next l) = Suc (unat l)"
  unfolding lsn_next_def by (metis add.commute unatSuc)

lemma unat_last_lsn:
  "contiguous l rs \<Longrightarrow> list_all stored_record rs \<Longrightarrow> unat (last_lsn l rs) = unat l + length rs"
  by (induction rs arbitrary: l) (auto simp: unat_lsn_next dest!: stored_LSN)

lemma contiguous_LSN_bounds:
  assumes "contiguous l rs" "list_all stored_record rs" "r \<in> set rs"
  shows "l < r_LSN r \<and> r_LSN r \<le> last_lsn l rs"
  using assms
proof (induction rs arbitrary: l)
  case Nil
  then show ?case by simp
next
  case (Cons a rs)
  then have step: "unat (r_LSN a) = Suc (unat l)"
    by (metis contiguous.simps(2) list.pred_inject(2) stored_LSN unat_lsn_next)
  have last: "unat (last_lsn l (a # rs)) = unat l + length (a # rs)"
    using Cons.prems by (intro unat_last_lsn) auto
  show ?case
  proof (cases "r = a")
    case True
    with step last show ?thesis by (simp add: word_less_nat_alt word_le_nat_alt)
  next
    case False
    with Cons have "r_LSN a < r_LSN r \<and> r_LSN r \<le> last_lsn (r_LSN a) rs"
      by auto
    with step show ?thesis by (simp add: word_less_nat_alt word_le_nat_alt)
  qed
qed

lemma segs_ok_append:
  "segs_ok l (segs @ segs') \<longleftrightarrow>
     segs_ok l segs \<and> segs_ok (last_lsn l (all_records segs)) segs' \<and>
     (segs' \<noteq> [] \<longrightarrow> list_all (\<lambda>(s, rs). rs \<noteq> []) segs)"
  by (induction l segs rule: segs_ok.induct) auto

lemma segs_ok_records:
  "segs_ok l segs \<Longrightarrow> contiguous l (all_records segs) \<and> list_all stored_record (all_records segs)"
  by (induction l segs rule: segs_ok.induct) auto

section \<open>Segment names\<close>

lemma segmentName_inj [simp]: "segmentName s = segmentName s' \<longleftrightarrow> s = s'"
  by (metis append_same_eq option.inject parse_uint64_pad_dec segmentName_def)

lemma parseSegments_seg_files [simp]: "parseSegments (seg_files segs) = Inr (seg_names segs)"
proof (induction segs)
  case Nil
  then show ?case by simp
next
  case (Cons a segs)
  obtain s rs where a: "a = (s, rs)" by fastforce
  have "has_wal_suffix (segmentName s)" and "take (length (segmentName s) - 4) (segmentName s) = pad_dec 16 (unat s)"
    by (simp_all add: has_wal_suffix_def segmentName_def)
  with Cons a show ?case by simp
qed

lemma segs_ok_start_gt: "segs_ok l segs \<Longrightarrow> s \<in> fst ` set segs \<Longrightarrow> l < s"
proof (induction l segs rule: segs_ok.induct)
  case (1 l)
  then show ?case by simp
next
  case (2 l s' rs segs)
  then have "unat s' = Suc (unat l)" by (auto simp: unat_lsn_next)
  moreover have "unat (last_lsn l rs) = unat l + length rs"
    using 2 by (auto intro: unat_last_lsn)
  moreover have "s = s' \<or> last_lsn l rs < s"
    using 2 by auto
  ultimately show ?case
    by (auto simp: word_less_nat_alt)
qed

lemma segs_ok_sorted: "segs_ok l segs \<Longrightarrow> sorted_wrt (<) (map fst segs)"
proof (induction l segs rule: segs_ok.induct)
  case (1 l)
  then show ?case by simp
next
  case (2 l s rs segs)
  have s: "unat s = Suc (unat l)"
    using 2 by (auto simp: unat_lsn_next)
  have "s < s'" if "s' \<in> fst ` set segs" for s'
  proof -
    have "last_lsn l rs < s'" using 2 that by (auto intro: segs_ok_start_gt)
    moreover have "unat (last_lsn l rs) = unat l + length rs"
      using 2 by (auto intro: unat_last_lsn)
    moreover have "rs \<noteq> []" using 2 that by auto
    ultimately show ?thesis
      using s by (cases rs) (auto simp: word_less_nat_alt)
  qed
  with 2 show ?case by auto
qed

lemma listSegments_seg_files:
  assumes "segs_ok l segs"
  shows "listSegments (seg_files segs) = Inr (seg_names segs)"
proof -
  have "map fst (seg_names segs) = map fst segs"
    by (simp add: seg_names_def comp_def case_prod_beta)
  then have "sorted (map fst (seg_names segs))"
    using segs_ok_sorted [OF assms] by (simp add: strict_sorted_imp_sorted)
  then show ?thesis
    by (simp add: listSegments_def sort_key_id_if_sorted)
qed

lemma seg_files_distinct: "segs_ok l segs \<Longrightarrow> distinct (map fst (seg_files segs))"
proof -
  assume "segs_ok l segs"
  then have "distinct (map fst segs)"
    using segs_ok_sorted strict_sorted_iff by blast
  moreover have "map fst (seg_files segs) = map segmentName (map fst segs)"
    by (simp add: seg_files_def comp_def case_prod_beta)
  ultimately show ?thesis
    by (simp add: distinct_map inj_on_def)
qed

lemma file_content_seg_files:
  "segs_ok l segs \<Longrightarrow> (s, rs) \<in> set segs \<Longrightarrow> file_content (seg_files segs) (segmentName s) = frames rs"
proof -
  assume ok: "segs_ok l segs" and "(s, rs) \<in> set segs"
  then have "(segmentName s, frames rs) \<in> set (seg_files segs)"
    by (force simp: seg_files_def)
  with seg_files_distinct [OF ok] show ?thesis
    by (simp add: file_content_def)
qed

section \<open>Scanning\<close>

lemma scanFrames_frames:
  assumes "list_all stored_record rs" "contiguous l rs" "readable enc rs"
  shows "scanFrames enc fin (frames rs @ t) off l =
         scanFrames enc fin t (off + length (frames rs)) (last_lsn l rs)"
  using assms
proof (induction rs arbitrary: l off)
  case Nil
  then show ?case by simp
next
  case (Cons r rs)
  then obtain r' where r': "decryptRecord enc r = Inr r'" by auto
  have "scanFrames enc fin (frames (r # rs) @ t) off l =
        scanFrames enc fin (frames rs @ t) (off + length (frame_of r)) (r_LSN r)"
    using Cons.prems r' by (subst scanFrames.simps) (simp add: decodeFrame_frame_of)
  also have "\<dots> = scanFrames enc fin t (off + length (frame_of r) + length (frames rs)) (last_lsn (r_LSN r) rs)"
    using Cons by auto
  finally show ?case by (simp add: add.assoc)
qed

lemma scanFrames_Nil [simp]: "scanFrames enc fin [] off l = Inr (l, None)"
  by (subst scanFrames.simps) simp

lemma scanFrames_torn:
  assumes "stored_record r" "k < length (frame_of r)"
  shows "scanFrames enc True (take k (frame_of r)) off l =
         Inr (l, if k = 0 then None else Some off)"
  using assms by (subst scanFrames.simps) (auto simp: decodeFrame_torn)

lemma scanSegments_ok:
  assumes "segs_ok l segs" "readable enc (all_records segs)"
    and "\<And>s rs. (s, rs) \<in> set segs \<Longrightarrow> file_content d (segmentName s) = frames rs"
    and "segs' \<noteq> []"
  shows "scanSegments enc (seg_names segs @ segs') d l =
         scanSegments enc segs' d (last_lsn l (all_records segs))"
  using assms
proof (induction l segs rule: segs_ok.induct)
  case (1 l)
  then show ?case by simp
next
  case (2 l s rs segs)
  have "scanFrames enc (seg_names segs @ segs' = []) (frames rs) 0 l = Inr (last_lsn l rs, None)"
    using 2 scanFrames_frames [of rs l enc _ "[]"] by auto
  moreover have "file_content d (segmentName s) = frames rs"
    using 2 by auto
  moreover have "scanSegments enc (seg_names segs @ segs') d (last_lsn l rs) =
      scanSegments enc segs' d (last_lsn (last_lsn l rs) (all_records segs))"
    using 2 by auto
  ultimately show ?case
    by simp
qed

lemma file_content_tail:
  assumes "segs_ok l (segs @ [(s, rs)])"
  shows "file_content (seg_files segs @ [(segmentName s, c)]) (segmentName s) = c"
    and "(s', rs') \<in> set segs \<Longrightarrow>
      file_content (seg_files segs @ [(segmentName s, c)]) (segmentName s') = frames rs'"
proof -
  have dist: "distinct (map fst (seg_files (segs @ [(s, rs)])))"
    using assms by (rule seg_files_distinct)
  then show "file_content (seg_files segs @ [(segmentName s, c)]) (segmentName s) = c"
    by (intro file_content_snoc) auto
  let ?d = "seg_files segs @ [(segmentName s, c)]"
  show "file_content ?d (segmentName s') = frames rs'" if "(s', rs') \<in> set segs"
  proof -
    have "(segmentName s', frames rs') \<in> set ?d" using that by (force simp: seg_files_def)
    moreover have "distinct (map fst ?d)" using dist by simp
    ultimately have "map_of ?d (segmentName s') = Some (frames rs')" by (metis map_of_is_SomeI)
    then show ?thesis by (simp only: file_content_def option.case)
  qed
qed

lemma scanSegments_tail_content:
  assumes ok: "segs_ok l (segs @ [(s, rs)])" and rd: "readable enc (all_records segs @ rs)"
  shows "scanSegments enc (seg_names (segs @ [(s, rs)])) (seg_files segs @ [(segmentName s, frames rs @ t)]) l =
         (case scanFrames enc True t (length (frames rs)) (last_lsn l (all_records segs @ rs)) of
            Inl e \<Rightarrow> Inl e
          | Inr (lst, None) \<Rightarrow> Inr (lst, seg_files segs @ [(segmentName s, frames rs @ t)])
          | Inr (lst, Some off) \<Rightarrow>
              Inr (lst, file_truncate (segmentName s) off (seg_files segs @ [(segmentName s, frames rs @ t)])))"
proof -
  let ?d = "seg_files segs @ [(segmentName s, frames rs @ t)]"
  have okp: "segs_ok l segs" "list_all stored_record rs" "contiguous (last_lsn l (all_records segs)) rs"
    using ok by (auto simp: segs_ok_append)
  have "scanSegments enc (seg_names segs @ [(s, segmentName s)]) ?d l =
      scanSegments enc [(s, segmentName s)] ?d (last_lsn l (all_records segs))"
    using okp(1) rd file_content_tail(2) [OF ok] by (intro scanSegments_ok) auto
  moreover have "scanFrames enc True (frames rs @ t) 0 (last_lsn l (all_records segs)) =
      scanFrames enc True t (length (frames rs)) (last_lsn l (all_records segs @ rs))"
    using okp rd by (simp add: scanFrames_frames)
  ultimately show ?thesis
    by (simp add: file_content_tail(1) [OF ok] split: sum.split option.split prod.split)
qed

lemma scanSegments_tail:
  assumes ok: "segs_ok l (segs @ [(s, rs)])" and rd: "readable enc (all_records segs @ rs)"
    and r: "stored_record r" "k < length (frame_of r)"
  shows "scanSegments enc (seg_names (segs @ [(s, rs)]))
           (seg_files segs @ [(segmentName s, frames rs @ take k (frame_of r))]) l =
         Inr (last_lsn l (all_records segs @ rs), seg_files (segs @ [(s, rs)]))"
proof -
  let ?d = "seg_files segs @ [(segmentName s, frames rs @ take k (frame_of r))]"
  have "segmentName s \<notin> fst ` set (seg_files segs)"
    using seg_files_distinct [OF ok] by auto
  then have "file_truncate (segmentName s) (length (frames rs)) ?d = seg_files (segs @ [(s, rs)])"
    by (simp add: file_truncate_def file_content_tail(1) [OF ok] AList_update_snoc)
  then show ?thesis
    unfolding scanSegments_tail_content [OF ok rd] scanFrames_torn [OF r] by simp
qed

lemma segs_ok_mono_records: "segs_ok l (segs @ [(s, rs)]) \<Longrightarrow> segs_ok l (segs @ [(s, [])])"
  by (auto simp: segs_ok_append)

lemma parseSegments_append:
  "parseSegments (d @ d') =
     (case parseSegments d of Inl e \<Rightarrow> Inl e
      | Inr out \<Rightarrow> (case parseSegments d' of Inl e \<Rightarrow> Inl e | Inr out' \<Rightarrow> Inr (out @ out')))"
  by (induction d rule: parseSegments.induct) (auto split: option.splits sum.splits)

lemma listSegments_names:
  assumes "segs_ok l segs" "map fst d = map fst (seg_files segs)"
  shows "listSegments d = Inr (seg_names segs)"
proof -
  have "parseSegments d = parseSegments d'" if "map fst d = map fst d'" for d d' :: file_table
    using that by (induction d d' rule: list_induct2') (auto split: option.split)
  with assms(2) have "listSegments d = listSegments (seg_files segs)"
    unfolding listSegments_def by metis
  with listSegments_seg_files [OF assms(1)] show ?thesis by simp
qed

lemma listSegments_tail:
  assumes "segs_ok l (segs @ [(s, rs)])"
  shows "listSegments (seg_files segs @ [(segmentName s, c)]) = Inr (seg_names (segs @ [(s, rs)]))"
  using assms by (rule listSegments_names) simp

lemma open_torn:
  assumes ok: "segs_ok 0 (segs @ [(s, rs)])" and rd: "readable enc (all_records segs @ rs)"
    and r: "stored_record r" "k < length (frame_of r)" and name: "name \<noteq> []"
  shows "\<exists>m. Open None name sb enc
                (seg_files segs @ [(segmentName s, frames rs @ take k (frame_of r))]) = Inr m \<and>
             wal_inv 0 m (segs @ [(s, rs)]) \<and> m_encryption m = enc"
proof -
  have "(s, rs) \<in> set (segs @ [(s, rs)])" by simp
  then have cont: "file_content (seg_files (segs @ [(s, rs)])) (segmentName s) = frames rs"
    using file_content_seg_files ok by blast
  show ?thesis
    using name ok cont scanSegments_tail [OF ok rd r]
    by (simp add: Open_def scanAndOpen_def listSegments_tail [OF ok] wal_inv_def)
qed

section \<open>Appending\<close>

lemma pending_defaults:
  "frame_defaults now (pending_to_record now lsn p) = pending_to_record now lsn p"
  by (simp add: frame_defaults_def pending_to_record_def PayloadEncodingJSON_def)

lemma encryptPending_defaults:
  assumes "encryptPending enc (pending_to_record now lsn p) = Inr rec"
  shows "frame_defaults now rec = rec" "r_LSN rec = lsn"
  using assms
  by (auto simp: encryptPending_def frame_defaults_def pending_to_record_def PayloadEncodingJSON_def
      split: option.splits if_splits)

lemma seg_files_extend:
  assumes "segs_ok l (segs @ [(s, rs)])"
  shows "file_append (segmentName s) bs (seg_files (segs @ [(s, rs)])) =
         seg_files segs @ [(segmentName s, frames rs @ bs)]"
proof -
  have "distinct (map fst (seg_files (segs @ [(s, rs)])))"
    using assms by (rule seg_files_distinct)
  then have fresh: "segmentName s \<notin> fst ` set (seg_files segs)" by auto
  then show ?thesis
    by (simp add: file_append_def file_content_snoc AList_update_snoc)
qed

lemma rotate_seg_files:
  assumes "segs_ok l (segs @ [(s, [])])"
  shows "file_create (segmentName s) (seg_files segs) = seg_files (segs @ [(s, [])])"
proof -
  have "distinct (map fst (seg_files (segs @ [(s, [])])))"
    using assms by (rule seg_files_distinct)
  then have "map_of (seg_files segs) (segmentName s) = None"
    by (auto simp: map_of_eq_None_iff)
  then show ?thesis by (simp add: file_create_def)
qed

text \<open>The directory and the segments after one append, whether the log rotates or not.\<close>

definition append_target :: "manager \<Rightarrow> wal_record \<Rightarrow> seg_list \<Rightarrow> seg_list" where
  "append_target m rec segs =
     (if m_segmentSize m > 0 \<and> m_segmentSize m + int (length (frame_of rec)) > m_segmentBytes m
      then segs @ [(r_LSN rec, [])] else segs)"

lemma append_target_ok:
  assumes inv: "wal_inv l m segs" and st: "stored_record rec" and lsn: "r_LSN rec = lsn_next (m_last m)"
  shows "\<exists>segs0 s rs. append_target m rec segs = segs0 @ [(s, rs)] \<and>
      segs_ok l (segs0 @ [(s, rs)]) \<and> segs_ok l (segs0 @ [(s, rs @ [rec])]) \<and>
      all_records (segs0 @ [(s, rs)]) = all_records segs"
proof -
  obtain segs1 s1 rs1 where segs: "segs = segs1 @ [(s1, rs1)]"
    using inv by (metis append_butlast_last_id prod.collapse wal_inv_def)
  have ok: "segs_ok l (segs1 @ [(s1, rs1)])" and last: "m_last m = last_lsn l (all_records segs)"
    using inv segs by (auto simp: wal_inv_def)
  show ?thesis
  proof (cases "m_segmentSize m > 0 \<and> m_segmentSize m + int (length (frame_of rec)) > m_segmentBytes m")
    case True
    then have "rs1 \<noteq> []" using inv segs by (auto simp: wal_inv_def)
    with ok st lsn last segs have "segs_ok l (segs @ [(r_LSN rec, [])])" "segs_ok l (segs @ [(r_LSN rec, [rec])])"
      by (auto simp: segs_ok_append stored_LSN)
    with True show ?thesis
      by (intro exI [of _ segs] exI [of _ "r_LSN rec"] exI [of _ "[]"]) (auto simp: append_target_def)
  next
    case False
    with ok st lsn last segs show ?thesis
      by (intro exI [of _ segs1] exI [of _ s1] exI [of _ rs1])
        (auto simp: append_target_def segs_ok_append)
  qed
qed

lemma append_state:
  assumes inv: "wal_inv l m segs"
    and enc: "encryptPending (m_encryption m) (pending_to_record now (lsn_next (m_last m)) p) = Inr rec"
    and frame: "encodeFrame now rec = Inr frame" and now: "now \<noteq> ZeroTime"
    and m1: "m1 = rotateIfNeeded (lsn_next (m_last m)) (length frame) m"
  shows "\<exists>segs0 s rs. segs_ok l (segs0 @ [(s, rs)]) \<and> segs_ok l (segs0 @ [(s, rs @ [rec])]) \<and>
    all_records (segs0 @ [(s, rs)]) = all_records segs \<and> stored_record rec \<and> frame = frame_of rec \<and>
    m_dir m1 = seg_files (segs0 @ [(s, rs)]) \<and> m_file m1 = Some (segmentName s) \<and>
    m_segmentStart m1 = s \<and> m_segmentSize m1 = int (length (frames rs)) \<and>
    m_encryption m1 = m_encryption m \<and> m_last m1 = m_last m"
proof -
  have fr: "frame = frame_of rec" and st: "stored_record rec" and lsn: "r_LSN rec = lsn_next (m_last m)"
    using encryptPending_defaults [OF enc] encodeFrame_frame_of [OF frame] encodeFrame_stored [OF frame now]
    by simp_all
  from append_target_ok [OF inv st lsn] obtain segs0 s rs where
    t: "append_target m rec segs = segs0 @ [(s, rs)]" and ok: "segs_ok l (segs0 @ [(s, rs)])"
    and ok': "segs_ok l (segs0 @ [(s, rs @ [rec])])" and all: "all_records (segs0 @ [(s, rs)]) = all_records segs"
    by blast
  let ?rotates = "m_segmentSize m > 0 \<and> m_segmentSize m + int (length frame) > m_segmentBytes m"
  have "m_dir m1 = seg_files (segs0 @ [(s, rs)]) \<and> m_file m1 = Some (segmentName s) \<and>
      m_segmentStart m1 = s \<and> m_segmentSize m1 = int (length (frames rs)) \<and>
      m_encryption m1 = m_encryption m \<and> m_last m1 = m_last m"
  proof (cases ?rotates)
    case True
    then have rot: "m1 = rotateLocked (lsn_next (m_last m)) m" by (simp add: m1 rotateIfNeeded_def)
    from True t fr lsn have eq: "segs0 = segs" "s = lsn_next (m_last m)" "rs = []"
      by (auto simp: append_target_def)
    with ok have "segs_ok l (segs @ [(lsn_next (m_last m), [])])" by simp
    from rotate_seg_files [OF this] inv eq rot show ?thesis
      by (simp add: rotateLocked_def wal_inv_def)
  next
    case False
    have "m_file m \<noteq> None" using inv by (auto simp: wal_inv_def)
    with False have keep: "m1 = m" by (auto simp: m1 rotateIfNeeded_def)
    from False t fr have "segs = segs0 @ [(s, rs)]" by (auto simp: append_target_def)
    with inv keep show ?thesis by (simp add: wal_inv_def)
  qed
  with ok ok' all st fr show ?thesis by blast
qed

lemma append_ok:
  assumes inv: "wal_inv l m segs" and app: "Append None now WroteAll p m = (Inr lsn, m')"
    and now: "now \<noteq> ZeroTime"
  shows "\<exists>segs' rec. wal_inv l m' segs' \<and> all_records segs' = all_records segs @ [rec] \<and>
           encryptPending (m_encryption m) (pending_to_record now lsn p) = Inr rec \<and>
           lsn = lsn_next (m_last m) \<and> m_last m' = lsn \<and> m_encryption m' = m_encryption m"
proof -
  obtain rec frame where
    enc: "encryptPending (m_encryption m) (pending_to_record now (lsn_next (m_last m)) p) = Inr rec"
    and frame: "encodeFrame now rec = Inr frame"
    using app by (auto simp: Append_def Let_def split: sum.splits)
  define m1 where "m1 = rotateIfNeeded (lsn_next (m_last m)) (length frame) m"
  from append_state [OF inv enc frame now m1_def] obtain segs0 s rs where
    ok: "segs_ok l (segs0 @ [(s, rs)])" "segs_ok l (segs0 @ [(s, rs @ [rec])])"
    and all: "all_records (segs0 @ [(s, rs)]) = all_records segs"
    and fr: "frame = frame_of rec"
    and st: "m_dir m1 = seg_files (segs0 @ [(s, rs)])" "m_file m1 = Some (segmentName s)"
      "m_segmentStart m1 = s" "m_segmentSize m1 = int (length (frames rs))"
      "m_encryption m1 = m_encryption m" "m_last m1 = m_last m"
    by blast
  have m': "m' = m1\<lparr>m_dir := file_append (segmentName s) frame (m_dir m1),
        m_segmentSize := m_segmentSize m1 + int (length frame), m_last := lsn_next (m_last m)\<rparr>"
    and lsn: "lsn = lsn_next (m_last m)"
    using app st(2) by (auto simp: Append_def Let_def enc frame m1_def [symmetric])
  have rl: "r_LSN rec = lsn" using encryptPending_defaults [OF enc] lsn by simp
  have "m_dir m' = seg_files (segs0 @ [(s, rs @ [rec])])"
    using seg_files_extend [OF ok(1), of frame] st(1) fr m' by simp
  then have "wal_inv l m' (segs0 @ [(s, rs @ [rec])])"
    using ok(2) st m' fr lsn rl by (simp add: wal_inv_def)
  moreover have "all_records (segs0 @ [(s, rs @ [rec])]) = all_records segs @ [rec]"
    using all by simp
  moreover have "m_last m' = lsn" "m_encryption m' = m_encryption m"
    using m' st lsn by simp_all
  moreover have "encryptPending (m_encryption m) (pending_to_record now lsn p) = Inr rec"
    using enc lsn by simp
  ultimately show ?thesis
    using lsn by blast
qed

lemma append_fails:
  assumes inv: "wal_inv l m segs"
    and enc: "encryptPending (m_encryption m) (pending_to_record now (lsn_next (m_last m)) p) = Inr rec"
    and frame: "encodeFrame now rec = Inr frame" and now: "now \<noteq> ZeroTime"
  shows "\<exists>m' segs0 s rs. Append None now (WroteFails k) p m = (Inl ErrShortWrite, m') \<and>
           segs_ok l (segs0 @ [(s, rs)]) \<and> all_records (segs0 @ [(s, rs)]) = all_records segs \<and>
           m_dir m' = seg_files segs0 @ [(segmentName s, frames rs @ take k frame)] \<and>
           m_file m' = Some (segmentName s) \<and> m_last m' = m_last m"
proof -
  define m1 where "m1 = rotateIfNeeded (lsn_next (m_last m)) (length frame) m"
  from append_state [OF inv enc frame now m1_def] obtain segs0 s rs where
    ok: "segs_ok l (segs0 @ [(s, rs)])" and all: "all_records (segs0 @ [(s, rs)]) = all_records segs"
    and st: "m_dir m1 = seg_files (segs0 @ [(s, rs)])" "m_file m1 = Some (segmentName s)"
      "m_last m1 = m_last m"
    by blast
  let ?m' = "m1\<lparr>m_dir := file_append (segmentName s) (take k frame) (m_dir m1)\<rparr>"
  have app: "Append None now (WroteFails k) p m = (Inl ErrShortWrite, ?m')"
    using st(2) by (simp add: Append_def Let_def enc frame m1_def [symmetric])
  have "m_dir ?m' = seg_files segs0 @ [(segmentName s, frames rs @ take k frame)]"
    using seg_files_extend [OF ok, of "take k frame"] st(1) by simp
  with app ok all st show ?thesis by (intro exI [of _ ?m'] exI conjI) auto
qed

section \<open>Iterators\<close>

text \<open>
  \<open>it_rep d it cur rest\<close>: the open file of the iterator has the records \<open>cur\<close> left and \<open>rest\<close> are the
  segments it has not opened yet.
\<close>

definition it_rep :: "file_table \<Rightarrow> iterator \<Rightarrow> wal_record list \<Rightarrow> seg_list \<Rightarrow> bool" where
  "it_rep d it cur rest \<longleftrightarrow>
     (case it_file it of
        None \<Rightarrow> cur = [] \<and> drop (it_idx it) (it_segments it) = seg_names rest
      | Some (n, off) \<Rightarrow>
          it_idx it < length (it_segments it) \<and> drop off (file_content d n) = frames cur \<and>
          drop (Suc (it_idx it)) (it_segments it) = seg_names rest) \<and>
     (\<forall>(s, rs) \<in> set rest. file_content d (segmentName s) = frames rs) \<and>
     list_all stored_record (cur @ all_records rest)"

lemma nextLoop_open:
  assumes "it_rep d it [] ((s, rs) # rest)" "it_file it = None"
  shows "nextLoop d it = nextLoop d (it\<lparr>it_file := Some (segmentName s, 0)\<rparr>)"
    and "it_rep d (it\<lparr>it_file := Some (segmentName s, 0)\<rparr>) rs rest"
proof -
  have drop: "drop (it_idx it) (it_segments it) = (s, segmentName s) # seg_names rest"
    using assms by (simp add: it_rep_def)
  then have idx: "it_idx it < length (it_segments it)"
    by (metis drop_eq_Nil linorder_not_less list.distinct(1))
  with drop have nth: "it_segments it ! it_idx it = (s, segmentName s)"
    and rest: "drop (Suc (it_idx it)) (it_segments it) = seg_names rest"
    by (metis Cons_nth_drop_Suc list.inject)+
  show "nextLoop d it = nextLoop d (it\<lparr>it_file := Some (segmentName s, 0)\<rparr>)"
    by (subst nextLoop.simps) (use assms(2) idx nth in simp)
  show "it_rep d (it\<lparr>it_file := Some (segmentName s, 0)\<rparr>) rs rest"
    using assms idx rest by (auto simp: it_rep_def)
qed

lemma nextLoop_end:
  assumes "it_rep d it [] rest" "it_file it = Some (n, off)"
  shows "nextLoop d it = nextLoop d (it\<lparr>it_file := None, it_idx := Suc (it_idx it)\<rparr>)"
    and "it_rep d (it\<lparr>it_file := None, it_idx := Suc (it_idx it)\<rparr>) [] rest"
proof -
  have "drop off (file_content d n) = []" "it_idx it < length (it_segments it)"
    using assms by (auto simp: it_rep_def)
  then show "nextLoop d it = nextLoop d (it\<lparr>it_file := None, it_idx := Suc (it_idx it)\<rparr>)"
    by (subst nextLoop.simps) (use assms(2) in simp)
  show "it_rep d (it\<lparr>it_file := None, it_idx := Suc (it_idx it)\<rparr>) [] rest"
    using assms by (auto simp: it_rep_def)
qed

lemma nextLoop_record:
  assumes "it_rep d it (r # cur) rest" "it_file it = Some (n, off)"
    and "decryptRecord (it_encryption it) r = Inr r'"
  defines "it' \<equiv> it\<lparr>it_file := Some (n, off + length (frame_of r))\<rparr>"
  shows "nextLoop d it = (if r_LSN r < it_min it then nextLoop d it' else (Inr (Some r'), it'))"
    and "it_rep d it' cur rest"
proof -
  have r: "drop off (file_content d n) = frame_of r @ frames cur" and st: "stored_record r"
    using assms by (auto simp: it_rep_def)
  show "nextLoop d it = (if r_LSN r < it_min it then nextLoop d it' else (Inr (Some r'), it'))"
    by (subst nextLoop.simps)
      (simp add: assms(2,3) r decodeFrame_frame_of [OF st] it'_def decryptRecord_LSN [OF assms(3)])
  have "drop (off + length (frame_of r)) (file_content d n) = frames cur"
    using r by (metis add.commute append_eq_conv_conj drop_drop)
  then show "it_rep d it' cur rest"
    using assms by (auto simp: it_rep_def)
qed

text \<open>One call of \<open>Next\<close>: the first remaining record at or above the start LSN, decrypted.\<close>

definition next_spec ::
  "file_table \<Rightarrow> lsn \<Rightarrow> cipher_service option \<Rightarrow> bool \<Rightarrow> wal_record list \<Rightarrow>
   (wal_error + wal_record option) \<times> iterator \<Rightarrow> bool" where
  "next_spec d lo enc closed todo res \<longleftrightarrow>
     (case dropWhile (\<lambda>r. r_LSN r < lo) todo of
        [] \<Rightarrow> fst res = Inr None
      | r # rs \<Rightarrow> \<exists>it' cur' rest'.
          res = (Inr (Some (plain enc r)), it') \<and>
          it_rep d it' cur' rest' \<and> cur' @ all_records rest' = rs \<and>
          it_min it' = lo \<and> it_encryption it' = enc \<and> it_closed it' = closed)"

lemma nextLoop_spec:
  assumes "it_rep d it cur rest" "readable (it_encryption it) (cur @ all_records rest)"
  shows "next_spec d (it_min it) (it_encryption it) (it_closed it) (cur @ all_records rest) (nextLoop d it)"
  using assms
proof (induction "2 * length rest + (case it_file it of None \<Rightarrow> 0 | Some _ \<Rightarrow> 1) + length (cur @ all_records rest)"
    arbitrary: it cur rest rule: less_induct)
  case less
  show ?case
  proof (cases "it_file it")
    case None
    then have cur: "cur = []" using less.prems by (simp add: it_rep_def)
    show ?thesis
    proof (cases rest)
      case Nil
      then have "length (it_segments it) \<le> it_idx it"
        using less.prems None by (simp add: it_rep_def)
      then have "nextLoop d it = (Inr None, it)"
        by (subst nextLoop.simps) (simp add: None)
      with Nil cur show ?thesis by (simp add: next_spec_def)
    next
      case (Cons a rest')
      obtain s rs where a: "a = (s, rs)" by fastforce
      let ?it = "it\<lparr>it_file := Some (segmentName s, 0)\<rparr>"
      have rep: "it_rep d it [] ((s, rs) # rest')" using less.prems Cons a cur by simp
      have "it_rep d ?it rs rest'" using nextLoop_open(2) [OF rep None] .
      moreover have "nextLoop d it = nextLoop d ?it" using nextLoop_open(1) [OF rep None] .
      ultimately show ?thesis
        using less.hyps [of rest' ?it rs] less.prems Cons a cur None by simp
    qed
  next
    case (Some nf)
    obtain n off where nf: "it_file it = Some (n, off)" using Some by (cases nf) auto
    show ?thesis
    proof (cases cur)
      case Nil
      let ?it = "it\<lparr>it_file := None, it_idx := Suc (it_idx it)\<rparr>"
      have rep: "it_rep d it [] rest" using less.prems Nil by simp
      have "it_rep d ?it [] rest" using nextLoop_end(2) [OF rep nf] .
      moreover have "nextLoop d it = nextLoop d ?it" using nextLoop_end(1) [OF rep nf] .
      ultimately show ?thesis
        using less.hyps [of rest ?it "[]"] less.prems Nil nf by simp
    next
      case (Cons r cur')
      let ?it = "it\<lparr>it_file := Some (n, off + length (frame_of r))\<rparr>"
      obtain r' where r': "decryptRecord (it_encryption it) r = Inr r'"
        using less.prems Cons by auto
      have rep: "it_rep d it (r # cur') rest" using less.prems Cons by simp
      note step = nextLoop_record [OF rep nf r']
      show ?thesis
      proof (cases "r_LSN r < it_min it")
        case True
        with step less.hyps [of rest ?it cur'] less.prems Cons nf show ?thesis
          by (simp add: next_spec_def)
      next
        case False
        with step(1) have "nextLoop d it = (Inr (Some (plain (it_encryption it) r)), ?it)"
          by (simp add: plain_def r')
        with step(2) False Cons show ?thesis
          by (auto simp: next_spec_def)
      qed
    qed
  qed
qed

section \<open>Where a read starts\<close>

lemma readIndex_spec:
  assumes "sorted_wrt (<) (map fst segs)"
  shows "readIndex lsn i segs idx =
         (if \<exists>s \<in> set segs. fst s \<le> lsn then i + (length (takeWhile (\<lambda>s. fst s \<le> lsn) segs) - 1)
          else idx)"
  using assms
proof (induction segs arbitrary: i idx)
  case Nil
  then show ?case by simp
next
  case (Cons a segs)
  show ?case
  proof (cases "fst a \<le> lsn")
    case True
    show ?thesis
    proof (cases "\<exists>s \<in> set segs. fst s \<le> lsn")
      case ex: True
      then obtain s b bs where s: "s \<in> set segs" "fst s \<le> lsn" and segs: "segs = b # bs"
        by (metis list.set_cases)
      then have "fst b \<le> fst s" using Cons.prems by (auto simp: less_imp_le)
      with s segs ex True Cons show ?thesis by simp
    next
      case False
      then have "takeWhile (\<lambda>s. fst s \<le> lsn) segs = []"
        by (cases segs) auto
      with False True Cons show ?thesis by simp
    qed
  next
    case False
    then have "\<forall>s \<in> set segs. \<not> fst s \<le> lsn"
      using Cons.prems by force
    with False Cons show ?thesis by simp
  qed
qed

text \<open>Segments before the chosen one hold only records below the requested LSN.\<close>

definition read_skip :: "lsn \<Rightarrow> seg_list \<Rightarrow> nat" where
  "read_skip lsn segs = length (takeWhile (\<lambda>s. fst s \<le> lsn) segs) - 1"

lemma read_skip_records:
  assumes "segs_ok l segs"
  shows "\<forall>r \<in> set (all_records (take (read_skip lsn segs) segs)). r_LSN r < lsn"
  using assms
proof (induction l segs rule: segs_ok.induct)
  case (1 l)
  then show ?case by (simp add: read_skip_def)
next
  case (2 l s rs segs)
  show ?case
  proof (cases "s \<le> lsn \<and> segs \<noteq> [] \<and> fst (hd segs) \<le> lsn")
    case False
    then have "read_skip lsn ((s, rs) # segs) = 0"
      by (cases segs) (auto simp: read_skip_def)
    then show ?thesis by simp
  next
    case True
    then obtain s' rs' segs' where segs: "segs = (s', rs') # segs'" by (cases segs) auto
    have skip: "read_skip lsn ((s, rs) # segs) = Suc (read_skip lsn segs)"
      using True segs by (auto simp: read_skip_def)
    have "last_lsn l rs < s'"
      using 2 segs by (intro segs_ok_start_gt [of _ segs]) auto
    moreover have "s' \<le> lsn" using True segs by simp
    moreover have "r_LSN r \<le> last_lsn l rs" if "r \<in> set rs" for r
      using 2 that contiguous_LSN_bounds [of l rs r] by auto
    ultimately have "\<forall>r \<in> set rs. r_LSN r < lsn" by fastforce
    with 2 skip show ?thesis by auto
  qed
qed

lemma dropWhile_below_eq_filter:
  assumes "contiguous l rs" "list_all stored_record rs"
  shows "dropWhile (\<lambda>r. r_LSN r < lsn) rs = filter (\<lambda>r. lsn \<le> r_LSN r) rs"
  using assms
proof (induction rs arbitrary: l)
  case Nil
  then show ?case by simp
next
  case (Cons r rs)
  show ?case
  proof (cases "r_LSN r < lsn")
    case True
    with Cons show ?thesis by (auto simp: linorder_not_le)
  next
    case False
    have "r_LSN r < r_LSN r'" if "r' \<in> set rs" for r'
      using Cons.prems that contiguous_LSN_bounds [of "r_LSN r" rs r'] by auto
    with False have "filter (\<lambda>r. lsn \<le> r_LSN r) rs = rs"
      by (intro filter_True) force
    with False show ?thesis by simp
  qed
qed

lemma readFrom_spec:
  assumes inv: "wal_inv l m segs"
  shows "\<exists>it rest. ReadFrom None lsn m = Inr it \<and> it_rep (m_dir m) it [] rest \<and>
           it_min it = lsn \<and> it_encryption it = m_encryption m \<and> \<not> it_closed it \<and>
           rest = drop (read_skip lsn segs) segs \<and>
           dropWhile (\<lambda>r. r_LSN r < lsn) (all_records rest) =
             filter (\<lambda>r. lsn \<le> r_LSN r) (all_records segs)"
proof -
  have ok: "segs_ok l segs" and dir: "m_dir m = seg_files segs" and ne: "segs \<noteq> []"
    using inv by (auto simp: wal_inv_def)
  have names: "map fst (seg_names segs) = map fst segs"
    by (simp add: seg_names_def comp_def case_prod_beta)
  have tw: "takeWhile (\<lambda>s. fst s \<le> lsn) (seg_names segs) = seg_names (takeWhile (\<lambda>s. fst s \<le> lsn) segs)"
    by (simp add: seg_names_def takeWhile_map comp_def case_prod_beta)
  have len: "length (seg_names xs) = length xs" for xs by (simp add: seg_names_def)
  have sorted: "sorted_wrt (<) (map fst (seg_names segs))"
    using segs_ok_sorted [OF ok] names by simp
  define k where "k = read_skip lsn segs"
  have "\<not> (\<exists>s \<in> set (seg_names segs). fst s \<le> lsn) \<Longrightarrow> k = 0"
    unfolding k_def read_skip_def by (cases segs) (auto simp: seg_names_def)
  then have idx: "readIndex lsn 0 (seg_names segs) 0 = k"
    using readIndex_spec [OF sorted, of lsn 0 0] by (auto simp: tw len k_def read_skip_def)
  have dropn: "drop k (seg_names segs) = seg_names (drop k segs)"
    by (simp add: seg_names_def drop_map)
  let ?it = "newIterator (seg_names (drop k segs)) lsn (m_encryption m)"
  have rf: "ReadFrom None lsn m = Inr ?it"
    using listSegments_seg_files [OF ok] ne by (simp add: ReadFrom_def dir idx dropn)
  have recs: "contiguous l (all_records segs)" "list_all stored_record (all_records segs)"
    using segs_ok_records [OF ok] by auto
  have split: "all_records segs = all_records (take k segs) @ all_records (drop k segs)"
    by (metis all_records_simps(3) append_take_drop_id)
  have "contiguous (last_lsn l (all_records (take k segs))) (all_records (drop k segs))"
    "list_all stored_record (all_records (drop k segs))"
    using recs split by auto
  then have "dropWhile (\<lambda>r. r_LSN r < lsn) (all_records (drop k segs)) =
      filter (\<lambda>r. lsn \<le> r_LSN r) (all_records (drop k segs))"
    by (rule dropWhile_below_eq_filter)
  also have "\<dots> = filter (\<lambda>r. lsn \<le> r_LSN r) (all_records segs)"
    using read_skip_records [OF ok, of lsn] unfolding split k_def
    by (auto simp: filter_empty_conv linorder_not_le)
  finally have drop: "dropWhile (\<lambda>r. r_LSN r < lsn) (all_records (drop k segs)) =
      filter (\<lambda>r. lsn \<le> r_LSN r) (all_records segs)" .
  have sub: "set (drop k segs) \<subseteq> set segs" by (rule set_drop_subset)
  have "it_rep (m_dir m) ?it [] (drop k segs)"
    using sub file_content_seg_files [OF ok] \<open>list_all stored_record (all_records (drop k segs))\<close>
    by (auto simp: it_rep_def newIterator_def dir)
  with rf drop show ?thesis
    by (intro exI [of _ ?it] exI [of _ "drop k segs"]) (simp add: newIterator_def k_def)
qed

section \<open>Retention\<close>

fun retained :: "lsn \<Rightarrow> seg_list \<Rightarrow> seg_list" where
  "retained from (a # b # segs) =
     (if fst b \<le> from then retained from (b # segs) else a # b # segs)"
| "retained from segs = segs"

lemma retainLoop_none:
  "\<forall>s \<in> set (tl segs). \<not> fst s \<le> from \<Longrightarrow> retainLoop from segs d = d"
  by (induction "from" segs d rule: retainLoop.induct) auto

lemma AList_delete_fresh: "n \<notin> fst ` set d \<Longrightarrow> AList.delete n d = d"
  by (induction d) (auto simp: AList.delete_eq)

lemma retainLoop_seg_files:
  assumes "segs_ok l segs"
  shows "retainLoop from (seg_names segs) (seg_files segs) = seg_files (retained from segs)"
  using assms
proof (induction "from" segs arbitrary: l rule: retained.induct)
  case (1 "from" a b segs)
  obtain s rs s' rs' where ab: "a = (s, rs)" "b = (s', rs')" by fastforce
  have sorted: "sorted_wrt (<) (map fst (a # b # segs))"
    using segs_ok_sorted [OF 1(2)] .
  show ?case
  proof (cases "s' \<le> from")
    case True
    have "segmentName s \<notin> fst ` set (seg_files (b # segs))"
      using seg_files_distinct [OF 1(2)] unfolding ab by simp
    then have del: "AList.delete (segmentName s) (seg_files (a # b # segs)) = seg_files (b # segs)"
      using ab by (auto simp: AList_delete_fresh)
    have "segs_ok (last_lsn l rs) (b # segs)" using 1(2) ab by auto
    moreover have "retainLoop from (seg_names (a # b # segs)) (seg_files (a # b # segs)) =
        retainLoop from (seg_names (b # segs)) (AList.delete (segmentName s) (seg_files (a # b # segs)))"
      using True ab by simp
    ultimately show ?thesis
      using 1(1) True ab del by (metis fst_conv retained.simps(1))
  next
    case False
    have "\<forall>x \<in> set (tl (seg_names (a # b # segs))). \<not> fst x \<le> from"
      using False sorted ab by (force simp: seg_names_def)
    with False ab show ?thesis
      by (simp add: retainLoop_none del: retainLoop.simps)
  qed
qed (simp_all add: seg_names_def seg_files_def split: prod.split)

lemma retained_suffix:
  assumes "segs_ok l segs"
  shows "\<exists>dropped. segs = dropped @ retained from segs \<and>
           (\<forall>r \<in> set (all_records dropped). r_LSN r < from)"
  using assms
proof (induction "from" segs arbitrary: l rule: retained.induct)
  case (1 "from" a b segs)
  obtain s rs s' rs' where ab: "a = (s, rs)" "b = (s', rs')" by fastforce
  show ?case
  proof (cases "s' \<le> from")
    case True
    have ok: "segs_ok (last_lsn l rs) (b # segs)" using 1(2) ab by auto
    with 1(1) True ab obtain dropped where d: "b # segs = dropped @ retained from (b # segs)"
      "\<forall>r \<in> set (all_records dropped). r_LSN r < from" by auto
    have "last_lsn l rs < s'" using segs_ok_start_gt [OF ok] ab by simp
    moreover have "r_LSN r \<le> last_lsn l rs" if "r \<in> set rs" for r
      using 1(2) that ab contiguous_LSN_bounds [of l rs r] by auto
    ultimately have "\<forall>r \<in> set rs. r_LSN r < from" using True by fastforce
    with d True ab show ?thesis by (intro exI [of _ "a # dropped"]) auto
  next
    case False
    with ab show ?thesis by simp
  qed
qed simp_all

lemma retained_nonempty [simp]: "retained from segs = [] \<longleftrightarrow> segs = []"
  by (induction "from" segs rule: retained.induct) auto

lemma retained_last: "segs \<noteq> [] \<Longrightarrow> last (retained from segs) = last segs"
  by (induction "from" segs rule: retained.induct) auto

lemma retainFrom_ok:
  assumes inv: "wal_inv l m segs" and ret: "RetainFrom None from m = (e, m')"
    and nz: "from \<noteq> 0"
  shows "e = None \<and> (\<exists>dropped. segs = dropped @ retained from segs \<and>
           (\<forall>r \<in> set (all_records dropped). r_LSN r < from) \<and>
           wal_inv (last_lsn l (all_records dropped)) m' (retained from segs))"
proof -
  have ok: "segs_ok l segs" and dir: "m_dir m = seg_files segs"
    using inv by (auto simp: wal_inv_def)
  have m': "e = None" "m' = m\<lparr>m_dir := seg_files (retained from segs)\<rparr>"
    using ret nz listSegments_seg_files [OF ok] retainLoop_seg_files [OF ok]
    by (auto simp: RetainFrom_def dir)
  obtain dropped where d: "segs = dropped @ retained from segs"
    "\<forall>r \<in> set (all_records dropped). r_LSN r < from"
    using retained_suffix [OF ok] by blast
  have "segs_ok (last_lsn l (all_records dropped)) (retained from segs)"
    using ok d by (metis segs_ok_append)
  moreover have "all_records segs = all_records dropped @ all_records (retained from segs)"
    using d by (metis all_records_simps(3))
  ultimately have "wal_inv (last_lsn l (all_records dropped)) m' (retained from segs)"
    using inv m' by (simp add: wal_inv_def retained_last)
  with m' d show ?thesis by blast
qed

end
