(* ===== verification/Wal_Recovery.thy ===== *)
theory Wal_Recovery
  imports Wal_Log
begin

text \<open>
  Replaying the log (\<open>internal/wal/recovery.go\<close>, \<open>registry.go\<close>, \<open>progress.go\<close> and the checkpoint part
  of \<open>checkpoint.go\<close>). The registry maps a record type to the applier of the module that owns it; an
  applier is a function on the state \<open>'a\<close> of the modules, which are parameters here. The store of the
  applied LSN is the interface \<open>AppliedLSNStore\<close>: the locale \<open>applied_lsn_store\<close>, interpreted on the
  file-backed store. A stored JSON document is the value it decodes to, or garbage.
\<close>

type_synonym 'a applier = "wal_record \<Rightarrow> 'a \<Rightarrow> wal_error option \<times> 'a"
type_synonym 'a registry = "string \<rightharpoonup> 'a applier"

section \<open>Registry\<close>

definition Register :: "string \<Rightarrow> 'a applier option \<Rightarrow> 'a registry \<Rightarrow> wal_error option \<times> 'a registry" where
  "Register recordType applier reg =
     (case applier of
        None \<Rightarrow> (Some (ErrInvalidRecord ''record type and applier are required''), reg)
      | Some f \<Rightarrow>
          if recordType = [] then (Some (ErrInvalidRecord ''record type and applier are required''), reg)
          else if reg recordType \<noteq> None then (Some (ErrInvalidRecord ''duplicate applier''), reg)
          else (None, reg(recordType \<mapsto> f)))"

definition Applier :: "string \<Rightarrow> 'a registry \<Rightarrow> 'a applier option" where
  "Applier recordType reg = reg recordType"

definition registry_Apply :: "'a registry \<Rightarrow> wal_record \<Rightarrow> 'a \<Rightarrow> wal_error option \<times> 'a" where
  "registry_Apply reg rec a =
     (case Applier (r_Type rec) reg of
        None \<Rightarrow> (Some (ErrInvalidRecord ''no applier''), a)
      | Some f \<Rightarrow> f rec a)"

lemma Register_keeps:
  "Register t f reg = (e, reg') \<Longrightarrow> reg t' = Some g \<Longrightarrow> reg' t' = Some g"
  by (auto simp: Register_def split: option.splits if_splits)

section \<open>Applied position\<close>

record progressDocument =
  pd_AppliedLSN :: lsn
  pd_UpdatedAt :: gotime

datatype 'd json_file = Garbage | Doc 'd

type_synonym progress_file = "progressDocument json_file option"

definition AppliedLSN :: "ctx \<Rightarrow> progress_file \<Rightarrow> wal_error + lsn" where
  "AppliedLSN ctx f =
     (case ctx of
        Some e \<Rightarrow> Inl (ErrCtx e)
      | None \<Rightarrow> (case f of
                   None \<Rightarrow> Inr 0
                 | Some Garbage \<Rightarrow> Inl ErrJSON
                 | Some (Doc doc) \<Rightarrow> Inr (pd_AppliedLSN doc)))"

definition SetAppliedLSN ::
  "gotime \<Rightarrow> io_step option \<Rightarrow> ctx \<Rightarrow> lsn \<Rightarrow> progress_file \<Rightarrow> wal_error option \<times> progress_file" where
  "SetAppliedLSN now fails ctx l f =
     (case ctx of
        Some e \<Rightarrow> (Some (ErrCtx e), f)
      | None \<Rightarrow>
          (case WriteFileAtomic fails (Doc \<lparr>pd_AppliedLSN = l, pd_UpdatedAt = now\<rparr>) f of
             (e, f') \<Rightarrow> (map_option ErrIO e, f')))"

section \<open>Waiting for application\<close>

text \<open>The state of an \<open>ApplyWaiter\<close> is its \<open>applied\<close> field.\<close>

definition SetApplied :: "lsn \<Rightarrow> lsn \<Rightarrow> lsn" where
  "SetApplied l applied = (if l > applied then l else applied)"

text \<open>\<open>WaitUntilApplied\<close> over the values a waiter sees at its ticks, each with the state of its
  context then; \<^const>\<open>None\<close> while it is still waiting.\<close>

fun WaitUntilApplied :: "lsn \<Rightarrow> (lsn \<times> ctx) list \<Rightarrow> wal_error option option" where
  "WaitUntilApplied target ticks =
     (if target = 0 then Some None
      else (case ticks of
              [] \<Rightarrow> None
            | (applied, c) # ticks' \<Rightarrow>
                if applied \<ge> target then Some None
                else (case c of Some e \<Rightarrow> Some (Some (ErrCtx e)) | None \<Rightarrow> WaitUntilApplied target ticks')))"

section \<open>Recovery\<close>

record ('a, 'p) recovery =
  rc_state :: 'a
  rc_progress :: 'p
  rc_wait :: lsn

definition it_order :: "(file_table \<times> iterator) rel" where
  "it_order = measures [\<lambda>(d, it). length (it_segments it) - it_idx it, \<lambda>(d, it). it_left d it]"

lemma wf_it_order: "wf it_order"
  by (simp add: it_order_def)

lemma it_order_trans: "(x, y) \<in> it_order \<Longrightarrow> (y, z) \<in> it_order \<Longrightarrow> (x, z) \<in> it_order"
  by (auto simp: it_order_def)

lemma nextLoop_progress:
  "nextLoop d it = (Inr (Some rec), it') \<Longrightarrow> ((d, it'), (d, it)) \<in> it_order"
proof (induction d it rule: nextLoop.induct)
  case (1 d it)
  note prem = 1(4) [unfolded nextLoop.simps [of d it]]
  show ?case
  proof (cases "it_file it")
    case None
    let ?it = "it\<lparr>it_file := Some (snd (it_segments it ! it_idx it), 0)\<rparr>"
    from prem None have idx: "it_idx it < length (it_segments it)"
      and nl: "nextLoop d ?it = (Inr (Some rec), it')"
      by (auto split: if_splits)
    then have "((d, it'), (d, ?it)) \<in> it_order" using 1(1) None by simp
    moreover have "((d, ?it), (d, it)) \<in> it_order"
      using None idx by (simp add: it_order_def it_left_def)
    ultimately show ?thesis by (rule it_order_trans)
  next
    case (Some f)
    obtain n off where f: "f = (n, off)" by fastforce
    define r where "r = drop off (file_content d n)"
    obtain res r' where dec: "decodeFrame r = (res, r')" by fastforce
    let ?it = "it\<lparr>it_file := Some (n, off + (length r - length r'))\<rparr>"
    let ?nx = "it\<lparr>it_file := None, it_idx := Suc (it_idx it)\<rparr>"
    show ?thesis
    proof (cases res)
      case (FrameRec rec0 k)
      have less: "((d, ?it), (d, it)) \<in> it_order"
        using decodeFrame_left [of off "file_content d n" rec0 k r'] dec FrameRec Some f
        by (simp add: it_order_def it_left_def r_def)
      obtain rec' where dr: "decryptRecord (it_encryption it) rec0 = Inr rec'"
        using prem Some f dec FrameRec by (auto simp: r_def [symmetric] Let_def split: sum.splits)
      show ?thesis
      proof (cases "r_LSN rec' < it_min it")
        case True
        then have "nextLoop d ?it = (Inr (Some rec), it')"
          using prem Some f dec FrameRec dr by (simp add: r_def [symmetric] Let_def)
        then have "((d, it'), (d, ?it)) \<in> it_order"
          using 1(2) [OF Some f [symmetric] r_def dec [symmetric] FrameRec refl dr True] by simp
        then show ?thesis using less by (rule it_order_trans)
      next
        case False
        then have "it' = ?it"
          using prem Some f dec FrameRec dr by (simp add: r_def [symmetric] Let_def)
        with less show ?thesis by simp
      qed
    next
      case FrameEOF
      then have idx: "it_idx it < length (it_segments it)"
        and nl: "nextLoop d ?nx = (Inr (Some rec), it')"
        using prem Some f dec by (auto simp: r_def [symmetric] split: if_splits)
      then have "((d, it'), (d, ?nx)) \<in> it_order"
        using 1(3) [OF Some f [symmetric] r_def dec [symmetric] FrameEOF] by simp
      moreover have "((d, ?nx), (d, it)) \<in> it_order"
        using idx by (auto simp: it_order_def)
      ultimately show ?thesis by (rule it_order_trans)
    qed (use prem Some f dec in \<open>auto simp: r_def [symmetric]\<close>)
  qed
qed

lemma Next_progress:
  "Next ctx d it = (Inr (Some rec), it') \<Longrightarrow> ((d, it'), (d, it)) \<in> it_order"
  by (auto simp: Next_def dest: nextLoop_progress split: if_splits option.splits)

function recoverLoop ::
  "'a registry \<Rightarrow> (lsn \<Rightarrow> 'p \<Rightarrow> wal_error option \<times> 'p) \<Rightarrow> ctx \<Rightarrow> file_table \<Rightarrow> iterator \<Rightarrow> lsn \<Rightarrow>
   ('a, 'p) recovery \<Rightarrow> (lsn \<times> wal_error option) \<times> ('a, 'p) recovery" where
  "recoverLoop reg setp ctx d it applied st =
     (case Next ctx d it of
        (Inl e, it') \<Rightarrow> ((applied, Some e), st)
      | (Inr None, it') \<Rightarrow> ((applied, None), st)
      | (Inr (Some rec), it') \<Rightarrow>
          if r_LSN rec \<le> applied then recoverLoop reg setp ctx d it' applied st
          else
            (case Applier (r_Type rec) reg of
               None \<Rightarrow> ((applied, Some (ErrInvalidRecord ''unknown record type'')), st)
             | Some f \<Rightarrow>
                 (case f rec (rc_state st) of
                    (Some e, a) \<Rightarrow> ((applied, Some (ErrApply (r_Type rec))), st\<lparr>rc_state := a\<rparr>)
                  | (None, a) \<Rightarrow>
                      (case setp (r_LSN rec) (rc_progress st) of
                         (Some e, p) \<Rightarrow> ((applied, Some e), st\<lparr>rc_state := a, rc_progress := p\<rparr>)
                       | (None, p) \<Rightarrow>
                           recoverLoop reg setp ctx d it' (r_LSN rec)
                             (st\<lparr>rc_state := a, rc_progress := p,
                                 rc_wait := SetApplied (r_LSN rec) (rc_wait st)\<rparr>)))))"
  by pat_completeness auto

termination
  by (relation "inv_image it_order (\<lambda>(reg, setp, ctx, d, it, applied, st). (d, it))")
    (auto simp: wf_it_order dest!: sym [of _ "Next _ _ _"] dest: Next_progress)

declare recoverLoop.simps [simp del]

definition Recover ::
  "'a registry \<Rightarrow> (ctx \<Rightarrow> 'p \<Rightarrow> wal_error + lsn) \<Rightarrow> (lsn \<Rightarrow> 'p \<Rightarrow> wal_error option \<times> 'p) \<Rightarrow>
   ctx \<Rightarrow> manager \<Rightarrow> ('a, 'p) recovery \<Rightarrow> (lsn \<times> wal_error option) \<times> ('a, 'p) recovery" where
  "Recover reg getp setp ctx m st =
     (case getp ctx (rc_progress st) of
        Inl e \<Rightarrow> ((0, Some e), st)
      | Inr applied \<Rightarrow>
          (let st1 = st\<lparr>rc_wait := SetApplied applied (rc_wait st)\<rparr> in
           case ReadFrom ctx (lsn_next applied) m of
             Inl e \<Rightarrow> ((0, Some e), st1)
           | Inr it \<Rightarrow> recoverLoop reg setp ctx (m_dir m) it applied st1))"

section \<open>Recovery is a replay\<close>

text \<open>The specification: apply the records in order, record each position, stop at the first error.\<close>

fun replay ::
  "'a registry \<Rightarrow> (lsn \<Rightarrow> 'p \<Rightarrow> wal_error option \<times> 'p) \<Rightarrow> wal_record list \<Rightarrow> lsn \<Rightarrow>
   ('a, 'p) recovery \<Rightarrow> (lsn \<times> wal_error option) \<times> ('a, 'p) recovery" where
  "replay reg setp [] applied st = ((applied, None), st)"
| "replay reg setp (rec # rs) applied st =
     (case reg (r_Type rec) of
        None \<Rightarrow> ((applied, Some (ErrInvalidRecord ''unknown record type'')), st)
      | Some f \<Rightarrow>
          (case f rec (rc_state st) of
             (Some e, a) \<Rightarrow> ((applied, Some (ErrApply (r_Type rec))), st\<lparr>rc_state := a\<rparr>)
           | (None, a) \<Rightarrow>
               (case setp (r_LSN rec) (rc_progress st) of
                  (Some e, p) \<Rightarrow> ((applied, Some e), st\<lparr>rc_state := a, rc_progress := p\<rparr>)
                | (None, p) \<Rightarrow>
                    replay reg setp rs (r_LSN rec)
                      (st\<lparr>rc_state := a, rc_progress := p,
                          rc_wait := SetApplied (r_LSN rec) (rc_wait st)\<rparr>))))"

definition lsn_sorted :: "wal_record list \<Rightarrow> bool" where
  "lsn_sorted rs \<longleftrightarrow> sorted_wrt (\<lambda>a b. r_LSN a < r_LSN b) rs"

lemma lsn_sorted_simps [simp]:
  "lsn_sorted []" "lsn_sorted (r # rs) \<longleftrightarrow> (\<forall>x \<in> set rs. r_LSN r < r_LSN x) \<and> lsn_sorted rs"
  by (auto simp: lsn_sorted_def)

lemma contiguous_lsn_sorted: "contiguous l rs \<Longrightarrow> list_all stored_record rs \<Longrightarrow> lsn_sorted rs"
proof (induction rs arbitrary: l)
  case (Cons r rs)
  then have "contiguous (r_LSN r) rs" by auto
  then show ?case
    using Cons contiguous_LSN_bounds [of "r_LSN r" rs] by auto
qed simp

lemma lsn_sorted_dropWhile: "lsn_sorted rs \<Longrightarrow> lsn_sorted (dropWhile P rs)"
  by (induction rs) auto

lemma readable_subset: "readable enc xs \<Longrightarrow> set ys \<subseteq> set xs \<Longrightarrow> readable enc ys"
  by (auto simp: readable_def list_all_iff)

lemma lsn_sorted_append: "lsn_sorted (xs @ ys) \<Longrightarrow> lsn_sorted ys"
  by (simp add: lsn_sorted_def sorted_wrt_append)

lemma plain_LSN [simp]: "r_LSN (plain enc r) = r_LSN r"
  by (auto simp: plain_def dest: decryptRecord_LSN split: sum.split)

lemma dropWhile_above:
  "\<forall>x \<in> set rs. lo \<le> r_LSN x \<Longrightarrow> dropWhile (\<lambda>r. r_LSN r < lo) rs = rs"
  by (cases rs) auto

lemma recoverLoop_replay:
  assumes "it_rep d it cur rest" "readable (it_encryption it) (cur @ all_records rest)"
    and "\<not> it_closed it" "lsn_sorted (cur @ all_records rest)"
  shows "recoverLoop reg setp None d it applied st =
    replay reg setp (map (plain (it_encryption it))
      (filter (\<lambda>r. applied < r_LSN r)
        (dropWhile (\<lambda>r. r_LSN r < it_min it) (cur @ all_records rest)))) applied st"
  using assms
proof (induction "length (cur @ all_records rest)" arbitrary: it cur rest applied st rule: less_induct)
  case less
  let ?todo = "cur @ all_records rest"
  note spec = nextLoop_spec [OF less(2,3), unfolded next_spec_def]
  show ?case
  proof (cases "dropWhile (\<lambda>r. r_LSN r < it_min it) ?todo")
    case Nil
    have "fst (Next None d it) = Inr None"
      using spec [unfolded Nil] less(4) by (simp add: Next_def)
    then show ?thesis
      unfolding Nil by (subst recoverLoop.simps) (cases "Next None d it"; simp)
  next
    case (Cons r rs)
    with spec obtain it' cur' rest' where
      nx: "nextLoop d it = (Inr (Some (plain (it_encryption it) r)), it')"
      and rep: "it_rep d it' cur' rest'" and rs: "cur' @ all_records rest' = rs"
      and it': "it_min it' = it_min it" "it_encryption it' = it_encryption it"
        "it_closed it' = it_closed it"
      by auto
    have todo: "?todo = takeWhile (\<lambda>r. r_LSN r < it_min it) ?todo @ r # rs"
      using Cons by (metis takeWhile_dropWhile_id)
    then have len: "length (cur' @ all_records rest') < length ?todo"
      unfolding rs using Cons length_dropWhile_le [of "\<lambda>r. r_LSN r < it_min it" ?todo] by simp
    have rd: "readable (it_encryption it) (cur' @ all_records rest')"
      using less(3) by (rule readable_subset) (use rs Cons in \<open>metis set_subset_Cons set_dropWhileD subset_iff\<close>)
    have srt: "lsn_sorted (r # rs)"
      using lsn_sorted_dropWhile [OF less(5)] Cons by metis
    have "\<not> r_LSN r < it_min it"
      using Cons by (metis dropWhile_eq_Cons_conv)
    then have dw: "dropWhile (\<lambda>r. r_LSN r < it_min it) rs = rs"
      using srt by (intro dropWhile_above) auto
    have IH: "recoverLoop reg setp None d it' applied' st' =
        replay reg setp (map (plain (it_encryption it)) (filter (\<lambda>r. applied' < r_LSN r) rs)) applied' st'"
      for applied' st'
      using less(1) [OF len rep, of applied' st'] rd it' less(4) srt rs dw by simp
    have flt: "filter (\<lambda>x. r_LSN r < r_LSN x) rs = rs" "r_LSN r > applied \<Longrightarrow> filter (\<lambda>x. applied < r_LSN x) rs = rs"
      using srt by (auto intro!: filter_True)
    have "Next None d it = (Inr (Some (plain (it_encryption it) r)), it')"
      using nx less(4) by (simp add: Next_def)
    then show ?thesis
      unfolding Cons
      by (subst recoverLoop.simps)
        (auto simp: IH flt Applier_def linorder_not_less split: option.split prod.split)
  qed
qed

lemma recover_replay:
  assumes inv: "wal_inv l m segs" and rd: "readable (m_encryption m) (all_records segs)"
    and get: "getp None (rc_progress st) = Inr applied"
  shows "Recover reg getp setp None m st =
    replay reg setp
      (map (plain (m_encryption m)) (filter (\<lambda>r. applied < r_LSN r) (all_records segs)))
      applied (st\<lparr>rc_wait := SetApplied applied (rc_wait st)\<rparr>)"
proof -
  have ok: "segs_ok l segs" using inv by (simp add: wal_inv_def)
  obtain it rest where rf: "ReadFrom None (lsn_next applied) m = Inr it"
    and rep: "it_rep (m_dir m) it [] rest" and it: "it_min it = lsn_next applied"
      "it_encryption it = m_encryption m" "\<not> it_closed it"
    and rest: "rest = drop (read_skip (lsn_next applied) segs) segs"
    and dw: "dropWhile (\<lambda>r. r_LSN r < lsn_next applied) (all_records rest) =
      filter (\<lambda>r. lsn_next applied \<le> r_LSN r) (all_records segs)"
    using readFrom_spec [OF inv] by metis
  have recs: "contiguous l (all_records segs)" "list_all stored_record (all_records segs)"
    using segs_ok_records [OF ok] by auto
  have split: "all_records segs = all_records (take (read_skip (lsn_next applied) segs) segs) @ all_records rest"
    unfolding rest by (metis all_records_simps(3) append_take_drop_id)
  have "readable (m_encryption m) (all_records rest)"
    using rd by (rule readable_subset) (simp add: split)
  moreover have "lsn_sorted (all_records rest)"
    using contiguous_lsn_sorted [OF recs] unfolding split by (rule lsn_sorted_append)
  moreover have "filter (\<lambda>r. applied < r_LSN r) (filter (\<lambda>r. lsn_next applied \<le> r_LSN r) (all_records segs))
      = filter (\<lambda>r. applied < r_LSN r) (all_records segs)"
  proof -
    have "lsn_next applied \<le> x" if "applied < x" for x :: lsn
      using that by (simp add: lsn_next_def inc_le)
    then show ?thesis by (auto simp: filter_filter intro!: filter_cong)
  qed
  ultimately show ?thesis
    using recoverLoop_replay [OF rep, where reg = reg and setp = setp and applied = applied]
      rf get it dw by (simp add: Recover_def)
qed

lemma replay_Cons_cases:
  assumes "replay reg setp (r # rs) applied st = ((applied', e), st')"
  obtains (stop) "applied' = applied" "rc_progress st' = rc_progress st" "e \<noteq> None"
    | (unsaved) e' where "setp (r_LSN r) (rc_progress st) = (Some e', rc_progress st')"
        "applied' = applied" "e \<noteq> None"
    | (go) a p where "setp (r_LSN r) (rc_progress st) = (None, p)"
        "replay reg setp rs (r_LSN r) (st\<lparr>rc_state := a, rc_progress := p,
           rc_wait := SetApplied (r_LSN r) (rc_wait st)\<rparr>) = ((applied', e), st')"
proof (cases "reg (r_Type r)")
  case None
  with assms stop show thesis by auto
next
  case (Some f)
  obtain fe a where f: "f r (rc_state st) = (fe, a)" by fastforce
  obtain se p where sp: "setp (r_LSN r) (rc_progress st) = (se, p)" by fastforce
  from assms stop unsaved go Some f sp show thesis
    by (cases fe; cases se) auto
qed

text \<open>The state after the given records, if all of them are applied; and what a failing applier leaves.\<close>

fun apply_all :: "'a registry \<Rightarrow> wal_record list \<Rightarrow> 'a \<Rightarrow> 'a option" where
  "apply_all reg [] a = Some a"
| "apply_all reg (r # rs) a =
     (case reg (r_Type r) of
        None \<Rightarrow> None
      | Some f \<Rightarrow> (case f r a of (Some e, a') \<Rightarrow> None | (None, a') \<Rightarrow> apply_all reg rs a'))"

definition failed_on :: "'a registry \<Rightarrow> wal_record list \<Rightarrow> 'a \<Rightarrow> 'a \<Rightarrow> bool" where
  "failed_on reg todo a a' \<longleftrightarrow>
     (\<exists>r rest f e. todo = r # rest \<and> reg (r_Type r) = Some f \<and> f r a = (Some e, a'))"

text \<open>
  What recovery needs of an \<open>AppliedLSNStore\<close>: a position written is the position read, a failed
  write leaves the old position or the new one.
\<close>

locale applied_lsn_store =
  fixes getp :: "'p \<Rightarrow> wal_error + lsn" and setp :: "lsn \<Rightarrow> 'p \<Rightarrow> wal_error option \<times> 'p"
  assumes get_set: "setp l p = (None, p') \<Longrightarrow> getp p' = Inr l"
    and get_set_failed: "setp l p = (Some e, p') \<Longrightarrow> getp p' = getp p \<or> getp p' = Inr l"
begin

lemma replay_progress:
  assumes "replay reg setp rs applied st = ((applied', None), st')"
    and "getp (rc_progress st) = Inr applied"
  shows "getp (rc_progress st') = Inr applied' \<and> applied' = last_lsn applied rs"
  using assms
proof (induction rs arbitrary: applied st)
  case (Cons r rs)
  from Cons(2) show ?case
    by (rule replay_Cons_cases) (auto dest!: get_set dest: Cons.IH)
qed simp

text \<open>
  Whatever happens, the records up to the stored position have been applied, and at most one more: the
  record whose position could not be written.
\<close>

lemma replay_applied:
  assumes "replay reg setp rs applied st = ((applied', e), st')"
    and "getp (rc_progress st) = Inr applied"
  shows "\<exists>done_rs todo a. rs = done_rs @ todo \<and> apply_all reg done_rs (rc_state st) = Some a \<and>
      (rc_state st' = a \<or> failed_on reg todo a (rc_state st')) \<and> (e = None \<longrightarrow> todo = []) \<and>
      (getp (rc_progress st') = Inr (last_lsn applied done_rs) \<or>
       e \<noteq> None \<and> done_rs \<noteq> [] \<and> getp (rc_progress st') = Inr (last_lsn applied (butlast done_rs)))"
  using assms
proof (induction rs arbitrary: applied st)
  case (Cons r rs)
  show ?case
  proof (cases "apply_all reg [r] (rc_state st)")
    case None
    have "e \<noteq> None" "rc_progress st' = rc_progress st" "rc_state st' = rc_state st \<or> failed_on reg (r # rs) (rc_state st) (rc_state st')"
      using Cons.prems(1) None by (auto simp: failed_on_def split: option.splits prod.splits)
    with Cons.prems(2) show ?thesis by (intro exI [of _ "[]"] exI [of _ "r # rs"]) auto
  next
    case (Some a)
    then obtain f where f: "reg (r_Type r) = Some f" "f r (rc_state st) = (None, a)"
      by (auto split: option.splits prod.splits)
    obtain se p where sp: "setp (r_LSN r) (rc_progress st) = (se, p)" by fastforce
    show ?thesis
    proof (cases se)
      case (Some x)
      then have "rc_state st' = a" "rc_progress st' = p" "e \<noteq> None" using Cons.prems(1) f sp by auto
      with get_set_failed [of "r_LSN r" "rc_progress st" x p] Some sp Cons.prems(2) f show ?thesis
        by (intro exI [of _ "[r]"] exI [of _ rs]) auto
    next
      case None
      have g: "replay reg setp rs (r_LSN r) (st\<lparr>rc_state := a, rc_progress := p,
          rc_wait := SetApplied (r_LSN r) (rc_wait st)\<rparr>) = ((applied', e), st')"
        using Cons.prems(1) f sp None by simp
      have "getp p = Inr (r_LSN r)" using get_set sp None by blast
      with Cons.IH [OF g] obtain ds todo b where d: "rs = ds @ todo" "apply_all reg ds a = Some b"
        "rc_state st' = b \<or> failed_on reg todo b (rc_state st')" "e = None \<longrightarrow> todo = []"
        "getp (rc_progress st') = Inr (last_lsn (r_LSN r) ds) \<or>
         e \<noteq> None \<and> ds \<noteq> [] \<and> getp (rc_progress st') = Inr (last_lsn (r_LSN r) (butlast ds))" by auto
      with f show ?thesis by (intro exI [of _ "r # ds"] exI [of _ todo] exI [of _ b]) auto
    qed
  qed
qed simp

end

interpretation fps: applied_lsn_store "AppliedLSN None" "SetAppliedLSN now fails None"
  by unfold_locales
    (auto simp: AppliedLSN_def SetAppliedLSN_def WriteFileAtomic_def split: option.splits if_splits)

lemma filter_above_last:
  assumes "contiguous l rs" "list_all stored_record rs" "last_lsn l rs \<le> a"
  shows "filter (\<lambda>r. a < r_LSN r) rs = []"
  using contiguous_LSN_bounds [OF assms(1,2)] assms(3) by (fastforce simp: filter_empty_conv)

lemma last_lsn_filter:
  assumes "contiguous l rs" "list_all stored_record rs" "a \<le> last_lsn l rs" "l \<le> a"
  shows "last_lsn a (filter (\<lambda>r. a < r_LSN r) rs) = last_lsn l rs"
  using assms
proof (induction rs arbitrary: l)
  case (Cons r rs)
  show ?case
  proof (cases "a < r_LSN r")
    case True
    then have "filter (\<lambda>r. a < r_LSN r) rs = rs"
      using Cons(2,3) contiguous_LSN_bounds [of "r_LSN r" rs] by (intro filter_True) fastforce
    with True show ?thesis by simp
  next
    case False
    with Cons show ?thesis by auto
  qed
qed simp

lemma map_plain_last [simp]: "last_lsn a (map (plain enc) rs) = last_lsn a rs"
  by (induction rs arbitrary: a) auto

section \<open>Checkpoints\<close>

record Checkpoint =
  cp_LSN :: lsn
  cp_CreatedAt :: gotime

type_synonym checkpoint_file = "Checkpoint json_file option"

definition cp_Load :: "ctx \<Rightarrow> checkpoint_file \<Rightarrow> wal_error + Checkpoint" where
  "cp_Load ctx f =
     (case ctx of
        Some e \<Rightarrow> Inl (ErrCtx e)
      | None \<Rightarrow> (case f of
                   None \<Rightarrow> Inr \<lparr>cp_LSN = 0, cp_CreatedAt = ZeroTime\<rparr>
                 | Some Garbage \<Rightarrow> Inl ErrJSON
                 | Some (Doc cp) \<Rightarrow> Inr cp))"

definition cp_Save ::
  "gotime \<Rightarrow> io_step option \<Rightarrow> ctx \<Rightarrow> Checkpoint \<Rightarrow> checkpoint_file \<Rightarrow> wal_error option \<times> checkpoint_file"
where
  "cp_Save now fails ctx cp f =
     (case ctx of
        Some e \<Rightarrow> (Some (ErrCtx e), f)
      | None \<Rightarrow>
          (case WriteFileAtomic fails
                  (Doc (if cp_CreatedAt cp = ZeroTime then cp\<lparr>cp_CreatedAt := now\<rparr> else cp)) f of
             (e, f') \<Rightarrow> (map_option ErrIO e, f')))"

definition CreateCheckpoint ::
  "gotime \<Rightarrow> io_step option \<Rightarrow> ctx \<Rightarrow> (ctx \<Rightarrow> 'p \<Rightarrow> wal_error + lsn) \<Rightarrow> 'p \<Rightarrow> lsn \<Rightarrow> checkpoint_file \<Rightarrow>
   (wal_error + Checkpoint) \<times> checkpoint_file" where
  "CreateCheckpoint now fails ctx getp p target f =
     (case getp ctx p of
        Inl e \<Rightarrow> (Inl e, f)
      | Inr applied \<Rightarrow>
          (let target' = (if target = 0 \<or> target > applied then applied else target);
               cp = \<lparr>cp_LSN = target', cp_CreatedAt = now\<rparr>
           in case cp_Save now fails ctx cp f of
                (Some e, f') \<Rightarrow> (Inl e, f')
              | (None, f') \<Rightarrow> (Inr cp, f')))"

text \<open>\<open>internal/backup/service/checkpoint.go\<close>: the log is cut behind the checkpoint of a backup.\<close>

definition prepareBackupSnapshot ::
  "gotime \<Rightarrow> io_step option \<Rightarrow> ctx \<Rightarrow> (ctx \<Rightarrow> 'p \<Rightarrow> wal_error + lsn) \<Rightarrow> 'p \<Rightarrow> checkpoint_file \<Rightarrow> manager \<Rightarrow>
   wal_error option \<times> checkpoint_file \<times> manager" where
  "prepareBackupSnapshot now fails ctx getp p f m =
     (case CreateCheckpoint now fails ctx getp p 0 f of
        (Inl e, f') \<Rightarrow> (Some e, f', m)
      | (Inr cp, f') \<Rightarrow>
          if cp_LSN cp > 0
          then (case RetainFrom ctx (cp_LSN cp + 1) m of (e, m') \<Rightarrow> (e, f', m'))
          else (None, f', m))"

lemma CreateCheckpoint_applied:
  assumes "CreateCheckpoint now fails ctx getp p target f = (Inr cp, f')"
  shows "\<exists>applied. getp ctx p = Inr applied \<and> cp_LSN cp \<le> applied \<and> (target = 0 \<longrightarrow> cp_LSN cp = applied)"
  using assms
  by (auto simp: CreateCheckpoint_def Let_def linorder_not_less split: sum.splits prod.splits option.splits if_splits)

end
