(* ===== verification/Encryption.thy ===== *)
theory Encryption
  imports Wal_Manager
begin

text \<open>
  Encryption at rest (\<open>internal/encryption/encryption.go\<close>): configuration, the static key provider,
  envelope encryption of a record and the envelope format. AES-256-GCM is a parameter: a record of
  the \<open>Seal\<close> and \<open>Open\<close> functions of the standard library's cipher for a key, with the law that
  \<open>Open\<close> undoes \<open>Seal\<close> as a named hypothesis (\<open>gcm_ok\<close>). The random bytes an operation draws are
  arguments. The base64 decoder and the key file are parameters of \<open>NewKeyProvider\<close>.
\<close>

definition ModeDisabled :: string where "ModeDisabled = ''disabled''"
definition ModeEnabled :: string where "ModeEnabled = ''enabled''"
definition ProviderStaticEnv :: string where "ProviderStaticEnv = ''static-env''"
definition ProviderStaticFile :: string where "ProviderStaticFile = ''static-file''"
definition ProviderVault :: string where "ProviderVault = ''vault-transit''"
definition ProviderCloudKMS :: string where "ProviderCloudKMS = ''cloud-kms''"
definition envelopeMagic :: bytes where "envelopeMagic = bytes_of ''MYCELENC''"
definition envelopeVersion :: u16 where "envelopeVersion = 1"
definition wrapKeyID :: string where "wrapKeyID = ''static-v1''"

lemmas encryption_consts = ModeDisabled_def ModeEnabled_def ProviderStaticEnv_def
  ProviderStaticFile_def ProviderVault_def ProviderCloudKMS_def

datatype enc_error =
    ErrDisabled | ErrInvalidConfig | ErrUnsupportedProvider | ErrInvalidKey | ErrInvalidEnvelope
  | ErrAuthentication | EncEOF | EncCtx ctx_error | EncReadFile

section \<open>Configuration\<close>

record enc_config =
  AtRest :: string
  KEKProvider :: string
  StaticKeyB64 :: string
  StaticKeyFile :: string
  DEKCacheTTL :: int

definition EqualFold :: "string \<Rightarrow> string \<Rightarrow> bool" where
  "EqualFold s t \<longleftrightarrow> ToLower s = ToLower t"

definition cfg_Enabled :: "enc_config \<Rightarrow> bool" where
  "cfg_Enabled c = EqualFold (TrimSpace (AtRest c)) ModeEnabled"

definition NormalizedMode :: "enc_config \<Rightarrow> string" where
  "NormalizedMode c =
     (let mode = ToLower (TrimSpace (AtRest c)) in if mode = [] then ModeDisabled else mode)"

definition cfg_Validate :: "enc_config \<Rightarrow> enc_error option" where
  "cfg_Validate c =
     (if NormalizedMode c = ModeDisabled then None
      else if NormalizedMode c \<noteq> ModeEnabled then Some ErrInvalidConfig
      else
        (let provider = ToLower (TrimSpace (KEKProvider c));
             ttl = (if DEKCacheTTL c < 0 then Some ErrInvalidConfig else None)
         in if provider = ProviderStaticEnv
            then (if TrimSpace (StaticKeyB64 c) = [] then Some ErrInvalidConfig else ttl)
            else if provider = ProviderStaticFile
            then (if TrimSpace (StaticKeyFile c) = [] then Some ErrInvalidConfig else ttl)
            else if provider = ProviderVault \<or> provider = ProviderCloudKMS
            then Some ErrUnsupportedProvider
            else Some ErrInvalidConfig))"

section \<open>Ciphers and the static provider\<close>

record gcm =
  gcm_Seal :: "bytes \<Rightarrow> bytes \<Rightarrow> bytes \<Rightarrow> bytes \<Rightarrow> bytes"
  gcm_Open :: "bytes \<Rightarrow> bytes \<Rightarrow> bytes \<Rightarrow> bytes \<Rightarrow> bytes option"

text \<open>Arguments: key, nonce, plaintext (or ciphertext), additional data.\<close>

definition gcm_ok :: "gcm \<Rightarrow> bool" where
  "gcm_ok g \<longleftrightarrow> (\<forall>k n p a. gcm_Open g k n (gcm_Seal g k n p a) a = Some p)"

record WrappedKey =
  wk_ProviderID :: string
  wk_KeyID :: string
  wk_Nonce :: bytes
  wk_Ciphertext :: bytes

record staticProvider =
  sp_id :: string
  sp_key :: bytes

record enc_service =
  es_cfg :: enc_config
  es_provider :: "staticProvider option"

text \<open>What one encryption draws: the data key, the nonce that wraps it and the record nonce.\<close>

record enc_random =
  rnd_dek :: bytes
  rnd_wrap :: bytes
  rnd_nonce :: bytes

definition decodeKey :: "(string \<Rightarrow> bytes option) \<Rightarrow> string \<Rightarrow> enc_error + bytes" where
  "decodeKey b64 v =
     (case b64 (TrimSpace v) of
        None \<Rightarrow> Inl ErrInvalidKey
      | Some k \<Rightarrow> if length k \<noteq> 32 then Inl ErrInvalidKey else Inr k)"

definition NewKeyProvider ::
  "(string \<Rightarrow> bytes option) \<Rightarrow> (string \<Rightarrow> string option) \<Rightarrow> ctx \<Rightarrow> enc_config \<Rightarrow> enc_error + staticProvider"
where
  "NewKeyProvider b64 readFile ctx c =
     (case ctx of
        Some e \<Rightarrow> Inl (EncCtx e)
      | None \<Rightarrow>
          (let provider = ToLower (TrimSpace (KEKProvider c)) in
           if provider = ProviderStaticEnv
           then (case decodeKey b64 (StaticKeyB64 c) of
                   Inl e \<Rightarrow> Inl e
                 | Inr k \<Rightarrow> Inr \<lparr>sp_id = ProviderStaticEnv, sp_key = k\<rparr>)
           else if provider = ProviderStaticFile
           then (case readFile (TrimSpace (StaticKeyFile c)) of
                   None \<Rightarrow> Inl EncReadFile
                 | Some data \<Rightarrow> (case decodeKey b64 data of
                                  Inl e \<Rightarrow> Inl e
                                | Inr k \<Rightarrow> Inr \<lparr>sp_id = ProviderStaticFile, sp_key = k\<rparr>))
           else if provider = ProviderVault \<or> provider = ProviderCloudKMS
           then Inl ErrUnsupportedProvider
           else Inl ErrInvalidConfig))"

definition NewService ::
  "(string \<Rightarrow> bytes option) \<Rightarrow> (string \<Rightarrow> string option) \<Rightarrow> ctx \<Rightarrow> enc_config \<Rightarrow> enc_error + enc_service"
where
  "NewService b64 readFile ctx c =
     (case cfg_Validate c of
        Some e \<Rightarrow> Inl e
      | None \<Rightarrow>
          if \<not> cfg_Enabled c then Inr \<lparr>es_cfg = c, es_provider = None\<rparr>
          else (case NewKeyProvider b64 readFile ctx c of
                  Inl e \<Rightarrow> Inl e
                | Inr p \<Rightarrow> Inr \<lparr>es_cfg = c, es_provider = Some p\<rparr>))"

definition WrapKey ::
  "gcm \<Rightarrow> bytes \<Rightarrow> ctx \<Rightarrow> staticProvider \<Rightarrow> string \<Rightarrow> bytes \<Rightarrow> bytes \<Rightarrow> enc_error + WrappedKey" where
  "WrapKey g nonce ctx p keyID dek aad =
     (case ctx of
        Some e \<Rightarrow> Inl (EncCtx e)
      | None \<Rightarrow> Inr \<lparr>wk_ProviderID = sp_id p, wk_KeyID = (if keyID = [] then wrapKeyID else keyID),
                      wk_Nonce = nonce, wk_Ciphertext = gcm_Seal g (sp_key p) nonce dek aad\<rparr>)"

definition UnwrapKey :: "gcm \<Rightarrow> ctx \<Rightarrow> staticProvider \<Rightarrow> WrappedKey \<Rightarrow> bytes \<Rightarrow> enc_error + bytes" where
  "UnwrapKey g ctx p w aad =
     (case ctx of
        Some e \<Rightarrow> Inl (EncCtx e)
      | None \<Rightarrow>
          if wk_ProviderID w \<noteq> sp_id p then Inl ErrInvalidEnvelope
          else (case gcm_Open g (sp_key p) (wk_Nonce w) (wk_Ciphertext w) aad of
                  None \<Rightarrow> Inl ErrAuthentication
                | Some plaintext \<Rightarrow>
                    if length plaintext \<noteq> 32 then Inl ErrInvalidKey else Inr plaintext))"

section \<open>Envelope format\<close>

record envelope =
  ev_ProviderID :: string
  ev_KeyID :: string
  ev_WrapNonce :: bytes
  ev_WrappedDEK :: bytes
  ev_Nonce :: bytes
  ev_AAD :: bytes
  ev_Ciphertext :: bytes

definition IsEnvelope :: "bytes \<Rightarrow> bool" where
  "IsEnvelope payload \<longleftrightarrow> starts_with envelopeMagic payload"

fun put_fields :: "bytes list \<Rightarrow> enc_error + bytes" where
  "put_fields [] = Inr []"
| "put_fields (f # fs) =
     (if length f > 2 ^ 32 - 1 then Inl ErrInvalidEnvelope
      else (case put_fields fs of
              Inl e \<Rightarrow> Inl e
            | Inr rest \<Rightarrow> Inr (put_u32 (of_nat (length f)) @ f @ rest)))"

definition encodeEnvelope :: "envelope \<Rightarrow> enc_error + bytes" where
  "encodeEnvelope env =
     (case put_fields [bytes_of (ev_ProviderID env), bytes_of (ev_KeyID env), ev_WrapNonce env,
                       ev_WrappedDEK env, ev_Nonce env, ev_AAD env, ev_Ciphertext env] of
        Inl e \<Rightarrow> Inl e
      | Inr fs \<Rightarrow> Inr (envelopeMagic @ put_u16 envelopeVersion @ fs))"

fun get_fields :: "nat \<Rightarrow> bytes \<Rightarrow> enc_error + (bytes list \<times> bytes)" where
  "get_fields 0 r = Inr ([], r)"
| "get_fields (Suc k) r =
     (if length r < 4 then Inl EncEOF
      else
        (let n = unat (get_u32 (take 4 r)); r1 = drop 4 r in
         if length r1 < n then Inl EncEOF
         else (case get_fields k (drop n r1) of
                 Inl e \<Rightarrow> Inl e
               | Inr (fs, r') \<Rightarrow> Inr (take n r1 # fs, r'))))"

definition decodeEnvelope :: "bytes \<Rightarrow> enc_error + envelope" where
  "decodeEnvelope payload =
     (if \<not> IsEnvelope payload then Inl ErrInvalidEnvelope
      else
        (let r = drop (length envelopeMagic) payload in
         if length r < 2 then Inl EncEOF
         else if get_u16 (take 2 r) \<noteq> envelopeVersion then Inl ErrInvalidEnvelope
         else (case get_fields 7 (drop 2 r) of
                 Inl e \<Rightarrow> Inl e
               | Inr (fs, r') \<Rightarrow>
                   if r' \<noteq> [] then Inl ErrInvalidEnvelope
                   else Inr \<lparr>ev_ProviderID = string_of (fs ! 0), ev_KeyID = string_of (fs ! 1),
                             ev_WrapNonce = fs ! 2, ev_WrappedDEK = fs ! 3, ev_Nonce = fs ! 4,
                             ev_AAD = fs ! 5, ev_Ciphertext = fs ! 6\<rparr>)))"

section \<open>Records\<close>

definition service_Enabled :: "enc_service \<Rightarrow> bool" where
  "service_Enabled s = cfg_Enabled (es_cfg s)"

definition EncryptRecord ::
  "gcm \<Rightarrow> enc_random \<Rightarrow> ctx \<Rightarrow> enc_service \<Rightarrow> bytes \<Rightarrow> bytes \<Rightarrow> enc_error + bytes" where
  "EncryptRecord g rnd ctx s plaintext aad =
     (case ctx of
        Some e \<Rightarrow> Inl (EncCtx e)
      | None \<Rightarrow>
          (case es_provider s of
             None \<Rightarrow> Inr plaintext
           | Some p \<Rightarrow>
               if \<not> service_Enabled s then Inr plaintext
               else
                 (case WrapKey g (rnd_wrap rnd) ctx p wrapKeyID (rnd_dek rnd) aad of
                    Inl e \<Rightarrow> Inl e
                  | Inr w \<Rightarrow>
                      encodeEnvelope
                        \<lparr>ev_ProviderID = wk_ProviderID w, ev_KeyID = wk_KeyID w,
                         ev_WrapNonce = wk_Nonce w, ev_WrappedDEK = wk_Ciphertext w,
                         ev_Nonce = rnd_nonce rnd, ev_AAD = aad,
                         ev_Ciphertext = gcm_Seal g (rnd_dek rnd) (rnd_nonce rnd) plaintext aad\<rparr>)))"

definition DecryptRecord :: "gcm \<Rightarrow> ctx \<Rightarrow> enc_service \<Rightarrow> bytes \<Rightarrow> bytes \<Rightarrow> enc_error + bytes" where
  "DecryptRecord g ctx s payload expectedAAD =
     (case ctx of
        Some e \<Rightarrow> Inl (EncCtx e)
      | None \<Rightarrow>
          if \<not> IsEnvelope payload
          then (if service_Enabled s then Inl ErrInvalidEnvelope else Inr payload)
          else
            (case es_provider s of
               None \<Rightarrow> Inl ErrDisabled
             | Some p \<Rightarrow>
                 if \<not> service_Enabled s then Inl ErrDisabled
                 else
                   (case decodeEnvelope payload of
                      Inl e \<Rightarrow> Inl e
                    | Inr env \<Rightarrow>
                        if ev_AAD env \<noteq> expectedAAD then Inl ErrAuthentication
                        else
                          (case UnwrapKey g ctx p
                                  \<lparr>wk_ProviderID = ev_ProviderID env, wk_KeyID = ev_KeyID env,
                                   wk_Nonce = ev_WrapNonce env, wk_Ciphertext = ev_WrappedDEK env\<rparr>
                                  (ev_AAD env) of
                             Inl e \<Rightarrow> Inl e
                           | Inr dek \<Rightarrow>
                               (case gcm_Open g dek (ev_Nonce env) (ev_Ciphertext env) (ev_AAD env) of
                                  None \<Rightarrow> Inl ErrAuthentication
                                | Some plaintext \<Rightarrow> Inr plaintext)))))"

section \<open>Round trips\<close>

lemma get_fields_put_fields:
  "put_fields fs = Inr bs \<Longrightarrow> get_fields (length fs) (bs @ r) = Inr (fs, r)"
proof (induction fs arbitrary: bs)
  case (Cons f fs)
  then obtain rest where rest: "put_fields fs = Inr rest" "length f < 2 ^ 32"
    and bs: "bs = put_u32 (of_nat (length f)) @ f @ rest"
    by (auto split: if_splits sum.splits)
  have "unat (of_nat (length f) :: u32) = length f"
    using rest(2) by (rule unat_of_nat_small)
  with Cons.IH [OF rest(1)] bs show ?case by simp
qed simp

lemma encodeEnvelope_is_envelope: "encodeEnvelope env = Inr bs \<Longrightarrow> IsEnvelope bs"
  by (auto simp: encodeEnvelope_def IsEnvelope_def starts_with_def simp del: put_fields.simps
      split: sum.splits)

lemma decode_encodeEnvelope:
  assumes "encodeEnvelope env = Inr bs"
  shows "decodeEnvelope bs = Inr env"
proof -
  let ?fs = "[bytes_of (ev_ProviderID env), bytes_of (ev_KeyID env), ev_WrapNonce env,
      ev_WrappedDEK env, ev_Nonce env, ev_AAD env, ev_Ciphertext env]"
  obtain fb where fb: "put_fields ?fs = Inr fb" "bs = envelopeMagic @ put_u16 envelopeVersion @ fb"
    using assms by (auto simp: encodeEnvelope_def simp del: put_fields.simps split: sum.splits)
  have "length ?fs = 7" by simp
  with get_fields_put_fields [OF fb(1), of "[]"] have "get_fields 7 fb = Inr (?fs, [])"
    by (simp only: append_Nil2)
  then show ?thesis
    using encodeEnvelope_is_envelope [OF assms] fb(2)
    by (simp add: decodeEnvelope_def del: get_fields.simps)
qed

lemma decrypt_encrypt:
  assumes "gcm_ok g" "length (rnd_dek rnd) = 32"
    and "service_Enabled s \<longleftrightarrow> es_provider s \<noteq> None"
    and "service_Enabled s \<or> \<not> IsEnvelope p"
    and "EncryptRecord g rnd None s p aad = Inr c"
  shows "DecryptRecord g None s c aad = Inr p"
proof (cases "es_provider s")
  case None
  with assms show ?thesis by (auto simp: EncryptRecord_def DecryptRecord_def)
next
  case (Some sp)
  with assms show ?thesis
    by (auto simp: EncryptRecord_def DecryptRecord_def WrapKey_def UnwrapKey_def gcm_ok_def
        encodeEnvelope_is_envelope decode_encodeEnvelope)
qed

lemma NewService_provider:
  assumes "NewService b64 readFile ctx c = Inr s"
  shows "service_Enabled s \<longleftrightarrow> es_provider s \<noteq> None"
  using assms
  by (auto simp: NewService_def service_Enabled_def split: option.splits if_splits sum.splits)

text \<open>The two functions the log calls, over an encryption service.\<close>

definition wal_cipher :: "gcm \<Rightarrow> (bytes \<Rightarrow> bytes \<Rightarrow> enc_random) \<Rightarrow> enc_service \<Rightarrow> cipher_service" where
  "wal_cipher g rnd s =
     \<lparr>svc_Enabled = service_Enabled s,
      svc_EncryptRecord = (\<lambda>p a. case EncryptRecord g (rnd p a) None s p a of
                                   Inl e \<Rightarrow> None | Inr c \<Rightarrow> Some c),
      svc_DecryptRecord = (\<lambda>p a. case DecryptRecord g None s p a of
                                   Inl e \<Rightarrow> None | Inr c \<Rightarrow> Some c)\<rparr>"

lemma wal_cipher_ok:
  assumes "gcm_ok g" "\<And>p a. length (rnd_dek (rnd p a)) = 32"
    and "service_Enabled s \<longleftrightarrow> es_provider s \<noteq> None" "service_Enabled s \<or> \<not> IsEnvelope p"
  shows "cipher_ok (Some (wal_cipher g rnd s)) p"
proof (cases "service_Enabled s")
  case True
  then have "DecryptRecord g None s c aad = Inr p"
    if "EncryptRecord g (rnd p aad) None s p aad = Inr c" for c aad
    using decrypt_encrypt [OF assms(1,2,3,4) that] by simp
  with True show ?thesis
    by (fastforce simp: cipher_ok_def wal_cipher_def split: sum.splits)
next
  case False
  with assms(4) have "DecryptRecord g None s p aad = Inr p" for aad
    by (simp add: DecryptRecord_def)
  with False show ?thesis by (simp add: cipher_ok_def wal_cipher_def)
qed

end
