(* ===== verification/Wal_Properties.thy ===== *)
theory Wal_Properties
  imports Wal_Recovery Encryption
begin

text \<open>
  The properties of the write-ahead log: frames, durability across a crash, recovery, retention, and
  the two ways in which a running log becomes one that no longer opens.
\<close>

section \<open>Sample data\<close>

definition sample_record :: wal_record where
  "sample_record = \<lparr>r_LSN = 1, r_Type = ''graph.commit'', r_SchemaVersion = 1, r_Timestamp = AtNano 5,
     r_Encoding = PayloadEncodingJSON, r_Payload = [123, 125]\<rparr>"

definition sample_pending :: pending_record where
  "sample_pending = \<lparr>p_Type = ''graph.commit'', p_SchemaVersion = 1, p_Timestamp = ZeroTime,
     p_Encoding = 0, p_Payload = [123, 125]\<rparr>"

definition empty_log :: "cipher_service option \<Rightarrow> manager" where
  "empty_log enc = \<lparr>m_dir = [(segmentName 1, [])], m_segmentBytes = 64, m_file = Some (segmentName 1),
     m_segmentStart = 1, m_segmentSize = 0, m_last = 0, m_encryption = enc\<rparr>"

lemma stored_sample [simp]: "stored_record sample_record"
  by (simp add: stored_record_def sample_record_def frame_consts PayloadEncodingJSON_def)

lemma sample_of_pending: "pending_to_record (AtNano 5) 1 sample_pending = sample_record"
  by (simp add: pending_to_record_def sample_pending_def sample_record_def)

lemma empty_log_inv: "wal_inv 0 (empty_log enc) [(1, [])]"
  by (simp add: wal_inv_def empty_log_def lsn_next_def)

lemma empty_log_encryption [simp]: "m_encryption (empty_log enc) = enc" "m_last (empty_log enc) = 0"
  by (simp_all add: empty_log_def)

lemma append_sample:
  "\<exists>m'. Append None (AtNano 5) WroteAll sample_pending (empty_log None) = (Inr 1, m')"
  by (simp add: Append_def encryptPending_def empty_log_def sample_of_pending lsn_next_def
      encodeFrame_of_stored Let_def)

section \<open>Frames\<close>

text \<open>
  C24. A frame that was encoded decodes to its record, with the defaults filled in, whatever bytes
  follow it, and consumes exactly its own bytes; every proper non-empty prefix of it is
  reported as torn, so a record cut short by a crash is never taken for a record.
\<close>

theorem frame_roundtrip:
  assumes "encodeFrame now rec = Inr frame" "now \<noteq> ZeroTime"
  shows "decodeFrame (frame @ rest) = (FrameRec (frame_defaults now rec) (length frame), rest) \<and>
    (\<forall>k. 0 < k \<longrightarrow> k < length frame \<longrightarrow> decodeFrame (take k frame) = (FrameTorn k, []))"
  using assms encodeFrame_frame_of [OF assms(1)] encodeFrame_stored [OF assms]
  by (simp_all add: decodeFrame_frame_of decodeFrame_torn)

theorem frame_roundtrip_witness:
  "decodeFrame (frame_of sample_record @ [7]) =
     (FrameRec sample_record (length (frame_of sample_record)), [7]) \<and>
   decodeFrame (take 3 (frame_of sample_record)) = (FrameTorn 3, [])"
  using frame_roundtrip [of "AtNano 5" sample_record "frame_of sample_record" "[7]"]
  by (simp add: encodeFrame_of_stored length_frame_of frame_defaults_def sample_record_def
      PayloadEncodingJSON_def stored_sample [unfolded sample_record_def PayloadEncodingJSON_def])

section \<open>Durability\<close>

lemma open_ok:
  assumes inv: "wal_inv 0 m segs" and rd: "readable enc (all_records segs)" and name: "name \<noteq> []"
  shows "\<exists>m'. Open None name sb enc (m_dir m) = Inr m' \<and> wal_inv 0 m' segs \<and> m_encryption m' = enc"
proof -
  obtain segs0 s rs where segs: "segs = segs0 @ [(s, rs)]"
    using inv by (metis append_butlast_last_id prod.collapse wal_inv_def)
  have "0 < length (frame_of sample_record)" by (simp add: frame_of_nonempty)
  with open_torn [of segs0 s rs enc sample_record 0 name sb] inv rd name segs show ?thesis
    by (simp add: wal_inv_def)
qed

text \<open>
  C8. An append that returns an LSN is durable: the log reopens, holds the records it held before,
  followed by exactly the appended one under the next LSN, and the log's invariant holds again.
\<close>

theorem append_durable:
  assumes inv: "wal_inv 0 m segs" and rd: "readable (m_encryption m) (all_records segs)"
    and cipher: "cipher_ok (m_encryption m) (p_Payload p)" and now: "now \<noteq> ZeroTime" and name: "name \<noteq> []"
    and app: "Append None now WroteAll p m = (Inr lsn, m')"
  shows "lsn = lsn_next (m_last m) \<and>
    (\<exists>m'' segs'. Open None name sb (m_encryption m) (m_dir m') = Inr m'' \<and> wal_inv 0 m'' segs' \<and>
       m_last m'' = lsn \<and> readable (m_encryption m) (all_records segs') \<and>
       map (plain (m_encryption m)) (all_records segs') =
         map (plain (m_encryption m)) (all_records segs) @ [pending_to_record now lsn p])"
proof -
  from append_ok [OF inv app now] obtain segs' rec where
    inv': "wal_inv 0 m' segs'" and all: "all_records segs' = all_records segs @ [rec]"
    and enc: "encryptPending (m_encryption m) (pending_to_record now lsn p) = Inr rec"
    and lsn: "lsn = lsn_next (m_last m)" "m_last m' = lsn"
    by blast
  have dec: "decryptRecord (m_encryption m) rec = Inr (pending_to_record now lsn p)"
    using cipher enc by (intro cipher_ok_decrypt) (simp_all add: pending_to_record_def)
  then have rd': "readable (m_encryption m) (all_records segs')"
    and pl: "plain (m_encryption m) rec = pending_to_record now lsn p"
    using rd all by (simp_all add: plain_def)
  from open_ok [OF inv' rd' name] obtain m'' where
    "Open None name sb (m_encryption m) (m_dir m') = Inr m''" "wal_inv 0 m'' segs'" by blast
  moreover from this inv' lsn have "m_last m'' = lsn" by (simp add: wal_inv_def)
  ultimately show ?thesis using lsn rd' pl all by auto
qed

theorem append_durable_witness:
  "\<exists>m' m'' segs'. Append None (AtNano 5) WroteAll sample_pending (empty_log None) = (Inr 1, m') \<and>
     Open None ''wal'' 64 None (m_dir m') = Inr m'' \<and> wal_inv 0 m'' segs' \<and> m_last m'' = 1 \<and>
     map (plain None) (all_records segs') = [sample_record]"
proof -
  obtain m' where app: "Append None (AtNano 5) WroteAll sample_pending (empty_log None) = (Inr 1, m')"
    using append_sample by blast
  show ?thesis
    using append_durable [OF empty_log_inv _ _ _ _ app, of "''wal''" 64] app
    by (fastforce simp: cipher_ok_def sample_of_pending)
qed

text \<open>
  C14. An append that fails part-way, or a crash in the middle of its write, loses nothing: when the
  log is opened again it holds exactly the records committed before, and the next LSN is unchanged.
\<close>

theorem append_crash_atomic:
  assumes inv: "wal_inv 0 m segs" and rd: "readable (m_encryption m) (all_records segs)"
    and enc: "encryptPending (m_encryption m) (pending_to_record now (lsn_next (m_last m)) p) = Inr rec"
    and frame: "encodeFrame now rec = Inr frame" and k: "k < length frame"
    and now: "now \<noteq> ZeroTime" and name: "name \<noteq> []"
  shows "\<exists>m' m'' segs'. Append None now (WroteFails k) p m = (Inl ErrShortWrite, m') \<and>
    Open None name sb (m_encryption m) (m_dir m') = Inr m'' \<and> wal_inv 0 m'' segs' \<and>
    all_records segs' = all_records segs \<and> m_last m'' = m_last m"
proof -
  from append_fails [OF inv enc frame now, of k] obtain m' segs0 s rs where
    app: "Append None now (WroteFails k) p m = (Inl ErrShortWrite, m')"
    and ok: "segs_ok 0 (segs0 @ [(s, rs)])" and all: "all_records (segs0 @ [(s, rs)]) = all_records segs"
    and dir: "m_dir m' = seg_files segs0 @ [(segmentName s, frames rs @ take k frame)]"
    by blast
  have fr: "frame = frame_of rec" "stored_record rec"
    using encodeFrame_frame_of [OF frame] encodeFrame_stored [OF frame now] encryptPending_defaults [OF enc]
    by simp_all
  have "readable (m_encryption m) (all_records segs0 @ rs)" using rd all by simp
  from open_torn [OF ok this fr(2) k [unfolded fr(1)] name, of sb] obtain m'' where
    op: "Open None name sb (m_encryption m) (m_dir m') = Inr m''"
    and inv'': "wal_inv 0 m'' (segs0 @ [(s, rs)])" unfolding dir fr(1) by blast
  have "m_last m'' = m_last m"
    using inv inv'' all unfolding wal_inv_def by metis
  with app op inv'' all show ?thesis by blast
qed

theorem append_crash_atomic_witness:
  "\<exists>m' m'' segs'. Append None (AtNano 5) (WroteFails 3) sample_pending (empty_log None) = (Inl ErrShortWrite, m') \<and>
    Open None ''wal'' 64 None (m_dir m') = Inr m'' \<and> wal_inv 0 m'' segs' \<and> all_records segs' = [] \<and> m_last m'' = 0"
  using append_crash_atomic [OF empty_log_inv, where p = sample_pending and now = "AtNano 5" and k = 3
      and name = "''wal''" and sb = 64 and rec = sample_record and frame = "frame_of sample_record", of None]
  by (simp add: encryptPending_def lsn_next_def sample_of_pending encodeFrame_of_stored length_frame_of)

section \<open>Recovery\<close>

text \<open>
  C16. Recovery on an intact log is the replay of exactly the records above the stored applied
  position, in LSN order, each decrypted: apply, then store the position, and stop at the first
  error.
\<close>

theorem recovery_replays_pending:
  assumes "wal_inv l m segs" "readable (m_encryption m) (all_records segs)"
    and "AppliedLSN None (rc_progress st) = Inr applied"
  shows "Recover reg AppliedLSN (SetAppliedLSN now fails None) None m st =
    replay reg (SetAppliedLSN now fails None)
      (map (plain (m_encryption m)) (filter (\<lambda>r. applied < r_LSN r) (all_records segs)))
      applied (st\<lparr>rc_wait := SetApplied applied (rc_wait st)\<rparr>)"
  using assms by (rule recover_replay)

definition one_log :: manager where
  "one_log = (empty_log None)\<lparr>m_dir := seg_files [(1, [sample_record])], m_last := 1,
     m_segmentSize := int (length (frame_of sample_record))\<rparr>"

definition count_registry :: "nat registry" where
  "count_registry = [''graph.commit'' \<mapsto> (\<lambda>r n. (None, n + 1))]"

definition fresh_recovery :: "(nat, progress_file) recovery" where
  "fresh_recovery = \<lparr>rc_state = 0, rc_progress = None, rc_wait = 0\<rparr>"

lemma one_log_inv: "wal_inv 0 one_log [(1, [sample_record])]"
  by (simp add: wal_inv_def one_log_def empty_log_def lsn_next_def)
    (simp add: sample_record_def)

theorem recovery_replays_pending_witness:
  "fst (Recover count_registry AppliedLSN (SetAppliedLSN (AtNano 9) None None) None one_log fresh_recovery)
     = (1, None) \<and>
   rc_state (snd (Recover count_registry AppliedLSN (SetAppliedLSN (AtNano 9) None None) None one_log
     fresh_recovery)) = 1"
  using recovery_replays_pending [OF one_log_inv, where st = fresh_recovery and reg = count_registry
      and now = "AtNano 9" and fails = None and applied = 0]
  by (simp add: one_log_def AppliedLSN_def fresh_recovery_def decryptRecord_def plain_def
      count_registry_def sample_record_def SetAppliedLSN_def WriteFileAtomic_def)

text \<open>
  Recovery is idempotent: once it has finished, the stored position is the last committed LSN, and
  running it again applies no record and leaves the state of every module as it is.
\<close>

theorem recovery_idempotent:
  assumes inv: "wal_inv l m segs" and rd: "readable (m_encryption m) (all_records segs)"
    and pos: "AppliedLSN None (rc_progress st) = Inr applied" "l \<le> applied" "applied \<le> m_last m"
    and run: "Recover reg AppliedLSN (SetAppliedLSN now fails None) None m st = ((applied', None), st')"
  shows "applied' = m_last m \<and> AppliedLSN None (rc_progress st') = Inr (m_last m) \<and>
    Recover reg AppliedLSN (SetAppliedLSN now' fails' None) None m st' =
      ((m_last m, None), st'\<lparr>rc_wait := SetApplied (m_last m) (rc_wait st')\<rparr>)"
proof -
  have recs: "contiguous l (all_records segs)" "list_all stored_record (all_records segs)"
    and last: "m_last m = last_lsn l (all_records segs)"
    using inv segs_ok_records [of l segs] by (auto simp: wal_inv_def)
  let ?todo = "\<lambda>a. map (plain (m_encryption m)) (filter (\<lambda>r. a < r_LSN r) (all_records segs))"
  have rp: "replay reg (SetAppliedLSN now fails None) (?todo applied) applied
      (st\<lparr>rc_wait := SetApplied applied (rc_wait st)\<rparr>) = ((applied', None), st')"
    using run recover_replay [where getp = AppliedLSN, OF inv rd pos(1)] by metis
  have p: "AppliedLSN None (rc_progress st') = Inr applied'" "applied' = last_lsn applied (?todo applied)"
    using fps.replay_progress [OF rp] pos(1) by simp_all
  then have eq: "applied' = m_last m"
    using last_lsn_filter [OF recs] pos(2,3) last by simp
  have "?todo (m_last m) = []"
    using filter_above_last [OF recs, of "m_last m"] last by simp
  then show ?thesis
    using p eq recover_replay [OF inv rd, of AppliedLSN st' "m_last m" reg "SetAppliedLSN now' fails' None"]
    by simp
qed

theorem recovery_idempotent_witness:
  "\<exists>st'. Recover count_registry AppliedLSN (SetAppliedLSN (AtNano 9) None None) None one_log fresh_recovery
      = ((1, None), st') \<and> rc_state st' = 1 \<and>
    rc_state (snd (Recover count_registry AppliedLSN (SetAppliedLSN (AtNano 9) None None) None one_log st')) = 1"
proof -
  let ?run = "Recover count_registry AppliedLSN (SetAppliedLSN (AtNano 9) None None) None one_log"
  have rd: "readable (m_encryption one_log) (all_records [(1, [sample_record])])"
    by (simp add: one_log_def decryptRecord_def)
  have run: "?run fresh_recovery = ((1, None), \<lparr>rc_state = 1, rc_progress =
      Some (Doc \<lparr>pd_AppliedLSN = 1, pd_UpdatedAt = AtNano 9\<rparr>), rc_wait = 1\<rparr>)"
    using recover_replay [OF one_log_inv rd, of AppliedLSN fresh_recovery 0 count_registry]
    by (simp add: one_log_def AppliedLSN_def fresh_recovery_def decryptRecord_def plain_def
      count_registry_def sample_record_def SetAppliedLSN_def WriteFileAtomic_def SetApplied_def)
  show ?thesis
    using recovery_idempotent [OF one_log_inv rd _ _ _ run, of 0 "AtNano 9" None] run
    by (auto simp: AppliedLSN_def fresh_recovery_def one_log_def)
qed


definition two_segments :: seg_list where
  "two_segments = [(1, [sample_record]), (2, [sample_record\<lparr>r_LSN := 2\<rparr>])]"

definition two_log :: manager where
  "two_log = \<lparr>m_dir = seg_files two_segments, m_segmentBytes = 64, m_file = Some (segmentName 2),
     m_segmentStart = 2, m_segmentSize = int (length (frame_of (sample_record\<lparr>r_LSN := 2\<rparr>))), m_last = 2,
     m_encryption = None\<rparr>"

lemma two_log_inv: "wal_inv 0 two_log two_segments"
  by (simp add: wal_inv_def two_log_def two_segments_def lsn_next_def)
    (simp add: sample_record_def stored_record_def frame_consts PayloadEncodingJSON_def)



section \<open>Retention\<close>

text \<open>
  C27. Retention never loses a record it was asked to keep: the manager stays well-formed, the records
  that remain are a suffix of the log, every record that was removed is below the given LSN, and the
  next LSN does not change.
\<close>

theorem retention_keeps_from:
  assumes inv: "wal_inv l m segs" and ret: "RetainFrom None from m = (e, m')" and nz: "from \<noteq> 0"
  shows "e = None \<and> m_last m' = m_last m \<and>
    (\<exists>l' segs' dropped. wal_inv l' m' segs' \<and> all_records segs = dropped @ all_records segs' \<and>
      (\<forall>r \<in> set dropped. r_LSN r < from))"
proof -
  from retainFrom_ok [OF inv ret nz] obtain dropped where e: "e = None"
    and d: "segs = dropped @ retained from segs" "\<forall>r \<in> set (all_records dropped). r_LSN r < from"
    and inv': "wal_inv (last_lsn l (all_records dropped)) m' (retained from segs)" by blast
  have all: "all_records segs = all_records dropped @ all_records (retained from segs)"
    using d(1) by (metis all_records_simps(3))
  then have "m_last m' = m_last m"
    using inv inv' unfolding wal_inv_def by (metis last_lsn_append)
  with e d inv' all show ?thesis by blast
qed

theorem retention_keeps_from_witness:
  "\<exists>m'. RetainFrom None 2 two_log = (None, m') \<and> m_last m' = 2 \<and>
    (\<exists>l' segs' dropped. wal_inv l' m' segs' \<and>
       [sample_record, sample_record\<lparr>r_LSN := 2\<rparr>] = dropped @ all_records segs' \<and>
       (\<forall>r \<in> set dropped. r_LSN r < 2))"
proof -
  obtain e m' where ret: "RetainFrom None 2 two_log = (e, m')" by fastforce
  have "m_last two_log = 2" "all_records two_segments = [sample_record, sample_record\<lparr>r_LSN := 2\<rparr>]"
    by (simp_all add: two_log_def two_segments_def)
  with retention_keeps_from [OF two_log_inv ret] ret show ?thesis by auto
qed





lemma put_magic: "put_u32 frameMagic = [0x4d, 0x57, 0x41, 0x4c]"
  by (simp add: put_u32_def be_enc_def frameMagic_def digits_fix_small)

lemma decode_after_stray_byte:
  "\<exists>n r'. decodeFrame (take 1 (frame_of a) @ frame_of b) = (FrameErr (ErrCorrupt ''bad frame header'') n, r')"
proof -
  let ?rest = "\<lambda>c. put_u16 frameVersion @ put_u32 (of_nat (length (frame_body c) + frameCRCLen)) @ frame_body c
    @ put_u32 (crc32 castagnoli (frame_header (length (frame_body c)) @ frame_body c))"
  have fr: "frame_of c = [0x4d, 0x57, 0x41, 0x4c] @ ?rest c" for c
    unfolding frame_of_def Let_def by (simp add: frame_header_def put_magic)
  define t where "t = ?rest b"
  have t: "10 \<le> length t" by (simp add: t_def)
  have r: "take 1 (frame_of a) @ frame_of b = [0x4d, 0x4d, 0x57, 0x41] @ [0x4c] @ t"
    unfolding fr t_def by simp
  have hd: "take 10 ([0x4d, 0x4d, 0x57, 0x41] @ [0x4c] @ t) = [0x4d, 0x4d, 0x57, 0x41] @ [0x4c] @ take 5 t"
    by simp
  have magic: "get_u32 (bslice 0 4 ([0x4d, 0x4d, 0x57, 0x41] @ ys)) \<noteq> frameMagic" for ys
  proof -
    have "bslice 0 4 ([0x4d, 0x4d, 0x57, 0x41] @ ys) = [0x4d, 0x4d, 0x57, 0x41 :: byte]"
      by (rule bslice_prefix) simp
    moreover have "get_u32 [0x4d, 0x4d, 0x57, 0x41] \<noteq> frameMagic"
      by (simp add: get_u32_def be_dec_def undigits_def frameMagic_def)
    ultimately show ?thesis by simp
  qed
  have len: "length ([0x4d, 0x4d, 0x57, 0x41] @ [0x4c] @ take 5 t) = 10" using t by simp
  show ?thesis
    unfolding r decodeFrame_def Let_def frame_consts hd len using magic by simp
qed

lemma open_tail_error:
  assumes ok: "segs_ok 0 (segs @ [(s, rs)])" and rd: "readable enc (all_records segs @ rs)"
    and e: "\<And>off l. scanFrames enc True t off l = Inl e" and name: "name \<noteq> []"
  shows "Open None name sb enc (seg_files segs @ [(segmentName s, frames rs @ t)]) = Inl e"
  using name scanSegments_tail_content [OF ok rd, of t]
  by (simp add: Open_def scanAndOpen_def listSegments_tail [OF ok] e)

text \<open>
  C32. A write that fails after one byte leaves that byte in the segment, and the next append writes
  its frame behind it: the append returns an LSN, but the log no longer opens.
\<close>

theorem append_after_failed_write:
  assumes inv: "wal_inv 0 m segs" and rd: "readable (m_encryption m) (all_records segs)"
    and enc: "encryptPending (m_encryption m) (pending_to_record now (lsn_next (m_last m)) p) = Inr rec"
    and frame: "encodeFrame now rec = Inr frame" and now: "now \<noteq> ZeroTime" and name: "name \<noteq> []"
    and fits: "int (length (frames (snd (last segs)))) + 2 * int (length frame) \<le> m_segmentBytes m"
  shows "\<exists>m1 m2. Append None now (WroteFails 1) p m = (Inl ErrShortWrite, m1) \<and>
    Append None now WroteAll p m1 = (Inr (lsn_next (m_last m)), m2) \<and>
    Open None name sb (m_encryption m) (m_dir m2) = Inl (ErrCorrupt ''bad frame header'')"
proof -
  obtain segs0 s rs where segs: "segs = segs0 @ [(s, rs)]"
    using inv by (metis append_butlast_last_id prod.collapse wal_inv_def)
  have ok: "segs_ok 0 (segs0 @ [(s, rs)])" and dir: "m_dir m = seg_files (segs0 @ [(s, rs)])"
    and fl: "m_file m = Some (segmentName s)" and size: "m_segmentSize m = int (length (frames rs))"
    using inv segs by (auto simp: wal_inv_def)
  have fr: "frame = frame_of rec"
    using encodeFrame_frame_of [OF frame] encryptPending_defaults [OF enc] by simp
  have norot: "rotateIfNeeded l (length frame) m' = m'"
    if "m_file m' = m_file m" "m_segmentSize m' = m_segmentSize m" "m_segmentBytes m' = m_segmentBytes m" for l m'
    using that fl size fits segs by (auto simp: rotateIfNeeded_def)
  define m1 where "m1 = m\<lparr>m_dir := seg_files segs0 @ [(segmentName s, frames rs @ take 1 frame)]\<rparr>"
  have app1: "Append None now (WroteFails 1) p m = (Inl ErrShortWrite, m1)"
    using norot [of m] fl seg_files_extend [OF ok, of "take 1 frame"] dir
    by (simp add: Append_def enc frame m1_def)
  have cont: "file_content (m_dir m1) (segmentName s) = frames rs @ take 1 frame"
    by (simp add: m1_def file_content_tail(1) [OF ok])
  have fresh: "segmentName s \<notin> fst ` set (seg_files segs0)"
    using seg_files_distinct [OF ok] by auto
  have "file_append (segmentName s) frame (m_dir m1) =
      seg_files segs0 @ [(segmentName s, frames rs @ (take 1 frame @ frame))]"
    unfolding file_append_def cont by (simp add: m1_def AList_update_snoc [OF fresh])
  then obtain m2 where app2: "Append None now WroteAll p m1 = (Inr (lsn_next (m_last m)), m2)"
    and dir2: "m_dir m2 = seg_files segs0 @ [(segmentName s, frames rs @ (take 1 frame @ frame))]"
    using norot [of m1] fl enc frame by (simp add: Append_def m1_def Let_def)
  have "scanFrames (m_encryption m) True (take 1 frame @ frame) off l = Inl (ErrCorrupt ''bad frame header'')"
    for off l
    using decode_after_stray_byte [of rec rec] unfolding fr by (subst scanFrames.simps) auto
  from open_tail_error [OF ok _ this name] rd segs have
    "Open None name sb (m_encryption m) (m_dir m2) = Inl (ErrCorrupt ''bad frame header'')"
    unfolding dir2 by simp
  with app1 app2 show ?thesis by blast
qed

definition wide_log :: manager where
  "wide_log = (empty_log None)\<lparr>m_segmentBytes := 1024\<rparr>"

theorem append_after_failed_write_witness:
  "\<exists>m1 m2. Append None (AtNano 5) (WroteFails 1) sample_pending wide_log = (Inl ErrShortWrite, m1) \<and>
    Append None (AtNano 5) WroteAll sample_pending m1 = (Inr 1, m2) \<and>
    Open None ''wal'' 1024 None (m_dir m2) = Inl (ErrCorrupt ''bad frame header'')"
proof -
  have "wal_inv 0 wide_log [(1, [])]"
    by (simp add: wal_inv_def wide_log_def empty_log_def lsn_next_def)
  moreover have "2 * int (length (frame_of sample_record)) \<le> 1024"
    by (simp add: length_frame_of length_frame_body sample_record_def frame_consts)
  ultimately show ?thesis
    using append_after_failed_write [of wide_log "[(1, [])]" "AtNano 5" sample_pending sample_record
        "frame_of sample_record" "''wal''" 1024]
    by (simp add: wide_log_def empty_log_def encryptPending_def lsn_next_def sample_of_pending
        encodeFrame_of_stored)
qed

end
