(* ===== verification/Graph_Model.thy ===== *)
theory Graph_Model
  imports Mycel_Prelude
begin

text \<open>
  The graph's data model (\<open>internal/graph/model\<close>): property values, nodes, edges, blob identifiers,
  domain modes, and the normalisation of tags and user properties.

  A Go \<open>any\<close> is a value of \<open>gval\<close>: all signed integer types are \<open>VInt\<close> (every consumer widens them to
  64 bits), all unsigned ones \<open>VUint\<close>, the two float types \<open>VFloat\<close> with the bits of the float64;
  \<open>[]string\<close> and \<open>[]any\<close> are kept apart, as are the two map types. A Go map is an association list
  with distinct keys read with \<^const>\<open>map_of\<close>; \<open>nil\<close> and the empty map read the same.
\<close>

datatype gval =
    VNil
  | VString string
  | VBool bool
  | VInt u64
  | VUint u64
  | VFloat u64
  | VTime gotime
  | VStrings "string list"
  | VList "gval list"
  | VMap "(string \<times> gval) list"
  | VStringMap "(string \<times> string) list"
  | VOther

type_synonym props = "(string \<times> gval) list"
type_synonym node_id = uuid
type_synonym edge_id = uuid
type_synonym domain_id = uuid
type_synonym blob_id = string

record node =
  n_ID :: node_id
  n_DomainID :: domain_id
  n_Labels :: "string list"
  n_Properties :: props
  n_Payload :: props
  n_Meta :: props
  n_BlobRef :: "blob_id option"
  n_Content :: string
  n_Props :: props
  n_CreatedAt :: gotime
  n_UpdatedAt :: gotime

record edge =
  e_ID :: edge_id
  e_DomainID :: domain_id
  e_FromID :: node_id
  e_ToID :: node_id
  e_Labels :: "string list"
  e_Properties :: props
  e_Payload :: props
  e_Meta :: props
  e_CreatedAt :: gotime
  e_UpdatedAt :: gotime

text \<open>Reading a map at a missing key gives the zero value, \<open>nil\<close>.\<close>

definition mget :: "props \<Rightarrow> string \<Rightarrow> gval" where
  "mget ps k = (case map_of ps k of None \<Rightarrow> VNil | Some v \<Rightarrow> v)"

definition PayloadText :: "node \<Rightarrow> string" where
  "PayloadText n = (case mget (n_Payload n) ''text'' of VString t \<Rightarrow> t | _ \<Rightarrow> n_Content n)"

section \<open>Labels\<close>

definition HasLabels :: "node \<Rightarrow> string list \<Rightarrow> bool" where
  "HasLabels n required =
     (let seen = map TrimSpace (n_Labels n) in list_all (\<lambda>l. TrimSpace l \<in> set seen) required)"

definition EdgeHasLabels :: "edge \<Rightarrow> string list \<Rightarrow> bool" where
  "EdgeHasLabels e required =
     (let seen = map TrimSpace (e_Labels e) in list_all (\<lambda>l. TrimSpace l \<in> set seen) required)"

definition EdgeProperty :: "edge \<Rightarrow> string \<Rightarrow> gval option" where
  "EdgeProperty e name = map_of (e_Properties e) name"

section \<open>Metadata\<close>

definition NodePropTags :: string where "NodePropTags = ''tags''"
definition NodePropCustomProperties :: string where "NodePropCustomProperties = ''properties''"

text \<open>\<open>strings.Fields\<close>: the maximal runs without white space.\<close>

fun fields_from :: "nat \<Rightarrow> string \<Rightarrow> string \<Rightarrow> string list" where
  "fields_from 0 cur s = (if cur = [] then [] else [cur])"
| "fields_from (Suc k) cur s =
     (case s of
        [] \<Rightarrow> if cur = [] then [] else [cur]
      | c # s' \<Rightarrow>
          (case find (\<lambda>r. starts_with r s) space_runes of
             None \<Rightarrow> fields_from k (cur @ [c]) s'
           | Some r \<Rightarrow> (if cur = [] then [] else [cur]) @ fields_from k [] (drop (length r) s)))"

definition Fields :: "string \<Rightarrow> string list" where
  "Fields s = fields_from (Suc (length s)) [] s"

fun join_with :: "string \<Rightarrow> string list \<Rightarrow> string" where
  "join_with sep [] = []"
| "join_with sep [s] = s"
| "join_with sep (s # t # ss) = s @ sep @ join_with sep (t # ss)"

definition normalizeMetadataToken :: "string \<Rightarrow> string" where
  "normalizeMetadataToken v = ToLower (join_with '' '' (Fields (TrimSpace v)))"

definition TrimPrefix :: "string \<Rightarrow> string \<Rightarrow> string" where
  "TrimPrefix p s = (if starts_with p s then drop (length p) s else s)"

definition NormalizeTag :: "string \<Rightarrow> string option" where
  "NormalizeTag v =
     (let t = normalizeMetadataToken (TrimPrefix ''#'' (normalizeMetadataToken v))
      in if t = [] then None else Some t)"

definition NormalizePropertyName :: "string \<Rightarrow> string option" where
  "NormalizePropertyName v = (let t = normalizeMetadataToken v in if t = [] then None else Some t)"

fun strings_of :: "gval list \<Rightarrow> string list option" where
  "strings_of [] = Some []"
| "strings_of (VString s # vs) = map_option (Cons s) (strings_of vs)"
| "strings_of (_ # vs) = None"

fun normalize_tags :: "string list \<Rightarrow> string list \<Rightarrow> string list option" where
  "normalize_tags seen [] = Some []"
| "normalize_tags seen (t # ts) =
     (case NormalizeTag t of
        None \<Rightarrow> None
      | Some n \<Rightarrow>
          if n \<in> set seen then normalize_tags seen ts
          else map_option (Cons n) (normalize_tags (n # seen) ts))"

definition NormalizeTagsValue :: "gval \<Rightarrow> string list option" where
  "NormalizeTagsValue v =
     (case v of
        VNil \<Rightarrow> Some []
      | VStrings raw \<Rightarrow> normalize_tags [] raw
      | VList items \<Rightarrow> (case strings_of items of None \<Rightarrow> None | Some raw \<Rightarrow> normalize_tags [] raw)
      | _ \<Rightarrow> None)"

text \<open>A float64 is NaN or infinite when its exponent bits are all ones.\<close>

definition float_finite :: "u64 \<Rightarrow> bool" where
  "float_finite bits \<longleftrightarrow> drop_bit 52 bits AND 0x7ff \<noteq> 0x7ff"

definition normalizeCustomPropertyValue :: "gval \<Rightarrow> gval option" where
  "normalizeCustomPropertyValue v =
     (case v of
        VString s \<Rightarrow> Some (VString (TrimSpace s))
      | VBool b \<Rightarrow> Some v
      | VInt i \<Rightarrow> Some v
      | VUint u \<Rightarrow> Some v
      | VFloat bits \<Rightarrow> if float_finite bits then Some v else None
      | _ \<Rightarrow> None)"

fun normalize_custom :: "props \<Rightarrow> props \<Rightarrow> props option" where
  "normalize_custom out [] = Some out"
| "normalize_custom out ((k, v) # kvs) =
     (case NormalizePropertyName k of
        None \<Rightarrow> None
      | Some name \<Rightarrow>
          if map_of out name \<noteq> None then None
          else (case normalizeCustomPropertyValue v of
                  None \<Rightarrow> None
                | Some v' \<Rightarrow> normalize_custom (out @ [(name, v')]) kvs))"

definition NormalizeCustomPropertiesValue :: "gval \<Rightarrow> props option" where
  "NormalizeCustomPropertiesValue v =
     (case v of
        VNil \<Rightarrow> Some []
      | VMap kvs \<Rightarrow> normalize_custom [] (sort_key fst kvs)
      | VStringMap kvs \<Rightarrow> normalize_custom [] (sort_key fst (map (\<lambda>(k, s). (k, VString s)) kvs))
      | _ \<Rightarrow> None)"

definition NormalizeNodeMetadataProps :: "props \<Rightarrow> props option" where
  "NormalizeNodeMetadataProps ps =
     (case (if map_of ps NodePropTags = None then Some ps
            else (case NormalizeTagsValue (mget ps NodePropTags) of
                    None \<Rightarrow> None
                  | Some tags \<Rightarrow> Some (AList.update NodePropTags (VStrings tags) ps))) of
        None \<Rightarrow> None
      | Some ps1 \<Rightarrow>
          if map_of ps1 NodePropCustomProperties = None then Some ps1
          else (case NormalizeCustomPropertiesValue (mget ps1 NodePropCustomProperties) of
                  None \<Rightarrow> None
                | Some custom \<Rightarrow> Some (AList.update NodePropCustomProperties (VMap custom) ps1)))"

definition property_lookup :: "string \<Rightarrow> string \<Rightarrow> props \<Rightarrow> gval option" where
  "property_lookup name want ps =
     (case map_of ps name of
        Some v \<Rightarrow> Some v
      | None \<Rightarrow>
          (case (if want \<noteq> name then map_of ps want else None) of
             Some v \<Rightarrow> Some v
           | None \<Rightarrow>
               (case NormalizeCustomPropertiesValue (mget ps NodePropCustomProperties) of
                  None \<Rightarrow> None
                | Some nested \<Rightarrow> map_of nested want)))"

definition Property :: "node \<Rightarrow> string \<Rightarrow> gval option" where
  "Property n name =
     (let want = (case NormalizePropertyName name of None \<Rightarrow> name | Some w \<Rightarrow> w) in
      case property_lookup name want (n_Properties n) of
        Some v \<Rightarrow> Some v
      | None \<Rightarrow> property_lookup name want (n_Props n))"

section \<open>Blob identifiers\<close>

definition hex_char :: "nat \<Rightarrow> char" where
  "hex_char d = (if d < 10 then char_of (48 + d) else char_of (87 + d))"

definition hex_val :: "char \<Rightarrow> nat option" where
  "hex_val c =
     (let n = of_char c :: nat in
      if 48 \<le> n \<and> n \<le> 57 then Some (n - 48)
      else if 97 \<le> n \<and> n \<le> 102 then Some (n - 87)
      else if 65 \<le> n \<and> n \<le> 70 then Some (n - 55)
      else None)"

definition hex_encode :: "bytes \<Rightarrow> string" where
  "hex_encode bs = concat (map (\<lambda>b. [hex_char (unat b div 16), hex_char (unat b mod 16)]) bs)"

fun hex_decode :: "string \<Rightarrow> bytes option" where
  "hex_decode [] = Some []"
| "hex_decode [c] = None"
| "hex_decode (a # b # s) =
     (case (hex_val a, hex_val b, hex_decode s) of
        (Some x, Some y, Some bs) \<Rightarrow> Some (of_nat (16 * x + y) # bs)
      | _ \<Rightarrow> None)"

definition blobIDRawLen :: nat where "blobIDRawLen = 32"

definition BlobID_Bytes :: "blob_id \<Rightarrow> bytes option" where
  "BlobID_Bytes bid =
     (case hex_decode bid of
        None \<Rightarrow> None
      | Some raw \<Rightarrow> if length raw \<noteq> blobIDRawLen then None else Some raw)"

definition BlobIDFromBytes :: "bytes \<Rightarrow> blob_id option" where
  "BlobIDFromBytes raw = (if length raw \<noteq> blobIDRawLen then None else Some (hex_encode raw))"

lemma hex_val_char [simp]: "d < 16 \<Longrightarrow> hex_val (hex_char d) = Some d"
  by (auto simp: hex_val_def hex_char_def)

lemma hex_decode_encode [simp]: "hex_decode (hex_encode bs) = Some bs"
proof (induction bs)
  case (Cons b bs)
  have "unat b < 256" using unsigned_less [of b, where ?'a = nat] by simp
  then have "hex_val (hex_char (unat b div 16)) = Some (unat b div 16)"
    "hex_val (hex_char (unat b mod 16)) = Some (unat b mod 16)" by simp_all
  moreover have "(of_nat (16 * (unat b div 16) + unat b mod 16) :: byte) = b"
    by (metis mult_div_mod_eq word_unat_inverse)
  ultimately show ?case using Cons by (simp add: hex_encode_def)
qed (simp add: hex_encode_def)

lemma BlobID_roundtrip: "BlobIDFromBytes raw = Some bid \<Longrightarrow> BlobID_Bytes bid = Some raw"
  by (auto simp: BlobIDFromBytes_def BlobID_Bytes_def split: if_splits)

section \<open>Domain modes\<close>

record domain =
  d_ID :: domain_id
  d_SpaceID :: uuid
  d_Key :: string
  d_Name :: string
  d_Description :: string
  d_DiscoveryMode :: string
  d_SearchMode :: string
  d_SemanticMode :: string
  d_ReadOnly :: bool
  d_Default :: bool
  d_CreatedAt :: gotime
  d_UpdatedAt :: gotime

definition NormalizeDomainDiscoveryMode :: "string \<Rightarrow> string" where
  "NormalizeDomainDiscoveryMode mode = (if mode = [] then ''normal'' else mode)"

definition ValidDomainDiscoveryMode :: "string \<Rightarrow> bool" where
  "ValidDomainDiscoveryMode mode \<longleftrightarrow>
     NormalizeDomainDiscoveryMode mode \<in> {''normal'', ''explicit_only'', ''hidden''}"

definition NormalizeDomainSearchMode :: "string \<Rightarrow> string" where
  "NormalizeDomainSearchMode mode = (if mode = [] then ''normal'' else mode)"

definition ValidDomainSearchMode :: "string \<Rightarrow> bool" where
  "ValidDomainSearchMode mode \<longleftrightarrow>
     NormalizeDomainSearchMode mode \<in> {''normal'', ''explicit_only'', ''disabled''}"

definition NormalizeDomainSemanticMode :: "string \<Rightarrow> string" where
  "NormalizeDomainSemanticMode mode = (if mode = [] then ''normal'' else mode)"

definition ValidDomainSemanticMode :: "string \<Rightarrow> bool" where
  "ValidDomainSemanticMode mode \<longleftrightarrow>
     NormalizeDomainSemanticMode mode \<in> {''normal'', ''explicit_only'', ''disabled''}"

definition DomainDiscoverable :: "domain \<Rightarrow> bool" where
  "DomainDiscoverable d \<longleftrightarrow> NormalizeDomainDiscoveryMode (d_DiscoveryMode d) = ''normal''"

definition DomainBroadSearchable :: "domain \<Rightarrow> bool" where
  "DomainBroadSearchable d \<longleftrightarrow> NormalizeDomainSearchMode (d_SearchMode d) = ''normal''"

definition DomainExplicitSearchable :: "domain \<Rightarrow> bool" where
  "DomainExplicitSearchable d \<longleftrightarrow> NormalizeDomainSearchMode (d_SearchMode d) \<noteq> ''disabled''"

definition DomainBroadSemanticSearchable :: "domain \<Rightarrow> bool" where
  "DomainBroadSemanticSearchable d \<longleftrightarrow> NormalizeDomainSemanticMode (d_SemanticMode d) = ''normal''"

definition DomainExplicitSemanticSearchable :: "domain \<Rightarrow> bool" where
  "DomainExplicitSemanticSearchable d \<longleftrightarrow> NormalizeDomainSemanticMode (d_SemanticMode d) \<noteq> ''disabled''"

definition DomainSemanticIndexingEnabled :: "domain \<Rightarrow> bool" where
  "DomainSemanticIndexingEnabled d \<longleftrightarrow> NormalizeDomainSemanticMode (d_SemanticMode d) \<noteq> ''disabled''"

section \<open>Copies\<close>

text \<open>
  \<open>cloneNode\<close> and \<open>cloneEdge\<close> (\<open>internal/graph/storage/store.go\<close>) copy the labels and the maps one
  level deep, so a stored entity shares no map with its caller; as values they are the identity.
\<close>

definition cloneProps :: "props \<Rightarrow> props" where
  "cloneProps ps = map (\<lambda>(k, v). (k, v)) ps"

definition cloneNode :: "node \<Rightarrow> node" where
  "cloneNode n = n\<lparr>n_Labels := n_Labels n, n_Properties := cloneProps (n_Properties n),
     n_Payload := cloneProps (n_Payload n), n_Meta := cloneProps (n_Meta n),
     n_Props := cloneProps (n_Props n)\<rparr>"

definition cloneEdge :: "edge \<Rightarrow> edge" where
  "cloneEdge e = e\<lparr>e_Labels := e_Labels e, e_Properties := cloneProps (e_Properties e),
     e_Payload := cloneProps (e_Payload e), e_Meta := cloneProps (e_Meta e)\<rparr>"

lemma clone_id [simp]: "cloneProps ps = ps" "cloneNode n = n" "cloneEdge e = e"
  by (simp_all add: cloneProps_def cloneNode_def cloneEdge_def)

end
