(* ===== verification/Adjacency_Index.thy ===== *)
theory Adjacency_Index
  imports Graph_Model
begin

text \<open>
  The derived index of edge endpoints (\<open>internal/graph/adjacency\<close>): the interface \<open>EdgeIndex\<close> as the
  locale \<open>edge_index\<close> and the in-memory index that implements it. A Go map of sets is a map whose
  entries are sets; the code removes a set when its last element goes, so an entry is never empty.
\<close>

type_synonym endpoint_map = "edge_id \<rightharpoonup> node_id \<times> node_id"

record memoryEdgeIndex =
  ix_incoming :: "node_id \<rightharpoonup> edge_id set"
  ix_outgoing :: "node_id \<rightharpoonup> edge_id set"
  ix_endpoints :: endpoint_map

definition NewMemoryEdgeIndex :: memoryEdgeIndex where
  "NewMemoryEdgeIndex = \<lparr>ix_incoming = Map.empty, ix_outgoing = Map.empty, ix_endpoints = Map.empty\<rparr>"

text \<open>\<open>ensureEdgeSet(m, node)[edge] = struct{}{}\<close>.\<close>

definition ensureEdgeSet :: "'k \<Rightarrow> 'e \<Rightarrow> ('k \<rightharpoonup> 'e set) \<Rightarrow> 'k \<rightharpoonup> 'e set" where
  "ensureEdgeSet k e m = m(k \<mapsto> insert e (case m k of None \<Rightarrow> {} | Some s \<Rightarrow> s))"

definition deleteEdgeID :: "'k \<Rightarrow> 'e \<Rightarrow> ('k \<rightharpoonup> 'e set) \<Rightarrow> 'k \<rightharpoonup> 'e set" where
  "deleteEdgeID k e m =
     (case m k of
        None \<Rightarrow> m
      | Some s \<Rightarrow> if s - {e} = {} then m(k := None) else m(k \<mapsto> s - {e}))"

definition deleteLocked :: "edge_id \<Rightarrow> memoryEdgeIndex \<Rightarrow> memoryEdgeIndex" where
  "deleteLocked eid ix =
     (case ix_endpoints ix eid of
        None \<Rightarrow> ix
      | Some (f, t) \<Rightarrow>
          ix\<lparr>ix_outgoing := deleteEdgeID f eid (ix_outgoing ix),
             ix_incoming := deleteEdgeID t eid (ix_incoming ix),
             ix_endpoints := (ix_endpoints ix)(eid := None)\<rparr>)"

definition putLocked :: "edge \<Rightarrow> memoryEdgeIndex \<Rightarrow> memoryEdgeIndex" where
  "putLocked e ix0 =
     (let ix = deleteLocked (e_ID e) ix0 in
      ix\<lparr>ix_outgoing := ensureEdgeSet (e_FromID e) (e_ID e) (ix_outgoing ix),
         ix_incoming := ensureEdgeSet (e_ToID e) (e_ID e) (ix_incoming ix),
         ix_endpoints := (ix_endpoints ix)(e_ID e \<mapsto> (e_FromID e, e_ToID e))\<rparr>)"

definition ix_Put :: "ctx \<Rightarrow> edge \<Rightarrow> memoryEdgeIndex \<Rightarrow> ctx \<times> memoryEdgeIndex" where
  "ix_Put ctx e ix = (if ctx \<noteq> None then (ctx, ix) else (None, putLocked e ix))"

definition ix_Delete :: "ctx \<Rightarrow> edge \<Rightarrow> memoryEdgeIndex \<Rightarrow> ctx \<times> memoryEdgeIndex" where
  "ix_Delete ctx e ix = (if ctx \<noteq> None then (ctx, ix) else (None, deleteLocked (e_ID e) ix))"

definition ix_Rebuild :: "ctx \<Rightarrow> edge list \<Rightarrow> memoryEdgeIndex \<Rightarrow> ctx \<times> memoryEdgeIndex" where
  "ix_Rebuild ctx es ix =
     (if ctx \<noteq> None then (ctx, ix) else (None, fold putLocked es NewMemoryEdgeIndex))"

definition sortedIDs :: "edge_id set option \<Rightarrow> edge_id list" where
  "sortedIDs s = (case s of None \<Rightarrow> [] | Some s' \<Rightarrow> sorted_list_of_set s')"

definition ix_Incoming :: "ctx \<Rightarrow> node_id \<Rightarrow> memoryEdgeIndex \<Rightarrow> ctx_error + edge_id list" where
  "ix_Incoming ctx n ix = (case ctx of Some e \<Rightarrow> Inl e | None \<Rightarrow> Inr (sortedIDs (ix_incoming ix n)))"

definition ix_Outgoing :: "ctx \<Rightarrow> node_id \<Rightarrow> memoryEdgeIndex \<Rightarrow> ctx_error + edge_id list" where
  "ix_Outgoing ctx n ix = (case ctx of Some e \<Rightarrow> Inl e | None \<Rightarrow> Inr (sortedIDs (ix_outgoing ix n)))"

section \<open>The interface\<close>

definition targets :: "endpoint_map \<Rightarrow> node_id \<Rightarrow> edge_id set" where
  "targets m n = {e. \<exists>f. m e = Some (f, n)}"

definition sources :: "endpoint_map \<Rightarrow> node_id \<Rightarrow> edge_id set" where
  "sources m n = {e. \<exists>t. m e = Some (n, t)}"

definition edge_map :: "edge list \<Rightarrow> endpoint_map" where
  "edge_map es = fold (\<lambda>e m. m(e_ID e \<mapsto> (e_FromID e, e_ToID e))) es Map.empty"

locale edge_index =
  fixes inv :: "'i \<Rightarrow> bool" and endpoints :: "'i \<Rightarrow> endpoint_map"
    and put del :: "edge \<Rightarrow> 'i \<Rightarrow> 'i" and rebuild :: "edge list \<Rightarrow> 'i \<Rightarrow> 'i"
    and incoming outgoing :: "node_id \<Rightarrow> 'i \<Rightarrow> edge_id list"
  assumes put_inv: "inv ix \<Longrightarrow> inv (put e ix)"
    and put_endpoints: "inv ix \<Longrightarrow> endpoints (put e ix) = (endpoints ix)(e_ID e \<mapsto> (e_FromID e, e_ToID e))"
    and del_inv: "inv ix \<Longrightarrow> inv (del e ix)"
    and del_endpoints: "inv ix \<Longrightarrow> endpoints (del e ix) = (endpoints ix)(e_ID e := None)"
    and rebuild_inv: "inv (rebuild es ix)"
    and rebuild_endpoints: "endpoints (rebuild es ix) = edge_map es"
    and incoming: "inv ix \<Longrightarrow> incoming n ix = sorted_list_of_set (targets (endpoints ix) n)"
    and outgoing: "inv ix \<Longrightarrow> outgoing n ix = sorted_list_of_set (sources (endpoints ix) n)"
    and finite_endpoints: "inv ix \<Longrightarrow> finite (dom (endpoints ix))"
begin

lemma fold_put:
  "inv ix \<Longrightarrow> inv (fold put es ix) \<and>
     endpoints (fold put es ix) = fold (\<lambda>e m. m(e_ID e \<mapsto> (e_FromID e, e_ToID e))) es (endpoints ix)"
  by (induction es arbitrary: ix) (auto simp: put_inv put_endpoints)

text \<open>Maintaining the index edge by edge and rebuilding it answer every query alike.\<close>

lemma rebuild_equiv:
  assumes "inv ix" "endpoints ix = Map.empty"
  shows "incoming n (fold put es ix) = incoming n (rebuild es ix') \<and>
    outgoing n (fold put es ix) = outgoing n (rebuild es ix')"
  using assms fold_put [OF assms(1), of es]
  by (simp add: incoming outgoing rebuild_inv rebuild_endpoints edge_map_def)

lemma targets_finite: "inv ix \<Longrightarrow> finite (targets (endpoints ix) n)"
  using finite_subset [OF _ finite_endpoints] by (force simp: targets_def)

lemma sources_finite: "inv ix \<Longrightarrow> finite (sources (endpoints ix) n)"
  using finite_subset [OF _ finite_endpoints] by (force simp: sources_def)

lemma set_incoming: "inv ix \<Longrightarrow> set (incoming n ix) = targets (endpoints ix) n"
  by (simp add: incoming targets_finite)

lemma set_outgoing: "inv ix \<Longrightarrow> set (outgoing n ix) = sources (endpoints ix) n"
  by (simp add: outgoing sources_finite)

end

section \<open>The in-memory index implements it\<close>

text \<open>A map of sets that stores exactly the non-empty values of a family of sets.\<close>

definition set_map_of :: "('k \<rightharpoonup> 'e set) \<Rightarrow> ('k \<Rightarrow> 'e set) \<Rightarrow> bool" where
  "set_map_of m f \<longleftrightarrow> m = (\<lambda>k. if f k = {} then None else Some (f k))"

lemma set_map_of_ensure:
  "set_map_of m f \<Longrightarrow> set_map_of (ensureEdgeSet k e m) (f(k := insert e (f k)))"
  by (auto simp: set_map_of_def ensureEdgeSet_def fun_eq_iff)

lemma set_map_of_delete:
  "set_map_of m f \<Longrightarrow> set_map_of (deleteEdgeID k e m) (f(k := f k - {e}))"
  by (auto simp: set_map_of_def deleteEdgeID_def fun_eq_iff)

lemma set_map_of_empty [simp]: "set_map_of Map.empty (\<lambda>k. {})"
  by (simp add: set_map_of_def)

definition ix_inv :: "memoryEdgeIndex \<Rightarrow> bool" where
  "ix_inv ix \<longleftrightarrow> set_map_of (ix_incoming ix) (targets (ix_endpoints ix)) \<and>
     set_map_of (ix_outgoing ix) (sources (ix_endpoints ix)) \<and> finite (dom (ix_endpoints ix))"

lemma ix_inv_deleteLocked:
  assumes "ix_inv ix"
  shows "ix_inv (deleteLocked eid ix)"
    and "ix_endpoints (deleteLocked eid ix) = (ix_endpoints ix)(eid := None)"
proof -
  show "ix_endpoints (deleteLocked eid ix) = (ix_endpoints ix)(eid := None)"
    by (auto simp: deleteLocked_def split: option.split)
  show "ix_inv (deleteLocked eid ix)"
  proof (cases "ix_endpoints ix eid")
    case None
    with assms show ?thesis by (simp add: deleteLocked_def)
  next
    case (Some ft)
    obtain f t where ft: "ft = (f, t)" by fastforce
    let ?m = "(ix_endpoints ix)(eid := None)"
    have "(targets (ix_endpoints ix))(t := targets (ix_endpoints ix) t - {eid}) = targets ?m"
      "(sources (ix_endpoints ix))(f := sources (ix_endpoints ix) f - {eid}) = sources ?m"
      using Some ft by (auto simp: targets_def sources_def fun_eq_iff)
    with assms Some ft set_map_of_delete [of "ix_incoming ix" "targets (ix_endpoints ix)" t eid]
      set_map_of_delete [of "ix_outgoing ix" "sources (ix_endpoints ix)" f eid]
    show ?thesis by (simp add: ix_inv_def deleteLocked_def)
  qed
qed

lemma ix_inv_putLocked:
  assumes "ix_inv ix"
  shows "ix_inv (putLocked e ix)"
    and "ix_endpoints (putLocked e ix) = (ix_endpoints ix)(e_ID e \<mapsto> (e_FromID e, e_ToID e))"
proof -
  let ?ix = "deleteLocked (e_ID e) ix"
  note d = ix_inv_deleteLocked [OF assms, of "e_ID e"]
  show "ix_endpoints (putLocked e ix) = (ix_endpoints ix)(e_ID e \<mapsto> (e_FromID e, e_ToID e))"
    using d by (simp add: putLocked_def Let_def)
  let ?m = "(ix_endpoints ?ix)(e_ID e \<mapsto> (e_FromID e, e_ToID e))"
  have "(targets (ix_endpoints ?ix))(e_ToID e := insert (e_ID e) (targets (ix_endpoints ?ix) (e_ToID e))) = targets ?m"
    "(sources (ix_endpoints ?ix))(e_FromID e := insert (e_ID e) (sources (ix_endpoints ?ix) (e_FromID e))) = sources ?m"
    using d(2) by (auto simp: targets_def sources_def fun_eq_iff)
  with d(1) set_map_of_ensure [of "ix_incoming ?ix" "targets (ix_endpoints ?ix)" "e_ToID e" "e_ID e"]
    set_map_of_ensure [of "ix_outgoing ?ix" "sources (ix_endpoints ?ix)" "e_FromID e" "e_ID e"]
  show "ix_inv (putLocked e ix)" by (simp add: ix_inv_def putLocked_def Let_def)
qed

lemma ix_inv_New: "ix_inv NewMemoryEdgeIndex"
proof -
  have "targets Map.empty = (\<lambda>k. {})" "sources Map.empty = (\<lambda>k. {})"
    by (auto simp: targets_def sources_def)
  then show ?thesis by (simp add: ix_inv_def NewMemoryEdgeIndex_def)
qed

lemma ix_inv_fold:
  assumes "ix_inv ix"
  shows "ix_inv (fold putLocked es ix) \<and> ix_endpoints (fold putLocked es ix) =
    fold (\<lambda>e m. m(e_ID e \<mapsto> (e_FromID e, e_ToID e))) es (ix_endpoints ix)"
  using assms by (induction es arbitrary: ix) (auto simp: ix_inv_putLocked)

lemma sortedIDs_set_map: "set_map_of m f \<Longrightarrow> sortedIDs (m k) = sorted_list_of_set (f k)"
  by (simp add: set_map_of_def sortedIDs_def)

interpretation mem: edge_index ix_inv ix_endpoints "\<lambda>e ix. snd (ix_Put None e ix)"
  "\<lambda>e ix. snd (ix_Delete None e ix)" "\<lambda>es ix. snd (ix_Rebuild None es ix)"
  "\<lambda>n ix. sortedIDs (ix_incoming ix n)" "\<lambda>n ix. sortedIDs (ix_outgoing ix n)"
proof unfold_locales
  fix ix es n
  show "ix_inv (snd (ix_Rebuild None es ix))" "ix_endpoints (snd (ix_Rebuild None es ix)) = edge_map es"
    using ix_inv_fold [OF ix_inv_New, of es] by (simp_all add: ix_Rebuild_def edge_map_def NewMemoryEdgeIndex_def)
  show "sortedIDs (ix_incoming ix n) = sorted_list_of_set (targets (ix_endpoints ix) n)"
    "sortedIDs (ix_outgoing ix n) = sorted_list_of_set (sources (ix_endpoints ix) n)"
    if "ix_inv ix" using that by (auto simp: ix_inv_def intro: sortedIDs_set_map)
  show "finite (dom (ix_endpoints ix))" if "ix_inv ix" using that by (simp add: ix_inv_def)
qed (simp_all add: ix_Put_def ix_Delete_def ix_inv_putLocked ix_inv_deleteLocked)

end
