(* ===== verification/Ordered_Tree.thy ===== *)
theory Ordered_Tree
  imports Mycel_Prelude
begin

text \<open>
  The treap behind every cursor scan (\<open>internal/graph/storage/ordered_tree.go\<close>). The comparison and
  the priority of a key are the two function fields of \<open>orderedTree\<close>, arguments here. A tree node
  is a \<open>Node\<close>; pointers are never shared between trees, so updating a child in place is
  rebuilding the node. The locale \<open>tree_order\<close> states what the tree needs of its comparison (a strict
  total order); it is interpreted on the orders of its users: strings and node identifiers.

  Specification: the list of entries in key order. \<open>Put\<close> is sorted insertion, \<open>Delete\<close> removes the
  key, and an iterator delivers the entries beyond its cursor in order. The shape of a tree is a
  function of its entries, whatever operations built it.
\<close>

datatype ('k, 'v) otree =
    OLeaf
  | Node (on_left: "('k, 'v) otree") (on_key: 'k) (on_val: 'v) (on_prio: u64) (on_right: "('k, 'v) otree")

fun higher :: "('k \<Rightarrow> 'k \<Rightarrow> bool) \<Rightarrow> ('k, 'v) otree \<Rightarrow> ('k, 'v) otree \<Rightarrow> bool" where
  "higher lt (Node _ k1 _ p1 _) (Node _ k2 _ p2 _) = (if p1 \<noteq> p2 then p1 < p2 else lt k1 k2)"
| "higher lt _ _ = False"

fun rotateOrderedRight :: "('k, 'v) otree \<Rightarrow> ('k, 'v) otree" where
  "rotateOrderedRight (Node (Node ll lk lv lp lr) k v p r) = Node ll lk lv lp (Node lr k v p r)"
| "rotateOrderedRight t = t"

fun rotateOrderedLeft :: "('k, 'v) otree \<Rightarrow> ('k, 'v) otree" where
  "rotateOrderedLeft (Node l k v p (Node rl rk rv rp rr)) = Node (Node l k v p rl) rk rv rp rr"
| "rotateOrderedLeft t = t"

fun tree_put ::
  "('k \<Rightarrow> 'k \<Rightarrow> bool) \<Rightarrow> ('k \<Rightarrow> u64) \<Rightarrow> 'k \<Rightarrow> 'v \<Rightarrow> ('k, 'v) otree \<Rightarrow> ('k, 'v) otree" where
  "tree_put lt pr x y OLeaf = Node OLeaf x y (pr x) OLeaf"
| "tree_put lt pr x y (Node l k v p r) =
     (if lt x k then
        (let l' = tree_put lt pr x y l; t = Node l' k v p r
         in if higher lt l' t then rotateOrderedRight t else t)
      else if lt k x then
        (let r' = tree_put lt pr x y r; t = Node l k v p r'
         in if higher lt r' t then rotateOrderedLeft t else t)
      else Node l k y p r)"

function tree_merge ::
  "('k \<Rightarrow> 'k \<Rightarrow> bool) \<Rightarrow> ('k, 'v) otree \<Rightarrow> ('k, 'v) otree \<Rightarrow> ('k, 'v) otree" where
  "tree_merge lt OLeaf t = t"
| "tree_merge lt (Node l k v p r) OLeaf = Node l k v p r"
| "tree_merge lt (Node l1 k1 v1 p1 r1) (Node l2 k2 v2 p2 r2) =
     (if higher lt (Node l1 k1 v1 p1 r1) (Node l2 k2 v2 p2 r2)
      then Node l1 k1 v1 p1 (tree_merge lt r1 (Node l2 k2 v2 p2 r2))
      else Node (tree_merge lt (Node l1 k1 v1 p1 r1) l2) k2 v2 p2 r2)"
  by pat_completeness auto
termination by (relation "measure (\<lambda>(lt, a, b). size a + size b)") auto

fun tree_delete :: "('k \<Rightarrow> 'k \<Rightarrow> bool) \<Rightarrow> 'k \<Rightarrow> ('k, 'v) otree \<Rightarrow> ('k, 'v) otree" where
  "tree_delete lt x OLeaf = OLeaf"
| "tree_delete lt x (Node l k v p r) =
     (if lt x k then Node (tree_delete lt x l) k v p r
      else if lt k x then Node l k v p (tree_delete lt x r)
      else tree_merge lt l r)"

section \<open>Iterators\<close>

record ('k, 'v) orderedTreeIterator =
  oi_stack :: "('k, 'v) otree list"
  oi_reverse :: bool

fun descendAfter ::
  "('k \<Rightarrow> 'k \<Rightarrow> bool) \<Rightarrow> 'k option \<Rightarrow> ('k, 'v) otree \<Rightarrow> ('k, 'v) otree list \<Rightarrow> ('k, 'v) otree list" where
  "descendAfter lt cursor OLeaf st = st"
| "descendAfter lt cursor (Node l k v p r) st =
     (if (case cursor of None \<Rightarrow> True | Some c \<Rightarrow> lt c k)
      then descendAfter lt cursor l (st @ [Node l k v p r])
      else descendAfter lt cursor r st)"

fun descendBefore ::
  "('k \<Rightarrow> 'k \<Rightarrow> bool) \<Rightarrow> 'k option \<Rightarrow> ('k, 'v) otree \<Rightarrow> ('k, 'v) otree list \<Rightarrow> ('k, 'v) otree list" where
  "descendBefore lt cursor OLeaf st = st"
| "descendBefore lt cursor (Node l k v p r) st =
     (if (case cursor of None \<Rightarrow> True | Some c \<Rightarrow> lt k c)
      then descendBefore lt cursor r (st @ [Node l k v p r])
      else descendBefore lt cursor l st)"

text \<open>A cursor with its \<open>hasCursor\<close> flag is an option.\<close>

definition IteratorAfter ::
  "('k \<Rightarrow> 'k \<Rightarrow> bool) \<Rightarrow> 'k option \<Rightarrow> ('k, 'v) otree \<Rightarrow> ('k, 'v) orderedTreeIterator" where
  "IteratorAfter lt cursor t = \<lparr>oi_stack = descendAfter lt cursor t [], oi_reverse = False\<rparr>"

definition IteratorBefore ::
  "('k \<Rightarrow> 'k \<Rightarrow> bool) \<Rightarrow> 'k option \<Rightarrow> ('k, 'v) otree \<Rightarrow> ('k, 'v) orderedTreeIterator" where
  "IteratorBefore lt cursor t = \<lparr>oi_stack = descendBefore lt cursor t [], oi_reverse = True\<rparr>"

definition HasNext :: "('k, 'v) orderedTreeIterator \<Rightarrow> bool" where
  "HasNext it \<longleftrightarrow> oi_stack it \<noteq> []"

fun pushLeftSpine :: "('k, 'v) otree \<Rightarrow> ('k, 'v) otree list \<Rightarrow> ('k, 'v) otree list" where
  "pushLeftSpine OLeaf st = st"
| "pushLeftSpine (Node l k v p r) st = pushLeftSpine l (st @ [Node l k v p r])"

fun pushRightSpine :: "('k, 'v) otree \<Rightarrow> ('k, 'v) otree list \<Rightarrow> ('k, 'v) otree list" where
  "pushRightSpine OLeaf st = st"
| "pushRightSpine (Node l k v p r) st = pushRightSpine r (st @ [Node l k v p r])"

definition it_Next ::
  "('k, 'v) orderedTreeIterator \<Rightarrow> ('k \<times> 'v) option \<times> ('k, 'v) orderedTreeIterator" where
  "it_Next it =
     (if \<not> HasNext it then (None, it)
      else
        (let node = last (oi_stack it); st = butlast (oi_stack it) in
         if oi_reverse it
         then (Some (on_key node, on_val node), it\<lparr>oi_stack := pushRightSpine (on_left node) st\<rparr>)
         else (Some (on_key node, on_val node), it\<lparr>oi_stack := pushLeftSpine (on_right node) st\<rparr>)))"

section \<open>Key hashes\<close>

definition hashOrderedBytes :: "bytes \<Rightarrow> u64" where
  "hashOrderedBytes bs = foldl (\<lambda>h b. (h XOR ucast b) * 1099511628211) 1469598103934665603 bs"

section \<open>Entries and invariants\<close>

fun entries :: "('k, 'v) otree \<Rightarrow> ('k \<times> 'v) list" where
  "entries OLeaf = []"
| "entries (Node l k v p r) = entries l @ (k, v) # entries r"

definition otree_keys :: "('k, 'v) otree \<Rightarrow> 'k list" where
  "otree_keys t = map fst (entries t)"

lemma otree_keys_simps [simp]:
  "otree_keys OLeaf = []" "otree_keys (Node l k v p r) = otree_keys l @ k # otree_keys r"
  by (simp_all add: otree_keys_def)

lemma entries_eq_OLeaf [simp]: "entries t = [] \<longleftrightarrow> t = OLeaf"
  by (cases t) auto

definition ranks :: "('k \<Rightarrow> 'k \<Rightarrow> bool) \<Rightarrow> u64 \<times> 'k \<Rightarrow> u64 \<times> 'k \<Rightarrow> bool" where
  "ranks lt a b = (if fst a \<noteq> fst b then fst a < fst b else lt (snd a) (snd b))"

fun capped :: "('k \<Rightarrow> 'k \<Rightarrow> bool) \<Rightarrow> u64 \<times> 'k \<Rightarrow> ('k, 'v) otree \<Rightarrow> bool" where
  "capped lt b OLeaf = True"
| "capped lt b (Node l k v p r) = (\<not> ranks lt (p, k) b)"

fun heap_ok :: "('k \<Rightarrow> 'k \<Rightarrow> bool) \<Rightarrow> ('k \<Rightarrow> u64) \<Rightarrow> ('k, 'v) otree \<Rightarrow> bool" where
  "heap_ok lt pr OLeaf = True"
| "heap_ok lt pr (Node l k v p r) =
     (p = pr k \<and> heap_ok lt pr l \<and> heap_ok lt pr r \<and> capped lt (p, k) l \<and> capped lt (p, k) r)"

lemma higher_capped: "higher lt t (Node l k v p r) \<longleftrightarrow> \<not> capped lt (p, k) t"
  by (cases t) (auto simp: ranks_def)

definition otree_inv :: "('k \<Rightarrow> 'k \<Rightarrow> bool) \<Rightarrow> ('k \<Rightarrow> u64) \<Rightarrow> ('k, 'v) otree \<Rightarrow> bool" where
  "otree_inv lt pr t \<longleftrightarrow> sorted_wrt lt (otree_keys t) \<and> heap_ok lt pr t"

text \<open>Sorted insertion of an entry, the specification of \<open>Put\<close>.\<close>

fun ins_entry :: "('k \<Rightarrow> 'k \<Rightarrow> bool) \<Rightarrow> 'k \<Rightarrow> 'v \<Rightarrow> ('k \<times> 'v) list \<Rightarrow> ('k \<times> 'v) list" where
  "ins_entry lt x y [] = [(x, y)]"
| "ins_entry lt x y ((k, v) # es) =
     (if lt x k then (x, y) # (k, v) # es
      else if lt k x then (k, v) # ins_entry lt x y es
      else (k, y) # es)"

lemma entries_rotateRight [simp]: "entries (rotateOrderedRight t) = entries t"
  by (induction t rule: rotateOrderedRight.induct) auto

lemma entries_rotateLeft [simp]: "entries (rotateOrderedLeft t) = entries t"
  by (induction t rule: rotateOrderedLeft.induct) auto

lemma tree_put_not_Nil [simp]: "tree_put lt pr x y t \<noteq> OLeaf"
proof (cases t)
  case (Node l k v p r)
  have "rotateOrderedRight (Node a k v p b) \<noteq> OLeaf" "rotateOrderedLeft (Node a k v p b) \<noteq> OLeaf" for a b
    by (cases a; simp) (cases b; simp)
  with Node show ?thesis by (simp add: Let_def)
qed simp

text \<open>What an iterator still delivers, from the top of its stack down.\<close>

definition stack_after :: "('k, 'v) otree list \<Rightarrow> ('k \<times> 'v) list" where
  "stack_after st = concat (map (\<lambda>n. (on_key n, on_val n) # entries (on_right n)) (rev st))"

definition stack_before :: "('k, 'v) otree list \<Rightarrow> ('k \<times> 'v) list" where
  "stack_before st = concat (map (\<lambda>n. (on_key n, on_val n) # rev (entries (on_left n))) (rev st))"

definition it_remaining :: "('k, 'v) orderedTreeIterator \<Rightarrow> ('k \<times> 'v) list" where
  "it_remaining it = (if oi_reverse it then stack_before (oi_stack it) else stack_after (oi_stack it))"

lemma stack_simps [simp]:
  "stack_after [] = []" "stack_before [] = []"
  "stack_after (st @ [n]) = (on_key n, on_val n) # entries (on_right n) @ stack_after st"
  "stack_before (st @ [n]) = (on_key n, on_val n) # rev (entries (on_left n)) @ stack_before st"
  by (simp_all add: stack_after_def stack_before_def)

lemma stack_pushLeftSpine: "stack_after (pushLeftSpine t st) = entries t @ stack_after st"
  by (induction t st rule: pushLeftSpine.induct) auto

lemma stack_pushRightSpine: "stack_before (pushRightSpine t st) = rev (entries t) @ stack_before st"
  by (induction t st rule: pushRightSpine.induct) auto

lemma HasNext_remaining: "HasNext it \<longleftrightarrow> it_remaining it \<noteq> []"
  by (cases "oi_stack it" rule: rev_cases) (auto simp: HasNext_def it_remaining_def)

lemma it_Next_remaining:
  "it_Next it = (case it_remaining it of
     [] \<Rightarrow> (None, it) | e # es \<Rightarrow> (Some e, snd (it_Next it)))"
  "it_remaining (snd (it_Next it)) = tl (it_remaining it)"
  by (cases "oi_stack it" rule: rev_cases;
      auto simp: it_Next_def HasNext_def it_remaining_def Let_def stack_pushLeftSpine stack_pushRightSpine)+

section \<open>The tree over a strict total order\<close>

locale tree_order =
  fixes lt :: "'k \<Rightarrow> 'k \<Rightarrow> bool" and pr :: "'k \<Rightarrow> u64"
  assumes lt_irrefl: "\<not> lt x x"
    and lt_trans: "lt x y \<Longrightarrow> lt y z \<Longrightarrow> lt x z"
    and lt_total: "x \<noteq> y \<Longrightarrow> lt x y \<or> lt y x"
begin

lemma lt_asym: "lt x y \<Longrightarrow> \<not> lt y x"
  using lt_irrefl lt_trans by blast

lemma ins_entry_append:
  assumes "sorted_wrt lt (map fst (es @ (k, v) # fs))"
  shows "ins_entry lt x y (es @ (k, v) # fs) =
    (if lt x k then ins_entry lt x y es @ (k, v) # fs
     else if lt k x then es @ (k, v) # ins_entry lt x y fs
     else es @ (k, y) # fs)"
  using assms
proof (induction es)
  case (Cons e es)
  obtain k' v' where e: "e = (k', v')" by fastforce
  have k': "lt k' k" using Cons(2) e by auto
  have "\<not> lt x k \<Longrightarrow> \<not> lt x k'" using k' lt_trans by blast
  moreover have "\<not> lt x k \<Longrightarrow> lt k' x"
    using k' lt_trans lt_total by metis
  ultimately show ?case using Cons e by auto
qed simp

lemma entries_put:
  "sorted_wrt lt (otree_keys t) \<Longrightarrow> entries (tree_put lt pr x y t) = ins_entry lt x y (entries t)"
proof (induction t)
  case (Node l k v p r)
  have "sorted_wrt lt (map fst (entries l @ (k, v) # entries r))"
    using Node(3) by (simp add: otree_keys_def)
  note ins = ins_entry_append [OF this]
  have "entries (tree_put lt pr x y l) = ins_entry lt x y (entries l)"
    "entries (tree_put lt pr x y r) = ins_entry lt x y (entries r)"
    using Node by (simp_all add: sorted_wrt_append)
  then show ?case by (simp add: Let_def ins)
qed simp

lemma set_ins_entry: "fst ` set (ins_entry lt x y es) = insert x (fst ` set es)"
proof (induction es)
  case (Cons e es)
  then show ?case using lt_total by (cases e) auto
qed simp

lemma sorted_ins_entry:
  "sorted_wrt lt (map fst es) \<Longrightarrow> sorted_wrt lt (map fst (ins_entry lt x y es))"
proof (induction es)
  case (Cons e es)
  obtain k v where e: "e = (k, v)" by fastforce
  have "\<forall>k' \<in> fst ` set (ins_entry lt x y es). lt k k'" if "lt k x"
    using Cons(2) that e by (auto simp: set_ins_entry)
  then show ?case using Cons e lt_trans by auto
qed simp

lemma ins_entry_lookup:
  "sorted_wrt lt (map fst es) \<Longrightarrow> map_of (ins_entry lt x y es) = (map_of es)(x \<mapsto> y)"
proof (induction es)
  case (Cons e es)
  obtain k v where e: "e = (k, v)" by fastforce
  have "\<not> lt x k \<Longrightarrow> \<not> lt k x \<Longrightarrow> k = x" using lt_total by blast
  then show ?case using Cons e lt_irrefl by (auto simp: fun_eq_iff)
qed simp

lemma otree_keys_put_sorted:
  "sorted_wrt lt (otree_keys t) \<Longrightarrow> sorted_wrt lt (otree_keys (tree_put lt pr x y t))"
  using entries_put sorted_ins_entry unfolding otree_keys_def by metis

text \<open>\<open>ranks\<close> is negatively transitive, so bounding the root of a heap bounds all of it.\<close>

lemma ranks_asym: "ranks lt a b \<Longrightarrow> \<not> ranks lt b a"
  using lt_asym by (auto simp: ranks_def split: if_splits)

lemma ranks_total: "a \<noteq> b \<Longrightarrow> ranks lt a b \<or> ranks lt b a"
  using lt_total by (cases a; cases b) (auto simp: ranks_def)

lemma lt_neg_trans: "lt x z \<Longrightarrow> \<not> lt y z \<Longrightarrow> lt x y"
proof (cases "x = y")
  case False
  assume "lt x z" "\<not> lt y z"
  with False show "lt x y" using lt_total [OF False] lt_trans [of y x z] by blast
qed simp

lemma ranks_neg_trans: "ranks lt a c \<Longrightarrow> \<not> ranks lt b c \<Longrightarrow> ranks lt a b"
  by (auto simp: ranks_def split: if_splits dest: lt_neg_trans)

lemma capped_mono: "capped lt b t \<Longrightarrow> \<not> ranks lt b c \<Longrightarrow> capped lt c t"
  by (cases t) (auto dest: ranks_neg_trans)

lemma heap_put:
  assumes "heap_ok lt pr t"
  shows "heap_ok lt pr (tree_put lt pr x y t) \<and>
    (\<forall>b. capped lt b t \<longrightarrow>
       capped lt b (on_left (tree_put lt pr x y t)) \<and> capped lt b (on_right (tree_put lt pr x y t)))"
  using assms
proof (induction t)
  case (Node l k v p r)
  have IH: "heap_ok lt pr (tree_put lt pr x y l)" "heap_ok lt pr (tree_put lt pr x y r)"
    and bl: "capped lt (p, k) (on_left (tree_put lt pr x y l))" "capped lt (p, k) (on_right (tree_put lt pr x y l))"
    and br: "capped lt (p, k) (on_left (tree_put lt pr x y r))" "capped lt (p, k) (on_right (tree_put lt pr x y r))"
    using Node by auto
  obtain ll lk lv lp lr where l': "tree_put lt pr x y l = Node ll lk lv lp lr"
    by (metis tree_put_not_Nil otree.exhaust)
  obtain rl rk rv rp rr where r': "tree_put lt pr x y r = Node rl rk rv rp rr"
    by (metis tree_put_not_Nil otree.exhaust)
  show ?case
    using Node(3) IH bl br l' r'
    by (auto simp: Let_def higher_capped dest: ranks_asym ranks_neg_trans intro: capped_mono)
qed simp

lemma entries_merge: "entries (tree_merge lt a b) = entries a @ entries b"
  by (induction lt a b rule: tree_merge.induct) auto

lemma capped_merge: "capped lt c a \<Longrightarrow> capped lt c b \<Longrightarrow> capped lt c (tree_merge lt a b)"
  by (cases a; cases b) auto

lemma heap_merge: "heap_ok lt pr a \<Longrightarrow> heap_ok lt pr b \<Longrightarrow> heap_ok lt pr (tree_merge lt a b)"
proof (induction "size a + size b" arbitrary: a b rule: less_induct)
  case less
  show ?case
  proof (cases "a = OLeaf \<or> b = OLeaf")
    case True
    with less show ?thesis by (cases a; cases b) auto
  next
    case False
    then obtain l1 k1 v1 p1 r1 l2 k2 v2 p2 r2
      where a: "a = Node l1 k1 v1 p1 r1" and b: "b = Node l2 k2 v2 p2 r2"
      by (metis otree.exhaust)
    show ?thesis
    proof (cases "higher lt a b")
      case True
      then have "\<not> ranks lt (p2, k2) (p1, k1)"
        by (auto simp: a b higher_capped dest: ranks_asym simp del: higher.simps)
      with less(1) [of r1 b] less(2,3) True show ?thesis by (auto simp: a b intro: capped_merge)
    next
      case False
      then have "capped lt (p2, k2) a" by (simp add: b higher_capped)
      with less(1) [of a l2] less(2,3) False show ?thesis by (auto simp: a b intro: capped_merge)
    qed
  qed
qed

lemma heap_children_capped:
  assumes "heap_ok lt pr (Node l k v p r)" "capped lt c (Node l k v p r)"
  shows "capped lt c l" "capped lt c r"
  using assms capped_mono [of "(p, k)" l c] capped_mono [of "(p, k)" r c] by auto

lemma capped_delete: "heap_ok lt pr t \<Longrightarrow> capped lt c t \<Longrightarrow> capped lt c (tree_delete lt x t)"
proof (cases t)
  case (Node l k v p r)
  assume "heap_ok lt pr t" "capped lt c t"
  with Node heap_children_capped [of l k v p r c] show ?thesis by (auto intro: capped_merge)
qed simp

lemma heap_delete: "heap_ok lt pr t \<Longrightarrow> heap_ok lt pr (tree_delete lt x t)"
  by (induction t) (auto intro: capped_delete heap_merge)

lemma entries_delete:
  "sorted_wrt lt (otree_keys t) \<Longrightarrow> entries (tree_delete lt x t) = filter (\<lambda>e. fst e \<noteq> x) (entries t)"
proof (induction t)
  case (Node l k v p r)
  have sl: "\<forall>e \<in> set (entries l). lt (fst e) k" and sr: "\<forall>e \<in> set (entries r). lt k (fst e)"
    using Node(3) by (auto simp: otree_keys_def sorted_wrt_append)
  have "filter (\<lambda>e. fst e \<noteq> x) (entries r) = entries r" if "\<not> lt k x"
    using sr that by (intro filter_True) auto
  moreover have "filter (\<lambda>e. fst e \<noteq> x) (entries l) = entries l" if "\<not> lt x k"
    using sl that by (intro filter_True) auto
  moreover have "k = x" if "\<not> lt x k" "\<not> lt k x" using that lt_total by blast
  ultimately show ?case
    using Node lt_asym lt_irrefl by (auto simp: sorted_wrt_append entries_merge)
qed simp

lemma otree_inv_put: "otree_inv lt pr t \<Longrightarrow> otree_inv lt pr (tree_put lt pr x y t)"
  using heap_put [of t x y] otree_keys_put_sorted [of t x y] by (auto simp: otree_inv_def)

lemma otree_inv_delete: "otree_inv lt pr t \<Longrightarrow> otree_inv lt pr (tree_delete lt x t)"
  using heap_delete [of t x] entries_delete [of t x]
  by (auto simp: otree_inv_def otree_keys_def sorted_wrt_map intro: sorted_wrt_filter)

text \<open>The shape is determined by the entries.\<close>

lemma heap_keys_capped:
  "heap_ok lt pr t \<Longrightarrow> capped lt b t \<Longrightarrow> k \<in> set (otree_keys t) \<Longrightarrow> \<not> ranks lt (pr k, k) b"
proof (induction t)
  case (Node l k' v p r)
  with heap_children_capped [OF Node(3,4)] show ?case by auto
qed simp

lemma split_at_key:
  "es @ (k, v) # fs = es' @ (k, v') # fs' \<Longrightarrow> k \<notin> fst ` set es \<Longrightarrow> k \<notin> fst ` set es' \<Longrightarrow>
   es = es' \<and> v = v' \<and> fs = fs'"
proof (induction es arbitrary: es')
  case (Cons e es)
  then show ?case by (cases es') auto
qed (auto simp: Cons_eq_append_conv)

lemma root_unique:
  assumes "heap_ok lt pr (Node l k v p r)" "heap_ok lt pr (Node l' k' v' p' r')"
    and "set (otree_keys (Node l k v p r)) = set (otree_keys (Node l' k' v' p' r'))"
  shows "k = k'"
proof (rule ccontr)
  assume ne: "k \<noteq> k'"
  have "\<not> ranks lt (pr k, k) (pr k, k)" "\<not> ranks lt (pr k', k') (pr k', k')"
    using lt_irrefl by (auto simp: ranks_def)
  then have "\<not> ranks lt (pr k', k') (pr k, k)" "\<not> ranks lt (pr k, k) (pr k', k')"
    using heap_keys_capped [OF assms(1), of "(pr k, k)" k'] heap_keys_capped [OF assms(2), of "(pr k', k')" k]
      assms by auto
  with ne ranks_total show False by blast
qed

lemma sorted_keys_distinct: "sorted_wrt lt ks \<Longrightarrow> distinct ks"
  using lt_irrefl by (induction ks) auto

lemma canonical_shape:
  assumes "otree_inv lt pr t" "otree_inv lt pr u" "entries t = entries u"
  shows "t = u"
  using assms
proof (induction t arbitrary: u)
  case OLeaf
  then show ?case by (metis entries_eq_OLeaf)
next
  case (Node l k v p r)
  obtain l' k' v' p' r' where u: "u = Node l' k' v' p' r'"
    using Node(5) by (cases u) auto
  have keys: "otree_keys (Node l k v p r) = otree_keys u" using Node(5) by (simp add: otree_keys_def)
  have heaps: "heap_ok lt pr (Node l k v p r)" "heap_ok lt pr (Node l' k' v' p' r')"
    and srt: "sorted_wrt lt (otree_keys l @ k # otree_keys r)" "sorted_wrt lt (otree_keys l' @ k' # otree_keys r')"
    using Node(3,4) unfolding u otree_inv_def by auto
  have k: "k = k'"
    using heaps by (rule root_unique) (simp only: keys u)
  have "distinct (otree_keys l @ k # otree_keys r)" "distinct (otree_keys l' @ k' # otree_keys r')"
    using srt sorted_keys_distinct by blast+
  then have "k \<notin> fst ` set (entries l)" "k \<notin> fst ` set (entries l')"
    by (auto simp: otree_keys_def k)
  with Node(5) k have "entries l = entries l' \<and> v = v' \<and> entries r = entries r'"
    by (intro split_at_key) (auto simp: u)
  moreover have "otree_inv lt pr l" "otree_inv lt pr r" "otree_inv lt pr l'" "otree_inv lt pr r'"
    using heaps srt by (auto simp: otree_inv_def sorted_wrt_append)
  moreover have "p = p'" using heaps k by simp
  ultimately show ?case using Node(1) [of l'] Node(2) [of r'] k by (simp add: u)
qed

lemma stack_descendAfter:
  "sorted_wrt lt (otree_keys t) \<Longrightarrow>
   stack_after (descendAfter lt cursor t st) =
     filter (\<lambda>e. case cursor of None \<Rightarrow> True | Some c \<Rightarrow> lt c (fst e)) (entries t) @ stack_after st"
proof (induction t arbitrary: st)
  case (Node l k v p r)
  let ?P = "\<lambda>x. case cursor of None \<Rightarrow> True | Some c \<Rightarrow> lt c x"
  have sl: "\<forall>e \<in> set (entries l). lt (fst e) k" and sr: "\<forall>e \<in> set (entries r). lt k (fst e)"
    and s: "sorted_wrt lt (otree_keys l)" "sorted_wrt lt (otree_keys r)"
    using Node(3) by (auto simp: otree_keys_def sorted_wrt_append)
  have "filter (\<lambda>e. ?P (fst e)) (entries r) = entries r" if "?P k"
    using sr that lt_trans by (intro filter_True) (auto split: option.splits)
  moreover have "filter (\<lambda>e. ?P (fst e)) (entries l) = []" if "\<not> ?P k"
    using sl that lt_trans by (auto simp: filter_empty_conv split: option.splits)
  ultimately show ?case
    using Node(1) [OF s(1)] Node(2) [OF s(2)] by (cases "?P k") (auto cong: option.case_cong)
qed simp

lemma stack_descendBefore:
  "sorted_wrt lt (otree_keys t) \<Longrightarrow>
   stack_before (descendBefore lt cursor t st) =
     rev (filter (\<lambda>e. case cursor of None \<Rightarrow> True | Some c \<Rightarrow> lt (fst e) c) (entries t)) @ stack_before st"
proof (induction t arbitrary: st)
  case (Node l k v p r)
  let ?P = "\<lambda>x. case cursor of None \<Rightarrow> True | Some c \<Rightarrow> lt x c"
  have sl: "\<forall>e \<in> set (entries l). lt (fst e) k" and sr: "\<forall>e \<in> set (entries r). lt k (fst e)"
    and s: "sorted_wrt lt (otree_keys l)" "sorted_wrt lt (otree_keys r)"
    using Node(3) by (auto simp: otree_keys_def sorted_wrt_append)
  have "filter (\<lambda>e. ?P (fst e)) (entries l) = entries l" if "?P k"
    using sl that lt_trans by (intro filter_True) (auto split: option.splits)
  moreover have "filter (\<lambda>e. ?P (fst e)) (entries r) = []" if "\<not> ?P k"
    using sr that lt_trans by (auto simp: filter_empty_conv split: option.splits)
  ultimately show ?case
    using Node(1) [OF s(1)] Node(2) [OF s(2)] by (cases "?P k") (auto cong: option.case_cong)
qed simp

lemma IteratorAfter_remaining:
  "otree_inv lt pr t \<Longrightarrow> it_remaining (IteratorAfter lt cursor t) =
     filter (\<lambda>e. case cursor of None \<Rightarrow> True | Some c \<Rightarrow> lt c (fst e)) (entries t)"
  by (simp add: IteratorAfter_def it_remaining_def otree_inv_def stack_descendAfter)

lemma IteratorBefore_remaining:
  "otree_inv lt pr t \<Longrightarrow> it_remaining (IteratorBefore lt cursor t) =
     rev (filter (\<lambda>e. case cursor of None \<Rightarrow> True | Some c \<Rightarrow> lt (fst e) c) (entries t))"
  by (simp add: IteratorBefore_def it_remaining_def otree_inv_def stack_descendBefore)

lemma lookup_put:
  "otree_inv lt pr t \<Longrightarrow> map_of (entries (tree_put lt pr x y t)) = (map_of (entries t))(x \<mapsto> y)"
  using entries_put [of t x y] ins_entry_lookup [of "entries t" x y]
  by (simp add: otree_inv_def otree_keys_def)

lemma lookup_delete:
  "otree_inv lt pr t \<Longrightarrow> map_of (entries (tree_delete lt x t)) = (map_of (entries t))(x := None)"
proof -
  assume "otree_inv lt pr t"
  then have "entries (tree_delete lt x t) = filter (\<lambda>e. fst e \<noteq> x) (entries t)"
    by (auto simp: otree_inv_def entries_delete)
  moreover have "map_of (filter (\<lambda>e. fst e \<noteq> x) es) = (map_of es)(x := None)" for es :: "('k \<times> 'v) list"
    by (induction es) auto
  ultimately show ?thesis by metis
qed

end

section \<open>Users of the tree\<close>

text \<open>Strings under Go's \<open><\<close> and identifiers under \<open>bytes.Compare\<close>, hashed byte by byte.\<close>

definition string_prio :: "string \<Rightarrow> u64" where
  "string_prio s = hashOrderedBytes (bytes_of s)"

definition uuid_prio :: "uuid \<Rightarrow> u64" where
  "uuid_prio u = hashOrderedBytes (put_uuid u)"

interpretation string_tree: tree_order "(<) :: string \<Rightarrow> string \<Rightarrow> bool" string_prio
  by unfold_locales auto

interpretation uuid_tree: tree_order "(<) :: uuid \<Rightarrow> uuid \<Rightarrow> bool" uuid_prio
  by unfold_locales auto

end
