(* ===== verification/Index_Codec.thy ===== *)
theory Index_Codec
  imports Graph_Model
begin

text \<open>
  Sortable keys and cursors (\<open>internal/graph/storage/index_codec.go\<close>, with the key helpers of
  \<open>store.go\<close> and \<open>index_store.go\<close>). A property value becomes a string whose byte order is meant to be the
  order of the values; a cursor is the key in unpadded URL base64. The text form of an identifier is
  code of the \<open>uuid\<close> package: a parameter \<open>us\<close>, with what the keys rely on as \<open>uuid_string_ok\<close>.
\<close>

section \<open>Text of identifiers and numbers\<close>

definition uuid_string_ok :: "(uuid \<Rightarrow> string) \<Rightarrow> bool" where
  "uuid_string_ok us \<longleftrightarrow>
     (\<forall>a b. us a < us b \<longleftrightarrow> a < b) \<and> (\<forall>a. length (us a) = 36) \<and> (\<forall>a. char_of (0::nat) \<notin> set (us a))"

lemma uuid_string_inj: "uuid_string_ok us \<Longrightarrow> us a = us b \<longleftrightarrow> a = b"
  unfolding uuid_string_ok_def by (metis linorder_neqE order_less_irrefl)

definition nul :: string where "nul = [char_of (0::nat)]"

text \<open>\<open>%016x\<close> of a 64-bit value.\<close>

definition hex16 :: "u64 \<Rightarrow> string" where
  "hex16 w = map hex_char (digits_fix 16 16 (unat w))"

definition encodeSortableUint :: "u64 \<Rightarrow> string" where
  "encodeSortableUint v = ''u:'' @ pad_dec 20 (unat v)"

definition encodeSortableInt :: "u64 \<Rightarrow> string" where
  "encodeSortableInt v = encodeSortableUint (v XOR push_bit 63 1)"

definition encodeSortableFloat :: "u64 \<Rightarrow> string" where
  "encodeSortableFloat bits =
     ''f:'' @ hex16 (if bits AND push_bit 63 1 \<noteq> 0 then NOT bits else bits XOR push_bit 63 1)"

section \<open>Times\<close>

text \<open>\<open>time.RFC3339Nano\<close> in UTC: the date of a day number, then the fraction without its trailing zeros.\<close>

definition civil_from_days :: "int \<Rightarrow> int \<times> int \<times> int" where
  "civil_from_days z0 =
     (let z = z0 + 719468; era = z div 146097; doe = z mod 146097;
          yoe = (doe - doe div 1460 + doe div 36524 - doe div 146096) div 365;
          doy = doe - (365 * yoe + yoe div 4 - yoe div 100);
          mp = (5 * doy + 2) div 153; d = doy - (153 * mp + 2) div 5 + 1;
          mo = (if mp < 10 then mp + 3 else mp - 9); y = yoe + era * 400
      in (if mo \<le> 2 then y + 1 else y, mo, d))"

definition pad_int :: "nat \<Rightarrow> int \<Rightarrow> string" where
  "pad_int w i = (if i < 0 then ''-'' else []) @ pad_dec w (nat \<bar>i\<bar>)"

definition fraction :: "nat \<Rightarrow> string" where
  "fraction ns =
     (if ns = 0 then [] else ''.'' @ rev (dropWhile (\<lambda>c. c = CHR ''0'') (rev (pad_dec 9 ns))))"

fun format_rfc3339nano :: "gotime \<Rightarrow> string" where
  "format_rfc3339nano ZeroTime = ''0001-01-01T00:00:00Z''"
| "format_rfc3339nano (AtNano n) =
     (let secs = sint n div 1000000000; ns = nat (sint n mod 1000000000); tod = secs mod 86400
      in case civil_from_days (secs div 86400) of
           (y, mo, d) \<Rightarrow> pad_int 4 y @ ''-'' @ pad_int 2 mo @ ''-'' @ pad_int 2 d @ ''T''
             @ pad_int 2 (tod div 3600) @ '':'' @ pad_int 2 (tod div 60 mod 60) @ '':''
             @ pad_int 2 (tod mod 60) @ fraction ns @ ''Z'')"

section \<open>Keys\<close>

definition encodeSortableValue :: "gval \<Rightarrow> string option" where
  "encodeSortableValue v =
     (case v of
        VString s \<Rightarrow> Some (''s:'' @ s)
      | VBool b \<Rightarrow> Some (if b then ''b:1'' else ''b:0'')
      | VInt i \<Rightarrow> Some (encodeSortableInt i)
      | VUint u \<Rightarrow> Some (encodeSortableUint u)
      | VFloat f \<Rightarrow> Some (encodeSortableFloat f)
      | VTime t \<Rightarrow> Some (''t:'' @ format_rfc3339nano t)
      | _ \<Rightarrow> None)"

definition encodeOrderedNodeKey :: "(uuid \<Rightarrow> string) \<Rightarrow> gval \<Rightarrow> node_id \<Rightarrow> string option" where
  "encodeOrderedNodeKey us v nid =
     (case encodeSortableValue v of None \<Rightarrow> None | Some k \<Rightarrow> Some (k @ nul @ us nid))"

definition encodeOrderedEdgeKey :: "(uuid \<Rightarrow> string) \<Rightarrow> gval \<Rightarrow> edge_id \<Rightarrow> string option" where
  "encodeOrderedEdgeKey us v eid =
     (case encodeSortableValue v of None \<Rightarrow> None | Some k \<Rightarrow> Some (k @ nul @ us eid))"

text \<open>
  \<open>int(x)\<close> of a float64: truncation toward zero, and the value the amd64 conversion gives when the
  result does not fit.
\<close>

definition float_to_int :: "u64 \<Rightarrow> u64" where
  "float_to_int bits =
     (let e = unat (drop_bit 52 bits AND 0x7ff); m = unat (bits AND 0xfffffffffffff);
          mag = (if e < 1023 then 0
                 else if e \<le> 1075 then (2 ^ 52 + m) div 2 ^ (1075 - e) else (2 ^ 52 + m) * 2 ^ (e - 1075));
          neg = (drop_bit 63 bits = 1)
      in if e = 0x7ff \<or> (if neg then mag > 2 ^ 63 else mag \<ge> 2 ^ 63) then push_bit 63 1
         else if neg then - of_nat mag else of_nat mag)"

definition numberPropInt :: "gval \<Rightarrow> u64 option" where
  "numberPropInt v =
     (case v of VInt i \<Rightarrow> Some i | VUint u \<Rightarrow> Some u | VFloat f \<Rightarrow> Some (float_to_int f) | _ \<Rightarrow> None)"

definition encodeAdjacencyKey :: "(uuid \<Rightarrow> string) \<Rightarrow> edge \<Rightarrow> string" where
  "encodeAdjacencyKey us e =
     encodeSortableInt (case numberPropInt (mget (e_Properties e) ''order'') of None \<Rightarrow> 0 | Some i \<Rightarrow> i)
     @ nul @ us (e_ID e)"

definition indexIdentity :: "(uuid \<Rightarrow> string) \<Rightarrow> domain_id \<Rightarrow> string \<Rightarrow> string" where
  "indexIdentity us d name = us d @ nul @ name"

section \<open>Cursors\<close>

definition b64_alphabet :: string where
  "b64_alphabet = ''ABCDEFGHIJKLMNOPQRSTUVWXYZabcdefghijklmnopqrstuvwxyz0123456789-_''"

definition b64_char :: "nat \<Rightarrow> char" where
  "b64_char d = b64_alphabet ! d"

definition b64_val :: "char \<Rightarrow> nat option" where
  "b64_val c = map_of (zip b64_alphabet [0..<64]) c"

fun b64_encode :: "bytes \<Rightarrow> string" where
  "b64_encode [] = []"
| "b64_encode [a] = map b64_char (digits_fix 64 2 (undigits 256 [unat a] * 16))"
| "b64_encode [a, b] = map b64_char (digits_fix 64 3 (undigits 256 [unat a, unat b] * 4))"
| "b64_encode (a # b # c # bs) =
     map b64_char (digits_fix 64 4 (undigits 256 [unat a, unat b, unat c])) @ b64_encode bs"

fun b64_digits :: "string \<Rightarrow> nat list option" where
  "b64_digits [] = Some []"
| "b64_digits (c # cs) =
     (case (b64_val c, b64_digits cs) of (Some d, Some ds) \<Rightarrow> Some (d # ds) | _ \<Rightarrow> None)"

fun b64_groups :: "nat list \<Rightarrow> bytes option" where
  "b64_groups [] = Some []"
| "b64_groups [a] = None"
| "b64_groups [a, b] = Some (be_enc 1 (undigits 64 [a, b] div 16))"
| "b64_groups [a, b, c] = Some (be_enc 2 (undigits 64 [a, b, c] div 4))"
| "b64_groups (a # b # c # d # ds) =
     map_option (append (be_enc 3 (undigits 64 [a, b, c, d]))) (b64_groups ds)"

text \<open>The decoder skips line breaks.\<close>

definition b64_decode :: "string \<Rightarrow> bytes option" where
  "b64_decode s =
     (case b64_digits (filter (\<lambda>c. c \<noteq> char_of (10::nat) \<and> c \<noteq> char_of (13::nat)) s) of
        None \<Rightarrow> None | Some ds \<Rightarrow> b64_groups ds)"

definition encodeIndexCursor :: "string \<Rightarrow> string" where
  "encodeIndexCursor key = (if key = [] then [] else b64_encode (bytes_of key))"

definition decodeIndexCursor :: "string \<Rightarrow> string option" where
  "decodeIndexCursor cursor =
     (if cursor = [] then Some [] else map_option string_of (b64_decode cursor))"

section \<open>Cursor round trip\<close>

lemma b64_alphabet_facts: "length b64_alphabet = 64" "distinct b64_alphabet"
  by code_simp+

lemma b64_val_char [simp]: "d < 64 \<Longrightarrow> b64_val (b64_char d) = Some d"
  using b64_alphabet_facts by (simp add: b64_val_def b64_char_def map_of_zip_nth)

lemma b64_char_not_break: "d < 64 \<Longrightarrow> b64_char d \<noteq> char_of (10::nat) \<and> b64_char d \<noteq> char_of (13::nat)"
proof -
  assume "d < 64"
  then have "b64_char d \<in> set b64_alphabet"
    using b64_alphabet_facts by (simp add: b64_char_def)
  moreover have "char_of (10::nat) \<notin> set b64_alphabet \<and> char_of (13::nat) \<notin> set b64_alphabet"
    by code_simp
  ultimately show ?thesis by metis
qed

lemma b64_digits_chars: "\<forall>d \<in> set ds. d < 64 \<Longrightarrow> b64_digits (map b64_char ds) = Some ds"
  by (induction ds) auto

lemma digits_fix_undigits: "\<forall>d \<in> set ds. d < b \<Longrightarrow> digits_fix b (length ds) (undigits b ds) = ds"
  by (induction ds rule: rev_induct) auto

lemma undigits_less: "\<forall>d \<in> set ds. d < b \<Longrightarrow> undigits b ds < b ^ length ds"
proof (induction ds rule: rev_induct)
  case (snoc d ds)
  then have "undigits b ds + 1 \<le> b ^ length ds" by simp
  then have "(undigits b ds + 1) * b \<le> b ^ length ds * b" by (rule mult_le_mono1)
  with snoc show ?case by (simp add: algebra_simps)
qed simp

lemma be_enc_undigits:
  assumes "length bs = k" shows "be_enc k (undigits 256 (map unat bs)) = bs"
proof -
  have "\<forall>d \<in> set (map unat bs). d < 256"
    using unsigned_less [where ?'a = nat and ?'b = 8] by auto
  then have "digits_fix 256 k (undigits 256 (map unat bs)) = map unat bs"
    using assms digits_fix_undigits [of "map unat bs" 256] by simp
  then show ?thesis by (simp add: be_enc_def comp_def)
qed

lemma undigits_bytes_less: "undigits 256 (map unat bs) < 256 ^ length (bs :: bytes)"
  using undigits_less [of "map unat bs" 256] unsigned_less [where ?'a = nat and ?'b = 8] by auto

fun b64_nums :: "bytes \<Rightarrow> nat list" where
  "b64_nums [] = []"
| "b64_nums [a] = digits_fix 64 2 (undigits 256 [unat a] * 16)"
| "b64_nums [a, b] = digits_fix 64 3 (undigits 256 [unat a, unat b] * 4)"
| "b64_nums (a # b # c # bs) = digits_fix 64 4 (undigits 256 [unat a, unat b, unat c]) @ b64_nums bs"

lemma b64_encode_nums: "b64_encode bs = map b64_char (b64_nums bs)"
  by (induction bs rule: b64_encode.induct) auto

lemma b64_nums_less: "\<forall>d \<in> set (b64_nums bs). d < 64"
  by (induction bs rule: b64_nums.induct) (auto dest: digits_fix_less_base [of 64, simplified])

lemma b64_groups_full:
  "b64_groups (digits_fix 64 4 x @ ds) =
     map_option (append (be_enc 3 (undigits 64 (digits_fix 64 4 x)))) (b64_groups ds)"
  by (simp add: digits_fix_small)

lemma b64_groups_nums: "b64_groups (b64_nums bs) = Some bs"
proof (induction bs rule: b64_nums.induct)
  case (2 a)
  have "b64_groups (digits_fix 64 2 x) = Some (be_enc 1 (undigits 64 (digits_fix 64 2 x) div 16))" for x
    by (simp add: digits_fix_small)
  moreover have "undigits 256 (map unat [a]) * 16 < 64 ^ 2"
    using undigits_bytes_less [of "[a]"] by simp
  ultimately show ?case
    using undigits_digits_fix [of "undigits 256 (map unat [a]) * 16" 64 2] be_enc_undigits [of "[a]" 1] by simp
next
  case (3 a b)
  have "b64_groups (digits_fix 64 3 x) = Some (be_enc 2 (undigits 64 (digits_fix 64 3 x) div 4))" for x
    by (simp add: digits_fix_small)
  moreover have "undigits 256 (map unat [a, b]) * 4 < 64 ^ 3"
    using undigits_bytes_less [of "[a, b]"] by simp
  ultimately show ?case
    using undigits_digits_fix [of "undigits 256 (map unat [a, b]) * 4" 64 3] be_enc_undigits [of "[a, b]" 2] by simp
next
  case (4 a b c bs)
  have "undigits 256 (map unat [a, b, c]) < 64 ^ 4"
    using undigits_bytes_less [of "[a, b, c]"] by simp
  then show ?case
    using 4 undigits_digits_fix [of "undigits 256 (map unat [a, b, c])" 64 4] be_enc_undigits [of "[a, b, c]" 3]
    by (simp add: b64_groups_full)
qed simp

lemma b64_decode_encode: "b64_decode (b64_encode bs) = Some bs"
proof -
  have "filter (\<lambda>c. c \<noteq> char_of (10::nat) \<and> c \<noteq> char_of (13::nat)) (map b64_char (b64_nums bs)) =
      map b64_char (b64_nums bs)"
    using b64_nums_less [of bs] b64_char_not_break by (intro filter_True) auto
  then show ?thesis
    unfolding b64_decode_def b64_encode_nums
    by (simp only: b64_digits_chars [OF b64_nums_less] option.case b64_groups_nums)
qed

lemma b64_encode_Nil: "b64_encode bs = [] \<longleftrightarrow> bs = []"
  by (cases bs rule: b64_encode.cases) (auto simp: digits_fix_small)

lemma cursor_roundtrip [simp]: "decodeIndexCursor (encodeIndexCursor key) = Some key"
  by (simp add: decodeIndexCursor_def encodeIndexCursor_def b64_decode_encode b64_encode_Nil)

section \<open>Order of keys\<close>

lemma digits_fix_0 [simp]: "digits_fix b n 0 = replicate n 0"
  by (induction n) (auto simp: replicate_append_same)

lemma digit_char_0: "digit_char 0 = CHR ''0''"
  by code_simp

lemma pad_dec_digits:
  "n < 10 ^ w \<Longrightarrow> 0 < w \<Longrightarrow> pad_dec w n = map digit_char (digits_fix 10 w n)"
proof (induction w arbitrary: n)
  case (Suc w)
  show ?case
  proof (cases "n < 10")
    case True
    then have "dec_string n = [digit_char n]" by (subst dec_string.simps) simp
    with True show ?thesis by (simp add: pad_dec_def digit_char_0)
  next
    case False
    then have d: "dec_string n = dec_string (n div 10) @ [digit_char (n mod 10)]"
      by (subst dec_string.simps) simp
    have "n div 10 < 10 ^ w" "0 < w" using Suc(2) False by (auto intro: gr0I)
    with Suc(1) [of "n div 10"] d show ?thesis by (simp add: pad_dec_def Let_def)
  qed
qed simp

lemma map_char_less_iff:
  assumes "\<And>d e. d < b \<Longrightarrow> e < b \<Longrightarrow> f d < f e \<longleftrightarrow> d < (e::nat)" "0 < b"
    and "x < b ^ n" "y < b ^ n"
  shows "map f (digits_fix b n x) < (map f (digits_fix b n y) :: char list) \<longleftrightarrow> x < y"
proof -
  have eq: "f d = f e \<longleftrightarrow> d = e" if "d < b" "e < b" for d e
    using assms(1) that by (metis linorder_neqE_nat order_less_irrefl)
  have "map f (digits_fix b n x) < map f (digits_fix b n y) \<longleftrightarrow> digits_fix b n x < digits_fix b n y"
    using assms(1,2) eq digits_fix_less_base by (intro map_less_iff) auto
  with digits_fix_less_iff assms show ?thesis by simp
qed

lemma digit_char_less: "d < 10 \<Longrightarrow> e < 10 \<Longrightarrow> digit_char d < digit_char e \<longleftrightarrow> d < e"
  by (simp add: digit_char_def less_char_def)

lemma hex_char_less: "d < 16 \<Longrightarrow> e < 16 \<Longrightarrow> hex_char d < hex_char e \<longleftrightarrow> d < e"
  by (auto simp: hex_char_def less_char_def)

lemma pad_dec_less: "x < 10 ^ w \<Longrightarrow> y < 10 ^ w \<Longrightarrow> 0 < w \<Longrightarrow> pad_dec w x < pad_dec w y \<longleftrightarrow> x < y"
  using map_char_less_iff [of 10 digit_char x w y] digit_char_less by (simp add: pad_dec_digits)

lemma unat_u64_less: "unat (v :: u64) < 2 ^ 64"
  using unsigned_less [of v, where ?'a = nat] by simp

lemma sortable_uint_less: "encodeSortableUint a < encodeSortableUint b \<longleftrightarrow> a < b"
proof -
  have "unat a < 10 ^ 20" "unat b < 10 ^ 20" using unat_u64_less [of a] unat_u64_less [of b] by simp_all
  then show ?thesis
    by (simp add: encodeSortableUint_def pad_dec_less word_less_nat_alt)
qed

lemma hex16_less: "hex16 a < hex16 b \<longleftrightarrow> a < b"
  using map_char_less_iff [of 16 hex_char "unat a" 16 "unat b"] hex_char_less
    unat_u64_less [of a] unat_u64_less [of b]
  by (simp add: hex16_def word_less_nat_alt)

text \<open>Flipping the sign bit adds \<open>2 ^ 63\<close> to the signed value.\<close>

lemma uint_take_bit_64: "take_bit 64 (uint (a :: u64)) = uint a"
  using unsigned_less [of a, where ?'a = int] by (intro take_bit_int_eq_self) simp_all

lemma uint_sign_split:
  "uint (a :: u64) = 2 ^ 63 * of_bool (bit a 63) + uint (take_bit 63 a)"
proof -
  have "take_bit (Suc 63) (uint a) = 2 ^ 63 * of_bool (bit (uint a) 63) + take_bit 63 (uint a)"
    by (rule take_bit_Suc_from_most)
  moreover have "bit (uint a) 63 = bit a 63" by (simp add: bit_uint_iff)
  moreover have "take_bit 63 (uint a) = uint (take_bit 63 a)" by (simp add: unsigned_take_bit_eq)
  ultimately show ?thesis using uint_take_bit_64 [of a] by simp
qed

lemma sint_sign_split:
  "sint (a :: u64) = uint (take_bit 63 a) - 2 ^ 63 * of_bool (bit a 63)"
proof -
  have "sint a = signed_take_bit 63 (uint a)" by (simp add: sint_uint)
  moreover have "signed_take_bit 63 (uint a) =
      take_bit (Suc 63) (uint a) - 2 ^ Suc 63 * of_bool (bit (uint a) 63)"
    by (rule signed_take_bit_eq_take_bit_minus)
  moreover have "bit (uint a) 63 = bit a 63" by (simp add: bit_uint_iff)
  moreover have "take_bit (Suc 63) (uint a) = uint a" using uint_take_bit_64 [of a] by simp
  ultimately have "sint a = uint a - 2 ^ 64 * of_bool (bit a 63)" by simp
  then show ?thesis using uint_sign_split [of a] by (cases "bit a 63") simp_all
qed

lemma flip_sign: "uint (a XOR push_bit 63 1 :: u64) = sint a + 2 ^ 63"
proof -
  have t: "take_bit 63 (a XOR push_bit 63 1) = take_bit 63 a"
    by (rule bit_word_eqI) (auto simp: bit_simps)
  have "bit (a XOR push_bit 63 1) 63 \<longleftrightarrow> \<not> bit a 63" by (simp add: bit_simps)
  with t uint_sign_split [of "a XOR push_bit 63 1"] sint_sign_split [of a] show ?thesis by simp
qed

lemma sortable_int_less: "encodeSortableInt a < encodeSortableInt b \<longleftrightarrow> sint a < sint b"
  unfolding encodeSortableInt_def sortable_uint_less word_less_def flip_sign by simp

text \<open>
  A finite float64 orders by sign and magnitude: its value grows with the lower 63 bits. The two zeros
  have the same rank.
\<close>

definition float_rank :: "u64 \<Rightarrow> int" where
  "float_rank bits = (if bit bits 63 then - uint (take_bit 63 bits) else uint (take_bit 63 bits))"

lemma sign_test: "bits AND push_bit 63 (1 :: u64) \<noteq> 0 \<longleftrightarrow> bit bits 63"
  unfolding push_bit_of_1 by (simp only: and_exp_eq_0_iff_not_bit not_not)

lemma sortable_float_key:
  "uint (if bits AND push_bit 63 (1 :: u64) \<noteq> 0 then NOT bits else bits XOR push_bit 63 1) =
     (if bit bits 63 then 2 ^ 63 - 1 + float_rank bits else 2 ^ 63 + float_rank bits)"
proof -
  have "uint (NOT bits) = 2 ^ 63 - 1 - uint (take_bit 63 bits)" if "bit bits 63"
  proof -
    have "NOT bits = - 1 - bits" by (simp add: not_eq_complement)
    moreover have "uint (- 1 - bits) = uint (- 1 :: u64) - uint bits"
      by (rule uint_sub_lem [THEN iffD1]) (simp only: word_le_def [symmetric] word_order.extremum)
    moreover have "uint (- 1 :: u64) = 2 ^ 64 - 1" by (simp add: unsigned_minus_1_eq_mask mask_eq_exp_minus_1)
    ultimately show ?thesis using uint_sign_split [of bits] that by simp
  qed
  moreover have "uint (bits XOR push_bit 63 1) = 2 ^ 63 + uint (take_bit 63 bits)" if "\<not> bit bits 63"
    using flip_sign [of bits] sint_sign_split [of bits] that by simp
  ultimately show ?thesis
    unfolding sign_test by (simp add: float_rank_def)
qed

lemma sortable_float_less:
  assumes "float_rank a < float_rank b"
  shows "encodeSortableFloat a < encodeSortableFloat b"
proof -
  define x y where "x = uint (take_bit 63 a)" and "y = uint (take_bit 63 b)"
  have nonneg: "0 \<le> x" "0 \<le> y" by (simp_all add: x_def y_def)
  have ranks: "float_rank a = (if bit a 63 then - x else x)" "float_rank b = (if bit b 63 then - y else y)"
    by (simp_all add: float_rank_def x_def y_def)
  have "(if bit a 63 then 2 ^ 63 - 1 + float_rank a else 2 ^ 63 + float_rank a) <
      (if bit b 63 then 2 ^ 63 - 1 + float_rank b else 2 ^ 63 + float_rank b)"
    using assms nonneg unfolding ranks by (cases "bit a 63"; cases "bit b 63") simp_all
  then show ?thesis
    unfolding encodeSortableFloat_def append_less_append_same_length [OF refl]
    unfolding hex16_less word_less_def sortable_float_key by simp
qed

end
