(* ===== verification/Derived_Index.thy ===== *)
theory Derived_Index
  imports Adjacency_Index Ordered_Tree Index_Codec
begin

text \<open>
  What the graph store asks of each of its derived indexes. An index answers, for a key, the set of
  identifiers filed under it; \<open>add\<close> files an entity under its keys and \<open>remove\<close> takes it out again.
  The locale \<open>derived_index\<close> proves once that an index maintained this way always answers with exactly
  the stored entities that have the key, through puts, replacements and deletions.
\<close>

text \<open>Records are filed under their own identifier.\<close>

definition keyed :: "('n \<Rightarrow> uuid) \<Rightarrow> (uuid \<rightharpoonup> 'n) \<Rightarrow> bool" where
  "keyed ident recs \<longleftrightarrow> (\<forall>i n. recs i = Some n \<longrightarrow> ident n = i)"

definition filed :: "('n \<Rightarrow> 'k set) \<Rightarrow> (uuid \<rightharpoonup> 'n) \<Rightarrow> 'k \<Rightarrow> uuid set" where
  "filed ks recs k = {i. \<exists>n. recs i = Some n \<and> k \<in> ks n}"

definition index_put :: "('n \<Rightarrow> 'm \<Rightarrow> 'm) \<Rightarrow> ('n \<Rightarrow> 'm \<Rightarrow> 'm) \<Rightarrow> ('n \<Rightarrow> uuid) \<Rightarrow> (uuid \<rightharpoonup> 'n) \<Rightarrow> 'n \<Rightarrow> 'm \<Rightarrow> 'm" where
  "index_put add remove ident recs n m =
     add n (case recs (ident n) of None \<Rightarrow> m | Some old \<Rightarrow> remove old m)"

definition index_del :: "('n \<Rightarrow> 'm \<Rightarrow> 'm) \<Rightarrow> (uuid \<rightharpoonup> 'n) \<Rightarrow> uuid \<Rightarrow> 'm \<Rightarrow> 'm" where
  "index_del remove recs i m = (case recs i of None \<Rightarrow> m | Some old \<Rightarrow> remove old m)"

lemma keyed_upd [simp]: "keyed ident recs \<Longrightarrow> keyed ident (recs(ident n \<mapsto> n))"
  by (auto simp: keyed_def)

lemma keyed_del [simp]: "keyed ident recs \<Longrightarrow> keyed ident (recs(i := None))"
  by (auto simp: keyed_def)

locale derived_index =
  fixes inv :: "'m \<Rightarrow> bool" and lookup :: "'m \<Rightarrow> 'k \<Rightarrow> uuid set" and ks :: "'n \<Rightarrow> 'k set"
    and add remove :: "'n \<Rightarrow> 'm \<Rightarrow> 'm" and ident :: "'n \<Rightarrow> uuid"
  assumes add_inv: "inv m \<Longrightarrow> inv (add n m)"
    and remove_inv: "inv m \<Longrightarrow> inv (remove n m)"
    and lookup_add: "inv m \<Longrightarrow>
      lookup (add n m) k = (if k \<in> ks n then insert (ident n) (lookup m k) else lookup m k)"
    and lookup_remove: "inv m \<Longrightarrow>
      lookup (remove n m) k = (if k \<in> ks n then lookup m k - {ident n} else lookup m k)"
begin

lemma index_put_filed:
  assumes "inv m" "\<forall>k. lookup m k = filed ks recs k" "keyed ident recs"
  shows "inv (index_put add remove ident recs n m)"
    and "\<forall>k. lookup (index_put add remove ident recs n m) k = filed ks (recs(ident n \<mapsto> n)) k"
proof -
  show "inv (index_put add remove ident recs n m)"
    using assms by (auto simp: index_put_def add_inv remove_inv split: option.split)
  show "\<forall>k. lookup (index_put add remove ident recs n m) k = filed ks (recs(ident n \<mapsto> n)) k"
  proof (cases "recs (ident n)")
    case None
    with assms show ?thesis by (auto simp: index_put_def lookup_add filed_def)
  next
    case (Some old)
    with assms(3) have "ident old = ident n" by (auto simp: keyed_def)
    with Some assms show ?thesis
      by (auto simp: index_put_def lookup_add lookup_remove remove_inv filed_def)
  qed
qed

lemma index_del_filed:
  assumes "inv m" "\<forall>k. lookup m k = filed ks recs k" "keyed ident recs"
  shows "inv (index_del remove recs i m)"
    and "\<forall>k. lookup (index_del remove recs i m) k = filed ks (recs(i := None)) k"
proof -
  show "inv (index_del remove recs i m)"
    using assms by (auto simp: index_del_def remove_inv split: option.split)
  show "\<forall>k. lookup (index_del remove recs i m) k = filed ks (recs(i := None)) k"
  proof (cases "recs i")
    case None
    with assms show ?thesis by (auto simp: index_del_def filed_def)
  next
    case (Some old)
    with assms(3) have "ident old = i" by (auto simp: keyed_def)
    with Some assms show ?thesis
      by (auto simp: index_del_def lookup_remove filed_def)
  qed
qed

end

section \<open>Maps of sets\<close>

definition set_lookup :: "('k \<rightharpoonup> 'e set) \<Rightarrow> 'k \<Rightarrow> 'e set" where
  "set_lookup m k = (case m k of None \<Rightarrow> {} | Some s \<Rightarrow> s)"

lemma set_lookup_empty [simp]: "set_lookup Map.empty k = {}"
  by (simp add: set_lookup_def)

lemma set_lookup_ensure [simp]:
  "set_lookup (ensureEdgeSet k e m) k' = (if k' = k then insert e (set_lookup m k) else set_lookup m k')"
  by (auto simp: set_lookup_def ensureEdgeSet_def split: option.split)

lemma set_lookup_delete [simp]:
  "set_lookup (deleteEdgeID k e m) k' = (if k' = k then set_lookup m k - {e} else set_lookup m k')"
  by (auto simp: set_lookup_def deleteEdgeID_def split: option.split)

lemma set_lookup_fold_ensure:
  "set_lookup (fold (\<lambda>k. ensureEdgeSet k e) ks m) k =
     (if k \<in> set ks then insert e (set_lookup m k) else set_lookup m k)"
  by (induction ks arbitrary: m) auto

lemma set_lookup_fold_delete:
  "set_lookup (fold (\<lambda>k. deleteEdgeID k e) ks m) k =
     (if k \<in> set ks then set_lookup m k - {e} else set_lookup m k)"
  by (induction ks arbitrary: m) auto

text \<open>Two-level maps of sets (domain, then label or tag), emptied levels removed.\<close>

definition set2_lookup :: "('d \<rightharpoonup> ('k \<rightharpoonup> 'e set)) \<Rightarrow> 'd \<times> 'k \<Rightarrow> 'e set" where
  "set2_lookup m dk = (case m (fst dk) of None \<Rightarrow> {} | Some bl \<Rightarrow> set_lookup bl (snd dk))"

definition set2_add :: "'d \<Rightarrow> 'k list \<Rightarrow> 'e \<Rightarrow> ('d \<rightharpoonup> ('k \<rightharpoonup> 'e set)) \<Rightarrow> 'd \<rightharpoonup> ('k \<rightharpoonup> 'e set)" where
  "set2_add d ks e m =
     m(d \<mapsto> fold (\<lambda>k. ensureEdgeSet k e) ks (case m d of None \<Rightarrow> Map.empty | Some bl \<Rightarrow> bl))"

definition set2_remove :: "'d \<Rightarrow> 'k list \<Rightarrow> 'e \<Rightarrow> ('d \<rightharpoonup> ('k \<rightharpoonup> 'e set)) \<Rightarrow> 'd \<rightharpoonup> ('k \<rightharpoonup> 'e set)" where
  "set2_remove d ks e m =
     (case m d of
        None \<Rightarrow> m
      | Some bl \<Rightarrow>
          (let bl' = fold (\<lambda>k. deleteEdgeID k e) ks bl
           in if dom bl' = {} then m(d := None) else m(d \<mapsto> bl')))"

lemma set2_lookup_add:
  "set2_lookup (set2_add d ks e m) dk =
     (if fst dk = d \<and> snd dk \<in> set ks then insert e (set2_lookup m dk) else set2_lookup m dk)"
  by (auto simp: set2_lookup_def set2_add_def set_lookup_fold_ensure split: option.split)

lemma set2_lookup_remove:
  "set2_lookup (set2_remove d ks e m) dk =
     (if fst dk = d \<and> snd dk \<in> set ks then set2_lookup m dk - {e} else set2_lookup m dk)"
proof (cases "m d")
  case (Some bl)
  let ?bl = "fold (\<lambda>k. deleteEdgeID k e) ks bl"
  have "set_lookup ?bl k = {}" if "dom ?bl = {}" for k
    using that by (simp add: set_lookup_def)
  with Some show ?thesis
    using set_lookup_fold_delete [of e ks bl "snd dk"]
    by (auto simp: set2_lookup_def set2_remove_def Let_def)
qed (auto simp: set2_lookup_def set2_remove_def)

section \<open>Maps of trees\<close>

definition tree_lookup :: "('d \<rightharpoonup> ('k, 'v) otree) \<Rightarrow> 'd \<Rightarrow> ('k, 'v) otree" where
  "tree_lookup m d = (case m d of None \<Rightarrow> OLeaf | Some t \<Rightarrow> t)"

definition uuid_trees_inv :: "('d \<rightharpoonup> (uuid, unit) otree) \<Rightarrow> bool" where
  "uuid_trees_inv m \<longleftrightarrow> (\<forall>d t. m d = Some t \<longrightarrow> otree_inv (<) uuid_prio t)"

definition order_put :: "'d \<Rightarrow> uuid \<Rightarrow> ('d \<rightharpoonup> (uuid, unit) otree) \<Rightarrow> 'd \<rightharpoonup> (uuid, unit) otree" where
  "order_put d i m = m(d \<mapsto> tree_put (<) uuid_prio i () (tree_lookup m d))"

definition order_delete :: "'d \<Rightarrow> uuid \<Rightarrow> ('d \<rightharpoonup> (uuid, unit) otree) \<Rightarrow> 'd \<rightharpoonup> (uuid, unit) otree" where
  "order_delete d i m = (case m d of None \<Rightarrow> m | Some t \<Rightarrow> m(d \<mapsto> tree_delete (<) i t))"

definition order_lookup :: "('d \<rightharpoonup> (uuid, unit) otree) \<Rightarrow> 'd \<Rightarrow> uuid set" where
  "order_lookup m d = fst ` set (entries (tree_lookup m d))"

lemma otree_inv_OLeaf [simp]: "otree_inv lt pr OLeaf"
  by (simp add: otree_inv_def)

lemma uuid_trees_lookup: "uuid_trees_inv m \<Longrightarrow> otree_inv (<) uuid_prio (tree_lookup m d)"
  by (auto simp: uuid_trees_inv_def tree_lookup_def split: option.split)

lemma order_put_inv: "uuid_trees_inv m \<Longrightarrow> uuid_trees_inv (order_put d i m)"
  using uuid_tree.otree_inv_put [OF uuid_trees_lookup] by (auto simp: uuid_trees_inv_def order_put_def)

lemma order_delete_inv: "uuid_trees_inv m \<Longrightarrow> uuid_trees_inv (order_delete d i m)"
  using uuid_tree.otree_inv_delete
  by (auto simp: uuid_trees_inv_def order_delete_def split: option.split)

lemma order_lookup_put:
  assumes "uuid_trees_inv m"
  shows "order_lookup (order_put d i m) d' = (if d' = d then insert i (order_lookup m d) else order_lookup m d')"
proof -
  let ?t = "tree_lookup m d"
  have "otree_inv (<) uuid_prio ?t" using assms by (rule uuid_trees_lookup)
  then have "fst ` set (entries (tree_put (<) uuid_prio i () ?t)) = insert i (fst ` set (entries ?t))"
    using uuid_tree.entries_put [of ?t i "()"] uuid_tree.set_ins_entry by (simp add: otree_inv_def)
  then show ?thesis by (simp add: order_lookup_def order_put_def tree_lookup_def)
qed

lemma order_lookup_delete:
  assumes "uuid_trees_inv m"
  shows "order_lookup (order_delete d i m) d' = (if d' = d then order_lookup m d - {i} else order_lookup m d')"
proof (cases "m d")
  case (Some t)
  then have "otree_inv (<) uuid_prio t" using assms by (auto simp: uuid_trees_inv_def)
  then have "entries (tree_delete (<) i t) = filter (\<lambda>e. fst e \<noteq> i) (entries t)"
    by (auto simp: otree_inv_def uuid_tree.entries_delete)
  with Some show ?thesis by (auto simp: order_lookup_def order_delete_def tree_lookup_def)
qed (auto simp: order_lookup_def order_delete_def tree_lookup_def)

end
