(* ===== verification/Entity_History.thy ===== *)
theory Entity_History
  imports Mycel_Prelude
begin

text \<open>
  The version history of an entity (\<open>appendEntityVersion\<close>, \<open>appendEntityTombstone\<close> and
  \<open>entityAtRevision\<close> of \<open>internal/graph/storage/store.go\<close>), for nodes and edges alike: revision-pinned
  reads search it. The lemmas show that the binary search finds the newest version at or below the
  revision, that later commits do not change what an older revision reads, and that the newest
  version is the live record.
\<close>

record RecordLocation =
  rl_Segment :: string
  rl_Offset :: int
  rl_Length :: u32

text \<open>\<open>entityVersion\<close>: a tombstone carries no entity.\<close>

datatype 'e entityVersion = Version u64 'e | Tombstone u64

primrec ev_Revision :: "'e entityVersion \<Rightarrow> u64" where
  "ev_Revision (Version r e) = r"
| "ev_Revision (Tombstone r) = r"

primrec ev_Entity :: "'e entityVersion \<Rightarrow> 'e option" where
  "ev_Entity (Version r e) = Some e"
| "ev_Entity (Tombstone r) = None"

definition appendEntityVersion ::
  "uuid \<Rightarrow> 'e \<Rightarrow> u64 \<Rightarrow> (uuid \<Rightarrow> 'e entityVersion list) \<Rightarrow> uuid \<Rightarrow> 'e entityVersion list" where
  "appendEntityVersion i e rv h = (if rv = 0 then h else h(i := h i @ [Version rv e]))"

definition appendEntityTombstone ::
  "uuid \<Rightarrow> u64 \<Rightarrow> (uuid \<Rightarrow> 'e entityVersion list) \<Rightarrow> uuid \<Rightarrow> 'e entityVersion list" where
  "appendEntityTombstone i rv h = (if rv = 0 then h else h(i := h i @ [Tombstone rv]))"

text \<open>\<open>sort.Search\<close>: the binary search of the standard library.\<close>

function search_from :: "(nat \<Rightarrow> bool) \<Rightarrow> nat \<Rightarrow> nat \<Rightarrow> nat" where
  "search_from f i j =
     (if i < j then let h = (i + j) div 2 in if f h then search_from f i h else search_from f (h + 1) j
      else i)"
  by pat_completeness auto
termination by (relation "measure (\<lambda>(f, i, j). j - i)") auto

declare search_from.simps [simp del]

definition sort_Search :: "nat \<Rightarrow> (nat \<Rightarrow> bool) \<Rightarrow> nat" where
  "sort_Search n f = search_from f 0 n"

definition entityAtRevision :: "'e entityVersion list \<Rightarrow> u64 \<Rightarrow> 'e option" where
  "entityAtRevision vs rv =
     (case sort_Search (length vs) (\<lambda>i. ev_Revision (vs ! i) > rv) of
        0 \<Rightarrow> None
      | Suc idx \<Rightarrow> ev_Entity (vs ! idx))"

section \<open>Binary search\<close>

lemma search_from_spec:
  assumes "i \<le> j" "j \<le> n" "\<forall>x < i. \<not> f x" "\<forall>x. j \<le> x \<and> x < n \<longrightarrow> f x"
    and "\<And>x y. x \<le> y \<Longrightarrow> y < n \<Longrightarrow> f x \<Longrightarrow> f y"
  shows "(\<forall>x < search_from f i j. \<not> f x) \<and> (\<forall>x. search_from f i j \<le> x \<and> x < n \<longrightarrow> f x) \<and>
    search_from f i j \<le> j"
  using assms(1-4)
proof (induction "j - i" arbitrary: i j rule: less_induct)
  case less
  show ?case
  proof (cases "i < j")
    case True
    let ?h = "(i + j) div 2"
    have h: "i \<le> ?h" "?h < j" using True by auto
    show ?thesis
    proof (cases "f ?h")
      case fh: True
      have "\<forall>x. ?h \<le> x \<and> x < n \<longrightarrow> f x" using assms(5) fh by blast
      with less(1) [of ?h i] less(2-4) h True have
        "(\<forall>x < search_from f i ?h. \<not> f x) \<and> (\<forall>x. search_from f i ?h \<le> x \<and> x < n \<longrightarrow> f x) \<and>
         search_from f i ?h \<le> ?h" by auto
      moreover have "search_from f i j = search_from f i ?h"
        using True fh by (subst search_from.simps) (simp add: Let_def)
      ultimately show ?thesis using h by auto
    next
      case fh: False
      have "?h < n" using h less(3) by simp
      then have "\<not> f x" if "x < ?h + 1" for x using assms(5) [of x ?h] fh that by auto
      then have "\<forall>x < ?h + 1. \<not> f x" by blast
      with less(1) [of j "?h + 1"] less(2-5) h True have
        "(\<forall>x < search_from f (?h + 1) j. \<not> f x) \<and> (\<forall>x. search_from f (?h + 1) j \<le> x \<and> x < n \<longrightarrow> f x) \<and>
         search_from f (?h + 1) j \<le> j" by auto
      moreover have "search_from f i j = search_from f (?h + 1) j"
        using True fh by (subst search_from.simps) (simp add: Let_def)
      ultimately show ?thesis by simp
    qed
  next
    case False
    then have "search_from f i j = i" by (subst search_from.simps) simp
    moreover have "i = j" using False less(2) by simp
    ultimately show ?thesis using less by auto
  qed
qed

lemma sort_Search_spec:
  assumes "\<And>x y. x \<le> y \<Longrightarrow> y < n \<Longrightarrow> f x \<Longrightarrow> f y"
  shows "(\<forall>x < sort_Search n f. \<not> f x) \<and> (\<forall>x. sort_Search n f \<le> x \<and> x < n \<longrightarrow> f x) \<and> sort_Search n f \<le> n"
  unfolding sort_Search_def
proof (rule search_from_spec)
  show "x \<le> y \<Longrightarrow> y < n \<Longrightarrow> f x \<Longrightarrow> f y" for x y by (rule assms)
qed auto

section \<open>Reading a revision\<close>

definition versions_sorted :: "'e entityVersion list \<Rightarrow> bool" where
  "versions_sorted vs \<longleftrightarrow> sorted (map ev_Revision vs)"

definition latest :: "'e entityVersion list \<Rightarrow> 'e option" where
  "latest vs = (if vs = [] then None else ev_Entity (last vs))"

lemma latest_snoc [simp]: "latest (vs @ [v]) = ev_Entity v"
  by (simp add: latest_def)

lemma take_sort_Search:
  fixes r :: u64
  assumes "versions_sorted vs"
  defines "k \<equiv> sort_Search (length vs) (\<lambda>i. ev_Revision (vs ! i) > r)"
  shows "take k vs = filter (\<lambda>v. ev_Revision v \<le> r) vs" "k \<le> length vs"
proof -
  have "ev_Revision (vs ! x) \<le> ev_Revision (vs ! y)" if "x \<le> y" "y < length vs" for x y
    using assms(1) that sorted_nth_mono [of "map ev_Revision vs" x y] by (simp add: versions_sorted_def)
  then have spec: "(\<forall>x < k. \<not> ev_Revision (vs ! x) > r) \<and>
      (\<forall>x. k \<le> x \<and> x < length vs \<longrightarrow> ev_Revision (vs ! x) > r) \<and> k \<le> length vs"
    unfolding k_def by (intro sort_Search_spec) (meson order_less_le_trans)
  then show "k \<le> length vs" by simp
  have "filter (\<lambda>v. ev_Revision v \<le> r) (take k vs) = take k vs"
    using spec by (intro filter_True) (auto simp: in_set_conv_nth linorder_not_less)
  moreover have "filter (\<lambda>v. ev_Revision v \<le> r) (drop k vs) = []"
  proof -
    have "ev_Revision v > r" if v: "v \<in> set (drop k vs)" for v
    proof -
      obtain m where "m < length vs - k" "v = vs ! (k + m)"
        using v by (auto simp: in_set_conv_nth)
      with spec show ?thesis by auto
    qed
    then show ?thesis by (auto simp: filter_empty_conv linorder_not_le)
  qed
  ultimately show "take k vs = filter (\<lambda>v. ev_Revision v \<le> r) vs"
    by (metis append_Nil2 append_take_drop_id filter_append)
qed

lemma entityAtRevision_latest:
  assumes "versions_sorted vs"
  shows "entityAtRevision vs r = latest (filter (\<lambda>v. ev_Revision v \<le> r) vs)"
proof -
  define k where "k = sort_Search (length vs) (\<lambda>i. ev_Revision (vs ! i) > r)"
  note t = take_sort_Search [OF assms, of r, folded k_def]
  show ?thesis
  proof (cases k)
    case 0
    with t(1) have "filter (\<lambda>v. ev_Revision v \<le> r) vs = []" by simp
    then show ?thesis using 0 by (simp add: entityAtRevision_def k_def [symmetric] latest_def)
  next
    case (Suc m)
    with t(2) have "take k vs = take m vs @ [vs ! m]" by (simp add: take_Suc_conv_app_nth)
    with t(1) Suc show ?thesis
      unfolding entityAtRevision_def k_def [symmetric] latest_def by (metis last_snoc nat.case(2) snoc_eq_iff_butlast)
  qed
qed

text \<open>Versions written at a later revision are invisible to an older read.\<close>

lemma entityAtRevision_append:
  assumes "versions_sorted (vs @ ws)" "\<forall>w \<in> set ws. r < ev_Revision w"
  shows "entityAtRevision (vs @ ws) r = entityAtRevision vs r"
proof -
  have "filter (\<lambda>v. ev_Revision v \<le> r) ws = []" using assms(2) by (auto simp: filter_empty_conv)
  moreover have "versions_sorted vs" using assms(1) by (simp add: versions_sorted_def sorted_append)
  ultimately show ?thesis using assms by (simp add: entityAtRevision_latest)
qed

lemma entityAtRevision_newest:
  assumes "versions_sorted vs" "\<forall>v \<in> set vs. ev_Revision v \<le> r"
  shows "entityAtRevision vs r = latest vs"
proof -
  have "filter (\<lambda>v. ev_Revision v \<le> r) vs = vs" using assms(2) by (intro filter_True) auto
  with assms(1) show ?thesis by (simp add: entityAtRevision_latest)
qed

section \<open>Operations on entities\<close>

text \<open>The record operations of one commit, in the order of the segment: puts, then deletions.\<close>

datatype 'e entity_op = OpPut 'e RecordLocation | OpDel uuid RecordLocation

primrec op_id :: "('e \<Rightarrow> uuid) \<Rightarrow> 'e entity_op \<Rightarrow> uuid" where
  "op_id ident (OpPut e loc) = ident e"
| "op_id ident (OpDel i loc) = i"

primrec op_records :: "('e \<Rightarrow> uuid) \<Rightarrow> 'e entity_op \<Rightarrow> (uuid \<rightharpoonup> 'e) \<Rightarrow> uuid \<rightharpoonup> 'e" where
  "op_records ident (OpPut e loc) m = m(ident e \<mapsto> e)"
| "op_records ident (OpDel i loc) m = m(i := None)"

primrec op_history ::
  "('e \<Rightarrow> uuid) \<Rightarrow> u64 \<Rightarrow> 'e entity_op \<Rightarrow> (uuid \<Rightarrow> 'e entityVersion list) \<Rightarrow> uuid \<Rightarrow> 'e entityVersion list" where
  "op_history ident rv (OpPut e loc) h = appendEntityVersion (ident e) e rv h"
| "op_history ident rv (OpDel i loc) h = appendEntityTombstone i rv h"

definition history_ok :: "(uuid \<rightharpoonup> 'e) \<Rightarrow> (uuid \<Rightarrow> 'e entityVersion list) \<Rightarrow> u64 \<Rightarrow> bool" where
  "history_ok recs h rv \<longleftrightarrow>
     (\<forall>i. versions_sorted (h i) \<and> (\<forall>v \<in> set (h i). ev_Revision v \<le> rv) \<and> latest (h i) = recs i)"

lemma op_history_extends:
  "rv \<noteq> 0 \<Longrightarrow> \<exists>ws. op_history ident rv op h i = h i @ ws \<and> (\<forall>w \<in> set ws. ev_Revision w = rv)"
  by (cases op) (auto simp: appendEntityVersion_def appendEntityTombstone_def)

lemma fold_op_history_extends:
  assumes "rv \<noteq> 0"
  shows "\<exists>ws. fold (op_history ident rv) ops h i = h i @ ws \<and> (\<forall>w \<in> set ws. ev_Revision w = rv)"
proof (induction ops arbitrary: h)
  case (Cons op ops)
  obtain us where us: "op_history ident rv op h i = h i @ us" "\<forall>w \<in> set us. ev_Revision w = rv"
    using op_history_extends [OF assms] by blast
  obtain ws where ws: "fold (op_history ident rv) ops (op_history ident rv op h) i = op_history ident rv op h i @ ws"
    "\<forall>w \<in> set ws. ev_Revision w = rv"
    using Cons by blast
  with us show ?case by (intro exI [of _ "us @ ws"]) auto
qed simp

lemma latest_op_history:
  assumes "rv \<noteq> 0" "\<forall>i. latest (h i) = recs i"
  shows "\<forall>i. latest (op_history ident rv op h i) = op_records ident op recs i"
  using assms by (cases op) (auto simp: appendEntityVersion_def appendEntityTombstone_def)

lemma latest_fold_op_history:
  assumes "rv \<noteq> 0" "\<forall>i. latest (h i) = recs i"
  shows "\<forall>i. latest (fold (op_history ident rv) ops h i) = fold (op_records ident) ops recs i"
  using assms(2)
proof (induction ops arbitrary: h recs)
  case (Cons op ops)
  then have "\<forall>i. latest (op_history ident rv op h i) = op_records ident op recs i"
    by (intro latest_op_history assms(1))
  with Cons(1) show ?case by simp
qed simp

lemma versions_sorted_extend:
  assumes "versions_sorted vs" "\<forall>v \<in> set vs. ev_Revision v \<le> r" "r \<le> rv" "\<forall>w \<in> set ws. ev_Revision w = rv"
  shows "versions_sorted (vs @ ws)"
proof -
  have "map ev_Revision ws = replicate (length ws) rv"
    using assms(4) by (induction ws) auto
  moreover have "sorted (replicate k rv)" for k :: nat by (induction k) auto
  ultimately show ?thesis
    using assms by (fastforce simp: versions_sorted_def sorted_append)
qed

lemma history_ok_commit:
  assumes ok: "history_ok recs h r" and rv: "r < rv"
  shows "history_ok (fold (op_records ident) ops recs) (fold (op_history ident rv) ops h) rv"
    and "\<And>i r'. r' \<le> r \<Longrightarrow> entityAtRevision (fold (op_history ident rv) ops h i) r' = entityAtRevision (h i) r'"
proof -
  have nz: "rv \<noteq> 0" using rv by auto
  have ext: "\<exists>ws. fold (op_history ident rv) ops h i = h i @ ws \<and> (\<forall>w \<in> set ws. ev_Revision w = rv)" for i
    using fold_op_history_extends [OF nz] .
  have h: "versions_sorted (h i)" "\<forall>v \<in> set (h i). ev_Revision v \<le> r" "latest (h i) = recs i" for i
    using ok by (auto simp: history_ok_def)
  have srt: "versions_sorted (h i @ ws)" if "\<forall>w \<in> set ws. ev_Revision w = rv" for i ws
    using versions_sorted_extend [OF h(1,2) _ that] rv by simp
  show "history_ok (fold (op_records ident) ops recs) (fold (op_history ident rv) ops h) rv"
    unfolding history_ok_def
  proof (intro allI conjI)
    fix i
    obtain ws where ws: "fold (op_history ident rv) ops h i = h i @ ws" "\<forall>w \<in> set ws. ev_Revision w = rv"
      using ext by blast
    show "versions_sorted (fold (op_history ident rv) ops h i)" using srt ws by simp
    show "\<forall>v \<in> set (fold (op_history ident rv) ops h i). ev_Revision v \<le> rv"
      using ws h(2) [of i] rv by (auto intro: order_trans less_imp_le)
    show "latest (fold (op_history ident rv) ops h i) = fold (op_records ident) ops recs i"
      using latest_fold_op_history [OF nz, of h recs] h(3) by blast
  qed
  fix i r' assume r': "r' \<le> r"
  obtain ws where ws: "fold (op_history ident rv) ops h i = h i @ ws" "\<forall>w \<in> set ws. ev_Revision w = rv"
    using ext by blast
  have "\<forall>w \<in> set ws. r' < ev_Revision w" using ws(2) r' rv by auto
  with srt [OF ws(2)] show "entityAtRevision (fold (op_history ident rv) ops h i) r' = entityAtRevision (h i) r'"
    unfolding ws(1) by (intro entityAtRevision_append)
qed

end
