(* ===== verification/Graph_Nodes.thy ===== *)
theory Graph_Nodes
  imports Derived_Index Entity_History
begin

text \<open>
  The node side of the graph store: the fields of \<open>LocalStore\<close> that hold nodes, their derived indexes
  and their history, and the functions that maintain them (\<open>internal/graph/storage/store.go\<close> and
  \<open>index_maintenance.go\<close>). The text form of identifiers and the configured property indexes are the
  two things these functions read besides the node state: the fields of \<open>store_cfg\<close>.
\<close>

record index_def =
  id_Name :: string
  id_TargetKind :: string
  id_TargetType :: string
  id_Labels :: "string list"
  id_Namespace :: string
  id_Field :: string
  id_Kind :: string
  id_Direction :: string
  id_Unique :: bool
  id_Required :: bool

definition IndexTargetNode :: string where "IndexTargetNode = ''node''"
definition IndexTargetEdge :: string where "IndexTargetEdge = ''edge''"

record store_cfg =
  cf_String :: "uuid \<Rightarrow> string"
  cf_Parse :: "string \<Rightarrow> uuid option"
  cf_Indexes :: "domain_id \<Rightarrow> index_def list"

record NodeMeta =
  nm_ID :: node_id
  nm_DomainID :: domain_id
  nm_Deleted :: bool
  nm_Location :: RecordLocation

record node_prop_entry =
  np_NodeID :: node_id
  np_Value :: gval
  np_Key :: string

record node_state =
  ns_records :: "node_id \<rightharpoonup> node"
  ns_meta :: "node_id \<rightharpoonup> NodeMeta"
  ns_byDomain :: "domain_id \<rightharpoonup> node_id set"
  ns_currentOrder :: "domain_id \<rightharpoonup> (node_id, unit) otree"
  ns_historyOrder :: "domain_id \<rightharpoonup> (node_id, unit) otree"
  ns_label :: "domain_id \<rightharpoonup> (string \<rightharpoonup> node_id set)"
  ns_tag :: "domain_id \<rightharpoonup> (string \<rightharpoonup> node_id set)"
  ns_propIndex :: "string \<rightharpoonup> (string \<rightharpoonup> node_prop_entry)"
  ns_propOrder :: "string \<rightharpoonup> (string, node_prop_entry) otree"
  ns_histPropOrder :: "string \<rightharpoonup> (string, node_id) otree"
  ns_journalDay :: "u64 \<rightharpoonup> node_id set"
  ns_blobRefs :: "blob_id \<rightharpoonup> node_id set"
  ns_history :: "node_id \<Rightarrow> node entityVersion list"
  ns_modRev :: "node_id \<Rightarrow> u64"

definition empty_node_state :: node_state where
  "empty_node_state =
     \<lparr>ns_records = Map.empty, ns_meta = Map.empty, ns_byDomain = Map.empty,
      ns_currentOrder = Map.empty, ns_historyOrder = Map.empty, ns_label = Map.empty,
      ns_tag = Map.empty, ns_propIndex = Map.empty, ns_propOrder = Map.empty,
      ns_histPropOrder = Map.empty, ns_journalDay = Map.empty, ns_blobRefs = Map.empty,
      ns_history = (\<lambda>_. []), ns_modRev = (\<lambda>_. 0)\<rparr>"

section \<open>Label, tag, domain, journal and blob indexes\<close>

definition addNodeLabelIndexes :: "node \<Rightarrow> (domain_id \<rightharpoonup> (string \<rightharpoonup> node_id set)) \<Rightarrow> domain_id \<rightharpoonup> (string \<rightharpoonup> node_id set)" where
  "addNodeLabelIndexes n m =
     (if n_DomainID n = 0 then m
      else set2_add (n_DomainID n) (filter (\<lambda>l. l \<noteq> []) (n_Labels n)) (n_ID n) m)"

definition removeNodeLabelIndexes :: "node \<Rightarrow> (domain_id \<rightharpoonup> (string \<rightharpoonup> node_id set)) \<Rightarrow> domain_id \<rightharpoonup> (string \<rightharpoonup> node_id set)" where
  "removeNodeLabelIndexes n m = set2_remove (n_DomainID n) (n_Labels n) (n_ID n) m"

definition tagsForStorageIndex :: "node \<Rightarrow> string list" where
  "tagsForStorageIndex n =
     (let v = mget (n_Properties n) NodePropTags;
          v' = (if v = VNil then mget (n_Props n) NodePropTags else v)
      in case NormalizeTagsValue v' of None \<Rightarrow> [] | Some tags \<Rightarrow> tags)"

definition addNodeTagIndexes :: "node \<Rightarrow> (domain_id \<rightharpoonup> (string \<rightharpoonup> node_id set)) \<Rightarrow> domain_id \<rightharpoonup> (string \<rightharpoonup> node_id set)" where
  "addNodeTagIndexes n m =
     (if n_DomainID n = 0 then m else set2_add (n_DomainID n) (tagsForStorageIndex n) (n_ID n) m)"

definition removeNodeTagIndexes :: "node \<Rightarrow> (domain_id \<rightharpoonup> (string \<rightharpoonup> node_id set)) \<Rightarrow> domain_id \<rightharpoonup> (string \<rightharpoonup> node_id set)" where
  "removeNodeTagIndexes n m = set2_remove (n_DomainID n) (tagsForStorageIndex n) (n_ID n) m"

definition propsForIndex :: "node \<Rightarrow> props" where
  "propsForIndex n = (if n_Properties n = [] then n_Props n else n_Properties n)"

definition journal_day :: "node \<Rightarrow> u64 option" where
  "journal_day n = numberPropInt (mget (propsForIndex n) ''journal_day'')"

definition add_journal :: "node \<Rightarrow> (u64 \<rightharpoonup> node_id set) \<Rightarrow> u64 \<rightharpoonup> node_id set" where
  "add_journal n m = (case journal_day n of None \<Rightarrow> m | Some d \<Rightarrow> ensureEdgeSet d (n_ID n) m)"

text \<open>An emptied day keeps its empty set.\<close>

definition remove_journal :: "node \<Rightarrow> (u64 \<rightharpoonup> node_id set) \<Rightarrow> u64 \<rightharpoonup> node_id set" where
  "remove_journal n m =
     (case journal_day n of
        None \<Rightarrow> m
      | Some d \<Rightarrow> (case m d of None \<Rightarrow> m | Some s \<Rightarrow> m(d \<mapsto> s - {n_ID n})))"

definition add_blob :: "node \<Rightarrow> (blob_id \<rightharpoonup> node_id set) \<Rightarrow> blob_id \<rightharpoonup> node_id set" where
  "add_blob n m = (case n_BlobRef n of None \<Rightarrow> m | Some b \<Rightarrow> ensureEdgeSet b (n_ID n) m)"

definition remove_blob :: "node \<Rightarrow> (blob_id \<rightharpoonup> node_id set) \<Rightarrow> blob_id \<rightharpoonup> node_id set" where
  "remove_blob n m = (case n_BlobRef n of None \<Rightarrow> m | Some b \<Rightarrow> deleteEdgeID b (n_ID n) m)"

definition add_domain :: "node \<Rightarrow> (domain_id \<rightharpoonup> node_id set) \<Rightarrow> domain_id \<rightharpoonup> node_id set" where
  "add_domain n m = (if n_DomainID n = 0 then m else ensureEdgeSet (n_DomainID n) (n_ID n) m)"

definition remove_domain :: "node \<Rightarrow> (domain_id \<rightharpoonup> node_id set) \<Rightarrow> domain_id \<rightharpoonup> node_id set" where
  "remove_domain n m = (if n_DomainID n = 0 then m else deleteEdgeID (n_DomainID n) (n_ID n) m)"

definition add_order :: "node \<Rightarrow> (domain_id \<rightharpoonup> (node_id, unit) otree) \<Rightarrow> domain_id \<rightharpoonup> (node_id, unit) otree" where
  "add_order n m = (if n_DomainID n = 0 then m else order_put (n_DomainID n) (n_ID n) m)"

definition remove_order :: "node \<Rightarrow> (domain_id \<rightharpoonup> (node_id, unit) otree) \<Rightarrow> domain_id \<rightharpoonup> (node_id, unit) otree" where
  "remove_order n m = (if n_DomainID n = 0 then m else order_delete (n_DomainID n) (n_ID n) m)"

section \<open>Property indexes\<close>

definition nodeHasAnyLabel :: "node \<Rightarrow> string list \<Rightarrow> bool" where
  "nodeHasAnyLabel n labels \<longleftrightarrow> list_ex (\<lambda>l. l \<in> set (n_Labels n)) labels"

datatype index_error = IxUnsupported

definition nodePropertyIndexEntry ::
  "store_cfg \<Rightarrow> node \<Rightarrow> index_def \<Rightarrow> index_error + node_prop_entry option" where
  "nodePropertyIndexEntry cfg n idx =
     (if id_TargetKind idx \<noteq> IndexTargetNode \<or> \<not> nodeHasAnyLabel n (id_Labels idx) then Inr None
      else
        (let v = (case Property n (id_Field idx) of None \<Rightarrow> VNil | Some v \<Rightarrow> v) in
         if v = VNil then (if id_Required idx then Inl IxUnsupported else Inr None)
         else (case encodeOrderedNodeKey (cf_String cfg) v (n_ID n) of
                 None \<Rightarrow> Inl IxUnsupported
               | Some k \<Rightarrow> Inr (Some \<lparr>np_NodeID = n_ID n, np_Value = v, np_Key = k\<rparr>))))"

definition validateNodeIndexes :: "store_cfg \<Rightarrow> node \<Rightarrow> index_error option" where
  "validateNodeIndexes cfg n =
     (case find (\<lambda>idx. case nodePropertyIndexEntry cfg n idx of Inl _ \<Rightarrow> True | Inr _ \<Rightarrow> False)
             (cf_Indexes cfg (n_DomainID n)) of
        None \<Rightarrow> None | Some _ \<Rightarrow> Some IxUnsupported)"

definition addNodePropertyIndexEntry :: "store_cfg \<Rightarrow> node \<Rightarrow> index_def \<Rightarrow> node_state \<Rightarrow> node_state" where
  "addNodePropertyIndexEntry cfg n idx st =
     (case nodePropertyIndexEntry cfg n idx of
        Inr (Some entry) \<Rightarrow>
          (let ident = indexIdentity (cf_String cfg) (n_DomainID n) (id_Name idx);
               es = (case ns_propIndex st ident of None \<Rightarrow> Map.empty | Some es \<Rightarrow> es)
           in st\<lparr>ns_propIndex := (ns_propIndex st)(ident \<mapsto> es(np_Key entry \<mapsto> entry)),
                 ns_propOrder := (ns_propOrder st)(ident \<mapsto>
                   tree_put (<) string_prio (np_Key entry) entry (tree_lookup (ns_propOrder st) ident)),
                 ns_histPropOrder := (ns_histPropOrder st)(ident \<mapsto>
                   tree_put (<) string_prio (np_Key entry) (n_ID n) (tree_lookup (ns_histPropOrder st) ident))\<rparr>)
      | _ \<Rightarrow> st)"

definition removeNodePropertyIndexEntry :: "store_cfg \<Rightarrow> node \<Rightarrow> index_def \<Rightarrow> node_state \<Rightarrow> node_state" where
  "removeNodePropertyIndexEntry cfg n idx st =
     (case nodePropertyIndexEntry cfg n idx of
        Inr (Some entry) \<Rightarrow>
          (let ident = indexIdentity (cf_String cfg) (n_DomainID n) (id_Name idx)
           in st\<lparr>ns_propIndex := (case ns_propIndex st ident of
                     None \<Rightarrow> ns_propIndex st
                   | Some es \<Rightarrow> (ns_propIndex st)(ident \<mapsto> es(np_Key entry := None))),
                 ns_propOrder := (case ns_propOrder st ident of
                     None \<Rightarrow> ns_propOrder st
                   | Some t \<Rightarrow> (ns_propOrder st)(ident \<mapsto> tree_delete (<) (np_Key entry) t))\<rparr>)
      | _ \<Rightarrow> st)"

section \<open>Puts and deletions\<close>

definition removeNodeIndexes :: "store_cfg \<Rightarrow> node \<Rightarrow> node_state \<Rightarrow> node_state" where
  "removeNodeIndexes cfg n st =
     (let st1 = (if n_DomainID n = 0 then st
                 else fold (removeNodePropertyIndexEntry cfg n) (cf_Indexes cfg (n_DomainID n))
                   (st\<lparr>ns_byDomain := remove_domain n (ns_byDomain st),
                       ns_currentOrder := remove_order n (ns_currentOrder st),
                       ns_label := removeNodeLabelIndexes n (ns_label st),
                       ns_tag := removeNodeTagIndexes n (ns_tag st)\<rparr>))
      in st1\<lparr>ns_journalDay := remove_journal n (ns_journalDay st1),
             ns_blobRefs := remove_blob n (ns_blobRefs st1)\<rparr>)"

definition applyNodePut :: "store_cfg \<Rightarrow> node \<Rightarrow> RecordLocation \<Rightarrow> node_state \<Rightarrow> node_state" where
  "applyNodePut cfg n loc st0 =
     (let st1 = (case ns_records st0 (n_ID n) of None \<Rightarrow> st0 | Some old \<Rightarrow> removeNodeIndexes cfg old st0);
          st2 = st1\<lparr>ns_records := (ns_records st1)(n_ID n \<mapsto> cloneNode n),
                    ns_meta := (ns_meta st1)(n_ID n \<mapsto>
                      \<lparr>nm_ID = n_ID n, nm_DomainID = n_DomainID n, nm_Deleted = False, nm_Location = loc\<rparr>)\<rparr>;
          st3 = (if n_DomainID n = 0 then st2
                 else fold (addNodePropertyIndexEntry cfg n) (cf_Indexes cfg (n_DomainID n))
                   (st2\<lparr>ns_byDomain := add_domain n (ns_byDomain st2),
                        ns_currentOrder := add_order n (ns_currentOrder st2),
                        ns_historyOrder := add_order n (ns_historyOrder st2),
                        ns_label := addNodeLabelIndexes n (ns_label st2),
                        ns_tag := addNodeTagIndexes n (ns_tag st2)\<rparr>))
      in st3\<lparr>ns_journalDay := add_journal n (ns_journalDay st3),
             ns_blobRefs := add_blob n (ns_blobRefs st3)\<rparr>)"

definition applyNodeDelete :: "store_cfg \<Rightarrow> node_id \<Rightarrow> RecordLocation \<Rightarrow> node_state \<Rightarrow> node_state" where
  "applyNodeDelete cfg i loc st0 =
     (let st1 = (case ns_records st0 i of None \<Rightarrow> st0 | Some old \<Rightarrow> removeNodeIndexes cfg old st0)
      in st1\<lparr>ns_records := (ns_records st1)(i := None),
             ns_meta := (ns_meta st1)(i \<mapsto>
               \<lparr>nm_ID = i, nm_DomainID = 0, nm_Deleted = True, nm_Location = loc\<rparr>)\<rparr>)"

section \<open>History\<close>

definition appendNodeVersion :: "node \<Rightarrow> u64 \<Rightarrow> node_state \<Rightarrow> node_state" where
  "appendNodeVersion n rv st = st\<lparr>ns_history := appendEntityVersion (n_ID n) (cloneNode n) rv (ns_history st)\<rparr>"

definition appendNodeTombstone :: "node_id \<Rightarrow> u64 \<Rightarrow> node_state \<Rightarrow> node_state" where
  "appendNodeTombstone i rv st = st\<lparr>ns_history := appendEntityTombstone i rv (ns_history st)\<rparr>"

definition nodeAtRevision :: "node entityVersion list \<Rightarrow> u64 \<Rightarrow> node option" where
  "nodeAtRevision vs rv = map_option cloneNode (entityAtRevision vs rv)"

section \<open>What a put and a deletion do to each field\<close>

lemma removeProp_fields [simp]:
  "ns_records (removeNodePropertyIndexEntry cfg n i st) = ns_records st"
  "ns_meta (removeNodePropertyIndexEntry cfg n i st) = ns_meta st"
  "ns_byDomain (removeNodePropertyIndexEntry cfg n i st) = ns_byDomain st"
  "ns_currentOrder (removeNodePropertyIndexEntry cfg n i st) = ns_currentOrder st"
  "ns_historyOrder (removeNodePropertyIndexEntry cfg n i st) = ns_historyOrder st"
  "ns_label (removeNodePropertyIndexEntry cfg n i st) = ns_label st"
  "ns_tag (removeNodePropertyIndexEntry cfg n i st) = ns_tag st"
  "ns_journalDay (removeNodePropertyIndexEntry cfg n i st) = ns_journalDay st"
  "ns_blobRefs (removeNodePropertyIndexEntry cfg n i st) = ns_blobRefs st"
  "ns_history (removeNodePropertyIndexEntry cfg n i st) = ns_history st"
  "ns_modRev (removeNodePropertyIndexEntry cfg n i st) = ns_modRev st"
  by (simp_all add: removeNodePropertyIndexEntry_def Let_def split: sum.split option.split)

lemma addProp_fields [simp]:
  "ns_records (addNodePropertyIndexEntry cfg n i st) = ns_records st"
  "ns_meta (addNodePropertyIndexEntry cfg n i st) = ns_meta st"
  "ns_byDomain (addNodePropertyIndexEntry cfg n i st) = ns_byDomain st"
  "ns_currentOrder (addNodePropertyIndexEntry cfg n i st) = ns_currentOrder st"
  "ns_historyOrder (addNodePropertyIndexEntry cfg n i st) = ns_historyOrder st"
  "ns_label (addNodePropertyIndexEntry cfg n i st) = ns_label st"
  "ns_tag (addNodePropertyIndexEntry cfg n i st) = ns_tag st"
  "ns_journalDay (addNodePropertyIndexEntry cfg n i st) = ns_journalDay st"
  "ns_blobRefs (addNodePropertyIndexEntry cfg n i st) = ns_blobRefs st"
  "ns_history (addNodePropertyIndexEntry cfg n i st) = ns_history st"
  "ns_modRev (addNodePropertyIndexEntry cfg n i st) = ns_modRev st"
  by (simp_all add: addNodePropertyIndexEntry_def Let_def split: sum.split option.split)

lemma fold_keeps: "(\<And>x s. f (g x s) = f s) \<Longrightarrow> f (fold g xs s) = f s"
  by (induction xs arbitrary: s) auto

lemma fold_removeProp_fields [simp]:
  "ns_records (fold (removeNodePropertyIndexEntry cfg n) ix st) = ns_records st"
  "ns_meta (fold (removeNodePropertyIndexEntry cfg n) ix st) = ns_meta st"
  "ns_byDomain (fold (removeNodePropertyIndexEntry cfg n) ix st) = ns_byDomain st"
  "ns_currentOrder (fold (removeNodePropertyIndexEntry cfg n) ix st) = ns_currentOrder st"
  "ns_historyOrder (fold (removeNodePropertyIndexEntry cfg n) ix st) = ns_historyOrder st"
  "ns_label (fold (removeNodePropertyIndexEntry cfg n) ix st) = ns_label st"
  "ns_tag (fold (removeNodePropertyIndexEntry cfg n) ix st) = ns_tag st"
  "ns_journalDay (fold (removeNodePropertyIndexEntry cfg n) ix st) = ns_journalDay st"
  "ns_blobRefs (fold (removeNodePropertyIndexEntry cfg n) ix st) = ns_blobRefs st"
  "ns_history (fold (removeNodePropertyIndexEntry cfg n) ix st) = ns_history st"
  "ns_modRev (fold (removeNodePropertyIndexEntry cfg n) ix st) = ns_modRev st"
  by (rule fold_keeps, simp)+

lemma fold_addProp_fields [simp]:
  "ns_records (fold (addNodePropertyIndexEntry cfg n) ix st) = ns_records st"
  "ns_meta (fold (addNodePropertyIndexEntry cfg n) ix st) = ns_meta st"
  "ns_byDomain (fold (addNodePropertyIndexEntry cfg n) ix st) = ns_byDomain st"
  "ns_currentOrder (fold (addNodePropertyIndexEntry cfg n) ix st) = ns_currentOrder st"
  "ns_historyOrder (fold (addNodePropertyIndexEntry cfg n) ix st) = ns_historyOrder st"
  "ns_label (fold (addNodePropertyIndexEntry cfg n) ix st) = ns_label st"
  "ns_tag (fold (addNodePropertyIndexEntry cfg n) ix st) = ns_tag st"
  "ns_journalDay (fold (addNodePropertyIndexEntry cfg n) ix st) = ns_journalDay st"
  "ns_blobRefs (fold (addNodePropertyIndexEntry cfg n) ix st) = ns_blobRefs st"
  "ns_history (fold (addNodePropertyIndexEntry cfg n) ix st) = ns_history st"
  "ns_modRev (fold (addNodePropertyIndexEntry cfg n) ix st) = ns_modRev st"
  by (rule fold_keeps, simp)+

definition label_remove :: "node \<Rightarrow> (domain_id \<rightharpoonup> (string \<rightharpoonup> node_id set)) \<Rightarrow> domain_id \<rightharpoonup> (string \<rightharpoonup> node_id set)" where
  "label_remove n m = (if n_DomainID n = 0 then m else removeNodeLabelIndexes n m)"

definition tag_remove :: "node \<Rightarrow> (domain_id \<rightharpoonup> (string \<rightharpoonup> node_id set)) \<Rightarrow> domain_id \<rightharpoonup> (string \<rightharpoonup> node_id set)" where
  "tag_remove n m = (if n_DomainID n = 0 then m else removeNodeTagIndexes n m)"

lemma removeNodeIndexes_fields [simp]:
  "ns_records (removeNodeIndexes cfg n st) = ns_records st"
  "ns_meta (removeNodeIndexes cfg n st) = ns_meta st"
  "ns_byDomain (removeNodeIndexes cfg n st) = remove_domain n (ns_byDomain st)"
  "ns_currentOrder (removeNodeIndexes cfg n st) = remove_order n (ns_currentOrder st)"
  "ns_historyOrder (removeNodeIndexes cfg n st) = ns_historyOrder st"
  "ns_label (removeNodeIndexes cfg n st) = label_remove n (ns_label st)"
  "ns_tag (removeNodeIndexes cfg n st) = tag_remove n (ns_tag st)"
  "ns_journalDay (removeNodeIndexes cfg n st) = remove_journal n (ns_journalDay st)"
  "ns_blobRefs (removeNodeIndexes cfg n st) = remove_blob n (ns_blobRefs st)"
  "ns_history (removeNodeIndexes cfg n st) = ns_history st"
  "ns_modRev (removeNodeIndexes cfg n st) = ns_modRev st"
  by (simp_all add: removeNodeIndexes_def Let_def remove_domain_def remove_order_def label_remove_def tag_remove_def)

lemma applyNodePut_fields [simp]:
  "ns_records (applyNodePut cfg n loc st) = (ns_records st)(n_ID n \<mapsto> n)"
  "ns_byDomain (applyNodePut cfg n loc st) =
     index_put add_domain remove_domain n_ID (ns_records st) n (ns_byDomain st)"
  "ns_currentOrder (applyNodePut cfg n loc st) =
     index_put add_order remove_order n_ID (ns_records st) n (ns_currentOrder st)"
  "ns_historyOrder (applyNodePut cfg n loc st) = add_order n (ns_historyOrder st)"
  "ns_label (applyNodePut cfg n loc st) =
     index_put addNodeLabelIndexes label_remove n_ID (ns_records st) n (ns_label st)"
  "ns_tag (applyNodePut cfg n loc st) =
     index_put addNodeTagIndexes tag_remove n_ID (ns_records st) n (ns_tag st)"
  "ns_journalDay (applyNodePut cfg n loc st) =
     index_put add_journal remove_journal n_ID (ns_records st) n (ns_journalDay st)"
  "ns_blobRefs (applyNodePut cfg n loc st) =
     index_put add_blob remove_blob n_ID (ns_records st) n (ns_blobRefs st)"
  "ns_history (applyNodePut cfg n loc st) = ns_history st"
  "ns_modRev (applyNodePut cfg n loc st) = ns_modRev st"
  by (simp_all add: applyNodePut_def Let_def index_put_def add_domain_def add_order_def addNodeLabelIndexes_def
      addNodeTagIndexes_def split: option.split)

lemma applyNodeDelete_fields [simp]:
  "ns_records (applyNodeDelete cfg i loc st) = (ns_records st)(i := None)"
  "ns_byDomain (applyNodeDelete cfg i loc st) = index_del remove_domain (ns_records st) i (ns_byDomain st)"
  "ns_currentOrder (applyNodeDelete cfg i loc st) = index_del remove_order (ns_records st) i (ns_currentOrder st)"
  "ns_historyOrder (applyNodeDelete cfg i loc st) = ns_historyOrder st"
  "ns_label (applyNodeDelete cfg i loc st) = index_del label_remove (ns_records st) i (ns_label st)"
  "ns_tag (applyNodeDelete cfg i loc st) = index_del tag_remove (ns_records st) i (ns_tag st)"
  "ns_journalDay (applyNodeDelete cfg i loc st) = index_del remove_journal (ns_records st) i (ns_journalDay st)"
  "ns_blobRefs (applyNodeDelete cfg i loc st) = index_del remove_blob (ns_records st) i (ns_blobRefs st)"
  "ns_history (applyNodeDelete cfg i loc st) = ns_history st"
  "ns_modRev (applyNodeDelete cfg i loc st) = ns_modRev st"
  by (simp_all add: applyNodeDelete_def Let_def index_del_def split: option.split)

section \<open>The indexes answer with the stored nodes\<close>

definition domain_keys :: "node \<Rightarrow> domain_id set" where
  "domain_keys n = (if n_DomainID n = 0 then {} else {n_DomainID n})"

definition label_keys :: "node \<Rightarrow> (domain_id \<times> string) set" where
  "label_keys n = (if n_DomainID n = 0 then {} else {n_DomainID n} \<times> (set (n_Labels n) - {[]}))"

definition tag_keys :: "node \<Rightarrow> (domain_id \<times> string) set" where
  "tag_keys n = (if n_DomainID n = 0 then {} else {n_DomainID n} \<times> set (tagsForStorageIndex n))"

definition no_empty_label :: "(domain_id \<rightharpoonup> (string \<rightharpoonup> node_id set)) \<Rightarrow> bool" where
  "no_empty_label m \<longleftrightarrow> (\<forall>d. set2_lookup m (d, []) = {})"

interpretation domain_ix: derived_index "\<lambda>_. True" set_lookup domain_keys add_domain remove_domain n_ID
  by unfold_locales (auto simp: domain_keys_def add_domain_def remove_domain_def)

interpretation order_ix: derived_index uuid_trees_inv order_lookup domain_keys add_order remove_order n_ID
  by unfold_locales
    (auto simp: domain_keys_def add_order_def remove_order_def order_put_inv order_delete_inv
      order_lookup_put order_lookup_delete)

interpretation label_ix: derived_index no_empty_label set2_lookup label_keys addNodeLabelIndexes label_remove n_ID
  by unfold_locales
    (auto simp: no_empty_label_def label_keys_def addNodeLabelIndexes_def label_remove_def
      removeNodeLabelIndexes_def set2_lookup_add set2_lookup_remove)

interpretation tag_ix: derived_index "\<lambda>_. True" set2_lookup tag_keys addNodeTagIndexes tag_remove n_ID
  by unfold_locales
    (auto simp: tag_keys_def addNodeTagIndexes_def tag_remove_def removeNodeTagIndexes_def
      set2_lookup_add set2_lookup_remove)

lemma set_lookup_remove_journal:
  "set_lookup (remove_journal n m) d =
     (if d \<in> set_option (journal_day n) then set_lookup m d - {n_ID n} else set_lookup m d)"
  by (auto simp: remove_journal_def set_lookup_def split: option.splits)

interpretation journal_ix: derived_index "\<lambda>_. True" set_lookup "\<lambda>n. set_option (journal_day n)"
  add_journal remove_journal n_ID
  by unfold_locales (auto simp: add_journal_def set_lookup_remove_journal split: option.split)

interpretation blob_ix: derived_index "\<lambda>_. True" set_lookup "\<lambda>n. set_option (n_BlobRef n)"
  add_blob remove_blob n_ID
  by unfold_locales (auto simp: add_blob_def remove_blob_def split: option.split)

definition node_indexes_ok :: "node_state \<Rightarrow> bool" where
  "node_indexes_ok st \<longleftrightarrow>
     keyed n_ID (ns_records st) \<and>
     (\<forall>d. set_lookup (ns_byDomain st) d = filed domain_keys (ns_records st) d) \<and>
     (uuid_trees_inv (ns_currentOrder st) \<and>
      (\<forall>d. order_lookup (ns_currentOrder st) d = filed domain_keys (ns_records st) d)) \<and>
     (no_empty_label (ns_label st) \<and>
      (\<forall>k. set2_lookup (ns_label st) k = filed label_keys (ns_records st) k)) \<and>
     (\<forall>k. set2_lookup (ns_tag st) k = filed tag_keys (ns_records st) k) \<and>
     (\<forall>k. set_lookup (ns_journalDay st) k = filed (\<lambda>n. set_option (journal_day n)) (ns_records st) k) \<and>
     (\<forall>k. set_lookup (ns_blobRefs st) k = filed (\<lambda>n. set_option (n_BlobRef n)) (ns_records st) k)"

lemma node_indexes_ok_empty: "node_indexes_ok empty_node_state"
  by (simp add: node_indexes_ok_def empty_node_state_def keyed_def filed_def uuid_trees_inv_def
      order_lookup_def tree_lookup_def no_empty_label_def set2_lookup_def)

lemma node_indexes_ok_put:
  assumes "node_indexes_ok st" shows "node_indexes_ok (applyNodePut cfg n loc st)"
  using assms unfolding node_indexes_ok_def applyNodePut_fields
  by (intro conjI; elim conjE)
    (simp_all only: keyed_upd simp_thms domain_ix.index_put_filed order_ix.index_put_filed label_ix.index_put_filed
      tag_ix.index_put_filed journal_ix.index_put_filed blob_ix.index_put_filed)

lemma node_indexes_ok_delete:
  assumes "node_indexes_ok st" shows "node_indexes_ok (applyNodeDelete cfg i loc st)"
  using assms unfolding node_indexes_ok_def applyNodeDelete_fields
  by (intro conjI; elim conjE)
    (simp_all only: keyed_del simp_thms domain_ix.index_del_filed order_ix.index_del_filed label_ix.index_del_filed
      tag_ix.index_del_filed journal_ix.index_del_filed blob_ix.index_del_filed)

end
