(* ===== verification/Graph_Edges.thy ===== *)
theory Graph_Edges
  imports Graph_Nodes "HOL-Library.Product_Lexorder"
begin

text \<open>
  The edge side of the graph store: edge records, the endpoint index, the labelled adjacency indexes and
  their cursor orders, edge property indexes, and the containment tree (\<open>containsChildren\<close> and
  \<open>containsParent\<close>); \<open>internal/graph/storage/store.go\<close> and \<open>edge_index_maintenance.go\<close>.
\<close>

record EdgeMeta =
  em_ID :: edge_id
  em_DomainID :: domain_id
  em_FromID :: node_id
  em_ToID :: node_id
  em_Labels :: "string list"
  em_Deleted :: bool
  em_Location :: RecordLocation

record edge_prop_entry =
  ep_EdgeID :: edge_id
  ep_Value :: gval
  ep_Key :: string

datatype AdjacencyDirection = AdjacencyDirectionOut | AdjacencyDirectionIn

record adjacencyOrderIdentity =
  ao_DomainID :: domain_id
  ao_NodeID :: node_id
  ao_Label :: string
  ao_Direction :: AdjacencyDirection

type_synonym adjacency_map = "domain_id \<rightharpoonup> (node_id \<rightharpoonup> (string \<rightharpoonup> (string \<rightharpoonup> edge_id)))"
type_synonym adjacency_orders = "adjacencyOrderIdentity \<rightharpoonup> (string, edge_id) otree"

record edge_state =
  es_records :: "edge_id \<rightharpoonup> edge"
  es_meta :: "edge_id \<rightharpoonup> EdgeMeta"
  es_index :: memoryEdgeIndex
  es_adjOut :: adjacency_map
  es_adjIn :: adjacency_map
  es_curAdj :: adjacency_orders
  es_histAdj :: adjacency_orders
  es_propIndex :: "string \<rightharpoonup> (string \<rightharpoonup> edge_prop_entry)"
  es_children :: "node_id \<rightharpoonup> edge_id list"
  es_parent :: "node_id \<rightharpoonup> edge_id"
  es_history :: "edge_id \<Rightarrow> edge entityVersion list"
  es_modRev :: "edge_id \<Rightarrow> u64"

definition empty_edge_state :: edge_state where
  "empty_edge_state =
     \<lparr>es_records = Map.empty, es_meta = Map.empty, es_index = NewMemoryEdgeIndex,
      es_adjOut = Map.empty, es_adjIn = Map.empty, es_curAdj = Map.empty, es_histAdj = Map.empty,
      es_propIndex = Map.empty, es_children = Map.empty, es_parent = Map.empty,
      es_history = (\<lambda>_. []), es_modRev = (\<lambda>_. 0)\<rparr>"

section \<open>Adjacency indexes\<close>

definition the_map :: "('a \<rightharpoonup> 'b) option \<Rightarrow> 'a \<rightharpoonup> 'b" where
  "the_map m = (case m of None \<Rightarrow> Map.empty | Some m' \<Rightarrow> m')"

text \<open>\<open>ensureAdjacencySet(index, domain, node, label)[key] = edge\<close>.\<close>

definition ensureAdjacencySet ::
  "domain_id \<Rightarrow> node_id \<Rightarrow> string \<Rightarrow> string \<Rightarrow> edge_id \<Rightarrow> adjacency_map \<Rightarrow> adjacency_map" where
  "ensureAdjacencySet d n l k e m =
     (let byNode = the_map (m d); byLabel = the_map (byNode n); st = the_map (byLabel l)
      in m(d \<mapsto> byNode(n \<mapsto> byLabel(l \<mapsto> st(k \<mapsto> e)))))"

definition deleteAdjacencyKey ::
  "domain_id \<Rightarrow> node_id \<Rightarrow> string \<Rightarrow> string \<Rightarrow> adjacency_map \<Rightarrow> adjacency_map" where
  "deleteAdjacencyKey d n l k m =
     (let byNode = the_map (m d); byLabel = the_map (byNode n); st = (the_map (byLabel l))(k := None);
          byLabel' = (if dom st = {} then byLabel(l := None) else byLabel(l \<mapsto> st));
          byNode' = (if dom byLabel' = {} then byNode(n := None) else byNode(n \<mapsto> byLabel'))
      in if dom byNode' = {} then m(d := None) else m(d \<mapsto> byNode'))"

definition adj_order_put :: "adjacencyOrderIdentity \<Rightarrow> string \<Rightarrow> edge_id \<Rightarrow> adjacency_orders \<Rightarrow> adjacency_orders" where
  "adj_order_put i k e m = m(i \<mapsto> tree_put (<) string_prio k e (tree_lookup m i))"

definition adj_order_delete :: "adjacencyOrderIdentity \<Rightarrow> string \<Rightarrow> adjacency_orders \<Rightarrow> adjacency_orders" where
  "adj_order_delete i k m = (case m i of None \<Rightarrow> m | Some t \<Rightarrow> m(i \<mapsto> tree_delete (<) k t))"

text \<open>The wildcard label first, then the non-empty labels.\<close>

definition adjacencyLabels :: "edge \<Rightarrow> string list" where
  "adjacencyLabels e = [] # filter (\<lambda>l. l \<noteq> []) (e_Labels e)"

definition out_identity :: "edge \<Rightarrow> string \<Rightarrow> adjacencyOrderIdentity" where
  "out_identity e l = \<lparr>ao_DomainID = e_DomainID e, ao_NodeID = e_FromID e, ao_Label = l,
     ao_Direction = AdjacencyDirectionOut\<rparr>"

definition in_identity :: "edge \<Rightarrow> string \<Rightarrow> adjacencyOrderIdentity" where
  "in_identity e l = \<lparr>ao_DomainID = e_DomainID e, ao_NodeID = e_ToID e, ao_Label = l,
     ao_Direction = AdjacencyDirectionIn\<rparr>"

definition addAdjacencyOrder :: "store_cfg \<Rightarrow> edge \<Rightarrow> string \<Rightarrow> adjacency_orders \<Rightarrow> adjacency_orders" where
  "addAdjacencyOrder cfg e l m =
     (let k = encodeAdjacencyKey (cf_String cfg) e; m1 = adj_order_put (out_identity e l) k (e_ID e) m
      in if l \<noteq> [] \<or> e_FromID e \<noteq> e_ToID e then adj_order_put (in_identity e l) k (e_ID e) m1 else m1)"

definition removeAdjacencyOrder :: "store_cfg \<Rightarrow> edge \<Rightarrow> string \<Rightarrow> adjacency_orders \<Rightarrow> adjacency_orders" where
  "removeAdjacencyOrder cfg e l m =
     (let k = encodeAdjacencyKey (cf_String cfg) e; m1 = adj_order_delete (out_identity e l) k m
      in if l \<noteq> [] \<or> e_FromID e \<noteq> e_ToID e then adj_order_delete (in_identity e l) k m1 else m1)"

definition addEdgeAdjacencyOrders :: "store_cfg \<Rightarrow> edge \<Rightarrow> edge_state \<Rightarrow> edge_state" where
  "addEdgeAdjacencyOrders cfg e st =
     st\<lparr>es_curAdj := fold (addAdjacencyOrder cfg e) (adjacencyLabels e) (es_curAdj st),
        es_histAdj := fold (addAdjacencyOrder cfg e) (adjacencyLabels e) (es_histAdj st)\<rparr>"

definition addEdgeAdjacencyIndexes :: "store_cfg \<Rightarrow> edge \<Rightarrow> edge_state \<Rightarrow> edge_state" where
  "addEdgeAdjacencyIndexes cfg e st =
     (if e_DomainID e = 0 then st
      else
        (let k = encodeAdjacencyKey (cf_String cfg) e; labels = filter (\<lambda>l. l \<noteq> []) (e_Labels e)
         in addEdgeAdjacencyOrders cfg e
              (st\<lparr>es_adjOut := fold (\<lambda>l. ensureAdjacencySet (e_DomainID e) (e_FromID e) l k (e_ID e)) labels (es_adjOut st),
                  es_adjIn := fold (\<lambda>l. ensureAdjacencySet (e_DomainID e) (e_ToID e) l k (e_ID e)) labels (es_adjIn st)\<rparr>)))"

definition removeEdgeAdjacencyIndexes :: "store_cfg \<Rightarrow> edge \<Rightarrow> edge_state \<Rightarrow> edge_state" where
  "removeEdgeAdjacencyIndexes cfg e st =
     (let k = encodeAdjacencyKey (cf_String cfg) e; labels = filter (\<lambda>l. l \<noteq> []) (e_Labels e)
      in st\<lparr>es_adjOut := fold (\<lambda>l. deleteAdjacencyKey (e_DomainID e) (e_FromID e) l k) labels (es_adjOut st),
            es_adjIn := fold (\<lambda>l. deleteAdjacencyKey (e_DomainID e) (e_ToID e) l k) labels (es_adjIn st),
            es_curAdj := fold (removeAdjacencyOrder cfg e) (adjacencyLabels e) (es_curAdj st)\<rparr>)"

section \<open>Property indexes\<close>

definition edgeHasAnyLabel :: "edge \<Rightarrow> string list \<Rightarrow> bool" where
  "edgeHasAnyLabel e labels \<longleftrightarrow> list_ex (\<lambda>l. l \<in> set (e_Labels e)) labels"

definition edgePropertyIndexEntry ::
  "store_cfg \<Rightarrow> edge \<Rightarrow> index_def \<Rightarrow> index_error + edge_prop_entry option" where
  "edgePropertyIndexEntry cfg e idx =
     (if id_TargetKind idx \<noteq> IndexTargetEdge \<or> \<not> edgeHasAnyLabel e (id_Labels idx) then Inr None
      else
        (let v = (case EdgeProperty e (id_Field idx) of None \<Rightarrow> VNil | Some v \<Rightarrow> v) in
         if v = VNil then (if id_Required idx then Inl IxUnsupported else Inr None)
         else (case encodeOrderedEdgeKey (cf_String cfg) v (e_ID e) of
                 None \<Rightarrow> Inl IxUnsupported
               | Some k \<Rightarrow> Inr (Some \<lparr>ep_EdgeID = e_ID e, ep_Value = v, ep_Key = k\<rparr>))))"

definition validateEdgeIndexes :: "store_cfg \<Rightarrow> edge \<Rightarrow> index_error option" where
  "validateEdgeIndexes cfg e =
     (case find (\<lambda>idx. id_TargetKind idx = IndexTargetEdge \<and>
                   (case edgePropertyIndexEntry cfg e idx of Inl _ \<Rightarrow> True | Inr _ \<Rightarrow> False))
             (cf_Indexes cfg (e_DomainID e)) of
        None \<Rightarrow> None | Some _ \<Rightarrow> Some IxUnsupported)"

definition addEdgePropertyIndexEntry :: "store_cfg \<Rightarrow> edge \<Rightarrow> index_def \<Rightarrow> edge_state \<Rightarrow> edge_state" where
  "addEdgePropertyIndexEntry cfg e idx st =
     (case edgePropertyIndexEntry cfg e idx of
        Inr (Some entry) \<Rightarrow>
          (let ident = indexIdentity (cf_String cfg) (e_DomainID e) (id_Name idx)
           in st\<lparr>es_propIndex := (es_propIndex st)(ident \<mapsto>
                   (the_map (es_propIndex st ident))(ep_Key entry \<mapsto> entry))\<rparr>)
      | _ \<Rightarrow> st)"

definition removeEdgePropertyIndexEntry :: "store_cfg \<Rightarrow> edge \<Rightarrow> index_def \<Rightarrow> edge_state \<Rightarrow> edge_state" where
  "removeEdgePropertyIndexEntry cfg e idx st =
     (case edgePropertyIndexEntry cfg e idx of
        Inr (Some entry) \<Rightarrow>
          (let ident = indexIdentity (cf_String cfg) (e_DomainID e) (id_Name idx)
           in st\<lparr>es_propIndex := (case es_propIndex st ident of
                   None \<Rightarrow> es_propIndex st
                 | Some es \<Rightarrow> (es_propIndex st)(ident \<mapsto> es(ep_Key entry := None)))\<rparr>)
      | _ \<Rightarrow> st)"

section \<open>Containment\<close>

definition is_contains :: "edge \<Rightarrow> bool" where
  "is_contains e = EdgeHasLabels e [''contains'']"

text \<open>
  The comparison of \<open>sortChildren\<close> as a key: edges with an order first, by that order, then by the text
  of the identifier. A missing record reads as the zero edge.
\<close>

definition child_key :: "store_cfg \<Rightarrow> (edge_id \<rightharpoonup> edge) \<Rightarrow> edge_id \<Rightarrow> bool \<times> int \<times> string" where
  "child_key cfg recs i =
     (case recs i of
        None \<Rightarrow> (True, 0, cf_String cfg 0)
      | Some e \<Rightarrow>
          (case numberPropInt (mget (e_Properties e) ''order'') of
             None \<Rightarrow> (True, 0, cf_String cfg (e_ID e))
           | Some ord \<Rightarrow> (False, sint ord, cf_String cfg (e_ID e))))"

definition sortChildren :: "store_cfg \<Rightarrow> (edge_id \<rightharpoonup> edge) \<Rightarrow> edge_id list \<Rightarrow> edge_id list" where
  "sortChildren cfg recs ids = sort_key (child_key cfg recs) ids"

definition children_of :: "(node_id \<rightharpoonup> edge_id list) \<Rightarrow> node_id \<Rightarrow> edge_id list" where
  "children_of m p = (case m p of None \<Rightarrow> [] | Some ids \<Rightarrow> ids)"

definition add_contains :: "store_cfg \<Rightarrow> edge \<Rightarrow> edge_state \<Rightarrow> edge_state" where
  "add_contains cfg e st =
     (if \<not> is_contains e then st
      else st\<lparr>es_children := (es_children st)(e_FromID e \<mapsto>
                sortChildren cfg (es_records st) (children_of (es_children st) (e_FromID e) @ [e_ID e])),
              es_parent := (es_parent st)(e_ToID e \<mapsto> e_ID e)\<rparr>)"

definition remove_contains :: "edge \<Rightarrow> edge_state \<Rightarrow> edge_state" where
  "remove_contains e st =
     (if \<not> is_contains e then st
      else
        (let out = filter (\<lambda>i. i \<noteq> e_ID e) (children_of (es_children st) (e_FromID e))
         in st\<lparr>es_children := (if out = [] then (es_children st)(e_FromID e := None)
                               else (es_children st)(e_FromID e \<mapsto> out)),
               es_parent := (if es_parent st (e_ToID e) = Some (e_ID e)
                             then (es_parent st)(e_ToID e := None) else es_parent st)\<rparr>))"

section \<open>Puts and deletions\<close>

definition removeEdgeIndexes :: "store_cfg \<Rightarrow> edge \<Rightarrow> edge_state \<Rightarrow> edge_state" where
  "removeEdgeIndexes cfg e st =
     (let st1 = st\<lparr>es_index := snd (ix_Delete None e (es_index st))\<rparr>;
          st2 = removeEdgeAdjacencyIndexes cfg e st1;
          st3 = fold (removeEdgePropertyIndexEntry cfg e) (cf_Indexes cfg (e_DomainID e)) st2
      in remove_contains e st3)"

definition applyEdgePut :: "store_cfg \<Rightarrow> edge \<Rightarrow> RecordLocation \<Rightarrow> edge_state \<Rightarrow> edge_state" where
  "applyEdgePut cfg e loc st0 =
     (let st1 = (case es_records st0 (e_ID e) of None \<Rightarrow> st0 | Some old \<Rightarrow> removeEdgeIndexes cfg old st0);
          st2 = st1\<lparr>es_records := (es_records st1)(e_ID e \<mapsto> cloneEdge e),
                    es_meta := (es_meta st1)(e_ID e \<mapsto>
                      \<lparr>em_ID = e_ID e, em_DomainID = e_DomainID e, em_FromID = e_FromID e, em_ToID = e_ToID e,
                       em_Labels = e_Labels e, em_Deleted = False, em_Location = loc\<rparr>),
                    es_index := snd (ix_Put None (cloneEdge e) (es_index st1))\<rparr>;
          st3 = addEdgeAdjacencyIndexes cfg (cloneEdge e) st2;
          st4 = fold (addEdgePropertyIndexEntry cfg (cloneEdge e)) (cf_Indexes cfg (e_DomainID e)) st3
      in add_contains cfg e st4)"

definition applyEdgeDelete :: "store_cfg \<Rightarrow> edge_id \<Rightarrow> RecordLocation \<Rightarrow> edge_state \<Rightarrow> edge_state" where
  "applyEdgeDelete cfg i loc st0 =
     (let st1 = (case es_records st0 i of None \<Rightarrow> st0 | Some old \<Rightarrow> removeEdgeIndexes cfg old st0)
      in st1\<lparr>es_records := (es_records st1)(i := None),
             es_meta := (es_meta st1)(i \<mapsto>
               \<lparr>em_ID = i, em_DomainID = 0, em_FromID = 0, em_ToID = 0, em_Labels = [], em_Deleted = True,
                em_Location = loc\<rparr>)\<rparr>)"

definition appendEdgeVersion :: "edge \<Rightarrow> u64 \<Rightarrow> edge_state \<Rightarrow> edge_state" where
  "appendEdgeVersion e rv st = st\<lparr>es_history := appendEntityVersion (e_ID e) (cloneEdge e) rv (es_history st)\<rparr>"

definition appendEdgeTombstone :: "edge_id \<Rightarrow> u64 \<Rightarrow> edge_state \<Rightarrow> edge_state" where
  "appendEdgeTombstone i rv st = st\<lparr>es_history := appendEntityTombstone i rv (es_history st)\<rparr>"

definition edgeAtRevision :: "edge entityVersion list \<Rightarrow> u64 \<Rightarrow> edge option" where
  "edgeAtRevision vs rv = map_option cloneEdge (entityAtRevision vs rv)"

section \<open>What a put and a deletion do to each field\<close>

lemma edge_prop_fields [simp]:
  "es_records (fold (removeEdgePropertyIndexEntry cfg e) ix st) = es_records st"
  "es_index (fold (removeEdgePropertyIndexEntry cfg e) ix st) = es_index st"
  "es_children (fold (removeEdgePropertyIndexEntry cfg e) ix st) = es_children st"
  "es_parent (fold (removeEdgePropertyIndexEntry cfg e) ix st) = es_parent st"
  "es_history (fold (removeEdgePropertyIndexEntry cfg e) ix st) = es_history st"
  "es_modRev (fold (removeEdgePropertyIndexEntry cfg e) ix st) = es_modRev st"
  "es_records (fold (addEdgePropertyIndexEntry cfg e) ix st) = es_records st"
  "es_index (fold (addEdgePropertyIndexEntry cfg e) ix st) = es_index st"
  "es_children (fold (addEdgePropertyIndexEntry cfg e) ix st) = es_children st"
  "es_parent (fold (addEdgePropertyIndexEntry cfg e) ix st) = es_parent st"
  "es_history (fold (addEdgePropertyIndexEntry cfg e) ix st) = es_history st"
  "es_modRev (fold (addEdgePropertyIndexEntry cfg e) ix st) = es_modRev st"
  by (rule fold_keeps,
      simp add: removeEdgePropertyIndexEntry_def addEdgePropertyIndexEntry_def Let_def split: sum.split option.split)+

lemma edge_adj_fields [simp]:
  "es_records (removeEdgeAdjacencyIndexes cfg e st) = es_records st"
  "es_index (removeEdgeAdjacencyIndexes cfg e st) = es_index st"
  "es_children (removeEdgeAdjacencyIndexes cfg e st) = es_children st"
  "es_parent (removeEdgeAdjacencyIndexes cfg e st) = es_parent st"
  "es_history (removeEdgeAdjacencyIndexes cfg e st) = es_history st"
  "es_modRev (removeEdgeAdjacencyIndexes cfg e st) = es_modRev st"
  "es_records (addEdgeAdjacencyIndexes cfg e st) = es_records st"
  "es_index (addEdgeAdjacencyIndexes cfg e st) = es_index st"
  "es_children (addEdgeAdjacencyIndexes cfg e st) = es_children st"
  "es_parent (addEdgeAdjacencyIndexes cfg e st) = es_parent st"
  "es_history (addEdgeAdjacencyIndexes cfg e st) = es_history st"
  "es_modRev (addEdgeAdjacencyIndexes cfg e st) = es_modRev st"
  by (simp_all add: removeEdgeAdjacencyIndexes_def addEdgeAdjacencyIndexes_def addEdgeAdjacencyOrders_def Let_def)

definition rm_parent :: "edge \<Rightarrow> (node_id \<rightharpoonup> edge_id) \<Rightarrow> node_id \<rightharpoonup> edge_id" where
  "rm_parent e m = (if is_contains e \<and> m (e_ToID e) = Some (e_ID e) then m(e_ToID e := None) else m)"

definition add_parent :: "edge \<Rightarrow> (node_id \<rightharpoonup> edge_id) \<Rightarrow> node_id \<rightharpoonup> edge_id" where
  "add_parent e m = (if is_contains e then m(e_ToID e \<mapsto> e_ID e) else m)"

definition rm_children :: "edge \<Rightarrow> (node_id \<rightharpoonup> edge_id list) \<Rightarrow> node_id \<rightharpoonup> edge_id list" where
  "rm_children e m =
     (if is_contains e
      then (let out = filter (\<lambda>i. i \<noteq> e_ID e) (children_of m (e_FromID e))
            in if out = [] then m(e_FromID e := None) else m(e_FromID e \<mapsto> out))
      else m)"

definition add_children ::
  "store_cfg \<Rightarrow> (edge_id \<rightharpoonup> edge) \<Rightarrow> edge \<Rightarrow> (node_id \<rightharpoonup> edge_id list) \<Rightarrow> node_id \<rightharpoonup> edge_id list" where
  "add_children cfg recs e m =
     (if is_contains e
      then m(e_FromID e \<mapsto> sortChildren cfg recs (children_of m (e_FromID e) @ [e_ID e])) else m)"

lemma removeEdgeIndexes_fields [simp]:
  "es_records (removeEdgeIndexes cfg e st) = es_records st"
  "es_index (removeEdgeIndexes cfg e st) = deleteLocked (e_ID e) (es_index st)"
  "es_children (removeEdgeIndexes cfg e st) = rm_children e (es_children st)"
  "es_parent (removeEdgeIndexes cfg e st) = rm_parent e (es_parent st)"
  "es_history (removeEdgeIndexes cfg e st) = es_history st"
  "es_modRev (removeEdgeIndexes cfg e st) = es_modRev st"
  by (simp_all add: removeEdgeIndexes_def Let_def remove_contains_def rm_children_def rm_parent_def ix_Delete_def)

lemma applyEdgePut_fields [simp]:
  "es_records (applyEdgePut cfg e loc st) = (es_records st)(e_ID e \<mapsto> e)"
  "es_index (applyEdgePut cfg e loc st) = putLocked e
     (case es_records st (e_ID e) of None \<Rightarrow> es_index st | Some old \<Rightarrow> deleteLocked (e_ID old) (es_index st))"
  "es_children (applyEdgePut cfg e loc st) = add_children cfg ((es_records st)(e_ID e \<mapsto> e)) e
     (case es_records st (e_ID e) of None \<Rightarrow> es_children st | Some old \<Rightarrow> rm_children old (es_children st))"
  "es_parent (applyEdgePut cfg e loc st) = index_put add_parent rm_parent e_ID (es_records st) e (es_parent st)"
  "es_history (applyEdgePut cfg e loc st) = es_history st"
  "es_modRev (applyEdgePut cfg e loc st) = es_modRev st"
  by (simp_all add: applyEdgePut_def Let_def add_contains_def add_children_def add_parent_def index_put_def
      ix_Put_def split: option.split)

lemma applyEdgeDelete_fields [simp]:
  "es_records (applyEdgeDelete cfg i loc st) = (es_records st)(i := None)"
  "es_index (applyEdgeDelete cfg i loc st) =
     (case es_records st i of None \<Rightarrow> es_index st | Some old \<Rightarrow> deleteLocked (e_ID old) (es_index st))"
  "es_children (applyEdgeDelete cfg i loc st) =
     (case es_records st i of None \<Rightarrow> es_children st | Some old \<Rightarrow> rm_children old (es_children st))"
  "es_parent (applyEdgeDelete cfg i loc st) = index_del rm_parent (es_records st) i (es_parent st)"
  "es_history (applyEdgeDelete cfg i loc st) = es_history st"
  "es_modRev (applyEdgeDelete cfg i loc st) = es_modRev st"
  by (simp_all add: applyEdgeDelete_def Let_def index_del_def split: option.split)

section \<open>The endpoint index\<close>

definition record_endpoints :: "(edge_id \<rightharpoonup> edge) \<Rightarrow> endpoint_map" where
  "record_endpoints recs i = map_option (\<lambda>e. (e_FromID e, e_ToID e)) (recs i)"

definition edge_index_ok :: "edge_state \<Rightarrow> bool" where
  "edge_index_ok st \<longleftrightarrow> keyed e_ID (es_records st) \<and> ix_inv (es_index st) \<and>
     ix_endpoints (es_index st) = record_endpoints (es_records st)"

lemma edge_index_ok_empty: "edge_index_ok empty_edge_state"
  using ix_inv_New
  by (auto simp: edge_index_ok_def empty_edge_state_def keyed_def record_endpoints_def NewMemoryEdgeIndex_def)

lemma edge_index_ok_put: "edge_index_ok st \<Longrightarrow> edge_index_ok (applyEdgePut cfg e loc st)"
  by (auto simp: edge_index_ok_def ix_inv_putLocked ix_inv_deleteLocked record_endpoints_def fun_eq_iff keyed_def
      split: option.split)

lemma edge_index_ok_delete: "edge_index_ok st \<Longrightarrow> edge_index_ok (applyEdgeDelete cfg i loc st)"
  by (auto simp: edge_index_ok_def ix_inv_deleteLocked record_endpoints_def fun_eq_iff keyed_def
      split: option.split)

section \<open>Containment\<close>

text \<open>\<open>contains_edge recs p i c\<close>: the edge \<open>i\<close> makes \<open>c\<close> a child of \<open>p\<close>.\<close>

definition contains_edge :: "(edge_id \<rightharpoonup> edge) \<Rightarrow> node_id \<Rightarrow> edge_id \<Rightarrow> node_id \<Rightarrow> bool" where
  "contains_edge recs p i c \<longleftrightarrow>
     (\<exists>e. recs i = Some e \<and> is_contains e \<and> e_FromID e = p \<and> e_ToID e = c)"

definition parents_sound :: "edge_state \<Rightarrow> bool" where
  "parents_sound st \<longleftrightarrow>
     (\<forall>c i. es_parent st c = Some i \<longrightarrow> (\<exists>p. contains_edge (es_records st) p i c))"

definition parents_ok :: "edge_state \<Rightarrow> bool" where
  "parents_ok st \<longleftrightarrow>
     (\<forall>c i. es_parent st c = Some i \<longleftrightarrow> (\<exists>p. contains_edge (es_records st) p i c))"

lemma parent_after_removal:
  assumes "keyed e_ID (es_records st)" "parents_sound st"
  shows "index_del rm_parent (es_records st) j (es_parent st) c = Some i \<longleftrightarrow> es_parent st c = Some i \<and> i \<noteq> j"
proof (cases "es_records st j")
  case None
  with assms(2) have "es_parent st c \<noteq> Some j" by (fastforce simp: parents_sound_def contains_edge_def)
  with None show ?thesis by (auto simp: index_del_def)
next
  case (Some old)
  then have id: "e_ID old = j" using assms(1) by (simp add: keyed_def)
  have claim: "is_contains old \<and> e_ToID old = c" if "es_parent st c = Some j"
    using assms(2) that Some by (fastforce simp: parents_sound_def contains_edge_def)
  have rm: "index_del rm_parent (es_records st) j (es_parent st) =
      (if is_contains old \<and> es_parent st (e_ToID old) = Some j
       then (es_parent st)(e_ToID old := None) else es_parent st)"
    by (simp add: index_del_def Some rm_parent_def id)
  show ?thesis
  proof (cases "es_parent st c = Some j")
    case True
    with claim show ?thesis unfolding rm by auto
  next
    case False
    then show ?thesis unfolding rm by auto
  qed
qed

lemma parent_after_put:
  assumes "keyed e_ID (es_records st)" "parents_sound st"
  shows "es_parent (applyEdgePut cfg e loc st) c = Some i \<longleftrightarrow>
    (if is_contains e \<and> c = e_ToID e then i = e_ID e else es_parent st c = Some i \<and> i \<noteq> e_ID e)"
proof -
  have "index_put add_parent rm_parent e_ID (es_records st) e (es_parent st) =
      add_parent e (index_del rm_parent (es_records st) (e_ID e) (es_parent st))"
    by (simp add: index_put_def index_del_def)
  with parent_after_removal [OF assms, of "e_ID e" c i] show ?thesis by (auto simp: add_parent_def)
qed

lemma parents_sound_put:
  assumes "keyed e_ID (es_records st)" "parents_sound st"
  shows "parents_sound (applyEdgePut cfg e loc st)"
  using assms(2) unfolding parents_sound_def parent_after_put [OF assms]
  by (auto simp: contains_edge_def split: if_splits)

lemma parents_sound_delete:
  assumes "keyed e_ID (es_records st)" "parents_sound st"
  shows "parents_sound (applyEdgeDelete cfg i loc st)"
  using assms(2) unfolding parents_sound_def applyEdgeDelete_fields parent_after_removal [OF assms]
  by (auto simp: contains_edge_def)

text \<open>
  The other direction holds for a child \<open>c\<close> and an edge \<open>i\<close> as long as no other edge claims \<open>c\<close>.
\<close>

definition claims :: "(edge_id \<rightharpoonup> edge) \<Rightarrow> edge_id \<Rightarrow> node_id \<Rightarrow> bool" where
  "claims recs i c \<longleftrightarrow> (\<exists>p. contains_edge recs p i c)"

definition parent_held :: "edge_state \<Rightarrow> edge_id \<Rightarrow> node_id \<Rightarrow> bool" where
  "parent_held st i c \<longleftrightarrow> (claims (es_records st) i c \<longrightarrow> es_parent st c = Some i)"

lemma claims_upd: "claims (recs(j \<mapsto> e)) i c \<longleftrightarrow>
    (if i = j then is_contains e \<and> e_ToID e = c else claims recs i c)"
  by (auto simp: claims_def contains_edge_def)

lemma claims_del: "claims (recs(j := None)) i c \<longleftrightarrow> i \<noteq> j \<and> claims recs i c"
  by (auto simp: claims_def contains_edge_def)

lemma parent_held_put:
  assumes "keyed e_ID (es_records st)" "parents_sound st" "parent_held st i c"
    and "is_contains e \<Longrightarrow> e_ToID e = c \<Longrightarrow> e_ID e = i"
  shows "parent_held (applyEdgePut cfg e loc st) i c"
proof (cases "is_contains e \<and> c = e_ToID e")
  case True
  with assms(4) have "e_ID e = i" by blast
  with True show ?thesis by (simp only: parent_held_def parent_after_put [OF assms(1,2)]) simp
next
  case False
  with assms(3) show ?thesis
    unfolding parent_held_def parent_after_put [OF assms(1,2)] applyEdgePut_fields(1) claims_upd by auto
qed

lemma parent_held_delete:
  assumes "keyed e_ID (es_records st)" "parents_sound st" "parent_held st i c"
  shows "parent_held (applyEdgeDelete cfg j loc st) i c"
  using assms(3) unfolding parent_held_def applyEdgeDelete_fields parent_after_removal [OF assms(1,2)] claims_del
  by auto

text \<open>The children of a node: exactly its containment edges, each once.\<close>

definition children_ok :: "store_cfg \<Rightarrow> edge_state \<Rightarrow> bool" where
  "children_ok cfg st \<longleftrightarrow>
     (\<forall>p. set (children_of (es_children st) p) = {i. \<exists>c. contains_edge (es_records st) p i c} \<and>
          distinct (children_of (es_children st) p) \<and>
          sorted (map (child_key cfg (es_records st)) (children_of (es_children st) p)))"

lemma children_of_rm:
  "children_of (rm_children e m) p =
     (if is_contains e \<and> p = e_FromID e then filter (\<lambda>i. i \<noteq> e_ID e) (children_of m p) else children_of m p)"
  by (auto simp: rm_children_def children_of_def Let_def split: option.split)

lemma children_of_add:
  "children_of (add_children cfg recs e m) p =
     (if is_contains e \<and> p = e_FromID e then sortChildren cfg recs (children_of m p @ [e_ID e]) else children_of m p)"
  by (auto simp: add_children_def children_of_def)

lemma children_after_removal:
  assumes "keyed e_ID (es_records st)" "children_ok cfg st"
  shows "children_of (case es_records st j of None \<Rightarrow> es_children st | Some old \<Rightarrow> rm_children old (es_children st)) p
    = filter (\<lambda>i. i \<noteq> j) (children_of (es_children st) p)"
proof (cases "es_records st j")
  case None
  with assms(2) have "j \<notin> set (children_of (es_children st) p)" by (auto simp: children_ok_def contains_edge_def)
  then have "filter (\<lambda>i. i \<noteq> j) (children_of (es_children st) p) = children_of (es_children st) p"
    by (intro filter_True) auto
  with None show ?thesis by simp
next
  case (Some old)
  then have id: "e_ID old = j" using assms(1) by (simp add: keyed_def)
  show ?thesis
  proof (cases "is_contains old \<and> p = e_FromID old")
    case True
    with Some id show ?thesis by (simp add: children_of_rm)
  next
    case False
    then have "j \<notin> set (children_of (es_children st) p)"
      using assms(2) Some by (auto simp: children_ok_def contains_edge_def)
    then have "filter (\<lambda>i. i \<noteq> j) (children_of (es_children st) p) = children_of (es_children st) p"
      by (intro filter_True) auto
    with Some False show ?thesis by (auto simp: children_of_rm)
  qed
qed

lemma child_key_upd: "i \<noteq> j \<Longrightarrow> child_key cfg (recs(j := v)) i = child_key cfg recs i"
  by (simp add: child_key_def)

lemma filter_children_facts:
  fixes j :: edge_id and p :: node_id and v :: "edge option"
  assumes "children_ok cfg st"
  defines "xs \<equiv> \<lambda>p. filter (\<lambda>i. i \<noteq> j) (children_of (es_children st) p)"
  shows "set (xs p) = {i. i \<noteq> j \<and> (\<exists>c. contains_edge (es_records st) p i c)}" "distinct (xs p)"
    "sorted (map (child_key cfg ((es_records st)(j := v))) (xs p))"
proof -
  show "set (xs p) = {i. i \<noteq> j \<and> (\<exists>c. contains_edge (es_records st) p i c)}" "distinct (xs p)"
    using assms by (auto simp: children_ok_def)
  have "map (child_key cfg ((es_records st)(j := v))) (xs p) = map (child_key cfg (es_records st)) (xs p)"
    by (auto simp: xs_def child_key_upd)
  moreover have "sorted (map (child_key cfg (es_records st)) (xs p))"
    using assms(1) by (simp add: children_ok_def xs_def sorted_filter)
  ultimately show "sorted (map (child_key cfg ((es_records st)(j := v))) (xs p))" by metis
qed

lemma children_ok_delete:
  assumes "keyed e_ID (es_records st)" "children_ok cfg st"
  shows "children_ok cfg (applyEdgeDelete cfg j loc st)"
  unfolding children_ok_def applyEdgeDelete_fields children_after_removal [OF assms]
  using filter_children_facts(1,2) [OF assms(2), where j = j]
    filter_children_facts(3) [OF assms(2), where j = j and v = None]
  by (auto simp: contains_edge_def split: if_splits)

lemma children_ok_put:
  assumes "keyed e_ID (es_records st)" "children_ok cfg st"
  shows "children_ok cfg (applyEdgePut cfg e loc st)"
proof -
  let ?recs = "(es_records st)(e_ID e \<mapsto> e)"
  let ?xs = "\<lambda>p. filter (\<lambda>i. i \<noteq> e_ID e) (children_of (es_children st) p)"
  note f = filter_children_facts(1,2) [OF assms(2), where j = "e_ID e"]
    filter_children_facts(3) [OF assms(2), where j = "e_ID e" and v = "Some e"]
  have ch: "children_of (es_children (applyEdgePut cfg e loc st)) p =
      (if is_contains e \<and> p = e_FromID e then sortChildren cfg ?recs (?xs p @ [e_ID e]) else ?xs p)" for p
    unfolding applyEdgePut_fields children_of_add children_after_removal [OF assms] ..
  show ?thesis
    unfolding children_ok_def
  proof (intro allI conjI)
    fix p
    let ?cs = "children_of (es_children (applyEdgePut cfg e loc st)) p"
    show "set ?cs = {i. \<exists>c. contains_edge (es_records (applyEdgePut cfg e loc st)) p i c}"
      unfolding ch applyEdgePut_fields(1) using f(1) [of p]
      by (auto simp: sortChildren_def contains_edge_def)
    show "distinct ?cs" unfolding ch using f(2) [of p] by (auto simp: sortChildren_def)
    show "sorted (map (child_key cfg (es_records (applyEdgePut cfg e loc st))) ?cs)"
      unfolding ch applyEdgePut_fields(1) using f(3) [of p] by (auto simp: sortChildren_def)
  qed
qed

end
