(* ===== verification/Index_Properties.thy ===== *)
theory Index_Properties
  imports Graph_Edges
begin

text \<open>
  What the data structures below the graph store promise: the ordered tree of the scan indexes, its
  iterators, the endpoint index, sortable keys and cursors. Each property stands behind its claim.
\<close>

section \<open>The ordered tree\<close>

text \<open>Any history of puts and deletions, from the empty tree.\<close>

datatype ('k, 'v) tree_op = TPut 'k 'v | TDelete 'k

fun tree_step :: "(string, 'v) tree_op \<Rightarrow> (string, 'v) otree \<Rightarrow> (string, 'v) otree" where
  "tree_step (TPut k v) t = tree_put (<) string_prio k v t"
| "tree_step (TDelete k) t = tree_delete (<) k t"

fun map_step :: "('k, 'v) tree_op \<Rightarrow> ('k \<rightharpoonup> 'v) \<Rightarrow> 'k \<rightharpoonup> 'v" where
  "map_step (TPut k v) m = m(k \<mapsto> v)"
| "map_step (TDelete k) m = m(k := None)"

definition tree_run :: "(string, 'v) tree_op list \<Rightarrow> (string, 'v) otree" where
  "tree_run ops = fold tree_step ops OLeaf"

lemma tree_step_inv: "otree_inv (<) string_prio t \<Longrightarrow> otree_inv (<) string_prio (tree_step op t)"
  by (cases op) (auto intro: string_tree.otree_inv_put string_tree.otree_inv_delete)

lemma fold_tree_step:
  assumes "otree_inv (<) string_prio t"
  shows "otree_inv (<) string_prio (fold tree_step ops t) \<and>
    map_of (entries (fold tree_step ops t)) = fold map_step ops (map_of (entries t))"
  using assms
proof (induction ops arbitrary: t)
  case (Cons op ops)
  have "map_of (entries (tree_step op t)) = map_step op (map_of (entries t))"
    using Cons(2) by (cases op) (simp_all add: string_tree.lookup_put string_tree.lookup_delete)
  with Cons(1) [of "tree_step op t"] tree_step_inv [OF Cons(2), of op] show ?case by simp
qed simp

lemma tree_run_inv: "otree_inv (<) string_prio (tree_run ops)"
  using fold_tree_step [of OLeaf ops] by (simp add: tree_run_def otree_inv_def)

lemma sorted_entries_unique:
  assumes "sorted_wrt (<) (map fst es)" "sorted_wrt (<) (map fst fs)" "map_of es = map_of fs"
  shows "es = (fs :: (string \<times> 'v) list)"
proof -
  have d: "distinct (map fst es)" "distinct (map fst fs)"
    using assms(1,2) string_tree.sorted_keys_distinct by blast+
  have "set es = set fs"
    using assms(3) d by (metis map_of_eq_Some_iff subrelI subset_antisym)
  moreover have "sorted (map fst es)" "sorted (map fst fs)"
    using assms(1,2) by (simp_all add: strict_sorted_iff)
  moreover have "distinct es" "distinct fs" using d by (simp_all add: distinct_map)
  moreover have "inj_on fst (set es)" using d(1) by (simp add: distinct_map)
  ultimately show ?thesis using map_sorted_distinct_set_unique [of fst es fs] d by (metis Un_absorb)
qed

text \<open>
  C17. An ordered tree is the finite map its puts and deletions describe, its entries come in strictly
  ascending key order, and its shape depends on nothing else: two histories with the same map leave the
  same tree.
\<close>

theorem ordered_tree_is_map:
  fixes ops ops' :: "(string, 'v) tree_op list"
  shows "map_of (entries (tree_run ops)) = fold map_step ops Map.empty \<and>
    sorted_wrt (<) (otree_keys (tree_run ops)) \<and>
    (tree_run ops = tree_run ops' \<longleftrightarrow> fold map_step ops Map.empty = fold map_step ops' Map.empty)"
proof -
  have m: "map_of (entries (tree_run o1)) = fold map_step o1 Map.empty" for o1 :: "(string, 'v) tree_op list"
    using fold_tree_step [of OLeaf o1] by (simp add: tree_run_def otree_inv_def)
  have s: "sorted_wrt (<) (map fst (entries (tree_run o1)))" for o1 :: "(string, 'v) tree_op list"
    using tree_run_inv [of o1] by (simp add: otree_inv_def otree_keys_def)
  have "tree_run ops = tree_run ops'" if "fold map_step ops Map.empty = fold map_step ops' Map.empty"
    using string_tree.canonical_shape [OF tree_run_inv tree_run_inv] sorted_entries_unique [OF s s] m that
    by metis
  with m s show ?thesis unfolding otree_keys_def by metis
qed

section \<open>Iterators\<close>

fun it_take :: "nat \<Rightarrow> ('k, 'v) orderedTreeIterator \<Rightarrow> ('k \<times> 'v) list" where
  "it_take 0 it = []"
| "it_take (Suc k) it = (case it_Next it of (None, it') \<Rightarrow> [] | (Some e, it') \<Rightarrow> e # it_take k it')"

lemma it_take_remaining: "it_take k it = take k (it_remaining it)"
proof (induction k arbitrary: it)
  case (Suc k)
  show ?case
  proof (cases "it_remaining it")
    case Nil
    with it_Next_remaining(1) [of it] show ?thesis by simp
  next
    case (Cons e es)
    with it_Next_remaining [of it] have "it_Next it = (Some e, snd (it_Next it))"
      "it_remaining (snd (it_Next it)) = es" by simp_all
    with Suc Cons show ?thesis by (metis (no_types, lifting) case_prod_conv it_take.simps(2) option.simps(5) take_Suc_Cons)
  qed
qed simp

text \<open>
  A page of at most \<open>k\<close> items after a cursor is the first \<open>k\<close> entries whose key is greater, in
  ascending order; before a cursor, the last \<open>k\<close> entries whose key is smaller, in descending order. A
  cursor need not be a stored key.
\<close>

theorem iterator_pages:
  "it_take k (IteratorAfter (<) (Some c) (tree_run ops)) =
     take k (filter (\<lambda>e. c < fst e) (entries (tree_run ops))) \<and>
   it_take k (IteratorBefore (<) (Some c) (tree_run ops)) =
     take k (rev (filter (\<lambda>e. fst e < c) (entries (tree_run ops)))) \<and>
   it_take k (IteratorAfter (<) None (tree_run ops)) = take k (entries (tree_run ops)) \<and>
   it_take k (IteratorBefore (<) None (tree_run ops)) = take k (rev (entries (tree_run ops)))"
  by (simp add: it_take_remaining string_tree.IteratorAfter_remaining string_tree.IteratorBefore_remaining
      tree_run_inv)

section \<open>The endpoint index\<close>

datatype ix_op = IxPut edge | IxDelete edge

fun ix_step :: "ix_op \<Rightarrow> memoryEdgeIndex \<Rightarrow> memoryEdgeIndex" where
  "ix_step (IxPut e) ix = snd (ix_Put None e ix)"
| "ix_step (IxDelete e) ix = snd (ix_Delete None e ix)"

fun endpoint_step :: "ix_op \<Rightarrow> endpoint_map \<Rightarrow> endpoint_map" where
  "endpoint_step (IxPut e) m = m(e_ID e \<mapsto> (e_FromID e, e_ToID e))"
| "endpoint_step (IxDelete e) m = m(e_ID e := None)"

lemma fold_ix_step:
  assumes "ix_inv ix"
  shows "ix_inv (fold ix_step ops ix) \<and>
    ix_endpoints (fold ix_step ops ix) = fold endpoint_step ops (ix_endpoints ix)"
  using assms
proof (induction ops arbitrary: ix)
  case (Cons op ops)
  have "ix_inv (ix_step op ix) \<and> ix_endpoints (ix_step op ix) = endpoint_step op (ix_endpoints ix)"
    using Cons(2) by (cases op) (simp_all add: mem.put_inv mem.put_endpoints mem.del_inv mem.del_endpoints)
  with Cons(1) show ?case by simp
qed simp

text \<open>
  C18. After any puts and deletions the index lists, in ascending order, exactly the edges whose current
  endpoint is the queried node; and an index rebuilt from edges answers as one that was given them one
  by one.
\<close>

theorem endpoint_index_answers:
  "ix_Incoming None n (fold ix_step ops NewMemoryEdgeIndex) =
     Inr (sorted_list_of_set (targets (fold endpoint_step ops Map.empty) n)) \<and>
   ix_Outgoing None n (fold ix_step ops NewMemoryEdgeIndex) =
     Inr (sorted_list_of_set (sources (fold endpoint_step ops Map.empty) n)) \<and>
   ix_Incoming None n (snd (ix_Rebuild None es ix)) =
     ix_Incoming None n (fold ix_step (map IxPut es) NewMemoryEdgeIndex) \<and>
   ix_Outgoing None n (snd (ix_Rebuild None es ix)) =
     ix_Outgoing None n (fold ix_step (map IxPut es) NewMemoryEdgeIndex)"
proof -
  have e: "ix_endpoints NewMemoryEdgeIndex = Map.empty" by (simp add: NewMemoryEdgeIndex_def)
  have puts: "fold ix_step (map IxPut es) NewMemoryEdgeIndex = fold (\<lambda>e ix. snd (ix_Put None e ix)) es NewMemoryEdgeIndex"
  proof -
    have "ix_step \<circ> IxPut = (\<lambda>e ix. snd (ix_Put None e ix))" by (intro ext) simp
    then show ?thesis by (simp only: fold_map)
  qed
  show ?thesis
    using mem.incoming mem.outgoing mem.rebuild_equiv [OF ix_inv_New e, where n = n and es = es and ix' = ix]
      fold_ix_step [OF ix_inv_New, of ops]
    unfolding puts by (simp add: ix_Incoming_def ix_Outgoing_def e)
qed

section \<open>Keys and cursors\<close>

text \<open>
  Every cursor the store hands out decodes to the key it stands for, so a scan resumes exactly there;
  and it is URL-safe text: letters, digits, minus and underscore.
\<close>

theorem cursor_is_key:
  "decodeIndexCursor (encodeIndexCursor key) = Some key \<and>
   set (encodeIndexCursor key) \<subseteq> set b64_alphabet"
proof -
  have "b64_char d \<in> set b64_alphabet" if "d < 64" for d
    using that b64_alphabet_facts by (simp add: b64_char_def)
  then have "set (b64_encode bs) \<subseteq> set b64_alphabet" for bs
    using b64_nums_less [of bs] unfolding b64_encode_nums by auto
  then have "set (encodeIndexCursor key) \<subseteq> set b64_alphabet" by (simp add: encodeIndexCursor_def)
  then show ?thesis by simp
qed

lemma ordered_key_less:
  assumes "uuid_string_ok us" "encodeSortableValue v = Some x" "encodeSortableValue w = Some y"
    and "length x = length y"
  shows "(the (encodeOrderedNodeKey us v i) < the (encodeOrderedNodeKey us w j) \<longleftrightarrow> x < y \<or> (x = y \<and> i < j))"
  using assms by (simp add: encodeOrderedNodeKey_def append_less_append_same_length uuid_string_ok_def)

lemma length_pad_dec: "n < 10 ^ w \<Longrightarrow> 0 < w \<Longrightarrow> length (pad_dec w n) = w"
  by (simp add: pad_dec_digits)

lemma length_sortable_uint: "length (encodeSortableUint a) = 22"
  using unat_u64_less [of a] length_pad_dec [of "unat a" 20] by (simp add: encodeSortableUint_def)

lemma sortable_uint_eq: "encodeSortableUint a = encodeSortableUint b \<longleftrightarrow> a = b"
  using sortable_uint_less by (metis linorder_neq_iff order_less_irrefl)

lemma xor_cancel: "a XOR c = b XOR c \<longleftrightarrow> a = (b :: u64)"
proof
  assume "a XOR c = b XOR c"
  then have "(a XOR c) XOR c = (b XOR c) XOR c" by (rule arg_cong)
  then show "a = b" by (simp add: xor.assoc)
qed simp

text \<open>Where a number is among the sortable keys: its kind, and its place among the keys of its kind.\<close>

fun number_text :: "gval \<Rightarrow> (string \<times> int) option" where
  "number_text (VFloat a) = Some (encodeSortableFloat a, if bit a 63 then 2 ^ 63 - 1 + float_rank a else 2 ^ 63 + float_rank a)"
| "number_text (VInt a) = Some (encodeSortableInt a, sint a + 2 ^ 63)"
| "number_text (VUint a) = Some (encodeSortableUint a, uint a)"
| "number_text _ = None"

fun is_float :: "gval \<Rightarrow> bool" where
  "is_float (VFloat a) = True"
| "is_float _ = False"

lemma sortable_float_less_iff:
  "encodeSortableFloat a < encodeSortableFloat b \<longleftrightarrow>
    (if bit a 63 then 2 ^ 63 - 1 + float_rank a else 2 ^ 63 + float_rank a) <
    (if bit b 63 then 2 ^ 63 - 1 + float_rank b else 2 ^ 63 + float_rank b)"
  unfolding encodeSortableFloat_def append_less_append_same_length [OF refl] hex16_less word_less_def sortable_float_key by simp

lemma flip_sign_add: "a XOR push_bit 63 1 = (a + 9223372036854775808 :: u64)"
proof -
  have "word_of_int (uint (a XOR push_bit 63 1 :: u64)) = (word_of_int (sint a + 2 ^ 63) :: u64)" by (simp only: flip_sign)
  then show ?thesis by (simp add: push_bit_eq_mult)
qed

lemma sortable_int_uint: "encodeSortableInt a = encodeSortableUint (a + 9223372036854775808)"
  by (simp only: encodeSortableInt_def flip_sign_add)

lemma uint_shifted: "uint (a + 9223372036854775808 :: u64) = sint a + 9223372036854775808"
  using flip_sign [of a] by (simp only: flip_sign_add) simp

lemma f_before_u: "CHR ''f'' < CHR ''u''" "\<not> CHR ''u'' < CHR ''f''"
  by code_simp+

lemma number_text_less:
  assumes "number_text v = Some (x, m)" "number_text w = Some (y, n)"
  shows "encodeSortableValue v = Some x" "x < y \<longleftrightarrow> (if is_float v = is_float w then m < n else is_float v)"
    "x = y \<longleftrightarrow> is_float v = is_float w \<and> m = n"
proof -
  show "encodeSortableValue v = Some x"
    using assms(1) by (cases v) (simp_all add: encodeSortableValue_def)
  have fu: "encodeSortableFloat a < encodeSortableUint b" "\<not> encodeSortableUint b < encodeSortableFloat a" for a b
    by (simp_all add: encodeSortableFloat_def encodeSortableUint_def f_before_u)
  have less: "number_text v = Some (x, m) \<Longrightarrow> number_text w = Some (y, n) \<Longrightarrow>
      x < y \<longleftrightarrow> (if is_float v = is_float w then m < n else is_float v)" for v w x y m n
    by (cases v; cases w)
      (auto simp: sortable_float_less_iff sortable_int_uint sortable_uint_less word_less_def uint_shifted fu)
  show "x < y \<longleftrightarrow> (if is_float v = is_float w then m < n else is_float v)" by (rule less [OF assms])
  then show "x = y \<longleftrightarrow> is_float v = is_float w \<and> m = n"
    using less [OF assms(2,1)] by (metis linorder_neq_iff)
qed

lemma number_key_less:
  assumes "uuid_string_ok us" "number_text v = Some (x, m)" "number_text w = Some (y, n)"
  shows "the (encodeOrderedNodeKey us v i) < the (encodeOrderedNodeKey us w j) \<longleftrightarrow>
    (if is_float v = is_float w then m < n \<or> m = n \<and> i < j else is_float v)"
proof -
  note t = number_text_less [OF assms(2,3)] number_text_less(1) [OF assms(3,2)]
  have shape: "length z = (if is_float u then 18 else 22) \<and> hd z = (if is_float u then CHR ''f'' else CHR ''u'')"
    if "number_text u = Some (z, k)" for u z k
    using that by (cases u) (auto simp: encodeSortableFloat_def hex16_def sortable_int_uint length_sortable_uint, simp_all add: encodeSortableUint_def)
  show ?thesis
  proof (cases "is_float v = is_float w")
    case True
    then have "length x = length y" using shape [OF assms(2)] shape [OF assms(3)] by simp
    from ordered_key_less [OF assms(1) t(1,4) this] show ?thesis using True t(2,3) by simp
  next
    case False
    then obtain xs ys where "x = (if is_float v then CHR ''f'' else CHR ''u'') # xs" "y = (if is_float v then CHR ''u'' else CHR ''f'') # ys"
      using shape [OF assms(2)] shape [OF assms(3)] by (cases x; cases y) (auto split: if_splits)
    with False t(1,4) show ?thesis by (auto simp: encodeOrderedNodeKey_def f_before_u)
  qed
qed

text \<open>
  C28. How the keys of numbers in a property index are ordered, ties by node. Two signed integers, two
  unsigned ones, or two floats are in the order of their values (floats by sign and magnitude, the negative
  zero before the other). Numbers of different kinds are not: every float is before every integer, and a signed
  integer is among the unsigned ones at its value plus \<open>2 ^ 63\<close>, behind all smaller than that.
\<close>

theorem property_keys_ordered:
  assumes "uuid_string_ok us"
  defines "key \<equiv> \<lambda>v i. the (encodeOrderedNodeKey us v i)"
  shows "(key (VInt a) i < key (VInt b) j \<longleftrightarrow> sint a < sint b \<or> a = b \<and> i < j) \<and>
    (key (VUint a) i < key (VUint b) j \<longleftrightarrow> uint a < uint b \<or> a = b \<and> i < j) \<and>
    (key (VFloat a) i < key (VFloat b) j \<longleftrightarrow> float_rank a < float_rank b \<or>
      float_rank a = float_rank b \<and> bit a 63 \<and> \<not> bit b 63 \<or> a = b \<and> i < j) \<and>
    (key (VInt a) i < key (VUint b) j \<longleftrightarrow> sint a + 2 ^ 63 < uint b \<or> sint a + 2 ^ 63 = uint b \<and> i < j) \<and>
    (key (VUint a) i < key (VInt b) j \<longleftrightarrow> uint a < sint b + 2 ^ 63 \<or> uint a = sint b + 2 ^ 63 \<and> i < j) \<and>
    key (VFloat a) i < key (VInt b) j \<and> key (VFloat a) i < key (VUint b) j"
proof -
  note less = number_key_less [OF assms(1)]
  have split: "c = d \<longleftrightarrow> take_bit 63 c = take_bit 63 d \<and> bit c 63 = bit d 63" for c d :: u64
    using uint_sign_split [of c] uint_sign_split [of d] by (auto intro: word_uint_eqI)
  have eq: "take_bit 63 c = take_bit 63 d \<longleftrightarrow> uint (take_bit 63 c) = uint (take_bit 63 d)" for c d :: u64
    by (simp add: word_uint_eq_iff)
  have "key (VInt a) i < key (VInt b) j \<longleftrightarrow> sint a < sint b \<or> a = b \<and> i < j"
    using less [of "VInt a" _ _ "VInt b"] by (auto simp: key_def dest: signed_word_eqI)
  moreover have "key (VUint a) i < key (VUint b) j \<longleftrightarrow> uint a < uint b \<or> a = b \<and> i < j"
    using less [of "VUint a" _ _ "VUint b"] by (auto simp: key_def intro: word_uint_eqI)
  moreover have "key (VFloat a) i < key (VFloat b) j \<longleftrightarrow> float_rank a < float_rank b \<or>
      float_rank a = float_rank b \<and> bit a 63 \<and> \<not> bit b 63 \<or> a = b \<and> i < j"
  proof -
    define x y where "x = uint (take_bit 63 a)" and "y = uint (take_bit 63 b)"
    have "0 \<le> x" "0 \<le> y" "a = b \<longleftrightarrow> x = y \<and> bit a 63 = bit b 63" using split [of a b] by (simp_all add: x_def y_def eq)
    moreover have "float_rank a = (if bit a 63 then - x else x)" "float_rank b = (if bit b 63 then - y else y)"
      by (simp_all add: float_rank_def x_def y_def)
    ultimately show ?thesis using less [of "VFloat a" _ _ "VFloat b" _ _ i j] by (auto simp: key_def)
  qed
  ultimately show ?thesis
    using less [of "VInt a" _ _ "VUint b" _ _ i j] less [of "VUint a" _ _ "VInt b" _ _ i j]
      less [of "VFloat a" _ _ "VInt b" _ _ i j] less [of "VFloat a" _ _ "VUint b" _ _ i j]
    by (auto simp: key_def)
qed

text \<open>The canonical text of an identifier, for the witnesses: groups of 8, 4, 4, 4 and 12 hex digits.\<close>

definition uuid_canonical :: "uuid \<Rightarrow> string" where
  "uuid_canonical u =
     (let h = map hex_char (digits_fix 16 32 (unat u))
      in take 8 h @ ''-'' @ take 4 (drop 8 h) @ ''-'' @ take 4 (drop 12 h) @ ''-'' @ take 4 (drop 16 h)
         @ ''-'' @ drop 20 h)"

lemma grouped_less:
  fixes h k :: string
  assumes "length h = 32" "length k = 32"
  defines "g \<equiv> \<lambda>h. take 8 h @ ''-'' @ take 4 (drop 8 h) @ ''-'' @ take 4 (drop 12 h) @ ''-''
    @ take 4 (drop 16 h) @ ''-'' @ drop 20 h"
  shows "g h < g k \<longleftrightarrow> h < k"
proof -
  have "x = take 8 x @ take 4 (drop 8 x) @ take 4 (drop 12 x) @ take 4 (drop 16 x) @ drop 20 x" for x :: string
    by (simp add: take_drop [symmetric] add.commute flip: append_assoc take_add)
  note this [of h] this [of k]
  moreover have "take 8 h @ take 4 (drop 8 h) @ take 4 (drop 12 h) @ take 4 (drop 16 h) @ drop 20 h
      < take 8 k @ take 4 (drop 8 k) @ take 4 (drop 12 k) @ take 4 (drop 16 k) @ drop 20 k \<longleftrightarrow> g h < g k"
    using assms(1,2) by (simp add: g_def append_less_append_same_length)
  ultimately show ?thesis by simp
qed

lemma nul_not_dash: "char_of (0::nat) \<noteq> CHR ''-''"
  by code_simp

lemma uuid_canonical_ok: "uuid_string_ok uuid_canonical"
proof -
  have less: "uuid_canonical a < uuid_canonical b \<longleftrightarrow> a < b" for a b
  proof -
    have "unat u < 16 ^ 32" for u :: uuid using unsigned_less [of u, where ?'a = nat] by simp
    then have "map hex_char (digits_fix 16 32 (unat a)) < map hex_char (digits_fix 16 32 (unat b)) \<longleftrightarrow> a < b"
      using map_char_less_iff [of 16 hex_char "unat a" 32 "unat b"] hex_char_less by (simp add: word_less_nat_alt)
    then show ?thesis unfolding uuid_canonical_def Let_def by (subst grouped_less) simp_all
  qed
  have "char_of (0::nat) \<notin> set (map hex_char (digits_fix 16 32 n))" for n
  proof -
    have "hex_char d \<noteq> char_of (0::nat)" if "d < 16" for d
      using hex_val_char [OF that] by (auto simp: hex_val_def)
    then show ?thesis using digits_fix_less_base [of 16] by fastforce
  qed
  then have "char_of (0::nat) \<notin> set (uuid_canonical u)" for u
    by (auto simp: uuid_canonical_def Let_def nul_not_dash dest: in_set_takeD in_set_dropD simp del: set_map)
  with less show ?thesis by (simp add: uuid_string_ok_def uuid_canonical_def Let_def)
qed

theorem property_keys_ordered_witness:
  "the (encodeOrderedNodeKey uuid_canonical (VInt (- 5)) 9) < the (encodeOrderedNodeKey uuid_canonical (VInt 3) 1) \<and>
   the (encodeOrderedNodeKey uuid_canonical (VUint 5) 9) < the (encodeOrderedNodeKey uuid_canonical (VInt (- 1)) 1)"
  using property_keys_ordered [OF uuid_canonical_ok, of "- 5" 9 3 1] property_keys_ordered [OF uuid_canonical_ok, of 5 9 "- 1" 1]
  by simp

lemma fraction_shape: "0 < k \<Longrightarrow> \<exists>rest. fraction k = CHR ''.'' # rest"
  by (simp add: fraction_def)

lemma sint_add_small:
  fixes n :: u64
  assumes "0 \<le> k" "k < 1000000000" "sint n + k < 2 ^ 63"
  shows "sint (n + word_of_int k) = sint n + k"
proof -
  have "- (2 ^ 63) \<le> sint n" using sint_ge [of n] by simp
  moreover have "sint (word_of_int k :: u64) = k"
    using assms by (simp add: signed_of_int signed_take_bit_int_eq_self)
  ultimately show ?thesis
    using assms by (simp add: sint_word_ariths signed_take_bit_int_eq_self)
qed

lemma second_split:
  fixes m k :: int
  assumes "m mod b = 0" "0 \<le> k" "k < b"
  shows "(m + k) div b = m div b" "(m + k) mod b = k"
proof -
  obtain q where "m = b * q" using assms(1) by (auto simp: mod_eq_0_iff_dvd dvd_def)
  then show "(m + k) div b = m div b" "(m + k) mod b = k"
    using assms(2,3) by simp_all
qed

lemma format_fraction:
  assumes "sint n mod 1000000000 = 0" "0 \<le> k" "k < 1000000000" "sint n + k < 2 ^ 63"
  shows "\<exists>pre. format_rfc3339nano (AtNano n) = pre @ ''Z'' \<and>
    format_rfc3339nano (AtNano (n + word_of_int k)) = pre @ fraction (nat k) @ ''Z''"
proof -
  define pre where "pre = (\<lambda>secs. let tod = secs mod 86400 in
     case civil_from_days (secs div 86400) of
       (y, mo, d) \<Rightarrow> pad_int 4 y @ ''-'' @ pad_int 2 mo @ ''-'' @ pad_int 2 d @ ''T''
         @ pad_int 2 (tod div 3600) @ '':'' @ pad_int 2 (tod div 60 mod 60) @ '':'' @ pad_int 2 (tod mod 60))"
  have fmt: "format_rfc3339nano (AtNano x) =
      pre (sint x div 1000000000) @ fraction (nat (sint x mod 1000000000)) @ ''Z''" for x
    unfolding format_rfc3339nano.simps pre_def Let_def
    by (cases "civil_from_days (sint x div 1000000000 div 86400)") (simp only: prod.case append_assoc)
  have "sint (n + word_of_int k) = sint n + k"
    using assms by (intro sint_add_small) simp_all
  with second_split [OF assms(1-3)] assms(1) have
    "format_rfc3339nano (AtNano (n + word_of_int k)) = pre (sint n div 1000000000) @ fraction (nat k) @ ''Z''"
    "format_rfc3339nano (AtNano n) = pre (sint n div 1000000000) @ fraction 0 @ ''Z''"
    unfolding fmt by (simp_all only: nat_zero_as_int)
  moreover have "fraction 0 = []" by (simp add: fraction_def)
  ultimately show ?thesis by simp
qed

text \<open>
  Keys of times are not ordered: within one second, the instant with a fraction sorts before the
  whole second, because \<open>time.RFC3339Nano\<close> drops the fraction of the latter and \<open>.\<close> precedes \<open>Z\<close>.
\<close>

theorem time_keys_misordered:
  assumes "sint n mod 1000000000 = 0" "0 < k" "k < 1000000000" "sint n + k < 2 ^ 63"
  shows "time_after (AtNano (n + word_of_int k)) (AtNano n) \<and>
    the (encodeSortableValue (VTime (AtNano (n + word_of_int k)))) < the (encodeSortableValue (VTime (AtNano n)))"
proof -
  have "sint (n + word_of_int k) = sint n + k"
    using assms by (intro sint_add_small) simp_all
  moreover obtain pre rest where "format_rfc3339nano (AtNano n) = pre @ ''Z''"
    "format_rfc3339nano (AtNano (n + word_of_int k)) = pre @ CHR ''.'' # rest"
    using format_fraction [of n k] fraction_shape [of "nat k"] assms by force
  moreover have "CHR ''.'' < CHR ''Z''" by code_simp
  ultimately show ?thesis
    using assms(2) by (simp add: encodeSortableValue_def append_less_append_same_length del: format_rfc3339nano.simps)
qed

theorem time_keys_misordered_witness:
  "the (encodeSortableValue (VTime (AtNano (1577836800000000000 + 500000000)))) <
   the (encodeSortableValue (VTime (AtNano 1577836800000000000)))"
  using time_keys_misordered [of 1577836800000000000 500000000] by simp

end
