(* ===== verification/Graph_Segment.thy ===== *)
theory Graph_Segment
  imports Encryption Entity_History
begin

text \<open>
  Segment files of the graph store (\<open>internal/graph/storage/segment.go\<close>): an eight-byte header, then
  records, each a 48-byte header with the CRC-32 of the payload and the payload. A scan reads records
  to the end and stops silently at a torn one. A file is its bytes; an append may stop after any number
  of bytes. The text form of identifiers and the record encryption are parameters, the latter the same
  interface as in the write-ahead log.
\<close>

datatype graph_error =
    ErrNotFound | ErrClosed | ErrInvalid string | ErrUnsupported | ErrTxnClosed | ErrConflict
  | ErrIdempotencyConflict | ErrIdempotencyCapacity | ErrSegmentEOF | ErrSegmentWrite
  | ErrSegmentEncryption | ErrNotReady | ErrHook | ErrSync | ErrIndexUnavailable | ErrContext ctx_error

definition segmentMagic :: bytes where "segmentMagic = bytes_of ''KSEG''"
definition recordMagic :: bytes where "recordMagic = bytes_of ''KREC''"
definition segmentVersion :: u16 where "segmentVersion = 1"
definition recordVersion :: u16 where "recordVersion = 1"
definition segmentHeaderLen :: nat where "segmentHeaderLen = 8"
definition recordHeaderLen :: nat where "recordHeaderLen = 48"

definition SegmentKindTxn :: byte where "SegmentKindTxn = 1"
definition SegmentKindNode :: byte where "SegmentKindNode = 2"
definition SegmentKindEdge :: byte where "SegmentKindEdge = 3"

definition RecordKindTxnBegin :: byte where "RecordKindTxnBegin = 1"
definition RecordKindTxnCommit :: byte where "RecordKindTxnCommit = 2"
definition RecordKindIdempotencyRestore :: byte where "RecordKindIdempotencyRestore = 3"
definition RecordKindIdempotencyDelivered :: byte where "RecordKindIdempotencyDelivered = 4"
definition RecordKindIdempotencyAcknowledged :: byte where "RecordKindIdempotencyAcknowledged = 5"
definition RecordKindIdempotencyRetained :: byte where "RecordKindIdempotencyRetained = 6"
definition RecordKindNodePut :: byte where "RecordKindNodePut = 10"
definition RecordKindNodeTombstone :: byte where "RecordKindNodeTombstone = 11"
definition RecordKindEdgePut :: byte where "RecordKindEdgePut = 20"
definition RecordKindEdgeTombstone :: byte where "RecordKindEdgeTombstone = 21"

lemmas segment_lens = segmentHeaderLen_def recordHeaderLen_def

record segment =
  sg_id :: string
  sg_kind :: byte
  sg_bytes :: bytes
  sg_enc :: "cipher_service option"

record recordHeader =
  rh_kind :: byte
  rh_txnID :: uuid
  rh_entityID :: uuid
  rh_payloadLen :: u32
  rh_crc :: u32

record scannedRecord =
  sc_header :: recordHeader
  sc_location :: RecordLocation
  sc_payload :: bytes

section \<open>Headers\<close>

definition segment_header :: "byte \<Rightarrow> bytes" where
  "segment_header kind = segmentMagic @ put_u16 segmentVersion @ [kind] @ [0]"

definition header_valid :: "byte \<Rightarrow> bytes \<Rightarrow> bool" where
  "header_valid kind h \<longleftrightarrow>
     bslice 0 4 h = segmentMagic \<and> get_u16 (bslice 4 6 h) = segmentVersion \<and> h ! 6 = kind"

text \<open>\<open>openSegment\<close>: a missing or empty file gets a header, any other must begin with a valid one.\<close>

definition openSegment ::
  "string \<Rightarrow> byte \<Rightarrow> cipher_service option \<Rightarrow> bytes option \<Rightarrow> graph_error + segment" where
  "openSegment name kind enc file =
     (case file of
        None \<Rightarrow> Inr \<lparr>sg_id = name, sg_kind = kind, sg_bytes = segment_header kind, sg_enc = enc\<rparr>
      | Some bs \<Rightarrow>
          if bs = [] then Inr \<lparr>sg_id = name, sg_kind = kind, sg_bytes = segment_header kind, sg_enc = enc\<rparr>
          else if length bs < segmentHeaderLen then Inl ErrSegmentEOF
          else if \<not> header_valid kind (take segmentHeaderLen bs) then Inl (ErrInvalid ''bad segment header'')
          else Inr \<lparr>sg_id = name, sg_kind = kind, sg_bytes = bs, sg_enc = enc\<rparr>)"

definition graphRecordAAD :: "(uuid \<Rightarrow> string) \<Rightarrow> string \<Rightarrow> byte \<Rightarrow> byte \<Rightarrow> uuid \<Rightarrow> uuid \<Rightarrow> bytes" where
  "graphRecordAAD us segID segKind recKind txnID entityID =
     bytes_of (''graph-segment:v1:segment='' @ segID @ '':segment_kind='' @ dec_string (unat segKind)
       @ '':record_kind='' @ dec_string (unat recKind) @ '':txn='' @ us txnID @ '':entity='' @ us entityID)"

section \<open>Appending\<close>

definition record_bytes :: "byte \<Rightarrow> uuid \<Rightarrow> uuid \<Rightarrow> bytes \<Rightarrow> bytes" where
  "record_bytes kind txnID entityID payload =
     recordMagic @ put_u16 recordVersion @ [kind] @ [0] @ put_uuid txnID @ put_uuid entityID
     @ put_u32 (of_nat (length payload)) @ put_u32 (crc32 ieee payload) @ payload"

definition encryptPayload ::
  "(uuid \<Rightarrow> string) \<Rightarrow> segment \<Rightarrow> byte \<Rightarrow> uuid \<Rightarrow> uuid \<Rightarrow> bytes \<Rightarrow> bytes option" where
  "encryptPayload us sg kind txnID entityID payload =
     (case sg_enc sg of
        None \<Rightarrow> Some payload
      | Some svc \<Rightarrow>
          if \<not> svc_Enabled svc then Some payload
          else svc_EncryptRecord svc payload (graphRecordAAD us (sg_id sg) (sg_kind sg) kind txnID entityID))"

definition appendRecord ::
  "(uuid \<Rightarrow> string) \<Rightarrow> write_outcome \<Rightarrow> byte \<Rightarrow> uuid \<Rightarrow> uuid \<Rightarrow> bytes \<Rightarrow> segment \<Rightarrow>
   (graph_error + RecordLocation) \<times> segment" where
  "appendRecord us w kind txnID entityID payload0 sg =
     (case encryptPayload us sg kind txnID entityID payload0 of
        None \<Rightarrow> (Inl ErrSegmentEncryption, sg)
      | Some payload \<Rightarrow>
          (case w of
             WroteFails k \<Rightarrow>
               (Inl ErrSegmentWrite, sg\<lparr>sg_bytes := sg_bytes sg @ take k (record_bytes kind txnID entityID payload)\<rparr>)
           | WroteAll \<Rightarrow>
               (Inr \<lparr>rl_Segment = sg_id sg, rl_Offset = int (length (sg_bytes sg)),
                     rl_Length = of_nat (recordHeaderLen + length payload)\<rparr>,
                sg\<lparr>sg_bytes := sg_bytes sg @ record_bytes kind txnID entityID payload\<rparr>)))"

section \<open>Scanning\<close>

definition decryptPayload ::
  "(uuid \<Rightarrow> string) \<Rightarrow> string \<Rightarrow> byte \<Rightarrow> cipher_service option \<Rightarrow> byte \<Rightarrow> uuid \<Rightarrow> uuid \<Rightarrow> bytes \<Rightarrow> bytes option" where
  "decryptPayload us name kind enc recKind txnID entityID payload =
     (case enc of
        None \<Rightarrow> Some payload
      | Some svc \<Rightarrow> svc_DecryptRecord svc payload (graphRecordAAD us name kind recKind txnID entityID))"

datatype scan_step = ScanEnd | ScanFail graph_error | ScanRecord scannedRecord bytes

text \<open>One turn of the scan loop at offset \<open>off\<close> with the rest \<open>r\<close> of the file.\<close>

definition scanRecord ::
  "(uuid \<Rightarrow> string) \<Rightarrow> string \<Rightarrow> byte \<Rightarrow> cipher_service option \<Rightarrow> nat \<Rightarrow> bytes \<Rightarrow> scan_step" where
  "scanRecord us name kind enc off r =
     (let h = take recordHeaderLen r; r1 = drop recordHeaderLen r in
      if length h < recordHeaderLen then ScanEnd
      else if bslice 0 4 h \<noteq> recordMagic \<or> get_u16 (bslice 4 6 h) \<noteq> recordVersion
      then ScanFail (ErrInvalid ''bad record header'')
      else
        (let recKind = h ! 6; txnID = get_uuid (bslice 8 24 h); entityID = get_uuid (bslice 24 40 h);
             l = get_u32 (bslice 40 44 h); crc = get_u32 (bslice 44 48 h);
             payload = take (unat l) r1
         in if length payload < unat l then ScanEnd
            else if crc32 ieee payload \<noteq> crc then ScanFail (ErrInvalid ''bad crc'')
            else (case decryptPayload us name kind enc recKind txnID entityID payload of
                    None \<Rightarrow> ScanFail ErrSegmentEncryption
                  | Some p \<Rightarrow>
                      ScanRecord
                        \<lparr>sc_header = \<lparr>rh_kind = recKind, rh_txnID = txnID, rh_entityID = entityID,
                           rh_payloadLen = l, rh_crc = crc\<rparr>,
                         sc_location = \<lparr>rl_Segment = name, rl_Offset = int off,
                           rl_Length = of_nat recordHeaderLen + l\<rparr>,
                         sc_payload = p\<rparr>
                        (drop (unat l) r1))))"

lemma scanRecord_shrinks: "scanRecord us name kind enc off r = ScanRecord rec r' \<Longrightarrow> length r' < length r"
  by (auto simp: scanRecord_def Let_def segment_lens split: if_splits option.splits)

text \<open>The records visited and the error that ended the scan, if any.\<close>

function scanRecords ::
  "(uuid \<Rightarrow> string) \<Rightarrow> string \<Rightarrow> byte \<Rightarrow> cipher_service option \<Rightarrow> nat \<Rightarrow> bytes \<Rightarrow>
   scannedRecord list \<times> graph_error option" where
  "scanRecords us name kind enc off r =
     (case scanRecord us name kind enc off r of
        ScanEnd \<Rightarrow> ([], None)
      | ScanFail e \<Rightarrow> ([], Some e)
      | ScanRecord rec r' \<Rightarrow>
          (case scanRecords us name kind enc (off + (length r - length r')) r' of
             (recs, e) \<Rightarrow> (rec # recs, e)))"
  by pat_completeness auto
termination
  by (relation "measure (\<lambda>(us, name, kind, enc, off, r). length r)")
    (auto dest!: sym [of _ "scanRecord _ _ _ _ _ _"] dest: scanRecord_shrinks)

declare scanRecords.simps [simp del]

definition scanSegmentFrom ::
  "(uuid \<Rightarrow> string) \<Rightarrow> string \<Rightarrow> byte \<Rightarrow> cipher_service option \<Rightarrow> nat \<Rightarrow> bytes \<Rightarrow>
   scannedRecord list \<times> graph_error option" where
  "scanSegmentFrom us name kind enc startOffset bs =
     (if length bs < segmentHeaderLen then ([], Some ErrSegmentEOF)
      else if \<not> header_valid kind (take segmentHeaderLen bs) then ([], Some (ErrInvalid ''bad segment header''))
      else (let off = max startOffset segmentHeaderLen in scanRecords us name kind enc off (drop off bs)))"

definition scanSegment ::
  "(uuid \<Rightarrow> string) \<Rightarrow> string \<Rightarrow> byte \<Rightarrow> cipher_service option \<Rightarrow> bytes \<Rightarrow>
   scannedRecord list \<times> graph_error option" where
  "scanSegment us name kind enc bs = scanSegmentFrom us name kind enc segmentHeaderLen bs"

section \<open>What a scan finds\<close>

record seg_rec =
  sr_kind :: byte
  sr_txn :: uuid
  sr_entity :: uuid
  sr_stored :: bytes

definition seg_rec_bytes :: "seg_rec \<Rightarrow> bytes" where
  "seg_rec_bytes r = record_bytes (sr_kind r) (sr_txn r) (sr_entity r) (sr_stored r)"

definition recs_bytes :: "seg_rec list \<Rightarrow> bytes" where
  "recs_bytes rs = concat (map seg_rec_bytes rs)"

lemma recs_bytes_simps [simp]:
  "recs_bytes [] = []" "recs_bytes (r # rs) = seg_rec_bytes r @ recs_bytes rs"
  "recs_bytes (rs @ rs') = recs_bytes rs @ recs_bytes rs'"
  by (simp_all add: recs_bytes_def)

lemma length_record_bytes: "length (record_bytes k t e p) = recordHeaderLen + length p"
  by (simp add: record_bytes_def recordMagic_def recordHeaderLen_def)

definition scanned_of ::
  "(uuid \<Rightarrow> string) \<Rightarrow> string \<Rightarrow> byte \<Rightarrow> cipher_service option \<Rightarrow> nat \<Rightarrow> seg_rec \<Rightarrow> bytes \<Rightarrow> scannedRecord" where
  "scanned_of us name kind enc off r p =
     \<lparr>sc_header = \<lparr>rh_kind = sr_kind r, rh_txnID = sr_txn r, rh_entityID = sr_entity r,
        rh_payloadLen = of_nat (length (sr_stored r)), rh_crc = crc32 ieee (sr_stored r)\<rparr>,
      sc_location = \<lparr>rl_Segment = name, rl_Offset = int off,
        rl_Length = of_nat (recordHeaderLen + length (sr_stored r))\<rparr>,
      sc_payload = p\<rparr>"

lemma record_header_slices:
  fixes k :: byte and t e :: uuid and l c :: u32
  defines "h \<equiv> recordMagic @ put_u16 recordVersion @ [k] @ [0] @ put_uuid t @ put_uuid e
     @ put_u32 l @ put_u32 c"
  shows "bslice 0 4 h = recordMagic" "bslice 4 6 h = put_u16 recordVersion" "h ! 6 = k"
    "bslice 8 24 h = put_uuid t" "bslice 24 40 h = put_uuid e" "bslice 40 44 h = put_u32 l"
    "bslice 44 48 h = put_u32 c" "length h = 48"
  unfolding h_def by (simp_all add: bslice_def recordMagic_def nth_append)

lemma scanRecord_record:
  assumes "length (sr_stored r) < 2 ^ 32"
    and "decryptPayload us name kind enc (sr_kind r) (sr_txn r) (sr_entity r) (sr_stored r) = Some p"
  shows "scanRecord us name kind enc off (seg_rec_bytes r @ rest) =
    ScanRecord (scanned_of us name kind enc off r p) rest"
proof -
  have l: "unat (of_nat (length (sr_stored r)) :: u32) = length (sr_stored r)"
    using assms(1) by (rule unat_of_nat_small)
  let ?h = "recordMagic @ put_u16 recordVersion @ [sr_kind r] @ [0] @ put_uuid (sr_txn r) @ put_uuid (sr_entity r)
     @ put_u32 (of_nat (length (sr_stored r))) @ put_u32 (crc32 ieee (sr_stored r))"
  note s = record_header_slices [of "sr_kind r" "sr_txn r" "sr_entity r" "of_nat (length (sr_stored r))"
      "crc32 ieee (sr_stored r)"]
  have split: "seg_rec_bytes r @ rest = ?h @ sr_stored r @ rest"
    by (simp add: seg_rec_bytes_def record_bytes_def)
  have th: "take recordHeaderLen (?h @ sr_stored r @ rest) = ?h"
    "drop recordHeaderLen (?h @ sr_stored r @ rest) = sr_stored r @ rest"
    using s(8) by (simp_all add: recordHeaderLen_def)
  have tp: "take (length (sr_stored r)) (sr_stored r @ rest) = sr_stored r"
    "drop (length (sr_stored r)) (sr_stored r @ rest) = rest" by simp_all
  show ?thesis
    unfolding split scanRecord_def Let_def th s get_put l tp
    using assms(2) by (simp add: recordHeaderLen_def scanned_of_def)
qed

text \<open>The scanned records of a list, with their offsets.\<close>

fun scanned_list ::
  "(uuid \<Rightarrow> string) \<Rightarrow> string \<Rightarrow> byte \<Rightarrow> cipher_service option \<Rightarrow> nat \<Rightarrow> seg_rec list \<Rightarrow> scannedRecord list" where
  "scanned_list us name kind enc off [] = []"
| "scanned_list us name kind enc off (r # rs) =
     scanned_of us name kind enc off r
       (the (decryptPayload us name kind enc (sr_kind r) (sr_txn r) (sr_entity r) (sr_stored r)))
     # scanned_list us name kind enc (off + length (seg_rec_bytes r)) rs"

definition scannable :: "(uuid \<Rightarrow> string) \<Rightarrow> string \<Rightarrow> byte \<Rightarrow> cipher_service option \<Rightarrow> seg_rec \<Rightarrow> bool" where
  "scannable us name kind enc r \<longleftrightarrow>
     length (sr_stored r) < 2 ^ 32 \<and>
     decryptPayload us name kind enc (sr_kind r) (sr_txn r) (sr_entity r) (sr_stored r) \<noteq> None"

lemma scanRecords_recs:
  assumes "list_all (scannable us name kind enc) rs"
  shows "scanRecords us name kind enc off (recs_bytes rs @ rest) =
    (case scanRecords us name kind enc (off + length (recs_bytes rs)) rest of
       (tl_recs, e) \<Rightarrow> (scanned_list us name kind enc off rs @ tl_recs, e))"
  using assms
proof (induction rs arbitrary: off)
  case (Cons r rs)
  then obtain p where p: "length (sr_stored r) < 2 ^ 32"
    "decryptPayload us name kind enc (sr_kind r) (sr_txn r) (sr_entity r) (sr_stored r) = Some p"
    by (auto simp: scannable_def)
  note step = scanRecord_record [OF p, of off "recs_bytes rs @ rest"]
  have "scanRecords us name kind enc off (recs_bytes (r # rs) @ rest) =
      (case scanRecords us name kind enc (off + length (seg_rec_bytes r)) (recs_bytes rs @ rest) of
         (recs, e) \<Rightarrow> (scanned_of us name kind enc off r p # recs, e))"
    by (subst scanRecords.simps) (simp add: step)
  with Cons p(2) show ?case by (simp add: add.assoc split: prod.split)
qed simp

lemma scanRecords_torn:
  assumes "length (sr_stored r) < 2 ^ 32" "k < length (seg_rec_bytes r)"
  shows "scanRecords us name kind enc off (take k (seg_rec_bytes r)) = ([], None)"
proof -
  let ?h = "recordMagic @ put_u16 recordVersion @ [sr_kind r] @ [0] @ put_uuid (sr_txn r) @ put_uuid (sr_entity r)
     @ put_u32 (of_nat (length (sr_stored r))) @ put_u32 (crc32 ieee (sr_stored r))"
  note s = record_header_slices [of "sr_kind r" "sr_txn r" "sr_entity r" "of_nat (length (sr_stored r))"
      "crc32 ieee (sr_stored r)"]
  have l: "unat (of_nat (length (sr_stored r)) :: u32) = length (sr_stored r)"
    using assms(1) by (rule unat_of_nat_small)
  have split: "seg_rec_bytes r = ?h @ sr_stored r"
    by (simp add: seg_rec_bytes_def record_bytes_def)
  have "scanRecord us name kind enc off (take k (seg_rec_bytes r)) = ScanEnd"
  proof (cases "k < 48")
    case True
    then have "length (take recordHeaderLen (take k (seg_rec_bytes r))) < recordHeaderLen"
      by (simp add: recordHeaderLen_def)
    then show ?thesis unfolding scanRecord_def Let_def by simp
  next
    case False
    then have tk: "take k (seg_rec_bytes r) = ?h @ take (k - 48) (sr_stored r)"
      unfolding split take_append s(8) using s(8) by (subst take_all) simp_all
    have short: "k - 48 < length (sr_stored r)"
      using assms(2) False by (simp add: seg_rec_bytes_def length_record_bytes recordHeaderLen_def)
    have th: "take recordHeaderLen (?h @ take (k - 48) (sr_stored r)) = ?h"
      "drop recordHeaderLen (?h @ take (k - 48) (sr_stored r)) = take (k - 48) (sr_stored r)"
      using s(8) by (simp_all add: recordHeaderLen_def)
    show ?thesis
      unfolding tk scanRecord_def Let_def th s get_put l
      using short by (simp add: recordHeaderLen_def)
  qed
  then show ?thesis by (subst scanRecords.simps) simp
qed

lemma scanRecords_Nil [simp]: "scanRecords us name kind enc off [] = ([], None)"
  by (subst scanRecords.simps) (simp add: scanRecord_def recordHeaderLen_def)

lemma header_valid_header [simp]: "header_valid kind (segment_header kind)"
  by (simp add: header_valid_def segment_header_def segmentMagic_def bslice_def nth_append)

lemma length_segment_header [simp]: "length (segment_header kind) = segmentHeaderLen"
  by (simp add: segment_header_def segmentMagic_def segmentHeaderLen_def)

lemma scanSegment_header:
  "scanSegment us name kind enc (segment_header kind @ bs) = scanRecords us name kind enc segmentHeaderLen bs"
  by (simp add: scanSegment_def scanSegmentFrom_def)

lemma openSegment_header:
  "openSegment name kind enc (Some (segment_header kind @ bs)) =
     Inr \<lparr>sg_id = name, sg_kind = kind, sg_bytes = segment_header kind @ bs, sg_enc = enc\<rparr>"
proof -
  have "segment_header kind @ bs \<noteq> []" by (simp add: segment_header_def)
  then show ?thesis by (simp add: openSegment_def)
qed

text \<open>A stray byte in front of a record: its header is misread.\<close>

lemma scan_stray_byte:
  "scanRecord us name kind enc off (take 1 (seg_rec_bytes r) @ seg_rec_bytes r' @ rest) =
     ScanFail (ErrInvalid ''bad record header'')"
proof -
  have m: "seg_rec_bytes q = [0x4b, 0x52, 0x45, 0x43] @ drop 4 (seg_rec_bytes q)" for q
    by (simp add: seg_rec_bytes_def record_bytes_def recordMagic_def bytes_of_def)
  have len: "48 \<le> length (seg_rec_bytes r')"
    by (simp add: seg_rec_bytes_def length_record_bytes recordHeaderLen_def)
  define bs where "bs = take 1 (seg_rec_bytes r) @ seg_rec_bytes r' @ rest"
  have "bs = [0x4b, 0x4b, 0x52, 0x45] @ [0x43] @ drop 4 (seg_rec_bytes r') @ rest"
    unfolding bs_def by (subst (1 2) m) simp
  then have "bslice 0 4 (take recordHeaderLen bs) = [0x4b, 0x4b, 0x52, 0x45]"
    by (simp add: bslice_def recordHeaderLen_def)
  then have "bslice 0 4 (take recordHeaderLen bs) \<noteq> recordMagic"
    by (simp add: recordMagic_def bytes_of_def)
  moreover have "recordHeaderLen \<le> length bs" using len by (simp add: bs_def recordHeaderLen_def)
  ultimately show ?thesis unfolding bs_def [symmetric] by (simp add: scanRecord_def Let_def)
qed

text \<open>What \<open>appendRecord\<close> stores for a payload, and that the scan accepts it.\<close>

lemma appendRecord_all:
  assumes "encryptPayload us sg k t e p = Some q"
  shows "appendRecord us WroteAll k t e p sg =
    (Inr \<lparr>rl_Segment = sg_id sg, rl_Offset = int (length (sg_bytes sg)),
       rl_Length = of_nat (recordHeaderLen + length q)\<rparr>,
     sg\<lparr>sg_bytes := sg_bytes sg @ seg_rec_bytes \<lparr>sr_kind = k, sr_txn = t, sr_entity = e, sr_stored = q\<rparr>\<rparr>)"
  using assms by (simp add: appendRecord_def seg_rec_bytes_def)

lemma appendRecord_fails:
  assumes "encryptPayload us sg k t e p = Some q"
  shows "appendRecord us (WroteFails n) k t e p sg =
    (Inl ErrSegmentWrite,
     sg\<lparr>sg_bytes := sg_bytes sg @ take n (seg_rec_bytes \<lparr>sr_kind = k, sr_txn = t, sr_entity = e, sr_stored = q\<rparr>)\<rparr>)"
  using assms by (simp add: appendRecord_def seg_rec_bytes_def)

end
