(* ===== verification/Segment_Facts.thy ===== *)
theory Segment_Facts
  imports Graph_Segment
begin

text \<open>
  Segment files as lists of records: what a file holds, what an append adds to it, and what a torn tail
  does to a scan.
\<close>

text \<open>A segment file that holds exactly the records \<open>rs\<close>, all readable.\<close>

definition segment_holds :: "(uuid \<Rightarrow> string) \<Rightarrow> segment \<Rightarrow> seg_rec list \<Rightarrow> bool" where
  "segment_holds us sg rs \<longleftrightarrow>
     sg_bytes sg = segment_header (sg_kind sg) @ recs_bytes rs \<and>
     list_all (scannable us (sg_id sg) (sg_kind sg) (sg_enc sg)) rs"

definition scan :: "(uuid \<Rightarrow> string) \<Rightarrow> segment \<Rightarrow> scannedRecord list \<times> graph_error option" where
  "scan us sg = scanSegment us (sg_id sg) (sg_kind sg) (sg_enc sg) (sg_bytes sg)"

lemma scan_holds:
  assumes "segment_holds us sg rs"
  shows "scan us sg = (scanned_list us (sg_id sg) (sg_kind sg) (sg_enc sg) segmentHeaderLen rs, None)"
    and "scan us (sg\<lparr>sg_bytes := sg_bytes sg @ t\<rparr>) =
      (case scanRecords us (sg_id sg) (sg_kind sg) (sg_enc sg) (length (sg_bytes sg)) t of
         (tl_recs, e) \<Rightarrow> (fst (scan us sg) @ tl_recs, e))"
  using assms scanRecords_recs [of us "sg_id sg" "sg_kind sg" "sg_enc sg" rs segmentHeaderLen "[]"]
    scanRecords_recs [of us "sg_id sg" "sg_kind sg" "sg_enc sg" rs segmentHeaderLen t]
  by (auto simp: scan_def segment_holds_def scanSegment_header split: prod.split)

lemma openSegment_holds:
  assumes "segment_holds us sg rs"
  shows "openSegment (sg_id sg) (sg_kind sg) (sg_enc sg) (Some (sg_bytes sg @ t)) = Inr (sg\<lparr>sg_bytes := sg_bytes sg @ t\<rparr>)"
  using assms by (cases sg) (simp add: segment_holds_def openSegment_header)

lemma encryptPayload_bytes [simp]:
  "encryptPayload us (sg\<lparr>sg_bytes := b\<rparr>) k t e p = encryptPayload us sg k t e p"
  by (simp add: encryptPayload_def cong: option.case_cong if_cong)

lemma stored_decrypts:
  assumes "cipher_ok (sg_enc sg) p" "encryptPayload us sg k t e p = Some q"
  shows "decryptPayload us (sg_id sg) (sg_kind sg) (sg_enc sg) k t e q = Some p"
  using assms by (auto simp: cipher_ok_def encryptPayload_def decryptPayload_def split: option.splits if_splits)


lemma scanned_list_append:
  "scanned_list us name kind enc off (rs @ rs') =
   scanned_list us name kind enc off rs @ scanned_list us name kind enc (off + length (recs_bytes rs)) rs'"
  by (induction rs arbitrary: off) (simp_all add: add.assoc)

text \<open>An append adds one record, at the end of the file.\<close>

lemma append_holds:
  fixes sg :: segment
  assumes "segment_holds us sg rs" "cipher_ok (sg_enc sg) p"
    and "encryptPayload us sg k t e p = Some q" "length q < 2 ^ 32"
  defines "r \<equiv> \<lparr>sr_kind = k, sr_txn = t, sr_entity = e, sr_stored = q\<rparr>"
  defines "new \<equiv> scanned_of us (sg_id sg) (sg_kind sg) (sg_enc sg) (length (sg_bytes sg)) r p"
  shows "appendRecord us WroteAll k t e p sg = (Inr (sc_location new), sg\<lparr>sg_bytes := sg_bytes sg @ seg_rec_bytes r\<rparr>)"
    and "scan us (sg\<lparr>sg_bytes := sg_bytes sg @ seg_rec_bytes r\<rparr>) = (fst (scan us sg) @ [new], None)"
    and "segment_holds us (sg\<lparr>sg_bytes := sg_bytes sg @ seg_rec_bytes r\<rparr>) (rs @ [r])"
proof -
  note dec = stored_decrypts [OF assms(2,3)]
  show "appendRecord us WroteAll k t e p sg = (Inr (sc_location new), sg\<lparr>sg_bytes := sg_bytes sg @ seg_rec_bytes r\<rparr>)"
    by (simp add: appendRecord_all [OF assms(3)] new_def r_def scanned_of_def)
  have "scanRecords us (sg_id sg) (sg_kind sg) (sg_enc sg) (length (sg_bytes sg)) (seg_rec_bytes r) = ([new], None)"
    using scanRecord_record [of r us "sg_id sg" "sg_kind sg" "sg_enc sg" p _ "[]"] assms(4) dec
    by (subst scanRecords.simps) (simp add: new_def r_def)
  then show "scan us (sg\<lparr>sg_bytes := sg_bytes sg @ seg_rec_bytes r\<rparr>) = (fst (scan us sg) @ [new], None)"
    unfolding scan_holds(2) [OF assms(1)] by simp
  show "segment_holds us (sg\<lparr>sg_bytes := sg_bytes sg @ seg_rec_bytes r\<rparr>) (rs @ [r])"
    using assms(1,4) dec by (simp add: segment_holds_def scannable_def r_def)
qed

section \<open>Torn tails\<close>

text \<open>A segment file whose scan finds exactly the records \<open>rs\<close>, a torn record behind them or not.\<close>

definition segment_reads :: "(uuid \<Rightarrow> string) \<Rightarrow> segment \<Rightarrow> seg_rec list \<Rightarrow> bool" where
  "segment_reads us sg rs \<longleftrightarrow>
     (\<exists>t. sg_bytes sg = segment_header (sg_kind sg) @ recs_bytes rs @ t \<and>
        list_all (scannable us (sg_id sg) (sg_kind sg) (sg_enc sg)) rs \<and>
        (\<forall>off. scanRecords us (sg_id sg) (sg_kind sg) (sg_enc sg) off t = ([], None)))"

definition seg_frame :: "segment \<Rightarrow> segment \<Rightarrow> bool" where
  "seg_frame a b \<longleftrightarrow> sg_id b = sg_id a \<and> sg_kind b = sg_kind a \<and> sg_enc b = sg_enc a"

lemma seg_frame_refl [simp]: "seg_frame a a"
  by (simp add: seg_frame_def)

lemma seg_frame_trans: "seg_frame a b \<Longrightarrow> seg_frame b c \<Longrightarrow> seg_frame a c"
  by (simp add: seg_frame_def)

lemma seg_frame_encrypt: "seg_frame a b \<Longrightarrow> encryptPayload us b = encryptPayload us a"
  by (simp add: seg_frame_def encryptPayload_def fun_eq_iff cong: option.case_cong if_cong)

lemma segment_holds_reads: "segment_holds us sg rs \<Longrightarrow> segment_reads us sg rs"
  unfolding segment_holds_def segment_reads_def by (intro exI [of _ "[]"]) simp

lemma reads_scan:
  assumes "segment_reads us sg rs"
  shows "scanSegment us (sg_id sg) (sg_kind sg) (sg_enc sg) (sg_bytes sg) =
      (scanned_list us (sg_id sg) (sg_kind sg) (sg_enc sg) segmentHeaderLen rs, None)"
    and "openSegment (sg_id sg) (sg_kind sg) (sg_enc sg) (Some (sg_bytes sg)) = Inr sg"
proof -
  from assms obtain t where t: "sg_bytes sg = segment_header (sg_kind sg) @ recs_bytes rs @ t"
    "list_all (scannable us (sg_id sg) (sg_kind sg) (sg_enc sg)) rs"
    "\<forall>off. scanRecords us (sg_id sg) (sg_kind sg) (sg_enc sg) off t = ([], None)"
    by (auto simp: segment_reads_def)
  show "scanSegment us (sg_id sg) (sg_kind sg) (sg_enc sg) (sg_bytes sg) =
      (scanned_list us (sg_id sg) (sg_kind sg) (sg_enc sg) segmentHeaderLen rs, None)"
    unfolding t(1) scanSegment_header scanRecords_recs [OF t(2)] using t(3) by simp
  show "openSegment (sg_id sg) (sg_kind sg) (sg_enc sg) (Some (sg_bytes sg)) = Inr sg"
    unfolding t(1) openSegment_header by (simp add: t(1) [symmetric])
qed

section \<open>Appends with any outcome\<close>

text \<open>What a payload needs to be stored and read back: the cipher undoes itself on it, and it fits the length field.\<close>

definition writable :: "(uuid \<Rightarrow> string) \<Rightarrow> segment \<Rightarrow> byte \<Rightarrow> uuid \<Rightarrow> uuid \<Rightarrow> bytes \<Rightarrow> bool" where
  "writable us sg k t e p \<longleftrightarrow>
     cipher_ok (sg_enc sg) p \<and> (\<forall>q. encryptPayload us sg k t e p = Some q \<longrightarrow> length q < 2 ^ 32)"

lemma writable_frame: "seg_frame a b \<Longrightarrow> writable us b k t e p \<longleftrightarrow> writable us a k t e p"
  by (simp add: writable_def seg_frame_encrypt) (simp add: seg_frame_def)

definition stored_rec :: "(uuid \<Rightarrow> string) \<Rightarrow> segment \<Rightarrow> uuid \<Rightarrow> byte \<Rightarrow> uuid \<Rightarrow> bytes \<Rightarrow> seg_rec" where
  "stored_rec us sg t k e p =
     \<lparr>sr_kind = k, sr_txn = t, sr_entity = e, sr_stored = the (encryptPayload us sg k t e p)\<rparr>"

lemma stored_rec_frame: "seg_frame a b \<Longrightarrow> stored_rec us b = stored_rec us a"
  by (simp add: stored_rec_def seg_frame_encrypt fun_eq_iff)

lemma sr_txn_stored [simp]: "sr_txn (stored_rec us sg t k e p) = t" "sr_kind (stored_rec us sg t k e p) = k"
  "sr_entity (stored_rec us sg t k e p) = e"
  by (simp_all add: stored_rec_def)

definition read_rec :: "(uuid \<Rightarrow> string) \<Rightarrow> segment \<Rightarrow> nat \<Rightarrow> uuid \<Rightarrow> byte \<Rightarrow> uuid \<Rightarrow> bytes \<Rightarrow> scannedRecord" where
  "read_rec us sg off t k e p =
     scanned_of us (sg_id sg) (sg_kind sg) (sg_enc sg) off (stored_rec us sg t k e p) p"

lemma append_cases:
  assumes holds: "segment_holds us sg rs" and wr: "writable us sg k t e p"
    and app: "appendRecord us w k t e p sg = (res, sg')"
  shows "seg_frame sg sg'"
    and "res = Inr loc \<Longrightarrow> segment_holds us sg' (rs @ [stored_rec us sg t k e p]) \<and>
      encryptPayload us sg k t e p \<noteq> None \<and> loc = sc_location (read_rec us sg (length (sg_bytes sg)) t k e p)"
    and "res = Inl err \<Longrightarrow> segment_reads us sg' rs \<or>
      segment_reads us sg' (rs @ [stored_rec us sg t k e p]) \<and> encryptPayload us sg k t e p \<noteq> None"
    and "res = Inl err \<Longrightarrow> w = WroteAll \<Longrightarrow> segment_holds us sg' rs"
proof -
  show "seg_frame sg sg'"
    using app by (auto simp: appendRecord_def seg_frame_def split: option.splits write_outcome.splits)
  have all: "appendRecord us WroteAll k t e p sg = (Inr (sc_location (read_rec us sg (length (sg_bytes sg)) t k e p)),
      sg\<lparr>sg_bytes := sg_bytes sg @ seg_rec_bytes (stored_rec us sg t k e p)\<rparr>)"
    "segment_holds us (sg\<lparr>sg_bytes := sg_bytes sg @ seg_rec_bytes (stored_rec us sg t k e p)\<rparr>)
      (rs @ [stored_rec us sg t k e p])" "length q < 2 ^ 32"
    if "encryptPayload us sg k t e p = Some q" for q
    using append_holds [OF holds _ that] wr that by (simp_all add: writable_def read_rec_def stored_rec_def)
  have none: "encryptPayload us sg k t e p = None \<Longrightarrow> (res, sg') = (Inl ErrSegmentEncryption, sg)"
    using app by (simp add: appendRecord_def)
  show "segment_holds us sg' (rs @ [stored_rec us sg t k e p]) \<and> encryptPayload us sg k t e p \<noteq> None \<and>
      loc = sc_location (read_rec us sg (length (sg_bytes sg)) t k e p)" if "res = Inr loc"
  proof (cases w)
    case WroteAll
    then show ?thesis using that app all none by (cases "encryptPayload us sg k t e p") auto
  next
    case (WroteFails n)
    then show ?thesis using that app by (auto simp: appendRecord_def split: option.splits)
  qed
  show "segment_holds us sg' rs" if "res = Inl err" "w = WroteAll"
    using that app all(1) none holds by (cases "encryptPayload us sg k t e p") auto
  show "segment_reads us sg' rs \<or>
      segment_reads us sg' (rs @ [stored_rec us sg t k e p]) \<and> encryptPayload us sg k t e p \<noteq> None" if "res = Inl err"
  proof (cases "encryptPayload us sg k t e p")
    case None
    then show ?thesis using none holds segment_holds_reads by simp
  next
    case (Some q)
    let ?r = "stored_rec us sg t k e p"
    from that app all(1) [OF Some] obtain n where "w = WroteFails n" by (cases w) auto
    with app have sg': "sg' = sg\<lparr>sg_bytes := sg_bytes sg @ take n (seg_rec_bytes ?r)\<rparr>"
      by (simp add: appendRecord_fails [OF Some] stored_rec_def Some)
    show ?thesis
    proof (cases "n < length (seg_rec_bytes ?r)")
      case True
      have "length (sr_stored ?r) < 2 ^ 32" using all(3) [OF Some] by (simp add: stored_rec_def Some)
      from scanRecords_torn [OF this True] have "segment_reads us sg' rs"
        using holds unfolding segment_reads_def segment_holds_def sg'
        by (intro exI [of _ "take n (seg_rec_bytes ?r)"]) simp
      then show ?thesis ..
    next
      case False
      with all(2) [OF Some] Some sg' show ?thesis by (simp add: segment_holds_reads)
    qed
  qed
qed

end
