(* ===== verification/Storage_Properties.thy ===== *)
theory Storage_Properties
  imports Segment_Facts
begin

text \<open>
  What encryption at rest and the segment files of the graph store promise: the envelope round trip,
  the durability of appended records, and what a torn append does.
\<close>

section \<open>Encryption at rest\<close>

text \<open>
  C29. A record encrypted with additional data decrypts to itself under the same additional data and is
  refused under any other, so a record cannot be moved to another place in the files.
\<close>

theorem encryption_binds_place:
  assumes "gcm_ok g" "length (rnd_dek rnd) = 32" "NewService b64 readFile ctx c = Inr s"
    and "service_Enabled s" "EncryptRecord g rnd None s p aad = Inr stored"
  shows "IsEnvelope stored \<and> DecryptRecord g None s stored aad = Inr p \<and>
    (\<forall>aad'. aad' \<noteq> aad \<longrightarrow> DecryptRecord g None s stored aad' = Inl ErrAuthentication)"
proof -
  have prov: "service_Enabled s \<longleftrightarrow> es_provider s \<noteq> None" using assms(3) by (rule NewService_provider)
  then obtain sp where sp: "es_provider s = Some sp" using assms(4) by auto
  have dec: "DecryptRecord g None s stored aad = Inr p"
    using decrypt_encrypt [OF assms(1,2) prov _ assms(5)] assms(4) by blast
  obtain env where env: "encodeEnvelope env = Inr stored" "ev_AAD env = aad"
    using assms(4,5) sp by (auto simp: EncryptRecord_def split: sum.splits)
  have "DecryptRecord g None s stored aad' = Inl ErrAuthentication" if "aad' \<noteq> aad" for aad'
    using that env assms(4) sp
    by (simp add: DecryptRecord_def encodeEnvelope_is_envelope [OF env(1)] decode_encodeEnvelope [OF env(1)])
  with dec encodeEnvelope_is_envelope [OF env(1)] show ?thesis by blast
qed

definition sample_gcm :: gcm where
  "sample_gcm = \<lparr>gcm_Seal = (\<lambda>k n p a. rev p), gcm_Open = (\<lambda>k n c a. Some (rev c))\<rparr>"

definition sample_config :: enc_config where
  "sample_config = \<lparr>AtRest = ''enabled'', KEKProvider = ''static-env'', StaticKeyB64 = ''key'',
     StaticKeyFile = [], DEKCacheTTL = 0\<rparr>"

definition sample_service :: enc_service where
  "sample_service = \<lparr>es_cfg = sample_config,
     es_provider = Some \<lparr>sp_id = ProviderStaticEnv, sp_key = replicate 32 7\<rparr>\<rparr>"

lemma sample_config_text:
  "TrimSpace ''enabled'' = ''enabled''" "ToLower ''enabled'' = ''enabled''"
  "TrimSpace ''static-env'' = ''static-env''" "ToLower ''static-env'' = ''static-env''"
  "TrimSpace ''key'' = ''key''"
  by (rule TrimSpace_plain ToLower_plain; simp add: plain_char_def lower_plain_def del: ToLower.simps)+

lemma sample_NewService:
  "NewService (\<lambda>s. Some (replicate 32 7)) (\<lambda>f. None) None sample_config = Inr sample_service"
  by (simp add: NewService_def cfg_Validate_def NormalizedMode_def cfg_Enabled_def EqualFold_def NewKeyProvider_def
      decodeKey_def sample_config_def sample_service_def sample_config_text encryption_consts Let_def
      del: ToLower.simps)

theorem encryption_binds_place_witness:
  "\<exists>stored. EncryptRecord sample_gcm \<lparr>rnd_dek = replicate 32 1, rnd_wrap = [], rnd_nonce = []\<rparr> None
      sample_service [1, 2] [3] = Inr stored \<and> IsEnvelope stored \<and>
    DecryptRecord sample_gcm None sample_service stored [3] = Inr [1, 2] \<and>
    DecryptRecord sample_gcm None sample_service stored [4] = Inl ErrAuthentication"
proof -
  let ?rnd = "\<lparr>rnd_dek = replicate 32 1, rnd_wrap = [], rnd_nonce = []\<rparr> :: enc_random"
  have en: "service_Enabled sample_service"
    by (simp add: service_Enabled_def cfg_Enabled_def EqualFold_def sample_service_def sample_config_def
        sample_config_text ModeEnabled_def del: ToLower.simps)
  obtain stored where stored: "EncryptRecord sample_gcm ?rnd None sample_service [1, 2] [3] = Inr stored"
    using en by (simp add: EncryptRecord_def sample_service_def WrapKey_def encodeEnvelope_def sample_gcm_def
        ProviderStaticEnv_def wrapKeyID_def)
  have "gcm_ok sample_gcm" by (simp add: gcm_ok_def sample_gcm_def)
  from encryption_binds_place [OF this _ sample_NewService en stored] stored show ?thesis by auto
qed

section \<open>Segments\<close>

text \<open>A text form of identifiers, for the witnesses.\<close>

definition uuid_plain :: "uuid \<Rightarrow> string" where
  "uuid_plain u = dec_string (unat u)"

text \<open>
  C23. An append adds one record: the next scan of the file finds everything it found before, then the
  new record, with its kind, its identifiers and its plain payload, at the location the append returned.
  The segment still holds exactly its records.
\<close>

theorem segment_append_durable:
  assumes "segment_holds us sg rs" "cipher_ok (sg_enc sg) p"
    and "encryptPayload us sg k t e p = Some q" "length q < 2 ^ 32"
    and "appendRecord us WroteAll k t e p sg = (Inr loc, sg')"
  shows "\<exists>new. scan us sg' = (fst (scan us sg) @ [new], None) \<and>
    sc_location new = loc \<and> sc_payload new = p \<and> rh_kind (sc_header new) = k \<and>
    rh_txnID (sc_header new) = t \<and> rh_entityID (sc_header new) = e \<and>
    segment_holds us sg' (rs @ [\<lparr>sr_kind = k, sr_txn = t, sr_entity = e, sr_stored = q\<rparr>])"
proof -
  let ?r = "\<lparr>sr_kind = k, sr_txn = t, sr_entity = e, sr_stored = q\<rparr>"
  let ?new = "scanned_of us (sg_id sg) (sg_kind sg) (sg_enc sg) (length (sg_bytes sg)) ?r p"
  note app = append_holds [OF assms(1-4)]
  have "sg' = sg\<lparr>sg_bytes := sg_bytes sg @ seg_rec_bytes ?r\<rparr>" "loc = sc_location ?new"
    using assms(5) app(1) by simp_all
  with app(2,3) show ?thesis by (intro exI [of _ ?new]) (simp add: scanned_of_def)
qed

definition sample_segment :: segment where
  "sample_segment = \<lparr>sg_id = ''nodes-000001.seg'', sg_kind = SegmentKindNode,
     sg_bytes = segment_header SegmentKindNode, sg_enc = None\<rparr>"

lemma sample_segment_holds: "segment_holds us sample_segment []"
  by (simp add: segment_holds_def sample_segment_def)

theorem segment_append_durable_witness:
  "\<exists>loc sg' new. appendRecord uuid_plain WroteAll RecordKindNodePut 1 2 [5, 6] sample_segment = (Inr loc, sg') \<and>
    scan uuid_plain sg' = ([new], None) \<and> sc_payload new = [5, 6] \<and> sc_location new = loc"
proof -
  have q: "encryptPayload uuid_plain sample_segment RecordKindNodePut 1 2 [5, 6] = Some [5, 6]"
    by (simp add: encryptPayload_def sample_segment_def)
  obtain loc sg' where app: "appendRecord uuid_plain WroteAll RecordKindNodePut 1 2 [5, 6] sample_segment = (Inr loc, sg')"
    by (simp add: appendRecord_def q)
  have "cipher_ok (sg_enc sample_segment) [5, 6]" by (simp add: cipher_ok_def sample_segment_def)
  from segment_append_durable [OF sample_segment_holds this q _ app] app
    scan_holds(1) [OF sample_segment_holds, of uuid_plain]
  show ?thesis by auto
qed

text \<open>
  An append that stops after any number of bytes short of the record leaves a torn tail the scan
  ignores: the file still opens and yields exactly the records it held.
\<close>

theorem segment_torn_append_ignored:
  assumes "segment_holds us sg rs" "encryptPayload us sg k t e p = Some q" "length q < 2 ^ 32"
    and "n < recordHeaderLen + length q" "appendRecord us (WroteFails n) k t e p sg = (r, sg')"
  shows "r = Inl ErrSegmentWrite \<and> scan us sg' = scan us sg \<and>
    openSegment (sg_id sg) (sg_kind sg) (sg_enc sg) (Some (sg_bytes sg')) = Inr sg'"
proof -
  let ?r = "\<lparr>sr_kind = k, sr_txn = t, sr_entity = e, sr_stored = q\<rparr>"
  have sg': "sg' = sg\<lparr>sg_bytes := sg_bytes sg @ take n (seg_rec_bytes ?r)\<rparr>" "r = Inl ErrSegmentWrite"
    using assms(5) by (simp_all add: appendRecord_fails [OF assms(2)])
  have "scanRecords us (sg_id sg) (sg_kind sg) (sg_enc sg) (length (sg_bytes sg)) (take n (seg_rec_bytes ?r)) = ([], None)"
    using assms(3,4) by (intro scanRecords_torn) (simp_all add: seg_rec_bytes_def length_record_bytes)
  then have "scan us sg' = scan us sg"
    unfolding sg' scan_holds(2) [OF assms(1)] using scan_holds(1) [OF assms(1)] by simp
  with sg' openSegment_holds [OF assms(1)] show ?thesis by simp
qed

theorem segment_torn_append_ignored_witness:
  "scan uuid_plain (snd (appendRecord uuid_plain (WroteFails 30) RecordKindNodePut 1 2 [5, 6] sample_segment)) =
   scan uuid_plain sample_segment"
proof -
  have q: "encryptPayload uuid_plain sample_segment RecordKindNodePut 1 2 [5, 6] = Some [5, 6]"
    by (simp add: encryptPayload_def sample_segment_def)
  obtain r sg' where app: "appendRecord uuid_plain (WroteFails 30) RecordKindNodePut 1 2 [5, 6] sample_segment = (r, sg')"
    by fastforce
  show ?thesis
    using segment_torn_append_ignored [OF sample_segment_holds q _ _ app] by (simp add: app recordHeaderLen_def)
qed

text \<open>
  Nothing removes that tail. Opening the file keeps it and the next append goes behind it: after an
  append that stopped at its first byte, a later append reports success, but the next scan of the file
  fails and the store that replays it does not open.
\<close>

theorem segment_append_after_torn:
  assumes "segment_holds us sg rs"
    and "encryptPayload us sg k t e p = Some q" "encryptPayload us sg k' t' e' p' = Some q'"
    and "appendRecord us (WroteFails 1) k t e p sg = (r, sg1)"
    and "openSegment (sg_id sg) (sg_kind sg) (sg_enc sg) (Some (sg_bytes sg1)) = Inr sg2"
    and "appendRecord us WroteAll k' t' e' p' sg2 = (r', sg3)"
  shows "(\<exists>loc. r' = Inr loc) \<and> scan us sg3 = (fst (scan us sg), Some (ErrInvalid ''bad record header''))"
proof -
  let ?r = "\<lparr>sr_kind = k, sr_txn = t, sr_entity = e, sr_stored = q\<rparr>"
  let ?r' = "\<lparr>sr_kind = k', sr_txn = t', sr_entity = e', sr_stored = q'\<rparr>"
  have sg1: "sg1 = sg\<lparr>sg_bytes := sg_bytes sg @ take 1 (seg_rec_bytes ?r)\<rparr>"
    using assms(4) by (simp add: appendRecord_fails [OF assms(2)])
  then have sg2: "sg2 = sg1"
    using assms(5) openSegment_holds [OF assms(1)] by simp
  have "encryptPayload us sg2 k' t' e' p' = Some q'"
    using assms(3) sg1 sg2 by simp
  from assms(6) [unfolded appendRecord_all [OF this]]
  have sg3: "sg3 = sg\<lparr>sg_bytes := sg_bytes sg @ take 1 (seg_rec_bytes ?r) @ seg_rec_bytes ?r'\<rparr>"
    and ok: "\<exists>loc. r' = Inr loc" using sg1 sg2 by auto
  have "scanRecords us (sg_id sg) (sg_kind sg) (sg_enc sg) (length (sg_bytes sg))
      (take 1 (seg_rec_bytes ?r) @ seg_rec_bytes ?r') = ([], Some (ErrInvalid ''bad record header''))"
    using scan_stray_byte [of us _ _ _ _ ?r ?r' "[]"] by (subst scanRecords.simps) simp
  with ok show ?thesis unfolding sg3 scan_holds(2) [OF assms(1)] by simp
qed

theorem segment_append_after_torn_witness:
  "\<exists>sg1 sg3 loc. appendRecord uuid_plain (WroteFails 1) RecordKindNodePut 1 2 [5] sample_segment =
      (Inl ErrSegmentWrite, sg1) \<and>
    appendRecord uuid_plain WroteAll RecordKindNodePut 3 4 [6] sg1 = (Inr loc, sg3) \<and>
    scan uuid_plain sg3 = ([], Some (ErrInvalid ''bad record header''))"
proof -
  have q: "encryptPayload uuid_plain sample_segment RecordKindNodePut 1 2 [5] = Some [5]"
    "encryptPayload uuid_plain sample_segment RecordKindNodePut 3 4 [6] = Some [6]"
    by (simp_all add: encryptPayload_def sample_segment_def)
  obtain sg1 where app: "appendRecord uuid_plain (WroteFails 1) RecordKindNodePut 1 2 [5] sample_segment =
      (Inl ErrSegmentWrite, sg1)" by (simp add: appendRecord_fails [OF q(1)])
  have op: "openSegment (sg_id sample_segment) (sg_kind sample_segment) (sg_enc sample_segment) (Some (sg_bytes sg1)) = Inr sg1"
    using app openSegment_holds [OF sample_segment_holds] by (auto simp: appendRecord_fails [OF q(1)])
  obtain r' sg3 where app3: "appendRecord uuid_plain WroteAll RecordKindNodePut 3 4 [6] sg1 = (r', sg3)" by fastforce
  from segment_append_after_torn [OF sample_segment_holds q app op app3] app app3
    scan_holds(1) [OF sample_segment_holds, of uuid_plain]
  show ?thesis by auto
qed

end
