(* ===== verification/Graph_Codec.thy ===== *)
theory Graph_Codec
  imports Graph_Segment Graph_Model
begin

text \<open>
  The payload of node and edge records (\<open>internal/graph/storage/codec.go\<close>). A \<open>bytes.Reader\<close> is the list of
  its unread bytes; a reader function returns the rest with the value. As in the code, \<open>Read\<close> fails only
  on an exhausted reader and otherwise fills what is missing with zero bytes, so a truncated identifier or
  string is padded, and an empty string cannot be read at the very end.

  \<open>VUint\<close> stands for every unsigned type; a value of type \<open>uint\<close> above the largest \<open>int64\<close>, which the
  code would write as a negative number, is not represented.

  The readers of nested values have fuel; \<open>readEntries_total\<close> shows that the fuel \<open>readMap\<close> gives is never
  used up.
\<close>

definition valueNil :: byte where "valueNil = 0"
definition valueString :: byte where "valueString = 1"
definition valueBool :: byte where "valueBool = 2"
definition valueInt :: byte where "valueInt = 3"
definition valueFloat :: byte where "valueFloat = 4"
definition valueArray :: byte where "valueArray = 5"
definition valueMap :: byte where "valueMap = 6"
definition maxEncodedMapEntries :: nat where "maxEncodedMapEntries = 1000000"

lemmas value_kinds = valueNil_def valueString_def valueBool_def valueInt_def valueFloat_def
  valueArray_def valueMap_def

section \<open>Writing\<close>

definition writeString :: "string \<Rightarrow> bytes" where
  "writeString s = put_u32 (of_nat (length s)) @ bytes_of s"

definition writeStringSlice :: "string list \<Rightarrow> bytes" where
  "writeStringSlice ss = put_u32 (of_nat (length ss)) @ concat (map writeString ss)"

definition writeTime :: "gotime \<Rightarrow> bytes" where
  "writeTime t = put_u64 (case t of ZeroTime \<Rightarrow> 0 | AtNano n \<Rightarrow> n)"

text \<open>The entries of a map, each with its encoded value, in the order of the keys.\<close>

definition put_entries :: "(string \<times> bytes option) list \<Rightarrow> bytes option" where
  "put_entries es =
     map_option (\<lambda>bs. put_u32 (of_nat (length es)) @ concat bs)
       (those (map (\<lambda>(k, b). map_option (append (writeString k)) b) (sort_key fst es)))"

primrec writeValue :: "gval \<Rightarrow> bytes option" where
  "writeValue VNil = Some [valueNil]"
| "writeValue (VString s) = Some (valueString # writeString s)"
| "writeValue (VBool b) = Some [valueBool, if b then 1 else 0]"
| "writeValue (VInt i) = Some (valueInt # put_u64 i)"
| "writeValue (VUint u) = (if u > 0x7fffffffffffffff then None else Some (valueInt # put_u64 u))"
| "writeValue (VFloat f) = Some (valueFloat # put_u64 f)"
| "writeValue (VTime t) = None"
| "writeValue (VStrings ss) =
     Some (valueArray # put_u32 (of_nat (length ss)) @ concat (map (\<lambda>s. valueString # writeString s) ss))"
| "writeValue (VList vs) =
     map_option (\<lambda>bs. valueArray # put_u32 (of_nat (length vs)) @ concat bs) (those (map writeValue vs))"
| "writeValue (VMap kvs) = map_option (Cons valueMap) (put_entries (map (map_prod id writeValue) kvs))"
| "writeValue (VStringMap kvs) = None"
| "writeValue VOther = None"

definition writeMap :: "props \<Rightarrow> bytes option" where
  "writeMap m = put_entries (map (map_prod id writeValue) m)"

definition writeBlobRef :: "blob_id option \<Rightarrow> bytes option" where
  "writeBlobRef ref =
     (case ref of
        None \<Rightarrow> Some [0]
      | Some bid \<Rightarrow> map_option (Cons 1) (BlobID_Bytes bid))"

definition encodeNode :: "node \<Rightarrow> graph_error + bytes" where
  "encodeNode n =
     (case (writeMap (n_Props n), writeBlobRef (n_BlobRef n), writeMap (n_Properties n),
            writeMap (n_Payload n), writeMap (n_Meta n)) of
        (Some ps, Some br, Some prs, Some pl, Some mt) \<Rightarrow>
          Inr (put_uuid (n_ID n) @ [0] @ writeString (n_Content n) @ writeTime (n_CreatedAt n)
            @ writeTime (n_UpdatedAt n) @ ps @ br @ put_uuid (n_DomainID n) @ writeStringSlice (n_Labels n)
            @ prs @ pl @ mt)
      | _ \<Rightarrow> Inl ErrUnsupported)"

definition encodeEdge :: "edge \<Rightarrow> graph_error + bytes" where
  "encodeEdge e =
     (case (writeMap (e_Properties e), writeMap (e_Payload e), writeMap (e_Meta e)) of
        (Some prs, Some pl, Some mt) \<Rightarrow>
          Inr (put_uuid (e_ID e) @ put_uuid (e_DomainID e) @ put_uuid (e_FromID e) @ put_uuid (e_ToID e)
            @ writeStringSlice (e_Labels e) @ prs @ pl @ mt @ writeTime (e_CreatedAt e)
            @ writeTime (e_UpdatedAt e))
      | _ \<Rightarrow> Inl ErrUnsupported)"

section \<open>Reading\<close>

type_synonym 'a read = "graph_error + 'a \<times> bytes"

definition read_u32 :: "bytes \<Rightarrow> u32 read" where
  "read_u32 r = (if length r < 4 then Inl ErrSegmentEOF else Inr (get_u32 (take 4 r), drop 4 r))"

definition read_u64 :: "bytes \<Rightarrow> u64 read" where
  "read_u64 r = (if length r < 8 then Inl ErrSegmentEOF else Inr (get_u64 (take 8 r), drop 8 r))"

text \<open>\<open>r.Read(buf)\<close> with a buffer of \<open>n\<close> bytes.\<close>

definition Read :: "nat \<Rightarrow> bytes \<Rightarrow> bytes read" where
  "Read n r = (if r = [] then Inl ErrSegmentEOF else Inr (take n r @ replicate (n - length r) 0, drop n r))"

definition ReadByte :: "bytes \<Rightarrow> byte read" where
  "ReadByte r = (case r of [] \<Rightarrow> Inl ErrSegmentEOF | b # r' \<Rightarrow> Inr (b, r'))"

definition readUUID :: "bytes \<Rightarrow> uuid read" where
  "readUUID r = (case Read 16 r of Inl e \<Rightarrow> Inl e | Inr (b, r') \<Rightarrow> Inr (get_uuid b, r'))"

definition readTime :: "bytes \<Rightarrow> gotime read" where
  "readTime r =
     (case read_u64 r of Inl e \<Rightarrow> Inl e | Inr (n, r') \<Rightarrow> Inr (if n = 0 then ZeroTime else AtNano n, r'))"

definition readString :: "bytes \<Rightarrow> string read" where
  "readString r =
     (case read_u32 r of
        Inl e \<Rightarrow> Inl e
      | Inr (l, r') \<Rightarrow> (case Read (unat l) r' of Inl e \<Rightarrow> Inl e | Inr (b, r'') \<Rightarrow> Inr (string_of b, r'')))"

fun readStrings :: "nat \<Rightarrow> bytes \<Rightarrow> string list read" where
  "readStrings 0 r = Inr ([], r)"
| "readStrings (Suc n) r =
     (case readString r of
        Inl e \<Rightarrow> Inl e
      | Inr (s, r') \<Rightarrow> (case readStrings n r' of Inl e \<Rightarrow> Inl e | Inr (ss, r'') \<Rightarrow> Inr (s # ss, r'')))"

definition readStringSlice :: "bytes \<Rightarrow> string list read" where
  "readStringSlice r = (case read_u32 r of Inl e \<Rightarrow> Inl e | Inr (n, r') \<Rightarrow> readStrings (unat n) r')"

definition map_read :: "('a \<Rightarrow> 'b) \<Rightarrow> 'a read \<Rightarrow> 'b read" where
  "map_read f res = (case res of Inl e \<Rightarrow> Inl e | Inr (x, r) \<Rightarrow> Inr (f x, r))"

lemma map_read_simps [simp]:
  "map_read f (Inl e) = Inl e" "map_read f (Inr (x, r)) = Inr (f x, r)"
  "map_read f res = Inr (y, r) \<longleftrightarrow> (\<exists>x. res = Inr (x, r) \<and> y = f x)"
  by (auto simp: map_read_def split: sum.splits)

text \<open>The outer option is \<^const>\<open>None\<close> when the fuel runs out.\<close>

fun readValue :: "nat \<Rightarrow> bytes \<Rightarrow> gval read option"
and readItems :: "nat \<Rightarrow> nat \<Rightarrow> bytes \<Rightarrow> gval list read option"
and readEntries :: "nat \<Rightarrow> nat \<Rightarrow> props \<Rightarrow> bytes \<Rightarrow> props read option" where
  "readValue 0 r = None"
| "readValue (Suc k) r =
     (case ReadByte r of
        Inl e \<Rightarrow> Some (Inl e)
      | Inr (kind, r1) \<Rightarrow>
          if kind = valueNil then Some (Inr (VNil, r1))
          else if kind = valueString then
            Some (map_read VString (readString r1))
          else if kind = valueBool then
            Some (map_read (\<lambda>b. VBool (b = 1)) (ReadByte r1))
          else if kind = valueInt then
            Some (map_read VInt (read_u64 r1))
          else if kind = valueFloat then
            Some (map_read VFloat (read_u64 r1))
          else if kind = valueArray then
            (case read_u32 r1 of
               Inl e \<Rightarrow> Some (Inl e)
             | Inr (n, r2) \<Rightarrow>
                 map_option (map_read VList)
                   (readItems k (unat n) r2))
          else if kind = valueMap then
            (case read_u32 r1 of
               Inl e \<Rightarrow> Some (Inl e)
             | Inr (n, r2) \<Rightarrow>
                 if unat n > maxEncodedMapEntries then Some (Inl ErrUnsupported)
                 else map_option (map_read VMap)
                   (readEntries k (unat n) [] r2))
          else Some (Inl (ErrInvalid ''value kind'')))"
| "readItems 0 n r = None"
| "readItems (Suc k) n r =
     (case n of
        0 \<Rightarrow> Some (Inr ([], r))
      | Suc n' \<Rightarrow>
          (case readValue k r of
             None \<Rightarrow> None
           | Some (Inl e) \<Rightarrow> Some (Inl e)
           | Some (Inr (v, r')) \<Rightarrow>
               map_option (map_read (Cons v))
                 (readItems k n' r')))"
| "readEntries 0 n m r = None"
| "readEntries (Suc k) n m r =
     (case n of
        0 \<Rightarrow> Some (Inr (m, r))
      | Suc n' \<Rightarrow>
          (case readString r of
             Inl e \<Rightarrow> Some (Inl e)
           | Inr (key, r1) \<Rightarrow>
               (case readValue k r1 of
                  None \<Rightarrow> None
                | Some (Inl e) \<Rightarrow> Some (Inl e)
                | Some (Inr (v, r2)) \<Rightarrow> readEntries k n' (AList.update key v m) r2)))"

definition read_fuel :: "bytes \<Rightarrow> nat" where
  "read_fuel r = 2 * length r + 2"

definition readMap :: "bytes \<Rightarrow> props read" where
  "readMap r =
     (case read_u32 r of
        Inl e \<Rightarrow> Inl e
      | Inr (n, r') \<Rightarrow>
          if unat n > maxEncodedMapEntries then Inl ErrUnsupported
          else (case readEntries (read_fuel r') (unat n) [] r' of
                  None \<Rightarrow> Inl (ErrInvalid ''fuel'') | Some res \<Rightarrow> res))"

definition readBlobRef :: "bytes \<Rightarrow> blob_id option read" where
  "readBlobRef r =
     (if r = [] then Inr (None, r)
      else (case ReadByte r of
              Inl e \<Rightarrow> Inl e
            | Inr (flag, r1) \<Rightarrow>
                if flag = 0 then Inr (None, r1)
                else if flag = 1 then
                  (if length r1 < 32 then Inl ErrSegmentEOF
                   else (case BlobIDFromBytes (take 32 r1) of
                           None \<Rightarrow> Inl (ErrInvalid ''blob id'') | Some bid \<Rightarrow> Inr (Some bid, drop 32 r1)))
                else Inl (ErrInvalid ''blob ref flag'')))"

definition readDomainID :: "bytes \<Rightarrow> domain_id read" where
  "readDomainID r =
     (if r = [] then Inr (0, r)
      else if length r < 16 then Inl (ErrInvalid ''domain id tail'')
      else readUUID r)"

definition plausibleUnixNanos :: "u64 \<Rightarrow> bool" where
  "plausibleUnixNanos n \<longleftrightarrow>
     n = 0 \<or> (946684800000000000 \<le> sint n \<and> sint n \<le> 7258118400000000000)"

definition peekInt64 :: "bytes \<Rightarrow> u64" where
  "peekInt64 r = (if length r < 8 then 0 else get_u64 (take 8 r))"

definition decodeNodePrefix :: "bytes \<Rightarrow> (uuid \<times> string) read" where
  "decodeNodePrefix r =
     (case readUUID r of
        Inl e \<Rightarrow> Inl e
      | Inr (i, r1) \<Rightarrow>
          (case ReadByte r1 of
             Inl e \<Rightarrow> Inl e
           | Inr (flag, r2) \<Rightarrow>
               (case (if flag = 1 then readUUID r2 else Inr (0, r2)) of
                  Inl e \<Rightarrow> Inl e
                | Inr (_, r3) \<Rightarrow>
                    (case readString r3 of Inl e \<Rightarrow> Inl e | Inr (c, r4) \<Rightarrow> Inr ((i, c), r4)))))"

text \<open>The labels and the three maps at the end of a node, absent in older records.\<close>

definition read_node_tail :: "bytes \<Rightarrow> (string list \<times> props \<times> props \<times> props) read" where
  "read_node_tail r =
     (if r = [] then Inr (([], [], [], []), r)
      else
        (case readStringSlice r of
           Inl e \<Rightarrow> Inl e
         | Inr (labels, r1) \<Rightarrow>
             (case readMap r1 of
                Inl e \<Rightarrow> Inl e
              | Inr (prs, r2) \<Rightarrow>
                  (case readMap r2 of
                     Inl e \<Rightarrow> Inl e
                   | Inr (pl, r3) \<Rightarrow>
                       (case readMap r3 of
                          Inl e \<Rightarrow> Inl e | Inr (mt, r4) \<Rightarrow> Inr ((labels, prs, pl, mt), r4))))))"

definition zero_node :: node where
  "zero_node = \<lparr>n_ID = 0, n_DomainID = 0, n_Labels = [], n_Properties = [], n_Payload = [], n_Meta = [],
     n_BlobRef = None, n_Content = [], n_Props = [], n_CreatedAt = ZeroTime, n_UpdatedAt = ZeroTime\<rparr>"

text \<open>Records without timestamps: the props end the payload.\<close>

definition decode_legacy_node :: "uuid \<Rightarrow> string \<Rightarrow> bytes \<Rightarrow> graph_error + node" where
  "decode_legacy_node i c r =
     (case readMap r of
        Inl e \<Rightarrow> Inl e
      | Inr (ps, r') \<Rightarrow>
          if r' \<noteq> [] then Inl ErrUnsupported
          else Inr (zero_node\<lparr>n_ID := i, n_Content := c, n_Props := ps\<rparr>))"

definition decodeNode :: "bytes \<Rightarrow> graph_error + node" where
  "decodeNode payload =
     (case decodeNodePrefix payload of
        Inl e \<Rightarrow> Inl e
      | Inr ((i, c), r) \<Rightarrow>
          if length r \<ge> 20 \<and> plausibleUnixNanos (peekInt64 r) then
            (case readTime r of
               Inl e \<Rightarrow> Inl e
             | Inr (created, r1) \<Rightarrow>
                 (case readTime r1 of
                    Inl e \<Rightarrow> Inl e
                  | Inr (updated, r2) \<Rightarrow>
                      (case readMap r2 of
                         Inl _ \<Rightarrow> decode_legacy_node i c r
                       | Inr (ps, r3) \<Rightarrow>
                           (case readBlobRef r3 of
                              Inl _ \<Rightarrow> decode_legacy_node i c r
                            | Inr (blob, r4) \<Rightarrow>
                                (case readDomainID r4 of
                                   Inl _ \<Rightarrow> decode_legacy_node i c r
                                 | Inr (did, r5) \<Rightarrow>
                                     (case read_node_tail r5 of
                                        Inl e \<Rightarrow> Inl e
                                      | Inr ((labels, prs, pl, mt), r6) \<Rightarrow>
                                          if r6 = [] then
                                            Inr \<lparr>n_ID = i, n_DomainID = did, n_Labels = labels, n_Properties = prs,
                                              n_Payload = pl, n_Meta = mt, n_BlobRef = blob, n_Content = c,
                                              n_Props = ps, n_CreatedAt = created, n_UpdatedAt = updated\<rparr>
                                          else decode_legacy_node i c r))))))
          else decode_legacy_node i c r)"

definition decodeEdge :: "bytes \<Rightarrow> graph_error + edge" where
  "decodeEdge r0 =
     (case readUUID r0 of Inl e \<Rightarrow> Inl e | Inr (i, r1) \<Rightarrow>
     (case readUUID r1 of Inl e \<Rightarrow> Inl e | Inr (did, r2) \<Rightarrow>
     (case readUUID r2 of Inl e \<Rightarrow> Inl e | Inr (f, r3) \<Rightarrow>
     (case readUUID r3 of Inl e \<Rightarrow> Inl e | Inr (t, r4) \<Rightarrow>
     (case readStringSlice r4 of Inl e \<Rightarrow> Inl e | Inr (labels, r5) \<Rightarrow>
     (case readMap r5 of Inl e \<Rightarrow> Inl e | Inr (prs, r6) \<Rightarrow>
     (case readMap r6 of Inl e \<Rightarrow> Inl e | Inr (pl, r7) \<Rightarrow>
     (case readMap r7 of Inl e \<Rightarrow> Inl e | Inr (mt, r8) \<Rightarrow>
     (case readTime r8 of Inl e \<Rightarrow> Inl e | Inr (created, r9) \<Rightarrow>
     (case readTime r9 of Inl e \<Rightarrow> Inl e | Inr (updated, r10) \<Rightarrow>
        Inr \<lparr>e_ID = i, e_DomainID = did, e_FromID = f, e_ToID = t, e_Labels = labels, e_Properties = prs,
          e_Payload = pl, e_Meta = mt, e_CreatedAt = created, e_UpdatedAt = updated\<rparr>))))))))))"

section \<open>Reading ends\<close>

lemma Read_shorter: "Read n r = Inr (b, r') \<Longrightarrow> r \<noteq> [] \<and> length r' = length r - n"
  by (auto simp: Read_def split: if_splits)

lemma read_u32_shorter: "read_u32 r = Inr (n, r') \<Longrightarrow> length r = length r' + 4"
  by (auto simp: read_u32_def split: if_splits)

lemma readString_shorter: "readString r = Inr (s, r') \<Longrightarrow> length r' < length r"
  by (auto simp: readString_def dest!: read_u32_shorter Read_shorter split: sum.splits)

lemma ReadByte_shorter: "ReadByte r = Inr (b, r') \<Longrightarrow> length r = Suc (length r')"
  by (auto simp: ReadByte_def split: list.splits)

lemma read_u64_shorter: "read_u64 r = Inr (n, r') \<Longrightarrow> length r' < length r"
  by (auto simp: read_u64_def split: if_splits)

text \<open>Enough fuel gives a result, and a value takes at least one byte.\<close>

lemma read_total:
  "(2 * length r + 1 \<le> k \<longrightarrow>
     (\<exists>res. readValue k r = Some res \<and> (\<forall>v r'. res = Inr (v, r') \<longrightarrow> length r' < length r)))"
  "(2 * length r + 2 \<le> k \<longrightarrow>
     (\<exists>res. readItems k n r = Some res \<and> (\<forall>vs r'. res = Inr (vs, r') \<longrightarrow> length r' \<le> length r)))"
  "(2 * length r + 2 \<le> k \<longrightarrow>
     (\<exists>res. readEntries k n m r = Some res \<and> (\<forall>m' r'. res = Inr (m', r') \<longrightarrow> length r' \<le> length r)))"
proof (induction k r and k n r and k n m r rule: readValue_readItems_readEntries.induct)
  case (2 k r)
  show ?case
  proof (cases "ReadByte r")
    case (Inr p)
    obtain kind r1 where p: "p = (kind, r1)" by fastforce
    have l1: "length r = Suc (length r1)" using Inr p ReadByte_shorter by simp
    show ?thesis
    proof (cases "kind = valueArray \<or> kind = valueMap")
      case False
      then show ?thesis
        using Inr p l1
        by (auto dest: readString_shorter ReadByte_shorter read_u64_shorter split: sum.splits)
    next
      case True
      show ?thesis
      proof (cases "read_u32 r1")
        case (Inl e)
        with True Inr p show ?thesis by (auto simp: value_kinds)
      next
        case u: (Inr q)
        obtain n r2 where q: "q = (n, r2)" by fastforce
        have l2: "length r1 = length r2 + 4" using u q read_u32_shorter by simp
        have items: "kind = valueArray \<Longrightarrow> 2 * length r2 + 2 \<le> k \<Longrightarrow>
            \<exists>res. readItems k (unat n) r2 = Some res \<and> (\<forall>vs r'. res = Inr (vs, r') \<longrightarrow> length r' \<le> length r2)"
          using 2(1) [OF Inr p [symmetric]] u q by (auto simp: value_kinds)
        have ents: "kind = valueMap \<Longrightarrow> \<not> unat n > maxEncodedMapEntries \<Longrightarrow> 2 * length r2 + 2 \<le> k \<Longrightarrow>
            \<exists>res. readEntries k (unat n) [] r2 = Some res \<and> (\<forall>m r'. res = Inr (m, r') \<longrightarrow> length r' \<le> length r2)"
          using 2(2) [OF Inr p [symmetric]] u q by (auto simp: value_kinds)
        show ?thesis
        proof (intro impI)
          assume "2 * length r + 1 \<le> Suc k"
          then have k: "2 * length r2 + 2 \<le> k" "length r2 < length r" using l1 l2 by auto
          show "\<exists>res. readValue (Suc k) r = Some res \<and> (\<forall>v r'. res = Inr (v, r') \<longrightarrow> length r' < length r)"
          proof (cases "kind = valueArray")
            case arr: True
            then have "readValue (Suc k) r = map_option (map_read VList) (readItems k (unat n) r2)"
              using Inr p u q by (simp add: value_kinds)
            with items [OF arr k(1)] k(2) show ?thesis by fastforce
          next
            case False
            with True have m: "kind = valueMap" by simp
            then have "readValue (Suc k) r = (if unat n > maxEncodedMapEntries then Some (Inl ErrUnsupported)
                else map_option (map_read VMap) (readEntries k (unat n) [] r2))"
              using Inr p u q by (simp add: value_kinds)
            with ents [OF m _ k(1)] k(2) show ?thesis by (cases "unat n > maxEncodedMapEntries") fastforce+
          qed
        qed
      qed
    qed
  qed simp
next
  case (4 k n r)
  show ?case
  proof (cases n)
    case (Suc n')
    show ?thesis
    proof
      assume k: "2 * length r + 2 \<le> Suc k"
      then obtain res where res: "readValue k r = Some res" "\<forall>v r'. res = Inr (v, r') \<longrightarrow> length r' < length r"
        using 4(1) [OF Suc] by auto
      show "\<exists>res. readItems (Suc k) n r = Some res \<and> (\<forall>vs r'. res = Inr (vs, r') \<longrightarrow> length r' \<le> length r)"
      proof (cases res)
        case (Inr p)
        obtain v r' where p: "p = (v, r')" by fastforce
        with res Inr k have "2 * length r' + 2 \<le> k" "length r' < length r" by auto
        with 4(2) [OF Suc res(1) Inr p [symmetric]] obtain res2 where "readItems k n' r' = Some res2"
          "\<forall>vs r''. res2 = Inr (vs, r'') \<longrightarrow> length r'' \<le> length r'" by auto
        with Suc res Inr p \<open>length r' < length r\<close> show ?thesis by (fastforce split: sum.splits)
      qed (use Suc res in auto)
    qed
  qed simp
next
  case (6 k n m r)
  show ?case
  proof (cases n)
    case (Suc n')
    show ?thesis
    proof
      assume k: "2 * length r + 2 \<le> Suc k"
      show "\<exists>res. readEntries (Suc k) n m r = Some res \<and> (\<forall>m' r'. res = Inr (m', r') \<longrightarrow> length r' \<le> length r)"
      proof (cases "readString r")
        case str: (Inr q)
        obtain key r1 where q: "q = (key, r1)" by fastforce
        have l1: "length r1 < length r" using str q readString_shorter by simp
        then obtain res where res: "readValue k r1 = Some res" "\<forall>v r'. res = Inr (v, r') \<longrightarrow> length r' < length r1"
          using 6(1) [OF Suc str q [symmetric]] k by auto
        show ?thesis
        proof (cases res)
          case (Inr p)
          obtain v r2 where p: "p = (v, r2)" by fastforce
          with res Inr k l1 have "2 * length r2 + 2 \<le> k" "length r2 < length r" by auto
          with 6(2) [OF Suc str q [symmetric] res(1) Inr p [symmetric]] obtain res2 where
            "readEntries k n' (AList.update key v m) r2 = Some res2"
            "\<forall>m' r'. res2 = Inr (m', r') \<longrightarrow> length r' \<le> length r2" by auto
          with Suc str q res Inr p \<open>length r2 < length r\<close> show ?thesis by fastforce
        qed (use Suc str q res in auto)
      qed (use Suc in auto)
    qed
  qed simp
qed auto

lemma readEntries_total: "\<exists>res. readEntries (read_fuel r) n m r = Some res"
  using read_total(3) [of r "read_fuel r" n m] by (auto simp: read_fuel_def)

section \<open>What reads back\<close>

text \<open>
  The form in which a value is read back: integers signed, lists untyped, maps in the order of their keys,
  the Unix epoch as the zero time. The same map is read: \<open>map_of_canon\<close>.
\<close>

primrec canon :: "gval \<Rightarrow> gval" where
  "canon VNil = VNil"
| "canon (VString s) = VString s"
| "canon (VBool b) = VBool b"
| "canon (VInt i) = VInt i"
| "canon (VUint u) = VInt u"
| "canon (VFloat f) = VFloat f"
| "canon (VTime t) = VTime t"
| "canon (VStrings ss) = VList (map VString ss)"
| "canon (VList vs) = VList (map canon vs)"
| "canon (VMap kvs) = VMap (sort_key fst (map (map_prod id canon) kvs))"
| "canon (VStringMap kvs) = VStringMap kvs"
| "canon VOther = VOther"

definition canon_map :: "props \<Rightarrow> props" where
  "canon_map m = sort_key fst (map (map_prod id canon) m)"

definition fits :: "string \<Rightarrow> bool" where
  "fits s \<longleftrightarrow> length s < 2 ^ 32"

primrec storable :: "gval \<Rightarrow> bool" where
  "storable VNil = True"
| "storable (VString s) = fits s"
| "storable (VBool b) = True"
| "storable (VInt i) = True"
| "storable (VUint u) = True"
| "storable (VFloat f) = True"
| "storable (VTime t) = True"
| "storable (VStrings ss) = (length ss < 2 ^ 32 \<and> list_all fits ss)"
| "storable (VList vs) = (length vs < 2 ^ 32 \<and> list_all id (map storable vs))"
| "storable (VMap kvs) =
     (length kvs \<le> maxEncodedMapEntries \<and> distinct (map fst kvs) \<and>
      list_all (\<lambda>(k, b). fits k \<and> b) (map (map_prod id storable) kvs))"
| "storable (VStringMap kvs) = True"
| "storable VOther = True"

text \<open>Values whose encoding ends with an empty string.\<close>

primrec last_empty :: "gval \<Rightarrow> bool" where
  "last_empty VNil = False"
| "last_empty (VString s) = (s = [])"
| "last_empty (VBool b) = False"
| "last_empty (VInt i) = False"
| "last_empty (VUint u) = False"
| "last_empty (VFloat f) = False"
| "last_empty (VTime t) = False"
| "last_empty (VStrings ss) = (ss \<noteq> [] \<and> last ss = [])"
| "last_empty (VList vs) = (vs \<noteq> [] \<and> last (map last_empty vs))"
| "last_empty (VMap kvs) = (kvs \<noteq> [] \<and> snd (last (sort_key fst (map (map_prod id last_empty) kvs))))"
| "last_empty (VStringMap kvs) = False"
| "last_empty VOther = False"

lemma insort_map_prod: "insort_key fst (map_prod id f x) (map (map_prod id f) ys) = map (map_prod id f) (insort_key fst x ys)"
  by (induction ys) auto

lemma sort_map_prod: "sort_key fst (map (map_prod id f) kvs) = map (map_prod id f) (sort_key fst kvs)"
  by (induction kvs) (simp_all add: insort_map_prod [unfolded id_def] id_def)

lemma distinct_sort_keys: "distinct (map fst kvs) \<Longrightarrow> distinct (map fst (sort_key fst kvs))"
  by (simp add: distinct_map)

lemma map_of_sort_key: "distinct (map fst kvs) \<Longrightarrow> map_of (sort_key fst kvs) = map_of kvs"
  using distinct_sort_keys map_of_inject_set by (metis set_sort)

lemma map_of_canon:
  assumes "distinct (map fst m)"
  shows "map_of (canon_map m) k = map_option canon (map_of m k)"
proof -
  have "map_of (map (map_prod id canon) m) k = map_option canon (map_of m k)"
    by (induction m) auto
  then show ?thesis using assms by (simp add: canon_map_def map_of_sort_key comp_def)
qed

subsection \<open>Strings and lists\<close>

lemma read_put [codec_simps]:
  "read_u32 (put_u32 w @ r) = Inr (w, r)" "read_u64 (put_u64 v @ r) = Inr (v, r)"
  "readUUID (put_uuid u @ r) = Inr (u, r)"
  "readTime (writeTime t @ r) = Inr (if t = AtNano 0 then ZeroTime else t, r)"
proof -
  show "readUUID (put_uuid u @ r) = Inr (u, r)"
  proof -
    have "put_uuid u \<noteq> []" using length_put(4) [of u] by force
    then show ?thesis by (simp add: readUUID_def Read_def)
  qed
  show "read_u64 (put_u64 v @ r) = Inr (v, r)" for v by (simp add: read_u64_def)
  then show "readTime (writeTime t @ r) = Inr (if t = AtNano 0 then ZeroTime else t, r)"
    by (cases t) (simp_all add: readTime_def writeTime_def)
qed (simp add: read_u32_def)

lemma fits_unat: "fits s \<Longrightarrow> unat (of_nat (length s) :: u32) = length s"
  unfolding fits_def by (rule unat_of_nat_small)

lemma readString_write [codec_simps]:
  "fits s \<Longrightarrow> s \<noteq> [] \<or> r \<noteq> [] \<Longrightarrow> readString (writeString s @ r) = Inr (s, r)"
  by (simp add: readString_def writeString_def read_put fits_unat Read_def)

lemma readStrings_write:
  "list_all fits ss \<Longrightarrow> r \<noteq> [] \<Longrightarrow> readStrings (length ss) (concat (map writeString ss) @ r) = Inr (ss, r)"
  by (induction ss) (simp_all add: readString_write)

lemma readStringSlice_write [codec_simps]:
  "list_all fits ss \<Longrightarrow> length ss < 2 ^ 32 \<Longrightarrow> r \<noteq> [] \<Longrightarrow>
   readStringSlice (writeStringSlice ss @ r) = Inr (ss, r)"
  using unat_of_nat_small(3) [of "length ss"]
  by (simp add: readStringSlice_def writeStringSlice_def read_put readStrings_write)

lemma put_u32_nonempty [simp]: "put_u32 w \<noteq> []"
  using length_put(2) [of w] by (metis list.size(3) zero_neq_numeral)

lemma writeString_nonempty [simp]: "writeString s \<noteq> []"
  by (simp add: writeString_def)

lemma those_map_Some [simp]: "those (map (\<lambda>x. Some (f x)) xs) = Some (map f xs)"
  by (induction xs) auto

lemma writeValue_VStrings: "writeValue (VStrings ss) = writeValue (VList (map VString ss))"
  by (simp add: comp_def)

lemma writeValue_nonempty: "writeValue v = Some bs \<Longrightarrow> bs \<noteq> []"
  by (cases v; clarsimp split: if_splits)

subsection \<open>Values\<close>

text \<open>A value followed by \<open>r\<close> reads back whenever the fuel covers the bytes.\<close>

definition reads_back :: "gval \<Rightarrow> bool" where
  "reads_back v \<longleftrightarrow>
     (\<forall>k r bs. writeValue v = Some bs \<longrightarrow> storable v \<longrightarrow> r \<noteq> [] \<or> \<not> last_empty v \<longrightarrow>
        2 * length (bs @ r) + 1 \<le> k \<longrightarrow> readValue k (bs @ r) = Some (Inr (canon v, r)))"

lemma reads_backD:
  assumes "reads_back v" "writeValue v = Some bs" "storable v" "r \<noteq> [] \<or> \<not> last_empty v"
    and "2 * length (bs @ r) + 1 \<le> k"
  shows "readValue k (bs @ r) = Some (Inr (canon v, r))"
  using assms unfolding reads_back_def by blast

lemma readItems_write:
  assumes "\<forall>v \<in> set vs. reads_back v \<and> storable v" "those (map writeValue vs) = Some bss"
    and "vs = [] \<or> r \<noteq> [] \<or> \<not> last_empty (last vs)" "2 * length (concat bss @ r) + 2 \<le> k"
  shows "readItems k (length vs) (concat bss @ r) = Some (Inr (map canon vs, r))"
  using assms
proof (induction vs arbitrary: bss k)
  case Nil
  then obtain k' where "k = Suc k'" by (cases k) auto
  with Nil show ?case by simp
next
  case (Cons v vs)
  obtain b bs' where b: "writeValue v = Some b" "those (map writeValue vs) = Some bs'" "bss = b # bs'"
    using Cons(3) by (auto split: option.splits)
  obtain k' where k: "k = Suc k'" using Cons(5) by (cases k) auto
  have nb: "b \<noteq> []" using b(1) by (rule writeValue_nonempty)
  have "concat bs' \<noteq> []" if "vs \<noteq> []"
    using b(2) that writeValue_nonempty by (cases vs) (auto split: option.splits)
  then have rest: "concat bs' @ r \<noteq> [] \<or> \<not> last_empty v"
    using Cons(4) by (cases "vs = []") auto
  have "readValue k' (b @ concat bs' @ r) = Some (Inr (canon v, concat bs' @ r))"
    by (rule reads_backD) (use Cons(2,5) b rest k in auto)
  moreover have "readItems k' (length vs) (concat bs' @ r) = Some (Inr (map canon vs, r))"
  proof (rule Cons(1))
    show "vs = [] \<or> r \<noteq> [] \<or> \<not> last_empty (last vs)" using Cons(4) by auto
    show "2 * length (concat bs' @ r) + 2 \<le> k'" using Cons(5) b k nb by (cases b) auto
  qed (use Cons(2) b in auto)
  ultimately show ?case by (simp add: b k)
qed

lemma update_fresh: "k \<notin> fst ` set m \<Longrightarrow> AList.update k v m = m @ [(k, v)]"
  by (induction m) auto

definition entry_bytes :: "string \<times> gval \<Rightarrow> bytes option" where
  "entry_bytes e = map_option (append (writeString (fst e))) (writeValue (snd e))"

lemma entry_bytes_pair [simp]: "entry_bytes (key, v) = map_option (append (writeString key)) (writeValue v)"
  by (simp add: entry_bytes_def)

lemma readEntries_write:
  assumes "\<forall>(key, v) \<in> set es. reads_back v \<and> storable v \<and> fits key"
    and "those (map entry_bytes es) = Some bss"
    and "es = [] \<or> r \<noteq> [] \<or> \<not> last_empty (snd (last es))" "2 * length (concat bss @ r) + 2 \<le> k"
    and "distinct (map fst es)" "fst ` set m \<inter> fst ` set es = {}"
  shows "readEntries k (length es) m (concat bss @ r) = Some (Inr (m @ map (map_prod id canon) es, r))"
  using assms
proof (induction es arbitrary: bss k m)
  case Nil
  then obtain k' where "k = Suc k'" by (cases k) auto
  with Nil show ?case by simp
next
  case (Cons e es)
  obtain key v where e: "e = (key, v)" by fastforce
  obtain b bs' where b: "writeValue v = Some b" "those (map entry_bytes es) = Some bs'"
    "bss = (writeString key @ b) # bs'"
    using Cons(3) e by (auto split: option.splits)
  obtain k' where k: "k = Suc k'" using Cons(5) by (cases k) auto
  have nb: "b \<noteq> []" using b(1) by (rule writeValue_nonempty)
  have "concat bs' \<noteq> []" if "es \<noteq> []"
    using b(2) that by (cases es) (auto split: option.splits)
  then have rest: "concat bs' @ r \<noteq> [] \<or> \<not> last_empty v"
    using Cons(4) e by (cases "es = []") auto
  have str: "readString (writeString key @ b @ concat bs' @ r) = Inr (key, b @ concat bs' @ r)"
    using Cons(2) e nb by (simp add: readString_write)
  have val: "readValue k' (b @ concat bs' @ r) = Some (Inr (canon v, concat bs' @ r))"
    by (rule reads_backD) (use Cons(2,5) b rest k e in auto)
  have "key \<notin> fst ` set m" using Cons(7) e by auto
  then have upd: "AList.update key (canon v) m = m @ [(key, canon v)]" by (rule update_fresh)
  have "readEntries k' (length es) (m @ [(key, canon v)]) (concat bs' @ r) =
      Some (Inr ((m @ [(key, canon v)]) @ map (map_prod id canon) es, r))"
  proof (rule Cons(1))
    show "es = [] \<or> r \<noteq> [] \<or> \<not> last_empty (snd (last es))" using Cons(4) by auto
    show "2 * length (concat bs' @ r) + 2 \<le> k'" using Cons(5) b k nb by (cases b) auto
    show "fst ` set (m @ [(key, canon v)]) \<inter> fst ` set es = {}" using Cons(6,7) e by auto
  qed (use Cons(2,6) b in auto)
  then show ?case by (simp add: b k e str val upd map_prod_def)
qed

lemma put_entries_map:
  "put_entries (map (map_prod id writeValue) kvs) =
     map_option (\<lambda>bs. put_u32 (of_nat (length kvs)) @ concat bs) (those (map entry_bytes (sort_key fst kvs)))"
proof -
  have "(\<lambda>(k, b). map_option (append (writeString k)) b) \<circ> map_prod id writeValue = entry_bytes"
    by (intro ext) auto
  then show ?thesis unfolding put_entries_def sort_map_prod map_map by simp
qed

lemma last_empty_map:
  "last_empty (VMap kvs) \<longleftrightarrow> kvs \<noteq> [] \<and> last_empty (snd (last (sort_key fst kvs)))"
proof (cases "kvs = []")
  case False
  then have "sort_key fst kvs \<noteq> []" by (metis length_0_conv length_sort)
  then show ?thesis using False by (simp add: sort_map_prod last_map)
qed simp

lemma storable_map:
  "storable (VMap kvs) \<longleftrightarrow> length kvs \<le> maxEncodedMapEntries \<and> distinct (map fst kvs) \<and>
     (\<forall>(k, v) \<in> set kvs. fits k \<and> storable v)"
  by (auto simp: list_all_iff)

lemma readEntries_map:
  assumes "\<forall>v \<in> snd ` set kvs. reads_back v" "storable (VMap kvs)"
    and "those (map entry_bytes (sort_key fst kvs)) = Some bss"
    and "r \<noteq> [] \<or> \<not> last_empty (VMap kvs)" "2 * length (concat bss @ r) + 2 \<le> k"
  shows "readEntries k (length kvs) [] (concat bss @ r) = Some (Inr (canon_map kvs, r))"
proof -
  have ne: "sort_key fst kvs = [] \<longleftrightarrow> kvs = []" by (metis length_0_conv length_sort)
  have "readEntries k (length (sort_key fst kvs)) [] (concat bss @ r) =
      Some (Inr ([] @ map (map_prod id canon) (sort_key fst kvs), r))"
  proof (rule readEntries_write [OF _ assms(3) _ assms(5)])
    show "\<forall>(key, v) \<in> set (sort_key fst kvs). reads_back v \<and> storable v \<and> fits key"
      using assms(1,2) unfolding storable_map by force
    show "sort_key fst kvs = [] \<or> r \<noteq> [] \<or> \<not> last_empty (snd (last (sort_key fst kvs)))"
      using assms(4) unfolding last_empty_map ne by auto
    show "distinct (map fst (sort_key fst kvs))"
      using assms(2) unfolding storable_map by (simp add: distinct_sort_keys)
  qed simp
  then show ?thesis by (simp add: canon_map_def sort_map_prod)
qed

lemma map_count_fits: "n \<le> maxEncodedMapEntries \<Longrightarrow> unat (of_nat n :: u32) = n"
  by (intro unat_of_nat_small) (simp add: maxEncodedMapEntries_def)

lemma readValue_list:
  assumes "\<forall>v \<in> set vs. reads_back v"
  shows "reads_back (VList vs)"
  unfolding reads_back_def
proof (intro allI impI)
  fix k r bs
  assume w: "writeValue (VList vs) = Some bs" and st: "storable (VList vs)"
    and l: "r \<noteq> [] \<or> \<not> last_empty (VList vs)" and k: "2 * length (bs @ r) + 1 \<le> k"
  obtain bss where bss: "those (map writeValue vs) = Some bss"
    and bs: "bs = valueArray # put_u32 (of_nat (length vs)) @ concat bss" using w by auto
  obtain k' where k': "k = Suc k'" using k by (cases k) auto
  have "unat (of_nat (length vs) :: u32) = length vs"
    using st by (intro unat_of_nat_small) simp
  moreover have "readItems k' (length vs) (concat bss @ r) = Some (Inr (map canon vs, r))"
  proof (rule readItems_write [OF _ bss])
    show "\<forall>v \<in> set vs. reads_back v \<and> storable v" using assms st by (auto simp: list_all_iff)
    show "vs = [] \<or> r \<noteq> [] \<or> \<not> last_empty (last vs)" using l by (auto simp: last_map)
    show "2 * length (concat bss @ r) + 2 \<le> k'" using k k' bs by simp
  qed
  ultimately show "readValue k (bs @ r) = Some (Inr (canon (VList vs), r))"
    by (simp add: k' bs ReadByte_def read_put value_kinds)
qed

lemma reads_back_scalar:
  assumes "\<And>k r bs. writeValue v = Some bs \<Longrightarrow> storable v \<Longrightarrow> r \<noteq> [] \<or> \<not> last_empty v \<Longrightarrow>
    readValue (Suc k) (bs @ r) = Some (Inr (canon v, r))"
  shows "reads_back v"
  unfolding reads_back_def
proof (intro allI impI)
  fix k r bs
  assume a: "writeValue v = Some bs" "storable v" "r \<noteq> [] \<or> \<not> last_empty v" "2 * length (bs @ r) + 1 \<le> k"
  then obtain k' where "k = Suc k'" by (cases k) auto
  with assms [OF a(1-3)] show "readValue k (bs @ r) = Some (Inr (canon v, r))" by blast
qed

lemma reads_back_string: "reads_back (VString s)"
  by (rule reads_back_scalar) (auto simp: ReadByte_def readString_write value_kinds)

lemma all_reads_back: "reads_back v"
proof (induction v)
  case (VStrings ss)
  have "reads_back (VList (map VString ss))" by (intro readValue_list) (auto simp: reads_back_string)
  moreover have "last_empty (VList (map VString ss)) = last_empty (VStrings ss)"
    by (auto simp: last_map comp_def)
  moreover have "storable (VStrings ss) = storable (VList (map VString ss))"
    by (simp add: list_all_iff)
  ultimately show ?case
    unfolding reads_back_def writeValue_VStrings by (simp add: comp_def del: writeValue.simps last_empty.simps storable.simps)
next
  case (VList vs)
  then show ?case by (intro readValue_list) auto
next
  case (VMap kvs)
  show ?case
    unfolding reads_back_def
  proof (intro allI impI)
    fix k r bs
    assume w: "writeValue (VMap kvs) = Some bs" and st: "storable (VMap kvs)"
      and l: "r \<noteq> [] \<or> \<not> last_empty (VMap kvs)" and k: "2 * length (bs @ r) + 1 \<le> k"
    obtain bss where bss: "those (map entry_bytes (sort_key fst kvs)) = Some bss"
      and bs: "bs = valueMap # put_u32 (of_nat (length kvs)) @ concat bss"
      using w by (auto simp: put_entries_map)
    obtain k' where k': "k = Suc k'" using k by (cases k) auto
    have n: "length kvs \<le> maxEncodedMapEntries" using st by simp
    have "readEntries k' (length kvs) [] (concat bss @ r) = Some (Inr (canon_map kvs, r))"
    proof (rule readEntries_map [OF _ st bss l])
      show "\<forall>v \<in> snd ` set kvs. reads_back v" using VMap by force
      show "2 * length (concat bss @ r) + 2 \<le> k'" using k k' bs by simp
    qed
    then show "readValue k (bs @ r) = Some (Inr (canon (VMap kvs), r))"
      using n by (simp add: k' bs ReadByte_def read_put value_kinds map_count_fits canon_map_def)
  qed
qed (rule reads_back_string | rule reads_back_scalar,
    force simp: ReadByte_def read_put value_kinds split: if_splits)+

lemma readMap_write [codec_simps]:
  assumes "writeMap m = Some bs" "storable (VMap m)" "r \<noteq> [] \<or> \<not> last_empty (VMap m)"
  shows "readMap (bs @ r) = Inr (canon_map m, r)"
proof -
  obtain bss where bss: "those (map entry_bytes (sort_key fst m)) = Some bss"
    and bs: "bs = put_u32 (of_nat (length m)) @ concat bss"
    using assms(1) by (auto simp: writeMap_def put_entries_map)
  have n: "length m \<le> maxEncodedMapEntries" using assms(2) by simp
  have "readEntries (read_fuel (concat bss @ r)) (length m) [] (concat bss @ r) = Some (Inr (canon_map m, r))"
    by (rule readEntries_map [OF _ assms(2) bss assms(3)]) (simp_all add: all_reads_back read_fuel_def)
  then show ?thesis using n by (simp add: readMap_def bs read_put map_count_fits)
qed

end
