(* ===== verification/Codec_Properties.thy ===== *)
theory Codec_Properties
  imports Graph_Codec
begin

text \<open>
  What the record codec of the graph store promises: every node and edge within the format's limits reads
  back, decoding ends on any bytes, and the two kinds of node that are written but cannot be read.
\<close>

definition canon_time :: "gotime \<Rightarrow> gotime" where
  "canon_time t = (if t = AtNano 0 then ZeroTime else t)"

definition canon_blob :: "blob_id \<Rightarrow> blob_id" where
  "canon_blob b = (case hex_decode b of None \<Rightarrow> b | Some raw \<Rightarrow> hex_encode raw)"

definition canon_node :: "node \<Rightarrow> node" where
  "canon_node n = n\<lparr>n_Properties := canon_map (n_Properties n), n_Payload := canon_map (n_Payload n),
     n_Meta := canon_map (n_Meta n), n_BlobRef := map_option canon_blob (n_BlobRef n),
     n_Props := canon_map (n_Props n), n_CreatedAt := canon_time (n_CreatedAt n),
     n_UpdatedAt := canon_time (n_UpdatedAt n)\<rparr>"

definition canon_edge :: "edge \<Rightarrow> edge" where
  "canon_edge e = e\<lparr>e_Properties := canon_map (e_Properties e), e_Payload := canon_map (e_Payload e),
     e_Meta := canon_map (e_Meta e), e_CreatedAt := canon_time (e_CreatedAt e),
     e_UpdatedAt := canon_time (e_UpdatedAt e)\<rparr>"

definition nanos :: "gotime \<Rightarrow> u64" where
  "nanos t = (case t of ZeroTime \<Rightarrow> 0 | AtNano n \<Rightarrow> n)"

text \<open>The limits of the format: 32-bit lengths, a million entries to a map.\<close>

definition storable_edge :: "edge \<Rightarrow> bool" where
  "storable_edge e \<longleftrightarrow> list_all fits (e_Labels e) \<and> length (e_Labels e) < 2 ^ 32 \<and>
     storable (VMap (e_Properties e)) \<and> storable (VMap (e_Payload e)) \<and> storable (VMap (e_Meta e))"

definition storable_node :: "node \<Rightarrow> bool" where
  "storable_node n \<longleftrightarrow> fits (n_Content n) \<and> list_all fits (n_Labels n) \<and> length (n_Labels n) < 2 ^ 32 \<and>
     storable (VMap (n_Props n)) \<and> storable (VMap (n_Properties n)) \<and> storable (VMap (n_Payload n)) \<and>
     storable (VMap (n_Meta n))"

lemma writeTime_nanos: "writeTime t = put_u64 (nanos t)"
  by (simp add: writeTime_def nanos_def)

lemma writeTime_nonempty [simp]: "writeTime t \<noteq> []"
  unfolding writeTime_nanos using length_put(3) [of "nanos t"] by (metis list.size(3) zero_neq_numeral)

lemma put_uuid_nonempty [simp]: "put_uuid u \<noteq> []"
  using length_put(4) [of u] by (metis list.size(3) zero_neq_numeral)

lemma writeMap_nonempty: "writeMap m = Some bs \<Longrightarrow> 4 \<le> length bs"
  by (auto simp: writeMap_def put_entries_def)

lemma readTime_write:
  "readTime (writeTime t @ r) = Inr (canon_time t, r)" "readTime (writeTime t) = Inr (canon_time t, [])"
  using read_put(4) [of t r] read_put(4) [of t "[]"] by (simp_all add: canon_time_def)

lemma canon_edge_record:
  "\<lparr>e_ID = e_ID e, e_DomainID = e_DomainID e, e_FromID = e_FromID e, e_ToID = e_ToID e, e_Labels = e_Labels e,
    e_Properties = canon_map (e_Properties e), e_Payload = canon_map (e_Payload e), e_Meta = canon_map (e_Meta e),
    e_CreatedAt = canon_time (e_CreatedAt e), e_UpdatedAt = canon_time (e_UpdatedAt e)\<rparr> = canon_edge e"
  by (cases e) (simp add: canon_edge_def)

lemma canon_node_record:
  "\<lparr>n_ID = n_ID n, n_DomainID = n_DomainID n, n_Labels = n_Labels n, n_Properties = canon_map (n_Properties n),
    n_Payload = canon_map (n_Payload n), n_Meta = canon_map (n_Meta n),
    n_BlobRef = map_option canon_blob (n_BlobRef n), n_Content = n_Content n, n_Props = canon_map (n_Props n),
    n_CreatedAt = canon_time (n_CreatedAt n), n_UpdatedAt = canon_time (n_UpdatedAt n)\<rparr> = canon_node n"
  by (cases n) (simp add: canon_node_def)

definition sample_edge :: edge where
  "sample_edge = \<lparr>e_ID = 7, e_DomainID = 1, e_FromID = 2, e_ToID = 3, e_Labels = [''contains''],
     e_Properties = [(''order'', VInt 4)], e_Payload = [], e_Meta = [(''b'', VString []), (''a'', VBool True)],
     e_CreatedAt = AtNano 5, e_UpdatedAt = ZeroTime\<rparr>"

lemma decodeEdge_write:
  assumes "encodeEdge e = Inr bs" "storable_edge e"
  shows "decodeEdge bs = Inr (canon_edge e)"
proof -
  obtain prs pl mt where m: "writeMap (e_Properties e) = Some prs" "writeMap (e_Payload e) = Some pl"
    "writeMap (e_Meta e) = Some mt"
    and bs: "bs = put_uuid (e_ID e) @ put_uuid (e_DomainID e) @ put_uuid (e_FromID e) @ put_uuid (e_ToID e)
      @ writeStringSlice (e_Labels e) @ prs @ pl @ mt @ writeTime (e_CreatedAt e) @ writeTime (e_UpdatedAt e) @ []"
    using assms(1) by (auto simp: encodeEdge_def split: option.splits)
  have st: "list_all fits (e_Labels e)" "length (e_Labels e) < 2 ^ 32" "storable (VMap (e_Properties e))"
    "storable (VMap (e_Payload e))" "storable (VMap (e_Meta e))"
    using assms(2) unfolding storable_edge_def by blast+
  show ?thesis
    unfolding bs decodeEdge_def read_put sum.case prod.case
    using st m writeMap_nonempty [OF m(1)]
    by (simp add: readStringSlice_write readMap_write [OF m(1) st(3)] readMap_write [OF m(2) st(4)]
        readMap_write [OF m(3) st(5)] readTime_write canon_edge_record del: storable.simps last_empty.simps)
qed

text \<open>
  An edge that can be encoded decodes to the same edge, up to the representation of its values: labels,
  endpoints and times are unchanged and every property maps to the same value.
\<close>

theorem edge_roundtrip:
  assumes "encodeEdge e = Inr bs" "storable_edge e"
  shows "decodeEdge bs = Inr (canon_edge e) \<and>
    (\<forall>k. map_of (e_Properties (canon_edge e)) k = map_option canon (map_of (e_Properties e) k))"
proof -
  have "distinct (map fst (e_Properties e))" using assms(2) by (simp add: storable_edge_def)
  with decodeEdge_write [OF assms] show ?thesis by (simp add: canon_edge_def map_of_canon)
qed

theorem edge_roundtrip_witness:
  "\<exists>bs. encodeEdge sample_edge = Inr bs \<and> decodeEdge bs = Inr (canon_edge sample_edge)"
proof -
  obtain bs where bs: "encodeEdge sample_edge = Inr bs"
    by (simp add: encodeEdge_def sample_edge_def writeMap_def put_entries_def)
  have "storable_edge sample_edge"
    by (simp add: storable_edge_def sample_edge_def fits_def maxEncodedMapEntries_def)
  from edge_roundtrip [OF bs this] bs show ?thesis by blast
qed

text \<open>The parts of an encoded node.\<close>

lemma encodeNode_parts:
  assumes "encodeNode n = Inr bs"
  obtains ps br prs pl mt where "writeMap (n_Props n) = Some ps" "writeBlobRef (n_BlobRef n) = Some br"
    "writeMap (n_Properties n) = Some prs" "writeMap (n_Payload n) = Some pl" "writeMap (n_Meta n) = Some mt"
    "bs = put_uuid (n_ID n) @ [0] @ writeString (n_Content n) @ writeTime (n_CreatedAt n)
       @ writeTime (n_UpdatedAt n) @ ps @ br @ put_uuid (n_DomainID n) @ writeStringSlice (n_Labels n)
       @ prs @ pl @ mt"
  using assms by (auto simp: encodeNode_def split: option.splits)

lemma decodeNodePrefix_write:
  "fits c \<Longrightarrow> r \<noteq> [] \<Longrightarrow> decodeNodePrefix (put_uuid i @ [0] @ writeString c @ r) = Inr ((i, c), r)"
  by (simp add: decodeNodePrefix_def read_put ReadByte_def readString_write)

lemma peek_write: "peekInt64 (writeTime t @ r) = nanos t"
  by (simp add: peekInt64_def writeTime_nanos)

lemma readBlobRef_write:
  assumes "writeBlobRef ref = Some br"
  shows "readBlobRef (br @ r) = Inr (map_option canon_blob ref, r)"
proof (cases ref)
  case None
  with assms show ?thesis by (auto simp: writeBlobRef_def readBlobRef_def ReadByte_def)
next
  case (Some b)
  with assms obtain raw where "hex_decode b = Some raw" "length raw = 32" "br = 1 # raw"
    by (auto simp: writeBlobRef_def BlobID_Bytes_def blobIDRawLen_def split: option.splits if_splits)
  with Some show ?thesis
    by (simp add: readBlobRef_def ReadByte_def BlobIDFromBytes_def blobIDRawLen_def canon_blob_def)
qed

lemma readDomainID_write: "readDomainID (put_uuid d @ r) = Inr (d, r)"
  by (simp add: readDomainID_def read_put)

text \<open>Decoding up to the tail, for a plausible creation time.\<close>

lemma decodeNode_write:
  assumes "encodeNode n = Inr bs" "storable_node n" "plausibleUnixNanos (nanos (n_CreatedAt n))"
  shows "\<exists>mt. writeMap (n_Meta n) = Some mt \<and>
    decodeNode bs =
      (case readMap mt of
         Inl e \<Rightarrow> Inl e
       | Inr (m, r) \<Rightarrow>
           if r = [] then Inr ((canon_node n)\<lparr>n_Meta := m\<rparr>)
           else decodeNode bs)"
proof -
  obtain ps br prs pl mt where m: "writeMap (n_Props n) = Some ps" "writeBlobRef (n_BlobRef n) = Some br"
    "writeMap (n_Properties n) = Some prs" "writeMap (n_Payload n) = Some pl" "writeMap (n_Meta n) = Some mt"
    and bs: "bs = put_uuid (n_ID n) @ [0] @ writeString (n_Content n) @ writeTime (n_CreatedAt n)
       @ writeTime (n_UpdatedAt n) @ ps @ br @ put_uuid (n_DomainID n) @ writeStringSlice (n_Labels n)
       @ prs @ pl @ mt"
    using assms(1) by (rule encodeNode_parts)
  let ?tail = "writeStringSlice (n_Labels n) @ prs @ pl @ mt"
  let ?r = "writeTime (n_CreatedAt n) @ writeTime (n_UpdatedAt n) @ ps @ br @ put_uuid (n_DomainID n) @ ?tail"
  have st: "fits (n_Content n)" "list_all fits (n_Labels n)" "length (n_Labels n) < 2 ^ 32"
    "storable (VMap (n_Props n))" "storable (VMap (n_Properties n))" "storable (VMap (n_Payload n))"
    using assms(2) unfolding storable_node_def by blast+
  have pre: "decodeNodePrefix bs = Inr ((n_ID n, n_Content n), ?r)"
    unfolding bs using st(1) by (intro decodeNodePrefix_write) simp_all
  have len: "20 \<le> length ?r" using writeMap_nonempty [OF m(1)] by (simp add: writeTime_nanos)
  have ne: "prs @ pl @ mt \<noteq> []" "pl @ mt \<noteq> []" "mt \<noteq> []" "?tail \<noteq> []" "br @ put_uuid (n_DomainID n) @ ?tail \<noteq> []"
    using writeMap_nonempty [OF m(3)] writeMap_nonempty [OF m(4)] writeMap_nonempty [OF m(5)] by auto
  have tl: "read_node_tail ?tail =
      (case readMap mt of Inl e \<Rightarrow> Inl e
       | Inr (mt', r4) \<Rightarrow> Inr ((n_Labels n, canon_map (n_Properties n), canon_map (n_Payload n), mt'), r4))"
    using st(2,3) ne by (simp add: read_node_tail_def readStringSlice_write readMap_write [OF m(3) st(5)]
        readMap_write [OF m(4) st(6)] del: storable.simps last_empty.simps)
  show ?thesis
  proof (intro exI conjI)
    show "writeMap (n_Meta n) = Some mt" by (rule m)
    show "decodeNode bs = (case readMap mt of Inl e \<Rightarrow> Inl e
         | Inr (m, r) \<Rightarrow> if r = [] then Inr ((canon_node n)\<lparr>n_Meta := m\<rparr>) else decodeNode bs)"
    proof (cases "readMap mt")
      case (Inl e)
      then show ?thesis
        unfolding decodeNode_def pre using len assms(3) ne
        by (simp add: peek_write readTime_write readMap_write [OF m(1) st(4)] readBlobRef_write [OF m(2)]
            readDomainID_write tl del: storable.simps last_empty.simps)
    next
      case (Inr q)
      obtain mt' r4 where q: "q = (mt', r4)" by fastforce
      have "decodeNode bs = Inr ((canon_node n)\<lparr>n_Meta := mt'\<rparr>)" if "r4 = []"
        unfolding decodeNode_def pre using len assms(3) ne Inr q that
        by (simp add: peek_write readTime_write readMap_write [OF m(1) st(4)] readBlobRef_write [OF m(2)]
            readDomainID_write tl del: storable.simps last_empty.simps)
          (simp add: canon_node_record [symmetric])
      with Inr q show ?thesis by simp
    qed
  qed
qed

lemma decodeNode_canon:
  assumes "encodeNode n = Inr bs" "storable_node n" "plausibleUnixNanos (nanos (n_CreatedAt n))"
    and "\<not> last_empty (VMap (n_Meta n))"
  shows "decodeNode bs = Inr (canon_node n)"
proof -
  obtain mt where mt: "writeMap (n_Meta n) = Some mt" and dec: "decodeNode bs =
      (case readMap mt of Inl e \<Rightarrow> Inl e
       | Inr (m, r) \<Rightarrow> if r = [] then Inr ((canon_node n)\<lparr>n_Meta := m\<rparr>) else decodeNode bs)"
    using decodeNode_write [OF assms(1-3)] by blast
  have "storable (VMap (n_Meta n))" using assms(2) unfolding storable_node_def by blast
  then have "readMap (mt @ []) = Inr (canon_map (n_Meta n), [])"
    using assms(4) by (intro readMap_write [OF mt]) simp_all
  then have "readMap mt = Inr (canon_map (n_Meta n), [])" by simp
  with dec have "decodeNode bs = Inr ((canon_node n)\<lparr>n_Meta := canon_map (n_Meta n)\<rparr>)" by simp
  moreover have "(canon_node n)\<lparr>n_Meta := canon_map (n_Meta n)\<rparr> = canon_node n" by (simp add: canon_node_def)
  ultimately show ?thesis by simp
qed

text \<open>
  C22. A node that can be encoded decodes to the same node, up to the representation of its values, when its
  creation time is unset or within 2000 to 2200 and the last value of its metadata is not an empty string.
\<close>

theorem node_roundtrip:
  assumes "encodeNode n = Inr bs" "storable_node n" "plausibleUnixNanos (nanos (n_CreatedAt n))"
    and "\<not> last_empty (VMap (n_Meta n))"
  shows "decodeNode bs = Inr (canon_node n) \<and>
    (\<forall>k. map_of (n_Properties (canon_node n)) k = map_option canon (map_of (n_Properties n) k))"
proof -
  have "distinct (map fst (n_Properties n))" using assms(2) by (simp add: storable_node_def)
  with decodeNode_canon [OF assms] show ?thesis by (simp add: canon_node_def map_of_canon)
qed

definition sample_node :: node where
  "sample_node = \<lparr>n_ID = 9, n_DomainID = 1, n_Labels = [''Note''], n_Properties = [(''size'', VUint 3)],
     n_Payload = [(''text'', VString ''hi'')], n_Meta = [(''b'', VBool True), (''a'', VString [])],
     n_BlobRef = None, n_Content = ''hi'', n_Props = [], n_CreatedAt = AtNano 1577836800000000000,
     n_UpdatedAt = ZeroTime\<rparr>"

lemma sample_node_storable: "storable_node sample_node" "storable_node (sample_node\<lparr>n_Meta := [(k, VString [])]\<rparr>)"
  "storable_node (sample_node\<lparr>n_CreatedAt := t\<rparr>)" if "fits k"
  using that by (simp_all add: storable_node_def sample_node_def fits_def maxEncodedMapEntries_def)

lemma sample_node_encodes:
  "\<exists>bs. encodeNode sample_node = Inr bs" "\<exists>bs. encodeNode (sample_node\<lparr>n_Meta := [(k, VString [])]\<rparr>) = Inr bs"
  "\<exists>bs. encodeNode (sample_node\<lparr>n_CreatedAt := t\<rparr>) = Inr bs"
  by (simp_all add: encodeNode_def sample_node_def writeMap_def put_entries_def writeBlobRef_def)

lemma sample_node_plausible: "plausibleUnixNanos (nanos (n_CreatedAt sample_node))"
  by (simp add: plausibleUnixNanos_def nanos_def sample_node_def)

theorem node_roundtrip_witness:
  "\<exists>bs. encodeNode sample_node = Inr bs \<and> decodeNode bs = Inr (canon_node sample_node)"
proof -
  obtain bs where bs: "encodeNode sample_node = Inr bs" using sample_node_encodes(1) by blast
  have "\<not> last_empty (VMap (n_Meta sample_node))" by (simp add: sample_node_def)
  with node_roundtrip [OF bs sample_node_storable(1) [of "[]"] sample_node_plausible] bs
  show ?thesis by (simp add: fits_def)
qed

text \<open>
  A value whose encoding ends with an empty string, at the end of the bytes: the read of that string is a
  read of no bytes at the end, which the reader takes for the end of the file.
\<close>

definition reads_short :: "gval \<Rightarrow> bool" where
  "reads_short v \<longleftrightarrow>
     (\<forall>k bs. writeValue v = Some bs \<longrightarrow> storable v \<longrightarrow> last_empty v \<longrightarrow> 2 * length bs + 1 \<le> k \<longrightarrow>
        readValue k bs = Some (Inl ErrSegmentEOF))"

lemma reads_shortD:
  "reads_short v \<Longrightarrow> writeValue v = Some bs \<Longrightarrow> storable v \<Longrightarrow> last_empty v \<Longrightarrow> 2 * length bs + 1 \<le> k \<Longrightarrow>
     readValue k bs = Some (Inl ErrSegmentEOF)"
  unfolding reads_short_def by blast

lemma readString_at_end: "readString (put_u32 0) = Inl ErrSegmentEOF"
  using read_put(1) [of 0 "[]"] by (simp add: readString_def Read_def)

lemma readItems_short:
  assumes "vs \<noteq> []" "\<forall>v \<in> set vs. reads_short v \<and> storable v" "those (map writeValue vs) = Some bss"
    and "last_empty (last vs)" "2 * length (concat bss) + 2 \<le> k"
  shows "readItems k (length vs) (concat bss) = Some (Inl ErrSegmentEOF)"
  using assms
proof (induction vs arbitrary: bss k)
  case (Cons v vs)
  obtain b bs' where b: "writeValue v = Some b" "those (map writeValue vs) = Some bs'" "bss = b # bs'"
    using Cons.prems(3) by (auto split: option.splits)
  obtain k' where k: "k = Suc k'" using Cons.prems(5) by (cases k) auto
  show ?case
  proof (cases "vs = []")
    case True
    then have "bs' = []" using b(2) by simp
    with True b k Cons.prems have "readValue k' b = Some (Inl ErrSegmentEOF)" by (intro reads_shortD [of v]) auto
    with True b(3) \<open>bs' = []\<close> k show ?thesis by simp
  next
    case False
    have ne: "b \<noteq> []" "concat bs' \<noteq> []"
      using b(1,2) False writeValue_nonempty by (cases vs; auto split: option.splits)+
    have "readValue k' (b @ concat bs') = Some (Inr (canon v, concat bs'))"
      by (rule reads_backD [OF all_reads_back]) (use b ne k Cons.prems in auto)
    moreover have "readItems k' (length vs) (concat bs') = Some (Inl ErrSegmentEOF)"
      by (rule Cons.IH) (use False b ne k Cons.prems in \<open>auto simp: neq_Nil_conv\<close>)
    ultimately show ?thesis by (simp add: b(3) k)
  qed
qed simp

lemma readEntries_short:
  assumes "es \<noteq> []" "\<forall>(key, v) \<in> set es. reads_short v \<and> storable v \<and> fits key"
    and "those (map entry_bytes es) = Some bss" "last_empty (snd (last es))" "2 * length (concat bss) + 2 \<le> k"
  shows "readEntries k (length es) m (concat bss) = Some (Inl ErrSegmentEOF)"
  using assms
proof (induction es arbitrary: bss k m)
  case (Cons e es)
  obtain key v where e: "e = (key, v)" by fastforce
  obtain b bs' where b: "writeValue v = Some b" "those (map entry_bytes es) = Some bs'"
    "bss = (writeString key @ b) # bs'"
    using Cons.prems(3) e by (auto split: option.splits)
  obtain k' where k: "k = Suc k'" using Cons.prems(5) by (cases k) auto
  have nb: "b \<noteq> []" using b(1) by (rule writeValue_nonempty)
  have str: "readString (writeString key @ b @ concat bs') = Inr (key, b @ concat bs')"
    using Cons.prems(2) e nb by (simp add: readString_write)
  show ?case
  proof (cases "es = []")
    case True
    then have "bs' = []" using b(2) by simp
    have "readValue k' b = Some (Inl ErrSegmentEOF)"
      by (rule reads_shortD [of v]) (use True b k e Cons.prems in auto)
    with True b(3) str e \<open>bs' = []\<close> k show ?thesis by simp
  next
    case False
    have ne: "concat bs' \<noteq> []" using b(2) False by (cases es) (auto split: option.splits)
    have "readValue k' (b @ concat bs') = Some (Inr (canon v, concat bs'))"
      by (rule reads_backD [OF all_reads_back]) (use b e ne k Cons.prems in auto)
    moreover have "readEntries k' (length es) (AList.update key (canon v) m) (concat bs') = Some (Inl ErrSegmentEOF)"
      by (rule Cons.IH) (use False b nb k Cons.prems in \<open>auto simp: neq_Nil_conv\<close>)
    ultimately show ?thesis using str by (simp add: b(3) k e)
  qed
qed simp

lemma readEntries_map_short:
  assumes "\<forall>v \<in> snd ` set kvs. reads_short v" "storable (VMap kvs)" "last_empty (VMap kvs)"
    and "those (map entry_bytes (sort_key fst kvs)) = Some bss" "2 * length (concat bss) + 2 \<le> k"
  shows "readEntries k (length kvs) [] (concat bss) = Some (Inl ErrSegmentEOF)"
proof -
  have ne: "sort_key fst kvs \<noteq> []" using assms(3) by (metis last_empty_map length_0_conv length_sort)
  have "readEntries k (length (sort_key fst kvs)) [] (concat bss) = Some (Inl ErrSegmentEOF)"
    by (rule readEntries_short [OF ne _ assms(4) _ assms(5)])
      (use assms(1-3) in \<open>force simp: storable_map last_empty_map simp del: storable.simps last_empty.simps\<close>)+
  then show ?thesis by simp
qed

lemma reads_short_list:
  assumes "\<forall>v \<in> set vs. reads_short v"
  shows "reads_short (VList vs)"
  unfolding reads_short_def
proof (intro allI impI)
  fix k bs
  assume w: "writeValue (VList vs) = Some bs" and st: "storable (VList vs)"
    and l: "last_empty (VList vs)" and k: "2 * length bs + 1 \<le> k"
  obtain bss where bss: "those (map writeValue vs) = Some bss"
    and bs: "bs = valueArray # put_u32 (of_nat (length vs)) @ concat bss" using w by auto
  obtain k' where k': "k = Suc k'" using k by (cases k) auto
  have "unat (of_nat (length vs) :: u32) = length vs" using st by (intro unat_of_nat_small) simp
  moreover have "readItems k' (length vs) (concat bss) = Some (Inl ErrSegmentEOF)"
    by (rule readItems_short [OF _ _ bss]) (use assms st l k k' bs in \<open>auto simp: list_all_iff last_map\<close>)
  ultimately show "readValue k bs = Some (Inl ErrSegmentEOF)"
    by (simp add: k' bs ReadByte_def read_put value_kinds)
qed

lemma reads_short_string: "reads_short (VString s)"
  unfolding reads_short_def
proof (intro allI impI)
  fix k bs assume w: "writeValue (VString s) = Some bs" "last_empty (VString s)" and k: "2 * length bs + 1 \<le> k"
  obtain k' where "k = Suc k'" using k by (cases k) auto
  with w readString_at_end show "readValue k bs = Some (Inl ErrSegmentEOF)"
    by (auto simp: ReadByte_def writeString_def bytes_of_def value_kinds)
qed

lemma all_reads_short: "reads_short v"
proof (induction v)
  case (VStrings ss)
  have "reads_short (VList (map VString ss))" by (intro reads_short_list) (auto simp: reads_short_string)
  moreover have "last_empty (VList (map VString ss)) = last_empty (VStrings ss)" by (auto simp: last_map comp_def)
  moreover have "storable (VStrings ss) = storable (VList (map VString ss))" by (simp add: list_all_iff)
  ultimately show ?case
    unfolding reads_short_def writeValue_VStrings by (simp add: comp_def del: writeValue.simps last_empty.simps storable.simps)
next
  case (VList vs)
  then show ?case by (intro reads_short_list) auto
next
  case (VMap kvs)
  show ?case
    unfolding reads_short_def
  proof (intro allI impI)
    fix k bs
    assume w: "writeValue (VMap kvs) = Some bs" and st: "storable (VMap kvs)"
      and l: "last_empty (VMap kvs)" and k: "2 * length bs + 1 \<le> k"
    obtain bss where bss: "those (map entry_bytes (sort_key fst kvs)) = Some bss"
      and bs: "bs = valueMap # put_u32 (of_nat (length kvs)) @ concat bss"
      using w by (auto simp: put_entries_map)
    obtain k' where k': "k = Suc k'" using k by (cases k) auto
    have n: "length kvs \<le> maxEncodedMapEntries" using st by simp
    have "readEntries k' (length kvs) [] (concat bss) = Some (Inl ErrSegmentEOF)"
      by (rule readEntries_map_short [OF _ st l bss]) (use VMap k k' bs in force)+
    then show "readValue k bs = Some (Inl ErrSegmentEOF)"
      using n by (simp add: k' bs ReadByte_def read_put value_kinds map_count_fits)
  qed
qed (rule reads_short_string | simp add: reads_short_def)+

lemma readMap_short:
  assumes "writeMap m = Some bs" "storable (VMap m)" "last_empty (VMap m)"
  shows "readMap bs = Inl ErrSegmentEOF"
proof -
  obtain bss where bss: "those (map entry_bytes (sort_key fst m)) = Some bss"
    and bs: "bs = put_u32 (of_nat (length m)) @ concat bss"
    using assms(1) by (auto simp: writeMap_def put_entries_map)
  have n: "length m \<le> maxEncodedMapEntries" using assms(2) by simp
  have "readEntries (read_fuel (concat bss)) (length m) [] (concat bss) = Some (Inl ErrSegmentEOF)"
    by (rule readEntries_map_short [OF _ assms(2,3) bss]) (simp_all add: all_reads_short read_fuel_def)
  then show ?thesis using n by (simp add: readMap_def bs read_put map_count_fits)
qed

text \<open>
  C33. A node whose metadata end with an empty string, the value of the last key or the last element of
  lists and maps in it, is written by a commit but cannot be read: decoding it ends with an unexpected end of
  file. These are all the nodes that the round trip leaves out for their metadata.
\<close>

theorem node_empty_meta_unreadable:
  assumes "encodeNode n = Inr bs" "storable_node n" "plausibleUnixNanos (nanos (n_CreatedAt n))"
    and "last_empty (VMap (n_Meta n))"
  shows "decodeNode bs = Inl ErrSegmentEOF"
proof -
  obtain mt where mt: "writeMap (n_Meta n) = Some mt" and dec: "decodeNode bs =
      (case readMap mt of Inl e \<Rightarrow> Inl e
       | Inr (m, r) \<Rightarrow> if r = [] then Inr ((canon_node n)\<lparr>n_Meta := m\<rparr>) else decodeNode bs)"
    using decodeNode_write [OF assms(1-3)] by blast
  have "storable (VMap (n_Meta n))" using assms(2) unfolding storable_node_def by blast
  from readMap_short [OF mt this assms(4)] dec show ?thesis by simp
qed

definition short_node :: node where
  "short_node = sample_node\<lparr>n_Meta := [(''tags'', VList [VInt 1, VString []]), (''a'', VBool True)]\<rparr>"

theorem node_empty_meta_unreadable_witness:
  "\<exists>bs. encodeNode short_node = Inr bs \<and> decodeNode bs = Inl ErrSegmentEOF"
proof -
  have "\<exists>bs. encodeNode short_node = Inr bs" "storable_node short_node" "last_empty (VMap (n_Meta short_node))"
    "plausibleUnixNanos (nanos (n_CreatedAt short_node))"
    using sample_node_plausible
    by (simp_all add: short_node_def encodeNode_def sample_node_def writeMap_def put_entries_def writeBlobRef_def
        storable_node_def fits_def maxEncodedMapEntries_def)
  with node_empty_meta_unreadable show ?thesis by blast
qed

lemma digits_fix_add: "digits_fix b (m + n) x = digits_fix b m (x div b ^ n) @ digits_fix b n x"
  by (induction n arbitrary: x) (simp_all add: div_mult2_eq)

text \<open>A time read as a 32-bit count is its upper half.\<close>

lemma read_high_word: "\<exists>c r'. read_u32 (put_u64 w @ r) = Inr (c, r') \<and> unat c = unat w div 2 ^ 32"
proof -
  have x: "unat w div 2 ^ 32 < 2 ^ 32"
    using unsigned_less [of w, where ?'a = nat] by (intro less_mult_imp_div_less) simp
  have "be_enc (4 + 4) (unat w) = be_enc 4 (unat w div 256 ^ 4) @ be_enc 4 (unat w)"
    unfolding be_enc_def digits_fix_add by simp
  then have "take 4 (put_u64 w @ r) = be_enc 4 (unat w div 2 ^ 32)"
    by (simp add: put_u64_def)
  moreover have "get_u32 (be_enc 4 (unat w div 2 ^ 32)) = of_nat (unat w div 2 ^ 32)"
    using x by (simp add: get_u32_def)
  ultimately show ?thesis
    using unat_of_nat_small(3) [OF x] by (simp add: read_u32_def)
qed

text \<open>
  A node created before 2000 or after 2200 is written by a commit but cannot be read: its timestamps
  are taken for the entry count of a map, which is over the limit. (Except within the first 50 days of 1970.)
\<close>

theorem node_time_unreadable:
  assumes "encodeNode n = Inr bs" "storable_node n" "\<not> plausibleUnixNanos (nanos (n_CreatedAt n))"
    and "maxEncodedMapEntries < unat (nanos (n_CreatedAt n)) div 2 ^ 32"
  shows "decodeNode bs = Inl ErrUnsupported"
proof -
  obtain ps br prs pl mt where bs: "bs = put_uuid (n_ID n) @ [0] @ writeString (n_Content n)
       @ writeTime (n_CreatedAt n) @ writeTime (n_UpdatedAt n) @ ps @ br @ put_uuid (n_DomainID n)
       @ writeStringSlice (n_Labels n) @ prs @ pl @ mt"
    using assms(1) by (rule encodeNode_parts)
  let ?rest = "writeTime (n_UpdatedAt n) @ ps @ br @ put_uuid (n_DomainID n) @ writeStringSlice (n_Labels n)
       @ prs @ pl @ mt"
  have "fits (n_Content n)" using assms(2) unfolding storable_node_def by blast
  then have pre: "decodeNodePrefix bs = Inr ((n_ID n, n_Content n), writeTime (n_CreatedAt n) @ ?rest)"
    unfolding bs by (intro decodeNodePrefix_write) simp_all
  have "readMap (writeTime (n_CreatedAt n) @ ?rest) = Inl ErrUnsupported"
  proof -
    obtain c r' where "read_u32 (writeTime (n_CreatedAt n) @ ?rest) = Inr (c, r')"
      "unat c = unat (nanos (n_CreatedAt n)) div 2 ^ 32"
      using read_high_word unfolding writeTime_nanos by blast
    then show ?thesis using assms(4) by (simp add: readMap_def)
  qed
  then show ?thesis
    unfolding decodeNode_def pre using assms(3)
    by (simp add: peek_write decode_legacy_node_def)
qed

theorem node_time_unreadable_witness:
  "\<exists>bs. encodeNode (sample_node\<lparr>n_CreatedAt := AtNano 915148800000000000\<rparr>) = Inr bs \<and>
    decodeNode bs = Inl ErrUnsupported"
proof -
  let ?n = "sample_node\<lparr>n_CreatedAt := AtNano 915148800000000000\<rparr>"
  obtain bs where bs: "encodeNode ?n = Inr bs" using sample_node_encodes(3) by blast
  have "\<not> plausibleUnixNanos (nanos (n_CreatedAt ?n))" "maxEncodedMapEntries < unat (nanos (n_CreatedAt ?n)) div 2 ^ 32"
    by (simp_all add: plausibleUnixNanos_def nanos_def maxEncodedMapEntries_def)
  from node_time_unreadable [OF bs sample_node_storable(3) [of "[]"] this] bs show ?thesis
    by (auto simp: fits_def)
qed

text \<open>
  C30. Reading a value ends on any bytes, well-formed or not: fuel twice the length of the input is always
  enough, whatever the counts in the input claim, and reading never yields bytes that were not there.
\<close>

theorem decoding_ends:
  "(\<exists>res. readValue (read_fuel r + j) r = Some res \<and> length (case res of Inl e \<Rightarrow> [] | Inr (v, r') \<Rightarrow> r') \<le> length r) \<and>
   (\<exists>res. readEntries (read_fuel r + j) n m r = Some res \<and>
      length (case res of Inl e \<Rightarrow> [] | Inr (m', r') \<Rightarrow> r') \<le> length r)"
proof -
  obtain r1 r2 where "readValue (read_fuel r + j) r = Some r1" "\<forall>v r'. r1 = Inr (v, r') \<longrightarrow> length r' < length r"
    "readEntries (read_fuel r + j) n m r = Some r2" "\<forall>m' r'. r2 = Inr (m', r') \<longrightarrow> length r' \<le> length r"
    using read_total(1) [of r "read_fuel r + j"] read_total(3) [of r "read_fuel r + j" n m]
    by (auto simp: read_fuel_def)
  then show ?thesis by (auto split: sum.split intro: less_imp_le)
qed

end
