(* ===== verification/Graph_State.thy ===== *)
theory Graph_State
  imports Graph_Codec Graph_Edges
begin

text \<open>
  The graph store as a whole (\<open>LocalStore\<close> of \<open>internal/graph/storage/store.go\<close>): its node and edge sides,
  the three active segments, the revision, the idempotency records and the metadata of the configured
  indexes. \<open>cf_Indexes\<close> of the configuration is the map \<open>configuredIndexes\<close>, \<open>st_domains\<close> its keys. The JSON text of the records
  that go into the transaction segment is a parameter, \<open>json_codec\<close>.
\<close>

datatype StoreState =
    StoreStateClosed | StoreStateOpening | StoreStateRebuildingIndex | StoreStateReady | StoreStateError

datatype IndexBuildState =
    IndexBuildStateBuilding | IndexBuildStateReady | IndexBuildStateFailed | IndexBuildStateStale
  | IndexBuildStateRetired

record IndexMetadata =
  im_Name :: string
  im_DomainID :: domain_id
  im_SchemaHash :: string
  im_TargetKind :: string
  im_TargetType :: string
  im_Labels :: "string list"
  im_Namespace :: string
  im_Field :: string
  im_Kind :: string
  im_Direction :: string
  im_BuildState :: IndexBuildState
  im_LastIndexedGraphRevision :: u64
  im_KeyEncodingVersion :: int

record IdempotencyRecord =
  ir_Scope :: string
  ir_Key :: string
  ir_Digest :: string
  ir_Metadata :: bytes
  ir_StorageTxnID :: uuid
  ir_CommittedRevision :: u64
  ir_CommittedAt :: gotime
  ir_ExpiresAt :: gotime
  ir_Delivered :: bool
  ir_RetainUntilAcknowledged :: bool
  ir_PublicationAcknowledged :: bool

text \<open>\<open>json.Marshal\<close> and \<open>json.Unmarshal\<close> of the three payload types; they may fail.\<close>

record json_codec =
  jc_commit :: "IdempotencyRecord \<Rightarrow> bytes option"
  jc_uncommit :: "bytes \<Rightarrow> IdempotencyRecord option option"
  jc_record :: "IdempotencyRecord \<Rightarrow> bytes option"
  jc_unrecord :: "bytes \<Rightarrow> IdempotencyRecord option"
  jc_delivery :: "string \<times> string \<times> string \<Rightarrow> bytes option"
  jc_undelivery :: "bytes \<Rightarrow> (string \<times> string \<times> string) option"

text \<open>What is relied on: a marshalled value is not empty and unmarshals to itself.\<close>

definition json_ok :: "json_codec \<Rightarrow> bool" where
  "json_ok jc \<longleftrightarrow>
     (\<forall>r bs. jc_commit jc r = Some bs \<longrightarrow> bs \<noteq> [] \<and> jc_uncommit jc bs = Some (Some r)) \<and>
     (\<forall>r bs. jc_record jc r = Some bs \<longrightarrow> bs \<noteq> [] \<and> jc_unrecord jc bs = Some r) \<and>
     (\<forall>d bs. jc_delivery jc d = Some bs \<longrightarrow> bs \<noteq> [] \<and> jc_undelivery jc bs = Some d)"

text \<open>The file \<open>indexes/manifest.json\<close>: each configured domain with its schema hash and indexes.\<close>

datatype manifest_file = NoManifest | Manifest "(domain_id \<times> string \<times> index_def list) list" | BadManifest

record local_store =
  st_state :: StoreState
  st_cfg :: store_cfg
  st_json :: json_codec
  st_nodeSeg :: segment
  st_edgeSeg :: segment
  st_txnSeg :: segment
  st_nodes :: node_state
  st_edges :: edge_state
  st_indexMeta :: "string \<rightharpoonup> IndexMetadata"
  st_domains :: "domain_id list"
  st_manifest :: manifest_file
  st_revision :: u64
  st_idem :: "(string \<times> IdempotencyRecord) list"
  st_evictions :: u64

definition ensureReady :: "local_store \<Rightarrow> graph_error option" where
  "ensureReady s =
     (if st_state s = StoreStateClosed then Some ErrClosed
      else if st_state s \<noteq> StoreStateReady then Some ErrNotReady
      else None)"

definition store_Close :: "local_store \<Rightarrow> local_store" where
  "store_Close s = s\<lparr>st_state := StoreStateClosed\<rparr>"

section \<open>Idempotency records\<close>

definition MaxIdempotencyRecordsPerStore :: nat where
  "MaxIdempotencyRecordsPerStore = 100000"

text \<open>The length prefix keeps scope and key apart.\<close>

definition idempotencyRecordIdentity :: "string \<Rightarrow> string \<Rightarrow> string" where
  "idempotencyRecordIdentity scope key = dec_string (length scope) @ '':'' @ scope @ key"

definition validateIdempotencyRecord :: "IdempotencyRecord \<Rightarrow> graph_error option" where
  "validateIdempotencyRecord r =
     (if TrimSpace (ir_Scope r) = [] then Some (ErrInvalid ''idempotency scope is required'')
      else if TrimSpace (ir_Key r) = [] then Some (ErrInvalid ''idempotency key is required'')
      else if TrimSpace (ir_Digest r) = [] then Some (ErrInvalid ''idempotency digest is required'')
      else if ir_CommittedAt r = ZeroTime then Some (ErrInvalid ''idempotency committed_at is required'')
      else if \<not> time_after (ir_ExpiresAt r) (ir_CommittedAt r)
      then Some (ErrInvalid ''idempotency expires_at must follow committed_at'')
      else if ir_PublicationAcknowledged r \<and> \<not> ir_RetainUntilAcknowledged r
      then Some (ErrInvalid ''publication acknowledgement requires retained idempotency'')
      else None)"

definition idempotencyRecordExpired :: "IdempotencyRecord \<Rightarrow> gotime \<Rightarrow> bool" where
  "idempotencyRecordExpired r now =
     (if ir_RetainUntilAcknowledged r \<and> \<not> ir_PublicationAcknowledged r then False
      else \<not> time_after (ir_ExpiresAt r) now)"

definition purgeExpiredIdempotencyRecordsLocked :: "gotime \<Rightarrow> local_store \<Rightarrow> local_store" where
  "purgeExpiredIdempotencyRecordsLocked now s =
     s\<lparr>st_idem := filter (\<lambda>(i, r). \<not> idempotencyRecordExpired r now) (st_idem s),
       st_evictions := st_evictions s
         + of_nat (length (filter (\<lambda>(i, r). idempotencyRecordExpired r now) (st_idem s)))\<rparr>"

definition idem_lookup :: "string \<Rightarrow> string \<Rightarrow> local_store \<Rightarrow> IdempotencyRecord option" where
  "idem_lookup scope key s = map_of (st_idem s) (idempotencyRecordIdentity scope key)"

definition idem_store :: "IdempotencyRecord \<Rightarrow> local_store \<Rightarrow> local_store" where
  "idem_store r s =
     s\<lparr>st_idem := AList.update (idempotencyRecordIdentity (ir_Scope r) (ir_Key r)) r (st_idem s)\<rparr>"

lemma idempotencyRecordIdentity_inj:
  "idempotencyRecordIdentity a b = idempotencyRecordIdentity c d \<longleftrightarrow> a = c \<and> b = d"
proof
  assume eq: "idempotencyRecordIdentity a b = idempotencyRecordIdentity c d"
  have colon: "CHR '':'' \<notin> set (dec_string n)" for n
    using dec_string_digits [of n] by (auto simp: is_digit_def list_all_iff)
  have tw: "takeWhile (\<lambda>ch. ch \<noteq> CHR '':'') (dec_string n @ CHR '':'' # xs) = dec_string n" for n xs
    using colon [of n] by (auto simp: takeWhile_append)
  from eq have "takeWhile (\<lambda>ch. ch \<noteq> CHR '':'') (dec_string (length a) @ CHR '':'' # a @ b) =
      takeWhile (\<lambda>ch. ch \<noteq> CHR '':'') (dec_string (length c) @ CHR '':'' # c @ d)"
    unfolding idempotencyRecordIdentity_def by simp
  then have ds: "dec_string (length a) = dec_string (length c)" unfolding tw .
  then have "length a = length c" using undigits_dec_string by metis
  with eq ds show "a = c \<and> b = d" unfolding idempotencyRecordIdentity_def by simp
qed simp

lemma purge_fields [simp]:
  "st_state (purgeExpiredIdempotencyRecordsLocked now s) = st_state s"
  "st_cfg (purgeExpiredIdempotencyRecordsLocked now s) = st_cfg s"
  "st_json (purgeExpiredIdempotencyRecordsLocked now s) = st_json s"
  "st_nodeSeg (purgeExpiredIdempotencyRecordsLocked now s) = st_nodeSeg s"
  "st_edgeSeg (purgeExpiredIdempotencyRecordsLocked now s) = st_edgeSeg s"
  "st_txnSeg (purgeExpiredIdempotencyRecordsLocked now s) = st_txnSeg s"
  "st_nodes (purgeExpiredIdempotencyRecordsLocked now s) = st_nodes s"
  "st_edges (purgeExpiredIdempotencyRecordsLocked now s) = st_edges s"
  "st_indexMeta (purgeExpiredIdempotencyRecordsLocked now s) = st_indexMeta s"
  "st_revision (purgeExpiredIdempotencyRecordsLocked now s) = st_revision s"
  by (simp_all add: purgeExpiredIdempotencyRecordsLocked_def)

end
