(* ===== verification/Graph_Txn.thy ===== *)
theory Graph_Txn
  imports Graph_State
begin

text \<open>
  Transactions of the graph store (\<open>internal/graph/storage/txn.go\<close>). \<open>CommitWithInfo\<close> is translated whole:
  idempotency, conflict checks, index validation, the writes to the three segments with their failures,
  and the in-memory apply. The outcome of every write and sync is in \<open>commit_io\<close>; the timings the code
  collects are not part of the model.
\<close>

record CommitInfo =
  ci_TxnID :: uuid
  ci_NextRevision :: u64
  ci_Idempotency :: "IdempotencyRecord option"
  ci_IdempotentReplay :: bool

record localTxn =
  tx_id :: uuid
  tx_nodePuts :: "node list"
  tx_nodeDeletes :: "node_id list"
  tx_edgePuts :: "edge list"
  tx_edgeDeletes :: "edge_id list"
  tx_expected :: "u64 option"
  tx_hook :: "(CommitInfo \<Rightarrow> graph_error option) option"
  tx_idem :: "IdempotencyRecord option"
  tx_closed :: bool

definition Begin :: "ctx \<Rightarrow> uuid \<Rightarrow> local_store \<Rightarrow> graph_error + localTxn" where
  "Begin ctx tid s =
     (case ctx of
        Some e \<Rightarrow> Inl (ErrContext e)
      | None \<Rightarrow>
          (case ensureReady s of
             Some e \<Rightarrow> Inl e
           | None \<Rightarrow> Inr \<lparr>tx_id = tid, tx_nodePuts = [], tx_nodeDeletes = [], tx_edgePuts = [],
                          tx_edgeDeletes = [], tx_expected = None, tx_hook = None, tx_idem = None,
                          tx_closed = False\<rparr>))"

definition ExpectRevision :: "u64 \<Rightarrow> localTxn \<Rightarrow> localTxn" where
  "ExpectRevision rv t = (if tx_closed t then t else t\<lparr>tx_expected := Some rv\<rparr>)"

definition SetCommitHook :: "(CommitInfo \<Rightarrow> graph_error option) option \<Rightarrow> localTxn \<Rightarrow> localTxn" where
  "SetCommitHook h t = (if tx_closed t then t else t\<lparr>tx_hook := h\<rparr>)"

definition SetIdempotency :: "IdempotencyRecord \<Rightarrow> localTxn \<Rightarrow> localTxn" where
  "SetIdempotency r t = (if tx_closed t then t else t\<lparr>tx_idem := Some r\<rparr>)"

definition PutNode :: "node \<Rightarrow> localTxn \<Rightarrow> graph_error option \<times> localTxn" where
  "PutNode n t = (if tx_closed t then (Some ErrTxnClosed, t)
                  else (None, t\<lparr>tx_nodePuts := tx_nodePuts t @ [cloneNode n]\<rparr>))"

definition DeleteNode :: "node_id \<Rightarrow> localTxn \<Rightarrow> graph_error option \<times> localTxn" where
  "DeleteNode i t = (if tx_closed t then (Some ErrTxnClosed, t)
                     else (None, t\<lparr>tx_nodeDeletes := tx_nodeDeletes t @ [i]\<rparr>))"

definition PutEdge :: "edge \<Rightarrow> localTxn \<Rightarrow> graph_error option \<times> localTxn" where
  "PutEdge e t = (if tx_closed t then (Some ErrTxnClosed, t)
                  else (None, t\<lparr>tx_edgePuts := tx_edgePuts t @ [cloneEdge e]\<rparr>))"

definition DeleteEdge :: "edge_id \<Rightarrow> localTxn \<Rightarrow> graph_error option \<times> localTxn" where
  "DeleteEdge i t = (if tx_closed t then (Some ErrTxnClosed, t)
                     else (None, t\<lparr>tx_edgeDeletes := tx_edgeDeletes t @ [i]\<rparr>))"

definition Rollback :: "localTxn \<Rightarrow> localTxn" where
  "Rollback t = t\<lparr>tx_closed := True\<rparr>"

section \<open>Conflicts\<close>

definition writeSetConflict :: "localTxn \<Rightarrow> local_store \<Rightarrow> bool" where
  "writeSetConflict t s \<longleftrightarrow>
     (case tx_expected t of
        None \<Rightarrow> False
      | Some base \<Rightarrow>
          list_ex (\<lambda>n. ns_modRev (st_nodes s) (n_ID n) > base) (tx_nodePuts t)
          \<or> list_ex (\<lambda>i. ns_modRev (st_nodes s) i > base) (tx_nodeDeletes t)
          \<or> list_ex (\<lambda>e. es_modRev (st_edges s) (e_ID e) > base) (tx_edgePuts t)
          \<or> list_ex (\<lambda>i. es_modRev (st_edges s) i > base) (tx_edgeDeletes t))"

text \<open>The endpoint \<open>i\<close> of a written edge will be there after the commit.\<close>

definition endpoint_ok :: "localTxn \<Rightarrow> local_store \<Rightarrow> node_id \<Rightarrow> bool" where
  "endpoint_ok t s i \<longleftrightarrow> i \<notin> set (tx_nodeDeletes t) \<and>
     (ns_records (st_nodes s) i \<noteq> None \<or> i \<in> n_ID ` set (tx_nodePuts t))"

fun edge_puts_conflict :: "localTxn \<Rightarrow> local_store \<Rightarrow> (node_id \<rightharpoonup> edge_id) \<Rightarrow> edge list \<Rightarrow> bool" where
  "edge_puts_conflict t s containsChild [] = False"
| "edge_puts_conflict t s containsChild (e # es) =
     (if \<not> endpoint_ok t s (e_FromID e) \<or> \<not> endpoint_ok t s (e_ToID e) then True
      else if is_contains e then
        (if (case containsChild (e_ToID e) of Some existing \<Rightarrow> existing \<noteq> e_ID e | None \<Rightarrow> False) then True
         else if (case es_parent (st_edges s) (e_ToID e) of
                    Some existing \<Rightarrow> existing \<noteq> e_ID e \<and> existing \<notin> set (tx_edgeDeletes t)
                  | None \<Rightarrow> False) then True
         else edge_puts_conflict t s (containsChild(e_ToID e \<mapsto> e_ID e)) es)
      else edge_puts_conflict t s containsChild es)"

text \<open>A stored edge at the deleted node \<open>i\<close> must be deleted too, or be replaced by one elsewhere.\<close>

definition put_for :: "localTxn \<Rightarrow> edge_id \<Rightarrow> edge option" where
  "put_for t j = map_of (rev (map (\<lambda>e. (e_ID e, e)) (tx_edgePuts t))) j"

definition node_delete_conflict :: "localTxn \<Rightarrow> local_store \<Rightarrow> node_id \<Rightarrow> bool" where
  "node_delete_conflict t s i \<longleftrightarrow>
     (\<exists>j \<in> dom (es_records (st_edges s)).
        (let e = the (es_records (st_edges s) j) in
         (e_FromID e = i \<or> e_ToID e = i) \<and>
         \<not> (case put_for t j of Some r \<Rightarrow> e_FromID r \<noteq> i \<and> e_ToID r \<noteq> i | None \<Rightarrow> False) \<and>
         j \<notin> set (tx_edgeDeletes t)))
     \<or> list_ex (\<lambda>e. e_FromID e = i \<or> e_ToID e = i) (tx_edgePuts t)"

definition invariantConflict :: "localTxn \<Rightarrow> local_store \<Rightarrow> bool" where
  "invariantConflict t s \<longleftrightarrow>
     edge_puts_conflict t s Map.empty (tx_edgePuts t)
     \<or> list_ex (node_delete_conflict t s) (tx_nodeDeletes t)"

section \<open>Idempotency of a commit\<close>

datatype idem_outcome = IdemError graph_error | IdemReplay CommitInfo | IdemNew "IdempotencyRecord option"

definition commit_idempotency :: "localTxn \<Rightarrow> local_store \<Rightarrow> idem_outcome \<times> local_store" where
  "commit_idempotency t s0 =
     (case tx_idem t of
        None \<Rightarrow> (IdemNew None, s0)
      | Some r \<Rightarrow>
          (case validateIdempotencyRecord r of
             Some e \<Rightarrow> (IdemError e, s0)
           | None \<Rightarrow>
               (let s = purgeExpiredIdempotencyRecordsLocked (ir_CommittedAt r) s0 in
                case idem_lookup (ir_Scope r) (ir_Key r) s of
                  Some existing \<Rightarrow>
                    (if ir_Digest existing \<noteq> ir_Digest r then IdemError ErrIdempotencyConflict
                     else IdemReplay \<lparr>ci_TxnID = ir_StorageTxnID existing,
                            ci_NextRevision = ir_CommittedRevision existing,
                            ci_Idempotency = Some existing, ci_IdempotentReplay = True\<rparr>, s)
                | None \<Rightarrow>
                    (if length (st_idem s) \<ge> MaxIdempotencyRecordsPerStore then IdemError ErrIdempotencyCapacity
                     else IdemNew (Some (r\<lparr>ir_StorageTxnID := tx_id t,
                            ir_CommittedRevision := st_revision s + 1\<rparr>)), s))))"

section \<open>Writing\<close>

record commit_io =
  io_txnBegin :: write_outcome
  io_nodes :: "nat \<Rightarrow> write_outcome"
  io_edges :: "nat \<Rightarrow> write_outcome"
  io_nodeSync :: bool
  io_edgeSync :: bool
  io_txnCommit :: write_outcome
  io_txnSync :: bool

text \<open>The records of one data segment: kind, entity and payload, or the error of encoding it.\<close>

type_synonym log_item = "byte \<times> uuid \<times> (graph_error + bytes)"

definition node_items :: "localTxn \<Rightarrow> log_item list" where
  "node_items t = map (\<lambda>n. (RecordKindNodePut, n_ID n, encodeNode n)) (tx_nodePuts t)
     @ map (\<lambda>i. (RecordKindNodeTombstone, i, Inr [])) (tx_nodeDeletes t)"

definition edge_items :: "localTxn \<Rightarrow> log_item list" where
  "edge_items t = map (\<lambda>e. (RecordKindEdgePut, e_ID e, encodeEdge e)) (tx_edgePuts t)
     @ map (\<lambda>i. (RecordKindEdgeTombstone, i, Inr [])) (tx_edgeDeletes t)"

fun append_items ::
  "(uuid \<Rightarrow> string) \<Rightarrow> (nat \<Rightarrow> write_outcome) \<Rightarrow> uuid \<Rightarrow> nat \<Rightarrow> log_item list \<Rightarrow> segment \<Rightarrow>
   (graph_error + RecordLocation list) \<times> segment" where
  "append_items us w txn i [] sg = (Inr [], sg)"
| "append_items us w txn i ((kind, entity, payload) # items) sg =
     (case payload of
        Inl e \<Rightarrow> (Inl e, sg)
      | Inr bs \<Rightarrow>
          (case appendRecord us (w i) kind txn entity bs sg of
             (Inl e, sg') \<Rightarrow> (Inl e, sg')
           | (Inr loc, sg') \<Rightarrow>
               (case append_items us w txn (Suc i) items sg' of
                  (Inl e, sg'') \<Rightarrow> (Inl e, sg'')
                | (Inr locs, sg'') \<Rightarrow> (Inr (loc # locs), sg''))))"

text \<open>\<open>syncDataSegments\<close>: only the segments the transaction wrote to are synced.\<close>

definition syncDataSegments :: "commit_io \<Rightarrow> localTxn \<Rightarrow> bool" where
  "syncDataSegments io t \<longleftrightarrow>
     (tx_nodePuts t = [] \<and> tx_nodeDeletes t = [] \<or> io_nodeSync io) \<and>
     (tx_edgePuts t = [] \<and> tx_edgeDeletes t = [] \<or> io_edgeSync io)"

definition commit_payload :: "json_codec \<Rightarrow> IdempotencyRecord option \<Rightarrow> bytes option" where
  "commit_payload jc idem = (case idem of None \<Rightarrow> Some [] | Some r \<Rightarrow> jc_commit jc r)"

definition commit_info :: "localTxn \<Rightarrow> local_store \<Rightarrow> CommitInfo" where
  "commit_info t s = \<lparr>ci_TxnID = tx_id t, ci_NextRevision = st_revision s + 1, ci_Idempotency = None,
     ci_IdempotentReplay = False\<rparr>"

definition commit_write ::
  "commit_io \<Rightarrow> localTxn \<Rightarrow> IdempotencyRecord option \<Rightarrow> local_store \<Rightarrow>
   (graph_error + RecordLocation list \<times> RecordLocation list) \<times> local_store" where
  "commit_write io t idem s =
     (let us = cf_String (st_cfg s) in
      case appendRecord us (io_txnBegin io) RecordKindTxnBegin (tx_id t) 0 [] (st_txnSeg s) of
        (Inl e, sg) \<Rightarrow> (Inl e, s\<lparr>st_txnSeg := sg\<rparr>)
      | (Inr _, sg) \<Rightarrow>
          (let s1 = s\<lparr>st_txnSeg := sg\<rparr> in
           case append_items us (io_nodes io) (tx_id t) 0 (node_items t) (st_nodeSeg s1) of
             (Inl e, sg) \<Rightarrow> (Inl e, s1\<lparr>st_nodeSeg := sg\<rparr>)
           | (Inr nlocs, sg) \<Rightarrow>
               (let s2 = s1\<lparr>st_nodeSeg := sg\<rparr> in
                case append_items us (io_edges io) (tx_id t) 0 (edge_items t) (st_edgeSeg s2) of
                  (Inl e, sg) \<Rightarrow> (Inl e, s2\<lparr>st_edgeSeg := sg\<rparr>)
                | (Inr elocs, sg) \<Rightarrow>
                    (let s3 = s2\<lparr>st_edgeSeg := sg\<rparr> in
                     if \<not> syncDataSegments io t then (Inl ErrSync, s3)
                     else
                       (case (case tx_hook t of None \<Rightarrow> None | Some h \<Rightarrow> h (commit_info t s3)) of
                          Some e \<Rightarrow> (Inl e, s3)
                        | None \<Rightarrow>
                            (case commit_payload (st_json s3) idem of
                               None \<Rightarrow> (Inl ErrUnsupported, s3)
                             | Some payload \<Rightarrow>
                                 (case appendRecord us (io_txnCommit io) RecordKindTxnCommit (tx_id t) 0 payload
                                         (st_txnSeg s3) of
                                    (Inl e, sg) \<Rightarrow> (Inl e, s3\<lparr>st_txnSeg := sg\<rparr>)
                                  | (Inr _, sg) \<Rightarrow>
                                      (let s4 = s3\<lparr>st_txnSeg := sg\<rparr> in
                                       if \<not> io_txnSync io then (Inl ErrSync, s4)
                                       else (Inr (nlocs, elocs), s4)))))))))"

section \<open>Applying\<close>

definition touchedDomains :: "localTxn \<Rightarrow> local_store \<Rightarrow> domain_id set" where
  "touchedDomains t s =
     (set (map n_DomainID (tx_nodePuts t))
      \<union> set (map n_DomainID (List.map_filter (ns_records (st_nodes s)) (tx_nodeDeletes t)))
      \<union> set (map e_DomainID (tx_edgePuts t))
      \<union> set (map e_DomainID (List.map_filter (es_records (st_edges s)) (tx_edgeDeletes t)))) - {0}"

definition markReadyIndexesIndexedThrough :: "u64 \<Rightarrow> domain_id set \<Rightarrow> local_store \<Rightarrow> local_store" where
  "markReadyIndexesIndexedThrough rv domains s =
     s\<lparr>st_indexMeta := (\<lambda>k. case st_indexMeta s k of
         None \<Rightarrow> None
       | Some m \<Rightarrow> Some (if im_BuildState m = IndexBuildStateReady \<and> im_DomainID m \<in> domains
                         then m\<lparr>im_LastIndexedGraphRevision := rv\<rparr> else m))\<rparr>"

definition apply_nodes ::
  "store_cfg \<Rightarrow> localTxn \<Rightarrow> RecordLocation list \<Rightarrow> node_state \<Rightarrow> node_state" where
  "apply_nodes cfg t locs st =
     (let plocs = take (length (tx_nodePuts t)) locs; dlocs = drop (length (tx_nodePuts t)) locs;
          st1 = fold (\<lambda>(n, loc). applyNodePut cfg n loc) (zip (tx_nodePuts t) plocs) st
      in fold (\<lambda>(i, loc). applyNodeDelete cfg i loc) (zip (tx_nodeDeletes t) dlocs) st1)"

definition apply_edges ::
  "store_cfg \<Rightarrow> localTxn \<Rightarrow> RecordLocation list \<Rightarrow> edge_state \<Rightarrow> edge_state" where
  "apply_edges cfg t locs st =
     (let plocs = take (length (tx_edgePuts t)) locs; dlocs = drop (length (tx_edgePuts t)) locs;
          st1 = fold (\<lambda>(e, loc). applyEdgePut cfg e loc) (zip (tx_edgePuts t) plocs) st
      in fold (\<lambda>(i, loc). applyEdgeDelete cfg i loc) (zip (tx_edgeDeletes t) dlocs) st1)"

definition node_mod :: "node_id \<Rightarrow> u64 \<Rightarrow> node_state \<Rightarrow> node_state" where
  "node_mod i rv st = st\<lparr>ns_modRev := (ns_modRev st)(i := rv)\<rparr>"

definition edge_mod :: "edge_id \<Rightarrow> u64 \<Rightarrow> edge_state \<Rightarrow> edge_state" where
  "edge_mod i rv st = st\<lparr>es_modRev := (es_modRev st)(i := rv)\<rparr>"

definition version_nodes :: "u64 \<Rightarrow> localTxn \<Rightarrow> node_state \<Rightarrow> node_state" where
  "version_nodes rv t st =
     fold (\<lambda>i s. node_mod i rv (appendNodeTombstone i rv s)) (tx_nodeDeletes t)
       (fold (\<lambda>n s. node_mod (n_ID n) rv (appendNodeVersion n rv s)) (tx_nodePuts t) st)"

definition version_edges :: "u64 \<Rightarrow> localTxn \<Rightarrow> edge_state \<Rightarrow> edge_state" where
  "version_edges rv t st =
     fold (\<lambda>i s. edge_mod i rv (appendEdgeTombstone i rv s)) (tx_edgeDeletes t)
       (fold (\<lambda>e s. edge_mod (e_ID e) rv (appendEdgeVersion e rv s)) (tx_edgePuts t) st)"

definition commit_apply ::
  "localTxn \<Rightarrow> IdempotencyRecord option \<Rightarrow> RecordLocation list \<Rightarrow> RecordLocation list \<Rightarrow> local_store \<Rightarrow> local_store"
where
  "commit_apply t idem nlocs elocs s =
     (let s1 = s\<lparr>st_nodes := apply_nodes (st_cfg s) t nlocs (st_nodes s),
                 st_edges := apply_edges (st_cfg s) t elocs (st_edges s),
                 st_revision := st_revision s + 1\<rparr>;
          s2 = (case idem of None \<Rightarrow> s1 | Some r \<Rightarrow> idem_store r s1);
          s3 = s2\<lparr>st_nodes := version_nodes (st_revision s2) t (st_nodes s2),
                  st_edges := version_edges (st_revision s2) t (st_edges s2)\<rparr>
      in markReadyIndexesIndexedThrough (st_revision s3) (touchedDomains t s3) s3)"

section \<open>Committing\<close>

definition commit_validates :: "localTxn \<Rightarrow> local_store \<Rightarrow> bool" where
  "commit_validates t s \<longleftrightarrow>
     list_all (\<lambda>n. validateNodeIndexes (st_cfg s) n = None) (tx_nodePuts t) \<and>
     list_all (\<lambda>e. validateEdgeIndexes (st_cfg s) e = None) (tx_edgePuts t)"

definition CommitWithInfo ::
  "commit_io \<Rightarrow> localTxn \<Rightarrow> local_store \<Rightarrow> (graph_error + CommitInfo) \<times> localTxn \<times> local_store" where
  "CommitWithInfo io t s0 =
     (if tx_closed t then (Inl ErrTxnClosed, t, s0)
      else
        (case ensureReady s0 of
           Some e \<Rightarrow> (Inl e, t, s0)
         | None \<Rightarrow>
             (case commit_idempotency t s0 of
                (IdemError e, s) \<Rightarrow> (Inl e, t, s)
              | (IdemReplay info, s) \<Rightarrow> (Inr info, t\<lparr>tx_closed := True\<rparr>, s)
              | (IdemNew idem, s) \<Rightarrow>
                  if (case tx_expected t of Some base \<Rightarrow> base > st_revision s | None \<Rightarrow> False)
                  then (Inl ErrConflict, t, s)
                  else if writeSetConflict t s then (Inl ErrConflict, t, s)
                  else if invariantConflict t s then (Inl ErrConflict, t, s)
                  else if \<not> commit_validates t s then (Inl ErrUnsupported, t, s)
                  else
                    (case commit_write io t idem s of
                       (Inl e, s1) \<Rightarrow> (Inl e, t, s1)
                     | (Inr (nlocs, elocs), s1) \<Rightarrow>
                         (Inr ((commit_info t s1)\<lparr>ci_Idempotency := idem\<rparr>), t\<lparr>tx_closed := True\<rparr>,
                          commit_apply t idem nlocs elocs s1)))))"

end
