(* ===== verification/Txn_Facts.thy ===== *)
theory Txn_Facts
  imports Graph_Txn
begin

text \<open>
  What a commit does to the store: the record maps after the puts and deletions of a transaction, the
  fields each step leaves alone, the meaning of the conflict checks, and the invariant of the store.
\<close>

section \<open>The record maps\<close>

text \<open>The last put of each identifier, then without the deleted ones.\<close>

definition put_map :: "('e \<Rightarrow> uuid) \<Rightarrow> 'e list \<Rightarrow> uuid \<rightharpoonup> 'e" where
  "put_map ident es = map_of (rev (map (\<lambda>e. (ident e, e)) es))"

definition commit_records :: "('e \<Rightarrow> uuid) \<Rightarrow> 'e list \<Rightarrow> uuid list \<Rightarrow> (uuid \<rightharpoonup> 'e) \<Rightarrow> uuid \<rightharpoonup> 'e" where
  "commit_records ident puts dels recs = (recs ++ put_map ident puts) |` (- set dels)"

definition commit_ops :: "'e list \<Rightarrow> uuid list \<Rightarrow> RecordLocation list \<Rightarrow> 'e entity_op list" where
  "commit_ops puts dels locs =
     map (\<lambda>(e, loc). OpPut e loc) (zip puts (take (length puts) locs))
     @ map (\<lambda>(i, loc). OpDel i loc) (zip dels (drop (length puts) locs))"

lemma put_map_Nil [simp]: "put_map ident [] = Map.empty"
  by (simp add: put_map_def)

lemma put_map_Cons: "m ++ put_map ident (e # es) = m(ident e \<mapsto> e) ++ put_map ident es"
  by (simp add: put_map_def map_add_upd_left)

lemma put_map_Some: "put_map ident es i = Some e \<Longrightarrow> e \<in> set es \<and> ident e = i"
  unfolding put_map_def by (drule map_of_SomeD) auto

lemma put_map_dom: "put_map ident es i = None \<longleftrightarrow> i \<notin> ident ` set es"
  by (auto simp: put_map_def map_of_eq_None_iff image_iff)

lemma put_for_put_map: "put_for t = put_map e_ID (tx_edgePuts t)"
  by (simp add: fun_eq_iff put_for_def put_map_def)

lemma fold_OpPut_records:
  "length locs = length es \<Longrightarrow>
   fold (op_records ident) (map (\<lambda>(e, loc). OpPut e loc) (zip es locs)) m = m ++ put_map ident es"
proof (induction es arbitrary: locs m)
  case (Cons e es)
  then show ?case by (cases locs) (simp_all add: put_map_Cons fun_upd_def)
qed simp

lemma fold_OpDel_records:
  "length locs = length is \<Longrightarrow>
   fold (op_records ident) (map (\<lambda>(i, loc). OpDel i loc) (zip is locs)) m = m |` (- set is)"
proof (induction "is" arbitrary: locs m)
  case (Cons i "is")
  then show ?case by (cases locs) (auto simp: fun_eq_iff restrict_map_def)
qed (simp add: restrict_map_def)

lemma fold_commit_ops_records:
  "length locs = length puts + length dels \<Longrightarrow>
   fold (op_records ident) (commit_ops puts dels locs) recs = commit_records ident puts dels recs"
  by (simp add: commit_ops_def commit_records_def fold_OpPut_records fold_OpDel_records)

lemma commit_records_None:
  "commit_records ident puts dels recs i = None \<longleftrightarrow>
   i \<in> set dels \<or> (recs i = None \<and> i \<notin> ident ` set puts)"
  using put_map_dom [of ident puts i]
  by (auto simp: commit_records_def restrict_map_def map_add_def split: option.splits)

lemma commit_records_Some:
  "commit_records ident puts dels recs i = Some e \<longleftrightarrow>
   i \<notin> set dels \<and> (put_map ident puts i = Some e \<or> put_map ident puts i = None \<and> recs i = Some e)"
  by (auto simp: commit_records_def restrict_map_def map_add_def split: option.splits)

lemma keyed_commit_records: "keyed ident recs \<Longrightarrow> keyed ident (commit_records ident puts dels recs)"
  by (auto simp: keyed_def commit_records_Some dest: put_map_Some)

section \<open>Applying and versioning\<close>

primrec node_op :: "store_cfg \<Rightarrow> node entity_op \<Rightarrow> node_state \<Rightarrow> node_state" where
  "node_op cfg (OpPut n loc) = applyNodePut cfg n loc"
| "node_op cfg (OpDel i loc) = applyNodeDelete cfg i loc"

primrec edge_op :: "store_cfg \<Rightarrow> edge entity_op \<Rightarrow> edge_state \<Rightarrow> edge_state" where
  "edge_op cfg (OpPut e loc) = applyEdgePut cfg e loc"
| "edge_op cfg (OpDel i loc) = applyEdgeDelete cfg i loc"

lemma apply_nodes_ops:
  "apply_nodes cfg t locs st = fold (node_op cfg) (commit_ops (tx_nodePuts t) (tx_nodeDeletes t) locs) st"
  by (simp add: apply_nodes_def commit_ops_def fold_map o_def case_prod_unfold)

lemma apply_edges_ops:
  "apply_edges cfg t locs st = fold (edge_op cfg) (commit_ops (tx_edgePuts t) (tx_edgeDeletes t) locs) st"
  by (simp add: apply_edges_def commit_ops_def fold_map o_def case_prod_unfold)

lemma node_op_fields:
  "ns_records (node_op cfg op st) = op_records n_ID op (ns_records st)"
  "ns_history (node_op cfg op st) = ns_history st" "ns_modRev (node_op cfg op st) = ns_modRev st"
  "node_indexes_ok st \<Longrightarrow> node_indexes_ok (node_op cfg op st)"
  by (cases op; simp add: node_indexes_ok_put node_indexes_ok_delete)+

lemma edge_op_fields:
  "es_records (edge_op cfg op st) = op_records e_ID op (es_records st)"
  "es_history (edge_op cfg op st) = es_history st" "es_modRev (edge_op cfg op st) = es_modRev st"
  "edge_index_ok st \<Longrightarrow> edge_index_ok (edge_op cfg op st)"
  by (cases op; simp add: edge_index_ok_put edge_index_ok_delete)+

lemma fold_node_op_fields:
  "ns_records (fold (node_op cfg) ops st) = fold (op_records n_ID) ops (ns_records st)"
  "ns_history (fold (node_op cfg) ops st) = ns_history st"
  "ns_modRev (fold (node_op cfg) ops st) = ns_modRev st"
  "node_indexes_ok st \<Longrightarrow> node_indexes_ok (fold (node_op cfg) ops st)"
  by (induction ops arbitrary: st) (simp_all add: node_op_fields)

lemma fold_edge_op_fields:
  "es_records (fold (edge_op cfg) ops st) = fold (op_records e_ID) ops (es_records st)"
  "es_history (fold (edge_op cfg) ops st) = es_history st"
  "es_modRev (fold (edge_op cfg) ops st) = es_modRev st"
  "edge_index_ok st \<Longrightarrow> edge_index_ok (fold (edge_op cfg) ops st)"
  by (induction ops arbitrary: st) (simp_all add: edge_op_fields)

text \<open>\<open>modRev\<close> after a commit: the new revision at everything written.\<close>

definition touch :: "u64 \<Rightarrow> uuid list \<Rightarrow> (uuid \<Rightarrow> u64) \<Rightarrow> uuid \<Rightarrow> u64" where
  "touch rv is m i = (if i \<in> set is then rv else m i)"

lemma touch_simps: "touch rv [] m = m" "touch rv (i # is) m = touch rv is (m(i := rv))"
  "touch rv (is @ js) m = touch rv js (touch rv is m)"
  by (auto simp: touch_def fun_eq_iff)

definition same_nodes :: "node_state \<Rightarrow> node_state \<Rightarrow> bool" where
  "same_nodes a b \<longleftrightarrow> a\<lparr>ns_history := ns_history b, ns_modRev := ns_modRev b\<rparr> = b"

definition same_edges :: "edge_state \<Rightarrow> edge_state \<Rightarrow> bool" where
  "same_edges a b \<longleftrightarrow> a\<lparr>es_history := es_history b, es_modRev := es_modRev b\<rparr> = b"

lemma same_nodes_trans: "same_nodes a b \<Longrightarrow> same_nodes b c \<Longrightarrow> same_nodes a c"
  unfolding same_nodes_def by (cases a; cases b; cases c) simp

lemma same_edges_trans: "same_edges a b \<Longrightarrow> same_edges b c \<Longrightarrow> same_edges a c"
  unfolding same_edges_def by (cases a; cases b; cases c) simp

lemma fold_versions:
  assumes "\<And>x s. md (f x s) = (md s)(key x := rv)"
    and "\<And>x loc s. hist (f x s) = op_history ident rv (mk x loc) (hist s)"
    and "\<And>x s. same s (f x s)" "\<And>s. same s s" "\<And>a b c. same a b \<Longrightarrow> same b c \<Longrightarrow> same a c"
  shows "md (fold f xs s) = touch rv (map key xs) (md s) \<and> same s (fold f xs s) \<and>
    (length locs = length xs \<longrightarrow>
     hist (fold f xs s) = fold (op_history ident rv) (map (\<lambda>(x, loc). mk x loc) (zip xs locs)) (hist s))"
proof (induction xs arbitrary: s locs)
  case Nil
  then show ?case using assms(4) by (simp add: touch_simps)
next
  case (Cons x xs)
  from Cons [of "f x s" "tl locs"] show ?case
    using assms(2) [of x s "hd locs"] assms(5) [OF assms(3)]
    by (cases locs) (auto simp: touch_simps assms(1) fun_upd_def)
qed

lemmas node_version_defs = node_mod_def appendNodeVersion_def appendNodeTombstone_def same_nodes_def
lemmas edge_version_defs = edge_mod_def appendEdgeVersion_def appendEdgeTombstone_def same_edges_def

lemma version_nodes_fields:
  "ns_modRev (version_nodes rv t st) = touch rv (map n_ID (tx_nodePuts t) @ tx_nodeDeletes t) (ns_modRev st)"
  "same_nodes st (version_nodes rv t st)"
  "length locs = length (tx_nodePuts t) + length (tx_nodeDeletes t) \<Longrightarrow>
   ns_history (version_nodes rv t st) =
     fold (op_history n_ID rv) (commit_ops (tx_nodePuts t) (tx_nodeDeletes t) locs) (ns_history st)"
proof -
  define f where "f = (\<lambda>e s. node_mod (n_ID e) rv (appendNodeVersion e rv s))"
  define g where "g = (\<lambda>i s. node_mod i rv (appendNodeTombstone i rv s))"
  let ?st = "fold f (tx_nodePuts t) st" and ?k = "length (tx_nodePuts t)"
  have p: "ns_modRev ?st = touch rv (map n_ID (tx_nodePuts t)) (ns_modRev st) \<and> same_nodes st ?st \<and>
    (length ls = length (tx_nodePuts t) \<longrightarrow> ns_history ?st =
     fold (op_history n_ID rv) (map (\<lambda>(x, loc). OpPut x loc) (zip (tx_nodePuts t) ls)) (ns_history st))" for ls
    by (rule fold_versions [OF _ _ _ _ same_nodes_trans]) (auto simp: f_def node_version_defs)
  have d: "ns_modRev (fold g (tx_nodeDeletes t) s) = touch rv (map (\<lambda>i. i) (tx_nodeDeletes t)) (ns_modRev s) \<and>
    same_nodes s (fold g (tx_nodeDeletes t) s) \<and>
    (length ls = length (tx_nodeDeletes t) \<longrightarrow> ns_history (fold g (tx_nodeDeletes t) s) =
     fold (op_history n_ID rv) (map (\<lambda>(x, loc). OpDel x loc) (zip (tx_nodeDeletes t) ls)) (ns_history s))" for ls s
    by (rule fold_versions [OF _ _ _ _ same_nodes_trans]) (auto simp: g_def node_version_defs)
  have v: "version_nodes rv t st = fold g (tx_nodeDeletes t) ?st" by (simp add: version_nodes_def f_def g_def)
  show "ns_modRev (version_nodes rv t st) = touch rv (map n_ID (tx_nodePuts t) @ tx_nodeDeletes t) (ns_modRev st)"
    unfolding v touch_simps using p d [of ?st] by simp
  show "same_nodes st (version_nodes rv t st)" unfolding v using p d same_nodes_trans by blast
  show "ns_history (version_nodes rv t st) =
      fold (op_history n_ID rv) (commit_ops (tx_nodePuts t) (tx_nodeDeletes t) locs) (ns_history st)"
    if "length locs = length (tx_nodePuts t) + length (tx_nodeDeletes t)"
    unfolding v commit_ops_def using p [of "take ?k locs"] d [of ?st "drop ?k locs"] that by simp
qed

lemma version_edges_fields:
  "es_modRev (version_edges rv t st) = touch rv (map e_ID (tx_edgePuts t) @ tx_edgeDeletes t) (es_modRev st)"
  "same_edges st (version_edges rv t st)"
  "length locs = length (tx_edgePuts t) + length (tx_edgeDeletes t) \<Longrightarrow>
   es_history (version_edges rv t st) =
     fold (op_history e_ID rv) (commit_ops (tx_edgePuts t) (tx_edgeDeletes t) locs) (es_history st)"
proof -
  define f where "f = (\<lambda>e s. edge_mod (e_ID e) rv (appendEdgeVersion e rv s))"
  define g where "g = (\<lambda>i s. edge_mod i rv (appendEdgeTombstone i rv s))"
  let ?st = "fold f (tx_edgePuts t) st" and ?k = "length (tx_edgePuts t)"
  have p: "es_modRev ?st = touch rv (map e_ID (tx_edgePuts t)) (es_modRev st) \<and> same_edges st ?st \<and>
    (length ls = length (tx_edgePuts t) \<longrightarrow> es_history ?st =
     fold (op_history e_ID rv) (map (\<lambda>(x, loc). OpPut x loc) (zip (tx_edgePuts t) ls)) (es_history st))" for ls
    by (rule fold_versions [OF _ _ _ _ same_edges_trans]) (auto simp: f_def edge_version_defs)
  have d: "es_modRev (fold g (tx_edgeDeletes t) s) = touch rv (map (\<lambda>i. i) (tx_edgeDeletes t)) (es_modRev s) \<and>
    same_edges s (fold g (tx_edgeDeletes t) s) \<and>
    (length ls = length (tx_edgeDeletes t) \<longrightarrow> es_history (fold g (tx_edgeDeletes t) s) =
     fold (op_history e_ID rv) (map (\<lambda>(x, loc). OpDel x loc) (zip (tx_edgeDeletes t) ls)) (es_history s))" for ls s
    by (rule fold_versions [OF _ _ _ _ same_edges_trans]) (auto simp: g_def edge_version_defs)
  have v: "version_edges rv t st = fold g (tx_edgeDeletes t) ?st" by (simp add: version_edges_def f_def g_def)
  show "es_modRev (version_edges rv t st) = touch rv (map e_ID (tx_edgePuts t) @ tx_edgeDeletes t) (es_modRev st)"
    unfolding v touch_simps using p d [of ?st] by simp
  show "same_edges st (version_edges rv t st)" unfolding v using p d same_edges_trans by blast
  show "es_history (version_edges rv t st) =
      fold (op_history e_ID rv) (commit_ops (tx_edgePuts t) (tx_edgeDeletes t) locs) (es_history st)"
    if "length locs = length (tx_edgePuts t) + length (tx_edgeDeletes t)"
    unfolding v commit_ops_def using p [of "take ?k locs"] d [of ?st "drop ?k locs"] that by simp
qed

lemma same_nodes_fields:
  assumes "same_nodes a b"
  shows "ns_records b = ns_records a" "node_indexes_ok b \<longleftrightarrow> node_indexes_ok a"
  using assms unfolding same_nodes_def by (cases a; cases b; simp add: node_indexes_ok_def)+

lemma same_edges_fields:
  assumes "same_edges a b"
  shows "es_records b = es_records a" "edge_index_ok b \<longleftrightarrow> edge_index_ok a" "parents_ok b \<longleftrightarrow> parents_ok a"
    "children_ok cfg b \<longleftrightarrow> children_ok cfg a" "es_parent b = es_parent a"
  using assms unfolding same_edges_def
  by (cases a; cases b; simp add: edge_index_ok_def parents_ok_def children_ok_def)+

end
