(* ===== verification/Store_Invariant.thy ===== *)
theory Store_Invariant
  imports Txn_Facts
begin

text \<open>
  The invariant of the graph store and why every commit keeps it: the cases of \<open>CommitWithInfo\<close>, what the
  conflict checks guarantee about the graph after the commit, and the preservation lemma.
\<close>

section \<open>What a commit can do\<close>

definition graph_same :: "local_store \<Rightarrow> local_store \<Rightarrow> bool" where
  "graph_same s s' \<longleftrightarrow> st_state s' = st_state s \<and> st_cfg s' = st_cfg s \<and> st_json s' = st_json s \<and>
     st_nodes s' = st_nodes s \<and> st_edges s' = st_edges s \<and> st_indexMeta s' = st_indexMeta s \<and>
     st_revision s' = st_revision s"

definition segments_same :: "local_store \<Rightarrow> local_store \<Rightarrow> bool" where
  "segments_same s s' \<longleftrightarrow> st_nodeSeg s' = st_nodeSeg s \<and> st_edgeSeg s' = st_edgeSeg s \<and> st_txnSeg s' = st_txnSeg s"

definition idem_same :: "local_store \<Rightarrow> local_store \<Rightarrow> bool" where
  "idem_same s s' \<longleftrightarrow> st_idem s' = st_idem s \<and> st_evictions s' = st_evictions s"

text \<open>Idempotency records only leave the store by expiring.\<close>

definition idem_purged :: "local_store \<Rightarrow> local_store \<Rightarrow> bool" where
  "idem_purged s s' \<longleftrightarrow> (\<exists>keep. st_idem s' = filter keep (st_idem s))"

lemma graph_same_refl [simp]: "graph_same s s" "idem_same s s" "segments_same s s" "idem_purged s s"
  by (auto simp: graph_same_def idem_same_def segments_same_def idem_purged_def intro!: exI [of _ "\<lambda>_. True"])

lemma graph_same_trans: "graph_same a b \<Longrightarrow> graph_same b c \<Longrightarrow> graph_same a c"
  by (simp add: graph_same_def)

lemma purge_same: "graph_same s (purgeExpiredIdempotencyRecordsLocked now s)"
  "segments_same s (purgeExpiredIdempotencyRecordsLocked now s)"
  "idem_purged s (purgeExpiredIdempotencyRecordsLocked now s)"
  by (auto simp: graph_same_def segments_same_def idem_purged_def purgeExpiredIdempotencyRecordsLocked_def)

lemma append_items_length:
  "append_items us w txn i items sg = (Inr locs, sg') \<Longrightarrow> length locs = length items"
proof (induction items arbitrary: i sg locs sg')
  case (Cons it items)
  obtain kind entity payload where it: "it = (kind, entity, payload)" by (cases it)
  from Cons.prems show ?case
    by (auto simp: it split: sum.splits prod.splits dest: Cons.IH)
qed simp

lemma commit_write_same:
  assumes "commit_write io t idem s = (res, s')"
  shows "graph_same s s' \<and> idem_same s s'"
  using assms unfolding commit_write_def Let_def
  by (auto split: sum.splits prod.splits option.splits if_splits simp: graph_same_def idem_same_def)

lemma commit_write_locs:
  assumes "commit_write io t idem s = (Inr (nlocs, elocs), s')"
  shows "length nlocs = length (tx_nodePuts t) + length (tx_nodeDeletes t)"
    "length elocs = length (tx_edgePuts t) + length (tx_edgeDeletes t)"
  using assms unfolding commit_write_def Let_def
  by (auto split: sum.splits prod.splits option.splits if_splits dest!: append_items_length
      simp: node_items_def edge_items_def)

lemma commit_idempotency_same:
  assumes "commit_idempotency t s0 = (out, s)"
  shows "graph_same s0 s \<and> segments_same s0 s \<and> idem_purged s0 s"
  using assms unfolding commit_idempotency_def Let_def
  by (auto split: option.splits if_splits simp: purge_same)

lemma CommitWithInfo_cases:
  assumes "CommitWithInfo io t s0 = (res, t', s')"
  obtains (failed) e s where "res = Inl e" "t' = t" "graph_same s0 s'"
      "graph_same s0 s" "idem_purged s0 s" "idem_same s s'"
    | (replayed) info where "res = Inr info" "t' = t\<lparr>tx_closed := True\<rparr>" "\<not> tx_closed t" "ensureReady s0 = None"
      "commit_idempotency t s0 = (IdemReplay info, s')"
    | (committed) idem nlocs elocs s s1 where "res = Inr ((commit_info t s1)\<lparr>ci_Idempotency := idem\<rparr>)"
      "t' = t\<lparr>tx_closed := True\<rparr>" "\<not> tx_closed t" "ensureReady s0 = None"
      "commit_idempotency t s0 = (IdemNew idem, s)"
      "\<not> writeSetConflict t s" "\<not> invariantConflict t s" "commit_validates t s"
      "\<forall>base. tx_expected t = Some base \<longrightarrow> base \<le> st_revision s"
      "commit_write io t idem s = (Inr (nlocs, elocs), s1)" "s' = commit_apply t idem nlocs elocs s1"
proof -
  consider (closed) "tx_closed t" | (unready) e where "\<not> tx_closed t" "ensureReady s0 = Some e"
    | (ready) "\<not> tx_closed t" "ensureReady s0 = None" by (cases "ensureReady s0") auto
  then show thesis
  proof cases
    case closed
    with assms failed [of ErrTxnClosed s0] show thesis by (auto simp: CommitWithInfo_def)
  next
    case unready
    with assms failed [of e s0] show thesis by (auto simp: CommitWithInfo_def)
  next
    case ready
    obtain out s where ci: "commit_idempotency t s0 = (out, s)" by fastforce
    note same = commit_idempotency_same [OF ci]
    show thesis
    proof (cases out)
      case (IdemError e)
      with assms ready ci same failed [of e s] show thesis by (auto simp: CommitWithInfo_def)
    next
      case (IdemReplay info)
      with assms ready ci replayed [of info] show thesis by (auto simp: CommitWithInfo_def)
    next
      case (IdemNew idem)
      show thesis
      proof (cases "(case tx_expected t of Some base \<Rightarrow> base > st_revision s | None \<Rightarrow> False) \<or> writeSetConflict t s
          \<or> invariantConflict t s \<or> \<not> commit_validates t s")
        case True
        then have "\<exists>e. res = Inl e \<and> t' = t \<and> s' = s"
          using assms ready ci IdemNew by (auto simp: CommitWithInfo_def split: if_splits option.splits)
        with same failed [of _ s] show thesis by auto
      next
        case False
        obtain r s1 where cw: "commit_write io t idem s = (r, s1)" by fastforce
        show thesis
        proof (cases r)
          case (Inl e)
          with False assms ready ci IdemNew cw have "res = Inl e" "t' = t" "s' = s1"
            by (auto simp: CommitWithInfo_def split: option.splits)
          with same commit_write_same [OF cw] failed [of e s] show thesis
            by (auto intro: graph_same_trans)
        next
          case (Inr locs)
          obtain nlocs elocs where locs: "locs = (nlocs, elocs)" by (cases locs)
          have "\<forall>base. tx_expected t = Some base \<longrightarrow> base \<le> st_revision s"
            using False by (auto split: option.splits)
          moreover have "res = Inr ((commit_info t s1)\<lparr>ci_Idempotency := idem\<rparr>)" "t' = t\<lparr>tx_closed := True\<rparr>"
            "s' = commit_apply t idem nlocs elocs s1"
            using False assms ready ci IdemNew cw Inr locs by (auto simp: CommitWithInfo_def split: option.splits)
          ultimately show thesis
            using committed [where idem = idem and s = s and ?s1.0 = s1 and nlocs = nlocs and elocs = elocs] ready ci IdemNew False cw Inr locs by auto
        qed
      qed
    qed
  qed
qed


section \<open>What the conflict checks guarantee\<close>

lemma edge_puts_no_conflict_aux:
  "\<not> edge_puts_conflict t s cc es \<Longrightarrow>
   \<forall>e \<in> set es. endpoint_ok t s (e_FromID e) \<and> endpoint_ok t s (e_ToID e) \<and>
     (is_contains e \<longrightarrow>
       (\<forall>x. cc (e_ToID e) = Some x \<longrightarrow> x = e_ID e) \<and>
       (\<forall>x. es_parent (st_edges s) (e_ToID e) = Some x \<longrightarrow> x = e_ID e \<or> x \<in> set (tx_edgeDeletes t)) \<and>
       (\<forall>e' \<in> set es. is_contains e' \<and> e_ToID e' = e_ToID e \<longrightarrow> e_ID e' = e_ID e))"
proof (induction es arbitrary: cc)
  case (Cons f es)
  let ?cc = "if is_contains f then cc(e_ToID f \<mapsto> e_ID f) else cc"
  have rest: "\<not> edge_puts_conflict t s ?cc es" using Cons.prems by (auto split: if_splits)
  note IH = Cons.IH [OF rest, rule_format]
  have f: "endpoint_ok t s (e_FromID f) \<and> endpoint_ok t s (e_ToID f) \<and> (is_contains f \<longrightarrow>
      (\<forall>x. cc (e_ToID f) = Some x \<longrightarrow> x = e_ID f) \<and>
      (\<forall>x. es_parent (st_edges s) (e_ToID f) = Some x \<longrightarrow> x = e_ID f \<or> x \<in> set (tx_edgeDeletes t)))"
    using Cons.prems by (auto split: if_splits option.splits)
  have fe: "e_ID f = e_ID g" if "g \<in> set es" "is_contains f" "is_contains g" "e_ToID g = e_ToID f" for g
  proof -
    have "?cc (e_ToID g) = Some (e_ID f)" using that by simp
    with IH [OF that(1)] that(3) show ?thesis by blast
  qed
  have old: "x = e_ID g" if g: "g \<in> set es" "is_contains g" and x: "cc (e_ToID g) = Some x" for g x
  proof (cases "is_contains f \<and> e_ToID f = e_ToID g")
    case True
    with f x have "x = e_ID f" by auto
    also have "\<dots> = e_ID g" using fe [of g] g True by simp
    finally show ?thesis .
  next
    case False
    then have "?cc (e_ToID g) = Some x" using x by auto
    with IH [OF g(1)] g(2) show ?thesis by blast
  qed
  show ?case
  proof
    fix e assume "e \<in> set (f # es)"
    then consider "e = f" | "e \<in> set es" by auto
    then show "endpoint_ok t s (e_FromID e) \<and> endpoint_ok t s (e_ToID e) \<and> (is_contains e \<longrightarrow>
       (\<forall>x. cc (e_ToID e) = Some x \<longrightarrow> x = e_ID e) \<and>
       (\<forall>x. es_parent (st_edges s) (e_ToID e) = Some x \<longrightarrow> x = e_ID e \<or> x \<in> set (tx_edgeDeletes t)) \<and>
       (\<forall>e' \<in> set (f # es). is_contains e' \<and> e_ToID e' = e_ToID e \<longrightarrow> e_ID e' = e_ID e))"
    proof cases
      case 1
      with f fe show ?thesis by (metis set_ConsD)
    next
      case 2
      with IH [OF 2] old [OF 2] fe [OF 2] show ?thesis by (metis set_ConsD)
    qed
  qed
qed simp

lemma edge_puts_no_conflict:
  assumes "\<not> edge_puts_conflict t s cc es" "e \<in> set es"
  shows "endpoint_ok t s (e_FromID e)" "endpoint_ok t s (e_ToID e)"
    "is_contains e \<Longrightarrow> es_parent (st_edges s) (e_ToID e) = Some x \<Longrightarrow> x = e_ID e \<or> x \<in> set (tx_edgeDeletes t)"
    "is_contains e \<Longrightarrow> e' \<in> set es \<Longrightarrow> is_contains e' \<Longrightarrow> e_ToID e' = e_ToID e \<Longrightarrow> e_ID e' = e_ID e"
  using edge_puts_no_conflict_aux [OF assms(1)] assms(2) by blast+

lemma endpoint_ok_iff:
  "endpoint_ok t s i \<longleftrightarrow>
   commit_records n_ID (tx_nodePuts t) (tx_nodeDeletes t) (ns_records (st_nodes s)) i \<noteq> None"
  by (auto simp: endpoint_ok_def commit_records_None)

definition anchored :: "(node_id \<rightharpoonup> node) \<Rightarrow> (edge_id \<rightharpoonup> edge) \<Rightarrow> bool" where
  "anchored nodes edges \<longleftrightarrow>
     (\<forall>i e. edges i = Some e \<longrightarrow> nodes (e_FromID e) \<noteq> None \<and> nodes (e_ToID e) \<noteq> None)"

lemma anchored_commit:
  assumes "anchored (ns_records (st_nodes s)) (es_records (st_edges s))" "\<not> invariantConflict t s"
  shows "anchored (commit_records n_ID (tx_nodePuts t) (tx_nodeDeletes t) (ns_records (st_nodes s)))
    (commit_records e_ID (tx_edgePuts t) (tx_edgeDeletes t) (es_records (st_edges s)))"
  unfolding anchored_def
proof (intro allI impI)
  fix i e
  assume e: "commit_records e_ID (tx_edgePuts t) (tx_edgeDeletes t) (es_records (st_edges s)) i = Some e"
  then have nd: "i \<notin> set (tx_edgeDeletes t)" by (simp add: commit_records_Some)
  let ?N = "commit_records n_ID (tx_nodePuts t) (tx_nodeDeletes t) (ns_records (st_nodes s))"
  note conf = assms(2) [unfolded invariantConflict_def de_Morgan_disj]
  show "?N (e_FromID e) \<noteq> None \<and> ?N (e_ToID e) \<noteq> None"
  proof (cases "put_map e_ID (tx_edgePuts t) i")
    case (Some e')
    with e have "e \<in> set (tx_edgePuts t)" by (auto simp: commit_records_Some dest: put_map_Some)
    with conf show ?thesis
      using edge_puts_no_conflict(1,2) endpoint_ok_iff by blast
  next
    case None
    with e have r: "es_records (st_edges s) i = Some e" by (simp add: commit_records_Some)
    with assms(1) have "ns_records (st_nodes s) (e_FromID e) \<noteq> None" "ns_records (st_nodes s) (e_ToID e) \<noteq> None"
      by (auto simp: anchored_def)
    moreover have "n \<notin> set (tx_nodeDeletes t)" if "e_FromID e = n \<or> e_ToID e = n" for n
    proof
      assume "n \<in> set (tx_nodeDeletes t)"
      with conf have "\<not> node_delete_conflict t s n" by (auto simp: list_ex_iff)
      then show False
        using r that None nd unfolding node_delete_conflict_def put_for_put_map Let_def
        by (metis (no_types, lifting) domI option.case(1) option.sel)
    qed
    ultimately show ?thesis by (auto simp: commit_records_None)
  qed
qed

text \<open>Parents: at every child the edge that claims it is the recorded one.\<close>

lemma parents_ok_iff:
  "parents_ok st \<longleftrightarrow> parents_sound st \<and> (\<forall>i c. parent_held st i c)"
  unfolding parents_ok_def parents_sound_def parent_held_def claims_def by blast

lemma edge_op_keyed: "keyed e_ID (es_records st) \<Longrightarrow> keyed e_ID (es_records (edge_op cfg op st))"
  by (cases op) (simp_all add: keyed_upd keyed_del)

lemma edge_op_sound:
  "keyed e_ID (es_records st) \<Longrightarrow> parents_sound st \<Longrightarrow> parents_sound (edge_op cfg op st)"
  by (cases op) (simp_all add: parents_sound_put parents_sound_delete)

lemma fold_parents_sound:
  "keyed e_ID (es_records st) \<Longrightarrow> parents_sound st \<Longrightarrow> parents_sound (fold (edge_op cfg) ops st)"
  by (induction ops arbitrary: st) (simp_all add: edge_op_keyed edge_op_sound)

lemma fold_children_ok:
  "keyed e_ID (es_records st) \<Longrightarrow> children_ok cfg st \<Longrightarrow> children_ok cfg (fold (edge_op cfg) ops st)"
proof (induction ops arbitrary: st)
  case (Cons op ops)
  have "children_ok cfg (edge_op cfg op st)"
    using Cons.prems by (cases op) (simp_all add: children_ok_put children_ok_delete)
  with Cons edge_op_keyed show ?case by simp
qed simp

lemma fold_parent_held:
  "keyed e_ID (es_records st) \<Longrightarrow> parents_sound st \<Longrightarrow> parent_held st i c \<Longrightarrow>
   (\<forall>e loc. OpPut e loc \<in> set ops \<longrightarrow> is_contains e \<longrightarrow> e_ToID e = c \<longrightarrow> e_ID e = i) \<Longrightarrow>
   parent_held (fold (edge_op cfg) ops st) i c"
proof (induction ops arbitrary: st)
  case (Cons op ops)
  have "parent_held (edge_op cfg op st) i c"
  proof (cases op)
    case (OpPut e loc)
    with Cons.prems(4) have "is_contains e \<Longrightarrow> e_ToID e = c \<Longrightarrow> e_ID e = i" by auto
    with OpPut parent_held_put [OF Cons.prems(1-3)] show ?thesis by simp
  next
    case (OpDel j loc)
    with parent_held_delete [OF Cons.prems(1-3)] show ?thesis by simp
  qed
  moreover have "\<forall>e loc. OpPut e loc \<in> set ops \<longrightarrow> is_contains e \<longrightarrow> e_ToID e = c \<longrightarrow> e_ID e = i"
    using Cons.prems(4) by (metis list.set_intros(2))
  ultimately show ?case
    using Cons.IH [OF edge_op_keyed edge_op_sound] Cons.prems(1,2) by simp
qed simp

lemma set_commit_ops_put: "OpPut e loc \<in> set (commit_ops puts dels locs) \<Longrightarrow> e \<in> set puts"
  by (auto simp: commit_ops_def dest: set_zip_leftD)

lemma parents_ok_commit:
  assumes keyed: "keyed e_ID (es_records (st_edges s))" and ok: "parents_ok (st_edges s)"
    and conf: "\<not> invariantConflict t s" and len: "length locs = length (tx_edgePuts t) + length (tx_edgeDeletes t)"
  shows "parents_ok (apply_edges cfg t locs (st_edges s))"
  unfolding parents_ok_iff apply_edges_ops
proof (intro conjI allI)
  let ?ops = "commit_ops (tx_edgePuts t) (tx_edgeDeletes t) locs"
  let ?st = "fold (edge_op cfg) ?ops (st_edges s)"
  show sound: "parents_sound ?st"
    using ok keyed by (simp add: parents_ok_iff fold_parents_sound)
  fix i c
  have noconf: "\<not> edge_puts_conflict t s Map.empty (tx_edgePuts t)" using conf by (simp add: invariantConflict_def)
  show "parent_held ?st i c"
  proof (cases "claims (es_records ?st) i c")
    case True
    have recs: "es_records ?st = commit_records e_ID (tx_edgePuts t) (tx_edgeDeletes t) (es_records (st_edges s))"
      using len by (simp add: fold_edge_op_fields fold_commit_ops_records)
    obtain e where e: "es_records ?st i = Some e" "is_contains e" "e_ToID e = c"
      using True by (auto simp: claims_def contains_edge_def)
    have only: "e_ID g = i" if g: "g \<in> set (tx_edgePuts t)" "is_contains g" "e_ToID g = c" for g
    proof (cases "put_map e_ID (tx_edgePuts t) i")
      case (Some e')
      with e recs have "e \<in> set (tx_edgePuts t)" "e_ID e = i" by (auto simp: commit_records_Some dest: put_map_Some)
      with edge_puts_no_conflict(4) [OF noconf] e g show ?thesis by metis
    next
      case None
      with e recs have "es_records (st_edges s) i = Some e" "i \<notin> set (tx_edgeDeletes t)"
        by (simp_all add: commit_records_Some)
      moreover from this e ok have "es_parent (st_edges s) c = Some i" by (auto simp: parents_ok_def contains_edge_def)
      ultimately show ?thesis using edge_puts_no_conflict(3) [OF noconf g(1)] g by metis
    qed
    have "\<forall>e loc. OpPut e loc \<in> set ?ops \<longrightarrow> is_contains e \<longrightarrow> e_ToID e = c \<longrightarrow> e_ID e = i"
      by (intro allI impI only) (erule set_commit_ops_put)
    moreover have "parents_sound (st_edges s)" "parent_held (st_edges s) i c" using ok by (simp_all add: parents_ok_iff)
    ultimately show ?thesis by (intro fold_parent_held keyed)
  qed (simp add: parent_held_def)
qed

section \<open>The invariant\<close>

definition idem_ok :: "local_store \<Rightarrow> bool" where
  "idem_ok s \<longleftrightarrow> distinct (map fst (st_idem s)) \<and> length (st_idem s) \<le> MaxIdempotencyRecordsPerStore \<and>
     (\<forall>(i, r) \<in> set (st_idem s). i = idempotencyRecordIdentity (ir_Scope r) (ir_Key r) \<and>
        ir_CommittedRevision r \<le> st_revision s)"

definition store_inv :: "local_store \<Rightarrow> bool" where
  "store_inv s \<longleftrightarrow>
     node_indexes_ok (st_nodes s) \<and> edge_index_ok (st_edges s) \<and>
     anchored (ns_records (st_nodes s)) (es_records (st_edges s)) \<and>
     parents_ok (st_edges s) \<and> children_ok (st_cfg s) (st_edges s) \<and>
     history_ok (ns_records (st_nodes s)) (ns_history (st_nodes s)) (st_revision s) \<and>
     history_ok (es_records (st_edges s)) (es_history (st_edges s)) (st_revision s) \<and>
     (\<forall>i. ns_modRev (st_nodes s) i \<le> st_revision s \<and> es_modRev (st_edges s) i \<le> st_revision s) \<and>
     idem_ok s"

text \<open>The graph part of the invariant only looks at the graph.\<close>

lemma store_inv_same: "graph_same s s' \<Longrightarrow> store_inv s \<Longrightarrow> idem_ok s' \<Longrightarrow> store_inv s'"
  by (simp add: store_inv_def graph_same_def)

lemma idem_ok_purged: "idem_purged s s' \<Longrightarrow> st_revision s' = st_revision s \<Longrightarrow> idem_ok s \<Longrightarrow> idem_ok s'"
  unfolding idem_ok_def idem_purged_def
  by (auto simp: distinct_map_filter intro: le_trans [OF length_filter_le])

lemma idem_ok_same: "idem_same s s' \<Longrightarrow> st_revision s' = st_revision s \<Longrightarrow> idem_ok s \<Longrightarrow> idem_ok s'"
  by (simp add: idem_ok_def idem_same_def)

lemma length_AList_update:
  "length (AList.update k v xs) = (if map_of xs k = None then Suc (length xs) else length xs)"
  by (induction xs) auto

lemma set_AList_update: "set (AList.update k v xs) \<subseteq> insert (k, v) (set xs)"
  by (induction xs) auto

lemma idem_ok_update:
  assumes "idem_ok s" "st_idem s' = AList.update i r (st_idem s)" "st_revision s \<le> st_revision s'"
    and "i = idempotencyRecordIdentity (ir_Scope r) (ir_Key r)" "ir_CommittedRevision r \<le> st_revision s'"
    and "map_of (st_idem s) i = None \<Longrightarrow> length (st_idem s) < MaxIdempotencyRecordsPerStore"
  shows "idem_ok s'"
proof -
  have "distinct (map fst (st_idem s'))" using assms(1,2) by (simp add: idem_ok_def distinct_update)
  moreover have "length (st_idem s') \<le> MaxIdempotencyRecordsPerStore"
    using assms(1,2,6) by (auto simp: idem_ok_def length_AList_update)
  moreover have "j = idempotencyRecordIdentity (ir_Scope q) (ir_Key q) \<and> ir_CommittedRevision q \<le> st_revision s'"
    if "(j, q) \<in> set (st_idem s')" for j q
  proof -
    have "(j, q) \<in> insert (i, r) (set (st_idem s))"
      using that unfolding assms(2) by (rule set_mp [OF set_AList_update])
    then have "(j, q) = (i, r) \<or> (j, q) \<in> set (st_idem s)" by simp
    then show ?thesis
      using assms(1,3,4,5) by (auto simp: idem_ok_def intro: order_trans)
  qed
  ultimately show ?thesis by (auto simp: idem_ok_def)
qed

lemma idem_ok_lookup:
  assumes "idem_ok s" "idem_lookup scope key s = Some r"
  shows "ir_Scope r = scope" "ir_Key r = key" "ir_CommittedRevision r \<le> st_revision s"
proof -
  have "(idempotencyRecordIdentity scope key, r) \<in> set (st_idem s)"
    using assms(2) by (simp add: idem_lookup_def map_of_SomeD)
  with assms(1) have "idempotencyRecordIdentity scope key = idempotencyRecordIdentity (ir_Scope r) (ir_Key r)"
    and "ir_CommittedRevision r \<le> st_revision s" by (auto simp: idem_ok_def)
  then show "ir_Scope r = scope" "ir_Key r = key" "ir_CommittedRevision r \<le> st_revision s"
    by (auto simp: idempotencyRecordIdentity_inj)
qed

section \<open>A successful commit\<close>

lemma commit_apply_fields:
  fixes s :: local_store
  defines "rv \<equiv> st_revision s + 1"
  shows "st_nodes (commit_apply t idem nlocs elocs s) = version_nodes rv t (apply_nodes (st_cfg s) t nlocs (st_nodes s))"
    "st_edges (commit_apply t idem nlocs elocs s) = version_edges rv t (apply_edges (st_cfg s) t elocs (st_edges s))"
    "st_revision (commit_apply t idem nlocs elocs s) = rv"
    "st_cfg (commit_apply t idem nlocs elocs s) = st_cfg s"
    "st_state (commit_apply t idem nlocs elocs s) = st_state s"
    "st_idem (commit_apply t idem nlocs elocs s) = (case idem of None \<Rightarrow> st_idem s | Some r \<Rightarrow>
       AList.update (idempotencyRecordIdentity (ir_Scope r) (ir_Key r)) r (st_idem s))"
  by (cases idem; simp add: commit_apply_def Let_def markReadyIndexesIndexedThrough_def idem_store_def rv_def)+

text \<open>The graph after a commit: puts, then deletions, over the graph before it.\<close>

definition committed_nodes :: "localTxn \<Rightarrow> local_store \<Rightarrow> node_id \<rightharpoonup> node" where
  "committed_nodes t s = commit_records n_ID (tx_nodePuts t) (tx_nodeDeletes t) (ns_records (st_nodes s))"

definition committed_edges :: "localTxn \<Rightarrow> local_store \<Rightarrow> edge_id \<rightharpoonup> edge" where
  "committed_edges t s = commit_records e_ID (tx_edgePuts t) (tx_edgeDeletes t) (es_records (st_edges s))"

lemma commit_apply_records:
  assumes "length nlocs = length (tx_nodePuts t) + length (tx_nodeDeletes t)"
    and "length elocs = length (tx_edgePuts t) + length (tx_edgeDeletes t)"
  shows "ns_records (st_nodes (commit_apply t idem nlocs elocs s)) = committed_nodes t s"
    and "es_records (st_edges (commit_apply t idem nlocs elocs s)) = committed_edges t s"
  using assms same_nodes_fields(1) [OF version_nodes_fields(2)] same_edges_fields(1) [OF version_edges_fields(2)]
  by (simp_all add: commit_apply_fields apply_nodes_ops apply_edges_ops fold_node_op_fields fold_edge_op_fields
      fold_commit_ops_records committed_nodes_def committed_edges_def)

lemma u64_suc: "(r :: u64) \<noteq> - 1 \<Longrightarrow> r < r + 1"
  using unatSuc [of r] by (simp add: word_less_nat_alt add.commute eq_neg_iff_add_eq_0)

lemma commit_apply_inv:
  assumes inv: "store_inv s" and rv: "st_revision s \<noteq> - 1" and conf: "\<not> invariantConflict t s"
    and len: "length nlocs = length (tx_nodePuts t) + length (tx_nodeDeletes t)"
      "length elocs = length (tx_edgePuts t) + length (tx_edgeDeletes t)"
    and idem: "\<And>r. idem = Some r \<Longrightarrow> idem_lookup (ir_Scope r) (ir_Key r) s = None \<and>
      length (st_idem s) < MaxIdempotencyRecordsPerStore \<and> ir_CommittedRevision r = st_revision s + 1"
  shows "store_inv (commit_apply t idem nlocs elocs s)"
proof -
  let ?s = "commit_apply t idem nlocs elocs s" and ?rv = "st_revision s + 1"
  let ?an = "apply_nodes (st_cfg s) t nlocs (st_nodes s)" and ?ae = "apply_edges (st_cfg s) t elocs (st_edges s)"
  have lt: "st_revision s < ?rv" using rv by (rule u64_suc)
  note i = inv [unfolded store_inv_def]
  have keyed: "keyed e_ID (es_records (st_edges s))" using i by (simp add: edge_index_ok_def)
  note recs = commit_apply_records [OF len, of idem s]
  note sn = same_nodes_fields [OF version_nodes_fields(2) [where rv = ?rv and t = t and st = ?an]]
  note se = same_edges_fields [OF version_edges_fields(2) [where rv = ?rv and t = t and st = ?ae]]
  have "node_indexes_ok (st_nodes ?s)"
    using i unfolding commit_apply_fields sn(2) unfolding apply_nodes_ops by (simp add: fold_node_op_fields)
  moreover have "edge_index_ok (st_edges ?s)"
    using i unfolding commit_apply_fields se(2) unfolding apply_edges_ops by (simp add: fold_edge_op_fields)
  moreover have "anchored (ns_records (st_nodes ?s)) (es_records (st_edges ?s))"
    unfolding recs committed_nodes_def committed_edges_def using anchored_commit i conf by blast
  moreover have "parents_ok (st_edges ?s)"
    unfolding commit_apply_fields se(3) using parents_ok_commit [OF keyed _ conf len(2)] i by blast
  moreover have "children_ok (st_cfg ?s) (st_edges ?s)"
    unfolding commit_apply_fields se(4) unfolding apply_edges_ops using fold_children_ok [OF keyed] i by blast
  moreover have "history_ok (ns_records (st_nodes ?s)) (ns_history (st_nodes ?s)) (st_revision ?s)"
    using history_ok_commit(1) [OF _ lt] i
    unfolding recs unfolding commit_apply_fields version_nodes_fields(3) [OF len(1)] apply_nodes_ops fold_node_op_fields
      committed_nodes_def fold_commit_ops_records [OF len(1), symmetric] by blast
  moreover have "history_ok (es_records (st_edges ?s)) (es_history (st_edges ?s)) (st_revision ?s)"
    using history_ok_commit(1) [OF _ lt] i
    unfolding recs unfolding commit_apply_fields version_edges_fields(3) [OF len(2)] apply_edges_ops fold_edge_op_fields
      committed_edges_def fold_commit_ops_records [OF len(2), symmetric] by blast
  moreover have "ns_modRev (st_nodes ?s) j \<le> st_revision ?s \<and> es_modRev (st_edges ?s) j \<le> st_revision ?s" for j
  proof -
    have "ns_modRev (st_nodes s) j \<le> ?rv" "es_modRev (st_edges s) j \<le> ?rv"
      using i lt by (meson order_less_imp_le order_trans)+
    then show ?thesis
      unfolding commit_apply_fields version_nodes_fields(1) version_edges_fields(1) apply_nodes_ops apply_edges_ops
        fold_node_op_fields fold_edge_op_fields by (simp add: touch_def)
  qed
  moreover have "idem_ok ?s"
  proof (cases idem)
    case None
    with i lt show ?thesis by (auto simp: idem_ok_def commit_apply_fields intro: order_trans less_imp_le)
  next
    case (Some r)
    show ?thesis
    proof (rule idem_ok_update)
      show "idem_ok s" using i by blast
      show "st_idem ?s = AList.update (idempotencyRecordIdentity (ir_Scope r) (ir_Key r)) r (st_idem s)"
        by (simp add: commit_apply_fields Some)
      show "st_revision s \<le> st_revision ?s" "ir_CommittedRevision r \<le> st_revision ?s"
        using lt idem [OF Some] by (simp_all add: commit_apply_fields)
    qed (use idem [OF Some] in simp_all)
  qed
  ultimately show ?thesis unfolding store_inv_def by blast
qed

end
