(* ===== verification/Graph_Idempotency.thy ===== *)
theory Graph_Idempotency
  imports Graph_State
begin

text \<open>
  The idempotency records of a store between commits (\<open>internal/graph/storage/idempotency.go\<close>): checking,
  reading, listing, restoring and marking them. \<open>now\<close> is the clock of a call, \<open>w\<close> the outcomes of its
  appends to the transaction segment, \<open>sync_ok\<close> of its sync. A marker is on disk before it is in memory.
\<close>

definition CheckIdempotencyRecord ::
  "ctx \<Rightarrow> IdempotencyRecord \<Rightarrow> local_store \<Rightarrow> (graph_error + IdempotencyRecord option) \<times> local_store" where
  "CheckIdempotencyRecord ctx candidate s0 =
     (case ctx of
        Some e \<Rightarrow> (Inl (ErrContext e), s0)
      | None \<Rightarrow>
          (case validateIdempotencyRecord candidate of
             Some e \<Rightarrow> (Inl e, s0)
           | None \<Rightarrow>
               (case ensureReady s0 of
                  Some e \<Rightarrow> (Inl e, s0)
                | None \<Rightarrow>
                    (let s = purgeExpiredIdempotencyRecordsLocked (ir_CommittedAt candidate) s0 in
                     case idem_lookup (ir_Scope candidate) (ir_Key candidate) s of
                       Some existing \<Rightarrow>
                         (if ir_Digest existing \<noteq> ir_Digest candidate then Inl ErrIdempotencyConflict
                          else Inr (Some existing), s)
                     | None \<Rightarrow>
                         (if length (st_idem s) \<ge> MaxIdempotencyRecordsPerStore then Inl ErrIdempotencyCapacity
                          else Inr None, s)))))"

definition GetIdempotencyRecord ::
  "ctx \<Rightarrow> gotime \<Rightarrow> string \<Rightarrow> string \<Rightarrow> local_store \<Rightarrow> (graph_error + IdempotencyRecord option) \<times> local_store" where
  "GetIdempotencyRecord ctx now scope key s0 =
     (case ctx of
        Some e \<Rightarrow> (Inl (ErrContext e), s0)
      | None \<Rightarrow>
          (case ensureReady s0 of
             Some e \<Rightarrow> (Inl e, s0)
           | None \<Rightarrow>
               (let s = purgeExpiredIdempotencyRecordsLocked now s0 in (Inr (idem_lookup scope key s), s))))"

definition ListIdempotencyRecords ::
  "ctx \<Rightarrow> gotime \<Rightarrow> local_store \<Rightarrow> (graph_error + IdempotencyRecord list) \<times> local_store" where
  "ListIdempotencyRecords ctx now s0 =
     (case ctx of
        Some e \<Rightarrow> (Inl (ErrContext e), s0)
      | None \<Rightarrow>
          (case ensureReady s0 of
             Some e \<Rightarrow> (Inl e, s0)
           | None \<Rightarrow>
               (let s = purgeExpiredIdempotencyRecordsLocked now s0
                in (Inr (sort_key (\<lambda>r. (ir_Scope r, ir_Key r)) (map snd (st_idem s))), s))))"

section \<open>Restoring\<close>

fun restore_loop ::
  "(nat \<Rightarrow> write_outcome) \<Rightarrow> gotime \<Rightarrow> nat \<Rightarrow> IdempotencyRecord list \<Rightarrow> local_store \<Rightarrow> graph_error option \<times> local_store"
where
  "restore_loop w now i [] s = (None, s)"
| "restore_loop w now i (r # rs) s =
     (if idempotencyRecordExpired r now then restore_loop w now (Suc i) rs s
      else
        (case validateIdempotencyRecord r of
           Some e \<Rightarrow> (Some e, s)
         | None \<Rightarrow>
             if ir_StorageTxnID r = 0 \<or> ir_CommittedRevision r = 0 \<or> ir_CommittedRevision r > st_revision s
             then (Some (ErrInvalid ''restored idempotency commit identity is invalid''), s)
             else if (case idem_lookup (ir_Scope r) (ir_Key r) s of
                        Some existing \<Rightarrow> ir_Digest existing \<noteq> ir_Digest r | None \<Rightarrow> False)
             then (Some ErrIdempotencyConflict, s)
             else if idem_lookup (ir_Scope r) (ir_Key r) s = None
                  \<and> length (st_idem s) \<ge> MaxIdempotencyRecordsPerStore
             then (Some ErrIdempotencyCapacity, s)
             else
               (case jc_record (st_json s) r of
                  None \<Rightarrow> (Some ErrUnsupported, s)
                | Some payload \<Rightarrow>
                    (case appendRecord (cf_String (st_cfg s)) (w i) RecordKindIdempotencyRestore
                            (ir_StorageTxnID r) 0 payload (st_txnSeg s) of
                       (Inl e, sg) \<Rightarrow> (Some e, s\<lparr>st_txnSeg := sg\<rparr>)
                     | (Inr loc, sg) \<Rightarrow>
                         restore_loop w now (Suc i) rs (idem_store r (s\<lparr>st_txnSeg := sg\<rparr>))))))"

definition RestoreIdempotencyRecords ::
  "ctx \<Rightarrow> gotime \<Rightarrow> (nat \<Rightarrow> write_outcome) \<Rightarrow> bool \<Rightarrow> IdempotencyRecord list \<Rightarrow> local_store \<Rightarrow>
   graph_error option \<times> local_store" where
  "RestoreIdempotencyRecords ctx now w sync_ok rs s0 =
     (case ctx of
        Some e \<Rightarrow> (Some (ErrContext e), s0)
      | None \<Rightarrow>
          (case ensureReady s0 of
             Some e \<Rightarrow> (Some e, s0)
           | None \<Rightarrow>
               (case restore_loop w now 0 rs (purgeExpiredIdempotencyRecordsLocked now s0) of
                  (Some e, s) \<Rightarrow> (Some e, s)
                | (None, s) \<Rightarrow> (if sync_ok then None else Some ErrSync, s))))"

section \<open>Markers\<close>

text \<open>The common end of the three marking operations: write the marker, sync, then set the flag.\<close>

definition write_marker ::
  "write_outcome \<Rightarrow> bool \<Rightarrow> byte \<Rightarrow> (string \<times> string \<times> string) \<Rightarrow> IdempotencyRecord \<Rightarrow> IdempotencyRecord \<Rightarrow>
   local_store \<Rightarrow> graph_error option \<times> local_store" where
  "write_marker w sync_ok kind meta r r' s =
     (case jc_delivery (st_json s) meta of
        None \<Rightarrow> (Some ErrUnsupported, s)
      | Some payload \<Rightarrow>
          (case appendRecord (cf_String (st_cfg s)) w kind (ir_StorageTxnID r) 0 payload (st_txnSeg s) of
             (Inl e, sg) \<Rightarrow> (Some e, s\<lparr>st_txnSeg := sg\<rparr>)
           | (Inr loc, sg) \<Rightarrow>
               if \<not> sync_ok then (Some ErrSync, s\<lparr>st_txnSeg := sg\<rparr>)
               else
                 (case meta of
                    (scope, key, digest) \<Rightarrow>
                      (None, s\<lparr>st_txnSeg := sg,
                         st_idem := AList.update (idempotencyRecordIdentity scope key) r' (st_idem s)\<rparr>))))"

definition MarkIdempotencyDelivered ::
  "ctx \<Rightarrow> write_outcome \<Rightarrow> bool \<Rightarrow> string \<Rightarrow> string \<Rightarrow> string \<Rightarrow> local_store \<Rightarrow> graph_error option \<times> local_store" where
  "MarkIdempotencyDelivered ctx w sync_ok scope key digest s =
     (case ctx of
        Some e \<Rightarrow> (Some (ErrContext e), s)
      | None \<Rightarrow>
          (case ensureReady s of
             Some e \<Rightarrow> (Some e, s)
           | None \<Rightarrow>
               (case idem_lookup scope key s of
                  None \<Rightarrow> (Some ErrNotFound, s)
                | Some r \<Rightarrow>
                    if ir_Digest r \<noteq> digest then (Some ErrIdempotencyConflict, s)
                    else if ir_Delivered r then (None, s)
                    else write_marker w sync_ok RecordKindIdempotencyDelivered (scope, key, digest)
                           r (r\<lparr>ir_Delivered := True\<rparr>) s)))"

definition RetainIdempotencyUntilAcknowledged ::
  "ctx \<Rightarrow> write_outcome \<Rightarrow> bool \<Rightarrow> string \<Rightarrow> string \<Rightarrow> string \<Rightarrow> bytes \<Rightarrow> local_store \<Rightarrow>
   graph_error option \<times> local_store" where
  "RetainIdempotencyUntilAcknowledged ctx w sync_ok scope key digest metadata s =
     (case ctx of
        Some e \<Rightarrow> (Some (ErrContext e), s)
      | None \<Rightarrow>
          (case ensureReady s of
             Some e \<Rightarrow> (Some e, s)
           | None \<Rightarrow>
               (case idem_lookup scope key s of
                  None \<Rightarrow> (Some ErrNotFound, s)
                | Some r \<Rightarrow>
                    if ir_Digest r \<noteq> digest \<or> ir_Metadata r \<noteq> metadata then (Some ErrIdempotencyConflict, s)
                    else if ir_RetainUntilAcknowledged r then (None, s)
                    else write_marker w sync_ok RecordKindIdempotencyRetained (scope, key, ir_Digest r)
                           r (r\<lparr>ir_RetainUntilAcknowledged := True\<rparr>) s)))"

definition MarkIdempotencyPublicationAcknowledged ::
  "ctx \<Rightarrow> write_outcome \<Rightarrow> bool \<Rightarrow> string \<Rightarrow> string \<Rightarrow> string \<Rightarrow> bytes \<Rightarrow> local_store \<Rightarrow>
   graph_error option \<times> local_store" where
  "MarkIdempotencyPublicationAcknowledged ctx w sync_ok scope key digest metadata s =
     (case ctx of
        Some e \<Rightarrow> (Some (ErrContext e), s)
      | None \<Rightarrow>
          (case ensureReady s of
             Some e \<Rightarrow> (Some e, s)
           | None \<Rightarrow>
               (case idem_lookup scope key s of
                  None \<Rightarrow> (Some ErrNotFound, s)
                | Some r \<Rightarrow>
                    if ir_Digest r \<noteq> digest \<or> ir_Metadata r \<noteq> metadata then (Some ErrIdempotencyConflict, s)
                    else if \<not> ir_RetainUntilAcknowledged r \<or> ir_PublicationAcknowledged r then (None, s)
                    else write_marker w sync_ok RecordKindIdempotencyAcknowledged (scope, key, ir_Digest r)
                           r (r\<lparr>ir_PublicationAcknowledged := True\<rparr>) s)))"

definition IdempotencyStats :: "gotime \<Rightarrow> local_store \<Rightarrow> (nat \<times> nat \<times> u64) \<times> local_store" where
  "IdempotencyStats now s0 =
     (let s = purgeExpiredIdempotencyRecordsLocked now s0
      in ((length (st_idem s), MaxIdempotencyRecordsPerStore, st_evictions s), s))"

section \<open>Loading\<close>

text \<open>
  One record of the transaction segment: the commits seen, the revision counted so far and the records
  rebuilt. Marker records refer to a record loaded before.
\<close>

record idem_load =
  il_seen :: "uuid list"
  il_revision :: u64
  il_records :: "(string \<times> IdempotencyRecord) list"

definition apply_delivery :: "byte \<Rightarrow> IdempotencyRecord \<Rightarrow> IdempotencyRecord" where
  "apply_delivery kind r =
     (if kind = RecordKindIdempotencyAcknowledged then r\<lparr>ir_PublicationAcknowledged := True\<rparr>
      else if kind = RecordKindIdempotencyRetained then r\<lparr>ir_RetainUntilAcknowledged := True\<rparr>
      else r\<lparr>ir_Delivered := True\<rparr>)"

definition load_candidate :: "IdempotencyRecord \<Rightarrow> idem_load \<Rightarrow> graph_error + idem_load" where
  "load_candidate r l =
     (case validateIdempotencyRecord r of
        Some e \<Rightarrow> Inl e
      | None \<Rightarrow> Inr (l\<lparr>il_records :=
          AList.update (idempotencyRecordIdentity (ir_Scope r) (ir_Key r)) r (il_records l)\<rparr>))"

definition load_idempotency_record :: "json_codec \<Rightarrow> scannedRecord \<Rightarrow> idem_load \<Rightarrow> graph_error + idem_load" where
  "load_idempotency_record jc rec l0 =
     (let kind = rh_kind (sc_header rec); txnID = rh_txnID (sc_header rec); payload = sc_payload rec in
      if kind = RecordKindTxnCommit then
        (let l = (if txnID \<in> set (il_seen l0) then l0
                  else l0\<lparr>il_seen := txnID # il_seen l0, il_revision := il_revision l0 + 1\<rparr>)
         in if payload = [] then Inr l
            else
              (case jc_uncommit jc payload of
                 None \<Rightarrow> Inl (ErrInvalid ''decode transaction commit metadata'')
               | Some None \<Rightarrow> Inr l
               | Some (Some r) \<Rightarrow>
                   if ir_StorageTxnID r \<noteq> txnID \<or> ir_CommittedRevision r \<noteq> il_revision l
                   then Inl (ErrInvalid ''idempotency commit identity mismatch'')
                   else load_candidate r l))
      else if kind = RecordKindIdempotencyRestore then
        (case jc_unrecord jc payload of
           None \<Rightarrow> Inl (ErrInvalid ''decode restored idempotency metadata'')
         | Some r \<Rightarrow>
             if ir_StorageTxnID r \<noteq> txnID \<or> ir_CommittedRevision r = 0 \<or> ir_CommittedRevision r > il_revision l0
             then Inl (ErrInvalid ''restored idempotency commit identity mismatch'')
             else load_candidate r l0)
      else if kind = RecordKindIdempotencyDelivered \<or> kind = RecordKindIdempotencyAcknowledged
           \<or> kind = RecordKindIdempotencyRetained then
        (case jc_undelivery jc payload of
           None \<Rightarrow> Inl (ErrInvalid ''decode idempotency delivery metadata'')
         | Some (scope, key, digest) \<Rightarrow>
             (let i = idempotencyRecordIdentity scope key in
              case map_of (il_records l0) i of
                None \<Rightarrow> Inr l0
              | Some r \<Rightarrow>
                  if ir_Digest r \<noteq> digest \<or> ir_StorageTxnID r \<noteq> txnID
                  then Inl (ErrInvalid ''delivered idempotency identity mismatch'')
                  else Inr (l0\<lparr>il_records := AList.update i (apply_delivery kind r) (il_records l0)\<rparr>)))
      else Inr l0)"

fun load_loop :: "json_codec \<Rightarrow> scannedRecord list \<Rightarrow> idem_load \<Rightarrow> graph_error + idem_load" where
  "load_loop jc [] l = Inr l"
| "load_loop jc (rec # recs) l =
     (case load_idempotency_record jc rec l of Inl e \<Rightarrow> Inl e | Inr l' \<Rightarrow> load_loop jc recs l')"

definition loadIdempotencyRecords :: "gotime \<Rightarrow> local_store \<Rightarrow> (graph_error option) \<times> local_store" where
  "loadIdempotencyRecords now s =
     (case scanSegment (cf_String (st_cfg s)) (sg_id (st_txnSeg s)) SegmentKindTxn (sg_enc (st_txnSeg s))
             (sg_bytes (st_txnSeg s)) of
        (recs, scan_error) \<Rightarrow>
          (case load_loop (st_json s) recs \<lparr>il_seen = [], il_revision = 0, il_records = []\<rparr> of
             Inl e \<Rightarrow> (Some e, s)
           | Inr l \<Rightarrow>
               (case scan_error of
                  Some e \<Rightarrow> (Some e, s)
                | None \<Rightarrow>
                    if il_revision l \<noteq> st_revision s
                    then (Some (ErrInvalid ''idempotency revision scan mismatch''), s)
                    else
                      (let s' = purgeExpiredIdempotencyRecordsLocked now (s\<lparr>st_idem := il_records l\<rparr>)
                       in if length (st_idem s') > MaxIdempotencyRecordsPerStore
                          then (Some ErrIdempotencyCapacity, s') else (None, s')))))"

end
