(* ===== verification/Store_Steps.thy ===== *)
theory Store_Steps
  imports Store_Invariant Graph_Idempotency
begin

text \<open>
  The graph store as a transition system: a step is one call of a state-changing operation, with any
  arguments, clock and outcome of its writes. Every step keeps the invariant, keeps what an older revision
  reads, and never moves a modification revision back.
\<close>

definition fresh_store :: "store_cfg \<Rightarrow> json_codec \<Rightarrow> segment \<Rightarrow> segment \<Rightarrow> segment \<Rightarrow> local_store" where
  "fresh_store cfg jc nseg eseg tseg =
     \<lparr>st_state = StoreStateReady, st_cfg = cfg, st_json = jc, st_nodeSeg = nseg, st_edgeSeg = eseg, st_txnSeg = tseg,
      st_nodes = empty_node_state, st_edges = empty_edge_state, st_indexMeta = Map.empty, st_domains = [], st_manifest = NoManifest, st_revision = 0,
      st_idem = [], st_evictions = 0\<rparr>"

inductive store_step :: "local_store \<Rightarrow> local_store \<Rightarrow> bool" where
  step_commit: "st_revision s \<noteq> - 1 \<Longrightarrow> CommitWithInfo io t s = (res, t', s') \<Longrightarrow> store_step s s'"
| step_check: "CheckIdempotencyRecord ctx r s = (out, s') \<Longrightarrow> store_step s s'"
| step_get: "GetIdempotencyRecord ctx now scope key s = (found, s') \<Longrightarrow> store_step s s'"
| step_list: "ListIdempotencyRecords ctx now s = (found, s') \<Longrightarrow> store_step s s'"
| step_restore: "RestoreIdempotencyRecords ctx now w sync_ok rs s = (err, s') \<Longrightarrow> store_step s s'"
| step_deliver: "MarkIdempotencyDelivered ctx w1 sync_ok scope key digest s = (err, s') \<Longrightarrow> store_step s s'"
| step_retain: "RetainIdempotencyUntilAcknowledged ctx w1 sync_ok scope key digest meta s = (err, s') \<Longrightarrow> store_step s s'"
| step_acknowledge:
    "MarkIdempotencyPublicationAcknowledged ctx w1 sync_ok scope key digest meta s = (err, s') \<Longrightarrow> store_step s s'"
| step_stats: "IdempotencyStats now s = (stats, s') \<Longrightarrow> store_step s s'"
| step_close: "store_step s (store_Close s)"

abbreviation store_steps :: "local_store \<Rightarrow> local_store \<Rightarrow> bool" where
  "store_steps \<equiv> store_step\<^sup>*\<^sup>*"

section \<open>Operations on idempotency records\<close>

text \<open>A step that leaves the graph alone and the idempotency records in order.\<close>

definition quiet :: "local_store \<Rightarrow> local_store \<Rightarrow> bool" where
  "quiet s s' \<longleftrightarrow> st_cfg s' = st_cfg s \<and> st_nodes s' = st_nodes s \<and> st_edges s' = st_edges s \<and>
     st_revision s' = st_revision s \<and> (idem_ok s \<longrightarrow> idem_ok s')"

lemma quiet_refl [simp]: "quiet s s"
  by (simp add: quiet_def)

lemma quiet_trans: "quiet a b \<Longrightarrow> quiet b c \<Longrightarrow> quiet a c"
  by (simp add: quiet_def)

lemma quiet_purge: "quiet s (purgeExpiredIdempotencyRecordsLocked now s)"
  using idem_ok_purged [OF purge_same(3)] by (simp add: quiet_def)

lemma quiet_segment: "quiet s (s\<lparr>st_txnSeg := sg\<rparr>)"
  by (simp add: quiet_def idem_ok_def)

lemma quiet_update:
  assumes "i = idempotencyRecordIdentity (ir_Scope r) (ir_Key r)"
    and "idem_ok s \<Longrightarrow> ir_CommittedRevision r \<le> st_revision s"
    and "idem_ok s \<Longrightarrow> map_of (st_idem s) i = None \<Longrightarrow> length (st_idem s) < MaxIdempotencyRecordsPerStore"
  shows "quiet s (s\<lparr>st_txnSeg := sg, st_idem := AList.update i r (st_idem s)\<rparr>)"
  using assms unfolding quiet_def by (auto intro: idem_ok_update)

lemma quiet_check: "CheckIdempotencyRecord ctx r s = (out, s') \<Longrightarrow> quiet s s'"
  by (auto simp: CheckIdempotencyRecord_def Let_def quiet_purge split: option.splits if_splits)

lemma quiet_get: "GetIdempotencyRecord ctx now scope key s = (out, s') \<Longrightarrow> quiet s s'"
  by (auto simp: GetIdempotencyRecord_def Let_def quiet_purge split: option.splits)

lemma quiet_list: "ListIdempotencyRecords ctx now s = (out, s') \<Longrightarrow> quiet s s'"
  by (auto simp: ListIdempotencyRecords_def Let_def quiet_purge split: option.splits)

lemma quiet_stats: "IdempotencyStats now s = (out, s') \<Longrightarrow> quiet s s'"
  by (auto simp: IdempotencyStats_def Let_def quiet_purge)

lemma quiet_close: "quiet s (store_Close s)"
  by (simp add: quiet_def store_Close_def idem_ok_def)

lemma quiet_restore_loop: "restore_loop w now i rs s = (err, s') \<Longrightarrow> quiet s s'"
proof (induction w now i rs s arbitrary: err s' rule: restore_loop.induct)
  case (2 w now i r rs s)
  have upd: "quiet s (idem_store r (s\<lparr>st_txnSeg := sg\<rparr>))"
    if "ir_CommittedRevision r \<le> st_revision s"
      "idem_lookup (ir_Scope r) (ir_Key r) s = None \<longrightarrow> length (st_idem s) < MaxIdempotencyRecordsPerStore" for sg
    using quiet_update [of _ r s sg] that by (simp add: idem_store_def idem_lookup_def)
  show ?case
  proof (cases "idempotencyRecordExpired r now")
    case True
    with 2 show ?thesis by simp
  next
    case False
    with 2(3) consider (err) "s' = s" | (seg) sg where "s' = s\<lparr>st_txnSeg := sg\<rparr>"
      | (going) sg payload loc where "validateIdempotencyRecord r = None" "ir_CommittedRevision r \<le> st_revision s"
        "idem_lookup (ir_Scope r) (ir_Key r) s = None \<longrightarrow> length (st_idem s) < MaxIdempotencyRecordsPerStore"
        "restore_loop w now (Suc i) rs (idem_store r (s\<lparr>st_txnSeg := sg\<rparr>)) = (err, s')"
        "jc_record (st_json s) r = Some payload"
        "appendRecord (cf_String (st_cfg s)) (w i) RecordKindIdempotencyRestore (ir_StorageTxnID r) 0 payload (st_txnSeg s) = (Inr loc, sg)"
        "\<not> (ir_StorageTxnID r = 0 \<or> ir_CommittedRevision r = 0 \<or> ir_CommittedRevision r > st_revision s)"
        "\<not> (case idem_lookup (ir_Scope r) (ir_Key r) s of Some existing \<Rightarrow> ir_Digest existing \<noteq> ir_Digest r | None \<Rightarrow> False)"
        "\<not> (idem_lookup (ir_Scope r) (ir_Key r) s = None \<and> length (st_idem s) \<ge> MaxIdempotencyRecordsPerStore)"
      by (auto simp: not_less not_le split: option.splits if_splits sum.splits prod.splits)
    then show ?thesis
    proof cases
      case going
      have "quiet (idem_store r (s\<lparr>st_txnSeg := sg\<rparr>)) s'"
        by (rule 2(2) [OF False going(1,7,8,9,5) going(6) [symmetric] refl going(4)])
      with upd [OF going(2,3)] show ?thesis by (rule quiet_trans)
    qed (simp_all add: quiet_segment)
  qed
qed simp

lemma quiet_restore: "RestoreIdempotencyRecords ctx now w sync_ok rs s = (err, s') \<Longrightarrow> quiet s s'"
  by (auto simp: RestoreIdempotencyRecords_def split: option.splits prod.splits
      dest!: quiet_restore_loop intro: quiet_trans quiet_purge)

lemma quiet_marker:
  assumes "write_marker w sync_ok kind (scope, key, digest) r r' s = (err, s')"
    and "idem_lookup scope key s = Some r"
    and "ir_Scope r' = ir_Scope r" "ir_Key r' = ir_Key r" "ir_CommittedRevision r' = ir_CommittedRevision r"
  shows "quiet s s'"
proof -
  have upd: "quiet s (s\<lparr>st_txnSeg := sg, st_idem := AList.update (idempotencyRecordIdentity scope key) r' (st_idem s)\<rparr>)" for sg
  proof (cases "idem_ok s")
    case True
    note l = idem_ok_lookup [OF True assms(2)]
    show ?thesis using l assms(2-5) by (intro quiet_update) (auto simp: idem_lookup_def)
  qed (simp add: quiet_def)
  from assms(1) show ?thesis
    by (auto simp: write_marker_def upd quiet_segment split: option.splits prod.splits sum.splits if_splits)
qed

lemma quiet_marks:
  "MarkIdempotencyDelivered ctx w1 sync_ok scope key digest s = (err, s') \<Longrightarrow> quiet s s'"
  "RetainIdempotencyUntilAcknowledged ctx w1 sync_ok scope key digest meta s = (err, s') \<Longrightarrow> quiet s s'"
  "MarkIdempotencyPublicationAcknowledged ctx w1 sync_ok scope key digest meta s = (err, s') \<Longrightarrow> quiet s s'"
  by (auto simp: MarkIdempotencyDelivered_def RetainIdempotencyUntilAcknowledged_def
      MarkIdempotencyPublicationAcknowledged_def split: option.splits if_splits dest!: quiet_marker)

section \<open>Commits\<close>

text \<open>\<open>applied t s s'\<close>: the transaction went through, from \<open>s\<close> to \<open>s'\<close>.\<close>

definition applied :: "localTxn \<Rightarrow> local_store \<Rightarrow> local_store \<Rightarrow> bool" where
  "applied t s s' \<longleftrightarrow>
     (\<exists>idem nlocs elocs s1. graph_same s s1 \<and> quiet s s1 \<and> \<not> invariantConflict t s1 \<and>
        length nlocs = length (tx_nodePuts t) + length (tx_nodeDeletes t) \<and>
        length elocs = length (tx_edgePuts t) + length (tx_edgeDeletes t) \<and>
        (\<forall>r. idem = Some r \<longrightarrow> idem_lookup (ir_Scope r) (ir_Key r) s1 = None \<and>
           length (st_idem s1) < MaxIdempotencyRecordsPerStore \<and> ir_CommittedRevision r = st_revision s1 + 1) \<and>
        s' = commit_apply t idem nlocs elocs s1)"

lemma conflict_cong:
  assumes "graph_same s s'"
  shows "invariantConflict t s' = invariantConflict t s" "writeSetConflict t s' = writeSetConflict t s"
proof -
  have "edge_puts_conflict t s' cc es = edge_puts_conflict t s cc es" for cc es
    using assms by (induction t s cc es rule: edge_puts_conflict.induct) (simp_all add: graph_same_def endpoint_ok_def)
  with assms show "invariantConflict t s' = invariantConflict t s" "writeSetConflict t s' = writeSetConflict t s"
    by (simp_all add: graph_same_def invariantConflict_def writeSetConflict_def node_delete_conflict_def cong: list_ex_cong
        split: option.split)
qed

lemma quiet_idempotency:
  assumes "commit_idempotency t s = (out, s1)" shows "quiet s s1"
  using commit_idempotency_same [OF assms] idem_ok_purged [of s s1] by (auto simp: quiet_def graph_same_def)

lemma commit_idempotency_new:
  assumes "commit_idempotency t s = (IdemNew (Some r), s1)"
  shows "idem_lookup (ir_Scope r) (ir_Key r) s1 = None \<and> length (st_idem s1) < MaxIdempotencyRecordsPerStore \<and>
    ir_CommittedRevision r = st_revision s1 + 1 \<and> ir_StorageTxnID r = tx_id t"
  using assms by (auto simp: commit_idempotency_def Let_def split: option.splits if_splits)

lemma commit_write_quiet:
  assumes "commit_write io t idem s = (out, s1)" shows "quiet s s1" "idem_lookup scope key s1 = idem_lookup scope key s"
  using commit_write_same [OF assms] idem_ok_same [of s s1]
  by (auto simp: quiet_def graph_same_def idem_same_def idem_lookup_def)

lemma applied_write:
  assumes ci: "commit_idempotency t s = (IdemNew idem, s1)" and cw: "commit_write io t idem s1 = (out, s2)"
    and conf: "\<not> invariantConflict t s1"
    and len: "length nlocs = length (tx_nodePuts t) + length (tx_nodeDeletes t)"
      "length elocs = length (tx_edgePuts t) + length (tx_edgeDeletes t)"
  shows "applied t s (commit_apply t idem nlocs elocs s2)"
proof -
  note si = commit_idempotency_same [OF ci] and sw = commit_write_same [OF cw]
  have "graph_same s s2" using si sw graph_same_trans by blast
  moreover have "quiet s s2"
    using quiet_idempotency [OF ci] commit_write_quiet(1) [OF cw] quiet_trans by blast
  moreover have "\<not> invariantConflict t s2" using conf conflict_cong sw by blast
  moreover have "idem_lookup (ir_Scope r) (ir_Key r) s2 = None \<and> length (st_idem s2) < MaxIdempotencyRecordsPerStore \<and>
      ir_CommittedRevision r = st_revision s2 + 1" if "idem = Some r" for r
    using commit_idempotency_new [of t s r s1] ci that sw
    by (auto simp: idem_same_def graph_same_def idem_lookup_def)
  ultimately show ?thesis unfolding applied_def using len by blast
qed

lemma commit_outcome:
  assumes "CommitWithInfo io t s = (res, t', s')"
  obtains (kept) "quiet s s'" "graph_same s s'" "\<And>info. res = Inr info \<Longrightarrow> ci_IdempotentReplay info"
    | (went) info where "applied t s s'" "res = Inr info" "\<not> ci_IdempotentReplay info" "\<not> writeSetConflict t s"
      "ci_NextRevision info = st_revision s + 1"
  using assms
proof (cases rule: CommitWithInfo_cases)
  case (failed e s1)
  then have "quiet s s'"
    using idem_ok_purged [of s s1] idem_ok_same [of s1 s'] by (auto simp: quiet_def graph_same_def)
  with failed kept show thesis by auto
next
  case (replayed info)
  have "ci_IdempotentReplay info"
    using replayed(5) by (auto simp: commit_idempotency_def Let_def split: option.splits if_splits)
  with kept quiet_idempotency [OF replayed(5)] commit_idempotency_same [OF replayed(5)] replayed(1)
  show thesis by auto
next
  case (committed idem nlocs elocs s1 s2)
  note ci = commit_idempotency_same [OF committed(5)] and cw = commit_write_same [OF committed(10)]
  have same: "graph_same s s2" using ci cw graph_same_trans by blast
  have "\<not> writeSetConflict t s" using committed(6) conflict_cong ci by blast
  moreover have "applied t s s'"
    unfolding committed(11)
    by (rule applied_write [OF committed(5,10,7) commit_write_locs [OF committed(10)]])
  moreover have "ci_NextRevision ((commit_info t s2)\<lparr>ci_Idempotency := idem\<rparr>) = st_revision s + 1"
    using same by (simp add: commit_info_def graph_same_def)
  ultimately show thesis
    using went [of "(commit_info t s2)\<lparr>ci_Idempotency := idem\<rparr>"] committed(1) \<open>\<not> writeSetConflict t s\<close>
    by (simp add: commit_info_def)
qed

lemma applied_inv:
  assumes "applied t s s'" "store_inv s" "st_revision s \<noteq> - 1" shows "store_inv s'"
proof -
  obtain idem nlocs elocs s1 where a: "graph_same s s1" "quiet s s1" "\<not> invariantConflict t s1"
    "length nlocs = length (tx_nodePuts t) + length (tx_nodeDeletes t)"
    "length elocs = length (tx_edgePuts t) + length (tx_edgeDeletes t)"
    "\<forall>r. idem = Some r \<longrightarrow> idem_lookup (ir_Scope r) (ir_Key r) s1 = None \<and>
       length (st_idem s1) < MaxIdempotencyRecordsPerStore \<and> ir_CommittedRevision r = st_revision s1 + 1"
    "s' = commit_apply t idem nlocs elocs s1"
    using assms(1) unfolding applied_def by blast
  have "store_inv s1" using store_inv_same [OF a(1) assms(2)] a(2) assms(2) by (simp add: store_inv_def quiet_def)
  moreover have "st_revision s1 \<noteq> - 1" using a(1) assms(3) by (simp add: graph_same_def)
  ultimately show ?thesis unfolding a(7) using a(3-6) by (intro commit_apply_inv) blast+
qed

lemma applied_effect:
  assumes "applied t s s'"
  shows "ns_records (st_nodes s') = committed_nodes t s" "es_records (st_edges s') = committed_edges t s"
    "st_revision s' = st_revision s + 1"
    "ns_modRev (st_nodes s') = touch (st_revision s + 1) (map n_ID (tx_nodePuts t) @ tx_nodeDeletes t) (ns_modRev (st_nodes s))"
    "es_modRev (st_edges s') = touch (st_revision s + 1) (map e_ID (tx_edgePuts t) @ tx_edgeDeletes t) (es_modRev (st_edges s))"
    "\<exists>ops. ns_history (st_nodes s') = fold (op_history n_ID (st_revision s + 1)) ops (ns_history (st_nodes s))"
    "\<exists>ops. es_history (st_edges s') = fold (op_history e_ID (st_revision s + 1)) ops (es_history (st_edges s))"
proof -
  obtain idem nlocs elocs s1 where a: "graph_same s s1"
    "length nlocs = length (tx_nodePuts t) + length (tx_nodeDeletes t)"
    "length elocs = length (tx_edgePuts t) + length (tx_edgeDeletes t)"
    "s' = commit_apply t idem nlocs elocs s1"
    using assms unfolding applied_def by blast
  then have same: "st_nodes s1 = st_nodes s" "st_edges s1 = st_edges s" "st_revision s1 = st_revision s"
    by (simp_all add: graph_same_def)
  show "ns_records (st_nodes s') = committed_nodes t s" "es_records (st_edges s') = committed_edges t s"
    unfolding a(4) commit_apply_records [OF a(2,3)] by (simp_all add: committed_nodes_def committed_edges_def same)
  show "st_revision s' = st_revision s + 1" by (simp add: a(4) commit_apply_fields same)
  show "ns_modRev (st_nodes s') = touch (st_revision s + 1) (map n_ID (tx_nodePuts t) @ tx_nodeDeletes t) (ns_modRev (st_nodes s))"
    "es_modRev (st_edges s') = touch (st_revision s + 1) (map e_ID (tx_edgePuts t) @ tx_edgeDeletes t) (es_modRev (st_edges s))"
    unfolding a(4) commit_apply_fields version_nodes_fields(1) version_edges_fields(1) apply_nodes_ops apply_edges_ops
      fold_node_op_fields fold_edge_op_fields by (simp_all add: same)
  show "\<exists>ops. ns_history (st_nodes s') = fold (op_history n_ID (st_revision s + 1)) ops (ns_history (st_nodes s))"
    "\<exists>ops. es_history (st_edges s') = fold (op_history e_ID (st_revision s + 1)) ops (es_history (st_edges s))"
    unfolding a(4) commit_apply_fields version_nodes_fields(3) [OF a(2)] version_edges_fields(3) [OF a(3)]
      apply_nodes_ops apply_edges_ops fold_node_op_fields fold_edge_op_fields same by blast+
qed

section \<open>Every step\<close>

lemma store_step_outcome:
  assumes "store_step s s'"
  obtains "quiet s s'" | t where "applied t s s'" "st_revision s \<noteq> - 1"
  using assms
proof cases
  case (step_commit io t res t')
  from step_commit(2) show thesis by (cases rule: commit_outcome) (use step_commit that in blast)+
next
  case step_close
  show thesis by (rule that(1)) (simp add: step_close quiet_close)
qed ((rule that(1), erule quiet_check quiet_get quiet_list quiet_restore quiet_marks quiet_stats)+)

lemma quiet_inv: "quiet s s' \<Longrightarrow> store_inv s \<Longrightarrow> store_inv s'"
  by (simp add: quiet_def store_inv_def)

lemma store_step_inv: "store_step s s' \<Longrightarrow> store_inv s \<Longrightarrow> store_inv s'"
  by (erule store_step_outcome) (auto intro: quiet_inv applied_inv)

text \<open>Time only goes forward, and the past stays as it was.\<close>

definition later :: "local_store \<Rightarrow> local_store \<Rightarrow> bool" where
  "later s s' \<longleftrightarrow> st_revision s \<le> st_revision s' \<and>
     (\<forall>i. ns_modRev (st_nodes s) i \<le> ns_modRev (st_nodes s') i \<and> es_modRev (st_edges s) i \<le> es_modRev (st_edges s') i) \<and>
     (\<forall>i r. r \<le> st_revision s \<longrightarrow>
        nodeAtRevision (ns_history (st_nodes s') i) r = nodeAtRevision (ns_history (st_nodes s) i) r \<and>
        edgeAtRevision (es_history (st_edges s') i) r = edgeAtRevision (es_history (st_edges s) i) r)"

lemma later_trans:
  assumes "later a b" "later b c" shows "later a c"
  unfolding later_def
proof (intro conjI allI impI)
  note ab = assms(1) [unfolded later_def] and bc = assms(2) [unfolded later_def]
  show "st_revision a \<le> st_revision c" using ab bc by (meson order_trans)
  fix i
  show "ns_modRev (st_nodes a) i \<le> ns_modRev (st_nodes c) i" using ab bc by (meson order_trans)
  show "es_modRev (st_edges a) i \<le> es_modRev (st_edges c) i" using ab bc by (meson order_trans)
  fix r assume r: "r \<le> st_revision a"
  then have "r \<le> st_revision b" using ab by (meson order_trans)
  with r ab bc show "nodeAtRevision (ns_history (st_nodes c) i) r = nodeAtRevision (ns_history (st_nodes a) i) r"
    "edgeAtRevision (es_history (st_edges c) i) r = edgeAtRevision (es_history (st_edges a) i) r" by simp_all
qed

lemma store_step_later:
  assumes "store_step s s'" "store_inv s" shows "later s s'"
  using assms(1)
proof (cases rule: store_step_outcome)
  case 1
  then show ?thesis by (simp add: later_def quiet_def)
next
  case (2 t)
  let ?rv = "st_revision s + 1"
  have lt: "st_revision s < ?rv" by (rule u64_suc) (rule 2)
  note e = applied_effect [OF 2(1)] and i = assms(2) [unfolded store_inv_def]
  obtain nops where nh: "ns_history (st_nodes s') = fold (op_history n_ID ?rv) nops (ns_history (st_nodes s))"
    using e(6) by blast
  obtain eops where eh: "es_history (st_edges s') = fold (op_history e_ID ?rv) eops (es_history (st_edges s))"
    using e(7) by blast
  have "ns_modRev (st_nodes s) j \<le> ?rv" "es_modRev (st_edges s) j \<le> ?rv" for j
    using i lt by (meson order_less_imp_le order_trans)+
  then have "\<forall>j. ns_modRev (st_nodes s) j \<le> ns_modRev (st_nodes s') j \<and> es_modRev (st_edges s) j \<le> es_modRev (st_edges s') j"
    unfolding e by (simp add: touch_def)
  moreover have "nodeAtRevision (ns_history (st_nodes s') j) r = nodeAtRevision (ns_history (st_nodes s) j) r \<and>
      edgeAtRevision (es_history (st_edges s') j) r = edgeAtRevision (es_history (st_edges s) j) r"
    if "r \<le> st_revision s" for j r
    unfolding nodeAtRevision_def edgeAtRevision_def nh eh
    using history_ok_commit(2) [OF _ lt that] i by metis
  ultimately show ?thesis using lt e(3) by (simp add: later_def less_imp_le)
qed

lemma store_steps_ok:
  assumes "store_steps s s'" "store_inv s" shows "store_inv s' \<and> later s s'"
  using assms
proof (induction rule: rtranclp_induct)
  case base
  then show ?case by (simp add: later_def)
next
  case (step y z)
  then show ?case using store_step_inv store_step_later later_trans by blast
qed

lemma fresh_store_inv: "store_inv (fresh_store cfg jc nseg eseg tseg)"
  unfolding store_inv_def fresh_store_def
  using node_indexes_ok_empty edge_index_ok_empty
  by (simp add: anchored_def parents_ok_def contains_edge_def children_ok_def children_of_def history_ok_def
      versions_sorted_def latest_def idem_ok_def empty_edge_state_def empty_node_state_def)

end
