(* ===== verification/Txn_Properties.thy ===== *)
theory Txn_Properties
  imports Store_Steps Storage_Properties
begin

text \<open>
  The properties of the graph store's transactions: the invariant of every reachable store, atomicity,
  write-set conflicts, idempotent retries, and when a commit is bound to succeed.
\<close>

section \<open>A sample store\<close>

definition sample_cfg :: store_cfg where
  "sample_cfg = \<lparr>cf_String = uuid_plain, cf_Parse = (\<lambda>_. None), cf_Indexes = (\<lambda>_. [])\<rparr>"

definition sample_json :: json_codec where
  "sample_json = \<lparr>jc_commit = (\<lambda>_. Some [123, 125]), jc_uncommit = (\<lambda>_. Some None), jc_record = (\<lambda>_. Some [123, 125]),
     jc_unrecord = (\<lambda>_. None), jc_delivery = (\<lambda>_. Some [123, 125]), jc_undelivery = (\<lambda>_. None)\<rparr>"

definition plain_segment :: "string \<Rightarrow> byte \<Rightarrow> segment" where
  "plain_segment name kind = \<lparr>sg_id = name, sg_kind = kind, sg_bytes = segment_header kind, sg_enc = None\<rparr>"

definition sample_store :: local_store where
  "sample_store = fresh_store sample_cfg sample_json (plain_segment ''nodes'' SegmentKindNode)
     (plain_segment ''edges'' SegmentKindEdge) (plain_segment ''txns'' SegmentKindTxn)"

definition good_io :: commit_io where
  "good_io = \<lparr>io_txnBegin = WroteAll, io_nodes = (\<lambda>_. WroteAll), io_edges = (\<lambda>_. WroteAll), io_nodeSync = True,
     io_edgeSync = True, io_txnCommit = WroteAll, io_txnSync = True\<rparr>"

definition small_node :: "node_id \<Rightarrow> node" where
  "small_node i = zero_node\<lparr>n_ID := i, n_DomainID := 1, n_CreatedAt := AtNano 1577836800000000000\<rparr>"

definition small_edge :: "edge_id \<Rightarrow> node_id \<Rightarrow> node_id \<Rightarrow> edge" where
  "small_edge i a b = \<lparr>e_ID = i, e_DomainID = 1, e_FromID = a, e_ToID = b, e_Labels = [''contains''], e_Properties = [],
     e_Payload = [], e_Meta = [], e_CreatedAt = ZeroTime, e_UpdatedAt = ZeroTime\<rparr>"

definition small_idem :: IdempotencyRecord where
  "small_idem = \<lparr>ir_Scope = ''u'', ir_Key = ''k'', ir_Digest = ''d'', ir_Metadata = [], ir_StorageTxnID = 0,
     ir_CommittedRevision = 0, ir_CommittedAt = AtNano 5, ir_ExpiresAt = AtNano 9, ir_Delivered = False,
     ir_RetainUntilAcknowledged = False, ir_PublicationAcknowledged = False\<rparr>"

text \<open>Two nodes and an edge that puts the second under the first.\<close>

definition sample_txn :: localTxn where
  "sample_txn = \<lparr>tx_id = 77, tx_nodePuts = [small_node 1, small_node 2], tx_nodeDeletes = [],
     tx_edgePuts = [small_edge 3 1 2], tx_edgeDeletes = [], tx_expected = Some 0, tx_hook = None,
     tx_idem = Some small_idem, tx_closed = False\<rparr>"

section \<open>When a commit succeeds\<close>

definition seals :: "(uuid \<Rightarrow> string) \<Rightarrow> segment \<Rightarrow> bool" where
  "seals us sg \<longleftrightarrow> (\<forall>kind txn entity p. encryptPayload us sg kind txn entity p \<noteq> None)"

lemma seals_bytes: "seals us (sg\<lparr>sg_bytes := b\<rparr>) \<longleftrightarrow> seals us sg"
  by (simp add: seals_def encryptPayload_def cong: option.case_cong if_cong)

lemma append_seals:
  assumes "seals us sg"
  shows "\<exists>loc sg'. appendRecord us WroteAll kind txn entity p sg = (Inr loc, sg') \<and> seals us sg'"
proof -
  obtain q where "encryptPayload us sg kind txn entity p = Some q" using assms unfolding seals_def by (meson not_None_eq)
  then show ?thesis using assms by (simp add: appendRecord_def seals_bytes)
qed

lemma append_items_seals:
  assumes "seals us sg" "\<And>i. w i = WroteAll" "\<forall>it \<in> set items. \<exists>kind entity bs. it = (kind, entity, Inr bs)"
  shows "\<exists>locs sg'. append_items us w txn i items sg = (Inr locs, sg') \<and> seals us sg'"
  using assms(1,3)
proof (induction items arbitrary: i sg)
  case (Cons it items)
  obtain kind entity bs where it: "it = (kind, entity, Inr bs)" using Cons.prems(2) by auto
  obtain loc sg1 where a: "appendRecord us WroteAll kind txn entity bs sg = (Inr loc, sg1)" "seals us sg1"
    using append_seals [OF Cons.prems(1)] by blast
  obtain locs sg2 where "append_items us w txn (Suc i) items sg1 = (Inr locs, sg2)" "seals us sg2"
    using Cons.IH [OF a(2), of "Suc i"] Cons.prems(2) by auto
  with a it assms(2) [of i] show ?case by simp
qed simp

definition io_good :: "commit_io \<Rightarrow> bool" where
  "io_good io \<longleftrightarrow> io_txnBegin io = WroteAll \<and> (\<forall>i. io_nodes io i = WroteAll) \<and> (\<forall>i. io_edges io i = WroteAll) \<and>
     io_nodeSync io \<and> io_edgeSync io \<and> io_txnCommit io = WroteAll \<and> io_txnSync io"

definition encodable :: "localTxn \<Rightarrow> bool" where
  "encodable t \<longleftrightarrow> (\<forall>n \<in> set (tx_nodePuts t). \<exists>bs. encodeNode n = Inr bs) \<and>
     (\<forall>e \<in> set (tx_edgePuts t). \<exists>bs. encodeEdge e = Inr bs)"

lemma commit_write_succeeds:
  assumes "io_good io" "encodable t" "commit_payload (st_json s) idem \<noteq> None"
    and "\<And>h. tx_hook t = Some h \<Longrightarrow> h (commit_info t s) = None"
    and "\<forall>sg \<in> {st_nodeSeg s, st_edgeSeg s, st_txnSeg s}. seals (cf_String (st_cfg s)) sg"
  shows "\<exists>locs s'. commit_write io t idem s = (Inr locs, s')"
proof -
  let ?us = "cf_String (st_cfg s)"
  obtain loc sg where a: "appendRecord ?us WroteAll RecordKindTxnBegin (tx_id t) 0 [] (st_txnSeg s) = (Inr loc, sg)"
    "seals ?us sg" using append_seals assms(5) by blast
  have items: "\<forall>it \<in> set (node_items t). \<exists>kind entity bs. it = (kind, entity, Inr bs)"
    "\<forall>it \<in> set (edge_items t). \<exists>kind entity bs. it = (kind, entity, Inr bs)"
    using assms(2) by (auto simp: node_items_def edge_items_def encodable_def)
  have w: "\<And>i. io_nodes io i = WroteAll" "\<And>i. io_edges io i = WroteAll" using assms(1) by (simp_all add: io_good_def)
  have sl: "seals ?us (st_nodeSeg s)" "seals ?us (st_edgeSeg s)" using assms(5) by auto
  obtain nl ng where n: "append_items ?us (io_nodes io) (tx_id t) 0 (node_items t) (st_nodeSeg s) = (Inr nl, ng)"
    using append_items_seals [where w = "io_nodes io", OF sl(1) w(1) items(1)] by blast
  obtain el eg where e: "append_items ?us (io_edges io) (tx_id t) 0 (edge_items t) (st_edgeSeg s) = (Inr el, eg)"
    using append_items_seals [where w = "io_edges io", OF sl(2) w(2) items(2)] by blast
  obtain p where p: "commit_payload (st_json s) idem = Some p" using assms(3) by auto
  obtain loc' sg' where c: "appendRecord ?us WroteAll RecordKindTxnCommit (tx_id t) 0 p sg = (Inr loc', sg')"
    using append_seals [OF a(2)] by blast
  have h: "(case tx_hook t of None \<Rightarrow> None | Some h \<Rightarrow> h (commit_info t
      (s\<lparr>st_txnSeg := sg, st_nodeSeg := ng, st_edgeSeg := eg\<rparr>))) = None"
    using assms(4) by (auto simp: commit_info_def split: option.split)
  show ?thesis using assms(1) a n e p c h by (simp add: commit_write_def Let_def io_good_def syncDataSegments_def)
qed


lemma commit_goes_through:
  assumes "\<not> tx_closed t" "st_state s = StoreStateReady"
    and "commit_idempotency t s = (IdemNew idem, s1)"
    and "\<forall>base. tx_expected t = Some base \<longrightarrow> base \<le> st_revision s"
    and "\<not> writeSetConflict t s" "\<not> invariantConflict t s" "commit_validates t s" "encodable t"
    and "commit_payload (st_json s) idem \<noteq> None"
    and "\<forall>h. tx_hook t = Some h \<longrightarrow> h (commit_info t s) = None"
    and "\<forall>sg \<in> {st_nodeSeg s, st_edgeSeg s, st_txnSeg s}. seals (cf_String (st_cfg s)) sg" "io_good io"
  shows "\<exists>info s'. CommitWithInfo io t s = (Inr info, t\<lparr>tx_closed := True\<rparr>, s') \<and>
    \<not> ci_IdempotentReplay info \<and> ci_NextRevision info = st_revision s + 1 \<and> applied t s s'"
proof -
  have same: "graph_same s s1" "segments_same s s1" using commit_idempotency_same [OF assms(3)] by blast+
  have ready: "ensureReady s = None" using assms(2) by (simp add: ensureReady_def)
  have info: "commit_info t s1 = commit_info t s" using same by (simp add: commit_info_def graph_same_def)
  obtain locs s2 where cw: "commit_write io t idem s1 = (Inr locs, s2)"
    using commit_write_succeeds [OF assms(12,8), of s1 idem] assms(9-11) same info
    by (auto simp: graph_same_def segments_same_def)
  obtain nl el where locs: "locs = (nl, el)" by (cases locs)
  have v: "commit_validates t s1" "(case tx_expected t of Some base \<Rightarrow> base > st_revision s1 | None \<Rightarrow> False) = False"
    using assms(4,7) same(1) by (auto simp: commit_validates_def graph_same_def not_less split: option.split)
  have c: "CommitWithInfo io t s = (Inr ((commit_info t s2)\<lparr>ci_Idempotency := idem\<rparr>), t\<lparr>tx_closed := True\<rparr>,
      commit_apply t idem nl el s2)"
    using assms(1,5,6) ready v conflict_cong [OF same(1)] by (simp add: CommitWithInfo_def assms(3) cw locs)
  moreover from c have "applied t s (commit_apply t idem nl el s2)"
    by (rule commit_outcome) (auto simp: commit_info_def)
  moreover have "st_revision s2 = st_revision s"
    using same(1) commit_write_same [OF cw] by (simp add: graph_same_def)
  ultimately show ?thesis by (simp add: commit_info_def)
qed

lemma small_encodes: "\<exists>bs. encodeNode (small_node i) = Inr bs" "\<exists>bs. encodeEdge (small_edge i a b) = Inr bs"
  by (simp_all add: encodeNode_def encodeEdge_def small_node_def small_edge_def zero_node_def writeMap_def
      put_entries_def writeBlobRef_def)

lemma sample_encodable: "encodable sample_txn"
  using small_encodes by (simp add: encodable_def sample_txn_def)

lemma sample_io: "io_good good_io"
  by (simp add: io_good_def good_io_def)

lemma sample_seals: "seals us (plain_segment name kind)"
  by (simp add: seals_def encryptPayload_def plain_segment_def)

lemma small_contains: "is_contains (small_edge i a b)"
  by (simp add: is_contains_def EdgeHasLabels_def small_edge_def)

lemma sample_no_conflict: "\<not> invariantConflict sample_txn sample_store" "\<not> writeSetConflict sample_txn sample_store"
  "commit_validates sample_txn sample_store"
proof -
  show "\<not> invariantConflict sample_txn sample_store"
    by (simp add: invariantConflict_def sample_txn_def sample_store_def fresh_store_def endpoint_ok_def small_contains
        empty_edge_state_def) (simp add: small_edge_def small_node_def)
  show "\<not> writeSetConflict sample_txn sample_store"
    by (simp add: writeSetConflict_def sample_txn_def sample_store_def fresh_store_def empty_node_state_def
        empty_edge_state_def)
  show "commit_validates sample_txn sample_store"
    by (simp add: commit_validates_def sample_txn_def sample_store_def fresh_store_def sample_cfg_def
        validateNodeIndexes_def validateEdgeIndexes_def)
qed

lemma sample_idempotency:
  "\<exists>idem s1. commit_idempotency sample_txn sample_store = (IdemNew (Some idem), s1)"
  by (simp add: commit_idempotency_def sample_txn_def validateIdempotencyRecord_def small_idem_def TrimSpace_plain
      plain_char_def sample_store_def fresh_store_def purgeExpiredIdempotencyRecordsLocked_def
      idem_lookup_def MaxIdempotencyRecordsPerStore_def Let_def)

lemma sample_ready:
  "commit_payload (st_json sample_store) (Some idem) \<noteq> None"
  "\<forall>sg \<in> {st_nodeSeg sample_store, st_edgeSeg sample_store, st_txnSeg sample_store}.
      seals (cf_String (st_cfg sample_store)) sg"
  "\<not> tx_closed sample_txn" "st_state sample_store = StoreStateReady" "st_revision sample_store = 0"
  "\<forall>base. tx_expected sample_txn = Some base \<longrightarrow> base \<le> st_revision sample_store"
  "\<forall>h. tx_hook sample_txn = Some h \<longrightarrow> h (commit_info sample_txn sample_store) = None"
  by (simp_all add: sample_txn_def commit_payload_def sample_store_def fresh_store_def sample_json_def sample_seals)

lemma sample_committed:
  "committed_nodes sample_txn sample_store 2 = Some (small_node 2)"
  "committed_edges sample_txn sample_store 3 = Some (small_edge 3 1 2)"
  by (simp_all add: committed_nodes_def committed_edges_def commit_records_Some put_map_def sample_txn_def
      small_node_def small_edge_def)

text \<open>The sample transaction goes through.\<close>

lemma sample_commit:
  obtains info s where "CommitWithInfo good_io sample_txn sample_store = (Inr info, sample_txn\<lparr>tx_closed := True\<rparr>, s)"
    "\<not> ci_IdempotentReplay info" "ci_NextRevision info = 1" "applied sample_txn sample_store s"
proof -
  obtain idem s1 where ci: "commit_idempotency sample_txn sample_store = (IdemNew (Some idem), s1)"
    using sample_idempotency by blast
  from commit_goes_through [OF sample_ready(3,4) ci sample_ready(6) sample_no_conflict(2,1,3) sample_encodable
      sample_ready(1,7,2) sample_io] that sample_ready(5) show thesis by auto
qed

text \<open>
  C9. A commit whose transaction is open, whose store is ready, that conflicts with nothing and whose
  entities can be indexed and encoded succeeds when its writes and syncs do: it returns the next revision
  and the graph becomes the old one with the puts and then the deletions of the transaction.
\<close>

theorem commit_succeeds:
  assumes "\<not> tx_closed t" "st_state s = StoreStateReady"
    and "commit_idempotency t s = (IdemNew idem, s1)"
    and "\<forall>base. tx_expected t = Some base \<longrightarrow> base \<le> st_revision s"
    and "\<not> writeSetConflict t s" "\<not> invariantConflict t s" "commit_validates t s" "encodable t"
    and "commit_payload (st_json s) idem \<noteq> None"
    and "\<forall>h. tx_hook t = Some h \<longrightarrow> h (commit_info t s) = None"
    and "\<forall>sg \<in> {st_nodeSeg s, st_edgeSeg s, st_txnSeg s}. seals (cf_String (st_cfg s)) sg" "io_good io"
  shows "\<exists>info s'. CommitWithInfo io t s = (Inr info, t\<lparr>tx_closed := True\<rparr>, s') \<and>
    \<not> ci_IdempotentReplay info \<and> ci_NextRevision info = st_revision s + 1 \<and> st_revision s' = st_revision s + 1 \<and>
    ns_records (st_nodes s') = committed_nodes t s \<and> es_records (st_edges s') = committed_edges t s"
  using commit_goes_through [OF assms] applied_effect(1-3) by blast

theorem commit_succeeds_witness:
  "\<exists>info s'. CommitWithInfo good_io sample_txn sample_store = (Inr info, sample_txn\<lparr>tx_closed := True\<rparr>, s') \<and>
    \<not> ci_IdempotentReplay info \<and> ci_NextRevision info = 1 \<and> st_revision s' = 1 \<and>
    ns_records (st_nodes s') 2 = Some (small_node 2) \<and> es_records (st_edges s') 3 = Some (small_edge 3 1 2)"
proof -
  obtain idem s1 where ci: "commit_idempotency sample_txn sample_store = (IdemNew (Some idem), s1)"
    using sample_idempotency by blast
  from commit_succeeds [OF sample_ready(3,4) ci sample_ready(6) sample_no_conflict(2,1,3) sample_encodable
      sample_ready(1,7,2) sample_io] sample_ready(5) sample_committed show ?thesis by auto
qed

section \<open>All or nothing\<close>

text \<open>
  C2. A commit that returns an error leaves the transaction and the graph as they were: nodes, edges, their
  indexes and histories, index metadata and the revision. A commit that returns closes the transaction and
  either answers a replayed request, changing nothing, or applies everything: the node and edge maps are the
  old ones with all puts and then all deletions, the revision is one higher and is the one reported, and
  exactly the written entities carry it as their modification revision.
\<close>

theorem commit_all_or_nothing:
  assumes "CommitWithInfo io t s = (res, t', s')"
  shows "case res of
      Inl e \<Rightarrow> t' = t \<and> graph_same s s'
    | Inr info \<Rightarrow> t' = t\<lparr>tx_closed := True\<rparr> \<and>
        (if ci_IdempotentReplay info then graph_same s s'
         else ns_records (st_nodes s') = committed_nodes t s \<and> es_records (st_edges s') = committed_edges t s \<and>
           st_revision s' = st_revision s + 1 \<and> ci_NextRevision info = st_revision s' \<and>
           (\<forall>i. ns_modRev (st_nodes s') i =
              (if i \<in> n_ID ` set (tx_nodePuts t) \<union> set (tx_nodeDeletes t) then st_revision s' else ns_modRev (st_nodes s) i)) \<and>
           (\<forall>i. es_modRev (st_edges s') i =
              (if i \<in> e_ID ` set (tx_edgePuts t) \<union> set (tx_edgeDeletes t) then st_revision s' else es_modRev (st_edges s) i)))"
proof -
  have closing: "t' = (case res of Inl e \<Rightarrow> t | Inr info \<Rightarrow> t\<lparr>tx_closed := True\<rparr>)"
    using assms by (cases rule: CommitWithInfo_cases) auto
  have failing: "graph_same s s'" if "res = Inl e" for e
    using assms by (cases rule: CommitWithInfo_cases) (auto simp: that)
  from assms show ?thesis
  proof (cases rule: commit_outcome)
    case kept
    with closing failing show ?thesis by (auto split: sum.split)
  next
    case (went info)
    with closing applied_effect(1-5) [OF went(1)] show ?thesis by (auto simp: touch_def)
  qed
qed

theorem commit_all_or_nothing_witness:
  "\<exists>info s'. CommitWithInfo good_io sample_txn sample_store = (Inr info, sample_txn\<lparr>tx_closed := True\<rparr>, s') \<and>
    ns_modRev (st_nodes s') 1 = 1 \<and> ns_modRev (st_nodes s') 5 = 0 \<and> es_modRev (st_edges s') 3 = 1"
proof -
  obtain info s where c: "CommitWithInfo good_io sample_txn sample_store = (Inr info, sample_txn\<lparr>tx_closed := True\<rparr>, s)"
    "\<not> ci_IdempotentReplay info" "ci_NextRevision info = 1" by (rule sample_commit)
  have "n_ID ` set (tx_nodePuts sample_txn) \<union> set (tx_nodeDeletes sample_txn) = {1, 2}"
    "e_ID ` set (tx_edgePuts sample_txn) \<union> set (tx_edgeDeletes sample_txn) = {3}"
    "ns_modRev (st_nodes sample_store) 5 = 0"
    by (simp_all add: sample_txn_def small_node_def small_edge_def sample_store_def fresh_store_def empty_node_state_def)
  with c commit_all_or_nothing [OF c(1)] show ?thesis by auto
qed

section \<open>Reachable stores\<close>

text \<open>
  C1. Whatever transactions are committed and whatever idempotency operations run, in any order and with any
  failures of their writes, the store stays well formed: every edge has both endpoints, the label, tag,
  domain, journal and blob indexes and the endpoint index answer with exactly the stored entities, every
  child has the one parent its containment edge names and the children of a node are its containment edges
  in order, the histories end in the live records, no modification revision is ahead of the store, and the
  idempotency records are filed under their own identity, within capacity, at past revisions.
\<close>

theorem reachable_store_ok:
  assumes "store_steps (fresh_store cfg jc nseg eseg tseg) s"
  shows "store_inv s"
  using store_steps_ok [OF assms fresh_store_inv] by blast

lemma sample_step:
  assumes "CommitWithInfo good_io sample_txn sample_store = (res, t', s)" shows "store_steps sample_store s"
  using step_commit [OF _ assms] sample_ready(5) by auto

theorem reachable_store_ok_witness:
  "\<exists>s. store_steps sample_store s \<and> store_inv s \<and> es_records (st_edges s) 3 = Some (small_edge 3 1 2) \<and>
    es_parent (st_edges s) 2 = Some 3"
proof -
  obtain info s where c: "CommitWithInfo good_io sample_txn sample_store = (Inr info, sample_txn\<lparr>tx_closed := True\<rparr>, s)"
    "applied sample_txn sample_store s" by (rule sample_commit)
  have inv: "store_inv s"
    using sample_step [OF c(1)] unfolding sample_store_def by (rule reachable_store_ok)
  have e: "es_records (st_edges s) 3 = Some (small_edge 3 1 2)"
    using applied_effect(2) [OF c(2)] sample_committed by simp
  then have "contains_edge (es_records (st_edges s)) 1 3 2"
    by (simp add: contains_edge_def small_contains) (simp add: small_edge_def)
  then have "es_parent (st_edges s) 2 = Some 3" using inv by (auto simp: store_inv_def parents_ok_def)
  with inv e sample_step [OF c(1)] show ?thesis by blast
qed

section \<open>Conflicts\<close>

definition tx_writes_nodes :: "localTxn \<Rightarrow> node_id set" where
  "tx_writes_nodes t = n_ID ` set (tx_nodePuts t) \<union> set (tx_nodeDeletes t)"

definition tx_writes_edges :: "localTxn \<Rightarrow> edge_id set" where
  "tx_writes_edges t = e_ID ` set (tx_edgePuts t) \<union> set (tx_edgeDeletes t)"

lemma writeSetConflict_iff:
  "writeSetConflict u s \<longleftrightarrow> (\<exists>base. tx_expected u = Some base \<and>
     ((\<exists>i \<in> tx_writes_nodes u. base < ns_modRev (st_nodes s) i) \<or>
      (\<exists>i \<in> tx_writes_edges u. base < es_modRev (st_edges s) i)))"
  by (auto simp: writeSetConflict_def tx_writes_nodes_def tx_writes_edges_def list_ex_iff split: option.split)

text \<open>
  C10. The first committer wins: when a transaction based on the revision before another commit writes a node
  or an edge that commit wrote, it applies nothing, however much happened in between; without an idempotency
  key on an open transaction of a ready store it gets the conflict error.
\<close>

theorem first_committer_wins:
  assumes "store_inv s" "st_revision s \<noteq> - 1"
    and "CommitWithInfo io t s = (Inr info, t', s1)" "\<not> ci_IdempotentReplay info"
    and "store_steps s1 s2"
    and "tx_expected u = Some base" "base \<le> st_revision s"
    and "tx_writes_nodes t \<inter> tx_writes_nodes u \<noteq> {} \<or> tx_writes_edges t \<inter> tx_writes_edges u \<noteq> {}"
    and "CommitWithInfo io' u s2 = (res, u', s3)"
  shows "graph_same s2 s3 \<and>
    (tx_idem u = None \<and> \<not> tx_closed u \<and> st_state s2 = StoreStateReady \<longrightarrow> res = Inl ErrConflict)"
proof -
  let ?rv = "st_revision s + 1"
  have lt: "base < ?rv" using u64_suc [OF assms(2)] assms(7) by simp
  have app: "applied t s s1" using assms(3,4) by (auto elim: commit_outcome)
  have later: "later s1 s2"
    using store_steps_ok [OF assms(5)] applied_inv [OF app assms(1,2)] by blast
  have n: "base < ns_modRev (st_nodes s2) i" if "i \<in> tx_writes_nodes t" for i
  proof -
    have "ns_modRev (st_nodes s1) i = ?rv"
      using that applied_effect(4) [OF app] by (auto simp: touch_def tx_writes_nodes_def)
    moreover have "ns_modRev (st_nodes s1) i \<le> ns_modRev (st_nodes s2) i" using later by (simp add: later_def)
    ultimately show ?thesis using lt by simp
  qed
  have e: "base < es_modRev (st_edges s2) i" if "i \<in> tx_writes_edges t" for i
  proof -
    have "es_modRev (st_edges s1) i = ?rv"
      using that applied_effect(5) [OF app] by (auto simp: touch_def tx_writes_edges_def)
    moreover have "es_modRev (st_edges s1) i \<le> es_modRev (st_edges s2) i" using later by (simp add: later_def)
    ultimately show ?thesis using lt by simp
  qed
  have conf: "writeSetConflict u s2" unfolding writeSetConflict_iff using assms(6,8) n e by blast
  then have "graph_same s2 s3" using assms(9) by (auto elim: commit_outcome)
  moreover have "res = Inl ErrConflict" if "tx_idem u = None" "\<not> tx_closed u" "st_state s2 = StoreStateReady"
    using assms(9) that conf by (auto simp: CommitWithInfo_def ensureReady_def commit_idempotency_def split: if_splits)
  ultimately show ?thesis by blast
qed

definition sample_rival :: localTxn where
  "sample_rival = \<lparr>tx_id = 78, tx_nodePuts = [], tx_nodeDeletes = [2], tx_edgePuts = [], tx_edgeDeletes = [3],
     tx_expected = Some 0, tx_hook = None, tx_idem = None, tx_closed = False\<rparr>"

lemma commit_keeps_state: "CommitWithInfo io t s = (res, t', s') \<Longrightarrow> st_state s' = st_state s \<and> st_cfg s' = st_cfg s"
proof (erule CommitWithInfo_cases)
  fix idem nlocs elocs s1 s2
  assume "commit_idempotency t s = (IdemNew idem, s1)" "commit_write io t idem s1 = (Inr (nlocs, elocs), s2)"
    "s' = commit_apply t idem nlocs elocs s2"
  then show ?thesis
    using commit_idempotency_same [of t s "IdemNew idem" s1] commit_write_same [of io t idem s1 _ s2]
    by (simp add: graph_same_def commit_apply_fields)
next
  fix info assume "commit_idempotency t s = (IdemReplay info, s')"
  then show ?thesis using commit_idempotency_same by (auto simp: graph_same_def)
qed (simp add: graph_same_def)

theorem first_committer_wins_witness:
  "\<exists>s u' s3. store_steps sample_store s \<and> CommitWithInfo good_io sample_rival s = (Inl ErrConflict, u', s3)"
proof -
  obtain info s where c: "CommitWithInfo good_io sample_txn sample_store = (Inr info, sample_txn\<lparr>tx_closed := True\<rparr>, s)"
    "\<not> ci_IdempotentReplay info" by (rule sample_commit)
  have inv: "store_inv sample_store" unfolding sample_store_def by (rule fresh_store_inv)
  have "tx_writes_nodes sample_txn \<inter> tx_writes_nodes sample_rival \<noteq> {}"
    by (simp add: tx_writes_nodes_def sample_txn_def sample_rival_def small_node_def)
  moreover have "tx_expected sample_rival = Some 0" "tx_idem sample_rival = None" "\<not> tx_closed sample_rival"
    by (simp_all add: sample_rival_def)
  moreover have "st_state s = StoreStateReady" using commit_keeps_state [OF c(1)] sample_ready(4) by simp
  moreover obtain res u' s3 where "CommitWithInfo good_io sample_rival s = (res, u', s3)" by (rule prod_cases3)
  ultimately show ?thesis
    using first_committer_wins [OF inv _ c, of s sample_rival 0] sample_ready(5) sample_step [OF c(1)] by auto
qed

section \<open>Retries\<close>

lemma map_of_filter_first: "map_of xs k = Some v \<Longrightarrow> P (k, v) \<Longrightarrow> map_of (filter P xs) k = Some v"
  by (induction xs) (auto split: if_splits)

text \<open>
  C13. A retry of a committed request under the same idempotency key, before the record expires, is answered
  with the transaction and revision of the first commit and changes nothing, even if it carries other
  changes or an outdated base revision; under the same key with another digest it is refused.
\<close>

theorem retry_is_replayed:
  assumes "CommitWithInfo io t s = (Inr info, t', s')" "\<not> ci_IdempotentReplay info"
    and "tx_idem t = Some r" "tx_idem u = Some q" "ir_Scope q = ir_Scope r" "ir_Key q = ir_Key r"
    and "validateIdempotencyRecord q = None" "\<not> idempotencyRecordExpired r (ir_CommittedAt q)" "\<not> tx_closed u"
    and "CommitWithInfo io' u s' = (res, u', s2)"
  shows "graph_same s' s2 \<and>
    (if ir_Digest q = ir_Digest r
     then (\<exists>info2. res = Inr info2 \<and> ci_IdempotentReplay info2 \<and> ci_TxnID info2 = tx_id t \<and>
            ci_NextRevision info2 = ci_NextRevision info) \<and> u' = u\<lparr>tx_closed := True\<rparr>
     else res = Inl ErrIdempotencyConflict \<and> u' = u)"
  using assms(1)
proof (cases rule: CommitWithInfo_cases)
  case (committed idem nlocs elocs s1 s3)
  note cw = commit_write_same [OF committed(10)] and ci = commit_idempotency_same [OF committed(5)]
  let ?r = "r\<lparr>ir_StorageTxnID := tx_id t, ir_CommittedRevision := st_revision s1 + 1\<rparr>"
  let ?i = "idempotencyRecordIdentity (ir_Scope r) (ir_Key r)"
  have idem: "idem = Some ?r"
    using committed(5) assms(3) by (auto simp: commit_idempotency_def Let_def split: option.splits if_splits)
  have "map_of (st_idem s') ?i = Some ?r"
    by (simp add: committed(11) commit_apply_fields idem update_conv)
  moreover have "\<not> idempotencyRecordExpired ?r (ir_CommittedAt q)" using assms(8) by (simp add: idempotencyRecordExpired_def cong: if_cong)
  ultimately have look: "idem_lookup (ir_Scope q) (ir_Key q) (purgeExpiredIdempotencyRecordsLocked (ir_CommittedAt q) s') = Some ?r"
    by (simp add: idem_lookup_def purgeExpiredIdempotencyRecordsLocked_def map_of_filter_first assms(5,6))
  have ready: "ensureReady s' = None"
    using committed(4) commit_keeps_state [OF assms(1)] by (simp add: ensureReady_def split: if_splits)
  have rev: "ci_NextRevision info = st_revision s1 + 1"
    using committed(1) cw by (simp add: commit_info_def graph_same_def)
  have "commit_idempotency u s' =
      (if ir_Digest ?r \<noteq> ir_Digest q then IdemError ErrIdempotencyConflict
       else IdemReplay \<lparr>ci_TxnID = tx_id t, ci_NextRevision = st_revision s1 + 1, ci_Idempotency = Some ?r,
         ci_IdempotentReplay = True\<rparr>, purgeExpiredIdempotencyRecordsLocked (ir_CommittedAt q) s')"
    by (simp add: commit_idempotency_def assms(4,7) look Let_def)
  with assms(9,10) ready rev purge_same(1) show ?thesis by (auto simp: CommitWithInfo_def split: if_splits)
qed (use assms(2) in \<open>auto simp: commit_idempotency_def Let_def split: option.splits if_splits\<close>)

definition sample_retry :: localTxn where
  "sample_retry = sample_rival\<lparr>tx_idem := Some (small_idem\<lparr>ir_CommittedAt := AtNano 7\<rparr>)\<rparr>"

theorem retry_is_replayed_witness:
  "\<exists>s info2 u' s2. store_steps sample_store s \<and> CommitWithInfo good_io sample_retry s = (Inr info2, u', s2) \<and>
    graph_same s s2 \<and> ci_IdempotentReplay info2 \<and> ci_TxnID info2 = 77 \<and> ci_NextRevision info2 = 1"
proof -
  obtain info s where c: "CommitWithInfo good_io sample_txn sample_store = (Inr info, sample_txn\<lparr>tx_closed := True\<rparr>, s)"
    "\<not> ci_IdempotentReplay info" "ci_NextRevision info = 1" by (rule sample_commit)
  let ?q = "small_idem\<lparr>ir_CommittedAt := AtNano 7\<rparr>"
  have t: "tx_idem sample_txn = Some small_idem" "tx_id sample_txn = 77" "tx_idem sample_retry = Some ?q"
    "\<not> tx_closed sample_retry"
    by (simp_all add: sample_txn_def sample_retry_def sample_rival_def)
  have q: "ir_Scope ?q = ir_Scope small_idem" "ir_Key ?q = ir_Key small_idem" "ir_Digest ?q = ir_Digest small_idem"
    "validateIdempotencyRecord ?q = None" "\<not> idempotencyRecordExpired small_idem (ir_CommittedAt ?q)"
    by (simp_all add: small_idem_def validateIdempotencyRecord_def idempotencyRecordExpired_def TrimSpace_plain plain_char_def)
  obtain res u' s2 where "CommitWithInfo good_io sample_retry s = (res, u', s2)" by (rule prod_cases3)
  with retry_is_replayed [OF c(1,2) t(1,3) q(1,2,4,5) t(4) this] sample_step [OF c(1)] c(3) t(2) q(3)
  show ?thesis by auto
qed

section \<open>Index progress\<close>

lemma markReady_meta:
  "st_indexMeta (markReadyIndexesIndexedThrough rv ds s) k = (case st_indexMeta s k of
       None \<Rightarrow> None
     | Some m \<Rightarrow> Some (if im_BuildState m = IndexBuildStateReady \<and> im_DomainID m \<in> ds
         then m\<lparr>im_LastIndexedGraphRevision := rv\<rparr> else m))"
  by (simp add: markReadyIndexesIndexedThrough_def)

lemma commit_apply_marks:
  "\<exists>s4. commit_apply t idem nlocs elocs s = markReadyIndexesIndexedThrough (st_revision s4) (touchedDomains t s4) s4 \<and>
    st_indexMeta s4 = st_indexMeta s"
  unfolding commit_apply_def Let_def
  by (rule exI, rule conjI, rule refl) (cases idem; simp add: idem_store_def)

lemma touched_mark: "touchedDomains t (markReadyIndexesIndexedThrough rv ds s) = touchedDomains t s"
  by (simp add: touchedDomains_def markReadyIndexesIndexedThrough_def)

text \<open>
  C34. The domains a commit touched are collected after its deletions were applied, when the deleted nodes
  and edges are gone: a transaction that only deletes marks no index as indexed through its revision.
\<close>

theorem delete_only_leaves_indexes_behind:
  assumes "CommitWithInfo io t s = (Inr info, t', s')" "\<not> ci_IdempotentReplay info"
    and "tx_nodePuts t = []" "tx_edgePuts t = []"
  shows "st_revision s' = st_revision s + 1 \<and> st_indexMeta s' = st_indexMeta s"
  using assms(1)
proof (cases rule: CommitWithInfo_cases)
  case (committed idem nlocs elocs s1 s2)
  note same = graph_same_trans [OF _ conjunct1 [OF commit_write_same [OF committed(10)]]]
  have gs: "graph_same s s2" using same commit_idempotency_same [OF committed(5)] by blast
  let ?s3 = "commit_apply t idem nlocs elocs s2"
  note recs = commit_apply_records [OF commit_write_locs [OF committed(10)], of idem s2]
  have none: "List.map_filter (ns_records (st_nodes ?s3)) (tx_nodeDeletes t) = []"
    "List.map_filter (es_records (st_edges ?s3)) (tx_edgeDeletes t) = []"
    unfolding recs by (auto simp: List.map_filter_def filter_empty_conv committed_nodes_def committed_edges_def
      commit_records_None)
  have "touchedDomains t ?s3 = {}" unfolding touchedDomains_def none assms(3,4) by simp
  then have "st_indexMeta ?s3 = st_indexMeta s2"
    using commit_apply_marks [of t idem nlocs elocs s2]
    by (auto simp: fun_eq_iff touched_mark markReady_meta split: option.split)
  with gs committed(11) show ?thesis by (simp add: graph_same_def commit_apply_fields)
qed (use assms(2) in \<open>auto simp: commit_idempotency_def Let_def split: option.splits if_splits\<close>)

definition sample_meta :: IndexMetadata where
  "sample_meta = \<lparr>im_Name = ''n'', im_DomainID = 1, im_SchemaHash = [], im_TargetKind = IndexTargetNode, im_TargetType = [],
     im_Labels = [], im_Namespace = [], im_Field = ''f'', im_Kind = [], im_Direction = [], im_BuildState = IndexBuildStateReady,
     im_LastIndexedGraphRevision = 0, im_KeyEncodingVersion = 1\<rparr>"

definition indexed_store :: local_store where
  "indexed_store = sample_store\<lparr>st_nodes := applyNodePut sample_cfg (small_node 5)
       \<lparr>rl_Segment = ''nodes'', rl_Offset = 8, rl_Length = 0\<rparr> empty_node_state,
     st_indexMeta := [''ix'' \<mapsto> sample_meta]\<rparr>"

definition delete_txn :: localTxn where
  "delete_txn = \<lparr>tx_id = 79, tx_nodePuts = [], tx_nodeDeletes = [5], tx_edgePuts = [], tx_edgeDeletes = [],
     tx_expected = None, tx_hook = None, tx_idem = None, tx_closed = False\<rparr>"

theorem delete_only_leaves_indexes_behind_witness:
  "\<exists>info t' s'. ns_records (st_nodes indexed_store) 5 = Some (small_node 5) \<and>
    CommitWithInfo good_io delete_txn indexed_store = (Inr info, t', s') \<and> st_revision s' = 1 \<and>
    st_indexMeta s' ''ix'' = Some (sample_meta\<lparr>im_LastIndexedGraphRevision := 0\<rparr>)"
proof -
  have ci: "commit_idempotency delete_txn indexed_store = (IdemNew None, indexed_store)"
    by (simp add: commit_idempotency_def delete_txn_def)
  have "\<not> tx_closed delete_txn" "\<forall>h. tx_hook delete_txn = Some h \<longrightarrow> h (commit_info delete_txn indexed_store) = None"
    "\<forall>base. tx_expected delete_txn = Some base \<longrightarrow> base \<le> st_revision indexed_store"
    "\<not> writeSetConflict delete_txn indexed_store" "encodable delete_txn" "commit_validates delete_txn indexed_store"
    "commit_payload (st_json indexed_store) None \<noteq> None" "tx_nodePuts delete_txn = []" "tx_edgePuts delete_txn = []"
    by (simp_all add: delete_txn_def writeSetConflict_def encodable_def commit_validates_def commit_payload_def)
  moreover have "\<not> invariantConflict delete_txn indexed_store"
    by (simp add: invariantConflict_def delete_txn_def node_delete_conflict_def indexed_store_def sample_store_def
        fresh_store_def empty_edge_state_def)
  moreover have "st_state indexed_store = StoreStateReady" "st_revision indexed_store = 0"
    "\<forall>sg \<in> {st_nodeSeg indexed_store, st_edgeSeg indexed_store, st_txnSeg indexed_store}.
      seals (cf_String (st_cfg indexed_store)) sg"
    by (simp_all add: indexed_store_def sample_store_def fresh_store_def sample_seals)
  ultimately obtain info s' where c: "CommitWithInfo good_io delete_txn indexed_store =
      (Inr info, delete_txn\<lparr>tx_closed := True\<rparr>, s')" "\<not> ci_IdempotentReplay info"
    using commit_goes_through [OF _ _ ci _ _ _ _ _ _ _ _ sample_io] by blast
  have "st_indexMeta indexed_store ''ix'' = Some (sample_meta\<lparr>im_LastIndexedGraphRevision := 0\<rparr>)"
    by (simp add: indexed_store_def sample_meta_def)
  moreover have "n_ID (small_node 5) = 5" by (simp add: small_node_def)
  then have "ns_records (st_nodes indexed_store) 5 = Some (small_node 5)"
    by (simp add: indexed_store_def)
  ultimately show ?thesis
    using delete_only_leaves_indexes_behind [OF c] c \<open>st_revision indexed_store = 0\<close> \<open>tx_nodePuts delete_txn = []\<close>
      \<open>tx_edgePuts delete_txn = []\<close> by auto
qed

end
