(* ===== verification/Graph_Config.thy ===== *)
theory Graph_Config
  imports Graph_State
begin

text \<open>
  Configuring the property indexes of a domain (\<open>ConfigureIndexes\<close> and what it calls in
  \<open>internal/graph/storage/index_store.go\<close>, and \<open>rebuildNodePropertyOrdersLocked\<close> of
  \<open>index_maintenance.go\<close>). Go visits the keys of a map in an arbitrary order: a \<open>map_order\<close> gives the
  order of one run, and the lemmas hold for every one of them.
\<close>

record map_order =
  mo_ids :: "uuid set \<Rightarrow> uuid list"
  mo_keys :: "string set \<Rightarrow> string list"

definition order_ok :: "map_order \<Rightarrow> bool" where
  "order_ok mo \<longleftrightarrow>
     (\<forall>A. finite A \<longrightarrow> set (mo_ids mo A) = A \<and> distinct (mo_ids mo A)) \<and>
     (\<forall>A. finite A \<longrightarrow> set (mo_keys mo A) = A \<and> distinct (mo_keys mo A))"

definition sorted_order :: map_order where
  "sorted_order = \<lparr>mo_ids = sorted_list_of_set, mo_keys = sorted_list_of_set\<rparr>"

lemma sorted_order_ok: "order_ok sorted_order"
  by (simp add: order_ok_def sorted_order_def)

section \<open>Definitions of indexes\<close>

definition normalizeConfiguredIndexes :: "index_def list \<Rightarrow> index_def list" where
  "normalizeConfiguredIndexes idxs =
     map (\<lambda>i. let j = (if id_Kind i = [] then i\<lparr>id_Kind := ''equality''\<rparr> else i)
              in if id_Kind j = ''ordered'' \<and> id_Direction j = [] then j\<lparr>id_Direction := ''asc''\<rparr> else j) idxs"

definition configuredIndexesMatch :: "index_def list \<Rightarrow> index_def list \<Rightarrow> bool" where
  "configuredIndexesMatch left right \<longleftrightarrow>
     list_all2 (\<lambda>l r. id_Name l = id_Name r \<and> id_TargetKind l = id_TargetKind r \<and> id_TargetType l = id_TargetType r \<and>
         id_Namespace l = id_Namespace r \<and> id_Field l = id_Field r \<and> id_Kind l = id_Kind r \<and>
         id_Direction l = id_Direction r \<and> id_Unique l = id_Unique r \<and> id_Required l = id_Required r \<and>
         id_Labels l = id_Labels r)
       (normalizeConfiguredIndexes left) (normalizeConfiguredIndexes right)"

definition ident_of :: "store_cfg \<Rightarrow> domain_id \<Rightarrow> index_def \<Rightarrow> string" where
  "ident_of cfg did idx = indexIdentity (cf_String cfg) did (id_Name idx)"

definition configuredSchemaHash ::
  "store_cfg \<Rightarrow> (string \<rightharpoonup> IndexMetadata) \<Rightarrow> domain_id \<Rightarrow> index_def list \<Rightarrow> string" where
  "configuredSchemaHash cfg metas did idxs =
     (case find (\<lambda>idx. metas (ident_of cfg did idx) \<noteq> None) idxs of
        None \<Rightarrow> [] | Some idx \<Rightarrow> im_SchemaHash (the (metas (ident_of cfg did idx))))"

definition index_meta :: "domain_id \<Rightarrow> string \<Rightarrow> IndexBuildState \<Rightarrow> index_def \<Rightarrow> IndexMetadata" where
  "index_meta did hash state idx =
     \<lparr>im_Name = id_Name idx, im_DomainID = did, im_SchemaHash = hash, im_TargetKind = id_TargetKind idx,
      im_TargetType = id_TargetType idx, im_Labels = id_Labels idx, im_Namespace = id_Namespace idx,
      im_Field = id_Field idx, im_Kind = id_Kind idx, im_Direction = id_Direction idx, im_BuildState = state,
      im_LastIndexedGraphRevision = 0, im_KeyEncodingVersion = 1\<rparr>"

section \<open>Rebuilding the ordered indexes\<close>

definition put_keys :: "(string \<times> 'v) list \<Rightarrow> string \<Rightarrow> (string \<rightharpoonup> (string, 'v) otree) \<Rightarrow> string \<rightharpoonup> (string, 'v) otree" where
  "put_keys kvs ident m = m(ident \<mapsto> fold (\<lambda>(k, v). tree_put (<) string_prio k v) kvs (tree_lookup m ident))"

text \<open>The keys of the versions of \<open>domain\<close> nodes in the history, in the order they are visited.\<close>

definition history_keys :: "store_cfg \<Rightarrow> domain_id \<Rightarrow> index_def \<Rightarrow> node entityVersion list \<Rightarrow> (string \<times> node_id) list" where
  "history_keys cfg did idx versions =
     List.map_filter (\<lambda>v. case ev_Entity v of
         None \<Rightarrow> None
       | Some n \<Rightarrow>
           if n_DomainID n \<noteq> did then None
           else (case nodePropertyIndexEntry cfg n idx of
                   Inr (Some entry) \<Rightarrow> Some (np_Key entry, np_NodeID entry) | _ \<Rightarrow> None)) versions"

definition rebuildNodePropertyOrdersLocked :: "map_order \<Rightarrow> domain_id list \<Rightarrow> store_cfg \<Rightarrow> node_state \<Rightarrow> node_state" where
  "rebuildNodePropertyOrdersLocked mo domains cfg st =
     st\<lparr>ns_propOrder :=
          fold (\<lambda>ident. let es = the_map (ns_propIndex st ident) in
                  put_keys (map (\<lambda>k. (k, the (es k))) (mo_keys mo (dom es))) ident)
            (mo_keys mo (dom (ns_propIndex st))) Map.empty,
        ns_histPropOrder :=
          fold (\<lambda>(did, idx).
                  put_keys (concat (map (\<lambda>i. history_keys cfg did idx (ns_history st i))
                    (mo_ids mo {i. ns_history st i \<noteq> []}))) (ident_of cfg did idx))
            (concat (map (\<lambda>did. map (Pair did) (filter (\<lambda>idx. id_TargetKind idx = IndexTargetNode) (cf_Indexes cfg did)))
              domains)) Map.empty\<rparr>"

section \<open>Configuring\<close>

definition drop_index :: "domain_id \<Rightarrow> index_def \<Rightarrow> local_store \<Rightarrow> local_store" where
  "drop_index did idx s =
     (let ident = ident_of (st_cfg s) did idx in
      s\<lparr>st_indexMeta := (st_indexMeta s)(ident := None),
        st_nodes := (st_nodes s)\<lparr>ns_propIndex := (ns_propIndex (st_nodes s))(ident := None),
          ns_propOrder := (ns_propOrder (st_nodes s))(ident := None),
          ns_histPropOrder := (ns_histPropOrder (st_nodes s))(ident := None)\<rparr>,
        st_edges := (st_edges s)\<lparr>es_propIndex := (es_propIndex (st_edges s))(ident := None)\<rparr>\<rparr>)"

definition start_index :: "domain_id \<Rightarrow> string \<Rightarrow> IndexBuildState \<Rightarrow> index_def \<Rightarrow> local_store \<Rightarrow> local_store" where
  "start_index did hash state idx s =
     (let ident = ident_of (st_cfg s) did idx;
          s1 = s\<lparr>st_indexMeta := (st_indexMeta s)(ident \<mapsto> index_meta did hash state idx)\<rparr>
      in if id_TargetKind idx = IndexTargetNode
         then s1\<lparr>st_nodes := (st_nodes s1)\<lparr>ns_propIndex := (ns_propIndex (st_nodes s1))(ident \<mapsto> Map.empty)\<rparr>\<rparr>
         else if id_TargetKind idx = IndexTargetEdge
         then s1\<lparr>st_edges := (st_edges s1)\<lparr>es_propIndex := (es_propIndex (st_edges s1))(ident \<mapsto> Map.empty)\<rparr>\<rparr>
         else s1)"

definition set_build_state :: "domain_id \<Rightarrow> index_def \<Rightarrow> (IndexMetadata \<Rightarrow> IndexMetadata) \<Rightarrow> local_store \<Rightarrow> local_store" where
  "set_build_state did idx f s =
     s\<lparr>st_indexMeta := (st_indexMeta s)(ident_of (st_cfg s) did idx :=
         map_option f (st_indexMeta s (ident_of (st_cfg s) did idx)))\<rparr>"

text \<open>The entries of one entity in every index; the first that cannot be made fails its index and ends the loop.\<close>

fun index_node :: "node \<Rightarrow> index_def list \<Rightarrow> local_store \<Rightarrow> graph_error option \<times> local_store" where
  "index_node n [] s = (None, s)"
| "index_node n (idx # idxs) s =
     (if id_TargetKind idx \<noteq> IndexTargetNode then index_node n idxs s
      else
        (case nodePropertyIndexEntry (st_cfg s) n idx of
           Inl _ \<Rightarrow> (Some ErrUnsupported,
             set_build_state (n_DomainID n) idx (\<lambda>m. m\<lparr>im_BuildState := IndexBuildStateFailed\<rparr>) s)
         | Inr _ \<Rightarrow> index_node n idxs
             (s\<lparr>st_nodes := addNodePropertyIndexEntry (st_cfg s) n idx (st_nodes s)\<rparr>)))"

fun index_edge :: "edge \<Rightarrow> index_def list \<Rightarrow> local_store \<Rightarrow> graph_error option \<times> local_store" where
  "index_edge e [] s = (None, s)"
| "index_edge e (idx # idxs) s =
     (if id_TargetKind idx \<noteq> IndexTargetEdge then index_edge e idxs s
      else
        (case edgePropertyIndexEntry (st_cfg s) e idx of
           Inl _ \<Rightarrow> (Some ErrUnsupported,
             set_build_state (e_DomainID e) idx (\<lambda>m. m\<lparr>im_BuildState := IndexBuildStateFailed\<rparr>) s)
         | Inr _ \<Rightarrow> index_edge e idxs
             (s\<lparr>st_edges := addEdgePropertyIndexEntry (st_cfg s) e idx (st_edges s)\<rparr>)))"

fun index_nodes :: "domain_id \<Rightarrow> index_def list \<Rightarrow> node list \<Rightarrow> local_store \<Rightarrow> graph_error option \<times> local_store" where
  "index_nodes did idxs [] s = (None, s)"
| "index_nodes did idxs (n # ns) s =
     (if n_DomainID n \<noteq> did then index_nodes did idxs ns s
      else (case index_node n idxs s of
              (Some e, s') \<Rightarrow> (Some e, s')
            | (None, s') \<Rightarrow> index_nodes did idxs ns s'))"

fun index_edges :: "domain_id \<Rightarrow> index_def list \<Rightarrow> edge list \<Rightarrow> local_store \<Rightarrow> graph_error option \<times> local_store" where
  "index_edges did idxs [] s = (None, s)"
| "index_edges did idxs (e # es) s =
     (if e_DomainID e \<noteq> did then index_edges did idxs es s
      else (case index_edge e idxs s of
              (Some err, s') \<Rightarrow> (Some err, s')
            | (None, s') \<Rightarrow> index_edges did idxs es s'))"

definition add_domain_key :: "domain_id \<Rightarrow> domain_id list \<Rightarrow> domain_id list" where
  "add_domain_key did ds = (if did \<in> set ds then ds else ds @ [did])"

definition configureIndexesLocked ::
  "map_order \<Rightarrow> domain_id \<Rightarrow> string \<Rightarrow> index_def list \<Rightarrow> local_store \<Rightarrow> graph_error option \<times> local_store" where
  "configureIndexesLocked mo did hash idxs s0 =
     (let old = cf_Indexes (st_cfg s0) did in
      if configuredIndexesMatch old idxs \<and> configuredSchemaHash (st_cfg s0) (st_indexMeta s0) did old = hash
      then (None, s0)
      else
        (let s1 = fold (drop_index did) old s0;
             s2 = s1\<lparr>st_cfg := (st_cfg s1)\<lparr>cf_Indexes := (cf_Indexes (st_cfg s1))(did := idxs)\<rparr>,
                     st_domains := add_domain_key did (st_domains s1)\<rparr>;
             s3 = fold (start_index did hash IndexBuildStateBuilding) idxs s2;
             nodes = map (\<lambda>i. the (ns_records (st_nodes s3) i)) (mo_ids mo (dom (ns_records (st_nodes s3))))
         in case index_nodes did idxs nodes s3 of
              (Some e, s4) \<Rightarrow> (Some e, s4)
            | (None, s4) \<Rightarrow>
                (let edges = map (\<lambda>i. the (es_records (st_edges s4) i)) (mo_ids mo (dom (es_records (st_edges s4)))) in
                 case index_edges did idxs edges s4 of
                   (Some e, s5) \<Rightarrow> (Some e, s5)
                 | (None, s5) \<Rightarrow>
                     (let s6 = s5\<lparr>st_nodes := rebuildNodePropertyOrdersLocked mo (st_domains s5) (st_cfg s5) (st_nodes s5)\<rparr>
                      in (None, fold (\<lambda>idx s. set_build_state did idx (\<lambda>m. m\<lparr>im_BuildState := IndexBuildStateReady,
                            im_LastIndexedGraphRevision := st_revision s\<rparr>) s) idxs s6)))))"

text \<open>The outcome of writing the manifest: written, or what the file holds after a failed write.\<close>

datatype manifest_write = ManifestWritten | ManifestWriteFails manifest_file

definition manifest_content :: "local_store \<Rightarrow> manifest_file" where
  "manifest_content s =
     Manifest (map (\<lambda>did. (did, configuredSchemaHash (st_cfg s) (st_indexMeta s) did (cf_Indexes (st_cfg s) did),
         cf_Indexes (st_cfg s) did)) (sort_key (cf_String (st_cfg s)) (st_domains s)))"

definition writeIndexManifestLocked :: "manifest_write \<Rightarrow> local_store \<Rightarrow> graph_error option \<times> local_store" where
  "writeIndexManifestLocked mw s =
     (case mw of
        ManifestWritten \<Rightarrow> (None, s\<lparr>st_manifest := manifest_content s\<rparr>)
      | ManifestWriteFails file \<Rightarrow> (Some ErrSegmentWrite, s\<lparr>st_manifest := file\<rparr>))"

definition ConfigureIndexes ::
  "ctx \<Rightarrow> map_order \<Rightarrow> manifest_write \<Rightarrow> domain_id \<Rightarrow> string \<Rightarrow> index_def list \<Rightarrow> local_store \<Rightarrow>
   graph_error option \<times> local_store" where
  "ConfigureIndexes ctx mo mw did hash idxs s =
     (case ctx of
        Some e \<Rightarrow> (Some (ErrContext e), s)
      | None \<Rightarrow>
          (case ensureReady s of
             Some e \<Rightarrow> (Some e, s)
           | None \<Rightarrow>
               (case configureIndexesLocked mo did hash (normalizeConfiguredIndexes idxs) s of
                  (Some e, s') \<Rightarrow> (Some e, s')
                | (None, s') \<Rightarrow> writeIndexManifestLocked mw s')))"

definition IndexStatuses :: "ctx \<Rightarrow> map_order \<Rightarrow> local_store \<Rightarrow> graph_error + IndexMetadata list" where
  "IndexStatuses ctx mo s =
     (case ctx of
        Some e \<Rightarrow> Inl (ErrContext e)
      | None \<Rightarrow> Inr (sort_key (\<lambda>m. (cf_String (st_cfg s) (im_DomainID m), im_Name m))
          (map (\<lambda>k. the (st_indexMeta s k)) (mo_keys mo (dom (st_indexMeta s))))))"

section \<open>Loading the manifest\<close>

definition load_domain :: "domain_id \<times> string \<times> index_def list \<Rightarrow> local_store \<Rightarrow> local_store" where
  "load_domain d s =
     (case d of (did, hash, idxs0) \<Rightarrow>
        (let idxs = normalizeConfiguredIndexes idxs0;
             s1 = s\<lparr>st_cfg := (st_cfg s)\<lparr>cf_Indexes := (cf_Indexes (st_cfg s))(did := idxs)\<rparr>,
                    st_domains := add_domain_key did (st_domains s)\<rparr>
         in fold (start_index did hash IndexBuildStateReady) idxs s1))"

definition loadIndexManifestLocked :: "local_store \<Rightarrow> graph_error option \<times> local_store" where
  "loadIndexManifestLocked s =
     (case st_manifest s of
        NoManifest \<Rightarrow> (None, s)
      | BadManifest \<Rightarrow> (Some (ErrInvalid ''index manifest''), s)
      | Manifest ds \<Rightarrow> (None, fold load_domain ds s))"

end
