(* ===== verification/Graph_Store.thy ===== *)
theory Graph_Store
  imports Graph_Config
begin

text \<open>
  Reading the graph store (\<open>internal/graph/storage/store.go\<close>): nodes and edges now and at a revision, the
  edges at a node, children and parents, and the paged scan of a domain. \<open>ctx\<close> is the context at the call;
  a scan also looks at it before each entry, \<open>cancel k\<close> is what it finds the \<open>k\<close>-th time.
\<close>

definition with_ctx :: "ctx \<Rightarrow> 'a \<Rightarrow> graph_error + 'a" where
  "with_ctx ctx x = (case ctx of None \<Rightarrow> Inr x | Some e \<Rightarrow> Inl (ErrContext e))"

definition when_ready :: "local_store \<Rightarrow> (graph_error + 'a) \<Rightarrow> graph_error + 'a" where
  "when_ready s r = (case ensureReady s of Some e \<Rightarrow> Inl e | None \<Rightarrow> r)"

definition by_text :: "map_order \<Rightarrow> local_store \<Rightarrow> uuid set \<Rightarrow> uuid list" where
  "by_text mo s A = sort_key (cf_String (st_cfg s)) (mo_ids mo A)"

section \<open>Single entities\<close>

definition GetNode :: "ctx \<Rightarrow> node_id \<Rightarrow> local_store \<Rightarrow> graph_error + node" where
  "GetNode ctx i s =
     (case ns_records (st_nodes s) i of None \<Rightarrow> Inl ErrNotFound | Some n \<Rightarrow> with_ctx ctx (cloneNode n))"

definition GetNodeAt :: "ctx \<Rightarrow> node_id \<Rightarrow> u64 \<Rightarrow> local_store \<Rightarrow> graph_error + node" where
  "GetNodeAt ctx i rv s =
     when_ready s (case nodeAtRevision (ns_history (st_nodes s) i) rv of
        None \<Rightarrow> Inl ErrNotFound | Some n \<Rightarrow> with_ctx ctx (cloneNode n))"

definition GetEdge :: "ctx \<Rightarrow> edge_id \<Rightarrow> local_store \<Rightarrow> graph_error + edge" where
  "GetEdge ctx i s =
     (case es_records (st_edges s) i of None \<Rightarrow> Inl ErrNotFound | Some e \<Rightarrow> with_ctx ctx (cloneEdge e))"

definition GetEdgeAt :: "ctx \<Rightarrow> edge_id \<Rightarrow> u64 \<Rightarrow> local_store \<Rightarrow> graph_error + edge" where
  "GetEdgeAt ctx i rv s =
     when_ready s (case edgeAtRevision (es_history (st_edges s) i) rv of
        None \<Rightarrow> Inl ErrNotFound | Some e \<Rightarrow> with_ctx ctx (cloneEdge e))"

section \<open>Lists\<close>

definition ListNodes :: "ctx \<Rightarrow> map_order \<Rightarrow> local_store \<Rightarrow> graph_error + node list" where
  "ListNodes ctx mo s =
     with_ctx ctx (map (\<lambda>i. cloneNode (the (ns_records (st_nodes s) i))) (by_text mo s (dom (ns_records (st_nodes s)))))"

definition ListNodesByDomain :: "ctx \<Rightarrow> map_order \<Rightarrow> domain_id \<Rightarrow> local_store \<Rightarrow> graph_error + node list" where
  "ListNodesByDomain ctx mo did s =
     with_ctx ctx (List.map_filter (\<lambda>i. map_option cloneNode (ns_records (st_nodes s) i))
       (by_text mo s (set_lookup (ns_byDomain (st_nodes s)) did)))"

definition ListNodesByDomainAt :: "ctx \<Rightarrow> map_order \<Rightarrow> domain_id \<Rightarrow> u64 \<Rightarrow> local_store \<Rightarrow> graph_error + node list" where
  "ListNodesByDomainAt ctx mo did rv s =
     when_ready s (with_ctx ctx
       (filter (\<lambda>n. n_DomainID n = did)
         (List.map_filter (\<lambda>i. nodeAtRevision (ns_history (st_nodes s) i) rv)
           (by_text mo s {i. ns_history (st_nodes s) i \<noteq> []}))))"

definition ListEdges :: "ctx \<Rightarrow> map_order \<Rightarrow> local_store \<Rightarrow> graph_error + edge list" where
  "ListEdges ctx mo s =
     with_ctx ctx (map (\<lambda>i. cloneEdge (the (es_records (st_edges s) i))) (by_text mo s (dom (es_records (st_edges s)))))"

text \<open>\<open>endpointEdgesAt\<close> and, with every edge included, \<open>ListEdgesAt\<close>.\<close>

definition endpointEdgesAt ::
  "ctx \<Rightarrow> map_order \<Rightarrow> u64 \<Rightarrow> (edge \<Rightarrow> bool) \<Rightarrow> local_store \<Rightarrow> graph_error + edge list" where
  "endpointEdgesAt ctx mo rv include s =
     when_ready s (with_ctx ctx
       (filter include (List.map_filter (\<lambda>i. edgeAtRevision (es_history (st_edges s) i) rv)
         (by_text mo s {i. es_history (st_edges s) i \<noteq> []}))))"

definition ListEdgesAt :: "ctx \<Rightarrow> map_order \<Rightarrow> u64 \<Rightarrow> local_store \<Rightarrow> graph_error + edge list" where
  "ListEdgesAt ctx mo rv s = endpointEdgesAt ctx mo rv (\<lambda>_. True) s"

definition IncomingEdgesAt :: "ctx \<Rightarrow> map_order \<Rightarrow> node_id \<Rightarrow> u64 \<Rightarrow> local_store \<Rightarrow> graph_error + edge list" where
  "IncomingEdgesAt ctx mo i rv s = endpointEdgesAt ctx mo rv (\<lambda>e. e_ToID e = i) s"

definition OutgoingEdgesAt :: "ctx \<Rightarrow> map_order \<Rightarrow> node_id \<Rightarrow> u64 \<Rightarrow> local_store \<Rightarrow> graph_error + edge list" where
  "OutgoingEdgesAt ctx mo i rv s = endpointEdgesAt ctx mo rv (\<lambda>e. e_FromID e = i) s"

definition edges_of :: "local_store \<Rightarrow> edge_id list \<Rightarrow> edge list" where
  "edges_of s ids = List.map_filter (\<lambda>i. map_option cloneEdge (es_records (st_edges s) i)) ids"

definition IncomingEdges :: "ctx \<Rightarrow> node_id \<Rightarrow> local_store \<Rightarrow> graph_error + edge list" where
  "IncomingEdges ctx i s =
     when_ready s (case ix_Incoming ctx i (es_index (st_edges s)) of
        Inl e \<Rightarrow> Inl (ErrContext e) | Inr ids \<Rightarrow> with_ctx ctx (edges_of s ids))"

definition OutgoingEdges :: "ctx \<Rightarrow> node_id \<Rightarrow> local_store \<Rightarrow> graph_error + edge list" where
  "OutgoingEdges ctx i s =
     when_ready s (case ix_Outgoing ctx i (es_index (st_edges s)) of
        Inl e \<Rightarrow> Inl (ErrContext e) | Inr ids \<Rightarrow> with_ctx ctx (edges_of s ids))"

definition store_Children :: "ctx \<Rightarrow> node_id \<Rightarrow> local_store \<Rightarrow> graph_error + edge list" where
  "store_Children ctx p s = with_ctx ctx (edges_of s (children_of (es_children (st_edges s)) p))"

text \<open>The parent edge of a child; a recorded parent without a record would read as the zero edge.\<close>

definition zero_edge :: edge where
  "zero_edge = \<lparr>e_ID = 0, e_DomainID = 0, e_FromID = 0, e_ToID = 0, e_Labels = [], e_Properties = [],
     e_Payload = [], e_Meta = [], e_CreatedAt = ZeroTime, e_UpdatedAt = ZeroTime\<rparr>"

definition store_Parent :: "ctx \<Rightarrow> node_id \<Rightarrow> local_store \<Rightarrow> graph_error + edge option" where
  "store_Parent ctx c s =
     with_ctx ctx (case es_parent (st_edges s) c of
        None \<Rightarrow> None
      | Some i \<Rightarrow> Some (case es_records (st_edges s) i of None \<Rightarrow> zero_edge | Some e \<Rightarrow> cloneEdge e))"

definition NodesByDomain :: "ctx \<Rightarrow> map_order \<Rightarrow> domain_id \<Rightarrow> local_store \<Rightarrow> graph_error + node_id list" where
  "NodesByDomain ctx mo did s = with_ctx ctx (mo_ids mo (set_lookup (ns_byDomain (st_nodes s)) did))"

definition BlobRefCount :: "ctx \<Rightarrow> blob_id \<Rightarrow> local_store \<Rightarrow> graph_error + nat" where
  "BlobRefCount ctx b s = with_ctx ctx (card (set_lookup (ns_blobRefs (st_nodes s)) b))"

text \<open>The days of the journal index in the order \<open>days\<close> the run visits them.\<close>

definition JournalNodesByDayRange ::
  "ctx \<Rightarrow> map_order \<Rightarrow> u64 list \<Rightarrow> u64 \<Rightarrow> u64 \<Rightarrow> local_store \<Rightarrow> graph_error + node_id list" where
  "JournalNodesByDayRange ctx mo days from to s =
     with_ctx ctx (concat (map (\<lambda>d. if sint from \<le> sint d \<and> sint d \<le> sint to
         then mo_ids mo (set_lookup (ns_journalDay (st_nodes s)) d) else []) days))"

section \<open>The paged scan of a domain\<close>

record DomainNodeScan =
  ds_DomainID :: domain_id
  ds_Limit :: int
  ds_Cursor :: string
  ds_Snapshot :: bool
  ds_Revision :: u64
  ds_ExamineLimit :: int

definition scanNodeVersion :: "local_store \<Rightarrow> DomainNodeScan \<Rightarrow> node_id \<Rightarrow> node option" where
  "scanNodeVersion s scan i =
     (case (if ds_Snapshot scan then entityAtRevision (ns_history (st_nodes s) i) (ds_Revision scan)
            else ns_records (st_nodes s) i) of
        None \<Rightarrow> None
      | Some n \<Rightarrow> if n_DomainID n = ds_DomainID scan then Some n else None)"

text \<open>
  The loop all scans share: while the iterator has entries and \<open>going\<close> holds, look at the context, take the
  next entry and do \<open>visit\<close>, which may also end the loop.
\<close>

lemma it_Next_shrinks:
  "it_Next it = (Some e, it') \<Longrightarrow> length (it_remaining it') < length (it_remaining it)"
  using it_Next_remaining [of it] by (cases "it_remaining it") auto

function scan_loop ::
  "(nat \<Rightarrow> ctx) \<Rightarrow> ('s \<Rightarrow> bool) \<Rightarrow> ('k \<times> 'v \<Rightarrow> 's \<Rightarrow> 's \<times> bool) \<Rightarrow> nat \<Rightarrow> ('k, 'v) orderedTreeIterator \<Rightarrow> 's \<Rightarrow>
   graph_error + 's \<times> ('k, 'v) orderedTreeIterator" where
  "scan_loop cancel going visit k it ss =
     (if \<not> (HasNext it \<and> going ss) then Inr (ss, it)
      else
        (case cancel k of
           Some e \<Rightarrow> Inl (ErrContext e)
         | None \<Rightarrow>
             (case it_Next it of
                (None, it') \<Rightarrow> Inr (ss, it')
              | (Some entry, it') \<Rightarrow>
                  (case visit entry ss of
                     (ss', stop) \<Rightarrow>
                       if stop then Inr (ss', it') else scan_loop cancel going visit (Suc k) it' ss'))))"
  by pat_completeness auto
termination
  by (relation "measure (\<lambda>(cancel, going, visit, k, it, ss). length (it_remaining it))")
    (auto dest!: it_Next_shrinks [OF sym])

declare scan_loop.simps [simp del]

record ('k, 'o) scan_state =
  ss_out :: "'o list"
  ss_examined :: int
  ss_last :: "'k option"

definition scan_start :: "('k, 'o) scan_state" where
  "scan_start = \<lparr>ss_out = [], ss_examined = 0, ss_last = None\<rparr>"

text \<open>Count the key and collect what it resolves to.\<close>

definition examine :: "'k \<Rightarrow> 'o option \<Rightarrow> ('k, 'o) scan_state \<Rightarrow> ('k, 'o) scan_state" where
  "examine key res ss =
     \<lparr>ss_out = ss_out ss @ (case res of None \<Rightarrow> [] | Some x \<Rightarrow> [x]), ss_examined = ss_examined ss + 1, ss_last = Some key\<rparr>"

definition within :: "int \<Rightarrow> int \<Rightarrow> ('k, 'o) scan_state \<Rightarrow> bool" where
  "within limit examineLimit ss \<longleftrightarrow> ss_examined ss < examineLimit \<and> int (length (ss_out ss)) < limit"

definition normalizeDomainScan :: "DomainNodeScan \<Rightarrow> DomainNodeScan" where
  "normalizeDomainScan scan0 =
     (let scan = (if ds_Limit scan0 > 500 then scan0\<lparr>ds_Limit := 500\<rparr> else scan0)
      in if ds_ExamineLimit scan \<le> 0 then scan\<lparr>ds_ExamineLimit := ds_Limit scan\<rparr> else scan)"

definition ScanNodesByDomain ::
  "ctx \<Rightarrow> (nat \<Rightarrow> ctx) \<Rightarrow> DomainNodeScan \<Rightarrow> local_store \<Rightarrow> graph_error + node list \<times> string \<times> int" where
  "ScanNodesByDomain ctx cancel scan0 s =
     (case ctx of
        Some e \<Rightarrow> Inl (ErrContext e)
      | None \<Rightarrow>
          if ds_Limit scan0 \<le> 0 then Inl (ErrInvalid ''node scan limit must be positive'')
          else
            (let scan = normalizeDomainScan scan0 in
             case (if ds_Cursor scan = [] then Some None else map_option Some (cf_Parse (st_cfg s) (ds_Cursor scan))) of
               None \<Rightarrow> Inl (ErrInvalid ''invalid node scan cursor'')
             | Some cursor \<Rightarrow>
                 when_ready s
                   (case (if ds_Snapshot scan then ns_historyOrder (st_nodes s) else ns_currentOrder (st_nodes s))
                       (ds_DomainID scan) of
                      None \<Rightarrow> Inr ([], [], 0)
                    | Some order \<Rightarrow>
                        (case scan_loop cancel (within (ds_Limit scan) (ds_ExamineLimit scan))
                            (\<lambda>(i, _) ss. (examine i (map_option cloneNode (scanNodeVersion s scan i)) ss, False))
                            0 (IteratorAfter (<) cursor order) scan_start of
                           Inl e \<Rightarrow> Inl e
                         | Inr (ss, it) \<Rightarrow>
                             Inr (ss_out ss,
                               (if HasNext it then (case ss_last ss of None \<Rightarrow> [] | Some i \<Rightarrow> cf_String (st_cfg s) i) else []),
                               ss_examined ss)))))"

end
