(* ===== verification/Graph_Scans.thy ===== *)
theory Graph_Scans
  imports Graph_Store
begin

text \<open>
  Scans of the configured and built-in indexes (\<open>internal/graph/storage/index_store.go\<close>): ordered node
  properties now and at a revision, ordered edge properties, adjacency now and at a revision, labels and
  tags, each with cursors.
\<close>

record OrderedNodePropertyScan =
  op_DomainID :: domain_id
  op_IndexName :: string
  op_Direction :: string
  op_Limit :: int
  op_Cursor :: string
  op_ExamineLimit :: int
  op_HasLow :: bool
  op_Low :: gval
  op_LowExclusive :: bool
  op_HasHigh :: bool
  op_High :: gval
  op_HighExclusive :: bool

record NodeIndexEntry =
  ni_NodeID :: node_id
  ni_Value :: gval
  ni_Cursor :: string

record EdgeIndexEntry =
  ei_EdgeID :: edge_id
  ei_Value :: gval
  ei_Cursor :: string

section \<open>Keys and bounds\<close>

definition is_desc :: "OrderedNodePropertyScan \<Rightarrow> bool" where
  "is_desc scan \<longleftrightarrow> op_Direction scan = ''desc''"

definition normalizeOrderedNodePropertyScan :: "OrderedNodePropertyScan \<Rightarrow> OrderedNodePropertyScan option" where
  "normalizeOrderedNodePropertyScan scan0 =
     (if op_Limit scan0 \<le> 0 then None
      else
        (let scan = (if op_Limit scan0 > 500 then scan0\<lparr>op_Limit := 500\<rparr> else scan0)
         in Some (if op_ExamineLimit scan \<le> 0 then scan\<lparr>op_ExamineLimit := op_Limit scan\<rparr>
                  else if op_ExamineLimit scan > 500 then scan\<lparr>op_ExamineLimit := 500\<rparr> else scan)))"

definition encodedBounds :: "bool \<Rightarrow> gval \<Rightarrow> bool \<Rightarrow> gval \<Rightarrow> (string \<times> string) option" where
  "encodedBounds hasLow low hasHigh high =
     (case (if hasLow then encodeSortableValue low else Some []) of
        None \<Rightarrow> None
      | Some lowKey \<Rightarrow>
          (case (if hasHigh then encodeSortableValue high else Some []) of
             None \<Rightarrow> None | Some highKey \<Rightarrow> Some (lowKey, highKey)))"

definition orderedNodeScanKeys :: "OrderedNodePropertyScan \<Rightarrow> (string \<times> string \<times> string) option" where
  "orderedNodeScanKeys scan =
     (case decodeIndexCursor (op_Cursor scan) of
        None \<Rightarrow> None
      | Some cursor \<Rightarrow>
          (case encodedBounds (op_HasLow scan) (op_Low scan) (op_HasHigh scan) (op_High scan) of
             None \<Rightarrow> None | Some (low, high) \<Rightarrow> Some (cursor, low, high)))"

text \<open>A key up to its last NUL: the part before the identifier.\<close>

definition orderedValueKey :: "string \<Rightarrow> string" where
  "orderedValueKey key =
     (if CHR 0x00 \<in> set key then butlast (rev (dropWhile (\<lambda>c. c \<noteq> CHR 0x00) (rev key))) else key)"

definition key_one :: string where "key_one = [CHR 0x01]"

definition orderedNodeIterator ::
  "(string, 'v) otree \<Rightarrow> OrderedNodePropertyScan \<Rightarrow> string \<Rightarrow> string \<Rightarrow> string \<Rightarrow> (string, 'v) orderedTreeIterator" where
  "orderedNodeIterator order scan cursor low high =
     (if is_desc scan then
        (let start = (if cursor = [] \<and> high \<noteq> []
                      then (if op_HighExclusive scan then high else high @ key_one) else cursor)
         in IteratorBefore (<) (if start = [] then None else Some start) order)
      else
        (let start = (if cursor = [] \<and> low \<noteq> []
                      then (if op_LowExclusive scan then low @ key_one else low) else cursor)
         in IteratorAfter (<) (if start = [] then None else Some start) order))"

definition orderedNodeKeyInBounds :: "OrderedNodePropertyScan \<Rightarrow> string \<Rightarrow> string \<Rightarrow> string \<Rightarrow> bool" where
  "orderedNodeKeyInBounds scan low high key =
     (let vk = orderedValueKey key in
      if low \<noteq> [] \<and> (vk < low \<or> op_LowExclusive scan \<and> vk = low) then False
      else if high \<noteq> [] \<and> (vk > high \<or> op_HighExclusive scan \<and> vk = high) then False
      else True)"

definition orderedNodeKeyPastBounds :: "OrderedNodePropertyScan \<Rightarrow> string \<Rightarrow> string \<Rightarrow> string \<Rightarrow> bool" where
  "orderedNodeKeyPastBounds scan low high key =
     (let vk = orderedValueKey key in
      if is_desc scan then low \<noteq> [] \<and> (vk < low \<or> op_LowExclusive scan \<and> vk = low)
      else high \<noteq> [] \<and> (vk > high \<or> op_HighExclusive scan \<and> vk = high))"

section \<open>Ordered node properties\<close>

text \<open>One turn of the loop; the flag says whether it ended past the bounds.\<close>

definition visit_ordered ::
  "OrderedNodePropertyScan \<Rightarrow> string \<Rightarrow> string \<Rightarrow> (string \<Rightarrow> 'v \<Rightarrow> NodeIndexEntry option) \<Rightarrow> string \<times> 'v \<Rightarrow>
   (string, NodeIndexEntry) scan_state \<times> bool \<Rightarrow> ((string, NodeIndexEntry) scan_state \<times> bool) \<times> bool" where
  "visit_ordered scan low high resolve entry st =
     (case (entry, st) of ((key, v), (ss, exhausted)) \<Rightarrow>
        if \<not> orderedNodeKeyInBounds scan low high key then
          (if orderedNodeKeyPastBounds scan low high key then ((ss, True), True) else ((ss, exhausted), False))
        else ((examine key (resolve key v) ss, exhausted), False))"

definition scanOrderedNodePropertyTree ::
  "(nat \<Rightarrow> ctx) \<Rightarrow> (string, 'v) otree \<Rightarrow> OrderedNodePropertyScan \<Rightarrow> string \<Rightarrow> string \<Rightarrow> string \<Rightarrow>
   (string \<Rightarrow> 'v \<Rightarrow> NodeIndexEntry option) \<Rightarrow> graph_error + NodeIndexEntry list \<times> string \<times> int" where
  "scanOrderedNodePropertyTree cancel order scan cursor low high resolve =
     (case scan_loop cancel (\<lambda>(ss, _). within (op_Limit scan) (op_ExamineLimit scan) ss)
             (visit_ordered scan low high resolve) 0 (orderedNodeIterator order scan cursor low high)
             (scan_start, False) of
        Inl e \<Rightarrow> Inl e
      | Inr ((ss, exhausted), it) \<Rightarrow>
          Inr (ss_out ss,
            (case ss_last ss of
               None \<Rightarrow> []
             | Some key \<Rightarrow> if \<not> exhausted \<and> HasNext it \<and> key \<noteq> [] then encodeIndexCursor key else []),
            ss_examined ss))"

definition nodePropertyIndexEntryValue :: "local_store \<Rightarrow> node_prop_entry \<Rightarrow> IndexMetadata \<Rightarrow> gval" where
  "nodePropertyIndexEntryValue s entry m =
     (if np_Value entry \<noteq> VNil then np_Value entry
      else (case ns_records (st_nodes s) (np_NodeID entry) of
              None \<Rightarrow> VNil
            | Some n \<Rightarrow> (case Property n (im_Field m) of None \<Rightarrow> VNil | Some v \<Rightarrow> v)))"

definition resolve_at ::
  "local_store \<Rightarrow> OrderedNodePropertyScan \<Rightarrow> IndexMetadata \<Rightarrow> u64 \<Rightarrow> string \<Rightarrow> node_id \<Rightarrow> NodeIndexEntry option" where
  "resolve_at s scan m rv key i =
     (case nodeAtRevision (ns_history (st_nodes s) i) rv of
        None \<Rightarrow> None
      | Some n \<Rightarrow>
          if n_DomainID n \<noteq> op_DomainID scan \<or> \<not> nodeHasAnyLabel n (im_Labels m) then None
          else (case Property n (im_Field m) of
                  None \<Rightarrow> None
                | Some v \<Rightarrow>
                    if v = VNil \<or> encodeOrderedNodeKey (cf_String (st_cfg s)) v (n_ID n) \<noteq> Some key then None
                    else Some \<lparr>ni_NodeID = n_ID n, ni_Value = v, ni_Cursor = encodeIndexCursor key\<rparr>))"

definition scanNodePropertyOrdered ::
  "ctx \<Rightarrow> (nat \<Rightarrow> ctx) \<Rightarrow> OrderedNodePropertyScan \<Rightarrow> u64 option \<Rightarrow> local_store \<Rightarrow>
   graph_error + NodeIndexEntry list \<times> string \<times> int" where
  "scanNodePropertyOrdered ctx cancel scan0 revision s =
     (case ctx of
        Some e \<Rightarrow> Inl (ErrContext e)
      | None \<Rightarrow>
          (case normalizeOrderedNodePropertyScan scan0 of
             None \<Rightarrow> Inl (ErrInvalid ''ordered node property scan limit must be positive'')
           | Some scan \<Rightarrow>
               when_ready s
                 (let ident = indexIdentity (cf_String (st_cfg s)) (op_DomainID scan) (op_IndexName scan) in
                  case st_indexMeta s ident of
                    None \<Rightarrow> Inl ErrIndexUnavailable
                  | Some m \<Rightarrow>
                      if im_BuildState m \<noteq> IndexBuildStateReady then Inl ErrIndexUnavailable
                      else
                        (case orderedNodeScanKeys scan of
                           None \<Rightarrow> Inl ErrUnsupported
                         | Some (cursor, low, high) \<Rightarrow>
                             (case revision of
                                None \<Rightarrow>
                                  (case ns_propOrder (st_nodes s) ident of
                                     None \<Rightarrow> Inr ([], [], 0)
                                   | Some order \<Rightarrow>
                                       scanOrderedNodePropertyTree cancel order scan cursor low high
                                         (\<lambda>key entry. Some \<lparr>ni_NodeID = np_NodeID entry,
                                            ni_Value = nodePropertyIndexEntryValue s entry m,
                                            ni_Cursor = encodeIndexCursor key\<rparr>))
                              | Some rv \<Rightarrow>
                                  (case ns_histPropOrder (st_nodes s) ident of
                                     None \<Rightarrow> Inr ([], [], 0)
                                   | Some order \<Rightarrow>
                                       scanOrderedNodePropertyTree cancel order scan cursor low high
                                         (resolve_at s scan m rv)))))))"

definition ScanNodePropertyOrderedBounded ::
  "ctx \<Rightarrow> (nat \<Rightarrow> ctx) \<Rightarrow> OrderedNodePropertyScan \<Rightarrow> local_store \<Rightarrow> graph_error + NodeIndexEntry list \<times> string \<times> int" where
  "ScanNodePropertyOrderedBounded ctx cancel scan s = scanNodePropertyOrdered ctx cancel scan None s"

definition ScanNodePropertyOrderedAt ::
  "ctx \<Rightarrow> (nat \<Rightarrow> ctx) \<Rightarrow> OrderedNodePropertyScan \<Rightarrow> u64 \<Rightarrow> local_store \<Rightarrow>
   graph_error + NodeIndexEntry list \<times> string \<times> int" where
  "ScanNodePropertyOrderedAt ctx cancel scan rv s = scanNodePropertyOrdered ctx cancel scan (Some rv) s"

definition ScanNodePropertyOrdered ::
  "ctx \<Rightarrow> (nat \<Rightarrow> ctx) \<Rightarrow> OrderedNodePropertyScan \<Rightarrow> local_store \<Rightarrow> graph_error + NodeIndexEntry list \<times> string" where
  "ScanNodePropertyOrdered ctx cancel scan s =
     (case ScanNodePropertyOrderedBounded ctx cancel scan s of
        Inl e \<Rightarrow> Inl e | Inr (page, next_cursor, examined) \<Rightarrow> Inr (page, next_cursor))"

section \<open>Ordered edge properties\<close>

record OrderedEdgePropertyScan =
  oe_DomainID :: domain_id
  oe_IndexName :: string
  oe_Direction :: string
  oe_Limit :: int
  oe_Cursor :: string

definition edgePropertyIndexEntryValue :: "local_store \<Rightarrow> edge_prop_entry \<Rightarrow> IndexMetadata \<Rightarrow> gval" where
  "edgePropertyIndexEntryValue s entry m =
     (if ep_Value entry \<noteq> VNil then ep_Value entry
      else (case es_records (st_edges s) (ep_EdgeID entry) of
              None \<Rightarrow> VNil
            | Some e \<Rightarrow> (case EdgeProperty e (im_Field m) of None \<Rightarrow> VNil | Some v \<Rightarrow> v)))"

definition page_of :: "int \<Rightarrow> 'a list \<Rightarrow> 'a list \<times> 'a option" where
  "page_of limit0 xs =
     (let limit = (if limit0 \<le> 0 \<or> limit0 > int (length xs) then length xs else nat limit0)
      in (take limit xs, if limit < length xs \<and> limit > 0 then Some (xs ! (limit - 1)) else None))"

definition ScanEdgePropertyOrdered ::
  "ctx \<Rightarrow> map_order \<Rightarrow> OrderedEdgePropertyScan \<Rightarrow> local_store \<Rightarrow> graph_error + EdgeIndexEntry list \<times> string" where
  "ScanEdgePropertyOrdered ctx mo scan s =
     (case ctx of
        Some e \<Rightarrow> Inl (ErrContext e)
      | None \<Rightarrow>
          when_ready s
            (let ident = indexIdentity (cf_String (st_cfg s)) (oe_DomainID scan) (oe_IndexName scan) in
             case st_indexMeta s ident of
               None \<Rightarrow> Inl ErrIndexUnavailable
             | Some m \<Rightarrow>
                 if im_BuildState m \<noteq> IndexBuildStateReady \<or> im_TargetKind m \<noteq> IndexTargetEdge
                 then Inl ErrIndexUnavailable
                 else
                   (case es_propIndex (st_edges s) ident of
                      None \<Rightarrow> Inr ([], [])
                    | Some es \<Rightarrow>
                        (case decodeIndexCursor (oe_Cursor scan) of
                           None \<Rightarrow> Inl ErrUnsupported
                         | Some cursor \<Rightarrow>
                             (let desc = (oe_Direction scan = ''desc'');
                                  keys0 = filter (\<lambda>k. cursor = [] \<or> (if desc then k < cursor else cursor < k))
                                    (mo_keys mo (dom es));
                                  keys = (if desc then rev (sort keys0) else sort keys0)
                              in case page_of (oe_Limit scan) keys of
                                   (page, last_key) \<Rightarrow>
                                     Inr (map (\<lambda>k. \<lparr>ei_EdgeID = ep_EdgeID (the (es k)),
                                            ei_Value = edgePropertyIndexEntryValue s (the (es k)) m,
                                            ei_Cursor = encodeIndexCursor k\<rparr>) page,
                                       case last_key of None \<Rightarrow> [] | Some k \<Rightarrow> encodeIndexCursor k))))))"

section \<open>Adjacency\<close>

record AdjacencyScan =
  as_DomainID :: domain_id
  as_NodeID :: node_id
  as_Label :: string
  as_Direction :: AdjacencyDirection
  as_Limit :: int
  as_Cursor :: string

definition adjacency_identity :: "AdjacencyScan \<Rightarrow> adjacencyOrderIdentity" where
  "adjacency_identity scan = \<lparr>ao_DomainID = as_DomainID scan, ao_NodeID = as_NodeID scan, ao_Label = as_Label scan,
     ao_Direction = as_Direction scan\<rparr>"

definition cursor_of :: "string option \<Rightarrow> string" where
  "cursor_of key = (case key of None \<Rightarrow> [] | Some k \<Rightarrow> encodeIndexCursor k)"

definition ScanAdjacency ::
  "ctx \<Rightarrow> (nat \<Rightarrow> ctx) \<Rightarrow> AdjacencyScan \<Rightarrow> local_store \<Rightarrow> graph_error + edge_id list \<times> string" where
  "ScanAdjacency ctx cancel scan s =
     (case ctx of
        Some e \<Rightarrow> Inl (ErrContext e)
      | None \<Rightarrow>
          (case decodeIndexCursor (as_Cursor scan) of
             None \<Rightarrow> Inl ErrUnsupported
           | Some cursor \<Rightarrow>
               when_ready s
                 (case es_curAdj (st_edges s) (adjacency_identity scan) of
                    None \<Rightarrow> Inr ([], [])
                  | Some order \<Rightarrow>
                      (let limit = (if as_Limit scan \<le> 0 then 2 ^ 63 - 1 else as_Limit scan) in
                       case scan_loop cancel (\<lambda>ss. int (length (ss_out ss)) < limit)
                           (\<lambda>(key, i) ss. (examine key (Some i) ss, False)) 0
                           (IteratorAfter (<) (if cursor = [] then None else Some cursor) order) scan_start of
                         Inl e \<Rightarrow> Inl e
                       | Inr (ss, it) \<Rightarrow> Inr (ss_out ss, if HasNext it then cursor_of (ss_last ss) else [])))))"

definition edgeMatchesAdjacencyScan :: "AdjacencyScan \<Rightarrow> edge \<Rightarrow> bool" where
  "edgeMatchesAdjacencyScan scan e =
     (if e_DomainID e \<noteq> as_DomainID scan \<or> as_Label scan \<noteq> [] \<and> \<not> edgeHasAnyLabel e [as_Label scan] then False
      else if as_Direction scan = AdjacencyDirectionIn then e_ToID e = as_NodeID scan
      else e_FromID e = as_NodeID scan)"

definition ScanAdjacencyAt ::
  "ctx \<Rightarrow> (nat \<Rightarrow> ctx) \<Rightarrow> AdjacencyScan \<Rightarrow> u64 \<Rightarrow> int \<Rightarrow> local_store \<Rightarrow> graph_error + edge_id list \<times> string \<times> int" where
  "ScanAdjacencyAt ctx cancel scan rv examineLimit0 s =
     (case ctx of
        Some e \<Rightarrow> Inl (ErrContext e)
      | None \<Rightarrow>
          if as_Limit scan \<le> 0 then Inl (ErrInvalid ''adjacency scan limit must be positive'')
          else
            (let examineLimit = (if examineLimit0 \<le> 0 then as_Limit scan else examineLimit0) in
             case decodeIndexCursor (as_Cursor scan) of
               None \<Rightarrow> Inl ErrUnsupported
             | Some cursor \<Rightarrow>
                 when_ready s
                   (case es_histAdj (st_edges s) (adjacency_identity scan) of
                      None \<Rightarrow> Inr ([], [], 0)
                    | Some order \<Rightarrow>
                        (case scan_loop cancel (within (as_Limit scan) examineLimit)
                             (\<lambda>(key, i) ss. (examine key
                                (case entityAtRevision (es_history (st_edges s) i) rv of
                                   None \<Rightarrow> None
                                 | Some e \<Rightarrow>
                                     if encodeAdjacencyKey (cf_String (st_cfg s)) e \<noteq> key
                                        \<or> \<not> edgeMatchesAdjacencyScan scan e
                                     then None else Some i) ss, False)) 0
                             (IteratorAfter (<) (if cursor = [] then None else Some cursor) order) scan_start of
                           Inl e \<Rightarrow> Inl e
                         | Inr (ss, it) \<Rightarrow>
                             Inr (ss_out ss, if HasNext it then cursor_of (ss_last ss) else [], ss_examined ss)))))"

section \<open>Labels and tags\<close>

record LabelScan =
  ls_DomainID :: domain_id
  ls_Label :: string
  ls_Limit :: int
  ls_Cursor :: string

definition parseLabelCursor :: "local_store \<Rightarrow> string \<Rightarrow> graph_error + uuid" where
  "parseLabelCursor s cursor =
     (case decodeIndexCursor cursor of
        None \<Rightarrow> Inl ErrUnsupported
      | Some key \<Rightarrow>
          if key = [] then Inr 0
          else (case cf_Parse (st_cfg s) key of None \<Rightarrow> Inl ErrUnsupported | Some i \<Rightarrow> Inr i))"

definition scanNodeIDSet ::
  "map_order \<Rightarrow> node_id set \<Rightarrow> int \<Rightarrow> string \<Rightarrow> local_store \<Rightarrow> graph_error + node_id list \<times> string" where
  "scanNodeIDSet mo idset limit cursor s =
     (let us = cf_String (st_cfg s); ids = by_text mo s idset;
          page = (\<lambda>ids. case page_of limit ids of
             (out, last_id) \<Rightarrow> (out, case last_id of None \<Rightarrow> [] | Some i \<Rightarrow> encodeIndexCursor (us i)))
      in if cursor = [] then Inr (page ids)
         else (case parseLabelCursor s cursor of
                 Inl e \<Rightarrow> Inl e
               | Inr c \<Rightarrow> Inr (page (filter (\<lambda>i. us i > us c) ids))))"

definition ScanLabel :: "ctx \<Rightarrow> map_order \<Rightarrow> LabelScan \<Rightarrow> local_store \<Rightarrow> graph_error + node_id list \<times> string" where
  "ScanLabel ctx mo scan s =
     (case ctx of
        Some e \<Rightarrow> Inl (ErrContext e)
      | None \<Rightarrow> when_ready s
          (scanNodeIDSet mo (set2_lookup (ns_label (st_nodes s)) (ls_DomainID scan, ls_Label scan))
            (ls_Limit scan) (ls_Cursor scan) s))"

text \<open>A \<open>TagScan\<close> has the fields of a \<open>LabelScan\<close>, with the tag in place of the label.\<close>

definition ScanTag :: "ctx \<Rightarrow> map_order \<Rightarrow> LabelScan \<Rightarrow> local_store \<Rightarrow> graph_error + node_id list \<times> string" where
  "ScanTag ctx mo scan s =
     (case ctx of
        Some e \<Rightarrow> Inl (ErrContext e)
      | None \<Rightarrow> when_ready s
          (scanNodeIDSet mo (set2_lookup (ns_tag (st_nodes s)) (ls_DomainID scan, ls_Label scan))
            (ls_Limit scan) (ls_Cursor scan) s))"

end
