(* ===== verification/Graph_Recovery.thy ===== *)
theory Graph_Recovery
  imports Graph_Scans Graph_Txn Graph_Idempotency
begin

text \<open>
  Opening a graph store (\<open>open\<close>, \<open>rebuildIndexes\<close> and the replay of the segments in
  \<open>internal/graph/storage/store.go\<close>) without a checkpoint: the transaction segment gives the committed
  transactions their revisions, the node and edge segments are replayed under them, then the idempotency
  records and the ordered indexes are rebuilt. A store has one segment of each kind: the code creates no other.
\<close>

record disk =
  dk_nodes :: "bytes option"
  dk_edges :: "bytes option"
  dk_txns :: "bytes option"
  dk_manifest :: manifest_file

text \<open>What a store is opened with: the segment names of \<open>manifest.mycel\<close>, the encryption, the text form of
  identifiers and the JSON codec.\<close>

record open_cfg =
  oc_nodes :: string
  oc_edges :: string
  oc_txns :: string
  oc_enc :: "cipher_service option"
  oc_String :: "uuid \<Rightarrow> string"
  oc_Parse :: "string \<Rightarrow> uuid option"
  oc_json :: json_codec

section \<open>Replay\<close>

type_synonym commit_map = "uuid \<rightharpoonup> u64"

definition count_commit :: "scannedRecord \<Rightarrow> commit_map \<times> u64 \<Rightarrow> commit_map \<times> u64" where
  "count_commit rec cr =
     (case cr of (m, rv) \<Rightarrow>
        if rh_kind (sc_header rec) = RecordKindTxnCommit \<and> m (rh_txnID (sc_header rec)) = None
        then (m(rh_txnID (sc_header rec) \<mapsto> rv + 1), rv + 1) else (m, rv))"

fun visit_records :: "(scannedRecord \<Rightarrow> 's \<Rightarrow> graph_error + 's) \<Rightarrow> scannedRecord list \<Rightarrow> 's \<Rightarrow> graph_error + 's" where
  "visit_records f [] st = Inr st"
| "visit_records f (rec # recs) st = (case f rec st of Inl e \<Rightarrow> Inl e | Inr st' \<Rightarrow> visit_records f recs st')"

text \<open>A scan with a visitor: the error of the visitor comes before that of the scan.\<close>

definition visit_scan ::
  "(scannedRecord \<Rightarrow> 's \<Rightarrow> graph_error + 's) \<Rightarrow> scannedRecord list \<times> graph_error option \<Rightarrow> 's \<Rightarrow> graph_error + 's" where
  "visit_scan f sc st =
     (case visit_records f (fst sc) st of
        Inl e \<Rightarrow> Inl e | Inr st' \<Rightarrow> (case snd sc of None \<Rightarrow> Inr st' | Some e \<Rightarrow> Inl e))"

definition replay_node :: "store_cfg \<Rightarrow> commit_map \<Rightarrow> scannedRecord \<Rightarrow> node_state \<Rightarrow> graph_error + node_state" where
  "replay_node cfg commits rec st =
     (case commits (rh_txnID (sc_header rec)) of
        None \<Rightarrow> Inr st
      | Some rv \<Rightarrow>
          if rh_kind (sc_header rec) = RecordKindNodePut then
            (case decodeNode (sc_payload rec) of
               Inl e \<Rightarrow> Inl e
             | Inr n \<Rightarrow>
                 Inr (node_mod (n_ID n) rv (appendNodeVersion n rv (applyNodePut cfg n (sc_location rec) st))))
          else if rh_kind (sc_header rec) = RecordKindNodeTombstone then
            (let i = rh_entityID (sc_header rec)
             in Inr (node_mod i rv (appendNodeTombstone i rv (applyNodeDelete cfg i (sc_location rec) st))))
          else Inr st)"

definition replay_edge :: "store_cfg \<Rightarrow> commit_map \<Rightarrow> scannedRecord \<Rightarrow> edge_state \<Rightarrow> graph_error + edge_state" where
  "replay_edge cfg commits rec st =
     (case commits (rh_txnID (sc_header rec)) of
        None \<Rightarrow> Inr st
      | Some rv \<Rightarrow>
          if rh_kind (sc_header rec) = RecordKindEdgePut then
            (case decodeEdge (sc_payload rec) of
               Inl e \<Rightarrow> Inl e
             | Inr d \<Rightarrow>
                 Inr (edge_mod (e_ID d) rv (appendEdgeVersion d rv (applyEdgePut cfg d (sc_location rec) st))))
          else if rh_kind (sc_header rec) = RecordKindEdgeTombstone then
            (let i = rh_entityID (sc_header rec)
             in Inr (edge_mod i rv (appendEdgeTombstone i rv (applyEdgeDelete cfg i (sc_location rec) st))))
          else Inr st)"

definition replayNodeSegmentFrom ::
  "store_cfg \<Rightarrow> segment \<Rightarrow> nat \<Rightarrow> commit_map \<Rightarrow> node_state \<Rightarrow> graph_error + node_state" where
  "replayNodeSegmentFrom cfg sg off commits st =
     visit_scan (replay_node cfg commits)
       (scanSegmentFrom (cf_String cfg) (sg_id sg) SegmentKindNode (sg_enc sg) off (sg_bytes sg)) st"

definition replayEdgeSegmentFrom ::
  "store_cfg \<Rightarrow> segment \<Rightarrow> nat \<Rightarrow> commit_map \<Rightarrow> edge_state \<Rightarrow> graph_error + edge_state" where
  "replayEdgeSegmentFrom cfg sg off commits st =
     visit_scan (replay_edge cfg commits)
       (scanSegmentFrom (cf_String cfg) (sg_id sg) SegmentKindEdge (sg_enc sg) off (sg_bytes sg)) st"

section \<open>Rebuilding\<close>

definition resetIndexes :: "local_store \<Rightarrow> local_store" where
  "resetIndexes s =
     s\<lparr>st_nodes := empty_node_state, st_edges := empty_edge_state, st_indexMeta := Map.empty, st_domains := [],
       st_cfg := (st_cfg s)\<lparr>cf_Indexes := (\<lambda>_. [])\<rparr>, st_idem := []\<rparr>"

definition rebuildIndexes :: "ctx \<Rightarrow> local_store \<Rightarrow> graph_error + local_store" where
  "rebuildIndexes ctx s0 =
     (case loadIndexManifestLocked (resetIndexes s0) of
        (Some e, s1) \<Rightarrow> Inl e
      | (None, s1) \<Rightarrow>
          (case ctx of
             Some e \<Rightarrow> Inl (ErrContext e)
           | None \<Rightarrow>
               (case scanSegment (cf_String (st_cfg s1)) (sg_id (st_txnSeg s1)) SegmentKindTxn (sg_enc (st_txnSeg s1))
                       (sg_bytes (st_txnSeg s1)) of
                  (recs, Some e) \<Rightarrow> Inl e
                | (recs, None) \<Rightarrow>
                    (case fold count_commit recs (Map.empty, 0) of
                       (commits, rv) \<Rightarrow>
                         (case replayNodeSegmentFrom (st_cfg s1) (st_nodeSeg s1) segmentHeaderLen commits (st_nodes s1) of
                            Inl e \<Rightarrow> Inl e
                          | Inr ns \<Rightarrow>
                              (case replayEdgeSegmentFrom (st_cfg s1) (st_edgeSeg s1) segmentHeaderLen commits
                                      (st_edges s1) of
                                 Inl e \<Rightarrow> Inl e
                               | Inr es \<Rightarrow>
                                   Inr (s1\<lparr>st_revision := rv, st_nodes := ns, st_edges := es,
                                     st_indexMeta := (\<lambda>k. map_option (\<lambda>m. if im_BuildState m = IndexBuildStateReady
                                       then m\<lparr>im_LastIndexedGraphRevision := rv\<rparr> else m) (st_indexMeta s1 k))\<rparr>)))))))"

section \<open>Opening\<close>

text \<open>A store before its state is rebuilt.\<close>

definition opening_store :: "open_cfg \<Rightarrow> manifest_file \<Rightarrow> segment \<Rightarrow> segment \<Rightarrow> segment \<Rightarrow> local_store" where
  "opening_store oc mf nseg eseg tseg =
     \<lparr>st_state = StoreStateRebuildingIndex,
      st_cfg = \<lparr>cf_String = oc_String oc, cf_Parse = oc_Parse oc, cf_Indexes = (\<lambda>_. [])\<rparr>,
      st_json = oc_json oc, st_nodeSeg = nseg, st_edgeSeg = eseg, st_txnSeg = tseg, st_nodes = empty_node_state,
      st_edges = empty_edge_state, st_indexMeta = Map.empty, st_domains = [], st_manifest = mf, st_revision = 0,
      st_idem = [], st_evictions = 0\<rparr>"

text \<open>\<open>now\<close> is the clock when the idempotency records are loaded.\<close>

definition open_store ::
  "ctx \<Rightarrow> map_order \<Rightarrow> gotime \<Rightarrow> open_cfg \<Rightarrow> disk \<Rightarrow> graph_error + local_store" where
  "open_store ctx mo now oc dk =
     (case openSegment (oc_txns oc) SegmentKindTxn (oc_enc oc) (dk_txns dk) of
        Inl e \<Rightarrow> Inl e
      | Inr tseg \<Rightarrow>
          (case openSegment (oc_nodes oc) SegmentKindNode (oc_enc oc) (dk_nodes dk) of
             Inl e \<Rightarrow> Inl e
           | Inr nseg \<Rightarrow>
               (case openSegment (oc_edges oc) SegmentKindEdge (oc_enc oc) (dk_edges dk) of
                  Inl e \<Rightarrow> Inl e
                | Inr eseg \<Rightarrow>
                    (case rebuildIndexes ctx (opening_store oc (dk_manifest dk) nseg eseg tseg) of
                       Inl e \<Rightarrow> Inl e
                     | Inr s1 \<Rightarrow>
                         (case loadIdempotencyRecords now s1 of
                            (Some e, s2) \<Rightarrow> Inl e
                          | (None, s2) \<Rightarrow>
                              Inr (s2\<lparr>st_nodes := rebuildNodePropertyOrdersLocked mo (st_domains s2) (st_cfg s2) (st_nodes s2),
                                     st_state := StoreStateReady\<rparr>))))))"

text \<open>What a store leaves on disk.\<close>

definition disk_of :: "local_store \<Rightarrow> disk" where
  "disk_of s = \<lparr>dk_nodes = Some (sg_bytes (st_nodeSeg s)), dk_edges = Some (sg_bytes (st_edgeSeg s)),
     dk_txns = Some (sg_bytes (st_txnSeg s)), dk_manifest = st_manifest s\<rparr>"

definition empty_disk :: disk where
  "empty_disk = \<lparr>dk_nodes = None, dk_edges = None, dk_txns = None, dk_manifest = NoManifest\<rparr>"

end
