(* ===== verification/Recovery_Facts.thy ===== *)
theory Recovery_Facts
  imports Segment_Facts Store_Steps Graph_Recovery
begin

text \<open>
  What a commit leaves in the three segments, whatever the outcome of its writes, and what the replay of
  the segments makes of it.
\<close>

section \<open>The records of a transaction\<close>

definition payload_of :: "graph_error + bytes \<Rightarrow> bytes" where
  "payload_of p = (case p of Inl e \<Rightarrow> [] | Inr b \<Rightarrow> b)"

definition item_recs :: "(uuid \<Rightarrow> string) \<Rightarrow> segment \<Rightarrow> uuid \<Rightarrow> log_item list \<Rightarrow> seg_rec list" where
  "item_recs us sg t items = map (\<lambda>(k, e, p). stored_rec us sg t k e (payload_of p)) items"

fun item_scans :: "(uuid \<Rightarrow> string) \<Rightarrow> segment \<Rightarrow> uuid \<Rightarrow> nat \<Rightarrow> log_item list \<Rightarrow> scannedRecord list" where
  "item_scans us sg t off [] = []"
| "item_scans us sg t off ((k, e, p) # items) =
     read_rec us sg off t k e (payload_of p)
     # item_scans us sg t (off + length (seg_rec_bytes (stored_rec us sg t k e (payload_of p)))) items"

definition items_writable :: "(uuid \<Rightarrow> string) \<Rightarrow> segment \<Rightarrow> uuid \<Rightarrow> log_item list \<Rightarrow> bool" where
  "items_writable us sg t items \<longleftrightarrow> (\<forall>k e b. (k, e, Inr b) \<in> set items \<longrightarrow> writable us sg k t e b)"

definition items_stored :: "(uuid \<Rightarrow> string) \<Rightarrow> segment \<Rightarrow> uuid \<Rightarrow> log_item list \<Rightarrow> bool" where
  "items_stored us sg t items \<longleftrightarrow>
     list_all (\<lambda>(k, e, p). (\<exists>b. p = Inr b) \<and> encryptPayload us sg k t e (payload_of p) \<noteq> None) items"

lemma items_frame:
  assumes "seg_frame a b"
  shows "item_recs us b = item_recs us a" "items_writable us b t items \<longleftrightarrow> items_writable us a t items"
    "items_stored us b t items \<longleftrightarrow> items_stored us a t items" "item_scans us b t off items = item_scans us a t off items"
proof -
  show "item_recs us b = item_recs us a" using assms by (simp add: item_recs_def stored_rec_frame fun_eq_iff)
  show "items_writable us b t items \<longleftrightarrow> items_writable us a t items"
    using assms by (simp add: items_writable_def writable_frame)
  show "items_stored us b t items \<longleftrightarrow> items_stored us a t items"
    using assms by (simp add: items_stored_def seg_frame_encrypt)
  have "read_rec us b = read_rec us a"
    using assms stored_rec_frame [OF assms] by (simp add: read_rec_def fun_eq_iff) (simp add: seg_frame_def)
  then show "item_scans us b t off items = item_scans us a t off items"
    using stored_rec_frame [OF assms, of us] by (induction items arbitrary: off rule: list.induct) auto
qed

lemma scanned_items:
  assumes "items_writable us sg t items" "items_stored us sg t items"
  shows "scanned_list us (sg_id sg) (sg_kind sg) (sg_enc sg) off (item_recs us sg t items) = item_scans us sg t off items"
  using assms
proof (induction items arbitrary: off)
  case (Cons it items)
  obtain k e p where it: "it = (k, e, p)" by (cases it)
  from Cons.prems obtain b q where b: "p = Inr b" "encryptPayload us sg k t e b = Some q" "cipher_ok (sg_enc sg) b"
    by (auto simp: it items_stored_def items_writable_def writable_def payload_of_def)
  then have "decryptPayload us (sg_id sg) (sg_kind sg) (sg_enc sg) k t e q = Some b" by (intro stored_decrypts)
  with b have "scanned_list us (sg_id sg) (sg_kind sg) (sg_enc sg) off (item_recs us sg t (it # items)) =
      read_rec us sg off t k e b # scanned_list us (sg_id sg) (sg_kind sg) (sg_enc sg)
        (off + length (seg_rec_bytes (stored_rec us sg t k e b))) (item_recs us sg t items)"
    by (simp add: it item_recs_def payload_of_def read_rec_def stored_rec_def)
  with Cons b show ?case by (simp add: it items_writable_def items_stored_def payload_of_def)
qed (simp add: item_recs_def)

lemma append_items_cases:
  assumes "segment_holds us sg rs" "items_writable us sg t items" "append_items us w t i items sg = (res, sg')"
  shows "seg_frame sg sg'"
    and "res = Inr locs \<Longrightarrow> segment_holds us sg' (rs @ item_recs us sg t items) \<and> items_stored us sg t items \<and>
      locs = map sc_location (item_scans us sg t (length (sg_bytes sg)) items)"
    and "res = Inl err \<Longrightarrow> \<exists>rs'. (\<forall>r \<in> set rs'. sr_txn r = t) \<and> segment_reads us sg' (rs @ rs') \<and>
      ((\<forall>i. w i = WroteAll) \<longrightarrow> segment_holds us sg' (rs @ rs'))"
proof -
  have "seg_frame sg sg' \<and> (\<forall>locs. res = Inr locs \<longrightarrow> segment_holds us sg' (rs @ item_recs us sg t items) \<and>
      items_stored us sg t items \<and> locs = map sc_location (item_scans us sg t (length (sg_bytes sg)) items)) \<and>
    (\<forall>err. res = Inl err \<longrightarrow> (\<exists>rs'. (\<forall>r \<in> set rs'. sr_txn r = t) \<and> segment_reads us sg' (rs @ rs') \<and>
      ((\<forall>i. w i = WroteAll) \<longrightarrow> segment_holds us sg' (rs @ rs'))))"
    using assms
  proof (induction items arbitrary: i sg rs res sg')
    case Nil
    then show ?case by (auto simp: item_recs_def items_stored_def)
  next
    case (Cons it items)
    obtain k e p where it: "it = (k, e, p)" by (cases it)
    show ?case
    proof (cases p)
      case (Inl err)
      with Cons.prems show ?thesis by (auto simp: it intro!: exI [of _ "[]"] segment_holds_reads)
    next
      case (Inr b)
      have wr: "writable us sg k t e b" using Cons.prems(2) by (simp add: it Inr items_writable_def)
      obtain r1 sg1 where app: "appendRecord us (w i) k t e b sg = (r1, sg1)" by fastforce
      note ac = append_cases [OF Cons.prems(1) wr app]
      show ?thesis
      proof (cases r1)
        case (Inl err)
        then have "res = Inl err" "sg' = sg1" using Cons.prems(3) by (simp_all add: it Inr app)
        have "\<exists>rs'. (\<forall>r \<in> set rs'. sr_txn r = t) \<and> segment_reads us sg1 (rs @ rs') \<and>
            ((\<forall>i. w i = WroteAll) \<longrightarrow> segment_holds us sg1 (rs @ rs'))"
        proof (cases "w i = WroteAll")
          case True
          then show ?thesis using ac(4) [OF Inl] segment_holds_reads by (intro exI [of _ "[]"]) auto
        next
          case False
          with ac(3) [OF Inl] show ?thesis
            by (elim disjE) (auto intro: exI [of _ "[]"] exI [of _ "[stored_rec us sg t k e b]"])
        qed
        with ac(1) \<open>res = Inl err\<close> \<open>sg' = sg1\<close> show ?thesis by simp
      next
        case (Inr loc)
        obtain r2 sg2 where rest: "append_items us w t (Suc i) items sg1 = (r2, sg2)" by fastforce
        have fr: "seg_frame sg sg1" by (rule ac(1))
        let ?r = "stored_rec us sg t k e b"
        have h1: "segment_holds us sg1 (rs @ [?r])" "encryptPayload us sg k t e b \<noteq> None"
          "loc = sc_location (read_rec us sg (length (sg_bytes sg)) t k e b)"
          using ac(2) [OF Inr] by auto
        have "items_writable us sg t items" using Cons.prems(2) by (simp add: it items_writable_def)
        then have "items_writable us sg1 t items" using items_frame(2) [OF fr] by simp
        note ih = Cons.IH [OF h1(1) this rest, unfolded items_frame [OF fr]]
        have len: "length (sg_bytes sg1) = length (sg_bytes sg) + length (seg_rec_bytes ?r)"
          using h1(1) Cons.prems(1) fr by (simp add: segment_holds_def seg_frame_def)
        show ?thesis
        proof (cases r2)
          case (Inl err)
          then have "res = Inl err" "sg' = sg2"
            using Cons.prems(3) \<open>p = Inr b\<close> \<open>r1 = Inr loc\<close> by (simp_all add: it app rest)
          moreover obtain rs' where "\<forall>r \<in> set rs'. sr_txn r = t" "segment_reads us sg2 (rs @ ?r # rs')"
            "(\<forall>i. w i = WroteAll) \<longrightarrow> segment_holds us sg2 (rs @ ?r # rs')" using ih Inl by auto
          ultimately show ?thesis using ih fr
            by (auto intro: seg_frame_trans intro!: exI [of _ "?r # rs'"])
        next
          case (Inr locs')
          then have "res = Inr (loc # locs')" "sg' = sg2"
            using Cons.prems(3) \<open>p = Inr b\<close> \<open>r1 = Inr loc\<close> by (simp_all add: it app rest)
          with ih Inr h1 fr len \<open>p = Inr b\<close> show ?thesis
            by (auto simp: it item_recs_def items_stored_def payload_of_def intro: seg_frame_trans)
        qed
      qed
    qed
  qed
  then show "seg_frame sg sg'"
    and "res = Inr locs \<Longrightarrow> segment_holds us sg' (rs @ item_recs us sg t items) \<and> items_stored us sg t items \<and>
      locs = map sc_location (item_scans us sg t (length (sg_bytes sg)) items)"
    and "res = Inl err \<Longrightarrow> \<exists>rs'. (\<forall>r \<in> set rs'. sr_txn r = t) \<and> segment_reads us sg' (rs @ rs') \<and>
      ((\<forall>i. w i = WroteAll) \<longrightarrow> segment_holds us sg' (rs @ rs'))"
    by blast+
qed

section \<open>What a commit leaves on disk\<close>

abbreviation us_of :: "local_store \<Rightarrow> uuid \<Rightarrow> string" where
  "us_of s \<equiv> cf_String (st_cfg s)"

definition log_holds :: "local_store \<Rightarrow> seg_rec list \<Rightarrow> seg_rec list \<Rightarrow> seg_rec list \<Rightarrow> bool" where
  "log_holds s n e t \<longleftrightarrow> segment_holds (us_of s) (st_nodeSeg s) n \<and> segment_holds (us_of s) (st_edgeSeg s) e \<and>
     segment_holds (us_of s) (st_txnSeg s) t"

definition log_reads :: "local_store \<Rightarrow> seg_rec list \<Rightarrow> seg_rec list \<Rightarrow> seg_rec list \<Rightarrow> bool" where
  "log_reads s n e t \<longleftrightarrow> segment_reads (us_of s) (st_nodeSeg s) n \<and> segment_reads (us_of s) (st_edgeSeg s) e \<and>
     segment_reads (us_of s) (st_txnSeg s) t"

definition segs_frame :: "local_store \<Rightarrow> local_store \<Rightarrow> bool" where
  "segs_frame a b \<longleftrightarrow> st_cfg b = st_cfg a \<and> st_manifest b = st_manifest a \<and> seg_frame (st_nodeSeg a) (st_nodeSeg b) \<and>
     seg_frame (st_edgeSeg a) (st_edgeSeg b) \<and> seg_frame (st_txnSeg a) (st_txnSeg b)"

text \<open>The idempotency record a commit of \<open>tx\<close> may write.\<close>

definition own_idem :: "localTxn \<Rightarrow> IdempotencyRecord option \<Rightarrow> bool" where
  "own_idem tx idem \<longleftrightarrow> (case idem of None \<Rightarrow> True
     | Some q \<Rightarrow> (\<exists>r rv. tx_idem tx = Some r \<and> q = r\<lparr>ir_StorageTxnID := tx_id tx, ir_CommittedRevision := rv\<rparr>))"

definition tx_writable :: "localTxn \<Rightarrow> local_store \<Rightarrow> bool" where
  "tx_writable tx s \<longleftrightarrow>
     items_writable (us_of s) (st_nodeSeg s) (tx_id tx) (node_items tx) \<and>
     items_writable (us_of s) (st_edgeSeg s) (tx_id tx) (edge_items tx) \<and>
     writable (us_of s) (st_txnSeg s) RecordKindTxnBegin (tx_id tx) 0 [] \<and>
     (\<forall>idem p. own_idem tx idem \<and> commit_payload (st_json s) idem = Some p \<longrightarrow>
        writable (us_of s) (st_txnSeg s) RecordKindTxnCommit (tx_id tx) 0 p)"

definition io_clean :: "commit_io \<Rightarrow> bool" where
  "io_clean io \<longleftrightarrow> io_txnBegin io = WroteAll \<and> (\<forall>i. io_nodes io i = WroteAll) \<and> (\<forall>i. io_edges io i = WroteAll) \<and>
     io_txnCommit io = WroteAll \<and> io_txnSync io"

text \<open>All writes succeed; the sync of the transaction segment may still fail.\<close>

definition writes_clean :: "commit_io \<Rightarrow> bool" where
  "writes_clean io \<longleftrightarrow> io_clean (io\<lparr>io_txnSync := True\<rparr>)"

lemma clean_writes: "io_clean io \<longleftrightarrow> writes_clean io \<and> io_txnSync io"
  by (auto simp: io_clean_def writes_clean_def)

definition begin_rec :: "localTxn \<Rightarrow> local_store \<Rightarrow> seg_rec" where
  "begin_rec tx s = stored_rec (us_of s) (st_txnSeg s) (tx_id tx) RecordKindTxnBegin 0 []"

definition commit_rec :: "localTxn \<Rightarrow> bytes \<Rightarrow> local_store \<Rightarrow> seg_rec" where
  "commit_rec tx p s = stored_rec (us_of s) (st_txnSeg s) (tx_id tx) RecordKindTxnCommit 0 p"

definition node_recs :: "localTxn \<Rightarrow> local_store \<Rightarrow> seg_rec list" where
  "node_recs tx s = item_recs (us_of s) (st_nodeSeg s) (tx_id tx) (node_items tx)"

definition edge_recs :: "localTxn \<Rightarrow> local_store \<Rightarrow> seg_rec list" where
  "edge_recs tx s = item_recs (us_of s) (st_edgeSeg s) (tx_id tx) (edge_items tx)"

definition node_scans :: "localTxn \<Rightarrow> local_store \<Rightarrow> scannedRecord list" where
  "node_scans tx s = item_scans (us_of s) (st_nodeSeg s) (tx_id tx) (length (sg_bytes (st_nodeSeg s))) (node_items tx)"

definition edge_scans :: "localTxn \<Rightarrow> local_store \<Rightarrow> scannedRecord list" where
  "edge_scans tx s = item_scans (us_of s) (st_edgeSeg s) (tx_id tx) (length (sg_bytes (st_edgeSeg s))) (edge_items tx)"

text \<open>\<open>in_doubt\<close>: records of \<open>tx\<close> but no commit record; \<open>on_disk\<close>: all of them and the commit record.\<close>

definition in_doubt :: "localTxn \<Rightarrow> (local_store \<Rightarrow> seg_rec list \<Rightarrow> seg_rec list \<Rightarrow> seg_rec list \<Rightarrow> bool) \<Rightarrow>
  local_store \<Rightarrow> local_store \<Rightarrow> seg_rec list \<Rightarrow> seg_rec list \<Rightarrow> seg_rec list \<Rightarrow> bool" where
  "in_doubt tx P s s1 n e t \<longleftrightarrow>
     (\<exists>n' e' t'. P s1 (n @ n') (e @ e') (t @ t') \<and> (\<forall>r \<in> set (n' @ e'). sr_txn r = tx_id tx) \<and>
        (t' = [] \<or> t' = [begin_rec tx s] \<and>
           encryptPayload (us_of s) (st_txnSeg s) RecordKindTxnBegin (tx_id tx) 0 [] \<noteq> None))"

definition on_disk :: "localTxn \<Rightarrow> IdempotencyRecord option \<Rightarrow>
  (local_store \<Rightarrow> seg_rec list \<Rightarrow> seg_rec list \<Rightarrow> seg_rec list \<Rightarrow> bool) \<Rightarrow>
  local_store \<Rightarrow> local_store \<Rightarrow> seg_rec list \<Rightarrow> seg_rec list \<Rightarrow> seg_rec list \<Rightarrow> bool" where
  "on_disk tx idem P s s1 n e t \<longleftrightarrow>
     (\<exists>p. P s1 (n @ node_recs tx s) (e @ edge_recs tx s) (t @ [begin_rec tx s, commit_rec tx p s]) \<and>
        items_stored (us_of s) (st_nodeSeg s) (tx_id tx) (node_items tx) \<and>
        items_stored (us_of s) (st_edgeSeg s) (tx_id tx) (edge_items tx) \<and>
        encryptPayload (us_of s) (st_txnSeg s) RecordKindTxnBegin (tx_id tx) 0 [] \<noteq> None \<and>
        commit_payload (st_json s) idem = Some p \<and>
        encryptPayload (us_of s) (st_txnSeg s) RecordKindTxnCommit (tx_id tx) 0 p \<noteq> None)"

lemma log_holds_reads: "log_holds s n e t \<Longrightarrow> log_reads s n e t"
  by (simp add: log_holds_def log_reads_def segment_holds_reads)

lemma in_doubt_reads: "in_doubt tx log_holds s s1 n e t \<Longrightarrow> in_doubt tx log_reads s s1 n e t"
  unfolding in_doubt_def using log_holds_reads by blast

lemma on_disk_reads: "on_disk tx idem log_holds s s1 n e t \<Longrightarrow> on_disk tx idem log_reads s s1 n e t"
  unfolding on_disk_def using log_holds_reads by blast

lemma in_doubtI:
  assumes "P s1 (n @ n') (e @ e') (t @ t')" "\<forall>r \<in> set n'. sr_txn r = tx_id tx" "\<forall>r \<in> set e'. sr_txn r = tx_id tx"
    and "t' = [] \<or> t' = [begin_rec tx s] \<and>
      encryptPayload (us_of s) (st_txnSeg s) RecordKindTxnBegin (tx_id tx) 0 [] \<noteq> None"
  shows "in_doubt tx P s s1 n e t"
  using assms unfolding in_doubt_def by (intro exI [of _ n'] exI [of _ e'] exI [of _ t']) auto

lemma commit_write_disk:
  assumes holds: "log_holds s n e t" and wr: "tx_writable tx s" "own_idem tx idem"
    and cw: "commit_write io tx idem s = (out, s1)"
  obtains (lost) err where "out = Inl err" "segs_frame s s1" "in_doubt tx log_reads s s1 n e t"
      "io_clean io \<Longrightarrow> in_doubt tx log_holds s s1 n e t"
    | (kept) "segs_frame s s1" "on_disk tx idem log_reads s s1 n e t" "io_clean io \<Longrightarrow> \<exists>locs. out = Inr locs"
      "writes_clean io \<Longrightarrow> on_disk tx idem log_holds s s1 n e t"
      "\<And>nlocs elocs. out = Inr (nlocs, elocs) \<Longrightarrow> on_disk tx idem log_holds s s1 n e t \<and>
        nlocs = map sc_location (node_scans tx s) \<and> elocs = map sc_location (edge_scans tx s)"
proof -
  let ?us = "us_of s"
  note h = holds [unfolded log_holds_def] and w = wr(1) [unfolded tx_writable_def]
  note r = segment_holds_reads
  obtain b sg1 where b: "appendRecord ?us (io_txnBegin io) RecordKindTxnBegin (tx_id tx) 0 [] (st_txnSeg s) = (b, sg1)"
    by fastforce
  note acb = append_cases [OF conjunct2 [OF conjunct2 [OF h]] _ b] 
  have wb: "writable ?us (st_txnSeg s) RecordKindTxnBegin (tx_id tx) 0 []" using w by blast
  note acb = acb [OF wb, folded begin_rec_def]
  show thesis
  proof (cases b)
    case (Inl err)
    with cw b have "out = Inl err" "s1 = s\<lparr>st_txnSeg := sg1\<rparr>" by (simp_all add: commit_write_def)
    then have fr: "segs_frame s s1" using acb(1) by (simp add: segs_frame_def)
    have d: "in_doubt tx log_reads s s1 n e t"
      using acb(3) [OF Inl]
    proof (elim disjE)
      assume "segment_reads ?us sg1 t"
      then show ?thesis using \<open>s1 = _\<close> h r by (intro in_doubtI [of _ _ _ "[]" _ "[]" _ "[]"]) (simp_all add: log_reads_def)
    next
      assume "segment_reads ?us sg1 (t @ [begin_rec tx s]) \<and>
        encryptPayload ?us (st_txnSeg s) RecordKindTxnBegin (tx_id tx) 0 [] \<noteq> None"
      then show ?thesis using \<open>s1 = _\<close> h r
        by (intro in_doubtI [of _ _ _ "[]" _ "[]" _ "[begin_rec tx s]"]) (simp_all add: log_reads_def)
    qed
    have "in_doubt tx log_holds s s1 n e t" if "io_clean io"
      using acb(4) [OF Inl] that \<open>s1 = _\<close> h
      by (intro in_doubtI [of _ _ _ "[]" _ "[]" _ "[]"]) (simp_all add: log_holds_def io_clean_def)
    with d fr \<open>out = Inl err\<close> lost show thesis by blast
  next
    case (Inr loc0)
    note b1 = acb(2) [OF Inr] and fb = acb(1)
    obtain nr sgn where nr: "append_items ?us (io_nodes io) (tx_id tx) 0 (node_items tx) (st_nodeSeg s) = (nr, sgn)" by fastforce
    have wn: "items_writable ?us (st_nodeSeg s) (tx_id tx) (node_items tx)" using w by blast
    note acn = append_items_cases [OF conjunct1 [OF h] wn nr]
    show thesis
    proof (cases nr)
      case (Inl err)
      with cw b Inr nr have o: "out = Inl err" "s1 = s\<lparr>st_txnSeg := sg1, st_nodeSeg := sgn\<rparr>"
        by (simp_all add: commit_write_def)
      obtain n' where "\<forall>r \<in> set n'. sr_txn r = tx_id tx" "segment_reads ?us sgn (n @ n')"
        "(\<forall>i. io_nodes io i = WroteAll) \<longrightarrow> segment_holds ?us sgn (n @ n')" using acn(3) [OF Inl] by blast
      with o acn(1) b1 fb h r show thesis
        by (intro lost [of err] in_doubtI [of _ _ _ n' _ "[]" _ "[begin_rec tx s]"])
          (simp_all add: segs_frame_def log_reads_def log_holds_def io_clean_def begin_rec_def)
    next
      case (Inr nlocs)
      note n1 = acn(2) [OF Inr] and fn = acn(1)
      obtain er sge where er: "append_items ?us (io_edges io) (tx_id tx) 0 (edge_items tx) (st_edgeSeg s) = (er, sge)"
        by fastforce
      have we: "items_writable ?us (st_edgeSeg s) (tx_id tx) (edge_items tx)" using w by blast
      note ace = append_items_cases [OF conjunct1 [OF conjunct2 [OF h]] we er]
      define s2 where "s2 = s\<lparr>st_txnSeg := sg1, st_nodeSeg := sgn, st_edgeSeg := sge\<rparr>"
      have tn: "\<forall>r \<in> set (node_recs tx s). sr_txn r = tx_id tx" "\<forall>r \<in> set (edge_recs tx s). sr_txn r = tx_id tx"
        by (auto simp: node_recs_def edge_recs_def item_recs_def)
      show thesis
      proof (cases er)
        case (Inl err)
        with cw b \<open>b = Inr loc0\<close> nr Inr er have o: "out = Inl err" "s1 = s2"
          by (simp_all add: commit_write_def s2_def)
        obtain e' where "\<forall>r \<in> set e'. sr_txn r = tx_id tx" "segment_reads ?us sge (e @ e')"
          "(\<forall>i. io_edges io i = WroteAll) \<longrightarrow> segment_holds ?us sge (e @ e')" using ace(3) [OF Inl] by blast
        with o ace(1) fn n1 b1 fb h r tn show thesis
          by (intro lost [of err] in_doubtI [of _ _ _ "node_recs tx s" _ e' _ "[begin_rec tx s]"])
            (simp_all add: segs_frame_def log_reads_def log_holds_def io_clean_def begin_rec_def s2_def
              node_recs_def)
      next
        case (Inr elocs)
        note e1 = ace(2) [OF Inr] and fe = ace(1)
        have holds2: "log_holds s2 (n @ node_recs tx s) (e @ edge_recs tx s) (t @ [begin_rec tx s])"
          and fr2: "segs_frame s s2" using n1 e1 b1 fn fe fb
          by (simp_all add: log_holds_def s2_def node_recs_def edge_recs_def segs_frame_def begin_rec_def)
        have doubt: "in_doubt tx log_holds s s2 n e t" using b1 by (intro in_doubtI [where P = log_holds, OF holds2 tn]) simp
        have cw2: "commit_write io tx idem s =
          (if \<not> syncDataSegments io tx then (Inl ErrSync, s2)
           else (case (case tx_hook tx of None \<Rightarrow> None | Some h \<Rightarrow> h (commit_info tx s2)) of
               Some e \<Rightarrow> (Inl e, s2)
             | None \<Rightarrow> (case commit_payload (st_json s) idem of
                 None \<Rightarrow> (Inl ErrUnsupported, s2)
               | Some payload \<Rightarrow> (case appendRecord ?us (io_txnCommit io) RecordKindTxnCommit (tx_id tx) 0 payload sg1 of
                   (Inl e, sg) \<Rightarrow> (Inl e, s2\<lparr>st_txnSeg := sg\<rparr>)
                 | (Inr _, sg) \<Rightarrow> if \<not> io_txnSync io then (Inl ErrSync, s2\<lparr>st_txnSeg := sg\<rparr>)
                     else (Inr (nlocs, elocs), s2\<lparr>st_txnSeg := sg\<rparr>)))))"
          unfolding commit_write_def Let_def s2_def
          using b \<open>b = Inr loc0\<close> nr \<open>nr = Inr nlocs\<close> er Inr by (simp cong: option.case_cong)
        show thesis
        proof (cases "s1 = s2 \<and> (\<exists>err. out = Inl err)")
          case True
          with doubt in_doubt_reads [OF doubt] fr2 lost show thesis by blast
        next
          case False
          from False [unfolded not_ex] cw [unfolded cw2] obtain p where
            p: "commit_payload (st_json s) idem = Some p"
            and go: "(case appendRecord ?us (io_txnCommit io) RecordKindTxnCommit (tx_id tx) 0 p sg1 of
                   (Inl e, sg) \<Rightarrow> (Inl e, s2\<lparr>st_txnSeg := sg\<rparr>)
                 | (Inr _, sg) \<Rightarrow> if \<not> io_txnSync io then (Inl ErrSync, s2\<lparr>st_txnSeg := sg\<rparr>)
                     else (Inr (nlocs, elocs), s2\<lparr>st_txnSeg := sg\<rparr>)) = (out, s1)"
            by (auto split: if_splits option.splits)
          obtain c sgc where c: "appendRecord ?us (io_txnCommit io) RecordKindTxnCommit (tx_id tx) 0 p sg1 = (c, sgc)"
            by fastforce
          have "writable ?us (st_txnSeg s) RecordKindTxnCommit (tx_id tx) 0 p" using w wr(2) p by blast
          then have wc: "writable ?us sg1 RecordKindTxnCommit (tx_id tx) 0 p" using writable_frame [OF fb] by simp
          have hb: "segment_holds ?us sg1 (t @ [begin_rec tx s])" using b1 by (simp add: begin_rec_def)
          note acc = append_cases [OF hb wc c, unfolded stored_rec_frame [OF fb], folded commit_rec_def,
              unfolded seg_frame_encrypt [OF fb]]
          have s1: "s1 = s2\<lparr>st_txnSeg := sgc\<rparr>" using go by (auto simp: c split: sum.splits if_splits)
          have fr: "segs_frame s s1"
            using fr2 acc(1) fb by (auto simp: segs_frame_def s1 s2_def intro: seg_frame_trans)
          have sides: "items_stored ?us (st_nodeSeg s) (tx_id tx) (node_items tx)"
            "items_stored ?us (st_edgeSeg s) (tx_id tx) (edge_items tx)"
            "encryptPayload ?us (st_txnSeg s) RecordKindTxnBegin (tx_id tx) 0 [] \<noteq> None"
            using n1 e1 b1 by blast+
          have step: "Q s1 (n @ node_recs tx s) (e @ edge_recs tx s) (t @ [begin_rec tx s, commit_rec tx p s])"
            if "segP ?us sgc (t @ [begin_rec tx s, commit_rec tx p s])"
              "Q = log_holds \<and> segP = segment_holds \<or> Q = log_reads \<and> segP = segment_reads" for Q segP
            using that holds2 r by (auto simp: log_holds_def log_reads_def s1 s2_def)
          show thesis
          proof (cases c)
            case (Inl err)
            then have o: "out = Inl err" using go c by simp
            from acc(3) [OF Inl] consider (a) "segment_reads ?us sgc (t @ [begin_rec tx s])"
              | (b) "segment_reads ?us sgc (t @ [begin_rec tx s, commit_rec tx p s])"
                "encryptPayload ?us (st_txnSeg s) RecordKindTxnCommit (tx_id tx) 0 p \<noteq> None"
              by (auto simp: commit_rec_def)
            moreover have clean: "writes_clean io \<Longrightarrow> segment_holds ?us sgc (t @ [begin_rec tx s])"
              using acc(4) [OF Inl] by (simp add: io_clean_def writes_clean_def)
            have doubt1: "in_doubt tx P s s1 n e t" if "P s1 (n @ node_recs tx s) (e @ edge_recs tx s) (t @ [begin_rec tx s])" for P
              using sides(3) by (intro in_doubtI [where P = P, OF that tn]) simp
            ultimately show thesis
            proof cases
              case a
              have "log_reads s1 (n @ node_recs tx s) (e @ edge_recs tx s) (t @ [begin_rec tx s])"
                using a holds2 r by (simp add: log_holds_def log_reads_def s1 s2_def)
              moreover have "io_clean io \<Longrightarrow> log_holds s1 (n @ node_recs tx s) (e @ edge_recs tx s) (t @ [begin_rec tx s])"
                using clean holds2 by (simp add: log_holds_def s1 s2_def clean_writes)
              ultimately show thesis using lost [OF o fr] doubt1 by blast
            next
              case b
              show thesis
              proof (cases "writes_clean io")
                case True
                then have "log_holds s1 (n @ node_recs tx s) (e @ edge_recs tx s) (t @ [begin_rec tx s])"
                  using clean holds2 by (simp add: log_holds_def s1 s2_def)
                then have "in_doubt tx log_holds s s1 n e t" by (rule doubt1)
                with lost [OF o fr] in_doubt_reads show thesis by blast
              next
                case False
                have "on_disk tx idem log_reads s s1 n e t"
                  unfolding on_disk_def using step [of segment_reads log_reads] b sides p by blast
                with kept [OF fr] False o show thesis by (simp add: clean_writes)
              qed
            qed
          next
            case (Inr locc)
            have od: "on_disk tx idem log_holds s s1 n e t"
              unfolding on_disk_def using step [of segment_holds log_holds] acc(2) [OF Inr] sides p
              by (auto simp: commit_rec_def)
            have o: "out = (if io_txnSync io then Inr (nlocs, elocs) else Inl ErrSync)" using go c Inr by (simp split: if_splits)
            have "nlocs = map sc_location (node_scans tx s)" "elocs = map sc_location (edge_scans tx s)"
              using n1 e1 by (simp_all add: node_scans_def edge_scans_def)
            then have "out = Inr (nl, el) \<Longrightarrow> on_disk tx idem log_holds s s1 n e t \<and>
                nl = map sc_location (node_scans tx s) \<and> el = map sc_location (edge_scans tx s)" for nl el
              using o od by (cases "io_txnSync io") simp_all
            moreover have "io_clean io \<Longrightarrow> \<exists>locs. out = Inr locs" using o by (simp add: io_clean_def)
            ultimately show thesis using kept [OF fr on_disk_reads [OF od]] od by blast
          qed
        qed
      qed
    qed
  qed
qed

end
