(* ===== verification/Replay_Facts.thy ===== *)
theory Replay_Facts
  imports Recovery_Facts
begin

text \<open>
  Replaying the segments: applying and versioning one record after the other, as the replay does, gives what a
  commit makes by applying all and then versioning all; records of transactions without a commit are skipped.
\<close>

section \<open>Applying does not look at the history\<close>

definition with_history :: "(node_id \<Rightarrow> node entityVersion list) \<Rightarrow> (node_id \<Rightarrow> u64) \<Rightarrow> node_state \<Rightarrow> node_state" where
  "with_history h m st = st\<lparr>ns_history := h, ns_modRev := m\<rparr>"

definition with_edge_history :: "(edge_id \<Rightarrow> edge entityVersion list) \<Rightarrow> (edge_id \<Rightarrow> u64) \<Rightarrow> edge_state \<Rightarrow> edge_state" where
  "with_edge_history h m st = st\<lparr>es_history := h, es_modRev := m\<rparr>"

lemma fold_commutes: "(\<And>x s. f x (g s) = g (f x s)) \<Longrightarrow> fold f xs (g s) = g (fold f xs s)"
  by (induction xs arbitrary: s) simp_all

lemma node_prop_with_history:
  "addNodePropertyIndexEntry cfg n idx (with_history h m st) = with_history h m (addNodePropertyIndexEntry cfg n idx st)"
  "removeNodePropertyIndexEntry cfg n idx (with_history h m st) = with_history h m (removeNodePropertyIndexEntry cfg n idx st)"
  by (simp_all add: addNodePropertyIndexEntry_def removeNodePropertyIndexEntry_def with_history_def Let_def
      split: sum.split option.split)

lemma edge_prop_with_history:
  "addEdgePropertyIndexEntry cfg e idx (with_edge_history h m st) =
     with_edge_history h m (addEdgePropertyIndexEntry cfg e idx st)"
  "removeEdgePropertyIndexEntry cfg e idx (with_edge_history h m st) =
     with_edge_history h m (removeEdgePropertyIndexEntry cfg e idx st)"
  by (simp_all add: addEdgePropertyIndexEntry_def removeEdgePropertyIndexEntry_def with_edge_history_def Let_def
      split: sum.split option.split)

lemma with_history_upd:
  "(with_history h m st)\<lparr>ns_records := a\<rparr> = with_history h m (st\<lparr>ns_records := a\<rparr>)"
  "(with_history h m st)\<lparr>ns_meta := b\<rparr> = with_history h m (st\<lparr>ns_meta := b\<rparr>)"
  "(with_history h m st)\<lparr>ns_byDomain := c\<rparr> = with_history h m (st\<lparr>ns_byDomain := c\<rparr>)"
  "(with_history h m st)\<lparr>ns_currentOrder := d\<rparr> = with_history h m (st\<lparr>ns_currentOrder := d\<rparr>)"
  "(with_history h m st)\<lparr>ns_historyOrder := d\<rparr> = with_history h m (st\<lparr>ns_historyOrder := d\<rparr>)"
  "(with_history h m st)\<lparr>ns_label := e\<rparr> = with_history h m (st\<lparr>ns_label := e\<rparr>)"
  "(with_history h m st)\<lparr>ns_tag := e\<rparr> = with_history h m (st\<lparr>ns_tag := e\<rparr>)"
  "(with_history h m st)\<lparr>ns_journalDay := f\<rparr> = with_history h m (st\<lparr>ns_journalDay := f\<rparr>)"
  "(with_history h m st)\<lparr>ns_blobRefs := g\<rparr> = with_history h m (st\<lparr>ns_blobRefs := g\<rparr>)"
  by (simp_all add: with_history_def)

lemma with_history_sel:
  "ns_records (with_history h m st) = ns_records st" "ns_meta (with_history h m st) = ns_meta st"
  "ns_byDomain (with_history h m st) = ns_byDomain st" "ns_currentOrder (with_history h m st) = ns_currentOrder st"
  "ns_historyOrder (with_history h m st) = ns_historyOrder st" "ns_label (with_history h m st) = ns_label st"
  "ns_tag (with_history h m st) = ns_tag st" "ns_journalDay (with_history h m st) = ns_journalDay st"
  "ns_blobRefs (with_history h m st) = ns_blobRefs st"
  by (simp_all add: with_history_def)

lemma with_edge_history_upd:
  "(with_edge_history h m st)\<lparr>es_records := a\<rparr> = with_edge_history h m (st\<lparr>es_records := a\<rparr>)"
  "(with_edge_history h m st)\<lparr>es_meta := b\<rparr> = with_edge_history h m (st\<lparr>es_meta := b\<rparr>)"
  "(with_edge_history h m st)\<lparr>es_index := c\<rparr> = with_edge_history h m (st\<lparr>es_index := c\<rparr>)"
  "(with_edge_history h m st)\<lparr>es_adjOut := d\<rparr> = with_edge_history h m (st\<lparr>es_adjOut := d\<rparr>)"
  "(with_edge_history h m st)\<lparr>es_adjIn := d\<rparr> = with_edge_history h m (st\<lparr>es_adjIn := d\<rparr>)"
  "(with_edge_history h m st)\<lparr>es_curAdj := e\<rparr> = with_edge_history h m (st\<lparr>es_curAdj := e\<rparr>)"
  "(with_edge_history h m st)\<lparr>es_histAdj := e\<rparr> = with_edge_history h m (st\<lparr>es_histAdj := e\<rparr>)"
  "(with_edge_history h m st)\<lparr>es_children := f\<rparr> = with_edge_history h m (st\<lparr>es_children := f\<rparr>)"
  "(with_edge_history h m st)\<lparr>es_parent := g\<rparr> = with_edge_history h m (st\<lparr>es_parent := g\<rparr>)"
  by (simp_all add: with_edge_history_def)

lemma with_edge_history_sel:
  "es_records (with_edge_history h m st) = es_records st" "es_meta (with_edge_history h m st) = es_meta st"
  "es_index (with_edge_history h m st) = es_index st" "es_adjOut (with_edge_history h m st) = es_adjOut st"
  "es_adjIn (with_edge_history h m st) = es_adjIn st" "es_curAdj (with_edge_history h m st) = es_curAdj st"
  "es_histAdj (with_edge_history h m st) = es_histAdj st" "es_children (with_edge_history h m st) = es_children st"
  "es_parent (with_edge_history h m st) = es_parent st"
  by (simp_all add: with_edge_history_def)

lemma fold_prop_with_history:
  "fold (addNodePropertyIndexEntry cfg n) xs (with_history h m st) =
     with_history h m (fold (addNodePropertyIndexEntry cfg n) xs st)"
  "fold (removeNodePropertyIndexEntry cfg n) xs (with_history h m st) =
     with_history h m (fold (removeNodePropertyIndexEntry cfg n) xs st)"
  by (intro fold_commutes node_prop_with_history)+

lemma fold_prop_with_edge_history:
  "fold (addEdgePropertyIndexEntry cfg e) xs (with_edge_history eh m es) =
     with_edge_history eh m (fold (addEdgePropertyIndexEntry cfg e) xs es)"
  "fold (removeEdgePropertyIndexEntry cfg e) xs (with_edge_history eh m es) =
     with_edge_history eh m (fold (removeEdgePropertyIndexEntry cfg e) xs es)"
  by (intro fold_commutes edge_prop_with_history)+

lemmas node_history_simps = with_history_upd with_history_sel fold_prop_with_history
lemmas edge_history_simps = with_edge_history_upd with_edge_history_sel fold_prop_with_edge_history

lemma removeNodeIndexes_history: "removeNodeIndexes cfg n (with_history h m st) = with_history h m (removeNodeIndexes cfg n st)"
  by (simp add: removeNodeIndexes_def Let_def node_history_simps)

lemma removeEdgeIndexes_history:
  "removeEdgeIndexes cfg e (with_edge_history h m st) = with_edge_history h m (removeEdgeIndexes cfg e st)"
  by (simp add: removeEdgeIndexes_def removeEdgeAdjacencyIndexes_def remove_contains_def Let_def edge_history_simps)

lemma node_op_history: "node_op cfg op (with_history h m st) = with_history h m (node_op cfg op st)"
  by (cases op) (simp_all add: applyNodePut_def applyNodeDelete_def Let_def node_history_simps removeNodeIndexes_history
      split: option.split)

lemma edge_op_history: "edge_op cfg op (with_edge_history h m st) = with_edge_history h m (edge_op cfg op st)"
  by (cases op) (simp_all add: applyEdgePut_def applyEdgeDelete_def addEdgeAdjacencyIndexes_def addEdgeAdjacencyOrders_def
      add_contains_def Let_def edge_history_simps removeEdgeIndexes_history split: option.split)

section \<open>One record after the other\<close>

primrec node_vers :: "u64 \<Rightarrow> node entity_op \<Rightarrow> node_state \<Rightarrow> node_state" where
  "node_vers rv (OpPut n loc) st = node_mod (n_ID n) rv (appendNodeVersion n rv st)"
| "node_vers rv (OpDel i loc) st = node_mod i rv (appendNodeTombstone i rv st)"

primrec edge_vers :: "u64 \<Rightarrow> edge entity_op \<Rightarrow> edge_state \<Rightarrow> edge_state" where
  "edge_vers rv (OpPut e loc) st = edge_mod (e_ID e) rv (appendEdgeVersion e rv st)"
| "edge_vers rv (OpDel i loc) st = edge_mod i rv (appendEdgeTombstone i rv st)"

lemma node_vers_history:
  "node_vers rv op st = with_history (op_history n_ID rv op (ns_history st)) ((ns_modRev st)(op_id n_ID op := rv)) st"
  by (cases op) (simp_all add: node_mod_def appendNodeVersion_def appendNodeTombstone_def with_history_def)

lemma edge_vers_history:
  "edge_vers rv op st = with_edge_history (op_history e_ID rv op (es_history st)) ((es_modRev st)(op_id e_ID op := rv)) st"
  by (cases op) (simp_all add: edge_mod_def appendEdgeVersion_def appendEdgeTombstone_def with_edge_history_def)

lemma node_op_vers: "node_op cfg op (node_vers rv op' st) = node_vers rv op' (node_op cfg op st)"
  by (simp add: node_vers_history node_op_history node_op_fields)

lemma edge_op_vers: "edge_op cfg op (edge_vers rv op' st) = edge_vers rv op' (edge_op cfg op st)"
  by (simp add: edge_vers_history edge_op_history edge_op_fields)

lemma fold_interleave:
  assumes "\<And>x y s. f x (g y s) = g y (f x s)"
  shows "fold (\<lambda>x s. g x (f x s)) xs s = fold g xs (fold f xs s)"
proof (induction xs arbitrary: s)
  case (Cons x xs)
  have "fold f xs (g x s') = g x (fold f xs s')" for s'
    using assms by (intro fold_commutes) simp
  with Cons show ?case by simp
qed simp

definition node_step :: "store_cfg \<Rightarrow> u64 \<Rightarrow> node entity_op \<Rightarrow> node_state \<Rightarrow> node_state" where
  "node_step cfg rv op st = node_vers rv op (node_op cfg op st)"

definition edge_step :: "store_cfg \<Rightarrow> u64 \<Rightarrow> edge entity_op \<Rightarrow> edge_state \<Rightarrow> edge_state" where
  "edge_step cfg rv op st = edge_vers rv op (edge_op cfg op st)"

lemma fold_map_zip: "length ys = length xs \<Longrightarrow> (\<And>x y. f (m x y) = g x) \<Longrightarrow>
  fold f (map (\<lambda>(x, y). m x y) (zip xs ys)) = fold g xs"
proof (induction xs arbitrary: ys)
  case (Cons x xs)
  then show ?case by (cases ys) auto
qed simp

lemma version_nodes_fold:
  assumes "length locs = length (tx_nodePuts t) + length (tx_nodeDeletes t)"
  shows "version_nodes rv t st = fold (node_vers rv) (commit_ops (tx_nodePuts t) (tx_nodeDeletes t) locs) st"
proof -
  have "fold (node_vers rv) (map (\<lambda>(n, loc). OpPut n loc) (zip (tx_nodePuts t) (take (length (tx_nodePuts t)) locs))) =
      fold (\<lambda>n s. node_mod (n_ID n) rv (appendNodeVersion n rv s)) (tx_nodePuts t)"
    by (rule fold_map_zip) (use assms in auto)
  moreover have "fold (node_vers rv) (map (\<lambda>(i, loc). OpDel i loc) (zip (tx_nodeDeletes t) (drop (length (tx_nodePuts t)) locs))) =
      fold (\<lambda>i s. node_mod i rv (appendNodeTombstone i rv s)) (tx_nodeDeletes t)"
    by (rule fold_map_zip) (use assms in auto)
  ultimately show ?thesis by (simp add: version_nodes_def commit_ops_def)
qed

lemma version_edges_fold:
  assumes "length locs = length (tx_edgePuts t) + length (tx_edgeDeletes t)"
  shows "version_edges rv t st = fold (edge_vers rv) (commit_ops (tx_edgePuts t) (tx_edgeDeletes t) locs) st"
proof -
  have "fold (edge_vers rv) (map (\<lambda>(e, loc). OpPut e loc) (zip (tx_edgePuts t) (take (length (tx_edgePuts t)) locs))) =
      fold (\<lambda>e s. edge_mod (e_ID e) rv (appendEdgeVersion e rv s)) (tx_edgePuts t)"
    by (rule fold_map_zip) (use assms in auto)
  moreover have "fold (edge_vers rv) (map (\<lambda>(i, loc). OpDel i loc) (zip (tx_edgeDeletes t) (drop (length (tx_edgePuts t)) locs))) =
      fold (\<lambda>i s. edge_mod i rv (appendEdgeTombstone i rv s)) (tx_edgeDeletes t)"
    by (rule fold_map_zip) (use assms in auto)
  ultimately show ?thesis by (simp add: version_edges_def commit_ops_def)
qed

lemma commit_nodes_fold:
  assumes "length locs = length (tx_nodePuts t) + length (tx_nodeDeletes t)"
  shows "version_nodes rv t (apply_nodes cfg t locs st) =
    fold (node_step cfg rv) (commit_ops (tx_nodePuts t) (tx_nodeDeletes t) locs) st"
  unfolding version_nodes_fold [OF assms] apply_nodes_ops node_step_def
  by (rule fold_interleave [symmetric]) (rule node_op_vers)

lemma commit_edges_fold:
  assumes "length locs = length (tx_edgePuts t) + length (tx_edgeDeletes t)"
  shows "version_edges rv t (apply_edges cfg t locs st) =
    fold (edge_step cfg rv) (commit_ops (tx_edgePuts t) (tx_edgeDeletes t) locs) st"
  unfolding version_edges_fold [OF assms] apply_edges_ops edge_step_def
  by (rule fold_interleave [symmetric]) (rule edge_op_vers)

section \<open>Replaying the records of a transaction\<close>

lemma visit_records_append:
  "visit_records f (xs @ ys) st = (case visit_records f xs st of Inl e \<Rightarrow> Inl e | Inr st' \<Rightarrow> visit_records f ys st')"
  by (induction xs arbitrary: st) (simp_all split: sum.split)

lemma visit_records_cong:
  "(\<And>r st. r \<in> set rs \<Longrightarrow> f r st = g r st) \<Longrightarrow> visit_records f rs st = visit_records g rs st"
  by (induction rs arbitrary: st) (simp_all split: sum.split)

lemma visit_records_skip:
  "(\<And>r st. r \<in> set rs \<Longrightarrow> f r st = Inr st) \<Longrightarrow> visit_records f rs st = Inr st"
  by (induction rs arbitrary: st) simp_all

lemma item_scans_facts:
  "length (item_scans us sg t off items) = length items"
  "rec \<in> set (item_scans us sg t off items) \<Longrightarrow> rh_txnID (sc_header rec) = t"
  by (induction us sg t off items rule: item_scans.induct) (auto simp: read_rec_def scanned_of_def)

lemma visit_items:
  assumes "list_all2 (\<lambda>(k, e, p) mk. \<forall>off st. f (read_rec us sg off t k e (payload_of p)) st =
      Inr (g (mk (sc_location (read_rec us sg off t k e (payload_of p)))) st)) items mks"
  shows "visit_records f (item_scans us sg t off items) st =
    Inr (fold g (map (\<lambda>(mk, loc). mk loc) (zip mks (map sc_location (item_scans us sg t off items)))) st)"
  using assms
proof (induction items arbitrary: mks off st)
  case (Cons it items)
  then show ?case by (cases it; cases mks) auto
qed simp

lemma map_zip_ops:
  assumes "length locs = length puts + length dels"
  shows "map (\<lambda>(mk, loc). mk loc) (zip (map OpPut puts @ map OpDel dels) locs) = commit_ops puts dels locs"
proof -
  have "zip (map OpPut puts @ map OpDel dels) locs =
      zip (map OpPut puts) (take (length puts) locs) @ zip (map OpDel dels) (drop (length puts) locs)"
    using assms by (simp add: zip_append1)
  then show ?thesis by (simp add: commit_ops_def zip_map1 split_def)
qed

definition node_stable :: "node \<Rightarrow> bool" where
  "node_stable n \<longleftrightarrow> (\<forall>bs. encodeNode n = Inr bs \<longrightarrow> decodeNode bs = Inr n)"

definition edge_stable :: "edge \<Rightarrow> bool" where
  "edge_stable e \<longleftrightarrow> (\<forall>bs. encodeEdge e = Inr bs \<longrightarrow> decodeEdge bs = Inr e)"

lemma read_rec_fields:
  "rh_kind (sc_header (read_rec us sg off t k e p)) = k" "rh_txnID (sc_header (read_rec us sg off t k e p)) = t"
  "rh_entityID (sc_header (read_rec us sg off t k e p)) = e" "sc_payload (read_rec us sg off t k e p) = p"
  by (simp_all add: read_rec_def scanned_of_def)

lemma items_stored_encodes:
  "items_stored us sg t (map (\<lambda>x. (k, ident x, enc x)) xs @ items) \<Longrightarrow> x \<in> set xs \<Longrightarrow> \<exists>bs. enc x = Inr bs"
  by (simp add: items_stored_def list.pred_map comp_def) (auto simp: list.pred_set)

lemma replay_node_scans:
  fixes off :: nat
  assumes "commits (tx_id tx) = Some rv" "\<forall>n \<in> set (tx_nodePuts tx). node_stable n"
    and "items_stored us sg (tx_id tx) (node_items tx)"
  defines "scans \<equiv> item_scans us sg (tx_id tx) off (node_items tx)"
  shows "visit_records (replay_node cfg commits) scans st =
    Inr (fold (node_step cfg rv) (commit_ops (tx_nodePuts tx) (tx_nodeDeletes tx) (map sc_location scans)) st)"
proof -
  have put: "replay_node cfg commits (read_rec us sg off (tx_id tx) RecordKindNodePut (n_ID n) (payload_of (encodeNode n))) st =
      Inr (node_step cfg rv (OpPut n (sc_location (read_rec us sg off (tx_id tx) RecordKindNodePut (n_ID n) (payload_of (encodeNode n))))) st)"
    if n: "n \<in> set (tx_nodePuts tx)" for n off st
  proof -
    obtain bs where "encodeNode n = Inr bs" using items_stored_encodes [OF assms(3) [unfolded node_items_def] n] by blast
    with n assms(2) have "decodeNode (payload_of (encodeNode n)) = Inr n" by (simp add: node_stable_def payload_of_def)
    with assms(1) show ?thesis by (simp add: replay_node_def read_rec_fields node_step_def)
  qed
  have puts: "list_all2 (\<lambda>(k, e, p) mk. \<forall>off st. replay_node cfg commits (read_rec us sg off (tx_id tx) k e (payload_of p)) st =
      Inr (node_step cfg rv (mk (sc_location (read_rec us sg off (tx_id tx) k e (payload_of p)))) st))
    (map (\<lambda>n. (RecordKindNodePut, n_ID n, encodeNode n)) (tx_nodePuts tx)) (map OpPut (tx_nodePuts tx))"
    unfolding list.rel_map by (rule list.rel_refl_strong) (simp add: put)
  have dels: "list_all2 (\<lambda>(k, e, p) mk. \<forall>off st. replay_node cfg commits (read_rec us sg off (tx_id tx) k e (payload_of p)) st =
      Inr (node_step cfg rv (mk (sc_location (read_rec us sg off (tx_id tx) k e (payload_of p)))) st))
    (map (\<lambda>i. (RecordKindNodeTombstone, i, Inr [])) (tx_nodeDeletes tx)) (map OpDel (tx_nodeDeletes tx))"
    unfolding list.rel_map using assms(1)
    by (intro list.rel_refl_strong) (simp add: replay_node_def read_rec_fields node_step_def Let_def
        RecordKindNodePut_def RecordKindNodeTombstone_def)
  from visit_items [where f = "replay_node cfg commits" and g = "node_step cfg rv", OF list_all2_appendI [OF puts dels]]
  show ?thesis unfolding scans_def node_items_def by (simp add: map_zip_ops item_scans_facts)
qed

lemma replay_edge_scans:
  fixes off :: nat
  assumes "commits (tx_id tx) = Some rv" "\<forall>e \<in> set (tx_edgePuts tx). edge_stable e"
    and "items_stored us sg (tx_id tx) (edge_items tx)"
  defines "scans \<equiv> item_scans us sg (tx_id tx) off (edge_items tx)"
  shows "visit_records (replay_edge cfg commits) scans st =
    Inr (fold (edge_step cfg rv) (commit_ops (tx_edgePuts tx) (tx_edgeDeletes tx) (map sc_location scans)) st)"
proof -
  have put: "replay_edge cfg commits (read_rec us sg off (tx_id tx) RecordKindEdgePut (e_ID e) (payload_of (encodeEdge e))) st =
      Inr (edge_step cfg rv (OpPut e (sc_location (read_rec us sg off (tx_id tx) RecordKindEdgePut (e_ID e) (payload_of (encodeEdge e))))) st)"
    if e: "e \<in> set (tx_edgePuts tx)" for e off st
  proof -
    obtain bs where "encodeEdge e = Inr bs" using items_stored_encodes [OF assms(3) [unfolded edge_items_def] e] by blast
    with e assms(2) have "decodeEdge (payload_of (encodeEdge e)) = Inr e" by (simp add: edge_stable_def payload_of_def)
    with assms(1) show ?thesis by (simp add: replay_edge_def read_rec_fields edge_step_def)
  qed
  have puts: "list_all2 (\<lambda>(k, i, p) mk. \<forall>off st. replay_edge cfg commits (read_rec us sg off (tx_id tx) k i (payload_of p)) st =
      Inr (edge_step cfg rv (mk (sc_location (read_rec us sg off (tx_id tx) k i (payload_of p)))) st))
    (map (\<lambda>e. (RecordKindEdgePut, e_ID e, encodeEdge e)) (tx_edgePuts tx)) (map OpPut (tx_edgePuts tx))"
    unfolding list.rel_map by (rule list.rel_refl_strong) (simp add: put)
  have dels: "list_all2 (\<lambda>(k, i, p) mk. \<forall>off st. replay_edge cfg commits (read_rec us sg off (tx_id tx) k i (payload_of p)) st =
      Inr (edge_step cfg rv (mk (sc_location (read_rec us sg off (tx_id tx) k i (payload_of p)))) st))
    (map (\<lambda>i. (RecordKindEdgeTombstone, i, Inr [])) (tx_edgeDeletes tx)) (map OpDel (tx_edgeDeletes tx))"
    unfolding list.rel_map using assms(1)
    by (intro list.rel_refl_strong) (simp add: replay_edge_def read_rec_fields edge_step_def Let_def
        RecordKindEdgePut_def RecordKindEdgeTombstone_def)
  from visit_items [where f = "replay_edge cfg commits" and g = "edge_step cfg rv", OF list_all2_appendI [OF puts dels]]
  show ?thesis unfolding scans_def edge_items_def by (simp add: map_zip_ops item_scans_facts)
qed

end
