(* ===== verification/Recovery_Invariant.thy ===== *)
theory Recovery_Invariant
  imports Replay_Facts
begin

text \<open>
  The relation between the memory of a store and its segments: opening the segments rebuilds the memory.
  Every commit keeps it, whatever becomes of its writes, for the memory before or after the commit.
\<close>

section \<open>The relation\<close>

definition scans_of :: "(uuid \<Rightarrow> string) \<Rightarrow> segment \<Rightarrow> seg_rec list \<Rightarrow> scannedRecord list" where
  "scans_of us sg rs = scanned_list us (sg_id sg) (sg_kind sg) (sg_enc sg) segmentHeaderLen rs"

definition no_load :: idem_load where
  "no_load = \<lparr>il_seen = [], il_revision = 0, il_records = []\<rparr>"

text \<open>The idempotency records found on disk hold those in memory; the others have expired by \<open>now\<close>.\<close>

definition idem_rel :: "gotime \<Rightarrow> (string \<times> IdempotencyRecord) list \<Rightarrow> local_store \<Rightarrow> bool" where
  "idem_rel now recs g \<longleftrightarrow> distinct (map fst recs) \<and>
     (\<forall>(i, r) \<in> set recs. i = idempotencyRecordIdentity (ir_Scope r) (ir_Key r)) \<and>
     (\<forall>i r. map_of (st_idem g) i = Some r \<longrightarrow> map_of recs i = Some r) \<and>
     (\<forall>i r. map_of recs i = Some r \<longrightarrow> map_of (st_idem g) i = None \<longrightarrow> idempotencyRecordExpired r now)"

definition segs_ok :: "local_store \<Rightarrow> bool" where
  "segs_ok d \<longleftrightarrow> sg_kind (st_nodeSeg d) = SegmentKindNode \<and> sg_kind (st_edgeSeg d) = SegmentKindEdge \<and>
     sg_kind (st_txnSeg d) = SegmentKindTxn"

text \<open>\<open>mirrors now g d n e t\<close>: the segments of \<open>d\<close> with the records \<open>n\<close>, \<open>e\<close> and \<open>t\<close> replay to the memory of \<open>g\<close>.\<close>

definition mirrors ::
  "gotime \<Rightarrow> local_store \<Rightarrow> local_store \<Rightarrow> seg_rec list \<Rightarrow> seg_rec list \<Rightarrow> seg_rec list \<Rightarrow> bool" where
  "mirrors now g d n e t \<longleftrightarrow> st_cfg d = st_cfg g \<and> st_json d = st_json g \<and> segs_ok d \<and>
     (\<exists>commits il.
        fold count_commit (scans_of (us_of d) (st_txnSeg d) t) (Map.empty, 0) = (commits, st_revision g) \<and>
        visit_records (replay_node (st_cfg g) commits) (scans_of (us_of d) (st_nodeSeg d) n) empty_node_state
          = Inr (st_nodes g) \<and>
        visit_records (replay_edge (st_cfg g) commits) (scans_of (us_of d) (st_edgeSeg d) e) empty_edge_state
          = Inr (st_edges g) \<and>
        load_loop (st_json g) (scans_of (us_of d) (st_txnSeg d) t) no_load = Inr il \<and>
        il_revision il = st_revision g \<and> set (il_seen il) = dom commits \<and> idem_rel now (il_records il) g)"

definition fresh_txn :: "localTxn \<Rightarrow> seg_rec list \<Rightarrow> seg_rec list \<Rightarrow> seg_rec list \<Rightarrow> bool" where
  "fresh_txn tx n e t \<longleftrightarrow> (\<forall>r \<in> set n \<union> set e \<union> set t. sr_txn r \<noteq> tx_id tx)"

section \<open>Scanning\<close>

lemma scans_txn: "rec \<in> set (scanned_list us name kind enc off rs) \<Longrightarrow> rh_txnID (sc_header rec) \<in> sr_txn ` set rs"
  by (induction rs arbitrary: off) (auto simp: scanned_of_def)

lemma scans_of_frame: "seg_frame a b \<Longrightarrow> scans_of us b rs = scans_of us a rs"
  by (simp add: scans_of_def seg_frame_def)

lemma scans_of_append:
  assumes "segment_holds us sg rs"
  shows "scans_of us sg (rs @ rs') =
    scans_of us sg rs @ scanned_list us (sg_id sg) (sg_kind sg) (sg_enc sg) (length (sg_bytes sg)) rs'"
  using assms by (simp add: scans_of_def scanned_list_append segment_holds_def)

lemma scanned_stored:
  assumes "writable us sg k t e p" "encryptPayload us sg k t e p \<noteq> None"
  shows "scanned_list us (sg_id sg) (sg_kind sg) (sg_enc sg) off (stored_rec us sg t k e p # rs) =
    read_rec us sg off t k e p # scanned_list us (sg_id sg) (sg_kind sg) (sg_enc sg)
      (off + length (seg_rec_bytes (stored_rec us sg t k e p))) rs"
proof -
  obtain q where q: "encryptPayload us sg k t e p = Some q" using assms(2) by auto
  have "cipher_ok (sg_enc sg) p" using assms(1) by (simp add: writable_def)
  from stored_decrypts [OF this q] show ?thesis by (simp add: read_rec_def stored_rec_def q)
qed

section \<open>Counting commits\<close>

lemma count_commit_other:
  "rh_kind (sc_header rec) \<noteq> RecordKindTxnCommit \<Longrightarrow> count_commit rec cr = cr"
  by (cases cr) (simp add: count_commit_def)

lemma count_commit_dom:
  assumes "fold count_commit recs (m, rv) = (m', rv')"
  shows "dom m' \<subseteq> dom m \<union> (\<lambda>r. rh_txnID (sc_header r)) ` set recs"
  using assms
proof (induction recs arbitrary: m rv)
  case (Cons rec recs)
  obtain m1 rv1 where c: "count_commit rec (m, rv) = (m1, rv1)" by fastforce
  then have "dom m1 \<subseteq> dom m \<union> {rh_txnID (sc_header rec)}" by (auto simp: count_commit_def split: if_splits)
  moreover have "dom m' \<subseteq> dom m1 \<union> (\<lambda>r. rh_txnID (sc_header r)) ` set recs" using Cons c by simp
  ultimately have "dom m' \<subseteq> dom m \<union> {rh_txnID (sc_header rec)} \<union> (\<lambda>r. rh_txnID (sc_header r)) ` set recs" by blast
  then show ?case by simp
qed auto

lemma load_loop_append:
  "load_loop jc (xs @ ys) l = (case load_loop jc xs l of Inl e \<Rightarrow> Inl e | Inr l' \<Rightarrow> load_loop jc ys l')"
  by (induction xs arbitrary: l) (simp_all split: sum.split)

lemma fresh_commits:
  assumes "fresh_txn tx n e t" "fold count_commit (scans_of us sg t) (Map.empty, 0) = (commits, rv)"
  shows "commits (tx_id tx) = None"
proof -
  have "dom commits \<subseteq> (\<lambda>r. rh_txnID (sc_header r)) ` set (scans_of us sg t)"
    using count_commit_dom [OF assms(2)] by simp
  also have "\<dots> \<subseteq> sr_txn ` set t" using scans_txn by (fastforce simp: scans_of_def)
  finally have "tx_id tx \<notin> dom commits" using assms(1) by (fastforce simp: fresh_txn_def)
  then show ?thesis by blast
qed

section \<open>Idempotency records\<close>

lemma expired_later: "idempotencyRecordExpired r a \<Longrightarrow> \<not> time_after a b \<Longrightarrow> idempotencyRecordExpired r b"
  using time_not_after_trans by (auto simp: idempotencyRecordExpired_def split: if_splits)

lemma idem_rel_later: "idem_rel a recs g \<Longrightarrow> \<not> time_after a b \<Longrightarrow> idem_rel b recs g"
  unfolding idem_rel_def using expired_later by blast

lemma map_of_filter_unexpired:
  assumes "distinct (map fst xs)"
  shows "map_of (filter (\<lambda>(i, r). P r) xs) i = (case map_of xs i of None \<Rightarrow> None | Some r \<Rightarrow> if P r then Some r else None)"
  using assms by (induction xs) (force split: option.split dest: map_of_SomeD)+

lemma idem_rel_purge:
  assumes "idem_rel now recs g" "distinct (map fst (st_idem g))" "\<not> time_after c now"
  shows "idem_rel now recs (purgeExpiredIdempotencyRecordsLocked c g)"
proof -
  have p: "map_of (st_idem (purgeExpiredIdempotencyRecordsLocked c g)) i =
      (case map_of (st_idem g) i of None \<Rightarrow> None | Some r \<Rightarrow> if \<not> idempotencyRecordExpired r c then Some r else None)" for i
    by (simp add: purgeExpiredIdempotencyRecordsLocked_def map_of_filter_unexpired [OF assms(2)])
  show ?thesis
    unfolding idem_rel_def p
  proof (intro conjI allI impI)
    fix i r
    assume "map_of recs i = Some r"
      and "(case map_of (st_idem g) i of None \<Rightarrow> None | Some r \<Rightarrow> if \<not> idempotencyRecordExpired r c then Some r else None) = None"
    then show "idempotencyRecordExpired r now"
      using assms(1) expired_later [OF _ assms(3)]
      by (cases "map_of (st_idem g) i") (fastforce simp: idem_rel_def split: if_splits)+
  qed (use assms(1) in \<open>auto simp: idem_rel_def split: option.splits if_splits\<close>)
qed

lemma idem_rel_store:
  assumes "idem_rel now recs g" "i = idempotencyRecordIdentity (ir_Scope r) (ir_Key r)"
    and "st_idem g' = AList.update i r (st_idem g)"
  shows "idem_rel now (AList.update i r recs) g'"
proof -
  have "set (AList.update i r recs) \<subseteq> insert (i, r) (set recs)" by (rule set_AList_update)
  with assms show ?thesis
    by (auto simp: idem_rel_def distinct_update update_conv' split: if_splits)
qed

section \<open>Commits keep the relation\<close>

lemma scans_of_node_recs:
  assumes "segment_holds (us_of d) (st_nodeSeg d) n" "tx_writable tx d"
    and "items_stored (us_of d) (st_nodeSeg d) (tx_id tx) (node_items tx)"
  shows "scans_of (us_of d) (st_nodeSeg d) (n @ node_recs tx d) = scans_of (us_of d) (st_nodeSeg d) n @ node_scans tx d"
  unfolding scans_of_append [OF assms(1)] node_recs_def node_scans_def
  using scanned_items [OF _ assms(3)] assms(2) by (simp add: tx_writable_def)

lemma scans_of_edge_recs:
  assumes "segment_holds (us_of d) (st_edgeSeg d) e" "tx_writable tx d"
    and "items_stored (us_of d) (st_edgeSeg d) (tx_id tx) (edge_items tx)"
  shows "scans_of (us_of d) (st_edgeSeg d) (e @ edge_recs tx d) = scans_of (us_of d) (st_edgeSeg d) e @ edge_scans tx d"
  unfolding scans_of_append [OF assms(1)] edge_recs_def edge_scans_def
  using scanned_items [OF _ assms(3)] assms(2) by (simp add: tx_writable_def)

lemma replay_skips:
  assumes "commits i = None" "\<forall>rec \<in> set recs. rh_txnID (sc_header rec) = i"
  shows "visit_records (replay_node cfg commits) recs st = Inr st"
    "visit_records (replay_edge cfg commits) recs es = Inr es"
  using assms by (auto intro!: visit_records_skip simp: replay_node_def replay_edge_def)

lemma replay_more_commits:
  assumes "\<forall>rec \<in> set recs. rh_txnID (sc_header rec) \<noteq> i"
  shows "visit_records (replay_node cfg (commits(i := v))) recs st = visit_records (replay_node cfg commits) recs st"
    "visit_records (replay_edge cfg (commits(i := v))) recs es = visit_records (replay_edge cfg commits) recs es"
  using assms by (auto intro!: visit_records_cong simp: replay_node_def replay_edge_def)

lemma scans_of_txns: "\<forall>r \<in> set rs. sr_txn r = i \<Longrightarrow>
    \<forall>rec \<in> set (scanned_list us name kind enc off rs). rh_txnID (sc_header rec) = i"
  "\<forall>r \<in> set rs. sr_txn r \<noteq> i \<Longrightarrow> \<forall>rec \<in> set (scans_of us sg rs). rh_txnID (sc_header rec) \<noteq> i"
  using scans_txn by (fastforce simp: scans_of_def)+

lemma load_begin:
  "load_idempotency_record jc (read_rec us sg off t RecordKindTxnBegin 0 []) l = Inr l"
  by (simp add: load_idempotency_record_def read_rec_fields Let_def RecordKindTxnBegin_def RecordKindTxnCommit_def
      RecordKindIdempotencyRestore_def RecordKindIdempotencyDelivered_def RecordKindIdempotencyAcknowledged_def
      RecordKindIdempotencyRetained_def)

lemma begin_not_counted: "count_commit (read_rec us sg off t RecordKindTxnBegin 0 []) cr = cr"
  by (rule count_commit_other) (simp add: read_rec_fields RecordKindTxnBegin_def RecordKindTxnCommit_def)

lemma mirrors_doubt:
  assumes m: "mirrors now g d n e t" and h: "log_holds d n e t" and f: "fresh_txn tx n e t" "tx_writable tx d"
    and fr: "segs_frame d d1" "st_json d1 = st_json d" and P: "in_doubt tx P d d1 n e t"
  shows "\<exists>n' e' t'. P d1 n' e' t' \<and> mirrors now g d1 n' e' t'"
proof -
  obtain commits il where c:
    "fold count_commit (scans_of (us_of d) (st_txnSeg d) t) (Map.empty, 0) = (commits, st_revision g)"
    "visit_records (replay_node (st_cfg g) commits) (scans_of (us_of d) (st_nodeSeg d) n) empty_node_state = Inr (st_nodes g)"
    "visit_records (replay_edge (st_cfg g) commits) (scans_of (us_of d) (st_edgeSeg d) e) empty_edge_state = Inr (st_edges g)"
    "load_loop (st_json g) (scans_of (us_of d) (st_txnSeg d) t) no_load = Inr il"
    "il_revision il = st_revision g" "set (il_seen il) = dom commits" "idem_rel now (il_records il) g"
    using m by (auto simp: mirrors_def)
  obtain n' e' t' where p: "P d1 (n @ n') (e @ e') (t @ t')" "\<forall>r \<in> set (n' @ e'). sr_txn r = tx_id tx"
    "t' = [] \<or> t' = [begin_rec tx d] \<and> encryptPayload (us_of d) (st_txnSeg d) RecordKindTxnBegin (tx_id tx) 0 [] \<noteq> None"
    using P by (auto simp: in_doubt_def)
  have none: "commits (tx_id tx) = None" using fresh_commits [OF f(1) c(1)] .
  have sg: "seg_frame (st_nodeSeg d) (st_nodeSeg d1)" "seg_frame (st_edgeSeg d) (st_edgeSeg d1)"
    "seg_frame (st_txnSeg d) (st_txnSeg d1)" "us_of d1 = us_of d" "st_cfg d1 = st_cfg d"
    using fr(1) by (simp_all add: segs_frame_def)
  note sc = scans_of_frame [OF sg(1)] scans_of_frame [OF sg(2)] scans_of_frame [OF sg(3)] sg(4)
  note hs = h [unfolded log_holds_def]
  have tx: "\<forall>r \<in> set n'. sr_txn r = tx_id tx" "\<forall>r \<in> set e'. sr_txn r = tx_id tx" using p(2) by auto
  have "visit_records (replay_node (st_cfg g) commits) (scans_of (us_of d1) (st_nodeSeg d1) (n @ n')) empty_node_state
      = Inr (st_nodes g)"
    unfolding sc scans_of_append [OF conjunct1 [OF hs]] visit_records_append c(2)
    by (simp add: replay_skips(1) [where commits = commits, OF none scans_of_txns(1) [OF tx(1)]])
  moreover have "visit_records (replay_edge (st_cfg g) commits) (scans_of (us_of d1) (st_edgeSeg d1) (e @ e')) empty_edge_state
      = Inr (st_edges g)"
    unfolding sc scans_of_append [OF conjunct1 [OF conjunct2 [OF hs]]] visit_records_append c(3)
    by (simp add: replay_skips(2) [where commits = commits, OF none scans_of_txns(1) [OF tx(2)]])
  moreover have "fold count_commit (scans_of (us_of d1) (st_txnSeg d1) (t @ t')) (Map.empty, 0) = (commits, st_revision g) \<and>
      load_loop (st_json g) (scans_of (us_of d1) (st_txnSeg d1) (t @ t')) no_load = Inr il"
    using p(3)
  proof
    assume "t' = [begin_rec tx d] \<and> encryptPayload (us_of d) (st_txnSeg d) RecordKindTxnBegin (tx_id tx) 0 [] \<noteq> None"
    then have b: "t' = [begin_rec tx d]" "encryptPayload (us_of d) (st_txnSeg d) RecordKindTxnBegin (tx_id tx) 0 [] \<noteq> None"
      by blast+
    have w: "writable (us_of d) (st_txnSeg d) RecordKindTxnBegin (tx_id tx) 0 []" using f(2) by (simp add: tx_writable_def)
    have "scans_of (us_of d) (st_txnSeg d) (t @ t') = scans_of (us_of d) (st_txnSeg d) t @
        [read_rec (us_of d) (st_txnSeg d) (length (sg_bytes (st_txnSeg d))) (tx_id tx) RecordKindTxnBegin 0 []]"
      unfolding scans_of_append [OF conjunct2 [OF conjunct2 [OF hs]]] b(1) begin_rec_def scanned_stored [OF w b(2)] by simp
    then show ?thesis unfolding sc by (simp add: c load_loop_append load_begin begin_not_counted)
  qed (simp add: sc c)
  moreover have "segs_ok d1" "st_cfg d1 = st_cfg g" "st_json d1 = st_json g"
    using m sg fr(2) by (simp_all add: mirrors_def segs_ok_def seg_frame_def)
  ultimately have "mirrors now g d1 (n @ n') (e @ e') (t @ t')"
    unfolding mirrors_def using c(5-7) by blast
  with p(1) show ?thesis by blast
qed

lemma commit_apply_json: "st_json (commit_apply t idem nlocs elocs s) = st_json s"
  by (cases idem; simp add: commit_apply_def Let_def markReadyIndexesIndexedThrough_def idem_store_def)

text \<open>What makes a new idempotency record load.\<close>

definition idem_fits :: "localTxn \<Rightarrow> u64 \<Rightarrow> IdempotencyRecord option \<Rightarrow> bool" where
  "idem_fits tx rv idem \<longleftrightarrow> own_idem tx idem \<and> (\<forall>r. idem = Some r \<longrightarrow> ir_StorageTxnID r = tx_id tx \<and>
     ir_CommittedRevision r = rv \<and> validateIdempotencyRecord r = None)"

lemma load_commit:
  assumes "json_ok jc" "commit_payload jc idem = Some p" "idem_fits tx (il_revision l + 1) idem" "tx_id tx \<notin> set (il_seen l)"
  shows "load_idempotency_record jc (read_rec us sg off (tx_id tx) RecordKindTxnCommit 0 p) l =
    Inr \<lparr>il_seen = tx_id tx # il_seen l, il_revision = il_revision l + 1,
      il_records = (case idem of None \<Rightarrow> il_records l
        | Some r \<Rightarrow> AList.update (idempotencyRecordIdentity (ir_Scope r) (ir_Key r)) r (il_records l))\<rparr>"
proof (cases idem)
  case None
  with assms show ?thesis by (simp add: load_idempotency_record_def read_rec_fields commit_payload_def Let_def)
next
  case (Some r)
  with assms(1,2) have "p \<noteq> []" "jc_uncommit jc p = Some (Some r)" by (auto simp: json_ok_def commit_payload_def)
  with assms Some show ?thesis
    by (simp add: load_idempotency_record_def read_rec_fields Let_def idem_fits_def load_candidate_def)
qed

text \<open>\<open>replayed\<close>: what the replay makes of the three lists of records.\<close>

definition replayed ::
  "local_store \<Rightarrow> seg_rec list \<Rightarrow> seg_rec list \<Rightarrow> seg_rec list \<Rightarrow> commit_map \<Rightarrow> u64 \<Rightarrow> node_state \<Rightarrow> edge_state \<Rightarrow> bool" where
  "replayed d n e t commits rv ns es \<longleftrightarrow>
     fold count_commit (scans_of (us_of d) (st_txnSeg d) t) (Map.empty, 0) = (commits, rv) \<and>
     visit_records (replay_node (st_cfg d) commits) (scans_of (us_of d) (st_nodeSeg d) n) empty_node_state = Inr ns \<and>
     visit_records (replay_edge (st_cfg d) commits) (scans_of (us_of d) (st_edgeSeg d) e) empty_edge_state = Inr es"

lemma mirrors_replayed:
  "mirrors now g d n e t \<longleftrightarrow> st_cfg d = st_cfg g \<and> st_json d = st_json g \<and> segs_ok d \<and>
     (\<exists>commits il. replayed d n e t commits (st_revision g) (st_nodes g) (st_edges g) \<and>
        load_loop (st_json g) (scans_of (us_of d) (st_txnSeg d) t) no_load = Inr il \<and>
        il_revision il = st_revision g \<and> set (il_seen il) = dom commits \<and> idem_rel now (il_records il) g)"
  unfolding mirrors_def replayed_def by auto

abbreviation node_locs :: "localTxn \<Rightarrow> local_store \<Rightarrow> RecordLocation list" where
  "node_locs tx d \<equiv> map sc_location (node_scans tx d)"

abbreviation edge_locs :: "localTxn \<Rightarrow> local_store \<Rightarrow> RecordLocation list" where
  "edge_locs tx d \<equiv> map sc_location (edge_scans tx d)"

lemma locs_length:
  "length (node_locs tx d) = length (tx_nodePuts tx) + length (tx_nodeDeletes tx)"
  "length (edge_locs tx d) = length (tx_edgePuts tx) + length (tx_edgeDeletes tx)"
  by (simp_all add: node_scans_def edge_scans_def item_scans_facts node_items_def edge_items_def)

lemma replayed_on_disk:
  assumes r: "replayed d n e t commits rv ns es" and h: "log_holds d n e t" and f: "fresh_txn tx n e t" "tx_writable tx d"
    and fr: "segs_frame d d1" and P: "on_disk tx idem P d d1 n e t" and own: "own_idem tx idem"
    and st: "\<forall>n \<in> set (tx_nodePuts tx). node_stable n" "\<forall>e \<in> set (tx_edgePuts tx). edge_stable e"
  obtains n1 e1 t1 p o1 o2 where "P d1 n1 e1 t1" "commit_payload (st_json d) idem = Some p" "commits (tx_id tx) = None"
    "replayed d1 n1 e1 t1 (commits(tx_id tx \<mapsto> rv + 1)) (rv + 1)
       (version_nodes (rv + 1) tx (apply_nodes (st_cfg d) tx (node_locs tx d) ns))
       (version_edges (rv + 1) tx (apply_edges (st_cfg d) tx (edge_locs tx d) es))"
    "scans_of (us_of d1) (st_txnSeg d1) t1 = scans_of (us_of d) (st_txnSeg d) t
       @ [read_rec (us_of d) (st_txnSeg d) o1 (tx_id tx) RecordKindTxnBegin 0 [],
          read_rec (us_of d) (st_txnSeg d) o2 (tx_id tx) RecordKindTxnCommit 0 p]"
proof -
  note c = r [unfolded replayed_def]
  note c1 = conjunct1 [OF c] and c2 = conjunct1 [OF conjunct2 [OF c]] and c3 = conjunct2 [OF conjunct2 [OF c]]
  obtain p where p: "P d1 (n @ node_recs tx d) (e @ edge_recs tx d) (t @ [begin_rec tx d, commit_rec tx p d])"
    "items_stored (us_of d) (st_nodeSeg d) (tx_id tx) (node_items tx)"
    "items_stored (us_of d) (st_edgeSeg d) (tx_id tx) (edge_items tx)"
    "encryptPayload (us_of d) (st_txnSeg d) RecordKindTxnBegin (tx_id tx) 0 [] \<noteq> None"
    "commit_payload (st_json d) idem = Some p"
    "encryptPayload (us_of d) (st_txnSeg d) RecordKindTxnCommit (tx_id tx) 0 p \<noteq> None"
    using P by (auto simp: on_disk_def)
  define commits' where "commits' = commits(tx_id tx := Some (rv + 1))"
  have none: "commits (tx_id tx) = None" using fresh_commits [OF f(1) c1] .
  have some: "commits' (tx_id tx) = Some (rv + 1)" by (simp add: commits'_def)
  have sg: "seg_frame (st_nodeSeg d) (st_nodeSeg d1)" "seg_frame (st_edgeSeg d) (st_edgeSeg d1)"
    "seg_frame (st_txnSeg d) (st_txnSeg d1)" "us_of d1 = us_of d" "st_cfg d1 = st_cfg d"
    using fr by (simp_all add: segs_frame_def)
  note sc = scans_of_frame [OF sg(1)] scans_of_frame [OF sg(2)] scans_of_frame [OF sg(3)] sg(4)
  note hs = h [unfolded log_holds_def]
  have old: "\<forall>r \<in> set n. sr_txn r \<noteq> tx_id tx" "\<forall>r \<in> set e. sr_txn r \<noteq> tx_id tx"
    using f(1) by (simp_all add: fresh_txn_def)
  have nodes: "visit_records (replay_node (st_cfg d1) commits') (scans_of (us_of d1) (st_nodeSeg d1) (n @ node_recs tx d))
      empty_node_state = Inr (version_nodes (rv + 1) tx (apply_nodes (st_cfg d) tx (node_locs tx d) ns))"
    unfolding sc sg(5) scans_of_node_recs [OF conjunct1 [OF hs] f(2) p(2)] visit_records_append
      commits'_def replay_more_commits(1) [OF scans_of_txns(2) [OF old(1)]] c2 commit_nodes_fold [OF locs_length(1)] sum.case
    unfolding node_scans_def
    by (rule replay_node_scans [where commits = commits', unfolded commits'_def, OF _ st(1) p(2)]) simp
  have edges: "visit_records (replay_edge (st_cfg d1) commits') (scans_of (us_of d1) (st_edgeSeg d1) (e @ edge_recs tx d))
      empty_edge_state = Inr (version_edges (rv + 1) tx (apply_edges (st_cfg d) tx (edge_locs tx d) es))"
    unfolding sc sg(5) scans_of_edge_recs [OF conjunct1 [OF conjunct2 [OF hs]] f(2) p(3)] visit_records_append
      commits'_def replay_more_commits(2) [OF scans_of_txns(2) [OF old(2)]] c3 commit_edges_fold [OF locs_length(2)] sum.case
    unfolding edge_scans_def
    by (rule replay_edge_scans [where commits = commits', unfolded commits'_def, OF _ st(2) p(3)]) simp
  have w: "writable (us_of d) (st_txnSeg d) RecordKindTxnBegin (tx_id tx) 0 []"
    "writable (us_of d) (st_txnSeg d) RecordKindTxnCommit (tx_id tx) 0 p"
    using f(2) own p(5) unfolding tx_writable_def by blast+
  obtain o1 o2 where ts: "scans_of (us_of d) (st_txnSeg d) (t @ [begin_rec tx d, commit_rec tx p d]) =
      scans_of (us_of d) (st_txnSeg d) t @ [read_rec (us_of d) (st_txnSeg d) o1 (tx_id tx) RecordKindTxnBegin 0 [],
        read_rec (us_of d) (st_txnSeg d) o2 (tx_id tx) RecordKindTxnCommit 0 p]"
    unfolding scans_of_append [OF conjunct2 [OF conjunct2 [OF hs]]] begin_rec_def commit_rec_def
      scanned_stored [OF w(1) p(4)] scanned_stored [OF w(2) p(6)] by simp
  have count: "fold count_commit (scans_of (us_of d1) (st_txnSeg d1) (t @ [begin_rec tx d, commit_rec tx p d])) (Map.empty, 0) =
      (commits', rv + 1)"
    unfolding sc ts fold_append o_apply c1
    by (simp add: begin_not_counted) (simp add: count_commit_def read_rec_fields none commits'_def)
  show thesis
    using that [OF p(1,5) none] nodes edges count ts unfolding replayed_def commits'_def sc by blast
qed

lemma mirrors_on_disk:
  assumes m: "mirrors now g d n e t" and h: "log_holds d n e t" and f: "fresh_txn tx n e t" "tx_writable tx d"
    and fr: "segs_frame d d1" "st_json d1 = st_json d" and P: "on_disk tx idem P d d1 n e t"
    and st: "\<forall>n \<in> set (tx_nodePuts tx). node_stable n" "\<forall>e \<in> set (tx_edgePuts tx). edge_stable e"
    and idem: "json_ok (st_json g)" "idem_fits tx (st_revision g + 1) idem"
  defines "g1 \<equiv> commit_apply tx idem (node_locs tx d) (edge_locs tx d) g"
  shows "\<exists>n' e' t'. P d1 n' e' t' \<and> mirrors now g1 d1 n' e' t'"
proof -
  obtain commits il where c: "replayed d n e t commits (st_revision g) (st_nodes g) (st_edges g)"
    "load_loop (st_json g) (scans_of (us_of d) (st_txnSeg d) t) no_load = Inr il"
    "il_revision il = st_revision g" "set (il_seen il) = dom commits" "idem_rel now (il_records il) g"
    using m by (auto simp: mirrors_replayed)
  have cfg: "st_cfg d = st_cfg g" "st_json d = st_json g" "segs_ok d" using m by (simp_all add: mirrors_def)
  have own: "own_idem tx idem" using idem(2) by (simp add: idem_fits_def)
  from replayed_on_disk [OF c(1) h f fr(1) P own st]
  obtain n1 e1 t1 p o1 o2 where p: "P d1 n1 e1 t1" "commit_payload (st_json d) idem = Some p" "commits (tx_id tx) = None"
    "replayed d1 n1 e1 t1 (commits(tx_id tx \<mapsto> st_revision g + 1)) (st_revision g + 1)
       (version_nodes (st_revision g + 1) tx (apply_nodes (st_cfg d) tx (node_locs tx d) (st_nodes g)))
       (version_edges (st_revision g + 1) tx (apply_edges (st_cfg d) tx (edge_locs tx d) (st_edges g)))"
    "scans_of (us_of d1) (st_txnSeg d1) t1 = scans_of (us_of d) (st_txnSeg d) t
       @ [read_rec (us_of d) (st_txnSeg d) o1 (tx_id tx) RecordKindTxnBegin 0 [],
          read_rec (us_of d) (st_txnSeg d) o2 (tx_id tx) RecordKindTxnCommit 0 p]" by blast
  define il' where "il' = \<lparr>il_seen = tx_id tx # il_seen il, il_revision = il_revision il + 1,
      il_records = (case idem of None \<Rightarrow> il_records il
        | Some r \<Rightarrow> AList.update (idempotencyRecordIdentity (ir_Scope r) (ir_Key r)) r (il_records il))\<rparr>"
  have "replayed d1 n1 e1 t1 (commits(tx_id tx \<mapsto> st_revision g + 1)) (st_revision g1) (st_nodes g1) (st_edges g1)"
    using p(4) by (simp add: g1_def commit_apply_fields cfg)
  moreover have "load_loop (st_json g1) (scans_of (us_of d1) (st_txnSeg d1) t1) no_load = Inr il'"
  proof -
    have "tx_id tx \<notin> set (il_seen il)" using p(3) by (auto simp: c(4))
    moreover have "idem_fits tx (il_revision il + 1) idem" using idem(2) by (simp add: c(3))
    ultimately show ?thesis
      using load_commit [OF idem(1) p(2) [unfolded cfg]]
      unfolding p(5) g1_def commit_apply_json load_loop_append c(2) il'_def by (simp add: load_begin)
  qed
  moreover have "il_revision il' = st_revision g1" "set (il_seen il') = dom (commits(tx_id tx \<mapsto> st_revision g + 1))"
    by (auto simp: il'_def g1_def commit_apply_fields c(3,4))
  moreover have "idem_rel now (il_records il') g1"
  proof (cases idem)
    case None
    with c(5) show ?thesis by (simp add: il'_def g1_def idem_rel_def commit_apply_fields)
  next
    case (Some r)
    then show ?thesis
      using idem_rel_store [OF c(5) refl, of g1 r] by (simp add: il'_def g1_def commit_apply_fields)
  qed
  moreover have "segs_ok d1" "st_cfg d1 = st_cfg g1" "st_json d1 = st_json g1"
    using cfg fr by (simp_all add: segs_ok_def segs_frame_def seg_frame_def g1_def commit_apply_fields commit_apply_json)
  ultimately have "mirrors now g1 d1 n1 e1 t1"
    unfolding mirrors_replayed by blast
  with p(1) show ?thesis by blast
qed

end
