(* ===== verification/Recovery_Runs.thy ===== *)
theory Recovery_Runs
  imports Recovery_Invariant
begin

text \<open>
  Runs of a store with its disk: commits, idempotency calls and reopening, in any order. The relation between
  memory and segments holds throughout, so opening the disk of a store rebuilds it.
\<close>

section \<open>A commit, seen from the disk\<close>

definition purged_of :: "localTxn \<Rightarrow> local_store \<Rightarrow> local_store \<Rightarrow> bool" where
  "purged_of t s s' \<longleftrightarrow> s' = s \<or> (\<exists>r. tx_idem t = Some r \<and> s' = purgeExpiredIdempotencyRecordsLocked (ir_CommittedAt r) s)"

lemma commit_idempotency_purges:
  assumes "commit_idempotency t s0 = (out, s)"
  shows "purged_of t s0 s" "out = IdemNew idem \<Longrightarrow> idem_fits t (st_revision s + 1) idem"
proof -
  show "purged_of t s0 s"
    using assms by (auto simp: commit_idempotency_def Let_def purged_of_def split: option.splits if_splits)
  show "idem_fits t (st_revision s + 1) idem" if "out = IdemNew idem"
  proof (cases "tx_idem t")
    case None
    with assms that show ?thesis by (auto simp: commit_idempotency_def idem_fits_def own_idem_def)
  next
    case (Some r)
    have v: "validateIdempotencyRecord (r\<lparr>ir_StorageTxnID := a, ir_CommittedRevision := b\<rparr>) = validateIdempotencyRecord r" for a b
      by (simp add: validateIdempotencyRecord_def)
    from Some assms that show ?thesis
      by (auto simp: commit_idempotency_def idem_fits_def own_idem_def Let_def v split: option.splits if_splits)
  qed
qed

lemma commit_disk_cases:
  assumes "CommitWithInfo io t s0 = (res, t', s')"
  obtains (early) "purged_of t s0 s'" "\<And>info. res = Inr info \<Longrightarrow> ci_IdempotentReplay info"
    | (wrote) idem s out s1 where "commit_idempotency t s0 = (IdemNew idem, s)" "commit_write io t idem s = (out, s1)"
      "\<not> invariantConflict t s"
      "case out of Inl e \<Rightarrow> res = Inl e \<and> s' = s1
       | Inr (nlocs, elocs) \<Rightarrow> res = Inr ((commit_info t s1)\<lparr>ci_Idempotency := idem\<rparr>) \<and> s' = commit_apply t idem nlocs elocs s1"
proof (cases "tx_closed t \<or> ensureReady s0 \<noteq> None")
  case True
  with assms early show thesis by (auto simp: CommitWithInfo_def purged_of_def split: option.splits if_splits)
next
  case False
  obtain out s where ci: "commit_idempotency t s0 = (out, s)" by fastforce
  have pur: "purged_of t s0 s" using commit_idempotency_purges(1) [OF ci] .
  show thesis
  proof (cases out)
    case (IdemError e)
    with assms False ci pur early show thesis by (auto simp: CommitWithInfo_def)
  next
    case (IdemReplay info)
    have "ci_IdempotentReplay info"
      using ci IdemReplay by (auto simp: commit_idempotency_def Let_def split: option.splits if_splits)
    with assms False ci pur early IdemReplay show thesis by (auto simp: CommitWithInfo_def)
  next
    case (IdemNew idem)
    show thesis
    proof (cases "(case tx_expected t of Some base \<Rightarrow> base > st_revision s | None \<Rightarrow> False) \<or> writeSetConflict t s
        \<or> invariantConflict t s \<or> \<not> commit_validates t s")
      case True
      then have "\<exists>e. res = Inl e \<and> s' = s"
        using assms False ci IdemNew by (auto simp: CommitWithInfo_def split: if_splits option.splits)
      with pur early show thesis by auto
    next
      case ok: False
      obtain o1 s1 where cw: "commit_write io t idem s = (o1, s1)" by fastforce
      have "case o1 of Inl e \<Rightarrow> res = Inl e \<and> s' = s1
        | Inr (nlocs, elocs) \<Rightarrow> res = Inr ((commit_info t s1)\<lparr>ci_Idempotency := idem\<rparr>) \<and> s' = commit_apply t idem nlocs elocs s1"
        using ok assms False ci IdemNew cw by (auto simp: CommitWithInfo_def split: option.splits sum.splits)
      with wrote [OF ci [unfolded IdemNew] cw] ok show thesis by blast
    qed
  qed
qed

lemma mirrors_cong:
  assumes "mirrors now g d n e t" "graph_same g g'" "st_idem g' = st_idem g"
    and "st_cfg d' = st_cfg d" "st_json d' = st_json d" "segments_same d d'"
  shows "mirrors now g' d' n e t"
  using assms by (auto simp: mirrors_def graph_same_def segments_same_def segs_ok_def idem_rel_def)

lemma log_cong:
  assumes "segments_same d d'" "st_cfg d' = st_cfg d"
  shows "log_holds d' n e t \<longleftrightarrow> log_holds d n e t" "log_reads d' n e t \<longleftrightarrow> log_reads d n e t"
  using assms by (simp_all add: log_holds_def log_reads_def segments_same_def)

lemma mirrors_later: "mirrors a g d n e t \<Longrightarrow> \<not> time_after a b \<Longrightarrow> mirrors b g d n e t"
  using idem_rel_later by (fastforce simp: mirrors_def)

lemma mirrors_purge:
  assumes "mirrors now s s n e t" "idem_ok s" "\<not> time_after c now"
  defines "s1 \<equiv> purgeExpiredIdempotencyRecordsLocked c s"
  shows "mirrors now s1 s1 n e t"
proof -
  have "distinct (map fst (st_idem s))" using assms(2) by (simp add: idem_ok_def)
  from idem_rel_purge [OF _ this assms(3)] assms(1) show ?thesis
    unfolding mirrors_def s1_def by (fastforce simp: segs_ok_def)
qed

section \<open>Opening\<close>

definition unindexed :: "local_store \<Rightarrow> bool" where
  "unindexed s \<longleftrightarrow> cf_Indexes (st_cfg s) = (\<lambda>_. []) \<and> st_domains s = [] \<and> st_manifest s = NoManifest \<and>
     ns_propIndex (st_nodes s) = Map.empty \<and> ns_propOrder (st_nodes s) = Map.empty \<and>
     ns_histPropOrder (st_nodes s) = Map.empty"

definition opens :: "open_cfg \<Rightarrow> local_store \<Rightarrow> bool" where
  "opens oc s \<longleftrightarrow> sg_id (st_nodeSeg s) = oc_nodes oc \<and> sg_id (st_edgeSeg s) = oc_edges oc \<and>
     sg_id (st_txnSeg s) = oc_txns oc \<and> sg_enc (st_nodeSeg s) = oc_enc oc \<and> sg_enc (st_edgeSeg s) = oc_enc oc \<and>
     sg_enc (st_txnSeg s) = oc_enc oc \<and> segs_ok s \<and>
     cf_String (st_cfg s) = oc_String oc \<and> cf_Parse (st_cfg s) = oc_Parse oc \<and> st_json s = oc_json oc"

text \<open>What of a store is rebuilt: everything but the idempotency records that have expired.\<close>

definition rebuilt :: "gotime \<Rightarrow> local_store \<Rightarrow> local_store \<Rightarrow> bool" where
  "rebuilt now g s \<longleftrightarrow> ensureReady s = None \<and> st_nodes s = st_nodes g \<and> st_edges s = st_edges g \<and>
     st_revision s = st_revision g \<and>
     (\<forall>scope key. idem_lookup scope key s = (case idem_lookup scope key g of
        None \<Rightarrow> None | Some r \<Rightarrow> if idempotencyRecordExpired r now then None else Some r))"

lemma rebuild_orders_unindexed:
  assumes "order_ok mo" "ns_propIndex st = Map.empty" "ns_propOrder st = Map.empty" "ns_histPropOrder st = Map.empty"
  shows "rebuildNodePropertyOrdersLocked mo [] cfg st = st"
proof -
  have "mo_keys mo {} = []" using assms(1) by (fastforce simp: order_ok_def)
  with assms show ?thesis by (simp add: rebuildNodePropertyOrdersLocked_def)
qed

lemma length_purged:
  assumes rel: "idem_rel now recs g" and ok: "idem_ok g" and later: "\<not> time_after now c"
  defines "kept \<equiv> filter (\<lambda>(i, r). \<not> idempotencyRecordExpired r c) recs"
  shows "length kept \<le> length (st_idem g)"
    "map_of kept i = (case map_of (st_idem g) i of None \<Rightarrow> None | Some r \<Rightarrow> if idempotencyRecordExpired r c then None else Some r)"
    "idem_rel c recs (g\<lparr>st_idem := kept\<rparr>)"
proof -
  have d: "distinct (map fst recs)" using rel by (simp add: idem_rel_def)
  have k: "map_of kept i = (case map_of recs i of None \<Rightarrow> None
      | Some r \<Rightarrow> if \<not> idempotencyRecordExpired r c then Some r else None)" for i
    unfolding kept_def by (rule map_of_filter_unexpired [OF d])
  have g: "map_of kept i = (case map_of (st_idem g) i of None \<Rightarrow> None | Some r \<Rightarrow> if idempotencyRecordExpired r c then None else Some r)" for i
  proof (cases "map_of (st_idem g) i")
    case None
    then have "\<And>r. map_of recs i = Some r \<Longrightarrow> idempotencyRecordExpired r c"
      using rel expired_later [OF _ later] unfolding idem_rel_def by blast
    with None show ?thesis unfolding k by (auto split: option.split)
  next
    case (Some r)
    with rel have "map_of recs i = Some r" unfolding idem_rel_def by blast
    with Some show ?thesis unfolding k by simp
  qed
  then show "map_of kept i = (case map_of (st_idem g) i of None \<Rightarrow> None | Some r \<Rightarrow> if idempotencyRecordExpired r c then None else Some r)" .
  have dk: "distinct (map fst kept)" using d by (simp add: kept_def distinct_map_filter)
  have "fst ` set kept \<subseteq> fst ` set (st_idem g)"
  proof -
    have "dom (map_of kept) \<subseteq> dom (map_of (st_idem g))" using g by (auto split: option.splits)
    then show ?thesis by (simp add: dom_map_of_conv_image_fst)
  qed
  then have "card (set (map fst kept)) \<le> card (set (map fst (st_idem g)))" by (intro card_mono) simp_all
  with dk ok show "length kept \<le> length (st_idem g)"
    by (simp only: distinct_card idem_ok_def length_map)
  show "idem_rel c recs (g\<lparr>st_idem := kept\<rparr>)"
    using rel unfolding idem_rel_def by (auto simp: k split: option.splits if_splits)
qed

lemma purge_keeps:
  "st_manifest (purgeExpiredIdempotencyRecordsLocked c s) = st_manifest s"
  "st_domains (purgeExpiredIdempotencyRecordsLocked c s) = st_domains s"
  by (simp_all add: purgeExpiredIdempotencyRecordsLocked_def)

text \<open>Opening up to the idempotency records.\<close>

lemma open_rebuilds:
  assumes r: "log_reads d n e t" and rp: "replayed d n e t commits rv ns es" and oc: "opens oc d"
    and un: "cf_Indexes (st_cfg d) = (\<lambda>_. [])" "st_manifest d = NoManifest"
  obtains s1 where "open_store None mo c oc (disk_of d) =
      (case loadIdempotencyRecords c s1 of (Some e, s2) \<Rightarrow> Inl e
       | (None, s2) \<Rightarrow> Inr (s2\<lparr>st_nodes := rebuildNodePropertyOrdersLocked mo (st_domains s2) (st_cfg s2) (st_nodes s2),
           st_state := StoreStateReady\<rparr>))"
    "segments_same d s1" "st_cfg s1 = st_cfg d" "st_json s1 = st_json d" "st_revision s1 = rv" "st_nodes s1 = ns"
    "st_edges s1 = es" "st_domains s1 = []" "st_manifest s1 = NoManifest"
    "scanSegment (us_of s1) (sg_id (st_txnSeg s1)) SegmentKindTxn (sg_enc (st_txnSeg s1)) (sg_bytes (st_txnSeg s1)) =
      (scans_of (us_of d) (st_txnSeg d) t, None)"
proof -
  note i = rp [unfolded replayed_def]
  note rs = r [unfolded log_reads_def] and o = oc [unfolded opens_def segs_ok_def]
  have segs: "openSegment (oc_txns oc) SegmentKindTxn (oc_enc oc) (dk_txns (disk_of d)) = Inr (st_txnSeg d)"
    "openSegment (oc_nodes oc) SegmentKindNode (oc_enc oc) (dk_nodes (disk_of d)) = Inr (st_nodeSeg d)"
    "openSegment (oc_edges oc) SegmentKindEdge (oc_enc oc) (dk_edges (disk_of d)) = Inr (st_edgeSeg d)"
    using reads_scan(2) [of "us_of d" "st_txnSeg d" t] reads_scan(2) [of "us_of d" "st_nodeSeg d" n]
      reads_scan(2) [of "us_of d" "st_edgeSeg d" e] rs o by (simp_all add: disk_of_def)
  have scans: "scanSegment (us_of d) (sg_id (st_txnSeg d)) SegmentKindTxn (sg_enc (st_txnSeg d)) (sg_bytes (st_txnSeg d)) =
      (scans_of (us_of d) (st_txnSeg d) t, None)"
    "scanSegment (us_of d) (sg_id (st_nodeSeg d)) SegmentKindNode (sg_enc (st_nodeSeg d)) (sg_bytes (st_nodeSeg d)) =
      (scans_of (us_of d) (st_nodeSeg d) n, None)"
    "scanSegment (us_of d) (sg_id (st_edgeSeg d)) SegmentKindEdge (sg_enc (st_edgeSeg d)) (sg_bytes (st_edgeSeg d)) =
      (scans_of (us_of d) (st_edgeSeg d) e, None)"
    using reads_scan(1) [of "us_of d" "st_txnSeg d" t] reads_scan(1) [of "us_of d" "st_nodeSeg d" n]
      reads_scan(1) [of "us_of d" "st_edgeSeg d" e] rs o by (simp_all add: scans_of_def)
  define s0 where "s0 = opening_store oc (dk_manifest (disk_of d)) (st_nodeSeg d) (st_edgeSeg d) (st_txnSeg d)"
  have cfg0: "st_cfg s0 = st_cfg d" using o un(1) by (simp add: s0_def opening_store_def)
  define s1 where "s1 = s0\<lparr>st_revision := rv, st_nodes := ns, st_edges := es\<rparr>"
  have s0: "resetIndexes s0 = s0" "loadIndexManifestLocked s0 = (None, s0)"
    using un by (simp_all add: s0_def opening_store_def resetIndexes_def loadIndexManifestLocked_def disk_of_def)
  have fields: "st_txnSeg s0 = st_txnSeg d" "st_nodeSeg s0 = st_nodeSeg d" "st_edgeSeg s0 = st_edgeSeg d"
    "st_nodes s0 = empty_node_state" "st_edges s0 = empty_edge_state" "st_indexMeta s0 = Map.empty" "st_json s0 = st_json d"
    "st_domains s0 = []" "st_manifest s0 = NoManifest"
    using o un(2) by (simp_all add: s0_def opening_store_def disk_of_def)
  have rn: "replayNodeSegmentFrom (st_cfg d) (st_nodeSeg d) segmentHeaderLen commits empty_node_state = Inr ns"
    "replayEdgeSegmentFrom (st_cfg d) (st_edgeSeg d) segmentHeaderLen commits empty_edge_state = Inr es"
    using i scans(2,3) by (simp_all add: replayNodeSegmentFrom_def replayEdgeSegmentFrom_def visit_scan_def
        scanSegment_def)
  have "rebuildIndexes None s0 = Inr s1"
    unfolding rebuildIndexes_def s0 using i by (simp add: s0 cfg0 fields scans(1) rn s1_def)
  then have op: "open_store None mo c oc (disk_of d) =
      (case loadIdempotencyRecords c s1 of (Some e, s2) \<Rightarrow> Inl e
       | (None, s2) \<Rightarrow> Inr (s2\<lparr>st_nodes := rebuildNodePropertyOrdersLocked mo (st_domains s2) (st_cfg s2) (st_nodes s2),
           st_state := StoreStateReady\<rparr>))"
    unfolding open_store_def segs by (simp add: s0_def [symmetric])
  show thesis
    by (rule that [OF op]) (simp_all add: s1_def fields cfg0 segments_same_def scans(1))
qed

lemma open_mirrors:
  assumes r: "log_reads d n e t" and m: "mirrors now g d n e t" and oc: "opens oc d"
    and un: "unindexed g" "st_manifest d = NoManifest" and ok: "idem_ok g" and mo: "order_ok mo"
    and later: "\<not> time_after now c"
  obtains s where "open_store None mo c oc (disk_of d) = Inr s" "rebuilt c g s" "mirrors c s s n e t"
    "segments_same d s" "st_cfg s = st_cfg d" "opens oc s" "unindexed s" "idem_ok s"
proof -
  obtain commits il where i: "replayed d n e t commits (st_revision g) (st_nodes g) (st_edges g)"
    "load_loop (st_json g) (scans_of (us_of d) (st_txnSeg d) t) no_load = Inr il"
    "il_revision il = st_revision g" "set (il_seen il) = dom commits" "idem_rel now (il_records il) g"
    using m by (auto simp: mirrors_replayed)
  have same: "st_cfg d = st_cfg g" "st_json d = st_json g" "segs_ok d" using m by (simp_all add: mirrors_def)
  have "cf_Indexes (st_cfg d) = (\<lambda>_. [])" using un(1) same by (simp add: unindexed_def)
  from open_rebuilds [where mo = mo and c = c, OF r i(1) oc this un(2)]
  obtain s1 where s1: "open_store None mo c oc (disk_of d) =
      (case loadIdempotencyRecords c s1 of (Some e, s2) \<Rightarrow> Inl e
       | (None, s2) \<Rightarrow> Inr (s2\<lparr>st_nodes := rebuildNodePropertyOrdersLocked mo (st_domains s2) (st_cfg s2) (st_nodes s2),
           st_state := StoreStateReady\<rparr>))"
    "segments_same d s1" "st_cfg s1 = st_cfg d" "st_json s1 = st_json d" "st_revision s1 = st_revision g"
    "st_nodes s1 = st_nodes g" "st_edges s1 = st_edges g" "st_domains s1 = []" "st_manifest s1 = NoManifest"
    "scanSegment (us_of s1) (sg_id (st_txnSeg s1)) SegmentKindTxn (sg_enc (st_txnSeg s1)) (sg_bytes (st_txnSeg s1)) =
      (scans_of (us_of d) (st_txnSeg d) t, None)" .
  define s2 where "s2 = purgeExpiredIdempotencyRecordsLocked c (s1\<lparr>st_idem := il_records il\<rparr>)"
  have idem2: "st_idem s2 = filter (\<lambda>(i, r). \<not> idempotencyRecordExpired r c) (il_records il)"
    by (simp add: s2_def purgeExpiredIdempotencyRecordsLocked_def)
  note lp = length_purged [OF i(5) ok later, folded idem2]
  have cap: "length (st_idem s2) \<le> MaxIdempotencyRecordsPerStore" using lp(1) ok by (simp add: idem_ok_def)
  have ld: "loadIdempotencyRecords c s1 = (None, s2)"
    unfolding loadIdempotencyRecords_def
    using cap by (simp add: s1(4,5,10) same(2) i(2,3) [unfolded no_load_def] Let_def s2_def [symmetric])
  have f2: "st_domains s2 = []" "st_nodes s2 = st_nodes g" "st_cfg s2 = st_cfg d" "st_edges s2 = st_edges g"
    "st_revision s2 = st_revision g" "st_json s2 = st_json g" "segments_same d s2" "st_manifest s2 = NoManifest"
    using s1 same by (simp_all add: s2_def segments_same_def purge_keeps)
  define s where "s = s2\<lparr>st_state := StoreStateReady\<rparr>"
  have "rebuildNodePropertyOrdersLocked mo [] (st_cfg s2) (st_nodes g) = st_nodes g"
    using un(1) by (intro rebuild_orders_unindexed [OF mo]) (simp_all add: unindexed_def)
  moreover have "s2\<lparr>st_nodes := st_nodes g\<rparr> = s2" using f2(2) by (cases s2) simp
  ultimately have op: "open_store None mo c oc (disk_of d) = Inr s"
    by (simp add: s1(1) ld f2(1,2) s_def)
  show thesis
  proof (rule that [OF op])
    show "segments_same d s" "st_cfg s = st_cfg d" using f2 by (simp_all add: s_def segments_same_def)
    then show "opens oc s" using oc f2 same by (simp add: opens_def segs_ok_def segments_same_def s_def)
    show "unindexed s" using un f2 same by (simp add: unindexed_def s_def)
    have il: "idem_lookup scope key s = (case idem_lookup scope key g of
        None \<Rightarrow> None | Some r \<Rightarrow> if idempotencyRecordExpired r c then None else Some r)" for scope key
      using lp(2) by (simp add: idem_lookup_def s_def)
    then show "rebuilt c g s" using f2 by (simp add: rebuilt_def s_def ensureReady_def)
    have "idem_rel c (il_records il) s"
      using lp(3) unfolding idem_rel_def by (simp add: s_def)
    then show "mirrors c s s n e t"
      using i f2 same unfolding mirrors_replayed replayed_def by (auto simp: s_def segments_same_def segs_ok_def)
    have "\<forall>(j, q) \<in> set (st_idem s). j = idempotencyRecordIdentity (ir_Scope q) (ir_Key q) \<and> ir_CommittedRevision q \<le> st_revision s"
    proof safe
      fix j q assume jq: "(j, q) \<in> set (st_idem s)"
      then show "j = idempotencyRecordIdentity (ir_Scope q) (ir_Key q)"
        using i(5) by (auto simp: s_def idem2 idem_rel_def)
      have "distinct (map fst (st_idem s))" using i(5) by (simp add: s_def idem2 idem_rel_def distinct_map_filter)
      with jq have "map_of (st_idem s) j = Some q" by simp
      then have "map_of (st_idem g) j = Some q" using lp(2) by (simp add: s_def split: option.splits if_splits)
      then show "ir_CommittedRevision q \<le> st_revision s"
        using ok f2 map_of_SomeD by (fastforce simp: idem_ok_def s_def)
    qed
    moreover have "distinct (map fst (st_idem s))" using i(5) by (simp add: s_def idem2 idem_rel_def distinct_map_filter)
    moreover have "length (st_idem s) \<le> MaxIdempotencyRecordsPerStore" using cap by (simp add: s_def)
    ultimately show "idem_ok s" by (simp add: idem_ok_def)
  qed
qed

section \<open>Idempotency records on disk\<close>

text \<open>A record in the transaction segment that is not a commit.\<close>

lemma mirrors_txn_append:
  assumes m: "mirrors now g g n e t" and h: "log_holds g n e t"
    and w: "writable (us_of g) (st_txnSeg g) k tid 0 p" and k: "k \<noteq> RecordKindTxnCommit"
    and app: "appendRecord (us_of g) WroteAll k tid 0 p (st_txnSeg g) = (Inr loc, sg)"
    and load: "\<And>il off. idem_rel now (il_records il) g \<Longrightarrow> il_revision il = st_revision g \<Longrightarrow>
      \<exists>recs. load_idempotency_record (st_json g) (read_rec (us_of g) (st_txnSeg g) off tid k 0 p) il = Inr (il\<lparr>il_records := recs\<rparr>) \<and>
        idem_rel now recs g'"
    and g': "graph_same g g'" "st_txnSeg g' = sg" "st_nodeSeg g' = st_nodeSeg g" "st_edgeSeg g' = st_edgeSeg g"
  shows "\<exists>t'. log_holds g' n e t' \<and> mirrors now g' g' n e t'"
proof -
  obtain commits il where i:
    "fold count_commit (scans_of (us_of g) (st_txnSeg g) t) (Map.empty, 0) = (commits, st_revision g)"
    "visit_records (replay_node (st_cfg g) commits) (scans_of (us_of g) (st_nodeSeg g) n) empty_node_state = Inr (st_nodes g)"
    "visit_records (replay_edge (st_cfg g) commits) (scans_of (us_of g) (st_edgeSeg g) e) empty_edge_state = Inr (st_edges g)"
    "load_loop (st_json g) (scans_of (us_of g) (st_txnSeg g) t) no_load = Inr il"
    "il_revision il = st_revision g" "set (il_seen il) = dom commits" "idem_rel now (il_records il) g"
    using m by (auto simp: mirrors_def)
  note hs = conjunct2 [OF conjunct2 [OF h [unfolded log_holds_def]]]
  note ac = append_cases(2) [OF hs w app refl] and fr = append_cases(1) [OF hs w app]
  let ?r = "stored_rec (us_of g) (st_txnSeg g) tid k 0 p"
    and ?s = "read_rec (us_of g) (st_txnSeg g) (length (sg_bytes (st_txnSeg g))) tid k 0 p"
  have cfg: "st_cfg g' = st_cfg g" "st_json g' = st_json g" "st_nodes g' = st_nodes g" "st_edges g' = st_edges g"
    "st_revision g' = st_revision g" using g'(1) by (simp_all add: graph_same_def)
  have ts: "scans_of (us_of g) (st_txnSeg g') (t @ [?r]) = scans_of (us_of g) (st_txnSeg g) t @ [?s]"
    unfolding g'(2) scans_of_frame [OF fr] scans_of_append [OF hs] scanned_stored [OF w conjunct1 [OF conjunct2 [OF ac]]]
    by simp
  obtain recs where recs: "load_idempotency_record (st_json g) ?s il = Inr (il\<lparr>il_records := recs\<rparr>)" "idem_rel now recs g'"
    using load [OF i(7,5)] by blast
  have "fold count_commit (scans_of (us_of g) (st_txnSeg g') (t @ [?r])) (Map.empty, 0) = (commits, st_revision g')"
    using k by (simp add: ts i(1) cfg count_commit_other read_rec_fields)
  moreover have "load_loop (st_json g') (scans_of (us_of g) (st_txnSeg g') (t @ [?r])) no_load = Inr (il\<lparr>il_records := recs\<rparr>)"
    by (simp add: ts cfg load_loop_append i(4) recs(1))
  moreover have "segs_ok g'" using m fr by (simp add: mirrors_def segs_ok_def g' seg_frame_def)
  ultimately have "mirrors now g' g' n e (t @ [?r])"
    unfolding mirrors_def cfg g'(3,4) using i recs(2)
    by (intro conjI exI [of _ commits] exI [of _ "il\<lparr>il_records := recs\<rparr>"]) (simp_all add: cfg)
  moreover have "log_holds g' n e (t @ [?r])" using h ac by (simp add: log_holds_def cfg g')
  ultimately show ?thesis by blast
qed

definition marker_kind :: "byte \<Rightarrow> bool" where
  "marker_kind k \<longleftrightarrow> k = RecordKindIdempotencyDelivered \<or> k = RecordKindIdempotencyAcknowledged \<or>
     k = RecordKindIdempotencyRetained"

lemmas record_kinds = RecordKindTxnBegin_def RecordKindTxnCommit_def RecordKindIdempotencyRestore_def
  RecordKindIdempotencyDelivered_def RecordKindIdempotencyAcknowledged_def RecordKindIdempotencyRetained_def

lemma apply_delivery_keys: "ir_Scope (apply_delivery k r) = ir_Scope r" "ir_Key (apply_delivery k r) = ir_Key r"
  by (simp_all add: apply_delivery_def)

definition marker_writable :: "byte \<Rightarrow> string \<times> string \<times> string \<Rightarrow> local_store \<Rightarrow> bool" where
  "marker_writable k meta s \<longleftrightarrow> (\<forall>payload tid. jc_delivery (st_json s) meta = Some payload \<longrightarrow>
     writable (us_of s) (st_txnSeg s) k tid 0 payload)"

lemma mirrors_marker:
  assumes m: "mirrors now s s n e t" "log_holds s n e t" and jc: "json_ok (st_json s)" and ok: "idem_ok s"
    and w: "marker_writable k (scope, key, digest) s" "marker_kind k"
    and r: "idem_lookup scope key s = Some r" "ir_Digest r = digest"
    and wm: "write_marker WroteAll True k (scope, key, digest) r (apply_delivery k r) s = (err, s')"
  shows "\<exists>t'. log_holds s' n e t' \<and> mirrors now s' s' n e t'"
proof (cases "jc_delivery (st_json s) (scope, key, digest)")
  case None
  with m wm show ?thesis by (auto simp: write_marker_def)
next
  case (Some payload)
  obtain out sg where app: "appendRecord (us_of s) WroteAll k (ir_StorageTxnID r) 0 payload (st_txnSeg s) = (out, sg)" by fastforce
  have wr: "writable (us_of s) (st_txnSeg s) k (ir_StorageTxnID r) 0 payload" using w(1) Some by (simp add: marker_writable_def)
  note hs = conjunct2 [OF conjunct2 [OF m(2) [unfolded log_holds_def]]]
  show ?thesis
  proof (cases out)
    case (Inl er)
    have "sg = st_txnSeg s"
      using app Inl by (auto simp: appendRecord_def split: option.splits)
    with wm Some app Inl m show ?thesis by (auto simp: write_marker_def)
  next
    case (Inr loc)
    let ?i = "idempotencyRecordIdentity scope key"
    have s': "s' = s\<lparr>st_txnSeg := sg, st_idem := AList.update ?i (apply_delivery k r) (st_idem s)\<rparr>"
      using wm Some app Inr by (simp add: write_marker_def)
    have key: "?i = idempotencyRecordIdentity (ir_Scope (apply_delivery k r)) (ir_Key (apply_delivery k r))"
      using idem_ok_lookup [OF ok r(1)] by (simp add: apply_delivery_keys)
    show ?thesis
    proof (rule mirrors_txn_append [OF m wr _ app [unfolded Inr]])
      show "k \<noteq> RecordKindTxnCommit" using w(2) by (auto simp: marker_kind_def record_kinds)
      show "graph_same s s'" "st_txnSeg s' = sg" "st_nodeSeg s' = st_nodeSeg s" "st_edgeSeg s' = st_edgeSeg s"
        by (simp_all add: s' graph_same_def)
      fix il :: idem_load and off assume il: "idem_rel now (il_records il) s" "il_revision il = st_revision s"
      have "map_of (il_records il) ?i = Some r" using il(1) r(1) unfolding idem_rel_def idem_lookup_def by blast
      moreover have "jc_undelivery (st_json s) payload = Some (scope, key, digest)" using jc Some unfolding json_ok_def by blast
      ultimately have "load_idempotency_record (st_json s) (read_rec (us_of s) (st_txnSeg s) off (ir_StorageTxnID r) k 0 payload) il =
          Inr (il\<lparr>il_records := AList.update ?i (apply_delivery k r) (il_records il)\<rparr>)"
        using w(2) r(2) by (auto simp: load_idempotency_record_def read_rec_fields Let_def marker_kind_def record_kinds)
      moreover have "idem_rel now (AList.update ?i (apply_delivery k r) (il_records il)) s'"
        by (rule idem_rel_store [OF il(1) key]) (simp add: s')
      ultimately show "\<exists>recs. load_idempotency_record (st_json s)
          (read_rec (us_of s) (st_txnSeg s) off (ir_StorageTxnID r) k 0 payload) il = Inr (il\<lparr>il_records := recs\<rparr>) \<and>
          idem_rel now recs s'" by blast
    qed
  qed
qed

lemma mirrors_marks:
  assumes m: "mirrors now s s n e t" "log_holds s n e t" and jc: "json_ok (st_json s)" and ok: "idem_ok s"
  shows "marker_writable RecordKindIdempotencyDelivered (scope, key, digest) s \<Longrightarrow>
      MarkIdempotencyDelivered ctx WroteAll True scope key digest s = (err, s') \<Longrightarrow>
      \<exists>t'. log_holds s' n e t' \<and> mirrors now s' s' n e t'"
    and "marker_writable RecordKindIdempotencyRetained (scope, key, digest) s \<Longrightarrow>
      RetainIdempotencyUntilAcknowledged ctx WroteAll True scope key digest meta s = (err, s') \<Longrightarrow>
      \<exists>t'. log_holds s' n e t' \<and> mirrors now s' s' n e t'"
    and "marker_writable RecordKindIdempotencyAcknowledged (scope, key, digest) s \<Longrightarrow>
      MarkIdempotencyPublicationAcknowledged ctx WroteAll True scope key digest meta s = (err, s') \<Longrightarrow>
      \<exists>t'. log_holds s' n e t' \<and> mirrors now s' s' n e t'"
proof -
  note mm = mirrors_marker [OF m jc ok]
  have d: "apply_delivery RecordKindIdempotencyDelivered r = r\<lparr>ir_Delivered := True\<rparr>"
    "apply_delivery RecordKindIdempotencyRetained r = r\<lparr>ir_RetainUntilAcknowledged := True\<rparr>"
    "apply_delivery RecordKindIdempotencyAcknowledged r = r\<lparr>ir_PublicationAcknowledged := True\<rparr>" for r
    by (simp_all add: apply_delivery_def record_kinds)
  have k: "marker_kind RecordKindIdempotencyDelivered" "marker_kind RecordKindIdempotencyRetained"
    "marker_kind RecordKindIdempotencyAcknowledged" by (simp_all add: marker_kind_def)
  show "\<exists>t'. log_holds s' n e t' \<and> mirrors now s' s' n e t'"
    if "marker_writable RecordKindIdempotencyDelivered (scope, key, digest) s"
      "MarkIdempotencyDelivered ctx WroteAll True scope key digest s = (err, s')"
    using that(2) m mm [OF that(1) k(1)] unfolding MarkIdempotencyDelivered_def d
    by (auto split: option.splits if_splits)
  show "\<exists>t'. log_holds s' n e t' \<and> mirrors now s' s' n e t'"
    if "marker_writable RecordKindIdempotencyRetained (scope, key, digest) s"
      "RetainIdempotencyUntilAcknowledged ctx WroteAll True scope key digest meta s = (err, s')"
    using that(2) m mm [OF that(1) k(2)] unfolding RetainIdempotencyUntilAcknowledged_def d
    by (auto split: option.splits if_splits)
  show "\<exists>t'. log_holds s' n e t' \<and> mirrors now s' s' n e t'"
    if "marker_writable RecordKindIdempotencyAcknowledged (scope, key, digest) s"
      "MarkIdempotencyPublicationAcknowledged ctx WroteAll True scope key digest meta s = (err, s')"
    using that(2) m mm [OF that(1) k(3)] unfolding MarkIdempotencyPublicationAcknowledged_def d
    by (auto split: option.splits if_splits)
qed

definition restore_writable :: "IdempotencyRecord list \<Rightarrow> local_store \<Rightarrow> bool" where
  "restore_writable rs s \<longleftrightarrow> (\<forall>r p. r \<in> set rs \<longrightarrow> jc_record (st_json s) r = Some p \<longrightarrow>
     writable (us_of s) (st_txnSeg s) RecordKindIdempotencyRestore (ir_StorageTxnID r) 0 p)"

lemma mirrors_restore_loop:
  assumes "restore_loop w c i rs s = (err, s')" "\<forall>i. w i = WroteAll"
    and "mirrors now s s n e t" "log_holds s n e t" "json_ok (st_json s)" "restore_writable rs s"
  shows "\<exists>t'. log_holds s' n e t' \<and> mirrors now s' s' n e t'"
  using assms
proof (induction w c i rs s arbitrary: err s' t rule: restore_loop.induct)
  case (1 w c i s)
  then show ?case by auto
next
  case (2 w c i r rs s)
  have rw: "restore_writable rs s" using 2(8) by (simp add: restore_writable_def)
  show ?case
  proof (cases "idempotencyRecordExpired r c")
    case True
    with 2 rw show ?thesis by auto
  next
    case False
    show ?thesis
    proof (cases "s' = s")
      case True
      with 2(5,6) show ?thesis by blast
    next
      case changed: False
      with False 2(3) obtain p where v: "validateIdempotencyRecord r = None"
        and ids: "\<not> (ir_StorageTxnID r = 0 \<or> ir_CommittedRevision r = 0 \<or> ir_CommittedRevision r > st_revision s)"
        and conf: "\<not> (case idem_lookup (ir_Scope r) (ir_Key r) s of Some existing \<Rightarrow> ir_Digest existing \<noteq> ir_Digest r | None \<Rightarrow> False)"
        and cap: "\<not> (idem_lookup (ir_Scope r) (ir_Key r) s = None \<and> length (st_idem s) \<ge> MaxIdempotencyRecordsPerStore)"
        and p: "jc_record (st_json s) r = Some p"
        by (auto split: option.splits if_splits)
      obtain out sg where app: "appendRecord (us_of s) (w i) RecordKindIdempotencyRestore (ir_StorageTxnID r) 0 p (st_txnSeg s) = (out, sg)"
        by fastforce
      show ?thesis
      proof (cases out)
        case (Inl er)
        have "sg = st_txnSeg s" using app Inl 2(4) by (auto simp: appendRecord_def split: option.splits)
        with False 2(3) v ids conf cap p app Inl have "s' = s" by simp
        with changed show ?thesis ..
      next
        case (Inr loc)
        let ?g = "idem_store r (s\<lparr>st_txnSeg := sg\<rparr>)"
        have wr: "writable (us_of s) (st_txnSeg s) RecordKindIdempotencyRestore (ir_StorageTxnID r) 0 p"
          using 2(8) p by (auto simp: restore_writable_def)
        have app': "appendRecord (us_of s) WroteAll RecordKindIdempotencyRestore (ir_StorageTxnID r) 0 p (st_txnSeg s) = (Inr loc, sg)"
          using app Inr 2(4) by simp
        have st: "\<exists>t'. log_holds ?g n e t' \<and> mirrors now ?g ?g n e t'"
        proof (rule mirrors_txn_append [OF 2(5,6) wr _ app'])
          show "RecordKindIdempotencyRestore \<noteq> RecordKindTxnCommit" by (simp add: record_kinds)
          show "graph_same s ?g" "st_txnSeg ?g = sg" "st_nodeSeg ?g = st_nodeSeg s" "st_edgeSeg ?g = st_edgeSeg s"
            by (simp_all add: idem_store_def graph_same_def)
          fix il :: idem_load and off assume il: "idem_rel now (il_records il) s" "il_revision il = st_revision s"
          let ?i = "idempotencyRecordIdentity (ir_Scope r) (ir_Key r)"
          have "jc_unrecord (st_json s) p = Some r" using 2(7) p unfolding json_ok_def by blast
          then have "load_idempotency_record (st_json s)
              (read_rec (us_of s) (st_txnSeg s) off (ir_StorageTxnID r) RecordKindIdempotencyRestore 0 p) il =
              Inr (il\<lparr>il_records := AList.update ?i r (il_records il)\<rparr>)"
            using ids v il(2) by (simp add: load_idempotency_record_def read_rec_fields Let_def load_candidate_def record_kinds)
          moreover have "idem_rel now (AList.update ?i r (il_records il)) ?g"
            by (rule idem_rel_store [OF il(1) refl]) (simp add: idem_store_def)
          ultimately show "\<exists>recs. load_idempotency_record (st_json s)
              (read_rec (us_of s) (st_txnSeg s) off (ir_StorageTxnID r) RecordKindIdempotencyRestore 0 p) il =
              Inr (il\<lparr>il_records := recs\<rparr>) \<and> idem_rel now recs ?g" by blast
        qed
        then obtain t' where t': "log_holds ?g n e t'" "mirrors now ?g ?g n e t'" by blast
        have go: "restore_loop w c (Suc i) rs ?g = (err, s')" using False 2(3) v ids conf cap p app Inr by simp
        have "seg_frame (st_txnSeg s) sg"
          by (rule append_cases(1) [OF conjunct2 [OF conjunct2 [OF 2(6) [unfolded log_holds_def]]] wr app'])
        then have rw': "restore_writable rs ?g"
          using rw by (simp add: restore_writable_def idem_store_def writable_frame)
        have "json_ok (st_json ?g)" using 2(7) by (simp add: idem_store_def)
        from 2(2) [OF False v ids conf cap p app [unfolded Inr, symmetric] refl go 2(4) t'(2,1) this rw'] show ?thesis .
      qed
    qed
  qed
qed

section \<open>Commits in a run\<close>

text \<open>No record of the segments belongs to the transaction: its identifier is new.\<close>

definition txn_unused :: "localTxn \<Rightarrow> local_store \<Rightarrow> bool" where
  "txn_unused tx s \<longleftrightarrow> (\<forall>sg \<in> {st_nodeSeg s, st_edgeSeg s, st_txnSeg s}. \<forall>rec \<in> set (fst (scan (us_of s) sg)).
     rh_txnID (sc_header rec) \<noteq> tx_id tx)"

text \<open>What a commit needs to be rebuilt as it was: a new identifier, entities that decode to themselves, and a
  clock that has not been overtaken.\<close>

definition commit_fits :: "gotime \<Rightarrow> localTxn \<Rightarrow> local_store \<Rightarrow> bool" where
  "commit_fits now tx s \<longleftrightarrow> txn_unused tx s \<and> tx_writable tx s \<and>
     (\<forall>n \<in> set (tx_nodePuts tx). node_stable n) \<and> (\<forall>e \<in> set (tx_edgePuts tx). edge_stable e) \<and>
     (\<forall>r. tx_idem tx = Some r \<longrightarrow> \<not> time_after (ir_CommittedAt r) now)"

lemma scanned_txns: "(\<lambda>rec. rh_txnID (sc_header rec)) ` set (scanned_list us name kind enc off rs) = sr_txn ` set rs"
  by (induction rs arbitrary: off) (simp_all add: scanned_of_def)

lemma unused_fresh:
  assumes "log_holds s n e t" "txn_unused tx s"
  shows "fresh_txn tx n e t"
proof -
  have each: "tx_id tx \<notin> sr_txn ` set rs"
    if "segment_holds (us_of s) sg rs" "\<forall>rec \<in> set (fst (scan (us_of s) sg)). rh_txnID (sc_header rec) \<noteq> tx_id tx" for sg rs
  proof -
    have "sr_txn ` set rs = (\<lambda>rec. rh_txnID (sc_header rec)) ` set (fst (scan (us_of s) sg))"
      by (simp add: scan_holds(1) [OF that(1)] scanned_txns)
    with that(2) show ?thesis by auto
  qed
  note h = assms(1) [unfolded log_holds_def] and u = assms(2) [unfolded txn_unused_def]
  have "tx_id tx \<notin> sr_txn ` set n" by (rule each [of "st_nodeSeg s"]) (use h u in simp_all)
  moreover have "tx_id tx \<notin> sr_txn ` set e" by (rule each [of "st_edgeSeg s"]) (use h u in simp_all)
  moreover have "tx_id tx \<notin> sr_txn ` set t" by (rule each [of "st_txnSeg s"]) (use h u in simp_all)
  ultimately show ?thesis unfolding fresh_txn_def by (metis UnE image_eqI)
qed

lemma purged_keeps:
  assumes "purged_of tx s s'"
  shows "segments_same s s'" "st_cfg s' = st_cfg s" "st_json s' = st_json s" "st_manifest s' = st_manifest s"
    "st_domains s' = st_domains s" "graph_same s s'"
  using assms by (auto simp: purged_of_def segments_same_def purge_keeps graph_same_def)

lemma purged_mirrors:
  assumes "purged_of tx s s'" "mirrors now s s n e t" "idem_ok s"
    and "\<forall>r. tx_idem tx = Some r \<longrightarrow> \<not> time_after (ir_CommittedAt r) now"
  shows "mirrors now s' s' n e t"
  using assms mirrors_purge unfolding purged_of_def by blast

lemma tx_writable_cong:
  "segments_same s s' \<Longrightarrow> st_cfg s' = st_cfg s \<Longrightarrow> st_json s' = st_json s \<Longrightarrow> tx_writable tx s' \<longleftrightarrow> tx_writable tx s"
  by (simp add: tx_writable_def segments_same_def)

lemma commit_write_keeps:
  assumes "commit_write io tx idem s = (out, s1)"
  shows "st_manifest s1 = st_manifest s" "st_domains s1 = st_domains s"
  using assms unfolding commit_write_def Let_def
  by (auto split: sum.splits prod.splits option.splits if_splits)

lemma commit_apply_keeps:
  "st_nodeSeg (commit_apply t idem nlocs elocs s) = st_nodeSeg s" "st_edgeSeg (commit_apply t idem nlocs elocs s) = st_edgeSeg s"
  "st_txnSeg (commit_apply t idem nlocs elocs s) = st_txnSeg s" "st_manifest (commit_apply t idem nlocs elocs s) = st_manifest s"
  "st_domains (commit_apply t idem nlocs elocs s) = st_domains s"
  by (cases idem; simp add: commit_apply_def Let_def markReadyIndexesIndexedThrough_def idem_store_def)+

text \<open>
  A commit with any outcome: the segments of the store it leaves mirror the memory before the commit, or the
  memory with the transaction applied; when it succeeds, the latter.
\<close>

lemma commit_mirrors:
  assumes m: "mirrors now s0 s0 n e t" "log_holds s0 n e t" and ok: "idem_ok s0" and jc: "json_ok (st_json s0)"
    and f: "commit_fits now tx s0" and c: "CommitWithInfo io tx s0 = (res, t', s')"
  obtains (kept) n' e' tt where "graph_same s0 s'" "quiet s0 s'" "mirrors now s' s' n' e' tt" "log_reads s' n' e' tt"
      "io_clean io \<Longrightarrow> log_holds s' n' e' tt" "\<And>info. res = Inr info \<Longrightarrow> ci_IdempotentReplay info"
      "segs_frame s0 s'" "st_domains s' = st_domains s0"
    | (went) g n' e' tt where "applied tx s0 g" "mirrors now g s' n' e' tt" "log_reads s' n' e' tt"
      "io_clean io \<Longrightarrow> s' = g \<and> log_holds s' n' e' tt" "\<And>info. res = Inr info \<Longrightarrow> s' = g"
      "segs_frame s0 s'" "st_domains g = st_domains s0" "st_cfg g = st_cfg s0" "st_manifest g = st_manifest s0"
  using c
proof (cases rule: commit_disk_cases)
  case early
  have mm: "mirrors now s' s' n e t"
    using purged_mirrors [OF early(1) m(1) ok] f by (simp add: commit_fits_def)
  have "log_holds s' n e t" using m(2) log_cong(1) purged_keeps(1,2) [OF early(1)] by blast
  moreover have "quiet s0 s'" using early(1) quiet_purge by (auto simp: purged_of_def)
  moreover have "segs_frame s0 s'" using purged_keeps [OF early(1)] by (simp add: segs_frame_def segments_same_def)
  ultimately show thesis
    using kept [OF _ _ mm] purged_keeps [OF early(1)] early(2) log_holds_reads by blast
next
  case (wrote idem s out s1)
  note pur = commit_idempotency_purges(1) [OF wrote(1)] and fits = commit_idempotency_purges(2) [OF wrote(1) refl]
  note pk = purged_keeps [OF pur]
  have ms: "mirrors now s s n e t"
    using purged_mirrors [OF pur m(1) ok] f by (simp add: commit_fits_def)
  have hs: "log_holds s n e t" using m(2) log_cong(1) pk(1,2) by blast
  have fresh: "fresh_txn tx n e t" using unused_fresh [OF m(2)] f by (simp add: commit_fits_def)
  have wr: "tx_writable tx s" using f tx_writable_cong [OF pk(1-3)] by (simp add: commit_fits_def)
  have own: "own_idem tx idem" using fits by (simp add: idem_fits_def)
  note sw = commit_write_same [OF wrote(2)] and kw = commit_write_keeps [OF wrote(2)]
  have same: "graph_same s0 s1" using pk(6) sw graph_same_trans by blast
  have qu: "quiet s0 s1"
    using quiet_idempotency [OF wrote(1)] commit_write_quiet(1) [OF wrote(2)] quiet_trans by blast
  have json: "st_json s1 = st_json s" "graph_same s s1" "st_idem s1 = st_idem s"
    using sw by (simp_all add: graph_same_def idem_same_def)
  have fr0: "segs_frame s0 s" using pk by (simp add: segs_frame_def segments_same_def)
  have fr_trans: "segs_frame s0 s1" if "segs_frame s s1"
    using fr0 that by (auto simp: segs_frame_def intro: seg_frame_trans)
  have m1: "mirrors now s1 s n e t" by (rule mirrors_cong [OF ms json(2,3)]) simp_all
  show thesis
    using hs wr own wrote(2)
  proof (cases rule: commit_write_disk)
    case (lost err)
    have s1: "s' = s1" "res = Inl err" using wrote(4) lost(1) by simp_all
    show thesis
    proof (cases "io_clean io")
      case True
      from mirrors_doubt [OF m1 hs fresh wr lost(2) json(1) lost(4) [OF True]]
      obtain n' e' tt where "log_holds s1 n' e' tt" "mirrors now s1 s1 n' e' tt" by blast
      then show thesis
        using kept [of n' e' tt] same qu s1 fr_trans [OF lost(2)] log_holds_reads kw pk(5) by simp
    next
      case False
      from mirrors_doubt [OF m1 hs fresh wr lost(2) json(1) lost(3)]
      obtain n' e' tt where "log_reads s1 n' e' tt" "mirrors now s1 s1 n' e' tt" by blast
      then show thesis
        using kept [of n' e' tt] False same qu s1 fr_trans [OF lost(2)] kw pk(5) by simp
    qed
  next
    case kept': kept
    let ?nl = "node_locs tx s" and ?el = "edge_locs tx s"
    define g where "g = commit_apply tx idem ?nl ?el s1"
    have app: "applied tx s0 g" unfolding g_def by (rule applied_write [OF wrote(1-3) locs_length])
    have st: "\<forall>n \<in> set (tx_nodePuts tx). node_stable n" "\<forall>e \<in> set (tx_edgePuts tx). edge_stable e"
      using f by (simp_all add: commit_fits_def)
    have "json_ok (st_json s1)" "idem_fits tx (st_revision s1 + 1) idem"
      using jc fits same sw by (simp_all add: graph_same_def)
    note od = mirrors_on_disk [OF m1 hs fresh wr kept'(1) json(1) _ st this, folded g_def]
    have gk: "st_domains g = st_domains s0" "st_cfg g = st_cfg s0" "st_manifest g = st_manifest s0"
      using kw pk same by (simp_all add: g_def commit_apply_keeps commit_apply_fields graph_same_def)
    show thesis
    proof (cases out)
      case (Inr locs)
      obtain nl el where locs: "out = Inr (nl, el)" using Inr by (cases locs) simp
      have hold: "on_disk tx idem log_holds s s1 n e t" and l: "nl = ?nl" "el = ?el" using kept'(5) [OF locs] by blast+
      have s': "s' = g" using wrote(4) by (simp add: locs l g_def)
      from od [OF hold] obtain n' e' tt where nn: "log_holds s1 n' e' tt" "mirrors now g s1 n' e' tt" by blast
      have seg: "segments_same s1 g" "st_cfg g = st_cfg s1" "st_json g = st_json s1"
        by (simp_all add: segments_same_def g_def commit_apply_keeps commit_apply_fields commit_apply_json)
      have "mirrors now g g n' e' tt" by (rule mirrors_cong [OF nn(2) _ _ seg(2,3,1)]) simp_all
      moreover have "log_holds g n' e' tt" using nn(1) log_cong(1) [OF seg(1,2)] by blast
      moreover have "segs_frame s0 g"
        using fr_trans [OF kept'(1)] by (simp add: segs_frame_def g_def commit_apply_keeps commit_apply_fields)
      ultimately show thesis using went [OF app, of n' e' tt] s' gk log_holds_reads by blast
    next
      case (Inl err)
      then have s1: "s' = s1" "res = Inl err" using wrote(4) by simp_all
      have nc: "\<not> io_clean io" using kept'(3) Inl by auto
      from od [OF kept'(2)] obtain n' e' tt where "log_reads s1 n' e' tt" "mirrors now g s1 n' e' tt" by blast
      then show thesis using went [OF app, of n' e' tt] s1 nc gk fr_trans [OF kept'(1)] by simp
    qed
  qed
qed

section \<open>Without property indexes\<close>

definition no_props :: "node_state \<Rightarrow> bool" where
  "no_props st \<longleftrightarrow> ns_propIndex st = Map.empty \<and> ns_propOrder st = Map.empty \<and> ns_histPropOrder st = Map.empty"

lemma removeNodeIndexes_no_props:
  "cf_Indexes cfg = (\<lambda>_. []) \<Longrightarrow> no_props st \<Longrightarrow> no_props (removeNodeIndexes cfg n st)"
  by (simp add: removeNodeIndexes_def no_props_def Let_def)

lemma node_op_no_props:
  assumes "cf_Indexes cfg = (\<lambda>_. [])" "no_props st"
  shows "no_props (node_op cfg op st)"
proof (cases op)
  case (OpPut n loc)
  let ?st = "case ns_records st (n_ID n) of None \<Rightarrow> st | Some old \<Rightarrow> removeNodeIndexes cfg old st"
  have "no_props ?st" using removeNodeIndexes_no_props [OF assms] assms(2) by (simp split: option.split)
  with assms(1) show ?thesis by (simp add: OpPut applyNodePut_def no_props_def Let_def)
next
  case (OpDel i loc)
  let ?st = "case ns_records st i of None \<Rightarrow> st | Some old \<Rightarrow> removeNodeIndexes cfg old st"
  have "no_props ?st" using removeNodeIndexes_no_props [OF assms] assms(2) by (simp split: option.split)
  then show ?thesis by (simp add: OpDel applyNodeDelete_def no_props_def Let_def)
qed

lemma fold_node_op_no_props:
  "cf_Indexes cfg = (\<lambda>_. []) \<Longrightarrow> no_props st \<Longrightarrow> no_props (fold (node_op cfg) ops st)"
  by (induction ops arbitrary: st) (simp_all add: node_op_no_props)

lemma same_nodes_props: "same_nodes a b \<Longrightarrow> no_props b \<longleftrightarrow> no_props a"
  by (cases a; cases b) (simp add: same_nodes_def no_props_def)

lemma applied_no_props:
  assumes "applied t s s'" "cf_Indexes (st_cfg s) = (\<lambda>_. [])" "no_props (st_nodes s)"
  shows "no_props (st_nodes s')"
proof -
  obtain idem nlocs elocs s1 where a: "graph_same s s1" "s' = commit_apply t idem nlocs elocs s1"
    using assms(1) unfolding applied_def by blast
  then have "no_props (apply_nodes (st_cfg s1) t nlocs (st_nodes s1))"
    unfolding apply_nodes_ops using assms(2,3) by (intro fold_node_op_no_props) (simp_all add: graph_same_def)
  then show ?thesis
    unfolding a(2) commit_apply_fields using same_nodes_props [OF version_nodes_fields(2)] by blast
qed

section \<open>Runs\<close>

inductive runs :: "open_cfg \<Rightarrow> gotime \<Rightarrow> local_store \<Rightarrow> bool" for oc where
  run_start: "order_ok mo \<Longrightarrow> open_store None mo now oc empty_disk = Inr s \<Longrightarrow> runs oc now s"
| run_later: "runs oc now s \<Longrightarrow> \<not> time_after now now' \<Longrightarrow> runs oc now' s"
| run_commit: "runs oc now s \<Longrightarrow> st_revision s \<noteq> - 1 \<Longrightarrow> commit_fits now tx s \<Longrightarrow> io_clean io \<Longrightarrow>
    CommitWithInfo io tx s = (res, t', s') \<Longrightarrow> runs oc now s'"
| run_reopen: "runs oc now s \<Longrightarrow> order_ok mo \<Longrightarrow> open_store None mo now oc (disk_of s) = Inr s' \<Longrightarrow> runs oc now s'"
| run_check: "runs oc now s \<Longrightarrow> \<not> time_after (ir_CommittedAt r) now \<Longrightarrow>
    CheckIdempotencyRecord ctx r s = (out, s') \<Longrightarrow> runs oc now s'"
| run_get: "runs oc now s \<Longrightarrow> GetIdempotencyRecord ctx now scope key s = (out, s') \<Longrightarrow> runs oc now s'"
| run_list: "runs oc now s \<Longrightarrow> ListIdempotencyRecords ctx now s = (lst, s') \<Longrightarrow> runs oc now s'"
| run_stats: "runs oc now s \<Longrightarrow> IdempotencyStats now s = (stats, s') \<Longrightarrow> runs oc now s'"
| run_restore: "runs oc now s \<Longrightarrow> restore_writable rs s \<Longrightarrow>
    RestoreIdempotencyRecords ctx now (\<lambda>_. WroteAll) sync_ok rs s = (err, s') \<Longrightarrow> runs oc now s'"
| run_deliver: "runs oc now s \<Longrightarrow> marker_writable RecordKindIdempotencyDelivered (scope, key, digest) s \<Longrightarrow>
    MarkIdempotencyDelivered ctx WroteAll True scope key digest s = (err, s') \<Longrightarrow> runs oc now s'"
| run_retain: "runs oc now s \<Longrightarrow> marker_writable RecordKindIdempotencyRetained (scope, key, digest) s \<Longrightarrow>
    RetainIdempotencyUntilAcknowledged ctx WroteAll True scope key digest meta s = (err, s') \<Longrightarrow> runs oc now s'"
| run_acknowledge: "runs oc now s \<Longrightarrow> marker_writable RecordKindIdempotencyAcknowledged (scope, key, digest) s \<Longrightarrow>
    MarkIdempotencyPublicationAcknowledged ctx WroteAll True scope key digest meta s = (err, s') \<Longrightarrow> runs oc now s'"
| run_close: "runs oc now s \<Longrightarrow> runs oc now (store_Close s)"

definition run_inv :: "open_cfg \<Rightarrow> gotime \<Rightarrow> local_store \<Rightarrow> bool" where
  "run_inv oc now s \<longleftrightarrow> opens oc s \<and> unindexed s \<and> store_inv s \<and>
     (\<exists>n e t. log_holds s n e t \<and> mirrors now s s n e t)"

lemma run_invI:
  "log_holds s n e t \<Longrightarrow> mirrors now s s n e t \<Longrightarrow> opens oc s \<Longrightarrow> unindexed s \<Longrightarrow> store_inv s \<Longrightarrow> run_inv oc now s"
  unfolding run_inv_def by blast

lemma rebuilt_inv:
  assumes "store_inv g" "rebuilt c g s" "st_cfg s = st_cfg g" "idem_ok s" shows "store_inv s"
  using assms by (simp add: store_inv_def rebuilt_def)

lemma opens_frame: "opens oc s \<Longrightarrow> segs_frame s s' \<Longrightarrow> st_json s' = st_json s \<Longrightarrow> opens oc s'"
  by (simp add: opens_def segs_frame_def seg_frame_def segs_ok_def)

lemma run_inv_reopen:
  assumes "run_inv oc now s" "order_ok mo" "\<not> time_after now c"
  obtains s' where "open_store None mo c oc (disk_of s) = Inr s'" "rebuilt c s s'" "run_inv oc c s'"
proof -
  obtain n e t where i: "log_holds s n e t" "mirrors now s s n e t" "opens oc s" "unindexed s" "store_inv s"
    using assms(1) by (auto simp: run_inv_def)
  have "idem_ok s" "st_manifest s = NoManifest" using i(4,5) by (simp_all add: store_inv_def unindexed_def)
  from open_mirrors [OF log_holds_reads [OF i(1)] i(2,3,4) this(2,1) assms(2,3)]
  obtain s' where s': "open_store None mo c oc (disk_of s) = Inr s'" "rebuilt c s s'" "mirrors c s' s' n e t"
    "segments_same s s'" "st_cfg s' = st_cfg s" "opens oc s'" "unindexed s'" "idem_ok s'" .
  have "log_holds s' n e t" using i(1) log_cong(1) [OF s'(4,5)] by blast
  with s' rebuilt_inv [OF i(5) s'(2,5,8)] that show thesis by (meson run_invI)
qed

text \<open>The store of an empty directory.\<close>

definition new_segment :: "open_cfg \<Rightarrow> string \<Rightarrow> byte \<Rightarrow> segment" where
  "new_segment oc name kind = \<lparr>sg_id = name, sg_kind = kind, sg_bytes = segment_header kind, sg_enc = oc_enc oc\<rparr>"

definition new_store :: "open_cfg \<Rightarrow> local_store" where
  "new_store oc = fresh_store \<lparr>cf_String = oc_String oc, cf_Parse = oc_Parse oc, cf_Indexes = (\<lambda>_. [])\<rparr> (oc_json oc)
     (new_segment oc (oc_nodes oc) SegmentKindNode) (new_segment oc (oc_edges oc) SegmentKindEdge)
     (new_segment oc (oc_txns oc) SegmentKindTxn)"

lemma scan_new_segment:
  "scanSegmentFrom us name kind enc segmentHeaderLen (segment_header kind) = ([], None)"
  "scanSegment us name kind enc (segment_header kind) = ([], None)"
  using scanSegment_header [of us name kind enc "[]"] by (simp_all add: scanSegment_def)

lemma open_empty:
  assumes "order_ok mo"
  shows "open_store None mo now oc empty_disk = Inr (new_store oc)"
proof -
  have "rebuildNodePropertyOrdersLocked mo [] cfg empty_node_state = empty_node_state" for cfg
    by (rule rebuild_orders_unindexed [OF assms]) (simp_all add: empty_node_state_def)
  then show ?thesis
    by (simp add: open_store_def empty_disk_def openSegment_def rebuildIndexes_def opening_store_def resetIndexes_def
        loadIndexManifestLocked_def scan_new_segment replayNodeSegmentFrom_def replayEdgeSegmentFrom_def visit_scan_def
        loadIdempotencyRecords_def purgeExpiredIdempotencyRecordsLocked_def Let_def new_store_def fresh_store_def
        new_segment_def)
qed

lemma new_store_inv: "run_inv oc now (new_store oc)"
proof (rule run_invI)
  show "log_holds (new_store oc) [] [] []"
    by (simp add: log_holds_def segment_holds_def new_store_def fresh_store_def new_segment_def)
  show "mirrors now (new_store oc) (new_store oc) [] [] []"
    by (simp add: mirrors_def new_store_def fresh_store_def scans_of_def segs_ok_def new_segment_def no_load_def idem_rel_def)
  show "opens oc (new_store oc)" by (simp add: opens_def new_store_def fresh_store_def new_segment_def segs_ok_def)
  show "unindexed (new_store oc)" by (simp add: unindexed_def new_store_def fresh_store_def empty_node_state_def)
  show "store_inv (new_store oc)" unfolding new_store_def by (rule fresh_store_inv)
qed

lemma run_inv_start:
  assumes "order_ok mo" "open_store None mo now oc empty_disk = Inr s"
  shows "run_inv oc now s"
  using assms new_store_inv [of oc now] by (auto simp: open_empty)

lemma purge_run_inv:
  assumes "run_inv oc now s" "\<not> time_after c now"
  shows "run_inv oc now (purgeExpiredIdempotencyRecordsLocked c s)"
proof -
  obtain n e t where i: "log_holds s n e t" "mirrors now s s n e t" "opens oc s" "unindexed s" "store_inv s"
    using assms(1) by (auto simp: run_inv_def)
  let ?s = "purgeExpiredIdempotencyRecordsLocked c s"
  have ok: "idem_ok s" using i(5) by (simp add: store_inv_def)
  have "log_holds ?s n e t" using i(1) log_cong(1) [OF purge_same(2)] by simp
  moreover have "mirrors now ?s ?s n e t" by (rule mirrors_purge [OF i(2) ok assms(2)])
  moreover have "opens oc ?s" using i(3) by (simp add: opens_def segs_ok_def)
  moreover have "unindexed ?s" using i(4) by (simp add: unindexed_def purge_keeps)
  moreover have "store_inv ?s"
    using store_inv_same [OF purge_same(1) i(5)] quiet_purge ok by (simp add: quiet_def)
  ultimately show ?thesis by (rule run_invI)
qed

lemma commit_run_inv:
  assumes r: "run_inv oc now s" and jc: "json_ok (oc_json oc)" and rv: "st_revision s \<noteq> - 1"
    and f: "commit_fits now tx s" and io: "io_clean io" and c: "CommitWithInfo io tx s = (res, t', s')"
  shows "run_inv oc now s'"
proof -
  obtain n e t where i: "log_holds s n e t" "mirrors now s s n e t" "opens oc s" "unindexed s" "store_inv s"
    using r by (auto simp: run_inv_def)
  have ok: "idem_ok s" and js: "json_ok (st_json s)" using i(3,5) jc by (simp_all add: store_inv_def opens_def)
  show ?thesis
    using i(2,1) ok js f c
  proof (cases rule: commit_mirrors)
    case (kept n' e' tt)
    have "st_json s' = st_json s" using kept(1) by (simp add: graph_same_def)
    then have "opens oc s'" using opens_frame [OF i(3) kept(7)] by simp
    moreover have "unindexed s'" using i(4) kept(1,7,8) by (simp add: unindexed_def graph_same_def segs_frame_def)
    moreover have "store_inv s'" using store_inv_same [OF kept(1) i(5)] kept(2) ok by (simp add: quiet_def)
    ultimately show ?thesis using run_invI [OF kept(5) [OF io] kept(3)] by simp
  next
    case (went g n' e' tt)
    have g: "s' = g" "log_holds s' n' e' tt" using went(4) [OF io] by blast+
    have js': "st_json s' = st_json s"
      using went(2) i(2) g(1) unfolding mirrors_def applied_def
      using went(1) by (auto simp: applied_def commit_apply_json graph_same_def)
    then have "opens oc s'" using opens_frame [OF i(3) went(6)] by simp
    moreover have "no_props (st_nodes g)"
      using applied_no_props [OF went(1)] i(4) by (simp add: unindexed_def no_props_def)
    then have "unindexed s'" using i(4) went(7-9) g(1) by (simp add: unindexed_def no_props_def)
    moreover have "store_inv s'" using applied_inv [OF went(1) i(5) rv] g(1) by simp
    ultimately show ?thesis using run_invI [OF g(2)] went(2) g(1) by simp
  qed
qed

section \<open>Idempotency calls in a run\<close>

lemma appendRecord_frame: "appendRecord us w k t e p sg = (res, sg') \<Longrightarrow> seg_frame sg sg'"
  by (auto simp: appendRecord_def seg_frame_def split: option.splits write_outcome.splits)

lemma segs_frame_refl: "segs_frame s s"
  by (simp add: segs_frame_def)

lemma segs_frame_trans: "segs_frame a b \<Longrightarrow> segs_frame b c \<Longrightarrow> segs_frame a c"
  by (auto simp: segs_frame_def intro: seg_frame_trans)

text \<open>What an operation on idempotency records leaves alone besides the graph.\<close>

definition bookkeeping :: "local_store \<Rightarrow> local_store \<Rightarrow> bool" where
  "bookkeeping s s' \<longleftrightarrow> graph_same s s' \<and> segs_frame s s' \<and> st_domains s' = st_domains s"

lemma bookkeeping_refl: "bookkeeping s s"
  by (simp add: bookkeeping_def segs_frame_refl)

lemma bookkeeping_trans: "bookkeeping a b \<Longrightarrow> bookkeeping b c \<Longrightarrow> bookkeeping a c"
  using graph_same_trans segs_frame_trans by (auto simp: bookkeeping_def)

lemma bookkeeping_purge: "bookkeeping s (purgeExpiredIdempotencyRecordsLocked c s)"
  using purge_same(1) by (simp add: bookkeeping_def segs_frame_def purge_keeps)

lemma bookkeeping_marker:
  "write_marker w ok k meta r r' s = (err, s') \<Longrightarrow> bookkeeping s s'"
  unfolding write_marker_def bookkeeping_def graph_same_def segs_frame_def
  by (auto split: option.splits sum.splits prod.splits if_splits dest: appendRecord_frame)

lemma bookkeeping_marks:
  "MarkIdempotencyDelivered ctx w ok scope key digest s = (err, s') \<Longrightarrow> bookkeeping s s'"
  "RetainIdempotencyUntilAcknowledged ctx w ok scope key digest meta s = (err, s') \<Longrightarrow> bookkeeping s s'"
  "MarkIdempotencyPublicationAcknowledged ctx w ok scope key digest meta s = (err, s') \<Longrightarrow> bookkeeping s s'"
  by (auto simp: MarkIdempotencyDelivered_def RetainIdempotencyUntilAcknowledged_def
      MarkIdempotencyPublicationAcknowledged_def bookkeeping_refl split: option.splits if_splits dest: bookkeeping_marker)

lemma bookkeeping_restore_loop: "restore_loop w c i rs s = (err, s') \<Longrightarrow> bookkeeping s s'"
proof (induction w c i rs s arbitrary: err s' rule: restore_loop.induct)
  case (2 w c i r rs s)
  have upd: "bookkeeping s (idem_store r (s\<lparr>st_txnSeg := sg\<rparr>))" "bookkeeping s (s\<lparr>st_txnSeg := sg\<rparr>)"
    if "seg_frame (st_txnSeg s) sg" for sg
    using that by (simp_all add: bookkeeping_def graph_same_def segs_frame_def idem_store_def)
  from 2(3) show ?case
    by (auto simp: bookkeeping_refl split: if_splits option.splits sum.splits prod.splits
        dest!: 2(1) 2(2) dest: appendRecord_frame intro: upd bookkeeping_trans [OF upd(1)])
qed (simp add: bookkeeping_refl)

lemma bookkeeping_inv:
  assumes "run_inv oc now s" "bookkeeping s s'" "quiet s s'"
    and "\<exists>n e t. log_holds s' n e t \<and> mirrors now s' s' n e t"
  shows "run_inv oc now s'"
proof -
  have i: "opens oc s" "unindexed s" "store_inv s" using assms(1) by (auto simp: run_inv_def)
  have "st_json s' = st_json s" using assms(2) by (simp add: bookkeeping_def graph_same_def)
  then have "opens oc s'" using opens_frame [OF i(1)] assms(2) by (simp add: bookkeeping_def)
  moreover have "unindexed s'" using i(2) assms(2) by (simp add: bookkeeping_def unindexed_def graph_same_def segs_frame_def)
  moreover have "store_inv s'"
    using store_inv_same [OF _ i(3)] assms(2,3) i(3) by (simp add: bookkeeping_def quiet_def store_inv_def)
  ultimately show ?thesis using assms(4) unfolding run_inv_def by blast
qed

lemma reads_purge:
  "CheckIdempotencyRecord ctx r s = (out, s') \<Longrightarrow> s' = s \<or> s' = purgeExpiredIdempotencyRecordsLocked (ir_CommittedAt r) s"
  "GetIdempotencyRecord ctx now scope key s = (got, s') \<Longrightarrow> s' = s \<or> s' = purgeExpiredIdempotencyRecordsLocked now s"
  "ListIdempotencyRecords ctx now s = (lst, s') \<Longrightarrow> s' = s \<or> s' = purgeExpiredIdempotencyRecordsLocked now s"
  "IdempotencyStats now s = (stats, s') \<Longrightarrow> s' = s \<or> s' = purgeExpiredIdempotencyRecordsLocked now s"
  by (auto simp: CheckIdempotencyRecord_def GetIdempotencyRecord_def ListIdempotencyRecords_def IdempotencyStats_def Let_def
      split: option.splits if_splits)

lemma not_after_self: "\<not> time_after t t"
  by (cases t) simp_all

lemma runs_inv:
  assumes "runs oc now s" "json_ok (oc_json oc)"
  shows "run_inv oc now s"
  using assms(1)
proof induction
  case (run_start mo now s)
  then show ?case by (rule run_inv_start)
next
  case (run_later now s now')
  then show ?case using mirrors_later unfolding run_inv_def by blast
next
  case (run_commit now s tx io res t' s')
  then show ?case using commit_run_inv assms(2) by blast
next
  case (run_reopen now s mo s')
  from run_inv_reopen [OF run_reopen(4,2) not_after_self] run_reopen(3) show ?case by auto
next
  case (run_check now s r ctx out s')
  then show ?case using reads_purge(1) purge_run_inv by blast
next
  case (run_get now s ctx scope key out s')
  then show ?case using reads_purge(2) purge_run_inv not_after_self by blast
next
  case (run_list now s ctx lst s')
  then show ?case using reads_purge(3) purge_run_inv not_after_self by blast
next
  case (run_stats now s stats s')
  then show ?case using reads_purge(4) purge_run_inv not_after_self by blast
next
  case (run_restore now s rs ctx sync_ok err s')
  let ?p = "purgeExpiredIdempotencyRecordsLocked now s"
  have p: "run_inv oc now ?p" by (rule purge_run_inv [OF run_restore(4) not_after_self])
  have "s' = s \<or> (\<exists>err'. restore_loop (\<lambda>_. WroteAll) now 0 rs ?p = (err', s'))"
    using run_restore(3) by (auto simp: RestoreIdempotencyRecords_def split: option.splits prod.splits if_splits)
  then show ?case
  proof
    assume "\<exists>err'. restore_loop (\<lambda>_. WroteAll) now 0 rs ?p = (err', s')"
    then obtain err' where loop: "restore_loop (\<lambda>_. WroteAll) now 0 rs ?p = (err', s')" ..
    obtain n e t where i: "log_holds ?p n e t" "mirrors now ?p ?p n e t" "opens oc ?p" using p by (auto simp: run_inv_def)
    have "json_ok (st_json ?p)" using i(3) assms(2) by (simp add: opens_def)
    moreover have "restore_writable rs ?p" using run_restore(2) by (simp add: restore_writable_def)
    ultimately have "\<exists>t'. log_holds s' n e t' \<and> mirrors now s' s' n e t'"
      using mirrors_restore_loop [OF loop _ i(2,1)] by simp
    then show ?case
      using bookkeeping_inv [OF p bookkeeping_restore_loop [OF loop] quiet_restore_loop [OF loop]] by blast
  qed (use run_restore(4) in simp)
next
  case (run_deliver now s scope key digest ctx err s')
  obtain n e t where i: "log_holds s n e t" "mirrors now s s n e t" "opens oc s" "store_inv s"
    using run_deliver(4) by (auto simp: run_inv_def)
  have "json_ok (st_json s)" "idem_ok s" using i(3,4) assms(2) by (simp_all add: opens_def store_inv_def)
  from mirrors_marks(1) [OF i(2,1) this run_deliver(2,3)]
  show ?case using bookkeeping_inv [OF run_deliver(4) bookkeeping_marks(1) quiet_marks(1)] run_deliver(3) by blast
next
  case (run_retain now s scope key digest ctx meta err s')
  obtain n e t where i: "log_holds s n e t" "mirrors now s s n e t" "opens oc s" "store_inv s"
    using run_retain(4) by (auto simp: run_inv_def)
  have "json_ok (st_json s)" "idem_ok s" using i(3,4) assms(2) by (simp_all add: opens_def store_inv_def)
  from mirrors_marks(2) [OF i(2,1) this run_retain(2,3)]
  show ?case using bookkeeping_inv [OF run_retain(4) bookkeeping_marks(2) quiet_marks(2)] run_retain(3) by blast
next
  case (run_acknowledge now s scope key digest ctx meta err s')
  obtain n e t where i: "log_holds s n e t" "mirrors now s s n e t" "opens oc s" "store_inv s"
    using run_acknowledge(4) by (auto simp: run_inv_def)
  have "json_ok (st_json s)" "idem_ok s" using i(3,4) assms(2) by (simp_all add: opens_def store_inv_def)
  from mirrors_marks(3) [OF i(2,1) this run_acknowledge(2,3)]
  show ?case using bookkeeping_inv [OF run_acknowledge(4) bookkeeping_marks(3) quiet_marks(3)] run_acknowledge(3) by blast
next
  case (run_close now s)
  obtain n e t where i: "log_holds s n e t" "mirrors now s s n e t" "opens oc s" "unindexed s" "store_inv s"
    using run_close(2) by (auto simp: run_inv_def)
  have "mirrors now (store_Close s) (store_Close s) n e t"
    using i(2) by (simp add: mirrors_def store_Close_def segs_ok_def idem_rel_def)
  moreover have "log_holds (store_Close s) n e t" using i(1) by (simp add: log_holds_def store_Close_def)
  moreover have "opens oc (store_Close s)" "unindexed (store_Close s)" "store_inv (store_Close s)"
    using i(3-5) by (simp_all add: opens_def unindexed_def store_inv_def store_Close_def segs_ok_def idem_ok_def)
  ultimately show ?case using run_invI by blast
qed

end
