(* ===== verification/Recovery_Properties.thy ===== *)
theory Recovery_Properties
  imports Recovery_Runs Txn_Properties Codec_Properties
begin

text \<open>
  What survives a restart of the graph store: reopening rebuilds the store as it was, a commit cut short
  anywhere is there whole or not at all, and a commit whose last sync fails leaves memory and disk apart.
\<close>

section \<open>A sample run\<close>

lemma node_stableI:
  assumes "storable_node n" "plausibleUnixNanos (nanos (n_CreatedAt n))" "\<not> last_empty (VMap (n_Meta n))" "canon_node n = n"
  shows "node_stable n"
  using decodeNode_canon [OF _ assms(1-3)] assms(4) by (simp add: node_stable_def)

lemma edge_stableI: "storable_edge e \<Longrightarrow> canon_edge e = e \<Longrightarrow> edge_stable e"
  using decodeEdge_write by (simp add: edge_stable_def)

lemma small_stable: "node_stable (small_node i)" "edge_stable (small_edge j a b)"
proof -
  have c: "canon_map [] = []" by (simp add: canon_map_def)
  show "node_stable (small_node i)"
    by (rule node_stableI) (simp_all add: storable_node_def small_node_def zero_node_def fits_def maxEncodedMapEntries_def
        plausibleUnixNanos_def nanos_def canon_node_def canon_time_def c)
  show "edge_stable (small_edge j a b)"
    by (rule edge_stableI) (simp_all add: storable_edge_def small_edge_def fits_def maxEncodedMapEntries_def
        canon_edge_def canon_time_def c)
qed

lemma small_sizes:
  "encodeNode (small_node i) = Inr bs \<Longrightarrow> length bs < 2 ^ 32"
  "encodeEdge (small_edge j a b) = Inr bs \<Longrightarrow> length bs < 2 ^ 32"
  by (auto simp: encodeNode_def encodeEdge_def small_node_def small_edge_def zero_node_def writeMap_def
      put_entries_def writeBlobRef_def writeString_def writeStringSlice_def writeTime_nanos)

text \<open>The record of the sample commit, and a JSON codec for it.\<close>

definition run_idem :: IdempotencyRecord where
  "run_idem = small_idem\<lparr>ir_StorageTxnID := 77, ir_CommittedRevision := 1\<rparr>"

definition run_json :: json_codec where
  "run_json = \<lparr>jc_commit = (\<lambda>r. if r = run_idem then Some [123, 125] else None),
     jc_uncommit = (\<lambda>bs. if bs = [123, 125] then Some (Some run_idem) else None),
     jc_record = (\<lambda>_. None), jc_unrecord = (\<lambda>_. None), jc_delivery = (\<lambda>_. None), jc_undelivery = (\<lambda>_. None)\<rparr>"

definition run_cfg :: open_cfg where
  "run_cfg = \<lparr>oc_nodes = ''nodes'', oc_edges = ''edges'', oc_txns = ''txns'', oc_enc = None, oc_String = uuid_plain,
     oc_Parse = (\<lambda>_. None), oc_json = run_json\<rparr>"

lemma run_json_ok: "json_ok (oc_json run_cfg)"
  by (simp add: json_ok_def run_json_def run_cfg_def)

text \<open>The new store, whatever its transaction segment holds.\<close>

definition run_store :: "segment \<Rightarrow> local_store" where
  "run_store sg = (new_store run_cfg)\<lparr>st_txnSeg := sg\<rparr>"

definition run_txns :: segment where
  "run_txns = new_segment run_cfg ''txns'' SegmentKindTxn"

lemma run_store_new: "run_store run_txns = new_store run_cfg" "sg_enc run_txns = None"
  by (simp_all add: run_store_def run_txns_def new_store_def fresh_store_def run_cfg_def new_segment_def)

lemmas run_store_defs = run_store_def new_store_def fresh_store_def

lemma run_idempotency:
  "\<exists>s1. commit_idempotency sample_txn (run_store sg) = (IdemNew (Some run_idem), s1)"
  by (simp add: commit_idempotency_def sample_txn_def validateIdempotencyRecord_def small_idem_def TrimSpace_plain
      plain_char_def run_store_defs purgeExpiredIdempotencyRecordsLocked_def
      idem_lookup_def MaxIdempotencyRecordsPerStore_def Let_def run_idem_def)

lemma run_no_conflict: "\<not> invariantConflict sample_txn (run_store sg)" "\<not> writeSetConflict sample_txn (run_store sg)"
  "commit_validates sample_txn (run_store sg)"
proof -
  show "\<not> invariantConflict sample_txn (run_store sg)"
    by (simp add: invariantConflict_def sample_txn_def run_store_defs endpoint_ok_def small_contains
        empty_edge_state_def) (simp add: small_edge_def small_node_def)
  show "\<not> writeSetConflict sample_txn (run_store sg)"
    by (simp add: writeSetConflict_def sample_txn_def run_store_defs empty_node_state_def
        empty_edge_state_def)
  show "commit_validates sample_txn (run_store sg)"
    by (simp add: commit_validates_def sample_txn_def run_store_defs
        validateNodeIndexes_def validateEdgeIndexes_def)
qed

lemma run_ready:
  "commit_payload (st_json (run_store sg)) (Some run_idem) \<noteq> None"
  "sg_enc sg = None \<Longrightarrow> \<forall>g \<in> {st_nodeSeg (run_store sg), st_edgeSeg (run_store sg), st_txnSeg (run_store sg)}.
      seals (cf_String (st_cfg (run_store sg))) g"
  "st_state (run_store sg) = StoreStateReady" "st_revision (run_store sg) = 0"
  "\<forall>base. tx_expected sample_txn = Some base \<longrightarrow> base \<le> st_revision (run_store sg)"
  "\<forall>h. tx_hook sample_txn = Some h \<longrightarrow> h (commit_info sample_txn (run_store sg)) = None"
  by (simp_all add: sample_txn_def commit_payload_def run_store_defs run_cfg_def run_json_def
      new_segment_def seals_def encryptPayload_def)

lemma run_commits:
  assumes "sg_enc sg = None"
  obtains info s where "CommitWithInfo good_io sample_txn (run_store sg) = (Inr info, sample_txn\<lparr>tx_closed := True\<rparr>, s)"
    "\<not> ci_IdempotentReplay info" "applied sample_txn (run_store sg) s"
proof -
  obtain s1 where ci: "commit_idempotency sample_txn (run_store sg) = (IdemNew (Some run_idem), s1)"
    using run_idempotency by blast
  from commit_goes_through [OF sample_ready(3) run_ready(3) ci run_ready(5) run_no_conflict(2,1,3) sample_encodable
      run_ready(1,6) run_ready(2) [OF assms] sample_io] that show thesis by auto
qed

lemma run_plain:
  assumes "sg_enc sg = None"
  shows "sg_enc (st_nodeSeg (run_store sg)) = None" "sg_enc (st_edgeSeg (run_store sg)) = None"
    "sg_enc (st_txnSeg (run_store sg)) = None"
    "sg_enc g = None \<Longrightarrow> writable us g k t e p \<longleftrightarrow> length p < 2 ^ 32"
  using assms by (simp_all add: run_store_defs new_segment_def run_cfg_def writable_def cipher_ok_def encryptPayload_def)

lemma run_unused: "txn_unused tx (run_store sg) \<longleftrightarrow>
    (\<forall>rec \<in> set (fst (scan uuid_plain sg)). rh_txnID (sc_header rec) \<noteq> tx_id tx)"
  by (simp add: txn_unused_def scan_def run_store_defs new_segment_def scan_new_segment run_cfg_def)

lemma run_fits:
  assumes "sg_enc sg = None" "txn_unused sample_txn (run_store sg)"
  shows "commit_fits (AtNano 5) sample_txn (run_store sg)"
proof -
  note us = run_plain(1-3) [OF assms(1)] and plain = run_plain(4) [OF assms(1)]
  have "items_writable us (st_nodeSeg (run_store sg)) t (node_items sample_txn)"
    "items_writable us (st_edgeSeg (run_store sg)) t (edge_items sample_txn)" for us t
    using small_sizes by (auto simp: items_writable_def plain us node_items_def edge_items_def sample_txn_def)
  moreover have "length p < 2 ^ 32" if "commit_payload (st_json (run_store sg)) idem = Some p" for idem p
    using that by (auto simp: commit_payload_def run_store_defs run_cfg_def run_json_def split: option.splits if_splits)
  moreover have "\<forall>n\<in>set (tx_nodePuts sample_txn). node_stable n" "\<forall>e\<in>set (tx_edgePuts sample_txn). edge_stable e"
    "\<forall>r. tx_idem sample_txn = Some r \<longrightarrow> \<not> time_after (ir_CommittedAt r) (AtNano 5)"
    using small_stable by (simp_all add: sample_txn_def small_idem_def)
  ultimately show ?thesis
    using assms(2) by (auto simp: commit_fits_def tx_writable_def plain us)
qed

lemma run_txns_unused: "txn_unused tx (run_store run_txns)"
  by (simp add: run_unused scan_def run_txns_def new_segment_def scan_new_segment)

lemma run_good: "io_clean good_io" "order_ok sorted_order"
  by (simp_all add: io_clean_def good_io_def sorted_order_ok)

lemma run_begins: "runs run_cfg (AtNano 5) (new_store run_cfg)"
  by (rule run_start [OF run_good(2) open_empty [OF run_good(2)]])

lemma sample_fits: "commit_fits (AtNano 5) sample_txn (new_store run_cfg)"
  using run_fits [OF run_store_new(2) run_txns_unused] by (simp add: run_store_new)

lemma sample_runs:
  obtains info s where "runs run_cfg (AtNano 5) s" "applied sample_txn (new_store run_cfg) s"
    "CommitWithInfo good_io sample_txn (new_store run_cfg) = (Inr info, sample_txn\<lparr>tx_closed := True\<rparr>, s)"
proof -
  obtain info s where c: "CommitWithInfo good_io sample_txn (new_store run_cfg) = (Inr info, sample_txn\<lparr>tx_closed := True\<rparr>, s)"
    "\<not> ci_IdempotentReplay info" "applied sample_txn (new_store run_cfg) s"
    by (rule run_commits [OF run_store_new(2), unfolded run_store_new(1)])
  have "runs run_cfg (AtNano 5) s"
    using run_commit [OF run_begins _ sample_fits run_good(1) c(1)] run_ready(4) [of run_txns] by (simp add: run_store_new)
  with c that show thesis by blast
qed

lemma run_committed:
  "committed_nodes sample_txn (new_store run_cfg) 2 = Some (small_node 2)"
  "committed_edges sample_txn (new_store run_cfg) 3 = Some (small_edge 3 1 2)"
  by (simp_all add: committed_nodes_def committed_edges_def commit_records_Some put_map_def sample_txn_def
      small_node_def small_edge_def)

text \<open>A transaction that changes nothing, committed before the sample one.\<close>

definition idle_txn :: localTxn where
  "idle_txn = sample_txn\<lparr>tx_id := 76, tx_nodePuts := [], tx_edgePuts := [], tx_idem := None\<rparr>"

section \<open>A failed last sync\<close>

lemma commit_write_unsynced:
  "commit_write (io\<lparr>io_txnSync := True\<rparr>) t idem s = (Inr locs, s1) \<Longrightarrow>
   commit_write (io\<lparr>io_txnSync := False\<rparr>) t idem s = (Inl ErrSync, s1)"
  by (auto simp: commit_write_def Let_def syncDataSegments_def split: sum.splits prod.splits option.splits if_splits)

lemma commit_wrote:
  assumes "CommitWithInfo io t s0 = (Inr info, t', s')" "\<not> ci_IdempotentReplay info"
  obtains idem s nlocs elocs s1 where "commit_idempotency t s0 = (IdemNew idem, s)"
    "commit_write io t idem s = (Inr (nlocs, elocs), s1)" "s' = commit_apply t idem nlocs elocs s1"
  using assms(1)
proof (cases rule: commit_disk_cases)
  case early
  with assms(2) show thesis by blast
next
  case (wrote idem s out s1)
  with that show thesis by (cases out) auto
qed

text \<open>When only the last sync makes the difference, the commit fails with its records written.\<close>

lemma commit_unsynced:
  assumes "CommitWithInfo (io\<lparr>io_txnSync := True\<rparr>) t s0 = (Inr info, t', s')"
    and "commit_idempotency t s0 = (IdemNew idem, s)"
    and "commit_write (io\<lparr>io_txnSync := True\<rparr>) t idem s = (Inr locs, s1)"
  shows "CommitWithInfo (io\<lparr>io_txnSync := False\<rparr>) t s0 = (Inl ErrSync, t, s1)"
  using assms(1) unfolding CommitWithInfo_def assms(2)
  by (simp add: commit_write_unsynced [OF assms(3)] split: option.splits if_splits)

lemma write_on_disk:
  assumes "log_holds s n e t" "tx_writable tx s" "own_idem tx idem" "commit_write io tx idem s = (Inr locs, s1)"
  shows "segs_frame s s1" "on_disk tx idem log_holds s s1 n e t"
proof -
  obtain nl el where l: "locs = (nl, el)" by fastforce
  show "segs_frame s s1" "on_disk tx idem log_holds s s1 n e t"
    using commit_write_disk [OF assms, unfolded l] by (metis Inl_Inr_False l)+
qed

text \<open>The commit after that one counts one revision too few, and its idempotency record does not load.\<close>

lemma load_mismatch:
  assumes "json_ok jc" "jc_commit jc r = Some p" "p \<noteq> []" "i \<notin> set (il_seen l)" "ir_CommittedRevision r \<noteq> il_revision l + 1"
  shows "load_idempotency_record jc (read_rec us sg off i RecordKindTxnCommit 0 p) l =
    Inl (ErrInvalid ''idempotency commit identity mismatch'')"
  using assms by (simp add: load_idempotency_record_def read_rec_fields json_ok_def)

lemma behind_reopen:
  assumes b: "log_holds b n e t" "mirrors now g b n e t" and rg: "st_revision g = st_revision b + 1"
    and oc: "opens oc b" and un: "cf_Indexes (st_cfg b) = (\<lambda>_. [])" "st_manifest b = NoManifest" and jc: "json_ok (oc_json oc)"
    and f: "commit_fits now tx b" "tx_idem tx \<noteq> None"
    and c: "CommitWithInfo io tx b = (Inr info, t', s)" "\<not> ci_IdempotentReplay info"
  shows "open_store None mo c oc (disk_of s) = Inl (ErrInvalid ''idempotency commit identity mismatch'')"
proof -
  from commit_wrote [OF c] obtain idem a nl el a1 where a: "commit_idempotency tx b = (IdemNew idem, a)"
    "commit_write io tx idem a = (Inr (nl, el), a1)" "s = commit_apply tx idem nl el a1" .
  note pa = commit_idempotency_purges [OF a(1)]
  note ka = purged_keeps [OF pa(1)]
  obtain q where q: "idem = Some q" "ir_CommittedRevision q = st_revision b + 1" "own_idem tx idem"
    using f(2) pa(2) [of idem] a(1) ka(6)
    by (cases idem) (auto simp: commit_idempotency_def idem_fits_def Let_def graph_same_def split: option.splits if_splits)
  have ha: "log_holds a n e t" using b(1) log_cong(1) ka(1,2) by blast
  have wa: "tx_writable tx a" using f(1) tx_writable_cong [OF ka(1-3)] by (simp add: commit_fits_def)
  note da = write_on_disk [OF ha wa q(3) a(2)]
  have ma: "mirrors now g a n e t" by (rule mirrors_cong [OF b(2) _ _ ka(2,3,1)]) simp_all
  then obtain commits il where m: "replayed a n e t commits (st_revision g) (st_nodes g) (st_edges g)"
    "load_loop (st_json g) (scans_of (us_of a) (st_txnSeg a) t) no_load = Inr il" "il_revision il = st_revision g"
    "set (il_seen il) = dom commits" "st_json a = st_json g"
    by (auto simp: mirrors_replayed)
  have fa: "fresh_txn tx n e t" using unused_fresh [OF b(1)] f(1) by (simp add: commit_fits_def)
  have st: "\<forall>n \<in> set (tx_nodePuts tx). node_stable n" "\<forall>e \<in> set (tx_edgePuts tx). edge_stable e"
    using f(1) by (simp_all add: commit_fits_def)
  from replayed_on_disk [OF m(1) ha fa wa da(1,2) q(3) st]
  obtain n1 e1 t1 p o1 o2 ns es commits' rv where r: "log_holds a1 n1 e1 t1" "commit_payload (st_json a) idem = Some p"
    "commits (tx_id tx) = None" "replayed a1 n1 e1 t1 commits' rv ns es"
    "scans_of (us_of a1) (st_txnSeg a1) t1 = scans_of (us_of a) (st_txnSeg a) t
       @ [read_rec (us_of a) (st_txnSeg a) o1 (tx_id tx) RecordKindTxnBegin 0 [],
          read_rec (us_of a) (st_txnSeg a) o2 (tx_id tx) RecordKindTxnCommit 0 p]" by metis
  have js: "json_ok (st_json g)" "jc_commit (st_json g) q = Some p" "p \<noteq> []"
    using r(2) jc oc ka(3) m(5) by (auto simp: opens_def commit_payload_def q(1) json_ok_def)
  have bad: "load_loop (st_json g) (scans_of (us_of a1) (st_txnSeg a1) t1) no_load
      = Inl (ErrInvalid ''idempotency commit identity mismatch'')"
    unfolding r(5) load_loop_append m(2)
    using load_mismatch [OF js, of "tx_id tx" il] r(3) m(3,4) q(2) rg by (simp add: load_begin domIff)
  have ga: "st_cfg a1 = st_cfg b" "st_json a1 = st_json b" "segs_frame b a1"
    using commit_write_same [OF a(2)] ka da(1) by (simp_all add: graph_same_def segs_frame_def segments_same_def)
  have sm: "segments_same a1 s" "st_cfg s = st_cfg a1" "st_json s = st_json a1" "st_manifest s = st_manifest a1"
    by (simp_all add: a(3) segments_same_def commit_apply_keeps commit_apply_fields commit_apply_json)
  have os: "opens oc s"
    by (rule opens_frame [OF oc]) (use ga sm in \<open>simp_all add: segs_frame_def segments_same_def\<close>)
  have "log_reads s n1 e1 t1" using log_holds_reads r(1) log_cong(1) [OF sm(1,2)] by blast
  moreover have "replayed s n1 e1 t1 commits' rv ns es" using r(4) sm by (simp add: replayed_def segments_same_def)
  moreover have "cf_Indexes (st_cfg s) = (\<lambda>_. [])" "st_manifest s = NoManifest"
    using un ga sm by (simp_all add: segs_frame_def)
  ultimately obtain s1 where s1: "open_store None mo c oc (disk_of s) =
      (case loadIdempotencyRecords c s1 of (Some e, s2) \<Rightarrow> Inl e
       | (None, s2) \<Rightarrow> Inr (s2\<lparr>st_nodes := rebuildNodePropertyOrdersLocked mo (st_domains s2) (st_cfg s2) (st_nodes s2),
           st_state := StoreStateReady\<rparr>))" "st_cfg s1 = st_cfg s" "st_json s1 = st_json s"
    "scanSegment (us_of s1) (sg_id (st_txnSeg s1)) SegmentKindTxn (sg_enc (st_txnSeg s1)) (sg_bytes (st_txnSeg s1)) =
      (scans_of (us_of s) (st_txnSeg s) t1, None)"
    by (rule open_rebuilds [where mo = mo and c = c and d = s, OF _ _ os]) blast+
  have "loadIdempotencyRecords c s1 = (Some (ErrInvalid ''idempotency commit identity mismatch''), s1)"
    using bad s1(2-4) sm ga m(5) ka(3)
    by (simp add: loadIdempotencyRecords_def no_load_def segments_same_def)
  then show ?thesis by (simp add: s1(1))
qed

lemma lost_sync_reopen:
  assumes r: "run_inv oc now s" and jc: "json_ok (oc_json oc)"
    and f1: "commit_fits now tx1 s" and c1: "CommitWithInfo (io\<lparr>io_txnSync := True\<rparr>) tx1 s = (Inr info1, t1, s1)"
      "\<not> ci_IdempotentReplay info1"
    and l1: "CommitWithInfo (io\<lparr>io_txnSync := False\<rparr>) tx1 s = (res, t1', s1')"
    and f2: "commit_fits now tx2 s1'" "tx_idem tx2 \<noteq> None"
    and c2: "CommitWithInfo io2 tx2 s1' = (Inr info2, t2, s2)" "\<not> ci_IdempotentReplay info2"
  shows "res = Inl ErrSync" "graph_same s s1'"
    "open_store None mo c oc (disk_of s2) = Inl (ErrInvalid ''idempotency commit identity mismatch'')"
proof -
  obtain n e t where i: "log_holds s n e t" "mirrors now s s n e t" "opens oc s" "unindexed s" "store_inv s"
    using r by (auto simp: run_inv_def)
  from commit_wrote [OF c1] obtain idem a nl el b where a: "commit_idempotency tx1 s = (IdemNew idem, a)"
    "commit_write (io\<lparr>io_txnSync := True\<rparr>) tx1 idem a = (Inr (nl, el), b)" .
  from commit_unsynced [OF c1(1) a] l1 have l: "res = Inl ErrSync" "s1' = b" by simp_all
  then show "res = Inl ErrSync" by simp
  note pa = commit_idempotency_purges [OF a(1)]
  note ka = purged_keeps [OF pa(1)]
  have ok: "idem_ok s" and js: "json_ok (st_json a)" using i(3,5) jc ka by (simp_all add: store_inv_def opens_def)
  have ma: "mirrors now a a n e t" using purged_mirrors [OF pa(1) i(2) ok] f1 by (simp add: commit_fits_def)
  have ha: "log_holds a n e t" using i(1) log_cong(1) ka(1,2) by blast
  have oa: "own_idem tx1 idem" "idem_fits tx1 (st_revision a + 1) idem" using pa(2) by (simp_all add: idem_fits_def)
  have wa: "tx_writable tx1 a" using f1 tx_writable_cong [OF ka(1-3)] by (simp add: commit_fits_def)
  note da = write_on_disk [OF ha wa oa(1) a(2)]
  note ga = commit_write_same [OF a(2)]
  show gs: "graph_same s s1'" using ka(6) ga l(2) graph_same_trans by blast
  have fa: "fresh_txn tx1 n e t" using unused_fresh [OF i(1)] f1 by (simp add: commit_fits_def)
  have st1: "\<forall>n \<in> set (tx_nodePuts tx1). node_stable n" "\<forall>e \<in> set (tx_edgePuts tx1). edge_stable e"
    using f1 by (simp_all add: commit_fits_def)
  define g where "g = commit_apply tx1 idem (node_locs tx1 a) (edge_locs tx1 a) a"
  have "st_json b = st_json a" using ga by (simp add: graph_same_def)
  from mirrors_on_disk [OF ma ha fa wa da(1) this da(2) st1 js oa(2), folded g_def]
  obtain n1 e1 q1 where b: "log_holds b n1 e1 q1" "mirrors now g b n1 e1 q1" by blast
  have rg: "st_revision g = st_revision b + 1" using ga by (simp add: g_def commit_apply_fields graph_same_def)
  have ob: "opens oc b"
    by (rule opens_frame [OF i(3)]) (use da(1) ka ga in \<open>simp_all add: segs_frame_def segments_same_def graph_same_def\<close>)
  have ub: "cf_Indexes (st_cfg b) = (\<lambda>_. [])" "st_manifest b = NoManifest"
    using i(4) da(1) ka by (simp_all add: unindexed_def segs_frame_def)
  show "open_store None mo c oc (disk_of s2) = Inl (ErrInvalid ''idempotency commit identity mismatch'')"
    by (rule behind_reopen [OF b rg ob ub jc f2 [unfolded l(2)] c2 [unfolded l(2)]])
qed

section \<open>Crashes\<close>

text \<open>
  C3. Let a commit run into any failure of the disk, a record cut short at any byte included, whatever it then
  answers. Opening the files it leaves succeeds, and gives the store as it was before the commit or the store
  with the whole transaction applied at the next revision, never a part of it; a commit that answered that it
  succeeded is there. The store has no configured property indexes; the transaction's identifier has not been
  used, and its entities decode to themselves and fit their records (\<open>commit_fits\<close>).
\<close>

theorem crash_is_atomic:
  assumes "runs oc now s" "json_ok (oc_json oc)" "st_revision s \<noteq> - 1" "commit_fits now tx s"
    and "CommitWithInfo io tx s = (res, t', s')" "order_ok mo" "\<not> time_after now c"
  shows "\<exists>r. open_store None mo c oc (disk_of s') = Inr r \<and> ensureReady r = None \<and>
    (st_nodes r = st_nodes s \<and> st_edges r = st_edges s \<and> st_revision r = st_revision s \<and>
       (\<forall>info. res = Inr info \<longrightarrow> ci_IdempotentReplay info) \<or>
     ns_records (st_nodes r) = committed_nodes tx s \<and> es_records (st_edges r) = committed_edges tx s \<and>
       st_revision r = st_revision s + 1)"
proof -
  have ri: "run_inv oc now s" by (rule runs_inv [OF assms(1,2)])
  then obtain n e t where i: "log_holds s n e t" "mirrors now s s n e t" "opens oc s" "unindexed s" "store_inv s"
    by (auto simp: run_inv_def)
  have ok: "idem_ok s" and js: "json_ok (st_json s)" using i(3,5) assms(2) by (simp_all add: store_inv_def opens_def)
  show ?thesis
    using i(2,1) ok js assms(4,5)
  proof (cases rule: commit_mirrors)
    case (kept n' e' tt)
    have g: "st_json s' = st_json s" "st_nodes s' = st_nodes s" "st_edges s' = st_edges s" "st_revision s' = st_revision s"
      using kept(1) by (simp_all add: graph_same_def)
    have op: "opens oc s'" using opens_frame [OF i(3) kept(7)] g(1) by simp
    have un: "unindexed s'" using i(4) kept(1,7,8) by (simp add: unindexed_def graph_same_def segs_frame_def)
    have "idem_ok s'" "st_manifest s' = NoManifest" using kept(2) ok un by (simp_all add: quiet_def unindexed_def)
    from open_mirrors [OF kept(4,3) op un this(2,1) assms(6,7)]
    obtain r where "open_store None mo c oc (disk_of s') = Inr r" "rebuilt c s' r" by blast
    then show ?thesis using g kept(6) unfolding rebuilt_def by auto
  next
    case (went g n' e' tt)
    have "st_json s' = st_json s"
      using went(1,2) unfolding mirrors_def applied_def by (auto simp: commit_apply_json graph_same_def)
    then have op: "opens oc s'" using opens_frame [OF i(3) went(6)] by simp
    have "no_props (st_nodes g)"
      using applied_no_props [OF went(1)] i(4) by (simp add: unindexed_def no_props_def)
    then have un: "unindexed g" using i(4) went(7-9) by (simp add: unindexed_def no_props_def)
    have "store_inv g" by (rule applied_inv [OF went(1) i(5) assms(3)])
    moreover have "st_manifest s' = NoManifest" using i(4) went(6) by (simp add: unindexed_def segs_frame_def)
    ultimately obtain r where "open_store None mo c oc (disk_of s') = Inr r" "rebuilt c g r"
      using open_mirrors [OF went(3,2) op un _ _ assms(6,7)] by (metis store_inv_def)
    then show ?thesis using applied_effect(1-3) [OF went(1)] unfolding rebuilt_def by auto
  qed
qed

theorem crash_is_atomic_witness:
  "\<exists>res t' s' r. CommitWithInfo (good_io\<lparr>io_txnCommit := WroteFails 10\<rparr>) sample_txn (new_store run_cfg) = (res, t', s') \<and>
    open_store None sorted_order (AtNano 7) run_cfg (disk_of s') = Inr r \<and> ensureReady r = None \<and>
    (st_revision r = 0 \<or> ns_records (st_nodes r) 2 = Some (small_node 2) \<and> st_revision r = 1)"
proof -
  obtain res t' s' where c: "CommitWithInfo (good_io\<lparr>io_txnCommit := WroteFails 10\<rparr>) sample_txn (new_store run_cfg) = (res, t', s')"
    by (metis prod_cases3)
  have "\<not> time_after (AtNano 5) (AtNano 7)" "st_revision (new_store run_cfg) = 0"
    using run_ready(4) [of run_txns] by (simp_all add: run_store_new)
  with crash_is_atomic [OF run_begins run_json_ok _ sample_fits c run_good(2), of "AtNano 7"] run_committed
  show ?thesis by (auto simp: c)
qed

section \<open>Restart\<close>

text \<open>
  C4. Whatever sequence of commits, idempotency calls and restarts a store without configured property indexes
  has been through, with its writes going through and with entities that decode to themselves, opening its
  files gives back the same store: the same nodes and edges with their label, tag, domain, journal, blob and
  adjacency indexes and their histories, the same revision, and the same idempotency records, less those that
  have expired.
\<close>

theorem restart_rebuilds_store:
  assumes "runs oc now s" "json_ok (oc_json oc)" "order_ok mo" "\<not> time_after now c"
  shows "\<exists>s'. open_store None mo c oc (disk_of s) = Inr s' \<and> ensureReady s' = None \<and>
    st_nodes s' = st_nodes s \<and> st_edges s' = st_edges s \<and> st_revision s' = st_revision s \<and>
    (\<forall>scope key. idem_lookup scope key s' = (case idem_lookup scope key s of
       None \<Rightarrow> None | Some r \<Rightarrow> if idempotencyRecordExpired r c then None else Some r))"
proof -
  from run_inv_reopen [OF runs_inv [OF assms(1,2)] assms(3,4)]
  obtain s' where "open_store None mo c oc (disk_of s) = Inr s'" "rebuilt c s s'" .
  then show ?thesis unfolding rebuilt_def by blast
qed

theorem restart_rebuilds_store_witness:
  "\<exists>info s s'. CommitWithInfo good_io sample_txn (new_store run_cfg) = (Inr info, sample_txn\<lparr>tx_closed := True\<rparr>, s) \<and>
    open_store None sorted_order (AtNano 7) run_cfg (disk_of s) = Inr s' \<and> st_revision s' = 1 \<and>
    ns_records (st_nodes s') 2 = Some (small_node 2) \<and> es_records (st_edges s') 3 = Some (small_edge 3 1 2)"
proof -
  obtain info s where r: "runs run_cfg (AtNano 5) s" "applied sample_txn (new_store run_cfg) s"
    "CommitWithInfo good_io sample_txn (new_store run_cfg) = (Inr info, sample_txn\<lparr>tx_closed := True\<rparr>, s)"
    by (rule sample_runs)
  have "\<not> time_after (AtNano 5) (AtNano 7)" by simp
  from restart_rebuilds_store [OF r(1) run_json_ok run_good(2) this] applied_effect(1-3) [OF r(2)] run_committed
    run_ready(4) [of run_txns] r(3) show ?thesis by (auto simp: run_store_new)
qed

section \<open>Losing the last sync\<close>

lemma idle_fits: "commit_fits (AtNano 5) idle_txn (new_store run_cfg)"
proof -
  note plain = run_plain [OF run_store_new(2), unfolded run_store_new(1)]
  have "length p < 2 ^ 32" if "own_idem idle_txn idem" "commit_payload j idem = Some p" for idem p j
    using that by (cases idem) (auto simp: commit_payload_def own_idem_def idle_txn_def)
  moreover have "txn_unused idle_txn (new_store run_cfg)" using run_txns_unused [of idle_txn] by (simp add: run_store_new)
  moreover have "node_items idle_txn = []" "edge_items idle_txn = []" "tx_nodePuts idle_txn = []" "tx_edgePuts idle_txn = []"
    "tx_idem idle_txn = None"
    by (simp_all add: node_items_def edge_items_def idle_txn_def sample_txn_def)
  ultimately show ?thesis by (auto simp: commit_fits_def tx_writable_def plain items_writable_def)
qed

lemma idle_writes:
  assumes "commit_write io idle_txn idem s = (out, s1)"
  shows "\<exists>sg. s1 = s\<lparr>st_txnSeg := sg\<rparr>"
proof -
  have "node_items idle_txn = []" "edge_items idle_txn = []"
    by (simp_all add: node_items_def edge_items_def idle_txn_def sample_txn_def)
  then show ?thesis
    using assms by (cases s) (auto simp: commit_write_def Let_def split: sum.splits prod.splits option.splits if_splits)
qed

lemma idle_commit:
  obtains info sg where "CommitWithInfo (good_io\<lparr>io_txnSync := True\<rparr>) idle_txn (new_store run_cfg) =
      (Inr info, idle_txn\<lparr>tx_closed := True\<rparr>, commit_apply idle_txn None [] [] (run_store sg))"
    "\<not> ci_IdempotentReplay info"
    "CommitWithInfo (good_io\<lparr>io_txnSync := False\<rparr>) idle_txn (new_store run_cfg) = (Inl ErrSync, idle_txn, run_store sg)"
    "sg_enc sg = None" "txn_unused sample_txn (run_store sg)"
proof -
  let ?s = "new_store run_cfg" and ?io = "good_io\<lparr>io_txnSync := True\<rparr>"
  note ready = run_ready [of run_txns, unfolded run_store_new(1)]
  have idle: "tx_idem idle_txn = None" "node_items idle_txn = []" "edge_items idle_txn = []"
    by (simp_all add: node_items_def edge_items_def idle_txn_def sample_txn_def)
  have ci: "commit_idempotency idle_txn ?s = (IdemNew None, ?s)" by (simp add: commit_idempotency_def idle)
  have "io_good ?io" by (simp add: io_good_def good_io_def)
  from commit_goes_through [OF _ ready(3) ci _ _ _ _ _ _ _ ready(2) [OF run_store_new(2)] this]
  obtain info s' where c: "CommitWithInfo ?io idle_txn ?s = (Inr info, idle_txn\<lparr>tx_closed := True\<rparr>, s')"
    "\<not> ci_IdempotentReplay info"
    by (auto simp: idle_txn_def sample_txn_def ready(4) writeSetConflict_def invariantConflict_def commit_validates_def
        encodable_def commit_payload_def)
  from commit_wrote [OF c] obtain nl el s1 where w: "commit_write ?io idle_txn None ?s = (Inr (nl, el), s1)"
    "s' = commit_apply idle_txn None nl el s1" by (metis ci fst_conv idem_outcome.inject(3) prod.inject)
  obtain sg where sg: "s1 = run_store sg" using idle_writes [OF w(1)] by (auto simp: run_store_def)
  have h: "log_holds ?s [] [] []" "tx_writable idle_txn ?s" "own_idem idle_txn None"
    using new_store_inv idle_fits by (simp_all add: commit_fits_def own_idem_def log_holds_def segment_holds_def
        new_store_def fresh_store_def new_segment_def)
  note d = write_on_disk [OF h w(1)]
  have enc: "sg_enc sg = None"
    using d(1) run_plain(3) [OF run_store_new(2)] by (simp add: segs_frame_def seg_frame_def sg run_store_new) (simp add: run_store_def)
  obtain p where "segment_holds (us_of s1) (st_txnSeg s1) [begin_rec idle_txn ?s, commit_rec idle_txn p ?s]"
    using d(2) by (auto simp: on_disk_def log_holds_def)
  then have hs: "segment_holds uuid_plain sg [begin_rec idle_txn ?s, commit_rec idle_txn p ?s]"
    by (simp add: sg run_store_defs run_cfg_def)
  have "txn_unused sample_txn (run_store sg)"
  proof -
    have "\<forall>rec \<in> set (fst (scan uuid_plain sg)). rh_txnID (sc_header rec) = 76"
      unfolding scan_holds(1) [OF hs] fst_conv
      by (rule scans_of_txns(1)) (simp add: begin_rec_def commit_rec_def stored_rec_def idle_txn_def)
    then show ?thesis by (auto simp: run_unused sample_txn_def)
  qed
  moreover have "nl = []" "el = []"
    using w(1) by (auto simp: commit_write_def Let_def idle split: sum.splits prod.splits option.splits if_splits)
  ultimately show thesis
    using that [of info sg] c w sg enc commit_unsynced [OF c(1) ci w(1)] by simp
qed

text \<open>
  C35. The records of a commit are written before the last sync of the transaction segment, so when that sync
  fails the commit returns an error and leaves the memory as it was, with its commit record in the file. The
  next commit with an idempotency record then stores the revision that the memory counts, one less than the
  file does, and although it succeeds the store can no longer be opened.
\<close>

theorem lost_sync_blocks_reopen:
  assumes "runs oc now s" "json_ok (oc_json oc)" "commit_fits now tx1 s"
    and "CommitWithInfo (io\<lparr>io_txnSync := True\<rparr>) tx1 s = (Inr info1, t1, s1)" "\<not> ci_IdempotentReplay info1"
    and "CommitWithInfo (io\<lparr>io_txnSync := False\<rparr>) tx1 s = (res, t1', s1')"
    and "commit_fits now tx2 s1'" "tx_idem tx2 \<noteq> None"
    and "CommitWithInfo io2 tx2 s1' = (Inr info2, t2, s2)" "\<not> ci_IdempotentReplay info2"
  shows "res = Inl ErrSync \<and> graph_same s s1' \<and>
    open_store None mo c oc (disk_of s2) = Inl (ErrInvalid ''idempotency commit identity mismatch'')"
  using lost_sync_reopen [OF runs_inv [OF assms(1,2)] assms(2-10)] by blast

theorem lost_sync_blocks_reopen_witness:
  "\<exists>s1 info s2. CommitWithInfo (good_io\<lparr>io_txnSync := False\<rparr>) idle_txn (new_store run_cfg) = (Inl ErrSync, idle_txn, s1) \<and>
    CommitWithInfo good_io sample_txn s1 = (Inr info, sample_txn\<lparr>tx_closed := True\<rparr>, s2) \<and>
    open_store None sorted_order (AtNano 7) run_cfg (disk_of s2) = Inl (ErrInvalid ''idempotency commit identity mismatch'')"
proof -
  obtain info sg where i: "CommitWithInfo (good_io\<lparr>io_txnSync := True\<rparr>) idle_txn (new_store run_cfg) =
      (Inr info, idle_txn\<lparr>tx_closed := True\<rparr>, commit_apply idle_txn None [] [] (run_store sg))" "\<not> ci_IdempotentReplay info"
    "CommitWithInfo (good_io\<lparr>io_txnSync := False\<rparr>) idle_txn (new_store run_cfg) = (Inl ErrSync, idle_txn, run_store sg)"
    "sg_enc sg = None" "txn_unused sample_txn (run_store sg)" by (rule idle_commit)
  obtain info2 s2 where c: "CommitWithInfo good_io sample_txn (run_store sg) = (Inr info2, sample_txn\<lparr>tx_closed := True\<rparr>, s2)"
    "\<not> ci_IdempotentReplay info2" by (rule run_commits [OF i(4)])
  have "tx_idem sample_txn \<noteq> None" by (simp add: sample_txn_def)
  from lost_sync_blocks_reopen [OF run_begins run_json_ok idle_fits i(1-3) run_fits [OF i(4,5)] this c, of sorted_order "AtNano 7"]
  show ?thesis using i(3) c(1) by blast
qed

end
