(* ===== verification/Raft_Command.thy ===== *)
theory Raft_Command
  imports Wal_Recovery
begin

text \<open>
  The commands a raft group replicates (\<open>internal/clustering/consensus/command.go\<close>), the partition a space
  belongs to (\<open>internal/clustering/partitioning/partitioning.go\<close>) and the interface of the state machines they
  are applied to (\<open>statemachine.go\<close>). The text form of a UUID, SHA-256 and the JSON form of a command are
  parameters.
\<close>

unbundle bit_operations_syntax

section \<open>Commands\<close>

record raft_command =
  cmd_Version :: u32
  cmd_Scope :: string
  cmd_PartitionID :: u32
  cmd_SpaceID :: string
  cmd_RecordType :: string
  cmd_SchemaVersion :: u16
  cmd_Encoding :: byte
  cmd_Payload :: bytes
  cmd_CommandID :: string
  cmd_CommandHash :: bytes

datatype command_error =
    BadVersion u32 | SystemFields | SpaceRequired | SpaceNotUUID | PartitionCountZero | SpaceNil
  | PartitionMismatch u32 u32 | BadScope string | RecordTypeRequired | EncodingRequired | CommandIDRequired
  | HashMismatch | NotJSON | RegistryRequired | NotSystem | BadSystemRecord string | BadBootstrap string | BadNode string
  | WalError wal_error | StateMachineError string | FatalApply command_error

record command_env =
  ce_parse :: "string \<Rightarrow> uuid option"
  ce_string :: "uuid \<Rightarrow> string"
  ce_sha256 :: "bytes \<Rightarrow> bytes"
  ce_encode :: "raft_command \<Rightarrow> bytes option"
  ce_decode :: "bytes \<Rightarrow> raft_command option"

definition CommandVersion :: u32 where "CommandVersion = 1"
definition CommandScopeSystem :: string where "CommandScopeSystem = ''system''"
definition CommandScopeSpacePartition :: string where "CommandScopeSpacePartition = ''space_partition''"

section \<open>Partitions\<close>

text \<open>FNV-1a over 64 bits (\<open>hash/fnv\<close>).\<close>

definition fnv1a :: "bytes \<Rightarrow> u64" where
  "fnv1a bs = foldl (\<lambda>h b. (h XOR ucast b) * 1099511628211) 14695981039346656037 bs"

definition PartitionForSpaceID :: "command_env \<Rightarrow> uuid \<Rightarrow> u32 \<Rightarrow> command_error + u32" where
  "PartitionForSpaceID ce space count =
     (if space = 0 then Inl SpaceNil
      else if count = 0 then Inl PartitionCountZero
      else Inr (ucast (fnv1a (bytes_of (ce_string ce space)) mod ucast count)))"

definition PartitionForSpace :: "command_env \<Rightarrow> string \<Rightarrow> u32 \<Rightarrow> command_error + u32" where
  "PartitionForSpace ce space0 count =
     (let space = TrimSpace space0 in
      if space = [] then Inl SpaceNil
      else (case ce_parse ce space of None \<Rightarrow> Inl SpaceNotUUID | Some u \<Rightarrow> PartitionForSpaceID ce u count))"

section \<open>Making and checking a command\<close>

definition ComputeHash :: "command_env \<Rightarrow> raft_command \<Rightarrow> bytes" where
  "ComputeHash ce c = ce_sha256 ce
     (bytes_of (cmd_Scope c) @ [0] @ bytes_of (cmd_SpaceID c) @ [0] @ bytes_of (cmd_RecordType c) @ [0]
      @ bytes_of (dec_string (unat (cmd_PartitionID c)) @ '':'' @ dec_string (unat (cmd_SchemaVersion c)) @ '':''
          @ dec_string (unat (cmd_Encoding c))) @ [0] @ cmd_Payload c)"

definition NewCommand :: "command_env \<Rightarrow> string \<Rightarrow> string \<Rightarrow> bytes \<Rightarrow> string \<Rightarrow> raft_command" where
  "NewCommand ce scope recordType payload commandID =
     (let c = \<lparr>cmd_Version = CommandVersion, cmd_Scope = scope, cmd_PartitionID = 0, cmd_SpaceID = [],
                cmd_RecordType = recordType, cmd_SchemaVersion = 1, cmd_Encoding = PayloadEncodingJSON,
                cmd_Payload = payload, cmd_CommandID = TrimSpace commandID, cmd_CommandHash = []\<rparr>
      in c\<lparr>cmd_CommandHash := ComputeHash ce c\<rparr>)"

definition NewSpaceCommand ::
  "command_env \<Rightarrow> uuid \<Rightarrow> u32 \<Rightarrow> string \<Rightarrow> bytes \<Rightarrow> string \<Rightarrow> command_error + raft_command" where
  "NewSpaceCommand ce space count recordType payload commandID =
     (case PartitionForSpaceID ce space count of
        Inl e \<Rightarrow> Inl e
      | Inr part \<Rightarrow>
          (let c = (NewCommand ce CommandScopeSpacePartition recordType payload commandID)
                     \<lparr>cmd_SpaceID := ce_string ce space, cmd_PartitionID := part\<rparr>
           in Inr (c\<lparr>cmd_CommandHash := ComputeHash ce c\<rparr>)))"

definition validate_scope :: "command_env \<Rightarrow> u32 \<Rightarrow> raft_command \<Rightarrow> command_error option" where
  "validate_scope ce count c =
     (if cmd_Scope c = CommandScopeSystem then
        (if TrimSpace (cmd_SpaceID c) \<noteq> [] \<or> cmd_PartitionID c \<noteq> 0 then Some SystemFields else None)
      else if cmd_Scope c = CommandScopeSpacePartition then
        (if TrimSpace (cmd_SpaceID c) = [] then Some SpaceRequired
         else (case ce_parse ce (cmd_SpaceID c) of
                 None \<Rightarrow> Some SpaceNotUUID
               | Some parsed \<Rightarrow>
                   if parsed = 0 then Some SpaceNotUUID
                   else if count = 0 then Some PartitionCountZero
                   else (case PartitionForSpaceID ce parsed count of
                           Inl e \<Rightarrow> Some e
                         | Inr want \<Rightarrow> if cmd_PartitionID c \<noteq> want then Some (PartitionMismatch (cmd_PartitionID c) want)
                                      else None)))
      else Some (BadScope (cmd_Scope c)))"

definition Validate :: "command_env \<Rightarrow> u32 \<Rightarrow> raft_command \<Rightarrow> command_error option" where
  "Validate ce count c =
     (if cmd_Version c \<noteq> CommandVersion then Some (BadVersion (cmd_Version c))
      else (case validate_scope ce count c of
              Some e \<Rightarrow> Some e
            | None \<Rightarrow>
                if cmd_RecordType c = [] then Some RecordTypeRequired
                else if cmd_Encoding c = 0 then Some EncodingRequired
                else if TrimSpace (cmd_CommandID c) = [] then Some CommandIDRequired
                else if cmd_CommandHash c \<noteq> [] \<and> cmd_CommandHash c \<noteq> ComputeHash ce c then Some HashMismatch
                else None))"

definition EncodeCommand :: "command_env \<Rightarrow> raft_command \<Rightarrow> command_error + bytes" where
  "EncodeCommand ce c = (case ce_encode ce c of None \<Rightarrow> Inl NotJSON | Some b \<Rightarrow> Inr b)"

definition DecodeCommand :: "command_env \<Rightarrow> bytes \<Rightarrow> command_error + raft_command" where
  "DecodeCommand ce b = (case ce_decode ce b of None \<Rightarrow> Inl NotJSON | Some c \<Rightarrow> Inr c)"

section \<open>State machines\<close>

record apply_context =
  ac_RaftIndex :: u64
  ac_RaftTerm :: u64
  ac_Replay :: bool

text \<open>
  \<open>StateMachine\<close>, with \<open>Snapshot\<close> and \<open>RestoreSnapshot\<close> when it has them (\<open>StateMachineSnapshotter\<close>,
  \<open>StateMachineSnapshotRestorer\<close>).
\<close>

record 'a state_machine =
  sm_ApplyCommand :: "apply_context \<Rightarrow> raft_command \<Rightarrow> 'a \<Rightarrow> command_error option \<times> 'a"
  sm_Snapshot :: "('a \<Rightarrow> command_error + bytes) option"
  sm_RestoreSnapshot :: "(bytes \<Rightarrow> 'a \<Rightarrow> command_error option \<times> 'a) option"

definition NewFatalApplyError :: "command_error option \<Rightarrow> command_error option" where
  "NewFatalApplyError err = (case err of None \<Rightarrow> None | Some e \<Rightarrow> Some (FatalApply e))"

definition IsFatalApplyError :: "command_error option \<Rightarrow> bool" where
  "IsFatalApplyError err = (case err of Some (FatalApply e) \<Rightarrow> True | _ \<Rightarrow> False)"

text \<open>\<open>WALApplierStateMachine\<close>: the raft index takes the place of the LSN; \<open>now\<close> is the clock's answer.\<close>

definition wal_ApplyCommand ::
  "command_env \<Rightarrow> 'a registry option \<Rightarrow> u32 \<Rightarrow> gotime \<Rightarrow> apply_context \<Rightarrow> raft_command \<Rightarrow> 'a \<Rightarrow> command_error option \<times> 'a" where
  "wal_ApplyCommand ce registry count now ac c a =
     (case registry of
        None \<Rightarrow> (Some RegistryRequired, a)
      | Some reg \<Rightarrow>
          (case Validate ce count c of
             Some e \<Rightarrow> (Some e, a)
           | None \<Rightarrow>
               (case registry_Apply reg \<lparr>r_LSN = ac_RaftIndex ac, r_Type = cmd_RecordType c,
                       r_SchemaVersion = cmd_SchemaVersion c, r_Timestamp = now, r_Encoding = cmd_Encoding c,
                       r_Payload = cmd_Payload c\<rparr> a of
                  (None, a') \<Rightarrow> (None, a')
                | (Some e, a') \<Rightarrow> (Some (WalError e), a'))))"

section \<open>Commands the code makes are valid\<close>

lemma TrimSpace_Nil [simp]: "TrimSpace [] = []"
  by (simp add: TrimSpace_def)

lemma system_command_valid:
  assumes "recordType \<noteq> []" "TrimSpace (TrimSpace commandID) \<noteq> []"
  shows "Validate ce count (NewCommand ce CommandScopeSystem recordType payload commandID) = None"
  using assms by (simp add: Validate_def NewCommand_def Let_def validate_scope_def PayloadEncodingJSON_def CommandVersion_def
      ComputeHash_def)

lemma space_command_valid:
  assumes "NewSpaceCommand ce space count recordType payload commandID = Inr c"
    and "ce_parse ce (ce_string ce space) = Some space" "TrimSpace (ce_string ce space) \<noteq> []"
    and "recordType \<noteq> []" "TrimSpace (TrimSpace commandID) \<noteq> []"
  shows "Validate ce count c = None"
proof -
  obtain q where q: "PartitionForSpaceID ce space count = Inr q"
    using assms(1) by (auto simp: NewSpaceCommand_def split: sum.splits)
  have n: "space \<noteq> 0" "count \<noteq> 0" using q by (auto simp: PartitionForSpaceID_def split: if_splits)
  have s: "CommandScopeSpacePartition \<noteq> CommandScopeSystem"
    by (simp add: CommandScopeSpacePartition_def CommandScopeSystem_def)
  show ?thesis
    using assms q n s by (auto simp: NewSpaceCommand_def Let_def Validate_def validate_scope_def NewCommand_def
        PayloadEncodingJSON_def CommandVersion_def ComputeHash_def)
qed

lemma unat_ucast_wide: "unat (ucast (c :: u32) :: u64) = unat c"
proof -
  have "unat c < 2 ^ 64" using unsigned_less [of c, where ?'a = nat] by simp
  then show ?thesis by (simp add: unsigned_ucast_eq take_bit_nat_eq_self)
qed

lemma partition_bound:
  assumes "PartitionForSpaceID ce space count = Inr p"
  shows "p < count"
proof -
  have c: "0 < unat count" using assms by (auto simp: PartitionForSpaceID_def unat_gt_0 split: if_splits)
  let ?h = "fnv1a (bytes_of (ce_string ce space)) mod ucast count"
  have h: "unat ?h < unat count" using c by (simp add: unat_mod unat_ucast_wide)
  moreover have "p = ucast ?h" using assms by (auto simp: PartitionForSpaceID_def split: if_splits)
  moreover have "unat (ucast ?h :: u32) = unat ?h"
    using h unsigned_less [of count, where ?'a = nat] by (simp add: unsigned_ucast_eq take_bit_nat_eq_self)
  ultimately show ?thesis by (simp add: word_less_nat_alt)
qed

end
