(* ===== verification/Raft_System.thy ===== *)
theory Raft_System
  imports Raft_Command
begin

text \<open>
  The state machine of the system group (\<open>internal/clustering/consensus/system_state.go\<close>): the metadata a
  cluster is bootstrapped with, the replicas each partition is placed on, nodes that register, and the check
  of the metadata against the configuration. The JSON forms are parameters, and so is \<open>sort.Slice\<close>, whose
  result for a comparison that is no order is a permutation and nothing more. A missing map of a JSON document
  reads as an empty one, as it does in the code.
\<close>

record SystemNode =
  sy_NodeID :: string
  sy_RaftNodeID :: u64
  sy_NodeName :: string
  sy_ClientAdvertiseAddr :: string
  sy_BackendAdvertiseAddr :: string

record PartitionPlacement =
  pp_PartitionID :: u32
  pp_ReplicaNodeIDs :: "string list"
  pp_PreferredLeader :: string

record SystemMetadata =
  md_ClusterID :: string
  md_ClusterName :: string
  md_BootstrapEpoch :: string
  md_NodeCount :: int
  md_PartitionCount :: int
  md_ReplicaFactor :: int
  md_Nodes :: "string \<rightharpoonup> SystemNode"
  md_Placement :: "u32 \<rightharpoonup> PartitionPlacement"

record BootstrapMetadataPayload =
  bp_ClusterID :: string
  bp_ClusterName :: string
  bp_BootstrapEpoch :: string
  bp_NodeCount :: int
  bp_PartitionCount :: int
  bp_ReplicaFactor :: int
  bp_Nodes :: "SystemNode list"

record BootstrapConfig =
  bc_ClusterID :: string
  bc_ClusterName :: string
  bc_NodeCount :: int
  bc_PartitionCount :: int
  bc_ReplicaFactor :: int
  bc_Nodes :: "SystemNode list"

record system_env =
  se_cmd :: command_env
  se_payload :: "bytes \<Rightarrow> BootstrapMetadataPayload option"
  se_unpayload :: "BootstrapMetadataPayload \<Rightarrow> bytes option"
  se_node :: "bytes \<Rightarrow> SystemNode option"
  se_meta :: "SystemMetadata \<Rightarrow> bytes option"
  se_unmeta :: "bytes \<Rightarrow> SystemMetadata option"
  se_sort :: "(SystemNode \<Rightarrow> SystemNode \<Rightarrow> bool) \<Rightarrow> SystemNode list \<Rightarrow> SystemNode list"

definition SystemRecordBootstrapMetadata :: string where
  "SystemRecordBootstrapMetadata = ''system.cluster.bootstrap_metadata''"

definition SystemRecordRegisterNode :: string where
  "SystemRecordRegisterNode = ''system.cluster.register_node''"

definition NewSystemStateMachine :: SystemMetadata where
  "NewSystemStateMachine = \<lparr>md_ClusterID = [], md_ClusterName = [], md_BootstrapEpoch = [], md_NodeCount = 0,
     md_PartitionCount = 0, md_ReplicaFactor = 0, md_Nodes = Map.empty, md_Placement = Map.empty\<rparr>"

definition SupportsRaftCommandRecord :: "string \<Rightarrow> string \<Rightarrow> bool" where
  "SupportsRaftCommandRecord scope recordType \<longleftrightarrow> scope = CommandScopeSystem \<and>
     (recordType = SystemRecordBootstrapMetadata \<or> recordType = SystemRecordRegisterNode)"

section \<open>Bootstrap\<close>

definition HasPrefix :: "string \<Rightarrow> string \<Rightarrow> bool" where
  "HasPrefix s p \<longleftrightarrow> starts_with p s"

definition validateSystemNode :: "SystemNode \<Rightarrow> command_error option" where
  "validateSystemNode n =
     (if \<not> HasPrefix (TrimSpace (sy_NodeID n)) ''node_'' then Some (BadNode ''node_id must have node_ prefix'')
      else if TrimSpace (sy_NodeName n) = [] then Some (BadNode ''node_name is required'')
      else None)"

definition node_less :: "SystemNode \<Rightarrow> SystemNode \<Rightarrow> bool" where
  "node_less a b =
     (if sy_RaftNodeID a \<noteq> 0 \<and> sy_RaftNodeID b \<noteq> 0 \<and> sy_RaftNodeID a \<noteq> sy_RaftNodeID b
      then sy_RaftNodeID a < sy_RaftNodeID b else sy_NodeID a < sy_NodeID b)"

fun collect_nodes ::
  "SystemNode list \<Rightarrow> (string \<rightharpoonup> SystemNode) \<Rightarrow> (u64 \<rightharpoonup> string) \<Rightarrow> command_error + (string \<rightharpoonup> SystemNode)" where
  "collect_nodes [] nodes ids = Inr nodes"
| "collect_nodes (n # ns) nodes ids =
     (case validateSystemNode n of
        Some e \<Rightarrow> Inl e
      | None \<Rightarrow>
          if nodes (sy_NodeID n) \<noteq> None then Inl (BadBootstrap ''duplicate node_id'')
          else if sy_RaftNodeID n \<noteq> 0 \<and> ids (sy_RaftNodeID n) \<noteq> None \<and> ids (sy_RaftNodeID n) \<noteq> Some []
          then Inl (BadBootstrap ''duplicate raft_node_id'')
          else collect_nodes ns (nodes(sy_NodeID n \<mapsto> n))
                 (if sy_RaftNodeID n \<noteq> 0 then ids(sy_RaftNodeID n \<mapsto> sy_NodeID n) else ids))"

definition place_partition :: "SystemNode list \<Rightarrow> nat \<Rightarrow> nat \<Rightarrow> PartitionPlacement" where
  "place_partition ordered factor p =
     \<lparr>pp_PartitionID = of_nat p,
      pp_ReplicaNodeIDs = map (\<lambda>i. sy_NodeID (ordered ! ((p + i) mod length ordered))) [0..<factor],
      pp_PreferredLeader = sy_NodeID (ordered ! (p mod length ordered))\<rparr>"

definition place_partitions :: "SystemNode list \<Rightarrow> nat \<Rightarrow> nat \<Rightarrow> (u32 \<rightharpoonup> PartitionPlacement)" where
  "place_partitions ordered factor count =
     foldl (\<lambda>m p. m(of_nat p \<mapsto> place_partition ordered factor p)) Map.empty [0..<count]"

definition buildBootstrapMetadata :: "system_env \<Rightarrow> BootstrapMetadataPayload \<Rightarrow> command_error + SystemMetadata" where
  "buildBootstrapMetadata se p =
     (if TrimSpace (bp_ClusterID p) = [] then Inl (BadBootstrap ''cluster_id is required'')
      else if \<not> HasPrefix (bp_ClusterID p) ''cluster_'' then Inl (BadBootstrap ''cluster_id must have cluster_ prefix'')
      else if bp_NodeCount p \<le> 0 then Inl (BadBootstrap ''node_count must be positive'')
      else if bp_PartitionCount p \<le> 0 then Inl (BadBootstrap ''partition_count must be positive'')
      else if bp_ReplicaFactor p \<le> 0 then Inl (BadBootstrap ''replica_factor must be positive'')
      else if bp_ReplicaFactor p > bp_NodeCount p then Inl (BadBootstrap ''replica_factor must not exceed node_count'')
      else if int (length (bp_Nodes p)) \<noteq> bp_NodeCount p then Inl (BadBootstrap ''node count mismatch'')
      else
        (let ordered = se_sort se node_less (bp_Nodes p) in
         case collect_nodes ordered Map.empty Map.empty of
           Inl e \<Rightarrow> Inl e
         | Inr nodes \<Rightarrow>
             Inr \<lparr>md_ClusterID = bp_ClusterID p, md_ClusterName = TrimSpace (bp_ClusterName p),
                  md_BootstrapEpoch = TrimSpace (bp_BootstrapEpoch p), md_NodeCount = bp_NodeCount p,
                  md_PartitionCount = bp_PartitionCount p, md_ReplicaFactor = bp_ReplicaFactor p, md_Nodes = nodes,
                  md_Placement = place_partitions ordered (nat (bp_ReplicaFactor p)) (nat (bp_PartitionCount p))\<rparr>))"

text \<open>\<open>fresh\<close> is the text of the UUID a payload without a cluster id gets.\<close>

definition NewBootstrapMetadataCommand ::
  "system_env \<Rightarrow> string \<Rightarrow> BootstrapMetadataPayload \<Rightarrow> string \<Rightarrow> command_error + raft_command" where
  "NewBootstrapMetadataCommand se fresh p0 commandID =
     (let p = (if TrimSpace (bp_ClusterID p0) = [] then p0\<lparr>bp_ClusterID := ''cluster_'' @ fresh\<rparr> else p0) in
      case se_unpayload se p of
        None \<Rightarrow> Inl NotJSON
      | Some data \<Rightarrow>
          (let c = NewCommand (se_cmd se) CommandScopeSystem SystemRecordBootstrapMetadata data commandID in
           case Validate (se_cmd se) 0 c of Some e \<Rightarrow> Inl e | None \<Rightarrow> Inr c))"

section \<open>Applying, snapshots\<close>

definition system_ApplyCommand ::
  "system_env \<Rightarrow> apply_context \<Rightarrow> raft_command \<Rightarrow> SystemMetadata \<Rightarrow> command_error option \<times> SystemMetadata" where
  "system_ApplyCommand se ac c md =
     (case Validate (se_cmd se) 0 c of
        Some e \<Rightarrow> (Some e, md)
      | None \<Rightarrow>
          if cmd_Scope c \<noteq> CommandScopeSystem then (Some NotSystem, md)
          else if cmd_RecordType c = SystemRecordBootstrapMetadata then
            (case se_payload se (cmd_Payload c) of
               None \<Rightarrow> (Some NotJSON, md)
             | Some p \<Rightarrow> (case buildBootstrapMetadata se p of Inl e \<Rightarrow> (Some e, md) | Inr md' \<Rightarrow> (None, md')))
          else if cmd_RecordType c = SystemRecordRegisterNode then
            (case se_node se (cmd_Payload c) of
               None \<Rightarrow> (Some NotJSON, md)
             | Some n \<Rightarrow>
                 (case validateSystemNode n of
                    Some e \<Rightarrow> (Some e, md)
                  | None \<Rightarrow> (None, md\<lparr>md_Nodes := (md_Nodes md)(sy_NodeID n \<mapsto> n)\<rparr>)))
          else (Some (BadSystemRecord (cmd_RecordType c)), md))"

definition system_Snapshot :: "system_env \<Rightarrow> SystemMetadata \<Rightarrow> command_error + bytes" where
  "system_Snapshot se md = (case se_meta se md of None \<Rightarrow> Inl NotJSON | Some b \<Rightarrow> Inr b)"

definition system_RestoreSnapshot :: "system_env \<Rightarrow> bytes \<Rightarrow> SystemMetadata \<Rightarrow> command_error option \<times> SystemMetadata" where
  "system_RestoreSnapshot se data md = (case se_unmeta se data of None \<Rightarrow> (Some NotJSON, md) | Some md' \<Rightarrow> (None, md'))"

definition SystemStateMachine :: "system_env \<Rightarrow> SystemMetadata state_machine" where
  "SystemStateMachine se = \<lparr>sm_ApplyCommand = system_ApplyCommand se, sm_Snapshot = Some (system_Snapshot se),
     sm_RestoreSnapshot = Some (system_RestoreSnapshot se)\<rparr>"

section \<open>Checking the metadata against the configuration\<close>

fun check_nodes :: "SystemNode list \<Rightarrow> (string \<rightharpoonup> SystemNode) \<Rightarrow> command_error option" where
  "check_nodes [] nodes = None"
| "check_nodes (want # ws) nodes =
     (case nodes (sy_NodeID want) of
        None \<Rightarrow> Some (BadBootstrap ''node missing from system metadata'')
      | Some got \<Rightarrow>
          if sy_RaftNodeID want \<noteq> 0 \<and> sy_RaftNodeID got \<noteq> sy_RaftNodeID want
          then Some (BadBootstrap ''raft_node_id mismatch'')
          else if TrimSpace (sy_BackendAdvertiseAddr want) \<noteq> []
                  \<and> TrimSpace (sy_BackendAdvertiseAddr got) \<noteq> TrimSpace (sy_BackendAdvertiseAddr want)
          then Some (BadBootstrap ''backend_advertise_addr mismatch'')
          else check_nodes ws nodes)"

definition ValidateSystemMetadataAgainstBootstrapConfig :: "SystemMetadata \<Rightarrow> BootstrapConfig \<Rightarrow> command_error option" where
  "ValidateSystemMetadataAgainstBootstrapConfig md cfg =
     (if TrimSpace (md_ClusterID md) = [] then Some (BadBootstrap ''system metadata cluster_id is required'')
      else if TrimSpace (bc_ClusterID cfg) \<noteq> [] \<and> md_ClusterID md \<noteq> TrimSpace (bc_ClusterID cfg)
      then Some (BadBootstrap ''cluster_id mismatch'')
      else if TrimSpace (bc_ClusterName cfg) \<noteq> [] \<and> TrimSpace (md_ClusterName md) \<noteq> TrimSpace (bc_ClusterName cfg)
      then Some (BadBootstrap ''cluster_name mismatch'')
      else if bc_NodeCount cfg > 0 \<and> md_NodeCount md \<noteq> bc_NodeCount cfg then Some (BadBootstrap ''node_count mismatch'')
      else if bc_PartitionCount cfg > 0 \<and> md_PartitionCount md \<noteq> bc_PartitionCount cfg
      then Some (BadBootstrap ''partition_count mismatch'')
      else if bc_ReplicaFactor cfg > 0 \<and> md_ReplicaFactor md \<noteq> bc_ReplicaFactor cfg
      then Some (BadBootstrap ''replica_factor mismatch'')
      else if bc_Nodes cfg \<noteq> [] then
        (if card (dom (md_Nodes md)) \<noteq> length (bc_Nodes cfg) then Some (BadBootstrap ''node metadata count mismatch'')
         else check_nodes (bc_Nodes cfg) (md_Nodes md))
      else None)"

end
