(* ===== verification/Raft_Storage.thy ===== *)
theory Raft_Storage
  imports Encryption
begin

text \<open>
  The durable storage of a raft group (\<open>internal/clustering/consensus/storage.go\<close>): a memory storage that
  answers raft's reads, and five files that hold the hard state, the configuration, the snapshot and the
  entries, the entries as a log of frames that is appended to or rewritten. The memory storage, the messages
  and their encoding are those of \<open>go.etcd.io/raft\<close>: the operations the code calls through \<open>raftStorage\<close>
  and the encoding are parameters.
\<close>

section \<open>Messages\<close>

datatype entry_type = EntryNormal | EntryConfChange | EntryConfChangeV2

record raft_entry =
  re_Term :: u64
  re_Index :: u64
  re_Type :: entry_type
  re_Data :: bytes

record hard_state =
  hs_Term :: u64
  hs_Vote :: u64
  hs_Commit :: u64

record conf_state =
  cs_Voters :: "u64 list"
  cs_Learners :: "u64 list"
  cs_VotersOutgoing :: "u64 list"
  cs_LearnersNext :: "u64 list"
  cs_AutoLeave :: bool

record raft_snapshot =
  sn_Data :: bytes
  sn_ConfState :: conf_state
  sn_Index :: u64
  sn_Term :: u64

definition no_conf :: conf_state where
  "no_conf = \<lparr>cs_Voters = [], cs_Learners = [], cs_VotersOutgoing = [], cs_LearnersNext = [], cs_AutoLeave = False\<rparr>"

datatype raft_error =
    ErrSnapOutOfDate | ErrCompacted | ErrUnavailable | ErrRaftPanic | ErrMarshal | ErrUnmarshal | ErrEncrypt
  | ErrDecrypt | ErrFileWrite | ErrLogHeader | ErrLogChecksum

record raft_codec =
  rc_entry :: "raft_entry \<Rightarrow> bytes option"
  rc_unentry :: "bytes \<Rightarrow> raft_entry option"
  rc_hard :: "hard_state \<Rightarrow> bytes option"
  rc_unhard :: "bytes \<Rightarrow> hard_state option"
  rc_conf :: "conf_state \<Rightarrow> bytes option"
  rc_unconf :: "bytes \<Rightarrow> conf_state option"
  rc_snap :: "raft_snapshot \<Rightarrow> bytes option"
  rc_unsnap :: "bytes \<Rightarrow> raft_snapshot option"

section \<open>The memory storage\<close>

text \<open>\<open>raftStorage\<close>. An operation that changes the storage returns it with its error.\<close>

record 'm raft_memory =
  rm_InitialState :: "'m \<Rightarrow> raft_error + hard_state \<times> conf_state"
  rm_Entries :: "u64 \<Rightarrow> u64 \<Rightarrow> u64 \<Rightarrow> 'm \<Rightarrow> raft_error + raft_entry list"
  rm_Term :: "u64 \<Rightarrow> 'm \<Rightarrow> raft_error + u64"
  rm_LastIndex :: "'m \<Rightarrow> raft_error + u64"
  rm_FirstIndex :: "'m \<Rightarrow> raft_error + u64"
  rm_Snapshot :: "'m \<Rightarrow> raft_error + raft_snapshot"
  rm_SetHardState :: "hard_state \<Rightarrow> 'm \<Rightarrow> raft_error option \<times> 'm"
  rm_Append :: "raft_entry list \<Rightarrow> 'm \<Rightarrow> raft_error option \<times> 'm"
  rm_ApplySnapshot :: "raft_snapshot \<Rightarrow> 'm \<Rightarrow> raft_error option \<times> 'm"
  rm_CreateSnapshot :: "u64 \<Rightarrow> conf_state option \<Rightarrow> bytes \<Rightarrow> 'm \<Rightarrow> (raft_error + raft_snapshot) \<times> 'm"
  rm_Compact :: "u64 \<Rightarrow> 'm \<Rightarrow> raft_error option \<times> 'm"

section \<open>Files\<close>

text \<open>A file that does not exist is \<^const>\<open>None\<close>.\<close>

record raft_files =
  rf_hard :: "bytes option"
  rf_conf :: "bytes option"
  rf_snap :: "bytes option"
  rf_log :: "bytes option"
  rf_entries :: "bytes option"

definition no_files :: raft_files where
  "no_files = \<lparr>rf_hard = None, rf_conf = None, rf_snap = None, rf_log = None, rf_entries = None\<rparr>"

record 'm raft_env =
  rv_memory :: "'m raft_memory"
  rv_new :: 'm
  rv_codec :: raft_codec
  rv_group :: string
  rv_enc :: "cipher_service option"

record 'm raft_store =
  rs_mem :: 'm
  rs_entries :: "raft_entry list"
  rs_conf :: conf_state
  rs_files :: raft_files

definition encryptionEnabled :: "'m raft_env \<Rightarrow> bool" where
  "encryptionEnabled v = (case rv_enc v of None \<Rightarrow> False | Some svc \<Rightarrow> svc_Enabled svc)"

definition fileAAD :: "'m raft_env \<Rightarrow> string \<Rightarrow> bytes" where
  "fileAAD v name = bytes_of (''raft-storage:v1:group='' @ rv_group v @ '':file='' @ name)"

definition entriesLogFrameAAD :: "'m raft_env \<Rightarrow> string \<Rightarrow> nat \<Rightarrow> bytes" where
  "entriesLogFrameAAD v name ordinal =
     bytes_of (''raft-storage:v2:group='' @ rv_group v @ '':file='' @ name @ '':ordinal='' @ dec_string ordinal)"

definition raft_seal :: "'m raft_env \<Rightarrow> bytes \<Rightarrow> bytes \<Rightarrow> bytes option" where
  "raft_seal v aad p = (case rv_enc v of
     Some svc \<Rightarrow> if svc_Enabled svc then svc_EncryptRecord svc p aad else Some p | None \<Rightarrow> Some p)"

text \<open>\<open>readFile\<close> decrypts whenever there is a service, enabled or not.\<close>

definition raft_readFile :: "'m raft_env \<Rightarrow> string \<Rightarrow> bytes \<Rightarrow> bytes option" where
  "raft_readFile v name bs =
     (if bs = [] then Some bs
      else case rv_enc v of None \<Rightarrow> Some bs | Some svc \<Rightarrow> svc_DecryptRecord svc bs (fileAAD v name))"

text \<open>\<open>writeProtoAtomic\<close>: the file is replaced, or left as it was when a step before the rename fails.\<close>

definition writeProtoAtomic ::
  "'m raft_env \<Rightarrow> bool \<Rightarrow> string \<Rightarrow> bytes option \<Rightarrow> bytes option \<Rightarrow> raft_error option \<times> bytes option" where
  "writeProtoAtomic v ok name msg file =
     (case msg of
        None \<Rightarrow> (Some ErrMarshal, file)
      | Some p \<Rightarrow>
          (case raft_seal v (fileAAD v name) p of
             None \<Rightarrow> (Some ErrEncrypt, file)
           | Some c \<Rightarrow> if ok then (None, Some c) else (Some ErrFileWrite, file)))"

section \<open>The log of entries\<close>

definition entriesLogMagic :: bytes where
  "entriesLogMagic = bytes_of ''mycel-raft-entries-v2'' @ [10]"

definition log_frame :: "bytes \<Rightarrow> bytes" where
  "log_frame p = put_u64 (of_nat (length p)) @ put_u32 (crc32 ieee p) @ p"

text \<open>The frames of a list of entries up to the first one that does not encode.\<close>

fun encodeEntriesLogFrames ::
  "'m raft_env \<Rightarrow> string \<Rightarrow> nat \<Rightarrow> raft_entry list \<Rightarrow> raft_error option \<times> bytes" where
  "encodeEntriesLogFrames v name ordinal [] = (None, [])"
| "encodeEntriesLogFrames v name ordinal (e # es) =
     (case rc_entry (rv_codec v) e of
        None \<Rightarrow> (Some ErrMarshal, [])
      | Some p \<Rightarrow>
          (case (if encryptionEnabled v then raft_seal v (entriesLogFrameAAD v name ordinal) p else Some p) of
             None \<Rightarrow> (Some ErrEncrypt, [])
           | Some c \<Rightarrow>
               (case encodeEntriesLogFrames v name (Suc ordinal) es of (err, bs) \<Rightarrow> (err, log_frame c @ bs))))"

definition writeEntriesLogAtomic ::
  "'m raft_env \<Rightarrow> bool \<Rightarrow> raft_entry list \<Rightarrow> bytes option \<Rightarrow> raft_error option \<times> bytes option" where
  "writeEntriesLogAtomic v ok es file =
     (case encodeEntriesLogFrames v ''entries.log'' 0 es of
        (Some e, _) \<Rightarrow> (Some e, file)
      | (None, bs) \<Rightarrow> if ok then (None, Some (entriesLogMagic @ bs)) else (Some ErrFileWrite, file))"

text \<open>
  \<open>appendEntriesLog\<close>: the magic if the file is empty, then the frames, written one after the other; the
  outcome says how many of these bytes reach the file.
\<close>

definition appendEntriesLog ::
  "'m raft_env \<Rightarrow> write_outcome \<Rightarrow> nat \<Rightarrow> raft_entry list \<Rightarrow> bytes option \<Rightarrow> raft_error option \<times> bytes option" where
  "appendEntriesLog v w ordinal es file =
     (if es = [] then (None, file)
      else
        let old = (case file of None \<Rightarrow> [] | Some bs \<Rightarrow> bs);
            (err, bs) = encodeEntriesLogFrames v ''entries.log'' ordinal es;
            out = (if old = [] then entriesLogMagic else []) @ bs
        in (case w of
              WroteAll \<Rightarrow> (err, Some (old @ out))
            | WroteFails k \<Rightarrow> (Some ErrFileWrite, Some (old @ take k out))))"

text \<open>
  Reading frames: the entries up to a torn frame and the length of their frames. The runtime refuses to
  allocate a slice of more than \<open>maxAlloc\<close> bytes with a panic.
\<close>

definition maxAlloc :: nat where
  "maxAlloc = 2 ^ 48"

function readFrames ::
  "'m raft_env \<Rightarrow> string \<Rightarrow> nat \<Rightarrow> bytes \<Rightarrow> raft_error + raft_entry list \<times> nat" where
  "readFrames v name ordinal bs =
     (if length bs < 12 then Inr ([], 0)
      else
        let n = be_dec (take 8 bs); crc = get_u32 (bslice 8 12 bs); rest = drop 12 bs; p = take n rest
        in if maxAlloc < n then Inl ErrRaftPanic
           else if length rest < n then Inr ([], 0)
           else if crc32 ieee p \<noteq> crc then Inl ErrLogChecksum
           else
             (case (case rv_enc v of
                      Some svc \<Rightarrow> if svc_Enabled svc then svc_DecryptRecord svc p (entriesLogFrameAAD v name ordinal) else Some p
                    | None \<Rightarrow> Some p) of
                None \<Rightarrow> Inl ErrDecrypt
              | Some d \<Rightarrow>
                  (case rc_unentry (rv_codec v) d of
                     None \<Rightarrow> Inl ErrUnmarshal
                   | Some e \<Rightarrow>
                       (case readFrames v name (Suc ordinal) (drop n rest) of
                          Inl err \<Rightarrow> Inl err
                        | Inr (es, good) \<Rightarrow> Inr (e # es, 12 + n + good)))))"
  by pat_completeness auto
termination
  by (relation "measure (\<lambda>(_, _, _, bs). length bs)") auto

declare readFrames.simps [simp del]

text \<open>\<open>readEntriesLog\<close>, with what truncation leaves of the file.\<close>

definition readEntriesLog :: "'m raft_env \<Rightarrow> bytes \<Rightarrow> raft_error + raft_entry list \<times> bytes" where
  "readEntriesLog v bs =
     (let m = length entriesLogMagic in
      if length bs < m then Inr ([], bs)
      else if take m bs \<noteq> entriesLogMagic then Inl ErrLogHeader
      else
        (case readFrames v ''entries.log'' 0 (drop m bs) of
           Inl e \<Rightarrow> Inl e
         | Inr (es, good) \<Rightarrow> Inr (es, take (m + good) bs)))"

text \<open>\<open>readEntries\<close>: the older file, a count and then each entry with its length.\<close>

fun read_legacy :: "'m raft_env \<Rightarrow> nat \<Rightarrow> bytes \<Rightarrow> raft_error + raft_entry list" where
  "read_legacy v 0 bs = Inr []"
| "read_legacy v (Suc k) bs =
     (if length bs < 8 then Inl ErrUnmarshal
      else
        let n = be_dec (take 8 bs); rest = drop 8 bs
        in if maxAlloc < n then Inl ErrRaftPanic
           else if length rest < n then Inl ErrUnmarshal
           else
             (case rc_unentry (rv_codec v) (take n rest) of
                None \<Rightarrow> Inl ErrUnmarshal
              | Some e \<Rightarrow>
                  (case read_legacy v k (drop n rest) of Inl err \<Rightarrow> Inl err | Inr es \<Rightarrow> Inr (e # es))))"

definition readEntries :: "'m raft_env \<Rightarrow> bytes option \<Rightarrow> raft_error + raft_entry list" where
  "readEntries v file =
     (case file of
        None \<Rightarrow> Inr []
      | Some bs \<Rightarrow>
          (case raft_readFile v ''entries.pb'' bs of
             None \<Rightarrow> Inl ErrDecrypt
           | Some d \<Rightarrow>
               if d = [] then Inr []
               else if length d < 8 then Inl ErrUnmarshal
               else if maxAlloc < 48 * be_dec (take 8 d) then Inl ErrRaftPanic
               else read_legacy v (be_dec (take 8 d)) (drop 8 d)))"

section \<open>Operations\<close>

definition raft_InitialState :: "'m raft_env \<Rightarrow> 'm raft_store \<Rightarrow> raft_error + hard_state \<times> conf_state" where
  "raft_InitialState v s =
     (case rm_InitialState (rv_memory v) (rs_mem s) of
        Inl e \<Rightarrow> Inl e
      | Inr (hs, cs) \<Rightarrow>
          let c = rs_conf s
          in Inr (hs, if cs_Voters c \<noteq> [] \<or> cs_Learners c \<noteq> [] \<or> cs_VotersOutgoing c \<noteq> [] \<or> cs_LearnersNext c \<noteq> []
                      then c else cs))"

definition raft_SetHardState ::
  "'m raft_env \<Rightarrow> bool \<Rightarrow> hard_state \<Rightarrow> 'm raft_store \<Rightarrow> raft_error option \<times> 'm raft_store" where
  "raft_SetHardState v ok st s =
     (case rm_SetHardState (rv_memory v) st (rs_mem s) of
        (Some e, m) \<Rightarrow> (Some e, s\<lparr>rs_mem := m\<rparr>)
      | (None, m) \<Rightarrow>
          (case writeProtoAtomic v ok ''hard_state.pb'' (rc_hard (rv_codec v) st) (rf_hard (rs_files s)) of
             (err, f) \<Rightarrow> (err, s\<lparr>rs_mem := m, rs_files := (rs_files s)\<lparr>rf_hard := f\<rparr>\<rparr>)))"

definition canAppendEntriesLog :: "raft_entry list \<Rightarrow> 'm raft_store \<Rightarrow> bool" where
  "canAppendEntriesLog es s =
     (if es = [] then False
      else if rs_entries s = [] then True
      else if rf_log (rs_files s) = None then False
      else re_Index (hd es) = re_Index (last (rs_entries s)) + 1)"

definition reloadEntriesFromMemory :: "'m raft_env \<Rightarrow> 'm \<Rightarrow> raft_error + raft_entry list" where
  "reloadEntriesFromMemory v m =
     (case rm_FirstIndex (rv_memory v) m of
        Inl e \<Rightarrow> Inl e
      | Inr first \<Rightarrow>
          (case rm_LastIndex (rv_memory v) m of
             Inl e \<Rightarrow> Inl e
           | Inr lst \<Rightarrow>
               if lst < first then Inr []
               else rm_Entries (rv_memory v) first (lst + 1) (- 1) m))"

definition rewrite_entries ::
  "'m raft_env \<Rightarrow> bool \<Rightarrow> 'm raft_store \<Rightarrow> raft_error option \<times> 'm raft_store" where
  "rewrite_entries v ok s =
     (case writeEntriesLogAtomic v ok (rs_entries s) (rf_log (rs_files s)) of
        (err, f) \<Rightarrow> (err, s\<lparr>rs_files := (rs_files s)\<lparr>rf_log := f\<rparr>\<rparr>))"

definition reload_and_rewrite ::
  "'m raft_env \<Rightarrow> bool \<Rightarrow> 'm raft_store \<Rightarrow> raft_error option \<times> 'm raft_store" where
  "reload_and_rewrite v ok s =
     (case reloadEntriesFromMemory v (rs_mem s) of
        Inl e \<Rightarrow> (Some e, s)
      | Inr es \<Rightarrow> rewrite_entries v ok (s\<lparr>rs_entries := es\<rparr>))"

definition raft_Append ::
  "'m raft_env \<Rightarrow> write_outcome \<Rightarrow> raft_entry list \<Rightarrow> 'm raft_store \<Rightarrow> raft_error option \<times> 'm raft_store" where
  "raft_Append v w es s =
     (if es = [] then (None, s)
      else
        (case rm_Append (rv_memory v) es (rs_mem s) of
           (Some e, m) \<Rightarrow> (Some e, s\<lparr>rs_mem := m\<rparr>)
         | (None, m) \<Rightarrow>
             if canAppendEntriesLog es s then
               (case appendEntriesLog v w (length (rs_entries s)) es (rf_log (rs_files s)) of
                  (Some e, f) \<Rightarrow> (Some e, s\<lparr>rs_mem := m, rs_files := (rs_files s)\<lparr>rf_log := f\<rparr>\<rparr>)
                | (None, f) \<Rightarrow> (None, s\<lparr>rs_mem := m, rs_files := (rs_files s)\<lparr>rf_log := f\<rparr>,
                                       rs_entries := rs_entries s @ es\<rparr>))
             else reload_and_rewrite v (w = WroteAll) (s\<lparr>rs_mem := m\<rparr>)))"

text \<open>The files of a snapshot are replaced one after the other; \<open>ok i\<close> says whether the \<open>i\<close>-th one is.\<close>

definition write_conf :: "'m raft_env \<Rightarrow> bool \<Rightarrow> 'm raft_store \<Rightarrow> raft_error option \<times> 'm raft_store" where
  "write_conf v ok s =
     (case writeProtoAtomic v ok ''conf_state.pb'' (rc_conf (rv_codec v) (rs_conf s)) (rf_conf (rs_files s)) of
        (err, f) \<Rightarrow> (err, s\<lparr>rs_files := (rs_files s)\<lparr>rf_conf := f\<rparr>\<rparr>))"

definition write_snap ::
  "'m raft_env \<Rightarrow> bool \<Rightarrow> raft_snapshot \<Rightarrow> 'm raft_store \<Rightarrow> raft_error option \<times> 'm raft_store" where
  "write_snap v ok snap s =
     (case writeProtoAtomic v ok ''snapshot.pb'' (rc_snap (rv_codec v) snap) (rf_snap (rs_files s)) of
        (err, f) \<Rightarrow> (err, s\<lparr>rs_files := (rs_files s)\<lparr>rf_snap := f\<rparr>\<rparr>))"

definition raft_ApplySnapshot ::
  "'m raft_env \<Rightarrow> (nat \<Rightarrow> bool) \<Rightarrow> raft_snapshot \<Rightarrow> 'm raft_store \<Rightarrow> raft_error option \<times> 'm raft_store" where
  "raft_ApplySnapshot v ok snap s =
     (case rm_ApplySnapshot (rv_memory v) snap (rs_mem s) of
        (Some e, m) \<Rightarrow> (Some e, s\<lparr>rs_mem := m\<rparr>)
      | (None, m) \<Rightarrow>
          (case write_snap v (ok 0) snap (s\<lparr>rs_mem := m, rs_entries := [], rs_conf := sn_ConfState snap\<rparr>) of
             (Some e, s1) \<Rightarrow> (Some e, s1)
           | (None, s1) \<Rightarrow>
               (case write_conf v (ok 1) s1 of
                  (Some e, s2) \<Rightarrow> (Some e, s2)
                | (None, s2) \<Rightarrow> rewrite_entries v (ok 2) s2)))"

definition raft_CreateSnapshot ::
  "'m raft_env \<Rightarrow> (nat \<Rightarrow> bool) \<Rightarrow> u64 \<Rightarrow> conf_state option \<Rightarrow> bytes \<Rightarrow> 'm raft_store \<Rightarrow>
   (raft_error + raft_snapshot) \<times> 'm raft_store" where
  "raft_CreateSnapshot v ok i cs data s =
     (case rm_CreateSnapshot (rv_memory v) i cs data (rs_mem s) of
        (Inl e, m) \<Rightarrow> (Inl e, s\<lparr>rs_mem := m\<rparr>)
      | (Inr snap, m) \<Rightarrow>
          (case write_snap v (ok 0) snap
                  (s\<lparr>rs_mem := m, rs_conf := (case cs of None \<Rightarrow> rs_conf s | Some c \<Rightarrow> c)\<rparr>) of
             (Some e, s1) \<Rightarrow> (Inl e, s1)
           | (None, s1) \<Rightarrow>
               (case write_conf v (ok 1) s1 of
                  (Some e, s2) \<Rightarrow> (Inl e, s2)
                | (None, s2) \<Rightarrow> (Inr snap, s2))))"

definition raft_Compact ::
  "'m raft_env \<Rightarrow> bool \<Rightarrow> u64 \<Rightarrow> 'm raft_store \<Rightarrow> raft_error option \<times> 'm raft_store" where
  "raft_Compact v ok i s =
     (case rm_Compact (rv_memory v) i (rs_mem s) of
        (Some e, m) \<Rightarrow> (Some e, s\<lparr>rs_mem := m\<rparr>)
      | (None, m) \<Rightarrow> reload_and_rewrite v ok (s\<lparr>rs_mem := m\<rparr>))"

definition raft_SetConfState ::
  "'m raft_env \<Rightarrow> bool \<Rightarrow> conf_state \<Rightarrow> 'm raft_store \<Rightarrow> raft_error option \<times> 'm raft_store" where
  "raft_SetConfState v ok cs s = write_conf v ok (s\<lparr>rs_conf := cs\<rparr>)"

section \<open>Loading\<close>

text \<open>A file that is missing or empty is skipped, any other must decrypt and decode.\<close>

definition load_file :: "'m raft_env \<Rightarrow> string \<Rightarrow> (bytes \<Rightarrow> 'a option) \<Rightarrow> bytes option \<Rightarrow> raft_error + 'a option" where
  "load_file v name dec file =
     (case file of
        None \<Rightarrow> Inr None
      | Some bs \<Rightarrow>
          (case raft_readFile v name bs of
             None \<Rightarrow> Inl ErrDecrypt
           | Some d \<Rightarrow>
               if d = [] then Inr None
               else (case dec d of None \<Rightarrow> Inl ErrUnmarshal | Some a \<Rightarrow> Inr (Some a))))"

definition raft_load_entries ::
  "'m raft_env \<Rightarrow> 'm \<Rightarrow> conf_state \<Rightarrow> raft_files \<Rightarrow> raft_error + 'm raft_store" where
  "raft_load_entries v m cs fs =
     (case (case rf_log fs of
              Some bs \<Rightarrow> (case readEntriesLog v bs of Inl e \<Rightarrow> Inl e | Inr (es, bs') \<Rightarrow> Inr (es, fs\<lparr>rf_log := Some bs'\<rparr>))
            | None \<Rightarrow> (case readEntries v (rf_entries fs) of Inl e \<Rightarrow> Inl e | Inr es \<Rightarrow> Inr (es, fs))) of
        Inl e \<Rightarrow> Inl e
      | Inr (es, fs') \<Rightarrow>
          if es = [] then Inr \<lparr>rs_mem = m, rs_entries = [], rs_conf = cs, rs_files = fs'\<rparr>
          else
            (case rm_Append (rv_memory v) es m of
               (Some e, _) \<Rightarrow> Inl e
             | (None, m') \<Rightarrow> Inr \<lparr>rs_mem = m', rs_entries = es, rs_conf = cs, rs_files = fs'\<rparr>))"

definition NewPersistentStorage :: "'m raft_env \<Rightarrow> raft_files \<Rightarrow> raft_error + 'm raft_store" where
  "NewPersistentStorage v fs =
     (case load_file v ''conf_state.pb'' (rc_unconf (rv_codec v)) (rf_conf fs) of
        Inl e \<Rightarrow> Inl e
      | Inr conf \<Rightarrow>
          (case load_file v ''snapshot.pb'' (rc_unsnap (rv_codec v)) (rf_snap fs) of
             Inl e \<Rightarrow> Inl e
           | Inr snap \<Rightarrow>
               (case (case snap of None \<Rightarrow> (None, rv_new v) | Some sn \<Rightarrow> rm_ApplySnapshot (rv_memory v) sn (rv_new v)) of
                  (Some e, _) \<Rightarrow> Inl e
                | (None, m1) \<Rightarrow>
                    (case load_file v ''hard_state.pb'' (rc_unhard (rv_codec v)) (rf_hard fs) of
                       Inl e \<Rightarrow> Inl e
                     | Inr hard \<Rightarrow>
                         (case (case hard of None \<Rightarrow> (None, m1) | Some hs \<Rightarrow> rm_SetHardState (rv_memory v) hs m1) of
                            (Some e, _) \<Rightarrow> Inl e
                          | (None, m2) \<Rightarrow>
                              raft_load_entries v m2 (case conf of None \<Rightarrow> no_conf | Some c \<Rightarrow> c) fs)))))"

end
