(* ===== verification/Raft_Memory.thy ===== *)
theory Raft_Memory
  imports Raft_Storage
begin

text \<open>
  What the storage relies on of raft's memory storage, as the documentation of \<open>raft.MemoryStorage\<close> has it:
  a hard state, a snapshot and the entries behind a compacted index, with the operations on them. A memory
  storage is fine when a view of it follows these operations.
\<close>

record raft_view =
  vw_hard :: hard_state
  vw_snap :: raft_snapshot
  vw_offset :: nat
  vw_ents :: "raft_entry list"

abbreviation ix :: "raft_entry \<Rightarrow> nat" where
  "ix e \<equiv> unat (re_Index e)"

text \<open>Entries with consecutive indexes behind \<open>o\<close>, all of them and the one after below \<open>2 ^ 64\<close>.\<close>

fun consecutive :: "nat \<Rightarrow> raft_entry list \<Rightarrow> bool" where
  "consecutive i [] = (i + 1 < 2 ^ 64)"
| "consecutive i (e # es) = (ix e = i + 1 \<and> consecutive (i + 1) es)"

definition view_wf :: "raft_view \<Rightarrow> bool" where
  "view_wf w \<longleftrightarrow> consecutive (vw_offset w) (vw_ents w)"

definition vw_last :: "raft_view \<Rightarrow> nat" where
  "vw_last w = vw_offset w + length (vw_ents w)"

section \<open>The documented operations\<close>

definition empty_view :: raft_view where
  "empty_view = \<lparr>vw_hard = \<lparr>hs_Term = 0, hs_Vote = 0, hs_Commit = 0\<rparr>,
     vw_snap = \<lparr>sn_Data = [], sn_ConfState = no_conf, sn_Index = 0, sn_Term = 0\<rparr>, vw_offset = 0, vw_ents = []\<rparr>"

text \<open>
  Appending drops entries that are compacted, and overwrites from the first index on; a gap between the last
  index and the first one panics.
\<close>

definition view_Append :: "raft_entry list \<Rightarrow> raft_view \<Rightarrow> raft_view" where
  "view_Append es w =
     (let es' = filter (\<lambda>e. vw_offset w < ix e) es
      in case es' of [] \<Rightarrow> w | e # _ \<Rightarrow> w\<lparr>vw_ents := take (ix e - vw_offset w - 1) (vw_ents w) @ es'\<rparr>)"

definition view_ApplySnapshot :: "raft_snapshot \<Rightarrow> raft_view \<Rightarrow> raft_view" where
  "view_ApplySnapshot sn w = w\<lparr>vw_snap := sn, vw_offset := unat (sn_Index sn), vw_ents := []\<rparr>"

definition view_CreateSnapshot :: "u64 \<Rightarrow> u64 \<Rightarrow> conf_state option \<Rightarrow> bytes \<Rightarrow> raft_view \<Rightarrow> raft_snapshot" where
  "view_CreateSnapshot i term cs data w =
     \<lparr>sn_Data = data, sn_ConfState = (case cs of None \<Rightarrow> sn_ConfState (vw_snap w) | Some c \<Rightarrow> c), sn_Index = i, sn_Term = term\<rparr>"

definition view_Compact :: "nat \<Rightarrow> raft_view \<Rightarrow> raft_view" where
  "view_Compact i w = w\<lparr>vw_offset := i, vw_ents := drop (i - vw_offset w) (vw_ents w)\<rparr>"

text \<open>When the operations succeed.\<close>

definition append_pre :: "raft_entry list \<Rightarrow> raft_view \<Rightarrow> bool" where
  "append_pre es w \<longleftrightarrow> es \<noteq> [] \<and> consecutive (ix (hd es) - 1) es \<and> 0 < ix (hd es) \<and> ix (hd es) \<le> vw_last w + 1"

definition memory_ok :: "'m raft_memory \<Rightarrow> 'm \<Rightarrow> ('m \<Rightarrow> raft_view) \<Rightarrow> bool" where
  "memory_ok rm new view \<longleftrightarrow> view new = empty_view \<and>
     (\<forall>m. rm_InitialState rm m = Inr (vw_hard (view m), sn_ConfState (vw_snap (view m)))) \<and>
     (\<forall>m. rm_Snapshot rm m = Inr (vw_snap (view m))) \<and>
     (\<forall>m. view_wf (view m) \<longrightarrow> rm_FirstIndex rm m = Inr (of_nat (vw_offset (view m) + 1))) \<and>
     (\<forall>m. view_wf (view m) \<longrightarrow> rm_LastIndex rm m = Inr (of_nat (vw_last (view m)))) \<and>
     (\<forall>m lo hi. view_wf (view m) \<longrightarrow> vw_offset (view m) < unat lo \<longrightarrow> lo < hi \<longrightarrow> unat hi \<le> vw_last (view m) + 1 \<longrightarrow>
        rm_Entries rm lo hi (- 1) m = Inr (take (unat hi - unat lo) (drop (unat lo - vw_offset (view m) - 1) (vw_ents (view m))))) \<and>
     (\<forall>m hs. \<exists>m'. rm_SetHardState rm hs m = (None, m') \<and> view m' = (view m)\<lparr>vw_hard := hs\<rparr>) \<and>
     (\<forall>m es. view_wf (view m) \<longrightarrow> append_pre es (view m) \<longrightarrow>
        (\<exists>m'. rm_Append rm es m = (None, m') \<and> view m' = view_Append es (view m))) \<and>
     (\<forall>m sn. sn_Index (vw_snap (view m)) < sn_Index sn \<longrightarrow>
        (\<exists>m'. rm_ApplySnapshot rm sn m = (None, m') \<and> view m' = view_ApplySnapshot sn (view m))) \<and>
     (\<forall>m i cs data. view_wf (view m) \<longrightarrow> sn_Index (vw_snap (view m)) < i \<longrightarrow> vw_offset (view m) \<le> unat i \<longrightarrow> unat i \<le> vw_last (view m) \<longrightarrow>
        (\<exists>m' term. rm_CreateSnapshot rm i cs data m = (Inr (view_CreateSnapshot i term cs data (view m)), m') \<and>
           view m' = (view m)\<lparr>vw_snap := view_CreateSnapshot i term cs data (view m)\<rparr>)) \<and>
     (\<forall>m i. view_wf (view m) \<longrightarrow> vw_offset (view m) < unat i \<longrightarrow> unat i \<le> vw_last (view m) \<longrightarrow>
        (\<exists>m'. rm_Compact rm i m = (None, m') \<and> view m' = view_Compact (unat i) (view m)))"

definition raft_codec_ok :: "raft_codec \<Rightarrow> bool" where
  "raft_codec_ok c \<longleftrightarrow>
     (\<forall>e b. rc_entry c e = Some b \<longrightarrow> b \<noteq> [] \<and> rc_unentry c b = Some e) \<and>
     (\<forall>h b. rc_hard c h = Some b \<longrightarrow> b \<noteq> [] \<and> rc_unhard c b = Some h) \<and>
     (\<forall>k b. rc_conf c k = Some b \<longrightarrow> b \<noteq> [] \<and> rc_unconf c b = Some k) \<and>
     (\<forall>s b. rc_snap c s = Some b \<longrightarrow> b \<noteq> [] \<and> rc_unsnap c b = Some s)"

text \<open>What else a storage relies on: its codec, and a cipher that opens what it sealed.\<close>

definition env_ok :: "'m raft_env \<Rightarrow> ('m \<Rightarrow> raft_view) \<Rightarrow> bool" where
  "env_ok v view \<longleftrightarrow> memory_ok (rv_memory v) (rv_new v) view \<and> raft_codec_ok (rv_codec v) \<and>
     (\<forall>svc p aad c. rv_enc v = Some svc \<longrightarrow> svc_Enabled svc \<longrightarrow> svc_EncryptRecord svc p aad = Some c \<longrightarrow>
        c \<noteq> [] \<and> svc_DecryptRecord svc c aad = Some p) \<and>
     (\<forall>svc p aad. rv_enc v = Some svc \<longrightarrow> \<not> svc_Enabled svc \<longrightarrow>
        (\<exists>h. rc_hard (rv_codec v) h = Some p) \<or> (\<exists>k. rc_conf (rv_codec v) k = Some p) \<or> (\<exists>s. rc_snap (rv_codec v) s = Some p) \<longrightarrow>
        svc_DecryptRecord svc p aad = Some p)"

text \<open>Entries whose frames fit into a slice.\<close>

definition entry_fits :: "'m raft_env \<Rightarrow> raft_entry \<Rightarrow> bool" where
  "entry_fits v e \<longleftrightarrow>
     (\<forall>p aad c. rc_entry (rv_codec v) e = Some p \<longrightarrow> raft_seal v aad p = Some c \<longrightarrow> length c \<le> maxAlloc)"

section \<open>Runs\<close>

definition raft_index :: "('m \<Rightarrow> raft_view) \<Rightarrow> 'm raft_store \<Rightarrow> u64" where
  "raft_index view s = sn_Index (vw_snap (view (rs_mem s)))"

text \<open>
  The calls of raft and of the group: entries behind the snapshot that leave no gap, snapshots that move
  forward, compaction up to the snapshot. All writes go through.
\<close>

inductive raft_runs :: "'m raft_env \<Rightarrow> ('m \<Rightarrow> raft_view) \<Rightarrow> 'm raft_store \<Rightarrow> bool" for v view where
  rr_new: "NewPersistentStorage v no_files = Inr s \<Longrightarrow> raft_runs v view s"
| rr_hard: "raft_runs v view s \<Longrightarrow> raft_SetHardState v True st s = (None, s') \<Longrightarrow> raft_runs v view s'"
| rr_append: "raft_runs v view s \<Longrightarrow> append_pre es (view (rs_mem s)) \<Longrightarrow> unat (raft_index view s) < ix (hd es) \<Longrightarrow>
    \<forall>e \<in> set es. entry_fits v e \<Longrightarrow> raft_Append v WroteAll es s = (None, s') \<Longrightarrow> raft_runs v view s'"
| rr_install: "raft_runs v view s \<Longrightarrow> raft_index view s < sn_Index sn \<Longrightarrow> sn_Index sn \<noteq> - 1 \<Longrightarrow>
    raft_ApplySnapshot v (\<lambda>_. True) sn s = (None, s') \<Longrightarrow> raft_runs v view s'"
| rr_snapshot: "raft_runs v view s \<Longrightarrow> raft_index view s < i \<Longrightarrow> unat i \<le> vw_last (view (rs_mem s)) \<Longrightarrow>
    raft_CreateSnapshot v (\<lambda>_. True) i cs data s = (Inr sn, s') \<Longrightarrow> raft_runs v view s'"
| rr_compact: "raft_runs v view s \<Longrightarrow> vw_offset (view (rs_mem s)) < unat i \<Longrightarrow> i \<le> raft_index view s \<Longrightarrow>
    raft_Compact v True i s = (None, s') \<Longrightarrow> raft_runs v view s'"
| rr_conf: "raft_runs v view s \<Longrightarrow> raft_SetConfState v True cs s = (None, s') \<Longrightarrow> raft_runs v view s'"
| rr_reopen: "raft_runs v view s \<Longrightarrow> NewPersistentStorage v (rs_files s) = Inr s' \<Longrightarrow> raft_runs v view s'"

end
