(* ===== verification/Raft_Group.thy ===== *)
theory Raft_Group
  imports Raft_System Raft_Memory
begin

text \<open>
  A raft group (\<open>internal/clustering/consensus/group.go\<close>): what it does with each \<open>raft.Ready\<close>, with the
  proposals and reads that wait for it, when it takes a snapshot of its state machine, and how it comes back
  from its storage. The raft node itself is \<open>go.etcd.io/raft\<close>: its hidden state is \<open>'n\<close>, and the calls that
  return something the group uses are parameters. The channel a proposal or a read waits on is a number; a
  channel holds the one outcome that was sent to it. Timings, tickers and logging are left out, and the
  methods that only hold \<open>g.mu\<close> are single steps.
\<close>

section \<open>State\<close>

record raft_message =
  mg_Type :: nat
  mg_From :: u64
  mg_To :: u64
  mg_Term :: u64
  mg_LogTerm :: u64
  mg_Index :: u64
  mg_Commit :: u64
  mg_Reject :: bool
  mg_RejectHint :: u64
  mg_other :: bytes

definition MsgAppResp :: nat where "MsgAppResp = 4"
definition MsgHeartbeat :: nat where "MsgHeartbeat = 8"

record raft_ready =
  rd_SoftState :: "u64 option"
  rd_ReadStates :: "(string \<times> u64) list"
  rd_HardState :: hard_state
  rd_Entries :: "raft_entry list"
  rd_Snapshot :: raft_snapshot
  rd_CommittedEntries :: "raft_entry list"
  rd_Messages :: "raft_message list"

datatype group_error =
    StorageError raft_error
  | CommandError command_error
  | ErrNoLeader
  | ErrNotLeader
  | ErrCtxDone ctx_error
  | DuplicateCommand
  | NotRestorable
  | NotSnapshotter
  | NothingApplied
  | NotApplied u64 u64
  | BadConfChange
  | BadGroupOptions
  | PeerZero
  | NodePanic
  | BehindBarrier

type_synonym proposal_outcome = "group_error + u64 \<times> u64"

record read_diagnostics =
  dg_Attempts :: nat
  dg_Successes :: nat
  dg_Failures :: nat
  dg_Timeouts :: nat
  dg_NoLeader :: nat
  dg_NotLeader :: nat
  dg_ApplyWaitFailures :: nat

record ('m, 'a, 'n) raft_group =
  g_nodeID :: u64
  g_peers :: "u64 list"
  g_partitionCount :: u32
  g_joinExisting :: bool
  g_storage :: "'m raft_store"
  g_sm :: 'a
  g_node :: 'n
  g_leader :: u64
  g_term :: u64
  g_commitIndex :: u64
  g_appliedIndex :: u64
  g_waiters :: "string \<rightharpoonup> nat"
  g_readWaiters :: "string \<rightharpoonup> nat"
  g_outcomes :: "nat \<rightharpoonup> proposal_outcome"
  g_channels :: nat
  g_readSeq :: u64
  g_diagnostics :: read_diagnostics
  g_sent :: "raft_message list"

record ('m, 'a, 'n) group_env =
  ge_store :: "'m raft_env"
  ge_cmd :: command_env
  ge_sm :: "'a state_machine"
  ge_applyConfChange :: "entry_type \<Rightarrow> bytes \<Rightarrow> 'n \<Rightarrow> (conf_state \<times> 'n) option"
  ge_propose :: "bytes \<Rightarrow> 'n \<Rightarrow> group_error option \<times> 'n"
  ge_readIndex :: "string \<Rightarrow> 'n \<Rightarrow> group_error option \<times> 'n"
  ge_startNode :: "u64 list \<Rightarrow> 'n option"
  ge_restartNode :: "'m raft_store \<Rightarrow> u64 \<Rightarrow> 'n option"

definition IsEmptyHardState :: "hard_state \<Rightarrow> bool" where
  "IsEmptyHardState hs \<longleftrightarrow> hs = \<lparr>hs_Term = 0, hs_Vote = 0, hs_Commit = 0\<rparr>"

definition IsEmptySnap :: "raft_snapshot \<Rightarrow> bool" where
  "IsEmptySnap sn \<longleftrightarrow> sn_Index sn = 0"

definition emptyConfState :: "conf_state \<Rightarrow> bool" where
  "emptyConfState cs \<longleftrightarrow> cs_Voters cs = [] \<and> cs_Learners cs = [] \<and> cs_VotersOutgoing cs = [] \<and> cs_LearnersNext cs = []
     \<and> \<not> cs_AutoLeave cs"

section \<open>Waiters\<close>

definition completeWaiter ::
  "string \<Rightarrow> proposal_outcome \<Rightarrow> ('m, 'a, 'n) raft_group \<Rightarrow> ('m, 'a, 'n) raft_group" where
  "completeWaiter commandID out g =
     (if commandID = [] then g
      else (case g_waiters g commandID of
              None \<Rightarrow> g
            | Some ch \<Rightarrow> g\<lparr>g_waiters := (g_waiters g)(commandID := None), g_outcomes := (g_outcomes g)(ch \<mapsto> out)\<rparr>))"

definition completeReadWaiter ::
  "string \<Rightarrow> proposal_outcome \<Rightarrow> ('m, 'a, 'n) raft_group \<Rightarrow> ('m, 'a, 'n) raft_group" where
  "completeReadWaiter readCtx out g =
     (if readCtx = [] then g
      else (case g_readWaiters g readCtx of
              None \<Rightarrow> g
            | Some ch \<Rightarrow> g\<lparr>g_readWaiters := (g_readWaiters g)(readCtx := None), g_outcomes := (g_outcomes g)(ch \<mapsto> out)\<rparr>))"

definition send_all :: "(string \<rightharpoonup> nat) \<Rightarrow> proposal_outcome \<Rightarrow> (nat \<rightharpoonup> proposal_outcome) \<Rightarrow> (nat \<rightharpoonup> proposal_outcome)" where
  "send_all ws out os = (\<lambda>ch. if ch \<in> ran ws then Some out else os ch)"

definition failReadWaiters :: "group_error \<Rightarrow> ('m, 'a, 'n) raft_group \<Rightarrow> ('m, 'a, 'n) raft_group" where
  "failReadWaiters err g =
     g\<lparr>g_readWaiters := Map.empty, g_outcomes := send_all (g_readWaiters g) (Inl err) (g_outcomes g)\<rparr>"

definition failWaiters :: "group_error \<Rightarrow> ('m, 'a, 'n) raft_group \<Rightarrow> ('m, 'a, 'n) raft_group" where
  "failWaiters err g =
     g\<lparr>g_waiters := Map.empty, g_readWaiters := Map.empty,
       g_outcomes := send_all (g_readWaiters g) (Inl err) (send_all (g_waiters g) (Inl err) (g_outcomes g))\<rparr>"

text \<open>\<open>run\<close> stops when the context is done: only the reads are told.\<close>

definition run_exit :: "('m, 'a, 'n) raft_group \<Rightarrow> ('m, 'a, 'n) raft_group" where
  "run_exit g = failReadWaiters (ErrCtxDone Canceled) g"

section \<open>Proposals\<close>

text \<open>\<open>Propose\<close> up to the wait on its channel, which is returned, and the end of the wait by its context.\<close>

definition Propose ::
  "('m, 'a, 'n) group_env \<Rightarrow> raft_command \<Rightarrow> ('m, 'a, 'n) raft_group \<Rightarrow> (group_error + nat) \<times> ('m, 'a, 'n) raft_group" where
  "Propose ge c g =
     (case Validate (ge_cmd ge) (g_partitionCount g) c of
        Some e \<Rightarrow> (Inl (CommandError e), g)
      | None \<Rightarrow>
          (case EncodeCommand (ge_cmd ge) c of
             Inl e \<Rightarrow> (Inl (CommandError e), g)
           | Inr data \<Rightarrow>
               if g_waiters g (cmd_CommandID c) \<noteq> None then (Inl DuplicateCommand, g)
               else
                 (let ch = g_channels g;
                      g1 = g\<lparr>g_waiters := (g_waiters g)(cmd_CommandID c \<mapsto> ch), g_channels := ch + 1\<rparr>
                  in case ge_propose ge data (g_node g1) of
                       (Some err, n) \<Rightarrow> (Inl err, completeWaiter (cmd_CommandID c) (Inl err) (g1\<lparr>g_node := n\<rparr>))
                     | (None, n) \<Rightarrow> (Inr ch, g1\<lparr>g_node := n\<rparr>))))"

definition Propose_ctx_done ::
  "ctx_error \<Rightarrow> string \<Rightarrow> ('m, 'a, 'n) raft_group \<Rightarrow> group_error \<times> ('m, 'a, 'n) raft_group" where
  "Propose_ctx_done e commandID g = (ErrCtxDone e, completeWaiter commandID (Inl (ErrCtxDone e)) g)"

section \<open>Applying entries\<close>

definition alreadyApplied :: "u64 \<Rightarrow> ('m, 'a, 'n) raft_group \<Rightarrow> bool" where
  "alreadyApplied i g \<longleftrightarrow> i \<noteq> 0 \<and> i \<le> g_appliedIndex g"

definition markApplied :: "u64 \<Rightarrow> ('m, 'a, 'n) raft_group \<Rightarrow> ('m, 'a, 'n) raft_group" where
  "markApplied i g = (if i > g_appliedIndex g then g\<lparr>g_appliedIndex := i\<rparr> else g)"

definition apply_conf_change ::
  "('m, 'a, 'n) group_env \<Rightarrow> bool \<Rightarrow> raft_entry \<Rightarrow> ('m, 'a, 'n) raft_group \<Rightarrow> group_error option \<times> ('m, 'a, 'n) raft_group" where
  "apply_conf_change ge ok e g =
     (case ge_applyConfChange ge (re_Type e) (re_Data e) (g_node g) of
        None \<Rightarrow> (Some BadConfChange, g)
      | Some (cs, n) \<Rightarrow>
          (case raft_SetConfState (ge_store ge) ok cs (g_storage g) of
             (Some err, s) \<Rightarrow> (Some (StorageError err), g\<lparr>g_node := n, g_storage := s\<rparr>)
           | (None, s) \<Rightarrow> (None, markApplied (re_Index e) (g\<lparr>g_node := n, g_storage := s\<rparr>))))"

definition apply_command ::
  "('m, 'a, 'n) group_env \<Rightarrow> raft_entry \<Rightarrow> ('m, 'a, 'n) raft_group \<Rightarrow> group_error option \<times> ('m, 'a, 'n) raft_group" where
  "apply_command ge e g =
     (let (err, commandID, g1) =
            (case DecodeCommand (ge_cmd ge) (re_Data e) of
               Inl err \<Rightarrow> (Some err, [], g)
             | Inr c \<Rightarrow>
                 (case sm_ApplyCommand (ge_sm ge) \<lparr>ac_RaftIndex = re_Index e, ac_RaftTerm = re_Term e, ac_Replay = False\<rparr> c (g_sm g) of
                    (err, a) \<Rightarrow> (err, cmd_CommandID c, g\<lparr>g_sm := a\<rparr>)));
          g2 = (case err of None \<Rightarrow> g1 | Some er \<Rightarrow> failReadWaiters (CommandError er) g1);
          g3 = completeWaiter commandID
                 (case err of None \<Rightarrow> Inr (re_Index e, re_Term e) | Some er \<Rightarrow> Inl (CommandError er)) g2
      in if IsFatalApplyError err then (map_option CommandError err, g3) else (None, markApplied (re_Index e) g3))"

definition applyEntry ::
  "('m, 'a, 'n) group_env \<Rightarrow> bool \<Rightarrow> raft_entry \<Rightarrow> ('m, 'a, 'n) raft_group \<Rightarrow> group_error option \<times> ('m, 'a, 'n) raft_group" where
  "applyEntry ge ok e g =
     (if alreadyApplied (re_Index e) g then (None, g)
      else if re_Type e = EntryConfChange \<or> re_Type e = EntryConfChangeV2 then apply_conf_change ge ok e g
      else if re_Type e \<noteq> EntryNormal \<or> re_Data e = [] then (None, markApplied (re_Index e) g)
      else apply_command ge e g)"

text \<open>The committed entries of a ready, up to the first error; \<open>ok\<close> says which writes go through.\<close>

fun applyEntries ::
  "('m, 'a, 'n) group_env \<Rightarrow> (u64 \<Rightarrow> bool) \<Rightarrow> raft_entry list \<Rightarrow> ('m, 'a, 'n) raft_group \<Rightarrow>
   group_error option \<times> ('m, 'a, 'n) raft_group" where
  "applyEntries ge ok [] g = (None, g)"
| "applyEntries ge ok (e # es) g =
     (case applyEntry ge (ok (re_Index e)) e g of
        (Some err, g') \<Rightarrow> (Some err, g')
      | (None, g') \<Rightarrow> applyEntries ge ok es g')"

section \<open>The state machine's snapshot\<close>

definition restoreStateMachineSnapshot :: "'a state_machine \<Rightarrow> raft_snapshot \<Rightarrow> 'a \<Rightarrow> group_error option \<times> 'a" where
  "restoreStateMachineSnapshot sm sn a =
     (if IsEmptySnap sn \<or> sn_Data sn = [] then (None, a)
      else (case sm_RestoreSnapshot sm of
              None \<Rightarrow> (Some NotRestorable, a)
            | Some restore \<Rightarrow> (case restore (sn_Data sn) a of
                                 (Some e, a') \<Rightarrow> (Some (CommandError e), a')
                               | (None, a') \<Rightarrow> (None, a'))))"

section \<open>A ready\<close>

text \<open>Which of the writes of a ready go through.\<close>

record ready_io =
  io_snap :: "nat \<Rightarrow> bool"
  io_hard :: bool
  io_append :: write_outcome
  io_conf :: "u64 \<Rightarrow> bool"

definition ready_soft :: "raft_ready \<Rightarrow> ('m, 'a, 'n) raft_group \<Rightarrow> ('m, 'a, 'n) raft_group" where
  "ready_soft rd g =
     (case rd_SoftState rd of
        None \<Rightarrow> g
      | Some lead \<Rightarrow>
          (let g1 = g\<lparr>g_leader := lead\<rparr> in if lead \<noteq> g_nodeID g then failReadWaiters ErrNotLeader g1 else g1))"

definition ready_snapshot ::
  "('m, 'a, 'n) group_env \<Rightarrow> ready_io \<Rightarrow> raft_ready \<Rightarrow> ('m, 'a, 'n) raft_group \<Rightarrow> group_error option \<times> ('m, 'a, 'n) raft_group" where
  "ready_snapshot ge io rd g =
     (if IsEmptySnap (rd_Snapshot rd) then (None, g)
      else (case raft_ApplySnapshot (ge_store ge) (io_snap io) (rd_Snapshot rd) (g_storage g) of
              (Some e, s) \<Rightarrow> (Some (StorageError e), g\<lparr>g_storage := s\<rparr>)
            | (None, s) \<Rightarrow>
                (case restoreStateMachineSnapshot (ge_sm ge) (rd_Snapshot rd) (g_sm g) of
                   (Some e, a) \<Rightarrow> (Some e, g\<lparr>g_storage := s, g_sm := a\<rparr>)
                 | (None, a) \<Rightarrow> (None, markApplied (sn_Index (rd_Snapshot rd)) (g\<lparr>g_storage := s, g_sm := a\<rparr>)))))"

definition ready_hard ::
  "('m, 'a, 'n) group_env \<Rightarrow> ready_io \<Rightarrow> raft_ready \<Rightarrow> ('m, 'a, 'n) raft_group \<Rightarrow> group_error option \<times> ('m, 'a, 'n) raft_group" where
  "ready_hard ge io rd g =
     (let hs = rd_HardState rd in
      if IsEmptyHardState hs then (None, g)
      else (case raft_SetHardState (ge_store ge) (io_hard io) hs (g_storage g) of
              (Some e, s) \<Rightarrow> (Some (StorageError e), g\<lparr>g_storage := s\<rparr>)
            | (None, s) \<Rightarrow>
                (None, g\<lparr>g_storage := s,
                         g_term := (if hs_Term hs \<noteq> 0 then hs_Term hs else g_term g),
                         g_commitIndex := (if hs_Commit hs \<noteq> 0 then hs_Commit hs else g_commitIndex g)\<rparr>)))"

definition ready_entries ::
  "('m, 'a, 'n) group_env \<Rightarrow> ready_io \<Rightarrow> raft_ready \<Rightarrow> ('m, 'a, 'n) raft_group \<Rightarrow> group_error option \<times> ('m, 'a, 'n) raft_group" where
  "ready_entries ge io rd g =
     (if rd_Entries rd = [] then (None, g)
      else (case raft_Append (ge_store ge) (io_append io) (rd_Entries rd) (g_storage g) of
              (Some e, s) \<Rightarrow> (Some (StorageError e), g\<lparr>g_storage := s\<rparr>)
            | (None, s) \<Rightarrow> (None, g\<lparr>g_storage := s\<rparr>)))"

fun ready_reads :: "(string \<times> u64) list \<Rightarrow> ('m, 'a, 'n) raft_group \<Rightarrow> ('m, 'a, 'n) raft_group" where
  "ready_reads [] g = g"
| "ready_reads ((ctx, i) # rs) g = ready_reads rs (completeReadWaiter ctx (Inr (i, g_term g)) g)"

definition processReady ::
  "('m, 'a, 'n) group_env \<Rightarrow> ready_io \<Rightarrow> raft_ready \<Rightarrow> ('m, 'a, 'n) raft_group \<Rightarrow> bool \<times> ('m, 'a, 'n) raft_group" where
  "processReady ge io rd g0 =
     (case ready_snapshot ge io rd (ready_soft rd g0) of
        (Some e, g) \<Rightarrow> (False, failWaiters e g)
      | (None, g1) \<Rightarrow>
          (case ready_hard ge io rd g1 of
             (Some e, g) \<Rightarrow> (False, failWaiters e g)
           | (None, g2) \<Rightarrow>
               (case ready_entries ge io rd g2 of
                  (Some e, g) \<Rightarrow> (False, failWaiters e g)
                | (None, g3) \<Rightarrow>
                    (case applyEntries ge (io_conf io) (rd_CommittedEntries rd) (g3\<lparr>g_sent := g_sent g3 @ rd_Messages rd\<rparr>) of
                       (Some e, g) \<Rightarrow> (False, failWaiters e g)
                     | (None, g4) \<Rightarrow> (True, ready_reads (rd_ReadStates rd) g4)))))"

section \<open>Starting\<close>

definition hasPersistentRaftState :: "'m raft_env \<Rightarrow> 'm raft_store \<Rightarrow> bool" where
  "hasPersistentRaftState v s =
     ((case raft_InitialState v s of Inr (hs, _) \<Rightarrow> \<not> IsEmptyHardState hs | Inl _ \<Rightarrow> False)
      \<or> (case rm_LastIndex (rv_memory v) (rs_mem s) of Inr lst \<Rightarrow> lst > 0 | Inl _ \<Rightarrow> False))"

text \<open>The replay loop: an error that is not fatal is dropped; \<open>applied\<close> is the index reached.\<close>

fun replay_entries ::
  "command_env \<Rightarrow> 'a state_machine \<Rightarrow> u32 \<Rightarrow> raft_entry list \<Rightarrow> u64 \<Rightarrow> 'a \<Rightarrow> (group_error option \<times> u64) \<times> 'a" where
  "replay_entries ce sm count [] applied a = ((None, applied), a)"
| "replay_entries ce sm count (e # es) applied a =
     (if re_Type e = EntryNormal \<and> re_Data e \<noteq> [] then
        (case DecodeCommand ce (re_Data e) of
           Inl err \<Rightarrow> ((Some (CommandError err), applied), a)
         | Inr c \<Rightarrow>
             (case Validate ce count c of
                Some err \<Rightarrow> ((Some (CommandError err), applied), a)
              | None \<Rightarrow>
                  (case sm_ApplyCommand sm \<lparr>ac_RaftIndex = re_Index e, ac_RaftTerm = re_Term e, ac_Replay = True\<rparr> c a of
                     (err, a') \<Rightarrow>
                       if IsFatalApplyError err then ((map_option CommandError err, applied), a')
                       else replay_entries ce sm count es (max applied (re_Index e)) a')))
      else replay_entries ce sm count es (max applied (re_Index e)) a)"

text \<open>
  \<open>restoreSnapshotAndReplayCommittedEntries\<close>. The memory storage never answers that its snapshot is
  temporarily unavailable, so every error of \<open>Snapshot\<close> ends it.
\<close>

definition restoreSnapshotAndReplayCommittedEntries ::
  "'m raft_env \<Rightarrow> command_env \<Rightarrow> 'a state_machine \<Rightarrow> u32 \<Rightarrow> 'm raft_store \<Rightarrow> 'a \<Rightarrow> (group_error option \<times> u64) \<times> 'a" where
  "restoreSnapshotAndReplayCommittedEntries v ce sm count s a =
     (case raft_InitialState v s of
        Inl e \<Rightarrow> ((Some (StorageError e), 0), a)
      | Inr (hs, _) \<Rightarrow>
          (case rm_Snapshot (rv_memory v) (rs_mem s) of
             Inl e \<Rightarrow> ((Some (StorageError e), 0), a)
           | Inr sn \<Rightarrow>
               (case (if IsEmptySnap sn then (None, a) else restoreStateMachineSnapshot sm sn a) of
                  (Some e, a') \<Rightarrow> ((Some e, 0), a')
                | (None, a') \<Rightarrow>
                    (let applied = (if IsEmptySnap sn then 0 else sn_Index sn) in
                     if hs_Commit hs = 0 then ((None, applied), a')
                     else
                       (case rm_FirstIndex (rv_memory v) (rs_mem s) of
                          Inl e \<Rightarrow> ((Some (StorageError e), applied), a')
                        | Inr first0 \<Rightarrow>
                            (let first = (if applied > 0 \<and> first0 \<le> applied then applied + 1 else first0) in
                             case rm_LastIndex (rv_memory v) (rs_mem s) of
                               Inl e \<Rightarrow> ((Some (StorageError e), applied), a')
                             | Inr lst \<Rightarrow>
                                 (let commit = min (hs_Commit hs) lst in
                                  if commit < first then ((None, applied), a')
                                  else
                                    (case rm_Entries (rv_memory v) first (commit + 1) (- 1) (rs_mem s) of
                                       Inl e \<Rightarrow> ((Some (StorageError e), applied), a')
                                     | Inr es \<Rightarrow>
                                         (case replay_entries ce sm count es applied a' of
                                            ((Some e, k), a2) \<Rightarrow> ((Some e, k), a2)
                                          | ((None, k), a2) \<Rightarrow> ((None, max k commit), a2))))))))))"

record group_options =
  go_ID :: string
  go_NodeID :: u64
  go_Peers :: "u64 list"
  go_PartitionCount :: u32
  go_ReplayCommittedEntries :: bool
  go_JoinExisting :: bool

text \<open>\<open>StartGroup\<close> on a storage and a state machine; a \<open>None\<close> of the node is a panic of \<open>go.etcd.io/raft\<close>.\<close>

definition StartGroup ::
  "('m, 'a, 'n) group_env \<Rightarrow> group_options \<Rightarrow> 'm raft_store \<Rightarrow> 'a \<Rightarrow> group_error + ('m, 'a, 'n) raft_group" where
  "StartGroup ge opts s a =
     (if go_ID opts = [] \<or> go_NodeID opts = 0 \<or> go_Peers opts = [] then Inl BadGroupOptions
      else
        (case (if go_ReplayCommittedEntries opts
               then restoreSnapshotAndReplayCommittedEntries (ge_store ge) (ge_cmd ge) (ge_sm ge) (go_PartitionCount opts) s a
               else ((None, 0), a)) of
           ((Some e, _), _) \<Rightarrow> Inl e
         | ((None, applied), a') \<Rightarrow>
             (case raft_InitialState (ge_store ge) s of
                Inl e \<Rightarrow> Inl (StorageError e)
              | Inr (hs, _) \<Rightarrow>
                  if 0 \<in> set (go_Peers opts) then Inl PeerZero
                  else
                    (case (if hasPersistentRaftState (ge_store ge) s then ge_restartNode ge s applied
                           else ge_startNode ge (go_Peers opts)) of
                       None \<Rightarrow> Inl NodePanic
                     | Some n \<Rightarrow>
                         Inr \<lparr>g_nodeID = go_NodeID opts, g_peers = go_Peers opts, g_partitionCount = go_PartitionCount opts,
                              g_joinExisting = go_JoinExisting opts, g_storage = s, g_sm = a', g_node = n, g_leader = 0,
                              g_term = hs_Term hs, g_commitIndex = hs_Commit hs, g_appliedIndex = applied,
                              g_waiters = Map.empty, g_readWaiters = Map.empty, g_outcomes = Map.empty, g_channels = 0,
                              g_readSeq = 0, g_diagnostics = \<lparr>dg_Attempts = 0, dg_Successes = 0, dg_Failures = 0,
                              dg_Timeouts = 0, dg_NoLeader = 0, dg_NotLeader = 0, dg_ApplyWaitFailures = 0\<rparr>, g_sent = []\<rparr>))))"

section \<open>Snapshots and progress\<close>

definition StorageProgress :: "('m, 'a, 'n) group_env \<Rightarrow> ('m, 'a, 'n) raft_group \<Rightarrow> u64 \<times> u64" where
  "StorageProgress ge g =
     ((case rm_LastIndex (rv_memory (ge_store ge)) (rs_mem (g_storage g)) of Inr lst \<Rightarrow> lst | Inl _ \<Rightarrow> 0),
      (case rm_Snapshot (rv_memory (ge_store ge)) (rs_mem (g_storage g)) of Inr sn \<Rightarrow> sn_Index sn | Inl _ \<Rightarrow> 0))"

definition group_CreateSnapshot ::
  "('m, 'a, 'n) group_env \<Rightarrow> (nat \<Rightarrow> bool) \<Rightarrow> bool \<Rightarrow> u64 \<Rightarrow> bool \<Rightarrow> ('m, 'a, 'n) raft_group \<Rightarrow>
   (group_error + u64) \<times> ('m, 'a, 'n) raft_group" where
  "group_CreateSnapshot ge ok ok_log index0 compact g =
     (case sm_Snapshot (ge_sm ge) of
        None \<Rightarrow> (Inl NotSnapshotter, g)
      | Some snapshot \<Rightarrow>
          (let applied = g_appliedIndex g; index = (if index0 = 0 then applied else index0) in
           if index = 0 then (Inl NothingApplied, g)
           else if index \<noteq> applied then (Inl (NotApplied index applied), g)
           else
             (case snapshot (g_sm g) of
                Inl e \<Rightarrow> (Inl (CommandError e), g)
              | Inr data \<Rightarrow>
                  (case raft_InitialState (ge_store ge) (g_storage g) of
                     Inl e \<Rightarrow> (Inl (StorageError e), g)
                   | Inr (_, cs0) \<Rightarrow>
                       (let cs = (if emptyConfState cs0 then cs0\<lparr>cs_Voters := g_peers g\<rparr> else cs0) in
                        case raft_CreateSnapshot (ge_store ge) ok index (Some cs) data (g_storage g) of
                          (Inl e, s) \<Rightarrow> (Inl (StorageError e), g\<lparr>g_storage := s\<rparr>)
                        | (Inr sn, s) \<Rightarrow>
                            if compact then
                              (case raft_Compact (ge_store ge) ok_log index s of
                                 (Some e, s') \<Rightarrow> (Inl (StorageError e), g\<lparr>g_storage := s'\<rparr>)
                               | (None, s') \<Rightarrow> (Inr (sn_Index sn), g\<lparr>g_storage := s'\<rparr>))
                            else (Inr (sn_Index sn), g\<lparr>g_storage := s\<rparr>))))))"

record backup_checkpoint =
  bk_Leader :: u64
  bk_Term :: u64
  bk_BarrierIndex :: u64
  bk_CommitIndex :: u64
  bk_AppliedIndex :: u64
  bk_LastIndex :: u64
  bk_SnapshotIndex :: u64

text \<open>
  \<open>AcquireBackupFreeze\<close>: \<open>waited\<close> is what \<open>WaitApplied\<close> returned, \<open>ctx\<close> the context when \<open>backupMu\<close> was to be
  taken, \<open>flushed\<close> what the syncs of \<open>Flush\<close> returned.
\<close>

definition AcquireBackupFreeze ::
  "('m, 'a, 'n) group_env \<Rightarrow> ctx \<Rightarrow> ctx \<Rightarrow> raft_error option \<Rightarrow> u64 \<Rightarrow> ('m, 'a, 'n) raft_group \<Rightarrow> group_error + backup_checkpoint" where
  "AcquireBackupFreeze ge waited ctx flushed barrier g =
     (if waited \<noteq> None then Inl (ErrCtxDone (the waited))
      else if ctx \<noteq> None then Inl (ErrCtxDone (the ctx))
      else if flushed \<noteq> None then Inl (StorageError (the flushed))
      else if g_appliedIndex g < barrier then Inl BehindBarrier
      else Inr \<lparr>bk_Leader = g_leader g, bk_Term = g_term g, bk_BarrierIndex = barrier, bk_CommitIndex = g_commitIndex g,
               bk_AppliedIndex = g_appliedIndex g, bk_LastIndex = fst (StorageProgress ge g),
               bk_SnapshotIndex = snd (StorageProgress ge g)\<rparr>)"

section \<open>Messages\<close>

text \<open>
  \<open>nudgeLeaderToProbeFollower\<close> and \<open>Step\<close>: the message that is handed to the raft node, and what was sent.
  The two background recoveries of a joining member are not modelled.
\<close>

definition nudgeLeaderToProbeFollower ::
  "('m, 'a, 'n) group_env \<Rightarrow> raft_message \<Rightarrow> u64 \<Rightarrow> u64 \<Rightarrow> ('m, 'a, 'n) raft_group \<Rightarrow> ('m, 'a, 'n) raft_group" where
  "nudgeLeaderToProbeFollower ge m leaderCommit localLast g =
     (if mg_From m = 0 then g
      else
        (let term = (if localLast > 0 then
                       (case rm_Term (rv_memory (ge_store ge)) localLast (rs_mem (g_storage g)) of Inr t \<Rightarrow> t | Inl _ \<Rightarrow> 0)
                     else 0)
         in g\<lparr>g_sent := g_sent g @ [\<lparr>mg_Type = MsgAppResp, mg_From = g_nodeID g, mg_To = mg_From m, mg_Term = mg_Term m,
                 mg_LogTerm = term, mg_Index = leaderCommit, mg_Commit = 0, mg_Reject = True, mg_RejectHint = localLast,
                 mg_other = []\<rparr>]\<rparr>))"

definition group_Step ::
  "('m, 'a, 'n) group_env \<Rightarrow> raft_message \<Rightarrow> ('m, 'a, 'n) raft_group \<Rightarrow> raft_message \<times> ('m, 'a, 'n) raft_group" where
  "group_Step ge m g =
     (case rm_LastIndex (rv_memory (ge_store ge)) (rs_mem (g_storage g)) of
        Inl _ \<Rightarrow> (m, g)
      | Inr lst \<Rightarrow>
          if mg_Type m = MsgHeartbeat \<and> mg_Commit m > 0 \<and> mg_Commit m > lst
          then (m\<lparr>mg_Commit := lst\<rparr>, nudgeLeaderToProbeFollower ge (m\<lparr>mg_Commit := lst\<rparr>) (mg_Commit m) lst g)
          else (m, g))"

section \<open>Reads\<close>

definition record_read_failure :: "group_error \<Rightarrow> read_diagnostics \<Rightarrow> read_diagnostics" where
  "record_read_failure err d =
     d\<lparr>dg_Failures := dg_Failures d + 1,
       dg_Timeouts := (case err of ErrCtxDone _ \<Rightarrow> dg_Timeouts d + 1 | _ \<Rightarrow> dg_Timeouts d),
       dg_NoLeader := (if err = ErrNoLeader then dg_NoLeader d + 1 else dg_NoLeader d),
       dg_NotLeader := (if err = ErrNotLeader then dg_NotLeader d + 1 else dg_NotLeader d)\<rparr>"

definition record_apply_wait_failure :: "group_error \<Rightarrow> read_diagnostics \<Rightarrow> read_diagnostics" where
  "record_apply_wait_failure err d =
     d\<lparr>dg_Failures := dg_Failures d + 1, dg_ApplyWaitFailures := dg_ApplyWaitFailures d + 1,
       dg_Timeouts := (case err of ErrCtxDone _ \<Rightarrow> dg_Timeouts d + 1 | _ \<Rightarrow> dg_Timeouts d)\<rparr>"

text \<open>\<open>beginReadIndex\<close>: the request context and the channel of a read.\<close>

definition beginReadIndex ::
  "('m, 'a, 'n) raft_group \<Rightarrow> (group_error + string \<times> nat) \<times> ('m, 'a, 'n) raft_group" where
  "beginReadIndex g0 =
     (let d = (g_diagnostics g0)\<lparr>dg_Attempts := dg_Attempts (g_diagnostics g0) + 1\<rparr>;
          g = g0\<lparr>g_diagnostics := d\<rparr>
      in if g_leader g = 0 then (Inl ErrNoLeader, g\<lparr>g_diagnostics := record_read_failure ErrNoLeader d\<rparr>)
         else if g_leader g \<noteq> g_nodeID g then (Inl ErrNotLeader, g\<lparr>g_diagnostics := record_read_failure ErrNotLeader d\<rparr>)
         else
           (let i = g_readSeq g + 1;
                ctx = ''read-'' @ dec_string (unat (g_nodeID g)) @ ''-'' @ dec_string (unat i);
                ch = g_channels g
            in (Inr (ctx, ch), g\<lparr>g_readSeq := i, g_readWaiters := (g_readWaiters g)(ctx \<mapsto> ch), g_channels := ch + 1\<rparr>)))"

definition LinearizableRead_begin ::
  "('m, 'a, 'n) group_env \<Rightarrow> ctx \<Rightarrow> ('m, 'a, 'n) raft_group \<Rightarrow> (group_error + string \<times> nat) \<times> ('m, 'a, 'n) raft_group" where
  "LinearizableRead_begin ge ctx g =
     (case ctx of
        Some e \<Rightarrow> (Inl (ErrCtxDone e), g)
      | None \<Rightarrow>
          (case beginReadIndex g of
             (Inl e, g1) \<Rightarrow> (Inl e, g1)
           | (Inr (readCtx, ch), g1) \<Rightarrow>
               (case ge_readIndex ge readCtx (g_node g1) of
                  (Some err, n) \<Rightarrow>
                    (Inl err, (completeReadWaiter readCtx (Inl err) (g1\<lparr>g_node := n\<rparr>))
                                \<lparr>g_diagnostics := record_read_failure err (g_diagnostics g1)\<rparr>)
                | (None, n) \<Rightarrow> (Inr (readCtx, ch), g1\<lparr>g_node := n\<rparr>))))"

text \<open>
  The rest of \<open>LinearizableRead\<close>, tried again until it answers: \<^const>\<open>None\<close> while it waits for its channel or
  for the entries up to its index. \<open>ctx\<close> is the state of the caller's context and \<open>gctx\<close> that of the group's,
  which ends the wait for the channel too; when both are done, the caller's answers.
\<close>

definition LinearizableRead_poll ::
  "ctx \<Rightarrow> ctx \<Rightarrow> string \<Rightarrow> nat \<Rightarrow> ('m, 'a, 'n) raft_group \<Rightarrow> proposal_outcome option \<times> ('m, 'a, 'n) raft_group" where
  "LinearizableRead_poll ctx gctx readCtx ch g =
     (case g_outcomes g ch of
        Some (Inl err) \<Rightarrow> (Some (Inl err), g\<lparr>g_diagnostics := record_read_failure err (g_diagnostics g)\<rparr>)
      | Some (Inr (i, t)) \<Rightarrow>
          if i = 0 \<or> g_appliedIndex g \<ge> i then
            (Some (Inr (i, t)), g\<lparr>g_diagnostics := (g_diagnostics g)\<lparr>dg_Successes := dg_Successes (g_diagnostics g) + 1\<rparr>\<rparr>)
          else
            (case ctx of
               None \<Rightarrow> (None, g)
             | Some e \<Rightarrow> (Some (Inl (ErrCtxDone e)),
                          g\<lparr>g_diagnostics := record_apply_wait_failure (ErrCtxDone e) (g_diagnostics g)\<rparr>))
      | None \<Rightarrow>
          (case (case ctx of None \<Rightarrow> gctx | Some e \<Rightarrow> Some e) of
             None \<Rightarrow> (None, g)
           | Some e \<Rightarrow> (Some (Inl (ErrCtxDone e)),
                        (completeReadWaiter readCtx (Inl (ErrCtxDone e)) g)
                          \<lparr>g_diagnostics := record_read_failure (ErrCtxDone e) (g_diagnostics g)\<rparr>)))"

end
