(* ===== verification/Raft_Facts.thy ===== *)
theory Raft_Facts
  imports Raft_Memory
begin

text \<open>
  The files of a raft storage and its memory: the log of entries reads back, every operation keeps files and
  memory in step, and loading the files gives the storage back.
\<close>

section \<open>Consecutive entries\<close>

lemma consecutive_append: "consecutive i (xs @ ys) \<longleftrightarrow>
    (if ys = [] then consecutive i xs else consecutive i xs \<and> consecutive (i + length xs) ys)"
proof (induction xs arbitrary: i)
  case Nil
  then show ?case
  proof (cases ys)
    case (Cons y zs)
    have "ix y < 2 ^ 64" using unsigned_less [where 'b = 64 and 'a = nat, of "re_Index y"] by simp
    with Cons show ?thesis by auto
  qed simp
next
  case (Cons x xs)
  then show ?case by (auto simp: add.assoc)
qed

lemma consecutive_last: "consecutive i es \<Longrightarrow> i + length es + 1 < 2 ^ 64"
  by (induction i es rule: consecutive.induct) auto

lemma consecutive_ix: "consecutive i es \<Longrightarrow> k < length es \<Longrightarrow> ix (es ! k) = i + 1 + k"
  by (induction i es arbitrary: k rule: consecutive.induct) (auto simp: nth_Cons split: nat.split)

lemma consecutive_hd: "consecutive i es \<Longrightarrow> es \<noteq> [] \<Longrightarrow> ix (hd es) = i + 1"
  by (cases es) auto

lemma consecutive_end: "consecutive i es \<Longrightarrow> es \<noteq> [] \<Longrightarrow> ix (last es) = i + length es"
  using consecutive_ix [of i es "length es - 1"] by (auto simp: last_conv_nth)

lemma consecutive_take: "consecutive i es \<Longrightarrow> consecutive i (take k es)"
  using consecutive_append [of i "take k es" "drop k es"] by (auto split: if_splits)

lemma consecutive_drop: "consecutive i es \<Longrightarrow> k \<le> length es \<Longrightarrow> consecutive (i + k) (drop k es)"
  using consecutive_append [of i "take k es" "drop k es"] consecutive_last [of i es]
  by (cases "k = length es") (auto split: if_splits)

lemma consecutive_filter:
  "consecutive i es \<Longrightarrow> i \<le> b \<Longrightarrow> filter (\<lambda>e. b < ix e) es = drop (b - i) es"
proof (induction i es rule: consecutive.induct)
  case (2 i e es)
  show ?case
  proof (cases "b = i")
    case True
    then have "\<forall>x \<in> set es. b < ix x"
      using consecutive_ix [of "i + 1" es] 2(2) by (auto simp: in_set_conv_nth)
    with True 2(2) show ?thesis by simp
  next
    case False
    then have "b - i = Suc (b - (i + 1))" using 2(3) by simp
    with 2 False show ?thesis by simp
  qed
qed simp

section \<open>The log reads back\<close>

lemma enc_frames_append:
  "encodeEntriesLogFrames v n k xs = (None, a) \<Longrightarrow>
   encodeEntriesLogFrames v n k (xs @ ys) =
     (case encodeEntriesLogFrames v n (k + length xs) ys of (err, b) \<Rightarrow> (err, a @ b))"
proof (induction xs arbitrary: k a)
  case (Cons x xs)
  then show ?case by (auto split: option.splits prod.splits if_splits)
qed (auto split: prod.split)

lemma log_frame_parts:
  assumes "length p \<le> maxAlloc"
  shows "\<not> length (log_frame p @ r) < 12" "be_dec (take 8 (log_frame p @ r)) = length p"
    "get_u32 (bslice 8 12 (log_frame p @ r)) = crc32 ieee p" "drop 12 (log_frame p @ r) = p @ r"
proof -
  have "length p < 2 ^ 64" using assms by (simp add: maxAlloc_def)
  then have u: "unat (of_nat (length p) :: u64) = length p" by (simp add: unat_of_nat_small)
  have b: "length p < 256 ^ 8" using assms by (simp add: maxAlloc_def)
  show "\<not> length (log_frame p @ r) < 12" by (simp add: log_frame_def)
  show "be_dec (take 8 (log_frame p @ r)) = length p"
    using be_dec_enc [OF b] by (simp add: log_frame_def put_u64_def u)
  show "get_u32 (bslice 8 12 (log_frame p @ r)) = crc32 ieee p"
    by (simp add: log_frame_def bslice_append)
  show "drop 12 (log_frame p @ r) = p @ r" by (simp add: log_frame_def)
qed

lemma readFrames_frame:
  assumes "length c \<le> maxAlloc"
    and "(case rv_enc v of
      Some svc \<Rightarrow> if svc_Enabled svc then svc_DecryptRecord svc c (entriesLogFrameAAD v n k) else Some c
    | None \<Rightarrow> Some c) = Some d" "rc_unentry (rv_codec v) d = Some e"
  shows "readFrames v n k (log_frame c @ r) =
    (case readFrames v n (Suc k) r of Inl err \<Rightarrow> Inl err | Inr (es, good) \<Rightarrow> Inr (e # es, length (log_frame c) + good))"
proof -
  define bs where "bs = log_frame c @ r"
  note p = log_frame_parts [OF assms(1), of r, folded bs_def]
  have take_c: "take (length c) (c @ r) = c" "drop (length c) (c @ r) = r" by simp_all
  have "readFrames v n k bs =
    (case readFrames v n (Suc k) r of Inl err \<Rightarrow> Inl err | Inr (es, good) \<Rightarrow> Inr (e # es, 12 + length c + good))"
    unfolding readFrames.simps [of v n k bs] Let_def p(2-4) take_c assms(2) option.case assms(3)
    using assms(1) p(1) by (simp add: p(4))
  moreover have "length (log_frame c) = 12 + length c" by (simp add: log_frame_def)
  ultimately show ?thesis unfolding bs_def by (simp only:)
qed

lemma readFrames_enc:
  assumes "env_ok v view" "encodeEntriesLogFrames v n k es = (None, bs)" "\<forall>e \<in> set es. entry_fits v e"
  shows "readFrames v n k (bs @ r) =
    (case readFrames v n (k + length es) r of Inl e \<Rightarrow> Inl e | Inr (es', good) \<Rightarrow> Inr (es @ es', length bs + good))"
  using assms(2,3)
proof (induction es arbitrary: k bs)
  case Nil
  then show ?case by (auto split: sum.split prod.split)
next
  case (Cons e es)
  obtain p c rest where p: "rc_entry (rv_codec v) e = Some p"
    "(if encryptionEnabled v then raft_seal v (entriesLogFrameAAD v n k) p else Some p) = Some c"
    "encodeEntriesLogFrames v n (Suc k) es = (None, rest)" "bs = log_frame c @ rest"
    using Cons.prems(1) by (auto split: option.splits prod.splits)
  have dec: "rc_unentry (rv_codec v) p = Some e" using assms(1) p(1) by (auto simp: env_ok_def raft_codec_ok_def)
  have seal: "raft_seal v (entriesLogFrameAAD v n k) p = Some c"
    using p(2) by (auto simp: raft_seal_def encryptionEnabled_def split: option.splits if_splits)
  have fits: "length c \<le> maxAlloc" using Cons.prems(2) p(1) seal unfolding entry_fits_def by (meson list.set_intros(1))
  have open_c: "(case rv_enc v of
      Some svc \<Rightarrow> if svc_Enabled svc then svc_DecryptRecord svc c (entriesLogFrameAAD v n k) else Some c
    | None \<Rightarrow> Some c) = Some p"
    using p(2) assms(1) by (auto simp: env_ok_def raft_seal_def encryptionEnabled_def split: option.splits if_splits)
  have ih: "readFrames v n (Suc k) (rest @ r) =
      (case readFrames v n (Suc k + length es) r of Inl e \<Rightarrow> Inl e | Inr (es', good) \<Rightarrow> Inr (es @ es', length rest + good))"
    using Cons.IH [OF p(3)] Cons.prems(2) by simp
  show ?case
    unfolding p(4) append_assoc readFrames_frame [OF fits open_c dec] ih
    by (simp split: sum.split prod.split)
qed

lemma readFrames_short: "length r < 12 \<Longrightarrow> readFrames v n k r = Inr ([], 0)"
  by (subst readFrames.simps) simp

text \<open>A frame cut short ends the log.\<close>

lemma readFrames_torn:
  assumes "length c \<le> maxAlloc" "j < length (log_frame c)"
  shows "readFrames v n k (take j (log_frame c)) = Inr ([], 0)"
proof (cases "j < 12")
  case True
  then show ?thesis by (intro readFrames_short) (simp add: log_frame_def)
next
  case False
  define h where "h = put_u64 (of_nat (length c)) @ put_u32 (crc32 ieee c)"
  have lh: "length h = 12" by (simp add: h_def)
  have t: "take j (log_frame c) = h @ take (j - 12) c" using False by (simp add: log_frame_def h_def)
  have "take 8 (h @ take (j - 12) c) = take 8 (log_frame c @ [])" by (simp add: h_def log_frame_def)
  then have n: "be_dec (take 8 (h @ take (j - 12) c)) = length c" using log_frame_parts(2) [OF assms(1)] by metis
  have "length (take (j - 12) c) < length c" using assms(2) False by (auto simp: log_frame_def)
  then have l: "length (drop 12 (h @ take (j - 12) c)) < length c" "\<not> length (h @ take (j - 12) c) < 12"
    using lh by simp_all
  show ?thesis
    unfolding t readFrames.simps [of v n k "h @ take (j - 12) c"] Let_def n
    using assms(1) by (simp only: l if_True if_False not_less [symmetric] simp_thms)
qed

text \<open>The sealed payload of each entry of a log.\<close>

lemma enc_frames_Cons:
  assumes "encodeEntriesLogFrames v n k (e # es) = (None, bs)" "entry_fits v e"
  obtains c rest where "bs = log_frame c @ rest" "length c \<le> maxAlloc" "encodeEntriesLogFrames v n (Suc k) es = (None, rest)"
proof -
  obtain p c rest where p: "rc_entry (rv_codec v) e = Some p"
    "(if encryptionEnabled v then raft_seal v (entriesLogFrameAAD v n k) p else Some p) = Some c"
    "encodeEntriesLogFrames v n (Suc k) es = (None, rest)" "bs = log_frame c @ rest"
    using assms(1) by (auto split: option.splits prod.splits)
  have "raft_seal v (entriesLogFrameAAD v n k) p = Some c"
    using p(2) by (auto simp: raft_seal_def encryptionEnabled_def split: option.splits if_splits)
  then have "length c \<le> maxAlloc" using assms(2) p(1) unfolding entry_fits_def by blast
  with that p show thesis by blast
qed

lemma enc_frames_take: "encodeEntriesLogFrames v n k es = (None, bs) \<Longrightarrow> \<exists>b. encodeEntriesLogFrames v n k (take j es) = (None, b)"
proof (induction es arbitrary: k bs j)
  case (Cons e es)
  show ?case
  proof (cases j)
    case (Suc i)
    from Cons.prems obtain rest where "encodeEntriesLogFrames v n (Suc k) es = (None, rest)"
      by (auto split: option.splits prod.splits)
    from Cons.IH [OF this, of i] Cons.prems Suc show ?thesis by (auto split: option.splits prod.splits)
  qed simp
qed simp

text \<open>The bytes of a list of frames cut anywhere: whole frames, then a torn one.\<close>

lemma readFrames_cut:
  assumes "env_ok v view" "encodeEntriesLogFrames v n k es = (None, bs)" "\<forall>e \<in> set es. entry_fits v e"
  shows "\<exists>i good. i \<le> length es \<and> readFrames v n k (take j bs) = Inr (take i es, good)"
  using assms(2,3)
proof (induction es arbitrary: k bs j)
  case Nil
  then show ?case by (auto simp: readFrames_short)
next
  case (Cons e es)
  have ef: "entry_fits v e" using Cons.prems(2) by simp
  from Cons.prems(1) ef obtain c rest where c: "bs = log_frame c @ rest" "length c \<le> maxAlloc"
    "encodeEntriesLogFrames v n (Suc k) es = (None, rest)" by (rule enc_frames_Cons)
  show ?case
  proof (cases "j < length (log_frame c)")
    case True
    then have "take j bs = take j (log_frame c)" by (simp add: c(1))
    with readFrames_torn [OF c(2) True] show ?thesis by (intro exI [of _ 0] exI [of _ 0]) simp
  next
    case False
    then have t: "take j bs = log_frame c @ take (j - length (log_frame c)) rest" by (simp add: c(1))
    from Cons.IH [OF c(3), of "j - length (log_frame c)"] Cons.prems(2)
    obtain i good where i: "i \<le> length es"
      "readFrames v n (Suc k) (take (j - length (log_frame c)) rest) = Inr (take i es, good)" by auto
    have "encodeEntriesLogFrames v n k [e] = (None, log_frame c)"
      using Cons.prems(1) c(1,3) by (auto split: option.splits prod.splits)
    from readFrames_enc [OF assms(1) this] ef i(2) have "readFrames v n k (take j bs) = Inr (take (Suc i) (e # es), length (log_frame c) + good)"
      by (simp add: t)
    with i(1) show ?thesis by (auto intro: exI [where x = "Suc i"])
  qed
qed

definition log_of :: "'m raft_env \<Rightarrow> raft_entry list \<Rightarrow> bytes \<Rightarrow> bool" where
  "log_of v es file \<longleftrightarrow> (\<exists>bs. file = entriesLogMagic @ bs \<and> encodeEntriesLogFrames v ''entries.log'' 0 es = (None, bs)) \<and>
     (\<forall>e \<in> set es. entry_fits v e)"

lemma length_magic: "length entriesLogMagic = 22"
  by (simp add: entriesLogMagic_def)

lemma log_of_reads:
  assumes "env_ok v view" "log_of v es file"
  shows "readEntriesLog v file = Inr (es, file)"
proof -
  obtain bs where bs: "file = entriesLogMagic @ bs" "encodeEntriesLogFrames v ''entries.log'' 0 es = (None, bs)"
    "\<forall>e \<in> set es. entry_fits v e" using assms(2) by (auto simp: log_of_def)
  from readFrames_enc [OF assms(1) bs(2,3), of "[]"]
  have "readFrames v ''entries.log'' 0 bs = Inr (es, length bs)" by (simp add: readFrames_short)
  then show ?thesis by (simp add: readEntriesLog_def bs(1) Let_def)
qed

text \<open>Appending to a log, whole or cut.\<close>

lemma append_log:
  assumes "env_ok v view" "\<forall>e \<in> set es. entry_fits v e" "es \<noteq> []"
    and "case file of None \<Rightarrow> old = [] | Some bs \<Rightarrow> bs = [] \<and> old = [] \<or> log_of v old bs"
    and "appendEntriesLog v w (length old) es file = (err, file')"
  shows "err = None \<Longrightarrow> \<exists>bs. file' = Some bs \<and> log_of v (old @ es) bs"
    and "err \<noteq> None \<Longrightarrow> encodeEntriesLogFrames v ''entries.log'' (length old) es = (None, bs) \<Longrightarrow>
      \<exists>c j c'. file' = Some c \<and> readEntriesLog v c = Inr (old @ take j es, c')"
proof -
  obtain err1 out where enc: "encodeEntriesLogFrames v ''entries.log'' (length old) es = (err1, out)" by fastforce
  define c0 where "c0 = (case file of None \<Rightarrow> [] | Some bs \<Rightarrow> bs)"
  have old: "c0 = [] \<and> old = [] \<or> log_of v old c0"
    using assms(4) by (auto simp: c0_def split: option.splits)
  have f': "file' = Some (c0 @ (case w of WroteAll \<Rightarrow> (if c0 = [] then entriesLogMagic else []) @ out
      | WroteFails k \<Rightarrow> take k ((if c0 = [] then entriesLogMagic else []) @ out)))"
    "err = (case w of WroteAll \<Rightarrow> err1 | WroteFails k \<Rightarrow> Some ErrFileWrite)"
    using assms(3,5) enc by (auto simp: appendEntriesLog_def c0_def Let_def split: write_outcome.splits)
  have ne: "c0 \<noteq> []" if "log_of v old c0" using that length_magic by (auto simp: log_of_def)
  show "\<exists>bs. file' = Some bs \<and> log_of v (old @ es) bs" if "err = None"
  proof -
    have w: "w = WroteAll" "err1 = None" using that f'(2) by (cases w; simp)+
    from old show ?thesis
    proof
      assume o: "c0 = [] \<and> old = []"
      with f'(1) w enc assms(2) show ?thesis by (simp add: log_of_def)
    next
      assume o: "log_of v old c0"
      then obtain b where b: "c0 = entriesLogMagic @ b" "encodeEntriesLogFrames v ''entries.log'' 0 old = (None, b)"
        by (auto simp: log_of_def)
      have "encodeEntriesLogFrames v ''entries.log'' 0 (old @ es) = (None, b @ out)"
        using enc_frames_append [OF b(2)] enc w by simp
      with f'(1) w ne [OF o] b(1) o assms(2) show ?thesis by (auto simp: log_of_def)
    qed
  qed
  show "\<exists>c j c'. file' = Some c \<and> readEntriesLog v c = Inr (old @ take j es, c')"
    if e: "err \<noteq> None" "encodeEntriesLogFrames v ''entries.log'' (length old) es = (None, bs)"
  proof -
    obtain k where w: "w = WroteFails k" using e f'(2) enc by (cases w) auto
    have out: "out = bs" "err1 = None" using enc e(2) by simp_all
    from old show ?thesis
    proof
      assume o: "c0 = [] \<and> old = []"
      then have c: "file' = Some (take k entriesLogMagic @ take (k - 22) bs)"
        using f'(1) w out length_magic by simp
      show ?thesis
      proof (cases "k < 22")
        case True
        with c o show ?thesis by (auto simp: readEntriesLog_def length_magic Let_def intro: exI [where x = 0])
      next
        case False
        have "encodeEntriesLogFrames v ''entries.log'' 0 es = (None, bs)" using e(2) o by simp
        from readFrames_cut [OF assms(1) this assms(2), of "k - 22"]
        obtain i good where "readFrames v ''entries.log'' 0 (take (k - 22) bs) = Inr (take i es, good)" by blast
        with c False o show ?thesis by (auto simp: readEntriesLog_def length_magic Let_def)
      qed
    next
      assume o: "log_of v old c0"
      then obtain b where b: "c0 = entriesLogMagic @ b" "encodeEntriesLogFrames v ''entries.log'' 0 old = (None, b)"
        "\<forall>e \<in> set old. entry_fits v e" by (auto simp: log_of_def)
      from readFrames_cut [OF assms(1) e(2) assms(2), of k]
      obtain i good where i: "readFrames v ''entries.log'' (length old) (take k bs) = Inr (take i es, good)" by blast
      from readFrames_enc [OF assms(1) b(2,3), of "take k bs"] i
      have "readFrames v ''entries.log'' 0 (b @ take k bs) = Inr (old @ take i es, length b + good)" by simp
      with f'(1) w ne [OF o] b(1) out show ?thesis
        by (auto simp: readEntriesLog_def length_magic Let_def)
    qed
  qed
qed

section \<open>Files in step with the memory\<close>

text \<open>
  The entries kept beside the memory are those of the log file: the entries of the memory, behind some that
  the memory may have dropped already.
\<close>

definition entries_stored :: "raft_view \<Rightarrow> raft_entry list \<Rightarrow> bool" where
  "entries_stored w es \<longleftrightarrow> (\<exists>pre b. es = pre @ vw_ents w \<and> b + length pre = vw_offset w \<and> consecutive b es)"

definition log_stored :: "'m raft_env \<Rightarrow> raft_files \<Rightarrow> raft_entry list \<Rightarrow> bool" where
  "log_stored v fs es \<longleftrightarrow> (case rf_log fs of None \<Rightarrow> es = [] \<and> rf_entries fs = None
      | Some bs \<Rightarrow> bs = [] \<and> es = [] \<or> log_of v es bs)"

definition hard_stored :: "'m raft_env \<Rightarrow> raft_files \<Rightarrow> hard_state \<Rightarrow> bool" where
  "hard_stored v fs hs \<longleftrightarrow> load_file v ''hard_state.pb'' (rc_unhard (rv_codec v)) (rf_hard fs) =
       Inr (if rf_hard fs = None then None else Some hs) \<and> (rf_hard fs = None \<longrightarrow> hs = vw_hard empty_view)"

definition snap_stored :: "'m raft_env \<Rightarrow> raft_files \<Rightarrow> raft_snapshot \<Rightarrow> bool" where
  "snap_stored v fs sn \<longleftrightarrow> load_file v ''snapshot.pb'' (rc_unsnap (rv_codec v)) (rf_snap fs) =
       Inr (if rf_snap fs = None then None else Some sn) \<and>
     (if rf_snap fs = None then sn = vw_snap empty_view else 0 < unat (sn_Index sn))"

definition conf_stored :: "'m raft_env \<Rightarrow> raft_files \<Rightarrow> conf_state \<Rightarrow> bool" where
  "conf_stored v fs cs \<longleftrightarrow> load_file v ''conf_state.pb'' (rc_unconf (rv_codec v)) (rf_conf fs) =
       Inr (if rf_conf fs = None then None else Some cs) \<and> (rf_conf fs = None \<longrightarrow> cs = no_conf)"

definition raft_stored :: "'m raft_env \<Rightarrow> ('m \<Rightarrow> raft_view) \<Rightarrow> 'm raft_store \<Rightarrow> bool" where
  "raft_stored v view s \<longleftrightarrow> (let w = view (rs_mem s) in
     view_wf w \<and> vw_offset w \<le> unat (sn_Index (vw_snap w)) \<and> unat (sn_Index (vw_snap w)) \<le> vw_last w \<and>
     entries_stored w (rs_entries s) \<and> log_stored v (rs_files s) (rs_entries s) \<and>
     hard_stored v (rs_files s) (vw_hard w) \<and> snap_stored v (rs_files s) (vw_snap w) \<and>
     conf_stored v (rs_files s) (rs_conf s))"

text \<open>A file written is read back.\<close>

lemma write_load:
  assumes "env_ok v view" "writeProtoAtomic v ok name msg f = (None, f')" "msg = Some p" "p \<noteq> []"
    and "\<forall>svc. rv_enc v = Some svc \<longrightarrow> \<not> svc_Enabled svc \<longrightarrow> svc_DecryptRecord svc p (fileAAD v name) = Some p"
    and "dec p = Some a"
  shows "load_file v name dec f' = Inr (Some a) \<and> f' \<noteq> None"
  using assms
  by (auto simp: writeProtoAtomic_def raft_seal_def load_file_def raft_readFile_def env_ok_def split: option.splits if_splits)

end
