(* ===== verification/Raft_Steps.thy ===== *)
theory Raft_Steps
  imports Raft_Facts
begin

text \<open>Every operation of the storage keeps its files in step with its memory, and loading them gives it back.\<close>

section \<open>The memory storage\<close>

lemma memory_laws:
  assumes "env_ok v view"
  shows "view (rv_new v) = empty_view"
    "rm_InitialState (rv_memory v) m = Inr (vw_hard (view m), sn_ConfState (vw_snap (view m)))"
    "rm_Snapshot (rv_memory v) m = Inr (vw_snap (view m))"
    "view_wf (view m) \<Longrightarrow> rm_FirstIndex (rv_memory v) m = Inr (of_nat (vw_offset (view m) + 1))"
    "view_wf (view m) \<Longrightarrow> rm_LastIndex (rv_memory v) m = Inr (of_nat (vw_last (view m)))"
    "view_wf (view m) \<Longrightarrow> vw_offset (view m) < unat lo \<Longrightarrow> lo < hi \<Longrightarrow> unat hi \<le> vw_last (view m) + 1 \<Longrightarrow>
      rm_Entries (rv_memory v) lo hi (- 1) m =
        Inr (take (unat hi - unat lo) (drop (unat lo - vw_offset (view m) - 1) (vw_ents (view m))))"
    "\<exists>m'. rm_SetHardState (rv_memory v) hs m = (None, m') \<and> view m' = (view m)\<lparr>vw_hard := hs\<rparr>"
    "view_wf (view m) \<Longrightarrow> append_pre es (view m) \<Longrightarrow>
      \<exists>m'. rm_Append (rv_memory v) es m = (None, m') \<and> view m' = view_Append es (view m)"
    "sn_Index (vw_snap (view m)) < sn_Index sn \<Longrightarrow>
      \<exists>m'. rm_ApplySnapshot (rv_memory v) sn m = (None, m') \<and> view m' = view_ApplySnapshot sn (view m)"
    "view_wf (view m) \<Longrightarrow> sn_Index (vw_snap (view m)) < i \<Longrightarrow> vw_offset (view m) \<le> unat i \<Longrightarrow> unat i \<le> vw_last (view m) \<Longrightarrow>
      \<exists>m' term. rm_CreateSnapshot (rv_memory v) i cs data m = (Inr (view_CreateSnapshot i term cs data (view m)), m') \<and>
        view m' = (view m)\<lparr>vw_snap := view_CreateSnapshot i term cs data (view m)\<rparr>"
    "view_wf (view m) \<Longrightarrow> vw_offset (view m) < unat i \<Longrightarrow> unat i \<le> vw_last (view m) \<Longrightarrow>
      \<exists>m'. rm_Compact (rv_memory v) i m = (None, m') \<and> view m' = view_Compact (unat i) (view m)"
  using assms unfolding env_ok_def memory_ok_def by simp_all

lemma view_appends:
  assumes "view_wf w" "append_pre es w" "vw_offset w < ix (hd es)"
  shows "view_Append es w = w\<lparr>vw_ents := take (ix (hd es) - vw_offset w - 1) (vw_ents w) @ es\<rparr>"
    "view_wf (view_Append es w)"
proof -
  have c: "consecutive (ix (hd es) - 1) es" "es \<noteq> []" using assms(2) by (auto simp: append_pre_def)
  have "filter (\<lambda>e. vw_offset w < ix e) es = es"
  proof -
    have "vw_offset w < ix e" if e: "e \<in> set es" for e
    proof -
      obtain k where "k < length es" "e = es ! k" using e by (auto simp: in_set_conv_nth)
      with consecutive_ix [OF c(1)] have "ix e = ix (hd es) - 1 + 1 + k" by simp
      with assms(3) show ?thesis by simp
    qed
    then show ?thesis by simp
  qed
  with c(2) show e: "view_Append es w = w\<lparr>vw_ents := take (ix (hd es) - vw_offset w - 1) (vw_ents w) @ es\<rparr>"
    by (cases es) (auto simp: view_Append_def Let_def)
  have "ix (hd es) \<le> vw_offset w + length (vw_ents w) + 1" using assms(2) by (simp add: append_pre_def vw_last_def)
  then have "ix (hd es) - vw_offset w - 1 \<le> length (vw_ents w)" using assms(3) by linarith
  moreover have "vw_offset w + (ix (hd es) - vw_offset w - 1) = ix (hd es) - 1" using assms(3) by simp
  ultimately show "view_wf (view_Append es w)"
    using assms(1) c consecutive_take [of "vw_offset w" "vw_ents w"] unfolding e view_wf_def
    by (simp add: consecutive_append min_absorb2)
qed

lemma reload_entries:
  assumes "env_ok v view" "view_wf (view m)"
  shows "reloadEntriesFromMemory v m = Inr (vw_ents (view m))"
proof -
  let ?w = "view m"
  have b: "vw_offset ?w + length (vw_ents ?w) + 1 < 2 ^ 64"
    using consecutive_last assms(2) by (simp add: view_wf_def)
  have u: "unat (of_nat (vw_offset ?w + 1) :: u64) = vw_offset ?w + 1" "unat (of_nat (vw_last ?w) :: u64) = vw_last ?w"
    by (rule unat_of_nat_small(4), use b in \<open>simp add: vw_last_def\<close>)+
  have u2: "unat (of_nat (vw_last ?w) + 1 :: u64) = vw_last ?w + 1"
    using unat_of_nat_small(4) [of "vw_last ?w + 1"] b by (simp add: vw_last_def add.commute)
  have less: "of_nat (vw_last ?w) < (of_nat (vw_offset ?w + 1) :: u64) \<longleftrightarrow> vw_ents ?w = []"
    unfolding word_less_nat_alt u by (auto simp: vw_last_def)
  show ?thesis
  proof (cases "vw_ents ?w = []")
    case True
    with memory_laws(4,5) [OF assms] less show ?thesis by (simp add: reloadEntriesFromMemory_def)
  next
    case False
    have "(of_nat (vw_offset ?w + 1) :: u64) < of_nat (vw_last ?w) + 1"
      unfolding word_less_nat_alt u u2 using False by (simp add: vw_last_def)
    with memory_laws(6) [OF assms, of "of_nat (vw_offset ?w + 1)" "of_nat (vw_last ?w) + 1"] u u2
    have "rm_Entries (rv_memory v) (of_nat (vw_offset ?w + 1)) (of_nat (vw_last ?w) + 1) (- 1) m = Inr (vw_ents ?w)"
      by (simp add: vw_last_def)
    with memory_laws(4,5) [OF assms] less False show ?thesis by (simp add: reloadEntriesFromMemory_def)
  qed
qed

section \<open>Loading\<close>

definition log_entries :: "'m raft_env \<Rightarrow> raft_files \<Rightarrow> raft_error + raft_entry list \<times> raft_files" where
  "log_entries v fs = (case rf_log fs of
      Some bs \<Rightarrow> (case readEntriesLog v bs of Inl e \<Rightarrow> Inl e | Inr (es, bs') \<Rightarrow> Inr (es, fs\<lparr>rf_log := Some bs'\<rparr>))
    | None \<Rightarrow> (case readEntries v (rf_entries fs) of Inl e \<Rightarrow> Inl e | Inr es \<Rightarrow> Inr (es, fs)))"

text \<open>What files load to, whatever the log says behind the snapshot.\<close>

lemma files_load:
  fixes v :: "'m raft_env"
  assumes e: "env_ok v view"
    and conf: "load_file v ''conf_state.pb'' (rc_unconf (rv_codec v)) (rf_conf fs) = Inr co"
    and snap: "load_file v ''snapshot.pb'' (rc_unsnap (rv_codec v)) (rf_snap fs) = Inr so"
    and hard: "load_file v ''hard_state.pb'' (rc_unhard (rv_codec v)) (rf_hard fs) = Inr ho"
    and log: "log_entries v fs = Inr (es, fs')"
    and k: "k = (case so of None \<Rightarrow> 0 | Some sn \<Rightarrow> unat (sn_Index sn))" "so \<noteq> None \<Longrightarrow> 0 < k" "k + 1 < 2 ^ 64"
    and es: "consecutive b es" "b \<le> k"
  obtains m where "NewPersistentStorage v fs = Inr \<lparr>rs_mem = m, rs_entries = es,
      rs_conf = (case co of None \<Rightarrow> no_conf | Some c \<Rightarrow> c), rs_files = fs'\<rparr>"
    "view m = \<lparr>vw_hard = (case ho of None \<Rightarrow> vw_hard empty_view | Some h \<Rightarrow> h),
       vw_snap = (case so of None \<Rightarrow> vw_snap empty_view | Some sn \<Rightarrow> sn), vw_offset = k, vw_ents = drop (k - b) es\<rparr>"
proof -
  let ?sn = "case so of None \<Rightarrow> vw_snap empty_view | Some sn \<Rightarrow> sn"
    and ?hs = "case ho of None \<Rightarrow> vw_hard empty_view | Some h \<Rightarrow> h"
  obtain m1 where m1: "(case so of None \<Rightarrow> (None, rv_new v) | Some sn \<Rightarrow> rm_ApplySnapshot (rv_memory v) sn (rv_new v)) = (None, m1)"
    "view m1 = empty_view\<lparr>vw_snap := ?sn, vw_offset := k\<rparr>"
  proof (cases so)
    case None
    then show thesis using that [of "rv_new v"] k(1) memory_laws(1) [OF e] by (simp add: empty_view_def)
  next
    case (Some sn)
    then have "0 < unat (sn_Index sn)" using k(1,2) by simp
    then have "sn_Index (vw_snap (view (rv_new v))) < sn_Index sn"
      by (simp add: memory_laws(1) [OF e] empty_view_def word_less_nat_alt)
    from memory_laws(9) [OF e this] obtain m where "rm_ApplySnapshot (rv_memory v) sn (rv_new v) = (None, m)"
      "view m = view_ApplySnapshot sn empty_view" by (auto simp: memory_laws(1) [OF e])
    with that [of m] Some k(1) show thesis by (simp add: view_ApplySnapshot_def empty_view_def)
  qed
  obtain m2 where m2: "(case ho of None \<Rightarrow> (None, m1) | Some hs \<Rightarrow> rm_SetHardState (rv_memory v) hs m1) = (None, m2)"
    "view m2 = empty_view\<lparr>vw_hard := ?hs, vw_snap := ?sn, vw_offset := k\<rparr>"
  proof (cases ho)
    case None
    with that [of m1] m1(2) show thesis by (simp add: empty_view_def)
  next
    case (Some hs)
    from memory_laws(7) [OF e, of hs m1] that Some m1(2) show thesis by (auto simp: empty_view_def)
  qed
  have wf2: "view_wf (view m2)" using k(3) by (simp add: m2(2) view_wf_def empty_view_def)
  define c where "c = (case co of None \<Rightarrow> no_conf | Some c \<Rightarrow> c)"
  have load: "NewPersistentStorage v fs = raft_load_entries v m2 c fs"
    using m1(1) m2(1) conf snap hard unfolding NewPersistentStorage_def c_def
    by (simp only: sum.case option.case prod.case)
  have entries: "raft_load_entries v m2 c fs =
      (if es = [] then Inr \<lparr>rs_mem = m2, rs_entries = [], rs_conf = c, rs_files = fs'\<rparr>
       else (case rm_Append (rv_memory v) es m2 of
               (Some e, _) \<Rightarrow> Inl e
             | (None, m') \<Rightarrow> Inr \<lparr>rs_mem = m', rs_entries = es, rs_conf = c, rs_files = fs'\<rparr>))"
    using log unfolding raft_load_entries_def log_entries_def by (simp only: sum.case prod.case)
  show thesis
  proof (cases "es = []")
    case True
    with that [of m2, folded c_def] m2(2) show thesis by (simp add: load entries empty_view_def)
  next
    case False
    have hd: "ix (hd es) = b + 1" using consecutive_hd [OF es(1) False] .
    have "append_pre es (view m2)"
      using False es hd by (simp add: append_pre_def m2(2) vw_last_def empty_view_def)
    from memory_laws(8) [OF e wf2 this] obtain m where m: "rm_Append (rv_memory v) es m2 = (None, m)"
      "view m = view_Append es (view m2)" by blast
    have "filter (\<lambda>x. k < ix x) es = drop (k - b) es" using consecutive_filter [OF es] .
    then have "view m = \<lparr>vw_hard = ?hs, vw_snap = ?sn, vw_offset = k, vw_ents = drop (k - b) es\<rparr>"
      by (auto simp: m(2) view_Append_def m2(2) empty_view_def Let_def split: list.split)
    with that [of m, folded c_def] m(1) False show thesis by (simp add: load entries)
  qed
qed

lemma stored_parts:
  assumes "raft_stored v view s"
  defines "w \<equiv> view (rs_mem s)" and "k \<equiv> unat (raft_index view s)"
  obtains pre b where "rs_entries s = pre @ vw_ents w" "b + length pre = vw_offset w" "consecutive b (rs_entries s)"
    "b \<le> k" "k - b = length pre + (k - vw_offset w)" "vw_offset w \<le> k" "k \<le> vw_last w" "k + 1 < 2 ^ 64"
    "log_entries v (rs_files s) = Inr (rs_entries s, rs_files s) \<or> \<not> env_ok v view"
proof -
  note S = assms(1) [unfolded raft_stored_def Let_def]
  obtain pre b where p: "rs_entries s = pre @ vw_ents w" "b + length pre = vw_offset w" "consecutive b (rs_entries s)"
    using S unfolding entries_stored_def w_def by blast
  have b: "vw_offset w \<le> k" "k \<le> vw_last w" using S unfolding w_def k_def raft_index_def by blast+
  have "k + 1 < 2 ^ 64" using b(2) consecutive_last [OF p(3)] p(1,2) by (simp add: vw_last_def)
  moreover have "log_entries v (rs_files s) = Inr (rs_entries s, rs_files s)" if e: "env_ok v view"
  proof (cases "rf_log (rs_files s)")
    case None
    with S show ?thesis by (simp add: readEntries_def log_stored_def log_entries_def)
  next
    case (Some bs)
    have "log_stored v (rs_files s) (rs_entries s)" using S by blast
    with Some have "bs = [] \<and> rs_entries s = [] \<or> log_of v (rs_entries s) bs" by (simp add: log_stored_def)
    then have "readEntriesLog v bs = Inr (rs_entries s, bs)"
      using log_of_reads [OF e] by (elim disjE) (simp_all add: readEntriesLog_def length_magic)
    with Some show ?thesis by (simp add: log_entries_def)
  qed
  moreover have "b \<le> k" "k - b = length pre + (k - vw_offset w)" using p(2) b(1) by linarith+
  ultimately show thesis using that [OF p] b by blast
qed

text \<open>The other files being in step, the store opens with whatever the log holds.\<close>

lemma stored_opens:
  fixes v :: "'m raft_env"
  assumes e: "env_ok v view" and st: "raft_stored v view s"
    and fs: "rf_hard fs = rf_hard (rs_files s)" "rf_snap fs = rf_snap (rs_files s)" "rf_conf fs = rf_conf (rs_files s)"
    and log: "log_entries v fs = Inr (es, fs')" "consecutive b es" "b \<le> unat (raft_index view s)"
  obtains m where "NewPersistentStorage v fs = Inr \<lparr>rs_mem = m, rs_entries = es, rs_conf = rs_conf s, rs_files = fs'\<rparr>"
    "view m = \<lparr>vw_hard = vw_hard (view (rs_mem s)), vw_snap = vw_snap (view (rs_mem s)),
       vw_offset = unat (raft_index view s), vw_ents = drop (unat (raft_index view s) - b) es\<rparr>"
proof -
  let ?w = "view (rs_mem s)" and ?fs = "rs_files s"
  note S = st [unfolded raft_stored_def Let_def]
  let ?so = "if rf_snap ?fs = None then None else Some (vw_snap ?w)" and ?ho = "if rf_hard ?fs = None then None else Some (vw_hard ?w)"
    and ?co = "if rf_conf ?fs = None then None else Some (rs_conf s)"
  have sn: "snap_stored v ?fs (vw_snap ?w)" "hard_stored v ?fs (vw_hard ?w)" "conf_stored v ?fs (rs_conf s)" using S by blast+
  have kk: "unat (raft_index view s) = (case ?so of None \<Rightarrow> 0 | Some sn \<Rightarrow> unat (sn_Index sn))"
    "?so \<noteq> None \<Longrightarrow> 0 < unat (raft_index view s)"
    using sn(1) by (auto simp: snap_stored_def empty_view_def raft_index_def split: if_splits)
  have big: "unat (raft_index view s) + 1 < 2 ^ 64" using stored_parts [OF st] by blast
  have files: "load_file v ''conf_state.pb'' (rc_unconf (rv_codec v)) (rf_conf fs) = Inr ?co"
    "load_file v ''snapshot.pb'' (rc_unsnap (rv_codec v)) (rf_snap fs) = Inr ?so"
    "load_file v ''hard_state.pb'' (rc_unhard (rv_codec v)) (rf_hard fs) = Inr ?ho"
    using sn by (simp_all add: snap_stored_def hard_stored_def conf_stored_def fs)
  have "(case ?so of None \<Rightarrow> vw_snap empty_view | Some sn \<Rightarrow> sn) = vw_snap ?w"
    "(case ?ho of None \<Rightarrow> vw_hard empty_view | Some h \<Rightarrow> h) = vw_hard ?w"
    "(case ?co of None \<Rightarrow> no_conf | Some c \<Rightarrow> c) = rs_conf s"
    using sn by (auto simp: snap_stored_def hard_stored_def conf_stored_def split: if_splits)
  with files_load [OF e files log(1) kk big log(2,3)] that show thesis by metis
qed

lemma stored_loads:
  fixes v :: "'m raft_env"
  assumes e: "env_ok v view" and st: "raft_stored v view s"
  obtains s' where "NewPersistentStorage v (rs_files s) = Inr s'" "raft_stored v view s'"
    "vw_hard (view (rs_mem s')) = vw_hard (view (rs_mem s))" "vw_snap (view (rs_mem s')) = vw_snap (view (rs_mem s))"
    "vw_offset (view (rs_mem s')) = unat (raft_index view s)"
    "vw_ents (view (rs_mem s')) = drop (unat (raft_index view s) - vw_offset (view (rs_mem s))) (vw_ents (view (rs_mem s)))"
    "rs_entries s' = rs_entries s" "rs_conf s' = rs_conf s" "rs_files s' = rs_files s"
proof -
  let ?w = "view (rs_mem s)" and ?k = "unat (raft_index view s)" and ?fs = "rs_files s" and ?es = "rs_entries s"
  note S = st [unfolded raft_stored_def Let_def]
  from stored_parts [OF st] e obtain pre b where p:
    "?es = pre @ vw_ents ?w" "b + length pre = vw_offset ?w" "consecutive b ?es"
    "b \<le> ?k" "?k - b = length pre + (?k - vw_offset ?w)" "vw_offset ?w \<le> ?k" "?k \<le> vw_last ?w" "?k + 1 < 2 ^ 64"
    "log_entries v ?fs = Inr (?es, ?fs)" by auto
  from stored_opens [OF e st refl refl refl p(9,3,4)] obtain m where
    m: "NewPersistentStorage v ?fs = Inr \<lparr>rs_mem = m, rs_entries = ?es, rs_conf = rs_conf s, rs_files = ?fs\<rparr>"
    "view m = \<lparr>vw_hard = vw_hard ?w, vw_snap = vw_snap ?w, vw_offset = ?k, vw_ents = drop (?k - b) ?es\<rparr>" .
  have ents: "drop (?k - b) ?es = drop (?k - vw_offset ?w) (vw_ents ?w)" using p(1,5) by simp
  have "consecutive (b + (?k - b)) (drop (?k - b) ?es)"
    using p by (intro consecutive_drop) (auto simp: vw_last_def)
  then have "view_wf (view m)" using p(4) by (simp add: m(2) view_wf_def)
  moreover have "entries_stored (view m) ?es"
    unfolding entries_stored_def
  proof (intro exI conjI)
    show "?es = take (?k - b) ?es @ vw_ents (view m)" by (simp add: m(2))
    show "b + length (take (?k - b) ?es) = vw_offset (view m)" using p by (simp add: m(2) vw_last_def)
    show "consecutive b ?es" using p(3) .
  qed
  ultimately have "raft_stored v view \<lparr>rs_mem = m, rs_entries = ?es, rs_conf = rs_conf s, rs_files = ?fs\<rparr>"
    using S p(4-7) by (simp add: raft_stored_def Let_def m(2) vw_last_def ents raft_index_def)
  then show thesis
    by (rule that [OF m(1)]) (simp_all add: m(2) ents)
qed

text \<open>Entries that may be appended to the log follow those it has.\<close>

lemma append_follows:
  assumes st: "raft_stored v view s" and pre: "append_pre es (view (rs_mem s))" and can: "canAppendEntriesLog es s"
  obtains b where "consecutive b (rs_entries s @ take j es)" "b \<le> unat (raft_index view s)"
proof -
  let ?w = "view (rs_mem s)"
  note S = st [unfolded raft_stored_def Let_def]
  have ne: "es \<noteq> []" "consecutive (ix (hd es) - 1) es" "ix (hd es) \<le> vw_last ?w + 1" using pre by (simp_all add: append_pre_def)
  from stored_parts [OF st] obtain pr b where p: "rs_entries s = pr @ vw_ents ?w"
    "b + length pr = vw_offset ?w" "consecutive b (rs_entries s)" "b \<le> unat (raft_index view s)" by blast
  show thesis
  proof (cases "rs_entries s = []")
    case True
    have "vw_offset ?w \<le> unat (raft_index view s)" using S by (simp add: raft_index_def)
    then have "ix (hd es) - 1 \<le> unat (raft_index view s)" using True p(1) ne(3) by (simp add: vw_last_def)
    then show thesis using that [of "ix (hd es) - 1"] True consecutive_take [OF ne(2)] by simp
  next
    case False
    have "re_Index (hd es) = re_Index (last (rs_entries s)) + 1"
      using can False by (simp add: canAppendEntriesLog_def split: if_splits)
    moreover have "ix (last (rs_entries s)) = b + length (rs_entries s)" by (rule consecutive_end [OF p(3) False])
    moreover have "b + length (rs_entries s) + 1 < 2 ^ 64" by (rule consecutive_last [OF p(3)])
    ultimately have "ix (hd es) - 1 = b + length (rs_entries s)" by (simp add: unat_word_ariths)
    then show thesis using that [of b] p(3,4) consecutive_take [OF ne(2), of j] by (simp add: consecutive_append)
  qed
qed

section \<open>Operations\<close>

lemma codec_reads:
  assumes "env_ok v view"
  shows "rc_hard (rv_codec v) h = Some p \<Longrightarrow> p \<noteq> [] \<and> rc_unhard (rv_codec v) p = Some h \<and>
      (\<forall>svc. rv_enc v = Some svc \<longrightarrow> \<not> svc_Enabled svc \<longrightarrow> svc_DecryptRecord svc p aad = Some p)"
    "rc_conf (rv_codec v) k = Some p \<Longrightarrow> p \<noteq> [] \<and> rc_unconf (rv_codec v) p = Some k \<and>
      (\<forall>svc. rv_enc v = Some svc \<longrightarrow> \<not> svc_Enabled svc \<longrightarrow> svc_DecryptRecord svc p aad = Some p)"
    "rc_snap (rv_codec v) s = Some p \<Longrightarrow> p \<noteq> [] \<and> rc_unsnap (rv_codec v) p = Some s \<and>
      (\<forall>svc. rv_enc v = Some svc \<longrightarrow> \<not> svc_Enabled svc \<longrightarrow> svc_DecryptRecord svc p aad = Some p)"
  using assms unfolding env_ok_def raft_codec_ok_def by blast+

lemma write_hard:
  assumes "env_ok v view" "writeProtoAtomic v ok ''hard_state.pb'' (rc_hard (rv_codec v) hs) f = (None, f')"
  shows "hard_stored v (fs\<lparr>rf_hard := f'\<rparr>) hs"
proof -
  obtain p where p: "rc_hard (rv_codec v) hs = Some p" using assms(2) by (auto simp: writeProtoAtomic_def split: option.splits)
  have "load_file v ''hard_state.pb'' (rc_unhard (rv_codec v)) f' = Inr (Some hs) \<and> f' \<noteq> None"
    by (rule write_load [OF assms p]) (use codec_reads(1) [OF assms(1) p] in blast)+
  then show ?thesis by (auto simp: hard_stored_def)
qed

lemma write_snapshot:
  assumes "env_ok v view" "writeProtoAtomic v ok ''snapshot.pb'' (rc_snap (rv_codec v) sn) f = (None, f')" "0 < unat (sn_Index sn)"
  shows "snap_stored v (fs\<lparr>rf_snap := f'\<rparr>) sn"
proof -
  obtain p where p: "rc_snap (rv_codec v) sn = Some p" using assms(2) by (auto simp: writeProtoAtomic_def split: option.splits)
  have "load_file v ''snapshot.pb'' (rc_unsnap (rv_codec v)) f' = Inr (Some sn) \<and> f' \<noteq> None"
    by (rule write_load [OF assms(1,2) p]) (use codec_reads(3) [OF assms(1) p] in blast)+
  then show ?thesis using assms(3) by (simp add: snap_stored_def)
qed

lemma write_members:
  assumes "env_ok v view" "writeProtoAtomic v ok ''conf_state.pb'' (rc_conf (rv_codec v) cs) f = (None, f')"
  shows "conf_stored v (fs\<lparr>rf_conf := f'\<rparr>) cs"
proof -
  obtain p where p: "rc_conf (rv_codec v) cs = Some p" using assms(2) by (auto simp: writeProtoAtomic_def split: option.splits)
  have "load_file v ''conf_state.pb'' (rc_unconf (rv_codec v)) f' = Inr (Some cs) \<and> f' \<noteq> None"
    by (rule write_load [OF assms p]) (use codec_reads(2) [OF assms(1) p] in blast)+
  then show ?thesis by (auto simp: conf_stored_def)
qed

text \<open>A field of the files concerns only its own part.\<close>

lemma stored_frames [simp]:
  "hard_stored v (fs\<lparr>rf_conf := a\<rparr>) hs = hard_stored v fs hs" "hard_stored v (fs\<lparr>rf_snap := a\<rparr>) hs = hard_stored v fs hs"
  "hard_stored v (fs\<lparr>rf_log := a\<rparr>) hs = hard_stored v fs hs" "snap_stored v (fs\<lparr>rf_hard := a\<rparr>) sn = snap_stored v fs sn"
  "snap_stored v (fs\<lparr>rf_conf := a\<rparr>) sn = snap_stored v fs sn" "snap_stored v (fs\<lparr>rf_log := a\<rparr>) sn = snap_stored v fs sn"
  "conf_stored v (fs\<lparr>rf_hard := a\<rparr>) cs = conf_stored v fs cs" "conf_stored v (fs\<lparr>rf_snap := a\<rparr>) cs = conf_stored v fs cs"
  "conf_stored v (fs\<lparr>rf_log := a\<rparr>) cs = conf_stored v fs cs" "log_stored v (fs\<lparr>rf_hard := a\<rparr>) es = log_stored v fs es"
  "log_stored v (fs\<lparr>rf_conf := a\<rparr>) es = log_stored v fs es" "log_stored v (fs\<lparr>rf_snap := a\<rparr>) es = log_stored v fs es"
  by (simp_all add: hard_stored_def snap_stored_def conf_stored_def log_stored_def split: option.split)

lemma rewrite_log:
  assumes "writeEntriesLogAtomic v ok es f = (None, f')" "\<forall>e \<in> set es. entry_fits v e"
  shows "log_stored v (fs\<lparr>rf_log := f'\<rparr>) es"
  using assms by (auto simp: writeEntriesLogAtomic_def log_stored_def log_of_def split: option.splits prod.splits if_splits)

lemma log_fits: "log_stored v fs es \<Longrightarrow> \<forall>e \<in> set es. entry_fits v e"
  by (auto simp: log_stored_def log_of_def split: option.splits)

lemma entries_stored_self: "view_wf w \<Longrightarrow> entries_stored w (vw_ents w)"
  unfolding entries_stored_def view_wf_def by (intro exI [of _ "[]"] exI [of _ "vw_offset w"]) simp

lemma stored_SetHardState:
  assumes "env_ok v view" "raft_stored v view s" "raft_SetHardState v ok st s = (None, s')"
  shows "raft_stored v view s'"
proof -
  obtain m where m: "rm_SetHardState (rv_memory v) st (rs_mem s) = (None, m)" "view m = (view (rs_mem s))\<lparr>vw_hard := st\<rparr>"
    using memory_laws(7) [OF assms(1)] by blast
  with assms(2,3) write_hard [OF assms(1)] show ?thesis
    by (auto simp: raft_SetHardState_def raft_stored_def Let_def view_wf_def vw_last_def entries_stored_def split: prod.splits)
qed

lemma stored_SetConfState:
  assumes "env_ok v view" "raft_stored v view s" "raft_SetConfState v ok cs s = (None, s')"
  shows "raft_stored v view s'"
  using assms(2,3) write_members [OF assms(1)]
  by (auto simp: raft_SetConfState_def write_conf_def raft_stored_def Let_def split: prod.splits)

lemma stored_Append:
  assumes e: "env_ok v view" and s: "raft_stored v view s" and pre: "append_pre es (view (rs_mem s))"
    and idx: "unat (raft_index view s) < ix (hd es)" and fits: "\<forall>e \<in> set es. entry_fits v e"
    and a: "raft_Append v w es s = (None, s')"
  shows "raft_stored v view s'"
proof -
  let ?w = "view (rs_mem s)"
  note S = s [unfolded raft_stored_def Let_def] and k = raft_index_def [of view s]
  obtain m where m: "rm_Append (rv_memory v) es (rs_mem s) = (None, m)" "view m = view_Append es ?w"
    using memory_laws(8) [OF e _ pre] S by blast
  have ne: "es \<noteq> []" "consecutive (ix (hd es) - 1) es" "ix (hd es) \<le> vw_last ?w + 1" using pre by (simp_all add: append_pre_def)
  have off: "vw_offset ?w < ix (hd es)"
  proof -
    have "vw_offset ?w \<le> unat (sn_Index (vw_snap ?w))" using S by blast
    with idx show ?thesis unfolding k by linarith
  qed
  have wf: "view_wf ?w" using S by blast
  note va = view_appends [OF wf pre off]
  have snap: "unat (sn_Index (vw_snap ?w)) < ix (hd es)" using idx k by simp
  have last: "unat (sn_Index (vw_snap ?w)) \<le> vw_last (view m)"
  proof -
    have "length (take (ix (hd es) - vw_offset ?w - 1) (vw_ents ?w)) = ix (hd es) - vw_offset ?w - 1"
      using ne(3) off by (auto simp: vw_last_def)
    then have "vw_last (view m) = ix (hd es) - 1 + length es" using off by (simp add: m(2) va(1) vw_last_def)
    moreover have "0 < length es" using ne(1) by simp
    ultimately show ?thesis using snap by linarith
  qed
  obtain p b where p: "rs_entries s = p @ vw_ents ?w" "b + length p = vw_offset ?w" "consecutive b (rs_entries s)"
    using S unfolding entries_stored_def by blast
  show ?thesis
  proof (cases "canAppendEntriesLog es s")
    case True
    obtain f where f: "appendEntriesLog v w (length (rs_entries s)) es (rf_log (rs_files s)) = (None, f)"
      "s' = s\<lparr>rs_mem := m, rs_files := (rs_files s)\<lparr>rf_log := f\<rparr>, rs_entries := rs_entries s @ es\<rparr>"
      using a ne(1) m(1) True by (auto simp: raft_Append_def split: prod.splits option.splits)
    have "case rf_log (rs_files s) of None \<Rightarrow> rs_entries s = [] | Some bs \<Rightarrow> bs = [] \<and> rs_entries s = [] \<or> log_of v (rs_entries s) bs"
      using S by (auto simp: log_stored_def split: option.splits)
    from append_log(1) [OF e fits ne(1) this f(1)] have "log_stored v ((rs_files s)\<lparr>rf_log := f\<rparr>) (rs_entries s @ es)"
      by (auto simp: log_stored_def)
    moreover have at: "ix (hd es) = vw_last ?w + 1"
    proof (cases "rs_entries s = []")
      case True
      with p(1) S snap ne(3) show ?thesis by (simp add: vw_last_def)
    next
      case False
      then have "re_Index (hd es) = re_Index (last (rs_entries s)) + 1" using \<open>canAppendEntriesLog es s\<close>
        by (simp add: canAppendEntriesLog_def ne split: if_splits)
      moreover have "ix (last (rs_entries s)) = vw_last ?w" using consecutive_end [OF p(3) False] p(1,2) by (simp add: vw_last_def)
      moreover have "vw_last ?w + 1 < 2 ^ 64" using consecutive_last wf by (simp add: view_wf_def vw_last_def)
      ultimately show ?thesis by (simp add: unat_word_ariths)
    qed
    moreover have "entries_stored (view m) (rs_entries s @ es)"
      unfolding entries_stored_def
    proof (intro exI conjI)
      have "ix (hd es) - vw_offset ?w - 1 = length (vw_ents ?w)" using at by (simp add: vw_last_def)
      then show "rs_entries s @ es = p @ vw_ents (view m)" by (simp add: m(2) va(1) p(1))
      show "b + length p = vw_offset (view m)" using p(2) by (simp add: m(2) va(1))
      have "b + length (rs_entries s) = ix (hd es) - 1" using at p(1,2) by (simp add: vw_last_def)
      then show "consecutive b (rs_entries s @ es)" using p(3) ne(1,2) by (simp add: consecutive_append)
    qed
    ultimately show ?thesis
      using S last va(2) by (simp add: raft_stored_def Let_def f(2) m(2)) (simp add: va(1))
  next
    case False
    have wm: "view_wf (view m)" using va(2) m(2) by simp
    have r: "reloadEntriesFromMemory v m = Inr (vw_ents (view m))" by (rule reload_entries [OF e wm])
    have "set (vw_ents (view m)) \<subseteq> set (rs_entries s) \<union> set es"
      using set_take_subset by (fastforce simp: m(2) va(1) p(1))
    then have "\<forall>x \<in> set (vw_ents (view m)). entry_fits v x" using fits log_fits S by blast
    then have "log_stored v ((rs_files s)\<lparr>rf_log := f\<rparr>) (vw_ents (view m))"
      if "writeEntriesLogAtomic v ok (vw_ents (view m)) g = (None, f)" for f g ok
      using rewrite_log [OF that] by blast
    with a ne(1) m(1) False r S last va(2) entries_stored_self [OF wm] show ?thesis
      by (auto simp: raft_Append_def reload_and_rewrite_def rewrite_entries_def raft_stored_def Let_def m(2) split: prod.splits)
        (simp_all add: va(1))
  qed
qed

lemma below_top:
  assumes "(i :: u64) \<noteq> - 1" shows "unat i + 1 < 2 ^ 64"
proof -
  have "unat i \<noteq> unat (- 1 :: u64)" using assms by (metis word_unat_eq_iff)
  then have "unat i \<noteq> 2 ^ 64 - 1" by (simp add: unsigned_minus_1_eq_mask mask_eq_exp_minus_1)
  moreover have "unat i < 2 ^ 64" using unsigned_less [where 'b = 64 and 'a = nat, of i] by simp
  ultimately show ?thesis by linarith
qed

lemma stored_ApplySnapshot:
  assumes e: "env_ok v view" and s: "raft_stored v view s" and i: "raft_index view s < sn_Index sn" "sn_Index sn \<noteq> - 1"
    and a: "raft_ApplySnapshot v ok sn s = (None, s')"
  shows "raft_stored v view s'"
proof -
  let ?w = "view (rs_mem s)"
  note S = s [unfolded raft_stored_def Let_def]
  obtain m where m: "rm_ApplySnapshot (rv_memory v) sn (rs_mem s) = (None, m)" "view m = view_ApplySnapshot sn ?w"
    using memory_laws(9) [OF e] i(1) unfolding raft_index_def by blast
  have pos: "0 < unat (sn_Index sn)" using i(1) by (metis gr_zeroI unat_eq_zero word_not_simps(1))
  have "unat (sn_Index sn) + 1 < 2 ^ 64" by (rule below_top [OF i(2)])
  then have wf: "view_wf (view m)" by (simp add: m(2) view_ApplySnapshot_def view_wf_def)
  obtain f1 f2 f3 where f: "writeProtoAtomic v (ok 0) ''snapshot.pb'' (rc_snap (rv_codec v) sn) (rf_snap (rs_files s)) = (None, f1)"
    "writeProtoAtomic v (ok 1) ''conf_state.pb'' (rc_conf (rv_codec v) (sn_ConfState sn)) (rf_conf (rs_files s)) = (None, f2)"
    "writeEntriesLogAtomic v (ok 2) [] (rf_log (rs_files s)) = (None, f3)"
    "s' = s\<lparr>rs_mem := m, rs_entries := [], rs_conf := sn_ConfState sn,
       rs_files := (rs_files s)\<lparr>rf_snap := f1, rf_conf := f2, rf_log := f3\<rparr>\<rparr>"
    using a m(1) by (auto simp: raft_ApplySnapshot_def write_snap_def write_conf_def rewrite_entries_def
        split: prod.splits option.splits)
  note w = write_snapshot [OF e f(1) pos] write_members [OF e f(2)] rewrite_log [OF f(3)]
  have "entries_stored (view m) []"
    using entries_stored_self [OF wf] by (simp add: m(2) view_ApplySnapshot_def)
  then show ?thesis
    using S wf w by (simp add: raft_stored_def Let_def f(4) m(2)) (simp add: view_ApplySnapshot_def vw_last_def)
qed

lemma stored_CreateSnapshot:
  assumes e: "env_ok v view" and s: "raft_stored v view s" and i: "raft_index view s < i" "unat i \<le> vw_last (view (rs_mem s))"
    and a: "raft_CreateSnapshot v ok i cs data s = (Inr sn, s')"
  shows "raft_stored v view s'"
proof -
  let ?w = "view (rs_mem s)"
  note S = s [unfolded raft_stored_def Let_def]
  have lt: "sn_Index (vw_snap ?w) < i" using i(1) by (simp add: raft_index_def)
  then have "unat (sn_Index (vw_snap ?w)) < unat i" by (simp add: word_less_nat_alt)
  moreover have "vw_offset ?w \<le> unat (sn_Index (vw_snap ?w))" using S by blast
  ultimately have off: "vw_offset ?w \<le> unat i" and pos: "0 < unat i" by linarith+
  have wf: "view_wf ?w" using S by blast
  obtain m tm where m: "rm_CreateSnapshot (rv_memory v) i cs data (rs_mem s) = (Inr (view_CreateSnapshot i tm cs data ?w), m)"
    "view m = ?w\<lparr>vw_snap := view_CreateSnapshot i tm cs data ?w\<rparr>"
    using memory_laws(10) [OF e wf lt off i(2)] by blast
  let ?sn = "view_CreateSnapshot i tm cs data ?w" and ?c = "case cs of None \<Rightarrow> rs_conf s | Some c \<Rightarrow> c"
  obtain f1 f2 where f: "writeProtoAtomic v (ok 0) ''snapshot.pb'' (rc_snap (rv_codec v) ?sn) (rf_snap (rs_files s)) = (None, f1)"
    "writeProtoAtomic v (ok 1) ''conf_state.pb'' (rc_conf (rv_codec v) ?c) (rf_conf (rs_files s)) = (None, f2)"
    "s' = s\<lparr>rs_mem := m, rs_conf := ?c, rs_files := (rs_files s)\<lparr>rf_snap := f1, rf_conf := f2\<rparr>\<rparr>"
    using a m(1) by (auto simp: raft_CreateSnapshot_def write_snap_def write_conf_def split: prod.splits option.splits)
  have ci: "sn_Index ?sn = i" by (simp add: view_CreateSnapshot_def)
  note w = write_snapshot [OF e f(1), unfolded ci, OF pos] write_members [OF e f(2)]
  show ?thesis
    using S wf w off i(2) by (simp add: raft_stored_def Let_def f(3) m(2) ci view_wf_def vw_last_def entries_stored_def)
qed

lemma stored_Compact:
  assumes e: "env_ok v view" and s: "raft_stored v view s" and i: "vw_offset (view (rs_mem s)) < unat i" "i \<le> raft_index view s"
    and a: "raft_Compact v ok i s = (None, s')"
  shows "raft_stored v view s'"
proof -
  let ?w = "view (rs_mem s)"
  note S = s [unfolded raft_stored_def Let_def]
  have wf: "view_wf ?w" using S by blast
  have le: "unat i \<le> unat (sn_Index (vw_snap ?w))" using i(2) by (simp add: raft_index_def word_le_nat_alt)
  then have last: "unat i \<le> vw_last ?w" using S by linarith
  obtain m where m: "rm_Compact (rv_memory v) i (rs_mem s) = (None, m)" "view m = view_Compact (unat i) ?w"
    using memory_laws(11) [OF e wf i(1) last] by blast
  have "consecutive (vw_offset ?w + (unat i - vw_offset ?w)) (drop (unat i - vw_offset ?w) (vw_ents ?w))"
    using wf last by (intro consecutive_drop) (auto simp: view_wf_def vw_last_def)
  then have wm: "view_wf (view m)" using i(1) by (simp add: m(2) view_wf_def view_Compact_def)
  obtain f where f: "writeEntriesLogAtomic v ok (vw_ents (view m)) (rf_log (rs_files s)) = (None, f)"
    "s' = s\<lparr>rs_mem := m, rs_entries := vw_ents (view m), rs_files := (rs_files s)\<lparr>rf_log := f\<rparr>\<rparr>"
    using a m(1) reload_entries [OF e wm]
    by (auto simp: raft_Compact_def reload_and_rewrite_def rewrite_entries_def split: prod.splits)
  have "set (vw_ents (view m)) \<subseteq> set (rs_entries s)"
    using S set_drop_subset by (fastforce simp: m(2) view_Compact_def entries_stored_def)
  then have "\<forall>x \<in> set (vw_ents (view m)). entry_fits v x" using log_fits S by blast
  from rewrite_log [OF f(1) this] S wm entries_stored_self [OF wm] le last i(1) show ?thesis
    by (simp add: raft_stored_def Let_def f(2) m(2)) (auto simp: view_Compact_def vw_last_def)
qed

lemma stored_new:
  assumes "env_ok v view" "NewPersistentStorage v no_files = Inr s"
  shows "raft_stored v view s" "vw_ents (view (rs_mem s)) = []" "rs_files s = no_files" "rs_entries s = []"
proof -
  have s: "s = \<lparr>rs_mem = rv_new v, rs_entries = [], rs_conf = no_conf, rs_files = no_files\<rparr>"
    using assms(2) by (simp add: NewPersistentStorage_def load_file_def no_files_def raft_load_entries_def readEntries_def)
  then show "vw_ents (view (rs_mem s)) = []" "rs_files s = no_files" "rs_entries s = []"
    using memory_laws(1) [OF assms(1)] by (simp_all add: empty_view_def)
  show "raft_stored v view s"
    using entries_stored_self [of empty_view]
    by (simp add: s raft_stored_def memory_laws(1) [OF assms(1)] no_files_def log_stored_def hard_stored_def snap_stored_def
        conf_stored_def load_file_def) (simp add: empty_view_def view_wf_def vw_last_def no_conf_def)
qed

lemma raft_runs_stored:
  assumes "env_ok v view" "raft_runs v view s"
  shows "raft_stored v view s"
  using assms(2)
proof induction
  case (rr_new s)
  then show ?case by (rule stored_new(1) [OF assms(1)])
next
  case (rr_hard s st s')
  show ?case by (rule stored_SetHardState [OF assms(1) rr_hard(3,2)])
next
  case (rr_append s es s')
  show ?case by (rule stored_Append [OF assms(1) rr_append(6,2-5)])
next
  case (rr_install s sn s')
  show ?case by (rule stored_ApplySnapshot [OF assms(1) rr_install(5,2-4)])
next
  case (rr_snapshot s i cs data sn s')
  show ?case by (rule stored_CreateSnapshot [OF assms(1) rr_snapshot(5,2-4)])
next
  case (rr_compact s i s')
  show ?case by (rule stored_Compact [OF assms(1) rr_compact(5,2-4)])
next
  case (rr_conf s cs s')
  show ?case by (rule stored_SetConfState [OF assms(1) rr_conf(3,2)])
next
  case (rr_reopen s s')
  from stored_loads [OF assms(1) rr_reopen(3)] rr_reopen(2) show ?case by auto
qed

end
