(* ===== verification/Raft_Group_Runs.thy ===== *)
theory Raft_Group_Runs
  imports Raft_Group Raft_Steps
begin

text \<open>
  Runs of a raft group whose writes go through, with what the documentation of \<open>go.etcd.io/raft\<close> promises
  about the readies it hands out, and the interface of the state machines: applying a command does not depend
  on the replay flag, no error is fatal, and a snapshot restores what it was taken of.
\<close>

section \<open>The state machine as an interface\<close>

locale replayable =
  fixes app :: "apply_context \<Rightarrow> raft_command \<Rightarrow> 'a \<Rightarrow> command_error option \<times> 'a"
  assumes replay_same: "app \<lparr>ac_RaftIndex = i, ac_RaftTerm = t, ac_Replay = True\<rparr> c a =
      app \<lparr>ac_RaftIndex = i, ac_RaftTerm = t, ac_Replay = False\<rparr> c a"
    and never_fatal: "\<not> IsFatalApplyError (fst (app ac c a))"

text \<open>The effect of one committed entry.\<close>

definition entry_effect :: "command_env \<Rightarrow> 'a state_machine \<Rightarrow> raft_entry \<Rightarrow> 'a \<Rightarrow> 'a" where
  "entry_effect ce sm e a =
     (if re_Type e = EntryNormal \<and> re_Data e \<noteq> [] then
        (case DecodeCommand ce (re_Data e) of
           Inl err \<Rightarrow> a
         | Inr c \<Rightarrow> snd (sm_ApplyCommand sm \<lparr>ac_RaftIndex = re_Index e, ac_RaftTerm = re_Term e, ac_Replay = False\<rparr> c a))
      else a)"

definition entry_valid :: "command_env \<Rightarrow> u32 \<Rightarrow> raft_entry \<Rightarrow> bool" where
  "entry_valid ce count e \<longleftrightarrow> re_Type e = EntryNormal \<longrightarrow> re_Data e \<noteq> [] \<longrightarrow>
     (\<exists>c. DecodeCommand ce (re_Data e) = Inr c \<and> Validate ce count c = None)"

definition last_index :: "u64 \<Rightarrow> raft_entry list \<Rightarrow> u64" where
  "last_index k es = foldl (\<lambda>k e. max k (re_Index e)) k es"

context replayable
begin

text \<open>Replay passes an entry whose command decodes and validates, also when the state machine rejects it.\<close>

lemma replay_valid:
  assumes "sm_ApplyCommand sm = app" "entry_valid ce count e"
  shows "replay_entries ce sm count (e # es) k a =
    replay_entries ce sm count es (max k (re_Index e)) (entry_effect ce sm e a)"
proof (cases "re_Type e = EntryNormal \<and> re_Data e \<noteq> []")
  case True
  then obtain c where c: "DecodeCommand ce (re_Data e) = Inr c" "Validate ce count c = None"
    using assms(2) by (auto simp: entry_valid_def)
  let ?ac = "\<lparr>ac_RaftIndex = re_Index e, ac_RaftTerm = re_Term e, ac_Replay = False\<rparr>"
  obtain err a' where a': "app ?ac c a = (err, a')" by fastforce
  have "\<not> IsFatalApplyError err" using never_fatal [of ?ac c a] a' by simp
  with True c a' show ?thesis by (simp add: replay_same assms(1) entry_effect_def)
qed (auto simp: entry_effect_def)

lemma replay_fold:
  assumes "sm_ApplyCommand sm = app" "\<forall>e \<in> set es. entry_valid ce count e"
  shows "replay_entries ce sm count es k a = ((None, last_index k es), fold (entry_effect ce sm) es a)"
  using assms(2)
  by (induction es arbitrary: k a) (simp_all add: replay_valid [OF assms(1)] last_index_def del: replay_entries.simps(2))

end

text \<open>The system state machine, and every state machine made of the log's appliers.\<close>

lemma never_fatal_simps:
  "IsFatalApplyError None = False" "IsFatalApplyError (Some e) = (\<exists>x. e = FatalApply x)"
  by (simp_all add: IsFatalApplyError_def split: command_error.splits)

lemma partition_not_fatal: "PartitionForSpaceID ce u n = Inl e \<Longrightarrow> e \<noteq> FatalApply x"
  by (auto simp: PartitionForSpaceID_def split: if_splits)

lemma validate_not_fatal: "Validate ce n c = Some e \<Longrightarrow> e \<noteq> FatalApply x"
  by (auto simp: Validate_def validate_scope_def partition_not_fatal split: if_splits option.splits sum.splits)

lemma node_not_fatal: "validateSystemNode n = Some e \<Longrightarrow> e \<noteq> FatalApply x"
  by (auto simp: validateSystemNode_def split: if_splits)

lemma collect_not_fatal: "collect_nodes ns m ids = Inl e \<Longrightarrow> e \<noteq> FatalApply x"
  by (induction ns m ids rule: collect_nodes.induct) (auto simp: node_not_fatal split: option.splits if_splits)

lemma bootstrap_not_fatal: "buildBootstrapMetadata se p = Inl e \<Longrightarrow> e \<noteq> FatalApply x"
  by (auto simp: buildBootstrapMetadata_def Let_def collect_not_fatal split: if_splits sum.splits)

interpretation system: replayable "system_ApplyCommand se" for se
  by unfold_locales
    (auto simp: system_ApplyCommand_def never_fatal_simps validate_not_fatal node_not_fatal bootstrap_not_fatal
      split: option.splits sum.splits)

interpretation wal: replayable "wal_ApplyCommand ce registry count now" for ce registry count now
  by unfold_locales
    (auto simp: wal_ApplyCommand_def never_fatal_simps validate_not_fatal split: option.splits prod.splits)

section \<open>What raft promises about a ready\<close>

text \<open>The entries with indexes above \<open>lo\<close> up to \<open>hi\<close>.\<close>

definition log_between :: "raft_view \<Rightarrow> nat \<Rightarrow> nat \<Rightarrow> raft_entry list" where
  "log_between w lo hi = take (hi - lo) (drop (lo - vw_offset w) (vw_ents w))"

definition io_ok :: ready_io where
  "io_ok = \<lparr>io_snap = (\<lambda>_. True), io_hard = True, io_append = WroteAll, io_conf = (\<lambda>_. True)\<rparr>"

definition stored_commit :: "('m \<Rightarrow> raft_view) \<Rightarrow> 'm raft_store \<Rightarrow> nat" where
  "stored_commit view s = unat (hs_Commit (vw_hard (view (rs_mem s))))"

text \<open>
  A snapshot is newer than what is applied and was taken by a state machine of the group; the commit index
  never falls; new entries leave no gap, do not touch committed ones, and carry commands that were proposed,
  hence valid; the committed entries are those behind the applied ones, all of them stored.
\<close>

definition ready_ok ::
  "('m, 'a, 'n) group_env \<Rightarrow> ('m \<Rightarrow> raft_view) \<Rightarrow> raft_ready \<Rightarrow> ('m, 'a, 'n) raft_group \<Rightarrow> bool" where
  "ready_ok ge view rd g \<longleftrightarrow>
     (let sn = rd_Snapshot rd; es = rd_Entries rd;
          g1 = snd (ready_snapshot ge io_ok rd (ready_soft rd g));
          g2 = snd (ready_hard ge io_ok rd g1);
          g3 = snd (ready_entries ge io_ok rd g2);
          w3 = view (rs_mem (g_storage g3))
      in (IsEmptySnap sn \<or> raft_index view (g_storage g) < sn_Index sn \<and> g_appliedIndex g < sn_Index sn \<and> sn_Index sn \<noteq> - 1 \<and>
            (\<exists>snapshot a. sm_Snapshot (ge_sm ge) = Some snapshot \<and> snapshot a = Inr (sn_Data sn))) \<and>
         stored_commit view (g_storage g) \<le> stored_commit view (g_storage g2) \<and>
         (IsEmptySnap sn \<or> unat (sn_Index sn) \<le> stored_commit view (g_storage g2)) \<and>
         (es = [] \<or> append_pre es (view (rs_mem (g_storage g2))) \<and> stored_commit view (g_storage g) < ix (hd es) \<and>
            unat (raft_index view (g_storage g2)) < ix (hd es) \<and>
            (\<forall>e \<in> set es. entry_fits (ge_store ge) e \<and> entry_valid (ge_cmd ge) (g_partitionCount g) e)) \<and>
         stored_commit view (g_storage g3) \<le> vw_last w3 \<and>
         (\<exists>k. unat (g_appliedIndex g3) \<le> k \<and> k \<le> stored_commit view (g_storage g3) \<and>
            rd_CommittedEntries rd = log_between w3 (unat (g_appliedIndex g3)) k))"

section \<open>Runs\<close>

text \<open>
  A group starts on an empty directory, handles readies, proposals, messages, reads and snapshots, and may be
  started again from its files at any time; a restart begins with the state machine \<open>init\<close>.
\<close>

inductive group_runs ::
  "('m, 'a, 'n) group_env \<Rightarrow> ('m \<Rightarrow> raft_view) \<Rightarrow> group_options \<Rightarrow> 'a \<Rightarrow> ('m, 'a, 'n) raft_group \<Rightarrow> bool"
  for ge view opts init where
  gr_start: "NewPersistentStorage (ge_store ge) no_files = Inr s \<Longrightarrow> StartGroup ge opts s init = Inr g \<Longrightarrow>
    group_runs ge view opts init g"
| gr_ready: "group_runs ge view opts init g \<Longrightarrow> ready_ok ge view rd g \<Longrightarrow> processReady ge io_ok rd g = (True, g') \<Longrightarrow>
    group_runs ge view opts init g'"
| gr_snapshot: "group_runs ge view opts init g \<Longrightarrow> raft_index view (g_storage g) < g_appliedIndex g \<Longrightarrow>
    group_CreateSnapshot ge (\<lambda>_. True) True i compact g = (Inr j, g') \<Longrightarrow> group_runs ge view opts init g'"
| gr_propose: "group_runs ge view opts init g \<Longrightarrow> Propose ge c g = (out, g') \<Longrightarrow> group_runs ge view opts init g'"
| gr_forget: "group_runs ge view opts init g \<Longrightarrow> Propose_ctx_done e i g = (err, g') \<Longrightarrow> group_runs ge view opts init g'"
| gr_step: "group_runs ge view opts init g \<Longrightarrow> group_Step ge m g = (m', g') \<Longrightarrow> group_runs ge view opts init g'"
| gr_read: "group_runs ge view opts init g \<Longrightarrow> LinearizableRead_begin ge ctx g = (out, g') \<Longrightarrow> group_runs ge view opts init g'"
| gr_poll: "group_runs ge view opts init g \<Longrightarrow> LinearizableRead_poll ctx gctx i ch g = (out', g') \<Longrightarrow> group_runs ge view opts init g'"
| gr_restart: "group_runs ge view opts init g \<Longrightarrow> NewPersistentStorage (ge_store ge) (rs_files (g_storage g)) = Inr s \<Longrightarrow>
    StartGroup ge opts s init = Inr g' \<Longrightarrow> group_runs ge view opts init g'"

section \<open>The log and the state machine belong together\<close>

definition log_inv ::
  "('m, 'a, 'n) group_env \<Rightarrow> ('m \<Rightarrow> raft_view) \<Rightarrow> u32 \<Rightarrow> 'a \<Rightarrow> 'm raft_store \<Rightarrow> 'a \<Rightarrow> nat \<Rightarrow> bool" where
  "log_inv ge view count init s a k \<longleftrightarrow>
     (let w = view (rs_mem s); b = unat (raft_index view s)
      in raft_stored (ge_store ge) view s \<and> b \<le> k \<and> k \<le> vw_last w \<and> (\<forall>e \<in> set (vw_ents w). entry_valid (ge_cmd ge) count e) \<and>
         (\<exists>base. restoreStateMachineSnapshot (ge_sm ge) (vw_snap w) init = (None, base) \<and>
            a = fold (entry_effect (ge_cmd ge) (ge_sm ge)) (log_between w b k) base))"

lemma log_between_append:
  assumes "vw_offset w \<le> lo" "lo \<le> mid" "mid \<le> hi"
  shows "log_between w lo mid @ log_between w mid hi = log_between w lo hi"
proof -
  have "drop (mid - vw_offset w) (vw_ents w) = drop (mid - lo) (drop (lo - vw_offset w) (vw_ents w))"
    using assms by simp
  moreover have "hi - lo = (mid - lo) + (hi - mid)" using assms by simp
  ultimately show ?thesis unfolding log_between_def by (simp only: take_add)
qed

lemma log_between_same [simp]: "log_between w k k = []"
  by (simp add: log_between_def)

lemma log_inv_apply:
  assumes "log_inv ge view count init s a k" "k \<le> j" "j \<le> vw_last (view (rs_mem s))"
  shows "log_inv ge view count init s (fold (entry_effect (ge_cmd ge) (ge_sm ge)) (log_between (view (rs_mem s)) k j) a) j"
proof -
  let ?w = "view (rs_mem s)" and ?b = "unat (raft_index view s)"
  have o: "vw_offset ?w \<le> ?b" using assms(1) by (simp add: log_inv_def Let_def raft_stored_def raft_index_def)
  have "?b \<le> k" using assms(1) by (simp add: log_inv_def Let_def)
  from log_between_append [OF o this assms(2)] show ?thesis
    using assms \<open>?b \<le> k\<close> by (auto simp: log_inv_def Let_def fold_append simp flip: log_between_append [OF o _ assms(2)])
qed

lemma log_inv_hard:
  assumes e: "env_ok (ge_store ge) view" and i: "log_inv ge view count init s a k"
    and st: "raft_SetHardState (ge_store ge) ok hs s = (None, s')"
  shows "log_inv ge view count init s' a k" "view (rs_mem s') = (view (rs_mem s))\<lparr>vw_hard := hs\<rparr>"
proof -
  obtain m where m: "rm_SetHardState (rv_memory (ge_store ge)) hs (rs_mem s) = (None, m)" "view m = (view (rs_mem s))\<lparr>vw_hard := hs\<rparr>"
    using memory_laws(7) [OF e] by blast
  then show w: "view (rs_mem s') = (view (rs_mem s))\<lparr>vw_hard := hs\<rparr>"
    using st by (auto simp: raft_SetHardState_def split: prod.splits)
  have "raft_stored (ge_store ge) view s'"
    using stored_SetHardState [OF e _ st] i by (simp add: log_inv_def Let_def)
  with i show "log_inv ge view count init s' a k"
    by (simp add: log_inv_def Let_def raft_index_def w vw_last_def log_between_def)
qed

lemma SetConf_mem: "raft_SetConfState v ok cs s = (err, s') \<Longrightarrow> rs_mem s' = rs_mem s"
  by (auto simp: raft_SetConfState_def write_conf_def split: prod.splits)

lemma log_inv_conf:
  assumes e: "env_ok (ge_store ge) view" and i: "log_inv ge view count init s a k"
    and st: "raft_SetConfState (ge_store ge) ok cs s = (None, s')"
  shows "log_inv ge view count init s' a k" "rs_mem s' = rs_mem s"
proof -
  show m: "rs_mem s' = rs_mem s" by (rule SetConf_mem [OF st])
  have "raft_stored (ge_store ge) view s'"
    using stored_SetConfState [OF e _ st] i by (simp add: log_inv_def Let_def)
  with i show "log_inv ge view count init s' a k"
    by (simp add: log_inv_def Let_def raft_index_def m)
qed

lemma take_drop_behind:
  "d + n \<le> k \<Longrightarrow> k \<le> length xs \<Longrightarrow> take n (drop d (take k xs @ ys)) = take n (drop d xs)"
  by (intro nth_equalityI) (auto simp: nth_append)

lemma Append_mem:
  assumes "rm_Append (rv_memory v) es (rs_mem s) = (None, m)" "raft_Append v w es s = (None, s')" "es \<noteq> []"
  shows "rs_mem s' = m"
  using assms by (auto simp: raft_Append_def reload_and_rewrite_def rewrite_entries_def split: if_splits prod.splits option.splits sum.splits)

lemma log_inv_append:
  assumes e: "env_ok (ge_store ge) view" and i: "log_inv ge view count init s a k" and pre: "append_pre es (view (rs_mem s))"
    and idx: "k < ix (hd es)" and es: "\<forall>e \<in> set es. entry_fits (ge_store ge) e \<and> entry_valid (ge_cmd ge) count e"
    and st: "raft_Append (ge_store ge) w es s = (None, s')"
  shows "log_inv ge view count init s' a k" "vw_hard (view (rs_mem s')) = vw_hard (view (rs_mem s))"
    "raft_index view s' = raft_index view s"
proof -
  let ?w = "view (rs_mem s)" and ?b = "unat (raft_index view s)"
  have b: "?b \<le> k" "k \<le> vw_last ?w" "raft_stored (ge_store ge) view s" using i by (simp_all add: log_inv_def Let_def)
  then have o: "vw_offset ?w \<le> ?b" "view_wf ?w" by (simp_all add: raft_stored_def Let_def raft_index_def)
  obtain m where m: "rm_Append (rv_memory (ge_store ge)) es (rs_mem s) = (None, m)" "view m = view_Append es ?w"
    using memory_laws(8) [OF e o(2) pre] by blast
  have ne: "es \<noteq> []" using pre by (simp add: append_pre_def)
  have lt: "vw_offset ?w < ix (hd es)" "?b < ix (hd es)" using o(1) b(1) idx by linarith+
  have w': "view (rs_mem s') = ?w\<lparr>vw_ents := take (ix (hd es) - vw_offset ?w - 1) (vw_ents ?w) @ es\<rparr>"
    unfolding Append_mem [OF m(1) st ne] m(2) by (rule view_appends(1) [OF o(2) pre lt(1)])
  then show "vw_hard (view (rs_mem s')) = vw_hard ?w" and ri: "raft_index view s' = raft_index view s"
    by (simp_all add: raft_index_def)
  have st': "raft_stored (ge_store ge) view s'"
    by (rule stored_Append [OF e b(3) pre lt(2) _ st]) (use es in blast)
  let ?n = "ix (hd es) - vw_offset ?w - 1"
  have n: "k - vw_offset ?w \<le> ?n" using idx by linarith
  have len: "?n \<le> length (vw_ents ?w)" using pre by (auto simp: append_pre_def vw_last_def)
  have "log_between (view (rs_mem s')) ?b k = log_between ?w ?b k"
  proof -
    have "?b - vw_offset ?w + (k - ?b) \<le> ?n" using n o(1) b(1) by linarith
    from take_drop_behind [OF this len] show ?thesis by (simp add: log_between_def w')
  qed
  moreover have "k \<le> vw_last (view (rs_mem s'))" using n len o b(1) by (simp add: w' vw_last_def)
  moreover have "\<forall>e \<in> set (vw_ents (view (rs_mem s'))). entry_valid (ge_cmd ge) count e"
    using i es by (auto simp: w' log_inv_def Let_def dest: in_set_takeD)
  ultimately show "log_inv ge view count init s' a k"
    using i st' by (simp add: log_inv_def Let_def ri) (simp add: w')
qed

lemma log_inv_install:
  assumes e: "env_ok (ge_store ge) view" and i: "log_inv ge view count init s a k"
    and sn: "raft_index view s < sn_Index sn" "sn_Index sn \<noteq> - 1"
    and st: "raft_ApplySnapshot (ge_store ge) ok sn s = (None, s')"
    and restore: "restoreStateMachineSnapshot (ge_sm ge) sn init = (None, a')"
  shows "log_inv ge view count init s' a' (unat (sn_Index sn))" "vw_hard (view (rs_mem s')) = vw_hard (view (rs_mem s))"
    "raft_index view s' = sn_Index sn"
proof -
  obtain m where m: "rm_ApplySnapshot (rv_memory (ge_store ge)) sn (rs_mem s) = (None, m)"
    "view m = view_ApplySnapshot sn (view (rs_mem s))"
    using memory_laws(9) [OF e] sn(1) unfolding raft_index_def by blast
  have "rs_mem s' = m"
    using st m(1) by (auto simp: raft_ApplySnapshot_def write_snap_def write_conf_def rewrite_entries_def
        split: prod.splits option.splits)
  then have w': "view (rs_mem s') = view_ApplySnapshot sn (view (rs_mem s))" by (simp add: m(2))
  then show "vw_hard (view (rs_mem s')) = vw_hard (view (rs_mem s))" and ri: "raft_index view s' = sn_Index sn"
    by (simp_all add: raft_index_def view_ApplySnapshot_def)
  have "raft_stored (ge_store ge) view s'"
    using stored_ApplySnapshot [OF e _ sn st] i by (simp add: log_inv_def Let_def)
  then show "log_inv ge view count init s' a' (unat (sn_Index sn))"
    using restore by (simp add: log_inv_def Let_def ri) (simp add: w' view_ApplySnapshot_def vw_last_def)
qed

lemma log_inv_snapshot:
  assumes e: "env_ok (ge_store ge) view" and i: "log_inv ge view count init s a (unat k)" and k: "raft_index view s < k"
    and st: "raft_CreateSnapshot (ge_store ge) ok k cs data s = (Inr sn, s')"
    and restore: "\<forall>sn. sn_Index sn = k \<longrightarrow> sn_Data sn = data \<longrightarrow> restoreStateMachineSnapshot (ge_sm ge) sn init = (None, a)"
  shows "log_inv ge view count init s' a (unat k)" "vw_hard (view (rs_mem s')) = vw_hard (view (rs_mem s))"
    "raft_index view s' = k" "vw_last (view (rs_mem s')) = vw_last (view (rs_mem s))"
    "vw_offset (view (rs_mem s')) < unat k"
proof -
  let ?w = "view (rs_mem s)"
  have st0: "raft_stored (ge_store ge) view s" "unat k \<le> vw_last ?w" using i by (simp_all add: log_inv_def Let_def)
  then have o: "vw_offset ?w \<le> unat (raft_index view s)" "view_wf ?w" by (simp_all add: raft_stored_def Let_def raft_index_def)
  have lt: "unat (raft_index view s) < unat k" using k by (simp add: word_less_nat_alt)
  obtain m tm where m: "rm_CreateSnapshot (rv_memory (ge_store ge)) k cs data (rs_mem s) = (Inr (view_CreateSnapshot k tm cs data ?w), m)"
    "view m = ?w\<lparr>vw_snap := view_CreateSnapshot k tm cs data ?w\<rparr>"
    using memory_laws(10) [OF e o(2) k [unfolded raft_index_def] _ st0(2)] o(1) lt by fastforce
  have "rs_mem s' = m"
    using st m(1) by (auto simp: raft_CreateSnapshot_def write_snap_def write_conf_def split: prod.splits option.splits)
  then have w': "view (rs_mem s') = ?w\<lparr>vw_snap := view_CreateSnapshot k tm cs data ?w\<rparr>" by (simp add: m(2))
  then show "vw_hard (view (rs_mem s')) = vw_hard ?w" and ri: "raft_index view s' = k"
    and "vw_last (view (rs_mem s')) = vw_last ?w" and "vw_offset (view (rs_mem s')) < unat k"
    using o(1) lt by (simp_all add: raft_index_def view_CreateSnapshot_def vw_last_def)
  have "restoreStateMachineSnapshot (ge_sm ge) (view_CreateSnapshot k tm cs data ?w) init = (None, a)"
    using restore by (simp add: view_CreateSnapshot_def)
  moreover have "raft_stored (ge_store ge) view s'" by (rule stored_CreateSnapshot [OF e st0(1) k st0(2) st])
  ultimately show "log_inv ge view count init s' a (unat k)"
    using i st0(2) by (simp add: log_inv_def Let_def ri) (simp add: w' vw_last_def)
qed

lemma log_inv_compact:
  assumes e: "env_ok (ge_store ge) view" and i: "log_inv ge view count init s a k"
    and j: "vw_offset (view (rs_mem s)) < unat j" "j \<le> raft_index view s"
    and st: "raft_Compact (ge_store ge) ok j s = (None, s')"
  shows "log_inv ge view count init s' a k" "vw_hard (view (rs_mem s')) = vw_hard (view (rs_mem s))"
    "vw_last (view (rs_mem s')) = vw_last (view (rs_mem s))"
proof -
  let ?w = "view (rs_mem s)" and ?b = "unat (raft_index view s)"
  have b: "?b \<le> k" "k \<le> vw_last ?w" "raft_stored (ge_store ge) view s" using i by (simp_all add: log_inv_def Let_def)
  then have wf: "view_wf ?w" by (simp_all add: raft_stored_def Let_def)
  have le: "unat j \<le> ?b" using j(2) by (simp add: word_le_nat_alt)
  then have last: "unat j \<le> vw_last ?w" using b by linarith
  obtain m where m: "rm_Compact (rv_memory (ge_store ge)) j (rs_mem s) = (None, m)" "view m = view_Compact (unat j) ?w"
    using memory_laws(11) [OF e wf j(1) last] by blast
  have "rs_mem s' = m"
    using st m(1) by (auto simp: raft_Compact_def reload_and_rewrite_def rewrite_entries_def split: prod.splits sum.splits)
  then have w': "view (rs_mem s') = ?w\<lparr>vw_offset := unat j, vw_ents := drop (unat j - vw_offset ?w) (vw_ents ?w)\<rparr>"
    by (simp add: m(2) view_Compact_def)
  have vl: "vw_last (view (rs_mem s')) = vw_last ?w" using last j(1) by (simp add: w' vw_last_def)
  have ri: "raft_index view s' = raft_index view s" by (simp add: raft_index_def w')
  show "vw_hard (view (rs_mem s')) = vw_hard ?w" "vw_last (view (rs_mem s')) = vw_last ?w" using vl by (simp_all add: w')
  have "log_between (view (rs_mem s')) ?b k = log_between ?w ?b k" using j(1) le by (simp add: log_between_def w')
  moreover have "raft_stored (ge_store ge) view s'" by (rule stored_Compact [OF e b(3) j st])
  moreover have "\<forall>e \<in> set (vw_ents (view (rs_mem s'))). entry_valid (ge_cmd ge) count e"
    using i by (auto simp: w' log_inv_def Let_def dest: in_set_dropD)
  ultimately show "log_inv ge view count init s' a k"
    using i by (simp add: log_inv_def Let_def ri vl) (simp add: w')
qed

text \<open>Opened again, the storage has the same log behind its snapshot.\<close>

lemma log_inv_reopen:
  assumes e: "env_ok (ge_store ge) view" and i: "log_inv ge view count init s a k"
    and st: "NewPersistentStorage (ge_store ge) (rs_files s) = Inr s'"
  shows "log_inv ge view count init s' a k" "vw_hard (view (rs_mem s')) = vw_hard (view (rs_mem s))"
    "vw_last (view (rs_mem s')) = vw_last (view (rs_mem s))" "vw_offset (view (rs_mem s')) = unat (raft_index view s')"
    "raft_index view s' = raft_index view s" "raft_InitialState (ge_store ge) s' = raft_InitialState (ge_store ge) s"
    "\<And>lo hi. unat (raft_index view s) \<le> lo \<Longrightarrow> log_between (view (rs_mem s')) lo hi = log_between (view (rs_mem s)) lo hi"
proof -
  let ?w = "view (rs_mem s)" and ?b = "unat (raft_index view s)"
  have b: "?b \<le> k" "k \<le> vw_last ?w" "raft_stored (ge_store ge) view s" using i by (simp_all add: log_inv_def Let_def)
  then have o: "vw_offset ?w \<le> ?b" "?b \<le> vw_last ?w" by (simp_all add: raft_stored_def Let_def raft_index_def)
  from stored_loads [OF e b(3)] st have
    s': "raft_stored (ge_store ge) view s'" "vw_hard (view (rs_mem s')) = vw_hard ?w" "vw_snap (view (rs_mem s')) = vw_snap ?w"
      "vw_offset (view (rs_mem s')) = ?b" "vw_ents (view (rs_mem s')) = drop (?b - vw_offset ?w) (vw_ents ?w)"
      "rs_conf s' = rs_conf s"
    by auto
  show "vw_hard (view (rs_mem s')) = vw_hard ?w" by (rule s'(2))
  show ri: "raft_index view s' = raft_index view s" by (simp add: raft_index_def s'(3))
  show last: "vw_last (view (rs_mem s')) = vw_last ?w" using o by (auto simp: vw_last_def s'(4,5))
  show "vw_offset (view (rs_mem s')) = unat (raft_index view s')" by (simp add: ri s'(4))
  show "raft_InitialState (ge_store ge) s' = raft_InitialState (ge_store ge) s"
    by (simp add: raft_InitialState_def memory_laws(2) [OF e] s'(2,3,6))
  show lb: "log_between (view (rs_mem s')) lo hi = log_between ?w lo hi" if "?b \<le> lo" for lo hi
    using that o(1) by (simp add: log_between_def s'(4,5))
  have "\<forall>x \<in> set (vw_ents (view (rs_mem s'))). entry_valid (ge_cmd ge) count x"
    using i by (auto simp: s'(5) log_inv_def Let_def dest: in_set_dropD)
  then show "log_inv ge view count init s' a k"
    using i s'(1) lb [of ?b k] by (simp add: log_inv_def Let_def ri last s'(3))
qed

section \<open>Applying the committed entries\<close>

lemma completeWaiter_keeps [simp]:
  "g_sm (completeWaiter i out g) = g_sm g" "g_storage (completeWaiter i out g) = g_storage g"
  "g_appliedIndex (completeWaiter i out g) = g_appliedIndex g" "g_partitionCount (completeWaiter i out g) = g_partitionCount g"
  by (simp_all add: completeWaiter_def split: option.split)

lemma completeReadWaiter_keeps [simp]:
  "g_sm (completeReadWaiter i out g) = g_sm g" "g_storage (completeReadWaiter i out g) = g_storage g"
  "g_appliedIndex (completeReadWaiter i out g) = g_appliedIndex g" "g_partitionCount (completeReadWaiter i out g) = g_partitionCount g"
  by (simp_all add: completeReadWaiter_def split: option.split)

lemma failReadWaiters_keeps [simp]:
  "g_sm (failReadWaiters err g) = g_sm g" "g_storage (failReadWaiters err g) = g_storage g"
  "g_appliedIndex (failReadWaiters err g) = g_appliedIndex g" "g_partitionCount (failReadWaiters err g) = g_partitionCount g"
  by (simp_all add: failReadWaiters_def)

lemma ready_reads_keeps [simp]:
  "g_sm (ready_reads rs g) = g_sm g" "g_storage (ready_reads rs g) = g_storage g"
  "g_appliedIndex (ready_reads rs g) = g_appliedIndex g" "g_partitionCount (ready_reads rs g) = g_partitionCount g"
  by (induction rs g rule: ready_reads.induct) simp_all

lemma ready_soft_keeps [simp]:
  "g_sm (ready_soft rd g) = g_sm g" "g_storage (ready_soft rd g) = g_storage g"
  "g_appliedIndex (ready_soft rd g) = g_appliedIndex g" "g_partitionCount (ready_soft rd g) = g_partitionCount g"
  by (simp_all add: ready_soft_def Let_def split: option.split)

lemma markApplied_fields [simp]:
  "g_sm (markApplied i g) = g_sm g" "g_storage (markApplied i g) = g_storage g" "g_partitionCount (markApplied i g) = g_partitionCount g"
  "g_appliedIndex (markApplied i g) = max (g_appliedIndex g) i"
  by (auto simp: markApplied_def max_def less_imp_le)

definition group_log :: "('m, 'a, 'n) group_env \<Rightarrow> ('m \<Rightarrow> raft_view) \<Rightarrow> u32 \<Rightarrow> 'a \<Rightarrow> ('m, 'a, 'n) raft_group \<Rightarrow> bool" where
  "group_log ge view count init g \<longleftrightarrow> g_partitionCount g = count \<and>
     log_inv ge view count init (g_storage g) (g_sm g) (unat (g_appliedIndex g))"

text \<open>One entry behind the applied ones.\<close>

lemma applyEntry_effect:
  assumes "applyEntry ge ok e g = (None, g')" "g_appliedIndex g < re_Index e"
  shows "g_sm g' = entry_effect (ge_cmd ge) (ge_sm ge) e (g_sm g)" "g_appliedIndex g' = re_Index e"
    "g_partitionCount g' = g_partitionCount g"
    "g_storage g' = g_storage g \<or> (\<exists>cs. raft_SetConfState (ge_store ge) ok cs (g_storage g) = (None, g_storage g'))"
proof -
  have n: "\<not> alreadyApplied (re_Index e) g" using assms(2) by (auto simp: alreadyApplied_def)
  have m: "max (g_appliedIndex g) (re_Index e) = re_Index e" using assms(2) by simp
  have "g_sm g' = entry_effect (ge_cmd ge) (ge_sm ge) e (g_sm g) \<and> g_appliedIndex g' = re_Index e \<and>
    g_partitionCount g' = g_partitionCount g \<and>
    (g_storage g' = g_storage g \<or> (\<exists>cs. raft_SetConfState (ge_store ge) ok cs (g_storage g) = (None, g_storage g')))"
  proof (cases "re_Type e = EntryNormal \<and> re_Data e \<noteq> []")
    case True
    then have "apply_command ge e g = (None, g')" using assms(1) n by (simp add: applyEntry_def)
    then show ?thesis
      using True m by (auto simp: apply_command_def Let_def entry_effect_def never_fatal_simps split: sum.splits prod.splits if_splits option.splits)
  next
    case False
    then have "apply_conf_change ge ok e g = (None, g') \<and> re_Type e \<noteq> EntryNormal \<or> g' = markApplied (re_Index e) g"
      using assms(1) n by (auto simp: applyEntry_def split: if_splits)
    then show ?thesis
      using False m by (auto simp: apply_conf_change_def entry_effect_def split: option.splits prod.splits)
  qed
  then show "g_sm g' = entry_effect (ge_cmd ge) (ge_sm ge) e (g_sm g)" "g_appliedIndex g' = re_Index e"
    "g_partitionCount g' = g_partitionCount g"
    "g_storage g' = g_storage g \<or> (\<exists>cs. raft_SetConfState (ge_store ge) ok cs (g_storage g) = (None, g_storage g'))"
    by blast+
qed

lemma log_inv_mem:
  "log_inv ge view count init s a k \<Longrightarrow> rs_mem s' = rs_mem s \<Longrightarrow> raft_stored (ge_store ge) view s' \<Longrightarrow>
    log_inv ge view count init s' a k"
  by (simp add: log_inv_def Let_def raft_index_def)

lemma applyEntries_effect:
  assumes "env_ok (ge_store ge) view" "applyEntries ge ok es g = (None, g')" "consecutive (unat (g_appliedIndex g)) es"
    and "raft_stored (ge_store ge) view (g_storage g)"
  shows "g_sm g' = fold (entry_effect (ge_cmd ge) (ge_sm ge)) es (g_sm g) \<and>
    unat (g_appliedIndex g') = unat (g_appliedIndex g) + length es \<and> g_partitionCount g' = g_partitionCount g \<and>
    rs_mem (g_storage g') = rs_mem (g_storage g) \<and> raft_stored (ge_store ge) view (g_storage g')"
  using assms(2-4)
proof (induction es arbitrary: g)
  case (Cons e es)
  obtain g1 where g1: "applyEntry ge (ok (re_Index e)) e g = (None, g1)" "applyEntries ge ok es g1 = (None, g')"
    using Cons.prems(1) by (auto split: prod.splits option.splits)
  have e: "ix e = unat (g_appliedIndex g) + 1" "consecutive (unat (g_appliedIndex g) + 1) es"
    using Cons.prems(2) by simp_all
  then have "g_appliedIndex g < re_Index e" by (simp add: word_less_nat_alt)
  note a = applyEntry_effect [OF g1(1) this]
  have st: "rs_mem (g_storage g1) = rs_mem (g_storage g)" "raft_stored (ge_store ge) view (g_storage g1)"
    using a(4) Cons.prems(3) stored_SetConfState [OF assms(1)] by (auto dest: SetConf_mem)
  from Cons.IH [OF g1(2) _ st(2)] e a st(1) show ?case by simp
qed simp

definition group_inv :: "('m, 'a, 'n) group_env \<Rightarrow> ('m \<Rightarrow> raft_view) \<Rightarrow> u32 \<Rightarrow> 'a \<Rightarrow> ('m, 'a, 'n) raft_group \<Rightarrow> bool" where
  "group_inv ge view count init g \<longleftrightarrow> group_log ge view count init g \<and>
     unat (g_appliedIndex g) \<le> stored_commit view (g_storage g) \<and>
     stored_commit view (g_storage g) \<le> vw_last (view (rs_mem (g_storage g)))"

lemma log_between_consecutive:
  assumes "view_wf w" "vw_offset w \<le> lo" "lo \<le> vw_last w"
  shows "consecutive lo (log_between w lo hi)"
  using consecutive_take [OF consecutive_drop [of "vw_offset w" "vw_ents w" "lo - vw_offset w"], of "hi - lo"] assms
  by (simp add: view_wf_def vw_last_def log_between_def)

lemma applyEntries_log:
  assumes e: "env_ok (ge_store ge) view" and i: "group_log ge view count init g"
    and k: "unat (g_appliedIndex g) \<le> k" "k \<le> vw_last (view (rs_mem (g_storage g)))"
    and a: "applyEntries ge ok (log_between (view (rs_mem (g_storage g))) (unat (g_appliedIndex g)) k) g = (None, g')"
  shows "group_log ge view count init g'" "unat (g_appliedIndex g') = k" "rs_mem (g_storage g') = rs_mem (g_storage g)"
proof -
  let ?w = "view (rs_mem (g_storage g))" and ?k = "unat (g_appliedIndex g)"
  have l: "log_inv ge view count init (g_storage g) (g_sm g) ?k" and c: "g_partitionCount g = count"
    using i by (simp_all add: group_log_def)
  then have st: "raft_stored (ge_store ge) view (g_storage g)" "unat (raft_index view (g_storage g)) \<le> ?k" "?k \<le> vw_last ?w"
    by (simp_all add: log_inv_def Let_def)
  then have w: "view_wf ?w" "vw_offset ?w \<le> ?k" by (auto simp: raft_stored_def Let_def raft_index_def)
  have len: "length (log_between ?w ?k k) = k - ?k" using k w(2) by (simp add: log_between_def vw_last_def)
  note eff = applyEntries_effect [OF e a log_between_consecutive [OF w st(3)] st(1)]
  show "unat (g_appliedIndex g') = k" "rs_mem (g_storage g') = rs_mem (g_storage g)"
    using eff len k(1) by simp_all
  with eff c log_inv_mem [OF log_inv_apply [OF l k], of "g_storage g'"] show "group_log ge view count init g'"
    by (simp add: group_log_def)
qed

section \<open>A ready, a snapshot, a restart\<close>

lemma snapshot_at_applied:
  "group_CreateSnapshot ge ok ok_log 0 compact g = group_CreateSnapshot ge ok ok_log (g_appliedIndex g) compact g"
  by (simp only: group_CreateSnapshot_def Let_def simp_thms if_True if_cancel)

locale raft_machine = replayable "sm_ApplyCommand sm" for sm :: "'a state_machine" +
  assumes restores: "sm_Snapshot sm = Some snapshot \<Longrightarrow> snapshot a = Inr d \<Longrightarrow>
    d \<noteq> [] \<and> (\<exists>restore. sm_RestoreSnapshot sm = Some restore \<and> restore d b = (None, a))"
begin

lemma restores_from:
  assumes "sm_Snapshot sm = Some snapshot" "snapshot a = Inr (sn_Data sn)" "\<not> IsEmptySnap sn"
  shows "restoreStateMachineSnapshot sm sn b = (None, a)"
  using restores [OF assms(1,2), of b] assms(3) by (auto simp: restoreStateMachineSnapshot_def)

lemma ready_snapshot_log:
  assumes e: "env_ok (ge_store ge) view" and sm: "ge_sm ge = sm" and i: "group_log ge view count init g"
    and r: "ready_snapshot ge io_ok rd g = (None, g1)"
    and ok: "IsEmptySnap (rd_Snapshot rd) \<or> raft_index view (g_storage g) < sn_Index (rd_Snapshot rd) \<and>
      g_appliedIndex g < sn_Index (rd_Snapshot rd) \<and> sn_Index (rd_Snapshot rd) \<noteq> - 1 \<and>
      (\<exists>snapshot a. sm_Snapshot sm = Some snapshot \<and> snapshot a = Inr (sn_Data (rd_Snapshot rd)))"
  shows "group_log ge view count init g1" "stored_commit view (g_storage g1) = stored_commit view (g_storage g)"
    "g_appliedIndex g1 = (if IsEmptySnap (rd_Snapshot rd) then g_appliedIndex g else sn_Index (rd_Snapshot rd))"
    "IsEmptySnap (rd_Snapshot rd) \<or> raft_index view (g_storage g1) = sn_Index (rd_Snapshot rd)"
proof -
  let ?sn = "rd_Snapshot rd"
  have "group_log ge view count init g1 \<and> stored_commit view (g_storage g1) = stored_commit view (g_storage g) \<and>
    g_appliedIndex g1 = (if IsEmptySnap ?sn then g_appliedIndex g else sn_Index ?sn) \<and>
    (IsEmptySnap ?sn \<or> raft_index view (g_storage g1) = sn_Index ?sn)"
  proof (cases "IsEmptySnap ?sn")
    case True
    then show ?thesis using r i by (simp add: ready_snapshot_def)
  next
    case False
    then obtain snapshot a where a: "sm_Snapshot sm = Some snapshot" "snapshot a = Inr (sn_Data ?sn)"
      and k: "raft_index view (g_storage g) < sn_Index ?sn" "g_appliedIndex g < sn_Index ?sn" "sn_Index ?sn \<noteq> - 1"
      using ok by auto
    note restored = restores_from [OF a False]
    obtain s where s: "raft_ApplySnapshot (ge_store ge) (io_snap io_ok) ?sn (g_storage g) = (None, s)"
      "g1 = markApplied (sn_Index ?sn) (g\<lparr>g_storage := s, g_sm := a\<rparr>)"
      using r False restored by (auto simp: ready_snapshot_def sm split: prod.splits option.splits)
    have l: "log_inv ge view count init (g_storage g) (g_sm g) (unat (g_appliedIndex g))" "g_partitionCount g = count"
      using i by (simp_all add: group_log_def)
    note inst = log_inv_install [OF e l(1) k(1,3) s(1), unfolded sm, OF restored]
    have "max (g_appliedIndex g) (sn_Index ?sn) = sn_Index ?sn" using k(2) by simp
    then show ?thesis using inst l(2) False by (simp add: group_log_def s(2) stored_commit_def)
  qed
  then show "group_log ge view count init g1" "stored_commit view (g_storage g1) = stored_commit view (g_storage g)"
    "g_appliedIndex g1 = (if IsEmptySnap ?sn then g_appliedIndex g else sn_Index ?sn)"
    "IsEmptySnap ?sn \<or> raft_index view (g_storage g1) = sn_Index ?sn" by blast+
qed

lemma ready_inv:
  assumes e: "env_ok (ge_store ge) view" and sm: "ge_sm ge = sm" and i: "group_inv ge view count init g"
    and ok: "ready_ok ge view rd g" and p: "processReady ge io_ok rd g = (True, g')"
  shows "group_inv ge view count init g'"
proof -
  obtain g1 g2 g3 g4 where r:
    "ready_snapshot ge io_ok rd (ready_soft rd g) = (None, g1)" "ready_hard ge io_ok rd g1 = (None, g2)"
    "ready_entries ge io_ok rd g2 = (None, g3)"
    "applyEntries ge (\<lambda>_. True) (rd_CommittedEntries rd) (g3\<lparr>g_sent := g_sent g3 @ rd_Messages rd\<rparr>) = (None, g4)"
    "g' = ready_reads (rd_ReadStates rd) g4"
    using p by (auto simp: processReady_def io_ok_def split: prod.splits option.splits)
  note o = ok [unfolded ready_ok_def Let_def r(1-3) snd_conv]
  have g: "group_log ge view count init (ready_soft rd g)" "unat (g_appliedIndex g) \<le> stored_commit view (g_storage g)"
    using i by (simp_all add: group_inv_def group_log_def)
  from ready_snapshot_log [OF e sm g(1) r(1)] o have
    s1: "group_log ge view count init g1" "stored_commit view (g_storage g1) = stored_commit view (g_storage g)"
      "g_appliedIndex g1 = (if IsEmptySnap (rd_Snapshot rd) then g_appliedIndex g else sn_Index (rd_Snapshot rd))"
      "IsEmptySnap (rd_Snapshot rd) \<or> raft_index view (g_storage g1) = sn_Index (rd_Snapshot rd)"
    by (auto simp: sm)
  have "group_log ge view count init g2 \<and> g_appliedIndex g2 = g_appliedIndex g1 \<and>
      raft_index view (g_storage g2) = raft_index view (g_storage g1)"
  proof (cases "IsEmptyHardState (rd_HardState rd)")
    case True
    then show ?thesis using r(2) s1(1) by (simp add: ready_hard_def)
  next
    case False
    then obtain s where s: "raft_SetHardState (ge_store ge) True (rd_HardState rd) (g_storage g1) = (None, s)" "g_storage g2 = s"
      "g_sm g2 = g_sm g1" "g_appliedIndex g2 = g_appliedIndex g1" "g_partitionCount g2 = g_partitionCount g1"
      using r(2) by (auto simp: ready_hard_def Let_def io_ok_def split: prod.splits option.splits)
    have l: "log_inv ge view count init (g_storage g1) (g_sm g1) (unat (g_appliedIndex g1))" "g_partitionCount g1 = count"
      using s1(1) by (simp_all add: group_log_def)
    from log_inv_hard [OF e l(1) s(1)] l(2) s(2-5) show ?thesis by (simp add: group_log_def raft_index_def)
  qed
  then have s2: "group_log ge view count init g2" "g_appliedIndex g2 = g_appliedIndex g1"
      "raft_index view (g_storage g2) = raft_index view (g_storage g1)" by blast+
  have a2: "unat (g_appliedIndex g2) \<le> stored_commit view (g_storage g2)"
    using o g(2) s1(3) s2(2) by (auto split: if_splits)
  have s3: "group_log ge view count init g3 \<and> g_appliedIndex g3 = g_appliedIndex g2 \<and>
      stored_commit view (g_storage g3) = stored_commit view (g_storage g2)"
  proof (cases "rd_Entries rd = []")
    case True
    then show ?thesis using r(3) s2(1) by (simp add: ready_entries_def)
  next
    case False
    let ?es = "rd_Entries rd"
    obtain s where s: "raft_Append (ge_store ge) WroteAll ?es (g_storage g2) = (None, s)" "g3 = g2\<lparr>g_storage := s\<rparr>"
      using r(3) False by (auto simp: ready_entries_def io_ok_def split: prod.splits option.splits)
    have es: "append_pre ?es (view (rs_mem (g_storage g2)))" "stored_commit view (g_storage g) < ix (hd ?es)"
      "unat (raft_index view (g_storage g2)) < ix (hd ?es)"
      "\<forall>e \<in> set ?es. entry_fits (ge_store ge) e \<and> entry_valid (ge_cmd ge) (g_partitionCount g) e"
      using o False by blast+
    have c: "g_partitionCount g = count" using i by (simp add: group_inv_def group_log_def)
    have k: "unat (g_appliedIndex g2) < ix (hd ?es)"
    proof (cases "IsEmptySnap (rd_Snapshot rd)")
      case True
      then show ?thesis using s1(3) s2(2) g(2) es(2) by simp
    next
      case nonempty: False
      then have "raft_index view (g_storage g2) = g_appliedIndex g2" using s1(3,4) s2(2,3) by simp
      then show ?thesis using es(3) by simp
    qed
    have l: "log_inv ge view count init (g_storage g2) (g_sm g2) (unat (g_appliedIndex g2))" "g_partitionCount g2 = count"
      using s2(1) by (simp_all add: group_log_def)
    from log_inv_append [OF e l(1) es(1) k es(4) [unfolded c] s(1)] l(2) show ?thesis
      by (simp add: group_log_def s(2) stored_commit_def)
  qed
  obtain k where k: "unat (g_appliedIndex g3) \<le> k" "k \<le> stored_commit view (g_storage g3)"
    "rd_CommittedEntries rd = log_between (view (rs_mem (g_storage g3))) (unat (g_appliedIndex g3)) k"
    and last: "stored_commit view (g_storage g3) \<le> vw_last (view (rs_mem (g_storage g3)))"
    using o by blast
  let ?g = "g3\<lparr>g_sent := g_sent g3 @ rd_Messages rd\<rparr>"
  have "group_log ge view count init ?g" using s3 [THEN conjunct1] by (simp add: group_log_def)
  from applyEntries_log [OF e this, of k "\<lambda>_. True" g4] r(4) k last have
    "group_log ge view count init g4" "unat (g_appliedIndex g4) = k" "rs_mem (g_storage g4) = rs_mem (g_storage g3)" by simp_all
  with k(2) last show ?thesis by (simp add: group_inv_def group_log_def r(5) stored_commit_def)
qed

lemma snapshot_inv:
  assumes e: "env_ok (ge_store ge) view" and sm: "ge_sm ge = sm" and i: "group_inv ge view count init g"
    and k: "raft_index view (g_storage g) < g_appliedIndex g"
    and p: "group_CreateSnapshot ge (\<lambda>_. True) True index compact g = (Inr j, g')"
  shows "group_inv ge view count init g'"
proof -
  let ?k = "g_appliedIndex g"
  have l: "log_inv ge view count init (g_storage g) (g_sm g) (unat ?k)" "g_partitionCount g = count"
    using i by (simp_all add: group_inv_def group_log_def)
  have pos: "0 < ?k" using k by (rule le_less_trans [rotated]) simp
  obtain hs cs0 where init: "raft_InitialState (ge_store ge) (g_storage g) = Inr (hs, cs0)"
    by (simp add: raft_InitialState_def memory_laws(2) [OF e] Let_def)
  obtain snapshot where d1: "sm_Snapshot sm = Some snapshot"
    using p by (cases "sm_Snapshot sm") (simp_all add: group_CreateSnapshot_def sm)
  have idx: "index = 0 \<or> index = ?k"
    using p d1 by (cases "index = 0"; cases "index = ?k") (simp_all add: group_CreateSnapshot_def sm)
  then have p: "group_CreateSnapshot ge (\<lambda>_. True) True ?k compact g = (Inr j, g')"
    using p by (auto simp: snapshot_at_applied)
  have k0: "?k \<noteq> 0" using pos by simp
  obtain data where d2: "snapshot (g_sm g) = Inr data"
    using p d1 k0 by (cases "snapshot (g_sm g)") (simp_all add: group_CreateSnapshot_def sm Let_def)
  note d = d1 d2
  define cs where "cs = (if emptyConfState cs0 then cs0\<lparr>cs_Voters := g_peers g\<rparr> else cs0)"
  obtain r s where rs: "raft_CreateSnapshot (ge_store ge) (\<lambda>_. True) ?k (Some cs) data (g_storage g) = (r, s)" by fastforce
  obtain sn where sn: "r = Inr sn"
    using p d k0 init rs by (cases r) (simp_all add: group_CreateSnapshot_def sm Let_def cs_def)
  note s = rs [unfolded sn]
  have p': "(if compact then (case raft_Compact (ge_store ge) True ?k s of
        (Some e, s') \<Rightarrow> (Inl (StorageError e), g\<lparr>g_storage := s'\<rparr>)
      | (None, s') \<Rightarrow> (Inr (sn_Index sn), g\<lparr>g_storage := s'\<rparr>))
    else (Inr (sn_Index sn), g\<lparr>g_storage := s\<rparr>)) = (Inr j, g')"
    using p d k0 init s by (simp add: group_CreateSnapshot_def sm Let_def cs_def)
  have g': "\<not> compact \<and> g' = g\<lparr>g_storage := s\<rparr> \<or>
      (\<exists>s'. raft_Compact (ge_store ge) True ?k s = (None, s') \<and> g' = g\<lparr>g_storage := s'\<rparr>)"
  proof (cases compact)
    case True
    obtain er s' where c: "raft_Compact (ge_store ge) True ?k s = (er, s')" by fastforce
    with True p' show ?thesis by (cases er) simp_all
  next
    case False
    with p' show ?thesis by simp
  qed
  have r: "restoreStateMachineSnapshot (ge_sm ge) sn' init = (None, g_sm g)" if "sn_Index sn' = ?k" "sn_Data sn' = data" for sn'
    using restores_from [OF d(1), of "g_sm g" sn' init] d(2) that pos by (auto simp: IsEmptySnap_def sm)
  then have "\<forall>sn'. sn_Index sn' = ?k \<longrightarrow> sn_Data sn' = data \<longrightarrow> restoreStateMachineSnapshot (ge_sm ge) sn' init = (None, g_sm g)"
    by blast
  note sn = log_inv_snapshot [OF e l(1) k s this]
  have old: "group_inv ge view count init (g\<lparr>g_storage := s\<rparr>)"
    using i l(2) sn by (simp add: group_inv_def group_log_def stored_commit_def)
  from g' show ?thesis
  proof
    assume "\<not> compact \<and> g' = g\<lparr>g_storage := s\<rparr>"
    then show ?thesis using old by simp
  next
    assume "\<exists>s'. raft_Compact (ge_store ge) True ?k s = (None, s') \<and> g' = g\<lparr>g_storage := s'\<rparr>"
    then obtain s' where s': "raft_Compact (ge_store ge) True ?k s = (None, s')" "g' = g\<lparr>g_storage := s'\<rparr>" by blast
    have "?k \<le> raft_index view s" by (simp add: sn(3))
    note c = log_inv_compact [OF e sn(1,5) this s'(1)]
    have "group_log ge view count init (g\<lparr>g_storage := s'\<rparr>)" using c(1) l(2) by (simp add: group_log_def)
    moreover have "stored_commit view s' = stored_commit view s" by (simp only: stored_commit_def c(2))
    ultimately show ?thesis using old by (simp add: group_inv_def s'(2) c(3))
  qed
qed

end

lemma unat_succ: "unat (w :: u64) + 1 < 2 ^ 64 \<Longrightarrow> unat (w + 1) = unat w + 1"
  using unat_add_lem [of w 1] by simp

lemma last_index_consecutive: "consecutive (unat k) es \<Longrightarrow> unat (last_index k es) = unat k + length es"
proof (induction es arbitrary: k)
  case (Cons e es)
  then have e: "ix e = unat k + 1" "consecutive (ix e) es" by simp_all
  then have "max k (re_Index e) = re_Index e" by (simp add: max_def word_le_nat_alt)
  then have "last_index k (e # es) = last_index (re_Index e) es" by (simp add: last_index_def)
  with Cons.IH [OF e(2)] e(1) show ?case by simp
qed (simp add: last_index_def)

context replayable
begin

lemma restart_replays:
  assumes e: "env_ok (ge_store ge) view" and sm: "sm_ApplyCommand (ge_sm ge) = app" and i: "group_inv ge view count init g"
    and st: "NewPersistentStorage (ge_store ge) (rs_files (g_storage g)) = Inr s"
  defines "w \<equiv> view (rs_mem (g_storage g))"
  shows "restoreSnapshotAndReplayCommittedEntries (ge_store ge) (ge_cmd ge) (ge_sm ge) count s init =
    ((None, hs_Commit (vw_hard w)), fold (entry_effect (ge_cmd ge) (ge_sm ge))
       (log_between w (unat (g_appliedIndex g)) (unat (hs_Commit (vw_hard w)))) (g_sm g))"
proof -
  let ?v = "ge_store ge" and ?w = "view (rs_mem s)" and ?R = "raft_index view s" and ?C = "hs_Commit (vw_hard w)"
    and ?k = "unat (g_appliedIndex g)" and ?eff = "entry_effect (ge_cmd ge) (ge_sm ge)"
  have l: "log_inv ge view count init (g_storage g) (g_sm g) ?k" using i by (simp add: group_inv_def group_log_def)
  have c: "?k \<le> unat ?C" "unat ?C \<le> vw_last w" using i by (simp_all add: group_inv_def stored_commit_def w_def)
  note r = log_inv_reopen [OF e l st]
  have hard: "vw_hard ?w = vw_hard w" and last: "vw_last ?w = vw_last w" using r(2,3) by (simp_all add: w_def)
  obtain base where base: "restoreStateMachineSnapshot (ge_sm ge) (vw_snap ?w) init = (None, base)"
    "g_sm g = fold ?eff (log_between ?w (unat ?R) ?k) base" and k: "unat ?R \<le> ?k"
    and val: "\<forall>x \<in> set (vw_ents ?w). entry_valid (ge_cmd ge) count x" and st': "raft_stored ?v view s"
    using r(1) by (auto simp: log_inv_def Let_def)
  have wf: "view_wf ?w" using st' by (simp add: raft_stored_def Let_def)
  have top: "vw_last ?w + 1 < 2 ^ 64" using consecutive_last wf by (simp add: view_wf_def vw_last_def)
  have off: "vw_offset ?w = unat ?R" by (rule r(4))
  let ?es = "log_between ?w (unat ?R) (unat ?C)"
  have sum: "fold ?eff ?es base = fold ?eff (log_between w ?k (unat ?C)) (g_sm g)"
  proof -
    have "log_between w ?k (unat ?C) = log_between ?w ?k (unat ?C)" using r(7) k r(5) by (simp add: w_def)
    moreover have "?es = log_between ?w (unat ?R) ?k @ log_between ?w ?k (unat ?C)"
      using log_between_append [of ?w "unat ?R" ?k "unat ?C"] off k c(1) by simp
    ultimately show ?thesis by (simp add: base(2))
  qed
  have words: "rm_FirstIndex (rv_memory ?v) (rs_mem s) = Inr (?R + 1)" "rm_LastIndex (rv_memory ?v) (rs_mem s) = Inr (of_nat (vw_last w))"
    using memory_laws(4,5) [OF e wf] off last by (simp_all add: add.commute)
  have "?C \<le> of_nat (vw_last w)"
    using c(2) top last unat_of_nat_small(4) [of "vw_last w"] by (simp add: word_le_nat_alt)
  then have min: "min ?C (of_nat (vw_last w)) = ?C" by (simp add: min_def)
  have nxt: "unat (?R + 1) = unat ?R + 1" "unat (?C + 1) = unat ?C + 1"
    by (rule unat_succ, use k c top last in linarith)+
  have init: "\<exists>cs. raft_InitialState ?v s = Inr (vw_hard w, cs)"
    by (simp add: raft_InitialState_def memory_laws(2) [OF e] hard Let_def)
  have applied: "(if IsEmptySnap (vw_snap ?w) then 0 else sn_Index (vw_snap ?w)) = ?R"
    by (simp add: raft_index_def IsEmptySnap_def)
  have restore: "(if IsEmptySnap (vw_snap ?w) then (None, init) else restoreStateMachineSnapshot (ge_sm ge) (vw_snap ?w) init) = (None, base)"
    using base(1) by (cases "IsEmptySnap (vw_snap ?w)") (simp_all add: restoreStateMachineSnapshot_def)
  have eq: "restoreSnapshotAndReplayCommittedEntries ?v (ge_cmd ge) (ge_sm ge) count s init =
    (if ?C = 0 \<or> ?C < ?R + 1 then ((None, ?R), base)
     else (case rm_Entries (rv_memory ?v) (?R + 1) (?C + 1) (- 1) (rs_mem s) of
             Inl er \<Rightarrow> ((Some (StorageError er), ?R), base)
           | Inr es \<Rightarrow> (case replay_entries (ge_cmd ge) (ge_sm ge) count es ?R base of
                         ((Some er, j), a2) \<Rightarrow> ((Some er, j), a2)
                       | ((None, j), a2) \<Rightarrow> ((None, max j ?C), a2))))"
    using init by (elim exE) (cases "?C = 0"; cases "?C < ?R + 1"; simp only: restoreSnapshotAndReplayCommittedEntries_def memory_laws(3) [OF e] words min Let_def
      applied restore sum.case prod.case option.case if_cancel simp_thms if_True if_False)
  show ?thesis
  proof (cases "unat ?C = unat ?R")
    case True
    then have C: "?C = ?R" by (simp add: word_unat_eq_iff)
    have "?es = []" by (simp add: True)
    moreover have "?C < ?R + 1" using nxt(1) by (simp add: C word_less_nat_alt)
    ultimately show ?thesis unfolding eq using sum by (simp add: C)
  next
    case False
    then have lt: "unat ?R < unat ?C" using k c(1) by linarith
    have "?C \<noteq> 0" "\<not> ?C < ?R + 1" using lt nxt(1) by (auto simp: word_less_nat_alt)
    moreover have "rm_Entries (rv_memory ?v) (?R + 1) (?C + 1) (- 1) (rs_mem s) = Inr ?es"
    proof -
      have "vw_offset ?w < unat (?R + 1)" "?R + 1 < ?C + 1" "unat (?C + 1) \<le> vw_last ?w + 1"
        using nxt off lt c(2) last by (simp_all add: word_less_nat_alt)
      from memory_laws(6) [OF e wf this] show ?thesis using nxt off by (simp add: log_between_def)
    qed
    moreover have "replay_entries (ge_cmd ge) (ge_sm ge) count ?es ?R base = ((None, last_index ?R ?es), fold ?eff ?es base)"
      by (rule replay_fold [OF sm]) (use val in \<open>auto simp: log_between_def dest: in_set_takeD in_set_dropD\<close>)
    moreover have "max (last_index ?R ?es) ?C = ?C"
    proof -
      have "unat (last_index ?R ?es) = unat ?R + length ?es"
        by (rule last_index_consecutive, rule log_between_consecutive [OF wf]) (use off k c last in linarith)+
      also have "\<dots> = unat ?C" using lt c(2) last off by (simp add: log_between_def vw_last_def)
      finally show ?thesis by (simp add: max_def word_le_nat_alt)
    qed
    ultimately show ?thesis unfolding eq using sum by simp
  qed
qed

end

section \<open>Every run\<close>

lemma new_view:
  assumes "env_ok v view" "NewPersistentStorage v no_files = Inr s"
  shows "view (rs_mem s) = empty_view" "raft_index view s = 0"
proof -
  have "rs_mem s = rv_new v"
    using assms(2) by (auto simp: NewPersistentStorage_def load_file_def no_files_def raft_load_entries_def readEntries_def)
  then show "view (rs_mem s) = empty_view" "raft_index view s = 0"
    using memory_laws(1) [OF assms(1)] by (simp_all add: raft_index_def empty_view_def)
qed

lemma empty_restores: "restoreStateMachineSnapshot sm (vw_snap empty_view) a = (None, a)"
  by (simp add: restoreStateMachineSnapshot_def empty_view_def)

lemma StartGroup_fields:
  assumes "StartGroup ge opts s a = Inr g" "go_ReplayCommittedEntries opts"
  shows "restoreSnapshotAndReplayCommittedEntries (ge_store ge) (ge_cmd ge) (ge_sm ge) (go_PartitionCount opts) s a =
      ((None, g_appliedIndex g), g_sm g)" "g_storage g = s" "g_partitionCount g = go_PartitionCount opts"
  using assms by (auto simp: StartGroup_def split: if_splits prod.splits option.splits sum.splits)

text \<open>Operations that change neither the log nor the state machine.\<close>

definition group_same :: "('m, 'a, 'n) raft_group \<Rightarrow> ('m, 'a, 'n) raft_group \<Rightarrow> bool" where
  "group_same g g' \<longleftrightarrow> g_storage g' = g_storage g \<and> g_sm g' = g_sm g \<and> g_appliedIndex g' = g_appliedIndex g \<and>
     g_partitionCount g' = g_partitionCount g"

lemma group_same_inv: "group_same g g' \<Longrightarrow> group_inv ge view count init g \<Longrightarrow> group_inv ge view count init g'"
  by (simp add: group_same_def group_inv_def group_log_def)

lemma same_ops:
  "Propose ge c g = (out, g') \<Longrightarrow> group_same g g'"
  "Propose_ctx_done e i g = (err, g') \<Longrightarrow> group_same g g'"
  "group_Step ge m g = (m', g') \<Longrightarrow> group_same g g'"
  "LinearizableRead_begin ge ctx g = (out', g') \<Longrightarrow> group_same g g'"
  "LinearizableRead_poll ctx gctx i ch g = (out'', g') \<Longrightarrow> group_same g g'"
  by (auto simp: group_same_def Propose_def Propose_ctx_done_def group_Step_def nudgeLeaderToProbeFollower_def
      LinearizableRead_begin_def LinearizableRead_poll_def beginReadIndex_def Let_def
      split: option.splits sum.splits if_splits prod.splits)

context raft_machine
begin

lemma restart_inv:
  assumes e: "env_ok (ge_store ge) view" and sm: "ge_sm ge = sm" and i: "group_inv ge view (go_PartitionCount opts) init g"
    and st: "NewPersistentStorage (ge_store ge) (rs_files (g_storage g)) = Inr s"
    and g': "StartGroup ge opts s init = Inr g'" "go_ReplayCommittedEntries opts"
  shows "group_inv ge view (go_PartitionCount opts) init g'"
proof -
  let ?w = "view (rs_mem (g_storage g))" and ?k = "unat (g_appliedIndex g)" and ?n = "go_PartitionCount opts"
  have l: "log_inv ge view ?n init (g_storage g) (g_sm g) ?k" "?k \<le> stored_commit view (g_storage g)"
    "stored_commit view (g_storage g) \<le> vw_last ?w" using i by (simp_all add: group_inv_def group_log_def)
  note r = log_inv_reopen [OF e l(1) st] and f = StartGroup_fields [OF g']
  have "sm_ApplyCommand (ge_sm ge) = sm_ApplyCommand sm" by (simp add: sm)
  from restart_replays [OF e this i st] f(1) have
    a: "g_appliedIndex g' = hs_Commit (vw_hard ?w)"
      "g_sm g' = fold (entry_effect (ge_cmd ge) (ge_sm ge)) (log_between ?w ?k (unat (hs_Commit (vw_hard ?w)))) (g_sm g)"
    by simp_all
  have c: "stored_commit view s = unat (hs_Commit (vw_hard ?w))" "stored_commit view s = stored_commit view (g_storage g)"
    using r(2) by (simp_all add: stored_commit_def)
  have "unat (raft_index view (g_storage g)) \<le> ?k" using l(1) by (simp add: log_inv_def Let_def)
  note same = r(7) [OF this]
  have "log_inv ge view ?n init s (g_sm g') (unat (g_appliedIndex g'))"
    using log_inv_apply [OF r(1), of "unat (hs_Commit (vw_hard ?w))"] l(2,3) c r(3) same by (simp add: a)
  then show ?thesis using f(2,3) c l(3) r(3) a(1) by (simp add: group_inv_def group_log_def)
qed

lemma group_runs_inv:
  assumes e: "env_ok (ge_store ge) view" and sm: "ge_sm ge = sm" and replay: "go_ReplayCommittedEntries opts"
    and run: "group_runs ge view opts init g"
  shows "group_inv ge view (go_PartitionCount opts) init g"
  using run
proof induction
  case (gr_start s g)
  note n = stored_new [OF e gr_start(1)] and w = new_view [OF e gr_start(1)] and f = StartGroup_fields [OF gr_start(2) replay]
  let ?g = "g\<lparr>g_appliedIndex := 0, g_sm := init\<rparr>"
  have "group_inv ge view (go_PartitionCount opts) init ?g"
    using n(1) w f(2,3) empty_restores [of "ge_sm ge" init]
    by (simp add: group_inv_def group_log_def log_inv_def Let_def stored_commit_def) (simp add: empty_view_def vw_last_def)
  moreover have "NewPersistentStorage (ge_store ge) (rs_files (g_storage ?g)) = Inr s" using gr_start(1) n(3) f(2) by simp
  ultimately show ?case by (rule restart_inv [OF e sm _ _ gr_start(2) replay])
next
  case (gr_ready g rd g')
  show ?case by (rule ready_inv [OF e sm gr_ready(4,2,3)])
next
  case (gr_snapshot g i compact j g')
  show ?case by (rule snapshot_inv [OF e sm gr_snapshot(4,2,3)])
next
  case (gr_restart g s g')
  show ?case by (rule restart_inv [OF e sm gr_restart(4,2,3) replay])
qed (blast intro: group_same_inv dest: same_ops)+

end

text \<open>The system state machine has the interface when its snapshots read back.\<close>

definition json_ok :: "system_env \<Rightarrow> bool" where
  "json_ok se \<longleftrightarrow> (\<forall>md b. se_meta se md = Some b \<longrightarrow> b \<noteq> [] \<and> se_unmeta se b = Some md)"

lemma system_machine: "json_ok se \<Longrightarrow> raft_machine (SystemStateMachine se)"
  using system.replayable_axioms [of se]
  by (auto simp: raft_machine_def raft_machine_axioms_def SystemStateMachine_def system_Snapshot_def system_RestoreSnapshot_def
      json_ok_def split: option.splits)

end
