(* ===== verification/Raft_Channels.thy ===== *)
theory Raft_Channels
  imports Raft_Group
begin

text \<open>
  The channels on which proposals and reads wait: each waiter has one of its own that nothing was sent to, so
  the group never blocks on a send and nobody gets a second outcome.
\<close>

definition channels_ok :: "('m, 'a, 'n) raft_group \<Rightarrow> bool" where
  "channels_ok g \<longleftrightarrow>
     (\<forall>i ch. g_waiters g i = Some ch \<longrightarrow> ch < g_channels g \<and> g_outcomes g ch = None) \<and>
     (\<forall>i ch. g_readWaiters g i = Some ch \<longrightarrow> ch < g_channels g \<and> g_outcomes g ch = None) \<and>
     (\<forall>ch. g_outcomes g ch \<noteq> None \<longrightarrow> ch < g_channels g) \<and>
     (\<forall>i j ch. g_waiters g i = Some ch \<longrightarrow> g_waiters g j = Some ch \<longrightarrow> i = j) \<and>
     (\<forall>i j ch. g_readWaiters g i = Some ch \<longrightarrow> g_readWaiters g j = Some ch \<longrightarrow> i = j) \<and>
     (\<forall>i j ch. g_waiters g i = Some ch \<longrightarrow> g_readWaiters g j \<noteq> Some ch)"

definition channels_kept :: "('m, 'a, 'n) raft_group \<Rightarrow> ('m, 'a, 'n) raft_group \<Rightarrow> bool" where
  "channels_kept g g' \<longleftrightarrow> (channels_ok g \<longrightarrow> channels_ok g' \<and> g_outcomes g \<subseteq>\<^sub>m g_outcomes g')"

text \<open>Only these four fields count.\<close>

lemma channels_frame [simp]:
  "channels_ok (g\<lparr>g_leader := l\<rparr>) = channels_ok g" "channels_ok (g\<lparr>g_storage := s\<rparr>) = channels_ok g"
  "channels_ok (g\<lparr>g_sm := a\<rparr>) = channels_ok g" "channels_ok (g\<lparr>g_term := t\<rparr>) = channels_ok g"
  "channels_ok (g\<lparr>g_commitIndex := t\<rparr>) = channels_ok g" "channels_ok (g\<lparr>g_appliedIndex := t\<rparr>) = channels_ok g"
  "channels_ok (g\<lparr>g_node := n\<rparr>) = channels_ok g" "channels_ok (g\<lparr>g_sent := ms\<rparr>) = channels_ok g"
  "channels_ok (g\<lparr>g_readSeq := q\<rparr>) = channels_ok g" "channels_ok (g\<lparr>g_diagnostics := d\<rparr>) = channels_ok g"
  by (simp_all add: channels_ok_def)

lemma kept_refl [simp, intro]: "channels_kept g g"
  by (simp add: channels_kept_def)

lemma kept_trans [trans]: "channels_kept g1 g2 \<Longrightarrow> channels_kept g2 g3 \<Longrightarrow> channels_kept g1 g3"
  by (auto simp: channels_kept_def intro: map_le_trans)

text \<open>A new waiter gets the next channel.\<close>

lemma register_kept:
  "channels_kept g (g\<lparr>g_waiters := (g_waiters g)(i \<mapsto> g_channels g), g_channels := g_channels g + 1\<rparr>)"
  "channels_kept g (g\<lparr>g_readWaiters := (g_readWaiters g)(i \<mapsto> g_channels g), g_channels := g_channels g + 1\<rparr>)"
  unfolding channels_kept_def channels_ok_def by (auto simp: less_Suc_eq)

lemma completeWaiter_kept: "channels_kept g (completeWaiter i out g)"
  unfolding channels_kept_def channels_ok_def completeWaiter_def
  by (auto simp: map_le_def dom_def split: option.splits)

lemma completeReadWaiter_kept: "channels_kept g (completeReadWaiter i out g)"
  unfolding channels_kept_def channels_ok_def completeReadWaiter_def
  by (auto simp: map_le_def dom_def split: option.splits)

lemma failReadWaiters_kept: "channels_kept g (failReadWaiters err g)"
  unfolding channels_kept_def channels_ok_def failReadWaiters_def send_all_def
  by (auto simp: map_le_def dom_def ran_def)

lemma failWaiters_kept: "channels_kept g (failWaiters err g)"
  unfolding channels_kept_def channels_ok_def failWaiters_def send_all_def
  by (auto simp: map_le_def dom_def ran_def)

section \<open>Every operation\<close>

text \<open>Operations that leave the channels alone, also before or after another one.\<close>

definition channels_same :: "('m, 'a, 'n) raft_group \<Rightarrow> ('m, 'a, 'n) raft_group \<Rightarrow> bool" where
  "channels_same g g' \<longleftrightarrow> g_waiters g' = g_waiters g \<and> g_readWaiters g' = g_readWaiters g \<and>
     g_outcomes g' = g_outcomes g \<and> g_channels g' = g_channels g"

lemma same_kept: "channels_same g g' \<Longrightarrow> channels_kept g g'"
  by (simp add: channels_same_def channels_kept_def channels_ok_def)

lemma kept_after: "channels_kept g1 g2 \<Longrightarrow> channels_same g2 g3 \<Longrightarrow> channels_kept g1 g3"
  by (rule kept_trans [OF _ same_kept])

lemma kept_before: "channels_same g1 g2 \<Longrightarrow> channels_kept g2 g3 \<Longrightarrow> channels_kept g1 g3"
  by (rule kept_trans [OF same_kept])

lemma ready_soft_channels: "channels_kept g (ready_soft rd g)"
proof (cases "rd_SoftState rd")
  case (Some lead)
  have "channels_kept g (failReadWaiters ErrNotLeader (g\<lparr>g_leader := lead\<rparr>))"
    by (rule kept_before [OF _ failReadWaiters_kept]) (simp add: channels_same_def)
  moreover have "channels_kept g (g\<lparr>g_leader := lead\<rparr>)" by (rule same_kept) (simp add: channels_same_def)
  ultimately show ?thesis by (auto simp: ready_soft_def Some Let_def)
qed (simp add: ready_soft_def)

lemma markApplied_channels: "channels_same g (markApplied i g)"
  by (simp add: markApplied_def channels_same_def)

lemma ready_writes_channels:
  "ready_snapshot ge io rd g = (err, g') \<Longrightarrow> channels_same g g'" "ready_hard ge io rd g = (err, g') \<Longrightarrow> channels_same g g'"
  "ready_entries ge io rd g = (err, g') \<Longrightarrow> channels_same g g'"
  by (auto simp: ready_snapshot_def ready_hard_def ready_entries_def Let_def channels_same_def markApplied_def
      split: if_splits prod.splits option.splits)

lemma apply_command_channels:
  assumes "apply_command ge e g = (err, g')"
  shows "channels_kept g g'"
proof -
  let ?ac = "\<lparr>ac_RaftIndex = re_Index e, ac_RaftTerm = re_Term e, ac_Replay = False\<rparr>"
  obtain er i g1 where 1: "(case DecodeCommand (ge_cmd ge) (re_Data e) of
      Inl err \<Rightarrow> (Some err, [], g)
    | Inr c \<Rightarrow> (case sm_ApplyCommand (ge_sm ge) ?ac c (g_sm g) of (err, a) \<Rightarrow> (err, cmd_CommandID c, g\<lparr>g_sm := a\<rparr>))) = (er, i, g1)"
    by (rule prod_cases3)
  then have "channels_same g g1" by (auto simp: channels_same_def split: sum.splits prod.splits)
  let ?g2 = "case er of None \<Rightarrow> g1 | Some x \<Rightarrow> failReadWaiters (CommandError x) g1"
  let ?out = "case er of None \<Rightarrow> Inr (re_Index e, re_Term e) | Some x \<Rightarrow> Inl (CommandError x)"
  have "channels_kept g ?g2"
  proof (cases er)
    case None
    then show ?thesis using same_kept [OF \<open>channels_same g g1\<close>] by simp
  next
    case (Some x)
    then show ?thesis using kept_before [OF \<open>channels_same g g1\<close> failReadWaiters_kept] by simp
  qed
  then have k: "channels_kept g (completeWaiter i ?out ?g2)" by (rule kept_trans [OF _ completeWaiter_kept])
  have "g' = completeWaiter i ?out ?g2 \<or> g' = markApplied (re_Index e) (completeWaiter i ?out ?g2)"
    using assms unfolding apply_command_def 1 Let_def prod.case by (auto split: if_splits)
  then show ?thesis using k kept_after [OF k markApplied_channels] by blast
qed

lemma applyEntry_channels:
  assumes "applyEntry ge ok e g = (err, g')"
  shows "channels_kept g g'"
proof -
  have "apply_command ge e g = (err, g') \<or> channels_same g g'"
    using assms by (auto simp: applyEntry_def apply_conf_change_def channels_same_def markApplied_def
        split: if_splits option.splits prod.splits)
  then show ?thesis using apply_command_channels same_kept by blast
qed

lemma applyEntries_channels: "applyEntries ge ok es g = (err, g') \<Longrightarrow> channels_kept g g'"
proof (induction es arbitrary: g)
  case (Cons e es)
  obtain er g1 where g1: "applyEntry ge (ok (re_Index e)) e g = (er, g1)" by fastforce
  note k = applyEntry_channels [OF g1]
  show ?case
  proof (cases er)
    case None
    then have "applyEntries ge ok es g1 = (err, g')" using Cons.prems g1 by simp
    from kept_trans [OF k Cons.IH [OF this]] show ?thesis .
  next
    case (Some x)
    then show ?thesis using Cons.prems g1 k by simp
  qed
qed simp

lemma ready_reads_channels: "channels_kept g (ready_reads rs g)"
proof (induction rs g rule: ready_reads.induct)
  case (2 ctx i rs g)
  show ?case using kept_trans [OF completeReadWaiter_kept 2] by simp
qed simp

lemma processReady_channels:
  assumes "processReady ge io rd g = (ok, g')"
  shows "channels_kept g g'"
proof -
  let ?g0 = "ready_soft rd g"
  note k0 = ready_soft_channels [of g rd]
  obtain e1 g1 where 1: "ready_snapshot ge io rd ?g0 = (e1, g1)" by fastforce
  obtain e2 g2 where 2: "ready_hard ge io rd g1 = (e2, g2)" by fastforce
  obtain e3 g3 where 3: "ready_entries ge io rd g2 = (e3, g3)" by fastforce
  obtain e4 g4 where 4: "applyEntries ge (io_conf io) (rd_CommittedEntries rd) (g3\<lparr>g_sent := g_sent g3 @ rd_Messages rd\<rparr>) = (e4, g4)"
    by fastforce
  have k1: "channels_kept g g1" by (rule kept_after [OF k0 ready_writes_channels(1) [OF 1]])
  have k2: "channels_kept g g2" by (rule kept_after [OF k1 ready_writes_channels(2) [OF 2]])
  have k3: "channels_kept g g3" by (rule kept_after [OF k2 ready_writes_channels(3) [OF 3]])
  have "channels_same g3 (g3\<lparr>g_sent := g_sent g3 @ rd_Messages rd\<rparr>)" by (simp add: channels_same_def)
  then have k4: "channels_kept g g4" by (rule kept_trans [OF kept_after [OF k3] applyEntries_channels [OF 4]])
  note fails = kept_trans [OF k1 failWaiters_kept] kept_trans [OF k2 failWaiters_kept] kept_trans [OF k3 failWaiters_kept]
    kept_trans [OF k4 failWaiters_kept] kept_trans [OF k4 ready_reads_channels]
  note p = assms [unfolded processReady_def 1 prod.case]
  show ?thesis
  proof (cases e1)
    case None
    note p = p [unfolded None option.case 2 prod.case]
    show ?thesis
    proof (cases e2)
      case None
      note p = p [unfolded None option.case 3 prod.case]
      show ?thesis
      proof (cases e3)
        case None
        note p = p [unfolded None option.case 4 prod.case]
        then show ?thesis using fails(4,5) by (cases e4) auto
      qed (use p fails(3) in auto)
    qed (use p fails(2) in auto)
  qed (use p fails(1) in auto)
qed

lemma Propose_channels:
  assumes "Propose ge c g = (out, g')"
  shows "channels_kept g g'"
proof -
  let ?i = "cmd_CommandID c"
  let ?g1 = "g\<lparr>g_waiters := (g_waiters g)(?i \<mapsto> g_channels g), g_channels := g_channels g + 1\<rparr>"
  have k: "channels_kept g (?g1\<lparr>g_node := n\<rparr>)" for n
    by (rule kept_after [OF register_kept(1)]) (simp add: channels_same_def)
  have "g' = g \<or> (\<exists>n. g' = ?g1\<lparr>g_node := n\<rparr>) \<or> (\<exists>n err. g' = completeWaiter ?i (Inl err) (?g1\<lparr>g_node := n\<rparr>))"
    using assms by (auto simp: Propose_def Let_def split: option.splits sum.splits if_splits prod.splits)
  then show ?thesis using k kept_trans [OF k completeWaiter_kept] by (elim disjE exE) simp_all
qed

lemma LinearizableRead_begin_channels:
  assumes "LinearizableRead_begin ge ctx g = (out, g')"
  shows "channels_kept g g'"
proof -
  have b: "channels_kept g g1" if "beginReadIndex g = (r, g1)" for r g1
  proof -
    show ?thesis
    proof (cases "g_leader g = 0 \<or> g_leader g \<noteq> g_nodeID g")
      case True
      then have "channels_same g g1" using that by (auto simp: beginReadIndex_def Let_def channels_same_def split: if_splits)
      then show ?thesis by (rule same_kept)
    next
      case False
      let ?i = "''read-'' @ dec_string (unat (g_nodeID g)) @ ''-'' @ dec_string (unat (g_readSeq g + 1))"
      have "channels_same (g\<lparr>g_readWaiters := (g_readWaiters g)(?i \<mapsto> g_channels g), g_channels := g_channels g + 1\<rparr>) g1"
        using that False by (auto simp: beginReadIndex_def Let_def channels_same_def split: if_splits)
      then show ?thesis by (rule kept_after [OF register_kept(2)])
    qed
  qed
  obtain r g1 where r: "beginReadIndex g = (r, g1)" by fastforce
  have "g' = g \<or> channels_same g1 g' \<or> (\<exists>n i err d. g' = (completeReadWaiter i (Inl err) (g1\<lparr>g_node := n\<rparr>))\<lparr>g_diagnostics := d\<rparr>)"
    using assms r by (auto simp: LinearizableRead_begin_def channels_same_def split: option.splits sum.splits prod.splits)
  then show ?thesis
  proof (elim disjE exE)
    fix n i err d
    assume g': "g' = (completeReadWaiter i (Inl err) (g1\<lparr>g_node := n\<rparr>))\<lparr>g_diagnostics := d\<rparr>"
    have "channels_kept g (g1\<lparr>g_node := n\<rparr>)" by (rule kept_after [OF b [OF r]]) (simp add: channels_same_def)
    then have "channels_kept g (completeReadWaiter i (Inl err) (g1\<lparr>g_node := n\<rparr>))" by (rule kept_trans [OF _ completeReadWaiter_kept])
    then show ?thesis unfolding g' by (rule kept_after) (simp add: channels_same_def)
  qed (use kept_after [OF b [OF r]] in simp_all)
qed

lemma LinearizableRead_poll_channels:
  assumes "LinearizableRead_poll ctx gctx i ch g = (out, g')"
  shows "channels_kept g g'"
proof -
  have "channels_same g g' \<or> (\<exists>e d. g' = (completeReadWaiter i e g)\<lparr>g_diagnostics := d\<rparr>)"
    using assms by (auto simp: LinearizableRead_poll_def channels_same_def split: option.splits sum.splits prod.splits if_splits)
  then show ?thesis
    by (elim disjE exE) (auto intro: same_kept kept_after [OF completeReadWaiter_kept] simp: channels_same_def)
qed

section \<open>Any sequence of operations\<close>

text \<open>Also those whose writes fail.\<close>

inductive group_steps :: "('m, 'a, 'n) group_env \<Rightarrow> ('m, 'a, 'n) raft_group \<Rightarrow> ('m, 'a, 'n) raft_group \<Rightarrow> bool" for ge g0 where
  gs_refl: "group_steps ge g0 g0"
| gs_ready: "group_steps ge g0 g \<Longrightarrow> processReady ge io rd g = (ok, g') \<Longrightarrow> group_steps ge g0 g'"
| gs_propose: "group_steps ge g0 g \<Longrightarrow> Propose ge c g = (out, g') \<Longrightarrow> group_steps ge g0 g'"
| gs_forget: "group_steps ge g0 g \<Longrightarrow> Propose_ctx_done e i g = (err, g') \<Longrightarrow> group_steps ge g0 g'"
| gs_begin: "group_steps ge g0 g \<Longrightarrow> LinearizableRead_begin ge ctx g = (r, g') \<Longrightarrow> group_steps ge g0 g'"
| gs_poll: "group_steps ge g0 g \<Longrightarrow> LinearizableRead_poll ctx gctx i ch g = (p, g') \<Longrightarrow> group_steps ge g0 g'"
| gs_snapshot: "group_steps ge g0 g \<Longrightarrow> group_CreateSnapshot ge w wl k compact g = (s, g') \<Longrightarrow> group_steps ge g0 g'"
| gs_step: "group_steps ge g0 g \<Longrightarrow> group_Step ge m g = (m', g') \<Longrightarrow> group_steps ge g0 g'"
| gs_exit: "group_steps ge g0 g \<Longrightarrow> group_steps ge g0 (run_exit g)"

lemma steps_kept: "group_steps ge g0 g \<Longrightarrow> channels_kept g0 g"
proof (induction rule: group_steps.induct)
  case (gs_forget g e i err g')
  then have "channels_kept g g'" using completeWaiter_kept by (auto simp: Propose_ctx_done_def)
  with gs_forget(3) show ?case by (rule kept_trans)
next
  case (gs_snapshot g w wl k compact s g')
  have "channels_same g g'"
    using gs_snapshot(2) by (auto simp: group_CreateSnapshot_def Let_def channels_same_def
        split: option.splits sum.splits prod.splits if_splits)
  then show ?case by (rule kept_after [OF gs_snapshot(3)])
next
  case (gs_step g m m' g')
  have "channels_same g g'"
    using gs_step(2) by (auto simp: group_Step_def nudgeLeaderToProbeFollower_def Let_def channels_same_def
        split: sum.splits if_splits)
  then show ?case by (rule kept_after [OF gs_step(3)])
next
  case (gs_exit g)
  show ?case unfolding run_exit_def by (rule kept_trans [OF gs_exit(2) failReadWaiters_kept])
qed (blast intro: kept_trans processReady_channels Propose_channels LinearizableRead_begin_channels LinearizableRead_poll_channels)+

lemma start_channels: "StartGroup ge opts s a = Inr g \<Longrightarrow> channels_ok g"
  by (auto simp: StartGroup_def channels_ok_def split: if_splits prod.splits option.splits sum.splits)

lemma start_no_channels: "StartGroup ge opts s a = Inr g \<Longrightarrow> g_channels g = 0"
  by (auto simp: StartGroup_def split: if_splits prod.splits option.splits sum.splits)

end
