(* ===== verification/Raft_Properties.thy ===== *)
theory Raft_Properties
  imports Raft_Steps
begin

text \<open>What a raft storage keeps over a restart, over a crash while appending, and what it does not.\<close>

section \<open>A sample storage\<close>

text \<open>A memory storage that is its own view, for the witnesses.\<close>

definition view_memory :: "raft_view raft_memory" where
  "view_memory = \<lparr>
     rm_InitialState = (\<lambda>w. Inr (vw_hard w, sn_ConfState (vw_snap w))),
     rm_Entries = (\<lambda>lo hi mx w. Inr (take (unat hi - unat lo) (drop (unat lo - vw_offset w - 1) (vw_ents w)))),
     rm_Term = (\<lambda>i w. Inl ErrUnavailable),
     rm_LastIndex = (\<lambda>w. Inr (of_nat (vw_last w))),
     rm_FirstIndex = (\<lambda>w. Inr (of_nat (vw_offset w + 1))),
     rm_Snapshot = (\<lambda>w. Inr (vw_snap w)),
     rm_SetHardState = (\<lambda>hs w. (None, w\<lparr>vw_hard := hs\<rparr>)),
     rm_Append = (\<lambda>es w. (None, view_Append es w)),
     rm_ApplySnapshot = (\<lambda>sn w. (None, view_ApplySnapshot sn w)),
     rm_CreateSnapshot = (\<lambda>i cs data w. let sn = view_CreateSnapshot i 0 cs data w in (Inr sn, w\<lparr>vw_snap := sn\<rparr>)),
     rm_Compact = (\<lambda>i w. (None, view_Compact (unat i) w))\<rparr>"

lemma view_memory_ok: "memory_ok view_memory empty_view id"
  by (auto simp: memory_ok_def view_memory_def Let_def)

definition sample_conf :: conf_state where
  "sample_conf = no_conf\<lparr>cs_Voters := [1, 2, 3]\<rparr>"

definition next_conf :: conf_state where
  "next_conf = no_conf\<lparr>cs_Voters := [4, 5, 6]\<rparr>"

definition sample_snap :: "u64 \<Rightarrow> conf_state \<Rightarrow> raft_snapshot" where
  "sample_snap i c = \<lparr>sn_Data = [9], sn_ConfState = c, sn_Index = i, sn_Term = 0\<rparr>"

definition sample_entry :: "u64 \<Rightarrow> raft_entry" where
  "sample_entry i = \<lparr>re_Term = 1, re_Index = i, re_Type = EntryNormal, re_Data = [7]\<rparr>"

definition sample_codec :: raft_codec where
  "sample_codec = \<lparr>
     rc_entry = (\<lambda>e. if e = sample_entry (re_Index e) then Some (put_u64 (re_Index e)) else None),
     rc_unentry = (\<lambda>b. Some (sample_entry (get_u64 b))),
     rc_hard = (\<lambda>h. if hs_Term h = 1 \<and> hs_Vote h = 0 then Some (put_u64 (hs_Commit h)) else None),
     rc_unhard = (\<lambda>b. Some \<lparr>hs_Term = 1, hs_Vote = 0, hs_Commit = get_u64 b\<rparr>),
     rc_conf = (\<lambda>c. if c = sample_conf then Some [1] else if c = next_conf then Some [2] else None),
     rc_unconf = (\<lambda>b. Some (if b = [1] then sample_conf else next_conf)),
     rc_snap = (\<lambda>s. if s = sample_snap (sn_Index s) sample_conf then Some (1 # put_u64 (sn_Index s))
                     else if s = sample_snap (sn_Index s) next_conf then Some (2 # put_u64 (sn_Index s)) else None),
     rc_unsnap = (\<lambda>b. Some (sample_snap (get_u64 (tl b)) (if hd b = 1 then sample_conf else next_conf)))\<rparr>"

definition sample_env :: "raft_view raft_env" where
  "sample_env = \<lparr>rv_memory = view_memory, rv_new = empty_view, rv_codec = sample_codec, rv_group = ''g'', rv_enc = None\<rparr>"

lemma sample_confs [simp]: "sample_conf \<noteq> next_conf" "next_conf \<noteq> sample_conf" "sample_conf \<noteq> no_conf" "next_conf \<noteq> no_conf"
  by (simp_all add: sample_conf_def next_conf_def no_conf_def)

lemma put_nonempty [simp]: "put_u64 w \<noteq> []"
  by (metis length_put(3) list.size(3) zero_neq_numeral)

lemma sample_env_ok: "env_ok sample_env id"
proof -
  have "raft_codec_ok sample_codec"
    by (auto simp: raft_codec_ok_def sample_codec_def)
  then show ?thesis using view_memory_ok by (simp add: env_ok_def sample_env_def)
qed

lemma raft_sample_fits: "entry_fits sample_env e"
  by (auto simp: entry_fits_def sample_env_def sample_codec_def raft_seal_def maxAlloc_def)

text \<open>A run: members, then three entries.\<close>

definition sample_start :: "raft_view raft_store" where
  "sample_start = \<lparr>rs_mem = empty_view, rs_entries = [], rs_conf = no_conf, rs_files = no_files\<rparr>"

definition sample_members :: "raft_view raft_store" where
  "sample_members = snd (raft_SetConfState sample_env True sample_conf sample_start)"

definition sample_log :: "raft_view raft_store" where
  "sample_log = snd (raft_Append sample_env WroteAll (map sample_entry [1, 2, 3]) sample_members)"

lemma sample_starts: "NewPersistentStorage sample_env no_files = Inr sample_start"
  by (simp add: NewPersistentStorage_def load_file_def no_files_def raft_load_entries_def readEntries_def sample_start_def
      sample_env_def)

lemma sample_env_simps:
  "rc_entry (rv_codec sample_env) (sample_entry i) = Some (put_u64 i)" "\<not> encryptionEnabled sample_env" "rv_enc sample_env = None"
  by (simp_all add: sample_env_def sample_codec_def encryptionEnabled_def sample_entry_def)

lemma sample_encodes: "\<exists>bs. encodeEntriesLogFrames sample_env n k (map sample_entry is) = (None, bs)"
proof (induction "is" arbitrary: k)
  case (Cons i "is")
  from Cons.IH obtain bs where "encodeEntriesLogFrames sample_env n (Suc k) (map sample_entry is) = (None, bs)" by blast
  then show ?case by (simp add: sample_env_simps)
qed simp

lemma sample_member_store:
  "raft_SetConfState sample_env True sample_conf sample_start = (None, sample_members)"
  "rs_mem sample_members = empty_view" "rs_entries sample_members = []" "rs_conf sample_members = sample_conf"
  by (simp_all add: sample_members_def raft_SetConfState_def write_conf_def writeProtoAtomic_def sample_env_def
      sample_codec_def raft_seal_def sample_start_def)

lemma sample_append:
  assumes "rs_mem s = empty_view" "rs_entries s = []"
  shows "append_pre (map sample_entry [1, 2, 3]) (id (rs_mem s))" "unat (raft_index id s) < ix (hd (map sample_entry [1, 2, 3]))"
    "fst (raft_Append sample_env WroteAll (map sample_entry [1, 2, 3]) s) = None"
    "rs_mem (snd (raft_Append sample_env WroteAll (map sample_entry [1, 2, 3]) s)) =
       empty_view\<lparr>vw_ents := map sample_entry [1, 2, 3]\<rparr>"
    "rs_entries (snd (raft_Append sample_env WroteAll (map sample_entry [1, 2, 3]) s)) = map sample_entry [1, 2, 3]"
    "rs_conf (snd (raft_Append sample_env WroteAll (map sample_entry [1, 2, 3]) s)) = rs_conf s"
proof -
  show "append_pre (map sample_entry [1, 2, 3]) (id (rs_mem s))" "unat (raft_index id s) < ix (hd (map sample_entry [1, 2, 3]))"
    using assms by (simp_all add: append_pre_def sample_entry_def empty_view_def raft_index_def)
  have m: "rm_Append (rv_memory sample_env) (map sample_entry [1, 2, 3]) empty_view =
      (None, empty_view\<lparr>vw_ents := map sample_entry [1, 2, 3]\<rparr>)"
    by (simp add: sample_env_def view_memory_def view_Append_def empty_view_def sample_entry_def)
  obtain bs where bs: "encodeEntriesLogFrames sample_env ''entries.log'' 0 (map sample_entry [1, 2, 3]) = (None, bs)"
    using sample_encodes by blast
  have a: "\<exists>f. raft_Append sample_env WroteAll (map sample_entry [1, 2, 3]) s = (None, s\<lparr>rs_mem := empty_view\<lparr>vw_ents := map sample_entry [1, 2, 3]\<rparr>,
      rs_files := (rs_files s)\<lparr>rf_log := f\<rparr>, rs_entries := map sample_entry [1, 2, 3]\<rparr>)"
    using assms m bs by (auto simp: raft_Append_def canAppendEntriesLog_def appendEntriesLog_def Let_def simp del: list.map)
  then show "fst (raft_Append sample_env WroteAll (map sample_entry [1, 2, 3]) s) = None"
    "rs_mem (snd (raft_Append sample_env WroteAll (map sample_entry [1, 2, 3]) s)) = empty_view\<lparr>vw_ents := map sample_entry [1, 2, 3]\<rparr>"
    "rs_entries (snd (raft_Append sample_env WroteAll (map sample_entry [1, 2, 3]) s)) = map sample_entry [1, 2, 3]"
    "rs_conf (snd (raft_Append sample_env WroteAll (map sample_entry [1, 2, 3]) s)) = rs_conf s"
    by auto
qed

lemma sample_run: "raft_runs sample_env id sample_members" "raft_runs sample_env id sample_log"
  "rs_mem sample_log = empty_view\<lparr>vw_ents := map sample_entry [1, 2, 3]\<rparr>" "rs_conf sample_log = sample_conf"
  "rs_entries sample_log = map sample_entry [1, 2, 3]"
proof -
  show m: "raft_runs sample_env id sample_members"
    by (rule rr_conf [OF rr_new [OF sample_starts] sample_member_store(1)])
  note a = sample_append [OF sample_member_store(2,3)]
  have "raft_Append sample_env WroteAll (map sample_entry [1, 2, 3]) sample_members = (None, sample_log)"
    using a(3) by (simp add: sample_log_def prod_eq_iff)
  from rr_append [OF m a(1,2) _ this] raft_sample_fits show "raft_runs sample_env id sample_log" by blast
  show "rs_mem sample_log = empty_view\<lparr>vw_ents := map sample_entry [1, 2, 3]\<rparr>" "rs_conf sample_log = sample_conf"
    "rs_entries sample_log = map sample_entry [1, 2, 3]"
    using a(4-6) sample_member_store(4) by (simp_all add: sample_log_def)
qed

section \<open>Restart\<close>

text \<open>
  C7. Whatever raft and the group have stored with all writes going through, opening the directory again gives
  back the hard state, the members, the snapshot, the last index and every entry behind the snapshot.
\<close>

theorem raft_restart_durable:
  assumes "env_ok v view" "raft_runs v view s"
  shows "\<exists>s'. NewPersistentStorage v (rs_files s) = Inr s' \<and> raft_InitialState v s' = raft_InitialState v s \<and>
    rm_Snapshot (rv_memory v) (rs_mem s') = rm_Snapshot (rv_memory v) (rs_mem s) \<and>
    rm_LastIndex (rv_memory v) (rs_mem s') = rm_LastIndex (rv_memory v) (rs_mem s) \<and>
    (\<forall>lo hi. raft_index view s < lo \<longrightarrow> lo < hi \<longrightarrow> unat hi \<le> vw_last (view (rs_mem s)) + 1 \<longrightarrow>
       rm_Entries (rv_memory v) lo hi (- 1) (rs_mem s') = rm_Entries (rv_memory v) lo hi (- 1) (rs_mem s))"
proof -
  have st: "raft_stored v view s" by (rule raft_runs_stored [OF assms])
  from stored_loads [OF assms(1) st] obtain s' where s': "NewPersistentStorage v (rs_files s) = Inr s'" "raft_stored v view s'"
    "vw_hard (view (rs_mem s')) = vw_hard (view (rs_mem s))" "vw_snap (view (rs_mem s')) = vw_snap (view (rs_mem s))"
    "vw_offset (view (rs_mem s')) = unat (raft_index view s)"
    "vw_ents (view (rs_mem s')) = drop (unat (raft_index view s) - vw_offset (view (rs_mem s))) (vw_ents (view (rs_mem s)))"
    "rs_conf s' = rs_conf s" by blast
  note p = stored_parts [OF st]
  have wf: "view_wf (view (rs_mem s))" "view_wf (view (rs_mem s'))" using st s'(2) by (simp_all add: raft_stored_def Let_def)
  have k: "vw_offset (view (rs_mem s)) \<le> unat (raft_index view s)" "unat (raft_index view s) \<le> vw_last (view (rs_mem s))"
    using p by blast+
  then have last: "vw_last (view (rs_mem s')) = vw_last (view (rs_mem s))"
    by (simp add: vw_last_def s'(5,6))
  note laws = memory_laws [OF assms(1)]
  have "rm_Entries (rv_memory v) lo hi (- 1) (rs_mem s') = rm_Entries (rv_memory v) lo hi (- 1) (rs_mem s)"
    if "raft_index view s < lo" "lo < hi" "unat hi \<le> vw_last (view (rs_mem s)) + 1" for lo hi
  proof -
    have i: "unat (raft_index view s) < unat lo" using that(1) by (simp add: word_less_nat_alt)
    then have o: "vw_offset (view (rs_mem s)) < unat lo" using k(1) by linarith
    have "unat lo - unat (raft_index view s) - 1 + (unat (raft_index view s) - vw_offset (view (rs_mem s))) =
        unat lo - vw_offset (view (rs_mem s)) - 1" using i k(1) by linarith
    then show ?thesis
      using laws(6) [OF wf(1) o that(2,3)] laws(6) [OF wf(2), of lo hi] i that(2,3) last s'(5,6) by simp
  qed
  with s'(1) show ?thesis
    using laws(2,3) laws(5) [OF wf(1)] laws(5) [OF wf(2)] s'(3,4,7) last by (auto simp: raft_InitialState_def Let_def)
qed

theorem raft_restart_durable_witness:
  "\<exists>s'. NewPersistentStorage sample_env (rs_files sample_log) = Inr s' \<and>
    raft_InitialState sample_env s' = Inr (vw_hard empty_view, sample_conf) \<and>
    rm_LastIndex view_memory (rs_mem s') = Inr 3 \<and>
    rm_Entries view_memory 2 4 (- 1) (rs_mem s') = Inr [sample_entry 2, sample_entry 3]"
proof -
  have mem: "rv_memory sample_env = view_memory" by (simp add: sample_env_def)
  have "raft_InitialState sample_env sample_log = Inr (vw_hard empty_view, sample_conf)"
    by (simp add: raft_InitialState_def mem view_memory_def sample_run(3,4)) (simp add: sample_conf_def no_conf_def)
  moreover have "rm_LastIndex view_memory (rs_mem sample_log) = Inr 3"
    by (simp add: view_memory_def sample_run(3) vw_last_def empty_view_def)
  moreover have "rm_Entries view_memory 2 4 (- 1) (rs_mem sample_log) = Inr [sample_entry 2, sample_entry 3]"
    by (simp add: view_memory_def sample_run(3) empty_view_def)
  moreover have "raft_index id sample_log < 2" "unat (4 :: u64) \<le> vw_last (id (rs_mem sample_log)) + 1"
    by (simp_all add: raft_index_def sample_run(3) empty_view_def vw_last_def)
  ultimately show ?thesis
    using raft_restart_durable [OF sample_env_ok sample_run(2), unfolded mem] by fastforce
qed

section \<open>Crashes\<close>

lemma log_case:
  assumes "raft_stored v view s"
  shows "case rf_log (rs_files s) of None \<Rightarrow> rs_entries s = [] | Some bs \<Rightarrow> bs = [] \<and> rs_entries s = [] \<or> log_of v (rs_entries s) bs"
  using assms by (auto simp: raft_stored_def Let_def log_stored_def split: option.splits)

text \<open>
  C15. A crash while raft appends entries, after any number of bytes, leaves a directory that opens with the
  hard state and the snapshot as they were and with the old entries, followed by the first few of the new ones:
  none of the old entries is lost, and none of the new ones is there without those before it.
\<close>

theorem raft_append_crash:
  assumes "env_ok v view" "raft_runs v view s" "append_pre es (view (rs_mem s))" "unat (raft_index view s) < ix (hd es)"
    and "\<forall>e \<in> set es. entry_fits v e" "fst (encodeEntriesLogFrames v ''entries.log'' (length (rs_entries s)) es) = None"
    and "raft_Append v (WroteFails k) es s = (err, s1)" "canAppendEntriesLog es s"
  shows "err = Some ErrFileWrite \<and> (\<exists>s' j. NewPersistentStorage v (rs_files s1) = Inr s' \<and>
    rs_entries s' = rs_entries s @ take j es \<and>
    rm_Snapshot (rv_memory v) (rs_mem s') = rm_Snapshot (rv_memory v) (rs_mem s) \<and>
    raft_InitialState v s' = raft_InitialState v s)"
proof -
  have st: "raft_stored v view s" by (rule raft_runs_stored [OF assms(1,2)])
  note S = st [unfolded raft_stored_def Let_def]
  have wf: "view_wf (view (rs_mem s))" using S by blast
  have ne: "es \<noteq> []" "consecutive (ix (hd es) - 1) es" using assms(3) by (simp_all add: append_pre_def)
  obtain bs where bs: "encodeEntriesLogFrames v ''entries.log'' (length (rs_entries s)) es = (None, bs)"
    using assms(6) by (metis eq_fst_iff)
  obtain m where m: "rm_Append (rv_memory v) es (rs_mem s) = (None, m)"
    using memory_laws(8) [OF assms(1) wf assms(3)] by blast
  obtain e f where a: "appendEntriesLog v (WroteFails k) (length (rs_entries s)) es (rf_log (rs_files s)) = (e, f)" by fastforce
  have e: "e = Some ErrFileWrite" using a ne(1) by (auto simp: appendEntriesLog_def Let_def split: prod.splits)
  have s1: "err = Some ErrFileWrite" "s1 = s\<lparr>rs_mem := m, rs_files := (rs_files s)\<lparr>rf_log := f\<rparr>\<rparr>"
    using assms(7,8) m a e ne(1) by (auto simp: raft_Append_def)
  from append_log(2) [OF assms(1,5) ne(1) log_case [OF st] a _ bs] e
  obtain c j c' where c: "f = Some c" "readEntriesLog v c = Inr (rs_entries s @ take j es, c')" by auto
  let ?fs = "(rs_files s)\<lparr>rf_log := f\<rparr>" and ?es = "rs_entries s @ take j es"
  from append_follows [OF st assms(3,8)] obtain b where b: "consecutive b ?es" "b \<le> unat (raft_index view s)" .
  have fs: "rf_hard ?fs = rf_hard (rs_files s)" "rf_snap ?fs = rf_snap (rs_files s)" "rf_conf ?fs = rf_conf (rs_files s)"
    by simp_all
  have "log_entries v ?fs = Inr (?es, ?fs\<lparr>rf_log := Some c'\<rparr>)" using c by (simp add: log_entries_def)
  from stored_opens [OF assms(1) st fs this b] obtain m' where
    m': "NewPersistentStorage v ?fs = Inr \<lparr>rs_mem = m', rs_entries = ?es, rs_conf = rs_conf s, rs_files = ?fs\<lparr>rf_log := Some c'\<rparr>\<rparr>"
    "view m' = \<lparr>vw_hard = vw_hard (view (rs_mem s)), vw_snap = vw_snap (view (rs_mem s)),
       vw_offset = unat (raft_index view s), vw_ents = drop (unat (raft_index view s) - b) ?es\<rparr>" .
  define s' where "s' = \<lparr>rs_mem = m', rs_entries = ?es, rs_conf = rs_conf s, rs_files = ?fs\<lparr>rf_log := Some c'\<rparr>\<rparr>"
  note laws = memory_laws(2,3) [OF assms(1)]
  have "NewPersistentStorage v (rs_files s1) = Inr s'" "rs_entries s' = rs_entries s @ take j es"
    "rm_Snapshot (rv_memory v) (rs_mem s') = rm_Snapshot (rv_memory v) (rs_mem s)" "raft_InitialState v s' = raft_InitialState v s"
    using m' by (simp_all add: s1(2) s'_def laws raft_InitialState_def Let_def)
  with s1(1) show ?thesis by blast
qed

theorem raft_append_crash_witness:
  "\<exists>err s1 s' j. raft_Append sample_env (WroteFails 40) (map sample_entry [1, 2, 3]) sample_members = (err, s1) \<and>
    err = Some ErrFileWrite \<and> NewPersistentStorage sample_env (rs_files s1) = Inr s' \<and>
    rs_entries s' = take j (map sample_entry [1, 2, 3])"
proof -
  obtain err s1 where a: "raft_Append sample_env (WroteFails 40) (map sample_entry [1, 2, 3]) sample_members = (err, s1)" by fastforce
  note p = sample_append(1,2) [OF sample_member_store(2,3)]
  obtain bs where "encodeEntriesLogFrames sample_env ''entries.log'' (length (rs_entries sample_members)) (map sample_entry [1, 2, 3]) = (None, bs)"
    using sample_encodes by blast
  then have enc: "fst (encodeEntriesLogFrames sample_env ''entries.log'' (length (rs_entries sample_members)) (map sample_entry [1, 2, 3])) = None"
    by simp
  have "canAppendEntriesLog (map sample_entry [1, 2, 3]) sample_members"
    by (simp add: canAppendEntriesLog_def sample_member_store(3))
  from raft_append_crash [OF sample_env_ok sample_run(1) p _ enc a this] raft_sample_fits a show ?thesis
    by (auto simp: sample_member_store(3))
qed

lemma log_entries_snap: "log_entries v fs = Inr (es, fs) \<Longrightarrow> log_entries v (fs\<lparr>rf_snap := f\<rparr>) = Inr (es, fs\<lparr>rf_snap := f\<rparr>)"
  by (cases fs) (auto simp: log_entries_def split: option.splits sum.splits)

text \<open>
  C36. An installed snapshot is written before the members that go with it. A crash between the two writes
  leaves a directory that opens with the new snapshot but with the members, the hard state and the log of
  before: the node comes back with a membership that the snapshot has already replaced.
\<close>

theorem install_crash_old_members:
  assumes "env_ok v view" "raft_runs v view s" "cs_Voters (rs_conf s) \<noteq> []"
    and "raft_index view s < sn_Index sn" "sn_Index sn \<noteq> - 1"
    and "raft_ApplySnapshot v ok sn s = (Some ErrFileWrite, s1)" "ok 0" "\<not> ok 1"
  shows "\<exists>s'. NewPersistentStorage v (rs_files s1) = Inr s' \<and> rm_Snapshot (rv_memory v) (rs_mem s') = Inr sn \<and>
    raft_InitialState v s' = raft_InitialState v s"
proof -
  have st: "raft_stored v view s" by (rule raft_runs_stored [OF assms(1,2)])
  note S = st [unfolded raft_stored_def Let_def] and laws = memory_laws [OF assms(1)]
  have lt: "unat (raft_index view s) < unat (sn_Index sn)" using assms(4) by (simp add: word_less_nat_alt)
  obtain m where m: "rm_ApplySnapshot (rv_memory v) sn (rs_mem s) = (None, m)"
    using laws(9) assms(4) unfolding raft_index_def by blast
  obtain f where f: "writeProtoAtomic v (ok 0) ''snapshot.pb'' (rc_snap (rv_codec v) sn) (rf_snap (rs_files s)) = (None, f)"
    "s1 = s\<lparr>rs_mem := m, rs_entries := [], rs_conf := sn_ConfState sn, rs_files := (rs_files s)\<lparr>rf_snap := f\<rparr>\<rparr>"
    using assms(6-8) m by (auto simp: raft_ApplySnapshot_def write_snap_def write_conf_def writeProtoAtomic_def
        split: prod.splits option.splits)
  let ?fs = "(rs_files s)\<lparr>rf_snap := f\<rparr>" and ?w = "view (rs_mem s)"
  from stored_parts [OF st] assms(1) obtain b where b: "consecutive b (rs_entries s)" "b \<le> unat (raft_index view s)"
    "log_entries v (rs_files s) = Inr (rs_entries s, rs_files s)" by blast
  have log: "log_entries v ?fs = Inr (rs_entries s, ?fs)" by (rule log_entries_snap [OF b(3)])
  have sn: "snap_stored v ?fs sn" using write_snapshot [OF assms(1) f(1)] lt by simp
  have others: "hard_stored v ?fs (vw_hard ?w)" "conf_stored v ?fs (rs_conf s)" using S by simp_all
  have "rf_conf ?fs \<noteq> None" using others(2) assms(3) by (auto simp: conf_stored_def no_conf_def)
  then have co: "load_file v ''conf_state.pb'' (rc_unconf (rv_codec v)) (rf_conf ?fs) = Inr (Some (rs_conf s))"
    using others(2) by (simp add: conf_stored_def)
  have so: "load_file v ''snapshot.pb'' (rc_unsnap (rv_codec v)) (rf_snap ?fs) = Inr (Some sn)"
    using sn codec_reads(3) [OF assms(1)] f(1)
    by (auto simp: snap_stored_def writeProtoAtomic_def split: option.splits if_splits)
  let ?ho = "if rf_hard ?fs = None then None else Some (vw_hard ?w)"
  have ho: "load_file v ''hard_state.pb'' (rc_unhard (rv_codec v)) (rf_hard ?fs) = Inr ?ho"
    "(case ?ho of None \<Rightarrow> vw_hard empty_view | Some h \<Rightarrow> h) = vw_hard ?w"
    using others(1) by (auto simp: hard_stored_def split: if_splits)
  have k: "unat (sn_Index sn) = (case Some sn of None \<Rightarrow> 0 | Some sn \<Rightarrow> unat (sn_Index sn))" "0 < unat (sn_Index sn)"
    "b \<le> unat (sn_Index sn)" using lt b(2) by simp_all
  from files_load [OF assms(1) co so ho(1) log k(1) _ below_top [OF assms(5)] b(1) k(3)] k(2) obtain m' where
    m': "NewPersistentStorage v ?fs = Inr \<lparr>rs_mem = m', rs_entries = rs_entries s, rs_conf = rs_conf s, rs_files = ?fs\<rparr>"
    "vw_hard (view m') = vw_hard ?w" "vw_snap (view m') = sn"
    unfolding ho(2) by (metis option.simps(5) raft_view.select_convs(1,2))
  then show ?thesis
    using assms(3) by (auto simp: f(2) laws(2,3) raft_InitialState_def Let_def)
qed

lemma sample_env_applies: "rm_ApplySnapshot (rv_memory sample_env) sn w = (None, view_ApplySnapshot sn w)"
  by (simp add: sample_env_def view_memory_def)

lemma sample_env_encodes:
  "rc_snap (rv_codec sample_env) (sample_snap i next_conf) = Some (2 # put_u64 i)"
  "rc_conf (rv_codec sample_env) next_conf = Some [2]" "rc_conf (rv_codec sample_env) sample_conf = Some [1]"
  "sn_ConfState (sample_snap i c) = c"
  by (simp_all add: sample_env_def sample_codec_def sample_snap_def)

theorem install_crash_old_members_witness:
  "\<exists>s1 s'. raft_ApplySnapshot sample_env (\<lambda>i. i = 0) (sample_snap 9 next_conf) sample_log = (Some ErrFileWrite, s1) \<and>
    NewPersistentStorage sample_env (rs_files s1) = Inr s' \<and>
    rm_Snapshot view_memory (rs_mem s') = Inr (sample_snap 9 next_conf) \<and>
    raft_InitialState sample_env s' = Inr (vw_hard empty_view, sample_conf)"
proof -
  have mem: "rv_memory sample_env = view_memory" by (simp add: sample_env_def)
  have a: "\<exists>s1. raft_ApplySnapshot sample_env (\<lambda>i. i = 0) (sample_snap 9 next_conf) sample_log = (Some ErrFileWrite, s1)"
    by (simp add: raft_ApplySnapshot_def sample_env_applies sample_env_encodes write_snap_def write_conf_def writeProtoAtomic_def
        raft_seal_def sample_env_simps)
  then obtain s1 where s1: "raft_ApplySnapshot sample_env (\<lambda>i. i = 0) (sample_snap 9 next_conf) sample_log = (Some ErrFileWrite, s1)" ..
  have "raft_InitialState sample_env sample_log = Inr (vw_hard empty_view, sample_conf)"
    by (simp add: raft_InitialState_def mem view_memory_def sample_run(3,4)) (simp add: sample_conf_def no_conf_def)
  moreover have "cs_Voters (rs_conf sample_log) \<noteq> []" by (simp add: sample_run(4) sample_conf_def)
  moreover have "raft_index id sample_log < sn_Index (sample_snap 9 next_conf)" "sn_Index (sample_snap 9 next_conf) \<noteq> - 1"
    by (simp_all add: raft_index_def sample_run(3) empty_view_def sample_snap_def)
  ultimately show ?thesis
    using install_crash_old_members [OF sample_env_ok sample_run(2) _ _ _ s1] s1 mem by auto
qed

text \<open>What loads before the log does not depend on the log.\<close>

lemma load_prefix:
  assumes "NewPersistentStorage v fs = Inr s"
  obtains m c where "\<And>log. NewPersistentStorage v (fs\<lparr>rf_log := log\<rparr>) = raft_load_entries v m c (fs\<lparr>rf_log := log\<rparr>)"
    "raft_load_entries v m c fs = Inr s"
proof -
  obtain conf where conf: "load_file v ''conf_state.pb'' (rc_unconf (rv_codec v)) (rf_conf fs) = Inr conf"
    using assms by (cases "load_file v ''conf_state.pb'' (rc_unconf (rv_codec v)) (rf_conf fs)")
      (simp_all add: NewPersistentStorage_def)
  obtain snap where snap: "load_file v ''snapshot.pb'' (rc_unsnap (rv_codec v)) (rf_snap fs) = Inr snap"
    using assms by (cases "load_file v ''snapshot.pb'' (rc_unsnap (rv_codec v)) (rf_snap fs)")
      (simp_all add: NewPersistentStorage_def conf)
  let ?install = "case snap of None \<Rightarrow> (None, rv_new v) | Some sn \<Rightarrow> rm_ApplySnapshot (rv_memory v) sn (rv_new v)"
  obtain e m1 where m1: "?install = (e, m1)" by fastforce
  have e: "e = None" using assms by (cases e) (simp_all add: NewPersistentStorage_def conf snap m1)
  obtain hard where hard: "load_file v ''hard_state.pb'' (rc_unhard (rv_codec v)) (rf_hard fs) = Inr hard"
    using assms by (cases "load_file v ''hard_state.pb'' (rc_unhard (rv_codec v)) (rf_hard fs)")
      (simp_all add: NewPersistentStorage_def conf snap m1 e)
  let ?set = "case hard of None \<Rightarrow> (None, m1) | Some hs \<Rightarrow> rm_SetHardState (rv_memory v) hs m1"
  obtain e2 m2 where m2: "?set = (e2, m2)" by fastforce
  have e2: "e2 = None" using assms by (cases e2) (simp_all add: NewPersistentStorage_def conf snap m1 e hard m2)
  define c where "c = (case conf of None \<Rightarrow> no_conf | Some c \<Rightarrow> c)"
  have l: "\<And>log. NewPersistentStorage v (fs\<lparr>rf_log := log\<rparr>) = raft_load_entries v m2 c (fs\<lparr>rf_log := log\<rparr>)"
    by (simp add: NewPersistentStorage_def conf snap m1 e hard m2 e2 c_def)
  have "raft_load_entries v m2 c fs = Inr s"
    using assms by (simp add: NewPersistentStorage_def conf snap m1 e hard m2 e2 c_def)
  with l show thesis by (rule that)
qed

lemma magic_nonzero: "k < 22 \<Longrightarrow> entriesLogMagic ! k \<noteq> 0"
proof -
  assume "k < 22"
  then have m: "entriesLogMagic ! k \<in> set entriesLogMagic" by (intro nth_mem) (simp add: length_magic)
  have "0 \<notin> set entriesLogMagic" by (simp add: entriesLogMagic_def bytes_of_def)
  with m show "entriesLogMagic ! k \<noteq> 0" by fastforce
qed

lemma digits_first: "digits_fix b (Suc n) x ! 0 = x div b ^ n mod b"
proof (induction n arbitrary: x)
  case (Suc n)
  have "digits_fix b (Suc (Suc n)) x ! 0 = digits_fix b (Suc n) (x div b) ! 0"
    unfolding digits_fix.simps(2) [of b "Suc n"] by (rule nth_append_left) simp
  also have "\<dots> = x div b ^ Suc n mod b" unfolding Suc.IH by (simp add: div_mult2_eq)
  finally show ?case .
qed simp

lemma be_enc_first:
  assumes "x div 256 ^ 7 = 0"
  shows "be_enc 8 x ! 0 = 0"
proof -
  have "be_enc 8 x ! 0 = of_nat (digits_fix 256 8 x ! 0)" unfolding be_enc_def by (rule nth_map) simp
  also have "digits_fix 256 8 x ! 0 = x div 256 ^ 7 mod 256" using digits_first [of 256 7 x] by (simp only: Suc_numeral add_num_simps)
  finally show ?thesis using assms by simp
qed

lemma frame_first:
  assumes "length c \<le> maxAlloc"
  shows "log_frame c ! 0 = 0" "12 \<le> length (log_frame c)"
proof -
  have "length c div 256 ^ 7 = 0" using assms by (simp add: maxAlloc_def)
  then have "be_enc 8 (length c) ! 0 = (0 :: byte)" by (rule be_enc_first)
  moreover have "unat (of_nat (length c) :: u64) = length c"
    using assms by (intro unat_of_nat_small) (simp add: maxAlloc_def)
  ultimately show "log_frame c ! 0 = 0" by (simp add: log_frame_def put_u64_def nth_append)
  show "12 \<le> length (log_frame c)" by (simp add: log_frame_def)
qed

text \<open>
  C37. The magic of the log is written with the first append. A crash within it leaves a shorter file that opens
  as an empty log, but the next append continues behind the torn magic: although it succeeds, its entries are
  gone when the directory is opened again, or the directory does not open at all.
\<close>

theorem torn_magic_loses_entries:
  assumes "es \<noteq> []" "rf_log (rs_files s) = None" "rs_entries s = []" "raft_Append v (WroteFails k) es s = (err, s1)"
    and "rs_files s1 \<noteq> rs_files s" "0 < k" "k < 22" "NewPersistentStorage v (rs_files s1) = Inr s2"
    and "es' \<noteq> []" "\<forall>e \<in> set es'. entry_fits v e" "raft_Append v WroteAll es' s2 = (None, s3)"
  shows "NewPersistentStorage v (rs_files s3) = Inl ErrLogHeader \<or>
    (\<exists>s4. NewPersistentStorage v (rs_files s3) = Inr s4 \<and> rs_entries s4 = [])"
proof -
  have f1: "rs_files s1 = (rs_files s)\<lparr>rf_log := Some (take k entriesLogMagic)\<rparr>"
    using assms(1-7) by (auto simp: raft_Append_def canAppendEntriesLog_def appendEntriesLog_def Let_def length_magic
        split: prod.splits option.splits)
  from load_prefix [OF assms(8)] obtain m c where p:
    "\<And>log. NewPersistentStorage v ((rs_files s1)\<lparr>rf_log := log\<rparr>) = raft_load_entries v m c ((rs_files s1)\<lparr>rf_log := log\<rparr>)"
    "raft_load_entries v m c (rs_files s1) = Inr s2" by blast
  have short: "readEntriesLog v (take k entriesLogMagic) = Inr ([], take k entriesLogMagic)"
    using assms(7) by (simp add: readEntriesLog_def length_magic)
  have s2: "rs_entries s2 = []" "rs_files s2 = rs_files s1"
    using p(2) by (auto simp: raft_load_entries_def f1 short)
  obtain e es'' where e: "es' = e # es''" using assms(9) by (cases es') auto
  obtain bs where bs: "encodeEntriesLogFrames v ''entries.log'' 0 es' = (None, bs)"
    "rs_files s3 = (rs_files s1)\<lparr>rf_log := Some (take k entriesLogMagic @ bs)\<rparr>"
    using assms(6,7,9,11) s2 f1
    by (auto simp: raft_Append_def canAppendEntriesLog_def appendEntriesLog_def Let_def entriesLogMagic_def
        split: prod.splits option.splits)
  have fe: "entry_fits v e" using assms(10) e by simp
  from enc_frames_Cons [OF bs(1) [unfolded e] fe] obtain q rest where q: "bs = log_frame q @ rest" "length q \<le> maxAlloc" .
  let ?file = "take k entriesLogMagic @ bs"
  have "log_frame q \<noteq> []" using frame_first(2) [OF q(2)] by auto
  then have "?file ! k = 0" using frame_first(1) [OF q(2)] q(1) assms(7) by (simp add: nth_append length_magic)
  then have "take 22 ?file \<noteq> entriesLogMagic"
    using magic_nonzero [OF assms(7)] assms(7) by (metis nth_take)
  then have "readEntriesLog v ?file = Inl ErrLogHeader \<or> readEntriesLog v ?file = Inr ([], ?file)"
    by (simp add: readEntriesLog_def length_magic)
  then show ?thesis
    unfolding bs(2) p(1) by (auto simp: raft_load_entries_def)
qed

theorem torn_magic_loses_entries_witness:
  "\<exists>s1 s2 s3. raft_Append sample_env (WroteFails 5) (map sample_entry [1]) sample_start = (Some ErrFileWrite, s1) \<and>
    NewPersistentStorage sample_env (rs_files s1) = Inr s2 \<and>
    raft_Append sample_env WroteAll (map sample_entry [1]) s2 = (None, s3) \<and>
    (NewPersistentStorage sample_env (rs_files s3) = Inl ErrLogHeader \<or>
      (\<exists>s4. NewPersistentStorage sample_env (rs_files s3) = Inr s4 \<and> rs_entries s4 = []))"
proof -
  let ?es = "map sample_entry [1]" and ?m = "empty_view\<lparr>vw_ents := [sample_entry 1]\<rparr>"
  let ?t = "take 5 entriesLogMagic" and ?fs = "no_files\<lparr>rf_log := Some (take 5 entriesLogMagic)\<rparr>"
  define s1 where "s1 = \<lparr>rs_mem = ?m, rs_entries = [], rs_conf = no_conf, rs_files = ?fs\<rparr>"
  define s2 where "s2 = \<lparr>rs_mem = empty_view, rs_entries = [], rs_conf = no_conf, rs_files = ?fs\<rparr>"
  have m: "rm_Append (rv_memory sample_env) [sample_entry 1] empty_view = (None, ?m)"
    by (simp add: sample_env_def view_memory_def view_Append_def empty_view_def sample_entry_def)
  have s1: "raft_Append sample_env (WroteFails 5) ?es sample_start = (Some ErrFileWrite, s1)"
    by (simp add: raft_Append_def sample_start_def m canAppendEntriesLog_def appendEntriesLog_def length_magic s1_def no_files_def)
  have "readEntriesLog sample_env ?t = Inr ([], ?t)" by (simp add: readEntriesLog_def length_magic)
  then have s2: "NewPersistentStorage sample_env (rs_files s1) = Inr s2"
    by (simp add: NewPersistentStorage_def s1_def s2_def load_file_def no_files_def raft_load_entries_def)
      (simp add: sample_env_def)
  obtain bs where bs: "encodeEntriesLogFrames sample_env ''entries.log'' 0 ?es = (None, bs)" using sample_encodes by blast
  have "fst (raft_Append sample_env WroteAll ?es s2) = None"
    using bs by (simp add: raft_Append_def s2_def m canAppendEntriesLog_def appendEntriesLog_def Let_def split: option.split)
  then obtain s3 where s3: "raft_Append sample_env WroteAll ?es s2 = (None, s3)" by (metis prod.collapse)
  have "rs_files s1 \<noteq> rs_files sample_start" by (simp add: s1_def sample_start_def no_files_def)
  then show ?thesis
    using torn_magic_loses_entries [OF _ _ _ s1 _ _ _ s2 _ _ s3] s1 s2 s3 raft_sample_fits by (simp add: sample_start_def no_files_def)
qed

end
