(* ===== verification/Raft_Group_Properties.thy ===== *)
theory Raft_Group_Properties
  imports Raft_Group_Runs Raft_Channels Raft_Properties "HOL-Library.Multiset"
begin

text \<open>
  A raft group after a restart, the order of its writes, commands that replay differently, the channels of its
  callers, and the placement of partitions.
\<close>

section \<open>A sample group\<close>

definition sample_node :: SystemNode where
  "sample_node = \<lparr>sy_NodeID = ''node_a'', sy_RaftNodeID = 1, sy_NodeName = ''a'', sy_ClientAdvertiseAddr = [],
     sy_BackendAdvertiseAddr = []\<rparr>"

definition sample_command :: raft_command where
  "sample_command = \<lparr>cmd_Version = 1, cmd_Scope = ''system'', cmd_PartitionID = 0, cmd_SpaceID = [],
     cmd_RecordType = ''system.cluster.register_node'', cmd_SchemaVersion = 1, cmd_Encoding = 1, cmd_Payload = [5],
     cmd_CommandID = ''c1'', cmd_CommandHash = []\<rparr>"

definition sample_cmds :: command_env where
  "sample_cmds = \<lparr>ce_parse = (\<lambda>_. None), ce_string = (\<lambda>_. []), ce_sha256 = id,
     ce_encode = (\<lambda>c. Some [7]), ce_decode = (\<lambda>b. if b = [7] then Some sample_command else None)\<rparr>"

definition sample_system :: system_env where
  "sample_system = \<lparr>se_cmd = sample_cmds, se_payload = (\<lambda>_. None), se_unpayload = (\<lambda>_. Some [5]),
     se_node = (\<lambda>b. Some sample_node), se_meta = (\<lambda>md. if md = NewSystemStateMachine then Some [1] else None),
     se_unmeta = (\<lambda>b. Some NewSystemStateMachine), se_sort = (\<lambda>less xs. xs)\<rparr>"

definition sample_group_env :: "(raft_view, SystemMetadata, unit) group_env" where
  "sample_group_env = \<lparr>ge_store = sample_env, ge_cmd = sample_cmds, ge_sm = SystemStateMachine sample_system,
     ge_applyConfChange = (\<lambda>t d n. None), ge_propose = (\<lambda>d n. (None, n)), ge_readIndex = (\<lambda>c n. (None, n)),
     ge_startNode = (\<lambda>ps. Some ()), ge_restartNode = (\<lambda>s k. Some ())\<rparr>"

definition sample_options :: group_options where
  "sample_options = \<lparr>go_ID = ''g'', go_NodeID = 1, go_Peers = [1], go_PartitionCount = 4,
     go_ReplayCommittedEntries = True, go_JoinExisting = False\<rparr>"

lemma sample_json: "json_ok sample_system"
  by (simp add: json_ok_def sample_system_def)

interpretation system_group: raft_machine "SystemStateMachine sample_system"
  by (rule system_machine [OF sample_json])

text \<open>It starts on an empty directory, and commits and applies one entry that registers a node.\<close>

definition sample_group :: "(raft_view, SystemMetadata, unit) raft_group" where
  "sample_group = (case StartGroup sample_group_env sample_options sample_start NewSystemStateMachine of Inr g \<Rightarrow> g)"

definition sample_hard :: hard_state where
  "sample_hard = \<lparr>hs_Term = 1, hs_Vote = 0, hs_Commit = 1\<rparr>"

definition sample_ready :: raft_ready where
  "sample_ready = \<lparr>rd_SoftState = None, rd_ReadStates = [], rd_HardState = sample_hard, rd_Entries = [sample_entry 1],
     rd_Snapshot = vw_snap empty_view, rd_CommittedEntries = [sample_entry 1], rd_Messages = []\<rparr>"

definition sample_registered :: SystemMetadata where
  "sample_registered = NewSystemStateMachine\<lparr>md_Nodes := [''node_a'' \<mapsto> sample_node]\<rparr>"

lemma sample_memory:
  "rm_InitialState (rv_memory sample_env) w = Inr (vw_hard w, sn_ConfState (vw_snap w))"
  "rm_Snapshot (rv_memory sample_env) w = Inr (vw_snap w)"
  "rm_SetHardState (rv_memory sample_env) hs w = (None, w\<lparr>vw_hard := hs\<rparr>)"
  "rm_Append (rv_memory sample_env) es w = (None, view_Append es w)"
  "rm_LastIndex (rv_memory sample_env) w = Inr (of_nat (vw_last w))"
  by (simp_all add: sample_env_def view_memory_def)

lemma sample_group_fields:
  "ge_store sample_group_env = sample_env" "ge_cmd sample_group_env = sample_cmds"
  "ge_sm sample_group_env = SystemStateMachine sample_system"
  by (simp_all add: sample_group_env_def)

lemma sample_group_starts:
  "StartGroup sample_group_env sample_options sample_start NewSystemStateMachine = Inr sample_group"
  "g_storage sample_group = sample_start" "g_sm sample_group = NewSystemStateMachine" "g_appliedIndex sample_group = 0"
  "g_partitionCount sample_group = 4" "g_waiters sample_group = Map.empty" "g_readWaiters sample_group = Map.empty"
proof -
  have r: "restoreSnapshotAndReplayCommittedEntries sample_env sample_cmds (SystemStateMachine sample_system) 4 sample_start
      NewSystemStateMachine = ((None, 0), NewSystemStateMachine)"
    by (simp add: restoreSnapshotAndReplayCommittedEntries_def raft_InitialState_def sample_memory sample_start_def
        IsEmptySnap_def empty_view_def Let_def)
  have n: "raft_InitialState sample_env sample_start = Inr (vw_hard empty_view, no_conf)"
    by (simp add: raft_InitialState_def sample_memory sample_start_def Let_def) (simp add: empty_view_def no_conf_def)
  have h: "\<not> hasPersistentRaftState sample_env sample_start"
    unfolding hasPersistentRaftState_def n
    by (simp add: sample_memory sample_start_def IsEmptyHardState_def empty_view_def vw_last_def)
  have "\<exists>g. StartGroup sample_group_env sample_options sample_start NewSystemStateMachine = Inr g \<and>
    g_storage g = sample_start \<and> g_sm g = NewSystemStateMachine \<and> g_appliedIndex g = 0 \<and> g_partitionCount g = 4 \<and>
    g_waiters g = Map.empty \<and> g_readWaiters g = Map.empty"
    by (simp add: StartGroup_def sample_options_def sample_group_fields r n h) (simp add: sample_group_env_def)
  then show "StartGroup sample_group_env sample_options sample_start NewSystemStateMachine = Inr sample_group"
  "g_storage sample_group = sample_start" "g_sm sample_group = NewSystemStateMachine" "g_appliedIndex sample_group = 0"
  "g_partitionCount sample_group = 4" "g_waiters sample_group = Map.empty" "g_readWaiters sample_group = Map.empty"
    by (auto simp: sample_group_def)
qed

lemma sample_validates:
  "Validate sample_cmds n sample_command = None" "DecodeCommand sample_cmds [7] = Inr sample_command"
proof -
  have t: "TrimSpace ''c1'' = ''c1''" by (rule TrimSpace_plain) (simp_all add: plain_char_def)
  show "Validate sample_cmds n sample_command = None"
    by (simp add: Validate_def validate_scope_def sample_command_def CommandVersion_def CommandScopeSystem_def t)
  show "DecodeCommand sample_cmds [7] = Inr sample_command" by (simp add: DecodeCommand_def sample_cmds_def)
qed

lemma sample_applies:
  "system_ApplyCommand sample_system ac sample_command NewSystemStateMachine = (None, sample_registered)"
proof -
  have "TrimSpace ''node_a'' = ''node_a''" "TrimSpace ''a'' = ''a''"
    by (rule TrimSpace_plain; simp add: plain_char_def)+
  then have "validateSystemNode sample_node = None"
    by (simp add: validateSystemNode_def sample_node_def HasPrefix_def starts_with_def)
  moreover have "Validate (se_cmd sample_system) 0 sample_command = None"
    using sample_validates(1) by (simp add: sample_system_def)
  moreover have "cmd_Scope sample_command = CommandScopeSystem" "cmd_RecordType sample_command = SystemRecordRegisterNode"
    "SystemRecordRegisterNode \<noteq> SystemRecordBootstrapMetadata" "se_node sample_system b = Some sample_node" for b
    by (simp_all add: sample_command_def CommandScopeSystem_def SystemRecordRegisterNode_def
        SystemRecordBootstrapMetadata_def sample_system_def)
  ultimately show ?thesis
    by (simp add: system_ApplyCommand_def sample_registered_def) (simp add: sample_node_def NewSystemStateMachine_def)
qed

lemma sample_effect:
  "entry_effect sample_cmds (SystemStateMachine sample_system) (sample_entry 1) NewSystemStateMachine = sample_registered"
  "entry_valid sample_cmds n (sample_entry i)"
  by (simp_all add: entry_effect_def entry_valid_def sample_entry_def sample_validates SystemStateMachine_def sample_applies)

text \<open>The store after the hard state, and after the entry.\<close>

lemma sample_stores:
  obtains s1 s2 where "raft_SetHardState sample_env True sample_hard sample_start = (None, s1)"
    "rs_mem s1 = empty_view\<lparr>vw_hard := sample_hard\<rparr>" "rs_entries s1 = []"
    "raft_Append sample_env WroteAll [sample_entry 1] s1 = (None, s2)"
    "rs_mem s2 = empty_view\<lparr>vw_hard := sample_hard, vw_ents := [sample_entry 1]\<rparr>"
proof -
  have enc: "rc_hard (rv_codec sample_env) sample_hard = Some (put_u64 1)"
    by (simp add: sample_env_def sample_codec_def sample_hard_def)
  define s1 where "s1 = snd (raft_SetHardState sample_env True sample_hard sample_start)"
  have s1: "raft_SetHardState sample_env True sample_hard sample_start = (None, s1)"
    "rs_mem s1 = empty_view\<lparr>vw_hard := sample_hard\<rparr>" "rs_entries s1 = []"
    by (simp_all add: s1_def raft_SetHardState_def sample_memory writeProtoAtomic_def enc raft_seal_def sample_env_simps
        sample_start_def)
  define s2 where "s2 = snd (raft_Append sample_env WroteAll [sample_entry 1] s1)"
  obtain bs where bs: "encodeEntriesLogFrames sample_env ''entries.log'' 0 (map sample_entry [1]) = (None, bs)"
    using sample_encodes by blast
  have a: "\<exists>f. appendEntriesLog sample_env WroteAll 0 [sample_entry 1] (rf_log (rs_files s1)) = (None, f)"
    using bs by (simp add: appendEntriesLog_def Let_def split: option.split)
  then have s2: "raft_Append sample_env WroteAll [sample_entry 1] s1 = (None, s2)"
    "rs_mem s2 = empty_view\<lparr>vw_hard := sample_hard, vw_ents := [sample_entry 1]\<rparr>"
    by (auto simp: s2_def raft_Append_def sample_memory s1(2,3) canAppendEntriesLog_def view_Append_def Let_def empty_view_def
        sample_entry_def)
  show thesis by (rule that [OF s1 s2])
qed

lemma sample_ready_fields:
  "rd_SoftState sample_ready = None" "rd_ReadStates sample_ready = []" "rd_HardState sample_ready = sample_hard"
  "rd_Entries sample_ready = [sample_entry 1]" "IsEmptySnap (rd_Snapshot sample_ready)"
  "rd_CommittedEntries sample_ready = [sample_entry 1]" "rd_Messages sample_ready = []"
  by (simp_all add: sample_ready_def IsEmptySnap_def empty_view_def)

lemma sample_hard_fields: "hs_Term sample_hard = 1" "hs_Commit sample_hard = 1" "\<not> IsEmptyHardState sample_hard"
  by (simp_all add: sample_hard_def IsEmptyHardState_def)

lemma io_ok_fields: "io_hard io_ok = True" "io_append io_ok = WroteAll" "io_conf io_ok = (\<lambda>_. True)"
  by (simp_all add: io_ok_def)

lemma sample_steps:
  obtains g2 g3 where
    "ready_snapshot sample_group_env io_ok sample_ready (ready_soft sample_ready sample_group) = (None, sample_group)"
    "ready_hard sample_group_env io_ok sample_ready sample_group = (None, g2)"
    "rs_mem (g_storage g2) = empty_view\<lparr>vw_hard := sample_hard\<rparr>"
    "ready_entries sample_group_env io_ok sample_ready g2 = (None, g3)"
    "rs_mem (g_storage g3) = empty_view\<lparr>vw_hard := sample_hard, vw_ents := [sample_entry 1]\<rparr>"
    "g_sm g3 = NewSystemStateMachine" "g_appliedIndex g3 = 0"
proof -
  from sample_stores obtain s1 s2 where s: "raft_SetHardState sample_env True sample_hard sample_start = (None, s1)"
    "rs_mem s1 = empty_view\<lparr>vw_hard := sample_hard\<rparr>" "rs_entries s1 = []"
    "raft_Append sample_env WroteAll [sample_entry 1] s1 = (None, s2)"
    "rs_mem s2 = empty_view\<lparr>vw_hard := sample_hard, vw_ents := [sample_entry 1]\<rparr>" .
  let ?g2 = "sample_group\<lparr>g_storage := s1, g_term := 1, g_commitIndex := 1\<rparr>"
  have 0: "ready_snapshot sample_group_env io_ok sample_ready (ready_soft sample_ready sample_group) = (None, sample_group)"
    by (simp add: ready_soft_def ready_snapshot_def sample_ready_fields)
  have 1: "ready_hard sample_group_env io_ok sample_ready sample_group = (None, ?g2)"
    by (simp add: ready_hard_def sample_ready_fields Let_def sample_hard_fields sample_group_fields io_ok_fields
        sample_group_starts(2) s(1))
  have 2: "ready_entries sample_group_env io_ok sample_ready ?g2 = (None, ?g2\<lparr>g_storage := s2\<rparr>)"
    by (simp add: ready_entries_def sample_ready_fields sample_group_fields io_ok_fields s(4))
  show thesis by (rule that [OF 0 1 _ 2]) (simp_all add: s(2,5) sample_group_starts(3,4))
qed

lemma sample_ready_done:
  obtains g where "group_runs sample_group_env id sample_options NewSystemStateMachine g" "g_sm g = sample_registered"
    "g_appliedIndex g = 1" "hs_Commit (vw_hard (rs_mem (g_storage g))) = 1"
proof -
  from sample_steps obtain g2 g3 where g:
    "ready_snapshot sample_group_env io_ok sample_ready (ready_soft sample_ready sample_group) = (None, sample_group)"
    "ready_hard sample_group_env io_ok sample_ready sample_group = (None, g2)"
    "rs_mem (g_storage g2) = empty_view\<lparr>vw_hard := sample_hard\<rparr>"
    "ready_entries sample_group_env io_ok sample_ready g2 = (None, g3)"
    "rs_mem (g_storage g3) = empty_view\<lparr>vw_hard := sample_hard, vw_ents := [sample_entry 1]\<rparr>"
    "g_sm g3 = NewSystemStateMachine" "g_appliedIndex g3 = 0" .
  have start: "group_runs sample_group_env id sample_options NewSystemStateMachine sample_group"
    by (rule gr_start [OF _ sample_group_starts(1)]) (simp add: sample_group_fields sample_starts)
  have idx: "raft_index id (g_storage g2) = 0" "raft_index id sample_start = 0"
    by (simp_all add: raft_index_def g(3) sample_start_def) (simp_all add: empty_view_def)
  have pre: "append_pre [sample_entry 1] (rs_mem (g_storage g2))"
    by (simp add: append_pre_def g(3)) (simp add: sample_entry_def empty_view_def)
  have between: "log_between (rs_mem (g_storage g3)) 0 1 = [sample_entry 1]" "vw_last (rs_mem (g_storage g3)) = 1"
    by (simp_all add: log_between_def vw_last_def g(5)) (simp_all add: empty_view_def)
  have commit: "stored_commit id sample_start = 0" "stored_commit id (g_storage g2) = 1" "stored_commit id (g_storage g3) = 1"
    by (simp_all add: stored_commit_def g(3,5) sample_hard_fields sample_start_def) (simp add: empty_view_def)
  have ix1: "ix (sample_entry 1) = 1" by (simp add: sample_entry_def)
  have ok: "ready_ok sample_group_env id sample_ready sample_group"
    unfolding ready_ok_def Let_def g(1,2,4) snd_conv sample_ready_fields(4,6)
    using pre between by (intro conjI exI [of _ 1])
      (simp_all add: sample_ready_fields(5) commit idx ix1 sample_group_starts(2,5) sample_group_fields raft_sample_fits
        sample_effect(2) g(7))
  let ?g3 = "g3\<lparr>g_sent := g_sent g3\<rparr>"
  have e: "re_Index (sample_entry 1) = 1" "re_Type (sample_entry 1) = EntryNormal" "re_Data (sample_entry 1) = [7]"
    by (simp_all add: sample_entry_def)
  have "\<exists>g4. applyEntry sample_group_env True (sample_entry 1) ?g3 = (None, g4) \<and> g_storage g4 = g_storage g3"
    by (simp add: applyEntry_def alreadyApplied_def e apply_command_def sample_group_fields sample_validates SystemStateMachine_def
        g(6,7) sample_applies Let_def IsFatalApplyError_def)
  then obtain g4 where g4: "applyEntry sample_group_env True (sample_entry 1) ?g3 = (None, g4)" "g_storage g4 = g_storage g3"
    by blast
  have "g_sm g4 = sample_registered \<and> g_appliedIndex g4 = 1"
    using applyEntry_effect(1,2) [OF g4(1)] by (simp add: e g(6,7) sample_group_fields sample_effect(1))
  moreover have "processReady sample_group_env io_ok sample_ready sample_group = (True, g4)"
    using g4(1) by (simp add: processReady_def g(1,2,4) sample_ready_fields io_ok_fields)
  ultimately show thesis
    using that [OF gr_ready [OF start ok]] g4(2) g(5) by (simp add: sample_hard_def)
qed

section \<open>Restart\<close>

text \<open>
  C6. Whatever readies, snapshots, compactions and restarts the system group has gone through, started again
  from its files it restores the snapshot, replays the log up to the stored commit index, and has the metadata
  it had before, with the entries that were committed but not yet applied on top; when all of them were
  applied, exactly the metadata it had.
\<close>

theorem system_group_restart:
  assumes "env_ok (ge_store ge) view" "json_ok se" "ge_sm ge = SystemStateMachine se" "go_ReplayCommittedEntries opts"
    and "group_runs ge view opts NewSystemStateMachine g"
  shows "\<exists>s commit md. NewPersistentStorage (ge_store ge) (rs_files (g_storage g)) = Inr s \<and>
    restoreSnapshotAndReplayCommittedEntries (ge_store ge) (ge_cmd ge) (ge_sm ge) (go_PartitionCount opts) s
      NewSystemStateMachine = ((None, commit), md) \<and>
    commit = hs_Commit (vw_hard (view (rs_mem (g_storage g)))) \<and> g_appliedIndex g \<le> commit \<and>
    md = fold (entry_effect (ge_cmd ge) (ge_sm ge))
      (log_between (view (rs_mem (g_storage g))) (unat (g_appliedIndex g)) (unat commit)) (g_sm g) \<and>
    (g_appliedIndex g = commit \<longrightarrow> md = g_sm g)"
proof -
  note i = raft_machine.group_runs_inv [OF system_machine [OF assms(2)] assms(1,3,4,5)]
  then have st: "raft_stored (ge_store ge) view (g_storage g)"
    by (simp add: group_inv_def group_log_def log_inv_def Let_def)
  from stored_loads [OF assms(1) st] obtain s where s: "NewPersistentStorage (ge_store ge) (rs_files (g_storage g)) = Inr s" by blast
  have sm: "sm_ApplyCommand (ge_sm ge) = system_ApplyCommand se" by (simp add: assms(3) SystemStateMachine_def)
  have "g_appliedIndex g \<le> hs_Commit (vw_hard (view (rs_mem (g_storage g))))"
    using i by (simp add: group_inv_def stored_commit_def word_le_nat_alt)
  with s system.restart_replays [OF assms(1) sm i s] show ?thesis by simp
qed

theorem system_group_restart_witness:
  "\<exists>g s. group_runs sample_group_env id sample_options NewSystemStateMachine g \<and> g_sm g = sample_registered \<and>
    NewPersistentStorage sample_env (rs_files (g_storage g)) = Inr s \<and>
    restoreSnapshotAndReplayCommittedEntries sample_env sample_cmds (SystemStateMachine sample_system) 4 s
      NewSystemStateMachine = ((None, 1), sample_registered)"
proof -
  from sample_ready_done obtain g where g: "group_runs sample_group_env id sample_options NewSystemStateMachine g"
    "g_sm g = sample_registered" "g_appliedIndex g = 1" "hs_Commit (vw_hard (rs_mem (g_storage g))) = 1" .
  have "env_ok (ge_store sample_group_env) id" by (simp add: sample_group_fields sample_env_ok)
  from system_group_restart [OF this sample_json sample_group_fields(3) _ g(1)] g(2-4) show ?thesis
    by (auto simp: sample_group_fields sample_options_def g(1) [unfolded sample_options_def] intro!: exI [of _ g])
qed

section \<open>The order of the writes\<close>

lemma append_nothing_written:
  assumes "raft_Append v (WroteFails 0) es s = (err, s')" "es \<noteq> []" "canAppendEntriesLog es s" "rf_log (rs_files s) \<noteq> None"
    and "rm_Append (rv_memory v) es (rs_mem s) = (None, m)"
  shows "err = Some ErrFileWrite" "rs_files s' = rs_files s"
  using assms by (auto simp: raft_Append_def appendEntriesLog_def Let_def split: prod.splits option.splits if_splits)

text \<open>
  C38. A ready that brings entries and a commit index that reaches into them has its hard state written first.
  A crash before the entries are written leaves a directory that opens with a commit index above the last
  index of its log, which \<open>go.etcd.io/raft\<close> refuses to start on.
\<close>

theorem commit_before_entries:
  assumes "env_ok (ge_store ge) view" "raft_runs (ge_store ge) view (g_storage g)"
    and "IsEmptySnap (rd_Snapshot rd)" "rd_Entries rd \<noteq> []" "append_pre (rd_Entries rd) (view (rs_mem (g_storage g)))"
    and "canAppendEntriesLog (rd_Entries rd) (g_storage g)" "rf_log (rs_files (g_storage g)) \<noteq> None"
    and "vw_last (view (rs_mem (g_storage g))) < unat (hs_Commit (rd_HardState rd))"
    and "raft_SetHardState (ge_store ge) True (rd_HardState rd) (g_storage g) = (None, s1)"
    and "io_hard io" "io_append io = WroteFails 0"
  shows "\<exists>g' s cs lst. processReady ge io rd g = (False, g') \<and>
    NewPersistentStorage (ge_store ge) (rs_files (g_storage g')) = Inr s \<and>
    raft_InitialState (ge_store ge) s = Inr (rd_HardState rd, cs) \<and>
    rm_LastIndex (rv_memory (ge_store ge)) (rs_mem s) = Inr lst \<and> lst < hs_Commit (rd_HardState rd)"
proof -
  let ?v = "ge_store ge" and ?hs = "rd_HardState rd" and ?es = "rd_Entries rd" and ?w = "view (rs_mem (g_storage g))"
  have st: "raft_stored ?v view (g_storage g)" by (rule raft_runs_stored [OF assms(1,2)])
  have st1: "raft_stored ?v view s1" by (rule stored_SetHardState [OF assms(1) st assms(9)])
  obtain m where m: "rm_SetHardState (rv_memory ?v) ?hs (rs_mem (g_storage g)) = (None, m)" "view m = ?w\<lparr>vw_hard := ?hs\<rparr>"
    using memory_laws(7) [OF assms(1)] by blast
  have s1: "rs_mem s1 = m" "rs_entries s1 = rs_entries (g_storage g)" "rf_log (rs_files s1) = rf_log (rs_files (g_storage g))"
    using assms(9) m(1) by (auto simp: raft_SetHardState_def split: prod.splits)
  have can: "canAppendEntriesLog ?es s1" using assms(6) unfolding canAppendEntriesLog_def s1(2,3) .
  have wf: "view_wf (view (rs_mem s1))" using st1 by (simp add: raft_stored_def Let_def)
  have pre: "append_pre ?es (view (rs_mem s1))" using assms(5) by (simp add: s1(1) m(2) append_pre_def vw_last_def)
  obtain m2 where m2: "rm_Append (rv_memory ?v) ?es (rs_mem s1) = (None, m2)" using memory_laws(8) [OF assms(1) wf pre] by blast
  obtain err s2 where s2: "raft_Append ?v (WroteFails 0) ?es s1 = (err, s2)" by fastforce
  have log: "rf_log (rs_files s1) \<noteq> None" using assms(7) by (simp add: s1(3))
  note a = append_nothing_written [OF s2 assms(4) can log m2]
  have "hs_Commit ?hs \<noteq> 0" using assms(8) by auto
  then have ne: "\<not> IsEmptyHardState ?hs" by (auto simp: IsEmptyHardState_def)
  have "\<exists>g'. processReady ge io rd g = (False, g') \<and> g_storage g' = s2"
    using s2 a(1) assms(4,9,10,11) ne
    by (simp add: processReady_def ready_snapshot_def assms(3) ready_hard_def Let_def ready_entries_def failWaiters_def)
  then obtain g' where g': "processReady ge io rd g = (False, g')" "g_storage g' = s2" by blast
  from stored_loads [OF assms(1) st1] obtain s where s: "NewPersistentStorage ?v (rs_files s1) = Inr s" "raft_stored ?v view s"
    "vw_hard (view (rs_mem s)) = vw_hard (view (rs_mem s1))" "vw_offset (view (rs_mem s)) = unat (raft_index view s1)"
    "vw_ents (view (rs_mem s)) = drop (unat (raft_index view s1) - vw_offset (view (rs_mem s1))) (vw_ents (view (rs_mem s1)))"
    by blast
  have wfs: "view_wf (view (rs_mem s))" using s(2) by (simp add: raft_stored_def Let_def)
  have k: "vw_offset (view (rs_mem s1)) \<le> unat (raft_index view s1)" "unat (raft_index view s1) \<le> vw_last (view (rs_mem s1))"
    using st1 by (simp_all add: raft_stored_def Let_def raft_index_def)
  then have last: "vw_last (view (rs_mem s)) = vw_last ?w" by (auto simp: vw_last_def s(4,5) s1(1) m(2))
  have small: "vw_last ?w < 2 ^ 64" using assms(8) unsigned_less [of "hs_Commit ?hs", where ?'a = nat] by simp
  have "(of_nat (vw_last ?w) :: u64) < hs_Commit ?hs"
    using assms(8) unat_of_nat_small(4) [OF small] by (simp add: word_less_nat_alt)
  moreover have "rm_LastIndex (rv_memory ?v) (rs_mem s) = Inr (of_nat (vw_last ?w))"
    using memory_laws(5) [OF assms(1) wfs] by (simp add: last)
  moreover have "\<exists>cs. raft_InitialState ?v s = Inr (?hs, cs)"
    by (simp add: raft_InitialState_def memory_laws(2) [OF assms(1)] s(3) s1(1) m(2) Let_def)
  ultimately show ?thesis using g' s(1) a(2) by fastforce
qed

definition sample_commit4 :: hard_state where
  "sample_commit4 = \<lparr>hs_Term = 1, hs_Vote = 0, hs_Commit = 4\<rparr>"

definition sample_late :: raft_ready where
  "sample_late = \<lparr>rd_SoftState = None, rd_ReadStates = [], rd_HardState = sample_commit4, rd_Entries = [sample_entry 4],
     rd_Snapshot = vw_snap empty_view, rd_CommittedEntries = [], rd_Messages = []\<rparr>"

definition io_hard_only :: ready_io where
  "io_hard_only = \<lparr>io_snap = (\<lambda>_. False), io_hard = True, io_append = WroteFails 0, io_conf = (\<lambda>_. False)\<rparr>"

theorem commit_before_entries_witness:
  "\<exists>g' s cs lst. processReady sample_group_env io_hard_only sample_late (sample_group\<lparr>g_storage := sample_log\<rparr>) = (False, g') \<and>
    NewPersistentStorage sample_env (rs_files (g_storage g')) = Inr s \<and>
    raft_InitialState sample_env s = Inr (sample_commit4, cs) \<and>
    rm_LastIndex (rv_memory sample_env) (rs_mem s) = Inr lst \<and> lst < 4"
proof -
  let ?g = "sample_group\<lparr>g_storage := sample_log\<rparr>"
  have g: "g_storage ?g = sample_log" by simp
  have enc: "rc_hard (rv_codec sample_env) sample_commit4 = Some (put_u64 4)"
    by (simp add: sample_env_def sample_codec_def sample_commit4_def)
  obtain s1 where s1: "raft_SetHardState sample_env True sample_commit4 sample_log = (None, s1)"
    by (simp add: raft_SetHardState_def sample_memory writeProtoAtomic_def enc raft_seal_def sample_env_simps)
  have "raft_stored sample_env id sample_log" by (rule raft_runs_stored [OF sample_env_ok sample_run(2)])
  from log_case [OF this] have log: "rf_log (rs_files sample_log) \<noteq> None"
    by (auto simp: sample_run(5) split: option.splits)
  have rd: "IsEmptySnap (rd_Snapshot sample_late)" "rd_Entries sample_late = [sample_entry 4]" "rd_HardState sample_late = sample_commit4"
    by (simp_all add: sample_late_def IsEmptySnap_def empty_view_def)
  have pre: "append_pre [sample_entry 4] (id (rs_mem sample_log))"
    by (simp add: append_pre_def sample_run(3) vw_last_def) (simp add: sample_entry_def empty_view_def)
  have can: "canAppendEntriesLog [sample_entry 4] sample_log"
    using log by (simp add: canAppendEntriesLog_def sample_run(5)) (simp add: sample_entry_def)
  have last: "vw_last (id (rs_mem sample_log)) < unat (hs_Commit sample_commit4)"
    by (simp add: sample_run(3) vw_last_def sample_commit4_def) (simp add: empty_view_def)
  have "hs_Commit sample_commit4 = 4" "io_hard io_hard_only" "io_append io_hard_only = WroteFails 0"
    by (simp_all add: sample_commit4_def io_hard_only_def)
  with commit_before_entries [of sample_group_env id ?g sample_late s1 io_hard_only, unfolded g sample_group_fields rd(2,3)]
    sample_env_ok sample_run(2) rd(1) pre can log last s1 show ?thesis by (simp add: numeral_eq_Suc)
qed

section \<open>Commands that replay differently\<close>

text \<open>
  C39. A committed entry never stops the running system group: it is marked applied even if its command does
  not decode, is not valid where the group runs, or is rejected by the state machine. Replay at the next start
  passes every entry that decodes and validates, with the effect it had, but stops with an error at one that
  does not, and behind it nothing is replayed.
\<close>

theorem invalid_entry_stops_replay:
  assumes "re_Type e = EntryNormal" "re_Data e \<noteq> []" "g_appliedIndex g < re_Index e" "ge_sm ge = SystemStateMachine se"
  defines "replays \<equiv> replay_entries (ge_cmd ge) (ge_sm ge) (g_partitionCount g)"
    and "effect \<equiv> entry_effect (ge_cmd ge) (ge_sm ge) e"
  shows "(\<exists>g'. applyEntry ge ok e g = (None, g') \<and> g_appliedIndex g' = re_Index e \<and> g_sm g' = effect (g_sm g)) \<and>
    (if entry_valid (ge_cmd ge) (g_partitionCount g) e
     then replays (e # es) k a = replays es (max k (re_Index e)) (effect a)
     else \<exists>err. replays (e # es) k a = ((Some (CommandError err), k), a))"
proof -
  obtain er g' where a: "applyEntry ge ok e g = (er, g')" by fastforce
  have nf: "system_ApplyCommand se ac c b \<noteq> (Some (FatalApply x), y)" "DecodeCommand ce d \<noteq> Inl (FatalApply x)" for ac c b x y ce d
    using system.never_fatal [of se ac c b] by (auto simp: never_fatal_simps DecodeCommand_def split: option.splits)
  have "er = None"
    using a assms(1,2,4)
    by (auto simp: applyEntry_def apply_command_def Let_def SystemStateMachine_def never_fatal_simps nf
        split: if_splits sum.splits prod.splits option.splits)
  then have applied: "applyEntry ge ok e g = (None, g')" "g_appliedIndex g' = re_Index e" "g_sm g' = effect (g_sm g)"
    using a applyEntry_effect(1,2) [of ge ok e g g'] assms(3) by (simp_all add: effect_def)
  have "sm_ApplyCommand (ge_sm ge) = system_ApplyCommand se" by (simp add: assms(4) SystemStateMachine_def)
  note passes = system.replay_valid [OF this]
  have "\<exists>err. replays (e # es) k a = ((Some (CommandError err), k), a)" if "\<not> entry_valid (ge_cmd ge) (g_partitionCount g) e"
    using that assms(1,2) by (auto simp: replays_def entry_valid_def split: sum.splits option.splits)
  with applied passes show ?thesis by (auto simp: replays_def effect_def)
qed

theorem invalid_entry_stops_replay_witness:
  "let bad = sample_entry 1\<lparr>re_Data := [8]\<rparr>;
       replays = (\<lambda>es. replay_entries sample_cmds (SystemStateMachine sample_system) 4 es 0 NewSystemStateMachine) in
    (\<exists>g'. applyEntry sample_group_env True bad sample_group = (None, g') \<and> g_appliedIndex g' = 1) \<and>
    (\<exists>err. replays [bad, sample_entry 2] = ((Some (CommandError err), 0), NewSystemStateMachine)) \<and>
    replays [sample_entry 1] = ((None, 1), sample_registered)"
proof -
  let ?e = "sample_entry 1\<lparr>re_Data := [8]\<rparr>"
  have e: "re_Type ?e = EntryNormal" "re_Data ?e \<noteq> []" "re_Index ?e = 1" "re_Type (sample_entry 1) = EntryNormal"
    "re_Data (sample_entry 1) \<noteq> []" "re_Index (sample_entry 1) = 1" by (simp_all add: sample_entry_def)
  have "\<not> entry_valid sample_cmds 4 ?e"
    by (simp add: entry_valid_def sample_entry_def DecodeCommand_def sample_cmds_def)
  with invalid_entry_stops_replay [OF e(1,2), where g = sample_group and ge = sample_group_env and se = sample_system and ok = True
    and es = "[sample_entry 2]" and k = 0 and a = NewSystemStateMachine]
    invalid_entry_stops_replay [OF e(4,5), where g = sample_group and ge = sample_group_env and se = sample_system and ok = True
    and es = "[]" and k = 0 and a = NewSystemStateMachine] e(3,6) sample_effect
  show ?thesis unfolding Let_def by (auto simp: sample_group_fields sample_group_starts simp del: replay_entries.simps(2))
qed

section \<open>Channels\<close>

text \<open>
  C19. Whatever a group does, failing writes included, every proposal and every read waits on a channel of its
  own to which nothing has been sent, and an outcome that was sent stays as it is: the group never blocks on
  telling a caller, and no caller is told twice or is told another one's outcome.
\<close>

theorem one_outcome_per_channel:
  assumes "StartGroup ge opts s a = Inr g0" "group_steps ge g0 g" "group_steps ge g g'"
  shows "g_outcomes g \<subseteq>\<^sub>m g_outcomes g' \<and>
      (\<forall>ch \<in> ran (g_waiters g) \<union> ran (g_readWaiters g). g_outcomes g ch = None) \<and>
      inj_on (g_waiters g) (dom (g_waiters g)) \<and> inj_on (g_readWaiters g) (dom (g_readWaiters g)) \<and>
      ran (g_waiters g) \<inter> ran (g_readWaiters g) = {}"
proof -
  have ok: "channels_ok g"
    using steps_kept [OF assms(2)] start_channels [OF assms(1)] by (simp add: channels_kept_def)
  then have "g_outcomes g \<subseteq>\<^sub>m g_outcomes g'" using steps_kept [OF assms(3)] by (simp add: channels_kept_def)
  moreover have "\<forall>ch \<in> ran (g_waiters g) \<union> ran (g_readWaiters g). g_outcomes g ch = None"
    using ok by (auto simp: channels_ok_def ran_def)
  moreover have "inj_on (g_waiters g) (dom (g_waiters g)) \<and> inj_on (g_readWaiters g) (dom (g_readWaiters g)) \<and>
      ran (g_waiters g) \<inter> ran (g_readWaiters g) = {}"
    using ok by (auto simp: channels_ok_def inj_on_def dom_def ran_def)
  ultimately show ?thesis by blast
qed

text \<open>A proposal of the sample group: it waits on channel 0, and gets its outcome when its entry is applied.\<close>

theorem one_outcome_per_channel_witness:
  "\<exists>g g'. Propose sample_group_env sample_command sample_group = (Inr 0, g) \<and> ran (g_waiters g) = {0} \<and>
    Propose_ctx_done Canceled ''c1'' g = (ErrCtxDone Canceled, g') \<and> g_outcomes g' 0 = Some (Inl (ErrCtxDone Canceled)) \<and>
    g_outcomes g 0 = None \<and> g_outcomes g \<subseteq>\<^sub>m g_outcomes g'"
proof -
  have c: "cmd_CommandID sample_command = ''c1''" by (simp add: sample_command_def)
  have ch: "g_channels sample_group = 0" by (rule start_no_channels [OF sample_group_starts(1)])
  have e: "EncodeCommand sample_cmds sample_command = Inr [7]" by (simp add: EncodeCommand_def sample_cmds_def)
  have "\<exists>g. Propose sample_group_env sample_command sample_group = (Inr 0, g) \<and> g_waiters g = [''c1'' \<mapsto> 0]"
    by (simp add: Propose_def sample_group_fields sample_group_starts(5,6) sample_validates(1) e c ch Let_def)
      (simp add: sample_group_env_def)
  then obtain g where g: "Propose sample_group_env sample_command sample_group = (Inr 0, g)" "g_waiters g = [''c1'' \<mapsto> 0]" by blast
  define g' where "g' = snd (Propose_ctx_done Canceled ''c1'' g)"
  have g': "Propose_ctx_done Canceled ''c1'' g = (ErrCtxDone Canceled, g')" "g_outcomes g' 0 = Some (Inl (ErrCtxDone Canceled))"
    by (simp_all add: g'_def Propose_ctx_done_def completeWaiter_def g(2))
  note s = gs_propose [OF gs_refl g(1)] gs_forget [OF gs_refl g'(1)]
  have r: "ran (g_waiters g) = {0}" by (simp add: g(2))
  note p = one_outcome_per_channel [OF sample_group_starts(1) s(1) s(2) [of sample_group_env]]
  then have "g_outcomes g 0 = None" by (simp add: r)
  with g(1) g' r p show ?thesis by blast
qed

section \<open>Placement\<close>

lemma collect_nodes_distinct:
  "collect_nodes ns m ids = Inr nodes \<Longrightarrow> distinct (map sy_NodeID ns) \<and> (\<forall>n \<in> set ns. m (sy_NodeID n) = None) \<and>
    dom nodes = dom m \<union> sy_NodeID ` set ns"
proof (induction ns m ids rule: collect_nodes.induct)
  case (2 n ns m ids)
  from 2(2) have v: "validateSystemNode n = None" "m (sy_NodeID n) = None"
    and c: "\<not> (sy_RaftNodeID n \<noteq> 0 \<and> ids (sy_RaftNodeID n) \<noteq> None \<and> ids (sy_RaftNodeID n) \<noteq> Some [])"
    and r: "collect_nodes ns (m(sy_NodeID n \<mapsto> n)) (if sy_RaftNodeID n \<noteq> 0 then ids(sy_RaftNodeID n \<mapsto> sy_NodeID n) else ids) = Inr nodes"
    by (auto split: option.splits if_splits)
  have "\<not> m (sy_NodeID n) \<noteq> None" using v(2) by simp
  from 2(1) [OF v(1) this c r] v(2) show ?case by (auto split: if_splits)
qed simp

lemma shift_mod_inj: "(k + i) mod n = (k + j) mod n \<Longrightarrow> i < n \<Longrightarrow> j < n \<Longrightarrow> i = (j :: nat)"
proof (induction i j rule: linorder_wlog)
  case (le i j)
  then have "n dvd (k + j) - (k + i)" using mod_eq_dvd_iff_nat [of "k + i" "k + j" n] by simp
  then have "n dvd j - i" by simp
  with le show ?case by (auto dest!: dvd_imp_le)
qed auto

lemma place_partitions_at:
  assumes "k < n" "n \<le> 2 ^ 32"
  shows "place_partitions ns factor n (of_nat k) = Some (place_partition ns factor k)"
  using assms
proof (induction n)
  case (Suc n)
  have inj: "of_nat k = (of_nat n :: u32) \<longleftrightarrow> k = n"
  proof -
    have "k < 2 ^ 32" "n < 2 ^ 32" using Suc.prems by simp_all
    then show ?thesis using unat_of_nat_small(3) by metis
  qed
  have "place_partitions ns factor (Suc n) = (place_partitions ns factor n)(of_nat n \<mapsto> place_partition ns factor n)"
    by (simp add: place_partitions_def)
  then show ?case using Suc inj by (cases "k = n") auto
qed simp

text \<open>
  C25. Bootstrap metadata that is accepted places every partition on as many different nodes as the replica
  factor says, all of them nodes of the cluster, the first of them its preferred leader.
\<close>

theorem bootstrap_placement:
  assumes "buildBootstrapMetadata se p = Inr md" "mset (se_sort se node_less (bp_Nodes p)) = mset (bp_Nodes p)"
    and "k < nat (bp_PartitionCount p)" "bp_PartitionCount p \<le> 2 ^ 32"
  shows "\<exists>pl. md_Placement md (of_nat k) = Some pl \<and> pp_PartitionID pl = of_nat k \<and>
    length (pp_ReplicaNodeIDs pl) = nat (bp_ReplicaFactor p) \<and> distinct (pp_ReplicaNodeIDs pl) \<and>
    set (pp_ReplicaNodeIDs pl) \<subseteq> dom (md_Nodes md) \<and> pp_PreferredLeader pl = hd (pp_ReplicaNodeIDs pl)"
proof -
  let ?o = "se_sort se node_less (bp_Nodes p)" and ?r = "nat (bp_ReplicaFactor p)"
  obtain nodes where n: "collect_nodes ?o Map.empty Map.empty = Inr nodes" "md_Nodes md = nodes"
    "md_Placement md = place_partitions ?o ?r (nat (bp_PartitionCount p))"
    and c: "0 < bp_ReplicaFactor p" "bp_ReplicaFactor p \<le> bp_NodeCount p" "int (length (bp_Nodes p)) = bp_NodeCount p"
    using assms(1) by (auto simp: buildBootstrapMetadata_def Let_def not_le split: if_splits sum.splits)
  have len: "length ?o = length (bp_Nodes p)" by (rule mset_eq_length [OF assms(2)])
  note d = collect_nodes_distinct [OF n(1)]
  let ?pl = "place_partition ?o ?r k" and ?n = "length ?o"
  have r: "?r \<le> ?n" "0 < ?r" "0 < ?n" using c len by linarith+
  have at: "md_Placement md (of_nat k) = Some ?pl" using place_partitions_at [OF assms(3)] assms(4) by (simp add: n(3))
  have inj: "inj_on (\<lambda>i. (k + i) mod ?n) {0..<?r}"
  proof (rule inj_onI)
    fix i j assume ij: "i \<in> {0..<?r}" "j \<in> {0..<?r}" "(k + i) mod ?n = (k + j) mod ?n"
    then show "i = j" using shift_mod_inj [of k i ?n j] r(1) by simp
  qed
  have nth: "(\<lambda>i. sy_NodeID (?o ! ((k + i) mod ?n))) = (\<lambda>j. map sy_NodeID ?o ! j) \<circ> (\<lambda>i. (k + i) mod ?n)"
    using r(3) by (auto simp: fun_eq_iff)
  have "inj_on ((!) (map sy_NodeID ?o) \<circ> (\<lambda>i. (k + i) mod ?n)) {0..<?r}"
    using inj d r(3) by (intro comp_inj_on inj_on_nth) auto
  then have "distinct (pp_ReplicaNodeIDs ?pl)"
    by (simp add: place_partition_def nth distinct_map)
  moreover have "set (pp_ReplicaNodeIDs ?pl) \<subseteq> dom nodes"
    using d r(3) by (auto simp: place_partition_def)
  moreover have "pp_PreferredLeader ?pl = hd (pp_ReplicaNodeIDs ?pl)"
    using r(2) by (simp add: place_partition_def hd_map)
  ultimately show ?thesis using at n(2) by (auto simp: place_partition_def)
qed

text \<open>Three nodes, four partitions, two replicas.\<close>

definition sample_member :: "string \<Rightarrow> SystemNode" where
  "sample_member s = \<lparr>sy_NodeID = ''node_'' @ s, sy_RaftNodeID = 0, sy_NodeName = s, sy_ClientAdvertiseAddr = [],
     sy_BackendAdvertiseAddr = []\<rparr>"

definition sample_bootstrap :: BootstrapMetadataPayload where
  "sample_bootstrap = \<lparr>bp_ClusterID = ''cluster_x'', bp_ClusterName = [], bp_BootstrapEpoch = [], bp_NodeCount = 3,
     bp_PartitionCount = 4, bp_ReplicaFactor = 2, bp_Nodes = [sample_member ''a'', sample_member ''b'', sample_member ''c'']\<rparr>"

lemma sample_members_valid: "validateSystemNode (sample_member [c]) = None" if "plain_char c"
proof -
  have "TrimSpace (''node_'' @ [c]) = ''node_'' @ [c]" "TrimSpace [c] = [c]"
    using that by (intro TrimSpace_plain; simp add: plain_char_def)+
  then show ?thesis by (simp add: validateSystemNode_def sample_member_def HasPrefix_def starts_with_def)
qed

theorem bootstrap_placement_witness:
  "\<exists>md pl. buildBootstrapMetadata sample_system sample_bootstrap = Inr md \<and> md_Placement md 2 = Some pl \<and>
    pp_ReplicaNodeIDs pl = [''node_c'', ''node_a''] \<and> distinct (pp_ReplicaNodeIDs pl) \<and> pp_PreferredLeader pl = ''node_c''"
proof -
  have sort: "se_sort sample_system node_less ns = ns" for ns by (simp add: sample_system_def)
  have v: "validateSystemNode (sample_member ''a'') = None" "validateSystemNode (sample_member ''b'') = None"
    "validateSystemNode (sample_member ''c'') = None" by (rule sample_members_valid; simp add: plain_char_def)+
  have t: "TrimSpace ''cluster_x'' = ''cluster_x''" by (rule TrimSpace_plain) (simp_all add: plain_char_def)
  have ids: "sy_NodeID (sample_member s) = ''node_'' @ s" "sy_RaftNodeID (sample_member s) = 0" for s
    by (simp_all add: sample_member_def)
  have "\<exists>nodes. collect_nodes (bp_Nodes sample_bootstrap) Map.empty Map.empty = Inr nodes"
    by (simp add: sample_bootstrap_def v ids)
  then have "\<exists>md. buildBootstrapMetadata sample_system sample_bootstrap = Inr md \<and>
      md_Placement md = place_partitions (bp_Nodes sample_bootstrap) 2 4"
    by (auto simp: buildBootstrapMetadata_def sort) (auto simp: sample_bootstrap_def t HasPrefix_def starts_with_def)
  then obtain md where md: "buildBootstrapMetadata sample_system sample_bootstrap = Inr md"
    "md_Placement md = place_partitions (bp_Nodes sample_bootstrap) 2 4" by blast
  have k: "2 < nat (bp_PartitionCount sample_bootstrap)" "bp_PartitionCount sample_bootstrap \<le> 2 ^ 32"
    by (simp_all add: sample_bootstrap_def)
  from bootstrap_placement [OF md(1) _ k] obtain pl where pl: "md_Placement md (of_nat 2) = Some pl" "distinct (pp_ReplicaNodeIDs pl)"
    "pp_PreferredLeader pl = hd (pp_ReplicaNodeIDs pl)" by (auto simp: sort)
  have "pp_ReplicaNodeIDs pl = [''node_c'', ''node_a'']"
    using pl(1) place_partitions_at [of 2 4 "bp_Nodes sample_bootstrap" 2]
    by (auto simp: md(2) place_partition_def sample_bootstrap_def ids upt_rec)
  then show ?thesis using md(1) pl by auto
qed

end
