(* ===== verification/Query_Budget.thy ===== *)
theory Query_Budget
  imports Mycel_Prelude
begin

text \<open>
  The resource budget of a query (\<open>internal/query/execution/budget.go\<close>) and the errors of the query layers
  (\<open>internal/query/logical/errors.go\<close>). Every counter is an \<open>int64\<close>, a 64-bit word read with \<^const>\<open>sint\<close>. The
  second half compares the tracker with one that counts in unbounded integers: the checks against the limits
  keep every addition in range. A tracker holds its mutex during each operation, so each is one step.
\<close>

section \<open>Errors\<close>

datatype ErrorCode =
    ErrorInvalidQuery | ErrorUnsupportedPlan | ErrorResourceExhausted | ErrorStaleCursor
  | ErrorUnavailableAccessPath | ErrorDependencyFailure | ErrorCanceled | ErrorInternal

record QueryError =
  qe_Code :: ErrorCode
  qe_Operation :: string
  qe_Message :: string
  qe_RequiredIndex :: string

text \<open>The cause of an error is not kept; \<open>Error\<close> below is the text of one without a cause.\<close>

definition NewError :: "ErrorCode \<Rightarrow> string \<Rightarrow> string \<Rightarrow> QueryError" where
  "NewError code operation message =
     \<lparr>qe_Code = code, qe_Operation = operation, qe_Message = message, qe_RequiredIndex = []\<rparr>"

definition WithRequiredIndex :: "QueryError \<Rightarrow> string \<Rightarrow> QueryError" where
  "WithRequiredIndex e index = e\<lparr>qe_RequiredIndex := index\<rparr>"

definition QueryError_Error :: "QueryError \<Rightarrow> string" where
  "QueryError_Error e =
     (if qe_Operation e = [] then qe_Message e
      else if qe_Message e = [] then qe_Operation e
      else qe_Operation e @ '': '' @ qe_Message e)"

text \<open>\<open>%d\<close> of an \<open>int64\<close>.\<close>

definition dec_int :: "int \<Rightarrow> string" where
  "dec_int i = (if i < 0 then CHR ''-'' # dec_string (nat (- i)) else dec_string (nat i))"

definition exhausted :: "string \<Rightarrow> u64 \<Rightarrow> u64 \<Rightarrow> QueryError" where
  "exhausted resource used limit =
     NewError ErrorResourceExhausted ''execute query''
       (resource @ '' budget exceeded: used '' @ dec_int (sint used) @ '', limit '' @ dec_int (sint limit))"

definition invalidState :: "string \<Rightarrow> string \<Rightarrow> QueryError" where
  "invalidState operation message = NewError ErrorInternal operation message"

section \<open>Budgets\<close>

record Budget =
  MaxCandidates :: u64
  MaxIndexEntries :: u64
  MaxStartNodes :: u64
  MaxNodesLoaded :: u64
  MaxEdgesLoaded :: u64
  MaxAdjacencyCalls :: u64
  MaxIntermediateRows :: u64
  MaxOutputRows :: u64
  MaxSemanticCandidates :: u64
  MaxMemoryBytes :: u64
  MaxTraversalDepth :: u64
  BatchSize :: u64

definition DefaultBatchSize :: u64 where "DefaultBatchSize = 128"

definition default_budget :: Budget where
  "default_budget =
     \<lparr>MaxCandidates = 50000, MaxIndexEntries = 50000, MaxStartNodes = 1000, MaxNodesLoaded = 50000,
      MaxEdgesLoaded = 50000, MaxAdjacencyCalls = 10000, MaxIntermediateRows = 10000, MaxOutputRows = 10000,
      MaxSemanticCandidates = 1000, MaxMemoryBytes = push_bit 20 64, MaxTraversalDepth = 8,
      BatchSize = DefaultBatchSize\<rparr>"

definition resolveLimit :: "u64 \<Rightarrow> u64 \<Rightarrow> u64" where
  "resolveLimit value fallback = (if value = 0 then fallback else value)"

definition tighten :: "u64 \<Rightarrow> u64 \<Rightarrow> u64" where
  "tighten value cap = (if 0 < sint cap \<and> sint cap < sint value then cap else value)"

definition ResolveBudget :: "Budget \<Rightarrow> Budget \<Rightarrow> Budget" where
  "ResolveBudget requested static =
     (let limit = (\<lambda>field. tighten (resolveLimit (field requested) (field default_budget)) (field static)) in
      \<lparr>MaxCandidates = limit MaxCandidates, MaxIndexEntries = limit MaxIndexEntries,
       MaxStartNodes = limit MaxStartNodes, MaxNodesLoaded = limit MaxNodesLoaded,
       MaxEdgesLoaded = limit MaxEdgesLoaded, MaxAdjacencyCalls = limit MaxAdjacencyCalls,
       MaxIntermediateRows = limit MaxIntermediateRows, MaxOutputRows = limit MaxOutputRows,
       MaxSemanticCandidates = limit MaxSemanticCandidates, MaxMemoryBytes = limit MaxMemoryBytes,
       MaxTraversalDepth = limit MaxTraversalDepth, BatchSize = limit BatchSize\<rparr>)"

definition budget_checks :: "Budget \<Rightarrow> (string \<times> u64) list" where
  "budget_checks b =
     [(''max candidates'', MaxCandidates b), (''max index entries'', MaxIndexEntries b),
      (''max start nodes'', MaxStartNodes b), (''max nodes loaded'', MaxNodesLoaded b),
      (''max edges loaded'', MaxEdgesLoaded b), (''max adjacency calls'', MaxAdjacencyCalls b),
      (''max intermediate rows'', MaxIntermediateRows b), (''max output rows'', MaxOutputRows b),
      (''max semantic candidates'', MaxSemanticCandidates b), (''max memory bytes'', MaxMemoryBytes b),
      (''max traversal depth'', MaxTraversalDepth b), (''batch size'', BatchSize b)]"

definition validateBudget :: "Budget \<Rightarrow> QueryError option" where
  "validateBudget b =
     (case find (\<lambda>(name, value). sint value \<le> 0) (budget_checks b) of
        None \<Rightarrow> None
      | Some (name, value) \<Rightarrow>
          Some (NewError ErrorInvalidQuery ''configure query budget'' (name @ '' must be positive'')))"

section \<open>The tracker\<close>

record Usage =
  us_CandidatesExamined :: u64
  us_IndexEntries :: u64
  us_StartNodes :: u64
  us_NodesLoaded :: u64
  us_EdgesLoaded :: u64
  us_AdjacencyCalls :: u64
  us_NodeReadCalls :: u64
  us_IntermediateRows :: u64
  us_OutputRows :: u64
  us_SemanticCandidates :: u64
  us_RetainedMemory :: u64
  us_PeakRetainedMemory :: u64
  us_TraversalDepth :: u64
  us_Truncated :: bool
  us_TruncationReason :: string

definition no_usage :: Usage where
  "no_usage =
     \<lparr>us_CandidatesExamined = 0, us_IndexEntries = 0, us_StartNodes = 0, us_NodesLoaded = 0,
      us_EdgesLoaded = 0, us_AdjacencyCalls = 0, us_NodeReadCalls = 0, us_IntermediateRows = 0,
      us_OutputRows = 0, us_SemanticCandidates = 0, us_RetainedMemory = 0, us_PeakRetainedMemory = 0,
      us_TraversalDepth = 0, us_Truncated = False, us_TruncationReason = []\<rparr>"

record Tracker =
  tk_limits :: Budget
  tk_usage :: Usage

definition NewTracker :: "Budget \<Rightarrow> QueryError + Tracker" where
  "NewTracker limits =
     (case validateBudget limits of
        Some e \<Rightarrow> Inl e
      | None \<Rightarrow> Inr \<lparr>tk_limits = limits, tk_usage = no_usage\<rparr>)"

definition exceededUsage :: "u64 \<Rightarrow> u64" where
  "exceededUsage limit = (if limit = 2 ^ 63 - 1 then limit else limit + 1)"

text \<open>
  \<open>add\<close> is called with a pointer to the counter: the two functions that read and set that field. A result
  is the error, if any, and the tracker after the call.
\<close>

definition tracker_add ::
    "string \<Rightarrow> (Usage \<Rightarrow> u64) \<Rightarrow> ((u64 \<Rightarrow> u64) \<Rightarrow> Usage \<Rightarrow> Usage) \<Rightarrow> (Budget \<Rightarrow> u64) \<Rightarrow> u64 \<Rightarrow> Tracker
       \<Rightarrow> QueryError option \<times> Tracker" where
  "tracker_add resource current set_current limit delta t =
     (if sint delta < 0
      then (Some (invalidState ''track query resources'' (resource @ '' delta must be non-negative'')), t)
      else if sint (limit (tk_limits t) - current (tk_usage t)) < sint delta
      then (Some (exhausted resource (exceededUsage (limit (tk_limits t))) (limit (tk_limits t))), t)
      else (None, t\<lparr>tk_usage := set_current (\<lambda>c. c + delta) (tk_usage t)\<rparr>))"

definition ExamineCandidates :: "u64 \<Rightarrow> Tracker \<Rightarrow> QueryError option \<times> Tracker" where
  "ExamineCandidates =
     tracker_add ''candidate'' us_CandidatesExamined us_CandidatesExamined_update MaxCandidates"

definition ScanIndexEntries :: "u64 \<Rightarrow> Tracker \<Rightarrow> QueryError option \<times> Tracker" where
  "ScanIndexEntries = tracker_add ''index entry'' us_IndexEntries us_IndexEntries_update MaxIndexEntries"

definition UseStartNodes :: "u64 \<Rightarrow> Tracker \<Rightarrow> QueryError option \<times> Tracker" where
  "UseStartNodes = tracker_add ''start node'' us_StartNodes us_StartNodes_update MaxStartNodes"

definition LoadNodes :: "u64 \<Rightarrow> Tracker \<Rightarrow> QueryError option \<times> Tracker" where
  "LoadNodes = tracker_add ''node load'' us_NodesLoaded us_NodesLoaded_update MaxNodesLoaded"

definition LoadEdges :: "u64 \<Rightarrow> Tracker \<Rightarrow> QueryError option \<times> Tracker" where
  "LoadEdges = tracker_add ''edge load'' us_EdgesLoaded us_EdgesLoaded_update MaxEdgesLoaded"

definition UseAdjacency :: "u64 \<Rightarrow> Tracker \<Rightarrow> QueryError option \<times> Tracker" where
  "UseAdjacency = tracker_add ''adjacency call'' us_AdjacencyCalls us_AdjacencyCalls_update MaxAdjacencyCalls"

definition ProduceIntermediate :: "u64 \<Rightarrow> Tracker \<Rightarrow> QueryError option \<times> Tracker" where
  "ProduceIntermediate =
     tracker_add ''intermediate row'' us_IntermediateRows us_IntermediateRows_update MaxIntermediateRows"

definition ProduceOutput :: "u64 \<Rightarrow> Tracker \<Rightarrow> QueryError option \<times> Tracker" where
  "ProduceOutput = tracker_add ''output row'' us_OutputRows us_OutputRows_update MaxOutputRows"

definition UseSemanticCandidates :: "u64 \<Rightarrow> Tracker \<Rightarrow> QueryError option \<times> Tracker" where
  "UseSemanticCandidates =
     tracker_add ''semantic candidate'' us_SemanticCandidates us_SemanticCandidates_update MaxSemanticCandidates"

definition RecordNodeReads :: "u64 \<Rightarrow> Tracker \<Rightarrow> QueryError option \<times> Tracker" where
  "RecordNodeReads delta t =
     (if sint delta < 0
      then (Some (invalidState ''track query resources'' ''node read delta must be non-negative''), t)
      else (None, t\<lparr>tk_usage := us_NodeReadCalls_update (\<lambda>c. c + delta) (tk_usage t)\<rparr>))"

definition ObserveTraversalDepth :: "u64 \<Rightarrow> Tracker \<Rightarrow> QueryError option \<times> Tracker" where
  "ObserveTraversalDepth depth t =
     (if sint (MaxTraversalDepth (tk_limits t)) < sint depth
      then (Some (exhausted ''traversal depth'' depth (MaxTraversalDepth (tk_limits t))), t)
      else if sint (us_TraversalDepth (tk_usage t)) < sint depth
      then (None, t\<lparr>tk_usage := (tk_usage t)\<lparr>us_TraversalDepth := depth\<rparr>\<rparr>)
      else (None, t))"

definition MarkTruncated :: "string \<Rightarrow> Tracker \<Rightarrow> Tracker" where
  "MarkTruncated reason t =
     (let u = (tk_usage t)\<lparr>us_Truncated := True\<rparr> in
      t\<lparr>tk_usage := (if us_TruncationReason u = [] then u\<lparr>us_TruncationReason := reason\<rparr> else u)\<rparr>)"

definition ReserveMemory :: "u64 \<Rightarrow> Tracker \<Rightarrow> QueryError option \<times> Tracker" where
  "ReserveMemory bytes t =
     (if sint bytes < 0
      then (Some (invalidState ''reserve query memory'' ''byte count must be non-negative''), t)
      else if sint (MaxMemoryBytes (tk_limits t) - us_RetainedMemory (tk_usage t)) < sint bytes
      then (Some (exhausted ''retained memory bytes'' (exceededUsage (MaxMemoryBytes (tk_limits t)))
                    (MaxMemoryBytes (tk_limits t))), t)
      else
        let n = us_RetainedMemory (tk_usage t) + bytes;
            u = (tk_usage t)\<lparr>us_RetainedMemory := n\<rparr>
        in (None, t\<lparr>tk_usage := (if sint (us_PeakRetainedMemory u) < sint n
                                  then u\<lparr>us_PeakRetainedMemory := n\<rparr> else u)\<rparr>))"

definition ReleaseMemory :: "u64 \<Rightarrow> Tracker \<Rightarrow> Tracker" where
  "ReleaseMemory bytes t =
     (if sint bytes \<le> 0 then t
      else
        let n = us_RetainedMemory (tk_usage t) - bytes
        in t\<lparr>tk_usage := (tk_usage t)\<lparr>us_RetainedMemory := (if sint n < 0 then 0 else n)\<rparr>\<rparr>)"

definition remaining_of :: "(Budget \<Rightarrow> u64) \<Rightarrow> (Usage \<Rightarrow> u64) \<Rightarrow> Tracker \<Rightarrow> u64" where
  "remaining_of limit used t =
     (let d = limit (tk_limits t) - used (tk_usage t) in if sint d < 0 then 0 else d)"

definition RemainingStartNodes :: "Tracker \<Rightarrow> u64" where
  "RemainingStartNodes = remaining_of MaxStartNodes us_StartNodes"

definition RemainingNodesLoaded :: "Tracker \<Rightarrow> u64" where
  "RemainingNodesLoaded = remaining_of MaxNodesLoaded us_NodesLoaded"

definition RemainingEdgesLoaded :: "Tracker \<Rightarrow> u64" where
  "RemainingEdgesLoaded = remaining_of MaxEdgesLoaded us_EdgesLoaded"

definition RemainingIndexEntries :: "Tracker \<Rightarrow> u64" where
  "RemainingIndexEntries = remaining_of MaxIndexEntries us_IndexEntries"

definition RemainingCandidates :: "Tracker \<Rightarrow> u64" where
  "RemainingCandidates = remaining_of MaxCandidates us_CandidatesExamined"

section \<open>Signed words in range\<close>

text \<open>An \<open>int64\<close> operation whose exact result is an \<open>int64\<close> gives that result.\<close>

lemma sint_of_int_in_range:
  assumes "- (2 ^ 63) \<le> i" "i < 2 ^ 63"
  shows "sint (word_of_int i :: u64) = i"
  using assms by (simp add: signed_of_int signed_take_bit_int_eq_self)

lemma sint_bounds: "- (2 ^ 63) \<le> sint (w :: u64) \<and> sint w < 2 ^ 63"
  using sint_range_size [of w] by (simp add: word_size)

lemma sint_add_exact:
  assumes "- (2 ^ 63) \<le> sint a + sint b" "sint a + sint (b :: u64) < 2 ^ 63"
  shows "sint (a + b) = sint a + sint b"
proof -
  have "a + b = word_of_int (sint a + sint b)" by simp
  with assms show ?thesis using sint_of_int_in_range by metis
qed

lemma sint_diff_exact:
  assumes "- (2 ^ 63) \<le> sint a - sint b" "sint a - sint (b :: u64) < 2 ^ 63"
  shows "sint (a - b) = sint a - sint b"
proof -
  have "a - b = word_of_int (sint a - sint b)" by simp
  with assms show ?thesis using sint_of_int_in_range by metis
qed

lemma sint_diff_nonneg: "0 \<le> sint a \<Longrightarrow> 0 \<le> sint (b :: u64) \<Longrightarrow> sint (a - b) = sint a - sint b"
  using sint_bounds [of a] sint_bounds [of b] by (intro sint_diff_exact) auto

lemma sint_add_below:
  "0 \<le> sint a \<Longrightarrow> 0 \<le> sint b \<Longrightarrow> sint a + sint (b :: u64) \<le> sint (l :: u64) \<Longrightarrow> sint (a + b) = sint a + sint b"
  using sint_bounds [of l] by (intro sint_add_exact) auto

section \<open>Counting in unbounded integers\<close>

datatype resource =
    Candidates | IndexEntries | StartNodes | NodesLoaded | EdgesLoaded | AdjacencyCalls
  | IntermediateRows | OutputRows | SemanticCandidates | Memory

fun limit_of :: "resource \<Rightarrow> Budget \<Rightarrow> u64" where
  "limit_of Candidates b = MaxCandidates b"
| "limit_of IndexEntries b = MaxIndexEntries b"
| "limit_of StartNodes b = MaxStartNodes b"
| "limit_of NodesLoaded b = MaxNodesLoaded b"
| "limit_of EdgesLoaded b = MaxEdgesLoaded b"
| "limit_of AdjacencyCalls b = MaxAdjacencyCalls b"
| "limit_of IntermediateRows b = MaxIntermediateRows b"
| "limit_of OutputRows b = MaxOutputRows b"
| "limit_of SemanticCandidates b = MaxSemanticCandidates b"
| "limit_of Memory b = MaxMemoryBytes b"

fun used_of :: "resource \<Rightarrow> Usage \<Rightarrow> u64" where
  "used_of Candidates u = us_CandidatesExamined u"
| "used_of IndexEntries u = us_IndexEntries u"
| "used_of StartNodes u = us_StartNodes u"
| "used_of NodesLoaded u = us_NodesLoaded u"
| "used_of EdgesLoaded u = us_EdgesLoaded u"
| "used_of AdjacencyCalls u = us_AdjacencyCalls u"
| "used_of IntermediateRows u = us_IntermediateRows u"
| "used_of OutputRows u = us_OutputRows u"
| "used_of SemanticCandidates u = us_SemanticCandidates u"
| "used_of Memory u = us_RetainedMemory u"

text \<open>A call of the tracker: charging a resource, giving memory back, or one of the other three.\<close>

datatype tracker_call =
    Charge resource u64 | Release u64 | Observe u64 | Truncate string | NodeReads u64

fun charge_call :: "resource \<Rightarrow> u64 \<Rightarrow> Tracker \<Rightarrow> QueryError option \<times> Tracker" where
  "charge_call Candidates = ExamineCandidates"
| "charge_call IndexEntries = ScanIndexEntries"
| "charge_call StartNodes = UseStartNodes"
| "charge_call NodesLoaded = LoadNodes"
| "charge_call EdgesLoaded = LoadEdges"
| "charge_call AdjacencyCalls = UseAdjacency"
| "charge_call IntermediateRows = ProduceIntermediate"
| "charge_call OutputRows = ProduceOutput"
| "charge_call SemanticCandidates = UseSemanticCandidates"
| "charge_call Memory = ReserveMemory"

fun tracker_step :: "tracker_call \<Rightarrow> Tracker \<Rightarrow> QueryError option \<times> Tracker" where
  "tracker_step (Charge k delta) t = charge_call k delta t"
| "tracker_step (Release bytes) t = (None, ReleaseMemory bytes t)"
| "tracker_step (Observe depth) t = ObserveTraversalDepth depth t"
| "tracker_step (Truncate reason) t = (None, MarkTruncated reason t)"
| "tracker_step (NodeReads delta) t = RecordNodeReads delta t"

fun tracker_run :: "tracker_call list \<Rightarrow> Tracker \<Rightarrow> QueryError option list \<times> Tracker" where
  "tracker_run [] t = ([], t)"
| "tracker_run (c # cs) t =
     (let (e, t1) = tracker_step c t; (es, t2) = tracker_run cs t1 in (e # es, t2))"

text \<open>The same in exact integers: whether a call is accepted, and the counters after it.\<close>

type_synonym counters = "resource \<Rightarrow> int"

fun exact_step :: "Budget \<Rightarrow> tracker_call \<Rightarrow> counters \<Rightarrow> bool \<times> counters" where
  "exact_step b (Charge k delta) c =
     (if sint delta < 0 \<or> sint (limit_of k b) < c k + sint delta then (False, c)
      else (True, c(k := c k + sint delta)))"
| "exact_step b (Release bytes) c = (True, c(Memory := (if sint bytes \<le> 0 then c Memory else max 0 (c Memory - sint bytes))))"
| "exact_step b (Observe depth) c = (sint depth \<le> sint (MaxTraversalDepth b), c)"
| "exact_step b (Truncate reason) c = (True, c)"
| "exact_step b (NodeReads delta) c = (0 \<le> sint delta, c)"

fun exact_run :: "Budget \<Rightarrow> tracker_call list \<Rightarrow> counters \<Rightarrow> bool list \<times> counters" where
  "exact_run b [] c = ([], c)"
| "exact_run b (x # xs) c =
     (let (a, c1) = exact_step b x c; (as, c2) = exact_run b xs c1 in (a # as, c2))"

definition counters_of :: "Tracker \<Rightarrow> counters" where
  "counters_of t = (\<lambda>k. sint (used_of k (tk_usage t)))"

definition within_budget :: "Tracker \<Rightarrow> bool" where
  "within_budget t \<longleftrightarrow>
     (\<forall>k. 0 \<le> counters_of t k \<and> counters_of t k \<le> sint (limit_of k (tk_limits t))) \<and>
     counters_of t Memory \<le> sint (us_PeakRetainedMemory (tk_usage t)) \<and>
     sint (us_PeakRetainedMemory (tk_usage t)) \<le> sint (MaxMemoryBytes (tk_limits t)) \<and>
     0 \<le> sint (us_TraversalDepth (tk_usage t)) \<and>
     sint (us_TraversalDepth (tk_usage t)) \<le> sint (MaxTraversalDepth (tk_limits t))"

lemma all_resources:
  "(\<forall>k. P k) \<longleftrightarrow> P Candidates \<and> P IndexEntries \<and> P StartNodes \<and> P NodesLoaded \<and> P EdgesLoaded \<and>
     P AdjacencyCalls \<and> P IntermediateRows \<and> P OutputRows \<and> P SemanticCandidates \<and> P Memory"
  by (metis resource.exhaust)

lemmas adds = ExamineCandidates_def ScanIndexEntries_def UseStartNodes_def LoadNodes_def LoadEdges_def
  UseAdjacency_def ProduceIntermediate_def ProduceOutput_def UseSemanticCandidates_def
lemmas charge_defs = adds tracker_add_def ReserveMemory_def

lemma charge_limits [simp]: "tk_limits (snd (charge_call k d t)) = tk_limits t"
  by (cases k) (auto simp: charge_defs Let_def)

lemma step_limits [simp]: "tk_limits (snd (tracker_step c t)) = tk_limits t"
  by (cases c) (auto simp: Let_def ReleaseMemory_def ObserveTraversalDepth_def MarkTruncated_def
      RecordNodeReads_def)

lemma within_counter:
  "within_budget t \<Longrightarrow> 0 \<le> sint (used_of k (tk_usage t))"
  "within_budget t \<Longrightarrow> sint (used_of k (tk_usage t)) \<le> sint (limit_of k (tk_limits t))"
  by (auto simp: within_budget_def counters_of_def)

lemma charge_refused_diff:
  "fst (charge_call k d t) \<noteq> None \<longleftrightarrow>
     sint d < 0 \<or> sint (limit_of k (tk_limits t) - used_of k (tk_usage t)) < sint d"
  by (cases k) (auto simp: charge_defs Let_def)

lemma charge_refused:
  assumes "within_budget t"
  shows "fst (charge_call k d t) \<noteq> None \<longleftrightarrow>
     sint d < 0 \<or> sint (limit_of k (tk_limits t)) < counters_of t k + sint d"
proof -
  have "sint (limit_of k (tk_limits t) - used_of k (tk_usage t)) =
      sint (limit_of k (tk_limits t)) - counters_of t k"
    using within_counter [OF assms, of k] by (simp add: counters_of_def sint_diff_nonneg)
  then show ?thesis unfolding charge_refused_diff by auto
qed

lemma charge_refused_same: "fst (charge_call k d t) \<noteq> None \<Longrightarrow> snd (charge_call k d t) = t"
proof -
  have add: "fst (tracker_add r c u l d t) \<noteq> None \<Longrightarrow> snd (tracker_add r c u l d t) = t" for r c u l
    by (auto simp: tracker_add_def)
  have "fst (ReserveMemory d t) \<noteq> None \<Longrightarrow> snd (ReserveMemory d t) = t"
    by (auto simp: ReserveMemory_def Let_def)
  then show "fst (charge_call k d t) \<noteq> None \<Longrightarrow> snd (charge_call k d t) = t"
    using add by (cases k) (simp_all add: adds)
qed

lemma charge_accepted_used:
  assumes "fst (charge_call k d t) = None"
  shows "used_of j (tk_usage (snd (charge_call k d t))) =
     (if j = k then used_of k (tk_usage t) + d else used_of j (tk_usage t))"
  using assms by (cases k; cases j) (auto simp: charge_defs Let_def split: if_splits)

lemma charge_accepted:
  assumes "within_budget t" "fst (charge_call k d t) = None"
  shows "counters_of (snd (charge_call k d t)) = (counters_of t)(k := counters_of t k + sint d)"
proof
  fix j
  have "0 \<le> sint d" "counters_of t k + sint d \<le> sint (limit_of k (tk_limits t))"
    using charge_refused [OF assms(1), of k d] assms(2) by auto
  then have "sint (used_of k (tk_usage t) + d) = counters_of t k + sint d"
    using within_counter(1) [OF assms(1), of k]
    by (metis counters_of_def sint_add_below)
  then show "counters_of (snd (charge_call k d t)) j = ((counters_of t)(k := counters_of t k + sint d)) j"
    using charge_accepted_used [OF assms(2), of j] by (simp add: counters_of_def)
qed

lemma charge_depth [simp]:
  "us_TraversalDepth (tk_usage (snd (charge_call k d t))) = us_TraversalDepth (tk_usage t)"
  by (cases k) (auto simp: charge_defs Let_def)

lemma charge_peak:
  "us_PeakRetainedMemory (tk_usage (snd (charge_call k d t))) =
     (if k = Memory \<and> fst (charge_call k d t) = None
        \<and> sint (us_PeakRetainedMemory (tk_usage t)) < sint (us_RetainedMemory (tk_usage t) + d)
      then us_RetainedMemory (tk_usage t) + d else us_PeakRetainedMemory (tk_usage t))"
  by (cases k) (auto simp: charge_defs Let_def)

lemma charge_within:
  assumes "within_budget t"
  shows "within_budget (snd (charge_call k d t))"
proof (cases "fst (charge_call k d t) = None")
  case True
  note acc = charge_accepted [OF assms True]
  have d: "0 \<le> sint d" "counters_of t k + sint d \<le> sint (limit_of k (tk_limits t))"
    using charge_refused [OF assms, of k d] True by auto
  have mem: "k = Memory \<Longrightarrow> sint (us_RetainedMemory (tk_usage t) + d) = counters_of t Memory + sint d"
    using charge_accepted_used [OF True, of k] acc
    by (metis counters_of_def fun_upd_same used_of.simps(10))
  have "0 \<le> counters_of t j" "counters_of t j \<le> sint (limit_of j (tk_limits t))" for j
    using within_counter [OF assms] by (simp_all add: counters_of_def)
  with assms d acc mem True show ?thesis
    by (auto simp: within_budget_def charge_peak)
qed (simp add: assms charge_refused_same)

lemma release_counters:
  assumes "within_budget t"
  shows "counters_of (ReleaseMemory b t) =
     (counters_of t)(Memory := (if sint b \<le> 0 then counters_of t Memory else max 0 (counters_of t Memory - sint b)))"
proof -
  have "0 < sint b \<Longrightarrow> sint (us_RetainedMemory (tk_usage t) - b) = sint (us_RetainedMemory (tk_usage t)) - sint b"
    using within_counter(1) [OF assms, of Memory] by (simp add: sint_diff_nonneg)
  then show ?thesis
    by (simp add: fun_eq_iff all_resources counters_of_def ReleaseMemory_def Let_def)
qed

lemma step_exact:
  assumes "within_budget t"
  shows "(fst (tracker_step c t) = None, counters_of (snd (tracker_step c t))) = exact_step (tk_limits t) c (counters_of t)"
proof (cases c)
  case (Charge k d)
  with assms show ?thesis
    using charge_refused [OF assms, of k d] charge_refused_same [of k d t] charge_accepted [OF assms, of k d]
    by auto
next
  case (Release b)
  with assms show ?thesis by (simp add: release_counters)
qed (auto simp: ObserveTraversalDepth_def MarkTruncated_def RecordNodeReads_def counters_of_def fun_eq_iff
    all_resources Let_def)

lemma step_within:
  assumes "within_budget t"
  shows "within_budget (snd (tracker_step c t))"
proof (cases c)
  case (Release b)
  have "0 \<le> counters_of t k" for k
    using within_counter(1) [OF assms] by (simp add: counters_of_def)
  then have le: "counters_of (ReleaseMemory b t) k \<le> counters_of t k \<and> 0 \<le> counters_of (ReleaseMemory b t) k" for k
    by (simp add: release_counters [OF assms])
  have "us_PeakRetainedMemory (tk_usage (ReleaseMemory b t)) = us_PeakRetainedMemory (tk_usage t)"
    "us_TraversalDepth (tk_usage (ReleaseMemory b t)) = us_TraversalDepth (tk_usage t)"
    "tk_limits (ReleaseMemory b t) = tk_limits t"
    by (simp_all add: ReleaseMemory_def Let_def)
  with assms le Release show ?thesis unfolding within_budget_def by (auto intro: order_trans)
next
  case (Charge k d)
  with assms show ?thesis by (simp add: charge_within)
qed (use assms in \<open>auto simp: ObserveTraversalDepth_def MarkTruncated_def RecordNodeReads_def
      within_budget_def counters_of_def all_resources Let_def\<close>)

lemma run_within: "within_budget t \<Longrightarrow> within_budget (snd (tracker_run cs t))"
  by (induction cs arbitrary: t) (auto simp: split_beta Let_def step_within)

lemma run_exact:
  "within_budget t \<Longrightarrow>
     (map (\<lambda>e. e = None) (fst (tracker_run cs t)), counters_of (snd (tracker_run cs t))) =
       exact_run (tk_limits t) cs (counters_of t)"
proof (induction cs arbitrary: t)
  case (Cons c cs)
  have "exact_step (tk_limits t) c (counters_of t) =
      (fst (tracker_step c t) = None, counters_of (snd (tracker_step c t)))"
    using step_exact [OF Cons.prems] by simp
  moreover have "exact_run (tk_limits t) cs (counters_of (snd (tracker_step c t))) =
      (map (\<lambda>e. e = None) (fst (tracker_run cs (snd (tracker_step c t)))),
       counters_of (snd (tracker_run cs (snd (tracker_step c t)))))"
    using Cons.IH [OF step_within [OF Cons.prems, of c]] by simp
  ultimately show ?case by (simp add: split_beta Let_def)
qed simp

lemma run_limits [simp]: "tk_limits (snd (tracker_run cs t)) = tk_limits t"
  by (induction cs arbitrary: t) (auto simp: split_beta Let_def)

lemma NewTracker_ok:
  assumes "NewTracker limits = Inr t"
  shows "tk_limits t = limits" "counters_of t = (\<lambda>_. 0)" "within_budget t"
proof -
  have none: "find (\<lambda>(name, value). sint value \<le> 0) (budget_checks limits) = None"
    and t: "t = \<lparr>tk_limits = limits, tk_usage = no_usage\<rparr>"
    using assms by (auto simp: NewTracker_def validateBudget_def split: option.splits)
  from none have "\<forall>(name, value) \<in> set (budget_checks limits). 0 < sint value"
    by (auto simp: find_None_iff not_le)
  then have "0 < sint (limit_of k limits)" "0 < sint (MaxTraversalDepth limits)" for k
    by (cases k; simp add: budget_checks_def)+
  then have "0 \<le> sint (limit_of k limits)" "0 \<le> sint (MaxTraversalDepth limits)" for k
    by (auto intro: less_imp_le)
  moreover have zero: "counters_of t = (\<lambda>_. 0)"
    by (simp add: t fun_eq_iff all_resources counters_of_def no_usage_def)
  ultimately show "within_budget t"
    by (simp add: within_budget_def t no_usage_def) (metis limit_of.simps(10))
  show "tk_limits t = limits" "counters_of t = (\<lambda>_. 0)" by (simp add: t, rule zero)
qed

end
