(* ===== verification/Query_Values.thy ===== *)
theory Query_Values
  imports Complex_Main Graph_Model Query_Budget
begin

text \<open>
  The typed values of a query (\<open>internal/query/logical/model.go\<close>): their conversion from property values,
  their text and their comparison (\<open>internal/query/execution/evaluate.go\<close>). A \<open>float64\<close> is its 64 bits; its
  exact value is rational, as in the code, which compares with \<open>math/big\<close>, and sums are rounded to the nearest
  double, ties to even. Dates are those of the proleptic Gregorian calendar that package \<open>time\<close> uses.

  What the model does not compute of \<open>fmt\<close>, \<open>encoding/json\<close>, \<open>strings\<close>, \<open>time\<close> and the \<open>uuid\<close> package is a
  record of functions, \<open>value_env\<close>: the text of a double, of a value as JSON and of any other Go value, Unicode
  lower case, the message of a date that does not parse, the text of an identifier, and \<open>%q\<close>.
\<close>

section \<open>Values\<close>

record FieldRef =
  fr_Alias :: string
  fr_Namespace :: string
  fr_Name :: string

definition no_field :: FieldRef where
  "no_field = \<lparr>fr_Alias = [], fr_Namespace = [], fr_Name = []\<rparr>"

definition dereferenceField :: "FieldRef option \<Rightarrow> FieldRef" where
  "dereferenceField f = (case f of None \<Rightarrow> no_field | Some r \<Rightarrow> r)"

datatype qvalue =
    QUnknown string
  | QBinding string
  | QField "FieldRef option"
  | QNull
  | QBool bool
  | QNumber u64
  | QInteger u64
  | QUnsigned u64
  | QString string
  | QList "qvalue list"
  | QObject "(string \<times> qvalue) list"
  | QParameter string
  | QDate string u32
  | QCurrentDate u32

record value_env =
  ve_fmt_float :: "u64 \<Rightarrow> string"
  ve_json :: "qvalue \<Rightarrow> string"
  ve_fmt_any :: "gval \<Rightarrow> string"
  ve_ToLower :: "string \<Rightarrow> string"
  ve_date_error :: "string \<Rightarrow> string"
  ve_uuid :: "uuid \<Rightarrow> string"
  ve_quote :: "string \<Rightarrow> string"

definition NamespaceProperties :: string where "NamespaceProperties = ''properties''"
definition NamespacePayload :: string where "NamespacePayload = ''payload''"
definition NamespaceMeta :: string where "NamespaceMeta = ''meta''"

text \<open>\<open>strings.SplitN(name, ".", 2)\<close> cuts at the first dot.\<close>

definition ParseFieldRef :: "string \<Rightarrow> string \<Rightarrow> FieldRef" where
  "ParseFieldRef alias name =
     (let head = takeWhile (\<lambda>c. c \<noteq> CHR ''.'') name; tail = drop (length head) name in
      if tail \<noteq> [] \<and> head \<in> {NamespaceProperties, NamespacePayload, NamespaceMeta}
      then \<lparr>fr_Alias = alias, fr_Namespace = head, fr_Name = tl tail\<rparr>
      else \<lparr>fr_Alias = alias, fr_Namespace = NamespaceProperties, fr_Name = name\<rparr>)"

definition FieldValue :: "string \<Rightarrow> string \<Rightarrow> qvalue" where
  "FieldValue alias name = QField (Some (ParseFieldRef alias name))"

section \<open>Doubles\<close>

definition float_rat :: "u64 \<Rightarrow> rat" where
  "float_rat bits =
     (let n = uint bits;
          ex = n div 2 ^ 52 mod 2048;
          fr = n mod 2 ^ 52;
          m = (if ex = 0 then fr else 2 ^ 52 + fr);
          e = (if ex = 0 then 1 else ex);
          mag = (if 1075 \<le> e then of_int (m * 2 ^ nat (e - 1075)) else of_int m / of_int (2 ^ nat (1075 - e)))
      in if n div 2 ^ 63 = 1 then - mag else mag)"

definition float_negative :: "u64 \<Rightarrow> bool" where
  "float_negative bits \<longleftrightarrow> uint bits div 2 ^ 63 = 1"

definition float_is_inf :: "u64 \<Rightarrow> bool" where
  "float_is_inf bits \<longleftrightarrow> \<not> float_finite bits \<and> uint bits mod 2 ^ 52 = 0"

definition float_is_nan :: "u64 \<Rightarrow> bool" where
  "float_is_nan bits \<longleftrightarrow> \<not> float_finite bits \<and> uint bits mod 2 ^ 52 \<noteq> 0"

definition float_nan :: u64 where "float_nan = 0x7FF8000000000001"
definition float_minus_zero :: u64 where "float_minus_zero = 0x8000000000000000"

function floor_log2 :: "int \<Rightarrow> nat" where
  "floor_log2 n = (if n < 2 then 0 else Suc (floor_log2 (n div 2)))"
  by pat_completeness auto
termination by (relation "measure nat") auto

declare floor_log2.simps [simp del]

definition round_half_even :: "rat \<Rightarrow> int" where
  "round_half_even r =
     (let f = \<lfloor>r\<rfloor>; d = r - of_int f in
      if d < 1 / 2 then f else if 1 / 2 < d then f + 1 else if even f then f else f + 1)"

text \<open>\<open>r / 2 ^ e\<close>.\<close>

definition scale2 :: "rat \<Rightarrow> int \<Rightarrow> rat" where
  "scale2 r e = (if 0 \<le> e then r / of_int (2 ^ nat e) else r * of_int (2 ^ nat (- e)))"

text \<open>The bits of the double nearest to a positive number, and of any number.\<close>

definition float_of_pos :: "rat \<Rightarrow> int" where
  "float_of_pos r =
     (let (p, q) = quotient_of r;
          l = int (floor_log2 p) - int (floor_log2 q);
          e = max (- 1074) (if 1 \<le> scale2 r l then l - 52 else l - 53);
          m = round_half_even (scale2 r e);
          bits = (if m < 2 ^ 52 then m else (e + 1074) * 2 ^ 52 + m)
      in min bits (2047 * 2 ^ 52))"

definition float_of_rat :: "rat \<Rightarrow> u64" where
  "float_of_rat r =
     (if r = 0 then 0
      else if 0 < r then word_of_int (float_of_pos r)
      else word_of_int (2 ^ 63 + float_of_pos (- r)))"

definition float_add :: "u64 \<Rightarrow> u64 \<Rightarrow> u64" where
  "float_add a b =
     (if float_is_nan a \<or> float_is_nan b then float_nan
      else if float_is_inf a then (if float_is_inf b \<and> a \<noteq> b then float_nan else a)
      else if float_is_inf b then b
      else if float_rat a + float_rat b = 0
      then (if float_negative a \<and> float_negative b then float_minus_zero else 0)
      else float_of_rat (float_rat a + float_rat b))"

text \<open>Division by a positive integer that is a double.\<close>

definition float_div_pos :: "u64 \<Rightarrow> u64 \<Rightarrow> u64" where
  "float_div_pos a b =
     (if float_is_nan a then float_nan
      else if float_is_inf a then a
      else if float_rat a = 0 then a
      else if float_rat a / float_rat b < 0 \<and> float_of_rat (float_rat a / float_rat b) = 0 then float_minus_zero
      else float_of_rat (float_rat a / float_rat b))"

section \<open>Values of properties\<close>

definition signedNativeValue :: "u64 \<Rightarrow> qvalue" where
  "signedNativeValue v =
     (if sint v < - (2 ^ 53) \<or> 2 ^ 53 < sint v then QInteger v else QNumber (float_of_rat (of_int (sint v))))"

definition unsignedNativeValue :: "u64 \<Rightarrow> qvalue" where
  "unsignedNativeValue v =
     (if 2 ^ 53 < uint v then QUnsigned v else QNumber (float_of_rat (of_int (uint v))))"

fun NativeValue :: "value_env \<Rightarrow> gval \<Rightarrow> qvalue" where
  "NativeValue ve VNil = QNull"
| "NativeValue ve (VBool b) = QBool b"
| "NativeValue ve (VString s) = QString s"
| "NativeValue ve (VFloat bits) = QNumber bits"
| "NativeValue ve (VInt v) = signedNativeValue v"
| "NativeValue ve (VUint v) = unsignedNativeValue v"
| "NativeValue ve (VList vs) = QList (map (NativeValue ve) vs)"
| "NativeValue ve (VMap kvs) = QObject (map (\<lambda>(k, v). (k, NativeValue ve v)) kvs)"
| "NativeValue ve (VStrings ss) = QList (map QString ss)"
| "NativeValue ve (VStringMap kvs) = QObject (map (\<lambda>(k, s). (k, QString s)) kvs)"
| "NativeValue ve (VTime t) = QUnknown (ve_fmt_any ve (VTime t))"
| "NativeValue ve VOther = QUnknown (ve_fmt_any ve VOther)"

definition nativeFieldValue :: "value_env \<Rightarrow> gval option \<Rightarrow> qvalue" where
  "nativeFieldValue ve v = (case v of None \<Rightarrow> QNull | Some g \<Rightarrow> NativeValue ve g)"

section \<open>Dates\<close>

type_synonym date = "int \<times> int \<times> int"

definition leap_year :: "int \<Rightarrow> bool" where
  "leap_year y \<longleftrightarrow> y mod 4 = 0 \<and> (y mod 100 \<noteq> 0 \<or> y mod 400 = 0)"

definition days_in :: "int \<Rightarrow> int \<Rightarrow> int" where
  "days_in m y =
     (if m = 2 then (if leap_year y then 29 else 28) else if m \<in> {4, 6, 9, 11} then 30 else 31)"

definition decimal :: "string \<Rightarrow> int" where
  "decimal s = int (undigits 10 (map digit_val s))"

text \<open>\<open>time.Parse("2006-01-02", s)\<close>.\<close>

definition parse_date :: "string \<Rightarrow> date option" where
  "parse_date s =
     (let y = take 4 s; m = take 2 (drop 5 s); d = take 2 (drop 8 s) in
      if length s = 10 \<and> s ! 4 = CHR ''-'' \<and> s ! 7 = CHR ''-'' \<and> list_all is_digit (y @ m @ d)
           \<and> 1 \<le> decimal m \<and> decimal m \<le> 12 \<and> 1 \<le> decimal d \<and> decimal d \<le> days_in (decimal m) (decimal y)
      then Some (decimal y, decimal m, decimal d) else None)"

definition pad_int :: "nat \<Rightarrow> int \<Rightarrow> string" where
  "pad_int w i = (if i < 0 then CHR ''-'' # pad_dec w (nat (- i)) else pad_dec w (nat i))"

fun format_date :: "date \<Rightarrow> string" where
  "format_date (y, m, d) = pad_int 4 y @ ''-'' @ pad_int 2 m @ ''-'' @ pad_int 2 d"

fun next_day :: "date \<Rightarrow> date" where
  "next_day (y, m, d) =
     (if d < days_in m y then (y, m, d + 1) else if m < 12 then (y, m + 1, 1) else (y + 1, 1, 1))"

fun prev_day :: "date \<Rightarrow> date" where
  "prev_day (y, m, d) =
     (if 1 < d then (y, m, d - 1) else if 1 < m then (y, m - 1, days_in (m - 1) y) else (y - 1, 12, 31))"

text \<open>\<open>AddDate(0, 0, n)\<close>.\<close>

definition add_days :: "int \<Rightarrow> date \<Rightarrow> date" where
  "add_days n dt = (if 0 \<le> n then (next_day ^^ nat n) dt else (prev_day ^^ nat (- n)) dt)"

section \<open>Comparison\<close>

definition comparableDate :: "qvalue \<Rightarrow> string option" where
  "comparableDate v =
     (case v of
        QDate s off \<Rightarrow> map_option format_date (parse_date s)
      | QString s \<Rightarrow> map_option format_date (parse_date s)
      | _ \<Rightarrow> None)"

definition exactNumericValue :: "qvalue \<Rightarrow> rat option" where
  "exactNumericValue v =
     (case v of
        QNumber bits \<Rightarrow> if float_finite bits then Some (float_rat bits) else None
      | QInteger i \<Rightarrow> Some (of_int (sint i))
      | QUnsigned u \<Rightarrow> Some (of_int (uint u))
      | _ \<Rightarrow> None)"

definition numericValue :: "qvalue \<Rightarrow> u64 option" where
  "numericValue v =
     (case v of
        QNumber bits \<Rightarrow> Some bits
      | QInteger i \<Rightarrow> Some (float_of_rat (of_int (sint i)))
      | QUnsigned u \<Rightarrow> Some (float_of_rat (of_int (uint u)))
      | _ \<Rightarrow> None)"

definition finiteNumber :: "qvalue \<Rightarrow> u64 option" where
  "finiteNumber v =
     (case numericValue v of None \<Rightarrow> None | Some bits \<Rightarrow> if float_finite bits then Some bits else None)"

definition valueString_of :: "value_env \<Rightarrow> qvalue \<Rightarrow> string" where
  "valueString_of ve v =
     (case v of
        QString s \<Rightarrow> s
      | QDate s off \<Rightarrow> s
      | QBool b \<Rightarrow> if b then ''true'' else ''false''
      | QNumber bits \<Rightarrow> ve_fmt_float ve bits
      | QInteger i \<Rightarrow> dec_int (sint i)
      | QUnsigned u \<Rightarrow> dec_string (unat u)
      | QNull \<Rightarrow> ''<nil>''
      | _ \<Rightarrow> ve_json ve v)"

text \<open>\<open>strings.Compare\<close> and \<open>Rat.Cmp\<close>.\<close>

definition three_way :: "'a::linorder \<Rightarrow> 'a \<Rightarrow> int" where
  "three_way a b = (if a < b then - 1 else if b < a then 1 else 0)"

definition compareValues :: "value_env \<Rightarrow> qvalue \<Rightarrow> qvalue \<Rightarrow> int" where
  "compareValues ve l r =
     (case (l, r) of
        (QNull, QNull) \<Rightarrow> 0
      | (QBool a, QBool b) \<Rightarrow> three_way a b
      | _ \<Rightarrow>
          (case (comparableDate l, comparableDate r) of
             (Some a, Some b) \<Rightarrow> three_way a b
           | _ \<Rightarrow>
               (case (exactNumericValue l, exactNumericValue r) of
                  (Some a, Some b) \<Rightarrow> three_way a b
                | _ \<Rightarrow> three_way (valueString_of ve l) (valueString_of ve r))))"

end
