(* ===== verification/Query_Evaluate.thy ===== *)
theory Query_Evaluate
  imports Query_Values
begin

text \<open>
  Rows of bindings and what a query evaluates on them: operands, fields, predicates, projections and the order
  of rows (\<open>internal/query/execution/evaluate.go\<close>, with \<open>BindingRow\<close> of \<open>model.go\<close> and the result cells of
  \<open>internal/query/logical/result.go\<close>). The maps of a row are association lists.
\<close>

section \<open>Results\<close>

record qnode =
  qn_ID :: string
  qn_DomainID :: string
  qn_Labels :: "string list"
  qn_Properties :: "(string \<times> qvalue) list"
  qn_Payload :: "(string \<times> qvalue) list"
  qn_CreatedAt :: gotime
  qn_UpdatedAt :: gotime

record qedge =
  qed_ID :: string
  qed_DomainID :: string
  qed_FromNodeID :: string
  qed_ToNodeID :: string
  qed_Labels :: "string list"
  qed_Properties :: "(string \<times> qvalue) list"
  qed_Payload :: "(string \<times> qvalue) list"
  qed_CreatedAt :: gotime
  qed_UpdatedAt :: gotime

record qpath =
  qp_Nodes :: "qnode list"
  qp_Edges :: "qedge list"

datatype qtree_node = QTreeNode qnode "qtree_node list"

datatype cell =
  CellNull | CellScalar qvalue | CellNode qnode | CellEdge qedge | CellPath qpath | CellTree "qtree_node list"

type_synonym qrow = "(string \<times> cell) list"

record BindingRow =
  br_Nodes :: "(string \<times> node) list"
  br_Edges :: "(string \<times> edge) list"
  br_Paths :: "(string \<times> qpath) list"
  br_Trees :: "(string \<times> qtree_node list) list"
  br_GraphNodes :: "node list"
  br_GraphEdges :: "edge list"
  br_Projected :: qrow
  br_Cursor :: string
  br_Sequence :: u64

text \<open>
  The JSON text of a row, a result row and a list of values, where \<^const>\<open>None\<close> is an encoding that fails
  (a \<open>NaN\<close>), and the text \<open>fmt.Sprint\<close> gives for a result row.
\<close>

record exec_env = value_env +
  xe_json_binding :: "BindingRow \<Rightarrow> string option"
  xe_json_row :: "qrow \<Rightarrow> string option"
  xe_json_values :: "qvalue list \<Rightarrow> string option"
  xe_sprint_row :: "qrow \<Rightarrow> string"

definition canonicalRow :: "exec_env \<Rightarrow> qrow \<Rightarrow> string" where
  "canonicalRow xe row = (case xe_json_row xe row of None \<Rightarrow> xe_sprint_row xe row | Some s \<Rightarrow> s)"

definition int64_len :: "'a list \<Rightarrow> u64" where
  "int64_len xs = of_nat (length xs)"

definition estimateBindingRow :: "exec_env \<Rightarrow> BindingRow \<Rightarrow> u64" where
  "estimateBindingRow xe row =
     (case xe_json_binding xe row of None \<Rightarrow> 256 | Some s \<Rightarrow> int64_len s + 64)"

definition estimateValues :: "exec_env \<Rightarrow> qvalue list \<Rightarrow> u64" where
  "estimateValues xe vs =
     (case xe_json_values xe vs of
        None \<Rightarrow> 64 * int64_len vs
      | Some s \<Rightarrow> int64_len s + 16 * int64_len vs)"

definition estimateProjectedRow :: "exec_env \<Rightarrow> qrow \<Rightarrow> u64" where
  "estimateProjectedRow xe row =
     (case xe_json_row xe row of None \<Rightarrow> 128 | Some s \<Rightarrow> int64_len s + 32)"

section \<open>Errors\<close>

text \<open>\<open>StackOverflow\<close>: a parameter that refers to itself is resolved for ever; the process dies.\<close>

datatype exec_error = QErr QueryError | StackOverflow

definition executionInvalid :: "string \<Rightarrow> string \<Rightarrow> exec_error" where
  "executionInvalid operation message = QErr (NewError ErrorInvalidQuery operation message)"

section \<open>Operands\<close>

record evaluator =
  ev_parameters :: "(string \<times> qvalue) list"
  ev_today :: date

text \<open>The zero time stands for the clock; only the day of \<open>now\<close> is used.\<close>

definition newEvaluator :: "(string \<times> qvalue) list \<Rightarrow> date option \<Rightarrow> date \<Rightarrow> evaluator" where
  "newEvaluator parameters now clock =
     \<lparr>ev_parameters = parameters, ev_today = (case now of None \<Rightarrow> clock | Some d \<Rightarrow> d)\<rparr>"

definition nodeField :: "exec_env \<Rightarrow> node \<Rightarrow> string \<Rightarrow> string \<Rightarrow> gval option" where
  "nodeField xe n namespace name =
     (if namespace = NamespaceProperties \<or> namespace = [] then
        (if name = ''node_id'' then Some (VString (ve_uuid xe (n_ID n)))
         else if name = ''content'' then Some (VString (PayloadText n))
         else Property n name)
      else if namespace = NamespacePayload then
        (case map_of (n_Payload n) name of
           None \<Rightarrow> if name = ''text'' \<and> n_Content n \<noteq> [] then Some (VString (n_Content n)) else None
         | Some v \<Rightarrow> Some v)
      else if namespace = NamespaceMeta then map_of (n_Meta n) name
      else None)"

definition edgeField :: "exec_env \<Rightarrow> edge \<Rightarrow> string \<Rightarrow> string \<Rightarrow> gval option" where
  "edgeField xe e namespace name =
     (if namespace = NamespaceProperties \<or> namespace = [] then
        (if name = ''edge_id'' then Some (VString (ve_uuid xe (e_ID e)))
         else if name = ''from_node_id'' then Some (VString (ve_uuid xe (e_FromID e)))
         else if name = ''to_node_id'' then Some (VString (ve_uuid xe (e_ToID e)))
         else map_of (e_Properties e) name)
      else if namespace = NamespacePayload then map_of (e_Payload e) name
      else if namespace = NamespaceMeta then map_of (e_Meta e) name
      else None)"

text \<open>The value of a field and whether it exists.\<close>

definition eval_field :: "exec_env \<Rightarrow> BindingRow \<Rightarrow> FieldRef \<Rightarrow> exec_error + qvalue \<times> bool" where
  "eval_field xe row f =
     (case map_of (br_Nodes row) (fr_Alias f) of
        Some n \<Rightarrow>
          (let v = nodeField xe n (fr_Namespace f) (fr_Name f)
           in Inr (nativeFieldValue (value_env.truncate xe) v, v \<noteq> None))
      | None \<Rightarrow>
          (case map_of (br_Edges row) (fr_Alias f) of
             Some e \<Rightarrow>
               (let v = edgeField xe e (fr_Namespace f) (fr_Name f)
                in Inr (nativeFieldValue (value_env.truncate xe) v, v \<noteq> None))
           | None \<Rightarrow>
               Inl (executionInvalid ''evaluate field''
                      (''alias '' @ ve_quote xe (fr_Alias f) @ '' is not bound''))))"

text \<open>
  A parameter may stand for another one. A chain of more parameters than there are names has a
  cycle, as the properties of queries show.
\<close>

fun resolve_fuel :: "nat \<Rightarrow> exec_env \<Rightarrow> (string \<times> qvalue) list \<Rightarrow> qvalue \<Rightarrow> exec_error + qvalue" where
  "resolve_fuel 0 xe ps v = Inl StackOverflow"
| "resolve_fuel (Suc k) xe ps v =
     (case v of
        QParameter p \<Rightarrow>
          (case map_of ps p of
             None \<Rightarrow> Inl (executionInvalid ''evaluate value'' (''missing parameter '' @ ve_quote xe p))
           | Some w \<Rightarrow> resolve_fuel k xe ps w)
      | _ \<Rightarrow> Inr v)"

definition resolve :: "exec_env \<Rightarrow> (string \<times> qvalue) list \<Rightarrow> qvalue \<Rightarrow> exec_error + qvalue" where
  "resolve xe ps v = resolve_fuel (Suc (length ps)) xe ps v"

definition eval_date :: "exec_env \<Rightarrow> string \<Rightarrow> u32 \<Rightarrow> exec_error + qvalue" where
  "eval_date xe s off =
     (case parse_date s of
        None \<Rightarrow> Inl (executionInvalid ''evaluate value'' (ve_date_error xe s))
      | Some d \<Rightarrow> Inr (QDate (format_date (add_days (sint off) d)) 0))"

definition eval_value :: "exec_env \<Rightarrow> evaluator \<Rightarrow> BindingRow \<Rightarrow> qvalue \<Rightarrow> exec_error + qvalue" where
  "eval_value xe ev row value =
     (case resolve xe (ev_parameters ev) value of
        Inl e \<Rightarrow> Inl e
      | Inr v \<Rightarrow>
          (case v of
             QField f \<Rightarrow>
               (case eval_field xe row (dereferenceField f) of Inl e \<Rightarrow> Inl e | Inr (w, exists) \<Rightarrow> Inr w)
           | QCurrentDate off \<Rightarrow> Inr (QDate (format_date (add_days (sint off) (ev_today ev))) 0)
           | QDate s off \<Rightarrow> eval_date xe s off
           | QBinding b \<Rightarrow>
               (case map_of (br_Nodes row) b of
                  Some n \<Rightarrow> Inr (QString (ve_uuid xe (n_ID n)))
                | None \<Rightarrow>
                    (case map_of (br_Edges row) b of
                       Some e \<Rightarrow> Inr (QString (ve_uuid xe (e_ID e)))
                     | None \<Rightarrow>
                         Inl (executionInvalid ''evaluate value'' (''alias '' @ ve_quote xe b @ '' is not bound''))))
           | QUnknown s \<Rightarrow>
               Inl (executionInvalid ''evaluate value'' (''unsupported value kind '' @ ve_quote xe ''unknown''))
           | _ \<Rightarrow> Inr v))"

definition valueWithExistence :: "exec_env \<Rightarrow> evaluator \<Rightarrow> BindingRow \<Rightarrow> qvalue \<Rightarrow> exec_error + qvalue \<times> bool" where
  "valueWithExistence xe ev row value =
     (case resolve xe (ev_parameters ev) value of
        Inl e \<Rightarrow> Inl e
      | Inr v \<Rightarrow>
          (case v of
             QField f \<Rightarrow> eval_field xe row (dereferenceField f)
           | _ \<Rightarrow> (case eval_value xe ev row v of Inl e \<Rightarrow> Inl e | Inr w \<Rightarrow> Inr (w, True))))"

definition dereferenceValue :: "qvalue option \<Rightarrow> qvalue" where
  "dereferenceValue v = (case v of None \<Rightarrow> QNull | Some w \<Rightarrow> w)"

section \<open>Predicates\<close>

datatype LeafKind =
    LeafComparison | LeafBetween | LeafNull | LeafString | LeafText | LeafSemantic | LeafHasTag
  | LeafPropertyExists | LeafOther string

record Leaf =
  lf_Kind :: LeafKind
  lf_Field :: "FieldRef option"
  lf_Operand :: "qvalue option"
  lf_Left :: "qvalue option"
  lf_Right :: "qvalue option"
  lf_Low :: "qvalue option"
  lf_High :: "qvalue option"
  lf_Operator :: string
  lf_Query :: string
  lf_IsNull :: bool
  lf_Tag :: string

datatype Predicate =
    PredicateLeaf "Leaf option" | PredicateAnd "Predicate list" | PredicateOr "Predicate list"
  | PredicateOther string

definition str_contains :: "string \<Rightarrow> string \<Rightarrow> bool" where
  "str_contains s sub \<longleftrightarrow> list_ex (\<lambda>k. starts_with sub (drop k s)) [0..<Suc (length s)]"

definition str_has_suffix :: "string \<Rightarrow> string \<Rightarrow> bool" where
  "str_has_suffix s sub \<longleftrightarrow> length sub \<le> length s \<and> drop (length s - length sub) s = sub"

definition hasTag :: "exec_env \<Rightarrow> BindingRow \<Rightarrow> string \<Rightarrow> string \<Rightarrow> exec_error + bool" where
  "hasTag xe row alias tag =
     (case map_of (br_Nodes row) alias of
        None \<Rightarrow> Inl (executionInvalid ''evaluate tag'' (''node alias '' @ ve_quote xe alias @ '' is not bound''))
      | Some n \<Rightarrow>
          (case NormalizeTag tag of
             None \<Rightarrow> Inl (executionInvalid ''evaluate tag'' ''tag must not be empty'')
           | Some want \<Rightarrow>
               (case NormalizeTagsValue (case Property n NodePropTags of None \<Rightarrow> VNil | Some v \<Rightarrow> v) of
                  None \<Rightarrow> Inr False
                | Some tags \<Rightarrow> Inr (want \<in> set tags))))"

definition compare_op :: "exec_env \<Rightarrow> string \<Rightarrow> int \<Rightarrow> exec_error + bool" where
  "compare_op xe operator c =
     (if operator = ''='' then Inr (c = 0)
      else if operator = ''!='' then Inr (c \<noteq> 0)
      else if operator = ''<'' then Inr (c < 0)
      else if operator = ''<='' then Inr (c \<le> 0)
      else if operator = ''>'' then Inr (c > 0)
      else if operator = ''>='' then Inr (c \<ge> 0)
      else Inl (executionInvalid ''evaluate predicate''
                  (''unsupported comparison operator '' @ ve_quote xe operator)))"

definition string_op :: "exec_env \<Rightarrow> string \<Rightarrow> string \<Rightarrow> string \<Rightarrow> exec_error + bool" where
  "string_op xe operator actual query =
     (if operator = ''contains'' then Inr (str_contains actual query)
      else if operator = ''starts_with'' then Inr (starts_with query actual)
      else if operator = ''ends_with'' then Inr (str_has_suffix actual query)
      else Inl (executionInvalid ''evaluate predicate'' (''unsupported string operator '' @ ve_quote xe operator)))"

definition eval_compare :: "exec_env \<Rightarrow> qvalue \<Rightarrow> qvalue \<Rightarrow> int" where
  "eval_compare xe = compareValues (value_env.truncate xe)"

definition lower_text :: "exec_env \<Rightarrow> qvalue \<Rightarrow> string" where
  "lower_text xe v = ve_ToLower xe (valueString_of (value_env.truncate xe) v)"

definition eval_leaf :: "exec_env \<Rightarrow> evaluator \<Rightarrow> BindingRow \<Rightarrow> Leaf \<Rightarrow> exec_error + bool" where
  "eval_leaf xe ev row leaf =
     (let operand = (\<lambda>v. valueWithExistence xe ev row (dereferenceValue v));
          field = eval_field xe row (dereferenceField (lf_Field leaf)) in
      case lf_Kind leaf of
        LeafComparison \<Rightarrow>
          (case operand (lf_Left leaf) of
             Inl e \<Rightarrow> Inl e
           | Inr (l, l_exists) \<Rightarrow>
               (case operand (lf_Right leaf) of
                  Inl e \<Rightarrow> Inl e
                | Inr (r, r_exists) \<Rightarrow>
                    if \<not> l_exists \<or> \<not> r_exists then Inr False
                    else compare_op xe (lf_Operator leaf) (eval_compare xe l r)))
      | LeafBetween \<Rightarrow>
          (case operand (lf_Left leaf) of
             Inl e \<Rightarrow> Inl e
           | Inr (v, v_exists) \<Rightarrow>
               if \<not> v_exists then Inr False
               else (case operand (lf_Low leaf) of
                       Inl e \<Rightarrow> Inl e
                     | Inr (lo, lo_exists) \<Rightarrow>
                         if \<not> lo_exists then Inr False
                         else (case operand (lf_High leaf) of
                                 Inl e \<Rightarrow> Inl e
                               | Inr (hi, hi_exists) \<Rightarrow>
                                   if \<not> hi_exists then Inr False
                                   else Inr (eval_compare xe v lo \<ge> 0 \<and> eval_compare xe v hi \<le> 0))))
      | LeafNull \<Rightarrow>
          (case field of
             Inl e \<Rightarrow> Inl e
           | Inr (v, exists) \<Rightarrow> Inr ((\<not> exists \<or> v = QNull) = lf_IsNull leaf))
      | LeafPropertyExists \<Rightarrow> (case field of Inl e \<Rightarrow> Inl e | Inr (v, exists) \<Rightarrow> Inr exists)
      | LeafString \<Rightarrow>
          (case eval_value xe ev row (dereferenceValue (lf_Operand leaf)) of
             Inl e \<Rightarrow> Inl e
           | Inr v \<Rightarrow> string_op xe (lf_Operator leaf) (lower_text xe v) (ve_ToLower xe (lf_Query leaf)))
      | LeafHasTag \<Rightarrow> hasTag xe row (fr_Alias (dereferenceField (lf_Field leaf))) (lf_Tag leaf)
      | LeafOther k \<Rightarrow>
          Inl (executionInvalid ''evaluate predicate'' (''unsupported predicate kind '' @ ve_quote xe k))
      | _ \<Rightarrow>
          (case field of
             Inl e \<Rightarrow> Inl e
           | Inr (v, exists) \<Rightarrow>
               if \<not> exists then Inr False
               else Inr (str_contains (lower_text xe v) (ve_ToLower xe (lf_Query leaf)))))"

text \<open>Terms are evaluated from the left until one decides.\<close>

fun eval_predicate :: "exec_env \<Rightarrow> evaluator \<Rightarrow> BindingRow \<Rightarrow> Predicate \<Rightarrow> exec_error + bool"
  and and_terms :: "exec_env \<Rightarrow> evaluator \<Rightarrow> BindingRow \<Rightarrow> Predicate list \<Rightarrow> exec_error + bool"
  and or_terms :: "exec_env \<Rightarrow> evaluator \<Rightarrow> BindingRow \<Rightarrow> Predicate list \<Rightarrow> exec_error + bool" where
  "eval_predicate xe ev row (PredicateAnd ts) = and_terms xe ev row ts"
| "eval_predicate xe ev row (PredicateOr ts) = or_terms xe ev row ts"
| "eval_predicate xe ev row (PredicateLeaf None) =
     Inl (executionInvalid ''evaluate predicate'' ''leaf predicate is missing'')"
| "eval_predicate xe ev row (PredicateLeaf (Some leaf)) = eval_leaf xe ev row leaf"
| "eval_predicate xe ev row (PredicateOther op) =
     Inl (executionInvalid ''evaluate predicate'' (''unsupported predicate operation '' @ ve_quote xe op))"
| "and_terms xe ev row [] = Inr True"
| "and_terms xe ev row (t # ts) =
     (case eval_predicate xe ev row t of
        Inl e \<Rightarrow> Inl e | Inr False \<Rightarrow> Inr False | Inr True \<Rightarrow> and_terms xe ev row ts)"
| "or_terms xe ev row [] = Inr False"
| "or_terms xe ev row (t # ts) =
     (case eval_predicate xe ev row t of
        Inl e \<Rightarrow> Inl e | Inr True \<Rightarrow> Inr True | Inr False \<Rightarrow> or_terms xe ev row ts)"

end
