(* ===== verification/Query_Rows.thy ===== *)
theory Query_Rows
  imports Query_Evaluate
begin

text \<open>
  Projecting a row and comparing rows (\<open>internal/query/execution/evaluate.go\<close>). \<open>sort.SliceStable\<close> is the
  insertion sort it is for up to twenty rows; beyond that the library merges blocks, with the same result for
  every comparison that is an order.
\<close>

section \<open>Projection\<close>

datatype ProjectionKind =
    ProjectionNode | ProjectionEdge | ProjectionTree | ProjectionScalar | ProjectionPath | ProjectionOther string

record Projection =
  pj_Kind :: ProjectionKind
  pj_Alias :: string
  pj_Field :: "FieldRef option"
  pj_OutputName :: string

definition projectionOutputName :: "Projection \<Rightarrow> string" where
  "projectionOutputName p =
     (if pj_OutputName p \<noteq> [] then pj_OutputName p
      else (case (pj_Kind p, pj_Field p) of
              (ProjectionScalar, Some f) \<Rightarrow>
                (if fr_Name f = [] then pj_Alias p
                 else if fr_Namespace f \<noteq> [] \<and> fr_Namespace f \<noteq> NamespaceProperties
                 then fr_Alias f @ ''.'' @ fr_Namespace f @ ''.'' @ fr_Name f
                 else fr_Alias f @ ''.'' @ fr_Name f)
            | _ \<Rightarrow> pj_Alias p))"

definition scalarCell :: "qvalue \<Rightarrow> cell" where
  "scalarCell v = (if v = QNull then CellNull else CellScalar v)"

definition valueMap_of :: "exec_env \<Rightarrow> props \<Rightarrow> (string \<times> qvalue) list" where
  "valueMap_of xe ps = map (\<lambda>(k, v). (k, NativeValue (value_env.truncate xe) v)) ps"

text \<open>A \<open>nil\<close> map and an empty one are the same list here, so \<open>Props\<close> stands in for empty \<open>Properties\<close> too.\<close>

definition neutralNode :: "exec_env \<Rightarrow> node \<Rightarrow> qnode" where
  "neutralNode xe n =
     (let properties = (if n_Properties n = [] then n_Props n else n_Properties n);
          payload = (if n_Payload n = []
                     then (if n_Content n \<noteq> [] then [(''text'', VString (n_Content n))] else []) @
                          (case n_BlobRef n of None \<Rightarrow> [] | Some b \<Rightarrow> [(''blob_id'', VString b)])
                     else n_Payload n) in
      \<lparr>qn_ID = ve_uuid xe (n_ID n), qn_DomainID = ve_uuid xe (n_DomainID n), qn_Labels = n_Labels n,
       qn_Properties = valueMap_of xe properties, qn_Payload = valueMap_of xe payload,
       qn_CreatedAt = n_CreatedAt n, qn_UpdatedAt = n_UpdatedAt n\<rparr>)"

definition neutralEdge :: "exec_env \<Rightarrow> edge \<Rightarrow> qedge" where
  "neutralEdge xe e =
     \<lparr>qed_ID = ve_uuid xe (e_ID e), qed_DomainID = ve_uuid xe (e_DomainID e),
      qed_FromNodeID = ve_uuid xe (e_FromID e), qed_ToNodeID = ve_uuid xe (e_ToID e),
      qed_Labels = e_Labels e, qed_Properties = valueMap_of xe (e_Properties e),
      qed_Payload = valueMap_of xe (e_Payload e), qed_CreatedAt = e_CreatedAt e, qed_UpdatedAt = e_UpdatedAt e\<rparr>"

definition unbound :: "exec_env \<Rightarrow> string \<Rightarrow> string \<Rightarrow> exec_error" where
  "unbound xe what alias =
     executionInvalid ''project query row'' (what @ ve_quote xe alias @ '' is not bound'')"

definition projected_cell :: "exec_env \<Rightarrow> evaluator \<Rightarrow> BindingRow \<Rightarrow> Projection \<Rightarrow> exec_error + cell" where
  "projected_cell xe ev row p =
     (case pj_Kind p of
        ProjectionNode \<Rightarrow>
          (case map_of (br_Nodes row) (pj_Alias p) of
             None \<Rightarrow> Inl (unbound xe ''node alias '' (pj_Alias p))
           | Some n \<Rightarrow> Inr (CellNode (neutralNode xe n)))
      | ProjectionEdge \<Rightarrow>
          (case map_of (br_Edges row) (pj_Alias p) of
             None \<Rightarrow> Inl (unbound xe ''edge alias '' (pj_Alias p))
           | Some e \<Rightarrow> Inr (CellEdge (neutralEdge xe e)))
      | ProjectionPath \<Rightarrow>
          (case map_of (br_Paths row) (pj_Alias p) of
             None \<Rightarrow> Inl (unbound xe ''path alias '' (pj_Alias p))
           | Some q \<Rightarrow> Inr (CellPath q))
      | ProjectionTree \<Rightarrow>
          (case map_of (br_Trees row) (pj_Alias p) of
             None \<Rightarrow> Inl (unbound xe ''tree alias '' (pj_Alias p))
           | Some t \<Rightarrow> Inr (CellTree t))
      | ProjectionScalar \<Rightarrow>
          (if (case pj_Field p of None \<Rightarrow> False | Some f \<Rightarrow> fr_Name f = [])
           then (case map_of (br_Nodes row) (pj_Alias p) of
                   None \<Rightarrow> Inl (unbound xe ''alias '' (pj_Alias p))
                 | Some n \<Rightarrow> Inr (scalarCell (QString (ve_uuid xe (n_ID n)))))
           else (case eval_value xe ev row (QField (pj_Field p)) of
                   Inl e \<Rightarrow> Inl e | Inr v \<Rightarrow> Inr (scalarCell v)))
      | ProjectionOther k \<Rightarrow>
          Inl (executionInvalid ''project query row'' (''unsupported projection kind '' @ ve_quote xe k)))"

fun project_fields :: "exec_env \<Rightarrow> evaluator \<Rightarrow> BindingRow \<Rightarrow> Projection list \<Rightarrow> qrow \<Rightarrow> exec_error + qrow" where
  "project_fields xe ev row [] fs = Inr fs"
| "project_fields xe ev row (p # ps) fs =
     (case projected_cell xe ev row p of
        Inl e \<Rightarrow> Inl e
      | Inr c \<Rightarrow> project_fields xe ev row ps (AList.update (projectionOutputName p) c fs))"

definition projectRow :: "exec_env \<Rightarrow> evaluator \<Rightarrow> BindingRow \<Rightarrow> Projection list \<Rightarrow> exec_error + qrow" where
  "projectRow xe ev row ps = project_fields xe ev row ps []"

section \<open>The order of rows\<close>

record Order =
  od_Value :: qvalue
  od_Descending :: bool

fun rowOrderValues :: "exec_env \<Rightarrow> evaluator \<Rightarrow> BindingRow \<Rightarrow> Order list \<Rightarrow> exec_error + qvalue list" where
  "rowOrderValues xe ev row [] = Inr []"
| "rowOrderValues xe ev row (od # ods) =
     (case eval_value xe ev row (od_Value od) of
        Inl e \<Rightarrow> Inl e
      | Inr v \<Rightarrow>
          (case rowOrderValues xe ev row ods of Inl e \<Rightarrow> Inl e | Inr vs \<Rightarrow> Inr (v # vs)))"

text \<open>The lists of values have one value for each order: \<open>rowOrderValues\<close> made them.\<close>

fun compareOrderValues :: "exec_env \<Rightarrow> qvalue list \<Rightarrow> u64 \<Rightarrow> qvalue list \<Rightarrow> u64 \<Rightarrow> Order list \<Rightarrow> int" where
  "compareOrderValues xe (l # ls) lseq (r # rs) rseq (od # ods) =
     (let c = eval_compare xe l r; c' = (if od_Descending od then - c else c)
      in if c' \<noteq> 0 then c' else compareOrderValues xe ls lseq rs rseq ods)"
| "compareOrderValues xe _ lseq _ rseq _ =
     (if sint lseq < sint rseq then - 1 else if sint rseq < sint lseq then 1 else 0)"

definition rowOrderLess :: "exec_env \<Rightarrow> evaluator \<Rightarrow> Order list \<Rightarrow> BindingRow \<Rightarrow> BindingRow \<Rightarrow> exec_error + bool" where
  "rowOrderLess xe ev ods l r =
     (case rowOrderValues xe ev l ods of
        Inl e \<Rightarrow> Inl e
      | Inr ls \<Rightarrow>
          (case rowOrderValues xe ev r ods of
             Inl e \<Rightarrow> Inl e
           | Inr rs \<Rightarrow> Inr (compareOrderValues xe ls (br_Sequence l) rs (br_Sequence r) ods < 0)))"

text \<open>
  The comparison of \<open>sortRows\<close>: after a first error it answers \<open>false\<close> and the sort goes on without
  moving anything.
\<close>

type_synonym less_state = "exec_error option"

definition sort_less ::
    "exec_env \<Rightarrow> evaluator \<Rightarrow> Order list \<Rightarrow> BindingRow \<Rightarrow> BindingRow \<Rightarrow> less_state \<Rightarrow> bool \<times> less_state" where
  "sort_less xe ev ods l r st =
     (case st of
        Some e \<Rightarrow> (False, Some e)
      | None \<Rightarrow> (case rowOrderLess xe ev ods l r of Inl e \<Rightarrow> (False, Some e) | Inr b \<Rightarrow> (b, None)))"

text \<open>Insertion sort: the next row moves left past every row it is less than. The sorted part is kept reversed.\<close>

fun insert_left :: "('a \<Rightarrow> 'a \<Rightarrow> 's \<Rightarrow> bool \<times> 's) \<Rightarrow> 'a \<Rightarrow> 'a list \<Rightarrow> 's \<Rightarrow> 'a list \<times> 's" where
  "insert_left lt x [] st = ([x], st)"
| "insert_left lt x (y # ys) st =
     (case lt x y st of
        (True, st1) \<Rightarrow> (let (zs, st2) = insert_left lt x ys st1 in (y # zs, st2))
      | (False, st1) \<Rightarrow> (x # y # ys, st1))"

fun insertion_sort :: "('a \<Rightarrow> 'a \<Rightarrow> 's \<Rightarrow> bool \<times> 's) \<Rightarrow> 'a list \<Rightarrow> 'a list \<Rightarrow> 's \<Rightarrow> 'a list \<times> 's" where
  "insertion_sort lt front [] st = (rev front, st)"
| "insertion_sort lt front (x # xs) st =
     (let (d, st1) = insert_left lt x front st in insertion_sort lt d xs st1)"

definition SliceStable :: "('a \<Rightarrow> 'a \<Rightarrow> 's \<Rightarrow> bool \<times> 's) \<Rightarrow> 'a list \<Rightarrow> 's \<Rightarrow> 'a list \<times> 's" where
  "SliceStable lt xs st = insertion_sort lt [] xs st"

text \<open>The rows after the sort, with its error.\<close>

definition sortRows :: "exec_env \<Rightarrow> evaluator \<Rightarrow> Order list \<Rightarrow> BindingRow list \<Rightarrow> BindingRow list \<times> exec_error option" where
  "sortRows xe ev ods rows = SliceStable (sort_less xe ev ods) rows None"

end
