(* ===== verification/Query_Stream.thy ===== *)
theory Query_Stream
  imports Query_Rows
begin

text \<open>
  The operators of a query that pass rows on as they come (\<open>internal/query/execution/model.go\<close> and
  \<open>operators_stream.go\<close>). An operator is the record of its three methods on its state \<open>'s\<close> and the
  run: the tracker all operators share and the number of times the context was looked at, \<open>cn k\<close> being what
  it finds the \<open>k\<close>-th time. A unary operator works on an input operator; its state is the input's with its own fields.

  The loops that read their input until something comes of it take fuel; \<open>Diverge\<close> is a loop
  that has not ended within it. \<^theory_text>\<open>Query_Contract\<close> shows how much is enough.
\<close>

section \<open>Runs and operators\<close>

record run =
  rn_tracker :: Tracker
  rn_checks :: nat

type_synonym cancel = "nat \<Rightarrow> ctx"

definition canceled :: "cancel \<Rightarrow> string \<Rightarrow> run \<Rightarrow> exec_error option \<times> run" where
  "canceled cn operation r =
     ((case cn (rn_checks r) of
         None \<Rightarrow> None
       | Some c \<Rightarrow> Some (QErr (NewError ErrorCanceled operation ''query context canceled''))),
      r\<lparr>rn_checks := Suc (rn_checks r)\<rparr>)"

text \<open>A call of the shared tracker.\<close>

definition track :: "(Tracker \<Rightarrow> QueryError option \<times> Tracker) \<Rightarrow> run \<Rightarrow> exec_error option \<times> run" where
  "track f r = (let (e, t) = f (rn_tracker r) in (map_option QErr e, r\<lparr>rn_tracker := t\<rparr>))"

definition release :: "u64 \<Rightarrow> run \<Rightarrow> run" where
  "release bytes r = r\<lparr>rn_tracker := ReleaseMemory bytes (rn_tracker r)\<rparr>"

datatype next_error = EOF | Fail exec_error | Diverge

type_synonym 's next_result = "(next_error + BindingRow list) \<times> 's \<times> run"

record 's operator =
  op_Open :: "'s \<Rightarrow> run \<Rightarrow> exec_error option \<times> 's \<times> run"
  op_Next :: "'s \<Rightarrow> run \<Rightarrow> 's next_result"
  op_Close :: "'s \<Rightarrow> run \<Rightarrow> exec_error option \<times> 's \<times> run"

section \<open>A source of given rows\<close>

record SliceSource =
  sl_rows :: "BindingRow list"
  sl_batchSize :: nat
  sl_offset :: nat
  sl_opened :: bool
  sl_closed :: bool

definition NewSliceSource :: "BindingRow list \<Rightarrow> int \<Rightarrow> SliceSource" where
  "NewSliceSource rows batchSize =
     \<lparr>sl_rows = rows, sl_batchSize = (if batchSize \<le> 0 then unat DefaultBatchSize else nat batchSize),
      sl_offset = 0, sl_opened = False, sl_closed = False\<rparr>"

definition slice_Open :: "cancel \<Rightarrow> SliceSource \<Rightarrow> run \<Rightarrow> exec_error option \<times> SliceSource \<times> run" where
  "slice_Open cn s r =
     (case canceled cn ''open slice source'' r of
        (Some e, r1) \<Rightarrow> (Some e, s, r1)
      | (None, r1) \<Rightarrow>
          if sl_opened s \<and> \<not> sl_closed s
          then (Some (QErr (invalidState ''open slice source'' ''operator is already open'')), s, r1)
          else (None, s\<lparr>sl_offset := 0, sl_opened := True, sl_closed := False\<rparr>, r1))"

definition slice_Close :: "SliceSource \<Rightarrow> run \<Rightarrow> exec_error option \<times> SliceSource \<times> run" where
  "slice_Close s r = (None, s\<lparr>sl_closed := True\<rparr>, r)"

definition slice_ready :: "cancel \<Rightarrow> string \<Rightarrow> SliceSource \<Rightarrow> run \<Rightarrow> next_error option \<times> SliceSource \<times> run" where
  "slice_ready cn operation s r =
     (case canceled cn operation r of
        (Some e, r1) \<Rightarrow> (Some (Fail e), s\<lparr>sl_closed := True\<rparr>, r1)
      | (None, r1) \<Rightarrow>
          ((if \<not> sl_opened s then Some (Fail (QErr (invalidState operation ''operator is not open'')))
            else if sl_closed s then Some EOF else None), s, r1))"

definition sequence_rows :: "nat \<Rightarrow> BindingRow list \<Rightarrow> BindingRow list" where
  "sequence_rows start rows =
     map (\<lambda>(i, row). row\<lparr>br_Sequence := of_nat (start + i)\<rparr>) (enumerate 0 rows)"

definition slice_Next :: "cancel \<Rightarrow> SliceSource \<Rightarrow> run \<Rightarrow> SliceSource next_result" where
  "slice_Next cn s r =
     (case slice_ready cn ''read slice source'' s r of
        (Some e, s1, r1) \<Rightarrow> (Inl e, s1, r1)
      | (None, s1, r1) \<Rightarrow>
          if length (sl_rows s1) \<le> sl_offset s1 then (Inl EOF, s1, r1)
          else
            let stop = min (sl_offset s1 + sl_batchSize s1) (length (sl_rows s1));
                rows = sequence_rows (sl_offset s1) (bslice (sl_offset s1) stop (sl_rows s1));
                s2 = s1\<lparr>sl_offset := stop\<rparr>
            in (case track (ExamineCandidates (int64_len rows)) r1 of
                  (Some e, r2) \<Rightarrow> (Inl (Fail e), s2\<lparr>sl_closed := True\<rparr>, r2)
                | (None, r2) \<Rightarrow> (Inr rows, s2, r2)))"

definition slice_source :: "cancel \<Rightarrow> SliceSource operator" where
  "slice_source cn = \<lparr>op_Open = slice_Open cn, op_Next = slice_Next cn, op_Close = slice_Close\<rparr>"

section \<open>Unary operators\<close>

text \<open>
  The fields of \<open>unaryOperator\<close>, and the ones the operators add to it: \<open>remaining\<close> of \<open>OffsetOperator\<close> and
  \<open>LimitOperator\<close>, \<open>seen\<close> of \<open>DistinctOperator\<close>, the rest of \<open>materializedRows\<close>.
\<close>

record op_fields =
  un_opened :: bool
  un_closed :: bool
  un_closeErr :: "exec_error option"
  of_remaining :: u64
  of_seen :: "(string \<times> u64) list"
  of_rows :: "BindingRow list"
  of_offset :: nat
  of_retained :: u64
  of_materialized :: bool

definition new_fields :: "u64 \<Rightarrow> op_fields" where
  "new_fields remaining =
     \<lparr>un_opened = False, un_closed = False, un_closeErr = None, of_remaining = remaining, of_seen = [],
      of_rows = [], of_offset = 0, of_retained = 0, of_materialized = False\<rparr>"

type_synonym 'i unary = "'i \<times> op_fields"

definition unary_open ::
    "'i operator \<Rightarrow> cancel \<Rightarrow> string \<Rightarrow> 'i unary \<Rightarrow> run \<Rightarrow> exec_error option \<times> 'i unary \<times> run" where
  "unary_open I cn operation = (\<lambda>(i, u) r.
     (case canceled cn operation r of
        (Some e, r1) \<Rightarrow> (Some e, (i, u), r1)
      | (None, r1) \<Rightarrow>
          if un_opened u \<and> \<not> un_closed u
          then (Some (QErr (invalidState operation ''operator is already open'')), (i, u), r1)
          else (case op_Open I i r1 of
                  (Some e, i1, r2) \<Rightarrow> (case op_Close I i1 r2 of (_, i2, r3) \<Rightarrow> (Some e, (i2, u), r3))
                | (None, i1, r2) \<Rightarrow>
                    (None, (i1, u\<lparr>un_opened := True, un_closed := False, un_closeErr := None\<rparr>), r2))))"

definition unary_close :: "'i operator \<Rightarrow> 'i unary \<Rightarrow> run \<Rightarrow> exec_error option \<times> 'i unary \<times> run" where
  "unary_close I = (\<lambda>(i, u) r.
     if un_closed u then (un_closeErr u, (i, u), r)
     else (case op_Close I i r of
             (e, i1, r1) \<Rightarrow> (e, (i1, u\<lparr>un_closed := True, un_closeErr := e\<rparr>), r1)))"

definition unary_ready ::
    "'i operator \<Rightarrow> cancel \<Rightarrow> string \<Rightarrow> 'i unary \<Rightarrow> run \<Rightarrow> next_error option \<times> 'i unary \<times> run" where
  "unary_ready I cn operation = (\<lambda>(i, u) r.
     (case canceled cn operation r of
        (Some e, r1) \<Rightarrow> (case unary_close I (i, u) r1 of (_, s2, r2) \<Rightarrow> (Some (Fail e), s2, r2))
      | (None, r1) \<Rightarrow>
          ((if \<not> un_opened u then Some (Fail (QErr (invalidState operation ''operator is not open'')))
            else if un_closed u then Some EOF else None), (i, u), r1)))"

text \<open>\<open>fail\<close>: close the input and return the error.\<close>

definition unary_fail :: "'i operator \<Rightarrow> next_error \<Rightarrow> 'i unary \<Rightarrow> run \<Rightarrow> 'i unary next_result" where
  "unary_fail I e s r = (case unary_close I s r of (_, s1, r1) \<Rightarrow> (Inl e, s1, r1))"

section \<open>Filter\<close>

fun filter_rows ::
    "cancel \<Rightarrow> exec_env \<Rightarrow> evaluator \<Rightarrow> Predicate \<Rightarrow> BindingRow list \<Rightarrow> run \<Rightarrow> (exec_error + BindingRow list) \<times> run" where
  "filter_rows cn xe ev p [] r = (Inr [], r)"
| "filter_rows cn xe ev p (row # rows) r =
     (case canceled cn ''filter query rows'' r of
        (Some e, r1) \<Rightarrow> (Inl e, r1)
      | (None, r1) \<Rightarrow>
          (case eval_predicate xe ev row p of
             Inl e \<Rightarrow> (Inl e, r1)
           | Inr matched \<Rightarrow>
               (case filter_rows cn xe ev p rows r1 of
                  (Inl e, r2) \<Rightarrow> (Inl e, r2)
                | (Inr out, r2) \<Rightarrow> (Inr (if matched then row # out else out), r2))))"

fun filter_loop ::
    "'i operator \<Rightarrow> cancel \<Rightarrow> exec_env \<Rightarrow> evaluator \<Rightarrow> Predicate \<Rightarrow> nat \<Rightarrow> 'i unary \<Rightarrow> run \<Rightarrow> 'i unary next_result" where
  "filter_loop I cn xe ev p 0 s r = (Inl Diverge, s, r)"
| "filter_loop I cn xe ev p (Suc k) (i, u) r =
     (case op_Next I i r of
        (Inl EOF, i1, r1) \<Rightarrow> (Inl EOF, (i1, u), r1)
      | (Inl e, i1, r1) \<Rightarrow> unary_fail I e (i1, u) r1
      | (Inr batch, i1, r1) \<Rightarrow>
          (case filter_rows cn xe ev p batch r1 of
             (Inl e, r2) \<Rightarrow> unary_fail I (Fail e) (i1, u) r2
           | (Inr rows, r2) \<Rightarrow>
               if rows = [] then filter_loop I cn xe ev p k (i1, u) r2
               else (case track (ProduceIntermediate (int64_len rows)) r2 of
                       (Some e, r3) \<Rightarrow> unary_fail I (Fail e) (i1, u) r3
                     | (None, r3) \<Rightarrow> (Inr rows, (i1, u), r3))))"

definition filter_operator ::
    "cancel \<Rightarrow> exec_env \<Rightarrow> evaluator \<Rightarrow> Predicate \<Rightarrow> nat \<Rightarrow> 'i operator \<Rightarrow> 'i unary operator" where
  "filter_operator cn xe ev p k I =
     \<lparr>op_Open = unary_open I cn ''open residual filter'',
      op_Next = (\<lambda>s r. (case unary_ready I cn ''filter query rows'' s r of
                          (Some e, s1, r1) \<Rightarrow> (Inl e, s1, r1)
                        | (None, s1, r1) \<Rightarrow> filter_loop I cn xe ev p k s1 r1)),
      op_Close = unary_close I\<rparr>"

section \<open>Projection\<close>

fun project_rows ::
    "cancel \<Rightarrow> exec_env \<Rightarrow> evaluator \<Rightarrow> Projection list \<Rightarrow> BindingRow list \<Rightarrow> run
       \<Rightarrow> (exec_error + BindingRow list) \<times> run" where
  "project_rows cn xe ev ps [] r = (Inr [], r)"
| "project_rows cn xe ev ps (row # rows) r =
     (case canceled cn ''project query rows'' r of
        (Some e, r1) \<Rightarrow> (Inl e, r1)
      | (None, r1) \<Rightarrow>
          (case projectRow xe ev row ps of
             Inl e \<Rightarrow> (Inl e, r1)
           | Inr projected \<Rightarrow>
               (case project_rows cn xe ev ps rows r1 of
                  (Inl e, r2) \<Rightarrow> (Inl e, r2)
                | (Inr out, r2) \<Rightarrow> (Inr (row\<lparr>br_Projected := projected\<rparr> # out), r2))))"

definition projection_Next ::
    "'i operator \<Rightarrow> cancel \<Rightarrow> exec_env \<Rightarrow> evaluator \<Rightarrow> Projection list \<Rightarrow> 'i unary \<Rightarrow> run \<Rightarrow> 'i unary next_result" where
  "projection_Next I cn xe ev ps s r =
     (case unary_ready I cn ''project query rows'' s r of
        (Some e, s1, r1) \<Rightarrow> (Inl e, s1, r1)
      | (None, (i, u), r1) \<Rightarrow>
          (case op_Next I i r1 of
             (Inl EOF, i1, r2) \<Rightarrow> (Inl EOF, (i1, u), r2)
           | (Inl e, i1, r2) \<Rightarrow> unary_fail I e (i1, u) r2
           | (Inr batch, i1, r2) \<Rightarrow>
               (case project_rows cn xe ev ps batch r2 of
                  (Inl e, r3) \<Rightarrow> unary_fail I (Fail e) (i1, u) r3
                | (Inr rows, r3) \<Rightarrow>
                    (case track (ProduceIntermediate (int64_len rows)) r3 of
                       (Some e, r4) \<Rightarrow> unary_fail I (Fail e) (i1, u) r4
                     | (None, r4) \<Rightarrow> (Inr rows, (i1, u), r4)))))"

definition projection_operator ::
    "cancel \<Rightarrow> exec_env \<Rightarrow> evaluator \<Rightarrow> Projection list \<Rightarrow> 'i operator \<Rightarrow> 'i unary operator" where
  "projection_operator cn xe ev ps I =
     \<lparr>op_Open = unary_open I cn ''open projection'', op_Next = projection_Next I cn xe ev ps,
      op_Close = unary_close I\<rparr>"

section \<open>Offset and limit\<close>

definition offset_Open ::
    "'i operator \<Rightarrow> cancel \<Rightarrow> u64 \<Rightarrow> 'i unary \<Rightarrow> run \<Rightarrow> exec_error option \<times> 'i unary \<times> run" where
  "offset_Open I cn offset = (\<lambda>(i, u) r.
     if sint offset < 0 then (Some (executionInvalid ''open offset'' ''offset must be non-negative''), (i, u), r)
     else unary_open I cn ''open offset'' (i, u\<lparr>of_remaining := offset\<rparr>) r)"

fun offset_loop :: "'i operator \<Rightarrow> nat \<Rightarrow> 'i unary \<Rightarrow> run \<Rightarrow> 'i unary next_result" where
  "offset_loop I 0 s r = (Inl Diverge, s, r)"
| "offset_loop I (Suc k) (i, u) r =
     (case op_Next I i r of
        (Inl EOF, i1, r1) \<Rightarrow> (Inl EOF, (i1, u), r1)
      | (Inl e, i1, r1) \<Rightarrow> unary_fail I e (i1, u) r1
      | (Inr batch, i1, r1) \<Rightarrow>
          if sint (int64_len batch) \<le> sint (of_remaining u)
          then offset_loop I k (i1, u\<lparr>of_remaining := of_remaining u - int64_len batch\<rparr>) r1
          else if 0 < sint (of_remaining u)
          then (Inr (drop (nat (sint (of_remaining u))) batch), (i1, u\<lparr>of_remaining := 0\<rparr>), r1)
          else (Inr batch, (i1, u), r1))"

definition offset_operator :: "cancel \<Rightarrow> u64 \<Rightarrow> nat \<Rightarrow> 'i operator \<Rightarrow> 'i unary operator" where
  "offset_operator cn offset k I =
     \<lparr>op_Open = offset_Open I cn offset,
      op_Next = (\<lambda>s r. (case unary_ready I cn ''offset query rows'' s r of
                          (Some e, s1, r1) \<Rightarrow> (Inl e, s1, r1)
                        | (None, s1, r1) \<Rightarrow> offset_loop I k s1 r1)),
      op_Close = unary_close I\<rparr>"

definition limit_Open ::
    "'i operator \<Rightarrow> cancel \<Rightarrow> u64 \<Rightarrow> 'i unary \<Rightarrow> run \<Rightarrow> exec_error option \<times> 'i unary \<times> run" where
  "limit_Open I cn limit = (\<lambda>(i, u) r.
     if sint limit < 0 then (Some (executionInvalid ''open limit'' ''limit must be non-negative''), (i, u), r)
     else unary_open I cn ''open limit'' (i, u\<lparr>of_remaining := limit\<rparr>) r)"

definition limit_Next :: "'i operator \<Rightarrow> cancel \<Rightarrow> u64 \<Rightarrow> 'i unary \<Rightarrow> run \<Rightarrow> 'i unary next_result" where
  "limit_Next I cn limit s r =
     (case unary_ready I cn ''limit query rows'' s r of
        (Some e, s1, r1) \<Rightarrow> (Inl e, s1, r1)
      | (None, (i, u), r1) \<Rightarrow>
          if 0 < sint limit \<and> of_remaining u = 0 then unary_fail I EOF (i, u) r1
          else
            (case op_Next I i r1 of
               (Inl EOF, i1, r2) \<Rightarrow> (Inl EOF, (i1, u), r2)
             | (Inl e, i1, r2) \<Rightarrow> unary_fail I e (i1, u) r2
             | (Inr batch, i1, r2) \<Rightarrow>
                 if limit = 0 then (Inr batch, (i1, u), r2)
                 else
                   let rows = (if sint (of_remaining u) < sint (int64_len batch)
                               then take (nat (sint (of_remaining u))) batch else batch);
                       u1 = u\<lparr>of_remaining := of_remaining u - int64_len rows\<rparr>
                   in if of_remaining u1 = 0
                      then (case unary_close I (i1, u1) r2 of (_, s3, r3) \<Rightarrow> (Inr rows, s3, r3))
                      else (Inr rows, (i1, u1), r2)))"

definition limit_operator :: "cancel \<Rightarrow> u64 \<Rightarrow> 'i operator \<Rightarrow> 'i unary operator" where
  "limit_operator cn limit I =
     \<lparr>op_Open = limit_Open I cn limit, op_Next = limit_Next I cn limit, op_Close = unary_close I\<rparr>"

section \<open>Distinct\<close>

definition distinct_Open ::
    "'i operator \<Rightarrow> cancel \<Rightarrow> 'i unary \<Rightarrow> run \<Rightarrow> exec_error option \<times> 'i unary \<times> run" where
  "distinct_Open I cn = (\<lambda>(i, u) r. unary_open I cn ''open distinct'' (i, u\<lparr>of_seen := []\<rparr>) r)"

definition distinct_Close :: "'i operator \<Rightarrow> 'i unary \<Rightarrow> run \<Rightarrow> exec_error option \<times> 'i unary \<times> run" where
  "distinct_Close I = (\<lambda>(i, u) r.
     unary_close I (i, u\<lparr>of_seen := []\<rparr>) (foldl (\<lambda>r1 (key, bytes). release bytes r1) r (of_seen u)))"

text \<open>The rows of a batch that are new, with the keys seen so far; the keys stay when an error stops the loop.\<close>

fun distinct_rows ::
    "cancel \<Rightarrow> exec_env \<Rightarrow> BindingRow list \<Rightarrow> (string \<times> u64) list \<Rightarrow> run
       \<Rightarrow> (exec_error + BindingRow list) \<times> (string \<times> u64) list \<times> run" where
  "distinct_rows cn xe [] seen r = (Inr [], seen, r)"
| "distinct_rows cn xe (row # rows) seen r =
     (case canceled cn ''deduplicate query rows'' r of
        (Some e, r1) \<Rightarrow> (Inl e, seen, r1)
      | (None, r1) \<Rightarrow>
          (let key = canonicalRow xe (br_Projected row) in
           if map_of seen key \<noteq> None then distinct_rows cn xe rows seen r1
           else
             let bytes = int64_len key + 32 in
             (case track (ReserveMemory bytes) r1 of
                (Some e, r2) \<Rightarrow> (Inl e, seen, r2)
              | (None, r2) \<Rightarrow>
                  (case distinct_rows cn xe rows ((key, bytes) # seen) r2 of
                     (Inl e, seen2, r3) \<Rightarrow> (Inl e, seen2, r3)
                   | (Inr out, seen2, r3) \<Rightarrow> (Inr (row # out), seen2, r3)))))"

definition distinct_fail :: "'i operator \<Rightarrow> next_error \<Rightarrow> 'i unary \<Rightarrow> run \<Rightarrow> 'i unary next_result" where
  "distinct_fail I e s r = (case distinct_Close I s r of (_, s1, r1) \<Rightarrow> (Inl e, s1, r1))"

fun distinct_loop ::
    "'i operator \<Rightarrow> cancel \<Rightarrow> exec_env \<Rightarrow> nat \<Rightarrow> 'i unary \<Rightarrow> run \<Rightarrow> 'i unary next_result" where
  "distinct_loop I cn xe 0 s r = (Inl Diverge, s, r)"
| "distinct_loop I cn xe (Suc k) (i, u) r =
     (case op_Next I i r of
        (Inl EOF, i1, r1) \<Rightarrow> (Inl EOF, (i1, u), r1)
      | (Inl e, i1, r1) \<Rightarrow> distinct_fail I e (i1, u) r1
      | (Inr batch, i1, r1) \<Rightarrow>
          (case distinct_rows cn xe batch (of_seen u) r1 of
             (Inl e, seen, r2) \<Rightarrow> distinct_fail I (Fail e) (i1, u\<lparr>of_seen := seen\<rparr>) r2
           | (Inr rows, seen, r2) \<Rightarrow>
               if rows = [] then distinct_loop I cn xe k (i1, u\<lparr>of_seen := seen\<rparr>) r2
               else (Inr rows, (i1, u\<lparr>of_seen := seen\<rparr>), r2)))"

definition distinct_operator :: "cancel \<Rightarrow> exec_env \<Rightarrow> nat \<Rightarrow> 'i operator \<Rightarrow> 'i unary operator" where
  "distinct_operator cn xe k I =
     \<lparr>op_Open = distinct_Open I cn,
      op_Next = (\<lambda>s r. (case unary_ready I cn ''deduplicate query rows'' s r of
                          (Some e, s1, r1) \<Rightarrow> (Inl e, s1, r1)
                        | (None, s1, r1) \<Rightarrow> distinct_loop I cn xe k s1 r1)),
      op_Close = distinct_Close I\<rparr>"

end
