(* ===== verification/Query_Blocking.thy ===== *)
theory Query_Blocking
  imports Query_Stream
begin

text \<open>
  The operators of a query that read their whole input first (\<open>internal/query/execution/operators_blocking.go\<close>):
  sort, Top-N with the heap of \<open>container/heap\<close>, and aggregation. They keep rows in memory and charge the tracker
  for them; what is charged is in \<open>of_retained\<close> until \<open>Close\<close> releases it.
\<close>

section \<open>Materialised rows\<close>

definition close_rows :: "'i operator \<Rightarrow> 'i unary \<Rightarrow> run \<Rightarrow> exec_error option \<times> 'i unary \<times> run" where
  "close_rows I = (\<lambda>(i, u) r.
     unary_close I (i, u\<lparr>of_retained := 0, of_rows := [], of_offset := 0, of_materialized := False\<rparr>)
       (release (of_retained u) r))"

definition blocking_Open ::
    "'i operator \<Rightarrow> cancel \<Rightarrow> string \<Rightarrow> 'i unary \<Rightarrow> run \<Rightarrow> exec_error option \<times> 'i unary \<times> run" where
  "blocking_Open I cn operation = (\<lambda>(i, u) r.
     unary_open I cn operation
       (i, u\<lparr>of_rows := [], of_offset := 0, of_retained := 0, of_materialized := False\<rparr>) r)"

definition nextBatch :: "'i operator \<Rightarrow> cancel \<Rightarrow> string \<Rightarrow> 'i unary \<Rightarrow> run \<Rightarrow> 'i unary next_result" where
  "nextBatch I cn operation s r =
     (case unary_ready I cn operation s r of
        (Some e, s1, r1) \<Rightarrow> (Inl e, s1, r1)
      | (None, (i, u), r1) \<Rightarrow>
          if length (of_rows u) \<le> of_offset u then (Inl EOF, (i, u), r1)
          else
            let stop = min (of_offset u + nat (sint (BatchSize (tk_limits (rn_tracker r1))))) (length (of_rows u))
            in (Inr (bslice (of_offset u) stop (of_rows u)), (i, u\<lparr>of_offset := stop\<rparr>), r1))"

text \<open>A charge that is remembered, \<open>reserveRow\<close> and its likes.\<close>

definition reserve :: "u64 \<Rightarrow> op_fields \<Rightarrow> run \<Rightarrow> exec_error option \<times> op_fields \<times> run" where
  "reserve bytes u r =
     (case track (ReserveMemory bytes) r of
        (Some e, r1) \<Rightarrow> (Some e, u, r1)
      | (None, r1) \<Rightarrow> (None, u\<lparr>of_retained := of_retained u + bytes\<rparr>, r1))"

text \<open>
  \<open>Next\<close> of every blocking operator: load the input once, closing if that fails, then hand out batches. A
  load is given as a function that returns an error or nothing.
\<close>

type_synonym 'i load = "'i unary \<Rightarrow> run \<Rightarrow> next_error option \<times> 'i unary \<times> run"

definition blocking_Next ::
    "'i operator \<Rightarrow> cancel \<Rightarrow> string \<Rightarrow> 'i load \<Rightarrow> 'i unary \<Rightarrow> run \<Rightarrow> 'i unary next_result" where
  "blocking_Next I cn operation load = (\<lambda>(i, u) r.
     (if of_materialized u then nextBatch I cn operation (i, u) r
      else (case load (i, u) r of
              (Some e, s1, r1) \<Rightarrow> (case close_rows I s1 r1 of (_, s2, r2) \<Rightarrow> (Inl e, s2, r2))
            | (None, s1, r1) \<Rightarrow> nextBatch I cn operation s1 r1)))"

section \<open>Sort\<close>

fun sort_take :: "cancel \<Rightarrow> exec_env \<Rightarrow> BindingRow list \<Rightarrow> op_fields \<Rightarrow> run \<Rightarrow> exec_error option \<times> op_fields \<times> run" where
  "sort_take cn xe [] u r = (None, u, r)"
| "sort_take cn xe (row # rows) u r =
     (case canceled cn ''sort query rows'' r of
        (Some e, r1) \<Rightarrow> (Some e, u, r1)
      | (None, r1) \<Rightarrow>
          (case reserve (estimateBindingRow xe row) u r1 of
             (Some e, u1, r2) \<Rightarrow> (Some e, u1, r2)
           | (None, u1, r2) \<Rightarrow> sort_take cn xe rows (u1\<lparr>of_rows := of_rows u1 @ [row]\<rparr>) r2))"

fun sort_loop :: "'i operator \<Rightarrow> cancel \<Rightarrow> exec_env \<Rightarrow> nat \<Rightarrow> 'i load" where
  "sort_loop I cn xe 0 s r = (Some Diverge, s, r)"
| "sort_loop I cn xe (Suc k) (i, u) r =
     (case op_Next I i r of
        (Inl EOF, i1, r1) \<Rightarrow> (None, (i1, u), r1)
      | (Inl e, i1, r1) \<Rightarrow> (Some e, (i1, u), r1)
      | (Inr batch, i1, r1) \<Rightarrow>
          (case sort_take cn xe batch u r1 of
             (Some e, u1, r2) \<Rightarrow> (Some (Fail e), (i1, u1), r2)
           | (None, u1, r2) \<Rightarrow> sort_loop I cn xe k (i1, u1) r2))"

definition sort_load :: "'i operator \<Rightarrow> cancel \<Rightarrow> exec_env \<Rightarrow> evaluator \<Rightarrow> Order list \<Rightarrow> nat \<Rightarrow> 'i load" where
  "sort_load I cn xe ev ods k s r =
     (case unary_ready I cn ''sort query rows'' s r of
        (Some e, s1, r1) \<Rightarrow> (Some e, s1, r1)
      | (None, s1, r1) \<Rightarrow>
          (case sort_loop I cn xe k s1 r1 of
             (Some e, s2, r2) \<Rightarrow> (Some e, s2, r2)
           | (None, (i, u), r2) \<Rightarrow>
               (case track (ProduceIntermediate (int64_len (of_rows u))) r2 of
                  (Some e, r3) \<Rightarrow> (Some (Fail e), (i, u), r3)
                | (None, r3) \<Rightarrow>
                    (case sortRows xe ev ods (of_rows u) of
                       (rows, Some e) \<Rightarrow> (Some (Fail e), (i, u\<lparr>of_rows := rows\<rparr>), r3)
                     | (rows, None) \<Rightarrow> (None, (i, u\<lparr>of_rows := rows, of_materialized := True\<rparr>), r3)))))"

definition sort_operator ::
    "cancel \<Rightarrow> exec_env \<Rightarrow> evaluator \<Rightarrow> Order list \<Rightarrow> nat \<Rightarrow> 'i operator \<Rightarrow> 'i unary operator" where
  "sort_operator cn xe ev ods k I =
     \<lparr>op_Open = blocking_Open I cn ''open sort'',
      op_Next = blocking_Next I cn ''read sorted rows'' (sort_load I cn xe ev ods k),
      op_Close = close_rows I\<rparr>"

section \<open>The heap\<close>

text \<open>
  \<open>container/heap\<close> over a slice; \<open>lt a b\<close> is \<open>Less\<close> of the elements. \<open>up\<close> and \<open>down\<close> swap elements along a path.
\<close>

definition swap_at :: "nat \<Rightarrow> nat \<Rightarrow> 'a list \<Rightarrow> 'a list" where
  "swap_at i j h = h[i := h ! j, j := h ! i]"

function heap_up :: "('a \<Rightarrow> 'a \<Rightarrow> bool) \<Rightarrow> 'a list \<Rightarrow> nat \<Rightarrow> 'a list" where
  "heap_up lt h j =
     (let i = (j - 1) div 2 in
      if i = j \<or> \<not> lt (h ! j) (h ! i) then h else heap_up lt (swap_at i j h) i)"
  by pat_completeness auto
termination by (relation "measure (\<lambda>(lt, h, j). j)") (auto simp: Let_def)

declare heap_up.simps [simp del]

function heap_down :: "('a \<Rightarrow> 'a \<Rightarrow> bool) \<Rightarrow> 'a list \<Rightarrow> nat \<Rightarrow> nat \<Rightarrow> 'a list" where
  "heap_down lt h i n =
     (let j1 = 2 * i + 1; j2 = j1 + 1; j = (if j2 < n \<and> lt (h ! j2) (h ! j1) then j2 else j1) in
      if n \<le> j1 then h
      else if \<not> lt (h ! j) (h ! i) then h
      else heap_down lt (swap_at i j h) j n)"
  by pat_completeness auto
termination by (relation "measure (\<lambda>(lt, h, i, n). n - i)") (auto simp: Let_def split: if_splits)

declare heap_down.simps [simp del]

definition heap_Push :: "('a \<Rightarrow> 'a \<Rightarrow> bool) \<Rightarrow> 'a \<Rightarrow> 'a list \<Rightarrow> 'a list" where
  "heap_Push lt x h = heap_up lt (h @ [x]) (length h)"

definition heap_Pop :: "('a \<Rightarrow> 'a \<Rightarrow> bool) \<Rightarrow> 'a list \<Rightarrow> 'a \<times> 'a list" where
  "heap_Pop lt h =
     (let n = length h - 1; h1 = heap_down lt (swap_at 0 n h) 0 n in (last h1, butlast h1))"

section \<open>Top-N\<close>

record rankedRow =
  rk_row :: BindingRow
  rk_values :: "qvalue list"
  rk_retained :: u64

definition compareRanked :: "exec_env \<Rightarrow> Order list \<Rightarrow> rankedRow \<Rightarrow> rankedRow \<Rightarrow> int" where
  "compareRanked xe ods l r =
     compareOrderValues xe (rk_values l) (br_Sequence (rk_row l)) (rk_values r) (br_Sequence (rk_row r)) ods"

text \<open>The worst row is the root: \<open>Less\<close> of the heap is the reverse of the order.\<close>

definition topn_less :: "exec_env \<Rightarrow> Order list \<Rightarrow> rankedRow \<Rightarrow> rankedRow \<Rightarrow> bool" where
  "topn_less xe ods a b \<longleftrightarrow> 0 < compareRanked xe ods a b"

fun topn_take ::
    "cancel \<Rightarrow> exec_env \<Rightarrow> evaluator \<Rightarrow> Order list \<Rightarrow> int \<Rightarrow> BindingRow list \<Rightarrow> rankedRow list \<Rightarrow> op_fields \<Rightarrow> run
       \<Rightarrow> exec_error option \<times> rankedRow list \<times> op_fields \<times> run" where
  "topn_take cn xe ev ods n [] h u r = (None, h, u, r)"
| "topn_take cn xe ev ods n (row # rows) h u r =
     (case canceled cn ''select Top-N rows'' r of
        (Some e, r1) \<Rightarrow> (Some e, h, u, r1)
      | (None, r1) \<Rightarrow>
          (case rowOrderValues xe ev row ods of
             Inl e \<Rightarrow> (Some e, h, u, r1)
           | Inr values \<Rightarrow>
               (let bytes = estimateBindingRow xe row + estimateValues xe values;
                    candidate = \<lparr>rk_row = row, rk_values = values, rk_retained = bytes\<rparr> in
                if int (length h) < n then
                  (case reserve bytes u r1 of
                     (Some e, u1, r2) \<Rightarrow> (Some e, h, u1, r2)
                   | (None, u1, r2) \<Rightarrow>
                       topn_take cn xe ev ods n rows (heap_Push (topn_less xe ods) candidate h) u1 r2)
                else if 0 \<le> compareRanked xe ods candidate (h ! 0)
                then topn_take cn xe ev ods n rows h u r1
                else
                  (let (dropped, h1) = heap_Pop (topn_less xe ods) h;
                       u1 = u\<lparr>of_retained := of_retained u - rk_retained dropped\<rparr> in
                   (case reserve bytes u1 (release (rk_retained dropped) r1) of
                      (Some e, u2, r2) \<Rightarrow> (Some e, h1, u2, r2)
                    | (None, u2, r2) \<Rightarrow>
                        topn_take cn xe ev ods n rows (heap_Push (topn_less xe ods) candidate h1) u2 r2)))))"

fun topn_loop ::
    "'i operator \<Rightarrow> cancel \<Rightarrow> exec_env \<Rightarrow> evaluator \<Rightarrow> Order list \<Rightarrow> int \<Rightarrow> nat \<Rightarrow> rankedRow list \<Rightarrow> 'i unary \<Rightarrow> run
       \<Rightarrow> next_error option \<times> rankedRow list \<times> 'i unary \<times> run" where
  "topn_loop I cn xe ev ods n 0 h s r = (Some Diverge, h, s, r)"
| "topn_loop I cn xe ev ods n (Suc k) h (i, u) r =
     (case op_Next I i r of
        (Inl EOF, i1, r1) \<Rightarrow> (None, h, (i1, u), r1)
      | (Inl e, i1, r1) \<Rightarrow> (Some e, h, (i1, u), r1)
      | (Inr batch, i1, r1) \<Rightarrow>
          (case topn_take cn xe ev ods n batch h u r1 of
             (Some e, h1, u1, r2) \<Rightarrow> (Some (Fail e), h1, (i1, u1), r2)
           | (None, h1, u1, r2) \<Rightarrow> topn_loop I cn xe ev ods n k h1 (i1, u1) r2))"

fun heap_drain :: "('a \<Rightarrow> 'a \<Rightarrow> bool) \<Rightarrow> nat \<Rightarrow> 'a list \<Rightarrow> 'a list" where
  "heap_drain lt 0 h = []"
| "heap_drain lt (Suc k) h =
     (if h = [] then [] else (let (x, h1) = heap_Pop lt h in x # heap_drain lt k h1))"

definition topn_load :: "'i operator \<Rightarrow> cancel \<Rightarrow> exec_env \<Rightarrow> evaluator \<Rightarrow> Order list \<Rightarrow> int \<Rightarrow> nat \<Rightarrow> 'i load" where
  "topn_load I cn xe ev ods n k s r =
     (case unary_ready I cn ''select Top-N rows'' s r of
        (Some e, s1, r1) \<Rightarrow> (Some e, s1, r1)
      | (None, s1, r1) \<Rightarrow>
          (case topn_loop I cn xe ev ods n k [] s1 r1 of
             (Some e, h, s2, r2) \<Rightarrow> (Some e, s2, r2)
           | (None, h, (i, u), r2) \<Rightarrow>
               (case sortRows xe ev ods (map rk_row (heap_drain (topn_less xe ods) (length h) h)) of
                  (rows, Some e) \<Rightarrow> (Some (Fail e), (i, u\<lparr>of_rows := rows\<rparr>), r2)
                | (rows, None) \<Rightarrow>
                    (case track (ProduceIntermediate (int64_len rows)) r2 of
                       (Some e, r3) \<Rightarrow> (Some (Fail e), (i, u\<lparr>of_rows := rows\<rparr>), r3)
                     | (None, r3) \<Rightarrow> (None, (i, u\<lparr>of_rows := rows, of_materialized := True\<rparr>), r3)))))"

definition topn_Open ::
    "'i operator \<Rightarrow> cancel \<Rightarrow> int \<Rightarrow> 'i unary \<Rightarrow> run \<Rightarrow> exec_error option \<times> 'i unary \<times> run" where
  "topn_Open I cn n s r =
     (if n \<le> 0 then (Some (executionInvalid ''open Top-N'' ''Top-N row count must be positive''), s, r)
      else blocking_Open I cn ''open Top-N'' s r)"

definition topn_operator ::
    "cancel \<Rightarrow> exec_env \<Rightarrow> evaluator \<Rightarrow> Order list \<Rightarrow> int \<Rightarrow> nat \<Rightarrow> 'i operator \<Rightarrow> 'i unary operator" where
  "topn_operator cn xe ev ods n k I =
     \<lparr>op_Open = topn_Open I cn n,
      op_Next = blocking_Next I cn ''read Top-N rows'' (topn_load I cn xe ev ods n k),
      op_Close = close_rows I\<rparr>"

section \<open>Aggregation\<close>

datatype AggregateFunction =
    AggregateCount | AggregateSum | AggregateAvg | AggregateMin | AggregateMax | AggregateOther string

record Aggregate =
  ag_Function :: AggregateFunction
  ag_Star :: bool
  ag_Argument :: "qvalue option"
  ag_OutputName :: string

definition function_name :: "AggregateFunction \<Rightarrow> string" where
  "function_name f =
     (case f of
        AggregateCount \<Rightarrow> ''count'' | AggregateSum \<Rightarrow> ''sum'' | AggregateAvg \<Rightarrow> ''avg''
      | AggregateMin \<Rightarrow> ''min'' | AggregateMax \<Rightarrow> ''max'' | AggregateOther s \<Rightarrow> s)"

definition aggregateOutputName :: "Aggregate \<Rightarrow> string" where
  "aggregateOutputName a = (if ag_OutputName a \<noteq> [] then ag_OutputName a else function_name (ag_Function a))"

record aggregateState =
  as_count :: u64
  as_sum :: u64
  as_value :: qvalue
  as_has :: bool

text \<open>The zero \<open>Value\<close> has no kind.\<close>

definition no_aggregate :: aggregateState where
  "no_aggregate = \<lparr>as_count = 0, as_sum = 0, as_value = QUnknown [], as_has = False\<rparr>"

definition counts_binding :: "Aggregate \<Rightarrow> string option" where
  "counts_binding a =
     (case (ag_Function a, ag_Argument a) of (AggregateCount, Some (QBinding b)) \<Rightarrow> Some b | _ \<Rightarrow> None)"

definition accumulate_one ::
    "exec_env \<Rightarrow> evaluator \<Rightarrow> BindingRow \<Rightarrow> Aggregate \<Rightarrow> aggregateState \<Rightarrow> exec_error + aggregateState" where
  "accumulate_one xe ev row a st =
     (if ag_Star a then Inr (st\<lparr>as_count := as_count st + 1\<rparr>)
      else (case counts_binding a of
        Some b \<Rightarrow>
          Inr (if map_of (br_Nodes row) b \<noteq> None \<or> map_of (br_Edges row) b \<noteq> None \<or> map_of (br_Paths row) b \<noteq> None
               then st\<lparr>as_count := as_count st + 1\<rparr> else st)
      | None \<Rightarrow>
          (case eval_value xe ev row (dereferenceValue (ag_Argument a)) of
             Inl e \<Rightarrow> Inl e
           | Inr v \<Rightarrow>
               if v = QNull then Inr st
               else (case ag_Function a of
                       AggregateCount \<Rightarrow> Inr (st\<lparr>as_count := as_count st + 1\<rparr>)
                     | AggregateMin \<Rightarrow>
                         Inr (if \<not> as_has st \<or> eval_compare xe v (as_value st) < 0
                              then st\<lparr>as_value := v, as_has := True\<rparr> else st)
                     | AggregateMax \<Rightarrow>
                         Inr (if \<not> as_has st \<or> eval_compare xe v (as_value st) > 0
                              then st\<lparr>as_value := v, as_has := True\<rparr> else st)
                     | AggregateOther f \<Rightarrow>
                         Inl (executionInvalid ''aggregate query rows'' (''unsupported aggregate function '' @ f))
                     | f \<Rightarrow>
                         (case finiteNumber v of
                            None \<Rightarrow>
                              Inl (executionInvalid ''aggregate query rows''
                                     (function_name f @ '' aggregate requires numeric values''))
                          | Some x \<Rightarrow>
                              Inr (st\<lparr>as_sum := float_add (as_sum st) x, as_count := as_count st + 1\<rparr>))))))"

text \<open>There is one state for each aggregate.\<close>

fun accumulate ::
    "exec_env \<Rightarrow> evaluator \<Rightarrow> BindingRow \<Rightarrow> Aggregate list \<Rightarrow> aggregateState list \<Rightarrow> exec_error + aggregateState list" where
  "accumulate xe ev row (a # as) (st # sts) =
     (case accumulate_one xe ev row a st of
        Inl e \<Rightarrow> Inl e
      | Inr st1 \<Rightarrow>
          (case accumulate xe ev row as sts of Inl e \<Rightarrow> Inl e | Inr sts1 \<Rightarrow> Inr (st1 # sts1)))"
| "accumulate xe ev row _ sts = Inr sts"

definition finishAggregate :: "Aggregate \<Rightarrow> aggregateState \<Rightarrow> qvalue" where
  "finishAggregate a st =
     (case ag_Function a of
        AggregateCount \<Rightarrow> signedNativeValue (as_count st)
      | AggregateSum \<Rightarrow> QNumber (as_sum st)
      | AggregateAvg \<Rightarrow>
          if as_count st = 0 then QNull
          else QNumber (float_div_pos (as_sum st) (float_of_rat (of_int (sint (as_count st)))))
      | AggregateOther f \<Rightarrow> QNull
      | _ \<Rightarrow> if as_has st then as_value st else QNull)"

record aggregateGroup =
  gr_row :: BindingRow
  gr_projected :: qrow
  gr_states :: "aggregateState list"

text \<open>The groups by key, in the order in which they came up.\<close>

type_synonym groups = "(string \<times> aggregateGroup) list"

definition empty_row :: BindingRow where
  "empty_row =
     \<lparr>br_Nodes = [], br_Edges = [], br_Paths = [], br_Trees = [], br_GraphNodes = [], br_GraphEdges = [],
      br_Projected = [], br_Cursor = [], br_Sequence = 0\<rparr>"

fun aggregate_take ::
    "cancel \<Rightarrow> exec_env \<Rightarrow> evaluator \<Rightarrow> Projection list \<Rightarrow> Aggregate list \<Rightarrow> BindingRow list \<Rightarrow> groups \<Rightarrow> op_fields \<Rightarrow> run
       \<Rightarrow> exec_error option \<times> groups \<times> op_fields \<times> run" where
  "aggregate_take cn xe ev ps as [] gs u r = (None, gs, u, r)"
| "aggregate_take cn xe ev ps as (row # rows) gs u r =
     (case canceled cn ''aggregate query rows'' r of
        (Some e, r1) \<Rightarrow> (Some e, gs, u, r1)
      | (None, r1) \<Rightarrow>
          (case projectRow xe ev row ps of
             Inl e \<Rightarrow> (Some e, gs, u, r1)
           | Inr projected \<Rightarrow>
               (let key = canonicalRow xe projected;
                    bytes = estimateBindingRow xe row + estimateProjectedRow xe projected + int64_len key
                              + 64 * int64_len as in
                (case (case map_of gs key of
                         Some g \<Rightarrow> (None, gs, u, r1)
                       | None \<Rightarrow>
                           (case reserve bytes u r1 of
                              (Some e, u1, r2) \<Rightarrow> (Some e, gs, u1, r2)
                            | (None, u1, r2) \<Rightarrow>
                                (None, gs @ [(key, \<lparr>gr_row = row, gr_projected = projected,
                                                    gr_states = replicate (length as) no_aggregate\<rparr>)], u1, r2))) of
                   (Some e, gs1, u1, r2) \<Rightarrow> (Some e, gs1, u1, r2)
                 | (None, gs1, u1, r2) \<Rightarrow>
                     (let g = the (map_of gs1 key) in
                      (case accumulate xe ev row as (gr_states g) of
                         Inl e \<Rightarrow> (Some e, gs1, u1, r2)
                       | Inr sts \<Rightarrow>
                           aggregate_take cn xe ev ps as rows (AList.update key (g\<lparr>gr_states := sts\<rparr>) gs1) u1 r2))))))"

fun aggregate_loop ::
    "'i operator \<Rightarrow> cancel \<Rightarrow> exec_env \<Rightarrow> evaluator \<Rightarrow> Projection list \<Rightarrow> Aggregate list \<Rightarrow> nat \<Rightarrow> groups \<Rightarrow> 'i unary \<Rightarrow> run
       \<Rightarrow> next_error option \<times> groups \<times> 'i unary \<times> run" where
  "aggregate_loop I cn xe ev ps as 0 gs s r = (Some Diverge, gs, s, r)"
| "aggregate_loop I cn xe ev ps as (Suc k) gs (i, u) r =
     (case op_Next I i r of
        (Inl EOF, i1, r1) \<Rightarrow> (None, gs, (i1, u), r1)
      | (Inl e, i1, r1) \<Rightarrow> (Some e, gs, (i1, u), r1)
      | (Inr batch, i1, r1) \<Rightarrow>
          (case aggregate_take cn xe ev ps as batch gs u r1 of
             (Some e, gs1, u1, r2) \<Rightarrow> (Some (Fail e), gs1, (i1, u1), r2)
           | (None, gs1, u1, r2) \<Rightarrow> aggregate_loop I cn xe ev ps as k gs1 (i1, u1) r2))"

fun finish_fields :: "Aggregate list \<Rightarrow> aggregateState list \<Rightarrow> qrow \<Rightarrow> qrow" where
  "finish_fields (a # as) (st # sts) fs =
     finish_fields as sts (AList.update (aggregateOutputName a) (scalarCell (finishAggregate a st)) fs)"
| "finish_fields _ _ fs = fs"

definition group_row :: "Aggregate list \<Rightarrow> aggregateGroup \<Rightarrow> BindingRow" where
  "group_row as g = (gr_row g)\<lparr>br_Projected := finish_fields as (gr_states g) (gr_projected g)\<rparr>"

text \<open>Without groups and without projections there is one row all the same.\<close>

definition aggregate_load ::
    "'i operator \<Rightarrow> cancel \<Rightarrow> exec_env \<Rightarrow> evaluator \<Rightarrow> Projection list \<Rightarrow> Aggregate list \<Rightarrow> nat \<Rightarrow> 'i load" where
  "aggregate_load I cn xe ev ps as k s r =
     (case unary_ready I cn ''aggregate query rows'' s r of
        (Some e, s1, r1) \<Rightarrow> (Some e, s1, r1)
      | (None, s1, r1) \<Rightarrow>
          (case aggregate_loop I cn xe ev ps as k [] s1 r1 of
             (Some e, gs, s2, r2) \<Rightarrow> (Some e, s2, r2)
           | (None, gs, (i, u), r2) \<Rightarrow>
               (case (if gs = [] \<and> ps = []
                      then (case reserve (64 * int64_len as + 64) u r2 of
                              (Some e, u1, r3) \<Rightarrow> (Some e, gs, u1, r3)
                            | (None, u1, r3) \<Rightarrow>
                                (None, [(''{}'', \<lparr>gr_row = empty_row, gr_projected = [],
                                                  gr_states = replicate (length as) no_aggregate\<rparr>)], u1, r3))
                      else (None, gs, u, r2)) of
                  (Some e, gs1, u1, r3) \<Rightarrow> (Some (Fail e), (i, u1), r3)
                | (None, gs1, u1, r3) \<Rightarrow>
                    (let rows = map (\<lambda>(key, g). group_row as g) (sort_key fst gs1) in
                     (case track (ProduceIntermediate (int64_len rows)) r3 of
                        (Some e, r4) \<Rightarrow> (Some (Fail e), (i, u1\<lparr>of_rows := rows\<rparr>), r4)
                      | (None, r4) \<Rightarrow> (None, (i, u1\<lparr>of_rows := rows, of_materialized := True\<rparr>), r4))))))"

definition aggregate_operator ::
    "cancel \<Rightarrow> exec_env \<Rightarrow> evaluator \<Rightarrow> Projection list \<Rightarrow> Aggregate list \<Rightarrow> nat \<Rightarrow> 'i operator \<Rightarrow> 'i unary operator" where
  "aggregate_operator cn xe ev ps as k I =
     \<lparr>op_Open = blocking_Open I cn ''open aggregation'',
      op_Next = blocking_Next I cn ''read aggregate rows'' (aggregate_load I cn xe ev ps as k),
      op_Close = close_rows I\<rparr>"

end
