(* ===== verification/Query_Pipeline.thy ===== *)
theory Query_Pipeline
  imports Query_Blocking
begin

text \<open>
  Running a query over a source of rows (\<open>internal/query/execution/execute.go\<close>, with the parts of
  \<open>internal/query/logical/model.go\<close> it reads). The operators a query needs are stacked on the source: an
  \<open>op_plan\<close> says which, \<open>operator_of\<close> is the operator it stands for. The source is any operator.
\<close>

section \<open>Stacks of operators\<close>

datatype op_plan =
    PSource
  | PFilter evaluator Predicate op_plan
  | PProjection evaluator "Projection list" op_plan
  | POffset u64 op_plan
  | PLimit u64 op_plan
  | PDistinct op_plan
  | PSort evaluator "Order list" op_plan
  | PTopN evaluator "Order list" int op_plan
  | PAggregate evaluator "Projection list" "Aggregate list" op_plan

datatype 's op_state = StSource 's | StUnary "'s op_state" op_fields

text \<open>
  The state of an operator of a plan has the plan's shape: the constructors change only the type of
  the state, and the other case of each does not come up.
\<close>

definition on_source :: "'s operator \<Rightarrow> 's op_state operator" where
  "on_source S =
     \<lparr>op_Open = (\<lambda>s r. (case s of
          StSource x \<Rightarrow> (case op_Open S x r of (e, x1, r1) \<Rightarrow> (e, StSource x1, r1)) | _ \<Rightarrow> (None, s, r))),
      op_Next = (\<lambda>s r. (case s of
          StSource x \<Rightarrow> (case op_Next S x r of (e, x1, r1) \<Rightarrow> (e, StSource x1, r1)) | _ \<Rightarrow> (Inl EOF, s, r))),
      op_Close = (\<lambda>s r. (case s of
          StSource x \<Rightarrow> (case op_Close S x r of (e, x1, r1) \<Rightarrow> (e, StSource x1, r1)) | _ \<Rightarrow> (None, s, r)))\<rparr>"

definition on_unary :: "'s op_state unary operator \<Rightarrow> 's op_state operator" where
  "on_unary U =
     \<lparr>op_Open = (\<lambda>s r. (case s of
          StUnary i u \<Rightarrow> (case op_Open U (i, u) r of (e, (i1, u1), r1) \<Rightarrow> (e, StUnary i1 u1, r1))
        | _ \<Rightarrow> (None, s, r))),
      op_Next = (\<lambda>s r. (case s of
          StUnary i u \<Rightarrow> (case op_Next U (i, u) r of (e, (i1, u1), r1) \<Rightarrow> (e, StUnary i1 u1, r1))
        | _ \<Rightarrow> (Inl EOF, s, r))),
      op_Close = (\<lambda>s r. (case s of
          StUnary i u \<Rightarrow> (case op_Close U (i, u) r of (e, (i1, u1), r1) \<Rightarrow> (e, StUnary i1 u1, r1))
        | _ \<Rightarrow> (None, s, r)))\<rparr>"

primrec operator_of :: "cancel \<Rightarrow> exec_env \<Rightarrow> nat \<Rightarrow> 's operator \<Rightarrow> op_plan \<Rightarrow> 's op_state operator" where
  "operator_of cn xe k S PSource = on_source S"
| "operator_of cn xe k S (PFilter ev p q) = on_unary (filter_operator cn xe ev p k (operator_of cn xe k S q))"
| "operator_of cn xe k S (PProjection ev ps q) = on_unary (projection_operator cn xe ev ps (operator_of cn xe k S q))"
| "operator_of cn xe k S (POffset n q) = on_unary (offset_operator cn n k (operator_of cn xe k S q))"
| "operator_of cn xe k S (PLimit n q) = on_unary (limit_operator cn n (operator_of cn xe k S q))"
| "operator_of cn xe k S (PDistinct q) = on_unary (distinct_operator cn xe k (operator_of cn xe k S q))"
| "operator_of cn xe k S (PSort ev ods q) = on_unary (sort_operator cn xe ev ods k (operator_of cn xe k S q))"
| "operator_of cn xe k S (PTopN ev ods n q) = on_unary (topn_operator cn xe ev ods n k (operator_of cn xe k S q))"
| "operator_of cn xe k S (PAggregate ev ps as q) =
     on_unary (aggregate_operator cn xe ev ps as k (operator_of cn xe k S q))"

text \<open>The state the constructors \<open>New...\<close> give.\<close>

primrec new_state :: "op_plan \<Rightarrow> 's \<Rightarrow> 's op_state" where
  "new_state PSource s = StSource s"
| "new_state (PFilter ev p q) s = StUnary (new_state q s) (new_fields 0)"
| "new_state (PProjection ev ps q) s = StUnary (new_state q s) (new_fields 0)"
| "new_state (POffset n q) s = StUnary (new_state q s) (new_fields n)"
| "new_state (PLimit n q) s = StUnary (new_state q s) (new_fields n)"
| "new_state (PDistinct q) s = StUnary (new_state q s) (new_fields 0)"
| "new_state (PSort ev ods q) s = StUnary (new_state q s) (new_fields 0)"
| "new_state (PTopN ev ods n q) s = StUnary (new_state q s) (new_fields 0)"
| "new_state (PAggregate ev ps as q) s = StUnary (new_state q s) (new_fields 0)"

section \<open>Queries\<close>

text \<open>\<open>pg_Size\<close> is an \<open>int32\<close>, the others are \<open>int64\<close>.\<close>

record PageSpec =
  pg_Offset :: u64
  pg_Limit :: u64
  pg_Size :: u32
  pg_Cursor :: string

record Query =
  q_Predicate :: "Predicate option"
  q_Returns :: "Projection list"
  q_Aggregates :: "Aggregate list"
  q_OrderBy :: "Order list"
  q_Distinct :: bool
  q_Page :: PageSpec

record ShapeOptions =
  so_Parameters :: "(string \<times> qvalue) list"
  so_Now :: "date option"
  so_Clock :: date

text \<open>\<open>strconv.Atoi\<close>: an optional sign and digits, within 64 bits.\<close>

definition atoi :: "string \<Rightarrow> int option" where
  "atoi s =
     (let neg = (s \<noteq> [] \<and> hd s = CHR ''-'');
          ds = (if s \<noteq> [] \<and> (hd s = CHR ''-'' \<or> hd s = CHR ''+'') then tl s else s);
          v = (if neg then - decimal ds else decimal ds) in
      if ds = [] \<or> \<not> list_all is_digit ds \<or> v < - (2 ^ 63) \<or> 2 ^ 63 \<le> v then None else Some v)"

definition maxPageSize :: int where "maxPageSize = 500"

definition paginationBounds :: "u32 \<Rightarrow> string \<Rightarrow> exec_error + int \<times> int" where
  "paginationBounds requested cursor =
     (let psize = (if sint requested \<le> 0 \<or> maxPageSize < sint requested then maxPageSize else sint requested);
          bad = executionInvalid ''paginate query results'' ''invalid page cursor'' in
      if TrimSpace cursor = [] then Inr (0, psize)
      else (case atoi cursor of
              None \<Rightarrow> Inl bad
            | Some parsed \<Rightarrow> if parsed < 0 then Inl bad else Inr (parsed, psize)))"

definition ValidatePage :: "PageSpec \<Rightarrow> exec_error option" where
  "ValidatePage page =
     (if sint (pg_Offset page) < 0 \<or> sint (pg_Limit page) < 0 \<or> sint (pg_Size page) < 0
      then Some (executionInvalid ''paginate query results'' ''pagination values must be non-negative'')
      else (case paginationBounds (pg_Size page) (pg_Cursor page) of Inl e \<Rightarrow> Some e | Inr _ \<Rightarrow> None))"

definition validate_aggregate :: "Aggregate \<Rightarrow> exec_error option" where
  "validate_aggregate a =
     (case ag_Function a of
        AggregateCount \<Rightarrow>
          if ag_Star a \<and> ag_Argument a \<noteq> None
          then Some (executionInvalid ''aggregate query rows''
                       ''count aggregate cannot contain both star and an argument'')
          else if \<not> ag_Star a \<and> ag_Argument a = None
          then Some (executionInvalid ''aggregate query rows'' ''count aggregate requires an argument'')
          else None
      | AggregateOther f \<Rightarrow>
          Some (executionInvalid ''aggregate query rows'' (''unsupported aggregate function '' @ f))
      | f \<Rightarrow>
          if ag_Star a \<or> (case ag_Argument a of None \<Rightarrow> True | Some (QBinding b) \<Rightarrow> True | _ \<Rightarrow> False)
          then Some (executionInvalid ''aggregate query rows''
                       (function_name f @ '' aggregate requires a value argument''))
          else None)"

definition validateAggregates :: "Aggregate list \<Rightarrow> exec_error option" where
  "validateAggregates as = (case find (\<lambda>a. validate_aggregate a \<noteq> None) as of
     None \<Rightarrow> None | Some a \<Rightarrow> validate_aggregate a)"

definition safeTopN :: "Query \<Rightarrow> int option" where
  "safeTopN q =
     (let offset = pg_Offset (q_Page q); limit = pg_Limit (q_Page q); n = sint (offset + limit) in
      if sint limit \<le> 0 \<or> sint offset < 0 \<or> sint (2 ^ 63 - 1 - limit) < sint offset \<or> q_Distinct q
           \<or> q_Aggregates q \<noteq> []
      then None
      else if n \<le> 0 then None else Some n)"

definition query_evaluator :: "ShapeOptions \<Rightarrow> evaluator" where
  "query_evaluator opts = newEvaluator (so_Parameters opts) (so_Now opts) (so_Clock opts)"

definition plan_filter :: "ShapeOptions \<Rightarrow> Query \<Rightarrow> op_plan \<Rightarrow> op_plan" where
  "plan_filter opts q top0 =
     (case q_Predicate q of None \<Rightarrow> top0 | Some p \<Rightarrow> PFilter (query_evaluator opts) p top0)"

definition plan_sort :: "ShapeOptions \<Rightarrow> Query \<Rightarrow> op_plan \<Rightarrow> op_plan" where
  "plan_sort opts q top0 =
     (if q_OrderBy q \<noteq> [] then PSort (query_evaluator opts) (q_OrderBy q) top0 else top0)"

text \<open>The middle of the pipeline: aggregation, DISTINCT, or order and projection.\<close>

definition plan_shape :: "ShapeOptions \<Rightarrow> Query \<Rightarrow> op_plan \<Rightarrow> op_plan" where
  "plan_shape opts q top0 =
     (let ev = query_evaluator opts in
      if q_Aggregates q \<noteq> [] then
        (let top1 = PAggregate ev (q_Returns q) (q_Aggregates q) top0
         in plan_sort opts q (if q_Distinct q then PDistinct top1 else top1))
      else if q_Distinct q then plan_sort opts q (PDistinct (PProjection ev (q_Returns q) top0))
      else PProjection ev (q_Returns q)
             (if q_OrderBy q \<noteq> [] then
                (case safeTopN q of
                   Some n \<Rightarrow> PTopN ev (q_OrderBy q) n top0
                 | None \<Rightarrow> PSort ev (q_OrderBy q) top0)
              else top0))"

definition plan_page :: "Query \<Rightarrow> op_plan \<Rightarrow> op_plan" where
  "plan_page q top0 =
     (let top1 = (if 0 < sint (pg_Offset (q_Page q)) then POffset (pg_Offset (q_Page q)) top0 else top0)
      in if 0 < sint (pg_Limit (q_Page q)) then PLimit (pg_Limit (q_Page q)) top1 else top1)"

definition buildPipeline :: "Query \<Rightarrow> ShapeOptions \<Rightarrow> exec_error + op_plan" where
  "buildPipeline q opts =
     (let top0 = plan_page q (plan_shape opts q (plan_filter opts q PSource)) in
      case paginationBounds (pg_Size (q_Page q)) (pg_Cursor (q_Page q)) of
        Inl e \<Rightarrow> Inl e
      | Inr (start, psize) \<Rightarrow>
          Inr (PLimit (word_of_int (psize + 1)) (if 0 < start then POffset (word_of_int start) top0 else top0)))"

section \<open>Running the pipeline\<close>

text \<open>The rows of one batch are charged one by one; \<open>held\<close> is the sum of the charges.\<close>

fun drain_take :: "exec_env \<Rightarrow> BindingRow list \<Rightarrow> BindingRow list \<Rightarrow> u64 \<Rightarrow> run
    \<Rightarrow> exec_error option \<times> BindingRow list \<times> u64 \<times> run" where
  "drain_take xe [] rows held r = (None, rows, held, r)"
| "drain_take xe (row # batch) rows held r =
     (let bytes = estimateBindingRow xe row in
      case track (ReserveMemory bytes) r of
        (Some e, r1) \<Rightarrow> (Some e, rows, held, r1)
      | (None, r1) \<Rightarrow> drain_take xe batch (rows @ [row]) (held + bytes) r1)"

text \<open>
  The loop of \<open>drain\<close> up to the end of the stream or an error. The fuel bounds the number of batches.
\<close>

fun drain_loop ::
    "cancel \<Rightarrow> exec_env \<Rightarrow> 's operator \<Rightarrow> bool \<Rightarrow> nat \<Rightarrow> BindingRow list \<Rightarrow> u64 \<Rightarrow> 's \<Rightarrow> run
       \<Rightarrow> next_error option \<times> BindingRow list \<times> u64 \<times> 's \<times> run" where
  "drain_loop cn xe S account 0 rows held s r = (Some Diverge, rows, held, s, r)"
| "drain_loop cn xe S account (Suc k) rows held s r =
     (case canceled cn ''execute query'' r of
        (Some e, r1) \<Rightarrow> (Some (Fail e), rows, held, s, r1)
      | (None, r1) \<Rightarrow>
          (case op_Next S s r1 of
             (Inl EOF, s1, r2) \<Rightarrow> (None, rows, held, s1, r2)
           | (Inl e, s1, r2) \<Rightarrow> (Some e, rows, held, s1, r2)
           | (Inr batch, s1, r2) \<Rightarrow>
               if batch = [] then drain_loop cn xe S account k rows held s1 r2
               else (case (if account then track (ProduceOutput (int64_len batch)) r2 else (None, r2)) of
                       (Some e, r3) \<Rightarrow> (Some (Fail e), rows, held, s1, r3)
                     | (None, r3) \<Rightarrow>
                         (case drain_take xe batch rows held r3 of
                            (Some e, rows1, held1, r4) \<Rightarrow> (Some (Fail e), rows1, held1, s1, r4)
                          | (None, rows1, held1, r4) \<Rightarrow> drain_loop cn xe S account k rows1 held1 s1 r4))))"

text \<open>The text of the error of \<open>Close\<close> that becomes a dependency failure.\<close>

definition error_text :: "exec_error \<Rightarrow> string" where
  "error_text e = (case e of QErr q \<Rightarrow> QueryError_Error q | StackOverflow \<Rightarrow> [])"

definition drain ::
    "cancel \<Rightarrow> exec_env \<Rightarrow> 's operator \<Rightarrow> bool \<Rightarrow> nat \<Rightarrow> 's \<Rightarrow> run
       \<Rightarrow> (next_error + BindingRow list \<times> u64) \<times> 's \<times> run" where
  "drain cn xe S account k s r =
     (case op_Open S s r of
        (Some e, s1, r1) \<Rightarrow> (case op_Close S s1 r1 of (_, s2, r2) \<Rightarrow> (Inl (Fail e), s2, r2))
      | (None, s1, r1) \<Rightarrow>
          (case drain_loop cn xe S account k [] 0 s1 r1 of
             (Some e, rows, held, s2, r2) \<Rightarrow>
               (case op_Close S s2 r2 of (_, s3, r3) \<Rightarrow> (Inl e, s3, release held r3))
           | (None, rows, held, s2, r2) \<Rightarrow>
               (case op_Close S s2 r2 of
                  (Some e, s3, r3) \<Rightarrow>
                    (Inl (Fail (QErr (NewError ErrorDependencyFailure ''close query operators'' (error_text e)))),
                     s3, release held r3)
                | (None, s3, r3) \<Rightarrow> (Inr (rows, held), s3, r3))))"

definition paginateRows :: "BindingRow list \<Rightarrow> u32 \<Rightarrow> string \<Rightarrow> exec_error + BindingRow list \<times> string" where
  "paginateRows rows requested cursor =
     (case paginationBounds requested cursor of
        Inl e \<Rightarrow> Inl e
      | Inr (start, psize) \<Rightarrow>
          if length rows \<le> nat psize then Inr (rows, [])
          else
            let following = br_Cursor (rows ! nat psize)
            in Inr (take (nat psize) rows,
                    if following = [] then dec_int (sint (word_of_int (start + psize) :: u64)) else following))"

section \<open>The graph of a result\<close>

text \<open>Nodes and edges once each, by identifier, in the order in which they come up.\<close>

type_synonym result_graph = "qnode list \<times> qedge list"

fun graph_addNode :: "qnode \<Rightarrow> result_graph \<Rightarrow> result_graph" where
  "graph_addNode n (ns, es) = (if qn_ID n \<in> qn_ID ` set ns then (ns, es) else (ns @ [n], es))"

fun graph_addEdge :: "qedge \<Rightarrow> result_graph \<Rightarrow> result_graph" where
  "graph_addEdge e (ns, es) = (if qed_ID e \<in> qed_ID ` set es then (ns, es) else (ns, es @ [e]))"

fun graph_addTree :: "qtree_node \<Rightarrow> result_graph \<Rightarrow> result_graph"
  and graph_addTrees :: "qtree_node list \<Rightarrow> result_graph \<Rightarrow> result_graph" where
  "graph_addTree (QTreeNode n children) g = graph_addTrees children (graph_addNode n g)"
| "graph_addTrees [] g = g"
| "graph_addTrees (t # ts) g = graph_addTrees ts (graph_addTree t g)"

definition graph_addCell :: "cell \<Rightarrow> result_graph \<Rightarrow> result_graph" where
  "graph_addCell c g =
     (case c of
        CellNode n \<Rightarrow> graph_addNode n g
      | CellEdge e \<Rightarrow> graph_addEdge e g
      | CellPath p \<Rightarrow> fold graph_addEdge (qp_Edges p) (fold graph_addNode (qp_Nodes p) g)
      | CellTree roots \<Rightarrow> graph_addTrees roots g
      | _ \<Rightarrow> g)"

definition graph_addRow :: "exec_env \<Rightarrow> BindingRow \<Rightarrow> result_graph \<Rightarrow> result_graph" where
  "graph_addRow xe row g =
     fold (\<lambda>(name, c). graph_addCell c) (sort_key fst (br_Projected row))
       (fold (\<lambda>e. graph_addEdge (neutralEdge xe e)) (br_GraphEdges row)
          (fold (\<lambda>n. graph_addNode (neutralNode xe n)) (br_GraphNodes row) g))"

definition resultGraph :: "exec_env \<Rightarrow> BindingRow list \<Rightarrow> result_graph" where
  "resultGraph xe rows = fold (graph_addRow xe) rows ([], [])"

section \<open>Results\<close>

text \<open>Of the diagnostics, the counters: they are the usage of the tracker. Timings are left out.\<close>

record Result =
  rs_Rows :: "qrow list"
  rs_Graph :: result_graph
  rs_RowsReturned :: u64
  rs_NextCursor :: string
  rs_Usage :: Usage

definition Shape ::
    "cancel \<Rightarrow> exec_env \<Rightarrow> 's operator \<Rightarrow> nat \<Rightarrow> Query \<Rightarrow> ShapeOptions \<Rightarrow> 's \<Rightarrow> run
       \<Rightarrow> (next_error + Result) \<times> 's op_state \<times> run" where
  "Shape cn xe S k q opts s r =
     (case ValidatePage (q_Page q) of
        Some e \<Rightarrow> (Inl (Fail e), StSource s, r)
      | None \<Rightarrow>
          (case validateAggregates (q_Aggregates q) of
             Some e \<Rightarrow> (Inl (Fail e), StSource s, r)
           | None \<Rightarrow>
               (case buildPipeline q opts of
                  Inl e \<Rightarrow> (case op_Close S s r of (_, s1, r1) \<Rightarrow> (Inl (Fail e), StSource s1, r1))
                | Inr plan \<Rightarrow>
                    (case drain cn xe (operator_of cn xe k S plan) True k (new_state plan s) r of
                       (Inl e, s1, r1) \<Rightarrow> (Inl e, s1, r1)
                     | (Inr (rows, held), s1, r1) \<Rightarrow>
                         (case paginateRows rows (pg_Size (q_Page q)) (pg_Cursor (q_Page q)) of
                            Inl e \<Rightarrow> (Inl (Fail e), s1, release held r1)
                          | Inr (pageRows, cursor) \<Rightarrow>
                              (let r2 = release held r1 in
                               (Inr \<lparr>rs_Rows = map br_Projected pageRows, rs_Graph = resultGraph xe pageRows,
                                     rs_RowsReturned = int64_len pageRows,
                                     rs_NextCursor = (if us_Truncated (tk_usage (rn_tracker r1)) then [] else cursor),
                                     rs_Usage = tk_usage (rn_tracker r2)\<rparr>, s1, r2)))))))"

record Matches =
  mt_Rows :: "BindingRow list"
  mt_retained :: u64
  mt_Usage :: Usage

definition Matches_Release :: "Matches \<Rightarrow> run \<Rightarrow> Matches \<times> run" where
  "Matches_Release m r =
     (if mt_retained m = 0 then (m, r) else (m\<lparr>mt_retained := 0\<rparr>, release (mt_retained m) r))"

definition CollectMatches ::
    "cancel \<Rightarrow> exec_env \<Rightarrow> 's operator \<Rightarrow> nat \<Rightarrow> Query \<Rightarrow> ShapeOptions \<Rightarrow> 's \<Rightarrow> run
       \<Rightarrow> (next_error + Matches) \<times> 's op_state \<times> run" where
  "CollectMatches cn xe S k q opts s r =
     (let plan = plan_page q (plan_filter opts q PSource) in
      case drain cn xe (operator_of cn xe k S plan) False k (new_state plan s) r of
        (Inl e, s1, r1) \<Rightarrow> (Inl e, s1, r1)
      | (Inr (rows, held), s1, r1) \<Rightarrow>
          (Inr \<lparr>mt_Rows = rows, mt_retained = held, mt_Usage = tk_usage (rn_tracker r1)\<rparr>, s1, r1))"

end
