(* ===== verification/Query_Contract.thy ===== *)
theory Query_Contract
  imports Query_Pipeline
begin

text \<open>
  What the operators of a query promise each other. The interface \<open>row_stream\<close>: whatever the
  run, the batches of an operator are pieces of one list of rows; it may fail at any point but neither
  loses, repeats nor reorders rows. Each streaming operator turns a stream of its input into a stream of
  what it does to the whole list.
\<close>

section \<open>Limits of a run\<close>

definition limits :: "run \<Rightarrow> Budget" where
  "limits r = tk_limits (rn_tracker r)"

lemma canceled_limits: "canceled cn name r = (e, r1) \<Longrightarrow> limits r1 = limits r"
  by (auto simp: canceled_def limits_def)

lemma track_limits:
  "track (charge_call k b) r = (e, r1) \<Longrightarrow> limits r1 = limits r"
  by (auto simp: track_def limits_def split: prod.splits) (metis charge_limits snd_conv)

lemmas tracked_limits = track_limits [of Memory, unfolded charge_call.simps]
  track_limits [of IntermediateRows, unfolded charge_call.simps]
  track_limits [of OutputRows, unfolded charge_call.simps]
  track_limits [of Candidates, unfolded charge_call.simps]

lemma release_limits [simp]: "limits (release b r) = limits r"
  by (simp add: release_def limits_def ReleaseMemory_def Let_def)

lemmas kept = canceled_limits tracked_limits

text \<open>The interface of an operator as far as limits go: no method changes them.\<close>

locale row_source =
  fixes I :: "'i operator"
  assumes open_limits: "op_Open I i r = (e, i1, r1) \<Longrightarrow> limits r1 = limits r"
    and next_limits: "op_Next I i r = (res, i1, r1) \<Longrightarrow> limits r1 = limits r"
    and close_limits: "op_Close I i r = (e, i1, r1) \<Longrightarrow> limits r1 = limits r"

section \<open>Streams\<close>

text \<open>From state \<open>s\<close> on the operator has the rows \<open>xs\<close> to give, in at most \<open>n\<close> batches.\<close>

fun streams :: "Budget \<Rightarrow> 's operator \<Rightarrow> nat \<Rightarrow> 's \<Rightarrow> BindingRow list \<Rightarrow> bool" where
  "streams L A 0 s xs \<longleftrightarrow>
     (\<forall>r. limits r = L \<longrightarrow>
        (case op_Next A s r of (Inl EOF, _, _) \<Rightarrow> xs = [] | (Inl (Fail e), _, _) \<Rightarrow> True | _ \<Rightarrow> False))"
| "streams L A (Suc n) s xs \<longleftrightarrow>
     (\<forall>r. limits r = L \<longrightarrow>
        (case op_Next A s r of
            (Inl EOF, _, _) \<Rightarrow> xs = []
          | (Inl (Fail e), _, _) \<Rightarrow> True
          | (Inl Diverge, _, _) \<Rightarrow> False
          | (Inr b, s1, _) \<Rightarrow> (\<exists>ys. xs = b @ ys \<and> streams L A n s1 ys)))"

definition opens :: "Budget \<Rightarrow> 's operator \<Rightarrow> nat \<Rightarrow> 's \<Rightarrow> BindingRow list \<Rightarrow> bool" where
  "opens L A n s xs \<longleftrightarrow>
     (\<forall>r s1 r1. limits r = L \<longrightarrow> op_Open A s r = (None, s1, r1) \<longrightarrow> streams L A n s1 xs)"

lemma streams_EOF: "streams L A n s xs \<Longrightarrow> limits r = L \<Longrightarrow> op_Next A s r = (Inl EOF, s1, r1) \<Longrightarrow> xs = []"
  by (cases n) (auto dest: spec [of _ r])

lemma streams_Diverge: "streams L A n s xs \<Longrightarrow> limits r = L \<Longrightarrow> op_Next A s r \<noteq> (Inl Diverge, s1, r1)"
  by (cases n) (auto dest: spec [of _ r])

lemma streams_batch:
  assumes "streams L A n s xs" "limits r = L" "op_Next A s r = (Inr b, s1, r1)"
  obtains m ys where "n = Suc m" "xs = b @ ys" "streams L A m s1 ys"
proof (cases n)
  case 0
  with assms show thesis by (auto dest: spec [of _ r])
next
  case (Suc m)
  with assms(1,2) have "case op_Next A s r of (Inl EOF, _, _) \<Rightarrow> xs = [] | (Inl (Fail e), _, _) \<Rightarrow> True
      | (Inl Diverge, _, _) \<Rightarrow> False | (Inr b, s1, _) \<Rightarrow> (\<exists>ys. xs = b @ ys \<and> streams L A m s1 ys)"
    by (simp only: streams.simps)
  with assms(3) Suc that show thesis by auto
qed

text \<open>How a stream is shown: one look at what \<open>Next\<close> returns.\<close>

lemma streamsI:
  assumes "\<And>r e s1 r1. limits r = L \<Longrightarrow> op_Next A s r = (Inl e, s1, r1) \<Longrightarrow> e = Diverge \<Longrightarrow> False"
    and "\<And>r s1 r1. limits r = L \<Longrightarrow> op_Next A s r = (Inl EOF, s1, r1) \<Longrightarrow> xs = []"
    and "\<And>r b s1 r1. limits r = L \<Longrightarrow> op_Next A s r = (Inr b, s1, r1) \<Longrightarrow>
           \<exists>m ys. n = Suc m \<and> xs = b @ ys \<and> streams L A m s1 ys"
  shows "streams L A n s xs"
proof (cases n)
  case 0
  show ?thesis unfolding 0 streams.simps
  proof (intro allI impI)
    fix r assume l: "limits r = L"
    obtain a s1 r1 where "op_Next A s r = (a, s1, r1)" by (cases "op_Next A s r")
    with assms(1,2) [OF l] assms(3) [OF l] 0
    show "case op_Next A s r of (Inl EOF, _, _) \<Rightarrow> xs = [] | (Inl (Fail e), _, _) \<Rightarrow> True | _ \<Rightarrow> False"
      by (cases a) (auto split: next_error.splits)
  qed
next
  case (Suc m)
  show ?thesis unfolding Suc streams.simps
  proof (intro allI impI)
    fix r assume l: "limits r = L"
    obtain a s1 r1 where "op_Next A s r = (a, s1, r1)" by (cases "op_Next A s r")
    with assms(1,2) [OF l] assms(3) [OF l] Suc
    show "case op_Next A s r of (Inl EOF, _, _) \<Rightarrow> xs = [] | (Inl (Fail e), _, _) \<Rightarrow> True
        | (Inl Diverge, _, _) \<Rightarrow> False | (Inr b, s1, _) \<Rightarrow> (\<exists>ys. xs = b @ ys \<and> streams L A m s1 ys)"
      by (cases a) (auto split: next_error.splits)
  qed
qed

declare streams.simps [simp del]

lemma streams_mono: "streams L A n s xs \<Longrightarrow> n \<le> m \<Longrightarrow> streams L A m s xs"
proof (induction n arbitrary: m s xs)
  case 0
  show ?case
  proof (rule streamsI)
    fix r b s1 r1 assume "limits r = L" "op_Next A s r = (Inr b, s1, r1)"
    from streams_batch [OF 0(1) this] show "\<exists>m' ys. m = Suc m' \<and> xs = b @ ys \<and> streams L A m' s1 ys" by blast
  qed (use 0 in \<open>auto dest: streams_EOF streams_Diverge\<close>)
next
  case (Suc n)
  then obtain m' where m: "m = Suc m'" "n \<le> m'" by (cases m) auto
  show ?case
  proof (rule streamsI)
    fix r b s1 r1 assume "limits r = L" "op_Next A s r = (Inr b, s1, r1)"
    with Suc.prems(1) obtain ys where "xs = b @ ys" "streams L A n s1 ys" by (metis streams_batch nat.inject)
    with Suc.IH m show "\<exists>m' ys. m = Suc m' \<and> xs = b @ ys \<and> streams L A m' s1 ys" by blast
  qed (use Suc.prems in \<open>auto dest: streams_EOF streams_Diverge\<close>)
qed

text \<open>The three ways in which a stream answers.\<close>

lemma streams_cases:
  assumes "streams L A n s xs" "limits r = L"
  obtains (eof) s1 r1 where "op_Next A s r = (Inl EOF, s1, r1)" "xs = []"
  | (fail) e s1 r1 where "op_Next A s r = (Inl (Fail e), s1, r1)"
  | (batch) b s1 r1 m ys where "op_Next A s r = (Inr b, s1, r1)" "n = Suc m" "xs = b @ ys" "streams L A m s1 ys"
proof -
  obtain a s1 r1 where nx: "op_Next A s r = (a, s1, r1)" by (cases "op_Next A s r")
  show thesis
  proof (cases a)
    case (Inl e)
    show thesis
    proof (cases e)
      case EOF
      with nx Inl streams_EOF [OF assms] show thesis by (intro eof) auto
    next
      case (Fail x)
      with nx Inl show thesis by (intro fail) auto
    next
      case Diverge
      with nx Inl streams_Diverge [OF assms] show thesis by auto
    qed
  next
    case (Inr b)
    with nx have "op_Next A s r = (Inr b, s1, r1)" by simp
    from streams_batch [OF assms this] batch [OF this] show thesis by metis
  qed
qed

section \<open>Loops behind \<open>ready\<close>\<close>

lemma unary_ready_open:
  assumes "unary_ready I cn name (i, u) r = (None, s1, r1)"
  shows "s1 = (i, u)" "un_opened u" "\<not> un_closed u"
  using assms by (auto simp: unary_ready_def split: prod.splits option.splits if_splits)

lemma unary_ready_error:
  assumes "unary_ready I cn name (i, u) r = (Some e, s1, r1)" "un_opened u" "\<not> un_closed u"
  shows "\<exists>x. e = Fail x"
  using assms by (auto simp: unary_ready_def split: prod.splits option.splits if_splits)

lemma unary_ready_limits: "unary_ready I cn name (i, u) r = (None, s1, r1) \<Longrightarrow> limits r1 = limits r"
  by (auto simp: unary_ready_def dest: canceled_limits split: prod.splits option.splits if_splits)

lemma unary_ready_cases:
  assumes "un_opened u" "\<not> un_closed u"
  obtains (fail) x s1 r1 where "unary_ready I cn name (i, u) r = (Some (Fail x), s1, r1)"
  | (go) r1 where "unary_ready I cn name (i, u) r = (None, (i, u), r1)" "limits r1 = limits r"
proof -
  obtain a s1 r1 where rd: "unary_ready I cn name (i, u) r = (a, s1, r1)" by (metis surj_pair)
  show thesis
  proof (cases a)
    case None
    with rd have rd: "unary_ready I cn name (i, u) r = (None, s1, r1)" by simp
    from rd show thesis
      using go unary_ready_open(1) [OF rd] unary_ready_limits [OF rd] by simp
  next
    case (Some e)
    with rd have "unary_ready I cn name (i, u) r = (Some e, s1, r1)" by simp
    with unary_ready_error [OF this assms] fail show thesis by blast
  qed
qed

lemma unary_fail_fst [simp]: "fst (unary_fail I e s r) = Inl e"
  by (auto simp: unary_fail_def split: prod.splits)

text \<open>
  A result of \<open>Next\<close> is a piece of the image \<open>img u xs\<close> of the input's rows: it fails, it ends
  because nothing is left, or it is a batch and the rest is the image of what the input still has.
\<close>

definition piece ::
    "Budget \<Rightarrow> 'i operator \<Rightarrow> (op_fields \<Rightarrow> BindingRow list \<Rightarrow> bool) \<Rightarrow> (op_fields \<Rightarrow> BindingRow list \<Rightarrow> BindingRow list)
       \<Rightarrow> nat \<Rightarrow> BindingRow list \<Rightarrow> 'i unary next_result \<Rightarrow> bool" where
  "piece L I good img n out res \<longleftrightarrow>
     (case res of
        (Inl EOF, s1, r1) \<Rightarrow> out = []
      | (Inl (Fail e), s1, r1) \<Rightarrow> True
      | (Inl Diverge, s1, r1) \<Rightarrow> False
      | (Inr b, (i1, u1), r1) \<Rightarrow>
          (\<exists>m ys. m < n \<and> un_opened u1 \<and> good u1 ys \<and> out = b @ img u1 ys \<and>
             (if un_closed u1 then img u1 ys = [] else streams L I m i1 ys)))"

lemma piece_fail: "fst res = Inl (Fail e) \<Longrightarrow> piece L I good img n out res"
  by (cases res) (auto simp: piece_def)

lemma piece_EOF: "fst res = Inl EOF \<Longrightarrow> out = [] \<Longrightarrow> piece L I good img n out res"
  by (cases res) (auto simp: piece_def)

lemma piece_batch:
  "streams L I m i1 ys \<Longrightarrow> m < n \<Longrightarrow> un_opened u1 \<Longrightarrow> \<not> un_closed u1 \<Longrightarrow> good u1 ys \<Longrightarrow> out = b @ img u1 ys \<Longrightarrow>
     piece L I good img n out (Inr b, (i1, u1), r1)"
  unfolding piece_def prod.case sum.case by (intro exI [of _ m] exI [of _ ys]) simp

lemma piece_last:
  "un_opened u1 \<Longrightarrow> un_closed u1 \<Longrightarrow> good u1 ys \<Longrightarrow> out = b \<Longrightarrow> img u1 ys = [] \<Longrightarrow> 0 < n \<Longrightarrow>
     piece L I good img n out (Inr b, (i1, u1), r1)"
  unfolding piece_def prod.case sum.case by (intro exI [of _ 0] exI [of _ ys]) simp

lemma piece_mono: "piece L I good img m out res \<Longrightarrow> m \<le> n \<Longrightarrow> piece L I good img n out res"
  by (cases res) (force simp: piece_def split: sum.splits next_error.splits)

text \<open>
  An operator whose \<open>Next\<close> is \<open>ready\<close> followed by something that gives pieces of the image streams the image.
\<close>

lemma loop_streams:
  assumes nx: "\<And>s r. op_Next A s r = (case unary_ready I cn name s r of
      (Some e, s1, r1) \<Rightarrow> (Inl e, s1, r1) | (None, s1, r1) \<Rightarrow> loop s1 r1)"
    and loop: "\<And>n i u xs r. streams L I n i xs \<Longrightarrow> n < k \<Longrightarrow> un_opened u \<Longrightarrow> \<not> un_closed u \<Longrightarrow>
      good u xs \<Longrightarrow> limits r = L \<Longrightarrow> piece L I good img n (img u xs) (loop (i, u) r)"
    and "streams L I n i xs" "n < k" "un_opened u" "\<not> un_closed u" "good u xs"
  shows "streams L A n (i, u) (img u xs)"
  using assms(3-7)
proof (induction n arbitrary: i u xs rule: less_induct)
  case (less n)
  have ready: "(\<exists>x. fst (op_Next A (i, u) r) = Inl (Fail x)) \<or>
      (\<exists>r2. limits r2 = limits r \<and> op_Next A (i, u) r = loop (i, u) r2)" for r
    using nx [of "(i, u)" r] less.prems(3,4)
    by (auto split: prod.splits option.splits dest: unary_ready_open unary_ready_limits unary_ready_error)
  then have res: "limits r = L \<Longrightarrow> piece L I good img n (img u xs) (op_Next A (i, u) r)" for r
    using loop [OF less.prems] by (metis piece_fail)
  show ?case
  proof (rule streamsI)
    fix r b s1 r1 assume "limits r = L" "op_Next A (i, u) r = (Inr b, s1, r1)"
    with res [of r] obtain i1 u1 m ys where s1: "s1 = (i1, u1)" "un_opened u1" "good u1 ys" "m < n"
      "img u xs = b @ img u1 ys" "if un_closed u1 then img u1 ys = [] else streams L I m i1 ys"
      by (cases s1) (auto simp: piece_def simp del: if_split)
    have "streams L A m s1 (img u1 ys)"
    proof (cases "un_closed u1")
      case True
      have "(\<exists>x. fst (op_Next A (i1, u1) r) = Inl (Fail x)) \<or> fst (op_Next A (i1, u1) r) = Inl EOF" for r
        using nx [of "(i1, u1)" r] True s1(2)
        by (auto simp: unary_ready_def split: prod.splits option.splits)
      with True s1 show ?thesis by (intro streamsI; metis fst_conv sum.inject(1) next_error.distinct sum.distinct(1))
    next
      case False
      with s1 less.prems less.IH [of m i1 ys u1] show ?thesis by simp
    qed
    with s1 show "\<exists>m ys. n = Suc m \<and> img u xs = b @ ys \<and> streams L A m s1 ys"
      by (cases n) (auto intro: streams_mono)
  next
    fix r s1 r1 assume "limits r = L" "op_Next A (i, u) r = (Inl EOF, s1, r1)"
    with res [of r] show "img u xs = []" by (simp add: piece_def)
  next
    fix r e s1 r1 assume "limits r = L" "op_Next A (i, u) r = (Inl e, s1, r1)" "e = Diverge"
    with res [of r] show False by (simp add: piece_def)
  qed
qed

section \<open>Filter\<close>

definition matches :: "exec_env \<Rightarrow> evaluator \<Rightarrow> Predicate \<Rightarrow> BindingRow \<Rightarrow> bool" where
  "matches xe ev p row \<longleftrightarrow> eval_predicate xe ev row p = Inr True"

lemma filter_rows_limits: "filter_rows cn xe ev p rows r = (f, r1) \<Longrightarrow> limits r1 = limits r"
  by (induction rows arbitrary: r f r1)
    (auto dest!: canceled_limits split: prod.splits option.splits sum.splits)

lemma filter_rows_result:
  "filter_rows cn xe ev p rows r = (Inr out, r1) \<Longrightarrow> out = filter (matches xe ev p) rows"
proof (induction rows arbitrary: r out r1)
  case (Cons row rows)
  from Cons.prems show ?case
    by (auto simp: matches_def dest!: Cons.IH split: prod.splits option.splits sum.splits if_splits)
qed simp

context row_source
begin

lemma filter_piece:
  "streams L I n i xs \<Longrightarrow> n < k \<Longrightarrow> un_opened u \<Longrightarrow> \<not> un_closed u \<Longrightarrow> limits r = L \<Longrightarrow>
     piece L I (\<lambda>_ _. True) (\<lambda>_. filter (matches xe ev p)) n (filter (matches xe ev p) xs)
       (filter_loop I cn xe ev p k (i, u) r)"
proof (induction k arbitrary: n i xs r)
  case (Suc k)
  from Suc.prems(1) Suc.prems(5) show ?case
  proof (cases rule: streams_cases [where r = r, case_names eof fail batch])
    case (batch b i1 r1 m ys)
    show ?thesis
    proof (cases "filter_rows cn xe ev p b r1")
      case (Pair f r2)
      show ?thesis
      proof (cases f)
        case (Inr rows)
        with Pair have rows: "rows = filter (matches xe ev p) b" by (simp add: filter_rows_result)
        have "limits r2 = L"
          using Pair batch(1) Suc.prems(5) by (metis filter_rows_limits next_limits)
        note this [simp]
        show ?thesis
        proof (cases "rows = []")
          case True
          with batch Pair Inr Suc.prems Suc.IH [of m i1 ys r2] rows show ?thesis by (auto intro: piece_mono)
        next
          case False
          with batch Pair Inr Suc.prems rows show ?thesis
            by (auto intro: piece_fail intro!: piece_batch [of _ I m] split: prod.splits option.splits)
        qed
      qed (use Pair batch in \<open>auto intro: piece_fail\<close>)
    qed
  qed (auto intro: piece_fail piece_EOF)
qed simp

lemma filter_streams:
  assumes "streams L I n i xs" "n < k" "un_opened u" "\<not> un_closed u"
  shows "streams L (filter_operator cn xe ev p k I) n (i, u) (filter (matches xe ev p) xs)"
  by (rule loop_streams [where good = "\<lambda>_ _. True" and img = "\<lambda>_. filter (matches xe ev p)"
        and loop = "filter_loop I cn xe ev p k"])
    (use assms in \<open>auto simp: filter_operator_def intro: filter_piece\<close>)

end

section \<open>Projection\<close>

definition projected_row :: "exec_env \<Rightarrow> evaluator \<Rightarrow> Projection list \<Rightarrow> BindingRow \<Rightarrow> BindingRow" where
  "projected_row xe ev ps row =
     (case projectRow xe ev row ps of Inl e \<Rightarrow> row | Inr fs \<Rightarrow> row\<lparr>br_Projected := fs\<rparr>)"

lemma project_rows_result:
  "project_rows cn xe ev ps rows r = (Inr out, r1) \<Longrightarrow> out = map (projected_row xe ev ps) rows"
proof (induction rows arbitrary: r out r1)
  case (Cons row rows)
  from Cons.prems show ?case
    by (auto simp: projected_row_def dest!: Cons.IH split: prod.splits option.splits sum.splits)
qed simp

definition projection_body :: "'i operator \<Rightarrow> cancel \<Rightarrow> exec_env \<Rightarrow> evaluator \<Rightarrow> Projection list
    \<Rightarrow> 'i unary \<Rightarrow> run \<Rightarrow> 'i unary next_result" where
  "projection_body I cn xe ev ps = (\<lambda>(i, u) r1.
     (case op_Next I i r1 of
        (Inl EOF, i1, r2) \<Rightarrow> (Inl EOF, (i1, u), r2)
      | (Inl e, i1, r2) \<Rightarrow> unary_fail I e (i1, u) r2
      | (Inr batch, i1, r2) \<Rightarrow>
          (case project_rows cn xe ev ps batch r2 of
             (Inl e, r3) \<Rightarrow> unary_fail I (Fail e) (i1, u) r3
           | (Inr rows, r3) \<Rightarrow>
               (case track (ProduceIntermediate (int64_len rows)) r3 of
                  (Some e, r4) \<Rightarrow> unary_fail I (Fail e) (i1, u) r4
                | (None, r4) \<Rightarrow> (Inr rows, (i1, u), r4)))))"

lemma projection_Next_body:
  "projection_Next I cn xe ev ps s r =
     (case unary_ready I cn ''project query rows'' s r of
        (Some e, s1, r1) \<Rightarrow> (Inl e, s1, r1) | (None, s1, r1) \<Rightarrow> projection_body I cn xe ev ps s1 r1)"
  by (auto simp: projection_Next_def projection_body_def split: prod.splits option.splits)

lemma projection_piece:
  assumes "streams L I n i xs" "un_opened u" "\<not> un_closed u" "limits r = L"
  shows "piece L I (\<lambda>_ _. True) (\<lambda>_. map (projected_row xe ev ps)) n (map (projected_row xe ev ps) xs)
       (projection_body I cn xe ev ps (i, u) r)"
using assms(1) assms(4)
proof (cases rule: streams_cases [where r = r, case_names eof fail batch])
  case (batch b i1 r1 m ys)
  with assms show ?thesis
    by (auto simp: projection_body_def intro: piece_fail intro!: piece_batch [of _ I m] dest!: project_rows_result
        split: prod.splits option.splits sum.splits)
qed (auto simp: projection_body_def intro: piece_fail piece_EOF)

lemma projection_streams:
  assumes "streams L I n i xs" "un_opened u" "\<not> un_closed u"
  shows "streams L (projection_operator cn xe ev ps I) n (i, u) (map (projected_row xe ev ps) xs)"
  by (rule loop_streams [where good = "\<lambda>_ _. True" and img = "\<lambda>_. map (projected_row xe ev ps)" and k = "Suc n"
        and loop = "projection_body I cn xe ev ps"])
    (use assms in \<open>auto simp: projection_operator_def projection_Next_body intro: projection_piece\<close>)

section \<open>Offset and limit\<close>

lemma sint_int64_len:
  assumes "length xs < 2 ^ 63"
  shows "sint (int64_len xs) = int (length xs)"
proof -
  have "int64_len xs = word_of_int (int (length xs))" by (simp add: int64_len_def)
  with assms show ?thesis using sint_of_int_in_range [of "int (length xs)"] by simp
qed

definition counted :: "op_fields \<Rightarrow> BindingRow list \<Rightarrow> bool" where
  "counted u xs \<longleftrightarrow> 0 \<le> sint (of_remaining u) \<and> length xs < 2 ^ 63"

definition left_count :: "op_fields \<Rightarrow> nat" where
  "left_count u = nat (sint (of_remaining u))"

lemma left_count_minus:
  assumes "counted u xs" "length b \<le> left_count u" "length b < 2 ^ 63"
  shows "left_count (u\<lparr>of_remaining := of_remaining u - int64_len b\<rparr>) = left_count u - length b"
    "0 \<le> sint (of_remaining u - int64_len b)"
proof -
  have "sint (of_remaining u - int64_len b) = sint (of_remaining u) - int (length b)"
    using assms by (simp add: counted_def sint_diff_nonneg sint_int64_len)
  then show "left_count (u\<lparr>of_remaining := of_remaining u - int64_len b\<rparr>) = left_count u - length b"
    "0 \<le> sint (of_remaining u - int64_len b)"
    using assms by (auto simp: left_count_def counted_def)
qed

context row_source
begin

lemma offset_piece:
  "streams L I n i xs \<Longrightarrow> n < k \<Longrightarrow> un_opened u \<Longrightarrow> \<not> un_closed u \<Longrightarrow> counted u xs \<Longrightarrow> limits r = L \<Longrightarrow>
     piece L I counted (\<lambda>u. drop (left_count u)) n (drop (left_count u) xs) (offset_loop I k (i, u) r)"
proof (induction k arbitrary: n i xs u r)
  case (Suc k)
  from Suc.prems(1) Suc.prems(6) show ?case
  proof (cases rule: streams_cases [where r = r, case_names eof fail batch])
    case (batch b i1 r1 m ys)
    with Suc.prems(5) have b: "length b < 2 ^ 63" "counted u ys" by (auto simp: counted_def)
    have "limits r1 = L" using batch(1) Suc.prems(6) by (auto dest: next_limits)
    note this [simp]
    have len: "sint (int64_len b) \<le> sint (of_remaining u) \<longleftrightarrow> length b \<le> left_count u"
      using Suc.prems(5) b(1) by (auto simp: counted_def left_count_def sint_int64_len)
    show ?thesis
    proof (cases "length b \<le> left_count u")
      case True
      let ?u = "u\<lparr>of_remaining := of_remaining u - int64_len b\<rparr>"
      note left_count_minus [OF Suc.prems(5) True b(1)]
      moreover from this b have "counted ?u ys" by (simp add: counted_def)
      ultimately have "piece L I counted (\<lambda>u. drop (left_count u)) m (drop (left_count u - length b) ys)
          (offset_loop I k (i1, ?u) r1)"
        using Suc.IH [of m i1 ys ?u r1] Suc.prems batch by simp
      then show ?thesis using batch True len by (auto intro: piece_mono)
    next
      case False
      then have "left_count u < length b" by simp
      moreover have "0 < sint (of_remaining u) \<or> left_count u = 0" by (auto simp: left_count_def)
      ultimately show ?thesis using batch Suc.prems b len
        by (auto simp: counted_def left_count_def intro!: piece_batch [of _ I m])
    qed
  qed (auto intro: piece_fail piece_EOF)
qed simp

lemma offset_streams:
  assumes "streams L I n i xs" "n < k" "un_opened u" "\<not> un_closed u" "counted u xs"
  shows "streams L (offset_operator cn offset k I) n (i, u) (drop (left_count u) xs)"
  by (rule loop_streams [where good = counted and img = "\<lambda>u. drop (left_count u)" and loop = "offset_loop I k"])
    (use assms in \<open>auto simp: offset_operator_def intro: offset_piece\<close>)

end

definition limit_body :: "'i operator \<Rightarrow> u64 \<Rightarrow> 'i unary \<Rightarrow> run \<Rightarrow> 'i unary next_result" where
  "limit_body I limit = (\<lambda>(i, u) r1.
     if 0 < sint limit \<and> of_remaining u = 0 then unary_fail I EOF (i, u) r1
     else
       (case op_Next I i r1 of
          (Inl EOF, i1, r2) \<Rightarrow> (Inl EOF, (i1, u), r2)
        | (Inl e, i1, r2) \<Rightarrow> unary_fail I e (i1, u) r2
        | (Inr batch, i1, r2) \<Rightarrow>
            if limit = 0 then (Inr batch, (i1, u), r2)
            else
              let rows = (if sint (of_remaining u) < sint (int64_len batch)
                          then take (nat (sint (of_remaining u))) batch else batch);
                  u1 = u\<lparr>of_remaining := of_remaining u - int64_len rows\<rparr>
              in if of_remaining u1 = 0
                 then (case unary_close I (i1, u1) r2 of (_, s3, r3) \<Rightarrow> (Inr rows, s3, r3))
                 else (Inr rows, (i1, u1), r2)))"

lemma limit_Next_body:
  "limit_Next I cn limit s r =
     (case unary_ready I cn ''limit query rows'' s r of
        (Some e, s1, r1) \<Rightarrow> (Inl e, s1, r1) | (None, s1, r1) \<Rightarrow> limit_body I limit s1 r1)"
  by (auto simp: limit_Next_def limit_body_def split: prod.splits option.splits)

lemma unary_close_fields:
  "unary_close I (i, u) r = (e, (i1, u1), r1) \<Longrightarrow>
     un_closed u1 \<and> un_opened u1 = un_opened u \<and> of_remaining u1 = of_remaining u"
  by (auto simp: unary_close_def split: if_splits prod.splits)

lemma limit_piece:
  assumes "streams L I n i xs" "un_opened u" "\<not> un_closed u" "counted u xs" "0 < sint limit" "limits r = L"
  shows "piece L I counted (\<lambda>u. take (left_count u)) n (take (left_count u) xs) (limit_body I limit (i, u) r)"
proof (cases "of_remaining u = 0")
  case True
  with assms(5) show ?thesis
    by (auto simp: limit_body_def left_count_def intro: piece_EOF)
next
  case False
  from assms(1) assms(6) show ?thesis
  proof (cases rule: streams_cases [where r = r, case_names eof fail batch])
    case (batch b i1 r1 m ys)
    have b: "length b < 2 ^ 63" "counted u ys" using batch assms(4) by (auto simp: counted_def)
    define rows where "rows = take (left_count u) b"
    let ?u = "u\<lparr>of_remaining := of_remaining u - int64_len rows\<rparr>"
    have rows: "(if sint (of_remaining u) < sint (int64_len b)
        then take (nat (sint (of_remaining u))) b else b) = rows"
      using assms(4) b(1) by (auto simp: rows_def counted_def left_count_def sint_int64_len)
    have len: "length rows \<le> left_count u" "length rows < 2 ^ 63"
      using b(1) by (auto simp: rows_def min_def)
    note left = left_count_minus [OF assms(4) len]
    have good: "counted ?u ys" using left b by (simp add: counted_def)
    have out: "take (left_count u) xs = rows @ take (left_count ?u) ys"
      using batch left by (simp add: rows_def min_def)
    have body: "limit_body I limit (i, u) r =
        (if of_remaining ?u = 0 then (case unary_close I (i1, ?u) r1 of (_, s3, r3) \<Rightarrow> (Inr rows, s3, r3))
         else (Inr rows, (i1, ?u), r1))"
      using False batch(1) assms(5) unfolding limit_body_def prod.case rows [symmetric]
      by (auto simp: Let_def)
    show ?thesis
    proof (cases "of_remaining ?u = 0")
      case True
      obtain e i2 u2 r2 where cl: "unary_close I (i1, ?u) r1 = (e, (i2, u2), r2)" by (metis prod_cases3 surj_pair)
      with unary_close_fields [OF cl] True have u2: "un_closed u2" "un_opened u2 = un_opened u" "left_count u2 = 0"
        by (auto simp: left_count_def)
      moreover have "take (left_count u) xs = rows" using out True by (simp add: left_count_def)
      moreover have "counted u2 ys"
        using good True unary_close_fields [OF cl] by (simp add: counted_def)
      ultimately show ?thesis using body True cl assms(2) batch(2)
        by (auto intro!: piece_last [where ys = ys])
    next
      case nz: False
      have "piece L I counted (\<lambda>u. take (left_count u)) n (take (left_count u) xs) (Inr rows, (i1, ?u), r1)"
        by (rule piece_batch [OF batch(4)]) (use batch(2) assms(2,3) good out in auto)
      then show ?thesis using body nz by simp
    qed
  qed (use False in \<open>auto simp: limit_body_def intro: piece_fail piece_EOF\<close>)
qed

lemma limit_streams:
  assumes "streams L I n i xs" "un_opened u" "\<not> un_closed u" "counted u xs" "0 < sint limit"
  shows "streams L (limit_operator cn limit I) n (i, u) (take (left_count u) xs)"
  by (rule loop_streams [where good = counted and img = "\<lambda>u. take (left_count u)" and k = "Suc n"
        and loop = "limit_body I limit"])
    (use assms in \<open>auto simp: limit_operator_def limit_Next_body intro: limit_piece\<close>)

section \<open>Distinct\<close>

text \<open>The rows whose key did not occur before.\<close>

fun distinct_from :: "('a \<Rightarrow> 'k) \<Rightarrow> 'k set \<Rightarrow> 'a list \<Rightarrow> 'a list" where
  "distinct_from key seen [] = []"
| "distinct_from key seen (x # xs) =
     (if key x \<in> seen then distinct_from key seen xs else x # distinct_from key (insert (key x) seen) xs)"

lemma distinct_from_append:
  "distinct_from key seen (xs @ ys) = distinct_from key seen xs @ distinct_from key (seen \<union> key ` set xs) ys"
  by (induction xs arbitrary: seen) (auto simp: insert_absorb)

text \<open>The keys of an association list.\<close>

definition keys_of :: "('k \<times> 'v) list \<Rightarrow> 'k set" where
  "keys_of kvs = fst ` set kvs"

lemma keys_of_simps [simp]: "keys_of [] = {}" "keys_of ((k, v) # kvs) = insert k (keys_of kvs)"
  by (simp_all add: keys_of_def)

lemma map_of_keys_of: "map_of kvs k = None \<longleftrightarrow> k \<notin> keys_of kvs"
  by (simp add: keys_of_def map_of_eq_None_iff)

definition row_key :: "exec_env \<Rightarrow> BindingRow \<Rightarrow> string" where
  "row_key xe row = canonicalRow xe (br_Projected row)"

lemma distinct_rows_result:
  "distinct_rows cn xe rows seen r = (Inr out, seen1, r1) \<Longrightarrow>
     out = distinct_from (row_key xe) (keys_of seen) rows \<and>
     keys_of seen1 = keys_of seen \<union> row_key xe ` set rows"
proof (induction rows arbitrary: seen r out seen1 r1)
  case (Cons row rows)
  from Cons.prems show ?case
    by (auto simp: row_key_def [symmetric] map_of_keys_of Let_def dest!: Cons.IH
        split: prod.splits option.splits sum.splits if_splits)
qed simp

lemma distinct_fail_fst [simp]: "fst (distinct_fail I e s r) = Inl e"
  by (auto simp: distinct_fail_def split: prod.splits)

lemma distinct_rows_limits: "distinct_rows cn xe rows seen r = (f, seen1, r1) \<Longrightarrow> limits r1 = limits r"
  by (induction rows arbitrary: seen r f seen1 r1)
    (auto simp: Let_def dest!: kept split: prod.splits option.splits sum.splits if_splits)

context row_source
begin

lemma distinct_piece:
  "streams L I n i xs \<Longrightarrow> n < k \<Longrightarrow> un_opened u \<Longrightarrow> \<not> un_closed u \<Longrightarrow> limits r = L \<Longrightarrow>
     piece L I (\<lambda>_ _. True) (\<lambda>u. distinct_from (row_key xe) (keys_of (of_seen u))) n
       (distinct_from (row_key xe) (keys_of (of_seen u)) xs) (distinct_loop I cn xe k (i, u) r)"
proof (induction k arbitrary: n i xs u r)
  case (Suc k)
  from Suc.prems(1) Suc.prems(5) show ?case
  proof (cases rule: streams_cases [where r = r, case_names eof fail batch])
    case (batch b i1 r1 m ys)
    obtain f seen r2 where dr: "distinct_rows cn xe b (of_seen u) r1 = (f, seen, r2)"
      by (cases "distinct_rows cn xe b (of_seen u) r1")
    have "limits r2 = L" using dr batch(1) Suc.prems(5) by (metis distinct_rows_limits next_limits)
    note this [simp]
    show ?thesis
    proof (cases f)
      case (Inr rows)
      with dr distinct_rows_result have rows: "rows = distinct_from (row_key xe) (keys_of (of_seen u)) b"
        "keys_of seen = keys_of (of_seen u) \<union> row_key xe ` set b" by blast+
      have out: "distinct_from (row_key xe) (keys_of (of_seen u)) xs =
          rows @ distinct_from (row_key xe) (keys_of seen) ys"
        using batch(3) rows by (simp add: distinct_from_append)
      show ?thesis
      proof (cases "rows = []")
        case True
        with batch dr Inr Suc.prems Suc.IH [of m i1 ys "u\<lparr>of_seen := seen\<rparr>" r2] out show ?thesis
          by (auto intro: piece_mono)
      next
        case False
        have "piece L I (\<lambda>_ _. True) (\<lambda>u. distinct_from (row_key xe) (keys_of (of_seen u))) n
           (distinct_from (row_key xe) (keys_of (of_seen u)) xs) (Inr rows, (i1, u\<lparr>of_seen := seen\<rparr>), r2)"
          by (rule piece_batch [OF batch(4)]) (use batch(2) Suc.prems out in auto)
        with batch dr Inr False show ?thesis by simp
      qed
    qed (use dr batch in \<open>auto intro: piece_fail\<close>)
  qed (auto intro: piece_fail piece_EOF)
qed simp

lemma distinct_streams:
  assumes "streams L I n i xs" "n < k" "un_opened u" "\<not> un_closed u"
  shows "streams L (distinct_operator cn xe k I) n (i, u) (distinct_from (row_key xe) (keys_of (of_seen u)) xs)"
  by (rule loop_streams [where good = "\<lambda>_ _. True" and img = "\<lambda>u. distinct_from (row_key xe) (keys_of (of_seen u))"
        and loop = "distinct_loop I cn xe k"])
    (use assms in \<open>auto simp: distinct_operator_def intro: distinct_piece\<close>)

end

end
