(* ===== verification/Query_Loads.thy ===== *)
theory Query_Loads
  imports Query_Contract "HOL-Library.Multiset"
begin

text \<open>
  The blocking operators as streams: what they hand out is a function of the whole list of rows their input
  has, \<open>sorted_rows\<close>, \<open>topn_rows\<close> and \<open>aggregate_rows\<close>. These functions leave out the tracker and the
  context, which only decide whether the operator fails.
\<close>

section \<open>Handing out what was loaded\<close>

lemma nextBatch_streams:
  assumes nx: "\<And>i u r. of_materialized u \<Longrightarrow> op_Next A (i, u) r = nextBatch I cn name (i, u) r"
    and u: "of_materialized u" "un_opened u" "\<not> un_closed u" and L: "0 < sint (BatchSize L)"
    and n: "length (drop (of_offset u) (of_rows u)) \<le> n"
  shows "streams L A n (i, u) (drop (of_offset u) (of_rows u))"
  using u n
proof (induction n arbitrary: i u rule: less_induct)
  case (less n)
  note ready = unary_ready_cases [OF less.prems(2,3), of I cn name i, case_names fail go]
  note nx = nx [OF less.prems(1)]
  show ?case
  proof (rule streamsI)
    fix r e s1 r1 assume "op_Next A (i, u) r = (Inl e, s1, r1)" "e = Diverge"
    then show False
      using nx [of i r] by (cases rule: ready [of r]) (auto simp: nextBatch_def Let_def split: if_splits)
  next
    fix r s1 r1 assume "op_Next A (i, u) r = (Inl EOF, s1, r1)"
    then show "drop (of_offset u) (of_rows u) = []"
      using nx [of i r] by (cases rule: ready [of r]) (auto simp: nextBatch_def Let_def split: if_splits)
  next
    fix r b s1 r1 assume l: "limits r = L" "op_Next A (i, u) r = (Inr b, s1, r1)"
    obtain r2 where rd: "unary_ready I cn name (i, u) r = (None, (i, u), r2)" "limits r2 = L"
      using l nx [of i r] by (cases rule: ready [of r]) (auto simp: nextBatch_def)
    define stop where "stop = min (of_offset u + nat (sint (BatchSize L))) (length (of_rows u))"
    have s1: "b = bslice (of_offset u) stop (of_rows u)" "s1 = (i, u\<lparr>of_offset := stop\<rparr>)"
      "of_offset u < length (of_rows u)"
      using l(2) nx [of i r] rd
      by (auto simp: nextBatch_def Let_def stop_def limits_def split: if_splits)
    have stop: "of_offset u < stop" "stop \<le> length (of_rows u)" using s1(3) L by (auto simp: stop_def)
    obtain m where m: "n = Suc m" using less.prems(4) s1(3) by (cases n) auto
    have "streams L A m (i, u\<lparr>of_offset := stop\<rparr>)
        (drop (of_offset (u\<lparr>of_offset := stop\<rparr>)) (of_rows (u\<lparr>of_offset := stop\<rparr>)))"
      by (rule less.IH) (use less.prems m stop in auto)
    moreover have "drop (of_offset u) (of_rows u) = b @ drop stop (of_rows u)"
      using stop unfolding s1(1) bslice_def
      by (metis append_take_drop_id drop_drop less_imp_le le_add_diff_inverse2)
    ultimately show "\<exists>m ys. n = Suc m \<and> drop (of_offset u) (of_rows u) = b @ ys \<and> streams L A m s1 ys"
      using m s1(2) by auto
  qed
qed

text \<open>What a load must do for the operator to stream \<open>out\<close>.\<close>

definition loads :: "Budget \<Rightarrow> BindingRow list \<Rightarrow> next_error option \<times> 'i unary \<times> run \<Rightarrow> bool" where
  "loads L out res \<longleftrightarrow>
     (case res of
        (Some (Fail e), s1, r1) \<Rightarrow> True
      | (Some e, s1, r1) \<Rightarrow> False
      | (None, (i1, u1), r1) \<Rightarrow>
          un_opened u1 \<and> \<not> un_closed u1 \<and> of_materialized u1 \<and> of_offset u1 = 0 \<and> of_rows u1 = out \<and> limits r1 = L)"

lemma blocking_streams:
  assumes nx: "op_Next A = blocking_Next I cn name load"
    and load: "\<And>r. limits r = L \<Longrightarrow> loads L out (load (i, u) r)"
    and L: "0 < sint (BatchSize L)" and u: "\<not> of_materialized u" and n: "length out \<le> n"
  shows "streams L A n (i, u) out"
proof -
  have after: "\<exists>i1 u1 r1. op_Next A (i, u) r = op_Next A (i1, u1) r1 \<and> limits r1 = L \<and> streams L A n (i1, u1) out"
    if "limits r = L" "load (i, u) r = (None, s1, r1)" for r s1 r1
  proof -
    obtain i1 u1 where s1: "s1 = (i1, u1)" by (cases s1)
    with load [OF that(1)] that(2) have u1: "un_opened u1" "\<not> un_closed u1" "of_materialized u1" "of_offset u1 = 0"
      "of_rows u1 = out" "limits r1 = L" by (auto simp: loads_def)
    have "streams L A n (i1, u1) (drop (of_offset u1) (of_rows u1))"
      by (rule nextBatch_streams [where I = I and cn = cn and name = name])
        (use nx u1 L n in \<open>auto simp: blocking_Next_def\<close>)
    with that(2) u1 u s1 nx show ?thesis
      by (intro exI [of _ i1] exI [of _ u1] exI [of _ r1]) (auto simp: blocking_Next_def)
  qed
  have failed: "fst (op_Next A (i, u) r) = Inl e \<and> (\<exists>x. e = Fail x)"
    if "limits r = L" "load (i, u) r = (Some e, s1, r1)" for r e s1 r1
    using load [OF that(1)] that(2) u nx
    by (auto simp: loads_def blocking_Next_def split: prod.splits next_error.splits)
  show ?thesis
  proof (rule streamsI)
    fix r e s1 r1 assume l: "limits r = L" "op_Next A (i, u) r = (Inl e, s1, r1)" "e = Diverge"
    show False
    proof (cases "load (i, u) r")
      case (fields a b c)
      with l after [OF l(1)] failed [OF l(1)] show False
        by (cases a) (fastforce dest: streams_Diverge, fastforce)
    qed
  next
    fix r s1 r1 assume l: "limits r = L" "op_Next A (i, u) r = (Inl EOF, s1, r1)"
    show "out = []"
    proof (cases "load (i, u) r")
      case (fields a b c)
      with l after [OF l(1)] failed [OF l(1)] show ?thesis
        by (cases a) (fastforce dest: streams_EOF, fastforce)
    qed
  next
    fix r b s1 r1 assume l: "limits r = L" "op_Next A (i, u) r = (Inr b, s1, r1)"
    show "\<exists>m ys. n = Suc m \<and> out = b @ ys \<and> streams L A m s1 ys"
    proof (cases "load (i, u) r")
      case (fields a c d)
      with l failed [OF l(1)] have "a = None" by (cases a) fastforce+
      with fields after [OF l(1)] obtain i1 u1 r2 where *: "op_Next A (i, u) r = op_Next A (i1, u1) r2"
        "limits r2 = L" "streams L A n (i1, u1) out" by blast
      from streams_batch [OF *(3,2)] *(1) l(2) show ?thesis by metis
    qed
  qed
qed

section \<open>Fields a load leaves alone\<close>

definition same_flags :: "op_fields \<Rightarrow> op_fields \<Rightarrow> bool" where
  "same_flags u u1 \<longleftrightarrow> un_opened u1 = un_opened u \<and> un_closed u1 = un_closed u \<and>
     of_offset u1 = of_offset u \<and> of_materialized u1 = of_materialized u"

lemma same_flags_refl [simp]: "same_flags u u"
  by (simp add: same_flags_def)

lemma same_flags_trans: "same_flags u v \<Longrightarrow> same_flags v w \<Longrightarrow> same_flags u w"
  by (simp add: same_flags_def)

lemma same_flags_upd [simp]:
  "same_flags u (v\<lparr>of_rows := x\<rparr>) = same_flags u v" "same_flags u (v\<lparr>of_retained := y\<rparr>) = same_flags u v"
  "same_flags (v\<lparr>of_rows := x\<rparr>) u = same_flags v u" "same_flags (v\<lparr>of_retained := y\<rparr>) u = same_flags v u"
  by (simp_all add: same_flags_def)

lemma reserve_result:
  assumes "reserve b u r = (e, u1, r1)"
  shows "same_flags u u1" "of_rows u1 = of_rows u" "limits r1 = limits r" "\<exists>x. u1 = u\<lparr>of_retained := x\<rparr>"
proof -
  from assms show "same_flags u u1" "of_rows u1 = of_rows u" "limits r1 = limits r"
    by (auto simp: reserve_def dest: kept split: prod.splits option.splits)
  from assms show "\<exists>x. u1 = u\<lparr>of_retained := x\<rparr>"
    by (auto simp: reserve_def split: prod.splits option.splits intro: exI [of _ "of_retained u"])
qed

section \<open>Sort\<close>

lemma sort_take_result:
  "sort_take cn xe b u r = (e, u1, r1) \<Longrightarrow>
     same_flags u u1 \<and> limits r1 = limits r \<and> (e = None \<longrightarrow> of_rows u1 = of_rows u @ b)"
proof (induction b arbitrary: u r)
  case (Cons row b)
  obtain c r2 where c: "canceled cn ''sort query rows'' r = (c, r2)" by (cases "canceled cn ''sort query rows'' r")
  note l2 = canceled_limits [OF c]
  show ?case
  proof (cases c)
    case None
    obtain d u2 r3 where d: "reserve (estimateBindingRow xe row) u r2 = (d, u2, r3)"
      by (cases "reserve (estimateBindingRow xe row) u r2")
    note u2 = reserve_result [OF d]
    show ?thesis
    proof (cases d)
      case None
      with c d Cons.prems \<open>c = None\<close> have "sort_take cn xe b (u2\<lparr>of_rows := of_rows u2 @ [row]\<rparr>) r3 = (e, u1, r1)"
        by simp
      from Cons.IH [OF this] u2 l2 show ?thesis by (auto dest: same_flags_trans)
    qed (use c d Cons.prems \<open>c = None\<close> u2 l2 in auto)
  qed (use c Cons.prems l2 in auto)
qed auto

definition sorted_rows :: "exec_env \<Rightarrow> evaluator \<Rightarrow> Order list \<Rightarrow> BindingRow list \<Rightarrow> BindingRow list" where
  "sorted_rows xe ev ods rows = fst (sortRows xe ev ods rows)"

lemma mset_insert_left: "mset (fst (insert_left lt x ys st)) = add_mset x (mset ys)"
  by (induction lt x ys st rule: insert_left.induct) (auto split: prod.splits bool.splits)

lemma mset_insertion_sort: "mset (fst (insertion_sort lt front xs st)) = mset front + mset xs"
proof (induction lt front xs st rule: insertion_sort.induct)
  case (2 lt front x xs st)
  obtain d st1 where d: "insert_left lt x front st = (d, st1)" by (cases "insert_left lt x front st")
  from mset_insert_left [of lt x front st] d have "mset d = add_mset x (mset front)" by simp
  with 2 d show ?case by simp
qed simp

lemma mset_sorted_rows [simp]: "mset (sorted_rows xe ev ods rows) = mset rows"
  by (simp add: sorted_rows_def sortRows_def SliceStable_def mset_insertion_sort)

lemma length_sorted_rows [simp]: "length (sorted_rows xe ev ods rows) = length rows"
  using mset_sorted_rows by (metis size_mset)

context row_source
begin

lemma sort_loop_result:
  "streams L I n i xs \<Longrightarrow> n < k \<Longrightarrow> limits r = L \<Longrightarrow> sort_loop I cn xe k (i, u) r = (e, (i1, u1), r1) \<Longrightarrow>
     (\<exists>x. e = Some (Fail x)) \<or> e = None \<and> same_flags u u1 \<and> of_rows u1 = of_rows u @ xs \<and> limits r1 = L"
proof (induction k arbitrary: n i xs u r)
  case (Suc k)
  from Suc.prems(1,3) show ?case
  proof (cases rule: streams_cases [where r = r, case_names eof fail batch])
    case eof
    with Suc.prems show ?thesis by (auto dest: next_limits)
  next
    case fail
    with Suc.prems show ?thesis by auto
  next
    case (batch b i2 r2 m ys)
    obtain d u2 r3 where d: "sort_take cn xe b u r2 = (d, u2, r3)" by (cases "sort_take cn xe b u r2")
    note t = sort_take_result [OF d]
    show ?thesis
    proof (cases d)
      case None
      with batch d Suc.prems have lp: "sort_loop I cn xe k (i2, u2) r3 = (e, (i1, u1), r1)" by simp
      have "limits r3 = L" using t batch(1) Suc.prems(3) by (metis next_limits)
      from Suc.IH [OF batch(4) _ this lp] Suc.prems(2) batch t None show ?thesis
        by (auto dest: same_flags_trans)
    qed (use batch d Suc.prems in auto)
  qed
qed simp

lemma sort_loads:
  assumes "streams L I n i xs" "n < k" "un_opened u" "\<not> un_closed u" "of_rows u = []" "of_offset u = 0" "limits r = L"
  shows "loads L (sorted_rows xe ev ods xs) (sort_load I cn xe ev ods k (i, u) r)"
proof -
  obtain a s2 r2 where rd: "unary_ready I cn ''sort query rows'' (i, u) r = (a, s2, r2)"
    by (cases "unary_ready I cn ''sort query rows'' (i, u) r")
  show ?thesis
  proof (cases a)
    case (Some e)
    with rd unary_ready_error [of I cn _ i u r] assms(3,4) show ?thesis
      by (fastforce simp: sort_load_def loads_def)
  next
    case None
    with rd have s2: "s2 = (i, u)" "limits r2 = L"
      using unary_ready_open(1) unary_ready_limits assms(7) by metis+
    obtain e i3 u3 r3 where lp: "sort_loop I cn xe k (i, u) r2 = (e, (i3, u3), r3)" by (metis surj_pair)
    note l = sort_loop_result [OF assms(1,2) s2(2) lp]
    show ?thesis
    proof (cases e)
      case None
      with l have u3: "same_flags u u3" "of_rows u3 = xs" "limits r3 = L" using assms(5) by auto
      then show ?thesis
        using rd \<open>a = None\<close> s2 lp None assms(3,4,6) kept(2-5)
        by (auto simp: sort_load_def loads_def sorted_rows_def same_flags_def dest: kept split: prod.splits option.splits)
    qed (use l rd \<open>a = None\<close> s2 lp in \<open>auto simp: sort_load_def loads_def\<close>)
  qed
qed

lemma sort_streams:
  assumes "streams L I n i xs" "n < k" "un_opened u" "\<not> un_closed u" "of_rows u = []" "of_offset u = 0"
    "\<not> of_materialized u" "0 < sint (BatchSize L)"
  shows "streams L (sort_operator cn xe ev ods k I) (length xs) (i, u) (sorted_rows xe ev ods xs)"
  by (rule blocking_streams [where I = I and load = "sort_load I cn xe ev ods k"])
    (use assms in \<open>auto simp: sort_operator_def intro: sort_loads\<close>)

end

section \<open>Top-N\<close>

definition ranked_row :: "exec_env \<Rightarrow> evaluator \<Rightarrow> Order list \<Rightarrow> BindingRow \<Rightarrow> rankedRow" where
  "ranked_row xe ev ods row =
     (let values = (case rowOrderValues xe ev row ods of Inl e \<Rightarrow> [] | Inr vs \<Rightarrow> vs) in
      \<lparr>rk_row = row, rk_values = values, rk_retained = estimateBindingRow xe row + estimateValues xe values\<rparr>)"

definition topn_step :: "exec_env \<Rightarrow> Order list \<Rightarrow> int \<Rightarrow> rankedRow list \<Rightarrow> rankedRow \<Rightarrow> rankedRow list" where
  "topn_step xe ods n h c =
     (if int (length h) < n then heap_Push (topn_less xe ods) c h
      else if 0 \<le> compareRanked xe ods c (h ! 0) then h
      else heap_Push (topn_less xe ods) c (snd (heap_Pop (topn_less xe ods) h)))"

definition topn_heap :: "exec_env \<Rightarrow> evaluator \<Rightarrow> Order list \<Rightarrow> int \<Rightarrow> rankedRow list \<Rightarrow> BindingRow list \<Rightarrow> rankedRow list" where
  "topn_heap xe ev ods n h rows = foldl (topn_step xe ods n) h (map (ranked_row xe ev ods) rows)"

definition topn_rows :: "exec_env \<Rightarrow> evaluator \<Rightarrow> Order list \<Rightarrow> int \<Rightarrow> BindingRow list \<Rightarrow> BindingRow list" where
  "topn_rows xe ev ods n rows =
     (let h = topn_heap xe ev ods n [] rows
      in sorted_rows xe ev ods (map rk_row (heap_drain (topn_less xe ods) (length h) h)))"

lemma topn_take_result:
  "topn_take cn xe ev ods n b h u r = (e, h1, u1, r1) \<Longrightarrow>
     same_flags u u1 \<and> limits r1 = limits r \<and> (e = None \<longrightarrow> h1 = topn_heap xe ev ods n h b)"
proof (induction b arbitrary: h u r)
  case (Cons row b)
  obtain c r2 where c: "canceled cn ''select Top-N rows'' r = (c, r2)"
    by (cases "canceled cn ''select Top-N rows'' r")
  note l2 = canceled_limits [OF c]
  show ?case
  proof (cases "c = None \<and> (\<exists>vs. rowOrderValues xe ev row ods = Inr vs)")
    case False
    with c Cons.prems l2 show ?thesis by (cases c; cases "rowOrderValues xe ev row ods") auto
  next
    case True
    then obtain vs where vs: "c = None" "rowOrderValues xe ev row ods = Inr vs" by auto
    define cand where "cand = ranked_row xe ev ods row"
    have cand: "\<lparr>rk_row = row, rk_values = vs, rk_retained = estimateBindingRow xe row + estimateValues xe vs\<rparr> = cand"
      by (simp add: cand_def ranked_row_def vs(2))
    have step: "topn_heap xe ev ods n h (row # b) = topn_heap xe ev ods n (topn_step xe ods n h cand) b"
      by (simp add: topn_heap_def cand_def)
    obtain dropped h2 where pop: "heap_Pop (topn_less xe ods) h = (dropped, h2)"
      by (cases "heap_Pop (topn_less xe ods) h")
    define b0 where "b0 = estimateBindingRow xe row + estimateValues xe vs"
    note eq = Cons.prems [unfolded topn_take.simps c prod.case vs option.case sum.case Let_def cand pop, folded b0_def]
    consider (room) "int (length h) < n" | (worse) "\<not> int (length h) < n" "0 \<le> compareRanked xe ods cand (h ! 0)"
      | (better) "\<not> int (length h) < n" "\<not> 0 \<le> compareRanked xe ods cand (h ! 0)" by blast
    then show ?thesis
    proof cases
      case room
      obtain d u2 r3 where d: "reserve b0 u r2 = (d, u2, r3)" by (metis surj_pair)
      note u2 = reserve_result [OF d]
      show ?thesis
      proof (cases d)
        case None
        with eq room d have "topn_take cn xe ev ods n b (heap_Push (topn_less xe ods) cand h) u2 r3 = (e, h1, u1, r1)"
          by simp
        from Cons.IH [OF this] u2 l2 step room show ?thesis by (auto simp: topn_step_def dest: same_flags_trans)
      qed (use eq room d u2 l2 in auto)
    next
      case worse
      with eq have "topn_take cn xe ev ods n b h u r2 = (e, h1, u1, r1)" by simp
      from Cons.IH [OF this] l2 step worse show ?thesis by (auto simp: topn_step_def)
    next
      case better
      let ?u = "u\<lparr>of_retained := of_retained u - rk_retained dropped\<rparr>"
      obtain d u2 r3 where d: "reserve b0 ?u (release (rk_retained dropped) r2) = (d, u2, r3)" by (metis surj_pair)
      note u2 = reserve_result [OF d]
      show ?thesis
      proof (cases d)
        case None
        with eq better d have
          "topn_take cn xe ev ods n b (heap_Push (topn_less xe ods) cand h2) u2 r3 = (e, h1, u1, r1)" by simp
        from Cons.IH [OF this] u2 l2 step better pop show ?thesis
          by (auto simp: topn_step_def dest: same_flags_trans)
      qed (use eq better d u2 l2 in auto)
    qed
  qed
qed (auto simp: topn_heap_def)

lemma topn_heap_append:
  "topn_heap xe ev ods n h (xs @ ys) = topn_heap xe ev ods n (topn_heap xe ev ods n h xs) ys"
  by (simp add: topn_heap_def)

context row_source
begin

lemma topn_loop_result:
  "streams L I n i xs \<Longrightarrow> n < k \<Longrightarrow> limits r = L \<Longrightarrow> topn_loop I cn xe ev ods N k h (i, u) r = (e, h1, (i1, u1), r1) \<Longrightarrow>
     (\<exists>x. e = Some (Fail x)) \<or> e = None \<and> same_flags u u1 \<and> h1 = topn_heap xe ev ods N h xs \<and> limits r1 = L"
proof (induction k arbitrary: n i xs h u r)
  case (Suc k)
  from Suc.prems(1,3) show ?case
  proof (cases rule: streams_cases [where r = r, case_names eof fail batch])
    case eof
    with Suc.prems show ?thesis by (auto dest: next_limits simp: topn_heap_def)
  next
    case fail
    with Suc.prems show ?thesis by auto
  next
    case (batch b i2 r2 m ys)
    obtain d h2 u2 r3 where d: "topn_take cn xe ev ods N b h u r2 = (d, h2, u2, r3)" by (metis surj_pair)
    note t = topn_take_result [OF d]
    show ?thesis
    proof (cases d)
      case None
      with batch d Suc.prems have lp: "topn_loop I cn xe ev ods N k h2 (i2, u2) r3 = (e, h1, (i1, u1), r1)" by simp
      have "limits r3 = L" using t batch(1) Suc.prems(3) by (metis next_limits)
      from Suc.IH [OF batch(4) _ this lp] Suc.prems(2) batch t None show ?thesis
        by (auto dest: same_flags_trans simp: topn_heap_append)
    qed (use batch d Suc.prems in auto)
  qed
qed simp

lemma topn_loads:
  assumes "streams L I n i xs" "n < k" "un_opened u" "\<not> un_closed u" "of_offset u = 0" "limits r = L"
  shows "loads L (topn_rows xe ev ods N xs) (topn_load I cn xe ev ods N k (i, u) r)"
proof (cases rule: unary_ready_cases [OF assms(3,4), of I cn "''select Top-N rows''" i r, case_names fail go])
  case fail
  then show ?thesis by (simp add: topn_load_def loads_def)
next
  case (go r2)
  obtain e h i3 u3 r3 where lp: "topn_loop I cn xe ev ods N k [] (i, u) r2 = (e, h, (i3, u3), r3)" by (metis surj_pair)
  have "limits r2 = L" using go(2) assms(6) by simp
  note l = topn_loop_result [OF assms(1,2) this lp]
  show ?thesis
  proof (cases e)
    case None
    with l have "same_flags u u3" "h = topn_heap xe ev ods N [] xs" "limits r3 = L" by auto
    then show ?thesis
      using go lp None assms(3-5)
      by (auto simp: topn_load_def loads_def sorted_rows_def topn_rows_def Let_def same_flags_def
          dest: kept split: prod.splits option.splits)
  qed (use l go lp in \<open>auto simp: topn_load_def loads_def\<close>)
qed

lemma topn_streams:
  assumes "streams L I n i xs" "n < k" "un_opened u" "\<not> un_closed u" "of_offset u = 0"
    "\<not> of_materialized u" "0 < sint (BatchSize L)" "length (topn_rows xe ev ods N xs) \<le> m"
  shows "streams L (topn_operator cn xe ev ods N k I) m (i, u) (topn_rows xe ev ods N xs)"
  by (rule blocking_streams [where I = I and load = "topn_load I cn xe ev ods N k"])
    (use assms in \<open>auto simp: topn_operator_def intro: topn_loads\<close>)

end

section \<open>Aggregation\<close>

definition new_group :: "Aggregate list \<Rightarrow> BindingRow \<Rightarrow> qrow \<Rightarrow> aggregateGroup" where
  "new_group as row projected =
     \<lparr>gr_row = row, gr_projected = projected, gr_states = replicate (length as) no_aggregate\<rparr>"

definition group_step ::
    "exec_env \<Rightarrow> evaluator \<Rightarrow> Projection list \<Rightarrow> Aggregate list \<Rightarrow> BindingRow \<Rightarrow> groups \<Rightarrow> exec_error + groups" where
  "group_step xe ev ps as row gs =
     (case projectRow xe ev row ps of
        Inl e \<Rightarrow> Inl e
      | Inr projected \<Rightarrow>
          (let key = canonicalRow xe projected;
               gs1 = (if map_of gs key = None then gs @ [(key, new_group as row projected)] else gs);
               g = the (map_of gs1 key) in
           case accumulate xe ev row as (gr_states g) of
             Inl e \<Rightarrow> Inl e
           | Inr sts \<Rightarrow> Inr (AList.update key (g\<lparr>gr_states := sts\<rparr>) gs1)))"

fun group_rows ::
    "exec_env \<Rightarrow> evaluator \<Rightarrow> Projection list \<Rightarrow> Aggregate list \<Rightarrow> BindingRow list \<Rightarrow> groups \<Rightarrow> exec_error + groups" where
  "group_rows xe ev ps as [] gs = Inr gs"
| "group_rows xe ev ps as (row # rows) gs =
     (case group_step xe ev ps as row gs of Inl e \<Rightarrow> Inl e | Inr gs1 \<Rightarrow> group_rows xe ev ps as rows gs1)"

definition finish_groups :: "Projection list \<Rightarrow> Aggregate list \<Rightarrow> groups \<Rightarrow> BindingRow list" where
  "finish_groups ps as gs =
     map (\<lambda>(key, g). group_row as g)
       (sort_key fst (if gs = [] \<and> ps = [] then [(''{}'', new_group as empty_row [])] else gs))"

definition aggregate_rows ::
    "exec_env \<Rightarrow> evaluator \<Rightarrow> Projection list \<Rightarrow> Aggregate list \<Rightarrow> BindingRow list \<Rightarrow> BindingRow list" where
  "aggregate_rows xe ev ps as rows =
     (case group_rows xe ev ps as rows [] of Inl e \<Rightarrow> [] | Inr gs \<Rightarrow> finish_groups ps as gs)"

lemma group_rows_append:
  "group_rows xe ev ps as (xs @ ys) gs =
     (case group_rows xe ev ps as xs gs of Inl e \<Rightarrow> Inl e | Inr gs1 \<Rightarrow> group_rows xe ev ps as ys gs1)"
  by (induction xs arbitrary: gs) (auto split: sum.splits)

lemma length_update_le: "length (AList.update k v kvs) \<le> Suc (length kvs)"
  by (induction kvs) auto

lemma length_update_present: "map_of kvs k \<noteq> None \<Longrightarrow> length (AList.update k v kvs) = length kvs"
  by (induction kvs) auto

lemma group_step_length: "group_step xe ev ps as row gs = Inr gs1 \<Longrightarrow> length gs1 \<le> Suc (length gs)"
  by (auto simp: group_step_def Let_def length_update_present map_add_def split: sum.splits if_splits)

lemma group_rows_length: "group_rows xe ev ps as rows gs = Inr gs1 \<Longrightarrow> length gs1 \<le> length rows + length gs"
proof (induction rows arbitrary: gs)
  case (Cons row rows)
  then obtain gs2 where "group_step xe ev ps as row gs = Inr gs2" "group_rows xe ev ps as rows gs2 = Inr gs1"
    by (auto split: sum.splits)
  with Cons.IH [of gs2] group_step_length [of xe ev ps as row gs gs2] show ?case by simp
qed simp

lemma length_aggregate_rows: "length (aggregate_rows xe ev ps as rows) \<le> Suc (length rows)"
  using group_rows_length [of xe ev ps as rows "[]"]
  by (auto simp: aggregate_rows_def finish_groups_def split: sum.splits)

lemma aggregate_take_result:
  "aggregate_take cn xe ev ps as b gs u r = (e, gs1, u1, r1) \<Longrightarrow>
     same_flags u u1 \<and> limits r1 = limits r \<and> (e = None \<longrightarrow> group_rows xe ev ps as b gs = Inr gs1)"
proof (induction b arbitrary: gs u r)
  case (Cons row b)
  obtain c r2 where c: "canceled cn ''aggregate query rows'' r = (c, r2)"
    by (cases "canceled cn ''aggregate query rows'' r")
  note l2 = canceled_limits [OF c]
  show ?case
  proof (cases "c = None \<and> (\<exists>p. projectRow xe ev row ps = Inr p)")
    case False
    with c Cons.prems l2 show ?thesis by (cases c; cases "projectRow xe ev row ps") auto
  next
    case True
    then obtain p where p: "c = None" "projectRow xe ev row ps = Inr p" by auto
    define key where "key = canonicalRow xe p"
    define bytes where "bytes = estimateBindingRow xe row + estimateProjectedRow xe p + int64_len key + 64 * int64_len as"
    define gs2 where "gs2 = (if map_of gs key = None then gs @ [(key, new_group as row p)] else gs)"
    obtain d gs3 u2 r3 where d: "(case map_of gs key of Some g \<Rightarrow> (None, gs, u, r2)
        | None \<Rightarrow> (case reserve bytes u r2 of (Some e, u1, r2) \<Rightarrow> (Some e, gs, u1, r2)
          | (None, u1, r2) \<Rightarrow> (None, gs @ [(key, new_group as row p)], u1, r2))) = (d, gs3, u2, r3)"
      by (rule prod_cases4)
    note eq = Cons.prems [unfolded aggregate_take.simps c prod.case p option.case sum.case Let_def,
        folded key_def new_group_def, folded bytes_def, unfolded d prod.case]
    have u2: "same_flags u u2" "limits r3 = limits r2" "d = None \<Longrightarrow> gs3 = gs2"
      using d reserve_result [of bytes u r2] by (auto simp: gs2_def split: option.splits prod.splits)
    show ?thesis
    proof (cases d)
      case None
      note eq = eq [unfolded None option.case u2(3) [OF None]]
      have step: "group_step xe ev ps as row gs =
          (case accumulate xe ev row as (gr_states (the (map_of gs2 key))) of Inl e \<Rightarrow> Inl e
           | Inr sts \<Rightarrow> Inr (AList.update key ((the (map_of gs2 key))\<lparr>gr_states := sts\<rparr>) gs2))"
        unfolding group_step_def p(2) sum.case Let_def key_def [symmetric] gs2_def [symmetric] by (rule refl)
      show ?thesis
      proof (cases "accumulate xe ev row as (gr_states (the (map_of gs2 key)))")
        case (Inl x)
        with eq u2 l2 show ?thesis by auto
      next
        case (Inr sts)
        with eq have "aggregate_take cn xe ev ps as b
            (AList.update key ((the (map_of gs2 key))\<lparr>gr_states := sts\<rparr>) gs2) u2 r3 = (e, gs1, u1, r1)" by simp
        from Cons.IH [OF this] u2 l2 Inr step show ?thesis by (auto dest: same_flags_trans)
      qed
    qed (use eq u2 l2 in auto)
  qed
qed auto

context row_source
begin

lemma aggregate_loop_result:
  "streams L I n i xs \<Longrightarrow> n < k \<Longrightarrow> limits r = L \<Longrightarrow>
     aggregate_loop I cn xe ev ps as k gs (i, u) r = (e, gs1, (i1, u1), r1) \<Longrightarrow>
     (\<exists>x. e = Some (Fail x)) \<or>
     e = None \<and> same_flags u u1 \<and> group_rows xe ev ps as xs gs = Inr gs1 \<and> limits r1 = L"
proof (induction k arbitrary: n i xs gs u r)
  case (Suc k)
  from Suc.prems(1,3) show ?case
  proof (cases rule: streams_cases [where r = r, case_names eof fail batch])
    case eof
    with Suc.prems show ?thesis by (auto dest: next_limits)
  next
    case fail
    with Suc.prems show ?thesis by auto
  next
    case (batch b i2 r2 m ys)
    obtain d gs2 u2 r3 where d: "aggregate_take cn xe ev ps as b gs u r2 = (d, gs2, u2, r3)" by (metis surj_pair)
    note t = aggregate_take_result [OF d]
    show ?thesis
    proof (cases d)
      case None
      with batch d Suc.prems have lp: "aggregate_loop I cn xe ev ps as k gs2 (i2, u2) r3 = (e, gs1, (i1, u1), r1)"
        by simp
      have "limits r3 = L" using t batch(1) Suc.prems(3) by (metis next_limits)
      from Suc.IH [OF batch(4) _ this lp] Suc.prems(2) batch t None show ?thesis
        by (auto dest: same_flags_trans simp: group_rows_append)
    qed (use batch d Suc.prems in auto)
  qed
qed simp

lemma aggregate_loads:
  assumes "streams L I n i xs" "n < k" "un_opened u" "\<not> un_closed u" "of_offset u = 0" "limits r = L"
  shows "loads L (aggregate_rows xe ev ps as xs) (aggregate_load I cn xe ev ps as k (i, u) r)"
proof (cases rule: unary_ready_cases [OF assms(3,4), of I cn "''aggregate query rows''" i r, case_names fail go])
  case fail
  then show ?thesis by (simp add: aggregate_load_def loads_def)
next
  case (go r2)
  obtain e gs i3 u3 r3 where lp: "aggregate_loop I cn xe ev ps as k [] (i, u) r2 = (e, gs, (i3, u3), r3)"
    by (metis surj_pair)
  have "limits r2 = L" using go(2) assms(6) by simp
  note l = aggregate_loop_result [OF assms(1,2) this lp]
  show ?thesis
  proof (cases e)
    case None
    with l have gs: "same_flags u u3" "group_rows xe ev ps as xs [] = Inr gs" "limits r3 = L" by auto
    define gs2 where "gs2 = (if gs = [] \<and> ps = [] then [(''{}'', new_group as empty_row [])] else gs)"
    obtain d gs3 u4 r4 where d: "(if gs = [] \<and> ps = []
        then (case reserve (64 * int64_len as + 64) u3 r3 of (Some e, u1, r3) \<Rightarrow> (Some e, gs, u1, r3)
          | (None, u1, r3) \<Rightarrow> (None, [(''{}'', new_group as empty_row [])], u1, r3))
        else (None, gs, u3, r3)) = (d, gs3, u4, r4)" by (rule prod_cases4)
    then have u4: "same_flags u3 u4" "limits r4 = L" "d = None \<Longrightarrow> gs3 = gs2"
      using reserve_result [of "64 * int64_len as + 64" u3 r3] gs(3)
      by (auto simp: gs2_def split: prod.splits option.splits if_splits)
    have out: "aggregate_rows xe ev ps as xs = map (\<lambda>(key, g). group_row as g) (sort_key fst gs2)"
      using gs(2) by (simp add: aggregate_rows_def finish_groups_def gs2_def)
    obtain t r5 where tr: "track (ProduceIntermediate (int64_len (aggregate_rows xe ev ps as xs))) r4 = (t, r5)"
      by (metis surj_pair)
    show ?thesis
    proof (cases d)
      case (Some x)
      have "aggregate_load I cn xe ev ps as k (i, u) r = (Some (Fail x), (i3, u4), r4)"
        unfolding aggregate_load_def go(1) lp None prod.case option.case
          d [unfolded new_group_def Some] by (rule refl)
      then show ?thesis by (simp add: loads_def)
    next
      case dn: None
      have "aggregate_load I cn xe ev ps as k (i, u) r =
          (case t of Some e \<Rightarrow> (Some (Fail e), (i3, u4\<lparr>of_rows := aggregate_rows xe ev ps as xs\<rparr>), r5)
           | None \<Rightarrow> (None, (i3, u4\<lparr>of_rows := aggregate_rows xe ev ps as xs, of_materialized := True\<rparr>), r5))"
        unfolding aggregate_load_def go(1) lp None prod.case option.case d [unfolded new_group_def dn]
          u4(3) [OF dn] out [symmetric] Let_def tr by (cases t) simp_all
      then show ?thesis using gs(1) u4(1,2) assms(3-5) tr
        by (auto simp: loads_def same_flags_def dest: kept split: option.splits)
    qed
  qed (use l go lp in \<open>auto simp: aggregate_load_def loads_def\<close>)
qed

lemma aggregate_streams:
  assumes "streams L I n i xs" "n < k" "un_opened u" "\<not> un_closed u" "of_offset u = 0"
    "\<not> of_materialized u" "0 < sint (BatchSize L)" "length (aggregate_rows xe ev ps as xs) \<le> m"
  shows "streams L (aggregate_operator cn xe ev ps as k I) m (i, u) (aggregate_rows xe ev ps as xs)"
  by (rule blocking_streams [where I = I and load = "aggregate_load I cn xe ev ps as k"])
    (use assms in \<open>auto simp: aggregate_operator_def intro: aggregate_loads\<close>)

end

end
