(* ===== verification/Query_Reference.thy ===== *)
theory Query_Reference
  imports Query_Loads
begin

text \<open>
  What a plan of operators computes: \<open>plan_rows\<close> is a function on lists of rows, and the operators of a plan
  stream it. So a pipeline that ends without an error has delivered exactly these rows, and with fuel above
  the number of batches it always ends.
\<close>

section \<open>No operator changes the limits\<close>

context row_source
begin

lemma unary_close_limits: "unary_close I s r = (e, s1, r1) \<Longrightarrow> limits r1 = limits r"
  by (cases s) (auto simp: unary_close_def split: if_splits prod.splits dest: close_limits)

lemma unary_fail_limits: "unary_fail I e s r = (x, s1, r1) \<Longrightarrow> limits r1 = limits r"
  by (auto simp: unary_fail_def split: prod.splits dest: unary_close_limits)

lemma unary_ready_keeps: "unary_ready I cn name s r = (e, s1, r1) \<Longrightarrow> limits r1 = limits r"
  by (cases s) (auto simp: unary_ready_def split: prod.splits option.splits if_splits
      dest!: unary_close_limits canceled_limits)

lemma unary_open_limits: "unary_open I cn name s r = (e, s1, r1) \<Longrightarrow> limits r1 = limits r"
  by (cases s) (auto simp: unary_open_def split: prod.splits option.splits if_splits
      dest!: open_limits close_limits canceled_limits)

lemma close_rows_limits: "close_rows I s r = (e, s1, r1) \<Longrightarrow> limits r1 = limits r"
  by (cases s) (auto simp: close_rows_def dest!: unary_close_limits)

lemma nextBatch_limits: "nextBatch I cn name s r = (e, s1, r1) \<Longrightarrow> limits r1 = limits r"
  by (auto simp: nextBatch_def Let_def split: prod.splits option.splits if_splits dest!: unary_ready_keeps)

lemma blocking_Open_limits: "blocking_Open I cn name s r = (e, s1, r1) \<Longrightarrow> limits r1 = limits r"
  by (cases s) (auto simp: blocking_Open_def dest!: unary_open_limits)

lemma blocking_Next_limits:
  assumes "\<And>s r e s1 r1. load s r = (e, s1, r1) \<Longrightarrow> limits r1 = limits r"
  shows "blocking_Next I cn name load s r = (e, s1, r1) \<Longrightarrow> limits r1 = limits r"
  by (cases s) (auto simp: blocking_Next_def split: prod.splits option.splits if_splits
      dest!: assms nextBatch_limits close_rows_limits)

lemmas unary_kept = unary_close_limits unary_fail_limits unary_ready_keeps unary_open_limits
  close_rows_limits nextBatch_limits blocking_Open_limits next_limits

lemma filter_loop_limits: "filter_loop I cn xe ev p k s r = (e, s1, r1) \<Longrightarrow> limits r1 = limits r"
proof (induction k arbitrary: s r)
  case (Suc k)
  then show ?case
    by (cases s) (auto split: prod.splits sum.splits next_error.splits option.splits if_splits
        dest!: unary_kept kept filter_rows_limits)
qed auto

lemma project_rows_limits: "project_rows cn xe ev ps rows r = (f, r1) \<Longrightarrow> limits r1 = limits r"
  by (induction rows arbitrary: r f r1)
    (auto dest!: canceled_limits split: prod.splits option.splits sum.splits)

lemma offset_loop_limits: "offset_loop I k s r = (e, s1, r1) \<Longrightarrow> limits r1 = limits r"
proof (induction k arbitrary: s r)
  case (Suc k)
  then show ?case
    by (cases s) (auto split: prod.splits sum.splits next_error.splits if_splits dest!: unary_kept)
qed auto

lemma distinct_Close_limits: "distinct_Close I s r = (e, s1, r1) \<Longrightarrow> limits r1 = limits r"
proof -
  have fold: "limits (foldl (\<lambda>r1 (key, bytes). release bytes r1) r seen) = limits r"
    for r and seen :: "(string \<times> u64) list"
    by (induction seen arbitrary: r) auto
  show "distinct_Close I s r = (e, s1, r1) \<Longrightarrow> limits r1 = limits r"
    by (cases s) (auto simp: distinct_Close_def fold dest!: unary_close_limits)
qed

lemma distinct_fail_limits: "distinct_fail I x s r = (e, s1, r1) \<Longrightarrow> limits r1 = limits r"
  by (auto simp: distinct_fail_def split: prod.splits dest!: distinct_Close_limits)

lemma distinct_loop_limits: "distinct_loop I cn xe k s r = (e, s1, r1) \<Longrightarrow> limits r1 = limits r"
proof (induction k arbitrary: s r)
  case (Suc k)
  then show ?case
    by (cases s) (auto split: prod.splits sum.splits next_error.splits if_splits
        dest!: unary_kept distinct_fail_limits distinct_rows_limits)
qed auto

lemma sort_load_limits: "sort_load I cn xe ev ods k s r = (e, s1, r1) \<Longrightarrow> limits r1 = limits r"
proof -
  have loop: "sort_loop I cn xe k s r = (e, s1, r1) \<Longrightarrow> limits r1 = limits r" for k s r e s1 r1
  proof (induction k arbitrary: s r)
    case (Suc k)
    then show ?case
      by (cases s) (auto split: prod.splits sum.splits next_error.splits option.splits
          dest!: next_limits sort_take_result)
  qed auto
  show "sort_load I cn xe ev ods k s r = (e, s1, r1) \<Longrightarrow> limits r1 = limits r"
    by (auto simp: sort_load_def split: prod.splits option.splits dest!: loop unary_ready_keeps kept)
qed

lemma topn_load_limits: "topn_load I cn xe ev ods n k s r = (e, s1, r1) \<Longrightarrow> limits r1 = limits r"
proof -
  have loop: "topn_loop I cn xe ev ods n k h s r = (e, h1, s1, r1) \<Longrightarrow> limits r1 = limits r" for k h s r e h1 s1 r1
  proof (induction k arbitrary: h s r)
    case (Suc k)
    then show ?case
      by (cases s) (auto split: prod.splits sum.splits next_error.splits option.splits
          dest!: next_limits topn_take_result)
  qed auto
  show "topn_load I cn xe ev ods n k s r = (e, s1, r1) \<Longrightarrow> limits r1 = limits r"
    by (auto simp: topn_load_def split: prod.splits option.splits dest!: loop unary_ready_keeps kept)
qed

lemma aggregate_load_limits: "aggregate_load I cn xe ev ps as k s r = (e, s1, r1) \<Longrightarrow> limits r1 = limits r"
proof -
  have loop: "aggregate_loop I cn xe ev ps as k gs s r = (e, gs1, s1, r1) \<Longrightarrow> limits r1 = limits r"
    for ps k gs s r e gs1 s1 r1
  proof (induction k arbitrary: gs s r)
    case (Suc k)
    then show ?case
      by (cases s) (auto split: prod.splits sum.splits next_error.splits option.splits
          dest!: next_limits aggregate_take_result)
  qed auto
  show "aggregate_load I cn xe ev ps as k s r = (e, s1, r1) \<Longrightarrow> limits r1 = limits r"
    by (auto simp: aggregate_load_def Let_def split: prod.splits option.splits if_splits
        dest!: loop unary_ready_keeps kept reserve_result(3))
qed

lemma filter_source: "row_source (filter_operator cn xe ev p k I)"
  by unfold_locales (auto simp: filter_operator_def split: prod.splits option.splits
      dest!: unary_kept filter_loop_limits)

lemma projection_source: "row_source (projection_operator cn xe ev ps I)"
  by unfold_locales (auto simp: projection_operator_def projection_Next_def
      split: prod.splits option.splits sum.splits next_error.splits
      dest!: unary_kept project_rows_limits kept)

lemma offset_source: "row_source (offset_operator cn x k I)"
  by unfold_locales (auto simp: offset_operator_def offset_Open_def split: prod.splits option.splits if_splits
      dest!: unary_kept offset_loop_limits)

lemma limit_source: "row_source (limit_operator cn x I)"
  by unfold_locales (auto simp: limit_operator_def limit_Open_def limit_Next_def Let_def
      split: prod.splits option.splits sum.splits next_error.splits if_splits dest!: unary_kept)

lemma distinct_source: "row_source (distinct_operator cn xe k I)"
  by unfold_locales (auto simp: distinct_operator_def distinct_Open_def split: prod.splits option.splits
      dest!: unary_kept distinct_loop_limits distinct_Close_limits)

lemma sort_Next_limits:
  "blocking_Next I cn name (sort_load I cn xe ev ods k) s r = (e, s1, r1) \<Longrightarrow> limits r1 = limits r"
  by (rule blocking_Next_limits) (rule sort_load_limits)

lemma sort_source: "row_source (sort_operator cn xe ev ods k I)"
  by unfold_locales (auto simp: sort_operator_def
      dest!: unary_kept sort_Next_limits)

lemma topn_Next_limits:
  "blocking_Next I cn name (topn_load I cn xe ev ods n k) s r = (e, s1, r1) \<Longrightarrow> limits r1 = limits r"
  by (rule blocking_Next_limits) (rule topn_load_limits)

lemma topn_source: "row_source (topn_operator cn xe ev ods n k I)"
  by unfold_locales (auto simp: topn_operator_def topn_Open_def split: if_splits
      dest!: unary_kept topn_Next_limits)

lemma aggregate_Next_limits:
  "blocking_Next I cn name (aggregate_load I cn xe ev ps as k) s r = (e, s1, r1) \<Longrightarrow> limits r1 = limits r"
  by (rule blocking_Next_limits) (rule aggregate_load_limits)

lemma aggregate_source: "row_source (aggregate_operator cn xe ev ps as k I)"
  by unfold_locales (auto simp: aggregate_operator_def
      dest!: unary_kept aggregate_Next_limits)

end

lemma on_unary_source: "row_source U \<Longrightarrow> row_source (on_unary U)"
  by (auto simp: row_source_def on_unary_def split: op_state.splits prod.splits)

lemma on_source_source: "row_source S \<Longrightarrow> row_source (on_source S)"
  by (auto simp: row_source_def on_source_def split: op_state.splits prod.splits)

theorem operator_of_source: "row_source S \<Longrightarrow> row_source (operator_of cn xe k S plan)"
proof (induction plan)
  case PSource
  then show ?case by (simp add: on_source_source)
qed (auto intro!: on_unary_source row_source.filter_source row_source.projection_source row_source.offset_source
    row_source.limit_source row_source.distinct_source row_source.sort_source row_source.topn_source
    row_source.aggregate_source)

text \<open>The source of given rows is one.\<close>

interpretation slice: row_source "slice_source cn" for cn
  by unfold_locales (auto simp: slice_source_def slice_Open_def slice_Next_def slice_Close_def slice_ready_def
      Let_def split: prod.splits option.splits if_splits dest!: kept)

section \<open>What a plan computes\<close>

primrec plan_rows :: "exec_env \<Rightarrow> op_plan \<Rightarrow> BindingRow list \<Rightarrow> BindingRow list" where
  "plan_rows xe PSource xs = xs"
| "plan_rows xe (PFilter ev p q) xs = filter (matches xe ev p) (plan_rows xe q xs)"
| "plan_rows xe (PProjection ev ps q) xs = map (projected_row xe ev ps) (plan_rows xe q xs)"
| "plan_rows xe (POffset n q) xs = drop (nat (sint n)) (plan_rows xe q xs)"
| "plan_rows xe (PLimit n q) xs = take (nat (sint n)) (plan_rows xe q xs)"
| "plan_rows xe (PDistinct q) xs = distinct_from (row_key xe) {} (plan_rows xe q xs)"
| "plan_rows xe (PSort ev ods q) xs = sorted_rows xe ev ods (plan_rows xe q xs)"
| "plan_rows xe (PTopN ev ods n q) xs = topn_rows xe ev ods n (plan_rows xe q xs)"
| "plan_rows xe (PAggregate ev ps as q) xs = aggregate_rows xe ev ps as (plan_rows xe q xs)"

text \<open>A limit of zero would let everything through; \<open>buildPipeline\<close> makes no such operator.\<close>

primrec plan_ok :: "op_plan \<Rightarrow> bool" where
  "plan_ok PSource \<longleftrightarrow> True"
| "plan_ok (PFilter ev p q) \<longleftrightarrow> plan_ok q"
| "plan_ok (PProjection ev ps q) \<longleftrightarrow> plan_ok q"
| "plan_ok (POffset n q) \<longleftrightarrow> plan_ok q"
| "plan_ok (PLimit n q) \<longleftrightarrow> 0 < sint n \<and> plan_ok q"
| "plan_ok (PDistinct q) \<longleftrightarrow> plan_ok q"
| "plan_ok (PSort ev ods q) \<longleftrightarrow> plan_ok q"
| "plan_ok (PTopN ev ods n q) \<longleftrightarrow> plan_ok q"
| "plan_ok (PAggregate ev ps as q) \<longleftrightarrow> plan_ok q"

text \<open>An aggregation can add a row; every operator costs at most one batch more.\<close>

primrec plan_depth :: "op_plan \<Rightarrow> nat" where
  "plan_depth PSource = 0"
| "plan_depth (PFilter ev p q) = Suc (plan_depth q)"
| "plan_depth (PProjection ev ps q) = Suc (plan_depth q)"
| "plan_depth (POffset n q) = Suc (plan_depth q)"
| "plan_depth (PLimit n q) = Suc (plan_depth q)"
| "plan_depth (PDistinct q) = Suc (plan_depth q)"
| "plan_depth (PSort ev ods q) = Suc (plan_depth q)"
| "plan_depth (PTopN ev ods n q) = Suc (plan_depth q)"
| "plan_depth (PAggregate ev ps as q) = Suc (plan_depth q)"

lemma length_swap_at [simp]: "length (swap_at i j h) = length h"
  by (simp add: swap_at_def)

lemma length_heap_up [simp]: "length (heap_up lt h j) = length h"
  by (induction lt h j rule: heap_up.induct) (subst heap_up.simps, simp add: Let_def)

lemma length_heap_down [simp]: "length (heap_down lt h i n) = length h"
proof (induction lt h i n rule: heap_down.induct)
  case (1 lt h i n)
  then show ?case by (subst heap_down.simps) (simp add: Let_def)
qed

lemma length_heap_Push [simp]: "length (heap_Push lt x h) = Suc (length h)"
  by (simp add: heap_Push_def)

lemma length_heap_Pop [simp]: "length (snd (heap_Pop lt h)) = length h - 1"
  by (simp add: heap_Pop_def Let_def)

lemma length_topn_step: "length (topn_step xe ods n h c) \<le> Suc (length h)"
  by (auto simp: topn_step_def)

lemma length_topn_heap: "length (topn_heap xe ev ods n h xs) \<le> length xs + length h"
proof (induction xs arbitrary: h)
  case (Cons x xs)
  from Cons [of "topn_step xe ods n h (ranked_row xe ev ods x)"] length_topn_step show ?case
    by (force simp: topn_heap_def intro: order_trans)
qed (simp add: topn_heap_def)

lemma length_heap_drain: "length (heap_drain lt k h) \<le> k"
  by (induction k arbitrary: h) (auto split: prod.splits)

lemma length_topn_rows: "length (topn_rows xe ev ods n xs) \<le> length xs"
  using length_topn_heap [of xe ev ods n "[]" xs] length_heap_drain
  by (auto simp: topn_rows_def Let_def intro: order_trans)

lemma length_distinct_from: "length (distinct_from key seen xs) \<le> length xs"
  by (induction xs arbitrary: seen) (auto intro: le_SucI)

lemma length_plan_rows: "length (plan_rows xe plan xs) \<le> length xs + plan_depth plan"
proof (induction plan)
  case (PFilter ev p q)
  then show ?case by (auto intro: le_trans [OF length_filter_le])
next
  case (PDistinct q)
  then show ?case by (auto intro: le_trans [OF length_distinct_from])
next
  case (PTopN ev ods n q)
  then show ?case by (auto intro: le_trans [OF length_topn_rows])
next
  case (PAggregate ev ps as q)
  then show ?case by (auto intro: le_trans [OF length_aggregate_rows])
qed auto

section \<open>The operators of a plan stream its rows\<close>

lemma on_unary_streams: "streams L U n (i, u) xs \<Longrightarrow> streams L (on_unary U) n (StUnary i u) xs"
proof (induction n arbitrary: i u xs rule: less_induct)
  case (less n)
  have nx: "op_Next (on_unary U) (StUnary i u) r =
      (case op_Next U (i, u) r of (e, (i1, u1), r1) \<Rightarrow> (e, StUnary i1 u1, r1))" for r
    by (simp add: on_unary_def)
  show ?case
  proof (rule streamsI)
    fix r b s1 r1 assume l: "limits r = L" "op_Next (on_unary U) (StUnary i u) r = (Inr b, s1, r1)"
    with nx [of r] obtain i1 u1 where s1: "s1 = StUnary i1 u1" "op_Next U (i, u) r = (Inr b, (i1, u1), r1)"
      by (auto split: prod.splits)
    from streams_batch [OF less.prems l(1) s1(2)] obtain m ys where
      "n = Suc m" "xs = b @ ys" "streams L U m (i1, u1) ys" .
    with less.IH [of m i1 u1 ys] s1 show "\<exists>m ys. n = Suc m \<and> xs = b @ ys \<and> streams L (on_unary U) m s1 ys" by blast
  qed (use less.prems nx in \<open>auto split: prod.splits dest: streams_EOF streams_Diverge\<close>)
qed

lemma on_source_streams: "streams L S n x xs \<Longrightarrow> streams L (on_source S) n (StSource x) xs"
proof (induction n arbitrary: x xs rule: less_induct)
  case (less n)
  have nx: "op_Next (on_source S) (StSource x) r = (case op_Next S x r of (e, x1, r1) \<Rightarrow> (e, StSource x1, r1))" for r
    by (simp add: on_source_def)
  show ?case
  proof (rule streamsI)
    fix r b s1 r1 assume l: "limits r = L" "op_Next (on_source S) (StSource x) r = (Inr b, s1, r1)"
    with nx [of r] obtain x1 where s1: "s1 = StSource x1" "op_Next S x r = (Inr b, x1, r1)"
      by (auto split: prod.splits)
    from streams_batch [OF less.prems l(1) s1(2)] obtain m ys where
      "n = Suc m" "xs = b @ ys" "streams L S m x1 ys" .
    with less.IH [of m x1 ys] s1 show "\<exists>m ys. n = Suc m \<and> xs = b @ ys \<and> streams L (on_source S) m s1 ys" by blast
  qed (use less.prems nx in \<open>auto split: prod.splits dest: streams_EOF streams_Diverge\<close>)
qed

lemma unary_open_ok:
  assumes "unary_open I cn name (i, u) r = (None, s1, r1)"
  shows "\<exists>i1 r0. s1 = (i1, u\<lparr>un_opened := True, un_closed := False, un_closeErr := None\<rparr>) \<and>
     op_Open I i r0 = (None, i1, r1) \<and> limits r0 = limits r"
  using assms by (auto simp: unary_open_def split: prod.splits option.splits if_splits dest!: canceled_limits)

lemma opens_unary:
  assumes "\<And>r s1 r1. op_Open A (i, u) r = (None, s1, r1) \<Longrightarrow> unary_open I cn name (i, v) r = (None, s1, r1)"
    and "opens L I m i xs"
    and "\<And>i1. streams L I m i1 xs \<Longrightarrow>
      streams L A n (i1, v\<lparr>un_opened := True, un_closed := False, un_closeErr := None\<rparr>) ys"
  shows "opens L (on_unary A) n (StUnary i u) ys"
  unfolding opens_def
proof (intro allI impI)
  fix r s1 r1 assume l: "limits r = L" "op_Open (on_unary A) (StUnary i u) r = (None, s1, r1)"
  then obtain t1 where t1: "op_Open A (i, u) r = (None, t1, r1)" "s1 = StUnary (fst t1) (snd t1)"
    by (auto simp: on_unary_def split: prod.splits)
  from unary_open_ok [OF assms(1) [OF t1(1)]] obtain i1 r0 where i1:
    "t1 = (i1, v\<lparr>un_opened := True, un_closed := False, un_closeErr := None\<rparr>)"
    "op_Open I i r0 = (None, i1, r1)" "limits r0 = limits r" by blast
  with assms(2) l(1) have "streams L I m i1 xs" by (auto simp: opens_def)
  from assms(3) [OF this] t1(2) i1(1) show "streams L (on_unary A) n s1 ys" by (simp add: on_unary_streams)
qed

lemma streams_source:
  assumes "opens L S n s xs"
  shows "opens L (on_source S) n (StSource s) xs"
  using assms by (auto simp: opens_def on_source_def [of S] split: prod.splits
      intro: on_source_streams [unfolded on_source_def])

theorem plan_streams:
  assumes "row_source S" "opens L S n s xs" "0 < sint (BatchSize L)"
  shows "plan_ok plan \<Longrightarrow> n + length xs + plan_depth plan < k \<Longrightarrow> n + length xs + plan_depth plan < 2 ^ 63 \<Longrightarrow>
     opens L (operator_of cn xe k S plan) (n + length xs + plan_depth plan) (new_state plan s) (plan_rows xe plan xs)"
proof (induction plan)
  case PSource
  have "streams L (on_source S) n s1 xs \<Longrightarrow> streams L (on_source S) (n + length xs) s1 xs" for s1
    by (erule streams_mono) simp
  with streams_source [OF assms(2)] show ?case unfolding opens_def by simp
next
  case (PFilter ev p q)
  note src = operator_of_source [OF assms(1), of cn xe k q]
  have IH: "opens L (operator_of cn xe k S q) (n + length xs + plan_depth q) (new_state q s) (plan_rows xe q xs)"
    using PFilter by simp
  show ?case unfolding operator_of.simps new_state.simps plan_rows.simps
  proof (rule opens_unary [OF _ IH, where v = "new_fields 0"])
    fix i1 assume st: "streams L (operator_of cn xe k S q) (n + length xs + plan_depth q) i1 (plan_rows xe q xs)"
    show "streams L (filter_operator cn xe ev p k (operator_of cn xe k S q)) (n + length xs + plan_depth (PFilter ev p q))
        (i1, (new_fields 0)\<lparr>un_opened := True, un_closed := False, un_closeErr := None\<rparr>) (filter (matches xe ev p) (plan_rows xe q xs))"
      by (rule streams_mono [OF row_source.filter_streams [OF src st]]) (use PFilter in auto)
  qed (auto simp: filter_operator_def)
next
  case (PProjection ev ps q)
  note src = operator_of_source [OF assms(1), of cn xe k q]
  have IH: "opens L (operator_of cn xe k S q) (n + length xs + plan_depth q) (new_state q s) (plan_rows xe q xs)"
    using PProjection by simp
  show ?case unfolding operator_of.simps new_state.simps plan_rows.simps
  proof (rule opens_unary [OF _ IH, where v = "new_fields 0"])
    fix i1 assume st: "streams L (operator_of cn xe k S q) (n + length xs + plan_depth q) i1 (plan_rows xe q xs)"
    show "streams L (projection_operator cn xe ev ps (operator_of cn xe k S q)) (n + length xs + plan_depth (PProjection ev ps q))
        (i1, (new_fields 0)\<lparr>un_opened := True, un_closed := False, un_closeErr := None\<rparr>) (map (projected_row xe ev ps) (plan_rows xe q xs))"
      by (rule streams_mono [OF projection_streams [OF st]]) (use PProjection in auto)
  qed (auto simp: projection_operator_def)
next
  case (POffset x q)
  note src = operator_of_source [OF assms(1), of cn xe k q]
  note len = length_plan_rows [of xe q xs]
  have IH: "opens L (operator_of cn xe k S q) (n + length xs + plan_depth q) (new_state q s) (plan_rows xe q xs)"
    using POffset by simp
  show ?case
  proof (cases "0 \<le> sint x")
    case True
    have left: "left_count ((new_fields x)\<lparr>of_remaining := x, un_opened := True, un_closed := False, un_closeErr := None\<rparr>) =
        nat (sint x)" by (simp add: left_count_def)
    show ?thesis unfolding operator_of.simps new_state.simps plan_rows.simps
    proof (rule opens_unary [OF _ IH, where v = "(new_fields x)\<lparr>of_remaining := x\<rparr>"])
      fix i1 assume "streams L (operator_of cn xe k S q) (n + length xs + plan_depth q) i1 (plan_rows xe q xs)"
      from row_source.offset_streams [OF src this, of k
          "(new_fields x)\<lparr>of_remaining := x, un_opened := True, un_closed := False, un_closeErr := None\<rparr>" cn x]
      have "streams L (offset_operator cn x k (operator_of cn xe k S q)) (n + length xs + plan_depth q)
          (i1, (new_fields x)\<lparr>of_remaining := x, un_opened := True, un_closed := False, un_closeErr := None\<rparr>)
          (drop (nat (sint x)) (plan_rows xe q xs))"
        unfolding left using POffset len True by (simp add: counted_def)
      then show "streams L (offset_operator cn x k (operator_of cn xe k S q)) (n + length xs + plan_depth (POffset x q))
          (i1, (new_fields x)\<lparr>of_remaining := x, un_opened := True, un_closed := False, un_closeErr := None\<rparr>)
          (drop (nat (sint x)) (plan_rows xe q xs))" by (rule streams_mono) simp
    qed (auto simp: offset_operator_def offset_Open_def split: if_splits)
  next
    case False
    then show ?thesis by (auto simp: opens_def on_unary_def offset_operator_def offset_Open_def)
  qed
next
  case (PLimit x q)
  note src = operator_of_source [OF assms(1), of cn xe k q]
  note len = length_plan_rows [of xe q xs]
  have IH: "opens L (operator_of cn xe k S q) (n + length xs + plan_depth q) (new_state q s) (plan_rows xe q xs)"
    using PLimit by simp
  have left: "left_count ((new_fields x)\<lparr>of_remaining := x, un_opened := True, un_closed := False, un_closeErr := None\<rparr>) =
      nat (sint x)" by (simp add: left_count_def)
  show ?case unfolding operator_of.simps new_state.simps plan_rows.simps
  proof (rule opens_unary [OF _ IH, where v = "(new_fields x)\<lparr>of_remaining := x\<rparr>"])
    fix i1 assume "streams L (operator_of cn xe k S q) (n + length xs + plan_depth q) i1 (plan_rows xe q xs)"
    from limit_streams [OF this, of
        "(new_fields x)\<lparr>of_remaining := x, un_opened := True, un_closed := False, un_closeErr := None\<rparr>" x cn]
    have "streams L (limit_operator cn x (operator_of cn xe k S q)) (n + length xs + plan_depth q)
        (i1, (new_fields x)\<lparr>of_remaining := x, un_opened := True, un_closed := False, un_closeErr := None\<rparr>)
        (take (nat (sint x)) (plan_rows xe q xs))"
      unfolding left using PLimit len by (simp add: counted_def)
    then show "streams L (limit_operator cn x (operator_of cn xe k S q)) (n + length xs + plan_depth (PLimit x q))
        (i1, (new_fields x)\<lparr>of_remaining := x, un_opened := True, un_closed := False, un_closeErr := None\<rparr>)
        (take (nat (sint x)) (plan_rows xe q xs))" by (rule streams_mono) simp
  qed (auto simp: limit_operator_def limit_Open_def split: if_splits)
next
  case (PDistinct q)
  note src = operator_of_source [OF assms(1), of cn xe k q]
  have IH: "opens L (operator_of cn xe k S q) (n + length xs + plan_depth q) (new_state q s) (plan_rows xe q xs)"
    using PDistinct by simp
  let ?v = "(new_fields 0)\<lparr>of_seen := []\<rparr>"
  show ?case unfolding operator_of.simps new_state.simps plan_rows.simps
  proof (rule opens_unary [OF _ IH, where v = ?v])
    fix i1 assume "streams L (operator_of cn xe k S q) (n + length xs + plan_depth q) i1 (plan_rows xe q xs)"
    from row_source.distinct_streams [OF src this, of k
        "?v\<lparr>un_opened := True, un_closed := False, un_closeErr := None\<rparr>" cn xe] PDistinct
    have "streams L (distinct_operator cn xe k (operator_of cn xe k S q)) (n + length xs + plan_depth q)
        (i1, ?v\<lparr>un_opened := True, un_closed := False, un_closeErr := None\<rparr>)
        (distinct_from (row_key xe) {} (plan_rows xe q xs))" by simp
    then show "streams L (distinct_operator cn xe k (operator_of cn xe k S q)) (n + length xs + plan_depth (PDistinct q))
        (i1, ?v\<lparr>un_opened := True, un_closed := False, un_closeErr := None\<rparr>)
        (distinct_from (row_key xe) {} (plan_rows xe q xs))" by (rule streams_mono) simp
  qed (auto simp: distinct_operator_def distinct_Open_def)
next
  case (PSort ev ods q)
  note src = operator_of_source [OF assms(1), of cn xe k q]
  note len = length_plan_rows [of xe q xs] 
  have IH: "opens L (operator_of cn xe k S q) (n + length xs + plan_depth q) (new_state q s) (plan_rows xe q xs)"
    using PSort by simp
  show ?case unfolding operator_of.simps new_state.simps plan_rows.simps
  proof (rule opens_unary [OF _ IH, where v = "(new_fields 0)\<lparr>of_rows := [], of_offset := 0, of_retained := 0, of_materialized := False\<rparr>"])
    fix i1 assume st: "streams L (operator_of cn xe k S q) (n + length xs + plan_depth q) i1 (plan_rows xe q xs)"
    show "streams L (sort_operator cn xe ev ods k (operator_of cn xe k S q)) (n + length xs + plan_depth (PSort ev ods q))
        (i1, (new_fields 0)\<lparr>of_rows := [], of_offset := 0, of_retained := 0, of_materialized := False\<rparr>\<lparr>un_opened := True, un_closed := False, un_closeErr := None\<rparr>) (sorted_rows xe ev ods (plan_rows xe q xs))"
      by (rule streams_mono [OF row_source.sort_streams [OF src st]]) (use PSort len assms(3) in auto)
  qed (auto simp: sort_operator_def blocking_Open_def split: if_splits)
next
  case (PTopN ev ods N q)
  note src = operator_of_source [OF assms(1), of cn xe k q]
  note len = length_plan_rows [of xe q xs] length_topn_rows [of xe ev ods N "plan_rows xe q xs"]
  have IH: "opens L (operator_of cn xe k S q) (n + length xs + plan_depth q) (new_state q s) (plan_rows xe q xs)"
    using PTopN by simp
  show ?case unfolding operator_of.simps new_state.simps plan_rows.simps
  proof (rule opens_unary [OF _ IH, where v = "(new_fields 0)\<lparr>of_rows := [], of_offset := 0, of_retained := 0, of_materialized := False\<rparr>"])
    fix i1 assume st: "streams L (operator_of cn xe k S q) (n + length xs + plan_depth q) i1 (plan_rows xe q xs)"
    show "streams L (topn_operator cn xe ev ods N k (operator_of cn xe k S q)) (n + length xs + plan_depth (PTopN ev ods N q))
        (i1, (new_fields 0)\<lparr>of_rows := [], of_offset := 0, of_retained := 0, of_materialized := False\<rparr>\<lparr>un_opened := True, un_closed := False, un_closeErr := None\<rparr>) (topn_rows xe ev ods N (plan_rows xe q xs))"
      by (rule row_source.topn_streams [OF src st]) (use PTopN len assms(3) in auto)
  qed (auto simp: topn_operator_def topn_Open_def blocking_Open_def split: if_splits)
next
  case (PAggregate ev ps as q)
  note src = operator_of_source [OF assms(1), of cn xe k q]
  note len = length_plan_rows [of xe q xs] length_aggregate_rows [of xe ev ps as "plan_rows xe q xs"]
  have IH: "opens L (operator_of cn xe k S q) (n + length xs + plan_depth q) (new_state q s) (plan_rows xe q xs)"
    using PAggregate by simp
  show ?case unfolding operator_of.simps new_state.simps plan_rows.simps
  proof (rule opens_unary [OF _ IH, where v = "(new_fields 0)\<lparr>of_rows := [], of_offset := 0, of_retained := 0, of_materialized := False\<rparr>"])
    fix i1 assume st: "streams L (operator_of cn xe k S q) (n + length xs + plan_depth q) i1 (plan_rows xe q xs)"
    show "streams L (aggregate_operator cn xe ev ps as k (operator_of cn xe k S q)) (n + length xs + plan_depth (PAggregate ev ps as q))
        (i1, (new_fields 0)\<lparr>of_rows := [], of_offset := 0, of_retained := 0, of_materialized := False\<rparr>\<lparr>un_opened := True, un_closed := False, un_closeErr := None\<rparr>) (aggregate_rows xe ev ps as (plan_rows xe q xs))"
      by (rule row_source.aggregate_streams [OF src st]) (use PAggregate len assms(3) in auto)
  qed (auto simp: aggregate_operator_def blocking_Open_def split: if_splits)
qed

end
