(* ===== verification/Query_Heap.thy ===== *)
theory Query_Heap
  imports Query_Reference
begin

text \<open>
  The heap behind Top-N: pushing keeps the heap property and popping takes the greatest element. A heap needs
  only that its comparison is a strict weak order on the elements, the locale \<open>heap_order\<close>. From
  that, Top-N keeps the first rows of the sorted input.
\<close>

section \<open>Swapping\<close>

lemma nth_swap_at:
  assumes "i < length h" "j < length h"
  shows "swap_at i j h ! c = (if c = i then h ! j else if c = j then h ! i else h ! c)"
  using assms by (auto simp: swap_at_def nth_list_update)

lemma mset_swap_at: "i < length h \<Longrightarrow> j < length h \<Longrightarrow> mset (swap_at i j h) = mset h"
  unfolding swap_at_def by (rule mset_swap)

lemma mset_heap_up: "j < length h \<Longrightarrow> mset (heap_up lt h j) = mset h"
proof (induction lt h j rule: heap_up.induct)
  case (1 lt h j)
  then show ?case
    by (subst heap_up.simps) (auto simp: Let_def mset_swap_at)
qed

lemma mset_heap_down: "n \<le> length h \<Longrightarrow> mset (heap_down lt h i n) = mset h"
proof (induction lt h i n rule: heap_down.induct)
  case (1 lt h i n)
  show ?case
    by (subst heap_down.simps) (use 1 in \<open>auto simp: Let_def mset_swap_at\<close>)
qed

lemma heap_down_above: "n \<le> m \<Longrightarrow> n \<le> length h \<Longrightarrow> heap_down lt h i n ! m = h ! m"
proof (induction lt h i n rule: heap_down.induct)
  case (1 lt h i n)
  show ?case
    by (subst heap_down.simps) (use 1 in \<open>auto simp: Let_def nth_swap_at\<close>)
qed

section \<open>The heap property\<close>

definition heap_parent :: "nat \<Rightarrow> nat" where
  "heap_parent j = (j - 1) div 2"

lemma heap_parent_less: "0 < j \<Longrightarrow> heap_parent j < j"
  by (auto simp: heap_parent_def)

lemma heap_parent_child: "0 < c \<Longrightarrow> heap_parent c = i \<longleftrightarrow> c = 2 * i + 1 \<or> c = 2 * i + 2"
  by (auto simp: heap_parent_def)

text \<open>No element of the first \<open>n\<close> is before its parent.\<close>

definition heap_to :: "('a \<Rightarrow> 'a \<Rightarrow> bool) \<Rightarrow> nat \<Rightarrow> 'a list \<Rightarrow> bool" where
  "heap_to lt n h \<longleftrightarrow> (\<forall>c. 0 < c \<longrightarrow> c < n \<longrightarrow> \<not> lt (h ! c) (h ! heap_parent c))"

locale heap_order =
  fixes lt :: "'a \<Rightarrow> 'a \<Rightarrow> bool" and A :: "'a set"
  assumes lt_asym: "a \<in> A \<Longrightarrow> b \<in> A \<Longrightarrow> lt a b \<Longrightarrow> \<not> lt b a"
    and not_lt_trans: "a \<in> A \<Longrightarrow> b \<in> A \<Longrightarrow> c \<in> A \<Longrightarrow> \<not> lt a b \<Longrightarrow> \<not> lt b c \<Longrightarrow> \<not> lt a c"
begin

lemma not_lt_refl: "a \<in> A \<Longrightarrow> \<not> lt a a"
  using lt_asym by blast

text \<open>A heap but for the element at \<open>j\<close>, which may be before its parent.\<close>

definition up_ok :: "'a list \<Rightarrow> nat \<Rightarrow> bool" where
  "up_ok h j \<longleftrightarrow>
     (\<forall>c. 0 < c \<longrightarrow> c < length h \<longrightarrow> c \<noteq> j \<longrightarrow> \<not> lt (h ! c) (h ! heap_parent c)) \<and>
     (\<forall>c. 0 < c \<longrightarrow> c < length h \<longrightarrow> heap_parent c = j \<longrightarrow> 0 < j \<longrightarrow> \<not> lt (h ! c) (h ! heap_parent j))"

lemma heap_up_ok:
  "up_ok h j \<Longrightarrow> j < length h \<Longrightarrow> set h \<subseteq> A \<Longrightarrow> heap_to lt (length h) (heap_up lt h j)"
proof (induction j arbitrary: h rule: less_induct)
  case (less j)
  let ?i = "heap_parent j"
  have eq: "heap_up lt h j = (if ?i = j \<or> \<not> lt (h ! j) (h ! ?i) then h else heap_up lt (swap_at ?i j h) ?i)"
    by (subst heap_up.simps) (simp add: heap_parent_def Let_def)
  have in_A: "c < length h \<Longrightarrow> h ! c \<in> A" for c using less.prems(3) by auto
  show ?case
  proof (cases "j = 0 \<or> \<not> lt (h ! j) (h ! ?i)")
    case True
    then have "heap_up lt h j = h" unfolding eq by (auto simp: heap_parent_def)
    moreover have "heap_to lt (length h) h"
      using True less.prems(1) by (auto simp: heap_to_def up_ok_def)
    ultimately show ?thesis by simp
  next
    case False
    then have j: "0 < j" "lt (h ! j) (h ! ?i)" by auto
    have i: "?i < j" "?i < length h" using heap_parent_less [OF j(1)] less.prems(2) by auto
    have ij: "\<not> lt (h ! ?i) (h ! j)" using j(2) lt_asym in_A i(2) less.prems(2) by blast
    let ?h = "swap_at ?i j h"
    have nth: "?h ! c = (if c = ?i then h ! j else if c = j then h ! ?i else h ! c)" for c
      using i(2) less.prems(2) by (rule nth_swap_at)
    have par: "c < length h \<Longrightarrow> 0 < c \<Longrightarrow> c \<noteq> j \<Longrightarrow> \<not> lt (h ! c) (h ! heap_parent c)" for c
      using less.prems(1) by (simp add: up_ok_def)
    have below: "c < length h \<Longrightarrow> 0 < c \<Longrightarrow> heap_parent c = j \<Longrightarrow> \<not> lt (h ! c) (h ! ?i)" for c
      using less.prems(1) j(1) by (simp add: up_ok_def)
    have lp: "0 < c \<Longrightarrow> c < length h \<Longrightarrow> heap_parent c < length h" for c
      using heap_parent_less [of c] by simp
    have one: "\<not> lt (?h ! c) (?h ! heap_parent c)" if c: "0 < c" "c < length h" "c \<noteq> ?i" for c
    proof (cases "c = j")
      case True
      then show ?thesis using ij i(1) by (simp add: nth)
    next
      case cj: False
      show ?thesis
      proof (cases "heap_parent c = ?i")
        case True
        with par [OF c(2,1) cj] have "\<not> lt (h ! c) (h ! ?i)" by simp
        from not_lt_trans [OF in_A [OF c(2)] in_A [OF i(2)] in_A [OF less.prems(2)] this ij]
        show ?thesis using True c cj by (simp add: nth)
      next
        case False
        then show ?thesis using c cj par [OF c(2,1) cj] below [OF c(2,1)] by (simp add: nth)
      qed
    qed
    have two: "\<not> lt (?h ! c) (?h ! heap_parent ?i)"
      if c: "0 < c" "c < length h" "heap_parent c = ?i" "0 < ?i" for c
    proof -
      have pi: "heap_parent ?i < ?i" using c(4) by (rule heap_parent_less)
      have up: "\<not> lt (h ! ?i) (h ! heap_parent ?i)" using par [OF i(2) c(4)] i(1) by simp
      have "\<not> lt (h ! c) (h ! heap_parent ?i)" if "c \<noteq> j"
        using par [OF c(2,1) that] c(3) up not_lt_trans in_A i(2) c(2) pi by (metis less_trans)
      moreover have "c \<noteq> ?i" using c(1,3) heap_parent_less [of c] by auto
      ultimately show ?thesis using up pi i(1) by (auto simp: nth)
    qed
    have up: "up_ok ?h ?i" using one two by (simp add: up_ok_def)
    have "set_mset (mset ?h) = set_mset (mset h)" by (simp only: mset_swap_at [OF i(2) less.prems(2)])
    then have "set ?h \<subseteq> A" using less.prems(3) by simp
    with less.IH [OF i(1) up] i(2) have "heap_to lt (length ?h) (heap_up lt ?h ?i)" by simp
    then show ?thesis using eq j i(1) by simp
  qed
qed

text \<open>A heap of the first \<open>n\<close> but for the element at \<open>i\<close>, which may be after its children.\<close>

definition down_ok :: "'a list \<Rightarrow> nat \<Rightarrow> nat \<Rightarrow> bool" where
  "down_ok h i n \<longleftrightarrow>
     (\<forall>c. 0 < c \<longrightarrow> c < n \<longrightarrow> heap_parent c \<noteq> i \<longrightarrow> \<not> lt (h ! c) (h ! heap_parent c)) \<and>
     (\<forall>c. 0 < c \<longrightarrow> c < n \<longrightarrow> heap_parent c = i \<longrightarrow> 0 < i \<longrightarrow> \<not> lt (h ! c) (h ! heap_parent i))"

lemma heap_down_ok:
  "down_ok h i n \<Longrightarrow> n \<le> length h \<Longrightarrow> set h \<subseteq> A \<Longrightarrow> heap_to lt n (heap_down lt h i n)"
proof (induction "n - i" arbitrary: h i rule: less_induct)
  case less
  define j where "j = (if 2 * i + 2 < n \<and> lt (h ! (2 * i + 2)) (h ! (2 * i + 1)) then 2 * i + 2 else 2 * i + 1)"
  have eq: "heap_down lt h i n =
      (if n \<le> 2 * i + 1 \<or> \<not> lt (h ! j) (h ! i) then h else heap_down lt (swap_at i j h) j n)"
    by (subst heap_down.simps) (simp add: j_def Let_def)
  have in_A: "c < n \<Longrightarrow> h ! c \<in> A" for c using less.prems(2,3) by auto
  have par: "0 < c \<Longrightarrow> c < n \<Longrightarrow> heap_parent c \<noteq> i \<Longrightarrow> \<not> lt (h ! c) (h ! heap_parent c)" for c
    using less.prems(1) by (simp add: down_ok_def)
  have above: "0 < c \<Longrightarrow> c < n \<Longrightarrow> heap_parent c = i \<Longrightarrow> 0 < i \<Longrightarrow> \<not> lt (h ! c) (h ! heap_parent i)" for c
    using less.prems(1) by (simp add: down_ok_def)
  show ?case
  proof (cases "n \<le> 2 * i + 1")
    case True
    then have "heap_parent c \<noteq> i" if "0 < c" "c < n" for c using that heap_parent_child by auto
    then show ?thesis using eq True par by (simp add: heap_to_def)
  next
    case False
    have j: "0 < j" "j < n" "heap_parent j = i" "i < j" using False by (auto simp: j_def heap_parent_def)
    have best: "\<not> lt (h ! c) (h ! j)" if "0 < c" "c < n" "heap_parent c = i" for c
    proof -
      from that have "c = 2 * i + 1 \<or> c = 2 * i + 2" by (simp add: heap_parent_child)
      then show ?thesis
      proof
        assume c: "c = 2 * i + 1"
        show ?thesis
        proof (cases "j = c")
          case True
          with in_A [OF that(2)] not_lt_refl show ?thesis by simp
        next
          case False
          then have "j = 2 * i + 2" "lt (h ! j) (h ! c)" by (auto simp: j_def c split: if_splits)
          with lt_asym [OF in_A [OF j(2)] in_A [OF that(2)]] show ?thesis by simp
        qed
      next
        assume c: "c = 2 * i + 2"
        show ?thesis
        proof (cases "j = c")
          case True
          with in_A [OF that(2)] not_lt_refl show ?thesis by simp
        next
          case False
          with that(2) show ?thesis by (simp add: j_def c split: if_splits)
        qed
      qed
    qed
    show ?thesis
    proof (cases "lt (h ! j) (h ! i)")
      case jl: False
      have "\<not> lt (h ! c) (h ! heap_parent c)" if "0 < c" "c < n" for c
      proof (cases "heap_parent c = i")
        case True
        with best [OF that True] jl not_lt_trans in_A that j show ?thesis by (metis less_trans)
      qed (use par that in blast)
      then show ?thesis using eq jl by (simp add: heap_to_def)
    next
      case lt: True
      let ?h = "swap_at i j h"
      have nth: "?h ! c = (if c = i then h ! j else if c = j then h ! i else h ! c)" for c
        using j less.prems(2) by (intro nth_swap_at) auto
      have ij: "\<not> lt (h ! i) (h ! j)" using lt lt_asym in_A j by (meson less_trans)
      have "\<not> lt (?h ! c) (?h ! heap_parent c)" if c: "0 < c" "c < n" "heap_parent c \<noteq> j" for c
      proof -
        have pc: "heap_parent c < c" using c(1) by (rule heap_parent_less)
        consider (j) "c = j" | (sibling) "c \<noteq> j" "heap_parent c = i" | (i) "c = i" | (other) "c \<noteq> j" "c \<noteq> i" "heap_parent c \<noteq> i"
          by blast
        then show ?thesis
        proof cases
          case i
          then have "\<not> lt (h ! j) (h ! heap_parent i)" using above [OF j(1-3)] c(1) by simp
          with i pc c(3) show ?thesis by (simp add: nth)
        next
          case j
          with ij \<open>heap_parent j = i\<close> \<open>i < j\<close> show ?thesis by (simp add: nth)
        next
          case sibling
          with c(1,2) pc best [OF c(1,2)] show ?thesis by (simp add: nth)
        next
          case other
          with par [OF c(1,2)] c(3) show ?thesis by (simp add: nth)
        qed
      qed
      moreover have "\<not> lt (?h ! c) (?h ! heap_parent j)" if c: "0 < c" "c < n" "heap_parent c = j" for c
      proof -
        have "j < c" using heap_parent_less [OF c(1)] c(3) by simp
        then show ?thesis using par [OF c(1,2)] c(3) j by (simp add: nth)
      qed
      ultimately have "down_ok ?h j n" by (simp add: down_ok_def)
      moreover have "set ?h \<subseteq> A"
      proof -
        have "set_mset (mset ?h) = set_mset (mset h)" using j less.prems(2) by (simp only: mset_swap_at)
        then show ?thesis using less.prems(3) by simp
      qed
      ultimately have "heap_to lt n (heap_down lt ?h j n)"
        using less.hyps [of j ?h] j less.prems(2) by simp
      then show ?thesis using eq lt False by simp
    qed
  qed
qed

lemma heap_Push_ok:
  assumes "heap_to lt (length h) h" "set h \<subseteq> A" "x \<in> A"
  shows "heap_to lt (length (heap_Push lt x h)) (heap_Push lt x h)" "mset (heap_Push lt x h) = add_mset x (mset h)"
proof -
  have "up_ok (h @ [x]) (length h)"
    unfolding up_ok_def
  proof (intro conjI allI impI)
    fix c assume c: "0 < c" "c < length (h @ [x])" "c \<noteq> length h"
    then have "c < length h" "heap_parent c < length h" using heap_parent_less [OF c(1)] by auto
    then show "\<not> lt ((h @ [x]) ! c) ((h @ [x]) ! heap_parent c)"
      using assms(1) c(1) by (simp add: heap_to_def nth_append)
  next
    fix c assume c: "0 < c" "c < length (h @ [x])" "heap_parent c = length h"
    with heap_parent_less [OF c(1)] show "\<not> lt ((h @ [x]) ! c) ((h @ [x]) ! heap_parent (length h))" by simp
  qed
  then have "heap_to lt (length (h @ [x])) (heap_up lt (h @ [x]) (length h))"
    by (rule heap_up_ok) (use assms in auto)
  then show "heap_to lt (length (heap_Push lt x h)) (heap_Push lt x h)" by (simp add: heap_Push_def)
  show "mset (heap_Push lt x h) = add_mset x (mset h)" by (simp add: heap_Push_def mset_heap_up)
qed

lemma heap_root:
  assumes "heap_to lt (length h) h" "set h \<subseteq> A"
  shows "j < length h \<Longrightarrow> \<not> lt (h ! j) (h ! 0)"
proof (induction j rule: less_induct)
  case (less j)
  have in_A: "c < length h \<Longrightarrow> h ! c \<in> A" for c using assms(2) by auto
  show ?case
  proof (cases "j = 0")
    case True
    then show ?thesis using in_A less.prems not_lt_refl by auto
  next
    case False
    then have p: "heap_parent j < j" by (simp add: heap_parent_less)
    with False less.prems assms(1) have "\<not> lt (h ! j) (h ! heap_parent j)" by (simp add: heap_to_def)
    moreover from less.IH [OF p] p less.prems have "\<not> lt (h ! heap_parent j) (h ! 0)" by simp
    ultimately show ?thesis using not_lt_trans in_A p less.prems by (metis less_trans not_less_zero gr_zeroI)
  qed
qed

lemma heap_Pop_ok:
  assumes "heap_to lt (length h) h" "set h \<subseteq> A" "h \<noteq> []" "heap_Pop lt h = (x, h1)"
  shows "x = h ! 0" "heap_to lt (length h1) h1" "mset h = add_mset x (mset h1)" "\<forall>y \<in> set h. \<not> lt y x"
proof -
  define n where "n = length h - 1"
  have n: "length h = Suc n" using assms(3) by (cases h) (auto simp: n_def)
  define h2 where "h2 = heap_down lt (swap_at 0 n h) 0 n"
  have x: "x = last h2" "h1 = butlast h2" using assms(4) by (auto simp: heap_Pop_def Let_def n_def h2_def)
  have len: "length h2 = Suc n" using n by (simp add: h2_def)
  then have ne: "h2 \<noteq> []" by auto
  have ms: "mset h2 = mset h" using n by (simp add: h2_def mset_heap_down mset_swap_at)
  have "h2 ! n = swap_at 0 n h ! n" using n by (simp add: h2_def heap_down_above)
  also have "\<dots> = h ! 0" using n by (simp add: nth_swap_at)
  finally show x0: "x = h ! 0" using x(1) len ne by (simp add: last_conv_nth)
  have "\<not> lt (swap_at 0 n h ! c) (swap_at 0 n h ! heap_parent c)" if c: "0 < c" "c < n" "heap_parent c \<noteq> 0" for c
  proof -
    have "heap_parent c < n" using heap_parent_less [OF c(1)] c(2) by simp
    then show ?thesis using assms(1) n c by (simp add: heap_to_def nth_swap_at)
  qed
  then have "down_ok (swap_at 0 n h) 0 n" by (simp add: down_ok_def)
  moreover have "set (swap_at 0 n h) \<subseteq> A"
  proof -
    have "set_mset (mset (swap_at 0 n h)) = set_mset (mset h)" using n by (simp only: mset_swap_at)
    then show ?thesis using assms(2) by simp
  qed
  ultimately have heap: "heap_to lt n h2" unfolding h2_def using n by (intro heap_down_ok) auto
  show "heap_to lt (length h1) h1"
    unfolding heap_to_def
  proof (intro allI impI)
    fix c assume c: "0 < c" "c < length h1"
    then have "c < n" "heap_parent c < n" using x(2) len heap_parent_less [OF c(1)] by auto
    then show "\<not> lt (h1 ! c) (h1 ! heap_parent c)"
      using heap c(1) x(2) len by (simp add: heap_to_def nth_butlast)
  qed
  have "h2 = h1 @ [x]" using x ne by simp
  with ms show "mset h = add_mset x (mset h1)" by simp
  show "\<forall>y \<in> set h. \<not> lt y x" using heap_root [OF assms(1,2)] x0 by (auto simp: in_set_conv_nth)
qed

end

end
