(* ===== verification/Query_TopN.thy ===== *)
theory Query_TopN
  imports Query_Heap
begin

text \<open>
  Ordering rows. Comparing two rows the other way round changes the sign, so where the comparison is
  transitive on the rows at hand and their sequence numbers differ it is a strict total order: then
  \<open>sortRows\<close> gives the one sorted list of the rows, and Top-N the first rows of it.
\<close>

section \<open>Comparisons are antisymmetric\<close>

lemma three_way_swap: "three_way a b = - three_way b a"
  by (auto simp: three_way_def)

lemma compareValues_swap: "compareValues ve a b = - compareValues ve b a"
proof -
  define c where "c = (\<lambda>l r. case (comparableDate l, comparableDate r) of (Some a, Some b) \<Rightarrow> three_way a b
      | _ \<Rightarrow> (case (exactNumericValue l, exactNumericValue r) of (Some a, Some b) \<Rightarrow> three_way a b
          | _ \<Rightarrow> three_way (valueString_of ve l) (valueString_of ve r)))"
  have swap: "c l r = - c r l" for l r
    unfolding c_def by (cases "comparableDate l"; cases "comparableDate r"; cases "exactNumericValue l";
        cases "exactNumericValue r"; simp; rule three_way_swap)
  have eq: "compareValues ve l r = (case (l, r) of (QNull, QNull) \<Rightarrow> 0 | (QBool a, QBool b) \<Rightarrow> three_way a b | _ \<Rightarrow> c l r)" for l r
    by (simp only: compareValues_def c_def Let_def)
  show ?thesis
  proof (cases "(\<exists>x y. a = QBool x \<and> b = QBool y) \<or> a = QNull \<and> b = QNull")
    case True
    then show ?thesis
    proof
      assume "\<exists>x y. a = QBool x \<and> b = QBool y"
      then obtain x y where "a = QBool x" "b = QBool y" by blast
      then show ?thesis using three_way_swap [of x y] by (simp add: eq)
    qed (simp add: eq)
  next
    case False
    then have "compareValues ve a b = c a b" "compareValues ve b a = c b a"
      unfolding eq by (cases a; cases b; simp)+
    then show ?thesis using swap [of a b] by simp
  qed
qed

lemma compareOrderValues_swap:
  "length ls = length ods \<Longrightarrow> length rs = length ods \<Longrightarrow>
     compareOrderValues xe ls p rs q ods = - compareOrderValues xe rs q ls p ods"
proof (induction ods arbitrary: ls rs)
  case (Cons od ods)
  then obtain l ls' r rs' where "ls = l # ls'" "rs = r # rs'" by (cases ls; cases rs) auto
  with Cons compareValues_swap [of "value_env.truncate xe" l r] show ?case
    by (auto simp: Let_def eval_compare_def)
qed auto

lemma compareOrderValues_zero:
  "length ls = length ods \<Longrightarrow> length rs = length ods \<Longrightarrow> compareOrderValues xe ls p rs q ods = 0 \<Longrightarrow> p = q"
proof (induction ods arbitrary: ls rs)
  case Nil
  then have "sint p = sint q" by (auto split: if_splits)
  then show ?case by (rule signed_word_eqI)
next
  case (Cons od ods)
  then obtain l ls' r rs' where "ls = l # ls'" "rs = r # rs'" by (cases ls; cases rs) auto
  with Cons show ?case by (auto simp: Let_def split: if_splits)
qed

lemma length_rowOrderValues: "rowOrderValues xe ev row ods = Inr vs \<Longrightarrow> length vs = length ods"
  by (induction ods arbitrary: vs) (auto split: sum.splits)

section \<open>The order of rows\<close>

definition row_values :: "exec_env \<Rightarrow> evaluator \<Rightarrow> Order list \<Rightarrow> BindingRow \<Rightarrow> qvalue list" where
  "row_values xe ev ods row = (case rowOrderValues xe ev row ods of Inl e \<Rightarrow> [] | Inr vs \<Rightarrow> vs)"

definition row_before :: "exec_env \<Rightarrow> evaluator \<Rightarrow> Order list \<Rightarrow> BindingRow \<Rightarrow> BindingRow \<Rightarrow> bool" where
  "row_before xe ev ods a b \<longleftrightarrow>
     compareOrderValues xe (row_values xe ev ods a) (br_Sequence a) (row_values xe ev ods b) (br_Sequence b) ods < 0"

text \<open>The rows a query can order: the order's values evaluate, compare transitively, and no number occurs twice.\<close>

definition orderly :: "exec_env \<Rightarrow> evaluator \<Rightarrow> Order list \<Rightarrow> BindingRow list \<Rightarrow> bool" where
  "orderly xe ev ods rows \<longleftrightarrow>
     (\<forall>row \<in> set rows. \<exists>vs. rowOrderValues xe ev row ods = Inr vs) \<and>
     (\<forall>a \<in> set rows. \<forall>b \<in> set rows. \<forall>c \<in> set rows.
        row_before xe ev ods a b \<longrightarrow> row_before xe ev ods b c \<longrightarrow> row_before xe ev ods a c) \<and>
     distinct (map br_Sequence rows)"

lemma sorted_wrt_unique:
  assumes "sorted_wrt R xs" "sorted_wrt R ys" "mset xs = mset ys" "\<forall>a \<in> set xs. \<forall>b \<in> set xs. R a b \<longrightarrow> \<not> R b a"
  shows "xs = ys"
  using assms
proof (induction xs arbitrary: ys)
  case (Cons x xs)
  from Cons.prems(3) obtain y zs where ys: "ys = y # zs" by (cases ys) auto
  have sets: "set (x # xs) = set (y # zs)" using Cons.prems(3) ys by (metis set_mset_mset)
  have "x = y"
  proof (rule ccontr)
    assume "x \<noteq> y"
    with sets have "y \<in> set xs" "x \<in> set zs" by auto
    with Cons.prems(1,2) ys have "R x y" "R y x" by auto
    with Cons.prems(4) sets show False by (metis list.set_intros(1))
  qed
  with Cons ys show ?case by simp
qed simp

lemma order_values: "orderly xe ev ods rows \<Longrightarrow> a \<in> set rows \<Longrightarrow> rowOrderValues xe ev a ods = Inr (row_values xe ev ods a)"
  by (force simp: orderly_def row_values_def)

lemma values_length: "orderly xe ev ods rows \<Longrightarrow> a \<in> set rows \<Longrightarrow> length (row_values xe ev ods a) = length ods"
  using length_rowOrderValues order_values by blast

lemma before_asym:
  assumes "orderly xe ev ods rows" "a \<in> set rows" "b \<in> set rows" "row_before xe ev ods a b"
  shows "\<not> row_before xe ev ods b a"
  using assms(4) compareOrderValues_swap [OF values_length values_length, OF assms(1,2,1,3), of xe "br_Sequence a" "br_Sequence b"]
  by (simp add: row_before_def)

lemma before_total:
  assumes "orderly xe ev ods rows" "a \<in> set rows" "b \<in> set rows" "a \<noteq> b"
  shows "row_before xe ev ods a b \<or> row_before xe ev ods b a"
proof -
  have "br_Sequence a \<noteq> br_Sequence b"
    using assms by (auto simp: orderly_def distinct_map dest: inj_onD)
  with compareOrderValues_zero [OF values_length values_length, OF assms(1,2,1,3)]
  have "compareOrderValues xe (row_values xe ev ods a) (br_Sequence a) (row_values xe ev ods b) (br_Sequence b) ods \<noteq> 0"
    by blast
  with compareOrderValues_swap [OF values_length values_length, OF assms(1,2,1,3), of xe "br_Sequence a" "br_Sequence b"]
  show ?thesis by (auto simp: row_before_def)
qed

lemma before_trans:
  "orderly xe ev ods rows \<Longrightarrow> a \<in> set rows \<Longrightarrow> b \<in> set rows \<Longrightarrow> c \<in> set rows \<Longrightarrow>
     row_before xe ev ods a b \<Longrightarrow> row_before xe ev ods b c \<Longrightarrow> row_before xe ev ods a c"
  unfolding orderly_def by blast

lemma orderly_distinct: "orderly xe ev ods rows \<Longrightarrow> distinct rows"
  by (auto simp: orderly_def distinct_map)

lemma sort_less_before:
  "orderly xe ev ods rows \<Longrightarrow> l \<in> set rows \<Longrightarrow> r \<in> set rows \<Longrightarrow>
     sort_less xe ev ods l r None = (row_before xe ev ods l r, None)"
  by (simp add: sort_less_def rowOrderLess_def order_values row_before_def)

lemma insert_left_sorted:
  assumes "sorted_wrt (\<lambda>a b. row_before xe ev ods b a) ys" "orderly xe ev ods rows" "set ys \<subseteq> set rows"
    "x \<in> set rows" "x \<notin> set ys"
  shows "\<exists>zs. insert_left (sort_less xe ev ods) x ys None = (zs, None) \<and>
     sorted_wrt (\<lambda>a b. row_before xe ev ods b a) zs \<and> mset zs = add_mset x (mset ys)"
  using assms
proof (induction ys)
  case (Cons y ys)
  show ?case
  proof (cases "row_before xe ev ods x y")
    case True
    with Cons obtain zs where zs: "insert_left (sort_less xe ev ods) x ys None = (zs, None)"
      "sorted_wrt (\<lambda>a b. row_before xe ev ods b a) zs" "mset zs = add_mset x (mset ys)" by auto
    then have "set zs = insert x (set ys)" by (metis set_mset_add_mset_insert set_mset_mset)
    with True Cons.prems zs show ?thesis by (auto simp: sort_less_before)
  next
    case False
    with Cons.prems before_total [of xe ev ods rows x y] have "row_before xe ev ods y x" by auto
    moreover have "row_before xe ev ods z x" if "z \<in> set ys" for z
      using that Cons.prems before_trans [of xe ev ods rows z y x] \<open>row_before xe ev ods y x\<close> by auto
    ultimately show ?thesis using False Cons.prems by (auto simp: sort_less_before)
  qed
qed simp

lemma insertion_sort_sorted:
  assumes "sorted_wrt (\<lambda>a b. row_before xe ev ods b a) front" "orderly xe ev ods rows"
    "set front \<union> set xs \<subseteq> set rows" "distinct (front @ xs)"
  shows "\<exists>zs. insertion_sort (sort_less xe ev ods) front xs None = (zs, None) \<and> sorted_wrt (row_before xe ev ods) zs"
  using assms
proof (induction xs arbitrary: front)
  case (Cons x xs)
  obtain zs where zs: "insert_left (sort_less xe ev ods) x front None = (zs, None)"
    "sorted_wrt (\<lambda>a b. row_before xe ev ods b a) zs" "mset zs = mset (x # front)"
    using insert_left_sorted [of xe ev ods front rows x] Cons.prems by auto
  have "set zs = insert x (set front)" using mset_eq_setD [OF zs(3)] by simp
  moreover have "distinct zs" using mset_eq_imp_distinct_iff [OF zs(3)] Cons.prems(4) by simp
  ultimately show ?case using Cons.IH [of zs] zs(1,2) Cons.prems by auto
qed (simp add: sorted_wrt_rev)

lemma sorted_rows_sorted:
  assumes "orderly xe ev ods rows" "set xs \<subseteq> set rows" "distinct xs"
  shows "sorted_wrt (row_before xe ev ods) (sorted_rows xe ev ods xs)"
  using insertion_sort_sorted [of xe ev ods "[]" rows xs] assms by (auto simp: sorted_rows_def sortRows_def SliceStable_def)

lemma sorted_rows_unique:
  assumes "sorted_wrt (row_before xe ev ods) ys" "mset ys = mset xs" "orderly xe ev ods rows" "set xs \<subseteq> set rows" "distinct xs"
  shows "sorted_rows xe ev ods xs = ys"
proof (rule sorted_wrt_unique [OF sorted_rows_sorted [OF assms(3-5)] assms(1)])
  show "mset (sorted_rows xe ev ods xs) = mset ys" using assms(2) by simp
  have "set (sorted_rows xe ev ods xs) = set xs" by (rule mset_eq_setD) simp
  then show "\<forall>a\<in>set (sorted_rows xe ev ods xs). \<forall>b\<in>set (sorted_rows xe ev ods xs).
      row_before xe ev ods a b \<longrightarrow> \<not> row_before xe ev ods b a"
    using before_asym [OF assms(3)] assms(4) by blast
qed

section \<open>Top-N\<close>

lemma rk_row_rank [simp]: "rk_row (ranked_row xe ev ods a) = a"
  by (simp add: ranked_row_def Let_def)

lemma compareRanked_rank:
  "compareRanked xe ods (ranked_row xe ev ods a) (ranked_row xe ev ods b) =
     compareOrderValues xe (row_values xe ev ods a) (br_Sequence a) (row_values xe ev ods b) (br_Sequence b) ods"
  by (simp add: compareRanked_def ranked_row_def row_values_def Let_def)

lemma worse_rank:
  assumes "orderly xe ev ods rows" "a \<in> set rows" "b \<in> set rows"
  shows "topn_less xe ods (ranked_row xe ev ods a) (ranked_row xe ev ods b) \<longleftrightarrow> row_before xe ev ods b a"
  using compareOrderValues_swap [OF values_length values_length, OF assms(1,2,1,3), of xe "br_Sequence a" "br_Sequence b"]
  by (auto simp: topn_less_def compareRanked_rank row_before_def)

lemma heap_order_rank:
  assumes "orderly xe ev ods rows"
  shows "heap_order (topn_less xe ods) (ranked_row xe ev ods ` set rows)"
proof
  fix a b assume "a \<in> ranked_row xe ev ods ` set rows" "b \<in> ranked_row xe ev ods ` set rows" "topn_less xe ods a b"
  then show "\<not> topn_less xe ods b a" using before_asym worse_rank assms by auto
next
  fix a b c assume abc: "a \<in> ranked_row xe ev ods ` set rows" "b \<in> ranked_row xe ev ods ` set rows"
    "c \<in> ranked_row xe ev ods ` set rows" "\<not> topn_less xe ods a b" "\<not> topn_less xe ods b c"
  then obtain x y z where xyz: "a = ranked_row xe ev ods x" "b = ranked_row xe ev ods y" "c = ranked_row xe ev ods z"
    "x \<in> set rows" "y \<in> set rows" "z \<in> set rows"
    by blast
  with abc worse_rank [OF assms] have nb: "\<not> row_before xe ev ods y x" "\<not> row_before xe ev ods z y" by simp_all
  have "\<not> row_before xe ev ods z x"
  proof (cases "x = y \<or> y = z")
    case False
    with before_total [OF assms] nb xyz have "row_before xe ev ods x y" "row_before xe ev ods y z" by blast+
    with before_trans [OF assms] before_asym [OF assms] xyz show ?thesis by blast
  qed (use nb in auto)
  with xyz worse_rank [OF assms] show "\<not> topn_less xe ods a c" by simp
qed

text \<open>
  After some rows the heap has the best of them: no row left out is before a row in it, and rows are only
  left out once it is full.
\<close>

definition best_of :: "exec_env \<Rightarrow> evaluator \<Rightarrow> Order list \<Rightarrow> int \<Rightarrow> BindingRow list \<Rightarrow> rankedRow list \<Rightarrow> bool" where
  "best_of xe ev ods n xs h \<longleftrightarrow> heap_to (topn_less xe ods) (length h) h \<and> int (length h) \<le> n \<and>
     (\<exists>hs D. mset h = mset (map (ranked_row xe ev ods) hs) \<and> mset xs = mset hs + mset D \<and>
        (\<forall>x \<in> set hs. \<forall>d \<in> set D. row_before xe ev ods x d) \<and> (int (length h) = n \<or> D = []))"

lemma moved: "A = B + C \<Longrightarrow> B = add_mset r M \<Longrightarrow> A + {#x#} = add_mset x M + add_mset r C"
  by simp

lemma best_of_step:
  assumes R: "orderly xe ev ods rows" and xs: "set (x # xs) \<subseteq> set rows" "distinct (x # xs)"
    and b: "best_of xe ev ods n xs h" and n: "0 < n"
  shows "best_of xe ev ods n (xs @ [x]) (topn_step xe ods n h (ranked_row xe ev ods x))"
proof -
  let ?c = "ranked_row xe ev ods x" and ?A = "ranked_row xe ev ods ` set rows"
  note order = heap_order_rank [OF R]
  from b obtain hs D where hs: "heap_to (topn_less xe ods) (length h) h" "int (length h) \<le> n"
    "mset h = mset (map (ranked_row xe ev ods) hs)" "mset xs = mset (hs @ D)"
    "\<forall>y \<in> set hs. \<forall>d \<in> set D. row_before xe ev ods y d" "int (length h) = n \<or> D = []"
    by (auto simp: best_of_def)
  have set_xs: "set xs = set hs \<union> set D" using mset_eq_setD [OF hs(4)] by simp
  have set_h: "set h = ranked_row xe ev ods ` set hs" using mset_eq_setD [OF hs(3)] by simp
  have dist: "distinct (hs @ D)" using mset_eq_imp_distinct_iff [OF hs(4)] xs(2) by simp
  have A: "set h \<subseteq> ?A" "?c \<in> ?A" using set_h set_xs xs(1) by auto
  have in_rows: "y \<in> set rows" if "y \<in> set hs \<union> set D \<union> {x}" for y using that set_xs xs(1) by auto
  consider (room) "int (length h) < n" | (full) "int (length h) = n" using hs(2) by linarith
  then show ?thesis
  proof cases
    case room
    note push = heap_order.heap_Push_ok [OF order hs(1) A]
    from room hs(6) have "D = []" by simp
    with room push hs show ?thesis
      unfolding best_of_def by (intro conjI exI [of _ "x # hs"] exI [of _ "[]"]) (auto simp: topn_step_def)
  next
    case full
    then have ne: "h \<noteq> []" using n by auto
    then obtain r where r: "h ! 0 = ranked_row xe ev ods r" "r \<in> set hs" using set_h by (metis imageE length_greater_0_conv nth_mem)
    have xr: "x \<noteq> r" using xs(2) set_xs r(2) by auto
    have first: "y = r \<or> row_before xe ev ods y r" if y: "y \<in> set hs" for y
    proof -
      obtain j where "j < length h" "h ! j = ranked_row xe ev ods y" using y set_h by (metis image_eqI in_set_conv_nth)
      with heap_order.heap_root [OF order hs(1) A(1)] r(1) worse_rank [OF R] in_rows y r(2)
      have "\<not> row_before xe ev ods r y" by (metis UnI1)
      then show ?thesis using before_total [OF R] in_rows y r(2) by blast
    qed
    show ?thesis
    proof (cases "0 \<le> compareRanked xe ods ?c (h ! 0)")
      case True
      then have "\<not> row_before xe ev ods x r" by (simp add: r(1) compareRanked_rank row_before_def)
      then have rx: "row_before xe ev ods r x" using before_total [OF R _ _ xr] in_rows r(2) by blast
      have "row_before xe ev ods y x" if "y \<in> set hs" for y
        using first [OF that] rx before_trans [OF R, of y r x] in_rows that r(2) by auto
      with True full hs show ?thesis
        unfolding best_of_def by (intro conjI exI [of _ hs] exI [of _ "x # D"]) (auto simp: topn_step_def)
    next
      case False
      then have xb: "row_before xe ev ods x r" by (simp add: r(1) compareRanked_rank row_before_def)
      obtain t h1 where pop: "heap_Pop (topn_less xe ods) h = (t, h1)" by (cases "heap_Pop (topn_less xe ods) h")
      note p = heap_order.heap_Pop_ok [OF order hs(1) A(1) ne pop]
      have h1: "mset h1 = mset (map (ranked_row xe ev ods) (remove1 r hs))"
        using p(1,3) r hs(3) by (simp add: image_mset_Diff)
      have "set h1 \<subseteq> ?A" using p(3) A(1) by (metis insert_subset set_mset_add_mset_insert set_mset_mset)
      note push = heap_order.heap_Push_ok [OF order p(2) this A(2)]
      have len: "length h = Suc (length h1)" using p(3) by (metis size_add_mset size_mset)
      have rest: "mset hs = add_mset r (mset (remove1 r hs))" using r(2) by simp
      have before: "row_before xe ev ods y d" if "y \<in> set (x # remove1 r hs)" "d \<in> set (r # D)" for y d
      proof -
        have yr: "row_before xe ev ods y r"
          using that(1) xb first dist set_remove1_eq [of hs r] by auto
        show ?thesis
        proof (cases "d = r")
          case False
          with that(2) r(2) hs(5) have d: "d \<in> set D" "row_before xe ev ods r d" by auto
          have "y \<in> set hs \<union> set D \<union> {x}" using that(1) set_remove1_subset [of r hs] by auto
          from before_trans [OF R in_rows [OF this] _ _ yr d(2)] in_rows r(2) d(1) show ?thesis by blast
        qed (use yr in simp)
      qed
      have step: "topn_step xe ods n h ?c = heap_Push (topn_less xe ods) ?c h1"
        using False full pop by (simp add: topn_step_def)
      show ?thesis
        unfolding best_of_def step
      proof (intro conjI exI)
        show "heap_to (topn_less xe ods) (length (heap_Push (topn_less xe ods) ?c h1)) (heap_Push (topn_less xe ods) ?c h1)"
          by (rule push(1))
        show "int (length (heap_Push (topn_less xe ods) ?c h1)) \<le> n"
          "int (length (heap_Push (topn_less xe ods) ?c h1)) = n \<or> r # D = []" using full len by simp_all
        show "mset (heap_Push (topn_less xe ods) ?c h1) = mset (map (ranked_row xe ev ods) (x # remove1 r hs))"
          by (simp only: push(2) h1 list.map mset.simps)
        show "mset (xs @ [x]) = mset (x # remove1 r hs) + mset (r # D)" 
          using moved [OF hs(4) [unfolded mset_append] rest] by (simp only: mset_append mset.simps)
        show "\<forall>y \<in> set (x # remove1 r hs). \<forall>d \<in> set (r # D). row_before xe ev ods y d" using before by blast
      qed
    qed
  qed
qed

lemma topn_heap_best:
  assumes "orderly xe ev ods rows" "set (xs @ ys) \<subseteq> set rows" "distinct (xs @ ys)" "0 < n" "best_of xe ev ods n xs h"
  shows "best_of xe ev ods n (xs @ ys) (topn_heap xe ev ods n h ys)"
  using assms(2-5)
proof (induction ys arbitrary: xs h)
  case (Cons y ys)
  have "best_of xe ev ods n (xs @ [y]) (topn_step xe ods n h (ranked_row xe ev ods y))"
    by (rule best_of_step [OF assms(1)]) (use Cons.prems in auto)
  with Cons.IH [of "xs @ [y]"] Cons.prems show ?case by (simp add: topn_heap_def)
qed (simp add: topn_heap_def)

lemma mset_heap_Pop: "h \<noteq> [] \<Longrightarrow> heap_Pop lt h = (x, h1) \<Longrightarrow> mset h = add_mset x (mset h1)"
proof -
  assume h: "h \<noteq> []" "heap_Pop lt h = (x, h1)"
  define h2 where "h2 = heap_down lt (swap_at 0 (length h - 1) h) 0 (length h - 1)"
  from h(1) have len: "length h2 = length h" by (simp add: h2_def)
  have "mset h2 = mset h" using h(1) by (simp add: h2_def mset_heap_down mset_swap_at)
  moreover have "x = last h2" "h1 = butlast h2" using h(2) by (auto simp: heap_Pop_def Let_def h2_def)
  moreover have "h2 \<noteq> []" using len h(1) by auto
  ultimately show ?thesis by (metis append_butlast_last_id mset.simps(2) mset_append union_mset_add_mset_right mset.simps(1) add_0_right)
qed

lemma mset_heap_drain: "length h \<le> k \<Longrightarrow> mset (heap_drain lt k h) = mset h"
proof (induction k arbitrary: h)
  case (Suc k)
  show ?case
  proof (cases "h = []")
    case False
    obtain x h1 where pop: "heap_Pop lt h = (x, h1)" by (cases "heap_Pop lt h")
    note ms = mset_heap_Pop [OF False pop]
    then have "length h = Suc (length h1)" by (metis size_add_mset size_mset)
    with Suc ms pop False show ?thesis by simp
  qed simp
qed simp

text \<open>Top-N gives the first rows of what sorting gives.\<close>

lemma topn_is_take:
  assumes R: "orderly xe ev ods xs" and n: "0 < n"
  shows "topn_rows xe ev ods n xs = take (nat n) (sorted_rows xe ev ods xs)"
proof -
  define h where "h = topn_heap xe ev ods n [] xs"
  have "best_of xe ev ods n [] []" using n by (simp add: best_of_def heap_to_def)
  from topn_heap_best [OF R _ _ n this, of xs] orderly_distinct [OF R]
  have "best_of xe ev ods n xs h" by (simp add: h_def)
  then obtain hs D where hs: "int (length h) \<le> n" "mset h = mset (map (ranked_row xe ev ods) hs)" "mset xs = mset (hs @ D)"
    "\<forall>y \<in> set hs. \<forall>d \<in> set D. row_before xe ev ods y d" "int (length h) = n \<or> D = []"
    by (auto simp: best_of_def)
  have len: "length hs = length h" using hs(2) by (metis length_map size_mset)
  have sub: "set hs \<subseteq> set xs" "set D \<subseteq> set xs" using mset_eq_setD [OF hs(3)] by auto
  have dist: "distinct hs" "distinct D" using mset_eq_imp_distinct_iff [OF hs(3)] orderly_distinct [OF R] by auto
  have same: "set (sorted_rows xe ev ods ys) = set ys" for ys by (rule mset_eq_setD) simp
  let ?best = "sorted_rows xe ev ods hs"
  have "sorted_wrt (row_before xe ev ods) (?best @ sorted_rows xe ev ods D)"
    using sorted_rows_sorted [OF R] sub dist hs(4) by (simp add: sorted_wrt_append same)
  then have all: "sorted_rows xe ev ods xs = ?best @ sorted_rows xe ev ods D"
    by (rule sorted_rows_unique [OF _ _ R subset_refl orderly_distinct [OF R]]) (use hs(3) in simp)
  have "mset (map rk_row (heap_drain (topn_less xe ods) (length h) h)) = image_mset rk_row (mset h)"
    by (simp add: mset_heap_drain)
  also have "\<dots> = mset hs" using hs(2) by (simp add: multiset.map_comp comp_def)
  finally have ms: "mset (map rk_row (heap_drain (topn_less xe ods) (length h) h)) = mset hs" .
  have "topn_rows xe ev ods n xs = ?best"
    unfolding topn_rows_def Let_def h_def [symmetric]
    by (rule sorted_rows_unique [OF sorted_rows_sorted [OF R sub(1) dist(1)] _ R])
      (use mset_eq_setD [OF ms] mset_eq_imp_distinct_iff [OF ms] sub dist ms in auto)
  moreover have empty: "sorted_rows xe ev ods [] = []" by (simp add: sorted_rows_def sortRows_def SliceStable_def)
  have "take (nat n) (sorted_rows xe ev ods xs) = ?best"
    using all len hs(1,5) empty by (cases "D = []") simp_all
  ultimately show ?thesis by simp
qed

section \<open>Numbers always have an order\<close>

definition numbers :: "qvalue set" where
  "numbers = {v. comparableDate v = None \<and> exactNumericValue v \<noteq> None}"

lemma compare_numbers:
  assumes "a \<in> numbers" "b \<in> numbers"
  shows "compareValues ve a b = three_way (the (exactNumericValue a)) (the (exactNumericValue b))"
proof -
  from assms obtain x y where "exactNumericValue a = Some x" "exactNumericValue b = Some y"
    "comparableDate a = None" "comparableDate b = None" by (auto simp: numbers_def)
  then show ?thesis
    by (cases a; cases b; simp add: compareValues_def exactNumericValue_def)
qed

lemma compare_rows_trans:
  assumes "length ls = length ods" "length ms = length ods" "length rs = length ods"
    "set ls \<subseteq> numbers" "set ms \<subseteq> numbers" "set rs \<subseteq> numbers"
    "compareOrderValues xe ls p ms q ods \<le> 0" "compareOrderValues xe ms q rs r ods \<le> 0"
  shows "compareOrderValues xe ls p rs r ods \<le> 0"
  using assms
proof (induction ods arbitrary: ls ms rs)
  case (Cons od ods)
  then obtain x ls' y ms' z rs' where "ls = x # ls'" "ms = y # ms'" "rs = z # rs'"
    by (cases ls; cases ms; cases rs) auto
  with Cons show ?case
    by (cases "od_Descending od"; auto simp: Let_def eval_compare_def compare_numbers three_way_def split: if_splits)
qed (auto split: if_splits)

text \<open>So Top-N's heap is in order whenever the columns it orders by are numbers.\<close>

interpretation number_heap: heap_order "topn_less xe ods"
  "{c. length (rk_values c) = length ods \<and> set (rk_values c) \<subseteq> numbers}" for xe ods
proof
  fix a b :: rankedRow
  assume "a \<in> {c. length (rk_values c) = length ods \<and> set (rk_values c) \<subseteq> numbers}"
    "b \<in> {c. length (rk_values c) = length ods \<and> set (rk_values c) \<subseteq> numbers}" "topn_less xe ods a b"
  then show "\<not> topn_less xe ods b a"
    using compareOrderValues_swap [of "rk_values a" ods "rk_values b" xe "br_Sequence (rk_row a)" "br_Sequence (rk_row b)"]
    by (auto simp: topn_less_def compareRanked_def)
next
  fix a b c :: rankedRow
  assume "a \<in> {c. length (rk_values c) = length ods \<and> set (rk_values c) \<subseteq> numbers}"
    "b \<in> {c. length (rk_values c) = length ods \<and> set (rk_values c) \<subseteq> numbers}"
    "c \<in> {c. length (rk_values c) = length ods \<and> set (rk_values c) \<subseteq> numbers}"
    "\<not> topn_less xe ods a b" "\<not> topn_less xe ods b c"
  then show "\<not> topn_less xe ods a c"
    using compare_rows_trans [of "rk_values a" ods "rk_values b" "rk_values c" xe "br_Sequence (rk_row a)"
        "br_Sequence (rk_row b)" "br_Sequence (rk_row c)"]
    by (auto simp: topn_less_def compareRanked_def)
qed

text \<open>Rows whose columns are numbers have an order if no sequence number occurs twice.\<close>

lemma orderly_numbers:
  assumes "distinct (map br_Sequence rows)"
    and "\<And>row. row \<in> set rows \<Longrightarrow> \<exists>vs. rowOrderValues xe ev row ods = Inr vs \<and> set vs \<subseteq> numbers"
  shows "orderly xe ev ods rows"
proof -
  have vals: "length (row_values xe ev ods a) = length ods \<and> set (row_values xe ev ods a) \<subseteq> numbers" if "a \<in> set rows" for a
    using assms(2) [OF that] length_rowOrderValues by (auto simp: row_values_def)
  have "row_before xe ev ods a c" if abc: "a \<in> set rows" "b \<in> set rows" "c \<in> set rows"
    "row_before xe ev ods a b" "row_before xe ev ods b c" for a b c
  proof -
    let ?cmp = "\<lambda>x y. compareOrderValues xe (row_values xe ev ods x) (br_Sequence x) (row_values xe ev ods y) (br_Sequence y) ods"
    have le: "?cmp x z \<le> 0" if "x \<in> set rows" "y \<in> set rows" "z \<in> set rows" "?cmp x y \<le> 0" "?cmp y z \<le> 0" for x y z
      using compare_rows_trans that vals by blast
    have "?cmp a c \<le> 0" using le [of a b c] abc by (simp add: row_before_def)
    moreover have "?cmp a c \<noteq> 0"
    proof
      assume "?cmp a c = 0"
      then have "?cmp c a \<le> 0" using compareOrderValues_swap vals abc by (metis neg_0_equal_iff_equal order_refl)
      then have "?cmp b a \<le> 0" using le [of b c a] abc by (simp add: row_before_def)
      then show False using compareOrderValues_swap [of "row_values xe ev ods a" ods "row_values xe ev ods b" xe
            "br_Sequence a" "br_Sequence b"] vals abc by (simp add: row_before_def)
    qed
    ultimately show ?thesis by (simp add: row_before_def)
  qed
  with assms show ?thesis unfolding orderly_def by blast
qed

end
