(* ===== verification/Query_Shape.thy ===== *)
theory Query_Shape
  imports Query_TopN
begin

text \<open>
  The result of a query against a reference. \<open>query_rows\<close> says what the clauses of a query mean, one after
  the other, on the rows of its source; the pipeline of operators, with its batches, its heap for the first
  rows of an order and its extra row for the next page, delivers the same.
\<close>

section \<open>The reference\<close>

definition ordered_rows :: "exec_env \<Rightarrow> evaluator \<Rightarrow> Query \<Rightarrow> BindingRow list \<Rightarrow> BindingRow list" where
  "ordered_rows xe ev q xs = (if q_OrderBy q = [] then xs else sorted_rows xe ev (q_OrderBy q) xs)"

definition matching_rows :: "exec_env \<Rightarrow> evaluator \<Rightarrow> Query \<Rightarrow> BindingRow list \<Rightarrow> BindingRow list" where
  "matching_rows xe ev q xs = (case q_Predicate q of None \<Rightarrow> xs | Some p \<Rightarrow> filter (matches xe ev p) xs)"

text \<open>Aggregates and DISTINCT come before the order; without them the rows are ordered before projection.\<close>

definition shaped_rows :: "exec_env \<Rightarrow> evaluator \<Rightarrow> Query \<Rightarrow> BindingRow list \<Rightarrow> BindingRow list" where
  "shaped_rows xe ev q xs =
     (if q_Aggregates q \<noteq> [] then
        (let ys = aggregate_rows xe ev (q_Returns q) (q_Aggregates q) xs
         in ordered_rows xe ev q (if q_Distinct q then distinct_from (row_key xe) {} ys else ys))
      else if q_Distinct q then
        ordered_rows xe ev q (distinct_from (row_key xe) {} (map (projected_row xe ev (q_Returns q)) xs))
      else map (projected_row xe ev (q_Returns q)) (ordered_rows xe ev q xs))"

text \<open>OFFSET and LIMIT; a limit of zero is none.\<close>

definition limited_rows :: "Query \<Rightarrow> BindingRow list \<Rightarrow> BindingRow list" where
  "limited_rows q xs =
     (let ys = drop (nat (sint (pg_Offset (q_Page q)))) xs
      in if 0 < sint (pg_Limit (q_Page q)) then take (nat (sint (pg_Limit (q_Page q)))) ys else ys)"

definition query_rows :: "exec_env \<Rightarrow> ShapeOptions \<Rightarrow> Query \<Rightarrow> BindingRow list \<Rightarrow> BindingRow list" where
  "query_rows xe opts q xs =
     (let ev = query_evaluator opts in limited_rows q (shaped_rows xe ev q (matching_rows xe ev q xs)))"

text \<open>The page a cursor asks for.\<close>

definition page_rows :: "Query \<Rightarrow> BindingRow list \<Rightarrow> BindingRow list" where
  "page_rows q xs =
     (case paginationBounds (pg_Size (q_Page q)) (pg_Cursor (q_Page q)) of
        Inl e \<Rightarrow> []
      | Inr (start, psize) \<Rightarrow> take (nat psize) (drop (nat start) xs))"

section \<open>Draining an operator\<close>

lemma drain_take_result:
  "drain_take xe b rows held r = (e, rows1, held1, r1) \<Longrightarrow>
     limits r1 = limits r \<and> (e = None \<longrightarrow> rows1 = rows @ b)"
proof (induction b arbitrary: rows held r)
  case (Cons row b)
  obtain d r2 where d: "track (ReserveMemory (estimateBindingRow xe row)) r = (d, r2)" by (metis surj_pair)
  note l2 = kept(2) [OF d]
  show ?case
  proof (cases d)
    case None
    with d Cons.prems have
      "drain_take xe b (rows @ [row]) (held + estimateBindingRow xe row) r2 = (e, rows1, held1, r1)"
      by (simp add: Let_def)
    from Cons.IH [OF this] l2 show ?thesis by simp
  qed (use d Cons.prems l2 in \<open>auto simp: Let_def\<close>)
qed auto

context row_source
begin

lemma drain_loop_result:
  "streams L I n i xs \<Longrightarrow> n < k \<Longrightarrow> limits r = L \<Longrightarrow> drain_loop cn xe I account k rows held i r = (e, rows1, held1, i1, r1) \<Longrightarrow>
     (\<exists>x. e = Some (Fail x)) \<or> e = None \<and> rows1 = rows @ xs"
proof (induction k arbitrary: n i xs r rows held)
  case (Suc k)
  obtain c r2 where c: "canceled cn ''execute query'' r = (c, r2)" by (cases "canceled cn ''execute query'' r")
  show ?case
  proof (cases c)
    case (Some x)
    with c Suc.prems show ?thesis by auto
  next
    case None
    have l2: "limits r2 = L" using kept(1) [OF c] Suc.prems(3) by simp
    from Suc.prems(1) l2 show ?thesis
    proof (cases rule: streams_cases [where r = r2, case_names eof fail batch])
      case eof
      with c None Suc.prems show ?thesis by auto
    next
      case fail
      with c None Suc.prems show ?thesis by auto
    next
      case (batch b i2 r3 m ys)
      have l3: "limits r3 = L" using batch(1) l2 by (metis next_limits)
      show ?thesis
      proof (cases "b = []")
        case True
        with batch c None Suc.prems have "drain_loop cn xe I account k rows held i2 r3 = (e, rows1, held1, i1, r1)" by simp
        from Suc.IH [OF batch(4) _ l3 this] batch(2,3) Suc.prems(2) True show ?thesis by simp
      next
        case False
        obtain d r4 where d: "(if account then track (ProduceOutput (int64_len b)) r3 else (None, r3)) = (d, r4)"
          by (metis surj_pair)
        have l4: "limits r4 = L" using d l3 by (auto split: if_splits dest: kept)
        obtain f rows2 held2 r5 where f: "drain_take xe b rows held r4 = (f, rows2, held2, r5)" by (metis prod_cases4)
        note t = drain_take_result [OF f]
        show ?thesis
        proof (cases "d = None \<and> f = None")
          case True
          with batch c None d f False Suc.prems
          have lp: "drain_loop cn xe I account k rows2 held2 i2 r5 = (e, rows1, held1, i1, r1)" by simp
          have "limits r5 = L" using t l4 by simp
          from Suc.IH [OF batch(4) _ this lp] batch(2,3) Suc.prems(2) t True show ?thesis by simp
        next
          case failed: False
          with batch c None d f False Suc.prems show ?thesis by (cases d; cases f) auto
        qed
      qed
    qed
  qed
qed simp

lemma drain_result:
  assumes "opens L I n i xs" "n < k" "limits r = L" "drain cn xe I account k i r = (res, i1, r1)"
  shows "(\<exists>e. res = Inl (Fail e)) \<or> (\<exists>held. res = Inr (xs, held))"
proof -
  obtain e s1 r2 where op: "op_Open I i r = (e, s1, r2)" by (metis prod_cases3)
  show ?thesis
  proof (cases e)
    case (Some x)
    with op assms(4) show ?thesis by (auto simp: drain_def split: prod.splits)
  next
    case None
    with op assms(1,3) have st: "streams L I n s1 xs" by (auto simp: opens_def)
    have "limits r2 = L" using op assms(3) open_limits by metis
    obtain f rows held s2 r3 where lp: "drain_loop cn xe I account k [] 0 s1 r2 = (f, rows, held, s2, r3)" by (metis prod_cases5)
    from drain_loop_result [OF st assms(2) \<open>limits r2 = L\<close> lp] op None lp assms(4) show ?thesis
      by (auto simp: drain_def split: prod.splits option.splits)
  qed
qed

end

section \<open>The pipeline of a query\<close>

lemma safeTopN_value:
  assumes "safeTopN q = Some n"
  shows "0 \<le> sint (pg_Offset (q_Page q))" "0 < sint (pg_Limit (q_Page q))"
    "n = sint (pg_Offset (q_Page q)) + sint (pg_Limit (q_Page q))"
proof -
  let ?o = "pg_Offset (q_Page q)" and ?l = "pg_Limit (q_Page q)"
  from assms have g: "0 < sint ?l" "0 \<le> sint ?o" "sint ?o \<le> sint (2 ^ 63 - 1 - ?l)" "n = sint (?o + ?l)"
    by (auto simp: safeTopN_def Let_def split: if_splits)
  have top: "sint (2 ^ 63 - 1 :: u64) = 2 ^ 63 - 1" by simp
  have "sint (2 ^ 63 - 1 - ?l) = 2 ^ 63 - 1 - sint ?l"
    using g(1) sint_bounds [of ?l] top by (subst sint_diff_exact) auto
  with g(1-3) have "sint (?o + ?l) = sint ?o + sint ?l" by (intro sint_add_exact) auto
  with g show "0 \<le> sint ?o" "0 < sint ?l" "n = sint ?o + sint ?l" by auto
qed

lemma plan_filter_rows: "plan_rows xe (plan_filter opts q p) xs = matching_rows xe (query_evaluator opts) q (plan_rows xe p xs)"
  by (simp add: plan_filter_def matching_rows_def split: option.splits)

lemma plan_sort_rows: "plan_rows xe (plan_sort opts q p) xs = ordered_rows xe (query_evaluator opts) q (plan_rows xe p xs)"
  by (simp add: plan_sort_def ordered_rows_def)

lemma plan_page_rows: "plan_rows xe (plan_page q p) xs = limited_rows q (plan_rows xe p xs)"
  by (auto simp: plan_page_def limited_rows_def Let_def)

text \<open>Top-N may stand for the order only where the rows have one.\<close>

definition topn_orderly :: "exec_env \<Rightarrow> ShapeOptions \<Rightarrow> Query \<Rightarrow> BindingRow list \<Rightarrow> bool" where
  "topn_orderly xe opts q xs \<longleftrightarrow>
     (q_OrderBy q \<noteq> [] \<and> safeTopN q \<noteq> None \<longrightarrow>
        orderly xe (query_evaluator opts) (q_OrderBy q) (matching_rows xe (query_evaluator opts) q xs))"

lemma plan_shape_rows:
  assumes "topn_orderly xe opts q xs"
  shows "limited_rows q (plan_rows xe (plan_shape opts q (plan_filter opts q PSource)) xs) = query_rows xe opts q xs"
proof (cases "q_Aggregates q = [] \<and> \<not> q_Distinct q \<and> q_OrderBy q \<noteq> [] \<and> safeTopN q \<noteq> None")
  case True
  then obtain n where n: "safeTopN q = Some n" by auto
  let ?ms = "matching_rows xe (query_evaluator opts) q xs"
  note v = safeTopN_value [OF n]
  have "topn_rows xe (query_evaluator opts) (q_OrderBy q) n ?ms =
      take (nat n) (sorted_rows xe (query_evaluator opts) (q_OrderBy q) ?ms)"
    by (rule topn_is_take) (use assms True v in \<open>auto simp: topn_orderly_def\<close>)
  with True n v show ?thesis
    by (simp add: plan_shape_def query_rows_def shaped_rows_def limited_rows_def ordered_rows_def plan_filter_rows
        take_map drop_map drop_take nat_add_distrib Let_def)
next
  case False
  then show ?thesis
    by (cases "safeTopN q") (auto simp: plan_shape_def query_rows_def shaped_rows_def plan_filter_rows plan_sort_rows
        ordered_rows_def Let_def)
qed

lemma paginationBounds_range:
  assumes "paginationBounds sz cursor = Inr (start, psize)"
  shows "0 \<le> start" "start < 2 ^ 63" "0 < psize" "psize \<le> 500"
  using assms by (auto simp: paginationBounds_def Let_def maxPageSize_def atoi_def split: if_splits option.splits)

lemma page_size_word: "0 < psize \<Longrightarrow> psize \<le> 500 \<Longrightarrow> sint (word_of_int (psize + 1) :: u64) = psize + 1"
  by (rule sint_of_int_in_range) auto

lemma buildPipeline_rows:
  assumes "topn_orderly xe opts q xs" "buildPipeline q opts = Inr plan"
    "paginationBounds (pg_Size (q_Page q)) (pg_Cursor (q_Page q)) = Inr (start, psize)"
  shows "plan_rows xe plan xs = take (nat psize + 1) (drop (nat start) (query_rows xe opts q xs))"
proof -
  note b = paginationBounds_range [OF assms(3)]
  have "sint (word_of_int start :: u64) = start" using b by (intro sint_of_int_in_range) auto
  moreover have "nat (psize + 1) = nat psize + 1" using b by simp
  ultimately show ?thesis
    using assms(2,3) plan_shape_rows [OF assms(1)] b page_size_word [OF b(3,4)]
    by (auto simp: buildPipeline_def plan_page_rows Let_def split: if_splits)
qed

lemma buildPipeline_ok:
  assumes "buildPipeline q opts = Inr plan"
  shows "plan_ok plan" "plan_depth plan \<le> 8"
proof -
  obtain start psize where sp: "paginationBounds (pg_Size (q_Page q)) (pg_Cursor (q_Page q)) = Inr (start, psize)"
    using assms by (auto simp: buildPipeline_def Let_def split: sum.splits)
  note b = paginationBounds_range [OF sp]
  have f: "plan_ok (plan_filter opts q PSource)" "plan_depth (plan_filter opts q PSource) \<le> 1"
    by (auto simp: plan_filter_def split: option.splits)
  have s: "plan_ok (plan_shape opts q p) = plan_ok p" "plan_depth (plan_shape opts q p) \<le> plan_depth p + 3" for p
    by (auto simp: plan_shape_def plan_sort_def Let_def split: option.splits)
  have g: "plan_ok (plan_page q p) = plan_ok p" "plan_depth (plan_page q p) \<le> plan_depth p + 2" for p
    by (auto simp: plan_page_def Let_def)
  let ?p = "plan_shape opts q (plan_filter opts q PSource)"
  have d: "plan_depth (plan_page q ?p) \<le> 6"
    using g(2) [of ?p] s(2) [of "plan_filter opts q PSource"] f(2) by linarith
  from assms sp b page_size_word [OF b(3,4)] show "plan_ok plan"
    by (auto simp: buildPipeline_def Let_def f g s split: if_splits)
  from assms sp d show "plan_depth plan \<le> 8"
    by (auto simp: buildPipeline_def Let_def split: if_splits)
qed

section \<open>Shape\<close>

lemma Shape_cases:
  assumes "row_source S" "opens L S n s xs" "0 < sint (BatchSize L)" "limits r = L" "topn_orderly xe opts q xs"
    "n + length xs + 8 < k" "n + length xs + 8 < 2 ^ 63" "Shape cn xe S k q opts s r = (res, s1, r1)"
  shows "(\<exists>e. res = Inl (Fail e)) \<or>
     (\<exists>R. res = Inr R \<and> rs_Rows R = map br_Projected (page_rows q (query_rows xe opts q xs)))"
proof (cases "ValidatePage (q_Page q) = None \<and> validateAggregates (q_Aggregates q) = None \<and>
    (\<exists>plan. buildPipeline q opts = Inr plan)")
  case False
  with assms(8) show ?thesis
    by (auto simp: Shape_def split: option.splits sum.splits prod.splits)
next
  case True
  then obtain plan where plan: "ValidatePage (q_Page q) = None" "validateAggregates (q_Aggregates q) = None"
    "buildPipeline q opts = Inr plan" by blast
  then obtain start psize where sp: "paginationBounds (pg_Size (q_Page q)) (pg_Cursor (q_Page q)) = Inr (start, psize)"
    by (auto simp: buildPipeline_def Let_def split: sum.splits)
  note b = paginationBounds_range [OF sp]
  note ok = buildPipeline_ok [OF plan(3)]
  have op: "opens L (operator_of cn xe k S plan) (n + length xs + plan_depth plan) (new_state plan s) (plan_rows xe plan xs)"
    by (rule plan_streams [OF assms(1-3) ok(1)]) (use assms(6,7) ok(2) in auto)
  obtain a s2 r2 where dr: "drain cn xe (operator_of cn xe k S plan) True k (new_state plan s) r = (a, s2, r2)"
    by (metis prod_cases3)
  have "n + length xs + plan_depth plan < k" using assms(6) ok(2) by simp
  from row_source.drain_result [OF operator_of_source [OF assms(1)] op this assms(4) dr]
  show ?thesis
  proof
    assume "\<exists>e. a = Inl (Fail e)"
    with dr plan assms(8) show ?thesis by (auto simp: Shape_def)
  next
    assume "\<exists>held. a = Inr (plan_rows xe plan xs, held)"
    then obtain held where a: "a = Inr (plan_rows xe plan xs, held)" by blast
    obtain pg cursor where pg: "paginateRows (plan_rows xe plan xs) (pg_Size (q_Page q)) (pg_Cursor (q_Page q)) = Inr (pg, cursor)"
      "pg = take (nat psize) (plan_rows xe plan xs)"
      using sp by (simp add: paginateRows_def split: if_splits) (metis take_all)
    have "pg = page_rows q (query_rows xe opts q xs)"
      using pg(2) buildPipeline_rows [OF assms(5) plan(3) sp] sp by (simp add: page_rows_def)
    with dr plan assms(8) a pg(1) show ?thesis by (auto simp: Shape_def Let_def)
  qed
qed

end
