(* ===== verification/Query_Memory.thy ===== *)
theory Query_Memory
  imports Query_Shape
begin

text \<open>
  The memory a query reserves. Operators that keep rows charge the tracker for them and give back on \<open>Close\<close>
  what they hold. The interface \<open>frugal\<close> says that every method keeps the books: the tracker's
  memory is what the operator holds and what was reserved outside it, and nothing is held after \<open>Close\<close>,
  whatever failed before. Every operator keeps it if its input does.
\<close>

section \<open>The tracker's memory\<close>

definition mem :: "run \<Rightarrow> int" where
  "mem r = counters_of (rn_tracker r) Memory"

definition run_ok :: "run \<Rightarrow> bool" where
  "run_ok r \<longleftrightarrow> within_budget (rn_tracker r)"

lemma mem_bound: "run_ok r \<Longrightarrow> mem r < 2 ^ 63"
  using sint_bounds [of "used_of Memory (tk_usage (rn_tracker r))"] by (simp add: mem_def counters_of_def)

lemma canceled_mem: "canceled cn name r = (e, r1) \<Longrightarrow> run_ok r \<Longrightarrow> run_ok r1 \<and> mem r1 = mem r"
  by (auto simp: canceled_def mem_def run_ok_def)

lemma charge_mem:
  assumes "track (charge_call k b) r = (e, r1)" "run_ok r"
  shows "run_ok r1" "mem r1 = (if k = Memory \<and> e = None then mem r + sint b else mem r)" "e = None \<longrightarrow> 0 \<le> sint b"
proof -
  let ?t = "rn_tracker r"
  have g: "within_budget ?t" using assms(2) by (simp add: run_ok_def)
  obtain x t1 where x: "charge_call k b ?t = (x, t1)" by (cases "charge_call k b ?t")
  then have r1: "r1 = r\<lparr>rn_tracker := t1\<rparr>" "e = map_option QErr x" using assms(1) by (auto simp: track_def)
  show "run_ok r1" using charge_within [OF g, of k b] x r1 by (simp add: run_ok_def)
  show "e = None \<longrightarrow> 0 \<le> sint b" using charge_refused [OF g, of k b] x r1 by auto
  show "mem r1 = (if k = Memory \<and> e = None then mem r + sint b else mem r)"
    using charge_accepted [OF g, of k b] charge_refused_same [of k b ?t] x r1 by (cases x) (auto simp: mem_def)
qed

lemma produced_mem:
  "track (ProduceIntermediate b) r = (e, r1) \<Longrightarrow> run_ok r \<Longrightarrow> run_ok r1 \<and> mem r1 = mem r"
  "track (ProduceOutput b) r = (e, r1) \<Longrightarrow> run_ok r \<Longrightarrow> run_ok r1 \<and> mem r1 = mem r"
  "track (ExamineCandidates b) r = (e, r1) \<Longrightarrow> run_ok r \<Longrightarrow> run_ok r1 \<and> mem r1 = mem r"
  using charge_mem [of IntermediateRows b r e r1] charge_mem [of OutputRows b r e r1] charge_mem [of Candidates b r e r1]
  by simp_all

lemma reserved_mem:
  assumes "track (ReserveMemory b) r = (e, r1)" "run_ok r"
  shows "run_ok r1" "e = None \<Longrightarrow> 0 \<le> sint b \<and> mem r1 = mem r + sint b" "e \<noteq> None \<Longrightarrow> mem r1 = mem r"
  using charge_mem [of Memory b r e r1] assms by auto

lemma release_mem:
  assumes "run_ok r" "0 \<le> sint b" "sint b \<le> mem r"
  shows "run_ok (release b r)" "mem (release b r) = mem r - sint b"
proof -
  have g: "within_budget (rn_tracker r)" using assms(1) by (simp add: run_ok_def)
  show "run_ok (release b r)" using step_within [OF g, of "Release b"] by (simp add: run_ok_def release_def)
  show "mem (release b r) = mem r - sint b"
    using assms(2,3) release_counters [OF g, of b] by (simp add: mem_def release_def)
qed

section \<open>The interface\<close>

text \<open>The books: the memory in use is what \<open>s\<close> holds and \<open>b\<close>, which was reserved by others.\<close>

definition balanced :: "('s \<Rightarrow> int) \<Rightarrow> ('s \<Rightarrow> bool) \<Rightarrow> 's \<Rightarrow> run \<Rightarrow> int \<Rightarrow> bool" where
  "balanced held fine s r b \<longleftrightarrow> fine s \<and> run_ok r \<and> 0 \<le> held s \<and> 0 \<le> b \<and> mem r = held s + b"

locale frugal =
  fixes I :: "'i operator" and held :: "'i \<Rightarrow> int" and fine :: "'i \<Rightarrow> bool"
  assumes open_books: "op_Open I i r = (e, i1, r1) \<Longrightarrow> balanced held fine i r b \<Longrightarrow> held i = 0 \<Longrightarrow>
      balanced held fine i1 r1 b"
    and next_books: "op_Next I i r = (x, i1, r1) \<Longrightarrow> balanced held fine i r b \<Longrightarrow> balanced held fine i1 r1 b"
    and close_books: "op_Close I i r = (e, i1, r1) \<Longrightarrow> balanced held fine i r b \<Longrightarrow>
      balanced held fine i1 r1 b \<and> held i1 = 0"

section \<open>What a unary operator holds\<close>

definition own :: "op_fields \<Rightarrow> int" where
  "own u = sint (of_retained u) + (\<Sum>(key, bytes) \<leftarrow> of_seen u. sint bytes)"

definition own_ok :: "op_fields \<Rightarrow> bool" where
  "own_ok u \<longleftrightarrow> 0 \<le> sint (of_retained u) \<and> (\<forall>(key, bytes) \<in> set (of_seen u). 0 \<le> sint bytes)"

definition same_own :: "op_fields \<Rightarrow> op_fields \<Rightarrow> bool" where
  "same_own u u1 \<longleftrightarrow> of_retained u1 = of_retained u \<and> of_seen u1 = of_seen u \<and> of_materialized u1 = of_materialized u"

lemma seen_nonneg: "\<forall>(key, bytes) \<in> set xs. 0 \<le> sint bytes \<Longrightarrow> 0 \<le> (\<Sum>(key, bytes) \<leftarrow> xs. sint (bytes :: u64))"
  by (induction xs) auto

lemma own_nonneg: "own_ok u \<Longrightarrow> 0 \<le> own u"
  using seen_nonneg [of "of_seen u"] by (simp add: own_def own_ok_def)

lemma same_own_refl [simp]: "same_own u u"
  by (simp add: same_own_def)

lemma same_own_trans: "same_own u v \<Longrightarrow> same_own v w \<Longrightarrow> same_own u w"
  by (simp add: same_own_def)

lemma same_ownD: "same_own u u1 \<Longrightarrow> own u1 = own u \<and> own_ok u1 = own_ok u"
  by (simp add: same_own_def own_def own_ok_def)

text \<open>An operator whose fields are \<open>u\<close> over an input in state \<open>i\<close>; once it is closed so is its input.\<close>

definition books :: "('i \<Rightarrow> int) \<Rightarrow> ('i \<Rightarrow> bool) \<Rightarrow> 'i \<Rightarrow> op_fields \<Rightarrow> run \<Rightarrow> int \<Rightarrow> bool" where
  "books held fine i u r b \<longleftrightarrow>
     balanced held fine i r (b + own u) \<and> own_ok u \<and> 0 \<le> b \<and> (un_closed u \<longrightarrow> held i = 0)"

lemma books_fields:
  "books held fine i (u\<lparr>of_remaining := a\<rparr>) r b = books held fine i u r b"
  "books held fine i (u\<lparr>of_rows := c\<rparr>) r b = books held fine i u r b"
  "books held fine i (u\<lparr>of_offset := d\<rparr>) r b = books held fine i u r b"
  "books held fine i (u\<lparr>of_materialized := f\<rparr>) r b = books held fine i u r b"
  by (simp_all add: books_def own_def own_ok_def)

lemma same_own_fields:
  "same_own u (v\<lparr>of_remaining := a\<rparr>) = same_own u v" "same_own (v\<lparr>of_remaining := a\<rparr>) u = same_own v u"
  "same_own u (v\<lparr>of_rows := c\<rparr>) = same_own u v" "same_own (v\<lparr>of_rows := c\<rparr>) u = same_own v u"
  "same_own u (v\<lparr>of_offset := d\<rparr>) = same_own u v" "same_own (v\<lparr>of_offset := d\<rparr>) u = same_own v u"
  by (simp_all add: same_own_def)

declare books_fields [simp] same_own_fields [simp]

lemma books_run:
  assumes "books held fine i u r b" "run_ok r1" "mem r1 = mem r"
  shows "books held fine i u r1 b"
  using assms by (simp add: books_def balanced_def)

lemma books_run_ok: "books held fine i u r b \<Longrightarrow> run_ok r"
  by (simp add: books_def balanced_def)

lemma books_canceled: "canceled cn name r = (e, r1) \<Longrightarrow> books held fine i u r b \<Longrightarrow> books held fine i u r1 b"
  by (drule canceled_mem [OF _ books_run_ok], assumption) (simp add: books_run)

lemma books_produced:
  "track (ProduceIntermediate x) r = (e, r1) \<Longrightarrow> books held fine i u r b \<Longrightarrow> books held fine i u r1 b"
  by (drule produced_mem(1) [OF _ books_run_ok], assumption) (simp add: books_run)

text \<open>A reservation in the operator's name, and what it gives back.\<close>

lemma books_reserve:
  assumes "reserve x u r = (e, u1, r1)" "books held fine i u r b"
  shows "books held fine i u1 r1 b" "of_seen u1 = of_seen u" "un_closed u1 = un_closed u"
    "e = None \<Longrightarrow> 0 \<le> sint x \<and> sint (of_retained u1) = sint (of_retained u) + sint x"
    "e \<noteq> None \<Longrightarrow> of_retained u1 = of_retained u"
proof -
  obtain f r2 where f: "track (ReserveMemory x) r = (f, r2)" by (cases "track (ReserveMemory x) r")
  note m = reserved_mem [OF f books_run_ok [OF assms(2)]]
  have bal: "mem r = held i + b + own u" "0 \<le> held i" "0 \<le> b" "own_ok u" "fine i" "un_closed u \<longrightarrow> held i = 0"
    using assms(2) by (auto simp: books_def balanced_def)
  have seen: "0 \<le> (\<Sum>(key, bytes) \<leftarrow> of_seen u. sint bytes)" using bal(4) by (auto simp: own_ok_def intro: seen_nonneg)
  have ret: "f = None \<Longrightarrow> sint (of_retained u + x) = sint (of_retained u) + sint x"
    using m bal seen mem_bound [OF m(1)] by (intro sint_add_exact) (auto simp: own_def own_ok_def)
  show "books held fine i u1 r1 b"
    using assms(1) f m bal ret seen by (cases f) (auto simp: reserve_def books_def balanced_def own_def own_ok_def)
  show "of_seen u1 = of_seen u" "un_closed u1 = un_closed u" using assms(1) f by (auto simp: reserve_def split: option.splits)
  show "e = None \<Longrightarrow> 0 \<le> sint x \<and> sint (of_retained u1) = sint (of_retained u) + sint x"
    using assms(1) f m ret by (cases f) (auto simp: reserve_def)
  show "e \<noteq> None \<Longrightarrow> of_retained u1 = of_retained u" using assms(1) f by (auto simp: reserve_def split: option.splits)
qed

lemma books_give_back:
  assumes "books held fine i u r b" "0 \<le> sint x" "sint x \<le> sint (of_retained u)"
  shows "books held fine i (u\<lparr>of_retained := of_retained u - x\<rparr>) (release x r) b"
    "sint (of_retained u - x) = sint (of_retained u) - sint x"
proof -
  have bal: "mem r = held i + b + own u" "0 \<le> held i" "0 \<le> b" "own_ok u" "run_ok r"
    using assms(1) by (auto simp: books_def balanced_def)
  have seen: "0 \<le> (\<Sum>(key, bytes) \<leftarrow> of_seen u. sint bytes)" using bal(4) by (auto simp: own_ok_def intro: seen_nonneg)
  show d: "sint (of_retained u - x) = sint (of_retained u) - sint x"
    using assms(2,3) by (simp add: sint_diff_nonneg)
  have "sint x \<le> mem r" using bal seen assms(3) by (simp add: own_def)
  from release_mem [OF bal(5) assms(2) this] d assms seen
  show "books held fine i (u\<lparr>of_retained := of_retained u - x\<rparr>) (release x r) b"
    by (auto simp: books_def balanced_def own_def own_ok_def)
qed

definition u_held :: "('i \<Rightarrow> int) \<Rightarrow> 'i unary \<Rightarrow> int" where
  "u_held held s = held (fst s) + own (snd s)"

definition u_fine :: "(op_fields \<Rightarrow> bool) \<Rightarrow> ('i \<Rightarrow> int) \<Rightarrow> ('i \<Rightarrow> bool) \<Rightarrow> 'i unary \<Rightarrow> bool" where
  "u_fine K held fine s \<longleftrightarrow> fine (fst s) \<and> 0 \<le> held (fst s) \<and> own_ok (snd s) \<and> K (snd s) \<and>
     (un_closed (snd s) \<longrightarrow> held (fst s) = 0)"

lemma balanced_unary:
  "balanced (u_held held) (u_fine K held fine) (i, u) r b \<longleftrightarrow> books held fine i u r b \<and> K u"
  using own_nonneg [of u] by (auto simp: balanced_def u_held_def u_fine_def books_def)

text \<open>
  Which fields an operator uses: none, the keys DISTINCT has seen, or retained rows. Between calls rows are only
  retained once they are materialised.
\<close>

definition holds_none :: "op_fields \<Rightarrow> bool" where
  "holds_none u \<longleftrightarrow> of_retained u = 0 \<and> of_seen u = []"

definition holds_keys :: "op_fields \<Rightarrow> bool" where
  "holds_keys u \<longleftrightarrow> of_retained u = 0"

definition holds_rows :: "op_fields \<Rightarrow> bool" where
  "holds_rows u \<longleftrightarrow> of_seen u = [] \<and> (\<not> of_materialized u \<longrightarrow> of_retained u = 0)"

lemma holds_same:
  "same_own u u1 \<Longrightarrow> holds_none u \<Longrightarrow> holds_none u1"
  "same_own u u1 \<Longrightarrow> holds_keys u \<Longrightarrow> holds_keys u1"
  "same_own u u1 \<Longrightarrow> holds_rows u \<Longrightarrow> holds_rows u1"
  by (simp_all add: holds_none_def holds_keys_def holds_rows_def same_own_def)

lemma own_none: "holds_none u \<Longrightarrow> own u = 0"
  by (simp add: holds_none_def own_def)

context frugal
begin

abbreviation "keeps \<equiv> books held fine"

lemma close_keeps:
  assumes "unary_close I (i, u) r = (e, (i1, u1), r1)" "keeps i u r b"
  shows "keeps i1 u1 r1 b" "held i1 = 0" "same_own u u1"
proof -
  have "keeps i1 u1 r1 b \<and> held i1 = 0 \<and> same_own u u1"
  proof (cases "un_closed u")
    case True
    with assms show ?thesis by (auto simp: unary_close_def books_def)
  next
    case False
    obtain e' i' r' where c: "op_Close I i r = (e', i', r')" by (metis prod_cases3)
    with False assms have "i1 = i'" "r1 = r'" "u1 = u\<lparr>un_closed := True, un_closeErr := e'\<rparr>" by (auto simp: unary_close_def)
    with close_books [OF c, of "b + own u"] assms(2) show ?thesis
      by (auto simp: books_def own_def own_ok_def same_own_def)
  qed
  then show "keeps i1 u1 r1 b" "held i1 = 0" "same_own u u1" by auto
qed

lemma fail_keeps:
  assumes "unary_fail I e (i, u) r = (x, (i1, u1), r1)" "keeps i u r b"
  shows "keeps i1 u1 r1 b" "same_own u u1"
proof -
  obtain e' i' u' r' where c: "unary_close I (i, u) r = (e', (i', u'), r')" by (metis surj_pair)
  with assms close_keeps [OF c assms(2)] show "keeps i1 u1 r1 b" "same_own u u1" by (auto simp: unary_fail_def)
qed

lemma ready_keeps:
  assumes "unary_ready I cn name (i, u) r = (x, (i1, u1), r1)" "keeps i u r b"
  shows "keeps i1 u1 r1 b" "same_own u u1" "x = None \<Longrightarrow> \<not> un_closed u \<and> i1 = i \<and> u1 = u"
proof -
  obtain c r2 where c: "canceled cn name r = (c, r2)" by (cases "canceled cn name r")
  note k = books_canceled [OF c assms(2)]
  have "keeps i1 u1 r1 b \<and> same_own u u1 \<and> (x = None \<longrightarrow> \<not> un_closed u \<and> i1 = i \<and> u1 = u)"
  proof (cases c)
    case (Some e)
    obtain e' i' u' r' where cl: "unary_close I (i, u) r2 = (e', (i', u'), r')" by (metis surj_pair)
    with close_keeps [OF cl k] c Some assms(1) show ?thesis by (auto simp: unary_ready_def)
  next
    case None
    with c assms(1) k show ?thesis by (auto simp: unary_ready_def split: if_splits)
  qed
  then show "keeps i1 u1 r1 b" "same_own u u1" "x = None \<Longrightarrow> \<not> un_closed u \<and> i1 = i \<and> u1 = u" by auto
qed

lemma open_keeps:
  assumes "unary_open I cn name (i, u) r = (e, (i1, u1), r1)" "keeps i u r b" "held i = 0"
  shows "keeps i1 u1 r1 b" "same_own u u1"
proof -
  obtain c r2 where c: "canceled cn name r = (c, r2)" by (cases "canceled cn name r")
  note k = books_canceled [OF c assms(2)]
  have "keeps i1 u1 r1 b \<and> same_own u u1"
  proof (cases "c = None \<and> \<not> (un_opened u \<and> \<not> un_closed u)")
    case False
    with c assms(1) k show ?thesis by (cases c) (auto simp: unary_open_def split: if_splits)
  next
    case True
    obtain f i2 r3 where f: "op_Open I i r2 = (f, i2, r3)" by (metis prod_cases3)
    have o: "balanced held fine i2 r3 (b + own u)" using open_books [OF f, of "b + own u"] k assms(3) by (simp add: books_def)
    show ?thesis
    proof (cases f)
      case None
      with True c f assms(1) o k show ?thesis
        by (auto simp: unary_open_def books_def own_def own_ok_def same_own_def split: if_splits)
    next
      case (Some x)
      obtain g i3 r4 where g: "op_Close I i2 r3 = (g, i3, r4)" by (metis prod_cases3)
      from close_books [OF g o] True c f g Some assms(1) k show ?thesis
        by (auto simp: unary_open_def books_def split: if_splits)
    qed
  qed
  then show "keeps i1 u1 r1 b" "same_own u u1" by auto
qed

lemma next_keeps:
  assumes "op_Next I i r = (x, i1, r1)" "keeps i u r b" "\<not> un_closed u"
  shows "keeps i1 u r1 b"
  using next_books [OF assms(1), of "b + own u"] assms(2,3) by (simp add: books_def)

lemma frugal_unary:
  assumes "\<And>i u r e i1 u1 r1 b. op_Open A (i, u) r = (e, (i1, u1), r1) \<Longrightarrow> keeps i u r b \<Longrightarrow> K u \<Longrightarrow> held i = 0 \<Longrightarrow>
      own u = 0 \<Longrightarrow> keeps i1 u1 r1 b \<and> K u1"
    and "\<And>i u r x i1 u1 r1 b. op_Next A (i, u) r = (x, (i1, u1), r1) \<Longrightarrow> keeps i u r b \<Longrightarrow> K u \<Longrightarrow> keeps i1 u1 r1 b \<and> K u1"
    and "\<And>i u r e i1 u1 r1 b. op_Close A (i, u) r = (e, (i1, u1), r1) \<Longrightarrow> keeps i u r b \<Longrightarrow> K u \<Longrightarrow>
      keeps i1 u1 r1 b \<and> K u1 \<and> held i1 = 0 \<and> own u1 = 0"
  shows "frugal A (u_held held) (u_fine K held fine)"
proof
  fix s :: "'i \<times> op_fields" and r e and s1 :: "'i \<times> op_fields" and r1 b
  assume o: "op_Open A s r = (e, s1, r1)" and bal: "balanced (u_held held) (u_fine K held fine) s r b" and z: "u_held held s = 0"
  obtain i u i1 u1 where s: "s = (i, u)" "s1 = (i1, u1)" by (cases s; cases s1)
  have "0 \<le> own u" "0 \<le> held i" using bal own_nonneg by (auto simp: s balanced_def u_fine_def)
  with z have "held i = 0" "own u = 0" by (auto simp: s u_held_def)
  with assms(1) [of i u r e i1 u1 r1 b] o bal show "balanced (u_held held) (u_fine K held fine) s1 r1 b"
    by (simp add: s balanced_unary)
next
  fix s :: "'i \<times> op_fields" and r x and s1 :: "'i \<times> op_fields" and r1 b
  assume n: "op_Next A s r = (x, s1, r1)" "balanced (u_held held) (u_fine K held fine) s r b"
  obtain i u i1 u1 where s: "s = (i, u)" "s1 = (i1, u1)" by (cases s; cases s1)
  from assms(2) [of i u r x i1 u1 r1 b] n show "balanced (u_held held) (u_fine K held fine) s1 r1 b"
    by (simp add: s balanced_unary)
next
  fix s :: "'i \<times> op_fields" and r e and s1 :: "'i \<times> op_fields" and r1 b
  assume c: "op_Close A s r = (e, s1, r1)" "balanced (u_held held) (u_fine K held fine) s r b"
  obtain i u i1 u1 where s: "s = (i, u)" "s1 = (i1, u1)" by (cases s; cases s1)
  from assms(3) [of i u r e i1 u1 r1 b] c
  show "balanced (u_held held) (u_fine K held fine) s1 r1 b \<and> u_held held s1 = 0"
    by (simp add: s balanced_unary u_held_def)
qed

section \<open>Filter, projection, offset and limit hold nothing\<close>

lemma filter_rows_keeps: "filter_rows cn xe ev p rows r = (x, r1) \<Longrightarrow> keeps i u r b \<Longrightarrow> keeps i u r1 b"
proof (induction rows arbitrary: r x r1)
  case (Cons row rows)
  obtain c r2 where c: "canceled cn ''filter query rows'' r = (c, r2)" by (cases "canceled cn ''filter query rows'' r")
  obtain y r3 where y: "filter_rows cn xe ev p rows r2 = (y, r3)" by (cases "filter_rows cn xe ev p rows r2")
  note k = books_canceled [OF c Cons.prems(2)]
  from Cons.IH [OF y k] k c y Cons.prems(1) show ?case by (auto split: option.splits sum.splits)
qed simp

lemma project_rows_keeps: "project_rows cn xe ev ps rows r = (x, r1) \<Longrightarrow> keeps i u r b \<Longrightarrow> keeps i u r1 b"
proof (induction rows arbitrary: r x r1)
  case (Cons row rows)
  obtain c r2 where c: "canceled cn ''project query rows'' r = (c, r2)" by (cases "canceled cn ''project query rows'' r")
  obtain y r3 where y: "project_rows cn xe ev ps rows r2 = (y, r3)" by (cases "project_rows cn xe ev ps rows r2")
  note k = books_canceled [OF c Cons.prems(2)]
  from Cons.IH [OF y k] k c y Cons.prems(1) show ?case by (auto split: option.splits sum.splits)
qed simp

lemma filter_loop_keeps:
  "filter_loop I cn xe ev p k (i, u) r = (x, (i1, u1), r1) \<Longrightarrow> keeps i u r b \<Longrightarrow> \<not> un_closed u \<Longrightarrow>
     keeps i1 u1 r1 b \<and> same_own u u1"
proof (induction k arbitrary: i r)
  case (Suc k)
  obtain y i2 r2 where y: "op_Next I i r = (y, i2, r2)" by (metis prod_cases3)
  note k = next_keeps [OF y Suc.prems(2,3)]
  show ?case
  proof (cases y)
    case (Inl e)
    with y Suc.prems(1) k fail_keeps show ?thesis by (cases e) fastforce+
  next
    case (Inr batch)
    obtain z r3 where z: "filter_rows cn xe ev p batch r2 = (z, r3)" by (cases "filter_rows cn xe ev p batch r2")
    note k3 = filter_rows_keeps [OF z k]
    show ?thesis
    proof (cases z)
      case (Inl e)
      with y Inr z Suc.prems(1) fail_keeps [OF _ k3] show ?thesis by fastforce
    next
      case rows: (Inr rows)
      obtain f r4 where f: "track (ProduceIntermediate (int64_len rows)) r3 = (f, r4)" by (metis surj_pair)
      note k4 = books_produced [OF f k3]
      show ?thesis
      proof (cases "rows = []")
        case True
        with y Inr z rows Suc.prems(1) have "filter_loop I cn xe ev p k (i2, u) r3 = (x, (i1, u1), r1)" by simp
        from Suc.IH [OF this k3 Suc.prems(3)] show ?thesis .
      next
        case False
        with y Inr z rows f Suc.prems(1) k4 fail_keeps [OF _ k4] show ?thesis by (cases f) fastforce+
      qed
    qed
  qed
qed simp

lemma filter_frugal: "frugal (filter_operator cn xe ev p k I) (u_held held) (u_fine holds_none held fine)"
proof (rule frugal_unary, goal_cases)
  case (1 i u r e i1 u1 r1 b)
  then have "unary_open I cn ''open residual filter'' (i, u) r = (e, (i1, u1), r1)" by (simp add: filter_operator_def)
  from open_keeps [OF this 1(2,4)] 1(3) show ?case by (auto dest: holds_same)
next
  case (2 i u r x i1 u1 r1 b)
  obtain y i2 u2 r2 where y: "unary_ready I cn ''filter query rows'' (i, u) r = (y, (i2, u2), r2)" by (metis surj_pair)
  note rd = ready_keeps [OF y 2(2)]
  show ?case
  proof (cases y)
    case None
    with 2(1) y rd(3) have lp: "filter_loop I cn xe ev p k (i, u) r2 = (x, (i1, u1), r1)" by (simp add: filter_operator_def)
    have "keeps i u r2 b" "\<not> un_closed u" using rd None by auto
    from filter_loop_keeps [OF lp this] 2(3) show ?thesis by (auto dest: holds_same)
  qed (use 2 y rd in \<open>auto simp: filter_operator_def dest: holds_same\<close>)
next
  case (3 i u r e i1 u1 r1 b)
  then have "unary_close I (i, u) r = (e, (i1, u1), r1)" by (simp add: filter_operator_def)
  from close_keeps [OF this 3(2)] 3(3) show ?case by (auto dest: holds_same simp: own_none)
qed

text \<open>A method that first looks whether the operator is ready.\<close>

lemma ready_then:
  assumes "(case unary_ready I cn name (i, u) r of
       (Some e, s1, r1) \<Rightarrow> (Inl e, s1, r1) | (None, s1, r1) \<Rightarrow> go s1 r1) = (x, (i1, u1), r1)"
    and "keeps i u r b" "\<And>v. same_own u v \<Longrightarrow> Q v"
    and "\<And>r2. go (i, u) r2 = (x, (i1, u1), r1) \<Longrightarrow> keeps i u r2 b \<Longrightarrow> \<not> un_closed u \<Longrightarrow> keeps i1 u1 r1 b \<and> Q u1"
  shows "keeps i1 u1 r1 b \<and> Q u1"
proof -
  obtain y i2 u2 r2 where y: "unary_ready I cn name (i, u) r = (y, (i2, u2), r2)" by (metis surj_pair)
  note rd = ready_keeps [OF y assms(2)]
  show ?thesis
  proof (cases y)
    case None
    with assms(1) y rd assms(4) [of r2] show ?thesis by simp
  qed (use assms(1,3) y rd in auto)
qed

lemma projection_Next_keeps:
  assumes "projection_Next I cn xe ev ps (i, u) r = (x, (i1, u1), r1)" "keeps i u r b"
  shows "keeps i1 u1 r1 b \<and> same_own u u1"
proof -
  obtain w i2 u2 r2 where w: "unary_ready I cn ''project query rows'' (i, u) r = (w, (i2, u2), r2)" by (metis surj_pair)
  note rd = ready_keeps [OF w assms(2)]
  show ?thesis
  proof (cases w)
    case None
    then have w: "unary_ready I cn ''project query rows'' (i, u) r = (None, (i, u), r2)" and k: "keeps i u r2 b" "\<not> un_closed u"
      using w rd by auto
    note go = assms(1) [unfolded projection_Next_def w prod.case option.case]
    obtain y i3 r3 where y: "op_Next I i r2 = (y, i3, r3)" by (metis prod_cases3)
    note k3 = next_keeps [OF y k]
    show ?thesis
    proof (cases y)
      case (Inl e)
      with go y k3 fail_keeps [OF _ k3] show ?thesis by (cases e) fastforce+
    next
      case (Inr batch)
      obtain z r4 where z: "project_rows cn xe ev ps batch r3 = (z, r4)" by (metis surj_pair)
      note k4 = project_rows_keeps [OF z k3]
      show ?thesis
      proof (cases z)
        case (Inl e)
        with go y z \<open>y = Inr batch\<close> fail_keeps [OF _ k4] show ?thesis by fastforce
      next
        case rows: (Inr rows)
        obtain f r5 where f: "track (ProduceIntermediate (int64_len rows)) r4 = (f, r5)" by (metis surj_pair)
        note k5 = books_produced [OF f k4]
        from go y z Inr rows f k5 fail_keeps [OF _ k5] show ?thesis by (cases f) fastforce+
      qed
    qed
  qed (use assms(1) w rd in \<open>auto simp: projection_Next_def\<close>)
qed

lemma projection_frugal: "frugal (projection_operator cn xe ev ps I) (u_held held) (u_fine holds_none held fine)"
proof (rule frugal_unary, goal_cases)
  case (1 i u r e i1 u1 r1 b)
  then have "unary_open I cn ''open projection'' (i, u) r = (e, (i1, u1), r1)" by (simp add: projection_operator_def)
  from open_keeps [OF this 1(2,4)] 1(3) show ?case by (auto dest: holds_same)
next
  case (2 i u r x i1 u1 r1 b)
  then have "projection_Next I cn xe ev ps (i, u) r = (x, (i1, u1), r1)" by (simp add: projection_operator_def)
  from projection_Next_keeps [OF this 2(2)] 2(3) show ?case by (auto dest: holds_same)
next
  case (3 i u r e i1 u1 r1 b)
  then have "unary_close I (i, u) r = (e, (i1, u1), r1)" by (simp add: projection_operator_def)
  from close_keeps [OF this 3(2)] 3(3) show ?case by (auto dest: holds_same simp: own_none)
qed

lemma offset_loop_keeps:
  "offset_loop I k (i, u) r = (x, (i1, u1), r1) \<Longrightarrow> keeps i u r b \<Longrightarrow> \<not> un_closed u \<Longrightarrow>
     keeps i1 u1 r1 b \<and> same_own u u1"
proof (induction k arbitrary: i u r)
  case (Suc k)
  obtain y i2 r2 where y: "op_Next I i r = (y, i2, r2)" by (metis prod_cases3)
  note k = next_keeps [OF y Suc.prems(2,3)]
  show ?case
  proof (cases y)
    case (Inl e)
    with y Suc.prems(1) k fail_keeps [OF _ k] show ?thesis by (cases e) fastforce+
  next
    case (Inr batch)
    show ?thesis
    proof (cases "sint (int64_len batch) \<le> sint (of_remaining u)")
      case True
      let ?u = "u\<lparr>of_remaining := of_remaining u - int64_len batch\<rparr>"
      from True y Inr Suc.prems(1) have "offset_loop I k (i2, ?u) r2 = (x, (i1, u1), r1)" by simp
      from Suc.IH [OF this] k Suc.prems(3) show ?thesis by simp
    next
      case False
      with y Inr Suc.prems(1) k show ?thesis by (auto split: if_splits)
    qed
  qed
qed simp

lemma offset_frugal: "frugal (offset_operator cn x k I) (u_held held) (u_fine holds_none held fine)"
proof (rule frugal_unary, goal_cases)
  case (1 i u r e i1 u1 r1 b)
  let ?u = "u\<lparr>of_remaining := x\<rparr>"
  have k: "keeps i ?u r b" using 1 by simp
  have "keeps i1 u1 r1 b \<and> holds_none u1" if "unary_open I cn ''open offset'' (i, ?u) r = (e, (i1, u1), r1)"
    using open_keeps [OF that k 1(4)] 1(3) by (auto dest: holds_same)
  with 1 show ?case by (auto simp: offset_operator_def offset_Open_def split: if_splits)
next
  case (2 i u r y i1 u1 r1 b)
  have "keeps i1 u1 r1 b \<and> same_own u u1"
    by (rule ready_then [where go = "offset_loop I k"])
      (use 2 offset_loop_keeps in \<open>auto simp: offset_operator_def\<close>)
  with 2(3) show ?case by (auto dest: holds_same)
next
  case (3 i u r e i1 u1 r1 b)
  then have "unary_close I (i, u) r = (e, (i1, u1), r1)" by (simp add: offset_operator_def)
  from close_keeps [OF this 3(2)] 3(3) show ?case by (auto dest: holds_same simp: own_none)
qed

lemma limit_Next_keeps:
  assumes "limit_Next I cn limit (i, u) r = (x, (i1, u1), r1)" "keeps i u r b"
  shows "keeps i1 u1 r1 b \<and> same_own u u1"
proof -
  obtain w i2 u2 r2 where w: "unary_ready I cn ''limit query rows'' (i, u) r = (w, (i2, u2), r2)" by (metis surj_pair)
  note rd = ready_keeps [OF w assms(2)]
  show ?thesis
  proof (cases w)
    case None
    then have w: "unary_ready I cn ''limit query rows'' (i, u) r = (None, (i, u), r2)" and k: "keeps i u r2 b" "\<not> un_closed u"
      using w rd by auto
    note go = assms(1) [unfolded limit_Next_def w prod.case option.case]
    show ?thesis
    proof (cases "0 < sint limit \<and> of_remaining u = 0")
      case True
      with go fail_keeps [OF _ k(1)] show ?thesis by fastforce
    next
      case more: False
      obtain y i3 r3 where y: "op_Next I i r2 = (y, i3, r3)" by (metis prod_cases3)
      note k3 = next_keeps [OF y k]
      show ?thesis
      proof (cases y)
        case (Inl e)
        with more go y k3 fail_keeps [OF _ k3] show ?thesis by (cases e) fastforce+
      next
        case (Inr batch)
        define rows where "rows = (if sint (of_remaining u) < sint (int64_len batch)
            then take (nat (sint (of_remaining u))) batch else batch)"
        define v where "v = u\<lparr>of_remaining := of_remaining u - int64_len rows\<rparr>"
        have v: "keeps i3 v r3 b" "same_own u v" using k3 by (simp_all add: v_def)
        obtain c i4 u4 r4 where c: "unary_close I (i3, v) r3 = (c, (i4, u4), r4)" by (metis surj_pair)
        note k4 = close_keeps [OF c v(1)]
        note go = go [unfolded if_not_P [OF more] y Inr prod.case sum.case Let_def, folded rows_def, folded v_def]
        show ?thesis
        proof (cases "limit = 0")
          case True
          with go k3 show ?thesis by simp
        next
          case False
          note go = go [unfolded if_not_P [OF False]]
          show ?thesis
          proof (cases "of_remaining v = 0")
            case True
            from go [unfolded if_P [OF True] c prod.case] k4 v(2) show ?thesis by (auto intro: same_own_trans)
          next
            case False
            from go [unfolded if_not_P [OF False]] v show ?thesis by simp
          qed
        qed
      qed
    qed
  qed (use assms(1) w rd in \<open>auto simp: limit_Next_def\<close>)
qed

lemma limit_frugal: "frugal (limit_operator cn x I) (u_held held) (u_fine holds_none held fine)"
proof (rule frugal_unary, goal_cases)
  case (1 i u r e i1 u1 r1 b)
  let ?u = "u\<lparr>of_remaining := x\<rparr>"
  have k: "keeps i ?u r b" using 1 by simp
  have "keeps i1 u1 r1 b \<and> holds_none u1" if "unary_open I cn ''open limit'' (i, ?u) r = (e, (i1, u1), r1)"
    using open_keeps [OF that k 1(4)] 1(3) by (auto dest: holds_same)
  with 1 show ?case by (auto simp: limit_operator_def limit_Open_def split: if_splits)
next
  case (2 i u r y i1 u1 r1 b)
  then have "limit_Next I cn x (i, u) r = (y, (i1, u1), r1)" by (simp add: limit_operator_def)
  from limit_Next_keeps [OF this 2(2)] 2(3) show ?case by (auto dest: holds_same)
next
  case (3 i u r e i1 u1 r1 b)
  then have "unary_close I (i, u) r = (e, (i1, u1), r1)" by (simp add: limit_operator_def)
  from close_keeps [OF this 3(2)] 3(3) show ?case by (auto dest: holds_same simp: own_none)
qed

section \<open>Distinct\<close>

lemma books_see:
  assumes "track (ReserveMemory x) r = (e, r1)" "books held fine i (u\<lparr>of_seen := seen\<rparr>) r b"
  shows "books held fine i (u\<lparr>of_seen := (if e = None then (key, x) # seen else seen)\<rparr>) r1 b"
proof -
  note m = reserved_mem [OF assms(1) books_run_ok [OF assms(2)]]
  show ?thesis
  proof (cases e)
    case None
    with m(1,2) assms(2) show ?thesis by (auto simp: books_def balanced_def own_def own_ok_def)
  next
    case (Some y)
    with m assms(2) show ?thesis by (simp add: books_run)
  qed
qed

lemma distinct_rows_keeps:
  "distinct_rows cn xe rows seen r = (x, seen1, r1) \<Longrightarrow> keeps i (u\<lparr>of_seen := seen\<rparr>) r b \<Longrightarrow>
     keeps i (u\<lparr>of_seen := seen1\<rparr>) r1 b"
proof (induction rows arbitrary: seen r x)
  case (Cons row rows)
  obtain c r2 where c: "canceled cn ''deduplicate query rows'' r = (c, r2)"
    by (cases "canceled cn ''deduplicate query rows'' r")
  note k = books_canceled [OF c Cons.prems(2)]
  define key where "key = canonicalRow xe (br_Projected row)"
  obtain f r3 where f: "track (ReserveMemory (int64_len key + 32)) r2 = (f, r3)" by (metis surj_pair)
  note k3 = books_see [OF f k, of key]
  show ?case
  proof (cases c)
    case None
    note go = Cons.prems(1) [unfolded distinct_rows.simps c prod.case None option.case Let_def, folded key_def]
    show ?thesis
    proof (cases "map_of seen key")
      case (Some y)
      with go Cons.IH [OF _ k] show ?thesis by simp
    next
      case new: None
      show ?thesis
      proof (cases f)
        case None
        obtain y seen2 r4 where y: "distinct_rows cn xe rows ((key, int64_len key + 32) # seen) r3 = (y, seen2, r4)"
          by (metis prod_cases3)
        from go new f None y have "seen1 = seen2" "r1 = r4" by (auto split: sum.splits)
        with y have "distinct_rows cn xe rows ((key, int64_len key + 32) # seen) r3 = (y, seen1, r1)" by simp
        from Cons.IH [OF this] k3 None show ?thesis by simp
      qed (use go new f k3 in auto)
    qed
  qed (use c Cons.prems(1) k in auto)
qed simp

lemma release_seen:
  "run_ok r \<Longrightarrow> \<forall>(key, bytes) \<in> set seen. 0 \<le> sint bytes \<Longrightarrow> (\<Sum>(key, bytes) \<leftarrow> seen. sint bytes) \<le> mem r \<Longrightarrow>
     run_ok (foldl (\<lambda>r1 (key, bytes). release bytes r1) r seen) \<and>
     mem (foldl (\<lambda>r1 (key, bytes). release bytes r1) r seen) = mem r - (\<Sum>(key, bytes) \<leftarrow> seen. sint bytes)"
proof (induction seen arbitrary: r)
  case (Cons e seen)
  obtain key x where e: "e = (key, x)" by (cases e)
  have "0 \<le> (\<Sum>(key, bytes) \<leftarrow> seen. sint bytes)" by (rule seen_nonneg) (use Cons.prems in auto)
  then have m: "run_ok (release x r)" "mem (release x r) = mem r - sint x"
    using release_mem [of r x] Cons.prems by (auto simp: e)
  from Cons.IH [OF m(1)] m(2) Cons.prems show ?case by (auto simp: e)
qed simp

lemma distinct_Close_keeps:
  assumes "distinct_Close I (i, u) r = (e, (i1, u1), r1)" "keeps i u r b"
  shows "keeps i1 u1 r1 b" "held i1 = 0" "holds_keys u \<Longrightarrow> holds_keys u1 \<and> own u1 = 0"
proof -
  let ?r = "foldl (\<lambda>r1 (key, bytes). release bytes r1) r (of_seen u)"
  have bal: "mem r = held i + b + own u" "0 \<le> held i" "0 \<le> b" "own_ok u" "run_ok r"
    using assms(2) by (auto simp: books_def balanced_def)
  from release_seen [OF bal(5), of "of_seen u"] bal
  have r: "run_ok ?r" "mem ?r = mem r - (\<Sum>(key, bytes) \<leftarrow> of_seen u. sint bytes)" by (auto simp: own_def own_ok_def)
  have k: "keeps i (u\<lparr>of_seen := []\<rparr>) ?r b"
    using assms(2) r by (auto simp: books_def balanced_def own_def own_ok_def)
  have c: "unary_close I (i, u\<lparr>of_seen := []\<rparr>) ?r = (e, (i1, u1), r1)" using assms(1) by (simp add: distinct_Close_def)
  note cl = close_keeps [OF c k]
  show "keeps i1 u1 r1 b" "held i1 = 0" by (rule cl)+
  show "holds_keys u \<Longrightarrow> holds_keys u1 \<and> own u1 = 0"
    using cl(3) by (auto simp: same_own_def holds_keys_def own_def)
qed

lemma distinct_fail_keeps:
  assumes "distinct_fail I e (i, u) r = (x, (i1, u1), r1)" "keeps i u r b" "holds_keys u"
  shows "keeps i1 u1 r1 b \<and> holds_keys u1"
proof -
  obtain e' i' u' r' where c: "distinct_Close I (i, u) r = (e', (i', u'), r')" by (metis surj_pair)
  with assms distinct_Close_keeps [OF c assms(2)] show ?thesis by (auto simp: distinct_fail_def)
qed

lemma distinct_loop_keeps:
  "distinct_loop I cn xe k (i, u) r = (x, (i1, u1), r1) \<Longrightarrow> keeps i u r b \<Longrightarrow> \<not> un_closed u \<Longrightarrow> holds_keys u \<Longrightarrow>
     keeps i1 u1 r1 b \<and> holds_keys u1"
proof (induction k arbitrary: i u r)
  case (Suc k)
  obtain y i2 r2 where y: "op_Next I i r = (y, i2, r2)" by (metis prod_cases3)
  note k = next_keeps [OF y Suc.prems(2,3)]
  show ?case
  proof (cases y)
    case (Inl e)
    with y Suc.prems(1) k Suc.prems(4) distinct_fail_keeps [OF _ k Suc.prems(4)] show ?thesis by (cases e) fastforce+
  next
    case (Inr batch)
    obtain z seen r3 where z: "distinct_rows cn xe batch (of_seen u) r2 = (z, seen, r3)" by (metis prod_cases3)
    let ?u = "u\<lparr>of_seen := seen\<rparr>"
    have k3: "keeps i2 ?u r3 b" by (rule distinct_rows_keeps [OF z]) (use k in simp)
    have h: "holds_keys ?u" using Suc.prems(4) by (simp add: holds_keys_def)
    show ?thesis
    proof (cases z)
      case (Inl e)
      with y Inr z Suc.prems(1) distinct_fail_keeps [OF _ k3 h] show ?thesis by fastforce
    next
      case rows: (Inr rows)
      show ?thesis
      proof (cases "rows = []")
        case True
        with y Inr z rows Suc.prems(1) have "distinct_loop I cn xe k (i2, ?u) r3 = (x, (i1, u1), r1)" by simp
        from Suc.IH [OF this k3 _ h] Suc.prems(3) show ?thesis by simp
      qed (use y Inr z rows Suc.prems(1) k3 h in auto)
    qed
  qed
qed simp

lemma distinct_frugal: "frugal (distinct_operator cn xe k I) (u_held held) (u_fine holds_keys held fine)"
proof (rule frugal_unary, goal_cases)
  case (1 i u r e i1 u1 r1 b)
  let ?u = "u\<lparr>of_seen := []\<rparr>"
  have "of_seen u = [] \<or> (\<Sum>(key, bytes) \<leftarrow> of_seen u. sint bytes) = 0"
    using 1(3,5) by (simp add: own_def holds_keys_def)
  then have k: "keeps i ?u r b" "holds_keys ?u" using 1 by (auto simp: holds_keys_def books_def own_def own_ok_def)
  have "keeps i1 u1 r1 b \<and> holds_keys u1" if "unary_open I cn ''open distinct'' (i, ?u) r = (e, (i1, u1), r1)"
    using open_keeps [OF that k(1) 1(4)] holds_same(2) [OF _ k(2)] by auto
  with 1 show ?case by (simp add: distinct_operator_def distinct_Open_def)
next
  case (2 i u r y i1 u1 r1 b)
  have "keeps i1 u1 r1 b \<and> holds_keys u1"
    by (rule ready_then [where go = "distinct_loop I cn xe k"])
      (use 2 distinct_loop_keeps in \<open>auto simp: distinct_operator_def dest: holds_same\<close>)
  then show ?case .
next
  case (3 i u r e i1 u1 r1 b)
  then have "distinct_Close I (i, u) r = (e, (i1, u1), r1)" by (simp add: distinct_operator_def)
  from distinct_Close_keeps [OF this 3(2)] 3(3) show ?case by auto
qed

end

end
