(* ===== verification/Query_Retained.thy ===== *)
theory Query_Retained
  imports Query_Memory
begin

text \<open>
  The books of the operators that retain rows: sort, Top-N and aggregation. While they load, what is in
  \<open>of_retained\<close> is charged; for Top-N it is what the rows in the heap were charged, so a row that
  drops out gives back no more than is held.
\<close>

context frugal
begin

lemma close_rows_keeps:
  assumes "close_rows I (i, u) r = (e, (i1, u1), r1)" "keeps i u r b"
  shows "keeps i1 u1 r1 b" "held i1 = 0" "of_seen u = [] \<Longrightarrow> holds_rows u1 \<and> own u1 = 0"
proof -
  let ?u = "u\<lparr>of_retained := 0, of_rows := [], of_offset := 0, of_materialized := False\<rparr>"
  have "0 \<le> sint (of_retained u)" using assms(2) by (simp add: books_def own_ok_def)
  from books_give_back(1) [OF assms(2) this order_refl]
  have k: "keeps i ?u (release (of_retained u) r) b" by simp
  have c: "unary_close I (i, ?u) (release (of_retained u) r) = (e, (i1, u1), r1)"
    using assms(1) by (simp add: close_rows_def)
  note cl = close_keeps [OF c k]
  show "keeps i1 u1 r1 b" "held i1 = 0" by (rule cl)+
  show "of_seen u = [] \<Longrightarrow> holds_rows u1 \<and> own u1 = 0" using cl(3) by (simp add: same_own_def holds_rows_def own_def)
qed

lemma nextBatch_keeps:
  assumes "nextBatch I cn name (i, u) r = (x, (i1, u1), r1)" "keeps i u r b"
  shows "keeps i1 u1 r1 b \<and> same_own u u1"
proof -
  obtain w i2 u2 r2 where w: "unary_ready I cn name (i, u) r = (w, (i2, u2), r2)" by (metis surj_pair)
  note rd = ready_keeps [OF w assms(2)]
  from assms(1) w rd show ?thesis
    by (cases w) (auto simp: nextBatch_def Let_def split: if_splits)
qed

text \<open>What a load keeps: the books; and once it succeeds the rows are there.\<close>

definition load_ok :: "'i load \<Rightarrow> bool" where
  "load_ok load \<longleftrightarrow>
     (\<forall>i u r e i1 u1 r1 b. load (i, u) r = (e, (i1, u1), r1) \<longrightarrow> keeps i u r b \<longrightarrow> of_seen u = [] \<longrightarrow> of_retained u = 0 \<longrightarrow>
        keeps i1 u1 r1 b \<and> of_seen u1 = [] \<and> (e = None \<longrightarrow> of_materialized u1))"

lemma blocking_Next_keeps:
  assumes "load_ok load" "blocking_Next I cn name load (i, u) r = (x, (i1, u1), r1)" "keeps i u r b" "holds_rows u"
  shows "keeps i1 u1 r1 b \<and> holds_rows u1"
proof (cases "of_materialized u")
  case True
  then have "nextBatch I cn name (i, u) r = (x, (i1, u1), r1)" using assms(2) by (simp add: blocking_Next_def)
  from nextBatch_keeps [OF this assms(3)] assms(4) show ?thesis by (auto dest: holds_same)
next
  case False
  obtain e i2 u2 r2 where l: "load (i, u) r = (e, (i2, u2), r2)" by (metis surj_pair)
  with assms(1,3,4) False have k: "keeps i2 u2 r2 b" "of_seen u2 = []" "e = None \<longrightarrow> of_materialized u2"
    unfolding load_ok_def holds_rows_def by blast+
  show ?thesis
  proof (cases e)
    case None
    with l False assms(2) have "nextBatch I cn name (i2, u2) r2 = (x, (i1, u1), r1)" by (simp add: blocking_Next_def)
    from nextBatch_keeps [OF this k(1)] k None show ?thesis by (auto simp: holds_rows_def same_own_def)
  next
    case (Some y)
    obtain c i3 u3 r3 where c: "close_rows I (i2, u2) r2 = (c, (i3, u3), r3)" by (metis surj_pair)
    from close_rows_keeps [OF c k(1)] k(2) l c Some False assms(2) show ?thesis by (simp add: blocking_Next_def)
  qed
qed

lemma blocking_Open_keeps:
  assumes "blocking_Open I cn name (i, u) r = (e, (i1, u1), r1)" "keeps i u r b" "holds_rows u" "held i = 0" "own u = 0"
  shows "keeps i1 u1 r1 b \<and> holds_rows u1"
proof -
  let ?u = "u\<lparr>of_rows := [], of_offset := 0, of_retained := 0, of_materialized := False\<rparr>"
  have k: "keeps i ?u r b" "holds_rows ?u"
    using assms(2,3,5) by (auto simp: books_def own_def own_ok_def holds_rows_def)
  have "unary_open I cn name (i, ?u) r = (e, (i1, u1), r1)" using assms(1) by (simp add: blocking_Open_def)
  from open_keeps [OF this k(1) assms(4)] k(2) holds_same(3) show ?thesis by blast
qed

lemma blocking_frugal:
  assumes "load_ok load" "op_Next A = blocking_Next I cn name load" "op_Close A = close_rows I"
    "\<And>s r. op_Open A s r = blocking_Open I cn oname s r \<or> (\<exists>e. op_Open A s r = (e, s, r))"
  shows "frugal A (u_held held) (u_fine holds_rows held fine)"
proof (rule frugal_unary, goal_cases)
  case (1 i u r e i1 u1 r1 b)
  have "blocking_Open I cn oname (i, u) r = (e, (i1, u1), r1) \<or> i1 = i \<and> u1 = u \<and> r1 = r"
    using assms(4) [of "(i, u)" r] 1(1) by auto
  with blocking_Open_keeps [OF _ 1(2-5), of cn oname] 1(2,3) show ?case by blast
next
  case (2 i u r x i1 u1 r1 b)
  with blocking_Next_keeps [OF assms(1)] assms(2) show ?case by simp
next
  case (3 i u r e i1 u1 r1 b)
  then have "close_rows I (i, u) r = (e, (i1, u1), r1)" by (simp add: assms(3))
  from close_rows_keeps [OF this 3(2)] 3(3) show ?case by (simp add: holds_rows_def)
qed

text \<open>A load that first looks whether the operator is ready, then goes on with the run.\<close>

lemma load_okI:
  assumes "\<And>s r. load s r = (case unary_ready I cn name s r of
       (Some e, s1, r1) \<Rightarrow> (Some e, s1, r1) | (None, s1, r1) \<Rightarrow> go s1 r1)"
    and "\<And>i u r e i1 u1 r1 b. go (i, u) r = (e, (i1, u1), r1) \<Longrightarrow> keeps i u r b \<Longrightarrow> \<not> un_closed u \<Longrightarrow> of_seen u = [] \<Longrightarrow>
       of_retained u = 0 \<Longrightarrow> keeps i1 u1 r1 b \<and> of_seen u1 = [] \<and> (e = None \<longrightarrow> of_materialized u1)"
  shows "load_ok load"
  unfolding load_ok_def
proof (intro allI impI)
  fix i u r e i1 u1 r1 b
  assume l: "load (i, u) r = (e, (i1, u1), r1)" and k: "keeps i u r b" and z: "of_seen u = []" "of_retained u = 0"
  obtain w i2 u2 r2 where w: "unary_ready I cn name (i, u) r = (w, (i2, u2), r2)" by (metis surj_pair)
  note rd = ready_keeps [OF w k]
  show "keeps i1 u1 r1 b \<and> of_seen u1 = [] \<and> (e = None \<longrightarrow> of_materialized u1)"
  proof (cases w)
    case None
    with l w rd(3) have "go (i, u) r2 = (e, (i1, u1), r1)" by (simp add: assms(1))
    from assms(2) [OF this _ _ z] rd None show ?thesis by simp
  qed (use l w rd z in \<open>auto simp: assms(1) same_own_def\<close>)
qed

section \<open>Sort\<close>

lemma sort_take_keeps:
  "sort_take cn xe rows u r = (e, u1, r1) \<Longrightarrow> keeps i u r b \<Longrightarrow>
     keeps i u1 r1 b \<and> of_seen u1 = of_seen u \<and> un_closed u1 = un_closed u"
proof (induction rows arbitrary: u r)
  case (Cons row rows)
  obtain c r2 where c: "canceled cn ''sort query rows'' r = (c, r2)" by (cases "canceled cn ''sort query rows'' r")
  note k = books_canceled [OF c Cons.prems(2)]
  obtain f u2 r3 where f: "reserve (estimateBindingRow xe row) u r2 = (f, u2, r3)" by (metis surj_pair)
  note k3 = books_reserve [OF f k]
  show ?case
  proof (cases "c = None \<and> f = None")
    case True
    with c f Cons.prems(1) have "sort_take cn xe rows (u2\<lparr>of_rows := of_rows u2 @ [row]\<rparr>) r3 = (e, u1, r1)" by simp
    from Cons.IH [OF this] k3 show ?thesis by simp
  qed (use c f k k3 Cons.prems(1) in \<open>cases c; cases f; auto\<close>)
qed simp

lemma sort_loop_keeps:
  "sort_loop I cn xe k (i, u) r = (e, (i1, u1), r1) \<Longrightarrow> keeps i u r b \<Longrightarrow> \<not> un_closed u \<Longrightarrow>
     keeps i1 u1 r1 b \<and> of_seen u1 = of_seen u"
proof (induction k arbitrary: i u r)
  case (Suc k)
  obtain y i2 r2 where y: "op_Next I i r = (y, i2, r2)" by (metis prod_cases3)
  note k = next_keeps [OF y Suc.prems(2,3)]
  show ?case
  proof (cases y)
    case (Inl f)
    with y Suc.prems(1) k show ?thesis by (cases f) auto
  next
    case (Inr batch)
    obtain f u2 r3 where f: "sort_take cn xe batch u r2 = (f, u2, r3)" by (metis surj_pair)
    note k3 = sort_take_keeps [OF f k]
    show ?thesis
    proof (cases f)
      case None
      with y Inr f Suc.prems(1) have "sort_loop I cn xe k (i2, u2) r3 = (e, (i1, u1), r1)" by simp
      from Suc.IH [OF this] k3 Suc.prems(3) show ?thesis by auto
    qed (use y Inr f k3 Suc.prems(1) in auto)
  qed
qed simp

lemma sort_load_ok: "load_ok (sort_load I cn xe ev ods k)"
proof (rule load_okI [where cn = cn and name = "''sort query rows''" and go = "\<lambda>s1 r1. (case sort_loop I cn xe k s1 r1 of
             (Some e, s2, r2) \<Rightarrow> (Some e, s2, r2)
           | (None, (i, u), r2) \<Rightarrow>
               (case track (ProduceIntermediate (int64_len (of_rows u))) r2 of
                  (Some e, r3) \<Rightarrow> (Some (Fail e), (i, u), r3)
                | (None, r3) \<Rightarrow>
                    (case sortRows xe ev ods (of_rows u) of
                       (rows, Some e) \<Rightarrow> (Some (Fail e), (i, u\<lparr>of_rows := rows\<rparr>), r3)
                     | (rows, None) \<Rightarrow> (None, (i, u\<lparr>of_rows := rows, of_materialized := True\<rparr>), r3))))"], goal_cases)
  case (1 s r)
  show ?case by (rule sort_load_def)
next
  case (2 i u r e i1 u1 r1 b)
  obtain f i2 u2 r2 where f: "sort_loop I cn xe k (i, u) r = (f, (i2, u2), r2)" by (metis surj_pair)
  note k = sort_loop_keeps [OF f 2(2,3)]
  show ?case
  proof (cases f)
    case None
    obtain g r3 where g: "track (ProduceIntermediate (int64_len (of_rows u2))) r2 = (g, r3)" by (metis surj_pair)
    have k3: "keeps i2 u2 r3 b" by (rule books_produced [OF g]) (use k in simp)
    obtain rows h where h: "sortRows xe ev ods (of_rows u2) = (rows, h)" by (metis surj_pair)
    from 2(1,4) f None g h k3 k show ?thesis by (cases g; cases h) auto
  qed (use 2(1,4) f k in auto)
qed

lemma sort_frugal: "frugal (sort_operator cn xe ev ods k I) (u_held held) (u_fine holds_rows held fine)"
  by (rule blocking_frugal [OF sort_load_ok]) (auto simp: sort_operator_def)

end

section \<open>Top-N\<close>

text \<open>What the rows in the heap were charged.\<close>

definition heap_held :: "rankedRow list \<Rightarrow> int" where
  "heap_held h = (\<Sum>c \<in># mset h. sint (rk_retained c))"

definition heap_fits :: "rankedRow list \<Rightarrow> op_fields \<Rightarrow> bool" where
  "heap_fits h u \<longleftrightarrow> (\<forall>c \<in># mset h. 0 \<le> sint (rk_retained c)) \<and> sint (of_retained u) = heap_held h"

lemma heap_held_nonneg: "\<forall>c \<in># M. 0 \<le> f c \<Longrightarrow> (0 :: int) \<le> (\<Sum>c \<in># M. f c)"
  by (induction M) auto

lemma mset_heap_Push: "mset (heap_Push lt x h) = add_mset x (mset h)"
  by (simp add: heap_Push_def mset_heap_up)

lemma heap_fits_Push:
  assumes "heap_fits h u" "0 \<le> sint (rk_retained c)" "sint (of_retained v) = sint (of_retained u) + sint (rk_retained c)"
  shows "heap_fits (heap_Push lt c h) v"
  using assms by (simp add: heap_fits_def heap_held_def mset_heap_Push)

lemma heap_fits_Pop:
  assumes "heap_fits h u" "h \<noteq> []" "heap_Pop lt h = (c, h1)"
  shows "0 \<le> sint (rk_retained c)" "sint (rk_retained c) \<le> sint (of_retained u)"
    "sint (of_retained v) = sint (of_retained u) - sint (rk_retained c) \<Longrightarrow> heap_fits h1 v"
proof -
  have m: "mset h = add_mset c (mset h1)" by (rule mset_heap_Pop [OF assms(2,3)])
  with assms(1) show "0 \<le> sint (rk_retained c)" by (simp add: heap_fits_def)
  have "0 \<le> heap_held h1" unfolding heap_held_def
    by (rule heap_held_nonneg) (use assms(1) m in \<open>simp add: heap_fits_def\<close>)
  then show "sint (rk_retained c) \<le> sint (of_retained u)" using assms(1) m by (simp add: heap_fits_def heap_held_def)
  show "sint (of_retained v) = sint (of_retained u) - sint (rk_retained c) \<Longrightarrow> heap_fits h1 v"
    using assms(1) m by (simp add: heap_fits_def heap_held_def)
qed

context frugal
begin

lemma topn_take_keeps:
  "topn_take cn xe ev ods n rows h u r = (e, h1, u1, r1) \<Longrightarrow> 0 < n \<Longrightarrow> keeps i u r b \<Longrightarrow> heap_fits h u \<Longrightarrow>
     keeps i u1 r1 b \<and> of_seen u1 = of_seen u \<and> un_closed u1 = un_closed u \<and> (e = None \<longrightarrow> heap_fits h1 u1)"
proof (induction rows arbitrary: h u r)
  case (Cons row rows)
  obtain c r2 where c: "canceled cn ''select Top-N rows'' r = (c, r2)" by (cases "canceled cn ''select Top-N rows'' r")
  note k = books_canceled [OF c Cons.prems(3)]
  show ?case
  proof (cases "c = None \<and> (\<exists>vs. rowOrderValues xe ev row ods = Inr vs)")
    case False
    with c Cons.prems k show ?thesis by (cases c; cases "rowOrderValues xe ev row ods") auto
  next
    case True
    then obtain vs where vs: "c = None" "rowOrderValues xe ev row ods = Inr vs" by auto
    define b0 where "b0 = estimateBindingRow xe row + estimateValues xe vs"
    define cand where "cand = \<lparr>rk_row = row, rk_values = vs, rk_retained = b0\<rparr>"
    have rk: "rk_retained cand = b0" by (simp add: cand_def)
    obtain dropped h2 where pop: "heap_Pop (topn_less xe ods) h = (dropped, h2)" by (cases "heap_Pop (topn_less xe ods) h")
    note go = Cons.prems(1) [unfolded topn_take.simps c prod.case vs option.case sum.case Let_def pop, folded b0_def, folded cand_def]
    consider (room) "int (length h) < n" | (worse) "\<not> int (length h) < n" "0 \<le> compareRanked xe ods cand (h ! 0)"
      | (better) "\<not> int (length h) < n" "\<not> 0 \<le> compareRanked xe ods cand (h ! 0)" by blast
    then show ?thesis
    proof cases
      case room
      obtain d u2 r3 where d: "reserve b0 u r2 = (d, u2, r3)" by (metis surj_pair)
      note k3 = books_reserve [OF d k]
      show ?thesis
      proof (cases d)
        case None
        with go room d have lp: "topn_take cn xe ev ods n rows (heap_Push (topn_less xe ods) cand h) u2 r3 = (e, h1, u1, r1)" by simp
        have "heap_fits (heap_Push (topn_less xe ods) cand h) u2"
          by (rule heap_fits_Push [OF Cons.prems(4)]) (use k3(4) None rk in auto)
        from Cons.IH [OF lp Cons.prems(2) k3(1) this] k3(2,3) show ?thesis by simp
      qed (use go room d k3 in auto)
    next
      case worse
      with go have "topn_take cn xe ev ods n rows h u r2 = (e, h1, u1, r1)" by simp
      from Cons.IH [OF this Cons.prems(2) k Cons.prems(4)] show ?thesis .
    next
      case better
      with Cons.prems(2) have "h \<noteq> []" by auto
      note p = heap_fits_Pop [OF Cons.prems(4) this pop]
      let ?u = "u\<lparr>of_retained := of_retained u - rk_retained dropped\<rparr>"
      note k2 = books_give_back [OF k p(1,2)]
      obtain d u2 r3 where d: "reserve b0 ?u (release (rk_retained dropped) r2) = (d, u2, r3)" by (metis surj_pair)
      note k3 = books_reserve [OF d k2(1)]
      show ?thesis
      proof (cases d)
        case None
        with go better d have lp: "topn_take cn xe ev ods n rows (heap_Push (topn_less xe ods) cand h2) u2 r3 = (e, h1, u1, r1)"
          by simp
        have "heap_fits h2 ?u" using p(3) k2(2) by simp
        then have "heap_fits (heap_Push (topn_less xe ods) cand h2) u2"
          by (rule heap_fits_Push) (use k3(4) None rk in auto)
        from Cons.IH [OF lp Cons.prems(2) k3(1) this] k3(2,3) show ?thesis by simp
      qed (use go better d k3 in auto)
    qed
  qed
qed simp

lemma topn_loop_keeps:
  "topn_loop I cn xe ev ods n k h (i, u) r = (e, h1, (i1, u1), r1) \<Longrightarrow> 0 < n \<Longrightarrow> keeps i u r b \<Longrightarrow> \<not> un_closed u \<Longrightarrow>
     heap_fits h u \<Longrightarrow> keeps i1 u1 r1 b \<and> of_seen u1 = of_seen u"
proof (induction k arbitrary: i u r h)
  case (Suc k)
  obtain y i2 r2 where y: "op_Next I i r = (y, i2, r2)" by (metis prod_cases3)
  note k = next_keeps [OF y Suc.prems(3,4)]
  show ?case
  proof (cases y)
    case (Inl f)
    with y Suc.prems(1) k show ?thesis by (cases f) auto
  next
    case (Inr batch)
    obtain f h2 u2 r3 where f: "topn_take cn xe ev ods n batch h u r2 = (f, h2, u2, r3)" by (metis surj_pair)
    note k3 = topn_take_keeps [OF f Suc.prems(2) k Suc.prems(5)]
    show ?thesis
    proof (cases f)
      case None
      with y Inr f Suc.prems(1) have "topn_loop I cn xe ev ods n k h2 (i2, u2) r3 = (e, h1, (i1, u1), r1)" by simp
      from Suc.IH [OF this Suc.prems(2)] k3 None Suc.prems(4) show ?thesis by auto
    qed (use y Inr f k3 Suc.prems(1) in auto)
  qed
qed simp

lemma topn_load_ok: "0 < n \<Longrightarrow> load_ok (topn_load I cn xe ev ods n k)"
proof (rule load_okI [where cn = cn and name = "''select Top-N rows''" and go = "\<lambda>s1 r1. (case topn_loop I cn xe ev ods n k [] s1 r1 of
             (Some e, h, s2, r2) \<Rightarrow> (Some e, s2, r2)
           | (None, h, (i, u), r2) \<Rightarrow>
               (case sortRows xe ev ods (map rk_row (heap_drain (topn_less xe ods) (length h) h)) of
                  (rows, Some e) \<Rightarrow> (Some (Fail e), (i, u\<lparr>of_rows := rows\<rparr>), r2)
                | (rows, None) \<Rightarrow>
                    (case track (ProduceIntermediate (int64_len rows)) r2 of
                       (Some e, r3) \<Rightarrow> (Some (Fail e), (i, u\<lparr>of_rows := rows\<rparr>), r3)
                     | (None, r3) \<Rightarrow> (None, (i, u\<lparr>of_rows := rows, of_materialized := True\<rparr>), r3))))"], goal_cases)
  case (1 s r)
  show ?case by (rule topn_load_def)
next
  case (2 i u r e i1 u1 r1 b)
  obtain f h i2 u2 r2 where f: "topn_loop I cn xe ev ods n k [] (i, u) r = (f, h, (i2, u2), r2)" by (metis surj_pair)
  have "heap_fits [] u" using 2(6) by (simp add: heap_fits_def heap_held_def)
  note k = topn_loop_keeps [OF f 2(1,3,4) this]
  show ?case
  proof (cases f)
    case None
    obtain rows g where g: "sortRows xe ev ods (map rk_row (heap_drain (topn_less xe ods) (length h) h)) = (rows, g)" by (metis surj_pair)
    obtain t r3 where t: "track (ProduceIntermediate (int64_len rows)) r2 = (t, r3)" by (metis surj_pair)
    have k3: "keeps i2 u2 r3 b" by (rule books_produced [OF t]) (use k in simp)
    from 2(2,5) f None g t k3 k show ?thesis by (cases g; cases t) auto
  qed (use 2(2,5) f k in auto)
qed

lemma topn_frugal:
  "0 < n \<Longrightarrow> frugal (topn_operator cn xe ev ods n k I) (u_held held) (u_fine holds_rows held fine)"
  by (rule blocking_frugal [OF topn_load_ok]) (auto simp: topn_operator_def topn_Open_def)

section \<open>Aggregation\<close>

lemma aggregate_take_keeps:
  "aggregate_take cn xe ev ps as rows gs u r = (e, gs1, u1, r1) \<Longrightarrow> keeps i u r b \<Longrightarrow>
     keeps i u1 r1 b \<and> of_seen u1 = of_seen u \<and> un_closed u1 = un_closed u"
proof (induction rows arbitrary: gs u r)
  case (Cons row rows)
  obtain c r2 where c: "canceled cn ''aggregate query rows'' r = (c, r2)" by (cases "canceled cn ''aggregate query rows'' r")
  note k = books_canceled [OF c Cons.prems(2)]
  show ?case
  proof (cases "c = None \<and> (\<exists>pr. projectRow xe ev row ps = Inr pr)")
    case False
    with c Cons.prems k show ?thesis by (cases c; cases "projectRow xe ev row ps") auto
  next
    case True
    then obtain pr where pr: "c = None" "projectRow xe ev row ps = Inr pr" by auto
    define key where "key = canonicalRow xe pr"
    define b0 where "b0 = estimateBindingRow xe row + estimateProjectedRow xe pr + int64_len key + 64 * int64_len as"
    obtain d u2 r3 where d: "reserve b0 u r2 = (d, u2, r3)" by (metis surj_pair)
    note k3 = books_reserve [OF d k]
    note go = Cons.prems(1) [unfolded aggregate_take.simps c prod.case pr option.case sum.case Let_def, folded key_def,
        folded b0_def, unfolded d prod.case]
    have IH: "aggregate_take cn xe ev ps as rows gs' v r' = (e, gs1, u1, r1) \<Longrightarrow> keeps i v r' b \<Longrightarrow>
        keeps i u1 r1 b \<and> of_seen u1 = of_seen v \<and> un_closed u1 = un_closed v" for gs' v r'
      by (rule Cons.IH)
    show ?thesis
    proof (cases "map_of gs key")
      case (Some g)
      with go k show ?thesis
        by (auto split: sum.splits dest: IH)
    next
      case new: None
      show ?thesis
      proof (cases d)
        case None
        with go new k3 show ?thesis by (auto split: sum.splits dest: IH)
      qed (use go new k3 in auto)
    qed
  qed
qed simp

lemma aggregate_loop_keeps:
  "aggregate_loop I cn xe ev ps as k gs (i, u) r = (e, gs1, (i1, u1), r1) \<Longrightarrow> keeps i u r b \<Longrightarrow> \<not> un_closed u \<Longrightarrow>
     keeps i1 u1 r1 b \<and> of_seen u1 = of_seen u"
proof (induction k arbitrary: i u r gs)
  case (Suc k)
  obtain y i2 r2 where y: "op_Next I i r = (y, i2, r2)" by (metis prod_cases3)
  note k = next_keeps [OF y Suc.prems(2,3)]
  show ?case
  proof (cases y)
    case (Inl f)
    with y Suc.prems(1) k show ?thesis by (cases f) auto
  next
    case (Inr batch)
    obtain f gs2 u2 r3 where f: "aggregate_take cn xe ev ps as batch gs u r2 = (f, gs2, u2, r3)" by (metis surj_pair)
    note k3 = aggregate_take_keeps [OF f k]
    show ?thesis
    proof (cases f)
      case None
      with y Inr f Suc.prems(1) have "aggregate_loop I cn xe ev ps as k gs2 (i2, u2) r3 = (e, gs1, (i1, u1), r1)" by simp
      from Suc.IH [OF this] k3 Suc.prems(3) show ?thesis by auto
    qed (use y Inr f k3 Suc.prems(1) in auto)
  qed
qed simp

lemma aggregate_load_ok: "load_ok (aggregate_load I cn xe ev ps as k)"
proof (rule load_okI [where cn = cn and name = "''aggregate query rows''" and go = "\<lambda>s1 r1. (case aggregate_loop I cn xe ev ps as k [] s1 r1 of
             (Some e, gs, s2, r2) \<Rightarrow> (Some e, s2, r2)
           | (None, gs, (i, u), r2) \<Rightarrow>
               (case (if gs = [] \<and> ps = []
                      then (case reserve (64 * int64_len as + 64) u r2 of
                              (Some e, u1, r3) \<Rightarrow> (Some e, gs, u1, r3)
                            | (None, u1, r3) \<Rightarrow>
                                (None, [(''{}'', \<lparr>gr_row = empty_row, gr_projected = [],
                                                  gr_states = replicate (length as) no_aggregate\<rparr>)], u1, r3))
                      else (None, gs, u, r2)) of
                  (Some e, gs1, u1, r3) \<Rightarrow> (Some (Fail e), (i, u1), r3)
                | (None, gs1, u1, r3) \<Rightarrow>
                    (let rows = map (\<lambda>(key, g). group_row as g) (sort_key fst gs1) in
                     (case track (ProduceIntermediate (int64_len rows)) r3 of
                        (Some e, r4) \<Rightarrow> (Some (Fail e), (i, u1\<lparr>of_rows := rows\<rparr>), r4)
                      | (None, r4) \<Rightarrow> (None, (i, u1\<lparr>of_rows := rows, of_materialized := True\<rparr>), r4)))))"], goal_cases)
  case (1 s r)
  show ?case by (rule aggregate_load_def)
next
  case (2 i u r e i1 u1 r1 b)
  obtain f gs i2 u2 r2 where f: "aggregate_loop I cn xe ev ps as k [] (i, u) r = (f, gs, (i2, u2), r2)" by (metis surj_pair)
  note k = aggregate_loop_keeps [OF f 2(2,3)]
  show ?case
  proof (cases f)
    case None
    note go = 2(1) [unfolded f None prod.case option.case]
    obtain d u3 r3 where d: "reserve (64 * int64_len as + 64) u2 r2 = (d, u3, r3)" by (metis surj_pair)
    have k2: "keeps i2 u2 r2 b" "of_seen u2 = []" using k 2(4) by auto
    note k3 = books_reserve [OF d k2(1)]
    have fin: "keeps i1 u1 r1 b \<and> of_seen u1 = [] \<and> (e = None \<longrightarrow> of_materialized u1)"
      if v: "keeps i2 v s b" "of_seen v = []"
        and eq: "(case track (ProduceIntermediate (int64_len rows)) s of
            (Some e, r4) \<Rightarrow> (Some (Fail e), (i2, v\<lparr>of_rows := rows\<rparr>), r4)
          | (None, r4) \<Rightarrow> (None, (i2, v\<lparr>of_rows := rows, of_materialized := True\<rparr>), r4)) = (e, (i1, u1), r1)"
      for v s and rows :: "BindingRow list"
    proof -
      obtain t r4 where t: "track (ProduceIntermediate (int64_len rows)) s = (t, r4)" by (metis surj_pair)
      from books_produced [OF t v(1)] v(2) eq t show ?thesis by (cases t) auto
    qed
    show ?thesis
    proof (cases "gs = [] \<and> ps = []")
      case True
      show ?thesis
      proof (cases d)
        case None
        show ?thesis
          by (rule fin [OF k3(1), where rows = "map (\<lambda>(key, g). group_row as g) (sort_key fst
                [(''{}'', \<lparr>gr_row = empty_row, gr_projected = [], gr_states = replicate (length as) no_aggregate\<rparr>)])"])
            (use go True d None k2 k3 in \<open>simp_all add: Let_def\<close>)
      qed (use go True d k2 k3 in auto)
    next
      case False
      show ?thesis
        by (rule fin [OF k2, where rows = "map (\<lambda>(key, g). group_row as g) (sort_key fst gs)"])
          (use go False in \<open>simp add: Let_def\<close>)
    qed
  qed (use 2(1,4) f k in auto)
qed

lemma aggregate_frugal:
  "frugal (aggregate_operator cn xe ev ps as k I) (u_held held) (u_fine holds_rows held fine)"
  by (rule blocking_frugal [OF aggregate_load_ok]) (auto simp: aggregate_operator_def)

end

section \<open>Plans\<close>

text \<open>What the operators of a plan hold together; \<open>fine\<close> and \<open>held\<close> are those of the source.\<close>

primrec plan_held :: "('s \<Rightarrow> int) \<Rightarrow> 's op_state \<Rightarrow> int" where
  "plan_held held (StSource s) = held s"
| "plan_held held (StUnary i u) = plan_held held i + own u"

definition on_fine :: "('s op_state unary \<Rightarrow> bool) \<Rightarrow> 's op_state \<Rightarrow> bool" where
  "on_fine P s = (case s of StSource x \<Rightarrow> False | StUnary i u \<Rightarrow> P (i, u))"

primrec plan_fine :: "('s \<Rightarrow> int) \<Rightarrow> ('s \<Rightarrow> bool) \<Rightarrow> op_plan \<Rightarrow> 's op_state \<Rightarrow> bool" where
  "plan_fine held fine PSource = (\<lambda>s. case s of StSource x \<Rightarrow> fine x | _ \<Rightarrow> False)"
| "plan_fine held fine (PFilter ev p q) = on_fine (u_fine holds_none (plan_held held) (plan_fine held fine q))"
| "plan_fine held fine (PProjection ev ps q) = on_fine (u_fine holds_none (plan_held held) (plan_fine held fine q))"
| "plan_fine held fine (POffset n q) = on_fine (u_fine holds_none (plan_held held) (plan_fine held fine q))"
| "plan_fine held fine (PLimit n q) = on_fine (u_fine holds_none (plan_held held) (plan_fine held fine q))"
| "plan_fine held fine (PDistinct q) = on_fine (u_fine holds_keys (plan_held held) (plan_fine held fine q))"
| "plan_fine held fine (PSort ev ods q) = on_fine (u_fine holds_rows (plan_held held) (plan_fine held fine q))"
| "plan_fine held fine (PTopN ev ods n q) = on_fine (u_fine holds_rows (plan_held held) (plan_fine held fine q))"
| "plan_fine held fine (PAggregate ev ps as q) = on_fine (u_fine holds_rows (plan_held held) (plan_fine held fine q))"

primrec topn_positive :: "op_plan \<Rightarrow> bool" where
  "topn_positive PSource \<longleftrightarrow> True"
| "topn_positive (PFilter ev p q) \<longleftrightarrow> topn_positive q"
| "topn_positive (PProjection ev ps q) \<longleftrightarrow> topn_positive q"
| "topn_positive (POffset n q) \<longleftrightarrow> topn_positive q"
| "topn_positive (PLimit n q) \<longleftrightarrow> topn_positive q"
| "topn_positive (PDistinct q) \<longleftrightarrow> topn_positive q"
| "topn_positive (PSort ev ods q) \<longleftrightarrow> topn_positive q"
| "topn_positive (PTopN ev ods n q) \<longleftrightarrow> 0 < n \<and> topn_positive q"
| "topn_positive (PAggregate ev ps as q) \<longleftrightarrow> topn_positive q"

lemma balanced_on:
  "balanced (plan_held held) (on_fine P) (StUnary i u) r b = balanced (u_held (plan_held held)) P (i, u) r b"
  by (simp add: balanced_def on_fine_def u_held_def)

lemma balanced_on_source: "\<not> balanced (plan_held held) (on_fine P) (StSource x) r b"
  by (simp add: balanced_def on_fine_def)

lemma on_unary_frugal:
  assumes "frugal U (u_held (plan_held held)) P"
  shows "frugal (on_unary U) (plan_held held) (on_fine P)"
proof
  fix s r e s1 r1 b
  assume o: "op_Open (on_unary U) s r = (e, s1, r1)" "balanced (plan_held held) (on_fine P) s r b" "plan_held held s = 0"
  then obtain i u where s: "s = StUnary i u" by (cases s) (auto simp: balanced_on_source)
  obtain e' i' u' r' where c: "op_Open U (i, u) r = (e', (i', u'), r')" by (metis surj_pair)
  from frugal.open_books [OF assms c, of b] c o show "balanced (plan_held held) (on_fine P) s1 r1 b"
    by (auto simp: s on_unary_def balanced_on u_held_def)
next
  fix s r x s1 r1 b
  assume o: "op_Next (on_unary U) s r = (x, s1, r1)" "balanced (plan_held held) (on_fine P) s r b"
  then obtain i u where s: "s = StUnary i u" by (cases s) (auto simp: balanced_on_source)
  obtain x' i' u' r' where c: "op_Next U (i, u) r = (x', (i', u'), r')" by (metis surj_pair)
  from frugal.next_books [OF assms c, of b] c o show "balanced (plan_held held) (on_fine P) s1 r1 b"
    by (auto simp: s on_unary_def balanced_on)
next
  fix s r e s1 r1 b
  assume o: "op_Close (on_unary U) s r = (e, s1, r1)" "balanced (plan_held held) (on_fine P) s r b"
  then obtain i u where s: "s = StUnary i u" by (cases s) (auto simp: balanced_on_source)
  obtain e' i' u' r' where c: "op_Close U (i, u) r = (e', (i', u'), r')" by (metis surj_pair)
  from frugal.close_books [OF assms c, of b] c o
  show "balanced (plan_held held) (on_fine P) s1 r1 b \<and> plan_held held s1 = 0"
    by (auto simp: s on_unary_def balanced_on u_held_def)
qed

lemma on_source_frugal:
  assumes "frugal S held fine"
  shows "frugal (on_source S) (plan_held held) (\<lambda>s. case s of StSource x \<Rightarrow> fine x | _ \<Rightarrow> False)"
    (is "frugal _ _ ?P")
proof -
  have bal: "balanced (plan_held held) ?P (StSource x) r b = balanced held fine x r b"
    "\<not> balanced (plan_held held) ?P (StUnary i u) r b" for x r b i u
    by (simp_all add: balanced_def)
  show ?thesis
  proof
    fix s r e s1 r1 b
    assume o: "op_Open (on_source S) s r = (e, s1, r1)" "balanced (plan_held held) ?P s r b" "plan_held held s = 0"
    then obtain x where s: "s = StSource x" by (cases s) (auto simp: bal)
    obtain e' x' r' where c: "op_Open S x r = (e', x', r')" by (metis surj_pair)
    from frugal.open_books [OF assms c, of b] c o show "balanced (plan_held held) ?P s1 r1 b"
      by (auto simp: s on_source_def bal)
  next
    fix s r y s1 r1 b
    assume o: "op_Next (on_source S) s r = (y, s1, r1)" "balanced (plan_held held) ?P s r b"
    then obtain x where s: "s = StSource x" by (cases s) (auto simp: bal)
    obtain e' x' r' where c: "op_Next S x r = (e', x', r')" by (metis surj_pair)
    from frugal.next_books [OF assms c, of b] c o show "balanced (plan_held held) ?P s1 r1 b"
      by (auto simp: s on_source_def bal)
  next
    fix s r e s1 r1 b
    assume o: "op_Close (on_source S) s r = (e, s1, r1)" "balanced (plan_held held) ?P s r b"
    then obtain x where s: "s = StSource x" by (cases s) (auto simp: bal)
    obtain e' x' r' where c: "op_Close S x r = (e', x', r')" by (metis surj_pair)
    from frugal.close_books [OF assms c, of b] c o show "balanced (plan_held held) ?P s1 r1 b \<and> plan_held held s1 = 0"
      by (auto simp: s on_source_def bal)
  qed
qed

text \<open>Every operator of a plan keeps the books if the source does.\<close>

theorem plan_frugal:
  assumes "frugal S held fine"
  shows "topn_positive plan \<Longrightarrow> frugal (operator_of cn xe k S plan) (plan_held held) (plan_fine held fine plan)"
proof (induction plan)
  case PSource
  show ?case using on_source_frugal [OF assms] by simp
qed (auto intro!: on_unary_frugal frugal.filter_frugal frugal.projection_frugal frugal.offset_frugal frugal.limit_frugal
    frugal.distinct_frugal frugal.sort_frugal frugal.topn_frugal frugal.aggregate_frugal)

text \<open>A source of given rows holds nothing.\<close>

interpretation slice_books: frugal "slice_source cn" "\<lambda>_. 0" "\<lambda>_. True" for cn
proof
  fix s r e s1 r1 b
  assume o: "op_Open (slice_source cn) s r = (e, s1, r1)" "balanced (\<lambda>_. 0) (\<lambda>_. True) s r b"
  obtain c r2 where c: "canceled cn ''open slice source'' r = (c, r2)" by (metis surj_pair)
  with canceled_mem [OF c] o show "balanced (\<lambda>_. 0) (\<lambda>_. True) s1 r1 b"
    by (auto simp: slice_source_def slice_Open_def balanced_def split: option.splits if_splits)
next
  fix s r x s1 r1 b
  assume o: "op_Next (slice_source cn) s r = (x, s1, r1)" "balanced (\<lambda>_. 0) (\<lambda>_. True) s r b"
  have n: "slice_Next cn s r = (x, s1, r1)" using o(1) by (simp add: slice_source_def)
  obtain e s2 r2 where e: "slice_ready cn ''read slice source'' s r = (e, s2, r2)" by (metis surj_pair)
  have r2: "run_ok r2" "mem r2 = mem r" using e o(2) canceled_mem [of cn "''read slice source''" r]
    by (auto simp: slice_ready_def balanced_def split: prod.splits option.splits if_splits)
  define rows where "rows = sequence_rows (sl_offset s2)
      (bslice (sl_offset s2) (min (sl_offset s2 + sl_batchSize s2) (length (sl_rows s2))) (sl_rows s2))"
  obtain f r3 where f: "track (ExamineCandidates (int64_len rows)) r2 = (f, r3)" by (metis surj_pair)
  note k = produced_mem(3) [OF f r2(1)]
  from n e f k r2 o(2) show "balanced (\<lambda>_. 0) (\<lambda>_. True) s1 r1 b"
    by (cases e; cases f) (auto simp: slice_Next_def Let_def balanced_def rows_def [symmetric] split: if_splits)
next
  fix s r e s1 r1 b
  assume "op_Close (slice_source cn) s r = (e, s1, r1)" "balanced (\<lambda>_. 0) (\<lambda>_. True) s r b"
  then show "balanced (\<lambda>_. 0) (\<lambda>_. True) s1 r1 b \<and> (0::int) = 0"
    by (auto simp: slice_source_def slice_Close_def balanced_def)
qed

section \<open>Draining a plan\<close>

lemma drain_take_mem:
  "drain_take xe b rows h r = (e, rows1, h1, r1) \<Longrightarrow> run_ok r \<Longrightarrow> 0 \<le> sint h \<Longrightarrow> sint h \<le> mem r \<Longrightarrow>
     run_ok r1 \<and> 0 \<le> sint h1 \<and> mem r1 - sint h1 = mem r - sint h"
proof (induction b arbitrary: rows h r)
  case (Cons row b)
  obtain f r2 where f: "track (ReserveMemory (estimateBindingRow xe row)) r = (f, r2)" by (metis surj_pair)
  note m = reserved_mem [OF f Cons.prems(2)]
  show ?case
  proof (cases f)
    case None
    let ?h = "h + estimateBindingRow xe row"
    have "sint ?h = sint h + sint (estimateBindingRow xe row)"
      using m None Cons.prems(3,4) mem_bound [OF m(1)] by (intro sint_add_exact) auto
    moreover have "drain_take xe b (rows @ [row]) ?h r2 = (e, rows1, h1, r1)" using Cons.prems(1) f None by (simp add: Let_def)
    ultimately show ?thesis using Cons.IH [of "rows @ [row]" ?h r2] m None Cons.prems(3,4) by auto
  qed (use Cons.prems f m in \<open>auto simp: Let_def\<close>)
qed auto

text \<open>What rows are charged: their estimates, added up as integers.\<close>

definition rows_cost :: "exec_env \<Rightarrow> BindingRow list \<Rightarrow> int" where
  "rows_cost xe rows = (\<Sum>row\<leftarrow>rows. sint (estimateBindingRow xe row))"

lemma drain_take_cost:
  "drain_take xe b rows h r = (None, rows1, h1, r1) \<Longrightarrow> run_ok r \<Longrightarrow> 0 \<le> sint h \<Longrightarrow> sint h \<le> mem r \<Longrightarrow>
     sint h = rows_cost xe rows \<Longrightarrow> sint h1 = rows_cost xe rows1"
proof (induction b arbitrary: rows h r)
  case (Cons row b)
  obtain f r2 where f: "track (ReserveMemory (estimateBindingRow xe row)) r = (f, r2)" by (metis surj_pair)
  note m = reserved_mem [OF f Cons.prems(2)]
  show ?case
  proof (cases f)
    case None
    let ?h = "h + estimateBindingRow xe row"
    have h: "sint ?h = sint h + sint (estimateBindingRow xe row)"
      using m None Cons.prems(3,4) mem_bound [OF m(1)] by (intro sint_add_exact) auto
    moreover have "drain_take xe b (rows @ [row]) ?h r2 = (None, rows1, h1, r1)" using Cons.prems(1) f None by (simp add: Let_def)
    ultimately show ?thesis using Cons.IH [of "rows @ [row]" ?h r2] m None Cons.prems(3-5) by (auto simp: rows_cost_def)
  qed (use Cons.prems f in \<open>auto simp: Let_def\<close>)
qed auto

context frugal
begin

lemma drain_loop_books:
  "drain_loop cn xe I account k rows h i r = (e, rows1, h1, i1, r1) \<Longrightarrow> balanced held fine i r (b + sint h) \<Longrightarrow>
     0 \<le> b \<Longrightarrow> 0 \<le> sint h \<Longrightarrow> balanced held fine i1 r1 (b + sint h1) \<and> 0 \<le> sint h1 \<and>
     (e = None \<longrightarrow> sint h = rows_cost xe rows \<longrightarrow> sint h1 = rows_cost xe rows1)"
proof (induction k arbitrary: rows h i r)
  case (Suc k)
  obtain c r2 where c: "canceled cn ''execute query'' r = (c, r2)" by (metis surj_pair)
  have b2: "balanced held fine i r2 (b + sint h)" using canceled_mem [OF c] Suc.prems(2) by (simp add: balanced_def)
  show ?case
  proof (cases c)
    case None
    note go = Suc.prems(1) [unfolded drain_loop.simps c None prod.case option.case]
    obtain y i2 r3 where y: "op_Next I i r2 = (y, i2, r3)" by (metis prod_cases3)
    note b3 = next_books [OF y b2]
    show ?thesis
    proof (cases y)
      case (Inl f)
      with go y b3 Suc.prems(4) show ?thesis by (cases f) auto
    next
      case (Inr batch)
      show ?thesis
      proof (cases "batch = []")
        case True
        with go y Inr have "drain_loop cn xe I account k rows h i2 r3 = (e, rows1, h1, i1, r1)" by simp
        from Suc.IH [OF this b3 Suc.prems(3,4)] show ?thesis .
      next
        case False
        obtain d r4 where d: "(if account then track (ProduceOutput (int64_len batch)) r3 else (None, r3)) = (d, r4)"
          by (metis surj_pair)
        have r4: "run_ok r4 \<and> mem r4 = mem r3"
          using d b3 produced_mem(2) [of "int64_len batch" r3] by (auto simp: balanced_def split: if_splits)
        then have b4: "balanced held fine i2 r4 (b + sint h)" using b3 by (simp add: balanced_def)
        obtain f rows2 h2 r5 where f: "drain_take xe batch rows h r4 = (f, rows2, h2, r5)" by (metis prod_cases4)
        have "sint h \<le> mem r4" using b4 Suc.prems(3) by (simp add: balanced_def)
        note m = drain_take_mem [OF f _ Suc.prems(4) this]
        have b5: "balanced held fine i2 r5 (b + sint h2)" "0 \<le> sint h2"
          using m r4 b4 Suc.prems(3) by (auto simp: balanced_def)
        show ?thesis
        proof (cases "d = None \<and> f = None")
          case True
          with go y Inr False d f have "drain_loop cn xe I account k rows2 h2 i2 r5 = (e, rows1, h1, i1, r1)" by simp
          from Suc.IH [OF this b5(1) Suc.prems(3) b5(2)] drain_take_cost [of xe batch rows h r4 rows2 h2 r5] True f r4 Suc.prems(4)
            \<open>sint h \<le> mem r4\<close> show ?thesis by simp
        qed (use go y Inr False d f b4 b5 Suc.prems(4) in \<open>cases d; cases f; auto\<close>)
      qed
    qed
  qed (use Suc.prems c b2 in auto)
qed auto

lemma drain_books:
  assumes "drain cn xe I account k i r = (res, i1, r1)" "balanced held fine i r b" "held i = 0"
  shows "run_ok r1 \<and> (case res of Inl e \<Rightarrow> mem r1 = b
    | Inr (rows, h) \<Rightarrow> 0 \<le> sint h \<and> mem r1 = b + sint h \<and> sint h = rows_cost xe rows)"
proof -
  have b: "0 \<le> b" using assms(2) by (simp add: balanced_def)
  obtain e s1 r2 where o: "op_Open I i r = (e, s1, r2)" by (metis prod_cases3)
  note b2 = open_books [OF o assms(2,3)]
  show ?thesis
  proof (cases e)
    case (Some x)
    obtain c s2 r3 where c: "op_Close I s1 r2 = (c, s2, r3)" by (metis prod_cases3)
    from close_books [OF c b2] c o Some assms(1) show ?thesis by (auto simp: drain_def balanced_def)
  next
    case None
    obtain f rows h s2 r3 where f: "drain_loop cn xe I account k [] 0 s1 r2 = (f, rows, h, s2, r3)" by (metis prod_cases5)
    have b3: "balanced held fine s2 r3 (b + sint h)" "0 \<le> sint h" "f = None \<Longrightarrow> sint h = rows_cost xe rows"
      using drain_loop_books [OF f, of b] b2 b by (auto simp: rows_cost_def)
    obtain c s3 r4 where c: "op_Close I s2 r3 = (c, s3, r4)" by (metis prod_cases3)
    have b4: "balanced held fine s3 r4 (b + sint h)" "held s3 = 0" using close_books [OF c b3(1)] by auto
    then have m: "run_ok r4" "mem r4 = b + sint h" by (auto simp: balanced_def)
    have "run_ok (release h r4)" "mem (release h r4) = b"
      using release_mem [OF m(1) b3(2)] m(2) b by auto
    with o None f c m b3(2,3) assms(1) show ?thesis by (auto simp: drain_def split: option.splits)
  qed
qed

end

end
