(* ===== verification/Query_Sample.thy ===== *)
theory Query_Sample
  imports Query_Retained
begin

text \<open>
  A sample query, run through the pipeline by rewriting: three rows, the first two of them in the order of a
  property. The equations below evaluate operators one call at a time.
\<close>

section \<open>A sample query\<close>

text \<open>JSON and text functions that answer with fixed text.\<close>

definition sample_env :: exec_env where
  "sample_env =
     \<lparr>ve_fmt_float = (\<lambda>_. ''1''), ve_json = (\<lambda>_. ''{}''), ve_fmt_any = (\<lambda>_. ''x''), ve_ToLower = (\<lambda>s. s),
      ve_date_error = (\<lambda>_. ''bad date''), ve_uuid = (\<lambda>_. ''id''), ve_quote = (\<lambda>s. s),
      xe_json_binding = (\<lambda>_. Some ''{}''), xe_json_row = (\<lambda>_. Some ''{}''), xe_json_values = (\<lambda>_. Some ''[]''),
      xe_sprint_row = (\<lambda>_. [])\<rparr>"

text \<open>A row whose edge has one property, and that property as an operand.\<close>

definition edge_row :: "gval \<Rightarrow> u64 \<Rightarrow> BindingRow" where
  "edge_row v n = empty_row\<lparr>br_Edges := [(''e'', \<lparr>e_ID = 1, e_DomainID = 1, e_FromID = 2, e_ToID = 3, e_Labels = [],
     e_Properties = [(''x'', v)], e_Payload = [], e_Meta = [], e_CreatedAt = ZeroTime, e_UpdatedAt = ZeroTime\<rparr>)],
     br_Sequence := n\<rparr>"

definition field_x :: FieldRef where
  "field_x = \<lparr>fr_Alias = ''e'', fr_Namespace = NamespaceProperties, fr_Name = ''x''\<rparr>"

definition by_x :: Order where
  "by_x = \<lparr>od_Value = QField (Some field_x), od_Descending = False\<rparr>"

text \<open>The integers beyond \<open>2 ^ 53\<close> are compared exactly.\<close>

definition sample_rows :: "BindingRow list" where
  "sample_rows = [edge_row (VInt (2 ^ 54)) 0, edge_row (VInt (2 ^ 53 + 1)) 0, edge_row (VInt (2 ^ 55)) 0]"

definition sample_query :: Query where
  "sample_query = \<lparr>q_Predicate = None,
     q_Returns = [\<lparr>pj_Kind = ProjectionScalar, pj_Alias = [], pj_Field = Some field_x, pj_OutputName = ''x''\<rparr>],
     q_Aggregates = [], q_OrderBy = [by_x], q_Distinct = False,
     q_Page = \<lparr>pg_Offset = 0, pg_Limit = 2, pg_Size = 0, pg_Cursor = []\<rparr>\<rparr>"

definition sample_opts :: ShapeOptions where
  "sample_opts = \<lparr>so_Parameters = [], so_Now = None, so_Clock = (2024, 1, 1)\<rparr>"

definition sample_run :: run where
  "sample_run = \<lparr>rn_tracker = \<lparr>tk_limits = default_budget, tk_usage = no_usage\<rparr>, rn_checks = 0\<rparr>"

definition sample_source :: SliceSource where
  "sample_source = NewSliceSource sample_rows 2"

definition never :: cancel where
  "never = (\<lambda>_. None)"

lemma sample_orderly: "topn_orderly sample_env sample_opts sample_query (sequence_rows 0 (sl_rows sample_source))"
proof -
  have rows: "sequence_rows 0 (sl_rows sample_source) =
      [edge_row (VInt (2 ^ 54)) 0, edge_row (VInt (2 ^ 53 + 1)) 1, edge_row (VInt (2 ^ 55)) 2]"
    by (simp add: sample_source_def NewSliceSource_def sample_rows_def sequence_rows_def edge_row_def)
  have "orderly sample_env (query_evaluator sample_opts) [by_x]
      [edge_row (VInt (2 ^ 54)) 0, edge_row (VInt (2 ^ 53 + 1)) 1, edge_row (VInt (2 ^ 55)) 2]"
    by (rule orderly_numbers)
      (auto simp: edge_row_def by_x_def field_x_def eval_value_def resolve_def dereferenceField_def eval_field_def empty_row_def
        nativeFieldValue_def edgeField_def NamespaceProperties_def signedNativeValue_def numbers_def
        comparableDate_def exactNumericValue_def query_evaluator_def newEvaluator_def sample_opts_def)
  then show ?thesis by (simp add: topn_orderly_def rows sample_query_def matching_rows_def)
qed

section \<open>Operators, call by call\<close>

lemma on_eqs:
  "op_Open (on_unary U) (StUnary i u) r = (case op_Open U (i, u) r of (e, (i1, u1), r1) \<Rightarrow> (e, StUnary i1 u1, r1))"
  "op_Next (on_unary U) (StUnary i u) r = (case op_Next U (i, u) r of (e, (i1, u1), r1) \<Rightarrow> (e, StUnary i1 u1, r1))"
  "op_Close (on_unary U) (StUnary i u) r = (case op_Close U (i, u) r of (e, (i1, u1), r1) \<Rightarrow> (e, StUnary i1 u1, r1))"
  "op_Open (on_source S) (StSource x) r = (case op_Open S x r of (e, x1, r1) \<Rightarrow> (e, StSource x1, r1))"
  "op_Next (on_source S) (StSource x) r = (case op_Next S x r of (e, x1, r1) \<Rightarrow> (e, StSource x1, r1))"
  "op_Close (on_source S) (StSource x) r = (case op_Close S x r of (e, x1, r1) \<Rightarrow> (e, StSource x1, r1))"
  by (simp_all add: on_unary_def on_source_def)

lemma op_eqs:
  "op_Open (slice_source cn) = slice_Open cn" "op_Next (slice_source cn) = slice_Next cn" "op_Close (slice_source cn) = slice_Close"
  "op_Open (projection_operator cn xe ev ps I) = unary_open I cn ''open projection''"
  "op_Next (projection_operator cn xe ev ps I) = projection_Next I cn xe ev ps"
  "op_Close (projection_operator cn xe ev ps I) = unary_close I"
  "op_Open (limit_operator cn x I) = limit_Open I cn x"
  "op_Next (limit_operator cn x I) = limit_Next I cn x"
  "op_Close (limit_operator cn x I) = unary_close I"
  "op_Open (topn_operator cn xe ev ods n k I) = topn_Open I cn n"
  "op_Next (topn_operator cn xe ev ods n k I) = blocking_Next I cn ''read Top-N rows'' (topn_load I cn xe ev ods n k)"
  "op_Close (topn_operator cn xe ev ods n k I) = close_rows I"
  by (simp_all add: slice_source_def projection_operator_def limit_operator_def topn_operator_def)

lemma fn_eqs:
  "unary_open I cn operation (i, u) r =
     (case canceled cn operation r of
        (Some e, r1) \<Rightarrow> (Some e, (i, u), r1)
      | (None, r1) \<Rightarrow>
          if un_opened u \<and> \<not> un_closed u
          then (Some (QErr (invalidState operation ''operator is already open'')), (i, u), r1)
          else (case op_Open I i r1 of
                  (Some e, i1, r2) \<Rightarrow> (case op_Close I i1 r2 of (_, i2, r3) \<Rightarrow> (Some e, (i2, u), r3))
                | (None, i1, r2) \<Rightarrow>
                    (None, (i1, u\<lparr>un_opened := True, un_closed := False, un_closeErr := None\<rparr>), r2)))"
  "unary_close I (i, u) r =
     (if un_closed u then (un_closeErr u, (i, u), r)
     else (case op_Close I i r of
             (e, i1, r1) \<Rightarrow> (e, (i1, u\<lparr>un_closed := True, un_closeErr := e\<rparr>), r1)))"
  "unary_ready I cn operation (i, u) r =
     (case canceled cn operation r of
        (Some e, r1) \<Rightarrow> (case unary_close I (i, u) r1 of (_, s2, r2) \<Rightarrow> (Some (Fail e), s2, r2))
      | (None, r1) \<Rightarrow>
          ((if \<not> un_opened u then Some (Fail (QErr (invalidState operation ''operator is not open'')))
            else if un_closed u then Some EOF else None), (i, u), r1))"
  "limit_Open I cn limit (i, u) r =
     (if sint limit < 0 then (Some (executionInvalid ''open limit'' ''limit must be non-negative''), (i, u), r)
     else unary_open I cn ''open limit'' (i, u\<lparr>of_remaining := limit\<rparr>) r)"
  "close_rows I (i, u) r =
     unary_close I (i, u\<lparr>of_retained := 0, of_rows := [], of_offset := 0, of_materialized := False\<rparr>)
       (release (of_retained u) r)"
  "blocking_Open I cn operation (i, u) r =
     unary_open I cn operation
       (i, u\<lparr>of_rows := [], of_offset := 0, of_retained := 0, of_materialized := False\<rparr>) r"
  "blocking_Next I cn operation load (i, u) r =
     (if of_materialized u then nextBatch I cn operation (i, u) r
      else (case load (i, u) r of
              (Some e, s1, r1) \<Rightarrow> (case close_rows I s1 r1 of (_, s2, r2) \<Rightarrow> (Inl e, s2, r2))
            | (None, s1, r1) \<Rightarrow> nextBatch I cn operation s1 r1))"
  by (simp_all add: unary_open_def unary_close_def unary_ready_def limit_Open_def close_rows_def blocking_Open_def blocking_Next_def)

text \<open>Loops whose fuel is a numeral.\<close>

lemmas loop_eqs = topn_loop.simps(2) [where k = "pred_numeral w" for w, folded numeral_eq_Suc]
  drain_loop.simps(2) [where k = "pred_numeral w" for w, folded numeral_eq_Suc]

lemmas track_eqs = track_def release_def ReserveMemory_def ReleaseMemory_def ProduceIntermediate_def ProduceOutput_def
  ExamineCandidates_def tracker_add_def int64_len_def

lemma small_heap:
  "heap_up lt h 0 = h" "heap_up lt h (Suc 0) = (if lt (h ! Suc 0) (h ! 0) then swap_at 0 (Suc 0) h else h)"
  "heap_down lt h 0 0 = h" "heap_down lt h 0 (Suc 0) = h"
proof -
  show z: "heap_up lt h 0 = h" for h by (subst heap_up.simps) simp
  show "heap_up lt h (Suc 0) = (if lt (h ! Suc 0) (h ! 0) then swap_at 0 (Suc 0) h else h)"
    by (subst heap_up.simps) (simp add: z)
  show "heap_down lt h 0 0 = h" "heap_down lt h 0 (Suc 0) = h" by (subst heap_down.simps; simp)+
qed

section \<open>The sample's values\<close>

lemma never_canceled: "canceled never name r = (None, r\<lparr>rn_checks := Suc (rn_checks r)\<rparr>)"
  by (simp add: canceled_def never_def)

lemma sample_values: "rowOrderValues xe ev (edge_row (VInt v) n) [by_x] = Inr [signedNativeValue v]"
  by (simp add: edge_row_def by_x_def field_x_def eval_value_def resolve_def dereferenceField_def eval_field_def
      empty_row_def nativeFieldValue_def edgeField_def NamespaceProperties_def)

lemma sample_projected:
  "projectRow sample_env ev (edge_row (VInt v) n) (q_Returns sample_query) = Inr [(''x'', scalarCell (signedNativeValue v))]"
  by (simp add: projectRow_def projected_cell_def sample_query_def projectionOutputName_def edge_row_def field_x_def
      eval_value_def resolve_def dereferenceField_def eval_field_def empty_row_def nativeFieldValue_def edgeField_def
      NamespaceProperties_def)

lemma sample_sizes:
  "estimateBindingRow sample_env row = 66" "estimateValues sample_env vs = 2 + 16 * int64_len vs"
  by (simp_all add: estimateBindingRow_def estimateValues_def sample_env_def int64_len_def)

lemma sample_row:
  "(edge_row v n)\<lparr>br_Sequence := m\<rparr> = edge_row v m" "br_Sequence (edge_row v n) = n" "od_Descending by_x = False"
  by (simp_all add: edge_row_def by_x_def)

lemmas value_eqs = sample_values sample_projected sample_sizes sample_row signedNativeValue_def scalarCell_def
  compareRanked_def topn_less_def eval_compare_def compareValues_def comparableDate_def exactNumericValue_def three_way_def

lemma sample_page: "pg_Size (q_Page sample_query) = 0" "pg_Cursor (q_Page sample_query) = []"
  by (simp_all add: sample_query_def)

lemma TrimSpace_empty: "TrimSpace [] = []"
  by (simp add: TrimSpace_def)

lemmas page_eqs = sample_page paginateRows_def paginationBounds_def maxPageSize_def TrimSpace_empty Let_def

lemma sample_valid: "ValidatePage (q_Page sample_query) = None" "validateAggregates (q_Aggregates sample_query) = None"
  by (simp add: ValidatePage_def page_eqs sample_query_def, simp add: validateAggregates_def sample_query_def)

lemma sample_plan:
  "buildPipeline sample_query sample_opts = Inr (PLimit 501 (PLimit 2 (PProjection (query_evaluator sample_opts)
     (q_Returns sample_query) (PTopN (query_evaluator sample_opts) [by_x] 2 PSource))))"
  by (simp add: buildPipeline_def plan_page_def plan_shape_def plan_filter_def safeTopN_def page_eqs)
    (simp add: sample_query_def)

section \<open>The run\<close>

text \<open>It succeeds, with the two smaller values in order.\<close>

lemma sample_result:
  "(case fst (Shape never sample_env (slice_source never) 20 sample_query sample_opts sample_source sample_run) of
      Inl e \<Rightarrow> None | Inr R \<Rightarrow> Some (rs_Rows R)) =
   Some [[(''x'', CellScalar (QInteger (2 ^ 53 + 1)))], [(''x'', CellScalar (QInteger (2 ^ 54)))]]"
  apply (simp add: Shape_def sample_valid sample_plan drain_def sample_source_def NewSliceSource_def)
  apply (simp add: on_eqs op_eqs fn_eqs never_canceled slice_Next_def slice_Open_def slice_Close_def topn_Open_def
      slice_ready_def loop_eqs track_eqs value_eqs heap_Push_def heap_Pop_def swap_at_def small_heap sample_rows_def
      sequence_rows_def bslice_def sample_run_def default_budget_def DefaultBatchSize_def no_usage_def reserve_def
      new_fields_def limit_Next_def projection_Next_def topn_load_def sortRows_def SliceStable_def sort_less_def
      rowOrderLess_def nextBatch_def unary_fail_def page_eqs del: rowOrderValues.simps)
  done

text \<open>Collecting matches takes the first two rows as they come.\<close>

lemma sample_collect_plan:
  "plan_page sample_query (plan_filter sample_opts sample_query PSource) = PLimit 2 PSource"
  by (simp add: plan_page_def plan_filter_def sample_query_def)

lemma sample_matches:
  "(case fst (CollectMatches never sample_env (slice_source never) 20 sample_query sample_opts sample_source sample_run) of
      Inl e \<Rightarrow> None | Inr m \<Rightarrow> Some (mt_Rows m)) = Some [edge_row (VInt (2 ^ 54)) 0, edge_row (VInt (2 ^ 53 + 1)) 1]"
  by (simp add: CollectMatches_def sample_collect_plan drain_def sample_source_def NewSliceSource_def)
    (simp add: on_eqs op_eqs fn_eqs never_canceled slice_Next_def slice_Open_def slice_Close_def
      slice_ready_def loop_eqs track_eqs value_eqs sample_rows_def
      sequence_rows_def bslice_def sample_run_def default_budget_def DefaultBatchSize_def no_usage_def
      new_fields_def limit_Next_def del: rowOrderValues.simps)

end
