(* ===== verification/Query_Properties.thy ===== *)
theory Query_Properties
  imports Query_Sample
begin

text \<open>
  The properties of query execution: a result is what the clauses of the query mean, whatever operators compute
  it; the pages of a result are all of it; the tracker counts exactly and within its budget, and gets all
  memory back; and two places where the code falls short, the order of mixed values and a parameter that refers
  to itself.
\<close>

section \<open>Rows given by a list\<close>

lemma length_sequence_rows [simp]: "length (sequence_rows k rows) = length rows"
  by (simp add: sequence_rows_def)

lemma nth_sequence_rows: "i < length rows \<Longrightarrow> sequence_rows k rows ! i = (rows ! i)\<lparr>br_Sequence := of_nat (k + i)\<rparr>"
  by (simp add: sequence_rows_def nth_enumerate_eq)

lemma sequence_rows_slice:
  assumes "o1 \<le> o2" "o2 \<le> length rows"
  shows "drop o1 (sequence_rows 0 rows) = sequence_rows o1 (bslice o1 o2 rows) @ drop o2 (sequence_rows 0 rows)"
  by (rule nth_equalityI) (use assms in \<open>auto simp: nth_append nth_sequence_rows bslice_def min_def ac_simps\<close>)

lemma slice_streams:
  assumes "0 < sl_batchSize s" "sl_opened s" "\<not> sl_closed s" "length (sl_rows s) - sl_offset s \<le> n"
  shows "streams L (slice_source cn) n s (drop (sl_offset s) (sequence_rows 0 (sl_rows s)))"
  using assms
proof (induction n arbitrary: s rule: less_induct)
  case (less n)
  have ready: "slice_ready cn name s r = (x, s1, r1) \<Longrightarrow> (x = None \<and> s1 = s) \<or> (\<exists>e. x = Some (Fail e))" for name r x s1 r1
    using less.prems(2,3) by (auto simp: slice_ready_def split: prod.splits option.splits)
  show ?case
  proof (rule streamsI)
    fix r e s1 r1 assume "op_Next (slice_source cn) s r = (Inl e, s1, r1)" "e = Diverge"
    then show False
      by (auto simp: slice_source_def slice_Next_def Let_def split: prod.splits option.splits if_splits dest: ready)
  next
    fix r s1 r1 assume "op_Next (slice_source cn) s r = (Inl EOF, s1, r1)"
    then show "drop (sl_offset s) (sequence_rows 0 (sl_rows s)) = []"
      by (auto simp: slice_source_def slice_Next_def Let_def split: prod.splits option.splits if_splits dest: ready)
  next
    fix r b s1 r1 assume "op_Next (slice_source cn) s r = (Inr b, s1, r1)"
    then have n: "slice_Next cn s r = (Inr b, s1, r1)" by (simp add: slice_source_def)
    obtain x s2 r2 where x: "slice_ready cn ''read slice source'' s r = (x, s2, r2)" by (metis prod_cases3)
    with ready [OF x] n have s2: "x = None" "s2 = s" by (auto simp: slice_Next_def)
    define stop where "stop = min (sl_offset s + sl_batchSize s) (length (sl_rows s))"
    have more: "sl_offset s < length (sl_rows s)" using n x s2 by (auto simp: slice_Next_def split: if_splits)
    then have res: "b = sequence_rows (sl_offset s) (bslice (sl_offset s) stop (sl_rows s))" "s1 = s\<lparr>sl_offset := stop\<rparr>"
      using n x s2 by (auto simp: slice_Next_def Let_def stop_def split: prod.splits option.splits if_splits)
    have stop: "sl_offset s < stop" "stop \<le> length (sl_rows s)" using more less.prems(1) by (auto simp: stop_def)
    obtain m where m: "n = Suc m" using more less.prems(4) by (cases n) auto
    have "streams L (slice_source cn) m s1 (drop (sl_offset s1) (sequence_rows 0 (sl_rows s1)))"
      by (rule less.IH) (use m res(2) less.prems stop in auto)
    then show "\<exists>m ys. n = Suc m \<and> drop (sl_offset s) (sequence_rows 0 (sl_rows s)) = b @ ys \<and>
        streams L (slice_source cn) m s1 ys"
      using m res sequence_rows_slice [of "sl_offset s" stop "sl_rows s"] stop by auto
  qed
qed

lemma slice_opens:
  "0 < sl_batchSize s \<Longrightarrow> opens L (slice_source cn) (length (sl_rows s)) s (sequence_rows 0 (sl_rows s))"
  unfolding opens_def
proof (intro allI impI)
  fix r s1 r1 assume s: "0 < sl_batchSize s" and o: "op_Open (slice_source cn) s r = (None, s1, r1)"
  then have s1: "s1 = s\<lparr>sl_offset := 0, sl_opened := True, sl_closed := False\<rparr>"
    by (auto simp: slice_source_def slice_Open_def split: prod.splits option.splits if_splits)
  with slice_streams [of s1 "length (sl_rows s)"] s
  show "streams L (slice_source cn) (length (sl_rows s)) s1 (sequence_rows 0 (sl_rows s))" by simp
qed

section \<open>Pages\<close>

lemma is_digit_plain: "is_digit c \<Longrightarrow> plain_char c"
  by (simp add: is_digit_def plain_char_def)

lemma dec_string_hd_last: "is_digit (hd (dec_string n))" "is_digit (last (dec_string n))"
  using dec_string_digits [of n] by (simp_all add: list_all_iff)

lemma atoi_dec_int: "0 \<le> i \<Longrightarrow> i < 2 ^ 63 \<Longrightarrow> atoi (dec_int i) = Some i"
proof -
  assume i: "0 \<le> i" "i < 2 ^ 63"
  have d: "is_digit (hd (dec_string (nat i)))" by (rule dec_string_hd_last)
  then have "hd (dec_string (nat i)) \<noteq> CHR ''-''" "hd (dec_string (nat i)) \<noteq> CHR ''+''"
    by (auto simp: is_digit_def)
  with i dec_string_digits [of "nat i"] show ?thesis
    by (simp add: atoi_def dec_int_def decimal_def undigits_dec_string Let_def)
qed

lemma TrimSpace_dec_int: "0 \<le> i \<Longrightarrow> TrimSpace (dec_int i) = dec_int i \<and> dec_int i \<noteq> []"
  using TrimSpace_plain [OF dec_string_nonempty, of "nat i"] dec_string_hd_last [of "nat i"]
  by (simp add: dec_int_def is_digit_plain)

text \<open>The cursor of a page leads to the place where the page ends.\<close>

lemma next_cursor:
  assumes "paginationBounds sz cursor = Inr (start, psize)" "start + psize < 2 ^ 63"
  shows "paginationBounds sz (dec_int (sint (word_of_int (start + psize) :: u64))) = Inr (start + psize, psize)"
proof -
  note b = paginationBounds_range [OF assms(1)]
  have w: "sint (word_of_int (start + psize) :: u64) = start + psize"
    using b assms(2) by (intro sint_of_int_in_range) auto
  have ps: "psize = (if sint sz \<le> 0 \<or> maxPageSize < sint sz then maxPageSize else sint sz)"
    using assms(1) by (auto simp: paginationBounds_def Let_def split: if_splits option.splits)
  have "0 \<le> start + psize" using b by simp
  with atoi_dec_int [of "start + psize"] TrimSpace_dec_int [of "start + psize"] assms(2) ps
  show ?thesis unfolding w by (simp add: paginationBounds_def Let_def)
qed

text \<open>
  A client that asks for page after page: it gets the rows of a page and the cursor of the next, from the rows
  of the query that the page's pipeline reads, one more than the page has.
\<close>

definition fetch_page :: "BindingRow list \<Rightarrow> u32 \<Rightarrow> string \<Rightarrow> exec_error + BindingRow list \<times> string" where
  "fetch_page xs sz cursor =
     (case paginationBounds sz cursor of
        Inl e \<Rightarrow> Inl e
      | Inr (start, psize) \<Rightarrow> paginateRows (take (nat psize + 1) (drop (nat start) xs)) sz cursor)"

fun fetch_all :: "nat \<Rightarrow> BindingRow list \<Rightarrow> u32 \<Rightarrow> string \<Rightarrow> BindingRow list option" where
  "fetch_all 0 xs sz cursor = None"
| "fetch_all (Suc k) xs sz cursor =
     (case fetch_page xs sz cursor of
        Inl e \<Rightarrow> None
      | Inr (rows, following) \<Rightarrow>
          if following = [] then Some rows
          else (case fetch_all k xs sz following of None \<Rightarrow> None | Some rest \<Rightarrow> Some (rows @ rest)))"

lemma fetch_page_rows:
  assumes "paginationBounds sz cursor = Inr (start, psize)" "\<forall>row \<in> set xs. br_Cursor row = []"
  shows "fetch_page xs sz cursor = Inr (take (nat psize) (drop (nat start) xs),
    if length xs \<le> nat start + nat psize then [] else dec_int (sint (word_of_int (start + psize) :: u64)))"
proof (cases "length xs \<le> nat start + nat psize")
  case True
  then have "length xs - nat start \<le> nat psize" by simp
  with True show ?thesis by (simp add: fetch_page_def paginateRows_def assms(1))
next
  case False
  then have "xs ! (nat start + nat psize) \<in> set xs" by simp
  with False assms show ?thesis by (auto simp: fetch_page_def paginateRows_def min_def)
qed

lemma fetch_all_from:
  assumes "\<forall>row \<in> set xs. br_Cursor row = []" "int (length xs) < 2 ^ 62"
  shows "paginationBounds sz cursor = Inr (start, psize) \<Longrightarrow> length xs - nat start < k \<Longrightarrow>
     fetch_all k xs sz cursor = Some (drop (nat start) xs)"
proof (induction k arbitrary: cursor start)
  case (Suc k)
  note b = paginationBounds_range [OF Suc.prems(1)]
  note page = fetch_page_rows [OF Suc.prems(1) assms(1)]
  show ?case
  proof (cases "length xs \<le> nat start + nat psize")
    case True
    with page show ?thesis by simp
  next
    case False
    then have "int (nat start + nat psize) < int (length xs)" by linarith
    then have lt: "start + psize < 2 ^ 63" using assms(2) b by simp
    note nc = next_cursor [OF Suc.prems(1) lt]
    have nat: "nat (start + psize) = nat start + nat psize" using b by (simp add: nat_add_distrib)
    have ne: "dec_int (sint (word_of_int (start + psize) :: u64)) \<noteq> []" by (simp add: dec_int_def)
    have "fetch_all k xs sz (dec_int (sint (word_of_int (start + psize) :: u64))) = Some (drop (nat (start + psize)) xs)"
      by (rule Suc.IH [OF nc]) (use Suc.prems(2) b False nat in linarith)
    then show ?thesis using page False ne nat by (simp add: append_take_drop_id flip: drop_drop) (metis append_take_drop_id drop_drop add.commute)
  qed
qed simp

section \<open>Results\<close>

text \<open>C5. Shaping a query over any source of rows ends, given fuel for one more batch than there are rows and
  operators, and when it gives a result and not an error its rows are exactly what the clauses of the query
  mean on the rows of the source, one after the other: predicate, aggregates, DISTINCT, order, projection, offset, limit
  and page. It does not matter in which batches rows come nor that the first rows of an order are found
  with a heap, where the values ordered by have an order.\<close>

theorem Shape_meets_reference:
  assumes "row_source S" "opens (limits r) S n s xs" "0 < sint (BatchSize (limits r))" "topn_orderly xe opts q xs"
    "n + length xs + 8 < k" "n + length xs + 8 < 2 ^ 63" "Shape cn xe S k q opts s r = (res, s1, r1)"
  shows "case res of Inl e \<Rightarrow> (\<exists>x. e = Fail x)
    | Inr R \<Rightarrow> rs_Rows R = map br_Projected (page_rows q (query_rows xe opts q xs))"
  using Shape_cases [OF assms(1-3) refl assms(4-7)] by auto

lemma Shape_meets_reference_witness:
  "\<exists>R. fst (Shape never sample_env (slice_source never) 20 sample_query sample_opts sample_source sample_run) = Inr R \<and>
     rs_Rows R = map br_Projected (page_rows sample_query (query_rows sample_env sample_opts sample_query
       (sequence_rows 0 (sl_rows sample_source)))) \<and>
     rs_Rows R = [[(''x'', CellScalar (QInteger (2 ^ 53 + 1)))], [(''x'', CellScalar (QInteger (2 ^ 54)))]]"
proof -
  obtain res s1 r1 where sh: "Shape never sample_env (slice_source never) 20 sample_query sample_opts sample_source sample_run =
      (res, s1, r1)" by (metis prod_cases3)
  obtain R where R: "res = Inr R"
    "rs_Rows R = [[(''x'', CellScalar (QInteger (2 ^ 53 + 1)))], [(''x'', CellScalar (QInteger (2 ^ 54)))]]"
    using sample_result unfolding sh fst_conv by (cases res) simp_all
  have "0 < sl_batchSize sample_source" by (simp add: sample_source_def NewSliceSource_def)
  from Shape_meets_reference [OF slice.row_source_axioms slice_opens [OF this] _ sample_orderly _ _ sh]
  have "rs_Rows R = map br_Projected (page_rows sample_query (query_rows sample_env sample_opts sample_query
       (sequence_rows 0 (sl_rows sample_source))))"
    by (simp add: R(1) limits_def sample_run_def default_budget_def DefaultBatchSize_def sample_source_def
        NewSliceSource_def sample_rows_def)
  with R show ?thesis unfolding sh fst_conv by blast
qed

text \<open>C20. A client that asks for page after page, from the first and following the cursor each page comes with, gets
  every row of the query once and in order, whatever the page size, and after as many pages as there are rows
  at most (rows without a cursor of their own).\<close>

theorem pages_are_all_rows:
  assumes "\<forall>row \<in> set xs. br_Cursor row = []" "int (length xs) < 2 ^ 62"
  shows "fetch_all (Suc (length xs)) xs sz [] = Some xs"
proof -
  obtain psize where "paginationBounds sz [] = Inr (0, psize)" by (simp add: paginationBounds_def TrimSpace_def Let_def)
  from fetch_all_from [OF assms this, of "Suc (length xs)"] show ?thesis by simp
qed

lemma pages_are_all_rows_witness: "fetch_all 4 sample_rows 2 [] = Some sample_rows"
proof -
  have "length sample_rows = 3" by (simp add: sample_rows_def)
  moreover have "\<forall>row \<in> set sample_rows. br_Cursor row = []" by (simp add: sample_rows_def edge_row_def empty_row_def)
  ultimately show ?thesis using pages_are_all_rows [of sample_rows 2] by simp
qed

section \<open>Memory\<close>

lemma safeTopN_positive: "safeTopN q = Some n \<Longrightarrow> 0 < n"
  using safeTopN_value [of q n] by simp

lemma plan_filter_positive: "topn_positive (plan_filter opts q p) = topn_positive p"
  by (simp add: plan_filter_def split: option.splits)

lemma plan_shape_positive: "topn_positive (plan_shape opts q p) = topn_positive p"
  by (auto simp: plan_shape_def plan_sort_def Let_def split: option.splits dest: safeTopN_positive)

lemma plan_page_positive: "topn_positive (plan_page q p) = topn_positive p"
  by (simp add: plan_page_def Let_def)

lemma buildPipeline_positive: "buildPipeline q opts = Inr plan \<Longrightarrow> topn_positive plan"
  by (auto simp: buildPipeline_def Let_def plan_page_positive plan_shape_positive plan_filter_positive
      split: sum.splits if_splits)

lemma new_state_balanced:
  assumes "fine s" "held s = 0" "run_ok r"
  shows "balanced (plan_held held) (plan_fine held fine plan) (new_state plan s) r (mem r) \<and> plan_held held (new_state plan s) = 0"
proof -
  have m: "0 \<le> mem r" using assms(3) by (simp add: run_ok_def mem_def within_budget_def)
  have u: "own_ok (new_fields n)" "holds_none (new_fields n)" "holds_keys (new_fields n)" "holds_rows (new_fields n)"
    "own (new_fields n) = 0" "\<not> un_closed (new_fields n)" for n
    by (simp_all add: own_ok_def holds_none_def holds_keys_def holds_rows_def own_def new_fields_def)
  have "plan_held held (new_state plan s) = 0 \<and> plan_fine held fine plan (new_state plan s)"
    by (induction plan) (simp_all add: assms u on_fine_def u_fine_def)
  with m assms(3) show ?thesis by (simp add: balanced_def)
qed

lemma drained_memory:
  assumes "frugal S held fine" "fine s" "held s = 0" "run_ok r" "topn_positive plan"
    "drain cn xe (operator_of cn xe k S plan) account k (new_state plan s) r = (res, s1, r1)"
  shows "run_ok r1 \<and> (case res of Inl e \<Rightarrow> mem r1 = mem r
    | Inr (rows, h) \<Rightarrow> 0 \<le> sint h \<and> mem r1 = mem r + sint h \<and> sint h = rows_cost xe rows)"
  using frugal.drain_books [OF plan_frugal [OF assms(1,5)] assms(6)] new_state_balanced [of fine s held r plan, OF assms(2-4)]
  by blast

lemma given_back:
  assumes "run_ok r" "0 \<le> sint h" "mem r = m + sint h" "0 \<le> m"
  shows "mem (release h r) = m"
  using release_mem(2) [of r h] assms by simp

lemma mem_retained: "mem r1 = mem r \<Longrightarrow>
    us_RetainedMemory (tk_usage (rn_tracker r1)) = us_RetainedMemory (tk_usage (rn_tracker r))"
  by (simp add: mem_def counters_of_def signed_word_eqI)

text \<open>C11. Whatever becomes of a query, a result or an error, out of budget, canceled at any moment or
  failing in an operand, when it has been shaped the tracker's memory is what it was before: every operator gives
  back what it reserved, and so does the loop that collects the rows. The source has to keep the books itself.\<close>

theorem Shape_returns_memory:
  assumes "frugal S held fine" "fine s" "held s = 0" "within_budget (rn_tracker r)"
    "Shape cn xe S k q opts s r = (res, s1, r1)"
  shows "us_RetainedMemory (tk_usage (rn_tracker r1)) = us_RetainedMemory (tk_usage (rn_tracker r))"
proof (rule mem_retained)
  have ok: "run_ok r" using assms(4) by (simp add: run_ok_def)
  have m0: "0 \<le> mem r" using assms(4) by (simp add: mem_def within_budget_def)
  show "mem r1 = mem r"
  proof (cases "ValidatePage (q_Page q) = None \<and> validateAggregates (q_Aggregates q) = None")
    case False
    with assms(5) show ?thesis by (auto simp: Shape_def split: option.splits)
  next
    case valid: True
    show ?thesis
    proof (cases "buildPipeline q opts")
      case (Inl e)
      obtain c s2 r2 where c: "op_Close S s r = (c, s2, r2)" by (metis prod_cases3)
      have "balanced held fine s r (mem r)" using assms(2,3) ok m0 by (simp add: balanced_def)
      from frugal.close_books [OF assms(1) c this] c Inl valid assms(5) show ?thesis
        by (auto simp: Shape_def balanced_def)
    next
      case (Inr plan)
      obtain a s2 r2 where a: "drain cn xe (operator_of cn xe k S plan) True k (new_state plan s) r = (a, s2, r2)"
        by (metis prod_cases3)
      note d = drained_memory [OF assms(1-3) ok buildPipeline_positive [OF Inr] a]
      show ?thesis
      proof (cases a)
        case (Inl e)
        with valid \<open>buildPipeline q opts = Inr plan\<close> a d assms(5) show ?thesis by (simp add: Shape_def)
      next
        case rows: (Inr p)
        obtain rows h where p: "p = (rows, h)" by (cases p)
        with rows d have "mem (release h r2) = mem r" using m0 by (auto intro: given_back)
        with valid \<open>buildPipeline q opts = Inr plan\<close> a rows p assms(5) show ?thesis
          by (auto simp: Shape_def Let_def split: sum.splits prod.splits)
      qed
    qed
  qed
qed

lemma sample_within: "within_budget (rn_tracker sample_run)"
proof -
  have "NewTracker default_budget = Inr (rn_tracker sample_run)"
    by (simp add: NewTracker_def validateBudget_def budget_checks_def default_budget_def DefaultBatchSize_def sample_run_def)
  then show ?thesis by (rule NewTracker_ok(3))
qed

lemma sample_unused: "us_RetainedMemory (tk_usage (rn_tracker sample_run)) = 0"
  by (simp add: sample_run_def no_usage_def)

lemma Shape_returns_memory_witness:
  "us_RetainedMemory (tk_usage (rn_tracker (snd (snd (Shape (\<lambda>n. if n = 9 then Some Canceled else None) sample_env
     (slice_source (\<lambda>n. if n = 9 then Some Canceled else None)) 20 sample_query sample_opts sample_source sample_run))))) = 0"
proof -
  let ?cn = "\<lambda>n::nat. if n = 9 then Some Canceled else None"
  obtain res s1 r1 where sh: "Shape ?cn sample_env (slice_source ?cn) 20 sample_query sample_opts sample_source sample_run =
      (res, s1, r1)" by (metis prod_cases3)
  from Shape_returns_memory [OF slice_books.frugal_axioms _ _ sample_within sh] show ?thesis
    unfolding sh by (simp add: sample_unused)
qed

text \<open>C21. Rows collected for a mutation (\<open>CollectMatches\<close>) stay charged until they are released: while they are
  held the tracker's memory is what it was plus the estimates of all of these rows; releasing them gives back
  exactly that, and a second release changes nothing. A collection that fails takes nothing.\<close>

theorem CollectMatches_returns_memory:
  assumes "frugal S held fine" "fine s" "held s = 0" "within_budget (rn_tracker r)"
    "CollectMatches cn xe S k q opts s r = (res, s1, r1)"
  defines "retained \<equiv> \<lambda>r. sint (us_RetainedMemory (tk_usage (rn_tracker r)))"
  shows "case res of
      Inl e \<Rightarrow> retained r1 = retained r
    | Inr m \<Rightarrow>
        retained r1 = retained r + (\<Sum>row\<leftarrow>mt_Rows m. sint (estimateBindingRow xe row)) \<and>
        (let (m1, r2) = Matches_Release m r1 in retained r2 = retained r \<and> Matches_Release m1 r2 = (m1, r2))"
proof -
  let ?plan = "plan_page q (plan_filter opts q PSource)"
  have ok: "run_ok r" using assms(4) by (simp add: run_ok_def)
  have m0: "0 \<le> mem r" using assms(4) by (simp add: mem_def within_budget_def)
  have mem: "retained r' = mem r'" for r' by (simp add: retained_def mem_def counters_of_def)
  obtain a s2 r2 where a: "drain cn xe (operator_of cn xe k S ?plan) False k (new_state ?plan s) r = (a, s2, r2)"
    by (metis prod_cases3)
  have "topn_positive ?plan" by (simp add: plan_page_positive plan_filter_positive)
  note d = drained_memory [OF assms(1-3) ok this a]
  show ?thesis
  proof (cases a)
    case (Inl e)
    with a d assms(5) show ?thesis by (auto simp: CollectMatches_def Let_def mem)
  next
    case (Inr p)
    obtain rows h where p: "p = (rows, h)" by (cases p)
    with Inr d have "mem (release h r2) = mem r" using m0 by (auto intro: given_back)
    with d a Inr p assms(5) show ?thesis
      by (auto simp: CollectMatches_def Let_def Matches_Release_def mem rows_cost_def)
  qed
qed

lemma CollectMatches_returns_memory_witness:
  "case CollectMatches never sample_env (slice_source never) 20 sample_query sample_opts sample_source sample_run of
      (Inl e, s1, r1) \<Rightarrow> False
    | (Inr m, s1, r1) \<Rightarrow> length (mt_Rows m) = 2 \<and> us_RetainedMemory (tk_usage (rn_tracker r1)) = 132 \<and>
        us_RetainedMemory (tk_usage (rn_tracker (snd (Matches_Release m r1)))) = 0"
proof -
  obtain res s1 r1 where sh: "CollectMatches never sample_env (slice_source never) 20 sample_query sample_opts sample_source
      sample_run = (res, s1, r1)" by (metis prod_cases3)
  obtain m where m: "res = Inr m" "mt_Rows m = [edge_row (VInt (2 ^ 54)) 0, edge_row (VInt (2 ^ 53 + 1)) 1]"
    using sample_matches unfolding sh fst_conv by (cases res) simp_all
  from CollectMatches_returns_memory [OF slice_books.frugal_axioms _ _ sample_within sh]
  have "sint (us_RetainedMemory (tk_usage (rn_tracker r1))) = sint (132 :: u64)"
    "sint (us_RetainedMemory (tk_usage (rn_tracker (snd (Matches_Release m r1))))) = sint (0 :: u64)"
    by (simp_all add: m sample_unused sample_sizes Let_def split_def)
  then show ?thesis unfolding sh by (simp add: m signed_word_eqI)
qed

section \<open>The budget\<close>

text \<open>C12. A tracker counts exactly and keeps the budget: for every sequence of charges, releases and other calls, whatever
  the amounts, it accepts exactly those calls that unbounded integers would, its 64-bit counters are the
  integers' values, and no counter, peak or depth leaves its limit.\<close>

theorem tracker_counts_exactly:
  assumes "NewTracker budget = Inr t"
  shows "(map (\<lambda>e. e = None) (fst (tracker_run cs t)), counters_of (snd (tracker_run cs t))) = exact_run budget cs (\<lambda>_. 0) \<and>
     within_budget (snd (tracker_run cs t))"
  using run_exact [of t cs] run_within [of t cs] NewTracker_ok [OF assms] by simp

lemma tracker_counts_exactly_witness:
  "(map (\<lambda>e. e = None) (fst (tracker_run [Charge Memory (2 ^ 63 - 1), Charge Candidates 7, Release 3] (rn_tracker sample_run))),
    counters_of (snd (tracker_run [Charge Memory (2 ^ 63 - 1), Charge Candidates 7, Release 3] (rn_tracker sample_run)))) =
   ([False, True, True], (\<lambda>_. 0)(Candidates := 7))"
proof -
  have "NewTracker default_budget = Inr (rn_tracker sample_run)"
    by (simp add: NewTracker_def validateBudget_def budget_checks_def default_budget_def DefaultBatchSize_def sample_run_def)
  from tracker_counts_exactly [OF this, of "[Charge Memory (2 ^ 63 - 1), Charge Candidates 7, Release 3]"]
  show ?thesis by (simp add: default_budget_def fun_eq_iff Let_def)
qed

section \<open>Values of different types have no order\<close>

definition mixed_a :: BindingRow where "mixed_a = edge_row (VInt 9007199254740993) 0"
definition mixed_b :: BindingRow where "mixed_b = edge_row (VInt 10000000000000000) 1"
definition mixed_c :: BindingRow where "mixed_c = edge_row (VString ''5'') 2"

lemma mixed_values:
  "rowOrderValues xe ev mixed_a [by_x] = Inr [QInteger 9007199254740993]"
  "rowOrderValues xe ev mixed_b [by_x] = Inr [QInteger 10000000000000000]"
  "rowOrderValues xe ev mixed_c [by_x] = Inr [QString ''5'']"
  by (simp_all add: mixed_a_def mixed_b_def mixed_c_def edge_row_def by_x_def field_x_def eval_value_def resolve_def
      dereferenceField_def eval_field_def empty_row_def nativeFieldValue_def edgeField_def NamespaceProperties_def
      signedNativeValue_def)

lemma mixed_text:
  "dec_int 9007199254740993 = ''9007199254740993''" "dec_int 10000000000000000 = ''10000000000000000''"
  by (simp_all add: dec_int_def dec_string.simps digit_char_def char_of_def bit_0)

lemma mixed_texts: "''10000000000000000'' < ''5''" "''5'' < ''9007199254740993''" "parse_date ''5'' = None"
  by code_simp+

text \<open>An integer and a text that is no date are compared as texts.\<close>

lemma compare_integers: "compareValues ve (QInteger i) (QInteger j) = three_way (sint i) (sint j)"
  by (simp add: compareValues_def comparableDate_def exactNumericValue_def three_way_def del: of_int_sint)

lemma compare_integer_text:
  assumes "parse_date s = None"
  shows "compareValues ve (QInteger i) (QString s) = three_way (dec_int (sint i)) s"
    "compareValues ve (QString s) (QInteger i) = three_way s (dec_int (sint i))"
  using assms by (simp_all add: compareValues_def comparableDate_def exactNumericValue_def valueString_of_def)

lemma row_less_values:
  assumes "rowOrderValues xe ev l [od] = Inr [v]" "rowOrderValues xe ev r [od] = Inr [w]" "\<not> od_Descending od"
    "eval_compare xe v w \<noteq> 0"
  shows "rowOrderLess xe ev [od] l r = Inr (eval_compare xe v w < 0)"
  using assms by (simp add: rowOrderLess_def del: rowOrderValues.simps)

text \<open>Where comparisons form a cycle no arrangement is in order: the first row has its predecessor behind it.\<close>

lemma cycle_unsorted:
  assumes "lt a b" "lt b c" "lt c a" "\<not> lt b a" "mset ys = {#a, b, c#}"
  shows "\<not> sorted_wrt (\<lambda>x y. \<not> lt y x) ys"
proof
  assume sorted: "sorted_wrt (\<lambda>x y. \<not> lt y x) ys"
  obtain h t where ys: "ys = h # t" using assms(5) by (cases ys) auto
  have set: "set ys = {a, b, c}" using assms(5) by (metis set_mset_add_mset_insert set_mset_empty set_mset_mset)
  have irr: "a \<noteq> b" "b \<noteq> c" "c \<noteq> a" using assms(1-4) by auto
  have "h = a \<or> h = b \<or> h = c" using set ys by auto
  then obtain p where p: "p \<in> {a, b, c}" "lt p h" "p \<noteq> h" using assms(1-3) irr by blast
  have "p \<in> set t" using p(1,3) ys unfolding set [symmetric] by simp
  then show False using sorted ys p(2) by simp
qed

text \<open>C40. The comparison of ORDER BY is cyclic: an integer is before every greater one, but integers and texts
  are compared as texts, so for many texts the greater integer is before the text and the text before the
  smaller integer. Three rows with such values have no order: in every arrangement some row comes behind one
  that it is less than, and what the sort gives depends on the order in which the rows come, as three of their
  six orders show, each ending in another one.\<close>

theorem mixed_order_follows_input:
  assumes "sint i < sint j" "dec_int (sint j) < s" "s < dec_int (sint i)" "parse_date s = None" "\<not> od_Descending od"
    "rowOrderValues xe ev a [od] = Inr [QInteger i]" "rowOrderValues xe ev b [od] = Inr [QInteger j]"
    "rowOrderValues xe ev c [od] = Inr [QString s]"
  shows "compareValues ve (QInteger i) (QInteger j) < 0 \<and> compareValues ve (QInteger j) (QString s) < 0 \<and>
      compareValues ve (QString s) (QInteger i) < 0 \<and>
    (\<forall>ys. mset ys = {#a, b, c#} \<longrightarrow> \<not> sorted_wrt (\<lambda>x y. rowOrderLess xe ev [od] y x = Inr False) ys) \<and>
    sortRows xe ev [od] [b, a, c] = ([a, b, c], None) \<and> sortRows xe ev [od] [c, b, a] = ([b, c, a], None) \<and>
    sortRows xe ev [od] [a, c, b] = ([c, a, b], None)"
proof -
  note rows = row_less_values [OF assms(6,7,5)] row_less_values [OF assms(7,6,5)] row_less_values [OF assms(7,8,5)]
    row_less_values [OF assms(8,7,5)] row_less_values [OF assms(8,6,5)] row_less_values [OF assms(6,8,5)]
  have cmp: "compareValues e (QInteger i) (QInteger j) = - 1" "compareValues e (QInteger j) (QInteger i) = 1"
    "compareValues e (QInteger j) (QString s) = - 1" "compareValues e (QString s) (QInteger j) = 1"
    "compareValues e (QString s) (QInteger i) = - 1" "compareValues e (QInteger i) (QString s) = 1" for e
    using assms(1-3) by (simp_all add: compare_integers compare_integer_text [OF assms(4)] three_way_def)
  have less: "rowOrderLess xe ev [od] a b = Inr True" "rowOrderLess xe ev [od] b a = Inr False"
    "rowOrderLess xe ev [od] b c = Inr True" "rowOrderLess xe ev [od] c b = Inr False"
    "rowOrderLess xe ev [od] c a = Inr True" "rowOrderLess xe ev [od] a c = Inr False"
    using rows cmp by (simp_all add: eval_compare_def)
  have "\<not> sorted_wrt (\<lambda>x y. rowOrderLess xe ev [od] y x = Inr False) ys" if ys: "mset ys = {#a, b, c#}" for ys
  proof -
    have "\<not> sorted_wrt (\<lambda>x y. \<not> rowOrderLess xe ev [od] y x = Inr True) ys"
      by (rule cycle_unsorted [OF less(1,3,5) _ ys]) (simp add: less)
    then show ?thesis
      using sorted_wrt_mono_rel [of ys "\<lambda>x y. rowOrderLess xe ev [od] y x = Inr False"
          "\<lambda>x y. \<not> rowOrderLess xe ev [od] y x = Inr True"] by auto
  qed
  then show ?thesis using cmp less by (simp add: sortRows_def SliceStable_def sort_less_def)
qed

lemma mixed_order_follows_input_witness:
  "sortRows sample_env (query_evaluator sample_opts) [by_x] [mixed_b, mixed_a, mixed_c] = ([mixed_a, mixed_b, mixed_c], None) \<and>
   sortRows sample_env (query_evaluator sample_opts) [by_x] [mixed_c, mixed_b, mixed_a] = ([mixed_b, mixed_c, mixed_a], None)"
proof -
  have "sint (9007199254740993 :: u64) < sint (10000000000000000 :: u64)"
    "dec_int (sint (10000000000000000 :: u64)) < ''5''" "''5'' < dec_int (sint (9007199254740993 :: u64))"
    using mixed_texts(1,2) by (simp_all add: mixed_text)
  from mixed_order_follows_input [OF this mixed_texts(3) _ mixed_values] show ?thesis by (simp add: by_x_def)
qed

section \<open>Parameters\<close>

definition linked :: "(string \<times> qvalue) list \<Rightarrow> qvalue \<Rightarrow> bool" where
  "linked ps v \<longleftrightarrow> (\<exists>p w. v = QParameter p \<and> map_of ps p = Some w)"

definition follow :: "(string \<times> qvalue) list \<Rightarrow> qvalue \<Rightarrow> qvalue" where
  "follow ps v = (case v of QParameter p \<Rightarrow> the (map_of ps p) | _ \<Rightarrow> v)"

lemma resolve_overflow:
  "resolve_fuel k xe ps v = Inl StackOverflow \<longleftrightarrow> (\<forall>i<k. linked ps ((follow ps ^^ i) v))"
proof (induction k arbitrary: v)
  case (Suc k)
  have "resolve_fuel (Suc k) xe ps v = Inl StackOverflow \<longleftrightarrow>
      linked ps v \<and> resolve_fuel k xe ps (follow ps v) = Inl StackOverflow"
    by (cases v) (auto simp: linked_def follow_def executionInvalid_def split: option.splits)
  also have "\<dots> \<longleftrightarrow> linked ps v \<and> (\<forall>i<k. linked ps ((follow ps ^^ Suc i) v))"
    by (simp only: Suc.IH funpow_Suc_right comp_def)
  also have "\<dots> \<longleftrightarrow> (\<forall>i<Suc k. linked ps ((follow ps ^^ i) v))"
    by (auto simp: less_Suc_eq_0_disj simp del: funpow.simps(2))
  finally show ?case .
qed simp

lemma links_repeat:
  assumes "\<forall>i<Suc (length ps). linked ps ((follow ps ^^ i) v)"
  shows "\<exists>i j. i < j \<and> j \<le> length ps \<and> (follow ps ^^ i) v = (follow ps ^^ j) v"
proof -
  let ?x = "\<lambda>i. (follow ps ^^ i) v"
  have "?x ` {..length ps} \<subseteq> QParameter ` fst ` set ps"
  proof
    fix y assume "y \<in> ?x ` {..length ps}"
    then obtain i where i: "y = ?x i" "i < Suc (length ps)" by auto
    with assms have "linked ps y" by blast
    then show "y \<in> QParameter ` fst ` set ps" by (auto simp: linked_def dest!: map_of_SomeD intro!: imageI) force
  qed
  then have "card (?x ` {..length ps}) \<le> card (QParameter ` fst ` set ps)" by (rule card_mono [rotated]) simp
  also have "\<dots> \<le> length ps"
    by (metis card_image_le card_length finite_imageI finite_set le_trans length_map list.set_map)
  finally have "\<not> inj_on ?x {..length ps}" by (auto dest: card_image)
  then obtain i j where "i \<noteq> j" "i \<le> length ps" "j \<le> length ps" "?x i = ?x j" by (auto simp: inj_on_def)
  then show ?thesis by (metis linorder_neqE_nat)
qed

text \<open>A parameter may stand for another one; following as many of them as there are is enough: either that gives a
  value or an error, or the parameters refer to each other in a circle and the code, which follows them without
  a bound, never returns.\<close>

theorem resolve_ends:
  "resolve xe ps v = Inl StackOverflow \<longleftrightarrow> (\<forall>k. resolve_fuel k xe ps v = Inl StackOverflow)"
proof
  assume "resolve xe ps v = Inl StackOverflow"
  then have links: "\<forall>i<Suc (length ps). linked ps ((follow ps ^^ i) v)" by (simp only: resolve_def resolve_overflow)
  from links_repeat [OF this] obtain i j where ij: "i < j" "j \<le> length ps" "(follow ps ^^ i) v = (follow ps ^^ j) v" by blast
  have "linked ps ((follow ps ^^ k) v)" for k
  proof (induction k rule: less_induct)
    case (less k)
    show ?case
    proof (cases "k < Suc (length ps)")
      case True
      with links show ?thesis by blast
    next
      case False
      with ij have k: "k = (k - j) + j" by simp
      have "(follow ps ^^ k) v = (follow ps ^^ (k - j)) ((follow ps ^^ j) v)" by (subst k) (simp add: funpow_add)
      also have "\<dots> = (follow ps ^^ ((k - j) + i)) v" by (simp add: ij(3) funpow_add)
      finally show ?thesis using less [of "(k - j) + i"] ij(1) k by simp
    qed
  qed
  then show "\<forall>k. resolve_fuel k xe ps v = Inl StackOverflow" by (simp add: resolve_overflow)
qed (simp add: resolve_def)

end
