(* ===== verification/Spec2Isabelle.thy ===== *)
theory Spec2Isabelle
  imports Wal_Properties Index_Properties Storage_Properties Codec_Properties Txn_Properties Recovery_Properties Raft_Group_Properties
    Query_Properties
begin

text \<open>
  A model of MycelDB (Go), translated from its sources, with the theorems that make it correct.

  \<^bold>\<open>The program.\<close> MycelDB is a graph database. A graph store (\<open>internal/graph/storage\<close>) keeps nodes and edges
  of a space in memory, with derived indexes and the versions of every entity, and writes each
  commit to three segment files; opening the files rebuilds the memory. Above it a write-ahead log
  (\<open>internal/wal\<close>) records what the modules of a server did and replays it to them; in a cluster the records
  become commands of a raft group (\<open>internal/clustering/consensus\<close>), which applies them to a state machine, one
  of which runs the appliers of the log, and keeps its own files. Files are replaced atomically
  (\<open>internal/filestore\<close>) and may be encrypted record by record (\<open>internal/encryption\<close>). A query
  runs as a stack of operators over a source of rows (\<open>internal/query/execution\<close>), within a budget that
  a tracker keeps.

  \<^bold>\<open>Conventions.\<close> A struct is a record, a Go enumeration a datatype, an \<open>int64\<close> or \<open>uint64\<close> a 64-bit word
  (\<open>int64\<close> read with \<^const>\<open>sint\<close>), a string a list of 8-bit characters, a map either a function to
  options or an association list, an error a value of a sum type. An operation takes the state and gives the
  new one. What comes from outside is an argument: the context, the clock, random bytes, and the outcome of
  every write and sync, which may fail after any number of bytes. Methods that hold one mutex throughout are
  one step. Code that is not in the repository is a parameter with its documented behaviour as a named
  hypothesis: AES-GCM (\<open>gcm_ok\<close>, \<open>cipher_ok\<close>), the text of identifiers (\<open>uuid_string_ok\<close>), JSON
  (\<open>json_codec\<close> and the environments of the raft theories), SHA-256, and \<open>go.etcd.io/raft\<close> with its memory
  storage and its protobuf encoding. Properties with such hypotheses are applied to concrete instances.

  \<^bold>\<open>Write-ahead log\<close> (\<open>internal/wal\<close>). \<^theory_text>\<open>Wal_Codec\<close> has the frames (\<open>codec.go\<close>), \<^theory_text>\<open>Wal_Manager\<close> the manager,
  its segments, iterators and retention (\<open>manager.go\<close>, \<open>reader.go\<close>, \<open>checkpoint.go\<close>), \<^theory_text>\<open>Wal_Recovery\<close> the registry,
  the stored position and the replay (\<open>registry.go\<close>, \<open>progress.go\<close>, \<open>recovery.go\<close>). \<^theory_text>\<open>Wal_Log\<close> says what a
  directory means, a list of segments in LSN order, and how each operation changes that list. \<^theory_text>\<open>Wal_Properties\<close>:
  appends are durable and atomic under crashes, recovery applies the pending records in order and never
  stores a position ahead of them, retention keeps what it must; and two runs after which the log does not open.
  \<^theory_text>\<open>Filestore\<close> and \<^theory_text>\<open>Encryption\<close> are the packages of those names.

  \<^bold>\<open>Graph store, data\<close> (\<open>internal/graph\<close>). \<^theory_text>\<open>Graph_Model\<close> has nodes, edges, values and their normalisation
  (\<open>model\<close>), \<^theory_text>\<open>Ordered_Tree\<close> the treap (\<open>ordered_tree.go\<close>) with its specification as a sorted
  list, \<^theory_text>\<open>Adjacency_Index\<close> the endpoint index (\<open>adjacency\<close>), \<^theory_text>\<open>Index_Codec\<close> sortable keys and cursors
  (\<open>index_codec.go\<close>), \<^theory_text>\<open>Graph_Segment\<close> the segment files (\<open>segment.go\<close>), \<^theory_text>\<open>Graph_Codec\<close> the payload of records
  (\<open>codec.go\<close>). \<^theory_text>\<open>Derived_Index\<close> and \<^theory_text>\<open>Entity_History\<close> are the contracts of the derived indexes and of the
  versions, interpreted on the model's own functions; \<^theory_text>\<open>Index_Properties\<close>, \<^theory_text>\<open>Storage_Properties\<close> and
  \<^theory_text>\<open>Codec_Properties\<close> hold the claims, \<^theory_text>\<open>Segment_Facts\<close> what a segment file means.

  \<^bold>\<open>Graph store, state\<close> (\<open>store.go\<close>, \<open>txn.go\<close>, \<open>idempotency.go\<close>, \<open>index_store.go\<close>, \<open>index_maintenance.go\<close>).
  \<^theory_text>\<open>Graph_Nodes\<close> and \<^theory_text>\<open>Graph_Edges\<close> are the two halves of the state with every index and its upkeep, \<^theory_text>\<open>Graph_State\<close>
  the whole, \<^theory_text>\<open>Graph_Store\<close> and \<^theory_text>\<open>Graph_Scans\<close> the reads and index scans, \<^theory_text>\<open>Graph_Config\<close> the configuration of
  indexes, \<^theory_text>\<open>Graph_Txn\<close> transactions with conflict checks, idempotency and the commit with every failure of its
  writes, \<^theory_text>\<open>Graph_Idempotency\<close> the idempotency calls between commits, \<^theory_text>\<open>Graph_Recovery\<close> the opening.
  \<^theory_text>\<open>Txn_Facts\<close>, \<^theory_text>\<open>Store_Invariant\<close> and \<^theory_text>\<open>Store_Steps\<close> prove the invariant of every reachable store;
  \<^theory_text>\<open>Replay_Facts\<close>, \<^theory_text>\<open>Recovery_Facts\<close>, \<^theory_text>\<open>Recovery_Invariant\<close> and \<^theory_text>\<open>Recovery_Runs\<close> relate the memory to the three
  segments; \<^theory_text>\<open>Txn_Properties\<close> and \<^theory_text>\<open>Recovery_Properties\<close> hold the claims: commits are atomic in memory and
  over crashes, the first committer wins, retries are replayed, and opening rebuilds the store.

  \<^bold>\<open>Raft\<close> (\<open>internal/clustering\<close>). \<^theory_text>\<open>Raft_Storage\<close> is \<open>storage.go\<close>: five files and a log of frames behind a memory
  storage, whose contract is \<^theory_text>\<open>Raft_Memory\<close>; \<^theory_text>\<open>Raft_Facts\<close> and \<^theory_text>\<open>Raft_Steps\<close> keep files and memory in step.
  \<^theory_text>\<open>Raft_Command\<close> has commands and partitions, \<^theory_text>\<open>Raft_System\<close> the system state machine, \<^theory_text>\<open>Raft_Group\<close> the group:
  readies, proposals, reads, applying, snapshots, restart. \<^theory_text>\<open>Raft_Group_Runs\<close> states the contract of state
  machines as locales, interpreted on the model's machines, and the invariant of runs; \<^theory_text>\<open>Raft_Channels\<close> follows
  the channels callers wait on. \<^theory_text>\<open>Raft_Properties\<close> and \<^theory_text>\<open>Raft_Group_Properties\<close> hold the claims: what is stored
  survives a restart, a restarted group has the state of the running one, one outcome per caller.

  \<^bold>\<open>Query execution\<close> (\<open>internal/query\<close>). \<^theory_text>\<open>Query_Budget\<close> is the budget and its tracker (\<open>budget.go\<close>),
  \<^theory_text>\<open>Query_Values\<close> the typed values and their comparison, \<^theory_text>\<open>Query_Evaluate\<close> and \<^theory_text>\<open>Query_Rows\<close> operands, predicates,
  projection and the order of rows (\<open>logical/model.go\<close>, \<open>evaluate.go\<close>), \<^theory_text>\<open>Query_Stream\<close> and \<^theory_text>\<open>Query_Blocking\<close> the
  operators (\<open>operators_stream.go\<close>, \<open>operators_blocking.go\<close>), each a record of the methods \<open>Open\<close>, \<open>Next\<close> and \<open>Close\<close> on its
  state and the state they share, \<^theory_text>\<open>Query_Pipeline\<close> the stack of a query, draining it and paging (\<open>execute.go\<close>).
  \<^theory_text>\<open>Query_Contract\<close>, \<^theory_text>\<open>Query_Loads\<close> and \<^theory_text>\<open>Query_Reference\<close> state as a locale what an operator keeps and say which
  rows each operator streams; \<^theory_text>\<open>Query_Heap\<close> and \<^theory_text>\<open>Query_TopN\<close> show that Top-N's heap gives the first rows of the
  sorted ones, \<^theory_text>\<open>Query_Shape\<close> that the pipeline gives what the clauses of a query mean; \<^theory_text>\<open>Query_Memory\<close> and
  \<^theory_text>\<open>Query_Retained\<close> follow the memory every operator has reserved, the second contract. \<^theory_text>\<open>Query_Sample\<close> runs a sample query
  by rewriting, \<^theory_text>\<open>Query_Properties\<close> holds
  the claims. The source of rows is any operator that meets the contracts, and the source of given rows, \<open>SliceSource\<close>,
  does. A result that is an error says nothing about rows, but its memory is given back as well.

  \<^bold>\<open>Fuel.\<close> Loops over bytes and files take fuel that their callers set above the length of what they read:
  each step of \<open>decode\<close>, \<open>scan\<close> and \<open>iterate\<close> functions consumes at least one byte or one file, so it is never used
  up; for the nested values of a record this is the theorem \<open>decoding_ends\<close>. \<open>sort.Search\<close> halves an
  interval, with its length as fuel. A loop over an operator's batches has fuel for the batches; a source of
  \<open>m\<close> rows in at most \<open>n\<close> batches needs more than \<open>n + m + 8\<close>, as a query stacks at most eight operators and
  each adds at most one batch; where the fuel ends is the error \<open>Diverge\<close>, which is shown not to come up.

  \<^bold>\<open>Not modelled.\<close> Checkpoint files and persistent index snapshots of the graph store, which shorten
  opening; a second segment of a kind, which the code never creates; timings, metrics and logging; the
  text of \<open>IndexMetadata.Error\<close>; the background recoveries of a raft member that joins; the raft protocol
  itself and the transport. Of queries: parsing of GQL (generated by ANTLR), planning and the operators that
  read the graph; a tracker that is \<open>nil\<close>; the difference of a map that is \<open>nil\<close> from an empty one;
  \<open>sort.SliceStable\<close> on more than twenty rows whose comparison is not an order. The graph service, the change feed, sessions,
  identity, spaces, blobs, backups, search, inference, automation, the daemon and the command line are outside
  this development; the manifest lists them with the reasons.
\<close>

end
